(* ===== verification/Prelude.thy ===== *)
theory Prelude
  imports Complex_Main "HOL-Library.Word"
begin

section \<open>Prelude: exceptions, results and list helpers\<close>

text \<open>
  What every component shares. A Python exception is a value of \<open>exn\<close>; a call that can
  raise returns \<open>'a result\<close>, with \<open>Inl\<close> the exception. Exception messages are not
  modelled, exception classes are: \<open>is_value_error\<close> is the subclass relation that an
  \<^verbatim>\<open>except ValueError\<close> clause sees (\<^verbatim>\<open>DecodeError\<close>, \<^verbatim>\<open>ProtoError\<close> and
  \<^verbatim>\<open>AdError\<close> derive from \<^verbatim>\<open>ValueError\<close>). The collections
  \<open>result_simps\<close>, \<open>byte_simps\<close> and \<open>inv_intros\<close> gather the facts the component
  proofs use.
\<close>

named_theorems result_simps "equations that evaluate binds of results"
named_theorems byte_simps "lengths and round trips of byte encodings"
named_theorems inv_intros "preservation of the components' invariants"

datatype exn =
    ValueError | TypeError | KeyError | IndexError | OverflowError | RuntimeError
  | OSError | TimeoutError | FileNotFoundError | AssertionError
  | StructError
  | DecodeError | ProtoError | AdError | HciError
  | LinkError | LinkRejected int int | RelayError
  | ControlError | ProtocolError | InterfaceError
  | UnitMismatch | UnknownColumn | ZeroDivisionError | SystemExit

type_synonym 'a result = "exn + 'a"

definition is_value_error :: "exn \<Rightarrow> bool" where
  "is_value_error e \<longleftrightarrow>
     e \<in> {ValueError, DecodeError, ProtoError, AdError, ProtocolError, UnitMismatch, UnknownColumn}"

subsection \<open>Sequencing\<close>

definition bindR :: "'a result \<Rightarrow> ('a \<Rightarrow> 'b result) \<Rightarrow> 'b result" where
  "bindR r f = (case r of Inl e \<Rightarrow> Inl e | Inr x \<Rightarrow> f x)"

definition raise_if :: "bool \<Rightarrow> exn \<Rightarrow> unit result" where
  "raise_if c e = (if c then Inl e else Inr ())"

lemma bindR_Inl [simp, result_simps]: "bindR (Inl e) f = Inl e"
  by (simp add: bindR_def)

lemma bindR_Inr [simp, result_simps]: "bindR (Inr x) f = f x"
  by (simp add: bindR_def)

lemma bindR_cong [fundef_cong]:
  "r = r' \<Longrightarrow> (\<And>x. r' = Inr x \<Longrightarrow> f x = g x) \<Longrightarrow> bindR r f = bindR r' g"
  by (cases r') auto

lemma bindR_eq_Inr [result_simps]: "bindR r f = Inr y \<longleftrightarrow> (\<exists>x. r = Inr x \<and> f x = Inr y)"
  by (cases r) auto

lemma bindR_eq_Inl [result_simps]:
  "bindR r f = Inl e \<longleftrightarrow> r = Inl e \<or> (\<exists>x. r = Inr x \<and> f x = Inl e)"
  by (cases r) auto

lemma raise_if_True [simp, result_simps]: "c \<Longrightarrow> raise_if c e = Inl e"
  by (simp add: raise_if_def)

lemma raise_if_False [simp, result_simps]: "\<not> c \<Longrightarrow> raise_if c e = Inr ()"
  by (simp add: raise_if_def)

lemma raise_if_eq_Inr [simp]: "raise_if c e = Inr u \<longleftrightarrow> \<not> c"
  by (cases u) (simp add: raise_if_def)

lemma raise_if_eq_Inl [simp]: "raise_if c e = Inl e' \<longleftrightarrow> c \<and> e' = e"
  by (auto simp: raise_if_def)

lemma result_cases_ex: "(\<exists>e. r = Inl e) \<or> (\<exists>x. r = Inr x)"
  by (cases r) auto

text \<open>Traversal of a list, stopping at the first exception as a Python loop does.\<close>

fun traverse :: "('a \<Rightarrow> 'b result) \<Rightarrow> 'a list \<Rightarrow> 'b list result" where
  "traverse f [] = Inr []"
| "traverse f (x # xs) = bindR (f x) (\<lambda>y. bindR (traverse f xs) (\<lambda>ys. Inr (y # ys)))"

lemma traverse_Inr_length: "traverse f xs = Inr ys \<Longrightarrow> length ys = length xs"
  by (induction xs arbitrary: ys) (auto simp: result_simps)

lemma traverse_all_Inr: "(\<And>x. x \<in> set xs \<Longrightarrow> f x = Inr (g x)) \<Longrightarrow> traverse f xs = Inr (map g xs)"
  by (induction xs) auto

subsection \<open>Lists\<close>

lemma take_append_le: "n \<le> length xs \<Longrightarrow> take n (xs @ ys) = take n xs"
  by simp

lemma nth_append_offset: "i < length ys \<Longrightarrow> (xs @ ys) ! (length xs + i) = ys ! i"
  by simp

lemma map_nth_upt: "map (\<lambda>i. xs ! i) [0..<length xs] = xs"
  by (rule map_nth)

lemma list_of_length_1: "length xs = Suc 0 \<longleftrightarrow> (\<exists>a. xs = [a])"
  by (cases xs) auto

lemma list_of_length_2: "length xs = 2 \<longleftrightarrow> (\<exists>a b. xs = [a, b])"
  by (auto simp: numeral_2_eq_2 length_Suc_conv)

text \<open>Python's \<^verbatim>\<open>d.setdefault(k, v)\<close> on a map: the stored value wins.\<close>

definition setdefault :: "('k \<rightharpoonup> 'v) \<Rightarrow> 'k \<Rightarrow> 'v \<Rightarrow> ('k \<rightharpoonup> 'v)" where
  "setdefault m k v = (case m k of None \<Rightarrow> m(k \<mapsto> v) | Some _ \<Rightarrow> m)"

lemma setdefault_apply:
  "setdefault m k v j = (if j = k \<and> m k = None then Some v else m j)"
  by (auto simp: setdefault_def split: option.splits)

lemma dom_setdefault [simp]: "dom (setdefault m k v) = insert k (dom m)"
  by (auto simp: setdefault_def split: option.splits)

text \<open>Python's \<^verbatim>\<open>round(x)\<close> on a finite float: nearest integer, ties to even.\<close>

definition py_round :: "real \<Rightarrow> int" where
  "py_round x =
     (let f = \<lfloor>x\<rfloor>; d = x - of_int f
      in if d < 1/2 then f else if d > 1/2 then f + 1 else if even f then f else f + 1)"

lemma py_round_of_int [simp]: "py_round (of_int n) = n"
  by (simp add: py_round_def)

lemma py_round_close: "\<bar>x - of_int (py_round x)\<bar> \<le> 1/2"
proof -
  have "of_int \<lfloor>x\<rfloor> \<le> x" and "x < of_int \<lfloor>x\<rfloor> + 1" by linarith+
  then show ?thesis unfolding py_round_def Let_def abs_if by (simp split: if_splits) linarith?
qed

end
