(* ===== verification/Generators.thy ===== *)
theory Generators
  imports Prelude
begin

section \<open>Graph generators (topology/generators.py)\<close>

text \<open>
  A graph is the dict the generators return, as a list of pairs in insertion order: a node and
  the nodes it reads. \<open>reads g\<close> are the edges of information flow, \<open>j\<close> to \<open>i\<close> when \<open>i\<close> reads
  \<open>j\<close>. The keyword arguments of \<^verbatim>\<open>generate\<close> come from YAML; \<open>gen_params\<close> are the well-typed
  argument lists, one constructor per generator. The lemmas show that every generator returns
  a graph the manifest accepts, what the neighbours in a ring are, and who reaches whom.
\<close>

type_synonym digraph = "(int \<times> int list) list"

subsection \<open>The generators\<close>

definition or_zero :: "int option \<Rightarrow> int" where
  "or_zero n = (case n of None \<Rightarrow> 0 | Some n \<Rightarrow> n)"

definition node_ids :: "int \<Rightarrow> int list option \<Rightarrow> int list result" where
  "node_ids n ids =
     (case ids of
        Some out \<Rightarrow> if distinct out then Inr out else Inl ValueError
      | None \<Rightarrow> if n < 1 then Inl ValueError else Inr [1..n])"

definition ring_offsets :: "int \<Rightarrow> int list" where
  "ring_offsets k = map uminus (rev [1..k]) @ [1..k]"

definition ring :: "int option \<Rightarrow> int \<Rightarrow> bool \<Rightarrow> int list option \<Rightarrow> digraph result" where
  "ring n k directed ids =
     bindR (node_ids (or_zero n) ids) (\<lambda>order.
       let m = int (length order) in
       if k < 1 then Inl ValueError
       else if \<not> directed \<and> 2 * k \<ge> m then Inl ValueError
       else if directed \<and> m < 2 then Inl ValueError
       else Inr (map (\<lambda>i. (order ! i,
                   if directed then [order ! nat ((int i - 1) mod m)]
                   else map (\<lambda>d. order ! nat ((int i + d) mod m)) (ring_offsets k)))
                 [0..<length order]))"

definition line :: "int option \<Rightarrow> bool \<Rightarrow> int list option \<Rightarrow> digraph result" where
  "line n directed ids =
     bindR (node_ids (or_zero n) ids) (\<lambda>order.
       Inr (map (\<lambda>i. (order ! i,
              (if i = 0 then [] else [order ! (i - 1)]) @
              (if \<not> directed \<and> i + 1 < length order then [order ! (i + 1)] else [])))
            [0..<length order]))"

definition complete_graph :: "int option \<Rightarrow> int list option \<Rightarrow> digraph result" where
  "complete_graph n ids =
     bindR (node_ids (or_zero n) ids) (\<lambda>order.
       Inr (map (\<lambda>node. (node, filter (\<lambda>j. j \<noteq> node) order)) order))"

definition star :: "int option \<Rightarrow> int option \<Rightarrow> int list option \<Rightarrow> digraph result" where
  "star n hub ids =
     bindR (node_ids (or_zero n) ids) (\<lambda>order.
     bindR (case hub of
              None \<Rightarrow> (case order of [] \<Rightarrow> Inl IndexError | h # _ \<Rightarrow> Inr h)
            | Some h \<Rightarrow> Inr h) (\<lambda>h.
       if h \<notin> set order then Inl ValueError
       else let leaves = filter (\<lambda>j. j \<noteq> h) order in
         Inr ((h, leaves) # map (\<lambda>leaf. (leaf, [h])) leaves)))"

text \<open>\<^verbatim>\<open>out.setdefault(k, []).extend(v)\<close>; with \<open>k\<close> present it is \<^verbatim>\<open>out[k].append\<close> for a singleton.\<close>

definition dict_extend :: "digraph \<Rightarrow> int \<Rightarrow> int list \<Rightarrow> digraph" where
  "dict_extend g k v =
     (if k \<in> fst ` set g then map (\<lambda>(a, b). (a, if a = k then b @ v else b)) g else g @ [(k, v)])"

definition intra_graph :: "string \<Rightarrow> int list \<Rightarrow> digraph result" where
  "intra_graph intra grp =
     (if intra = ''complete'' then complete_graph None (Some grp)
      else if intra = ''ring'' then
        (if length grp > 2 then ring None 1 False (Some grp) else complete_graph None (Some grp))
      else Inl ValueError)"

fun add_groups :: "string \<Rightarrow> digraph \<Rightarrow> int list list \<Rightarrow> digraph result" where
  "add_groups intra out [] = Inr out"
| "add_groups intra out (grp # groups) =
     bindR (intra_graph intra grp) (\<lambda>sub.
       add_groups intra (foldl (\<lambda>o' (k, v). dict_extend o' k v) out sub) groups)"

fun add_bridges :: "digraph \<Rightarrow> (int \<times> int) list \<Rightarrow> digraph result" where
  "add_bridges out [] = Inr out"
| "add_bridges out ((a, b) # bridges) =
     (if {a, b} \<subseteq> fst ` set out then add_bridges (dict_extend (dict_extend out a [b]) b [a]) bridges
      else Inl ValueError)"

definition clusters :: "int list list \<Rightarrow> (int \<times> int) list \<Rightarrow> string \<Rightarrow> digraph result" where
  "clusters groups bridges intra =
     bindR (add_groups intra [] groups) (\<lambda>out.
     bindR (add_bridges out bridges) (\<lambda>out.
       Inr (map (\<lambda>(k, v). (k, sort (remdups v))) out)))"

datatype gen_params =
    RingParams "int option" int bool "int list option"
  | LineParams "int option" bool "int list option"
  | CompleteParams "int option" "int list option"
  | StarParams "int option" "int option" "int list option"
  | ClusterParams "int list list" "(int \<times> int) list" string

text \<open>\<^verbatim>\<open>REGISTRY\<close> and the dispatch; arguments of another generator are unknown keywords.\<close>

definition GENERATORS :: "string list" where
  "GENERATORS = [''ring'', ''line'', ''complete'', ''star'', ''clusters'']"

fun generate :: "string \<Rightarrow> gen_params \<Rightarrow> digraph result" where
  "generate name p =
     (if name \<notin> set GENERATORS then Inl ValueError
      else case p of
        RingParams n k d ids \<Rightarrow> if name = ''ring'' then ring n k d ids else Inl TypeError
      | LineParams n d ids \<Rightarrow> if name = ''line'' then line n d ids else Inl TypeError
      | CompleteParams n ids \<Rightarrow> if name = ''complete'' then complete_graph n ids else Inl TypeError
      | StarParams n hub ids \<Rightarrow> if name = ''star'' then star n hub ids else Inl TypeError
      | ClusterParams gs bs intra \<Rightarrow> if name = ''clusters'' then clusters gs bs intra else Inl TypeError)"

subsection \<open>Well-formed graphs\<close>

definition reads :: "digraph \<Rightarrow> (int \<times> int) set" where
  "reads g = {(j, i). \<exists>ns. (i, ns) \<in> set g \<and> j \<in> set ns}"

definition graph_ok :: "digraph \<Rightarrow> bool" where
  "graph_ok g \<longleftrightarrow> distinct (map fst g) \<and>
     (\<forall>(i, ns) \<in> set g. distinct ns \<and> i \<notin> set ns \<and> set ns \<subseteq> fst ` set g)"

lemma node_ids_distinct: "node_ids n ids = Inr order \<Longrightarrow> distinct order"
  by (auto simp: node_ids_def split: option.splits if_splits)

lemma set_ring_offsets: "set (ring_offsets k) = {d. d \<noteq> 0 \<and> - k \<le> d \<and> d \<le> k}"
proof -
  have "d \<in> uminus ` {1..k}" if "d < 0" "- k \<le> d" for d :: int
    using that by (intro image_eqI [of _ _ "- d"]) auto
  moreover have "d < 0 \<or> d = 0 \<or> 0 < d" for d :: int by auto
  ultimately show ?thesis unfolding ring_offsets_def by (auto simp: image_iff)
qed

lemma distinct_ring_offsets: "distinct (ring_offsets k)"
  by (auto simp: ring_offsets_def distinct_map)

lemma length_ring_offsets: "1 \<le> k \<Longrightarrow> length (ring_offsets k) = nat (2 * k)"
  by (simp add: ring_offsets_def)

lemma mod_offset_inj:
  fixes d e m :: int
  assumes "(i + d) mod m = (i + e) mod m" and "\<bar>d - e\<bar> < m"
  shows "d = e"
proof -
  have "m dvd d - e" using assms(1) by (metis add_diff_cancel_left mod_eq_dvd_iff)
  then show ?thesis using assms(2) zdvd_imp_le [of m "\<bar>d - e\<bar>"] by (cases "d = e") auto
qed

lemma nth_mod_eq_iff:
  assumes "distinct order" "order \<noteq> []"
  shows "order ! nat (a mod int (length order)) = order ! nat (b mod int (length order)) \<longleftrightarrow>
         a mod int (length order) = b mod int (length order)"
proof -
  have "nat (c mod int (length order)) < length order" for c
    using assms(2) by (simp add: nat_less_iff)
  then show ?thesis using assms by (simp add: nth_eq_iff_index_eq eq_nat_nat_iff)
qed

lemma nth_mod_inj:
  assumes "distinct order" "order \<noteq> []"
    and "order ! nat (a mod int (length order)) = order ! nat (b mod int (length order))"
    and "\<bar>a - b\<bar> < int (length order)"
  shows "a = b"
proof -
  have "(0 + a) mod int (length order) = (0 + b) mod int (length order)"
    using assms(3) by (simp add: nth_mod_eq_iff [OF assms(1,2)])
  from mod_offset_inj [OF this assms(4)] show ?thesis .
qed

lemma nth_mod_in: "order \<noteq> [] \<Longrightarrow> order ! nat (a mod int (length order)) \<in> set order"
  by (simp add: nat_less_iff)

lemma nth_mod_self: "i < length order \<Longrightarrow> order ! nat (int i mod int (length order)) = order ! i"
  by simp

lemma ring_neighbours_ok:
  assumes "distinct order" and "2 * k < int (length order)" and i: "i < length order"
  defines "ns \<equiv> map (\<lambda>d. order ! nat ((int i + d) mod int (length order))) (ring_offsets k)"
  shows "distinct ns" and "order ! i \<notin> set ns" and "set ns \<subseteq> set order"
proof -
  have ne: "order \<noteq> []" using i by auto
  have "d = e" if "d \<in> set (ring_offsets k)" "e \<in> set (ring_offsets k)"
      "order ! nat ((int i + d) mod int (length order)) = order ! nat ((int i + e) mod int (length order))" for d e
  proof -
    have "\<bar>(int i + d) - (int i + e)\<bar> < int (length order)"
      using that(1,2) assms(2) by (auto simp: set_ring_offsets)
    from nth_mod_inj [OF assms(1) ne that(3) this] show ?thesis by simp
  qed
  then show "distinct ns" by (simp add: ns_def distinct_map distinct_ring_offsets inj_on_def)
  show "order ! i \<notin> set ns"
  proof
    assume "order ! i \<in> set ns"
    then obtain d where d: "d \<noteq> 0" "- k \<le> d" "d \<le> k"
        "order ! nat (int i mod int (length order)) = order ! nat ((int i + d) mod int (length order))"
      using i by (auto simp: ns_def set_ring_offsets)
    then have "\<bar>int i - (int i + d)\<bar> < int (length order)" using assms(2) by auto
    from nth_mod_inj [OF assms(1) ne d(4) this] d(1) show False by simp
  qed
  show "set ns \<subseteq> set order" using nth_mod_in [OF ne] by (auto simp: ns_def)
qed

lemma graph_ok_table:
  assumes "distinct order"
    and "\<And>i. i < length order \<Longrightarrow> distinct (f i) \<and> order ! i \<notin> set (f i) \<and> set (f i) \<subseteq> set order"
  shows "graph_ok (map (\<lambda>i. (order ! i, f i)) [0..<length order])"
proof -
  have "map fst (map (\<lambda>i. (order ! i, f i)) [0..<length order]) = order"
    by (simp add: comp_def map_nth)
  moreover from this have "fst ` set (map (\<lambda>i. (order ! i, f i)) [0..<length order]) = set order"
    by (metis set_map)
  ultimately show ?thesis using assms unfolding graph_ok_def by auto
qed

lemma ring_directed_ok:
  assumes "distinct order" and "2 \<le> length order" and i: "i < length order"
  shows "order ! i \<noteq> order ! nat ((int i - 1) mod int (length order))"
proof
  have ne: "order \<noteq> []" using i by auto
  assume "order ! i = order ! nat ((int i - 1) mod int (length order))"
  then have "order ! nat (int i mod int (length order)) = order ! nat ((int i - 1) mod int (length order))"
    using i by simp
  then have "int i = int i - 1" by (rule nth_mod_inj [OF assms(1) ne]) (use assms(2) in simp)
  then show False by simp
qed

lemma ring_cases:
  assumes "ring n k directed ids = Inr g"
  obtains order where "node_ids (or_zero n) ids = Inr order" "distinct order" "1 \<le> k"
    "directed \<Longrightarrow> 2 \<le> length order" "\<not> directed \<Longrightarrow> 2 * k < int (length order)"
    "g = map (\<lambda>i. (order ! i,
           if directed then [order ! nat ((int i - 1) mod int (length order))]
           else map (\<lambda>d. order ! nat ((int i + d) mod int (length order))) (ring_offsets k)))
         [0..<length order]"
proof -
  obtain order where o: "node_ids (or_zero n) ids = Inr order"
    using assms by (auto simp: ring_def bindR_eq_Inr)
  show ?thesis
    by (rule that [of order])
      (use assms o node_ids_distinct [OF o] in \<open>auto simp: ring_def Let_def split: if_splits\<close>)
qed

lemma ring_ok: "ring n k directed ids = Inr g \<Longrightarrow> graph_ok g"
proof (elim ring_cases, hypsubst, rule graph_ok_table)
  fix order i
  assume a: "distinct order" "directed \<Longrightarrow> 2 \<le> length order"
    "\<not> directed \<Longrightarrow> 2 * k < int (length order)" "i < length order"
  have "order \<noteq> []" using a(4) by auto
  then show "distinct (if directed then [order ! nat ((int i - 1) mod int (length order))]
           else map (\<lambda>d. order ! nat ((int i + d) mod int (length order))) (ring_offsets k)) \<and>
         order ! i \<notin> set (if directed then [order ! nat ((int i - 1) mod int (length order))]
           else map (\<lambda>d. order ! nat ((int i + d) mod int (length order))) (ring_offsets k)) \<and>
         set (if directed then [order ! nat ((int i - 1) mod int (length order))]
           else map (\<lambda>d. order ! nat ((int i + d) mod int (length order))) (ring_offsets k)) \<subseteq> set order"
    using ring_directed_ok [OF a(1) a(2) a(4)] ring_neighbours_ok [OF a(1) a(3) a(4)]
      nth_mod_in [of order "int i - 1"] by (cases directed) simp_all
qed

lemma line_ok: "line n directed ids = Inr g \<Longrightarrow> graph_ok g"
  unfolding line_def
  by (auto simp: bindR_eq_Inr nth_eq_iff_index_eq dest!: node_ids_distinct intro!: graph_ok_table split: if_splits)

lemma fst_image_pair [simp]: "fst ` (\<lambda>x. (x, f x)) ` A = A"
  by (simp add: image_image)

lemma complete_ok:
  assumes "complete_graph n ids = Inr g"
  shows "graph_ok g" and "\<And>i ns. (i, ns) \<in> set g \<Longrightarrow> set ns = fst ` set g - {i}"
proof -
  obtain order where d: "distinct order" and g: "g = map (\<lambda>node. (node, filter (\<lambda>j. j \<noteq> node) order)) order"
    using assms by (auto simp: complete_graph_def bindR_eq_Inr dest: node_ids_distinct)
  show "graph_ok g" using d by (auto simp: g graph_ok_def comp_def)
  show "\<And>i ns. (i, ns) \<in> set g \<Longrightarrow> set ns = fst ` set g - {i}" by (auto simp: g)
qed

lemma star_ok:
  assumes "star n hub ids = Inr g"
  shows "graph_ok g"
proof -
  obtain order h where d: "distinct order" "h \<in> set order"
    and g: "g = (h, filter (\<lambda>j. j \<noteq> h) order) # map (\<lambda>leaf. (leaf, [h])) (filter (\<lambda>j. j \<noteq> h) order)"
    using assms by (auto simp: star_def bindR_eq_Inr Let_def dest: node_ids_distinct split: if_splits)
  have "map fst g = h # filter (\<lambda>j. j \<noteq> h) order" by (simp add: g comp_def)
  then show ?thesis using d by (auto simp: g graph_ok_def comp_def)
qed

subsection \<open>Clusters\<close>

lemma map_fst_dict_extend: "map fst (dict_extend g k v) = (if k \<in> fst ` set g then map fst g else map fst g @ [k])"
  by (auto simp: dict_extend_def comp_def case_prod_unfold)

lemma reads_map: "reads (map (\<lambda>(i, ns). (i, F i ns)) g) = {(j, i). \<exists>ns. (i, ns) \<in> set g \<and> j \<in> set (F i ns)}"
  by (force simp: reads_def)

lemma reads_append: "reads (g @ h) = reads g \<union> reads h"
  by (auto simp: reads_def)

lemma reads_dict_extend: "reads (dict_extend g k v) = reads g \<union> (\<lambda>j. (j, k)) ` set v"
proof (cases "k \<in> fst ` set g")
  case True
  then have "reads (dict_extend g k v) = {(j, i). \<exists>ns. (i, ns) \<in> set g \<and> j \<in> set (if i = k then ns @ v else ns)}"
    by (simp add: dict_extend_def reads_map)
  also have "\<dots> = reads g \<union> (\<lambda>j. (j, k)) ` set v" using True by (auto simp: reads_def split: if_splits)
  finally show ?thesis .
next
  case False
  then show ?thesis by (auto simp: dict_extend_def reads_append) (auto simp: reads_def)
qed

lemma dom_dict_extend: "fst ` set (dict_extend g k v) = insert k (fst ` set g)"
  by (auto simp: dict_extend_def image_iff) force+

definition loop_free :: "digraph \<Rightarrow> bool" where
  "loop_free g \<longleftrightarrow> distinct (map fst g) \<and> (\<forall>(j, i) \<in> reads g. j \<noteq> i)"

lemma loop_free_extend: "loop_free g \<Longrightarrow> k \<notin> set v \<Longrightarrow> loop_free (dict_extend g k v)"
  by (auto simp: loop_free_def reads_dict_extend map_fst_dict_extend)

lemma graph_ok_loop_free: "graph_ok g \<Longrightarrow> loop_free g"
  by (fastforce simp: graph_ok_def loop_free_def reads_def)

lemma intra_ok: "intra_graph intra grp = Inr g \<Longrightarrow> graph_ok g"
  by (auto simp: intra_graph_def dest: complete_ok(1) ring_ok split: if_splits)

definition links_ok :: "digraph \<Rightarrow> bool" where
  "links_ok g \<longleftrightarrow> distinct (map fst g) \<and> (\<forall>(j, i) \<in> reads g. j \<noteq> i \<and> j \<in> fst ` set g)"

abbreviation extend_all :: "digraph \<Rightarrow> digraph \<Rightarrow> digraph" where
  "extend_all out sub \<equiv> foldl (\<lambda>o' (k, v). dict_extend o' k v) out sub"

lemma extend_all_facts:
  "fst ` set (extend_all out sub) = fst ` set out \<union> fst ` set sub"
  "reads (extend_all out sub) = reads out \<union> reads sub"
  "distinct (map fst out) \<Longrightarrow> distinct (map fst (extend_all out sub))"
proof (induction sub arbitrary: out)
  case (Cons x sub)
  obtain k v where x: "x = (k, v)" by (cases x)
  { case 1 show ?case using Cons.IH(1) by (auto simp: x dom_dict_extend) }
  { case 2
    have "reads (x # sub) = (\<lambda>j. (j, k)) ` set v \<union> reads sub" by (auto simp: x reads_def)
    then show ?case using Cons.IH(2) by (auto simp: x reads_dict_extend) }
  { case 3 then show ?case using Cons.IH(3) by (auto simp: x map_fst_dict_extend) }
qed (auto simp: reads_def)

lemma graph_ok_links: "graph_ok g \<Longrightarrow> links_ok g"
  by (fastforce simp: graph_ok_def links_ok_def reads_def)

lemma intra_reads:
  assumes "intra_graph ''complete'' grp = Inr g"
  shows "fst ` set g = set grp" and "reads g = {(j, i). j \<in> set grp \<and> i \<in> set grp \<and> j \<noteq> i}"
proof -
  have g: "g = map (\<lambda>node. (node, filter (\<lambda>j. j \<noteq> node) grp)) grp"
    using assms by (auto simp: intra_graph_def complete_graph_def bindR_eq_Inr node_ids_def split: if_splits)
  show "fst ` set g = set grp" by (simp add: g)
  have "\<exists>ns. (i, ns) \<in> set g \<and> j \<in> set ns" if "j \<in> set grp" "i \<in> set grp" "j \<noteq> i" for i j
    using that by (intro exI [of _ "filter (\<lambda>j. j \<noteq> i) grp"]) (auto simp: g)
  then show "reads g = {(j, i). j \<in> set grp \<and> i \<in> set grp \<and> j \<noteq> i}" by (auto simp: reads_def g)
qed

lemma add_groups_facts:
  assumes "add_groups intra out groups = Inr g" and "links_ok out"
  shows "links_ok g"
  using assms
proof (induction groups arbitrary: out)
  case (Cons grp groups)
  then obtain sub where s: "intra_graph intra grp = Inr sub" "add_groups intra (extend_all out sub) groups = Inr g"
    by (auto simp: bindR_eq_Inr)
  have "links_ok sub" by (rule graph_ok_links [OF intra_ok [OF s(1)]])
  then have "links_ok (extend_all out sub)"
    using Cons.prems(2) extend_all_facts [of out sub] unfolding links_ok_def by auto
  from Cons.IH [OF s(2) this] show ?case .
qed simp

lemma add_groups_reads:
  assumes "add_groups ''complete'' out groups = Inr g"
  shows "reads g = reads out \<union> {(j, i). \<exists>grp \<in> set groups. j \<in> set grp \<and> i \<in> set grp \<and> j \<noteq> i}"
    and "fst ` set g = fst ` set out \<union> \<Union> (set ` set groups)"
  using assms
proof (induction groups arbitrary: out)
  case (Cons grp groups)
  { case 1
    then obtain sub where s: "intra_graph ''complete'' grp = Inr sub"
        "add_groups ''complete'' (extend_all out sub) groups = Inr g" by (auto simp: bindR_eq_Inr)
    from Cons.IH(1) [OF s(2)] show ?case by (auto simp: extend_all_facts intra_reads [OF s(1)]) }
  { case 2
    then obtain sub where s: "intra_graph ''complete'' grp = Inr sub"
        "add_groups ''complete'' (extend_all out sub) groups = Inr g" by (auto simp: bindR_eq_Inr)
    from Cons.IH(2) [OF s(2)] show ?case by (auto simp: extend_all_facts intra_reads [OF s(1)]) }
qed simp_all

lemma add_bridges_facts:
  assumes "add_bridges out bridges = Inr g"
  shows "reads g = reads out \<union> set bridges \<union> (set bridges)\<inverse>"
    and "fst ` set g = fst ` set out"
    and "distinct (map fst out) \<Longrightarrow> distinct (map fst g)"
    and "\<And>a b. (a, b) \<in> set bridges \<Longrightarrow> a \<in> fst ` set out \<and> b \<in> fst ` set out"
  using assms
proof (induction bridges arbitrary: out)
  case (Cons x bridges)
  obtain a b where x: "x = (a, b)" by (cases x)
  note ext = dom_dict_extend reads_dict_extend map_fst_dict_extend
  { case 1 then show ?case using Cons.IH(1) by (auto simp: x ext split: if_splits) }
  { case 2
    then have "a \<in> fst ` set out" "b \<in> fst ` set out"
      and g: "add_bridges (dict_extend (dict_extend out a [b]) b [a]) bridges = Inr g"
      by (auto simp: x split: if_splits)
    then show ?case using Cons.IH(2) [OF g] by (auto simp: ext) }
  { case 3
    then have "distinct (map fst (dict_extend (dict_extend out a [b]) b [a]))" by (auto simp: ext)
    moreover from 3 have "add_bridges (dict_extend (dict_extend out a [b]) b [a]) bridges = Inr g"
      by (auto simp: x split: if_splits)
    ultimately show ?case using Cons.IH(3) by blast }
  { case (4 c d)
    then have "a \<in> fst ` set out" "b \<in> fst ` set out"
      and g: "add_bridges (dict_extend (dict_extend out a [b]) b [a]) bridges = Inr g"
      by (auto simp: x split: if_splits)
    then show ?case using Cons.IH(4) [OF _ g, of c d] 4(1) by (auto simp: x ext) }
qed simp_all

lemma reads_sorted: "reads (map (\<lambda>(k, v). (k, sort (remdups v))) g) = reads g"
  by (auto simp: reads_map) (auto simp: reads_def)

lemma graph_ok_sorted:
  assumes "links_ok g"
  shows "graph_ok (map (\<lambda>(k, v). (k, sort (remdups v))) g)"
proof -
  have "map fst (map (\<lambda>(k, v). (k, sort (remdups v))) g) = map fst g"
    by (simp add: case_prod_unfold comp_def)
  moreover from this have "fst ` set (map (\<lambda>(k, v). (k, sort (remdups v))) g) = fst ` set g"
    by (metis set_map)
  moreover have "k \<notin> set v \<and> set v \<subseteq> fst ` set g" if "(k, v) \<in> set g" for k v
    using that assms by (fastforce simp: links_ok_def reads_def)
  moreover have "\<exists>v. b = sort (remdups v) \<and> (a, v) \<in> set g"
    if "(a, b) \<in> set (map (\<lambda>(k, v). (k, sort (remdups v))) g)" for a b
    using that by auto
  ultimately show ?thesis
    using assms unfolding graph_ok_def links_ok_def by (metis (no_types, lifting) case_prodI2 distinct_remdups distinct_sort set_remdups set_sort)
qed

lemma clusters_ok:
  assumes "clusters groups bridges intra = Inr g" and "\<forall>(a, b) \<in> set bridges. a \<noteq> b"
  shows "graph_ok g"
proof -
  obtain o1 o2 where s: "add_groups intra [] groups = Inr o1" "add_bridges o1 bridges = Inr o2"
      "g = map (\<lambda>(k, v). (k, sort (remdups v))) o2" using assms(1) by (auto simp: clusters_def bindR_eq_Inr)
  have "links_ok o1" using add_groups_facts [OF s(1)] by (simp add: links_ok_def reads_def)
  then have "links_ok o2"
    using add_bridges_facts [OF s(2)] assms(2) unfolding links_ok_def by fastforce
  then show ?thesis by (simp only: s(3) graph_ok_sorted)
qed

lemma clusters_reads:
  assumes "clusters groups bridges ''complete'' = Inr g"
  shows "reads g = {(j, i). \<exists>grp \<in> set groups. j \<in> set grp \<and> i \<in> set grp \<and> j \<noteq> i} \<union> set bridges \<union> (set bridges)\<inverse>"
    and "fst ` set g = \<Union> (set ` set groups)"
    and "\<And>a b. (a, b) \<in> set bridges \<Longrightarrow> a \<in> \<Union> (set ` set groups) \<and> b \<in> \<Union> (set ` set groups)"
proof -
  obtain o1 o2 where s: "add_groups ''complete'' [] groups = Inr o1" "add_bridges o1 bridges = Inr o2"
      "g = map (\<lambda>(k, v). (k, sort (remdups v))) o2" using assms(1) by (auto simp: clusters_def bindR_eq_Inr)
  have d: "fst ` set g = fst ` set o2" by (force simp: s(3))
  show "reads g = {(j, i). \<exists>grp \<in> set groups. j \<in> set grp \<and> i \<in> set grp \<and> j \<noteq> i} \<union> set bridges \<union> (set bridges)\<inverse>"
    by (simp add: s(3) reads_sorted add_bridges_facts(1) [OF s(2)] add_groups_reads(1) [OF s(1)])
       (simp add: reads_def)
  show "fst ` set g = \<Union> (set ` set groups)"
    by (simp add: d add_bridges_facts(2) [OF s(2)] add_groups_reads(2) [OF s(1)])
  show "\<And>a b. (a, b) \<in> set bridges \<Longrightarrow> a \<in> \<Union> (set ` set groups) \<and> b \<in> \<Union> (set ` set groups)"
    using add_bridges_facts(4) [OF s(2)] by (simp add: add_groups_reads(2) [OF s(1)])
qed

lemma generate_ok:
  assumes "generate name p = Inr g"
    and "\<And>gs bs intra. p = ClusterParams gs bs intra \<Longrightarrow> \<forall>(a, b) \<in> set bs. a \<noteq> b"
  shows "graph_ok g"
  using assms
  by (auto split: gen_params.splits if_splits dest: ring_ok line_ok complete_ok(1) star_ok clusters_ok)

subsection \<open>Who reaches whom\<close>

lemma nat_mod_index:
  assumes "a < length order"
  shows "nat ((int a + d) mod int (length order)) < length order"
    and "int (nat ((int a + d) mod int (length order))) = (int a + d) mod int (length order)"
proof -
  have "0 < int (length order)" using assms by auto
  from pos_mod_bound [OF this, of "int a + d"] pos_mod_sign [OF this, of "int a + d"]
  show "nat ((int a + d) mod int (length order)) < length order"
    and "int (nat ((int a + d) mod int (length order))) = (int a + d) mod int (length order)" by simp_all
qed

lemma reads_table:
  "(j, i) \<in> reads (map (\<lambda>a. (order ! a, map (\<lambda>d. order ! nat ((int a + d) mod int (length order))) ds))
        [0..<length order]) \<longleftrightarrow>
   (\<exists>a < length order. \<exists>d \<in> set ds. i = order ! a \<and> j = order ! nat ((int a + d) mod int (length order)))"
proof
  assume "(j, i) \<in> reads (map (\<lambda>a. (order ! a, map (\<lambda>d. order ! nat ((int a + d) mod int (length order))) ds))
        [0..<length order])"
  then show "\<exists>a < length order. \<exists>d \<in> set ds. i = order ! a \<and> j = order ! nat ((int a + d) mod int (length order))"
    unfolding reads_def by auto blast
next
  assume "\<exists>a < length order. \<exists>d \<in> set ds. i = order ! a \<and> j = order ! nat ((int a + d) mod int (length order))"
  then obtain a d where a: "a < length order" "d \<in> set ds" "i = order ! a"
    "j = order ! nat ((int a + d) mod int (length order))" by blast
  then show "(j, i) \<in> reads (map (\<lambda>a. (order ! a, map (\<lambda>d. order ! nat ((int a + d) mod int (length order))) ds))
        [0..<length order])"
    unfolding reads_def
    by (intro CollectI case_prodI exI [of _ "map (\<lambda>d. order ! nat ((int a + d) mod int (length order))) ds"]) auto
qed

text \<open>In an undirected ring every node reads exactly the nodes at distance 1 to \<open>k\<close> around the
  circle on either side, \<open>2 k\<close> of them, and influence is mutual.\<close>

theorem ring_degree_and_symmetry:
  assumes "ring n k False ids = Inr g"
  shows "(\<forall>(i, ns) \<in> set g. int (length ns) = 2 * k \<and> distinct ns) \<and> (reads g)\<inverse> = reads g"
proof -
  obtain order where o: "distinct order" "1 \<le> k" "2 * k < int (length order)"
    and g: "g = map (\<lambda>i. (order ! i, map (\<lambda>d. order ! nat ((int i + d) mod int (length order))) (ring_offsets k)))
         [0..<length order]"
    using assms by (auto elim: ring_cases)
  have deg: "\<forall>(i, ns) \<in> set g. int (length ns) = 2 * k \<and> distinct ns"
    using o ring_neighbours_ok(1) [OF o(1,3)] by (auto simp: g length_ring_offsets)
  have "(i, j) \<in> reads g" if "(j, i) \<in> reads g" for i j
  proof -
    from that obtain a d where a: "a < length order" "i = order ! a" "d \<in> set (ring_offsets k)"
        "j = order ! nat ((int a + d) mod int (length order))"
      unfolding g reads_table by blast
    let ?b = "nat ((int a + d) mod int (length order))"
    have "(int ?b + - d) mod int (length order) = ((int a + d) mod int (length order) + - d) mod int (length order)"
      by (simp only: nat_mod_index(2) [OF a(1)])
    also have "\<dots> = int a" using a(1) by (simp add: mod_diff_left_eq)
    finally have "i = order ! nat ((int ?b + - d) mod int (length order))" by (simp only: a(2) nat_int)
    moreover have "- d \<in> set (ring_offsets k)" using a(3) by (simp add: set_ring_offsets)
    ultimately show ?thesis
      using nat_mod_index(1) [OF a(1), of d] unfolding g reads_table a(4) by blast
  qed
  then have "(reads g)\<inverse> = reads g" by auto
  with deg show ?thesis by blast
qed

text \<open>Walking around the ring: a step of one is always a link.\<close>

lemma ring_step:
  assumes "ring n k directed ids = Inr g" and "node_ids (or_zero n) ids = Inr order" and "Suc i < length order"
  shows "(order ! i, order ! Suc i) \<in> reads g" and "(order ! (length order - 1), order ! 0) \<in> reads g"
proof -
  obtain o' where o': "node_ids (or_zero n) ids = Inr o'" "1 \<le> k" and g: "g = map (\<lambda>i. (o' ! i,
           if directed then [o' ! nat ((int i - 1) mod int (length o'))]
           else map (\<lambda>d. o' ! nat ((int i + d) mod int (length o'))) (ring_offsets k)))
         [0..<length o']" by (rule ring_cases [OF assms(1)])
  from o'(1) assms(2) have "o' = order" by simp
  note g = g [unfolded this]
  have tab: "g = map (\<lambda>i. (order ! i, map (\<lambda>d. order ! nat ((int i + d) mod int (length order)))
      (if directed then [- 1] else ring_offsets k))) [0..<length order]"
    unfolding g by (rule map_cong) (simp_all add: if_distrib)
  have r: "(j, i) \<in> reads g" if "a < length order" "i = order ! a"
      "j = order ! nat ((int a + - 1) mod int (length order))" for i j a
  proof -
    have "- 1 \<in> set (if directed then [- 1] else ring_offsets k)" using o'(2) by (simp add: set_ring_offsets)
    with that show ?thesis unfolding tab reads_table by blast
  qed
  show "(order ! i, order ! Suc i) \<in> reads g"
    using assms(3) by (intro r [of "Suc i"]) auto
  have "(- 1 :: int) mod int (length order) = int (length order) - 1"
    by (rule zmod_minus1) (use assms(3) in linarith)
  then show "(order ! (length order - 1), order ! 0) \<in> reads g"
    using assms(3) by (intro r [of 0]) (auto simp: nat_diff_distrib)
qed

lemma path_forward:
  assumes "\<And>i. Suc i < length order \<Longrightarrow> (order ! i, order ! Suc i) \<in> R" and "i \<le> j" "j < length order"
  shows "(order ! i, order ! j) \<in> R\<^sup>*"
  using assms(2,3)
proof (induction j rule: dec_induct)
  case (step j)
  then show ?case using assms(1) [of j] by (meson Suc_lessD rtrancl.rtrancl_into_rtrancl)
qed simp

lemma strongly_connected_ring:
  assumes "ring n k directed ids = Inr g"
  shows "\<forall>u \<in> fst ` set g. \<forall>v \<in> fst ` set g. (u, v) \<in> (reads g)\<^sup>*"
proof -
  obtain order where o: "node_ids (or_zero n) ids = Inr order" "1 \<le> k"
    "directed \<Longrightarrow> 2 \<le> length order" "\<not> directed \<Longrightarrow> 2 * k < int (length order)"
    and dom: "fst ` set g = set order"
  proof (rule ring_cases [OF assms], goal_cases)
    case (1 order)
    moreover have "fst ` set g = set order"
      unfolding 1(7) by (simp add: image_image) (metis atLeast0LessThan lessThan_atLeast0 map_nth set_map set_upt)
    ultimately show ?case by blast
  qed
  have len: "2 \<le> length order" using o(2-4) by (cases directed) auto
  note step = ring_step(1) [OF assms o(1)]
  have wrap: "(order ! (length order - 1), order ! 0) \<in> reads g"
    using ring_step(2) [OF assms o(1), of 0] len by simp
  have "(order ! i, order ! j) \<in> (reads g)\<^sup>*" if "i < length order" "j < length order" for i j
  proof -
    have "(order ! i, order ! (length order - 1)) \<in> (reads g)\<^sup>*"
      using that by (intro path_forward step) auto
    also have "(order ! (length order - 1), order ! 0) \<in> (reads g)\<^sup>*" using wrap by blast
    also have "(order ! 0, order ! j) \<in> (reads g)\<^sup>*" using that by (intro path_forward step) auto
    finally show ?thesis .
  qed
  then show ?thesis unfolding dom by (metis in_set_conv_nth)
qed

text \<open>Every generated ring, directed or not, is strongly connected: whatever node knows something,
  a path of links carries it to every other.\<close>

theorem ring_strongly_connected:
  assumes "ring n k directed ids = Inr g"
  shows "\<forall>u \<in> fst ` set g. \<forall>v \<in> fst ` set g. (u, v) \<in> (reads g)\<^sup>*"
  by (rule strongly_connected_ring [OF assms])

theorem ring_degree_and_symmetry_witness:
  "\<exists>g. ring (Some 6) 2 False None = Inr g \<and> (reads g)\<inverse> = reads g \<and> (5, 1) \<in> reads g"
proof -
  have g: "ring (Some 6) 2 False None =
      Inr [(1, [5, 6, 2, 3]), (2, [6, 1, 3, 4]), (3, [1, 2, 4, 5]), (4, [2, 3, 5, 6]), (5, [3, 4, 6, 1]), (6, [4, 5, 1, 2])]"
    by code_simp
  moreover have "(5, 1) \<in> reads [(1, [5, 6, 2, 3]), (2, [6, 1, 3, 4]), (3, [1, 2, 4, 5]), (4, [2, 3, 5, 6]), (5, [3, 4, 6, 1]), (6, [4, 5, 1, 2])]"
    by (auto simp: reads_def)
  ultimately show ?thesis using ring_degree_and_symmetry [OF g] by blast
qed

theorem ring_strongly_connected_witness:
  "\<exists>g. ring None 1 True (Some [7, 3, 9]) = Inr g \<and> (9, 3) \<in> (reads g)\<^sup>*"
proof -
  have g: "ring None 1 True (Some [7, 3, 9]) = Inr [(7, [9]), (3, [7]), (9, [3])]" by code_simp
  from ring_strongly_connected [OF this] show ?thesis using g by auto
qed

text \<open>Clusters whose bridges connect the groups are strongly connected, whatever the groups'
  sizes: inside a group everyone reads everyone, and a bridge is a link in both directions.\<close>

theorem clusters_connected:
  assumes "clusters groups bridges ''complete'' = Inr g"
    and "\<forall>G \<in> set groups. \<forall>H \<in> set groups.
           (G, H) \<in> {(G, H). H \<in> set groups \<and> (\<exists>a \<in> set G. \<exists>b \<in> set H. (a, b) \<in> set bridges \<or> (b, a) \<in> set bridges)}\<^sup>*"
  shows "\<forall>u \<in> fst ` set g. \<forall>v \<in> fst ` set g. (u, v) \<in> (reads g)\<^sup>*"
proof -
  note R = clusters_reads [OF assms(1)]
  have inside: "(u, v) \<in> (reads g)\<^sup>*" if "G \<in> set groups" "u \<in> set G" "v \<in> set G" for u v G
    using that by (cases "u = v") (auto simp: R(1))
  have "G \<in> set groups \<longrightarrow> (\<forall>u \<in> set G. \<forall>v \<in> set H. (u, v) \<in> (reads g)\<^sup>*)"
    if "(G, H) \<in> {(G, H). H \<in> set groups \<and> (\<exists>a \<in> set G. \<exists>b \<in> set H. (a, b) \<in> set bridges \<or> (b, a) \<in> set bridges)}\<^sup>*" for G H
    using that
  proof (induction rule: converse_rtrancl_induct)
    case (step G G')
    then obtain a b where ab: "G' \<in> set groups" "a \<in> set G" "b \<in> set G'" "(a, b) \<in> reads g" by (auto simp: R(1))
    show ?case
    proof (intro impI ballI)
      fix u v assume "G \<in> set groups" "u \<in> set G" "v \<in> set H"
      then have "(u, a) \<in> (reads g)\<^sup>*" "(b, v) \<in> (reads g)\<^sup>*" using ab step.IH inside by auto
      with ab(4) show "(u, v) \<in> (reads g)\<^sup>*" by (meson rtrancl.rtrancl_into_rtrancl rtrancl_trans)
    qed
  qed (use inside in blast)
  with assms(2) have "(u, v) \<in> (reads g)\<^sup>*" if "G \<in> set groups" "H \<in> set groups" "u \<in> set G" "v \<in> set H" for u v G H
    using that by blast
  then show ?thesis unfolding R(2) by blast
qed

theorem clusters_connected_witness:
  "\<exists>g. clusters [[1, 2, 3], [4, 5]] [(3, 4)] ''complete'' = Inr g \<and> (5, 1) \<in> (reads g)\<^sup>*"
proof -
  have g: "clusters [[1, 2, 3], [4, 5]] [(3, 4)] ''complete'' =
      Inr [(1, [2, 3]), (2, [1, 3]), (3, [1, 2, 4]), (4, [3, 5]), (5, [4])]" by code_simp
  have "([1, 2, 3], [4, 5]) \<in> {(G, H). H \<in> set [[1, 2, 3], [4, 5]] \<and>
      (\<exists>a \<in> set G. \<exists>b \<in> set H. (a, b) \<in> set [(3, 4)] \<or> (b, a) \<in> set [(3::int, 4)])}\<^sup>*"
    "([4, 5], [1, 2, 3]) \<in> {(G, H). H \<in> set [[1, 2, 3], [4, 5]] \<and>
      (\<exists>a \<in> set G. \<exists>b \<in> set H. (a, b) \<in> set [(3, 4)] \<or> (b, a) \<in> set [(3::int, 4)])}\<^sup>*"
    by (intro r_into_rtrancl; simp)+
  with clusters_connected [OF g] g show ?thesis by auto
qed

end
