(* ===== verification/Numeric.thy ===== *)
theory Numeric
  imports Prelude
begin

section \<open>Numeric conventions (numeric.py)\<close>

text \<open>
  The fixed-point boundary of the program: every quantity on the wire, in the logs and in
  the firmware is an engineering value times \<open>SCALE_FACTOR\<close>. A Python float is a
  \<open>pyfloat\<close>: not-a-number, an infinity, negative zero, or a real number (\<open>Fin 0\<close> is
  positive zero). Rounding of the float multiplication \<open>value * scale\<close> is not modelled:
  \<open>Fin\<close> carries exact reals. \<open>round_half_up\<close> and \<open>quantize_float\<close> keep every
  branch of the code, \<open>quantize\<close> is the value on a finite argument that the rest of the
  development uses.
\<close>

datatype pyfloat = NaN | PInf | MInf | NegZero | Fin real

definition SCALE_FACTOR :: int where
  "SCALE_FACTOR = 1000000"

definition round_real :: "real \<Rightarrow> int" where
  "round_real x = (let f = \<lfloor>x\<rfloor> in if x - of_int f \<ge> 1/2 then f + 1 else f)"

fun round_half_up :: "pyfloat \<Rightarrow> pyfloat" where
  "round_half_up NaN = NaN"
| "round_half_up PInf = PInf"
| "round_half_up MInf = MInf"
| "round_half_up NegZero = NegZero"
| "round_half_up (Fin x) =
     (let r = round_real x in if r = 0 \<and> x < 0 then NegZero else Fin (of_int r))"

fun sign :: "pyfloat \<Rightarrow> pyfloat" where
  "sign NaN = NaN"
| "sign PInf = Fin 1"
| "sign MInf = Fin (- 1)"
| "sign NegZero = NegZero"
| "sign (Fin x) = (if x > 0 then Fin 1 else if x < 0 then Fin (- 1) else Fin x)"

text \<open>\<open>value * scale\<close> for a positive integer scale, and \<^verbatim>\<open>int(x)\<close> on a float.\<close>

fun mul_scale :: "pyfloat \<Rightarrow> int \<Rightarrow> pyfloat" where
  "mul_scale (Fin x) s = Fin (x * of_int s)"
| "mul_scale v s = v"

fun int_of_float :: "pyfloat \<Rightarrow> int result" where
  "int_of_float NaN = Inl ValueError"
| "int_of_float PInf = Inl OverflowError"
| "int_of_float MInf = Inl OverflowError"
| "int_of_float NegZero = Inr 0"
| "int_of_float (Fin x) = Inr (if x < 0 then \<lceil>x\<rceil> else \<lfloor>x\<rfloor>)"

definition quantize_float :: "pyfloat \<Rightarrow> int \<Rightarrow> int result" where
  "quantize_float v s = int_of_float (round_half_up (mul_scale v s))"

definition quantize :: "real \<Rightarrow> int" where
  "quantize x = round_real (x * of_int SCALE_FACTOR)"

definition dequantize :: "int \<Rightarrow> real" where
  "dequantize n = of_int n / of_int SCALE_FACTOR"

subsection \<open>Untrusted values\<close>

text \<open>
  \<open>to_finite_float\<close> takes any Python object. \<open>parse\<close> stands for \<^verbatim>\<open>float(s.strip())\<close>, \<open>None\<close>
  where it raises \<^verbatim>\<open>ValueError\<close>. An int beyond the double range makes \<^verbatim>\<open>math.isfinite\<close>
  itself raise \<^verbatim>\<open>OverflowError\<close>.
\<close>

datatype pyval = PNone | PBool bool | PInt int | PFloat pyfloat | PStr string | POther

definition int_float_limit :: int where
  "int_float_limit = 2 ^ 1024 - 2 ^ 970"

fun float_finite :: "pyfloat \<Rightarrow> bool" where
  "float_finite NaN = False"
| "float_finite PInf = False"
| "float_finite MInf = False"
| "float_finite _ = True"

fun is_finite_number :: "pyval \<Rightarrow> bool result" where
  "is_finite_number (PInt n) = (if \<bar>n\<bar> < int_float_limit then Inr True else Inl OverflowError)"
| "is_finite_number (PFloat x) = Inr (float_finite x)"
| "is_finite_number _ = Inr False"

fun to_finite_float :: "(string \<Rightarrow> pyfloat option) \<Rightarrow> pyval \<Rightarrow> pyfloat \<Rightarrow> pyfloat result" where
  "to_finite_float parse (PBool _) d = Inr d"
| "to_finite_float parse PNone d = Inr d"
| "to_finite_float parse (PInt n) d =
     (if \<bar>n\<bar> < int_float_limit then Inr (Fin (of_int n)) else Inl OverflowError)"
| "to_finite_float parse (PFloat x) d = Inr (if float_finite x then x else d)"
| "to_finite_float parse (PStr s) d =
     (case parse s of None \<Rightarrow> Inr d | Some f \<Rightarrow> Inr (if float_finite f then f else d))"
| "to_finite_float parse POther d = Inr d"

subsection \<open>Facts\<close>

lemma round_real_of_int [simp]: "round_real (of_int n) = n"
  by (simp add: round_real_def)

lemma round_real_bounds: "x - 1/2 < of_int (round_real x)" "of_int (round_real x) \<le> x + 1/2"
  unfolding round_real_def Let_def by (simp_all; linarith)+

lemma round_real_unique:
  assumes "x - 1/2 < of_int n" and "of_int n \<le> x + 1/2"
  shows "round_real x = n"
proof -
  have "(of_int n :: real) < of_int (round_real x) + 1" "(of_int (round_real x) :: real) < of_int n + 1"
    using assms round_real_bounds [of x] by linarith+
  then show ?thesis by linarith
qed

lemma round_real_mono: "x \<le> y \<Longrightarrow> round_real x \<le> round_real y"
  using round_real_bounds [of x] round_real_bounds [of y] by linarith

lemma int_of_float_of_int [simp]: "int_of_float (Fin (of_int n)) = Inr n"
  by simp

lemma quantize_float_Fin: "quantize_float (Fin x) SCALE_FACTOR = Inr (quantize x)"
  by (auto simp: quantize_float_def quantize_def Let_def simp del: int_of_float.simps
           intro: int_of_float.simps)

lemma quantize_dequantize [simp]: "quantize (dequantize n) = n"
  by (simp add: quantize_def dequantize_def SCALE_FACTOR_def)

lemma quantize_mono: "x \<le> y \<Longrightarrow> quantize x \<le> quantize y"
  by (simp add: quantize_def SCALE_FACTOR_def round_real_mono)

lemma quantize_error: "\<bar>dequantize (quantize x) - x\<bar> \<le> 1 / 2000000"
  using round_real_bounds [of "x * 1000000"]
  unfolding quantize_def dequantize_def SCALE_FACTOR_def by (auto simp: abs_if field_simps)

lemma quantize_fits_int32:
  assumes "\<bar>x\<bar> \<le> 2147"
  shows "- 2147483648 \<le> quantize x" "quantize x < 2147483648"
proof -
  have "- 2147 \<le> x" "x \<le> 2147" using assms by (simp_all add: abs_le_iff)
  then show "- 2147483648 \<le> quantize x" "quantize x < 2147483648"
    using round_real_bounds [of "x * 1000000"] by (simp_all add: quantize_def SCALE_FACTOR_def)
qed

text \<open>Fixed-point quantisation is the exact inverse of dequantisation on every scaled
  integer, is within half a unit of the value, and raises only for NaN (\<^verbatim>\<open>ValueError\<close>)
  and the infinities (\<^verbatim>\<open>OverflowError\<close>).\<close>

theorem quantize_correct:
  "quantize_float (Fin (dequantize n)) SCALE_FACTOR = Inr n \<and>
   \<bar>dequantize (quantize x) - x\<bar> \<le> 1 / 2000000 \<and>
   quantize_float (Fin x) SCALE_FACTOR = Inr (quantize x) \<and>
   quantize_float NaN s = Inl ValueError \<and>
   quantize_float PInf s = Inl OverflowError \<and>
   quantize_float MInf s = Inl OverflowError"
  by (intro conjI quantize_error) (simp_all only: quantize_float_Fin quantize_dequantize,
      simp_all add: quantize_float_def)

lemma round_half_up_ties:
  "round_half_up (Fin (5/2)) = Fin 3 \<and> round_half_up (Fin (- 5/2)) = Fin (- 2) \<and>
   round_half_up (Fin (- 1/2)) = NegZero"
  by (simp add: round_real_def)

lemma to_finite_float_finite:
  "float_finite d \<Longrightarrow> to_finite_float parse v d = Inr x \<Longrightarrow> float_finite x"
  by (cases v) (auto split: if_splits option.splits)

lemma to_finite_float_raises:
  "to_finite_float parse v d = Inl e \<longleftrightarrow>
   e = OverflowError \<and> (\<exists>n. v = PInt n \<and> int_float_limit \<le> \<bar>n\<bar>)"
  by (cases v) (auto split: if_splits option.splits)

end
