(* ===== verification/Pcg32.thy ===== *)
theory Pcg32
  imports Prelude
begin

unbundle bit_operations_syntax

section \<open>The PCG32 generator (pcg32.py and firmware prng.c)\<close>

text \<open>
  The Python class keeps \<open>_state\<close> and \<open>_inc\<close> as unbounded ints and masks by hand; the
  firmware keeps two \<^verbatim>\<open>uint64_t\<close>. \<open>pcg_u32\<close>, \<open>pcg_init\<close> and \<open>pcg_uniform\<close> are the
  Python methods over \<open>int\<close>, \<open>prng_u32\<close>, \<open>prng_seed\<close> and \<open>prng_uniform\<close> the C
  functions over words. The lemmas show the two draw the same sequence, bit for bit, and
  that a draw lies in its range.
\<close>

record pcg =
  pcg_state :: int
  pcg_inc :: int

definition MULT :: int where
  "MULT = 6364136223846793005"

definition MASK64 :: int where
  "MASK64 = push_bit 64 1 - 1"

definition MASK32 :: int where
  "MASK32 = push_bit 32 1 - 1"

definition pcg_u32 :: "pcg \<Rightarrow> int \<times> pcg" where
  "pcg_u32 g =
     (let old = pcg_state g;
          g' = g\<lparr>pcg_state := (old * MULT + pcg_inc g) AND MASK64\<rparr>;
          xorshifted = drop_bit 27 (drop_bit 18 old XOR old) AND MASK32;
          rot = drop_bit 59 old AND 31
      in ((drop_bit (nat rot) xorshifted OR push_bit (nat ((32 - rot) AND 31)) xorshifted) AND MASK32,
          g'))"

definition pcg_init :: "int \<Rightarrow> int \<Rightarrow> pcg" where
  "pcg_init state sequence =
     (let g0 = \<lparr>pcg_state = 0, pcg_inc = (push_bit 1 sequence OR 1) AND MASK64\<rparr>;
          g1 = snd (pcg_u32 g0);
          g2 = g1\<lparr>pcg_state := (pcg_state g1 + (state AND MASK64)) AND MASK64\<rparr>
      in snd (pcg_u32 g2))"

definition pcg_uniform :: "pcg \<Rightarrow> real \<times> pcg" where
  "pcg_uniform g = (let (r, g') = pcg_u32 g in (of_int (drop_bit 8 r) / 16777216, g'))"

text \<open>The C side: \<^verbatim>\<open>pcg_state\<close> and \<^verbatim>\<open>pcg_inc\<close> are file-level variables, here a pair.\<close>

type_synonym cpcg = "64 word \<times> 64 word"

definition prng_u32 :: "cpcg \<Rightarrow> 32 word \<times> cpcg" where
  "prng_u32 g =
     (let (old, inc) = g;
          xorshifted = (ucast (drop_bit 27 (drop_bit 18 old XOR old)) :: 32 word);
          rot = (ucast (drop_bit 59 old) :: 32 word)
      in (drop_bit (unat rot) xorshifted OR push_bit (unat ((32 - rot) AND 31)) xorshifted,
          (old * 6364136223846793005 + inc, inc)))"

definition prng_seed :: "64 word \<Rightarrow> 64 word \<Rightarrow> cpcg" where
  "prng_seed state sequence =
     (let (_, s1, i1) = prng_u32 (0, push_bit 1 sequence OR 1) in snd (prng_u32 (s1 + state, i1)))"

definition prng_uniform :: "cpcg \<Rightarrow> real \<times> cpcg" where
  "prng_uniform g = (let (r, g') = prng_u32 g in (of_nat (unat (drop_bit 8 r)) * (1 / 16777216), g'))"

text \<open>A stream of draws, as the control law consumes it.\<close>

primrec pcg_draws :: "nat \<Rightarrow> pcg \<Rightarrow> int list" where
  "pcg_draws 0 g = []"
| "pcg_draws (Suc n) g = (let (r, g') = pcg_u32 g in r # pcg_draws n g')"

primrec prng_draws :: "nat \<Rightarrow> cpcg \<Rightarrow> 32 word list" where
  "prng_draws 0 g = []"
| "prng_draws (Suc n) g = (let (r, g') = prng_u32 g in r # prng_draws n g')"

subsection \<open>Masks\<close>

lemma mask_ints: "MASK64 = mask 64" "MASK32 = mask 32" "(31 :: int) = mask 5"
  by (simp_all add: MASK64_def MASK32_def mask_eq_exp_minus_1)

lemma and_MASK64 [simp]: "x AND MASK64 = take_bit 64 x"
  by (simp only: take_bit_eq_mask mask_ints)

lemma and_MASK32 [simp]: "x AND MASK32 = take_bit 32 x"
  by (simp only: take_bit_eq_mask mask_ints)

lemma and_31_int [simp]: "(x :: int) AND 31 = take_bit 5 x"
  by (simp only: take_bit_eq_mask mask_ints)

lemma pcg_u32_range: "0 \<le> fst (pcg_u32 g) \<and> fst (pcg_u32 g) < 2 ^ 32"
  by (simp only: pcg_u32_def Let_def fst_conv and_MASK32 take_bit_nonnegative take_bit_int_less_exp
                 simp_thms)

subsection \<open>Agreement of the two implementations\<close>

definition pcg_rel :: "pcg \<Rightarrow> cpcg \<Rightarrow> bool" where
  "pcg_rel g c \<longleftrightarrow> pcg_state g = uint (fst c) \<and> pcg_inc g = uint (snd c)"

lemma take_bit_uint64 [simp]: "take_bit 64 (uint (w :: 64 word)) = uint w"
  using uint_lt2p [of w] by (intro take_bit_int_eq_self) simp_all

lemma rot_small: "drop_bit 59 (uint (w :: 64 word)) < 32"
  using uint_lt2p [of w] by (simp add: drop_bit_eq_div)

lemma uint_rot: "uint (ucast (drop_bit 59 (w :: 64 word)) :: 32 word) = drop_bit 59 (uint w)"
  using rot_small [of w] by (simp add: unsigned_ucast_eq unsigned_drop_bit_eq take_bit_int_eq_self)

lemma take_bit_rot: "take_bit 5 (drop_bit 59 (uint (w :: 64 word))) = drop_bit 59 (uint w)"
  using rot_small [of w] by (intro take_bit_int_eq_self) simp_all

lemma uint_back_rot:
  fixes r :: "32 word"
  assumes "uint r < 32"
  shows "unat ((32 - r) AND 31) = nat (take_bit 5 (32 - uint r))"
proof -
  have "uint (32 - r) = (32 - uint r) mod 2 ^ 32" by (simp add: uint_word_ariths)
  also have "\<dots> = 32 - uint r"
  proof (intro mod_pos_pos_trivial)
    show "0 \<le> 32 - uint r" using assms by simp
    have "32 - uint r \<le> 32" by simp
    then show "32 - uint r < 2 ^ 32" by (rule le_less_trans) simp
  qed
  finally have "uint ((32 - r) AND 31) = take_bit 5 (32 - uint r)"
    by (simp add: unsigned_and_eq)
  then show ?thesis by (metis unat_eq_nat_uint)
qed

lemma uint_xorshifted:
  "uint (ucast (drop_bit 27 (drop_bit 18 (w :: 64 word) XOR w)) :: 32 word) =
   take_bit 32 (drop_bit 27 (drop_bit 18 (uint w) XOR uint w))"
  by (simp add: unsigned_ucast_eq unsigned_drop_bit_eq unsigned_xor_eq)

lemma uint_rotate:
  fixes x :: "32 word"
  shows "uint (drop_bit n x OR push_bit m x) = take_bit 32 (drop_bit n (uint x) OR push_bit m (uint x))"
  by (rule bit_eqI) (auto simp: bit_simps dest: bit_imp_le_length)

lemma uint_push_or_1:
  "uint (push_bit n (word_of_int x) OR 1 :: 64 word) = take_bit 64 (push_bit n x OR 1)"
  by (rule bit_eqI) (auto simp: bit_simps)

lemma pcg_u32_rel:
  assumes "pcg_rel g c"
  shows "fst (pcg_u32 g) = uint (fst (prng_u32 c))" and "pcg_rel (snd (pcg_u32 g)) (snd (prng_u32 c))"
proof -
  obtain w i where c: "c = (w, i)" by (cases c)
  have g: "pcg_state g = uint w" "pcg_inc g = uint i" using assms by (simp_all add: pcg_rel_def c)
  define r where "r = (ucast (drop_bit 59 w) :: 32 word)"
  have r: "drop_bit 59 (uint w) = uint r" by (simp add: r_def uint_rot)
  have r32: "uint r < 32" using rot_small [of w] by (simp add: r)
  have nb: "nat (take_bit 5 (32 - uint r)) = unat ((32 - r) AND 31)"
    using uint_back_rot [OF r32] by simp
  have tr: "take_bit 5 (uint r) = uint r" using take_bit_rot [of w] by (simp only: r)
  show "fst (pcg_u32 g) = uint (fst (prng_u32 c))"
    by (simp only: pcg_u32_def prng_u32_def Let_def c g prod.case fst_conv uint_rotate and_MASK32
                   uint_xorshifted and_31_int r tr nb r_def [symmetric] unat_eq_nat_uint)
  show "pcg_rel (snd (pcg_u32 g)) (snd (prng_u32 c))"
    by (simp add: pcg_u32_def prng_u32_def Let_def c g pcg_rel_def uint_word_ariths MULT_def
                  take_bit_eq_mod mod_simps)
qed

lemma pcg_init_rel: "pcg_rel (pcg_init st sq) (prng_seed (word_of_int st) (word_of_int sq))"
proof -
  let ?g0 = "\<lparr>pcg_state = 0, pcg_inc = (push_bit 1 sq OR 1) AND MASK64\<rparr>"
  let ?c0 = "(0, push_bit 1 (word_of_int sq) OR 1) :: cpcg"
  have 0: "pcg_rel ?g0 ?c0"
    by (simp only: pcg_rel_def pcg.simps fst_conv snd_conv and_MASK64 unsigned_0 uint_push_or_1 simp_thms)
  obtain x s1 i1 where c1: "prng_u32 ?c0 = (x, s1, i1)" by (metis prod_cases3)
  have 1: "pcg_rel (snd (pcg_u32 ?g0)) (s1, i1)" using pcg_u32_rel(2) [OF 0] by (simp only: c1 snd_conv)
  then have "pcg_rel ((snd (pcg_u32 ?g0))\<lparr>pcg_state :=
      (pcg_state (snd (pcg_u32 ?g0)) + (st AND MASK64)) AND MASK64\<rparr>) (s1 + word_of_int st, i1)"
    by (simp add: pcg_rel_def uint_word_ariths uint_word_of_int take_bit_eq_mod mod_simps)
  from pcg_u32_rel(2) [OF this] show ?thesis
    unfolding pcg_init_def prng_seed_def Let_def c1 by simp
qed

lemma pcg_draws_rel: "pcg_rel g c \<Longrightarrow> pcg_draws n g = map uint (prng_draws n c)"
  by (induction n arbitrary: g c)
     (auto simp: Let_def split_beta pcg_u32_rel intro: pcg_u32_rel(2))

text \<open>C40: The Python generator and the firmware's C generator, seeded alike, draw the same
  sequence bit for bit, for any seed and stream number (the C function sees them mod \<open>2 ^ 64\<close>).\<close>

theorem pcg_matches_firmware:
  "pcg_draws n (pcg_init st sq) = map uint (prng_draws n (prng_seed (word_of_int st) (word_of_int sq)))"
  by (rule pcg_draws_rel [OF pcg_init_rel])

lemma pcg_uniform_ex:
  "\<exists>k :: int. 0 \<le> k \<and> k < 2 ^ 24 \<and> fst (pcg_uniform g) = of_int k / 2 ^ 24 \<and>
   0 \<le> fst (pcg_uniform g) \<and> fst (pcg_uniform g) < 1"
proof -
  let ?k = "drop_bit 8 (fst (pcg_u32 g))"
  have k: "0 \<le> ?k" "?k < 2 ^ 24"
    using pcg_u32_range [of g] by (auto simp: drop_bit_eq_div pos_imp_zdiv_nonneg_iff)
  have u: "fst (pcg_uniform g) = of_int ?k / 2 ^ 24" by (simp add: pcg_uniform_def Let_def split_beta)
  have "(of_int ?k :: real) < of_int (2 ^ 24)" using k(2) by (simp only: of_int_less_iff)
  moreover have "(0 :: real) \<le> of_int ?k" using k(1) by (simp only: of_int_0_le_iff)
  ultimately show ?thesis using k unfolding u by (intro exI [of _ ?k]) (simp add: divide_less_eq)
qed

lemma pcg_uniform_lt_1: "0 \<le> fst (pcg_uniform g)" "fst (pcg_uniform g) < 1"
  using pcg_uniform_ex [of g] by blast+

text \<open>A uniform draw lies in \<open>[0, 1)\<close> and is a multiple of \<open>1 / 2 ^ 24\<close>, hence exact in float32.\<close>

theorem pcg_uniform_range:
  "\<exists>k :: int. 0 \<le> k \<and> k < 2 ^ 24 \<and> fst (pcg_uniform g) = of_int k / 2 ^ 24 \<and>
   0 \<le> fst (pcg_uniform g) \<and> fst (pcg_uniform g) < 1"
  by (rule pcg_uniform_ex)

lemma pcg_uniform_rel:
  assumes "pcg_rel g c"
  shows "fst (pcg_uniform g) = fst (prng_uniform c)"
proof -
  have "of_nat (unat (drop_bit 8 w)) = (of_int (drop_bit 8 (uint w)) :: real)" for w :: "32 word"
  proof -
    have "drop_bit 8 (uint w) = uint (drop_bit 8 w)"
      by (rule bit_eqI) (auto simp: bit_simps dest: bit_imp_le_length)
    then show ?thesis by (simp only: of_nat_nat uint_nat of_int_of_nat_eq)
  qed
  then show ?thesis
    using pcg_u32_rel(1) [OF assms] by (simp add: pcg_uniform_def prng_uniform_def Let_def split_beta)
qed

end
