(* ===== verification/ControllerBase.thy ===== *)
theory ControllerBase
  imports Numeric Pcg32
begin

section \<open>The controller seam and the disturbance (controllers/base.py, disturbance.py)\<close>

text \<open>
  \<open>controller_output\<close> is one step's result, \<open>column_names\<close> the log schema that goes with it,
  \<open>registry\<close> the map manifests select from, \<open>disturbance_at\<close> the additive signal, whose
  random stream is a state \<open>'g\<close> with a draw function (numpy's generator, or \<^verbatim>\<open>Pcg32\<close>).
  Control values are reals: float rounding is not modelled.
\<close>

record controller_output =
  co_state :: "real list"
  co_vstate :: "real list"
  co_extra :: "real list"

definition output_channels :: "controller_output \<Rightarrow> real list" where
  "output_channels o1 = co_state o1 @ co_vstate o1 @ co_extra o1"

definition output_scaled :: "controller_output \<Rightarrow> int list" where
  "output_scaled o1 = map quantize (output_channels o1)"

record disturbance_params =
  dp_enabled :: bool
  dp_noise_amplitude :: real
  dp_noise_offset :: real
  dp_beta :: real
  dp_sine_amplitude :: real
  dp_sine_frequency_hz :: real
  dp_sine_phase_s :: real
  dp_period_samples :: int

text \<open>What a controller class declares.\<close>

record controller_class =
  cl_name :: string
  cl_dim :: nat
  cl_coords :: "string list"
  cl_channels :: "string list"

definition column_names :: "controller_class \<Rightarrow> string list result" where
  "column_names c =
     bindR (if cl_dim c = 1 then Inr [''state'', ''vstate'']
            else if length (cl_coords c) \<noteq> cl_dim c then Inl ValueError
            else Inr (concat (map (\<lambda>w. map (\<lambda>s. w @ ''_'' @ s) (cl_coords c)) [''state'', ''vstate''])))
       (\<lambda>base. Inr (base @ cl_channels c))"

type_synonym registry = "(string \<times> controller_class) list"

definition register :: "registry \<Rightarrow> controller_class \<Rightarrow> registry result" where
  "register reg c =
     (case map_of reg (cl_name c) of
        Some d \<Rightarrow> if d \<noteq> c then Inl ValueError else Inr ((cl_name c, c) # reg)
      | None \<Rightarrow> Inr ((cl_name c, c) # reg))"

definition create :: "registry \<Rightarrow> string \<Rightarrow> controller_class result" where
  "create reg name = (case map_of reg name of None \<Rightarrow> Inl ValueError | Some c \<Rightarrow> Inr c)"

text \<open>Exactly one of \<open>seed\<close> and \<open>uniform\<close> must be given.\<close>

definition disturbance_source :: "(int \<Rightarrow> 'u) \<Rightarrow> int option \<Rightarrow> 'u option \<Rightarrow> 'u result" where
  "disturbance_source default_rng seed uniform =
     (if (seed = None) = (uniform = None) then Inl ValueError
      else case uniform of Some u \<Rightarrow> Inr u | None \<Rightarrow> Inr (default_rng (the seed)))"

definition disturbance_at ::
  "('g \<Rightarrow> real \<times> 'g) \<Rightarrow> disturbance_params \<Rightarrow> real \<Rightarrow> 'g \<Rightarrow> real \<times> 'g" where
  "disturbance_at draw p t_s g =
     (if \<not> dp_enabled p then (0, g)
      else
        let (u, g') = draw g;
            noise = dp_noise_amplitude p * (u - dp_noise_offset p);
            sinusoid = dp_sine_amplitude p
              * sin (2 * pi * dp_sine_frequency_hz p * (t_s - dp_sine_phase_s p))
        in (noise + dp_beta p + sinusoid, g'))"

subsection \<open>Facts\<close>

lemma column_count:
  "column_names c = Inr ns \<Longrightarrow> 0 < cl_dim c \<Longrightarrow> length ns = 2 * cl_dim c + length (cl_channels c)"
  by (auto simp: column_names_def result_simps split: if_splits)

lemma create_registered:
  "register reg c = Inr reg' \<Longrightarrow> create reg' (cl_name c) = Inr c"
  by (auto simp: register_def create_def split: option.splits if_splits)

lemma create_others:
  "register reg c = Inr reg' \<Longrightarrow> n \<noteq> cl_name c \<Longrightarrow> create reg' n = create reg n"
  by (auto simp: register_def create_def split: option.splits if_splits)

definition disturbance_bound :: "disturbance_params \<Rightarrow> real" where
  "disturbance_bound p =
     \<bar>dp_noise_amplitude p\<bar> * max \<bar>dp_noise_offset p\<bar> \<bar>1 - dp_noise_offset p\<bar>
     + \<bar>dp_beta p\<bar> + \<bar>dp_sine_amplitude p\<bar>"

lemma noise_bound:
  assumes "0 \<le> u" "u < (1 :: real)"
  shows "\<bar>a * (u - off)\<bar> \<le> \<bar>a\<bar> * max \<bar>off\<bar> \<bar>1 - off\<bar>"
proof -
  have "\<bar>u - off\<bar> \<le> max \<bar>off\<bar> \<bar>1 - off\<bar>" using assms by (auto simp: max_def abs_if)
  then show ?thesis by (simp add: abs_mult mult_left_mono)
qed

lemma disturbance_bounded:
  assumes "0 \<le> fst (draw g)" "fst (draw g) < 1"
  shows "\<bar>fst (disturbance_at draw p t g)\<bar> \<le> disturbance_bound p"
proof (cases "dp_enabled p")
  case False
  then show ?thesis by (simp add: disturbance_at_def disturbance_bound_def)
next
  case True
  let ?x = "2 * pi * dp_sine_frequency_hz p * (t - dp_sine_phase_s p)"
  have s: "\<bar>dp_sine_amplitude p * sin ?x\<bar> \<le> \<bar>dp_sine_amplitude p\<bar>"
    using abs_sin_le_one [of ?x] mult_left_mono [of "\<bar>sin ?x\<bar>" 1 "\<bar>dp_sine_amplitude p\<bar>"]
    by (simp add: abs_mult)
  have n: "\<bar>dp_noise_amplitude p * (fst (draw g) - dp_noise_offset p)\<bar>
      \<le> \<bar>dp_noise_amplitude p\<bar> * max \<bar>dp_noise_offset p\<bar> \<bar>1 - dp_noise_offset p\<bar>"
    by (rule noise_bound [OF assms])
  have "fst (disturbance_at draw p t g)
      = dp_noise_amplitude p * (fst (draw g) - dp_noise_offset p) + dp_beta p + dp_sine_amplitude p * sin ?x"
    using True by (simp add: disturbance_at_def Let_def split_beta)
  then show ?thesis using s n unfolding disturbance_bound_def by linarith
qed

text \<open>Driven by the PCG32 stream the disturbance is bounded, at every time and from every
  generator state, by the noise, bias and sine amplitudes of its parameters.\<close>

theorem disturbance_pcg_bounded:
  "\<bar>fst (disturbance_at pcg_uniform p t g)\<bar> \<le> disturbance_bound p"
  by (rule disturbance_bounded) (simp_all add: pcg_uniform_lt_1)

subsection \<open>What an agent relies on\<close>

text \<open>
  The contract of \<^verbatim>\<open>Controller\<close>: on a good state a step returns, stays good, and its
  output agrees with the declared log columns and with the virtual state the controller then
  shows. It is interpreted on the scalar law and on the microgrid controller.
\<close>

locale coordination_law =
  fixes step :: "'c \<Rightarrow> int list \<Rightarrow> bool list \<Rightarrow> ('c \<times> controller_output) result"
    and vstate :: "'c \<Rightarrow> real list"
    and cls :: "'c \<Rightarrow> controller_class"
    and good :: "'c \<Rightarrow> bool"
  assumes total: "good c \<Longrightarrow> \<exists>c' out. step c vs es = Inr (c', out)"
    and good_kept: "good c \<Longrightarrow> step c vs es = Inr (c', out) \<Longrightarrow> good c'"
    and class_kept: "good c \<Longrightarrow> step c vs es = Inr (c', out) \<Longrightarrow> cls c' = cls c"
    and shows_vstate: "good c \<Longrightarrow> step c vs es = Inr (c', out) \<Longrightarrow> co_vstate out = vstate c'"
    and width: "good c \<Longrightarrow> step c vs es = Inr (c', out) \<Longrightarrow>
      \<exists>ns. column_names (cls c) = Inr ns \<and> length (output_channels out) = length ns"
    and coordinates: "good c \<Longrightarrow> length (vstate c) = cl_dim (cls c)"
begin

primrec run :: "'c \<Rightarrow> (int list \<times> bool list) list \<Rightarrow> ('c \<times> controller_output list) result" where
  "run c [] = Inr (c, [])"
| "run c (i # is) = bindR (step c (fst i) (snd i)) (\<lambda>(c', out). bindR (run c' is) (\<lambda>(c'', outs). Inr (c'', out # outs)))"

lemma run_total:
  "good c \<Longrightarrow> \<exists>c' outs. run c is = Inr (c', outs) \<and> good c' \<and> cls c' = cls c \<and> length outs = length is"
proof (induction "is" arbitrary: c)
  case Nil
  then show ?case by simp
next
  case (Cons i "is")
  obtain c1 out where s: "step c (fst i) (snd i) = Inr (c1, out)" using total [OF Cons.prems] by blast
  then show ?case
    using Cons.IH [OF good_kept [OF Cons.prems s]] class_kept [OF Cons.prems s] by auto
qed

lemma run_outputs:
  "good c \<Longrightarrow> run c is = Inr (c', outs) \<Longrightarrow> column_names (cls c) = Inr ns \<Longrightarrow>
   list_all (\<lambda>out. length (output_channels out) = length ns \<and> length (co_vstate out) = cl_dim (cls c)) outs"
proof (induction "is" arbitrary: c c' outs)
  case Nil
  then show ?case by simp
next
  case (Cons i "is")
  obtain c1 out outs1 where s: "step c (fst i) (snd i) = Inr (c1, out)" "run c1 is = Inr (c', outs1)" "outs = out # outs1"
    using Cons.prems(2) by (auto simp: result_simps)
  note k = good_kept [OF Cons.prems(1) s(1)] class_kept [OF Cons.prems(1) s(1)]
  show ?case
    using Cons.IH [OF k(1) s(2)] Cons.prems(3) width [OF Cons.prems(1) s(1)] shows_vstate [OF Cons.prems(1) s(1)]
      coordinates [OF k(1)] k(2) by (auto simp: s(3))
qed

end

end
