(* ===== verification/Plant.thy ===== *)
theory Plant
  imports ControllerBase
begin

section \<open>The generator emulator (controllers/plant.py)\<close>

text \<open>
  \<open>plant_params\<close> and \<open>plant\<close> are \<^verbatim>\<open>PlantParams\<close> and \<^verbatim>\<open>MicrogridPlant\<close>;
  \<open>plant_check\<close> is \<^verbatim>\<open>__post_init__\<close>. Quantities are reals, profile names strings, and
  an unknown profile raises where the source does. The lemmas bound the rating limiter and the
  matched uncertainty, whatever the state, and hence one Euler step.
\<close>

definition PROFILES :: "string list" where
  "PROFILES = [''rep'', ''per'']"

definition a_zeta :: "string \<Rightarrow> real \<Rightarrow> real result" where
  "a_zeta profile t_s =
     (if profile = ''rep'' then Inr (1 / 1000 * exp (- 5 * t_s))
      else if profile = ''per'' then Inr (1 / 1000 * (3 / 4 + 1 / 4 * sin (1 / 10 * t_s)))
      else Inl ValueError)"

definition smooth_saturation :: "real \<Rightarrow> real \<Rightarrow> real \<Rightarrow> real \<Rightarrow> real \<times> real" where
  "smooth_saturation p q p_max q_max = (p_max * tanh (p / p_max), q_max * tanh (q / q_max))"

record plant_params =
  pl_kappa :: real
  pl_S1 :: real
  pl_S2 :: real
  pl_profile :: string
  pl_p_max :: real
  pl_q_max :: real
  pl_b :: real

definition plant_check :: "plant_params \<Rightarrow> plant_params result" where
  "plant_check p =
     (if pl_kappa p \<le> 0 then Inl ValueError
      else if pl_profile p \<notin> set PROFILES then Inl ValueError
      else Inr p)"

definition zeta_bound :: "plant_params \<Rightarrow> real" where
  "zeta_bound p =
     (1 / 1000 / pl_kappa p) * (pl_p_max p + pl_q_max p) * (\<bar>pl_S1 p\<bar> + \<bar>pl_S2 p\<bar>)"

record plant =
  pt_p :: plant_params
  pt_xP :: real
  pt_xQ :: real

definition from_physical :: "plant_params \<Rightarrow> real \<Rightarrow> real \<Rightarrow> plant" where
  "from_physical p P Q = \<lparr>pt_p = p, pt_xP = P / pl_kappa p, pt_xQ = Q / pl_kappa p\<rparr>"

definition physical :: "plant \<Rightarrow> real \<times> real" where
  "physical s = (pl_kappa (pt_p s) * pt_xP s, pl_kappa (pt_p s) * pt_xQ s)"

definition plant_command :: "plant \<Rightarrow> real \<Rightarrow> real \<Rightarrow> real \<times> real" where
  "plant_command s muP muQ =
     (let k = pl_kappa (pt_p s) / pl_b (pt_p s) in (k * muP, k * muQ))"

definition rating_utilisation :: "plant \<Rightarrow> real \<times> real" where
  "rating_utilisation s =
     (let (P, Q) = physical s in (\<bar>P\<bar> / pl_p_max (pt_p s), \<bar>Q\<bar> / pl_q_max (pt_p s)))"

definition plant_zeta :: "plant \<Rightarrow> real \<Rightarrow> (real \<times> real) result" where
  "plant_zeta s t_s =
     (let p = pt_p s;
          (ps, qs) = smooth_saturation (pl_kappa p * pt_xP s) (pl_kappa p * pt_xQ s) (pl_p_max p) (pl_q_max p)
      in bindR (a_zeta (pl_profile p) t_s) (\<lambda>az.
           let a = az / pl_kappa p
           in Inr (a * (ps * pl_S1 p + qs * pl_S2 p), a * (qs * pl_S1 p - ps * pl_S2 p))))"

definition plant_step :: "plant \<Rightarrow> real \<Rightarrow> real \<Rightarrow> real \<Rightarrow> real \<Rightarrow> plant result" where
  "plant_step s muP muQ t_s h =
     bindR (plant_zeta s t_s) (\<lambda>(zP, zQ).
       Inr (s\<lparr>pt_xP := pt_xP s + h * (muP + zP), pt_xQ := pt_xQ s + h * (muQ + zQ)\<rparr>))"

subsection \<open>Facts\<close>

definition plant_ok :: "plant_params \<Rightarrow> bool" where
  "plant_ok p \<longleftrightarrow> plant_check p = Inr p \<and> 0 < pl_p_max p \<and> 0 < pl_q_max p"

lemma plant_ok_iff:
  "plant_ok p \<longleftrightarrow> 0 < pl_kappa p \<and> pl_profile p \<in> set PROFILES \<and> 0 < pl_p_max p \<and> 0 < pl_q_max p"
  by (auto simp: plant_ok_def plant_check_def)

lemma saturation_bound:
  "0 < m \<Longrightarrow> \<bar>m * tanh (x / m)\<bar> < m" for x :: real
proof -
  assume m: "0 < m"
  have "\<bar>tanh (x / m)\<bar> < 1" using tanh_real_bounds [of "x / m"] by (auto simp: abs_less_iff)
  then show ?thesis using m by (simp add: abs_mult)
qed

lemma a_zeta_known:
  "profile \<in> set PROFILES \<Longrightarrow> \<exists>a. a_zeta profile t = Inr a \<and> 0 \<le> a \<and> (0 \<le> t \<longrightarrow> a \<le> 1 / 1000)"
proof -
  assume "profile \<in> set PROFILES"
  then consider "profile = ''rep''" | "profile = ''per''" by (auto simp: PROFILES_def)
  then show ?thesis
  proof cases
    case 1
    have "exp (- (5 * t)) \<le> 1" if "0 \<le> t" using that by simp
    then show ?thesis using 1 by (intro exI [of _ "1 / 1000 * exp (- 5 * t)"]) (simp add: a_zeta_def)
  next
    case 2
    have "- 1 \<le> sin (1 / 10 * t)" "sin (1 / 10 * t) \<le> 1" by simp_all
    then have "0 \<le> 3 / 4 + 1 / 4 * sin (1 / 10 * t)" "3 / 4 + 1 / 4 * sin (1 / 10 * t) \<le> 1" by linarith+
    then show ?thesis using 2
      by (intro exI [of _ "1 / 1000 * (3 / 4 + 1 / 4 * sin (1 / 10 * t))"]) (simp add: a_zeta_def)
  qed
qed

lemma a_zeta_unknown: "profile \<notin> set PROFILES \<Longrightarrow> a_zeta profile t = Inl ValueError"
  by (auto simp: a_zeta_def PROFILES_def)

lemma cross_bound:
  fixes a p q s1 s2 :: real
  assumes "0 \<le> a" "\<bar>p\<bar> \<le> pm" "\<bar>q\<bar> \<le> qm"
  shows "\<bar>a * (p * s1 + q * s2)\<bar> + \<bar>a * (q * s1 - p * s2)\<bar> \<le> a * (pm + qm) * (\<bar>s1\<bar> + \<bar>s2\<bar>)"
proof -
  have *: "\<bar>p * s1\<bar> \<le> pm * \<bar>s1\<bar>" "\<bar>q * s2\<bar> \<le> qm * \<bar>s2\<bar>" "\<bar>q * s1\<bar> \<le> qm * \<bar>s1\<bar>" "\<bar>p * s2\<bar> \<le> pm * \<bar>s2\<bar>"
    using assms(2,3) by (simp_all add: abs_mult mult_right_mono)
  have "\<bar>p * s1 + q * s2\<bar> + \<bar>q * s1 - p * s2\<bar> \<le> (pm + qm) * (\<bar>s1\<bar> + \<bar>s2\<bar>)"
    using * unfolding distrib_left distrib_right by linarith
  then have "a * (\<bar>p * s1 + q * s2\<bar> + \<bar>q * s1 - p * s2\<bar>) \<le> a * ((pm + qm) * (\<bar>s1\<bar> + \<bar>s2\<bar>))"
    using assms(1) by (rule mult_left_mono)
  then show ?thesis 
    unfolding abs_mult abs_of_nonneg [OF assms(1)] distrib_left [symmetric] mult.assoc by simp
qed

lemma plant_zeta_bounded:
  assumes "plant_ok (pt_p s)" and "0 \<le> t"
  shows "\<exists>zP zQ. plant_zeta s t = Inr (zP, zQ) \<and> \<bar>zP\<bar> + \<bar>zQ\<bar> \<le> zeta_bound (pt_p s)"
proof -
  define p where "p = pt_p s"
  have ok: "0 < pl_kappa p" "pl_profile p \<in> set PROFILES" "0 < pl_p_max p" "0 < pl_q_max p"
    using assms(1) by (auto simp: plant_ok_iff p_def)
  obtain az where az: "a_zeta (pl_profile p) t = Inr az" "0 \<le> az" "az \<le> 1 / 1000"
    using a_zeta_known [OF ok(2), of t] assms(2) by blast
  obtain ps qs where sat: "smooth_saturation (pl_kappa p * pt_xP s) (pl_kappa p * pt_xQ s) (pl_p_max p) (pl_q_max p)
      = (ps, qs)" "\<bar>ps\<bar> \<le> pl_p_max p" "\<bar>qs\<bar> \<le> pl_q_max p"
    using saturation_bound [OF ok(3), of "pl_kappa p * pt_xP s"] saturation_bound [OF ok(4), of "pl_kappa p * pt_xQ s"]
    by (auto simp: smooth_saturation_def less_imp_le)
  have "az / pl_kappa p \<le> 1 / 1000 / pl_kappa p" using az(3) ok(1) by (intro divide_right_mono) simp_all
  then have "az / pl_kappa p * ((pl_p_max p + pl_q_max p) * (\<bar>pl_S1 p\<bar> + \<bar>pl_S2 p\<bar>)) \<le> zeta_bound p"
    unfolding zeta_bound_def mult.assoc using ok by (intro mult_right_mono) auto
  with cross_bound [of "az / pl_kappa p" ps "pl_p_max p" qs "pl_q_max p" "pl_S1 p" "pl_S2 p"] az ok sat
  show ?thesis by (simp add: plant_zeta_def Let_def mult.assoc flip: p_def)
qed

lemma physical_roundtrip: "pl_kappa p \<noteq> 0 \<Longrightarrow> physical (from_physical p P Q) = (P, Q)"
  by (simp add: physical_def from_physical_def)

lemma plant_step_fields:
  "plant_step s muP muQ t h = Inr s' \<Longrightarrow> pt_p s' = pt_p s"
  by (auto simp: plant_step_def result_simps split: prod.splits)

lemma plant_step_unknown:
  "pl_profile (pt_p s) \<notin> set PROFILES \<Longrightarrow> plant_step s muP muQ t h = Inl ValueError"
  by (simp add: plant_step_def plant_zeta_def a_zeta_unknown Let_def split_beta)

lemma plant_step_bounded:
  assumes "plant_ok (pt_p s)" and "0 \<le> t" and "0 \<le> h" and "\<bar>muP\<bar> \<le> m" and "\<bar>muQ\<bar> \<le> m"
  shows "\<exists>s'. plant_step s muP muQ t h = Inr s' \<and> pt_p s' = pt_p s \<and>
              \<bar>pt_xP s' - pt_xP s\<bar> \<le> h * (m + zeta_bound (pt_p s)) \<and>
              \<bar>pt_xQ s' - pt_xQ s\<bar> \<le> h * (m + zeta_bound (pt_p s))"
proof -
  obtain zP zQ where z: "plant_zeta s t = Inr (zP, zQ)" "\<bar>zP\<bar> + \<bar>zQ\<bar> \<le> zeta_bound (pt_p s)"
    using plant_zeta_bounded [OF assms(1,2)] by blast
  have "\<bar>muP + zP\<bar> \<le> m + zeta_bound (pt_p s)" "\<bar>muQ + zQ\<bar> \<le> m + zeta_bound (pt_p s)"
    using z(2) assms(4,5) by linarith+
  then show ?thesis using assms(3) by (simp add: plant_step_def z(1) abs_mult mult_left_mono)
qed

end
