(* ===== verification/VirtualLayer.thy ===== *)
theory VirtualLayer
  imports Prelude
begin

section \<open>The virtual layer (controllers/virtual.py)\<close>

text \<open>
  \<open>virtual_params\<close> and \<open>virtual_layer\<close> are \<^verbatim>\<open>VirtualParams\<close> and \<^verbatim>\<open>VirtualLayer\<close>;
  \<open>vl_hold\<close>, \<open>vl_candidate\<close> and \<open>vl_commit\<close> are one tick's three calls. The lemmas show that
  the semi-implicit update is a convex combination with a weight in \<open>[0, 1)\<close>, so that an
  interval holding the neighbours' values and the reference is never left, and that the
  adaptive gain does not decrease.
\<close>

record virtual_params =
  vp_T_o :: real
  vp_alpha_0 :: real
  vp_delta_o :: real
  vp_kappa_o :: real
  vp_xi :: real
  vp_c_0 :: real
  vp_b :: real
  vp_rP :: real
  vp_rQ :: real

definition virtual_check :: "virtual_params \<Rightarrow> virtual_params result" where
  "virtual_check p =
     (if vp_T_o p \<le> 0 \<or> vp_delta_o p \<le> 0 then Inl ValueError
      else if vp_b p < 0 then Inl ValueError
      else if vp_b p = 0 \<and> (vp_rP p \<noteq> 0 \<or> vp_rQ p \<noteq> 0) then Inl ValueError
      else Inr p)"

record virtual_layer =
  vl_p :: virtual_params
  vl_degree :: int
  vl_D :: real
  vl_zP :: real
  vl_zQ :: real
  vl_c :: real
  vl_wP :: real
  vl_wQ :: real

definition vl_new :: "virtual_params \<Rightarrow> int \<Rightarrow> real \<Rightarrow> real \<Rightarrow> virtual_layer result" where
  "vl_new p degree zP zQ =
     (if of_int degree + vp_b p \<le> 0 then Inl ValueError
      else Inr \<lparr>vl_p = p, vl_degree = degree, vl_D = of_int degree + vp_b p, vl_zP = zP, vl_zQ = zQ,
                vl_c = vp_c_0 p, vl_wP = vp_b p * vp_rP p, vl_wQ = vp_b p * vp_rQ p\<rparr>)"

definition vl_hold :: "virtual_layer \<Rightarrow> (real \<times> real) list \<Rightarrow> virtual_layer result" where
  "vl_hold v neighbours =
     (if int (length neighbours) \<noteq> vl_degree v then Inl ValueError
      else Inr (v\<lparr>vl_wP := sum_list (map fst neighbours) + vp_b (vl_p v) * vp_rP (vl_p v),
                  vl_wQ := sum_list (map snd neighbours) + vp_b (vl_p v) * vp_rQ (vl_p v)\<rparr>))"

definition vl_alpha :: "virtual_layer \<Rightarrow> real \<Rightarrow> real" where
  "vl_alpha v t_s = vp_alpha_0 (vl_p v) * vp_T_o (vl_p v) / max (vp_T_o (vl_p v) - t_s) (vp_delta_o (vl_p v))"

definition vl_coefficients :: "virtual_layer \<Rightarrow> real \<Rightarrow> real \<times> real" where
  "vl_coefficients v t_s = (let a = vl_alpha v t_s in (a + vp_kappa_o (vl_p v), 2 * a))"

definition vl_theta :: "virtual_layer \<Rightarrow> real \<Rightarrow> real \<Rightarrow> real" where
  "vl_theta v t_s h =
     (let (f_o, _) = vl_coefficients v t_s; x = h * vl_c v * f_o * vl_D v in x / (1 + x))"

record vl_cand =
  vc_zP :: real
  vc_zQ :: real
  vc_c :: real
  vc_gP :: real
  vc_gQ :: real
  vc_etaP :: real
  vc_etaQ :: real

definition vl_candidate :: "virtual_layer \<Rightarrow> real \<Rightarrow> real \<Rightarrow> vl_cand" where
  "vl_candidate v t_s h =
     (let (f_o, rho_o) = vl_coefficients v t_s;
          a_o = vl_c v * f_o;
          den = 1 + h * a_o * vl_D v;
          etaP = vl_D v * vl_zP v - vl_wP v;
          etaQ = vl_D v * vl_zQ v - vl_wQ v;
          k = - a_o / den
      in \<lparr>vc_zP = vl_zP v + h * (k * etaP), vc_zQ = vl_zQ v + h * (k * etaQ),
          vc_c = vl_c v + h * rho_o * vp_xi (vl_p v) * f_o * f_o * (etaP * etaP + etaQ * etaQ),
          vc_gP = k * etaP, vc_gQ = k * etaQ, vc_etaP = etaP, vc_etaQ = etaQ\<rparr>)"

definition vl_commit :: "virtual_layer \<Rightarrow> real \<Rightarrow> real \<Rightarrow> real \<Rightarrow> virtual_layer" where
  "vl_commit v zP zQ c = v\<lparr>vl_zP := zP, vl_zQ := zQ, vl_c := c\<rparr>"

definition vl_packet :: "virtual_layer \<Rightarrow> real \<times> real" where
  "vl_packet v = (vl_zP v, vl_zQ v)"

text \<open>One tick of the layer alone, as the controller composes it.\<close>

definition vl_tick :: "real \<Rightarrow> virtual_layer \<Rightarrow> real \<times> (real \<times> real) list \<Rightarrow> virtual_layer result" where
  "vl_tick h v inp =
     bindR (vl_hold v (snd inp)) (\<lambda>v'.
       let k = vl_candidate v' (fst inp) h in Inr (vl_commit v' (vc_zP k) (vc_zQ k) (vc_c k)))"

subsection \<open>Facts\<close>

text \<open>The invariant: checked parameters with nonnegative gains, and the degrees that \<open>vl_new\<close> sets.\<close>

definition vl_ok :: "virtual_layer \<Rightarrow> bool" where
  "vl_ok v \<longleftrightarrow> virtual_check (vl_p v) = Inr (vl_p v) \<and> 0 \<le> vp_alpha_0 (vl_p v) \<and> 0 \<le> vp_kappa_o (vl_p v) \<and>
     0 \<le> vp_xi (vl_p v) \<and> 0 \<le> vl_c v \<and> vl_D v = of_int (vl_degree v) + vp_b (vl_p v) \<and> 0 < vl_D v"

lemma virtual_check_iff:
  "virtual_check p = Inr q \<longleftrightarrow> q = p \<and> 0 < vp_T_o p \<and> 0 < vp_delta_o p \<and> 0 \<le> vp_b p \<and>
     (vp_b p = 0 \<longrightarrow> vp_rP p = 0 \<and> vp_rQ p = 0)"
  by (auto simp: virtual_check_def)

lemma vl_new_ok:
  "virtual_check p = Inr p \<Longrightarrow> 0 \<le> vp_alpha_0 p \<Longrightarrow> 0 \<le> vp_kappa_o p \<Longrightarrow> 0 \<le> vp_xi p \<Longrightarrow> 0 \<le> vp_c_0 p \<Longrightarrow>
   vl_new p d zP zQ = Inr v \<Longrightarrow> vl_ok v"
  by (auto simp: vl_new_def vl_ok_def split: if_splits)

lemma alpha_nonneg: "vl_ok v \<Longrightarrow> 0 \<le> vl_alpha v t"
  by (auto simp: vl_ok_def vl_alpha_def virtual_check_iff max_def intro!: divide_nonneg_nonneg mult_nonneg_nonneg)

lemma coefficients_nonneg:
  "vl_ok v \<Longrightarrow> vl_coefficients v t = (f, rho) \<Longrightarrow> 0 \<le> f \<and> 0 \<le> rho"
  using alpha_nonneg [of v t] by (auto simp: vl_coefficients_def Let_def vl_ok_def)

lemma theta_range:
  assumes "vl_ok v" and "0 \<le> h"
  shows "0 \<le> vl_theta v t h" and "vl_theta v t h < 1"
proof -
  obtain f rho where c: "vl_coefficients v t = (f, rho)" by fastforce
  have "0 \<le> h * vl_c v * f * vl_D v"
    using coefficients_nonneg [OF assms(1) c] assms by (simp add: vl_ok_def)
  then show "0 \<le> vl_theta v t h" "vl_theta v t h < 1"
    unfolding vl_theta_def c Let_def prod.case by (auto intro: divide_nonneg_nonneg simp: divide_less_eq)
qed

text \<open>The committed value is \<open>(1 - \<theta>) z + \<theta> w / D\<close>.\<close>

lemma candidate_convex:
  assumes "vl_ok v" and "0 \<le> h"
  shows "vc_zP (vl_candidate v t h) = (1 - vl_theta v t h) * vl_zP v + vl_theta v t h * (vl_wP v / vl_D v)"
    and "vc_zQ (vl_candidate v t h) = (1 - vl_theta v t h) * vl_zQ v + vl_theta v t h * (vl_wQ v / vl_D v)"
proof -
  obtain f rho where c: "vl_coefficients v t = (f, rho)" by fastforce
  define x where "x = h * vl_c v * f * vl_D v"
  have x0: "0 \<le> x" using coefficients_nonneg [OF assms(1) c] assms by (simp add: vl_ok_def x_def)
  have D: "0 < vl_D v" using assms(1) by (simp add: vl_ok_def)
  have e: "z + h * (- (vl_c v * f) / (1 + h * (vl_c v * f) * vl_D v) * (vl_D v * z - w))
      = (1 - x / (1 + x)) * z + x / (1 + x) * (w / vl_D v)" for z w
  proof -
    have d: "1 + h * (vl_c v * f) * vl_D v = 1 + x" by (simp add: x_def mult.assoc)
    have hx: "h * (vl_c v * f) = x / vl_D v" using D by (simp add: x_def mult.assoc)
    have "z + h * (- (vl_c v * f) / (1 + x) * (vl_D v * z - w))
        = z - (h * (vl_c v * f)) * (vl_D v * z - w) / (1 + x)" by simp
    also have "\<dots> = (1 - x / (1 + x)) * z + x / (1 + x) * (w / vl_D v)"
    proof -
      have "x / vl_D v * (vl_D v * z - w) = x * (z - w / vl_D v)" using D by (simp add: right_diff_distrib)
      then have "z - x / vl_D v * (vl_D v * z - w) / (1 + x) = z - x / (1 + x) * (z - w / vl_D v)" by simp
      then show ?thesis unfolding hx by (simp only: left_diff_distrib right_diff_distrib)
    qed
    finally show ?thesis by (simp add: d)
  qed
  show "vc_zP (vl_candidate v t h) = (1 - vl_theta v t h) * vl_zP v + vl_theta v t h * (vl_wP v / vl_D v)"
    and "vc_zQ (vl_candidate v t h) = (1 - vl_theta v t h) * vl_zQ v + vl_theta v t h * (vl_wQ v / vl_D v)"
    using e by (simp_all add: vl_candidate_def vl_theta_def c Let_def flip: x_def)
qed

lemma convex_between:
  fixes a b lo hi th :: real
  assumes "0 \<le> th" "th \<le> 1" "lo \<le> a" "a \<le> hi" "lo \<le> b" "b \<le> hi"
  shows "lo \<le> (1 - th) * a + th * b \<and> (1 - th) * a + th * b \<le> hi"
proof -
  have "(1 - th) * lo \<le> (1 - th) * a" "th * lo \<le> th * b" "(1 - th) * a \<le> (1 - th) * hi" "th * b \<le> th * hi"
    using assms by (simp_all add: mult_left_mono)
  then show ?thesis by (simp add: algebra_simps)
qed

lemma sum_list_between:
  "list_all (\<lambda>x. lo \<le> x \<and> x \<le> hi) xs \<Longrightarrow>
   of_nat (length xs) * lo \<le> sum_list xs \<and> sum_list xs \<le> of_nat (length xs) * (hi :: real)"
  by (induction xs) (auto simp: algebra_simps)

text \<open>What is held divided by \<open>D\<close> lies between the neighbours' values and the reference.\<close>

lemma held_between:
  assumes d: "D = of_int deg + b" "0 < D" "0 \<le> b" "int (length xs) = deg"
      and r: "b = 0 \<or> lo \<le> r \<and> r \<le> hi" and xs: "list_all (\<lambda>x. lo \<le> x \<and> x \<le> hi) xs"
  shows "lo \<le> (sum_list xs + b * r) / D \<and> (sum_list xs + b * r) / D \<le> (hi :: real)"
proof -
  have n: "(of_nat (length xs) :: real) = of_int deg" using d(4) by simp
  have br: "b * lo \<le> b * r \<and> b * r \<le> b * hi" using r d(3) by (auto intro: mult_left_mono)
  have "D * lo \<le> sum_list xs + b * r \<and> sum_list xs + b * r \<le> D * hi"
    using sum_list_between [OF xs] br unfolding n d(1) by (simp add: distrib_right)
  then show ?thesis using d(2) by (simp add: divide_simps mult.commute)
qed

definition in_band :: "real \<Rightarrow> real \<Rightarrow> real \<times> real \<Rightarrow> bool" where
  "in_band lo hi x \<longleftrightarrow> lo \<le> fst x \<and> fst x \<le> hi \<and> lo \<le> snd x \<and> snd x \<le> hi"

definition ref_within :: "real \<Rightarrow> real \<Rightarrow> virtual_params \<Rightarrow> bool" where
  "ref_within lo hi p \<longleftrightarrow> vp_b p = 0 \<or> in_band lo hi (vp_rP p, vp_rQ p)"

lemma vl_tick_ok:
  assumes ok: "vl_ok v" and h: "0 \<le> h" and t: "vl_tick h v inp = Inr v'"
  shows "vl_ok v' \<and> vl_p v' = vl_p v \<and> vl_degree v' = vl_degree v \<and> vl_c v \<le> vl_c v'"
proof -
  obtain v1 where v1: "vl_hold v (snd inp) = Inr v1" using t by (cases "vl_hold v (snd inp)") (auto simp: vl_tick_def)
  have f: "vl_p v1 = vl_p v" "vl_degree v1 = vl_degree v" "vl_D v1 = vl_D v" "vl_c v1 = vl_c v"
    using v1 by (auto simp: vl_hold_def split: if_splits)
  have ok1: "vl_ok v1" using ok f by (simp add: vl_ok_def)
  obtain fo rho where c: "vl_coefficients v1 (fst inp) = (fo, rho)" by fastforce
  have "0 \<le> h * rho * vp_xi (vl_p v1) * fo * fo *
      ((vl_D v1 * vl_zP v1 - vl_wP v1) * (vl_D v1 * vl_zP v1 - vl_wP v1)
       + (vl_D v1 * vl_zQ v1 - vl_wQ v1) * (vl_D v1 * vl_zQ v1 - vl_wQ v1))"
    using coefficients_nonneg [OF ok1 c] h ok1 by (simp add: vl_ok_def)
  then have "vl_c v1 \<le> vc_c (vl_candidate v1 (fst inp) h)"
    by (simp add: vl_candidate_def c Let_def)
  moreover have "v' = vl_commit v1 (vc_zP (vl_candidate v1 (fst inp) h)) (vc_zQ (vl_candidate v1 (fst inp) h))
      (vc_c (vl_candidate v1 (fst inp) h))" using t v1 by (simp add: vl_tick_def Let_def)
  ultimately show ?thesis using ok1 f by (simp add: vl_commit_def vl_ok_def)
qed

lemma vl_tick_within:
  assumes ok: "vl_ok v" and h: "0 \<le> h" and t: "vl_tick h v inp = Inr v'"
      and z: "in_band lo hi (vl_packet v)" and r: "ref_within lo hi (vl_p v)"
      and ns: "list_all (in_band lo hi) (snd inp)"
  shows "in_band lo hi (vl_packet v')"
proof -
  define v1 where "v1 = v\<lparr>vl_wP := sum_list (map fst (snd inp)) + vp_b (vl_p v) * vp_rP (vl_p v),
                          vl_wQ := sum_list (map snd (snd inp)) + vp_b (vl_p v) * vp_rQ (vl_p v)\<rparr>"
  have len: "int (length (snd inp)) = vl_degree v"
    using t by (auto simp: vl_tick_def vl_hold_def result_simps split: if_splits)
  have v': "v' = vl_commit v1 (vc_zP (vl_candidate v1 (fst inp) h)) (vc_zQ (vl_candidate v1 (fst inp) h))
      (vc_c (vl_candidate v1 (fst inp) h))"
    using t len by (simp add: vl_tick_def vl_hold_def v1_def Let_def)
  have ok1: "vl_ok v1" using ok by (simp add: vl_ok_def v1_def)
  have D: "vl_D v = of_int (vl_degree v) + vp_b (vl_p v)" "0 < vl_D v" "0 \<le> vp_b (vl_p v)"
    using ok by (auto simp: vl_ok_def virtual_check_iff)
  have P: "list_all (\<lambda>x. lo \<le> x \<and> x \<le> hi) (map fst (snd inp))"
    and Q: "list_all (\<lambda>x. lo \<le> x \<and> x \<le> hi) (map snd (snd inp))"
    using ns by (auto simp: list_all_iff in_band_def)
  have wP: "lo \<le> vl_wP v1 / vl_D v1 \<and> vl_wP v1 / vl_D v1 \<le> hi"
    using held_between [OF D(1-3), of "map fst (snd inp)" lo "vp_rP (vl_p v)" hi] len P r
    by (auto simp: v1_def ref_within_def in_band_def)
  have wQ: "lo \<le> vl_wQ v1 / vl_D v1 \<and> vl_wQ v1 / vl_D v1 \<le> hi"
    using held_between [OF D(1-3), of "map snd (snd inp)" lo "vp_rQ (vl_p v)" hi] len Q r
    by (auto simp: v1_def ref_within_def in_band_def)
  have zz: "lo \<le> vl_zP v1 \<and> vl_zP v1 \<le> hi \<and> lo \<le> vl_zQ v1 \<and> vl_zQ v1 \<le> hi"
    using z by (simp add: v1_def in_band_def vl_packet_def)
  note th = theta_range [OF ok1 h, of "fst inp"]
  show ?thesis
    using convex_between [OF th(1) less_imp_le [OF th(2)], of lo "vl_zP v1" hi "vl_wP v1 / vl_D v1"]
      convex_between [OF th(1) less_imp_le [OF th(2)], of lo "vl_zQ v1" hi "vl_wQ v1 / vl_D v1"] zz wP wQ
    by (simp add: v' vl_commit_def vl_packet_def in_band_def candidate_convex [OF ok1 h])
qed

lemma vl_tick_total:
  "int (length (snd inp)) = vl_degree v \<Longrightarrow> \<exists>v'. vl_tick h v inp = Inr v'"
  by (simp add: vl_tick_def vl_hold_def Let_def)

end
