(* ===== verification/Interfaces.thy ===== *)
theory Interfaces
  imports Plant VirtualLayer
begin

section \<open>The physical interfaces (controllers/interface_adaptive.py, interface_lc.py)\<close>

text \<open>
  \<open>adaptive_step\<close> and \<open>lc_step\<close> are the two interfaces' \<^verbatim>\<open>step\<close>; the tuple they return
  is \<open>iface_out\<close>. The controller relies on three things only: the command is the feedforward
  less the correction, the applied command is the clipped one, and the parameters stay what
  they were. The locale \<open>physical_interface\<close> states that and is interpreted on both arms.
\<close>

record iface_out =
  io_muP :: real
  io_muQ :: real
  io_appP :: real
  io_appQ :: real
  io_sigmaP :: real
  io_sigmaQ :: real
  io_omegaP :: real
  io_omegaQ :: real
  io_saturated :: bool
  io_trig :: real
  io_fired :: bool

definition clip_to :: "real \<Rightarrow> real \<Rightarrow> real" where
  "clip_to m v = (if v > m then m else if v < - m then - m else v)"

lemma clip_bound: "0 \<le> m \<Longrightarrow> \<bar>clip_to m v\<bar> \<le> m"
  by (simp add: clip_to_def abs_if)

lemma clip_id: "\<bar>v\<bar> \<le> m \<Longrightarrow> clip_to m v = v"
  by (auto simp: clip_to_def abs_if split: if_splits)

subsection \<open>The contract\<close>

locale physical_interface =
  fixes step :: "'i \<Rightarrow> real \<Rightarrow> real \<Rightarrow> real \<Rightarrow> real \<Rightarrow> real \<Rightarrow> real \<Rightarrow> real \<Rightarrow> ('i \<times> iface_out) result"
    and limit :: "'i \<Rightarrow> real"
  assumes feedforward: "step i t xP xQ zP zQ gP gQ = Inr (i', c) \<Longrightarrow>
      io_muP c = gP - io_omegaP c \<and> io_muQ c = gQ - io_omegaQ c"
    and measured: "step i t xP xQ zP zQ gP gQ = Inr (i', c) \<Longrightarrow>
      io_sigmaP c = xP - zP \<and> io_sigmaQ c = xQ - zQ"
    and clipped: "step i t xP xQ zP zQ gP gQ = Inr (i', c) \<Longrightarrow>
      io_appP c = clip_to (limit i) (io_muP c) \<and> io_appQ c = clip_to (limit i) (io_muQ c)"
    and flagged: "step i t xP xQ zP zQ gP gQ = Inr (i', c) \<Longrightarrow>
      io_saturated c \<longleftrightarrow> io_appP c \<noteq> io_muP c \<or> io_appQ c \<noteq> io_muQ c"
    and limit_kept: "step i t xP xQ zP zQ gP gQ = Inr (i', c) \<Longrightarrow> limit i' = limit i"
begin

lemma applied_bound:
  assumes "step i t xP xQ zP zQ gP gQ = Inr (i', c)" and "0 \<le> limit i"
  shows "\<bar>io_appP c\<bar> \<le> limit i" and "\<bar>io_appQ c\<bar> \<le> limit i"
  using clipped [OF assms(1)] clip_bound [OF assms(2)] by simp_all

lemma unsaturated:
  assumes "step i t xP xQ zP zQ gP gQ = Inr (i', c)" and "\<not> io_saturated c"
  shows "io_appP c = gP - io_omegaP c" and "io_appQ c = gQ - io_omegaQ c"
  using flagged [OF assms(1)] feedforward [OF assms(1)] assms(2) by simp_all

lemma saturated_iff:
  assumes "step i t xP xQ zP zQ gP gQ = Inr (i', c)" and "0 \<le> limit i"
  shows "io_saturated c \<longleftrightarrow> limit i < max \<bar>io_muP c\<bar> \<bar>io_muQ c\<bar>"
  using flagged [OF assms(1)] clipped [OF assms(1)] assms(2)
  by (auto simp: clip_to_def max_def abs_if split: if_splits)

text \<open>One Euler step of any valid plant under the applied command.\<close>

lemma plant_under_interface:
  assumes "step i t xP xQ zP zQ gP gQ = Inr (i', c)" and "0 \<le> limit i"
      and "plant_ok (pt_p s)" and "0 \<le> tp" and "0 \<le> h"
  shows "\<exists>s'. plant_step s (io_appP c) (io_appQ c) tp h = Inr s' \<and> pt_p s' = pt_p s \<and>
              \<bar>pt_xP s' - pt_xP s\<bar> \<le> h * (limit i + zeta_bound (pt_p s)) \<and>
              \<bar>pt_xQ s' - pt_xQ s\<bar> \<le> h * (limit i + zeta_bound (pt_p s))"
  by (rule plant_step_bounded [OF assms(3-5) applied_bound [OF assms(1,2)]])

end

subsection \<open>The adaptive interface\<close>

definition TRIGGERS :: "string list" where
  "TRIGGERS = [''sigma'', ''residual'']"

text \<open>\<^verbatim>\<open>_sign\<close> is HOL's \<open>sgn\<close>; this is its text.\<close>

definition adaptive_sign :: "real \<Rightarrow> real" where
  "adaptive_sign v = (if v = 0 then 0 else if v > 0 then 1 else - 1)"

lemma adaptive_sign_sgn [simp]: "adaptive_sign v = sgn v"
  by (simp add: adaptive_sign_def sgn_if)

record adaptive_params =
  ap_gamma :: real
  ap_eps :: real
  ap_vartheta0 :: real
  ap_mu_max :: real
  ap_trigger :: string

definition adaptive_check :: "adaptive_params \<Rightarrow> adaptive_params result" where
  "adaptive_check p =
     (if ap_gamma p < 0 then Inl ValueError
      else if ap_eps p < 0 then Inl ValueError
      else if ap_trigger p \<notin> set TRIGGERS then Inl ValueError
      else Inr p)"

definition adaptive_label :: "adaptive_params \<Rightarrow> string" where
  "adaptive_label p = (if ap_eps p > 0 then ''DZ'' else ''AA'')"

record adaptive_iface =
  ai_p :: adaptive_params
  ai_h :: real
  ai_vartheta :: real
  ai_updates :: int

definition adaptive_new :: "adaptive_params \<Rightarrow> real \<Rightarrow> adaptive_iface" where
  "adaptive_new p h = \<lparr>ai_p = p, ai_h = h, ai_vartheta = ap_vartheta0 p, ai_updates = 0\<rparr>"

definition adaptive_step ::
  "adaptive_iface \<Rightarrow> real \<Rightarrow> real \<Rightarrow> real \<Rightarrow> real \<Rightarrow> real \<Rightarrow> real \<Rightarrow> real \<Rightarrow> adaptive_iface \<times> iface_out" where
  "adaptive_step i t_s xP xQ zP zQ gP gQ =
     (let sP = xP - zP; sQ = xQ - zQ; lim = ai_vartheta i;
          wP = adaptive_sign sP * min lim (\<bar>sP\<bar> / ai_h i);
          wQ = adaptive_sign sQ * min lim (\<bar>sQ\<bar> / ai_h i);
          muP = gP - wP; muQ = gQ - wQ;
          m = ap_mu_max (ai_p i);
          aP = (if muP > m then m else if muP < - m then - m else muP);
          aQ = (if muQ > m then m else if muQ < - m then - m else muQ);
          trig = (if ap_trigger (ai_p i) = ''sigma'' then \<bar>sP\<bar> + \<bar>sQ\<bar>
                  else \<bar>sP - ai_h i * wP\<bar> + \<bar>sQ - ai_h i * wQ\<bar>);
          fired = (trig > ap_eps (ai_p i));
          i' = (if fired then i\<lparr>ai_vartheta := ai_vartheta i + ap_gamma (ai_p i), ai_updates := ai_updates i + 1\<rparr>
                else i)
      in (i', \<lparr>io_muP = muP, io_muQ = muQ, io_appP = aP, io_appQ = aQ, io_sigmaP = sP, io_sigmaQ = sQ,
               io_omegaP = wP, io_omegaQ = wQ, io_saturated = (aP \<noteq> muP \<or> aQ \<noteq> muQ),
               io_trig = trig, io_fired = fired\<rparr>))"

interpretation adaptive: physical_interface
  "\<lambda>i t xP xQ zP zQ gP gQ. Inr (adaptive_step i t xP xQ zP zQ gP gQ)" "\<lambda>i. ap_mu_max (ai_p i)"
  by unfold_locales (auto simp: adaptive_step_def Let_def clip_to_def split: if_splits)

lemma adaptive_gain:
  "ai_vartheta (fst (adaptive_step i t xP xQ zP zQ gP gQ)) =
     ai_vartheta i + (if io_fired (snd (adaptive_step i t xP xQ zP zQ gP gQ)) then ap_gamma (ai_p i) else 0)"
  "ai_updates (fst (adaptive_step i t xP xQ zP zQ gP gQ)) =
     ai_updates i + (if io_fired (snd (adaptive_step i t xP xQ zP zQ gP gQ)) then 1 else 0)"
  "ai_p (fst (adaptive_step i t xP xQ zP zQ gP gQ)) = ai_p i"
  "ai_h (fst (adaptive_step i t xP xQ zP zQ gP gQ)) = ai_h i"
  by (simp_all add: adaptive_step_def Let_def)

text \<open>The correction never overshoots: after it the error has kept its sign or is zero.\<close>

lemma correction_contracts:
  fixes s lim h :: real
  assumes "0 \<le> lim" "0 < h"
  shows "\<bar>s - h * (sgn s * min lim (\<bar>s\<bar> / h))\<bar> = max 0 (\<bar>s\<bar> - h * lim)"
proof (cases "lim \<le> \<bar>s\<bar> / h")
  case True
  then have "h * lim \<le> \<bar>s\<bar>" using assms(2) by (simp add: pos_le_divide_eq mult.commute)
  then show ?thesis using True assms by (cases s "0 :: real" rule: linorder_cases) (auto simp: min_def max_def)
next
  case False
  then have "\<bar>s\<bar> < h * lim" using assms(2) by (simp add: not_le pos_divide_less_eq mult.commute)
  moreover have "h * (sgn s * (\<bar>s\<bar> / h)) = s" using assms(2) by (simp add: sgn_mult_abs)
  ultimately show ?thesis using False by (simp add: min_def max_def)
qed

lemma adaptive_fired_sigma:
  "ap_trigger (ai_p i) = ''sigma'' \<Longrightarrow>
   io_fired (snd (adaptive_step i t xP xQ zP zQ gP gQ)) \<longleftrightarrow> ap_eps (ai_p i) < \<bar>xP - zP\<bar> + \<bar>xQ - zQ\<bar>"
  by (simp add: adaptive_step_def Let_def)

subsection \<open>The literature baseline\<close>

record lc_params =
  lp_kappa :: real
  lp_profile :: string
  lp_T_c :: real
  lp_beta_c :: real
  lp_Phi :: real
  lp_terminal :: bool
  lp_mu_max :: real
  lp_p_max :: real
  lp_q_max :: real
  lp_delta_c :: "real option"
  lp_adapt_band :: "real option"
  lp_adapt_after :: "real option"

definition lc_check :: "lc_params \<Rightarrow> lc_params result" where
  "lc_check p =
     (if lp_kappa p \<le> 0 then Inl ValueError else if lp_beta_c p \<le> 0 then Inl ValueError else Inr p)"

definition lc_label :: "lc_params \<Rightarrow> string" where
  "lc_label p = (if lp_terminal p then ''LC0'' else ''LC+'')"

definition lc_gamma_S :: "lc_params \<Rightarrow> real" where
  "lc_gamma_S p = lp_Phi p * lp_kappa p * lp_kappa p"

record lc_iface =
  li_p :: lc_params
  li_h :: real
  li_delta_c :: real
  li_gamma_S :: real
  li_S1 :: real
  li_S2 :: real
  li_updates :: int

definition lc_new :: "lc_params \<Rightarrow> real \<Rightarrow> lc_iface" where
  "lc_new p h = \<lparr>li_p = p, li_h = h, li_delta_c = (case lp_delta_c p of Some d \<Rightarrow> d | None \<Rightarrow> 2 * h),
                 li_gamma_S = lc_gamma_S p, li_S1 = 0, li_S2 = 0, li_updates = 0\<rparr>"

definition lc_lam :: "lc_iface \<Rightarrow> real \<Rightarrow> real" where
  "lc_lam i t_s = lp_beta_c (li_p i) / max (lp_T_c (li_p i) - t_s) (li_delta_c i)"

definition lc_regressor :: "lc_iface \<Rightarrow> real \<Rightarrow> real \<Rightarrow> real \<Rightarrow> (real \<times> real \<times> real) result" where
  "lc_regressor i t_s xP xQ =
     (let p = li_p i;
          (ps, qs) = smooth_saturation (lp_kappa p * xP) (lp_kappa p * xQ) (lp_p_max p) (lp_q_max p)
      in bindR (a_zeta (lp_profile p) t_s) (\<lambda>a. Inr (a / lp_kappa p, ps, qs)))"

definition lc_gate :: "lc_params \<Rightarrow> real \<Rightarrow> real \<Rightarrow> bool" where
  "lc_gate p t_s trig \<longleftrightarrow>
     \<not> (case lp_adapt_after p of Some a \<Rightarrow> t_s < a | None \<Rightarrow> False) \<and>
     \<not> (case lp_adapt_band p of Some b \<Rightarrow> trig > b | None \<Rightarrow> False)"

definition lc_step ::
  "lc_iface \<Rightarrow> real \<Rightarrow> real \<Rightarrow> real \<Rightarrow> real \<Rightarrow> real \<Rightarrow> real \<Rightarrow> real \<Rightarrow> (lc_iface \<times> iface_out) result" where
  "lc_step i t_s xP xQ zP zQ gP gQ =
     (let sP = xP - zP; sQ = xQ - zQ in
      bindR (lc_regressor i t_s xP xQ) (\<lambda>(A, ps, qs).
        let terminal = (lp_terminal (li_p i) \<and> t_s \<ge> lp_T_c (li_p i));
            lam = lc_lam i t_s;
            wP = (if terminal then gP else lam * sP + A * (ps * li_S1 i + qs * li_S2 i));
            wQ = (if terminal then gQ else lam * sQ + A * (qs * li_S1 i - ps * li_S2 i));
            muP = (if terminal then 0 else gP - wP);
            muQ = (if terminal then 0 else gQ - wQ);
            m = lp_mu_max (li_p i);
            aP = (if muP > m then m else if muP < - m then - m else muP);
            aQ = (if muQ > m then m else if muQ < - m then - m else muQ);
            trig = \<bar>sP\<bar> + \<bar>sQ\<bar>;
            fired = (\<not> terminal \<and> lc_gate (li_p i) t_s trig);
            step = li_h i * li_gamma_S i * A;
            i' = (if fired then i\<lparr>li_S1 := li_S1 i + step * (ps * sP + qs * sQ),
                                  li_S2 := li_S2 i + step * (qs * sP - ps * sQ),
                                  li_updates := li_updates i + 1\<rparr> else i)
        in Inr (i', \<lparr>io_muP = muP, io_muQ = muQ, io_appP = aP, io_appQ = aQ, io_sigmaP = sP, io_sigmaQ = sQ,
                     io_omegaP = wP, io_omegaQ = wQ, io_saturated = (aP \<noteq> muP \<or> aQ \<noteq> muQ),
                     io_trig = trig, io_fired = fired\<rparr>)))"

lemma lc_step_cases:
  assumes "lc_step i t xP xQ zP zQ gP gQ = Inr (i', c)"
  obtains A ps qs where "lc_regressor i t xP xQ = Inr (A, ps, qs)"
    and "li_p i' = li_p i" and "li_h i' = li_h i"
    and "io_muP c = gP - io_omegaP c" and "io_muQ c = gQ - io_omegaQ c"
    and "io_appP c = clip_to (lp_mu_max (li_p i)) (io_muP c)"
    and "io_appQ c = clip_to (lp_mu_max (li_p i)) (io_muQ c)"
    and "io_sigmaP c = xP - zP" and "io_sigmaQ c = xQ - zQ"
    and "io_saturated c \<longleftrightarrow> io_appP c \<noteq> io_muP c \<or> io_appQ c \<noteq> io_muQ c"
    and "li_updates i' = li_updates i + (if io_fired c then 1 else 0)"
    and "\<not> io_fired c \<Longrightarrow> i' = i"
proof (cases "lc_regressor i t xP xQ")
  case (Inl e)
  then show ?thesis using assms by (simp add: lc_step_def)
next
  case (Inr r)
  obtain A ps qs where r: "r = (A, ps, qs)" by (cases r) auto
  have e: "bindR (lc_regressor i t xP xQ) f = f (A, ps, qs)" for f :: "real \<times> real \<times> real \<Rightarrow> (lc_iface \<times> iface_out) result"
    by (simp add: Inr r)
  note eqs = assms [unfolded lc_step_def Let_def e prod.case sum.inject prod.inject, simplified eq_commute [of _ i'] eq_commute [of _ c]]
  show ?thesis
    by (rule that [of A ps qs], simp_all only: Inr r eqs iface_out.simps lc_iface.simps clip_to_def) simp_all
qed

interpretation lc: physical_interface lc_step "\<lambda>i. lp_mu_max (li_p i)"
  by unfold_locales (auto elim: lc_step_cases)

lemma lc_step_total:
  "lp_profile (li_p i) \<in> set PROFILES \<Longrightarrow> \<exists>i' c. lc_step i t xP xQ zP zQ gP gQ = Inr (i', c)"
  using a_zeta_known [of "lp_profile (li_p i)" t]
  by (auto simp: lc_step_def lc_regressor_def Let_def split_beta)

text \<open>The terminal policy: at and after the deadline the command is zero, the estimate frozen.\<close>

lemma lc_terminal:
  assumes "lc_step i t xP xQ zP zQ gP gQ = Inr (i', c)"
      and "lp_terminal (li_p i)" and "lp_T_c (li_p i) \<le> t" and "0 \<le> lp_mu_max (li_p i)"
  shows "i' = i \<and> io_appP c = 0 \<and> io_appQ c = 0 \<and> \<not> io_fired c \<and> io_omegaP c = gP \<and> io_omegaQ c = gQ"
  using assms by (auto simp: lc_step_def lc_regressor_def Let_def result_simps)

end
