(* ===== verification/Microgrid.thy ===== *)
theory Microgrid
  imports Interfaces
begin

section \<open>The microgrid controller (controllers/microgrid.py)\<close>

text \<open>
  \<open>microgrid\<close> is the state of \<^verbatim>\<open>MicrogridController\<close>: the parameters in force, the live
  emulator, virtual layer and interface, the step counter and the watchdog. \<open>mg_step\<close> is one
  tick in the order of the source: hold the snapshot, form the candidate, evaluate the interface
  on the old states, advance the emulator, commit. An exception leaves the step; the partial
  writes made before it are not modelled, a run ends there. State values are reals, so the
  watchdog's finiteness tests never act; the interface without a sliding gain, whose
  \<^verbatim>\<open>vartheta\<close> is NaN, is \<open>None\<close> in \<open>iface_vartheta\<close>.
\<close>

definition T_C_DEFAULT :: real where "T_C_DEFAULT = 40"
definition X_WATCH :: real where "X_WATCH = 5000"
definition VARTHETA_WATCH :: real where "VARTHETA_WATCH = 5000"
definition SAT_PERSIST_UPDATES :: int where "SAT_PERSIST_UPDATES = 5"

definition COMMON_CHANNELS :: "string list" where
  "COMMON_CHANNELS = [''g_P'', ''g_Q'', ''mu_P'', ''mu_Q'', ''muapp_P'', ''muapp_Q'',
     ''sigma_P'', ''sigma_Q'', ''c'', ''theta'', ''saturated'', ''trig'', ''watchdog'']"

definition WATCHDOG_CAUSES :: "string list" where
  "WATCHDOG_CAUSES = ['''', ''state'', ''virtual'', ''vartheta'', ''saturation'']"

datatype mg_kind = MicrogridAdaptive | MicrogridLC
datatype iface_params = AdaptiveP adaptive_params | LcP lc_params
datatype iface = Adaptive adaptive_iface | LC lc_iface

record mg_params =
  mp_dt :: real
  mp_plant :: "plant_params option"
  mp_virtual :: "virtual_params option"
  mp_interface :: "iface_params option"
  mp_degree :: int
  mp_state0_P :: real
  mp_state0_Q :: real
  mp_vstate0_P :: real
  mp_vstate0_Q :: real

record microgrid =
  mg_kind :: mg_kind
  mg_params :: mg_params
  mg_dt :: real
  mg_plant_params :: plant_params
  mg_virtual_params :: virtual_params
  mg_degree :: int
  mg_x0 :: "real \<times> real"
  mg_plant :: plant
  mg_virtual :: virtual_layer
  mg_interface :: iface
  mg_count :: int
  mg_cause :: string
  mg_sat_run :: int

definition mg_class :: "mg_kind \<Rightarrow> controller_class" where
  "mg_class k =
     (case k of
        MicrogridAdaptive \<Rightarrow>
          \<lparr>cl_name = ''microgrid_adaptive'', cl_dim = 2, cl_coords = [''P'', ''Q''],
           cl_channels = COMMON_CHANNELS @ [''vartheta'', ''updates'']\<rparr>
      | MicrogridLC \<Rightarrow>
          \<lparr>cl_name = ''microgrid_lc'', cl_dim = 2, cl_coords = [''P'', ''Q''],
           cl_channels = COMMON_CHANNELS @ [''S1'', ''S2'', ''updates'']\<rparr>)"

definition mg_relay_columns :: "mg_kind \<Rightarrow> string list" where
  "mg_relay_columns k =
     [''state_P'', ''state_Q'', ''vstate_P'', ''vstate_Q''] @
     (case k of MicrogridAdaptive \<Rightarrow> [''vartheta''] | MicrogridLC \<Rightarrow> [''S1'', ''S2''])"

definition mg_make_interface :: "mg_kind \<Rightarrow> mg_params \<Rightarrow> real \<Rightarrow> iface result" where
  "mg_make_interface k p dt =
     (case (k, mp_interface p) of
        (MicrogridAdaptive, Some (AdaptiveP a)) \<Rightarrow> Inr (Adaptive (adaptive_new a dt))
      | (MicrogridLC, Some (LcP l)) \<Rightarrow> Inr (LC (lc_new l dt))
      | _ \<Rightarrow> Inl ValueError)"

definition mg_blocks :: "mg_params \<Rightarrow> (plant_params \<times> virtual_params \<times> int \<times> real \<times> real) result" where
  "mg_blocks p =
     (case mp_plant p of None \<Rightarrow> Inl ValueError | Some pl \<Rightarrow>
      (case mp_virtual p of None \<Rightarrow> Inl ValueError | Some vi \<Rightarrow>
        Inr (pl, vi, mp_degree p, mp_state0_P p / pl_kappa pl, mp_state0_Q p / pl_kappa pl)))"

definition mg_build :: "mg_kind \<Rightarrow> mg_params \<Rightarrow> real \<Rightarrow> plant_params \<Rightarrow> virtual_params \<Rightarrow> int \<Rightarrow> real \<times> real \<Rightarrow> microgrid result" where
  "mg_build k p dt pl vi deg x0 =
     bindR (vl_new vi deg (mp_vstate0_P p) (mp_vstate0_Q p)) (\<lambda>v.
     bindR (mg_make_interface k p dt) (\<lambda>i.
       Inr \<lparr>mg_kind = k, mg_params = p, mg_dt = dt, mg_plant_params = pl, mg_virtual_params = vi,
            mg_degree = deg, mg_x0 = x0,
            mg_plant = \<lparr>pt_p = pl, pt_xP = fst x0, pt_xQ = snd x0\<rparr>,
            mg_virtual = v, mg_interface = i, mg_count = 0, mg_cause = '''', mg_sat_run = 0\<rparr>))"

definition mg_init :: "mg_kind \<Rightarrow> mg_params \<Rightarrow> microgrid result" where
  "mg_init k p =
     bindR (mg_blocks p) (\<lambda>(pl, vi, deg, x0). mg_build k p (mp_dt p) pl vi deg x0)"

definition mg_reset :: "microgrid \<Rightarrow> microgrid result" where
  "mg_reset m =
     mg_build (mg_kind m) (mg_params m) (mg_dt m) (mg_plant_params m) (mg_virtual_params m) (mg_degree m) (mg_x0 m)"

text \<open>The live emulator, layer and interface are kept, with the parameters they were built with.\<close>

definition mg_set_params :: "microgrid \<Rightarrow> mg_params \<Rightarrow> microgrid result" where
  "mg_set_params m p =
     bindR (mg_blocks p) (\<lambda>(pl, vi, deg, x0).
       Inr (m\<lparr>mg_params := p, mg_dt := mp_dt p, mg_plant_params := pl, mg_virtual_params := vi,
              mg_degree := deg, mg_x0 := x0\<rparr>))"

definition mg_t :: "microgrid \<Rightarrow> real" where
  "mg_t m = of_int (mg_count m) * mg_dt m"

definition mg_T_c :: "microgrid \<Rightarrow> real" where
  "mg_T_c m = (case mp_interface (mg_params m) of Some (LcP l) \<Rightarrow> lp_T_c l | _ \<Rightarrow> T_C_DEFAULT)"

definition iface_vartheta :: "iface \<Rightarrow> real option" where
  "iface_vartheta i = (case i of Adaptive a \<Rightarrow> Some (ai_vartheta a) | LC _ \<Rightarrow> None)"

definition iface_step ::
  "iface \<Rightarrow> real \<Rightarrow> real \<Rightarrow> real \<Rightarrow> real \<Rightarrow> real \<Rightarrow> real \<Rightarrow> real \<Rightarrow> (iface \<times> iface_out) result" where
  "iface_step i t xP xQ zP zQ gP gQ =
     (case i of
        Adaptive a \<Rightarrow> (let (a', c) = adaptive_step a t xP xQ zP zQ gP gQ in Inr (Adaptive a', c))
      | LC l \<Rightarrow> bindR (lc_step l t xP xQ zP zQ gP gQ) (\<lambda>(l', c). Inr (LC l', c)))"

definition family_channels :: "iface \<Rightarrow> real list" where
  "family_channels i =
     (case i of
        Adaptive a \<Rightarrow> [ai_vartheta a, of_int (ai_updates a)]
      | LC l \<Rightarrow> [li_S1 l, li_S2 l, of_int (li_updates l)])"

definition mg_snapshot :: "int \<Rightarrow> int list \<Rightarrow> (real \<times> real) list" where
  "mg_snapshot degree vs =
     map (\<lambda>j. (if 2 * j < length vs then of_int (vs ! (2 * j)) * (1 / 10 ^ 6) else 0,
               if 2 * j + 1 < length vs then of_int (vs ! (2 * j + 1)) * (1 / 10 ^ 6) else 0))
       [0..<nat degree]"

definition mg_watchdog :: "int \<Rightarrow> plant \<Rightarrow> iface \<Rightarrow> bool \<Rightarrow> bool \<Rightarrow> string \<times> int" where
  "mg_watchdog sat_run pl i saturated armed =
     (let run = (if saturated then sat_run + 1 else 0) in
      (if max \<bar>pt_xP pl\<bar> \<bar>pt_xQ pl\<bar> > X_WATCH then ''state''
       else if (case iface_vartheta i of Some v \<Rightarrow> v > VARTHETA_WATCH | None \<Rightarrow> False) then ''vartheta''
       else if armed \<and> run > SAT_PERSIST_UPDATES then ''saturation''
       else '''', run))"

fun index_of :: "'a \<Rightarrow> 'a list \<Rightarrow> nat" where
  "index_of x [] = 0"
| "index_of x (y # ys) = (if x = y then 0 else Suc (index_of x ys))"

definition mg_step :: "microgrid \<Rightarrow> int list \<Rightarrow> (microgrid \<times> controller_output) result" where
  "mg_step m vs =
     (let t = mg_t m; h = mg_dt m in
      bindR (vl_hold (mg_virtual m) (mg_snapshot (mg_degree m) vs)) (\<lambda>v.
      let theta = vl_theta v t h; k = vl_candidate v t h in
      bindR (iface_step (mg_interface m) t (pt_xP (mg_plant m)) (pt_xQ (mg_plant m)) (vl_zP v) (vl_zQ v)
               (vc_gP k) (vc_gQ k)) (\<lambda>(i', c).
      bindR (plant_step (mg_plant m) (io_appP c) (io_appQ c) t h) (\<lambda>pl.
      let v' = vl_commit v (vc_zP k) (vc_zQ k) (vc_c k);
          (cause, run) = (if mg_cause m = '''' then mg_watchdog (mg_sat_run m) pl i' (io_saturated c) (t \<ge> mg_T_c m)
                          else (mg_cause m, mg_sat_run m));
          common = [vc_gP k, vc_gQ k, io_muP c, io_muQ c, io_appP c, io_appQ c, io_sigmaP c, io_sigmaQ c,
                    vl_c v', theta, if io_saturated c then 1 else 0, io_trig c,
                    of_nat (index_of cause WATCHDOG_CAUSES)]
      in Inr (m\<lparr>mg_plant := pl, mg_virtual := v', mg_interface := i', mg_cause := cause, mg_sat_run := run,
                mg_count := mg_count m + 1\<rparr>,
              \<lparr>co_state = [pt_xP pl, pt_xQ pl], co_vstate = [vc_zP k, vc_zQ k],
               co_extra = common @ family_channels i'\<rparr>)))))"

primrec mg_run :: "microgrid \<Rightarrow> int list list \<Rightarrow> microgrid result" where
  "mg_run m [] = Inr m"
| "mg_run m (vs # vss) = bindR (mg_step m vs) (\<lambda>(m', _). mg_run m' vss)"

subsection \<open>Both arms meet the interface contract\<close>

definition iface_limit :: "iface \<Rightarrow> real" where
  "iface_limit i = (case i of Adaptive a \<Rightarrow> ap_mu_max (ai_p a) | LC l \<Rightarrow> lp_mu_max (li_p l))"

lemma iface_step_Adaptive:
  "iface_step (Adaptive a) t xP xQ zP zQ gP gQ = Inr (i', c) \<longleftrightarrow>
     (\<exists>a'. i' = Adaptive a' \<and> Inr (adaptive_step a t xP xQ zP zQ gP gQ) = (Inr (a', c) :: (adaptive_iface \<times> iface_out) result))"
  by (auto simp: iface_step_def split: prod.splits)

lemma iface_step_LC:
  "iface_step (LC l) t xP xQ zP zQ gP gQ = Inr (i', c) \<longleftrightarrow>
     (\<exists>l'. i' = LC l' \<and> lc_step l t xP xQ zP zQ gP gQ = Inr (l', c))"
  by (auto simp: iface_step_def result_simps)

interpretation arm: physical_interface iface_step iface_limit
proof unfold_locales
  fix i :: iface and t xP xQ zP zQ gP gQ :: real and i' c
  assume s: "iface_step i t xP xQ zP zQ gP gQ = Inr (i', c)"
  have all: "(io_muP c = gP - io_omegaP c \<and> io_muQ c = gQ - io_omegaQ c) \<and>
      (io_sigmaP c = xP - zP \<and> io_sigmaQ c = xQ - zQ) \<and>
      (io_appP c = clip_to (iface_limit i) (io_muP c) \<and> io_appQ c = clip_to (iface_limit i) (io_muQ c)) \<and>
      (io_saturated c \<longleftrightarrow> io_appP c \<noteq> io_muP c \<or> io_appQ c \<noteq> io_muQ c) \<and> iface_limit i' = iface_limit i"
  proof (cases i)
    case (Adaptive a)
    then obtain a' where a: "i' = Adaptive a'"
        "Inr (adaptive_step a t xP xQ zP zQ gP gQ) = (Inr (a', c) :: (adaptive_iface \<times> iface_out) result)"
      using s by (auto simp: iface_step_Adaptive)
    show ?thesis
      using adaptive.feedforward [OF a(2)] adaptive.measured [OF a(2)] adaptive.clipped [OF a(2)]
        adaptive.flagged [OF a(2)] adaptive.limit_kept [OF a(2)] by (simp add: Adaptive a(1) iface_limit_def)
  next
    case (LC l)
    then obtain l' where l: "i' = LC l'" "lc_step l t xP xQ zP zQ gP gQ = Inr (l', c)"
      using s by (auto simp: iface_step_LC)
    show ?thesis
      using lc.feedforward [OF l(2)] lc.measured [OF l(2)] lc.clipped [OF l(2)] lc.flagged [OF l(2)]
        lc.limit_kept [OF l(2)] by (simp add: LC l(1) iface_limit_def)
  qed
  then show "io_muP c = gP - io_omegaP c \<and> io_muQ c = gQ - io_omegaQ c"
    and "io_sigmaP c = xP - zP \<and> io_sigmaQ c = xQ - zQ"
    and "io_appP c = clip_to (iface_limit i) (io_muP c) \<and> io_appQ c = clip_to (iface_limit i) (io_muQ c)"
    and "io_saturated c \<longleftrightarrow> io_appP c \<noteq> io_muP c \<or> io_appQ c \<noteq> io_muQ c"
    and "iface_limit i' = iface_limit i" by blast+
qed

subsection \<open>The invariant\<close>

definition iface_known :: "iface \<Rightarrow> bool" where
  "iface_known i \<longleftrightarrow> 0 \<le> iface_limit i \<and>
     (case i of Adaptive a \<Rightarrow> 0 \<le> ap_gamma (ai_p a) | LC l \<Rightarrow> lp_profile (li_p l) \<in> set PROFILES)"

definition mg_ok :: "microgrid \<Rightarrow> bool" where
  "mg_ok m \<longleftrightarrow> plant_ok (pt_p (mg_plant m)) \<and> vl_ok (mg_virtual m) \<and> iface_known (mg_interface m) \<and>
     0 \<le> mg_dt m \<and> 0 \<le> mg_count m \<and> mg_degree m = vl_degree (mg_virtual m) \<and> 0 \<le> mg_degree m"

lemma length_mg_snapshot [simp]: "length (mg_snapshot d vs) = nat d"
  by (simp add: mg_snapshot_def)

lemma iface_step_total:
  assumes "iface_known i"
  shows "\<exists>i' c. iface_step i t xP xQ zP zQ gP gQ = Inr (i', c) \<and> iface_known i' \<and>
           (\<forall>v. iface_vartheta i = Some v \<longrightarrow> (\<exists>v'. iface_vartheta i' = Some v' \<and> v \<le> v')) \<and>
           length (family_channels i') = length (family_channels i)"
proof (cases i)
  case (Adaptive a)
  then show ?thesis
    using assms adaptive_gain [of a t xP xQ zP zQ gP gQ]
    by (simp add: iface_step_def split_beta iface_known_def iface_limit_def iface_vartheta_def family_channels_def)
next
  case (LC l)
  then obtain l' c where l: "lc_step l t xP xQ zP zQ gP gQ = Inr (l', c)"
    using assms lc_step_total [of l t xP xQ zP zQ gP gQ] by (auto simp: iface_known_def)
  have "li_p l' = li_p l" using l by (rule lc_step_cases)
  then show ?thesis using assms LC
    by (simp add: iface_step_def l iface_known_def iface_limit_def iface_vartheta_def family_channels_def)
qed

text \<open>What a tick produced: the layer \<open>v\<close> with its held snapshot, the interface's answer \<open>c\<close>,
  and the new state in terms of them.\<close>

definition ticked :: "microgrid \<Rightarrow> int list \<Rightarrow> virtual_layer \<Rightarrow> iface_out \<Rightarrow> microgrid \<Rightarrow> controller_output \<Rightarrow> bool" where
  "ticked m vs v c m' out \<longleftrightarrow>
     mg_step m vs = Inr (m', out) \<and> vl_ok v \<and>
     iface_step (mg_interface m) (mg_t m) (pt_xP (mg_plant m)) (pt_xQ (mg_plant m))
       (vl_zP (mg_virtual m)) (vl_zQ (mg_virtual m)) (vc_gP (vl_candidate v (mg_t m) (mg_dt m)))
       (vc_gQ (vl_candidate v (mg_t m) (mg_dt m))) = Inr (mg_interface m', c) \<and>
     iface_known (mg_interface m') \<and>
     plant_step (mg_plant m) (io_appP c) (io_appQ c) (mg_t m) (mg_dt m) = Inr (mg_plant m') \<and>
     vl_tick (mg_dt m) (mg_virtual m) (mg_t m, mg_snapshot (mg_degree m) vs) = Inr (mg_virtual m') \<and>
     mg_count m' = mg_count m + 1 \<and> mg_dt m' = mg_dt m \<and> mg_degree m' = mg_degree m \<and>
     mg_kind m' = mg_kind m \<and> mg_params m' = mg_params m \<and>
     (mg_cause m', mg_sat_run m') =
       (if mg_cause m = ''''
        then mg_watchdog (mg_sat_run m) (mg_plant m') (mg_interface m') (io_saturated c) (mg_t m \<ge> mg_T_c m)
        else (mg_cause m, mg_sat_run m)) \<and>
     co_state out = [pt_xP (mg_plant m'), pt_xQ (mg_plant m')] \<and>
     co_vstate out = [vl_zP (mg_virtual m'), vl_zQ (mg_virtual m')] \<and>
     length (co_extra out) = 13 + length (family_channels (mg_interface m'))"

lemma mg_step_ticked:
  assumes ok: "mg_ok m"
  shows "\<exists>v c m' out. ticked m vs v c m' out"
proof -
  have okP: "plant_ok (pt_p (mg_plant m))" and okV: "vl_ok (mg_virtual m)" and okI: "iface_known (mg_interface m)"
    and h: "0 \<le> mg_dt m" and deg: "mg_degree m = vl_degree (mg_virtual m)" "0 \<le> mg_degree m"
    and t: "0 \<le> mg_t m"
    using ok by (auto simp: mg_ok_def mg_t_def)
  obtain v where v: "vl_hold (mg_virtual m) (mg_snapshot (mg_degree m) vs) = Inr v"
    using deg by (simp add: vl_hold_def)
  have vf: "vl_p v = vl_p (mg_virtual m)" "vl_degree v = mg_degree m" "vl_zP v = vl_zP (mg_virtual m)"
      "vl_zQ v = vl_zQ (mg_virtual m)" "vl_ok v"
    using v okV deg by (auto simp: vl_hold_def vl_ok_def split: if_splits)
  let ?k = "vl_candidate v (mg_t m) (mg_dt m)"
  obtain i' c where i: "iface_step (mg_interface m) (mg_t m) (pt_xP (mg_plant m)) (pt_xQ (mg_plant m))
      (vl_zP (mg_virtual m)) (vl_zQ (mg_virtual m)) (vc_gP ?k) (vc_gQ ?k) = Inr (i', c)" "iface_known i'"
    using iface_step_total [OF okI] by meson
  have lim: "0 \<le> iface_limit (mg_interface m)" using okI by (simp add: iface_known_def)
  obtain pl where pl: "plant_step (mg_plant m) (io_appP c) (io_appQ c) (mg_t m) (mg_dt m) = Inr pl"
    using arm.plant_under_interface [OF i(1) lim okP t h] by blast
  obtain cause run where cr: "(if mg_cause m = '''' then mg_watchdog (mg_sat_run m) pl i' (io_saturated c) (mg_t m \<ge> mg_T_c m)
      else (mg_cause m, mg_sat_run m)) = (cause, run)" by fastforce
  have "mg_step m vs = Inr (m\<lparr>mg_plant := pl, mg_virtual := vl_commit v (vc_zP ?k) (vc_zQ ?k) (vc_c ?k),
      mg_interface := i', mg_cause := cause, mg_sat_run := run, mg_count := mg_count m + 1\<rparr>,
      \<lparr>co_state = [pt_xP pl, pt_xQ pl], co_vstate = [vc_zP ?k, vc_zQ ?k],
       co_extra = [vc_gP ?k, vc_gQ ?k, io_muP c, io_muQ c, io_appP c, io_appQ c, io_sigmaP c, io_sigmaQ c,
         vl_c (vl_commit v (vc_zP ?k) (vc_zQ ?k) (vc_c ?k)), vl_theta v (mg_t m) (mg_dt m),
         if io_saturated c then 1 else 0, io_trig c, of_nat (index_of cause WATCHDOG_CAUSES)] @ family_channels i'\<rparr>)"
    unfolding mg_step_def Let_def v bindR_Inr vf(3,4) i(1) prod.case pl cr ..
  then have "ticked m vs v c (fst (projr (mg_step m vs))) (snd (projr (mg_step m vs)))"
    using vf i pl cr by (auto simp: ticked_def vl_tick_def v Let_def vl_commit_def)
  then show ?thesis by blast
qed

lemma mg_step_cases:
  assumes "mg_ok m" and "mg_step m vs = Inr (m', out)"
  obtains v c where "ticked m vs v c m' out"
  using mg_step_ticked [OF assms(1), of vs] assms(2) by (auto simp: ticked_def)

subsection \<open>One tick\<close>

definition kind_matches :: "mg_kind \<Rightarrow> iface \<Rightarrow> bool" where
  "kind_matches k i \<longleftrightarrow> (case i of Adaptive _ \<Rightarrow> k = MicrogridAdaptive | LC _ \<Rightarrow> k = MicrogridLC)"

lemma iface_step_kind:
  "iface_step i t xP xQ zP zQ gP gQ = Inr (i', c) \<Longrightarrow> kind_matches k i' = kind_matches k i"
  by (cases i) (auto simp: iface_step_Adaptive iface_step_LC kind_matches_def)

lemma mg_step_ok [inv_intros]:
  assumes "mg_ok m" and "mg_step m vs = Inr (m', out)"
  shows "mg_ok m'"
proof -
  obtain v c where "ticked m vs v c m' out" by (rule mg_step_cases [OF assms])
  then show ?thesis
    using assms(1) plant_step_fields [of "mg_plant m"] vl_tick_ok [of "mg_virtual m" "mg_dt m" _ "mg_virtual m'"]
    unfolding mg_ok_def ticked_def by fastforce
qed

lemma width_of_class:
  assumes "kind_matches k i"
  shows "\<exists>ns. column_names (mg_class k) = Inr ns \<and> length ns = 17 + length (family_channels i)"
  using assms by (cases i)
    (simp_all add: kind_matches_def mg_class_def column_names_def COMMON_CHANNELS_def family_channels_def)

lemma mg_step_moves:
  assumes "mg_ok m" and "mg_step m vs = Inr (m', out)"
  shows "\<bar>pt_xP (mg_plant m') - pt_xP (mg_plant m)\<bar>
           \<le> mg_dt m * (iface_limit (mg_interface m) + zeta_bound (pt_p (mg_plant m)))"
    and "\<bar>pt_xQ (mg_plant m') - pt_xQ (mg_plant m)\<bar>
           \<le> mg_dt m * (iface_limit (mg_interface m) + zeta_bound (pt_p (mg_plant m)))"
proof -
  obtain v c where p: "ticked m vs v c m' out" by (rule mg_step_cases [OF assms])
  have "0 \<le> iface_limit (mg_interface m)" "plant_ok (pt_p (mg_plant m))" "0 \<le> mg_t m" "0 \<le> mg_dt m"
    using assms(1) by (auto simp: mg_ok_def iface_known_def mg_t_def)
  then show "\<bar>pt_xP (mg_plant m') - pt_xP (mg_plant m)\<bar>
      \<le> mg_dt m * (iface_limit (mg_interface m) + zeta_bound (pt_p (mg_plant m)))"
    and "\<bar>pt_xQ (mg_plant m') - pt_xQ (mg_plant m)\<bar>
      \<le> mg_dt m * (iface_limit (mg_interface m) + zeta_bound (pt_p (mg_plant m)))"
    using p arm.plant_under_interface [of "mg_interface m" "mg_t m" "pt_xP (mg_plant m)" "pt_xQ (mg_plant m)"
      "vl_zP (mg_virtual m)" "vl_zQ (mg_virtual m)" "vc_gP (vl_candidate v (mg_t m) (mg_dt m))"
      "vc_gQ (vl_candidate v (mg_t m) (mg_dt m))" "mg_interface m'" c "mg_plant m" "mg_t m" "mg_dt m"]
    by (auto simp: ticked_def)
qed

text \<open>C38: One tick of the microgrid controller, from any state with checked parameters and any
  neighbour snapshot, returns; it moves each emulator coordinate by at most
  \<open>dt (mu_max + zeta_bound)\<close>, never lowers the observer gain, advances the step counter by one,
  and emits exactly as many values as its class declares log columns.\<close>

theorem microgrid_tick:
  assumes "mg_ok m" and "kind_matches (mg_kind m) (mg_interface m)"
  shows "\<exists>m' out ns. mg_step m vs = Inr (m', out) \<and> mg_ok m' \<and> mg_count m' = mg_count m + 1 \<and>
     \<bar>pt_xP (mg_plant m') - pt_xP (mg_plant m)\<bar>
       \<le> mg_dt m * (iface_limit (mg_interface m) + zeta_bound (pt_p (mg_plant m))) \<and>
     \<bar>pt_xQ (mg_plant m') - pt_xQ (mg_plant m)\<bar>
       \<le> mg_dt m * (iface_limit (mg_interface m) + zeta_bound (pt_p (mg_plant m))) \<and>
     vl_c (mg_virtual m) \<le> vl_c (mg_virtual m') \<and>
     column_names (mg_class (mg_kind m')) = Inr ns \<and> length (output_channels out) = length ns"
proof -
  obtain v c m' out where p: "ticked m vs v c m' out" using mg_step_ticked [OF assms(1), of vs] by blast
  then have s: "mg_step m vs = Inr (m', out)" by (simp add: ticked_def)
  obtain ns where ns: "column_names (mg_class (mg_kind m')) = Inr ns"
      "length ns = 17 + length (family_channels (mg_interface m'))"
    using width_of_class [of "mg_kind m'" "mg_interface m'"] iface_step_kind assms(2) p by (auto simp: ticked_def)
  have "vl_c (mg_virtual m) \<le> vl_c (mg_virtual m')"
    using vl_tick_ok [of "mg_virtual m" "mg_dt m" _ "mg_virtual m'"] p assms(1) by (auto simp: mg_ok_def ticked_def)
  then show ?thesis
    using p s mg_step_ok [OF assms(1) s] mg_step_moves [OF assms(1) s] ns
    by (simp add: output_channels_def ticked_def)
qed

text \<open>Initial states are good: what \<^verbatim>\<open>__init__\<close> builds from checked parameter blocks.\<close>

definition iface_params_ok :: "iface_params \<Rightarrow> bool" where
  "iface_params_ok ip \<longleftrightarrow>
     (case ip of
        AdaptiveP a \<Rightarrow> adaptive_check a = Inr a \<and> 0 \<le> ap_mu_max a
      | LcP l \<Rightarrow> lc_check l = Inr l \<and> lp_profile l \<in> set PROFILES \<and> 0 \<le> lp_mu_max l)"

definition mg_params_ok :: "mg_params \<Rightarrow> bool" where
  "mg_params_ok p \<longleftrightarrow> 0 \<le> mp_dt p \<and> 0 \<le> mp_degree p \<and>
     (\<exists>pl vi ip. mp_plant p = Some pl \<and> mp_virtual p = Some vi \<and> mp_interface p = Some ip \<and>
        plant_ok pl \<and> virtual_check vi = Inr vi \<and> 0 \<le> vp_alpha_0 vi \<and> 0 \<le> vp_kappa_o vi \<and> 0 \<le> vp_xi vi \<and>
        0 \<le> vp_c_0 vi \<and> iface_params_ok ip)"

lemma make_interface_known:
  "mg_make_interface k p dt = Inr i \<Longrightarrow> mp_interface p = Some ip \<Longrightarrow> iface_params_ok ip \<Longrightarrow>
   iface_known i \<and> kind_matches k i"
  by (cases k; cases ip)
     (auto simp: mg_make_interface_def iface_params_ok_def iface_known_def iface_limit_def kind_matches_def
        adaptive_new_def lc_new_def adaptive_check_def split: if_splits)

lemma mg_init_ok [inv_intros]:
  assumes "mg_params_ok p" and "mg_init k p = Inr m"
  shows "mg_ok m" and "kind_matches (mg_kind m) (mg_interface m)" and "mg_cause m = ''''" and "mg_count m = 0"
proof -
  obtain pl vi ip where b: "mp_plant p = Some pl" "mp_virtual p = Some vi" "mp_interface p = Some ip"
      "plant_ok pl" "virtual_check vi = Inr vi" "0 \<le> vp_alpha_0 vi" "0 \<le> vp_kappa_o vi" "0 \<le> vp_xi vi"
      "0 \<le> vp_c_0 vi" "iface_params_ok ip" "0 \<le> mp_dt p" "0 \<le> mp_degree p"
    using assms(1) by (auto simp: mg_params_ok_def)
  obtain v i where vi: "vl_new vi (mp_degree p) (mp_vstate0_P p) (mp_vstate0_Q p) = Inr v"
      "mg_make_interface k p (mp_dt p) = Inr i"
    and m: "mg_dt m = mp_dt p" "mg_degree m = mp_degree p" "pt_p (mg_plant m) = pl" "mg_virtual m = v"
      "mg_interface m = i" "mg_count m = 0" "mg_kind m = k" "mg_cause m = ''''"
    using assms(2) b(1,2) by (auto simp: mg_init_def mg_blocks_def mg_build_def result_simps)
  note iok = make_interface_known [OF vi(2) b(3,10)]
  have "vl_degree v = mp_degree p" using vi(1) by (auto simp: vl_new_def split: if_splits)
  then show "mg_ok m" "kind_matches (mg_kind m) (mg_interface m)" "mg_cause m = ''''" "mg_count m = 0"
    using vl_new_ok [OF b(5-9) vi(1)] b(4,11,12) m iok by (simp_all add: mg_ok_def)
qed

lemma mg_step_total:
  assumes "mg_ok m"
  obtains m' out where "mg_step m vs = Inr (m', out)"
  using mg_step_ticked [OF assms, of vs] by (auto simp: ticked_def)

text \<open>Facts that hold along a run hold tick by tick: an induction rule.\<close>

lemma mg_run_induct [consumes 2, case_names start tick]:
  assumes "mg_ok m" and "mg_run m vss = Inr m'"
      and "P m"
      and "\<And>n vs n' out. mg_ok n \<Longrightarrow> P n \<Longrightarrow> vs \<in> set vss \<Longrightarrow> mg_step n vs = Inr (n', out) \<Longrightarrow> P n'"
  shows "mg_ok m' \<and> P m'"
  using assms
proof (induction vss arbitrary: m)
  case Nil
  then show ?case by simp
next
  case (Cons vs vss)
  obtain m1 out where s: "mg_step m vs = Inr (m1, out)" using Cons.prems(1) by (rule mg_step_total)
  have "mg_run m1 vss = Inr m'" using Cons.prems(2) s by simp
  then show ?case
    using Cons.IH [OF mg_step_ok [OF Cons.prems(1) s]] Cons.prems(4) Cons.prems(3) s Cons.prems(1)
    by (metis list.set_intros(1) list.set_intros(2))
qed

lemma mg_run_total: "mg_ok m \<Longrightarrow> \<exists>m'. mg_run m vss = Inr m'"
proof (induction vss arbitrary: m)
  case Nil
  then show ?case by simp
next
  case (Cons vs vss)
  obtain m1 out where s: "mg_step m vs = Inr (m1, out)" using Cons.prems by (rule mg_step_total)
  then show ?case using Cons.IH [OF mg_step_ok [OF Cons.prems s]] by simp
qed

lemma mg_run_append: "mg_run m (xs @ ys) = bindR (mg_run m xs) (\<lambda>n. mg_run n ys)"
  by (induction xs arbitrary: m) (auto simp: bindR_def split: sum.splits)

lemma mg_run_ok: "mg_ok m \<Longrightarrow> mg_run m vss = Inr m' \<Longrightarrow> mg_ok m'"
  using mg_run_induct [of m vss m' "\<lambda>_. True"] by simp

subsection \<open>The watchdog\<close>

definition mg_envelope :: "microgrid \<Rightarrow> bool" where
  "mg_envelope m \<longleftrightarrow>
     \<bar>pt_xP (mg_plant m)\<bar> \<le> X_WATCH \<and> \<bar>pt_xQ (mg_plant m)\<bar> \<le> X_WATCH \<and>
     (case iface_vartheta (mg_interface m) of None \<Rightarrow> True | Some v \<Rightarrow> v \<le> VARTHETA_WATCH)"

lemma mg_watchdog_clear:
  "mg_watchdog r pl i sat armed = ('''', run) \<Longrightarrow>
   \<bar>pt_xP pl\<bar> \<le> X_WATCH \<and> \<bar>pt_xQ pl\<bar> \<le> X_WATCH \<and>
   (case iface_vartheta i of None \<Rightarrow> True | Some v \<Rightarrow> v \<le> VARTHETA_WATCH) \<and>
   (armed \<longrightarrow> run \<le> SAT_PERSIST_UPDATES)"
  by (auto simp: mg_watchdog_def Let_def split: if_splits option.splits)

lemma mg_step_latch:
  assumes "mg_ok m" and "mg_step m vs = Inr (m', out)"
  shows "mg_cause m \<noteq> '''' \<Longrightarrow> mg_cause m' = mg_cause m"
    and "mg_cause m' = '''' \<Longrightarrow> mg_cause m = '''' \<and> mg_envelope m'"
proof -
  obtain v c where p: "ticked m vs v c m' out" by (rule mg_step_cases [OF assms])
  show "mg_cause m \<noteq> '''' \<Longrightarrow> mg_cause m' = mg_cause m" using p by (simp add: ticked_def)
  show "mg_cause m' = '''' \<Longrightarrow> mg_cause m = '''' \<and> mg_envelope m'"
    using p mg_watchdog_clear [of "mg_sat_run m" "mg_plant m'" "mg_interface m'" "io_saturated c"
        "mg_t m \<ge> mg_T_c m" "mg_sat_run m'"]
    unfolding ticked_def mg_envelope_def by (auto split: if_splits)
qed

text \<open>C18: The watchdog latches and misses nothing: a run from a checked controller always
  completes; once a cause is set no later tick changes it; and a run that ends without a
  cause has had the emulator state and the adaptive gain inside the watchdog's bounds after
  every one of its ticks.\<close>

theorem microgrid_watchdog:
  assumes "mg_ok m"
  shows "\<exists>m1 m2. mg_run m xs = Inr m1 \<and> mg_run m1 ys = Inr m2 \<and> mg_run m (xs @ ys) = Inr m2 \<and>
     (mg_cause m1 \<noteq> '''' \<longrightarrow> mg_cause m2 = mg_cause m1) \<and>
     (mg_cause m2 = '''' \<and> xs \<noteq> [] \<longrightarrow> mg_envelope m1)"
proof -
  obtain m1 where m1: "mg_run m xs = Inr m1" using mg_run_total [OF assms] by blast
  have ok1: "mg_ok m1" by (rule mg_run_ok [OF assms m1])
  obtain m2 where m2: "mg_run m1 ys = Inr m2" using mg_run_total [OF ok1] by blast
  have latch: "mg_cause m2 = mg_cause m1" if "mg_cause m1 \<noteq> ''''"
    using mg_run_induct [OF ok1 m2, of "\<lambda>n. mg_cause n = mg_cause m1"] mg_step_latch(1) that by fastforce
  have env: "mg_envelope m1" if c1: "mg_cause m1 = ''''" and ne: "xs \<noteq> []"
  proof -
    obtain zs z where z: "xs = zs @ [z]" using ne by (cases xs rule: rev_cases) auto
    obtain n where n: "mg_run m zs = Inr n" using mg_run_total [OF assms] by blast
    obtain out where "mg_step n z = Inr (m1, out)" using m1 n by (auto simp: z mg_run_append result_simps)
    then show ?thesis using mg_step_latch(2) [OF mg_run_ok [OF assms n]] c1 by blast
  qed
  have "mg_run m (xs @ ys) = Inr m2" by (simp add: mg_run_append m1 m2)
  with m1 m2 latch env show ?thesis by (cases "mg_cause m1 = ''''") auto
qed

subsection \<open>The band of the virtual states\<close>

lemma snapshot_in_band:
  assumes "lo \<le> 0" "0 \<le> hi" and "list_all (\<lambda>n. lo \<le> of_int n * (1 / 10 ^ 6) \<and> of_int n * (1 / 10 ^ 6) \<le> hi) vs"
  shows "list_all (in_band lo hi) (mg_snapshot d vs)"
proof -
  have e: "i < length vs \<Longrightarrow> lo \<le> of_int (vs ! i) * (1 / 10 ^ 6) \<and> of_int (vs ! i) * (1 / 10 ^ 6) \<le> hi" for i
    using assms(3) unfolding list_all_length by blast
  have "in_band lo hi (if 2 * j < length vs then of_int (vs ! (2 * j)) * (1 / 10 ^ 6) else 0,
      if 2 * j + 1 < length vs then of_int (vs ! (2 * j + 1)) * (1 / 10 ^ 6) else 0)" for j
    using assms(1,2) e [of "2 * j"] e [of "2 * j + 1"] unfolding in_band_def fst_conv snd_conv
    by (auto simp only: split: if_split)
  then show ?thesis by (simp only: mg_snapshot_def list_all_iff set_map ball_simps) blast
qed

lemma mg_step_band:
  assumes "mg_ok m" and "mg_step m vs = Inr (m', out)"
      and "lo \<le> 0" "0 \<le> hi" and "list_all (\<lambda>n. lo \<le> of_int n * (1 / 10 ^ 6) \<and> of_int n * (1 / 10 ^ 6) \<le> hi) vs"
      and "in_band lo hi (vl_packet (mg_virtual m))" and "ref_within lo hi (vl_p (mg_virtual m))"
  shows "in_band lo hi (vl_packet (mg_virtual m')) \<and> ref_within lo hi (vl_p (mg_virtual m'))"
proof -
  obtain v c where p: "ticked m vs v c m' out" by (rule mg_step_cases [OF assms(1,2)])
  then have t: "vl_tick (mg_dt m) (mg_virtual m) (mg_t m, mg_snapshot (mg_degree m) vs) = Inr (mg_virtual m')"
    by (simp add: ticked_def)
  have ok: "vl_ok (mg_virtual m)" "0 \<le> mg_dt m" using assms(1) by (auto simp: mg_ok_def)
  show ?thesis
    using vl_tick_within [OF ok t assms(6,7)] vl_tick_ok [OF ok t] snapshot_in_band [OF assms(3,4,5)] assms(7) by simp
qed

text \<open>The virtual state never leaves the band: if the start value, the reference of a pinned
  node and every neighbour value ever received (and zero, which stands for a neighbour not yet
  heard) lie in an interval, then after any number of ticks, at any step size and however far
  the gain has adapted, both coordinates of the virtual state lie in it.\<close>

theorem microgrid_band:
  assumes "mg_ok m" and "lo \<le> 0" and "0 \<le> hi"
      and "in_band lo hi (vl_packet (mg_virtual m))" and "ref_within lo hi (vl_p (mg_virtual m))"
      and "list_all (list_all (\<lambda>n. lo \<le> of_int n * (1 / 10 ^ 6) \<and> of_int n * (1 / 10 ^ 6) \<le> hi)) vss"
  shows "\<exists>m'. mg_run m vss = Inr m' \<and> in_band lo hi (vl_packet (mg_virtual m'))"
proof -
  obtain m' where m': "mg_run m vss = Inr m'" using mg_run_total [OF assms(1)] by blast
  have "mg_ok m' \<and> in_band lo hi (vl_packet (mg_virtual m')) \<and> ref_within lo hi (vl_p (mg_virtual m'))"
    using assms(1) m'
  proof (induction rule: mg_run_induct)
    case start
    then show ?case using assms(4,5) by simp
  next
    case (tick n vs n' out)
    then show ?case
      using mg_step_band [of n vs n' out lo hi] assms(2,3,6) unfolding list_all_iff by blast
  qed
  then show ?thesis using m' by blast
qed

subsection \<open>Deadlines, terminal policy, reconfiguration\<close>

lemma mg_step_count: "mg_ok m \<Longrightarrow> mg_step m vs = Inr (m', out) \<Longrightarrow> mg_count m' = mg_count m + 1"
  by (erule mg_step_cases) (auto simp: ticked_def)

text \<open>A reconfiguration keeps everything that is live, and a changed degree stops the controller.\<close>

text \<open>A mid-run \<^verbatim>\<open>set_params\<close> changes the parameters the controller reports and the step size
  but not the emulator, the virtual layer or the interface in use, nor the step counter; and if
  the new degree differs from the layer's, every later tick raises \<^verbatim>\<open>ValueError\<close>.\<close>

theorem microgrid_set_params:
  assumes "mg_ok m" and "mp_plant p = Some pl" and "mp_virtual p = Some vi"
  shows "\<exists>m'. mg_set_params m p = Inr m' \<and> mg_params m' = p \<and> mg_dt m' = mp_dt p \<and>
     mg_plant m' = mg_plant m \<and> mg_virtual m' = mg_virtual m \<and> mg_interface m' = mg_interface m \<and>
     mg_count m' = mg_count m \<and>
     (0 \<le> mp_degree p \<and> mp_degree p \<noteq> mg_degree m \<longrightarrow> mg_step m' vs = Inl ValueError)"
proof -
  define m' where "m' = m\<lparr>mg_params := p, mg_dt := mp_dt p, mg_plant_params := pl, mg_virtual_params := vi,
      mg_degree := mp_degree p, mg_x0 := (mp_state0_P p / pl_kappa pl, mp_state0_Q p / pl_kappa pl)\<rparr>"
  have "vl_hold (mg_virtual m) (mg_snapshot (mp_degree p) vs) = Inl ValueError"
    if "0 \<le> mp_degree p" "mp_degree p \<noteq> mg_degree m"
    using that assms(1) by (auto simp: vl_hold_def mg_ok_def)
  then have "mg_step m' vs = Inl ValueError" if "0 \<le> mp_degree p" "mp_degree p \<noteq> mg_degree m"
    using that by (simp add: mg_step_def m'_def Let_def)
  moreover have "mg_set_params m p = Inr m'"
    using assms(2,3) by (simp add: mg_set_params_def mg_blocks_def m'_def)
  ultimately show ?thesis by (intro exI [of _ m']) (simp add: m'_def)
qed

subsection \<open>A concrete controller\<close>

definition demo_params :: mg_params where
  "demo_params = \<lparr>mp_dt = 1 / 40,
     mp_plant = Some \<lparr>pl_kappa = 1 / 15, pl_S1 = 10, pl_S2 = 20, pl_profile = ''per'', pl_p_max = 10,
                      pl_q_max = 12, pl_b = 108\<rparr>,
     mp_virtual = Some \<lparr>vp_T_o = 30, vp_alpha_0 = 1, vp_delta_o = 1 / 8, vp_kappa_o = 1 / 1000, vp_xi = 1 / 40,
                        vp_c_0 = 1 / 10, vp_b = 0, vp_rP = 0, vp_rQ = 0\<rparr>,
     mp_interface = Some (AdaptiveP \<lparr>ap_gamma = 1 / 100, ap_eps = 1 / 10, ap_vartheta0 = 0, ap_mu_max = 10,
                                     ap_trigger = ''sigma''\<rparr>),
     mp_degree = 1, mp_state0_P = 2, mp_state0_Q = 3, mp_vstate0_P = 1, mp_vstate0_Q = 2\<rparr>"

lemma demo_params_ok: "mg_params_ok demo_params"
  by (simp add: mg_params_ok_def demo_params_def plant_ok_iff PROFILES_def virtual_check_def iface_params_ok_def
      adaptive_check_def TRIGGERS_def)

definition demo :: microgrid where
  "demo = projr (mg_init MicrogridAdaptive demo_params)"

lemma demo_init: "mg_init MicrogridAdaptive demo_params = Inr demo"
  by (simp add: demo_def mg_init_def mg_blocks_def mg_build_def vl_new_def mg_make_interface_def demo_params_def)

lemma demo_facts:
  "mg_ok demo" "kind_matches (mg_kind demo) (mg_interface demo)" "mg_degree demo = 1"
  "vl_packet (mg_virtual demo) = (1, 2)" "vp_b (vl_p (mg_virtual demo)) = 0"
proof -
  show "mg_ok demo" "kind_matches (mg_kind demo) (mg_interface demo)"
    using mg_init_ok [OF demo_params_ok demo_init] by simp_all
  show "mg_degree demo = 1" "vl_packet (mg_virtual demo) = (1, 2)" "vp_b (vl_p (mg_virtual demo)) = 0"
    by (simp_all add: demo_def mg_init_def mg_blocks_def mg_build_def vl_new_def mg_make_interface_def
        demo_params_def vl_packet_def)
qed

theorem microgrid_tick_witness:
  "\<exists>m' out ns. mg_step demo [1500000, 2500000] = Inr (m', out) \<and> column_names (mg_class (mg_kind m')) = Inr ns \<and>
     length (output_channels out) = length ns"
  using microgrid_tick [OF demo_facts(1,2), of "[1500000, 2500000]"] by blast

theorem microgrid_watchdog_witness:
  "\<exists>m2. mg_run demo [[1500000, 2500000], [1400000, 2400000]] = Inr m2"
  using microgrid_watchdog [OF demo_facts(1), of "[[1500000, 2500000]]" "[[1400000, 2400000]]"] by auto

theorem microgrid_band_witness:
  "\<exists>m'. mg_run demo [[1500000, 2500000], [], [0, 3000000]] = Inr m' \<and> in_band 0 3 (vl_packet (mg_virtual m'))"
  by (rule microgrid_band [OF demo_facts(1)]) (simp_all add: demo_facts in_band_def ref_within_def)

theorem microgrid_set_params_witness:
  "\<exists>m'. mg_set_params demo (demo_params\<lparr>mp_degree := 2\<rparr>) = Inr m' \<and>
     mg_step m' [0, 0, 0, 0] = Inl ValueError"
proof -
  obtain pl vi where "mp_plant (demo_params\<lparr>mp_degree := 2\<rparr>) = Some pl"
      "mp_virtual (demo_params\<lparr>mp_degree := 2\<rparr>) = Some vi" by (auto simp: demo_params_def)
  from microgrid_set_params [OF demo_facts(1) this, of "[0, 0, 0, 0]"] show ?thesis
    by (auto simp: demo_facts(3))
qed

subsection \<open>The microgrid controllers meet the agent's contract\<close>

interpretation grid: coordination_law
  "\<lambda>m vs es. mg_step m vs" "\<lambda>m. [vl_zP (mg_virtual m), vl_zQ (mg_virtual m)]" "\<lambda>m. mg_class (mg_kind m)"
  "\<lambda>m. mg_ok m \<and> kind_matches (mg_kind m) (mg_interface m)"
proof unfold_locales
  fix m vs m' out
  assume ok: "mg_ok m \<and> kind_matches (mg_kind m) (mg_interface m)"
  show "\<exists>m' out. mg_step m vs = Inr (m', out)" using mg_step_total [of m vs] ok by metis
  show "length [vl_zP (mg_virtual m), vl_zQ (mg_virtual m)] = cl_dim (mg_class (mg_kind m))"
    by (simp add: mg_class_def split: mg_kind.split)
  assume s: "mg_step m vs = Inr (m', out)"
  obtain v c where p: "ticked m vs v c m' out" using mg_step_cases [of m vs m' out] ok s by blast
  then have i: "iface_step (mg_interface m) (mg_t m) (pt_xP (mg_plant m)) (pt_xQ (mg_plant m))
       (vl_zP (mg_virtual m)) (vl_zQ (mg_virtual m)) (vc_gP (vl_candidate v (mg_t m) (mg_dt m)))
       (vc_gQ (vl_candidate v (mg_t m) (mg_dt m))) = Inr (mg_interface m', c)" and k: "mg_kind m' = mg_kind m"
    by (simp_all add: ticked_def)
  have km: "kind_matches (mg_kind m') (mg_interface m')" using iface_step_kind [OF i] k ok by simp
  then show "mg_ok m' \<and> kind_matches (mg_kind m') (mg_interface m')" using mg_step_ok ok s by blast
  show "mg_class (mg_kind m') = mg_class (mg_kind m)" by (simp add: k)
  show "co_vstate out = [vl_zP (mg_virtual m'), vl_zQ (mg_virtual m')]" using p by (simp add: ticked_def)
  show "\<exists>ns. column_names (mg_class (mg_kind m)) = Inr ns \<and> length (output_channels out) = length ns"
    using width_of_class [OF km] p by (auto simp: ticked_def output_channels_def)
qed

end
