(* ===== verification/FiniteTime.thy ===== *)
theory FiniteTime
  imports ControllerBase
begin

section \<open>The finite-time adaptive law (controllers/finite_time_adaptive.py)\<close>

text \<open>
  \<open>ft_state\<close> holds the integrators and the intermediate values of
  \<^verbatim>\<open>FiniteTimeAdaptiveController\<close>, \<open>ft_step\<close> is \<^verbatim>\<open>step\<close>. Neighbour values are the
  scaled integers of a table snapshot, which are always finite, and the integrators are reals,
  so \<^verbatim>\<open>_sanitize\<close> and the finiteness tests of \<^verbatim>\<open>_consensus_term\<close> never act here;
  \<open>sanitize\<close> states what they do on a float. The exponent \<open>alpha\<close> is positive, as every encoder
  of it requires, and \<open>period_samples\<close> nonzero (zero raises in the last line of \<^verbatim>\<open>step\<close>).
\<close>

record ft_params =
  fp_dt :: real
  fp_state0 :: real
  fp_vstate0 :: real
  fp_vartheta0 :: real
  fp_eta :: real
  fp_gain :: real
  fp_alpha :: real
  fp_delta :: real
  fp_dist :: disturbance_params

record ft_state =
  ft_state :: real
  ft_vstate :: real
  ft_vartheta :: real
  ft_count :: int
  ft_sigma :: real
  ft_grad :: real
  ft_gi :: real

definition ft_reset :: "ft_params \<Rightarrow> ft_state" where
  "ft_reset p = \<lparr>ft_state = fp_state0 p, ft_vstate = fp_vstate0 p, ft_vartheta = fp_vartheta0 p,
                 ft_count = 0, ft_sigma = 0, ft_grad = 0, ft_gi = 0\<rparr>"

fun sanitize :: "pyfloat \<Rightarrow> pyfloat" where
  "sanitize x = (if float_finite x then x else Fin 0)"

definition coupling :: "real \<Rightarrow> real \<Rightarrow> real" where
  "coupling alpha diff = - sgn diff * \<bar>diff\<bar> powr alpha"

fun consensus_term :: "real \<Rightarrow> real \<Rightarrow> int list \<Rightarrow> bool list \<Rightarrow> real" where
  "consensus_term alpha z (v # vs) (e # es) =
     (if e then coupling alpha (z - of_int v * (1 / 10 ^ 6)) else 0) + consensus_term alpha z vs es"
| "consensus_term alpha z _ _ = 0"

definition ft_output :: "ft_state \<Rightarrow> controller_output" where
  "ft_output s = \<lparr>co_state = [ft_state s], co_vstate = [ft_vstate s], co_extra = [ft_vartheta s]\<rparr>"

definition ft_step ::
  "('g \<Rightarrow> real \<times> 'g) \<Rightarrow> ft_params \<Rightarrow> ft_state \<times> 'g \<Rightarrow> int list \<Rightarrow> bool list \<Rightarrow>
   (ft_state \<times> 'g) \<times> controller_output" where
  "ft_step draw p sg vs es =
     (let (s, g) = sg;
          (nu, g') = disturbance_at draw (fp_dist p) (of_int (ft_count s) * fp_dt p) g;
          gi = fp_gain p * consensus_term (fp_alpha p) (ft_vstate s) vs es;
          sigma = ft_state s - ft_vstate s;
          grad = sgn sigma;
          u = gi - ft_vartheta s * grad;
          dvtheta = (if \<bar>sigma\<bar> > fp_delta p then 1 else 0);
          s' = \<lparr>ft_state = ft_state s + fp_dt p * (u + nu),
                ft_vstate = ft_vstate s + fp_dt p * gi,
                ft_vartheta = ft_vartheta s + fp_dt p * fp_eta p * dvtheta,
                ft_count = (ft_count s + 1) mod dp_period_samples (fp_dist p),
                ft_sigma = sigma, ft_grad = grad, ft_gi = gi\<rparr>
      in ((s', g'), ft_output s'))"

primrec ft_run ::
  "('g \<Rightarrow> real \<times> 'g) \<Rightarrow> ft_params \<Rightarrow> ft_state \<times> 'g \<Rightarrow> (int list \<times> bool list) list \<Rightarrow> ft_state \<times> 'g" where
  "ft_run draw p sg [] = sg"
| "ft_run draw p sg (x # xs) = ft_run draw p (fst (ft_step draw p sg (fst x) (snd x))) xs"

text \<open>
  \<^verbatim>\<open>set_params\<close> replaces the parameters and keeps the integrators. The disturbance is built
  anew: from its seed, so that its stream restarts, when it has one, and otherwise around the
  same injected source.
\<close>

definition ft_set_params ::
  "(int \<Rightarrow> 'g) \<Rightarrow> int option \<Rightarrow> ft_params \<Rightarrow> ft_params \<times> ft_state \<times> 'g \<Rightarrow> ft_params \<times> ft_state \<times> 'g" where
  "ft_set_params default_rng seed p old =
     (let (_, s, g) = old in (p, s, case seed of Some n \<Rightarrow> default_rng n | None \<Rightarrow> g))"

subsection \<open>Facts\<close>

lemma coupling_0 [simp]: "coupling a 0 = 0"
  by (simp add: coupling_def)

lemma coupling_sign: "x > 0 \<Longrightarrow> coupling a x < 0" "x < 0 \<Longrightarrow> coupling a x > 0"
  by (simp_all add: coupling_def)

lemma coupling_odd: "coupling a (- x) = - coupling a x"
  by (simp add: coupling_def sgn_minus)

lemma coupling_nonpos: "0 \<le> x \<Longrightarrow> coupling a x \<le> 0"
  using coupling_sign(1) [of x a] by (cases "x = 0") (simp_all add: less_imp_le)

lemma consensus_agree:
  "(\<And>i. i < length vs \<Longrightarrow> i < length es \<Longrightarrow> es ! i \<Longrightarrow> of_int (vs ! i) * (1 / 10 ^ 6) = z) \<Longrightarrow>
   consensus_term a z vs es = 0"
proof (induction a z vs es rule: consensus_term.induct)
  case (1 a z v vs e es)
  have "e \<Longrightarrow> of_int v * (1 / 10 ^ 6) = z" using 1(2) [of 0] by simp
  moreover have "consensus_term a z vs es = 0"
    using 1(2) by (intro 1(1)) (metis Suc_less_eq length_Cons nth_Cons_Suc)
  ultimately show ?case by auto
qed simp_all

lemma consensus_above:
  "(\<And>i. i < length vs \<Longrightarrow> i < length es \<Longrightarrow> es ! i \<Longrightarrow> of_int (vs ! i) * (1 / 10 ^ 6) \<le> z) \<Longrightarrow>
   consensus_term a z vs es \<le> 0"
proof (induction a z vs es rule: consensus_term.induct)
  case (1 a z v vs e es)
  have "coupling a (z - of_int v * (1 / 10 ^ 6)) \<le> 0" if e
  proof -
    have "0 \<le> z - of_int v * (1 / 10 ^ 6)" using 1(2) [of 0] that by simp
    then show ?thesis by (rule coupling_nonpos)
  qed
  moreover have "consensus_term a z vs es \<le> 0"
    using 1(2) by (intro 1(1)) (metis Suc_less_eq length_Cons nth_Cons_Suc)
  ultimately show ?case by auto
qed simp_all

lemma ft_step_vartheta:
  "ft_vartheta (fst (fst (ft_step draw p (s, g) vs es))) =
     ft_vartheta s + (if \<bar>ft_state s - ft_vstate s\<bar> > fp_delta p then fp_dt p * fp_eta p else 0)"
  by (simp add: ft_step_def Let_def split_beta)

lemma ft_step_vstate:
  "ft_vstate (fst (fst (ft_step draw p (s, g) vs es))) =
     ft_vstate s + fp_dt p * (fp_gain p * consensus_term (fp_alpha p) (ft_vstate s) vs es)"
  by (simp add: ft_step_def Let_def split_beta)

lemma ft_step_count:
  "ft_count (fst (fst (ft_step draw p (s, g) vs es))) = (ft_count s + 1) mod dp_period_samples (fp_dist p)"
  by (simp add: ft_step_def Let_def split_beta)

lemma ft_run_vartheta:
  assumes "0 \<le> fp_dt p" "0 \<le> fp_eta p"
  shows "ft_vartheta (fst sg) \<le> ft_vartheta (fst (ft_run draw p sg xs)) \<and>
         ft_vartheta (fst (ft_run draw p sg xs)) \<le> ft_vartheta (fst sg) + of_nat (length xs) * (fp_dt p * fp_eta p)"
proof (induction xs arbitrary: sg)
  case Nil
  then show ?case by simp
next
  case (Cons x xs)
  let ?sg = "fst (ft_step draw p sg (fst x) (snd x))"
  have nn: "0 \<le> fp_dt p * fp_eta p" using assms by simp
  then have "ft_vartheta (fst sg) \<le> ft_vartheta (fst ?sg)"
      "ft_vartheta (fst ?sg) \<le> ft_vartheta (fst sg) + fp_dt p * fp_eta p"
    using ft_step_vartheta [of draw p "fst sg" "snd sg" "fst x" "snd x"] by auto
  then show ?case using Cons.IH [of ?sg] by (simp add: algebra_simps)
qed

text \<open>The adaptive gain of the scalar law never decreases, grows by exactly
  \<open>dt * eta\<close> in a step whose tracking error exceeds the dead-band and not at all otherwise, and
  after \<open>n\<close> steps is at most \<open>n * dt * eta\<close> above its start; the virtual state of an agent in
  agreement with every enabled neighbour does not move.\<close>

theorem finite_time_gain:
  assumes "0 \<le> fp_dt p" "0 \<le> fp_eta p"
  shows "ft_vartheta (fst sg) \<le> ft_vartheta (fst (ft_run draw p sg xs)) \<and>
         ft_vartheta (fst (ft_run draw p sg xs)) \<le> ft_vartheta (fst sg) + of_nat (length xs) * (fp_dt p * fp_eta p) \<and>
         ft_vartheta (fst (fst (ft_step draw p (s, g) vs es))) - ft_vartheta s =
           (if \<bar>ft_state s - ft_vstate s\<bar> > fp_delta p then fp_dt p * fp_eta p else 0) \<and>
         ft_vstate (fst (fst (ft_step draw p (s\<lparr>ft_vstate := of_int v * (1 / 10 ^ 6)\<rparr>, g)
           (replicate n v) es))) = of_int v * (1 / 10 ^ 6)"
  using ft_run_vartheta [OF assms, of sg draw xs] consensus_agree [of "replicate n v" es "of_int v * (1 / 10 ^ 6)"]
  by (simp add: ft_step_vartheta ft_step_vstate)

theorem finite_time_gain_witness:
  "0 \<le> ft_vartheta (fst (ft_run (\<lambda>g. (1/2, g))
      \<lparr>fp_dt = 1/5, fp_state0 = 1, fp_vstate0 = 0, fp_vartheta0 = 0, fp_eta = 1, fp_gain = 1, fp_alpha = 1/2,
       fp_delta = 0, fp_dist = \<lparr>dp_enabled = False, dp_noise_amplitude = 0, dp_noise_offset = 0, dp_beta = 0,
       dp_sine_amplitude = 0, dp_sine_frequency_hz = 0, dp_sine_phase_s = 0, dp_period_samples = 1000\<rparr>\<rparr>
      (\<lparr>ft_state = 1, ft_vstate = 0, ft_vartheta = 0, ft_count = 0, ft_sigma = 0, ft_grad = 0, ft_gi = 0\<rparr>, ())
      [([5], [True])]))"
proof -
  let ?p = "\<lparr>fp_dt = 1/5, fp_state0 = 1, fp_vstate0 = 0, fp_vartheta0 = 0, fp_eta = 1, fp_gain = 1, fp_alpha = 1/2,
       fp_delta = 0, fp_dist = \<lparr>dp_enabled = False, dp_noise_amplitude = 0, dp_noise_offset = 0, dp_beta = 0,
       dp_sine_amplitude = 0, dp_sine_frequency_hz = 0, dp_sine_phase_s = 0, dp_period_samples = 1000\<rparr>\<rparr>"
  have "0 \<le> fp_dt ?p" "0 \<le> fp_eta ?p" by simp_all
  from finite_time_gain [OF this, of "(\<lparr>ft_state = 1, ft_vstate = 0, ft_vartheta = 0, ft_count = 0, ft_sigma = 0,
      ft_grad = 0, ft_gi = 0\<rparr>, ())" "\<lambda>g. (1/2, g)" "[([5], [True])]"]
  show ?thesis by simp
qed

subsection \<open>The scalar law meets the contract\<close>

definition ft_class :: controller_class where
  "ft_class = \<lparr>cl_name = ''finite_time_adaptive'', cl_dim = 1, cl_coords = [], cl_channels = [''vartheta'']\<rparr>"

interpretation scalar: coordination_law
  "\<lambda>(p, sg) vs es. let (sg', out) = ft_step pcg_uniform p sg vs es in Inr ((p, sg'), out)"
  "\<lambda>(p, s, g). [ft_vstate s]" "\<lambda>_. ft_class" "\<lambda>_. True"
  by unfold_locales
     (auto simp: ft_step_def ft_output_def Let_def split_beta output_channels_def column_names_def ft_class_def)

end
