(* ===== verification/Assignment.thy ===== *)
theory Assignment
  imports Microgrid FiniteTime
begin

section \<open>What the hub assigns to an agent (agent/assignment.py)\<close>

text \<open>
  \<open>assignment\<close> is \<^verbatim>\<open>AgentAssignment\<close>, \<open>assignment_check\<close> the field constraints that
  pydantic enforces on it, \<open>to_controller_params\<close> the controller's parameters. The disturbance
  block stays a dict (\<open>ddict\<close>: keys to booleans, floats or ints) because its defaults matter;
  the microgrid block, which is always the \<^verbatim>\<open>asdict\<close> of checked dataclasses, is the record
  \<open>grid_block\<close> of those dataclasses, with the interface kind in the constructor. The fields that
  only record provenance are left out.
\<close>

datatype agent_type = BLE | WIFI | BRIDGE

datatype dval = DBool bool | DFloat real | DInt int

type_synonym ddict = "(string \<times> dval) list"

fun py_bool :: "dval \<Rightarrow> bool" where
  "py_bool (DBool b) = b"
| "py_bool (DFloat x) = (x \<noteq> 0)"
| "py_bool (DInt n) = (n \<noteq> 0)"

fun py_float :: "dval \<Rightarrow> real" where
  "py_float (DBool b) = (if b then 1 else 0)"
| "py_float (DFloat x) = x"
| "py_float (DInt n) = of_int n"

text \<open>\<^verbatim>\<open>int\<close> truncates a float towards zero.\<close>

fun py_int :: "dval \<Rightarrow> int" where
  "py_int (DBool b) = (if b then 1 else 0)"
| "py_int (DFloat x) = (if x < 0 then \<lceil>x\<rceil> else \<lfloor>x\<rfloor>)"
| "py_int (DInt n) = n"

definition dget :: "ddict \<Rightarrow> string \<Rightarrow> dval \<Rightarrow> dval" where
  "dget d k v = (case map_of d k of None \<Rightarrow> v | Some x \<Rightarrow> x)"

record grid_block =
  gb_plant :: plant_params
  gb_virtual :: virtual_params
  gb_interface :: iface_params
  gb_degree :: int
  gb_state0_P :: real
  gb_state0_Q :: real
  gb_vstate0_P :: real
  gb_vstate0_Q :: real

record assignment =
  as_node :: int
  as_type :: agent_type
  as_enabled :: bool
  as_neighbors :: "int list"
  as_dt :: real
  as_publish_period :: real
  as_max_age :: "real option"
  as_controller :: string
  as_state :: real
  as_vstate :: real
  as_vartheta :: real
  as_eta :: real
  as_gain_ij :: real
  as_alpha :: real
  as_delta :: real
  as_disturbance :: ddict
  as_seed :: int
  as_microgrid :: "grid_block option"

definition assignment_check :: "assignment \<Rightarrow> assignment result" where
  "assignment_check a =
     (if \<not> (1 \<le> as_node a \<and> as_node a \<le> 255) then Inl ValueError
      else if \<not> as_dt a > 0 then Inl ValueError
      else if \<not> as_publish_period a > 0 then Inl ValueError
      else Inr a)"

definition disturbance_of :: "ddict \<Rightarrow> disturbance_params" where
  "disturbance_of d =
     \<lparr>dp_enabled = py_bool (dget d ''enabled'' (DBool False)),
      dp_noise_amplitude = py_float (dget d ''noise_amplitude'' (DFloat 0)),
      dp_noise_offset = py_float (dget d ''noise_offset'' (DFloat (1 / 2))),
      dp_beta = py_float (dget d ''beta'' (DFloat 0)),
      dp_sine_amplitude = py_float (dget d ''sine_amplitude'' (DFloat 0)),
      dp_sine_frequency_hz = py_float (dget d ''sine_frequency_hz'' (DFloat 0)),
      dp_sine_phase_s = py_float (dget d ''sine_phase_s'' (DFloat 0)),
      dp_period_samples = py_int (dget d ''period_samples'' (DInt 1000))\<rparr>"

text \<open>The dataclasses are built anew, so their checks run again.\<close>

definition iface_check :: "iface_params \<Rightarrow> iface_params result" where
  "iface_check i =
     (case i of
        AdaptiveP a \<Rightarrow> bindR (adaptive_check a) (\<lambda>a. Inr (AdaptiveP a))
      | LcP l \<Rightarrow> bindR (lc_check l) (\<lambda>l. Inr (LcP l)))"

datatype controller_params = ScalarParams ft_params | GridParams mg_params

definition microgrid_params :: "real \<Rightarrow> grid_block \<Rightarrow> mg_params result" where
  "microgrid_params dt m =
     bindR (plant_check (gb_plant m)) (\<lambda>pl.
     bindR (virtual_check (gb_virtual m)) (\<lambda>vi.
     bindR (iface_check (gb_interface m)) (\<lambda>i.
     bindR (raise_if (dt \<le> 0) ValueError) (\<lambda>_.
       Inr \<lparr>mp_dt = dt, mp_plant = Some pl, mp_virtual = Some vi, mp_interface = Some i,
            mp_degree = gb_degree m, mp_state0_P = gb_state0_P m, mp_state0_Q = gb_state0_Q m,
            mp_vstate0_P = gb_vstate0_P m, mp_vstate0_Q = gb_vstate0_Q m\<rparr>))))"

definition to_controller_params :: "assignment \<Rightarrow> controller_params result" where
  "to_controller_params a =
     (case as_microgrid a of
        Some m \<Rightarrow> bindR (microgrid_params (as_dt a) m) (\<lambda>p. Inr (GridParams p))
      | None \<Rightarrow>
          bindR (raise_if (as_dt a \<le> 0) ValueError) (\<lambda>_.
            Inr (ScalarParams \<lparr>fp_dt = as_dt a, fp_state0 = as_state a, fp_vstate0 = as_vstate a,
                               fp_vartheta0 = as_vartheta a, fp_eta = as_eta a, fp_gain = as_gain_ij a,
                               fp_alpha = as_alpha a, fp_delta = as_delta a,
                               fp_dist = disturbance_of (as_disturbance a)\<rparr>)))"

text \<open>What \<^verbatim>\<open>assignment_for\<close> writes for a node's disturbance, read back.\<close>

definition disturbance_dict :: "disturbance_params \<Rightarrow> ddict" where
  "disturbance_dict d =
     [(''enabled'', DBool (dp_enabled d)), (''noise_amplitude'', DFloat (dp_noise_amplitude d)),
      (''noise_offset'', DFloat (dp_noise_offset d)), (''beta'', DFloat (dp_beta d)),
      (''sine_amplitude'', DFloat (dp_sine_amplitude d)),
      (''sine_frequency_hz'', DFloat (dp_sine_frequency_hz d)),
      (''sine_phase_s'', DFloat (dp_sine_phase_s d)), (''period_samples'', DInt (dp_period_samples d))]"

lemma disturbance_roundtrip [simp]: "disturbance_of (disturbance_dict d) = d"
  by (simp add: disturbance_of_def disturbance_dict_def dget_def)

lemma microgrid_params_ok:
  assumes "microgrid_params dt m = Inr p"
  shows "mp_dt p = dt \<and> 0 < dt \<and> mp_plant p = Some (gb_plant m) \<and> mp_virtual p = Some (gb_virtual m) \<and>
         mp_interface p = Some (gb_interface m) \<and> mp_degree p = gb_degree m"
  using assms
  by (auto simp: microgrid_params_def result_simps iface_check_def plant_check_def virtual_check_def
      adaptive_check_def lc_check_def split: if_splits iface_params.splits)

text \<open>A checked assignment always gives a controller: the scalar law's parameters exist, and the
  microgrid's exist as soon as its blocks pass their own checks.\<close>

lemma to_controller_params_total:
  assumes "assignment_check a = Inr b"
  shows "as_microgrid a = None \<Longrightarrow> \<exists>p. to_controller_params a = Inr (ScalarParams p) \<and> fp_dt p = as_dt a"
    and "as_microgrid a = Some m \<Longrightarrow> plant_check (gb_plant m) = Inr pl \<Longrightarrow> virtual_check (gb_virtual m) = Inr vi \<Longrightarrow>
         iface_check (gb_interface m) = Inr i \<Longrightarrow> \<exists>p. to_controller_params a = Inr (GridParams p) \<and> mp_dt p = as_dt a"
  using assms by (auto simp: to_controller_params_def assignment_check_def microgrid_params_def split: if_splits)

end
