(* ===== verification/Manifest.thy ===== *)
theory Manifest
  imports Assignment Generators
begin

section \<open>Experiment manifests (topology/models.py, topology/loader.py)\<close>

text \<open>
  One record per pydantic model, one \<open>_check\<close> per model for its field constraints and its
  validators (a \<^verbatim>\<open>ValidationError\<close> is a \<open>ValueError\<close>), \<open>manifest_check\<close> for the whole
  manifest, \<open>load_manifest\<close> for the expansion of a generated graph, and \<open>assignments_for\<close>
  (of \<^verbatim>\<open>agent/assignment.py\<close>) for what the hub sends each node. numpy's seeding and generator
  are the parameter \<open>numpy\<close>. The \<open>set\<close> block of a scheduled event maps field names to booleans, floats or ints (other JSON values are not modelled).
  Reading the YAML file is not modelled.
\<close>

definition MAX_NODE_ID :: int where
  "MAX_NODE_ID = 255"

subsection \<open>The models and their constraints\<close>

record disturbance_spec =
  dx_enabled :: bool
  dx_noise_amplitude :: real
  dx_noise_offset :: real
  dx_beta :: real
  dx_sine_amplitude :: real
  dx_sine_frequency_hz :: real
  dx_sine_phase_s :: "real option"
  dx_period_samples :: int

definition disturbance_spec_check :: "disturbance_spec \<Rightarrow> bool" where
  "disturbance_spec_check d \<longleftrightarrow>
     dx_noise_amplitude d \<ge> 0 \<and> dx_sine_amplitude d \<ge> 0 \<and> dx_sine_frequency_hz d \<ge> 0 \<and> dx_period_samples d > 0"

datatype eps_spec = EpsAll real | EpsPer "(int \<times> real) list"

record microgrid_spec =
  ms_interface :: string
  ms_profile :: string
  ms_p_max :: real
  ms_q_max :: real
  ms_T_o :: real
  ms_alpha_0 :: real
  ms_delta_o :: real
  ms_kappa_o :: real
  ms_xi :: real
  ms_c_0 :: real
  ms_mu_max :: real
  ms_gamma :: real
  ms_eps :: eps_spec
  ms_vartheta0 :: real
  ms_T_c :: real
  ms_beta_c :: real
  ms_Phi :: real
  ms_terminal :: bool
  ms_adapt_band :: "real option"

fun eps_nonnegative :: "eps_spec \<Rightarrow> bool" where
  "eps_nonnegative (EpsAll v) = (v \<ge> 0)"
| "eps_nonnegative (EpsPer m) = (\<forall>(k, x) \<in> set m. x \<ge> 0)"

definition microgrid_spec_check :: "microgrid_spec \<Rightarrow> bool" where
  "microgrid_spec_check m \<longleftrightarrow>
     ms_interface m \<in> set [''adaptive'', ''lc''] \<and> ms_profile m \<in> set [''rep'', ''per''] \<and>
     ms_p_max m > 0 \<and> ms_q_max m > 0 \<and> ms_T_o m > 0 \<and> ms_alpha_0 m > 0 \<and> ms_delta_o m > 0 \<and>
     ms_mu_max m > 0 \<and> ms_gamma m \<ge> 0 \<and> eps_nonnegative (ms_eps m) \<and> ms_T_c m > 0 \<and> ms_beta_c m > 0"

definition eps_for :: "microgrid_spec \<Rightarrow> int \<Rightarrow> real" where
  "eps_for m node_id =
     (case ms_eps m of
        EpsPer d \<Rightarrow> (case map_of d node_id of Some x \<Rightarrow> x | None \<Rightarrow> 0)
      | EpsAll x \<Rightarrow> x)"

record node_plant_spec =
  np_kappa :: real
  np_S :: "real \<times> real"
  np_X0 :: "real \<times> real"
  np_z0 :: "real \<times> real"

definition node_plant_check :: "node_plant_spec \<Rightarrow> bool" where
  "node_plant_check p \<longleftrightarrow> np_kappa p > 0"

record controller_spec =
  cs_name :: string
  cs_dt_s :: real
  cs_eta :: real
  cs_gain_ij :: real
  cs_alpha :: real
  cs_delta :: real
  cs_disturbance :: disturbance_spec
  cs_microgrid :: "microgrid_spec option"

definition controller_spec_check :: "controller_spec \<Rightarrow> bool" where
  "controller_spec_check c \<longleftrightarrow>
     cs_dt_s c > 0 \<and> 0 < cs_alpha c \<and> cs_alpha c \<le> 1 \<and> disturbance_spec_check (cs_disturbance c) \<and>
     (case cs_microgrid c of None \<Rightarrow> True | Some m \<Rightarrow> microgrid_spec_check m)"

definition eta_well_below_gain :: "controller_spec \<Rightarrow> bool" where
  "eta_well_below_gain c \<longleftrightarrow> \<bar>cs_eta c\<bar> * 100 \<le> \<bar>cs_gain_ij c\<bar>"

text \<open>\<^verbatim>\<open>ipaddress.IPv4Address\<close> of a string: four decimal octets without leading zeros.\<close>

fun str_split :: "char \<Rightarrow> string \<Rightarrow> string list" where
  "str_split c [] = [[]]"
| "str_split c (x # xs) =
     (if x = c then [] # str_split c xs
      else (case str_split c xs of [] \<Rightarrow> [[x]] | w # ws \<Rightarrow> (x # w) # ws))"

definition is_digit :: "char \<Rightarrow> bool" where
  "is_digit c \<longleftrightarrow> (48 :: nat) \<le> of_char c \<and> (of_char c :: nat) \<le> 57"

definition decimal :: "string \<Rightarrow> nat" where
  "decimal s = foldl (\<lambda>n c. 10 * n + (of_char c - 48)) 0 s"

definition octet_ok :: "string \<Rightarrow> bool" where
  "octet_ok s \<longleftrightarrow> s \<noteq> [] \<and> list_all is_digit s \<and> length s \<le> 3 \<and>
     (s = ''0'' \<or> s ! 0 \<noteq> CHR ''0'') \<and> decimal s \<le> 255"

definition valid_ipv4 :: "string \<Rightarrow> bool" where
  "valid_ipv4 s \<longleftrightarrow> CHR ''/'' \<notin> set s \<and> length (str_split CHR ''.'' s) = 4 \<and> list_all octet_ok (str_split CHR ''.'' s)"

record node_spec =
  ns_id :: int
  ns_ip :: string
  ns_type :: agent_type
  ns_enabled :: bool
  ns_publish_period_s :: real
  ns_neighbors :: "int list"
  ns_plant :: "node_plant_spec option"

definition no_self_loop_or_dupes :: "int \<Rightarrow> int list \<Rightarrow> bool" where
  "no_self_loop_or_dupes own v \<longleftrightarrow> own \<notin> set v \<and> distinct v"

definition node_spec_check :: "node_spec \<Rightarrow> bool" where
  "node_spec_check n \<longleftrightarrow>
     1 \<le> ns_id n \<and> ns_id n \<le> MAX_NODE_ID \<and> valid_ipv4 (ns_ip n) \<and> ns_publish_period_s n > 0 \<and>
     no_self_loop_or_dupes (ns_id n) (ns_neighbors n) \<and>
     (case ns_plant n of None \<Rightarrow> True | Some p \<Rightarrow> node_plant_check p)"

record radio_spec =
  rs_adv_interval_ms :: real
  rs_adv_interval_max_ms :: "real option"
  rs_scan_interval_ms :: real
  rs_scan_window_ms :: real
  rs_channel_map :: int
  rs_filter_duplicates :: bool
  rs_passive_scan :: bool
  rs_tx_power_dbm :: "real option"

definition in_range :: "real \<Rightarrow> real \<Rightarrow> real \<Rightarrow> bool" where
  "in_range lo hi x \<longleftrightarrow> lo \<le> x \<and> x \<le> hi"

definition radio_spec_check :: "radio_spec \<Rightarrow> bool" where
  "radio_spec_check r \<longleftrightarrow>
     in_range 100 10240 (rs_adv_interval_ms r) \<and>
     (case rs_adv_interval_max_ms r of None \<Rightarrow> True
      | Some x \<Rightarrow> in_range 100 10240 x \<and> \<not> x < rs_adv_interval_ms r) \<and>
     in_range (5 / 2) 10240 (rs_scan_interval_ms r) \<and> in_range (5 / 2) 10240 (rs_scan_window_ms r) \<and>
     \<not> rs_scan_window_ms r > rs_scan_interval_ms r \<and>
     1 \<le> rs_channel_map r \<and> rs_channel_map r \<le> 7 \<and>
     (case rs_tx_power_dbm r of None \<Rightarrow> True | Some x \<Rightarrow> in_range 0 30 x)"

definition scan_duty_cycle :: "radio_spec \<Rightarrow> real" where
  "scan_duty_cycle r = rs_scan_window_ms r / rs_scan_interval_ms r"

record structure_spec =
  ss_generator :: string
  ss_params :: gen_params

record coordination_spec =
  crd_reference :: "real \<times> real"
  crd_pinned :: "(int \<times> real) list"

definition coordination_check :: "coordination_spec \<Rightarrow> bool" where
  "coordination_check c \<longleftrightarrow> (\<forall>(k, w) \<in> set (crd_pinned c). \<not> w \<le> 0)"

record scheduled_event =
  sv_at_s :: real
  sv_nodes :: "int list"
  sv_set :: "(string \<times> dval) list"

definition FROZEN :: "string list" where
  "FROZEN = [''reference'', ''pinned'', ''coordination'']"

definition event_check :: "scheduled_event \<Rightarrow> bool" where
  "event_check e \<longleftrightarrow> sv_at_s e > 0 \<and> sv_nodes e \<noteq> [] \<and> sv_set e \<noteq> [] \<and>
     fst ` set (sv_set e) \<inter> set FROZEN = {}"

record manifest =
  em_name :: string
  em_nodes :: "node_spec list"
  em_controller :: controller_spec
  em_radio :: radio_spec
  em_structure :: "structure_spec option"
  em_coordination :: "coordination_spec option"
  em_events :: "scheduled_event list"
  em_seed :: int
  em_ic_scheme :: string

definition em_ids :: "manifest \<Rightarrow> int list" where
  "em_ids m = map ns_id (em_nodes m)"

text \<open>\<^verbatim>\<open>{n.id: n for n in nodes}\<close>: the last node of an id wins.\<close>

definition em_by_id :: "manifest \<Rightarrow> int \<rightharpoonup> node_spec" where
  "em_by_id m = map_of (rev (map (\<lambda>n. (ns_id n, n)) (em_nodes m)))"

definition coherent :: "manifest \<Rightarrow> bool" where
  "coherent m \<longleftrightarrow> em_ids m \<noteq> [] \<and> distinct (em_ids m) \<and>
     (\<forall>n \<in> set (em_nodes m). set (ns_neighbors n) \<subseteq> set (em_ids m)) \<and>
     distinct (map (\<lambda>n. (ns_ip n, ns_type n)) (em_nodes m))"

definition manifest_check :: "manifest \<Rightarrow> manifest result" where
  "manifest_check m =
     (if list_all node_spec_check (em_nodes m) \<and> controller_spec_check (em_controller m) \<and>
         radio_spec_check (em_radio m) \<and>
         (case em_coordination m of None \<Rightarrow> True | Some c \<Rightarrow> coordination_check c) \<and>
         list_all event_check (em_events m) \<and> em_ic_scheme m \<in> set [''pcg64-v1'', ''legacy-arc4''] \<and>
         coherent m
      then Inr m else Inl ValueError)"

subsection \<open>Loading: a structure is expanded into neighbours\<close>

definition dict_get :: "('k \<times> 'v) list \<Rightarrow> 'k \<Rightarrow> 'v \<Rightarrow> 'v" where
  "dict_get d k v = (case map_of d k of Some x \<Rightarrow> x | None \<Rightarrow> v)"

definition load_manifest :: "manifest \<Rightarrow> manifest result" where
  "load_manifest data =
     (case em_structure data of
        None \<Rightarrow> manifest_check data
      | Some structure \<Rightarrow>
          if list_ex (\<lambda>n. ns_neighbors n \<noteq> []) (em_nodes data) then Inl ValueError
          else bindR (generate (ss_generator structure) (ss_params structure)) (\<lambda>edges.
            if \<not> fst ` set edges \<subseteq> set (em_ids data) then Inl ValueError
            else manifest_check (data\<lparr>em_nodes :=
                   map (\<lambda>n. n\<lparr>ns_neighbors := dict_get edges (ns_id n) []\<rparr>) (em_nodes data)\<rparr>)))"

subsection \<open>Seeds, initial conditions and parameter blocks\<close>

record numpy =
  nu_seed :: "int list \<Rightarrow> int"
  nu_uniform :: "int \<Rightarrow> nat \<Rightarrow> real \<Rightarrow> real \<Rightarrow> real"

definition IC_RANGES :: "agent_type \<Rightarrow> real \<times> real" where
  "IC_RANGES t = (case t of BLE \<Rightarrow> (0, 10) | WIFI \<Rightarrow> (10, 20) | BRIDGE \<Rightarrow> (20, 30))"

definition purpose_tag :: "string \<Rightarrow> int" where
  "purpose_tag purpose = (\<Sum>(i, b) \<leftarrow> enumerate 0 purpose. (int i + 1) * of_char b)"

definition node_seed :: "numpy \<Rightarrow> int \<Rightarrow> int \<Rightarrow> int \<Rightarrow> string \<Rightarrow> int" where
  "node_seed np seed run_index node_id purpose = nu_seed np [seed, run_index, node_id, purpose_tag purpose]"

record node_ics =
  ic_state :: real
  ic_vstate :: real
  ic_vartheta :: real
  ic_sine_phase_s :: real

definition initial_conditions :: "numpy \<Rightarrow> node_spec \<Rightarrow> int \<Rightarrow> int \<Rightarrow> node_ics" where
  "initial_conditions np node seed run_index =
     (let s = node_seed np seed run_index (ns_id node) ''ic''; (lo, hi) = IC_RANGES (ns_type node) in
      \<lparr>ic_state = nu_uniform np s 0 lo hi, ic_vstate = nu_uniform np s 1 lo hi, ic_vartheta = 0,
       ic_sine_phase_s = nu_uniform np s 2 0 1\<rparr>)"

definition microgrid_blocks :: "manifest \<Rightarrow> microgrid_spec \<Rightarrow> node_spec \<Rightarrow> grid_block result" where
  "microgrid_blocks mf m node =
     (case ns_plant node of
        None \<Rightarrow> Inl ValueError
      | Some np_ \<Rightarrow>
          (let b = (case em_coordination mf of None \<Rightarrow> 0 | Some c \<Rightarrow> dict_get (crd_pinned c) (ns_id node) 0);
               ref = (case em_coordination mf of None \<Rightarrow> (0, 0) | Some c \<Rightarrow> if b > 0 then crd_reference c else (0, 0))
           in bindR (plant_check \<lparr>pl_kappa = np_kappa np_, pl_S1 = fst (np_S np_), pl_S2 = snd (np_S np_),
                                  pl_profile = ms_profile m, pl_p_max = ms_p_max m, pl_q_max = ms_q_max m, pl_b = 108\<rparr>)
              (\<lambda>plant.
              bindR (virtual_check \<lparr>vp_T_o = ms_T_o m, vp_alpha_0 = ms_alpha_0 m, vp_delta_o = ms_delta_o m,
                                    vp_kappa_o = ms_kappa_o m, vp_xi = ms_xi m, vp_c_0 = ms_c_0 m, vp_b = b,
                                    vp_rP = fst ref, vp_rQ = snd ref\<rparr>)
              (\<lambda>virtual.
              bindR (if ms_interface m = ''adaptive'' then
                       bindR (adaptive_check \<lparr>ap_gamma = ms_gamma m, ap_eps = eps_for m (ns_id node),
                                ap_vartheta0 = ms_vartheta0 m, ap_mu_max = ms_mu_max m, ap_trigger = ''sigma''\<rparr>)
                         (\<lambda>a. Inr (AdaptiveP a))
                     else
                       bindR (lc_check \<lparr>lp_kappa = np_kappa np_, lp_profile = ms_profile m, lp_T_c = ms_T_c m,
                                lp_beta_c = ms_beta_c m, lp_Phi = ms_Phi m, lp_terminal = ms_terminal m,
                                lp_mu_max = ms_mu_max m, lp_p_max = ms_p_max m, lp_q_max = ms_q_max m,
                                lp_delta_c = None, lp_adapt_band = ms_adapt_band m, lp_adapt_after = None\<rparr>)
                         (\<lambda>l. Inr (LcP l)))
              (\<lambda>iface.
                Inr \<lparr>gb_plant = plant, gb_virtual = virtual, gb_interface = iface,
                     gb_degree = int (length (ns_neighbors node)),
                     gb_state0_P = fst (np_X0 np_), gb_state0_Q = snd (np_X0 np_),
                     gb_vstate0_P = fst (np_z0 np_), gb_vstate0_Q = snd (np_z0 np_)\<rparr>)))))"

text \<open>\<^verbatim>\<open>controller_params_for\<close>; under a microgrid law the scalar fields keep their defaults.\<close>

definition scalar_defaults :: "real \<Rightarrow> ft_params" where
  "scalar_defaults dt =
     \<lparr>fp_dt = dt, fp_state0 = 0, fp_vstate0 = 0, fp_vartheta0 = 0, fp_eta = 5 / 10 ^ 5, fp_gain = 1 / 10,
      fp_alpha = 1 / 2, fp_delta = 1 / 100,
      fp_dist = \<lparr>dp_enabled = False, dp_noise_amplitude = 0, dp_noise_offset = 0, dp_beta = 0,
        dp_sine_amplitude = 0, dp_sine_frequency_hz = 0, dp_sine_phase_s = 0, dp_period_samples = 1000\<rparr>\<rparr>"

definition controller_params_for ::
  "numpy \<Rightarrow> manifest \<Rightarrow> node_spec \<Rightarrow> int \<Rightarrow> (ft_params \<times> grid_block option) result" where
  "controller_params_for np mf node run_index =
     (let ics = initial_conditions np node (em_seed mf) run_index; c = em_controller mf; d = cs_disturbance c in
      bindR (case cs_microgrid c of
               Some m \<Rightarrow> bindR (microgrid_blocks mf m node) (\<lambda>g. Inr (scalar_defaults (cs_dt_s c), Some g))
             | None \<Rightarrow>
                 Inr (\<lparr>fp_dt = cs_dt_s c, fp_state0 = ic_state ics, fp_vstate0 = ic_vstate ics,
                       fp_vartheta0 = ic_vartheta ics, fp_eta = cs_eta c, fp_gain = cs_gain_ij c,
                       fp_alpha = cs_alpha c, fp_delta = cs_delta c,
                       fp_dist = \<lparr>dp_enabled = dx_enabled d, dp_noise_amplitude = dx_noise_amplitude d,
                         dp_noise_offset = dx_noise_offset d, dp_beta = dx_beta d,
                         dp_sine_amplitude = dx_sine_amplitude d, dp_sine_frequency_hz = dx_sine_frequency_hz d,
                         dp_sine_phase_s = (case dx_sine_phase_s d of Some p \<Rightarrow> p | None \<Rightarrow> ic_sine_phase_s ics),
                         dp_period_samples = dx_period_samples d\<rparr>\<rparr>, None))
        (\<lambda>p. bindR (raise_if (cs_dt_s c \<le> 0) ValueError) (\<lambda>_. Inr p)))"

subsection \<open>Assignments (agent/assignment.py)\<close>

text \<open>The fields of \<^verbatim>\<open>AgentAssignment\<close> that the control law does not read: the radio block as
  \<^verbatim>\<open>RadioSpec.model_dump()\<close> gives it, and the provenance.\<close>

datatype rval = RNone | RFloat real | RInt int | RBool bool

type_synonym rdict = "(string \<times> rval) list"

definition radio_dump :: "radio_spec \<Rightarrow> rdict" where
  "radio_dump r =
     (let opt = (\<lambda>x. case x of None \<Rightarrow> RNone | Some v \<Rightarrow> RFloat v) in
      [(''adv_interval_ms'', RFloat (rs_adv_interval_ms r)),
       (''adv_interval_max_ms'', opt (rs_adv_interval_max_ms r)),
       (''scan_interval_ms'', RFloat (rs_scan_interval_ms r)),
       (''scan_window_ms'', RFloat (rs_scan_window_ms r)),
       (''channel_map'', RInt (rs_channel_map r)),
       (''filter_duplicates'', RBool (rs_filter_duplicates r)),
       (''passive_scan'', RBool (rs_passive_scan r)),
       (''tx_power_dbm'', opt (rs_tx_power_dbm r))])"

record hub_assignment = assignment +
  ha_radio :: rdict
  ha_manifest_name :: string
  ha_run_seed :: int
  ha_run_index :: int

definition assignment_for :: "numpy \<Rightarrow> manifest \<Rightarrow> int \<Rightarrow> int \<Rightarrow> hub_assignment result" where
  "assignment_for np mf node_id run_index =
     (case em_by_id mf node_id of
        None \<Rightarrow> Inl KeyError
      | Some node \<Rightarrow>
          bindR (controller_params_for np mf node run_index) (\<lambda>(p, g).
          bindR (assignment_check
             \<lparr>as_node = ns_id node, as_type = ns_type node, as_enabled = ns_enabled node,
              as_neighbors = ns_neighbors node, as_dt = fp_dt p, as_publish_period = ns_publish_period_s node,
              as_max_age = None, as_controller = cs_name (em_controller mf),
              as_state = fp_state0 p, as_vstate = fp_vstate0 p, as_vartheta = fp_vartheta0 p,
              as_eta = fp_eta p, as_gain_ij = fp_gain p, as_alpha = fp_alpha p, as_delta = fp_delta p,
              as_disturbance = disturbance_dict (fp_dist p),
              as_seed = node_seed np (em_seed mf) run_index (ns_id node) ''disturbance'',
              as_microgrid = g\<rparr>) (\<lambda>a.
            Inr (assignment.extend a
              \<lparr>ha_radio = radio_dump (em_radio mf), ha_manifest_name = em_name mf, ha_run_seed = em_seed mf,
               ha_run_index = run_index\<rparr>))))"

text \<open>A dict comprehension over the nodes, keyed by id.\<close>

definition assignments_for :: "numpy \<Rightarrow> manifest \<Rightarrow> int \<Rightarrow> (int \<times> hub_assignment) list result" where
  "assignments_for np mf run_index =
     traverse (\<lambda>n. bindR (assignment_for np mf (ns_id n) run_index) (\<lambda>a. Inr (ns_id n, a))) (em_nodes mf)"

subsection \<open>What a manifest guarantees\<close>

lemma manifest_check_eq [result_simps]:
  "manifest_check m = Inr m' \<longleftrightarrow> m' = m \<and> list_all node_spec_check (em_nodes m) \<and>
     controller_spec_check (em_controller m) \<and> radio_spec_check (em_radio m) \<and>
     (case em_coordination m of None \<Rightarrow> True | Some c \<Rightarrow> coordination_check c) \<and>
     list_all event_check (em_events m) \<and> em_ic_scheme m \<in> set [''pcg64-v1'', ''legacy-arc4''] \<and> coherent m"
  by (auto simp: manifest_check_def)

lemma map_of_unique: "distinct (map fst xs) \<Longrightarrow> (k, v) \<in> set xs \<Longrightarrow> map_of xs k = Some v"
  by (simp add: map_of_is_SomeI)

lemma em_by_id_node: "distinct (em_ids m) \<Longrightarrow> n \<in> set (em_nodes m) \<Longrightarrow> em_by_id m (ns_id n) = Some n"
  unfolding em_by_id_def em_ids_def
  by (rule map_of_unique) (auto simp: comp_def rev_map [symmetric])

lemma em_by_id_SomeD: "em_by_id m i = Some n \<Longrightarrow> n \<in> set (em_nodes m) \<and> ns_id n = i"
  by (auto simp: em_by_id_def dest!: map_of_SomeD)

lemma dict_get_graph: "graph_ok g \<Longrightarrow> (i, ns) \<in> set g \<Longrightarrow> dict_get g i d = ns"
  by (simp add: dict_get_def graph_ok_def map_of_unique)

lemma dict_get_absent: "i \<notin> fst ` set g \<Longrightarrow> dict_get g i d = d"
  by (simp add: dict_get_def map_of_eq_None_iff [THEN iffD2])

lemma dict_get_ok:
  assumes "graph_ok g"
  shows "no_self_loop_or_dupes i (dict_get g i [])" and "set (dict_get g i []) \<subseteq> fst ` set g"
    and "j \<in> set (dict_get g i []) \<longleftrightarrow> (j, i) \<in> reads g"
proof -
  have "no_self_loop_or_dupes i (dict_get g i []) \<and> set (dict_get g i []) \<subseteq> fst ` set g \<and>
      (j \<in> set (dict_get g i []) \<longleftrightarrow> (j, i) \<in> reads g)"
  proof (cases "map_of g i")
    case None
    have "dict_get g i [] = []" by (simp add: dict_get_def None)
    moreover have "(j, i) \<notin> reads g" using None by (force simp: reads_def map_of_eq_None_iff)
    ultimately show ?thesis by (simp add: no_self_loop_or_dupes_def)
  next
    case (Some ns)
    then have m: "(i, ns) \<in> set g" by (rule map_of_SomeD)
    have "ns' = ns" if "(i, ns') \<in> set g" for ns'
      using dict_get_graph [OF assms that, of "[]"] dict_get_graph [OF assms m, of "[]"] by simp
    with m have "(j, i) \<in> reads g \<longleftrightarrow> j \<in> set ns" unfolding reads_def by blast
    moreover have "distinct ns \<and> i \<notin> set ns \<and> set ns \<subseteq> fst ` set g"
      using m assms unfolding graph_ok_def by fast
    ultimately show ?thesis by (simp add: dict_get_def Some no_self_loop_or_dupes_def)
  qed
  then show "no_self_loop_or_dupes i (dict_get g i [])" and "set (dict_get g i []) \<subseteq> fst ` set g"
    and "j \<in> set (dict_get g i []) \<longleftrightarrow> (j, i) \<in> reads g" by blast+
qed

definition with_graph :: "manifest \<Rightarrow> digraph \<Rightarrow> manifest" where
  "with_graph m g = m\<lparr>em_nodes := map (\<lambda>n. n\<lparr>ns_neighbors := dict_get g (ns_id n) []\<rparr>) (em_nodes m)\<rparr>"

lemma em_ids_with_graph [simp]: "em_ids (with_graph m g) = em_ids m"
  by (simp add: with_graph_def em_ids_def comp_def)

lemma with_graph_checks:
  assumes "manifest_check m = Inr m" and "\<forall>n \<in> set (em_nodes m). ns_neighbors n = []"
    and g: "graph_ok g" "fst ` set g \<subseteq> set (em_ids m)"
  shows "manifest_check (with_graph m g) = Inr (with_graph m g)"
proof -
  have "list_all node_spec_check (em_nodes (with_graph m g))"
    using assms(1) dict_get_ok(1) [OF g(1)]
    by (auto simp: result_simps list_all_iff with_graph_def node_spec_check_def)
  moreover have "coherent (with_graph m g)"
  proof -
    have "map (\<lambda>n. (ns_ip n, ns_type n)) (em_nodes (with_graph m g)) = map (\<lambda>n. (ns_ip n, ns_type n)) (em_nodes m)"
      by (simp add: with_graph_def)
    moreover have "set (ns_neighbors n) \<subseteq> set (em_ids m)" if "n \<in> set (em_nodes (with_graph m g))" for n
    proof -
      have "\<exists>i. ns_neighbors n = dict_get g i []" using that by (auto simp: with_graph_def)
      then show ?thesis using dict_get_ok(2) [OF g(1)] g(2) by (metis subset_trans)
    qed
    ultimately show ?thesis using assms(1) by (simp add: result_simps coherent_def)
  qed
  ultimately show ?thesis using assms(1) by (auto simp: result_simps with_graph_def)
qed

text \<open>A manifest that names a generator loads whenever its nodes are valid and the generator
  produces only declared ids: the generated graph passes every neighbour check, and each node
  reads exactly the nodes that influence it in the generated graph. (A cluster's bridges must not
  join a node to itself.)\<close>

theorem structured_manifest_loads:
  assumes "em_structure m = Some s" and "generate (ss_generator s) (ss_params s) = Inr g"
    and "\<And>gs bs intra. ss_params s = ClusterParams gs bs intra \<Longrightarrow> \<forall>(a, b) \<in> set bs. a \<noteq> b"
    and "fst ` set g \<subseteq> set (em_ids m)" and "manifest_check m = Inr m"
    and "\<forall>n \<in> set (em_nodes m). ns_neighbors n = []"
  shows "load_manifest m = Inr (with_graph m g) \<and>
         (\<forall>n \<in> set (em_nodes (with_graph m g)). \<forall>j. j \<in> set (ns_neighbors n) \<longleftrightarrow> (j, ns_id n) \<in> reads g)"
proof -
  have ok: "graph_ok g" by (rule generate_ok [OF assms(2,3)])
  have "load_manifest m = Inr (with_graph m g)"
    using assms(1,2,4,6) with_graph_checks [OF assms(5,6) ok assms(4)]
    by (auto simp: load_manifest_def list_ex_iff with_graph_def)
  moreover have "\<forall>n \<in> set (em_nodes (with_graph m g)). \<forall>j. j \<in> set (ns_neighbors n) \<longleftrightarrow> (j, ns_id n) \<in> reads g"
    using dict_get_ok(3) [OF ok] by (auto simp: with_graph_def)
  ultimately show ?thesis by blast
qed

lemma traverse_mem: "traverse f xs = Inr ys \<Longrightarrow> y \<in> set ys \<Longrightarrow> \<exists>x \<in> set xs. f x = Inr y"
  by (induction xs arbitrary: ys) (auto simp: result_simps)

lemma microgrid_blocks_virtual:
  assumes "microgrid_blocks mf m node = Inr b"
  defines "w \<equiv> (case em_coordination mf of None \<Rightarrow> 0 | Some c \<Rightarrow> dict_get (crd_pinned c) (ns_id node) 0)"
  shows "vp_b (gb_virtual b) = w"
    and "(vp_rP (gb_virtual b), vp_rQ (gb_virtual b)) =
         (case em_coordination mf of None \<Rightarrow> (0, 0) | Some c \<Rightarrow> if w > 0 then crd_reference c else (0, 0))"
proof -
  obtain p where p: "ns_plant node = Some p" using assms(1) by (cases "ns_plant node") (auto simp: microgrid_blocks_def)
  have "vp_b (gb_virtual b) = w \<and> (vp_rP (gb_virtual b), vp_rQ (gb_virtual b)) =
         (case em_coordination mf of None \<Rightarrow> (0, 0) | Some c \<Rightarrow> if w > 0 then crd_reference c else (0, 0))"
    using assms(1) by (auto simp: microgrid_blocks_def p Let_def bindR_eq_Inr virtual_check_def w_def
        split: if_splits option.splits)
  then show "vp_b (gb_virtual b) = w"
    and "(vp_rP (gb_virtual b), vp_rQ (gb_virtual b)) =
         (case em_coordination mf of None \<Rightarrow> (0, 0) | Some c \<Rightarrow> if w > 0 then crd_reference c else (0, 0))"
    by blast+
qed

lemma assignment_for_microgrid:
  assumes "assignment_for np mf i run = Inr a" and "as_microgrid a = Some b"
  obtains m node where "em_by_id mf i = Some node" "microgrid_blocks mf m node = Inr b"
proof -
  obtain node where n: "em_by_id mf i = Some node"
    using assms(1) by (cases "em_by_id mf i") (auto simp: assignment_for_def)
  obtain p g where pg: "controller_params_for np mf node run = Inr (p, g)"
    using assms(1) by (auto simp: assignment_for_def n bindR_eq_Inr)
  have "as_microgrid a = g"
    using assms(1)
    by (auto simp: assignment_for_def n bindR_eq_Inr pg assignment_check_def assignment.defs split: if_splits)
  then have "\<exists>m. microgrid_blocks mf m node = Inr b"
    using pg assms(2) by (auto simp: controller_params_for_def Let_def bindR_eq_Inr split: option.splits) (metis option.inject)
  then show ?thesis using that n by blast
qed

text \<open>The reference reaches the agents that are pinned and no other: in the assignments of a valid
  manifest, an agent that is not pinned has coefficient zero and the reference \<open>(0, 0)\<close>, and a
  pinned one has its coefficient, which is positive, and the declared reference.\<close>

theorem reference_confined_to_pins:
  assumes "manifest_check mf = Inr mf" and "assignments_for np mf run = Inr asg"
    and "(i, a) \<in> set asg" and "as_microgrid a = Some b"
  shows "case (case em_coordination mf of None \<Rightarrow> None | Some c \<Rightarrow> map_of (crd_pinned c) i) of
           None \<Rightarrow> vp_b (gb_virtual b) = 0 \<and> vp_rP (gb_virtual b) = 0 \<and> vp_rQ (gb_virtual b) = 0
         | Some w \<Rightarrow> vp_b (gb_virtual b) = w \<and> 0 < w \<and>
             (vp_rP (gb_virtual b), vp_rQ (gb_virtual b)) = crd_reference (the (em_coordination mf))"
proof -
  have "assignment_for np mf i run = Inr a"
    using traverse_mem [OF assms(2)[unfolded assignments_for_def] assms(3)] by (auto simp: bindR_eq_Inr)
  from assignment_for_microgrid [OF this assms(4)] obtain m node
    where node: "em_by_id mf i = Some node" "microgrid_blocks mf m node = Inr b" .
  have id: "ns_id node = i" using em_by_id_SomeD [OF node(1)] by simp
  note v = microgrid_blocks_virtual [OF node(2), unfolded id]
  have pos: "0 < w" if "em_coordination mf = Some c" "map_of (crd_pinned c) i = Some w" for c w
    using assms(1) that map_of_SomeD [OF that(2)] by (auto simp: result_simps coordination_check_def)
  show ?thesis using v pos by (auto simp: dict_get_def split: option.splits)
qed

lemma microgrid_blocks_total:
  assumes "microgrid_spec_check m" and "ns_plant node = Some p" and "node_plant_check p"
    and "case em_coordination mf of None \<Rightarrow> True | Some c \<Rightarrow> coordination_check c" and "0 < dt"
  shows "\<exists>b q. microgrid_blocks mf m node = Inr b \<and> microgrid_params dt b = Inr q"
proof -
  have eps: "0 \<le> eps_for m (ns_id node)"
  proof (cases "ms_eps m")
    case (EpsPer d)
    then have "\<forall>(k, x) \<in> set d. 0 \<le> x" using assms(1) by (simp add: microgrid_spec_check_def)
    then show ?thesis by (auto simp: eps_for_def EpsPer split: option.splits dest!: map_of_SomeD)
  qed (use assms(1) in \<open>simp add: eps_for_def microgrid_spec_check_def\<close>)
  have b: "0 \<le> w \<and> (w = 0 \<longrightarrow> \<not> 0 < w)"
    if "w = (case em_coordination mf of None \<Rightarrow> 0 | Some c \<Rightarrow> dict_get (crd_pinned c) (ns_id node) 0)" for w
    using assms(4) unfolding that
    by (fastforce simp: coordination_check_def dict_get_def split: option.splits dest: map_of_SomeD)
  show ?thesis
    using assms(1,3,5) eps b
    by (auto simp: microgrid_blocks_def assms(2) Let_def plant_check_def virtual_check_def adaptive_check_def
        lc_check_def TRIGGERS_def PROFILES_def microgrid_spec_check_def node_plant_check_def microgrid_params_def
        iface_check_def split: option.splits)
qed

text \<open>C19: What the hub accepts, every agent accepts: from a valid manifest whose nodes carry the
  emulator data its law needs, the hub derives one assignment per node, in order, and each passes
  the agent's own validation and builds its controller's parameters.\<close>

theorem assignments_accepted:
  assumes "manifest_check mf = Inr mf"
    and "cs_microgrid (em_controller mf) \<noteq> None \<longrightarrow> (\<forall>n \<in> set (em_nodes mf). ns_plant n \<noteq> None)"
  shows "\<exists>asg. assignments_for np mf run = Inr asg \<and> map fst asg = em_ids mf \<and>
           (\<forall>(i, a) \<in> set asg. as_node a = i \<and> assignment_check (assignment.truncate a) = Inr (assignment.truncate a) \<and>
              (\<exists>p. to_controller_params (assignment.truncate a) = Inr p))"
proof -
  note mf = assms(1)[unfolded manifest_check_eq]
  have one: "\<exists>a. assignment_for np mf (ns_id n) run = Inr a \<and> as_node a = ns_id n \<and>
      assignment_check (assignment.truncate a) = Inr (assignment.truncate a) \<and>
      (\<exists>p. to_controller_params (assignment.truncate a) = Inr p)" if "n \<in> set (em_nodes mf)" for n
  proof -
    have node: "em_by_id mf (ns_id n) = Some n" using mf that by (intro em_by_id_node) (auto simp: coherent_def)
    have chk: "node_spec_check n" "0 < cs_dt_s (em_controller mf)"
      using mf that by (auto simp: list_all_iff controller_spec_check_def)
    obtain p g where pg: "controller_params_for np mf n run = Inr (p, g)" "fp_dt p = cs_dt_s (em_controller mf)"
        "\<And>b. g = Some b \<Longrightarrow> \<exists>q. microgrid_params (cs_dt_s (em_controller mf)) b = Inr q"
    proof (cases "cs_microgrid (em_controller mf)")
      case None
      then show ?thesis using chk(2) that by (simp add: controller_params_for_def Let_def)
    next
      case (Some m)
      obtain pl where pl: "ns_plant n = Some pl" using assms(2) Some \<open>n \<in> _\<close> by auto
      have "node_plant_check pl" "microgrid_spec_check m"
        using chk(1) pl mf Some by (auto simp: node_spec_check_def controller_spec_check_def)
      then obtain b q where "microgrid_blocks mf m n = Inr b" "microgrid_params (cs_dt_s (em_controller mf)) b = Inr q"
        using microgrid_blocks_total [OF _ pl _ _ chk(2)] mf by blast
      then show ?thesis using chk(2) Some that [of "scalar_defaults (cs_dt_s (em_controller mf))" "Some b"]
        by (simp add: controller_params_for_def Let_def scalar_defaults_def)
    qed
    show ?thesis
      using chk pg by (cases g)
        (auto simp: assignment_for_def node assignment_check_def node_spec_check_def MAX_NODE_ID_def
          assignment.defs to_controller_params_def)
  qed
  define f where "f = (\<lambda>n :: node_spec. SOME a. assignment_for np mf (ns_id n) run = Inr a)"
  have f: "assignment_for np mf (ns_id n) run = Inr (f n)" if "n \<in> set (em_nodes mf)" for n
    using one [OF that] unfolding f_def by (metis (mono_tags, lifting) someI_ex)
  then have "assignments_for np mf run = Inr (map (\<lambda>n. (ns_id n, f n)) (em_nodes mf))"
    unfolding assignments_for_def by (intro traverse_all_Inr) simp
  then show ?thesis using one f by (auto simp: em_ids_def comp_def)
qed

subsection \<open>A concrete manifest\<close>

definition demo_grid_spec :: microgrid_spec where
  "demo_grid_spec =
     \<lparr>ms_interface = ''adaptive'', ms_profile = ''per'', ms_p_max = 10, ms_q_max = 12, ms_T_o = 30, ms_alpha_0 = 1,
      ms_delta_o = 1 / 8, ms_kappa_o = 1 / 1000, ms_xi = 1 / 40, ms_c_0 = 1 / 10, ms_mu_max = 10,
      ms_gamma = 1 / 400, ms_eps = EpsAll 0, ms_vartheta0 = 0, ms_T_c = 40, ms_beta_c = 2, ms_Phi = 3 / 1000,
      ms_terminal = True, ms_adapt_band = None\<rparr>"

definition demo_node :: "int \<Rightarrow> string \<Rightarrow> agent_type \<Rightarrow> node_spec" where
  "demo_node i ip t =
     \<lparr>ns_id = i, ns_ip = ip, ns_type = t, ns_enabled = True, ns_publish_period_s = 1, ns_neighbors = [],
      ns_plant = Some \<lparr>np_kappa = 1 / 3, np_S = (1, 2), np_X0 = (0, 0), np_z0 = (0, 0)\<rparr>\<rparr>"

definition demo_manifest :: manifest where
  "demo_manifest =
     \<lparr>em_name = ''demo'',
      em_nodes = [demo_node 1 ''10.0.0.1'' WIFI, demo_node 2 ''10.0.0.2'' WIFI, demo_node 3 ''10.0.0.3'' BRIDGE],
      em_controller = \<lparr>cs_name = ''microgrid_adaptive'', cs_dt_s = 1 / 5, cs_eta = 5 / 10 ^ 5, cs_gain_ij = 1 / 10,
         cs_alpha = 1 / 2, cs_delta = 1 / 100,
         cs_disturbance = \<lparr>dx_enabled = False, dx_noise_amplitude = 0, dx_noise_offset = 1 / 2, dx_beta = 0,
            dx_sine_amplitude = 0, dx_sine_frequency_hz = 0, dx_sine_phase_s = None, dx_period_samples = 1000\<rparr>,
         cs_microgrid = Some demo_grid_spec\<rparr>,
      em_radio = \<lparr>rs_adv_interval_ms = 100, rs_adv_interval_max_ms = None, rs_scan_interval_ms = 100,
         rs_scan_window_ms = 100, rs_channel_map = 7, rs_filter_duplicates = False, rs_passive_scan = True,
         rs_tx_power_dbm = None\<rparr>,
      em_structure = Some \<lparr>ss_generator = ''ring'', ss_params = RingParams (Some 3) 1 False None\<rparr>,
      em_coordination = Some \<lparr>crd_reference = (3, 2), crd_pinned = [(1, 1)]\<rparr>,
      em_events = [], em_seed = 7, em_ic_scheme = ''pcg64-v1''\<rparr>"

definition demo_numpy :: numpy where
  "demo_numpy = \<lparr>nu_seed = \<lambda>xs. sum_list xs mod 2 ^ 32, nu_uniform = \<lambda>s k lo hi. (lo + hi) / 2\<rparr>"

lemma demo_ips: "valid_ipv4 ''10.0.0.1''" "valid_ipv4 ''10.0.0.2''" "valid_ipv4 ''10.0.0.3''"
  "\<not> valid_ipv4 ''10.0.0''" "\<not> valid_ipv4 ''10.0.0.256''" "\<not> valid_ipv4 ''10.0.0.01''"
  by code_simp+

lemma demo_manifest_ok: "manifest_check demo_manifest = Inr demo_manifest"
  by (simp add: result_simps demo_manifest_def demo_node_def demo_grid_spec_def node_spec_check_def demo_ips
      no_self_loop_or_dupes_def node_plant_check_def controller_spec_check_def disturbance_spec_check_def
      microgrid_spec_check_def radio_spec_check_def in_range_def coordination_check_def coherent_def em_ids_def
      MAX_NODE_ID_def)

lemma demo_ids: "em_ids demo_manifest = [1, 2, 3]"
  by (simp add: demo_manifest_def demo_node_def em_ids_def)

lemma demo_ring: "generate ''ring'' (RingParams (Some 3) 1 False None) = Inr [(1, [3, 2]), (2, [1, 3]), (3, [2, 1])]"
  by code_simp

lemma demo_fields:
  "em_structure demo_manifest = Some \<lparr>ss_generator = ''ring'', ss_params = RingParams (Some 3) 1 False None\<rparr>"
  "\<forall>n \<in> set (em_nodes demo_manifest). ns_neighbors n = [] \<and> ns_plant n \<noteq> None"
  "cs_microgrid (em_controller demo_manifest) = Some demo_grid_spec"
  "em_coordination demo_manifest = Some \<lparr>crd_reference = (3, 2), crd_pinned = [(1, 1)]\<rparr>"
  by (simp_all add: demo_manifest_def demo_node_def)

theorem structured_manifest_loads_witness:
  "\<exists>m. load_manifest demo_manifest = Inr m \<and> em_ids m = [1, 2, 3] \<and>
     (\<forall>n \<in> set (em_nodes m). ns_id n = 2 \<longrightarrow> 1 \<in> set (ns_neighbors n))"
proof -
  have "load_manifest demo_manifest = Inr (with_graph demo_manifest [(1, [3, 2]), (2, [1, 3]), (3, [2, 1])]) \<and>
      (\<forall>n \<in> set (em_nodes (with_graph demo_manifest [(1, [3, 2]), (2, [1, 3]), (3, [2, 1])])).
         \<forall>j. j \<in> set (ns_neighbors n) \<longleftrightarrow> (j, ns_id n) \<in> reads [(1, [3, 2]), (2, [1, 3]), (3, [2, 1])])"
    by (rule structured_manifest_loads [OF demo_fields(1)])
      (use demo_ring demo_ids demo_manifest_ok demo_fields(2) in auto)
  moreover have "(1, 2) \<in> reads [(1, [3, 2]), (2, [1, 3]), (3, [2, 1])]" by (auto simp: reads_def)
  ultimately show ?thesis by (auto simp: demo_ids)
qed

theorem assignments_accepted_witness:
  "\<exists>asg. assignments_for demo_numpy demo_manifest 0 = Inr asg \<and> map fst asg = [1, 2, 3]"
  using assignments_accepted [OF demo_manifest_ok, of demo_numpy 0] demo_fields(2) by (auto simp: demo_ids)

lemma demo_assignments:
  obtains a1 a2 a3 b1 b2 b3 where
    "assignments_for demo_numpy demo_manifest 0 = Inr [(1, a1), (2, a2), (3, a3)]"
    "as_microgrid a1 = Some b1" "as_microgrid a2 = Some b2" "as_microgrid a3 = Some b3"
proof -
  have "\<exists>a1 a2 a3 b1 b2 b3. assignments_for demo_numpy demo_manifest 0 = Inr [(1, a1), (2, a2), (3, a3)] \<and>
    as_microgrid a1 = Some b1 \<and> as_microgrid a2 = Some b2 \<and> as_microgrid a3 = Some b3"
    by (simp add: assignments_for_def assignment_for_def em_by_id_def demo_manifest_def demo_node_def
        controller_params_for_def microgrid_blocks_def plant_check_def virtual_check_def adaptive_check_def
        demo_grid_spec_def PROFILES_def TRIGGERS_def dict_get_def eps_for_def Let_def assignment_check_def
        scalar_defaults_def assignment.defs)
  then show ?thesis using that by blast
qed

theorem reference_confined_to_pins_witness:
  "\<exists>a1 a2 a3 b1 b2. assignments_for demo_numpy demo_manifest 0 = Inr [(1, a1), (2, a2), (3, a3)] \<and>
     as_microgrid a1 = Some b1 \<and> as_microgrid a2 = Some b2 \<and>
     vp_b (gb_virtual b1) = 1 \<and> vp_rP (gb_virtual b1) = 3 \<and> vp_b (gb_virtual b2) = 0 \<and> vp_rP (gb_virtual b2) = 0"
proof (rule demo_assignments)
  fix a1 a2 a3 b1 b2 b3
  assume a: "assignments_for demo_numpy demo_manifest 0 = Inr [(1, a1), (2, a2), (3, a3)]"
    "as_microgrid a1 = Some b1" "as_microgrid a2 = Some b2"
  have "(1, a1) \<in> set [(1, a1), (2, a2), (3, a3)]" "(2, a2) \<in> set [(1, a1), (2, a2), (3, a3)]" by auto
  from reference_confined_to_pins [OF demo_manifest_ok a(1) this(1) a(2)]
    reference_confined_to_pins [OF demo_manifest_ok a(1) this(2) a(3)] a
  show ?thesis by (auto simp: demo_fields)
qed

end
