(* ===== verification/Bytes.thy ===== *)
theory Bytes
  imports Prelude
begin

section \<open>Bytes and the struct module\<close>

text \<open>
  Byte strings and what the source uses of Python's \<^verbatim>\<open>struct\<close> module. A \<^verbatim>\<open>bytes\<close> value
  is a list of 8-bit words. \<open>le_bytes n x\<close> is the little-endian encoding of \<open>x mod 256 ^ n\<close>
  and \<open>le_int\<close> reads it back; \<open>to_bytes_le\<close> is \<^verbatim>\<open>int.to_bytes(n, "little")\<close> with its
  \<^verbatim>\<open>OverflowError\<close>. A format string with prefix \<open><\<close> is a list of field codes;
  \<open>struct_pack\<close> and \<open>struct_unpack\<close> are \<^verbatim>\<open>Struct.pack\<close> and \<^verbatim>\<open>Struct.unpack_from(data, 0)\<close>,
  which raise \<^verbatim>\<open>struct.error\<close> on a value out of range or a short buffer. The two
  round-trip lemmas are proved once here and serve every layout of the program.
\<close>

type_synonym byte = "8 word"
type_synonym bytes = "byte list"

definition byte_val :: "byte \<Rightarrow> int" where
  "byte_val b = uint b"

definition byte_of :: "int \<Rightarrow> byte" where
  "byte_of x = word_of_int x"

lemma byte_val_bounds [simp]: "0 \<le> byte_val b" "byte_val b < 256" "byte_val b \<le> 255"
  using uint_lt2p [of b] by (simp_all add: byte_val_def)

lemma byte_val_of: "byte_val (byte_of x) = x mod 256"
  by (simp add: byte_val_def byte_of_def uint_word_of_int take_bit_eq_mod)

lemma byte_val_of_id [simp]: "0 \<le> x \<Longrightarrow> x < 256 \<Longrightarrow> byte_val (byte_of x) = x"
  by (simp add: byte_val_of)

lemma byte_of_val [simp]: "byte_of (byte_val b) = b"
  by (simp add: byte_val_def byte_of_def)

lemma byte_val_inject [simp]: "byte_val a = byte_val b \<longleftrightarrow> a = b"
  by (metis byte_of_val)

lemma byte_of_mod [simp]: "byte_of (x mod 256) = byte_of x"
  by (metis byte_of_val byte_val_of)

lemma byte_of_eq_iff: "byte_of x = byte_of y \<longleftrightarrow> x mod 256 = y mod 256"
  by (metis byte_of_mod byte_val_of)

subsection \<open>Little-endian integers\<close>

primrec le_bytes :: "nat \<Rightarrow> int \<Rightarrow> bytes" where
  "le_bytes 0 x = []"
| "le_bytes (Suc n) x = byte_of x # le_bytes n (x div 256)"

primrec le_int :: "bytes \<Rightarrow> int" where
  "le_int [] = 0"
| "le_int (b # bs) = byte_val b + 256 * le_int bs"

lemma length_le_bytes [simp, byte_simps]: "length (le_bytes n x) = n"
  by (induction n arbitrary: x) auto

lemma le_int_nonneg [simp]: "0 \<le> le_int bs"
  by (induction bs) auto

lemma le_int_less: "le_int bs < 256 ^ length bs"
proof (induction bs)
  case Nil
  then show ?case by simp
next
  case (Cons b bs)
  obtain k :: int where k: "k = 256 ^ length bs" by simp
  have "byte_val b < 256" by simp
  moreover have "le_int bs + 1 \<le> k" using Cons.IH by (simp add: k)
  ultimately have "byte_val b + 256 * le_int bs < 256 * k" by arith
  then show ?case by (simp add: k)
qed

lemma le_int_le_bytes [byte_simps]: "le_int (le_bytes n x) = x mod 256 ^ n"
proof (induction n arbitrary: x)
  case 0
  then show ?case by simp
next
  case (Suc n)
  have "x mod (256 * 256 ^ n) = 256 * (x div 256 mod 256 ^ n) + x mod 256"
    by (rule zmod_zmult2_eq) simp
  then show ?case by (simp add: Suc.IH byte_val_of)
qed

lemma le_bytes_le_int [simp, byte_simps]: "le_bytes (length bs) (le_int bs) = bs"
proof (induction bs)
  case Nil
  then show ?case by simp
next
  case (Cons b bs)
  have "(byte_val b + 256 * le_int bs) div 256 = le_int bs"
    by (simp add: div_add1_eq div_pos_pos_trivial)
  moreover have "byte_of (byte_val b + 256 * le_int bs) = b"
  proof -
    have "(byte_val b + 256 * le_int bs) mod 256 = byte_val b mod 256" by simp
    then show ?thesis by (metis byte_of_eq_iff byte_of_val)
  qed
  ultimately show ?case by (simp add: Cons.IH)
qed

lemma le_int_append: "le_int (xs @ ys) = le_int xs + 256 ^ length xs * le_int ys"
  by (induction xs) (auto simp: algebra_simps)

lemma le_int_inject: "length xs = length ys \<Longrightarrow> le_int xs = le_int ys \<longleftrightarrow> xs = ys"
  by (metis le_bytes_le_int)

definition to_bytes_le :: "nat \<Rightarrow> int \<Rightarrow> bytes result" where
  "to_bytes_le n x = (if 0 \<le> x \<and> x < 256 ^ n then Inr (le_bytes n x) else Inl OverflowError)"

lemma to_bytes_le_Inr [simp]: "0 \<le> x \<Longrightarrow> x < 256 ^ n \<Longrightarrow> to_bytes_le n x = Inr (le_bytes n x)"
  by (simp add: to_bytes_le_def)

text \<open>\<^verbatim>\<open>bytes([x, y, ...])\<close>: every item must be a byte.\<close>

definition bytes_of_ints :: "int list \<Rightarrow> bytes result" where
  "bytes_of_ints xs =
     (if list_all (\<lambda>x. 0 \<le> x \<and> x < 256) xs then Inr (map byte_of xs) else Inl ValueError)"

subsection \<open>Two's complement\<close>

definition signed_of :: "nat \<Rightarrow> int \<Rightarrow> int" where
  "signed_of n u = (if 2 * u < 256 ^ n then u else u - 256 ^ n)"

lemma signed_of_mod:
  assumes "- (256 ^ n) \<le> 2 * x" and "2 * x < 256 ^ n"
  shows "signed_of n (x mod 256 ^ n) = x"
proof (cases "0 \<le> x")
  case True
  with assms have "x mod 256 ^ n = x" by (intro mod_pos_pos_trivial) auto
  with assms show ?thesis by (simp add: signed_of_def)
next
  case False
  then have "x mod 256 ^ n = (x + 256 ^ n) mod 256 ^ n" by simp
  also have "\<dots> = x + 256 ^ n" using assms False by (intro mod_pos_pos_trivial) auto
  finally show ?thesis using assms False by (simp add: signed_of_def)
qed

lemma signed_of_bounds:
  assumes "0 \<le> u" and "u < 256 ^ n"
  shows "- (256 ^ n) \<le> 2 * signed_of n u" and "2 * signed_of n u < 256 ^ n"
  using assms by (auto simp: signed_of_def)

lemma signed_of_mod_back:
  assumes "0 \<le> u" and "u < 256 ^ n"
  shows "signed_of n u mod 256 ^ n = u"
  using assms by (auto simp: signed_of_def)

subsection \<open>Struct formats\<close>

datatype fmt = FB | Fb | FH | FI | Fi | FQ

fun fmt_size :: "fmt \<Rightarrow> nat" where
  "fmt_size FB = 1"
| "fmt_size Fb = 1"
| "fmt_size FH = 2"
| "fmt_size FI = 4"
| "fmt_size Fi = 4"
| "fmt_size FQ = 8"

fun fmt_signed :: "fmt \<Rightarrow> bool" where
  "fmt_signed Fb = True"
| "fmt_signed Fi = True"
| "fmt_signed _ = False"

definition fits :: "fmt \<Rightarrow> int \<Rightarrow> bool" where
  "fits f v \<longleftrightarrow>
     (if fmt_signed f then - (256 ^ fmt_size f) \<le> 2 * v \<and> 2 * v < 256 ^ fmt_size f
      else 0 \<le> v \<and> v < 256 ^ fmt_size f)"

definition pack1 :: "fmt \<Rightarrow> int \<Rightarrow> bytes result" where
  "pack1 f v = (if fits f v then Inr (le_bytes (fmt_size f) v) else Inl StructError)"

definition unpack1 :: "fmt \<Rightarrow> bytes \<Rightarrow> int" where
  "unpack1 f bs =
     (let u = le_int bs in if fmt_signed f then signed_of (fmt_size f) u else u)"

definition calcsize :: "fmt list \<Rightarrow> nat" where
  "calcsize fs = sum_list (map fmt_size fs)"

fun struct_pack :: "fmt list \<Rightarrow> int list \<Rightarrow> bytes result" where
  "struct_pack [] [] = Inr []"
| "struct_pack (f # fs) (v # vs) =
     bindR (pack1 f v) (\<lambda>b. bindR (struct_pack fs vs) (\<lambda>bs. Inr (b @ bs)))"
| "struct_pack _ _ = Inl StructError"

fun unpack_fields :: "fmt list \<Rightarrow> bytes \<Rightarrow> int list" where
  "unpack_fields [] bs = []"
| "unpack_fields (f # fs) bs =
     unpack1 f (take (fmt_size f) bs) # unpack_fields fs (drop (fmt_size f) bs)"

definition struct_unpack :: "fmt list \<Rightarrow> bytes \<Rightarrow> int list result" where
  "struct_unpack fs bs =
     (if calcsize fs \<le> length bs then Inr (unpack_fields fs bs) else Inl StructError)"

definition pack_raw :: "fmt list \<Rightarrow> int list \<Rightarrow> bytes" where
  "pack_raw fs vs = concat (map (\<lambda>(f, v). le_bytes (fmt_size f) v) (zip fs vs))"

lemma fits_simps [simp]:
  "fits FB v \<longleftrightarrow> 0 \<le> v \<and> v < 256"
  "fits Fb v \<longleftrightarrow> - 128 \<le> v \<and> v < 128"
  "fits FH v \<longleftrightarrow> 0 \<le> v \<and> v < 65536"
  "fits FI v \<longleftrightarrow> 0 \<le> v \<and> v < 4294967296"
  "fits Fi v \<longleftrightarrow> - 2147483648 \<le> v \<and> v < 2147483648"
  "fits FQ v \<longleftrightarrow> 0 \<le> v \<and> v < 18446744073709551616"
  by (auto simp: fits_def)

lemma unpack1_pack: "fits f v \<Longrightarrow> unpack1 f (le_bytes (fmt_size f) v) = v"
  by (auto simp: unpack1_def fits_def le_int_le_bytes signed_of_mod Let_def split: if_splits)

lemma unpack1_fits:
  assumes "length bs = fmt_size f"
  shows "fits f (unpack1 f bs)"
proof -
  have "0 \<le> le_int bs" and "le_int bs < 256 ^ fmt_size f"
    using le_int_less [of bs] assms by simp_all
  then show ?thesis
    using signed_of_bounds [of "le_int bs" "fmt_size f"] by (auto simp: unpack1_def fits_def Let_def)
qed

lemma pack1_unpack1:
  assumes "length bs = fmt_size f"
  shows "le_bytes (fmt_size f) (unpack1 f bs) = bs"
proof -
  have u: "0 \<le> le_int bs" "le_int bs < 256 ^ fmt_size f"
    using le_int_less [of bs] assms by simp_all
  have "le_int (le_bytes (fmt_size f) (unpack1 f bs)) = le_int bs"
    using u signed_of_mod_back [OF u] by (auto simp: le_int_le_bytes unpack1_def Let_def)
  with assms show ?thesis by (simp add: le_int_inject)
qed

lemma calcsize_simps [simp]: "calcsize [] = 0" "calcsize (f # fs) = fmt_size f + calcsize fs"
  by (simp_all add: calcsize_def)

lemma struct_pack_Inr_iff:
  "struct_pack fs vs = Inr bs \<longleftrightarrow> list_all2 fits fs vs \<and> bs = pack_raw fs vs"
  by (induction fs vs arbitrary: bs rule: struct_pack.induct)
     (auto simp: result_simps pack1_def pack_raw_def split: if_splits)

lemma struct_pack_ok [simp]: "list_all2 fits fs vs \<Longrightarrow> struct_pack fs vs = Inr (pack_raw fs vs)"
  by (simp add: struct_pack_Inr_iff)

lemma struct_pack_error: "\<not> list_all2 fits fs vs \<Longrightarrow> struct_pack fs vs = Inl StructError"
  by (induction fs vs rule: struct_pack.induct) (auto simp: pack1_def)

lemma length_pack_raw [simp, byte_simps]:
  "length fs = length vs \<Longrightarrow> length (pack_raw fs vs) = calcsize fs"
  by (induction fs vs rule: list_induct2) (auto simp: pack_raw_def)

lemma unpack_pack_raw:
  "list_all2 fits fs vs \<Longrightarrow> unpack_fields fs (pack_raw fs vs @ rest) = vs"
proof (induction fs vs rule: list_all2_induct)
  case Nil
  then show ?case by simp
next
  case (Cons f fs v vs)
  then show ?case by (simp add: pack_raw_def unpack1_pack)
qed

lemma struct_unpack_pack [simp]:
  assumes "list_all2 fits fs vs"
  shows "struct_unpack fs (pack_raw fs vs @ rest) = Inr vs"
proof -
  from assms have "length fs = length vs" by (rule list_all2_lengthD)
  then show ?thesis by (simp add: struct_unpack_def unpack_pack_raw assms)
qed

lemma struct_unpack_pack0 [simp]: "list_all2 fits fs vs \<Longrightarrow> struct_unpack fs (pack_raw fs vs) = Inr vs"
  using struct_unpack_pack [of fs vs "[]"] by simp

lemma length_unpack_fields [simp]: "length (unpack_fields fs bs) = length fs"
  by (induction fs bs rule: unpack_fields.induct) auto

lemma unpack_fields_fits:
  "calcsize fs \<le> length bs \<Longrightarrow> list_all2 fits fs (unpack_fields fs bs)"
  by (induction fs bs rule: unpack_fields.induct) (auto simp: unpack1_fits)

lemma struct_unpack_Inr:
  "struct_unpack fs bs = Inr vs \<Longrightarrow> list_all2 fits fs vs \<and> calcsize fs \<le> length bs"
  by (auto simp: struct_unpack_def unpack_fields_fits split: if_splits)

lemma pack_unpack_fields:
  "calcsize fs \<le> length bs \<Longrightarrow> pack_raw fs (unpack_fields fs bs) = take (calcsize fs) bs"
proof (induction fs bs rule: unpack_fields.induct)
  case (1 bs)
  then show ?case by (simp add: pack_raw_def)
next
  case (2 f fs bs)
  then show ?case
    by (simp add: pack_raw_def pack1_unpack1 take_add)
qed

lemma struct_unpack_take: "struct_unpack fs bs = Inr vs \<Longrightarrow> pack_raw fs vs = take (calcsize fs) bs"
  by (auto simp: struct_unpack_def pack_unpack_fields split: if_splits)

lemma pack_raw_Cons: "pack_raw (f # fs) (v # vs) = le_bytes (fmt_size f) v @ pack_raw fs vs"
  by (simp add: pack_raw_def)

lemma pack_raw_Nil [simp]: "pack_raw [] vs = []"
  by (simp add: pack_raw_def)

lemma le_bytes_1 [simp]: "le_bytes (Suc 0) x = [byte_of x]" "le_bytes 1 x = [byte_of x]"
  by simp_all

text \<open>Packing is reasoned about through \<open>struct_pack_ok\<close>, not unfolded field by field.\<close>

declare struct_pack.simps [simp del]

end
