(* ===== verification/Codec.thy ===== *)
theory Codec
  imports Bytes Numeric
begin

unbundle bit_operations_syntax

section \<open>The state packet and its wire codec (wire/codec.py)\<close>

text \<open>
  \<open>state_packet\<close> is the frozen dataclass \<^verbatim>\<open>StatePacket\<close>; \<open>post_init\<close> is its constructor
  with \<^verbatim>\<open>__post_init__\<close>, which rejects a value the wire cannot carry. A bare int
  \<^verbatim>\<open>vstate\<close> is the one-element list. \<open>encode\<close> and \<open>decode\<close> are the v1 and v2 codec,
  \<open>encode_v0\<close> and \<open>decode_v0\<close> the legacy format, \<open>decode_any\<close> the receiver that accepts
  all three, and \<open>encode_manufacturer_data\<close> adds the company identifier of a BLE advert.
  The lemmas show the round trips, that a decoder raises nothing but \<^verbatim>\<open>DecodeError\<close>, and
  that a decoded frame re-encodes to itself up to the unused flag bits.
\<close>

record state_packet =
  pk_node :: int
  pk_vstate :: "int list"
  pk_seq :: int
  pk_tx :: int
  pk_enabled :: bool
  pk_dist :: bool

definition VERSION :: int where "VERSION = 1"
definition V2_VERSION :: int where "V2_VERSION = 2"
definition PAYLOAD_SIZE :: nat where "PAYLOAD_SIZE = 16"
definition V2_PAYLOAD_SIZE :: nat where "V2_PAYLOAD_SIZE = 19"
definition COMPANY_ID :: int where "COMPANY_ID = 89"
definition V0_PAYLOAD_SIZE :: nat where "V0_PAYLOAD_SIZE = 6"
definition V0_FLAG_ENABLED :: int where "V0_FLAG_ENABLED = 127"
definition V0_FLAG_DISABLED :: int where "V0_FLAG_DISABLED = 112"

definition HEAD :: "fmt list" where "HEAD = [FB, FB, FB, FB, FH, Fi]"
definition HEAD2 :: "fmt list" where "HEAD2 = [FB, FB, FB, FH, Fi, Fi]"
definition HEAD0 :: "fmt list" where "HEAD0 = [FB, FB, Fi]"

lemmas codec_consts = VERSION_def V2_VERSION_def PAYLOAD_SIZE_def V2_PAYLOAD_SIZE_def COMPANY_ID_def
  V0_PAYLOAD_SIZE_def V0_FLAG_ENABLED_def V0_FLAG_DISABLED_def HEAD_def HEAD2_def HEAD0_def

definition int32_ok :: "int \<Rightarrow> bool" where
  "int32_ok v \<longleftrightarrow> - 2147483648 \<le> v \<and> v \<le> 2147483647"

definition post_init ::
  "int \<Rightarrow> int list \<Rightarrow> int \<Rightarrow> int \<Rightarrow> bool \<Rightarrow> bool \<Rightarrow> state_packet result" where
  "post_init node vs seq tx en disturbed =
     (if \<not> (1 \<le> node \<and> node \<le> 255) then Inl ValueError
      else if length vs \<notin> {1, 2} then Inl ValueError
      else if \<not> list_all int32_ok vs then Inl ValueError
      else if \<not> (0 \<le> seq \<and> seq \<le> 65535) then Inl ValueError
      else if \<not> (0 \<le> tx \<and> tx \<le> 2 ^ 48 - 1) then Inl ValueError
      else Inr \<lparr>pk_node = node, pk_vstate = vs, pk_seq = seq, pk_tx = tx,
                pk_enabled = en, pk_dist = disturbed\<rparr>)"

definition from_state ::
  "int \<Rightarrow> real list \<Rightarrow> int \<Rightarrow> int \<Rightarrow> bool \<Rightarrow> bool \<Rightarrow> state_packet result" where
  "from_state node vs seq tx en disturbed = post_init node (map quantize vs) seq tx en disturbed"

definition version :: "state_packet \<Rightarrow> int" where
  "version p = (if length (pk_vstate p) = 1 then VERSION else V2_VERSION)"

definition vstate_float :: "state_packet \<Rightarrow> real list" where
  "vstate_float p = map dequantize (pk_vstate p)"

definition flags_of :: "bool \<Rightarrow> bool \<Rightarrow> int" where
  "flags_of en disturbed = (if en then 1 else 0) OR (if disturbed then 2 else 0)"

definition encode :: "state_packet \<Rightarrow> bytes result" where
  "encode p =
     (let flags = flags_of (pk_enabled p) (pk_dist p) in
      bindR (case pk_vstate p of
               [v] \<Rightarrow> struct_pack HEAD [VERSION, flags, pk_node p, 0, pk_seq p, v]
             | v # w # _ \<Rightarrow> struct_pack HEAD2 [V2_VERSION, flags, pk_node p, pk_seq p, v, w]
             | [] \<Rightarrow> Inl IndexError)
        (\<lambda>out. bindR (to_bytes_le 6 (pk_tx p)) (\<lambda>ts. Inr (out @ ts))))"

definition decode_v2 :: "bytes \<Rightarrow> state_packet result" where
  "decode_v2 data =
     bindR (struct_unpack HEAD2 data) (\<lambda>fs. case fs of
       [ver, flags, node, seq, zP, zQ] \<Rightarrow>
         if ver \<noteq> V2_VERSION then Inl DecodeError
         else if node = 0 then Inl DecodeError
         else post_init node [zP, zQ] seq (le_int (take 6 (drop 13 data)))
                (flags AND 1 \<noteq> 0) (flags AND 2 \<noteq> 0)
     | _ \<Rightarrow> Inl ValueError)"

definition decode :: "bytes \<Rightarrow> state_packet result" where
  "decode data =
     (if length data = V2_PAYLOAD_SIZE \<and> take 1 data = [byte_of V2_VERSION] then decode_v2 data
      else if length data \<noteq> PAYLOAD_SIZE then Inl DecodeError
      else bindR (struct_unpack HEAD data) (\<lambda>fs. case fs of
       [ver, flags, node, reserved, seq, v] \<Rightarrow>
         if ver \<noteq> VERSION then Inl DecodeError
         else if reserved \<noteq> 0 then Inl DecodeError
         else if node = 0 then Inl DecodeError
         else post_init node [v] seq (le_int (take 6 (drop 10 data)))
                (flags AND 1 \<noteq> 0) (flags AND 2 \<noteq> 0)
     | _ \<Rightarrow> Inl ValueError))"

definition encode_manufacturer_data :: "state_packet \<Rightarrow> bytes result" where
  "encode_manufacturer_data p =
     bindR (to_bytes_le 2 COMPANY_ID) (\<lambda>c. bindR (encode p) (\<lambda>b. Inr (c @ b)))"

definition decode_manufacturer_data :: "bytes \<Rightarrow> int \<Rightarrow> state_packet result" where
  "decode_manufacturer_data data company =
     (if length data < 2 then Inl DecodeError
      else if le_int (take 2 data) \<noteq> company then Inl DecodeError
      else decode (drop 2 data))"

definition encode_v0 :: "int \<Rightarrow> int \<Rightarrow> bool \<Rightarrow> bytes result" where
  "encode_v0 node v en =
     (if \<not> int32_ok v then Inl ValueError
      else struct_pack HEAD0 [if en then V0_FLAG_ENABLED else V0_FLAG_DISABLED, node, v])"

definition decode_v0 :: "bytes \<Rightarrow> state_packet result" where
  "decode_v0 data =
     (if length data < V0_PAYLOAD_SIZE then Inl DecodeError
      else bindR (struct_unpack HEAD0 data) (\<lambda>fs. case fs of
       [flag, node, v] \<Rightarrow>
         if flag \<notin> {V0_FLAG_ENABLED, V0_FLAG_DISABLED} then Inl DecodeError
         else if node = 0 then Inl DecodeError
         else post_init node [v] 0 0 (flag = V0_FLAG_ENABLED) False
     | _ \<Rightarrow> Inl ValueError))"

definition decode_any :: "bytes \<Rightarrow> state_packet result" where
  "decode_any data =
     (case data of
        [] \<Rightarrow> Inl DecodeError
      | b # _ \<Rightarrow>
          if byte_val b = V2_VERSION \<and> length data = V2_PAYLOAD_SIZE then decode data
          else if byte_val b = VERSION \<and> length data = PAYLOAD_SIZE then decode data
          else if byte_val b \<in> {V0_FLAG_ENABLED, V0_FLAG_DISABLED} then decode_v0 data
          else Inl DecodeError)"

subsection \<open>Well-formed packets\<close>

definition packet_ok :: "state_packet \<Rightarrow> bool" where
  "packet_ok p \<longleftrightarrow>
     1 \<le> pk_node p \<and> pk_node p \<le> 255 \<and> length (pk_vstate p) \<in> {1, 2} \<and>
     list_all int32_ok (pk_vstate p) \<and> 0 \<le> pk_seq p \<and> pk_seq p \<le> 65535 \<and>
     0 \<le> pk_tx p \<and> pk_tx p \<le> 2 ^ 48 - 1"

lemma post_init_Inr_iff:
  "post_init n vs s t e d = Inr p \<longleftrightarrow>
   packet_ok p \<and> p = \<lparr>pk_node = n, pk_vstate = vs, pk_seq = s, pk_tx = t, pk_enabled = e, pk_dist = d\<rparr>"
  by (auto simp: post_init_def packet_ok_def)

lemma post_init_ok:
  "packet_ok \<lparr>pk_node = n, pk_vstate = vs, pk_seq = s, pk_tx = t, pk_enabled = e, pk_dist = d\<rparr> \<Longrightarrow>
   post_init n vs s t e d =
   Inr \<lparr>pk_node = n, pk_vstate = vs, pk_seq = s, pk_tx = t, pk_enabled = e, pk_dist = d\<rparr>"
  by (simp add: post_init_Inr_iff)

lemma post_init_Inl: "post_init n vs s t e d = Inl x \<Longrightarrow> x = ValueError"
  by (auto simp: post_init_def split: if_splits)

lemma packet_ok_vstate:
  assumes "packet_ok p"
  obtains (one) v where "pk_vstate p = [v]" "int32_ok v"
  | (two) v w where "pk_vstate p = [v, w]" "int32_ok v" "int32_ok w"
  using assms by (cases "pk_vstate p"; cases "tl (pk_vstate p)") (auto simp: packet_ok_def)

lemma flags_of_range: "0 \<le> flags_of e d \<and> flags_of e d \<le> 3"
  by (simp add: flags_of_def)

lemma flags_of_bits [simp]: "flags_of e d AND 1 \<noteq> 0 \<longleftrightarrow> e" "flags_of e d AND 2 \<noteq> 0 \<longleftrightarrow> d"
  by (simp_all add: flags_of_def)

lemma bit_two_three: "bit (2 :: int) n \<longleftrightarrow> n = 1" "bit (3 :: int) n \<longleftrightarrow> n = 0 \<or> n = 1"
proof -
  have "(2 :: int) = 2 ^ 1" by simp
  then show "bit (2 :: int) n \<longleftrightarrow> n = 1" by (metis bit_exp_iff possible_bit_int)
  have "(3 :: int) = mask 2" by (simp add: mask_eq_exp_minus_1)
  then have "bit (3 :: int) n \<longleftrightarrow> n < 2" by (simp only: bit_mask_iff possible_bit_int simp_thms)
  then show "bit (3 :: int) n \<longleftrightarrow> n = 0 \<or> n = 1" by auto
qed

lemma flags_of_back: "flags_of (f AND 1 \<noteq> 0) (f AND 2 \<noteq> 0) = f AND 3"
proof -
  have 1: "f AND 1 = (if bit f 0 then 1 else 0)" by (simp add: and_one_eq mod_2_eq_odd bit_0)
  have 2: "f AND 2 = (if bit f 1 then 2 else 0)"
    by (rule bit_eqI) (auto simp: bit_and_iff bit_two_three)
  have "f AND 3 = (if bit f 0 then 1 else 0) OR (if bit f 1 then 2 else 0)"
    by (rule bit_eqI) (auto simp: bit_and_iff bit_or_iff bit_two_three bit_1_iff intro: gr0I)
  then show ?thesis by (simp add: flags_of_def 1 2)
qed

subsection \<open>Encoding\<close>

text \<open>The frame of a well-formed packet, without the error branches.\<close>

definition frame_of :: "state_packet \<Rightarrow> bytes" where
  "frame_of p =
     (case pk_vstate p of
        [v] \<Rightarrow> pack_raw HEAD [VERSION, flags_of (pk_enabled p) (pk_dist p), pk_node p, 0, pk_seq p, v]
      | v # w # _ \<Rightarrow>
          pack_raw HEAD2 [V2_VERSION, flags_of (pk_enabled p) (pk_dist p), pk_node p, pk_seq p, v, w]
      | [] \<Rightarrow> [])
     @ le_bytes 6 (pk_tx p)"

lemma encode_ok [simp]:
  assumes "packet_ok p"
  shows "encode p = Inr (frame_of p)"
  using assms flags_of_range [of "pk_enabled p" "pk_dist p"]
  by (cases rule: packet_ok_vstate [OF assms])
     (auto simp: encode_def frame_of_def Let_def codec_consts int32_ok_def packet_ok_def)

lemma length_frame_of:
  "packet_ok p \<Longrightarrow>
   length (frame_of p) = (if length (pk_vstate p) = 1 then PAYLOAD_SIZE else V2_PAYLOAD_SIZE)"
  by (erule packet_ok_vstate) (simp_all add: frame_of_def codec_consts)

lemma frame_of_first:
  assumes "packet_ok p"
  shows "\<exists>r. frame_of p = byte_of (version p) # r"
  by (cases rule: packet_ok_vstate [OF assms])
     (simp_all add: frame_of_def HEAD_def HEAD2_def pack_raw_Cons version_def)

lemma decode_frame:
  assumes "packet_ok p"
  shows "decode (frame_of p) = Inr p"
  using assms
proof (cases rule: packet_ok_vstate)
  case (one v)
  have fit: "list_all2 fits HEAD [VERSION, flags_of (pk_enabled p) (pk_dist p), pk_node p, 0, pk_seq p, v]"
    using assms one flags_of_range [of "pk_enabled p" "pk_dist p"]
    by (auto simp: packet_ok_def int32_ok_def codec_consts)
  have tx: "pk_tx p mod 256 ^ 6 = pk_tx p"
    using assms by (intro mod_pos_pos_trivial) (auto simp: packet_ok_def)
  have "length (frame_of p) = PAYLOAD_SIZE" using one by (simp add: length_frame_of assms)
  moreover have "post_init (pk_node p) [v] (pk_seq p) (pk_tx p) (pk_enabled p) (pk_dist p) = Inr p"
    using assms one by (auto simp: post_init_Inr_iff)
  moreover have "pk_node p \<noteq> 0" using assms by (auto simp: packet_ok_def)
  ultimately show ?thesis using fit tx one
    by (simp add: decode_def frame_of_def le_int_le_bytes)
       (simp add: codec_consts le_int_le_bytes)
next
  case (two v w)
  have fit: "list_all2 fits HEAD2 [V2_VERSION, flags_of (pk_enabled p) (pk_dist p), pk_node p, pk_seq p, v, w]"
    using assms two flags_of_range [of "pk_enabled p" "pk_dist p"]
    by (auto simp: packet_ok_def int32_ok_def codec_consts)
  have tx: "pk_tx p mod 256 ^ 6 = pk_tx p"
    using assms by (intro mod_pos_pos_trivial) (auto simp: packet_ok_def)
  have "length (frame_of p) = V2_PAYLOAD_SIZE" using two by (simp add: length_frame_of assms)
  moreover have "take 1 (frame_of p) = [byte_of V2_VERSION]"
    using frame_of_first [OF assms] two by (auto simp: version_def)
  moreover have "post_init (pk_node p) [v, w] (pk_seq p) (pk_tx p) (pk_enabled p) (pk_dist p) = Inr p"
    using assms two by (auto simp: post_init_Inr_iff)
  moreover have "pk_node p \<noteq> 0" using assms by (auto simp: packet_ok_def)
  ultimately show ?thesis using fit tx two
    by (simp add: decode_def decode_v2_def frame_of_def le_int_le_bytes)
       (simp add: codec_consts le_int_le_bytes)
qed

subsection \<open>Decoding\<close>

lemma unpack_HEAD:
  "struct_unpack HEAD data = Inr fs \<Longrightarrow>
   \<exists>ver fl node res seq v. fs = [ver, fl, node, res, seq, v] \<and> list_all2 fits HEAD fs \<and>
     take 10 data = pack_raw HEAD fs"
  using struct_unpack_Inr [of HEAD data fs] struct_unpack_take [of HEAD data fs]
  by (auto simp: HEAD_def list_all2_Cons1)

lemma unpack_HEAD2:
  "struct_unpack HEAD2 data = Inr fs \<Longrightarrow>
   \<exists>ver fl node seq v w. fs = [ver, fl, node, seq, v, w] \<and> list_all2 fits HEAD2 fs \<and>
     take 13 data = pack_raw HEAD2 fs"
  using struct_unpack_Inr [of HEAD2 data fs] struct_unpack_take [of HEAD2 data fs]
  by (auto simp: HEAD2_def list_all2_Cons1)

lemma unpack_HEAD0:
  "struct_unpack HEAD0 data = Inr fs \<Longrightarrow>
   \<exists>fl node v. fs = [fl, node, v] \<and> list_all2 fits HEAD0 fs \<and> take 6 data = pack_raw HEAD0 fs"
  using struct_unpack_Inr [of HEAD0 data fs] struct_unpack_take [of HEAD0 data fs]
  by (auto simp: HEAD0_def list_all2_Cons1)

lemma unpack_long_enough: "calcsize fs \<le> length data \<Longrightarrow> \<exists>vs. struct_unpack fs data = Inr vs"
  by (simp add: struct_unpack_def)

lemma le_int_6: "le_int (take 6 bs) \<le> 2 ^ 48 - 1"
proof -
  have "le_int (take 6 bs) < 256 ^ length (take 6 bs)" by (rule le_int_less)
  also have "\<dots> \<le> (256 :: int) ^ 6" by (rule power_increasing) simp_all
  finally show ?thesis by simp
qed

text \<open>A frame of 16 bytes is either rejected with \<^verbatim>\<open>DecodeError\<close> or is a v1 frame.\<close>

lemma decode_16:
  assumes "length data = PAYLOAD_SIZE"
  shows "(\<exists>p. decode data = Inr p \<and> packet_ok p \<and>
            frame_of p = data[1 := byte_of (byte_val (data ! 1) AND 3)]) \<or>
         decode data = Inl DecodeError"
proof -
  obtain fs where u: "struct_unpack HEAD data = Inr fs"
    using unpack_long_enough [of HEAD data] assms by (auto simp: codec_consts)
  obtain ver fl node res seq v where fs: "fs = [ver, fl, node, res, seq, v]"
    and fit: "list_all2 fits HEAD fs" and tk: "take 10 data = pack_raw HEAD fs"
    using unpack_HEAD [OF u] by auto
  have not2: "length data \<noteq> V2_PAYLOAD_SIZE" using assms by (simp add: codec_consts)
  define ts where "ts = take 6 (drop 10 data)"
  have ts: "length ts = 6" "data = pack_raw HEAD fs @ ts"
    using assms append_take_drop_id [of 10 data] by (simp_all add: ts_def codec_consts tk)
  show ?thesis
  proof (cases "ver = VERSION \<and> res = 0 \<and> node \<noteq> 0")
    case False
    then show ?thesis using u fs not2 assms by (auto simp: decode_def)
  next
    case True
    let ?p = "\<lparr>pk_node = node, pk_vstate = [v], pk_seq = seq, pk_tx = le_int ts,
               pk_enabled = fl AND 1 \<noteq> 0, pk_dist = fl AND 2 \<noteq> 0\<rparr>"
    have ok: "packet_ok ?p"
      using fit fs True le_int_6 [of "drop 10 data"]
      by (auto simp: packet_ok_def int32_ok_def HEAD_def ts_def)
    have "decode data = Inr ?p"
      using u fs not2 assms True post_init_ok [OF ok] by (simp add: decode_def ts_def)
    moreover have "frame_of ?p = data[1 := byte_of (byte_val (data ! 1) AND 3)]"
    proof -
      have b: "byte_val (byte_of fl) = fl" using fit fs by (simp add: HEAD_def)
      have "le_bytes 6 (le_int ts) = ts" using ts(1) le_bytes_le_int [of ts] by simp
      then show ?thesis using True
        by (simp add: ts(2) fs frame_of_def HEAD_def pack_raw_Cons flags_of_back b)
    qed
    ultimately show ?thesis using ok by blast
  qed
qed

lemma decode_19:
  assumes "length data = V2_PAYLOAD_SIZE"
  shows "(\<exists>p. decode data = Inr p \<and> packet_ok p \<and>
            frame_of p = data[1 := byte_of (byte_val (data ! 1) AND 3)]) \<or>
         decode data = Inl DecodeError"
proof (cases "take 1 data = [byte_of V2_VERSION]")
  case False
  then show ?thesis using assms by (simp add: decode_def codec_consts)
next
  case is2: True
  obtain fs where u: "struct_unpack HEAD2 data = Inr fs"
    using unpack_long_enough [of HEAD2 data] assms by (auto simp: codec_consts)
  obtain ver fl node seq v w where fs: "fs = [ver, fl, node, seq, v, w]"
    and fit: "list_all2 fits HEAD2 fs" and tk: "take 13 data = pack_raw HEAD2 fs"
    using unpack_HEAD2 [OF u] by auto
  define ts where "ts = take 6 (drop 13 data)"
  have ts: "length ts = 6" "data = pack_raw HEAD2 fs @ ts"
    using assms append_take_drop_id [of 13 data] by (simp_all add: ts_def codec_consts tk)
  have d2: "decode data = decode_v2 data" using assms is2 by (simp add: decode_def)
  show ?thesis
  proof (cases "ver = V2_VERSION \<and> node \<noteq> 0")
    case False
    then show ?thesis using u fs by (auto simp: d2 decode_v2_def)
  next
    case True
    let ?p = "\<lparr>pk_node = node, pk_vstate = [v, w], pk_seq = seq, pk_tx = le_int ts,
               pk_enabled = fl AND 1 \<noteq> 0, pk_dist = fl AND 2 \<noteq> 0\<rparr>"
    have ok: "packet_ok ?p"
      using fit fs True le_int_6 [of "drop 13 data"]
      by (auto simp: packet_ok_def int32_ok_def HEAD2_def ts_def)
    have "decode data = Inr ?p"
      using u fs True post_init_ok [OF ok] by (simp add: d2 decode_v2_def ts_def)
    moreover have "frame_of ?p = data[1 := byte_of (byte_val (data ! 1) AND 3)]"
    proof -
      have b: "byte_val (byte_of fl) = fl" using fit fs by (simp add: HEAD2_def)
      have "le_bytes 6 (le_int ts) = ts" using ts(1) le_bytes_le_int [of ts] by simp
      then show ?thesis using True
        by (simp add: ts(2) fs frame_of_def HEAD2_def pack_raw_Cons flags_of_back b)
    qed
    ultimately show ?thesis using ok by blast
  qed
qed

lemma decode_other:
  "length data \<noteq> PAYLOAD_SIZE \<Longrightarrow> length data \<noteq> V2_PAYLOAD_SIZE \<Longrightarrow> decode data = Inl DecodeError"
  by (simp add: decode_def)

lemma decode_outcome:
  "(\<exists>p. decode data = Inr p \<and> packet_ok p \<and>
       frame_of p = data[1 := byte_of (byte_val (data ! 1) AND 3)]) \<or>
   decode data = Inl DecodeError"
  using decode_16 decode_19 decode_other by blast

text \<open>A packet read off the legacy format re-encodes to the bytes it was read from.\<close>

definition legacy_of :: "bytes \<Rightarrow> state_packet \<Rightarrow> bool" where
  "legacy_of data p \<longleftrightarrow> (\<exists>v. pk_vstate p = [v] \<and> pk_seq p = 0 \<and> pk_tx p = 0 \<and> \<not> pk_dist p \<and>
     encode_v0 (pk_node p) v (pk_enabled p) = Inr (take V0_PAYLOAD_SIZE data))"

lemma decode_v0_outcome:
  "(\<exists>p. decode_v0 data = Inr p \<and> packet_ok p \<and> legacy_of data p) \<or> decode_v0 data = Inl DecodeError"
proof (cases "length data < V0_PAYLOAD_SIZE")
  case True
  then show ?thesis by (simp add: decode_v0_def)
next
  case False
  obtain fs where u: "struct_unpack HEAD0 data = Inr fs"
    using unpack_long_enough [of HEAD0 data] False by (auto simp: codec_consts)
  obtain fl node v where fs: "fs = [fl, node, v]" and fit: "list_all2 fits HEAD0 fs"
    and tk: "take V0_PAYLOAD_SIZE data = pack_raw HEAD0 fs"
    using unpack_HEAD0 [OF u] by (auto simp: codec_consts)
  show ?thesis
  proof (cases "fl \<in> {V0_FLAG_ENABLED, V0_FLAG_DISABLED} \<and> node \<noteq> 0")
    case False
    then show ?thesis using u fs \<open>\<not> length data < V0_PAYLOAD_SIZE\<close> by (auto simp: decode_v0_def)
  next
    case True
    let ?p = "\<lparr>pk_node = node, pk_vstate = [v], pk_seq = 0, pk_tx = 0, pk_enabled = fl = V0_FLAG_ENABLED, pk_dist = False\<rparr>"
    have ok: "packet_ok ?p" using fit fs True by (auto simp: packet_ok_def int32_ok_def HEAD0_def)
    moreover have "legacy_of data ?p"
      using fit fs True tk by (auto simp: legacy_of_def encode_v0_def int32_ok_def HEAD0_def struct_pack_ok)
    moreover have "decode_v0 data = Inr ?p"
      using u fs False True post_init_ok [OF ok] by (auto simp: decode_v0_def)
    ultimately show ?thesis by blast
  qed
qed

lemma decode_any_outcome:
  "(\<exists>p. decode_any data = Inr p \<and> packet_ok p \<and> (decode data = Inr p \<or> legacy_of data p)) \<or> decode_any data = Inl DecodeError"
  using decode_outcome [of data] decode_v0_outcome [of data]
  by (auto simp: decode_any_def split: list.split)

subsection \<open>Properties\<close>

text \<open>C12: Every well-formed packet survives the wire: encoding it never raises, gives 16 bytes
  for one coordinate and 19 for two, and both the strict decoder and the receiver's
  version-dispatching decoder return the very same packet.\<close>

theorem codec_roundtrip:
  assumes "packet_ok p"
  shows "\<exists>b. encode p = Inr b \<and>
           length b = (if length (pk_vstate p) = 1 then PAYLOAD_SIZE else V2_PAYLOAD_SIZE) \<and>
           decode b = Inr p \<and> decode_any b = Inr p"
proof -
  obtain r where "frame_of p = byte_of (version p) # r" using frame_of_first [OF assms] by blast
  then have "decode_any (frame_of p) = decode (frame_of p)"
    using length_frame_of [OF assms]
    by (auto simp: decode_any_def version_def codec_consts split: list.split if_splits)
  then show ?thesis
    using assms by (simp add: length_frame_of decode_frame)
qed

theorem codec_roundtrip_witness:
  "\<exists>b. encode \<lparr>pk_node = 3, pk_vstate = [1500000, - 7], pk_seq = 65535, pk_tx = 123456789,
              pk_enabled = True, pk_dist = True\<rparr> = Inr b \<and> length b = 19"
  using codec_roundtrip [of "\<lparr>pk_node = 3, pk_vstate = [1500000, - 7], pk_seq = 65535,
              pk_tx = 123456789, pk_enabled = True, pk_dist = True\<rparr>"]
  by (auto simp: packet_ok_def int32_ok_def V2_PAYLOAD_SIZE_def)

text \<open>C34: Decoding is strict. On any byte string the strict decoder returns a well-formed packet whose
  re-encoding is the input itself, up to the six unused flag bits, or it raises
  \<^verbatim>\<open>DecodeError\<close>. The version-dispatching decoder returns only well-formed packets, either one
  the strict decoder returns too or one of the legacy format, whose legacy encoding is the first bytes of
  the input (what follows them is ignored), and it raises only \<^verbatim>\<open>DecodeError\<close>.\<close>

theorem decode_strict:
  "(case decode data of
      Inr p \<Rightarrow> packet_ok p \<and> encode p = Inr (data[1 := byte_of (byte_val (data ! 1) AND 3)])
    | Inl e \<Rightarrow> e = DecodeError) \<and>
   (case decode_any data of
      Inr p \<Rightarrow> packet_ok p \<and> (decode data = Inr p \<or> legacy_of data p)
    | Inl e \<Rightarrow> e = DecodeError)"
  using decode_outcome [of data] decode_any_outcome [of data] by auto

text \<open>The constructor admits exactly the packets the wire can carry, and raises
  \<^verbatim>\<open>ValueError\<close> on every other.\<close>

theorem post_init_guards:
  "post_init n vs s t e d =
     (if packet_ok \<lparr>pk_node = n, pk_vstate = vs, pk_seq = s, pk_tx = t, pk_enabled = e, pk_dist = d\<rparr>
      then Inr \<lparr>pk_node = n, pk_vstate = vs, pk_seq = s, pk_tx = t, pk_enabled = e, pk_dist = d\<rparr>
      else Inl ValueError)"
  by (cases "post_init n vs s t e d") (auto simp: post_init_Inr_iff post_init_Inl post_init_ok)

text \<open>The advert form round-trips under the sender's company identifier, and a receiver
  configured for another identifier rejects it.\<close>

theorem manufacturer_roundtrip:
  assumes "packet_ok p"
  shows "\<exists>b. encode_manufacturer_data p = Inr b \<and>
           decode_manufacturer_data b COMPANY_ID = Inr p \<and>
           (c \<noteq> COMPANY_ID \<longrightarrow> decode_manufacturer_data b c = Inl DecodeError)"
proof -
  have "le_int (le_bytes 2 COMPANY_ID) = COMPANY_ID" by (simp add: le_int_le_bytes COMPANY_ID_def)
  then show ?thesis
    using assms
    by (simp add: encode_manufacturer_data_def decode_manufacturer_data_def decode_frame
                  to_bytes_le_def COMPANY_ID_def)
qed

theorem manufacturer_roundtrip_witness:
  "\<exists>b. encode_manufacturer_data \<lparr>pk_node = 1, pk_vstate = [5], pk_seq = 0, pk_tx = 0,
          pk_enabled = True, pk_dist = False\<rparr> = Inr b \<and> decode_manufacturer_data b 76 = Inl DecodeError"
  using manufacturer_roundtrip [of "\<lparr>pk_node = 1, pk_vstate = [5], pk_seq = 0, pk_tx = 0,
          pk_enabled = True, pk_dist = False\<rparr>" 76]
  by (auto simp: packet_ok_def int32_ok_def COMPANY_ID_def)

lemma v0_roundtrip:
  assumes "1 \<le> n" "n \<le> 255" "int32_ok v"
  shows "\<exists>b. encode_v0 n v en = Inr b \<and> length b = V0_PAYLOAD_SIZE \<and>
           decode_any b = Inr \<lparr>pk_node = n, pk_vstate = [v], pk_seq = 0, pk_tx = 0,
                               pk_enabled = en, pk_dist = False\<rparr>"
proof -
  let ?f = "if en then V0_FLAG_ENABLED else V0_FLAG_DISABLED"
  let ?p = "\<lparr>pk_node = n, pk_vstate = [v], pk_seq = 0, pk_tx = 0, pk_enabled = en, pk_dist = False\<rparr>"
  have fit: "list_all2 fits HEAD0 [?f, n, v]" using assms by (simp add: codec_consts int32_ok_def)
  have ok: "packet_ok ?p" using assms by (simp add: packet_ok_def)
  have len: "length (pack_raw HEAD0 [?f, n, v]) = V0_PAYLOAD_SIZE" by (simp add: codec_consts)
  have "decode_v0 (pack_raw HEAD0 [?f, n, v]) = Inr ?p"
    using fit len post_init_ok [OF ok] assms by (auto simp: decode_v0_def codec_consts)
  moreover have "decode_any (pack_raw HEAD0 [?f, n, v]) = decode_v0 (pack_raw HEAD0 [?f, n, v])"
    by (simp add: decode_any_def HEAD0_def pack_raw_Cons) (simp add: codec_consts)
  ultimately show ?thesis using fit len assms by (simp add: encode_v0_def)
qed

lemma from_state_float:
  assumes "from_state n vs s t e d = Inr p"
  shows "length (vstate_float p) = length vs \<and>
         (\<forall>i < length vs. \<bar>vstate_float p ! i - vs ! i\<bar> \<le> 1 / 2000000)"
  using assms quantize_error
  by (auto simp: from_state_def post_init_Inr_iff vstate_float_def)

end
