(* ===== verification/LinkMonitor.thy ===== *)
theory LinkMonitor
  imports Codec
begin

section \<open>Per-link reception quality (wire/codec.py, LinkStats and LinkMonitor)\<close>

text \<open>
  \<open>link_stats\<close> is the dataclass \<^verbatim>\<open>LinkStats\<close> with its three derived properties,
  \<open>link_monitor\<close> the two dictionaries of \<^verbatim>\<open>LinkMonitor\<close>, \<open>lm_observe\<close> its one
  state-changing method. The lemmas show that every sequence of observations keeps
  \<open>expected = received + lost\<close> and accounts for every packet exactly once, and that on an
  in-order stream the loss count is exact across the wrap of the 16-bit counter.
\<close>

record link_stats =
  ls_received :: int
  ls_expected :: int
  ls_lost :: int
  ls_duplicates :: int
  ls_reordered :: int
  ls_resets :: int
  ls_delays :: "int list"

definition new_stats :: link_stats where
  "new_stats = \<lparr>ls_received = 0, ls_expected = 0, ls_lost = 0, ls_duplicates = 0,
                ls_reordered = 0, ls_resets = 0, ls_delays = []\<rparr>"

definition delivery_ratio :: "link_stats \<Rightarrow> real" where
  "delivery_ratio st =
     (if ls_expected st = 0 then 1 else of_int (ls_received st) / of_int (ls_expected st))"

definition min_delay_us :: "link_stats \<Rightarrow> int option" where
  "min_delay_us st = (if ls_delays st = [] then None else Some (Min (set (ls_delays st))))"

definition median_delay_us :: "link_stats \<Rightarrow> real option" where
  "median_delay_us st =
     (if ls_delays st = [] then None
      else let s = sort (ls_delays st); mid = length s div 2 in
        Some (if odd (length s) then of_int (s ! mid) else of_int (s ! (mid - 1) + s ! mid) / 2))"

record link_monitor =
  lm_window :: int
  lm_stats :: "int \<rightharpoonup> link_stats"
  lm_last_seq :: "int \<rightharpoonup> int"

definition new_monitor :: "int \<Rightarrow> link_monitor" where
  "new_monitor w = \<lparr>lm_window = w, lm_stats = Map.empty, lm_last_seq = Map.empty\<rparr>"

definition lm_observe :: "link_monitor \<Rightarrow> state_packet \<Rightarrow> int option \<Rightarrow> link_monitor" where
  "lm_observe m p rx =
     (let nid = pk_node p;
          st0 = (case lm_stats m nid of None \<Rightarrow> new_stats | Some st \<Rightarrow> st);
          st1 = st0\<lparr>ls_received := ls_received st0 + 1\<rparr>;
          st = (case rx of
                  Some t \<Rightarrow> if pk_tx p \<noteq> 0 then st1\<lparr>ls_delays := ls_delays st1 @ [t - pk_tx p]\<rparr> else st1
                | None \<Rightarrow> st1)
      in case lm_last_seq m nid of
           None \<Rightarrow>
             m\<lparr>lm_stats := (lm_stats m)(nid \<mapsto> st\<lparr>ls_expected := ls_expected st + 1\<rparr>),
               lm_last_seq := (lm_last_seq m)(nid \<mapsto> pk_seq p)\<rparr>
         | Some prev \<Rightarrow>
             let gap = (pk_seq p - prev) mod 65536 in
             if gap = 0 then
               m\<lparr>lm_stats := (lm_stats m)(nid \<mapsto>
                   st\<lparr>ls_duplicates := ls_duplicates st + 1, ls_received := ls_received st - 1\<rparr>)\<rparr>
             else if gap > 65536 - lm_window m then
               m\<lparr>lm_stats := (lm_stats m)(nid \<mapsto>
                   st\<lparr>ls_reordered := ls_reordered st + 1, ls_received := ls_received st - 1\<rparr>)\<rparr>
             else
               m\<lparr>lm_stats := (lm_stats m)(nid \<mapsto>
                   (if gap > lm_window m
                    then st\<lparr>ls_resets := ls_resets st + 1, ls_expected := ls_expected st + 1\<rparr>
                    else st\<lparr>ls_expected := ls_expected st + gap, ls_lost := ls_lost st + (gap - 1)\<rparr>)),
                 lm_last_seq := (lm_last_seq m)(nid \<mapsto> pk_seq p)\<rparr>)"

definition lm_report :: "link_monitor \<Rightarrow> int \<rightharpoonup> link_stats" where
  "lm_report m = lm_stats m"

primrec lm_run :: "link_monitor \<Rightarrow> (state_packet \<times> int option) list \<Rightarrow> link_monitor" where
  "lm_run m [] = m"
| "lm_run m (x # xs) = lm_run (lm_observe m (fst x) (snd x)) xs"

subsection \<open>Invariant\<close>

definition stats_ok :: "link_stats \<Rightarrow> bool" where
  "stats_ok st \<longleftrightarrow>
     ls_expected st = ls_received st + ls_lost st \<and> 0 \<le> ls_received st \<and> 0 \<le> ls_lost st \<and>
     0 \<le> ls_duplicates st \<and> 0 \<le> ls_reordered st \<and> 0 \<le> ls_resets st"

definition monitor_ok :: "link_monitor \<Rightarrow> bool" where
  "monitor_ok m \<longleftrightarrow> (\<forall>n st. lm_stats m n = Some st \<longrightarrow> stats_ok st)"

definition stats_of :: "link_monitor \<Rightarrow> int \<Rightarrow> link_stats" where
  "stats_of m n = (case lm_stats m n of None \<Rightarrow> new_stats | Some st \<Rightarrow> st)"

lemma monitor_okD: "monitor_ok m \<Longrightarrow> stats_ok (stats_of m n)"
  by (cases "lm_stats m n") (auto simp: monitor_ok_def stats_of_def stats_ok_def new_stats_def)

text \<open>What one observation does to the statistics of a node, on each branch.\<close>

lemma observe_stats:
  "stats_of (lm_observe m p rx) (pk_node p) =
     (let st = stats_of m (pk_node p);
          d = ls_delays st @ (case rx of Some t \<Rightarrow> if pk_tx p \<noteq> 0 then [t - pk_tx p] else [] | None \<Rightarrow> [])
      in case lm_last_seq m (pk_node p) of
           None \<Rightarrow> st\<lparr>ls_received := ls_received st + 1, ls_expected := ls_expected st + 1, ls_delays := d\<rparr>
         | Some prev \<Rightarrow>
             let gap = (pk_seq p - prev) mod 65536 in
             if gap = 0 then st\<lparr>ls_duplicates := ls_duplicates st + 1, ls_delays := d\<rparr>
             else if gap > 65536 - lm_window m then
               st\<lparr>ls_reordered := ls_reordered st + 1, ls_delays := d\<rparr>
             else if gap > lm_window m then
               st\<lparr>ls_received := ls_received st + 1, ls_expected := ls_expected st + 1,
                  ls_resets := ls_resets st + 1, ls_delays := d\<rparr>
             else
               st\<lparr>ls_received := ls_received st + 1, ls_expected := ls_expected st + gap,
                  ls_lost := ls_lost st + (gap - 1), ls_delays := d\<rparr>)"
  by (simp add: lm_observe_def stats_of_def Let_def split: option.split)

lemma observe_others:
  "n \<noteq> pk_node p \<Longrightarrow> lm_stats (lm_observe m p rx) n = lm_stats m n"
  "n \<noteq> pk_node p \<Longrightarrow> lm_last_seq (lm_observe m p rx) n = lm_last_seq m n"
  by (simp_all add: lm_observe_def Let_def split: option.split)

lemma observe_window [simp]: "lm_window (lm_observe m p rx) = lm_window m"
  by (simp add: lm_observe_def Let_def split: option.split)

lemma observe_present: "lm_stats (lm_observe m p rx) (pk_node p) \<noteq> None"
  by (simp add: lm_observe_def Let_def split: option.split)

lemma observe_stats_ok:
  assumes "monitor_ok m"
  shows "stats_ok (stats_of (lm_observe m p rx) (pk_node p))"
proof -
  let ?g = "(pk_seq p - l) mod 65536"
  have "0 \<le> (pk_seq p - l) mod 65536" for l by simp
  then have "0 < (pk_seq p - l) mod 65536 \<or> (pk_seq p - l) mod 65536 = 0" for l
    by (metis order_le_less)
  then show ?thesis
    using monitor_okD [OF assms, of "pk_node p"] unfolding observe_stats
    by (auto simp: Let_def stats_ok_def split: option.split)
qed

lemma observe_ok [inv_intros]:
  assumes "monitor_ok m"
  shows "monitor_ok (lm_observe m p rx)"
  unfolding monitor_ok_def
proof (intro allI impI)
  fix n st
  assume st: "lm_stats (lm_observe m p rx) n = Some st"
  show "stats_ok st"
  proof (cases "n = pk_node p")
    case True
    then show ?thesis using observe_stats_ok [OF assms, of p rx] st by (simp add: stats_of_def)
  next
    case False
    then show ?thesis using assms st by (auto simp: observe_others monitor_ok_def)
  qed
qed

lemma new_monitor_ok [inv_intros]: "monitor_ok (new_monitor w)"
  by (simp add: monitor_ok_def new_monitor_def)

lemma run_ok [inv_intros]: "monitor_ok m \<Longrightarrow> monitor_ok (lm_run m xs)"
  by (induction xs arbitrary: m) (auto intro: observe_ok)

lemma delivery_ratio_bounds: "stats_ok st \<Longrightarrow> 0 \<le> delivery_ratio st \<and> delivery_ratio st \<le> 1"
  by (auto simp: delivery_ratio_def stats_ok_def divide_le_eq)

text \<open>Every observed packet of a node is counted once: delivered, duplicate or reordered.\<close>

definition accounted :: "link_stats \<Rightarrow> int" where
  "accounted st = ls_received st + ls_duplicates st + ls_reordered st"

lemma observe_accounted:
  "accounted (stats_of (lm_observe m p rx) n) =
   accounted (stats_of m n) + (if n = pk_node p then 1 else 0)"
proof (cases "n = pk_node p")
  case True
  then show ?thesis
    by (simp add: observe_stats accounted_def Let_def split: option.split)
next
  case False
  then show ?thesis by (simp add: stats_of_def observe_others)
qed

lemma run_accounted:
  "accounted (stats_of (lm_run m xs) n) =
   accounted (stats_of m n) + int (length (filter (\<lambda>x. pk_node (fst x) = n) xs))"
  by (induction xs arbitrary: m) (auto simp: observe_accounted)

subsection \<open>An in-order stream\<close>

text \<open>
  A sender numbers its packets 0, 1, 2, ... and puts the number mod \<open>2 ^ 16\<close> on the wire;
  \<open>ks\<close> are the numbers of the packets that arrive, in order.
\<close>

definition seq_packet :: "int \<Rightarrow> int \<Rightarrow> state_packet" where
  "seq_packet n k = \<lparr>pk_node = n, pk_vstate = [0], pk_seq = k mod 65536, pk_tx = 0,
                     pk_enabled = True, pk_dist = False\<rparr>"

fun gaps_ok :: "int \<Rightarrow> int \<Rightarrow> int list \<Rightarrow> bool" where
  "gaps_ok w k [] = True"
| "gaps_ok w k (j # js) = (k < j \<and> j - k \<le> w \<and> gaps_ok w j js)"

definition after :: "link_monitor \<Rightarrow> int \<Rightarrow> int list \<Rightarrow> link_monitor" where
  "after m n ks = lm_run m (map (\<lambda>k. (seq_packet n k, None)) ks)"

lemma after_Cons: "after m n (k # ks) = after (lm_observe m (seq_packet n k) None) n ks"
  by (simp add: after_def)

lemma seq_packet_simps [simp]:
  "pk_node (seq_packet n k) = n" "pk_seq (seq_packet n k) = k mod 65536" "pk_tx (seq_packet n k) = 0"
  by (simp_all add: seq_packet_def)

lemma observe_in_order:
  assumes "lm_last_seq m n = Some (k mod 65536)" and "k < j" and "j - k \<le> lm_window m"
    and "lm_window m \<le> 32768"
  shows "stats_of (lm_observe m (seq_packet n j) None) n =
           (stats_of m n)\<lparr>ls_received := ls_received (stats_of m n) + 1,
             ls_expected := ls_expected (stats_of m n) + (j - k),
             ls_lost := ls_lost (stats_of m n) + (j - k - 1)\<rparr>"
    and "lm_last_seq (lm_observe m (seq_packet n j) None) n = Some (j mod 65536)"
proof -
  have gap: "(j mod 65536 - k mod 65536) mod 65536 = j - k"
  proof -
    have "(j mod 65536 - k mod 65536) mod 65536 = (j - k) mod 65536" by (simp add: mod_simps)
    then show ?thesis using assms by simp
  qed
  show "stats_of (lm_observe m (seq_packet n j) None) n =
           (stats_of m n)\<lparr>ls_received := ls_received (stats_of m n) + 1,
             ls_expected := ls_expected (stats_of m n) + (j - k),
             ls_lost := ls_lost (stats_of m n) + (j - k - 1)\<rparr>"
    using observe_stats [of m "seq_packet n j" None] assms gap by (simp add: Let_def)
  show "lm_last_seq (lm_observe m (seq_packet n j) None) n = Some (j mod 65536)"
    using assms gap by (simp add: lm_observe_def Let_def)
qed

lemma after_in_order:
  assumes "lm_last_seq m n = Some (k mod 65536)" and "gaps_ok (lm_window m) k ks"
    and "lm_window m \<le> 32768"
  shows "ls_received (stats_of (after m n ks) n) = ls_received (stats_of m n) + int (length ks) \<and>
         ls_lost (stats_of (after m n ks) n) = ls_lost (stats_of m n) + (last (k # ks) - k) - int (length ks)"
  using assms
proof (induction ks arbitrary: m k)
  case Nil
  then show ?case by (simp add: after_def)
next
  case (Cons j ks)
  let ?m = "lm_observe m (seq_packet n j) None"
  have j: "k < j" "j - k \<le> lm_window m" "gaps_ok (lm_window ?m) j ks" "lm_window ?m \<le> 32768"
    using Cons.prems by simp_all
  note o = observe_in_order [OF Cons.prems(1) j(1,2) Cons.prems(3)]
  from Cons.IH [OF o(2) j(3,4)] show ?case by (simp add: after_Cons o(1))
qed

text \<open>Link accounting: in every reachable monitor each neighbour's \<open>expected\<close> is
  \<open>received + lost\<close>, the delivery ratio lies in \<open>[0, 1]\<close>, and every packet observed from the
  neighbour is counted exactly once as received, duplicate or reordered.\<close>

theorem link_accounting:
  "stats_ok (stats_of (lm_run (new_monitor w) xs) n) \<and>
   0 \<le> delivery_ratio (stats_of (lm_run (new_monitor w) xs) n) \<and>
   delivery_ratio (stats_of (lm_run (new_monitor w) xs) n) \<le> 1 \<and>
   accounted (stats_of (lm_run (new_monitor w) xs) n) =
     int (length (filter (\<lambda>x. pk_node (fst x) = n) xs))"
proof -
  have ok: "stats_ok (stats_of (lm_run (new_monitor w) xs) n)"
    by (intro monitor_okD inv_intros)
  have "accounted (stats_of (new_monitor w) n) = 0"
    by (simp add: accounted_def stats_of_def new_monitor_def new_stats_def)
  then show ?thesis using ok delivery_ratio_bounds [OF ok] by (simp add: run_accounted)
qed

text \<open>On an in-order stream with gaps inside the reorder window the loss count is exact:
  after the packets numbered \<open>k # ks\<close> the monitor has counted every one as received and
  exactly the missing numbers as lost, however often the 16-bit counter wrapped.\<close>

theorem link_loss_exact:
  assumes "gaps_ok w k ks" and "w \<le> 32768"
  shows "ls_received (stats_of (after (new_monitor w) n (k # ks)) n) = int (length (k # ks)) \<and>
         ls_lost (stats_of (after (new_monitor w) n (k # ks)) n) =
           (last (k # ks) - k + 1) - int (length (k # ks))"
proof -
  let ?m = "lm_observe (new_monitor w) (seq_packet n k) None"
  have l: "lm_last_seq ?m n = Some (k mod 65536)" and w: "lm_window ?m = w"
    by (simp_all add: lm_observe_def new_monitor_def Let_def)
  have s: "ls_received (stats_of ?m n) = 1" "ls_lost (stats_of ?m n) = 0"
    by (simp_all add: lm_observe_def new_monitor_def new_stats_def Let_def stats_of_def)
  have "gaps_ok (lm_window ?m) k ks" "lm_window ?m \<le> 32768" using assms by (simp_all only: w)
  from after_in_order [OF l this] show ?thesis by (simp add: after_Cons s)
qed

theorem link_loss_exact_witness:
  "ls_received (stats_of (after (new_monitor 1024) 7 [65530, 65535, 65540, 65541]) 7) = 4 \<and>
   ls_lost (stats_of (after (new_monitor 1024) 7 [65530, 65535, 65540, 65541]) 7) = 8"
  using link_loss_exact [of 1024 65530 "[65535, 65540, 65541]" 7] by simp

end
