(* ===== verification/Crc16.thy ===== *)
theory Crc16
  imports Bytes
begin

unbundle bit_operations_syntax

section \<open>CRC-16/CCITT-FALSE (serial/proto.py crc16 and firmware proto_crc16)\<close>

text \<open>
  \<open>crc16\<close> is the Python function over unbounded ints, \<open>proto_crc16\<close> the firmware's over
  \<^verbatim>\<open>uint16_t\<close>; they agree on every input. One shift of the register is linear and
  injective, so the register after a common suffix still tells two histories apart: any
  corruption confined to two adjacent bytes changes the checksum.
\<close>

definition crc_shift :: "int \<Rightarrow> int" where
  "crc_shift crc =
     (if crc AND 0x8000 \<noteq> 0 then (push_bit 1 crc XOR 0x1021) AND 0xFFFF else push_bit 1 crc AND 0xFFFF)"

definition crc_byte :: "int \<Rightarrow> byte \<Rightarrow> int" where
  "crc_byte crc b = (crc_shift ^^ 8) (crc XOR push_bit 8 (byte_val b))"

definition crc16 :: "bytes \<Rightarrow> int" where
  "crc16 data = foldl crc_byte 0xFFFF data"

definition cshift :: "16 word \<Rightarrow> 16 word" where
  "cshift crc = (if crc AND 0x8000 \<noteq> 0 then push_bit 1 crc XOR 0x1021 else push_bit 1 crc)"

definition cbyte :: "16 word \<Rightarrow> byte \<Rightarrow> 16 word" where
  "cbyte crc b = (cshift ^^ 8) (crc XOR push_bit 8 (ucast b))"

definition proto_crc16 :: "bytes \<Rightarrow> 16 word" where
  "proto_crc16 data = foldl cbyte 0xFFFF data"

subsection \<open>The two implementations agree\<close>

lemma mask_16: "(0xFFFF :: int) = mask 16" "(0x8000 :: int) = 2 ^ 15"
  by (simp_all add: mask_eq_exp_minus_1)

lemma and_FFFF: "(x :: int) AND 0xFFFF = take_bit 16 x"
  by (simp only: take_bit_eq_mask mask_16)

lemma and_8000: "(x :: int) AND 0x8000 \<noteq> 0 \<longleftrightarrow> bit x 15"
  by (simp only: mask_16 and_exp_eq_0_iff_not_bit simp_thms)

lemma and_8000_word: "(w :: 16 word) AND 0x8000 \<noteq> 0 \<longleftrightarrow> bit w 15"
proof -
  have "(0x8000 :: 16 word) = 2 ^ 15" by simp
  then show ?thesis by (simp only: and_exp_eq_0_iff_not_bit simp_thms)
qed

lemma cshift_alt: "cshift w = push_bit 1 w XOR (if bit w 15 then 0x1021 else 0)"
  by (simp add: cshift_def and_8000_word)

lemma crc_shift_uint: "crc_shift (uint w) = uint (cshift w)"
  by (simp add: crc_shift_def cshift_def and_8000 and_8000_word and_FFFF unsigned_xor_eq
                unsigned_push_bit_eq bit_uint_iff del: push_bit_Suc One_nat_def)

lemma crc_shift_pow_uint: "(crc_shift ^^ n) (uint w) = uint ((cshift ^^ n) w)"
  by (induction n) (simp_all add: crc_shift_uint)

lemma crc_byte_uint: "crc_byte (uint w) b = uint (cbyte w b)"
proof -
  have "push_bit 8 (byte_val b) = uint (push_bit 8 (ucast b) :: 16 word)"
    by (rule bit_eqI) (auto simp: bit_simps byte_val_def dest: bit_imp_le_length)
  then have "uint w XOR push_bit 8 (byte_val b) = uint (w XOR push_bit 8 (ucast b))"
    by (simp add: unsigned_xor_eq)
  then show ?thesis by (simp only: crc_byte_def cbyte_def crc_shift_pow_uint)
qed

lemma crc_fold_uint: "foldl crc_byte (uint w) data = uint (foldl cbyte w data)"
  by (induction data arbitrary: w) (simp_all add: crc_byte_uint)

lemma crc16_eq_word: "crc16 data = uint (proto_crc16 data)"
  using crc_fold_uint [of "0xFFFF" data] by (simp add: crc16_def proto_crc16_def)

lemma crc16_eq_iff: "crc16 xs = crc16 ys \<longleftrightarrow> proto_crc16 xs = proto_crc16 ys"
  by (simp only: crc16_eq_word word_uint_eq_iff)

lemma crc16_range [simp]: "0 \<le> crc16 data" "crc16 data < 65536"
  using uint_lt2p [of "proto_crc16 data"] by (simp_all add: crc16_eq_word)

subsection \<open>Linearity and injectivity\<close>

lemma cshift_0 [simp]: "cshift 0 = 0"
  by (simp add: cshift_alt)

lemma cshift_xor: "cshift (x XOR y) = cshift x XOR cshift y"
  by (simp add: cshift_alt push_bit_xor bit_xor_iff ac_simps)

lemma bit_1021: "bit (0x1021 :: 16 word) 0"
  by simp

lemma cshift_bit0: "bit (cshift w) 0 \<longleftrightarrow> bit w 15"
  by (simp add: cshift_alt bit_xor_iff bit_push_bit_iff bit_1021 del: push_bit_Suc One_nat_def)

lemma cshift_eq_0: "cshift w = 0 \<Longrightarrow> w = 0"
proof -
  assume z: "cshift w = 0"
  then have m: "\<not> bit w 15" using cshift_bit0 [of w] by simp
  then have p: "push_bit 1 w = 0" using z by (simp add: cshift_alt)
  show "w = 0"
  proof (rule bit_word_eqI)
    fix n assume "n < LENGTH(16)"
    then show "bit w n = bit 0 n"
      using m p bit_push_bit_iff [of 1 w "Suc n"] by (cases "n = 15") auto
  qed
qed

lemma cshift_inject: "cshift x = cshift y \<longleftrightarrow> x = y"
proof
  assume "cshift x = cshift y"
  then have "cshift (x XOR y) = 0" by (simp add: cshift_xor)
  then have "x XOR y = 0" by (rule cshift_eq_0)
  moreover have "x = (x XOR y) XOR y" by (simp add: xor.assoc)
  ultimately show "x = y" by simp
qed simp

lemma cshift_pow_xor: "(cshift ^^ n) (x XOR y) = (cshift ^^ n) x XOR (cshift ^^ n) y"
  by (induction n) (simp_all add: cshift_xor)

lemma cshift_pow_inject: "(cshift ^^ n) x = (cshift ^^ n) y \<longleftrightarrow> x = y"
  by (induction n) (simp_all add: cshift_inject)

lemma xor_cancel_left: "(c :: 16 word) XOR x = c XOR y \<longleftrightarrow> x = y"
  by (metis bit.xor_left_self)

lemma cbyte_inject_state: "cbyte c b = cbyte d b \<longleftrightarrow> c = d"
  by (simp add: cbyte_def cshift_pow_inject) (metis bit.xor_left_self xor.commute)

lemma crc_suffix_inject: "foldl cbyte c data = foldl cbyte d data \<longleftrightarrow> c = d"
  by (induction data arbitrary: c d) (simp_all add: cbyte_inject_state)

text \<open>The low byte of the register only moves up during eight shifts.\<close>

lemma cshift_pow_low:
  "n \<le> 8 \<Longrightarrow> (cshift ^^ n) (ucast (b :: byte)) = (push_bit n (ucast b) :: 16 word)"
proof (induction n)
  case 0
  then show ?case by simp
next
  case (Suc n)
  then have "\<not> bit (push_bit n (ucast b :: 16 word)) 15"
    by (auto simp: bit_simps dest: bit_imp_le_length)
  then have "cshift (push_bit n (ucast b)) = push_bit 1 (push_bit n (ucast b))"
    by (simp only: cshift_alt if_False xor.right_neutral)
  also have "\<dots> = push_bit (Suc n) (ucast b)" by (simp only: push_bit_push_bit plus_1_eq_Suc)
  finally show ?case using Suc by simp
qed

lemma cbyte_two:
  "cbyte (cbyte c a) b = (cshift ^^ 16) (c XOR (push_bit 8 (ucast a) XOR ucast b))"
proof -
  have "push_bit 8 (ucast b) = (cshift ^^ 8) (ucast b)" by (rule cshift_pow_low [symmetric]) simp
  then have "cbyte (cbyte c a) b = (cshift ^^ 8) ((cshift ^^ 8) (c XOR push_bit 8 (ucast a) XOR ucast b))"
    by (simp only: cbyte_def cshift_pow_xor xor.assoc)
  also have "\<dots> = (cshift ^^ (8 + 8)) (c XOR push_bit 8 (ucast a) XOR ucast b)"
    by (simp only: funpow_add comp_apply)
  finally show ?thesis by (simp only: xor.assoc) simp
qed

lemma two_bytes_inject:
  "push_bit 8 (ucast a) XOR (ucast b :: 16 word) = push_bit 8 (ucast a') XOR ucast b' \<longleftrightarrow>
   a = a' \<and> b = (b' :: byte)" for a a' :: byte
proof
  assume e: "push_bit 8 (ucast a) XOR (ucast b :: 16 word) = push_bit 8 (ucast a') XOR ucast b'"
  have lo: "bit b n = bit b' n" if "n < 8" for n
    using arg_cong [OF e, of "\<lambda>w. bit w n"] that by (simp add: bit_simps)
  have hi: "bit a n = bit a' n" if "n < 8" for n
    using arg_cong [OF e, of "\<lambda>w. bit w (n + 8)"] that
    by (auto simp: bit_simps dest: bit_imp_le_length)
  show "a = a' \<and> b = b'" using lo hi by (auto intro: bit_word_eqI)
qed simp

lemma crc16_append: "crc16 (xs @ ys) = foldl crc_byte (crc16 xs) ys"
  by (simp add: crc16_def)

lemma crc16_detects_two:
  assumes "(a, b) \<noteq> (a', b')"
  shows "crc16 (pre @ a # b # post) \<noteq> crc16 (pre @ a' # b' # post)"
proof
  assume "crc16 (pre @ a # b # post) = crc16 (pre @ a' # b' # post)"
  then have "proto_crc16 (pre @ a # b # post) = proto_crc16 (pre @ a' # b' # post)"
    by (simp only: crc16_eq_iff)
  then have "cbyte (cbyte (proto_crc16 pre) a) b = cbyte (cbyte (proto_crc16 pre) a') b'"
    by (simp add: proto_crc16_def crc_suffix_inject)
  then have "push_bit 8 (ucast a) XOR (ucast b :: 16 word) = push_bit 8 (ucast a') XOR ucast b'"
    by (simp only: cbyte_two cshift_pow_inject xor_cancel_left)
  then show False using assms by (simp only: two_bytes_inject) simp
qed

lemma crc16_detects_one:
  assumes "a \<noteq> a'"
  shows "crc16 (pre @ a # post) \<noteq> crc16 (pre @ a' # post)"
proof
  assume "crc16 (pre @ a # post) = crc16 (pre @ a' # post)"
  then have "cbyte (proto_crc16 pre) a = cbyte (proto_crc16 pre) a'"
    by (simp add: crc16_eq_iff proto_crc16_def crc_suffix_inject)
  then have "push_bit 8 (ucast a :: 16 word) = push_bit 8 (ucast a')"
    by (simp only: cbyte_def cshift_pow_inject xor_cancel_left)
  then have "a = a'" using two_bytes_inject [of a 0 a' 0] by simp
  with assms show False by simp
qed

lemma crc16_check_value: "crc16 (map byte_of [49, 50, 51, 52, 53, 54, 55, 56, 57]) = 0x29B1"
  by code_simp

text \<open>The Python and the C checksum are one function, its value fits the two bytes of the
  trailer, and it is the catalogued CRC-16/CCITT-FALSE (check value \<open>0x29B1\<close>).\<close>

theorem crc16_matches_firmware:
  "crc16 data = uint (proto_crc16 data) \<and> 0 \<le> crc16 data \<and> crc16 data < 2 ^ 16 \<and>
   crc16 (map byte_of [49, 50, 51, 52, 53, 54, 55, 56, 57]) = 0x29B1"
  using crc16_eq_word [of data] crc16_range [of data] crc16_check_value by simp

lemma crc16_detects_burst_lemma:
  assumes "length xs = length ys" and "length xs \<le> 2" and "xs \<noteq> ys"
  shows "crc16 (pre @ xs @ post) \<noteq> crc16 (pre @ ys @ post)"
proof (cases "length xs = 2")
  case True
  then obtain a b where "xs = [a, b]" by (auto simp: list_of_length_2)
  moreover from True assms(1) obtain a' b' where "ys = [a', b']" by (auto simp: list_of_length_2)
  ultimately show ?thesis using assms(3) crc16_detects_two [of a b a' b' pre post] by simp
next
  case False
  moreover have "length xs \<noteq> 0" using assms by auto
  ultimately have "length xs = Suc 0" using assms(2) by linarith
  then obtain a where a: "xs = [a]" by (auto simp: list_of_length_1)
  with assms(1) obtain a' where "ys = [a']" by (cases ys) auto
  with a assms(3) show ?thesis using crc16_detects_one [of a a' pre post] by simp
qed

text \<open>Every corruption of one byte, or of two adjacent bytes, of the checked span changes the
  checksum.\<close>

theorem crc16_detects_burst:
  assumes "length xs = length ys" and "length xs \<le> 2" and "xs \<noteq> ys"
  shows "crc16 (pre @ xs @ post) \<noteq> crc16 (pre @ ys @ post)"
  using assms by (rule crc16_detects_burst_lemma)

theorem crc16_detects_burst_witness:
  "crc16 ([1, 2] @ [3, 4] @ [5]) \<noteq> crc16 ([1, 2] @ [4, 3] @ [5])"
  using crc16_detects_burst [of "[3, 4]" "[4, 3]" "[1, 2]" "[5]"] by simp

end
