(* ===== verification/StreamParser.thy ===== *)
theory StreamParser
  imports Bytes
begin

section \<open>The contract of an incremental frame parser\<close>

text \<open>
  Both ends of the serial link read a byte stream through a state machine that consumes one
  byte at a time and may complete a frame. \<open>run_parser\<close> is the loop around such a machine
  (\<^verbatim>\<open>FrameParser.feed\<close>, \<^verbatim>\<open>proto_feed\<close>). The locale \<open>frame_stream\<close> states what a provider
  promises of its step function, and proves once what a user of the loop relies on: how the
  serial layer fragments its reads does not matter, a stream of frames separated by noise
  yields exactly those frames, and whatever is yielded was on the wire, whole and in order.
\<close>

primrec run_parser :: "('s \<Rightarrow> byte \<Rightarrow> 's \<times> 'f option) \<Rightarrow> 's \<Rightarrow> bytes \<Rightarrow> 's \<times> 'f list" where
  "run_parser step s [] = (s, [])"
| "run_parser step s (b # bs) =
     (let (s', r) = step s b; (s'', fs) = run_parser step s' bs
      in (s'', (case r of None \<Rightarrow> fs | Some f \<Rightarrow> f # fs)))"

lemma run_parser_append:
  "run_parser step s (xs @ ys) =
     (let (s', fs) = run_parser step s xs; (s'', gs) = run_parser step s' ys in (s'', fs @ gs))"
  by (induction xs arbitrary: s) (simp_all add: Let_def split_beta split: option.split)

text \<open>The bytes of \<open>fs\<close> occur in the stream whole, in order and without overlap.\<close>

inductive carries :: "('f \<Rightarrow> bytes) \<Rightarrow> 'f list \<Rightarrow> bytes \<Rightarrow> bool" for encode where
  carries_Nil: "carries encode [] bs"
| carries_Cons: "carries encode fs rest \<Longrightarrow> carries encode (f # fs) (noise @ encode f @ rest)"

inductive_cases carries_ConsE: "carries encode (f # fs) bs"

lemma carries_prefix: "carries encode fs bs \<Longrightarrow> carries encode fs (xs @ bs)"
proof (induction rule: carries.induct)
  case (carries_Nil bs)
  then show ?case by (rule carries.carries_Nil)
next
  case (carries_Cons fs rest f noise)
  show ?case using carries.carries_Cons [OF carries_Cons.hyps, of f "xs @ noise"] by simp
qed

lemma carries_Cons1: "carries encode fs bs \<Longrightarrow> carries encode fs (x # bs)"
  using carries_prefix [of encode fs bs "[x]"] by simp

lemma carries_single: "carries encode [f] bs \<Longrightarrow> \<exists>pre post. bs = pre @ encode f @ post"
  by (auto elim!: carries_ConsE)

lemma carries_length: "carries encode fs bs \<Longrightarrow> sum_list (map (length \<circ> encode) fs) \<le> length bs"
  by (induction rule: carries.induct) auto

text \<open>A stream as the wire shows it: frames with noise before each one.\<close>

definition stream_of :: "('f \<Rightarrow> bytes) \<Rightarrow> (bytes \<times> 'f) list \<Rightarrow> bytes" where
  "stream_of encode items = concat (map (\<lambda>(noise, f). noise @ encode f) items)"

locale frame_stream =
  fixes step :: "'s \<Rightarrow> byte \<Rightarrow> 's \<times> 'f option"
    and good :: "'s \<Rightarrow> bool"
    and part :: "'s \<Rightarrow> bytes"
    and encode :: "'f \<Rightarrow> bytes"
    and valid :: "'f \<Rightarrow> bool"
    and quiet :: "byte \<Rightarrow> bool"
  assumes step_good: "good s \<Longrightarrow> good (fst (step s b))"
    and step_none: "good s \<Longrightarrow> snd (step s b) = None \<Longrightarrow>
          part (fst (step s b)) = [] \<or> part (fst (step s b)) = part s @ [b]"
    and step_some: "good s \<Longrightarrow> snd (step s b) = Some f \<Longrightarrow>
          valid f \<and> encode f = part s @ [b] \<and> part (fst (step s b)) = []"
    and idle_quiet: "good s \<Longrightarrow> part s = [] \<Longrightarrow> quiet b \<Longrightarrow>
          snd (step s b) = None \<and> part (fst (step s b)) = []"
    and idle_frame: "good s \<Longrightarrow> part s = [] \<Longrightarrow> valid f \<Longrightarrow> snd (run_parser step s (encode f)) = [f]"
begin

lemma run_good: "good s \<Longrightarrow> good (fst (run_parser step s bs))"
  by (induction bs arbitrary: s) (simp_all add: Let_def split_beta step_good)

lemma run_chunks:
  "snd (run_parser step s (xs @ ys)) =
   snd (run_parser step s xs) @ snd (run_parser step (fst (run_parser step s xs)) ys)"
  by (simp add: run_parser_append Let_def split_beta)

lemma run_chunks_state:
  "fst (run_parser step s (xs @ ys)) = fst (run_parser step (fst (run_parser step s xs)) ys)"
  by (simp add: run_parser_append Let_def split_beta)

lemma run_sound:
  "good s \<Longrightarrow> carries encode (snd (run_parser step s bs)) (part s @ bs) \<and>
              (\<forall>f \<in> set (snd (run_parser step s bs)). valid f)"
proof (induction bs arbitrary: s)
  case Nil
  then show ?case by (simp add: carries_Nil)
next
  case (Cons b bs)
  obtain s' r where st: "step s b = (s', r)" by (cases "step s b")
  have g: "good s'" using step_good [OF Cons.prems, of b] st by simp
  note IH = Cons.IH [OF g]
  show ?case
  proof (cases r)
    case None
    then have "part s' = [] \<or> part s' = part s @ [b]"
      using step_none [OF Cons.prems, of b] st by simp
    then have "carries encode (snd (run_parser step s' bs)) (part s @ b # bs)"
      using IH carries_prefix [of encode _ bs "part s @ [b]"] by auto
    then show ?thesis using IH st None by (simp add: Let_def split_beta)
  next
    case (Some f)
    then have f: "valid f" "encode f = part s @ [b]" "part s' = []"
      using step_some [OF Cons.prems, of b f] st by simp_all
    have "carries encode (f # snd (run_parser step s' bs)) ([] @ encode f @ bs)"
      using IH f(3) by (intro carries_Cons) simp
    then show ?thesis using IH st Some f by (simp add: Let_def split_beta)
  qed
qed

lemma run_quiet:
  "good s \<Longrightarrow> part s = [] \<Longrightarrow> list_all quiet bs \<Longrightarrow>
   snd (run_parser step s bs) = [] \<and> part (fst (run_parser step s bs)) = []"
proof (induction bs arbitrary: s)
  case Nil
  then show ?case by simp
next
  case (Cons b bs)
  obtain s' r where st: "step s b = (s', r)" by (cases "step s b")
  have "good s'" "r = None" "part s' = []"
    using step_good [of s b] idle_quiet [of s b] Cons.prems st by auto
  then show ?case using Cons st by (simp add: Let_def split_beta)
qed

text \<open>After a frame the parser is idle again: the frame is what its last byte completed.\<close>

lemma run_last_idle:
  assumes "good s" and "snd (run_parser step s (bs @ [b])) \<noteq> snd (run_parser step s bs)"
  shows "part (fst (run_parser step s (bs @ [b]))) = []"
proof -
  let ?t = "fst (run_parser step s bs)"
  have g: "good ?t" by (rule run_good [OF assms(1)])
  obtain t' r where st: "step ?t b = (t', r)" by (cases "step ?t b")
  obtain f where "r = Some f" using assms(2) st by (cases r) (simp_all add: run_chunks Let_def)
  then have "part t' = []" using step_some [OF g, of b f] st by simp
  then show ?thesis using st by (simp add: run_chunks_state Let_def)
qed

lemma encode_nonempty: "good s \<Longrightarrow> part s = [] \<Longrightarrow> valid f \<Longrightarrow> encode f \<noteq> []"
  using idle_frame [of s f] by auto

lemma run_prefix_of_frame:
  assumes "good s" and "part s = []" and "valid f" and "encode f = xs @ [b]"
  shows "snd (run_parser step s xs) = []"
proof (rule ccontr)
  assume ne: "snd (run_parser step s xs) \<noteq> []"
  have "snd (run_parser step s (xs @ [b])) = [f]" using idle_frame [OF assms(1-3)] assms(4) by simp
  then have "snd (run_parser step s xs) = [f]"
    using ne by (simp add: run_chunks append_eq_Cons_conv)
  then have "carries encode [f] xs" using run_sound [OF assms(1), of xs] assms(2) by simp
  then have "length (encode f) \<le> length xs" using carries_length [of encode "[f]" xs] by simp
  then show False using assms(4) by simp
qed

lemma frame_idle:
  assumes "good s" and "part s = []" and "valid f"
  shows "part (fst (run_parser step s (encode f))) = []"
proof -
  obtain xs b where e: "encode f = xs @ [b]"
    using encode_nonempty [OF assms] by (cases "encode f" rule: rev_cases) auto
  show ?thesis
    using run_last_idle [OF assms(1), of xs b] idle_frame [OF assms] run_prefix_of_frame [OF assms e]
    by (simp add: e)
qed

lemma run_stream:
  assumes "good s" and "part s = []"
    and "list_all (\<lambda>(noise, f). list_all quiet noise \<and> valid f) items"
  shows "snd (run_parser step s (stream_of encode items)) = map snd items \<and>
         part (fst (run_parser step s (stream_of encode items))) = []"
  using assms
proof (induction items arbitrary: s)
  case Nil
  then show ?case by (simp add: stream_of_def)
next
  case (Cons it items)
  obtain noise f where it: "it = (noise, f)" by (cases it)
  let ?s1 = "fst (run_parser step s noise)"
  let ?s2 = "fst (run_parser step ?s1 (encode f))"
  have q: "snd (run_parser step s noise) = []" "part ?s1 = []" "good ?s1" and v: "valid f"
    using run_quiet [of s noise] run_good [of s noise] Cons.prems it by auto
  have "good ?s2" "part ?s2 = []" "snd (run_parser step ?s1 (encode f)) = [f]"
    using run_good [OF q(3)] frame_idle [OF q(3,2) v] idle_frame [OF q(3,2) v] by auto
  moreover have "stream_of encode (it # items) = noise @ encode f @ stream_of encode items"
    by (simp add: stream_of_def it)
  ultimately show ?case
    using Cons.IH [of ?s2] Cons.prems q it by (simp add: run_chunks run_chunks_state)
qed

end

end
