(* ===== verification/FrameParser.thy ===== *)
theory FrameParser
  imports StreamParser Crc16
begin

unbundle bit_operations_syntax

section \<open>The serial frame codec (serial/proto.py build_frame and FrameParser)\<close>

text \<open>
  \<open>build_frame\<close> assembles start byte, type, length, payload and checksum; \<open>frame_parser\<close> is
  the state of the class \<^verbatim>\<open>FrameParser\<close> with its counters, \<open>fp_step\<close> its \<^verbatim>\<open>_step\<close> (with the
  \<^verbatim>\<open>bytes_in\<close> count that \<^verbatim>\<open>feed\<close> does around it), \<open>fp_feed\<close> and \<open>fp_timeout\<close> the
  public methods. In the state \<open>WAIT_CRC_HI\<close> the length is at most \<open>MAX_PAYLOAD\<close>
  (\<open>parser_ok\<close>), so packing it as an unsigned 16-bit number cannot raise and is written
  \<open>le_bytes 2\<close>. The interpretation \<open>py\<close> discharges the contract \<open>frame_stream\<close>.
\<close>

definition SOF :: int where "SOF = 0x7E"
definition MAX_PAYLOAD :: int where "MAX_PAYLOAD = 256"
definition OVERHEAD :: int where "OVERHEAD = 6"

definition T_NETWORK :: int where "T_NETWORK = 0x4E"
definition T_ALGORITHM :: int where "T_ALGORITHM = 0x41"
definition T_DISTURBANCE :: int where "T_DISTURBANCE = 0x44"
definition T_CONTROL :: int where "T_CONTROL = 0x53"
definition T_ADV_TX :: int where "T_ADV_TX = 0x54"
definition T_RADIO :: int where "T_RADIO = 0x52"
definition T_PING :: int where "T_PING = 0x50"
definition T_STATS_REQ :: int where "T_STATS_REQ = 0x51"
definition T_MG_PLANT :: int where "T_MG_PLANT = 0x47"
definition T_MG_VIRTUAL :: int where "T_MG_VIRTUAL = 0x56"
definition T_MG_IFACE :: int where "T_MG_IFACE = 0x49"
definition T_TXAT :: int where "T_TXAT = 0x74"
definition T_ADV_REPORT :: int where "T_ADV_REPORT = 0x72"
definition T_STATE :: int where "T_STATE = 0x78"
definition T_ACK :: int where "T_ACK = 0x6B"
definition T_ERR :: int where "T_ERR = 0x65"
definition T_PONG :: int where "T_PONG = 0x70"
definition T_STATS :: int where "T_STATS = 0x71"

lemmas frame_type_defs = T_NETWORK_def T_ALGORITHM_def T_DISTURBANCE_def T_CONTROL_def T_ADV_TX_def
  T_RADIO_def T_PING_def T_STATS_REQ_def T_MG_PLANT_def T_MG_VIRTUAL_def T_MG_IFACE_def T_TXAT_def
  T_ADV_REPORT_def T_STATE_def T_ACK_def T_ERR_def T_PONG_def T_STATS_def

definition frame_types :: "int list" where
  "frame_types =
     [T_NETWORK, T_ALGORITHM, T_DISTURBANCE, T_CONTROL, T_ADV_TX, T_RADIO, T_PING, T_STATS_REQ,
      T_MG_PLANT, T_MG_VIRTUAL, T_MG_IFACE, T_TXAT, T_ADV_REPORT, T_STATE, T_ACK, T_ERR, T_PONG, T_STATS]"

text \<open>\<open>PAYLOAD_LEN\<close>: \<open>None\<close> is a variable length.\<close>

definition PAYLOAD_LEN :: "(int \<times> int option) list" where
  "PAYLOAD_LEN =
     [(T_NETWORK, None), (T_ALGORITHM, Some 36), (T_DISTURBANCE, Some 29), (T_CONTROL, Some 11),
      (T_RADIO, Some 9), (T_PING, Some 0), (T_STATS_REQ, Some 0), (T_ADV_TX, None)]"

definition known_type :: "int \<Rightarrow> bool" where
  "known_type t \<longleftrightarrow> t \<in> set (map fst PAYLOAD_LEN) \<or> t \<in> set frame_types"

record frame =
  fr_type :: int
  fr_payload :: bytes

definition build_frame :: "int \<Rightarrow> bytes \<Rightarrow> bytes result" where
  "build_frame ftype payload =
     (if int (length payload) > MAX_PAYLOAD then Inl ProtoError
      else bindR (bytes_of_ints [ftype]) (\<lambda>tb.
           bindR (struct_pack [FH] [int (length payload)]) (\<lambda>lb.
           let head = tb @ lb in
           bindR (struct_pack [FH] [crc16 (head @ payload)]) (\<lambda>cb.
           Inr ([byte_of SOF] @ head @ payload @ cb)))))"

datatype wait_state =
    WAIT_SOF | WAIT_TYPE | WAIT_LEN_LO | WAIT_LEN_HI | WAIT_PAYLOAD | WAIT_CRC_LO | WAIT_CRC_HI

record parser_stats =
  ps_frames_ok :: int
  ps_crc_errors :: int
  ps_len_errors :: int
  ps_resyncs :: int
  ps_timeouts :: int
  ps_bytes_in :: int

record frame_parser =
  fp_state :: wait_state
  fp_type :: int
  fp_expected :: int
  fp_buf :: bytes
  fp_crc_rx :: int
  fp_stats :: parser_stats

definition new_parser :: frame_parser where
  "new_parser = \<lparr>fp_state = WAIT_SOF, fp_type = 0, fp_expected = 0, fp_buf = [], fp_crc_rx = 0,
     fp_stats = \<lparr>ps_frames_ok = 0, ps_crc_errors = 0, ps_len_errors = 0, ps_resyncs = 0,
                 ps_timeouts = 0, ps_bytes_in = 0\<rparr>\<rparr>"

definition fp_reset :: "frame_parser \<Rightarrow> frame_parser" where
  "fp_reset p = p\<lparr>fp_state := WAIT_SOF, fp_type := 0, fp_expected := 0, fp_buf := [], fp_crc_rx := 0\<rparr>"

definition in_frame :: "frame_parser \<Rightarrow> bool" where
  "in_frame p \<longleftrightarrow> fp_state p \<noteq> WAIT_SOF"

definition count_timeout :: "parser_stats \<Rightarrow> parser_stats" where
  "count_timeout s = s\<lparr>ps_timeouts := ps_timeouts s + 1\<rparr>"

definition fp_timeout :: "frame_parser \<Rightarrow> frame_parser" where
  "fp_timeout p = (if in_frame p then fp_reset (p\<lparr>fp_stats := count_timeout (fp_stats p)\<rparr>) else p)"

definition count_byte :: "parser_stats \<Rightarrow> parser_stats" where
  "count_byte s = s\<lparr>ps_bytes_in := ps_bytes_in s + 1\<rparr>"

definition count_resync :: "parser_stats \<Rightarrow> parser_stats" where
  "count_resync s = s\<lparr>ps_resyncs := ps_resyncs s + 1\<rparr>"

definition count_len_error :: "parser_stats \<Rightarrow> parser_stats" where
  "count_len_error s = s\<lparr>ps_len_errors := ps_len_errors s + 1, ps_resyncs := ps_resyncs s + 1\<rparr>"

definition count_crc_error :: "parser_stats \<Rightarrow> parser_stats" where
  "count_crc_error s = s\<lparr>ps_crc_errors := ps_crc_errors s + 1, ps_resyncs := ps_resyncs s + 1\<rparr>"

definition count_frame :: "parser_stats \<Rightarrow> parser_stats" where
  "count_frame s = s\<lparr>ps_frames_ok := ps_frames_ok s + 1\<rparr>"

definition fp_step :: "frame_parser \<Rightarrow> byte \<Rightarrow> frame_parser \<times> frame option" where
  "fp_step p0 b =
     (let p = p0\<lparr>fp_stats := count_byte (fp_stats p0)\<rparr>; x = byte_val b in
      case fp_state p of
        WAIT_SOF \<Rightarrow> (if x = SOF then p\<lparr>fp_state := WAIT_TYPE\<rparr> else p, None)
      | WAIT_TYPE \<Rightarrow>
          (if known_type x then p\<lparr>fp_type := x, fp_state := WAIT_LEN_LO\<rparr>
           else p\<lparr>fp_stats := count_resync (fp_stats p), fp_state := WAIT_SOF\<rparr>, None)
      | WAIT_LEN_LO \<Rightarrow> (p\<lparr>fp_expected := x, fp_state := WAIT_LEN_HI\<rparr>, None)
      | WAIT_LEN_HI \<Rightarrow>
          (let e = fp_expected p OR push_bit 8 x in
           (if e > MAX_PAYLOAD
            then p\<lparr>fp_expected := e, fp_stats := count_len_error (fp_stats p), fp_state := WAIT_SOF\<rparr>
            else p\<lparr>fp_expected := e, fp_buf := [],
                   fp_state := (if e = 0 then WAIT_CRC_LO else WAIT_PAYLOAD)\<rparr>, None))
      | WAIT_PAYLOAD \<Rightarrow>
          (let buf = fp_buf p @ [b] in
           (if int (length buf) \<ge> fp_expected p then p\<lparr>fp_buf := buf, fp_state := WAIT_CRC_LO\<rparr>
            else p\<lparr>fp_buf := buf\<rparr>, None))
      | WAIT_CRC_LO \<Rightarrow> (p\<lparr>fp_crc_rx := x, fp_state := WAIT_CRC_HI\<rparr>, None)
      | WAIT_CRC_HI \<Rightarrow>
          (let crc = fp_crc_rx p OR push_bit 8 x;
               head = byte_of (fp_type p) # le_bytes 2 (fp_expected p);
               q = p\<lparr>fp_crc_rx := crc, fp_state := WAIT_SOF\<rparr>
           in if crc16 (head @ fp_buf p) = crc
              then (q\<lparr>fp_stats := count_frame (fp_stats q)\<rparr>,
                    Some \<lparr>fr_type = fp_type p, fr_payload = fp_buf p\<rparr>)
              else (q\<lparr>fp_stats := count_crc_error (fp_stats q)\<rparr>, None)))"

definition fp_feed :: "frame_parser \<Rightarrow> bytes \<Rightarrow> frame_parser \<times> frame list" where
  "fp_feed = run_parser fp_step"

subsection \<open>Frames on the wire\<close>

definition frame_body :: "frame \<Rightarrow> bytes" where
  "frame_body f = byte_of (fr_type f) # le_bytes 2 (int (length (fr_payload f))) @ fr_payload f"

definition wire_frame :: "frame \<Rightarrow> bytes" where
  "wire_frame f = byte_of SOF # frame_body f @ le_bytes 2 (crc16 (frame_body f))"

definition frame_ok :: "frame \<Rightarrow> bool" where
  "frame_ok f \<longleftrightarrow> known_type (fr_type f) \<and> int (length (fr_payload f)) \<le> MAX_PAYLOAD"

lemma known_type_byte: "known_type t \<Longrightarrow> 0 \<le> t \<and> t < 256"
  by (auto simp: known_type_def PAYLOAD_LEN_def frame_types_def frame_type_defs)

lemma build_frame_ok:
  assumes "0 \<le> t" "t < 256" "int (length pl) \<le> MAX_PAYLOAD"
  shows "build_frame t pl = Inr (wire_frame \<lparr>fr_type = t, fr_payload = pl\<rparr>)"
  using assms
  by (simp add: build_frame_def bytes_of_ints_def MAX_PAYLOAD_def wire_frame_def frame_body_def
                pack_raw_Cons Let_def)

lemma build_frame_long: "int (length pl) > MAX_PAYLOAD \<Longrightarrow> build_frame t pl = Inl ProtoError"
  by (simp add: build_frame_def)

lemma length_wire_frame: "int (length (wire_frame f)) = int (length (fr_payload f)) + OVERHEAD"
  by (simp add: wire_frame_def frame_body_def OVERHEAD_def)

lemma or_shift_8: "0 \<le> lo \<Longrightarrow> lo < 256 \<Longrightarrow> lo OR push_bit 8 x = lo + 256 * (x :: int)"
proof -
  assume lo: "0 \<le> lo" "lo < 256"
  have "lo = take_bit 8 lo" using lo by (simp add: take_bit_int_eq_self)
  then have nb: "bit lo n \<Longrightarrow> n < 8" for n by (metis bit_take_bit_iff)
  then have "lo + push_bit 8 x = lo OR push_bit 8 x"
    by (intro disjunctive_add) (auto simp: bit_push_bit_iff dest!: nb)
  then show ?thesis by (simp add: push_bit_eq_mult)
qed

lemma le_bytes_2: "le_bytes 2 x = [byte_of x, byte_of (x div 256)]"
  by (simp add: numeral_2_eq_2)

lemma crc_trailer:
  assumes "0 \<le> c" "c < 65536"
  shows "le_bytes 2 c = [lo, hi] \<longleftrightarrow> byte_val lo + 256 * byte_val hi = c"
proof -
  have "le_bytes 2 c = [lo, hi] \<longleftrightarrow> le_int (le_bytes 2 c) = le_int [lo, hi]"
    by (subst le_int_inject) simp_all
  also have "le_int (le_bytes 2 c) = c" using assms by (simp add: le_int_le_bytes)
  finally show ?thesis by auto
qed

subsection \<open>The parser meets the contract\<close>

text \<open>The bytes of the frame that is partially received.\<close>

definition fp_part :: "frame_parser \<Rightarrow> bytes" where
  "fp_part p =
     (let t = byte_of (fp_type p) in
      case fp_state p of
        WAIT_SOF \<Rightarrow> []
      | WAIT_TYPE \<Rightarrow> [byte_of SOF]
      | WAIT_LEN_LO \<Rightarrow> [byte_of SOF, t]
      | WAIT_LEN_HI \<Rightarrow> [byte_of SOF, t, byte_of (fp_expected p)]
      | WAIT_PAYLOAD \<Rightarrow> byte_of SOF # t # le_bytes 2 (fp_expected p) @ fp_buf p
      | WAIT_CRC_LO \<Rightarrow> byte_of SOF # t # le_bytes 2 (fp_expected p) @ fp_buf p
      | WAIT_CRC_HI \<Rightarrow>
          byte_of SOF # t # le_bytes 2 (fp_expected p) @ fp_buf p @ [byte_of (fp_crc_rx p)])"

definition parser_ok :: "frame_parser \<Rightarrow> bool" where
  "parser_ok p \<longleftrightarrow>
     int (length (fp_buf p)) \<le> MAX_PAYLOAD \<and>
     (fp_state p \<in> {WAIT_LEN_LO, WAIT_LEN_HI, WAIT_PAYLOAD, WAIT_CRC_LO, WAIT_CRC_HI} \<longrightarrow>
        known_type (fp_type p)) \<and>
     (fp_state p = WAIT_LEN_HI \<longrightarrow> 0 \<le> fp_expected p \<and> fp_expected p < 256) \<and>
     (fp_state p = WAIT_PAYLOAD \<longrightarrow>
        int (length (fp_buf p)) < fp_expected p \<and> fp_expected p \<le> MAX_PAYLOAD) \<and>
     (fp_state p \<in> {WAIT_CRC_LO, WAIT_CRC_HI} \<longrightarrow>
        int (length (fp_buf p)) = fp_expected p \<and> fp_expected p \<le> MAX_PAYLOAD) \<and>
     (fp_state p = WAIT_CRC_HI \<longrightarrow> 0 \<le> fp_crc_rx p \<and> fp_crc_rx p < 256)"

lemma new_parser_ok [inv_intros]: "parser_ok new_parser" and new_parser_part [simp]: "fp_part new_parser = []"
  by (simp_all add: parser_ok_def fp_part_def new_parser_def MAX_PAYLOAD_def)

lemma byte_val_SOF: "byte_val b = SOF \<longleftrightarrow> b = byte_of SOF"
proof -
  have "byte_val (byte_of SOF) = SOF" by (simp add: SOF_def)
  then show ?thesis by (metis byte_of_val)
qed

lemma len_word: "0 \<le> e \<Longrightarrow> e < 256 \<Longrightarrow>
    le_bytes 2 (e + 256 * byte_val b) = [byte_of e, b]"
proof -
  assume e: "0 \<le> e" "e < 256"
  have "0 \<le> byte_val b" "byte_val b \<le> 255" by simp_all
  then have "0 \<le> e + 256 * byte_val b" "e + 256 * byte_val b < 65536" using e by linarith+
  then show ?thesis using e by (subst crc_trailer) simp_all
qed

lemma fp_step_ok [inv_intros]:
  assumes "parser_ok p"
  shows "parser_ok (fst (fp_step p b))"
proof -
  obtain x where x: "x = byte_val b" "0 \<le> x" "x < 256" by simp
  show ?thesis using assms x(2,3)
    by (cases "fp_state p")
       (auto simp: fp_step_def parser_ok_def Let_def MAX_PAYLOAD_def or_shift_8 x(1) [symmetric])
qed

lemma fp_step_none:
  assumes "parser_ok p" and "snd (fp_step p b) = None"
  shows "fp_part (fst (fp_step p b)) = [] \<or> fp_part (fst (fp_step p b)) = fp_part p @ [b]"
proof (cases "fp_state p = WAIT_LEN_HI")
  case True
  define e where "e = fp_expected p + 256 * byte_val b"
  have l: "le_bytes 2 e = [byte_of (fp_expected p), b]"
    using assms(1) True by (simp add: e_def parser_ok_def len_word)
  have "fp_expected p OR push_bit 8 (byte_val b) = e"
    using assms(1) True by (simp add: e_def parser_ok_def or_shift_8)
  then show ?thesis using True l by (auto simp: fp_step_def fp_part_def Let_def)
next
  case False
  then show ?thesis using assms
    by (cases "fp_state p")
       (auto simp: fp_step_def parser_ok_def fp_part_def Let_def byte_val_SOF split: if_splits)
qed

lemma fp_step_some:
  assumes "parser_ok p" and "snd (fp_step p b) = Some f"
  shows "frame_ok f \<and> wire_frame f = fp_part p @ [b] \<and> fp_part (fst (fp_step p b)) = []"
proof -
  have st: "fp_state p = WAIT_CRC_HI"
    using assms(2) by (cases "fp_state p") (auto simp: fp_step_def Let_def split: if_splits)
  let ?body = "byte_of (fp_type p) # le_bytes 2 (fp_expected p) @ fp_buf p"
  have ok: "known_type (fp_type p)" "int (length (fp_buf p)) = fp_expected p"
      "fp_expected p \<le> MAX_PAYLOAD" "0 \<le> fp_crc_rx p" "fp_crc_rx p < 256"
    using assms(1) st by (simp_all add: parser_ok_def)
  have crc: "crc16 ?body = fp_crc_rx p + 256 * byte_val b"
    and f: "f = \<lparr>fr_type = fp_type p, fr_payload = fp_buf p\<rparr>"
    and idle: "fp_part (fst (fp_step p b)) = []"
    using assms(2) st ok by (auto simp: fp_step_def Let_def or_shift_8 fp_part_def split: if_splits)
  have "le_bytes 2 (crc16 ?body) = [byte_of (fp_crc_rx p), b]"
    using ok crc by (simp add: len_word)
  then have "wire_frame f = fp_part p @ [b]"
    using ok by (simp add: f wire_frame_def frame_body_def fp_part_def st)
  then show ?thesis using ok idle by (simp add: f frame_ok_def)
qed

lemma fp_idle_quiet:
  "fp_part p = [] \<Longrightarrow> b \<noteq> byte_of SOF \<Longrightarrow> snd (fp_step p b) = None \<and> fp_part (fst (fp_step p b)) = []"
  by (cases "fp_state p") (auto simp: fp_step_def fp_part_def Let_def byte_val_SOF)

lemma fp_idle_state: "fp_part p = [] \<longleftrightarrow> fp_state p = WAIT_SOF"
  by (cases "fp_state p") (auto simp: fp_part_def Let_def)

text \<open>The parser on a frame, piece by piece: header, payload, trailer.\<close>

definition stats_plus :: "int \<Rightarrow> parser_stats \<Rightarrow> parser_stats" where
  "stats_plus n s = s\<lparr>ps_bytes_in := ps_bytes_in s + n\<rparr>"

lemma stats_plus_simps [simp]:
  "stats_plus 0 s = s" "stats_plus m (stats_plus n s) = stats_plus (n + m) s"
  "count_byte s = stats_plus 1 s"
  by (simp_all add: stats_plus_def count_byte_def)

lemma fp_run_header:
  assumes "fp_state p = WAIT_SOF" "known_type t" "0 \<le> n" "n \<le> MAX_PAYLOAD"
  shows "fp_feed p (byte_of SOF # byte_of t # le_bytes 2 n) =
     (p\<lparr>fp_type := t, fp_expected := n, fp_buf := [],
        fp_state := (if n = 0 then WAIT_CRC_LO else WAIT_PAYLOAD),
        fp_stats := stats_plus 4 (fp_stats p)\<rparr>, [])"
proof -
  have t: "byte_val (byte_of t) = t" using known_type_byte [OF assms(2)] by simp
  have s: "byte_val (byte_of SOF) = SOF" by (simp add: SOF_def)
  have n: "byte_val (byte_of n) OR push_bit 8 (byte_val (byte_of (n div 256))) = n"
    using assms(3,4) by (subst or_shift_8) (auto simp: byte_val_of MAX_PAYLOAD_def)
  show ?thesis using assms
    by (simp add: fp_feed_def le_bytes_2 fp_step_def t s n Let_def)
qed

lemma fp_run_payload:
  assumes "fp_state p = WAIT_PAYLOAD" "pl \<noteq> []"
    and "int (length (fp_buf p) + length pl) = fp_expected p"
  shows "fp_feed p pl =
     (p\<lparr>fp_buf := fp_buf p @ pl, fp_state := WAIT_CRC_LO,
        fp_stats := stats_plus (int (length pl)) (fp_stats p)\<rparr>, [])"
  using assms
proof (induction pl arbitrary: p)
  case Nil
  then show ?case by simp
next
  case (Cons b pl)
  show ?case
  proof (cases "pl = []")
    case True
    then show ?thesis using Cons.prems by (simp add: fp_feed_def fp_step_def Let_def)
  next
    case False
    then have "0 < int (length pl)" by simp
    moreover have "fp_expected p = int (length (fp_buf p @ [b])) + int (length pl)"
      using Cons.prems(3) by simp
    ultimately have "\<not> fp_expected p \<le> int (length (fp_buf p @ [b]))" by linarith
    let ?q = "p\<lparr>fp_stats := stats_plus 1 (fp_stats p), fp_buf := fp_buf p @ [b]\<rparr>"
    have "fp_step p b = (?q, None)"
      using Cons.prems \<open>\<not> fp_expected p \<le> _\<close> by (simp add: fp_step_def Let_def)
    moreover have "fp_feed ?q pl = (?q\<lparr>fp_buf := fp_buf ?q @ pl, fp_state := WAIT_CRC_LO,
        fp_stats := stats_plus (int (length pl)) (fp_stats ?q)\<rparr>, [])"
      using Cons.prems False by (intro Cons.IH) simp_all
    ultimately show ?thesis by (simp add: fp_feed_def algebra_simps)
  qed
qed

lemma fp_run_trailer:
  assumes "fp_state p = WAIT_CRC_LO" "0 \<le> c" "c < 65536"
  shows "fp_feed p (le_bytes 2 c) =
    (if crc16 (byte_of (fp_type p) # le_bytes 2 (fp_expected p) @ fp_buf p) = c
     then (p\<lparr>fp_crc_rx := c, fp_state := WAIT_SOF,
             fp_stats := count_frame (stats_plus 2 (fp_stats p))\<rparr>,
           [\<lparr>fr_type = fp_type p, fr_payload = fp_buf p\<rparr>])
     else (p\<lparr>fp_crc_rx := c, fp_state := WAIT_SOF,
             fp_stats := count_crc_error (stats_plus 2 (fp_stats p))\<rparr>, []))"
proof -
  have c: "byte_val (byte_of c) OR push_bit 8 (byte_val (byte_of (c div 256))) = c"
    using assms(2,3) by (subst or_shift_8) (auto simp: byte_val_of)
  show ?thesis using assms(1)
    by (simp add: fp_feed_def fp_step_def Let_def c le_bytes_2)
qed

lemma fp_feed_append:
  "fp_feed p (xs @ ys) =
     (let (p', fs) = fp_feed p xs; (p'', gs) = fp_feed p' ys in (p'', fs @ gs))"
  by (simp add: fp_feed_def run_parser_append)

lemma fp_feed_seq: "fp_feed p xs = (q, []) \<Longrightarrow> fp_feed p (xs @ ys) = fp_feed q ys"
  by (simp add: fp_feed_append Let_def split_beta)

text \<open>A frame-shaped run of bytes with any trailer: delivered or counted as a checksum error.\<close>

lemma fp_run_frame:
  assumes "fp_state p = WAIT_SOF" "frame_ok f" "0 \<le> c" "c < 65536"
  shows "\<exists>q. fp_feed p (byte_of SOF # frame_body f @ le_bytes 2 c) =
           (q, if crc16 (frame_body f) = c then [f] else []) \<and>
         fp_state q = WAIT_SOF \<and>
         fp_stats q = (if crc16 (frame_body f) = c then count_frame else count_crc_error)
           (stats_plus (int (length (wire_frame f))) (fp_stats p))"
proof -
  define t where "t = fr_type f"
  define pl where "pl = fr_payload f"
  have tk: "known_type t" "int (length pl) \<le> MAX_PAYLOAD"
    using assms(2) by (simp_all add: frame_ok_def t_def pl_def)
  let ?n = "int (length pl)"
  let ?h = "p\<lparr>fp_type := t, fp_expected := ?n, fp_buf := [],
        fp_state := (if ?n = 0 then WAIT_CRC_LO else WAIT_PAYLOAD),
        fp_stats := stats_plus 4 (fp_stats p)\<rparr>"
  let ?b = "?h\<lparr>fp_buf := pl, fp_state := WAIT_CRC_LO, fp_stats := stats_plus (?n + 4) (fp_stats p)\<rparr>"
  have h: "fp_feed p (byte_of SOF # byte_of t # le_bytes 2 ?n) = (?h, [])"
    using tk by (intro fp_run_header assms) simp_all
  have b: "fp_feed ?h pl = (?b, [])"
  proof (cases "pl = []")
    case True
    then show ?thesis by (simp add: fp_feed_def)
  next
    case False
    then show ?thesis by (subst fp_run_payload) (simp_all add: algebra_simps)
  qed
  have split: "byte_of SOF # frame_body f @ le_bytes 2 c =
      (byte_of SOF # byte_of t # le_bytes 2 ?n) @ pl @ le_bytes 2 c"
    by (simp add: frame_body_def t_def pl_def)
  define B where "B = ?b"
  have B: "fp_state B = WAIT_CRC_LO" "fp_type B = t" "fp_expected B = ?n" "fp_buf B = pl"
      "fp_stats B = stats_plus (?n + 4) (fp_stats p)"
    by (simp_all add: B_def)
  have body: "byte_of (fp_type B) # le_bytes 2 (fp_expected B) @ fp_buf B = frame_body f"
    by (simp add: frame_body_def t_def pl_def B)
  have len: "stats_plus 2 (fp_stats B) = stats_plus (int (length (wire_frame f))) (fp_stats p)"
    using length_wire_frame [of f] by (simp add: OVERHEAD_def pl_def algebra_simps B)
  have f: "\<lparr>fr_type = fp_type B, fr_payload = fp_buf B\<rparr> = f" by (simp add: t_def pl_def B)
  have "fp_feed p (byte_of SOF # frame_body f @ le_bytes 2 c) = fp_feed B (le_bytes 2 c)"
    unfolding split B_def by (simp only: fp_feed_seq [OF h] fp_feed_seq [OF b])
  also have "\<dots> = (if crc16 (frame_body f) = c
     then (B\<lparr>fp_crc_rx := c, fp_state := WAIT_SOF,
        fp_stats := count_frame (stats_plus (int (length (wire_frame f))) (fp_stats p))\<rparr>, [f])
     else (B\<lparr>fp_crc_rx := c, fp_state := WAIT_SOF,
        fp_stats := count_crc_error (stats_plus (int (length (wire_frame f))) (fp_stats p))\<rparr>, []))"
    using fp_run_trailer [OF B(1) assms(3,4)] by (simp only: body len f)
  finally show ?thesis by simp
qed

interpretation py: frame_stream fp_step parser_ok fp_part wire_frame frame_ok "\<lambda>b. b \<noteq> byte_of SOF"
proof unfold_locales
  fix p b f
  show "parser_ok p \<Longrightarrow> parser_ok (fst (fp_step p b))" by (rule fp_step_ok)
  show "parser_ok p \<Longrightarrow> snd (fp_step p b) = None \<Longrightarrow>
        fp_part (fst (fp_step p b)) = [] \<or> fp_part (fst (fp_step p b)) = fp_part p @ [b]"
    by (rule fp_step_none)
  show "parser_ok p \<Longrightarrow> snd (fp_step p b) = Some f \<Longrightarrow>
        frame_ok f \<and> wire_frame f = fp_part p @ [b] \<and> fp_part (fst (fp_step p b)) = []"
    by (rule fp_step_some)
  show "parser_ok p \<Longrightarrow> fp_part p = [] \<Longrightarrow> b \<noteq> byte_of SOF \<Longrightarrow>
        snd (fp_step p b) = None \<and> fp_part (fst (fp_step p b)) = []"
    by (rule fp_idle_quiet)
  show "parser_ok p \<Longrightarrow> fp_part p = [] \<Longrightarrow> frame_ok f \<Longrightarrow>
        snd (run_parser fp_step p (wire_frame f)) = [f]"
    using fp_run_frame [of p f "crc16 (frame_body f)"]
    by (auto simp: fp_idle_state fp_feed_def wire_frame_def)
qed

subsection \<open>Properties\<close>

text \<open>What the serial link does to a parser: it feeds whatever a read returned, and calls
  \<^verbatim>\<open>timeout\<close> when the line has been idle.\<close>

datatype line_event = Read bytes | Idle

primrec fp_event :: "frame_parser \<Rightarrow> line_event \<Rightarrow> frame_parser \<times> frame list" where
  "fp_event p (Read bs) = fp_feed p bs"
| "fp_event p Idle = (fp_timeout p, [])"

primrec fp_events :: "frame_parser \<Rightarrow> line_event list \<Rightarrow> frame_parser \<times> frame list" where
  "fp_events p [] = (p, [])"
| "fp_events p (e # es) =
     (let (p', fs) = fp_event p e; (p'', gs) = fp_events p' es in (p'', fs @ gs))"

lemma fp_timeout_ok [inv_intros]: "parser_ok p \<Longrightarrow> parser_ok (fp_timeout p)"
  by (simp add: fp_timeout_def fp_reset_def parser_ok_def MAX_PAYLOAD_def)

lemma fp_timeout_idle: "fp_part (fp_timeout p) = []"
  by (simp add: fp_timeout_def fp_idle_state fp_reset_def in_frame_def)

lemma fp_feed_ok [inv_intros]: "parser_ok p \<Longrightarrow> parser_ok (fst (fp_feed p bs))"
  unfolding fp_feed_def by (rule py.run_good)

lemma fp_event_ok [inv_intros]: "parser_ok p \<Longrightarrow> parser_ok (fst (fp_event p e))"
  by (cases e) (simp_all add: inv_intros)

lemma fp_events_ok [inv_intros]: "parser_ok p \<Longrightarrow> parser_ok (fst (fp_events p es))"
  by (induction es arbitrary: p) (simp_all add: Let_def split_beta fp_event_ok)

lemma fp_step_counts:
  "ps_bytes_in (fp_stats (fst (fp_step p b))) = ps_bytes_in (fp_stats p) + 1 \<and>
   ps_frames_ok (fp_stats (fst (fp_step p b))) =
     ps_frames_ok (fp_stats p) + (if snd (fp_step p b) = None then 0 else 1) \<and>
   ps_timeouts (fp_stats (fst (fp_step p b))) = ps_timeouts (fp_stats p) \<and>
   (ps_crc_errors (fp_stats p) + ps_len_errors (fp_stats p) \<le> ps_resyncs (fp_stats p) \<longrightarrow>
    ps_crc_errors (fp_stats (fst (fp_step p b))) + ps_len_errors (fp_stats (fst (fp_step p b)))
      \<le> ps_resyncs (fp_stats (fst (fp_step p b))))"
  by (cases "fp_state p")
     (auto simp: fp_step_def Let_def stats_plus_def count_frame_def count_crc_error_def
                 count_len_error_def count_resync_def)

lemma fp_feed_counts:
  "ps_bytes_in (fp_stats (fst (fp_feed p bs))) = ps_bytes_in (fp_stats p) + int (length bs) \<and>
   ps_frames_ok (fp_stats (fst (fp_feed p bs))) =
     ps_frames_ok (fp_stats p) + int (length (snd (fp_feed p bs))) \<and>
   (ps_crc_errors (fp_stats p) + ps_len_errors (fp_stats p) \<le> ps_resyncs (fp_stats p) \<longrightarrow>
    ps_crc_errors (fp_stats (fst (fp_feed p bs))) + ps_len_errors (fp_stats (fst (fp_feed p bs)))
      \<le> ps_resyncs (fp_stats (fst (fp_feed p bs))))"
proof (induction bs arbitrary: p)
  case Nil
  then show ?case by (simp add: fp_feed_def)
next
  case (Cons b bs)
  show ?case
    using Cons.IH [of "fst (fp_step p b)"] fp_step_counts [of p b]
    by (simp add: fp_feed_def Let_def split_beta split: option.split)
qed

text \<open>C11: Serial delivery: a frame of a known type with at most 256 payload bytes is built without
  an error, and a stream of such frames, each after arbitrary noise free of the start byte,
  makes a new parser yield exactly those frames in order and leaves it idle.\<close>

theorem frame_stream_delivery:
  assumes "list_all (\<lambda>(noise, f). byte_of SOF \<notin> set noise \<and> frame_ok f) items"
  shows "traverse (\<lambda>(_, f). build_frame (fr_type f) (fr_payload f)) items
           = Inr (map (wire_frame \<circ> snd) items) \<and>
         snd (fp_feed new_parser (stream_of wire_frame items)) = map snd items \<and>
         \<not> in_frame (fst (fp_feed new_parser (stream_of wire_frame items)))"
proof -
  have "list_all (\<lambda>(noise, f). list_all (\<lambda>b. b \<noteq> byte_of SOF) noise \<and> frame_ok f) items"
    using assms by (auto simp: list_all_iff)
  then have "snd (fp_feed new_parser (stream_of wire_frame items)) = map snd items \<and>
      fp_part (fst (fp_feed new_parser (stream_of wire_frame items))) = []"
    unfolding fp_feed_def by (rule py.run_stream [OF new_parser_ok new_parser_part])
  moreover have "(case it of (_, f) \<Rightarrow> build_frame (fr_type f) (fr_payload f)) = Inr ((wire_frame \<circ> snd) it)"
    if "it \<in> set items" for it
  proof -
    obtain noise f where it: "it = (noise, f)" by (cases it)
    then have "frame_ok f" using assms that by (auto simp: list_all_iff)
    then have "build_frame (fr_type f) (fr_payload f)
        = Inr (wire_frame \<lparr>fr_type = fr_type f, fr_payload = fr_payload f\<rparr>)"
      using known_type_byte by (intro build_frame_ok) (simp_all add: frame_ok_def)
    then show ?thesis by (cases f) (simp add: it)
  qed
  ultimately show ?thesis
    by (simp add: traverse_all_Inr fp_idle_state in_frame_def)
qed

theorem frame_stream_delivery_witness:
  "snd (fp_feed new_parser (stream_of wire_frame
      [([0, 7], \<lparr>fr_type = T_PING, fr_payload = []\<rparr>),
       ([], \<lparr>fr_type = T_STATE, fr_payload = [0x7E, 0x7E, 1]\<rparr>)])) =
   [\<lparr>fr_type = T_PING, fr_payload = []\<rparr>, \<lparr>fr_type = T_STATE, fr_payload = [0x7E, 0x7E, 1]\<rparr>]"
proof -
  have "list_all (\<lambda>(noise, f). byte_of SOF \<notin> set noise \<and> frame_ok f)
      [([0, 7], \<lparr>fr_type = T_PING, fr_payload = []\<rparr>),
       ([], \<lparr>fr_type = T_STATE, fr_payload = [0x7E, 0x7E, 1]\<rparr>)]"
    by (simp add: frame_ok_def known_type_def frame_types_def MAX_PAYLOAD_def SOF_def byte_of_def)
  from frame_stream_delivery [OF this] show ?thesis by simp
qed

text \<open>C33: Serial soundness: on any byte stream whatever the parser yields was on the wire, whole,
  checksum included, in order and without overlap, and is of a known type and legal length.\<close>

theorem parser_sound:
  "carries wire_frame (snd (fp_feed new_parser bs)) bs \<and>
   list_all frame_ok (snd (fp_feed new_parser bs))"
  using py.run_sound [OF new_parser_ok, of bs] by (simp add: fp_feed_def list_all_iff)

text \<open>Fragmentation does not matter: feeding the reads one after the other is feeding their
  concatenation, for the frames and for the final state and counters alike.\<close>

theorem parser_fragmentation:
  "fp_events p (map Read chunks) = fp_feed p (concat chunks)"
proof (induction chunks arbitrary: p)
  case Nil
  then show ?case by (simp add: fp_feed_def)
next
  case (Cons c chunks)
  then show ?case by (simp add: fp_feed_append Let_def split_beta)
qed

text \<open>C32: A frame whose body was corrupted within two adjacent payload bytes on the way is never
  delivered: the checksum error is counted and the parser is idle for the next frame.\<close>

theorem corrupted_frame_rejected:
  assumes "frame_ok f" and "fr_payload f = pre @ xs @ post"
    and "length ys = length xs" and "length xs \<le> 2" and "ys \<noteq> xs"
  shows "\<exists>q. fp_feed new_parser
               (byte_of SOF # frame_body (f\<lparr>fr_payload := pre @ ys @ post\<rparr>)
                @ le_bytes 2 (crc16 (frame_body f))) = (q, []) \<and>
           \<not> in_frame q \<and> ps_crc_errors (fp_stats q) = 1 \<and> ps_frames_ok (fp_stats q) = 0"
proof -
  let ?g = "f\<lparr>fr_payload := pre @ ys @ post\<rparr>"
  let ?h = "byte_of (fr_type f) # le_bytes 2 (int (length (fr_payload f)))"
  have b: "frame_body f = (?h @ pre) @ xs @ post" "frame_body ?g = (?h @ pre) @ ys @ post"
    using assms(2,3) by (simp_all add: frame_body_def)
  have ne: "crc16 (frame_body ?g) \<noteq> crc16 (frame_body f)"
    unfolding b using assms(3-5) by (intro crc16_detects_burst_lemma) auto
  have "frame_ok ?g" using assms(1-3) by (simp add: frame_ok_def)
  moreover have "fp_state new_parser = WAIT_SOF" by (simp add: new_parser_def)
  ultimately show ?thesis
    using fp_run_frame [of new_parser ?g "crc16 (frame_body f)"] ne
    by (auto simp: in_frame_def count_crc_error_def stats_plus_def new_parser_def)
qed

theorem corrupted_frame_rejected_witness:
  "\<exists>q. fp_feed new_parser
     (byte_of SOF # frame_body \<lparr>fr_type = T_CONTROL, fr_payload = [1, 9, 8, 3]\<rparr>
      @ le_bytes 2 (crc16 (frame_body \<lparr>fr_type = T_CONTROL, fr_payload = [1, 2, 3, 3]\<rparr>))) = (q, []) \<and>
     ps_crc_errors (fp_stats q) = 1"
  using corrupted_frame_rejected [of "\<lparr>fr_type = T_CONTROL, fr_payload = [1, 2, 3, 3]\<rparr>"
      "[1]" "[2, 3]" "[3]" "[9, 8]"]
  by (auto simp: frame_ok_def known_type_def frame_types_def MAX_PAYLOAD_def)

text \<open>The idle timeout recovers the link: after any history of reads and timeouts, one more
  timeout makes the parser deliver the next frame, however the previous one was truncated.\<close>

theorem timeout_recovers:
  assumes "frame_ok f"
  shows "snd (fp_feed (fp_timeout (fst (fp_events new_parser es))) (wire_frame f)) = [f]"
  unfolding fp_feed_def
  by (rule py.idle_frame) (intro inv_intros fp_timeout_idle assms)+

theorem timeout_recovers_witness:
  "snd (fp_feed (fp_timeout (fst (fp_events new_parser [Read [0x7E, 0x78, 200]])))
     (wire_frame \<lparr>fr_type = T_ACK, fr_payload = [0x53, 0]\<rparr>)) = [\<lparr>fr_type = T_ACK, fr_payload = [0x53, 0]\<rparr>]"
  using timeout_recovers [of "\<lparr>fr_type = T_ACK, fr_payload = [0x53, 0]\<rparr>" "[Read [0x7E, 0x78, 200]]"]
  by (simp add: frame_ok_def known_type_def frame_types_def MAX_PAYLOAD_def)

text \<open>Bounds and counters: after any history of reads and timeouts the payload buffer is
  within the 256-byte limit and the checksum and length errors are among the counted
  resynchronisations, and a feed counts every byte it consumed and every frame it delivered.\<close>

theorem parser_bounds:
  "int (length (fp_buf (fst (fp_events new_parser es)))) \<le> MAX_PAYLOAD \<and>
   ps_crc_errors (fp_stats (fst (fp_feed new_parser bs)))
     + ps_len_errors (fp_stats (fst (fp_feed new_parser bs)))
     \<le> ps_resyncs (fp_stats (fst (fp_feed new_parser bs))) \<and>
   ps_bytes_in (fp_stats (fst (fp_feed p bs))) = ps_bytes_in (fp_stats p) + int (length bs) \<and>
   ps_frames_ok (fp_stats (fst (fp_feed p bs))) =
     ps_frames_ok (fp_stats p) + int (length (snd (fp_feed p bs)))"
proof -
  have "parser_ok (fst (fp_events new_parser es))" by (intro inv_intros)
  moreover have "ps_crc_errors (fp_stats new_parser) + ps_len_errors (fp_stats new_parser)
      \<le> ps_resyncs (fp_stats new_parser)"
    by (simp add: new_parser_def)
  ultimately show ?thesis
    using fp_feed_counts [of p bs] fp_feed_counts [of new_parser bs] by (auto simp: parser_ok_def)
qed

end
