(* ===== verification/ProtoPayload.thy ===== *)
theory ProtoPayload
  imports Codec FrameParser
begin

unbundle bit_operations_syntax

section \<open>Serial payloads (serial/proto.py encoders and decoders)\<close>

text \<open>
  The payload layouts of the serial protocol: the host's encoders with their range checks
  (\<open>encode_network\<close> to \<open>encode_radio\<close>, and the three microgrid blocks, whose keyword
  arguments are an association list), and the decoders of what a board reports
  (\<open>decode_adv_report\<close>, \<open>decode_state\<close>, \<open>decode_txat\<close>, \<open>decode_pong\<close>,
  \<open>decode_ack\<close>, \<open>decode_stats\<close>). The lemmas give the round trips, the exact length of
  every encoded payload against what the parser and the firmware accept, and that a decoder
  raises only \<^verbatim>\<open>ProtoError\<close>.
\<close>

definition MAX_NEIGHBORS :: nat where "MAX_NEIGHBORS = 16"
definition MAX_AD_LEN :: nat where "MAX_AD_LEN = 31"
definition ALPHA_HALF :: int where "ALPHA_HALF = 500000"

subsection \<open>Host to board\<close>

definition encode_network :: "bool \<Rightarrow> int \<Rightarrow> int list \<Rightarrow> bytes result" where
  "encode_network en node nbrs =
     (if \<not> (1 \<le> node \<and> node \<le> 255) then Inl ProtoError
      else if length nbrs > MAX_NEIGHBORS then Inl ProtoError
      else bytes_of_ints ((if en then 1 else 0) # node # nbrs))"

definition ALGORITHM_FMT :: "fmt list" where
  "ALGORITHM_FMT = replicate 10 Fi"

record algorithm_params =
  al_dt_ms :: int
  al_clock_ms :: int
  al_state0 :: int
  al_vstate0 :: int
  al_vartheta0 :: int
  al_counter0 :: int
  al_gain_ij :: int
  al_delta :: int
  al_eta :: int
  al_alpha :: int

definition encode_algorithm :: "algorithm_params \<Rightarrow> bytes result" where
  "encode_algorithm a =
     (if al_dt_ms a \<le> 0 \<or> al_clock_ms a \<le> 0 then Inl ProtoError
      else if al_alpha a \<le> 0 then Inl ProtoError
      else struct_pack ALGORITHM_FMT
        [al_dt_ms a, al_clock_ms a, al_state0 a, al_vstate0 a, al_vartheta0 a, al_counter0 a,
         al_gain_ij a, al_delta a, al_eta a, al_alpha a])"

type_synonym kwargs = "(string \<times> int) list"

definition MG_PLANT_FIELDS :: "string list" where
  "MG_PLANT_FIELDS = [''kappa'', ''S1'', ''S2'', ''p_max'', ''q_max'', ''X0_P'', ''X0_Q'']"

definition MG_VIRTUAL_FIELDS :: "string list" where
  "MG_VIRTUAL_FIELDS = [''T_o'', ''alpha_0'', ''delta_o'', ''kappa_o'', ''xi'', ''c_0'',
     ''b'', ''rP'', ''rQ'', ''degree'', ''z0_P'', ''z0_Q'']"

definition MG_IFACE_FIELDS :: "string list" where
  "MG_IFACE_FIELDS = [''mu_max'', ''gamma'', ''eps'', ''vartheta_0'', ''T_c'', ''beta_c'',
     ''Phi'', ''delta_c'', ''adapt_band'']"

definition LAW_MICROGRID_ADAPTIVE :: int where "LAW_MICROGRID_ADAPTIVE = 1"
definition LAW_MICROGRID_LC :: int where "LAW_MICROGRID_LC = 2"

definition mg_block :: "string list \<Rightarrow> bytes \<Rightarrow> kwargs \<Rightarrow> bytes result" where
  "mg_block names hdr got =
     (if \<not> list_all (\<lambda>f. f \<in> set (map fst got)) names then Inl ProtoError
      else if \<not> list_all (\<lambda>k. k \<in> set names) (map fst got) then Inl ProtoError
      else bindR (struct_pack (replicate (length names) Fi) (map (\<lambda>f. the (map_of got f)) names))
             (\<lambda>b. Inr (hdr @ b)))"

definition get_default :: "kwargs \<Rightarrow> string \<Rightarrow> int \<Rightarrow> int" where
  "get_default kw k d = (case map_of kw k of None \<Rightarrow> d | Some v \<Rightarrow> v)"

definition encode_microgrid_plant :: "int \<Rightarrow> kwargs \<Rightarrow> bytes result" where
  "encode_microgrid_plant profile kw =
     (if get_default kw ''kappa'' 0 \<le> 0 then Inl ProtoError
      else if get_default kw ''p_max'' 0 \<le> 0 \<or> get_default kw ''q_max'' 0 \<le> 0
      then Inl ProtoError
      else bindR (bytes_of_ints [profile]) (\<lambda>hdr. mg_block MG_PLANT_FIELDS hdr kw))"

definition encode_microgrid_virtual :: "kwargs \<Rightarrow> bytes result" where
  "encode_microgrid_virtual kw =
     (if map_of kw ''b'' = Some 0 \<and>
         (get_default kw ''rP'' 0 \<noteq> 0 \<or> get_default kw ''rQ'' 0 \<noteq> 0)
      then Inl ProtoError else mg_block MG_VIRTUAL_FIELDS [] kw)"

definition encode_microgrid_iface :: "int \<Rightarrow> bool \<Rightarrow> kwargs \<Rightarrow> bytes result" where
  "encode_microgrid_iface law terminal kw =
     (if law \<notin> {LAW_MICROGRID_ADAPTIVE, LAW_MICROGRID_LC} then Inl ProtoError
      else bindR (bytes_of_ints [law, if terminal then 1 else 0])
             (\<lambda>hdr. mg_block MG_IFACE_FIELDS hdr kw))"

definition encode_disturbance ::
  "bool \<Rightarrow> int \<Rightarrow> int \<Rightarrow> int \<Rightarrow> int \<Rightarrow> int \<Rightarrow> int \<Rightarrow> int \<Rightarrow> bytes result" where
  "encode_disturbance active sine freq phase noise offset beta samples =
     (if samples \<le> 0 then Inl ProtoError
      else bindR (bytes_of_ints [if active then 1 else 0]) (\<lambda>h.
           bindR (struct_pack (replicate 7 Fi) [sine, freq, phase, noise, offset, beta, samples])
             (\<lambda>b. Inr (h @ b))))"

definition encode_control :: "bool \<Rightarrow> int \<Rightarrow> int \<Rightarrow> bytes result" where
  "encode_control trigger seed epoch =
     (if \<not> (0 \<le> seed \<and> seed \<le> 0xFFFFFFFF) then Inl ProtoError
      else if \<not> (0 \<le> epoch \<and> epoch \<le> 2 ^ 48 - 1) then Inl ProtoError
      else bindR (bytes_of_ints [if trigger then 1 else 0]) (\<lambda>t.
           bindR (struct_pack [FI] [seed]) (\<lambda>s.
           bindR (to_bytes_le 6 epoch) (\<lambda>e. Inr (t @ s @ e)))))"

definition encode_adv_tx :: "bytes \<Rightarrow> bytes result" where
  "encode_adv_tx ad = (if length ad > MAX_AD_LEN then Inl ProtoError else Inr ad)"

definition encode_radio :: "int \<Rightarrow> int \<Rightarrow> int \<Rightarrow> int \<Rightarrow> bool \<Rightarrow> bool \<Rightarrow> bytes result" where
  "encode_radio adv_min adv_max scan_interval scan_window active advertising =
     (if scan_window > scan_interval then Inl ProtoError
      else if scan_interval = 0 then Inl ProtoError
      else struct_pack [FH, FH, FH, FH, FB]
        [adv_min, adv_max, scan_interval, scan_window,
         (if active then 1 else 0) OR (if advertising then 2 else 0)])"

definition encode_ping :: bytes where "encode_ping = []"
definition encode_stats_req :: bytes where "encode_stats_req = []"

subsection \<open>Board to host\<close>

record adv_report =
  ar_timestamp_us :: int
  ar_rssi :: int
  ar_addr_type :: int
  ar_addr :: bytes
  ar_adv_type :: int
  ar_data :: bytes

definition decode_adv_report :: "bytes \<Rightarrow> adv_report result" where
  "decode_adv_report payload =
     (if length payload < 18 then Inl ProtoError
      else bindR (struct_unpack [FQ, Fb, FB] payload) (\<lambda>fs. case fs of
        [ts, rssi, addr_type] \<Rightarrow>
          let n = nat (byte_val (payload ! 17)); data = take n (drop 18 payload) in
          if length data \<noteq> n then Inl ProtoError
          else Inr \<lparr>ar_timestamp_us = ts, ar_rssi = rssi, ar_addr_type = addr_type,
                    ar_addr = take 6 (drop 10 payload), ar_adv_type = byte_val (payload ! 16),
                    ar_data = data\<rparr>
      | _ \<Rightarrow> Inl ValueError))"

definition STATE_HEADER :: "fmt list" where "STATE_HEADER = [FQ, Fi, Fi, Fi, Fi, FB]"
definition STATE_NEIGHBOUR :: "fmt list" where "STATE_NEIGHBOUR = [Fi, FH, Fb, FB]"
definition STATE_TAIL :: "fmt list" where "STATE_TAIL = [Fi, Fi]"
definition STATE_TAIL_LC :: "fmt list" where "STATE_TAIL_LC = [Fi, Fi, Fi, Fi]"
definition STATE_FLAG_ENABLED :: int where "STATE_FLAG_ENABLED = 1"
definition STATE_FLAG_FRESH :: int where "STATE_FLAG_FRESH = 2"

record state_report =
  sr_t_us :: int
  sr_state :: int
  sr_vstate :: int
  sr_vartheta :: int
  sr_counter :: int
  sr_nvstates :: "int list"
  sr_nenabled :: "bool list"
  sr_nfresh :: "bool list"
  sr_nseq :: "int list"
  sr_nrssi :: "int list"
  sr_state_Q :: "int option"
  sr_vstate_Q :: "int option"
  sr_S1_hat :: "int option"
  sr_S2_hat :: "int option"

definition get_at :: "'a list \<Rightarrow> nat \<Rightarrow> 'a result" where
  "get_at xs i = (if i < length xs then Inr (xs ! i) else Inl IndexError)"

definition or_zero :: "int option \<Rightarrow> int" where
  "or_zero v = (case v of None \<Rightarrow> 0 | Some x \<Rightarrow> x)"

definition state_flags :: "bool \<Rightarrow> bool \<Rightarrow> int" where
  "state_flags en fr = (if en then STATE_FLAG_ENABLED else 0) OR (if fr then STATE_FLAG_FRESH else 0)"

definition encode_neighbour :: "state_report \<Rightarrow> nat \<Rightarrow> bytes result" where
  "encode_neighbour r i =
     bindR (get_at (sr_nenabled r) i) (\<lambda>en.
     bindR (get_at (sr_nfresh r) i) (\<lambda>fr.
     bindR (get_at (sr_nvstates r) i) (\<lambda>v.
       struct_pack STATE_NEIGHBOUR
         [v, (if i < length (sr_nseq r) then sr_nseq r ! i else 0),
          (if i < length (sr_nrssi r) then sr_nrssi r ! i else 0), state_flags en fr])))"

definition encode_tail :: "state_report \<Rightarrow> bytes result" where
  "encode_tail r =
     (if sr_S1_hat r \<noteq> None \<or> sr_S2_hat r \<noteq> None then
        struct_pack STATE_TAIL_LC
          [or_zero (sr_state_Q r), or_zero (sr_vstate_Q r), or_zero (sr_S1_hat r), or_zero (sr_S2_hat r)]
      else if sr_state_Q r \<noteq> None \<or> sr_vstate_Q r \<noteq> None then
        struct_pack STATE_TAIL [or_zero (sr_state_Q r), or_zero (sr_vstate_Q r)]
      else Inr [])"

definition encode_state :: "state_report \<Rightarrow> bytes result" where
  "encode_state r =
     (let n = length (sr_nvstates r) in
      bindR (struct_pack STATE_HEADER
               [sr_t_us r, sr_state r, sr_vstate r, sr_vartheta r, sr_counter r, int n]) (\<lambda>h.
      bindR (traverse (encode_neighbour r) [0..<n]) (\<lambda>nbs.
      bindR (encode_tail r) (\<lambda>tlr. Inr (h @ concat nbs @ tlr)))))"

definition decode_neighbour :: "bytes \<Rightarrow> nat \<Rightarrow> (int \<times> int \<times> int \<times> bool \<times> bool) result" where
  "decode_neighbour payload i =
     bindR (struct_unpack STATE_NEIGHBOUR
              (drop (calcsize STATE_HEADER + i * calcsize STATE_NEIGHBOUR) payload))
       (\<lambda>fs. case fs of
          [v, seq, rssi, flags] \<Rightarrow>
            Inr (v, seq, rssi, flags AND STATE_FLAG_ENABLED \<noteq> 0, flags AND STATE_FLAG_FRESH \<noteq> 0)
        | _ \<Rightarrow> Inl ValueError)"

definition decode_tail :: "bytes \<Rightarrow> nat \<Rightarrow> (int option \<times> int option \<times> int option \<times> int option) result" where
  "decode_tail payload want =
     (let tail = length payload - want in
      if tail = calcsize STATE_TAIL then
        bindR (struct_unpack STATE_TAIL (drop want payload)) (\<lambda>fs. case fs of
          [a, b] \<Rightarrow> Inr (Some a, Some b, None, None) | _ \<Rightarrow> Inl ValueError)
      else if tail = calcsize STATE_TAIL_LC then
        bindR (struct_unpack STATE_TAIL_LC (drop want payload)) (\<lambda>fs. case fs of
          [a, b, c, d] \<Rightarrow> Inr (Some a, Some b, Some c, Some d) | _ \<Rightarrow> Inl ValueError)
      else Inr (None, None, None, None))"

definition decode_state :: "bytes \<Rightarrow> state_report result" where
  "decode_state payload =
     (if length payload < calcsize STATE_HEADER then Inl ProtoError
      else bindR (struct_unpack STATE_HEADER payload) (\<lambda>fs. case fs of
        [t_us, state, vstate, vartheta, counter, n] \<Rightarrow>
          let want = calcsize STATE_HEADER + nat n * calcsize STATE_NEIGHBOUR;
              tail = int (length payload) - int want in
          if tail \<notin> {0, int (calcsize STATE_TAIL), int (calcsize STATE_TAIL_LC)} then Inl ProtoError
          else if n > int MAX_NEIGHBORS then Inl ProtoError
          else bindR (traverse (decode_neighbour payload) [0..<nat n]) (\<lambda>nbs.
               bindR (decode_tail payload want) (\<lambda>(sQ, vQ, s1, s2).
               Inr \<lparr>sr_t_us = t_us, sr_state = state, sr_vstate = vstate, sr_vartheta = vartheta,
                    sr_counter = counter,
                    sr_nvstates = map fst nbs,
                    sr_nenabled = map (\<lambda>(v, s, r, e, f). e) nbs,
                    sr_nfresh = map (\<lambda>(v, s, r, e, f). f) nbs,
                    sr_nseq = map (\<lambda>(v, s, r, e, f). s) nbs,
                    sr_nrssi = map (\<lambda>(v, s, r, e, f). r) nbs,
                    sr_state_Q = sQ, sr_vstate_Q = vQ, sr_S1_hat = s1, sr_S2_hat = s2\<rparr>))
      | _ \<Rightarrow> Inl ValueError))"

definition decode_txat :: "bytes \<Rightarrow> (int \<times> int) result" where
  "decode_txat payload =
     (if length payload \<noteq> 10 then Inl ProtoError
      else bindR (struct_unpack [FH, FQ] payload) (\<lambda>fs. case fs of
        [s, u] \<Rightarrow> Inr (s, u) | _ \<Rightarrow> Inl ValueError))"

definition decode_pong :: "bytes \<Rightarrow> int result" where
  "decode_pong payload =
     (if length payload \<noteq> 8 then Inl ProtoError
      else bindR (struct_unpack [FQ] payload) (\<lambda>fs. case fs of [u] \<Rightarrow> Inr u | _ \<Rightarrow> Inl ValueError))"

definition decode_ack :: "bytes \<Rightarrow> (int \<times> int) result" where
  "decode_ack payload =
     (if length payload \<noteq> 2 then Inl ProtoError
      else bindR (struct_unpack [Fb] (take 1 (drop 1 payload))) (\<lambda>fs. case fs of
        [s] \<Rightarrow> Inr (byte_val (payload ! 0), s) | _ \<Rightarrow> Inl ValueError))"

definition STATS_V1 :: int where "STATS_V1 = 1"

definition STATS_V1_COUNTERS :: "string list" where
  "STATS_V1_COUNTERS =
     [''devices'', ''ours'', ''foreign'', ''wrong_size'', ''malformed'', ''legacy_v0'',
      ''unknown_node'', ''queue_drops'', ''tx_frames'', ''tx_dropped'', ''rx_overrun_bytes'',
      ''rx_stopped'', ''rx_partial_flushes'', ''rx_full_flushes'', ''frames_ok'', ''crc_errors'',
      ''len_errors'', ''resyncs'', ''timeouts'']"

definition STATS_V1_RADIO :: "string list" where
  "STATS_V1_RADIO = [''adv_interval_min'', ''adv_interval_max'', ''scan_interval'', ''scan_window'']"

definition STATS_V1_LEN :: nat where
  "STATS_V1_LEN = 1 + 4 * length STATS_V1_COUNTERS + 2 * length STATS_V1_RADIO + 2"

definition STATS_FIELDS :: "string list" where
  "STATS_FIELDS =
     [''reports'', ''queue_dropped'', ''oversize'', ''tx_frames'', ''tx_dropped'',
      ''rx_overrun_bytes'', ''rx_stopped'', ''rx_partial_flushes'', ''rx_full_flushes'',
      ''frames_ok'', ''crc_errors'', ''timeouts'']"

type_synonym peer_stats = "(string \<times> int) list"

definition decode_stats :: "bytes \<Rightarrow> peer_stats result" where
  "decode_stats payload =
     (let n = length STATS_FIELDS; c = length STATS_V1_COUNTERS; r = length STATS_V1_RADIO in
      if length payload = 4 * n then
        bindR (struct_unpack (replicate n FI) payload) (\<lambda>vs. Inr (zip STATS_FIELDS vs))
      else if length payload = STATS_V1_LEN then
        (if byte_val (payload ! 0) \<noteq> STATS_V1 then Inl ProtoError
         else bindR (struct_unpack (replicate c FI) (drop 1 payload)) (\<lambda>cs.
              bindR (struct_unpack (replicate r FH) (drop (1 + 4 * c) payload)) (\<lambda>rs.
              let off = 1 + 4 * c + 2 * r in
              bindR (struct_unpack [Fb] (drop off payload)) (\<lambda>ps.
              Inr (zip STATS_V1_COUNTERS cs @ zip STATS_V1_RADIO rs @
                   zip [''granted_tx_power''] ps @
                   [(''scan_active'', byte_val (payload ! (off + 1)))])))))
      else Inl ProtoError)"

definition stats_delta :: "peer_stats \<Rightarrow> peer_stats \<Rightarrow> peer_stats" where
  "stats_delta now earlier = map (\<lambda>(k, v). (k, v - get_default earlier k 0)) now"

definition lost_internally :: "peer_stats \<Rightarrow> int" where
  "lost_internally s = get_default s ''queue_dropped'' 0 + get_default s ''tx_dropped'' 0"

lemmas state_fmts = STATE_HEADER_def STATE_NEIGHBOUR_def STATE_TAIL_def STATE_TAIL_LC_def

subsection \<open>Lengths\<close>

lemma pack_length: "struct_pack fs vs = Inr b \<Longrightarrow> length b = calcsize fs"
  by (auto simp: struct_pack_Inr_iff list_all2_lengthD)

lemma bytes_of_ints_length: "bytes_of_ints xs = Inr b \<Longrightarrow> length b = length xs"
  by (auto simp: bytes_of_ints_def split: if_splits)

lemma calcsize_replicate [simp]: "calcsize (replicate n f) = n * fmt_size f"
  by (induction n) simp_all

lemma mg_block_length: "mg_block names hdr got = Inr b \<Longrightarrow> length b = length hdr + 4 * length names"
  by (auto simp: mg_block_def result_simps dest: pack_length split: if_splits)

lemma mg_block_missing: "f \<in> set names \<Longrightarrow> f \<notin> set (map fst got) \<Longrightarrow> mg_block names hdr got = Inl ProtoError"
  by (auto simp: mg_block_def list_all_iff)

text \<open>Every payload a host encoder returns has the length the firmware's parser admits
  for its type (\<^verbatim>\<open>proto.h\<close>), and with the six bytes of framing fits the one 64-byte USB packet a
  board can receive.\<close>

theorem payload_lengths:
  "(case encode_network en node nbrs of Inl _ \<Rightarrow> True
     | Inr b \<Rightarrow> length b = 2 + length nbrs \<and> length b \<le> 2 + MAX_NEIGHBORS) \<and>
   (case encode_algorithm al of Inl _ \<Rightarrow> True | Inr b \<Rightarrow> length b = 40) \<and>
   (case encode_disturbance act sn fr ph no off be sa of Inl _ \<Rightarrow> True | Inr b \<Rightarrow> length b = 29) \<and>
   (case encode_control trig seed ep of Inl _ \<Rightarrow> True | Inr b \<Rightarrow> length b = 11) \<and>
   (case encode_radio a1 a2 s1 s2 sc adv of Inl _ \<Rightarrow> True | Inr b \<Rightarrow> length b = 9) \<and>
   (case encode_microgrid_plant prof kp of Inl _ \<Rightarrow> True | Inr b \<Rightarrow> length b = 29) \<and>
   (case encode_microgrid_virtual kv of Inl _ \<Rightarrow> True | Inr b \<Rightarrow> length b = 48) \<and>
   (case encode_microgrid_iface law term ki of Inl _ \<Rightarrow> True | Inr b \<Rightarrow> length b = 38) \<and>
   (case encode_adv_tx ad of Inl _ \<Rightarrow> True | Inr b \<Rightarrow> length b \<le> 31) \<and>
   int 48 + OVERHEAD \<le> 64"
proof (intro conjI)
  show "case encode_network en node nbrs of Inl _ \<Rightarrow> True
     | Inr b \<Rightarrow> length b = 2 + length nbrs \<and> length b \<le> 2 + MAX_NEIGHBORS"
    by (auto simp: encode_network_def dest: bytes_of_ints_length split: sum.split)
  show "case encode_algorithm al of Inl _ \<Rightarrow> True | Inr b \<Rightarrow> length b = 40"
    by (auto simp: encode_algorithm_def ALGORITHM_FMT_def dest!: pack_length split: sum.split)
  show "case encode_disturbance act sn fr ph no off be sa of Inl _ \<Rightarrow> True | Inr b \<Rightarrow> length b = 29"
    by (auto simp: encode_disturbance_def result_simps dest!: pack_length bytes_of_ints_length
             split: sum.split)
  show "case encode_control trig seed ep of Inl _ \<Rightarrow> True | Inr b \<Rightarrow> length b = 11"
    by (auto simp: encode_control_def result_simps to_bytes_le_def
             dest!: pack_length bytes_of_ints_length split: sum.split if_splits)
  show "case encode_radio a1 a2 s1 s2 sc adv of Inl _ \<Rightarrow> True | Inr b \<Rightarrow> length b = 9"
    by (auto simp: encode_radio_def dest!: pack_length split: sum.split)
  show "case encode_microgrid_plant prof kp of Inl _ \<Rightarrow> True | Inr b \<Rightarrow> length b = 29"
    by (auto simp: encode_microgrid_plant_def result_simps MG_PLANT_FIELDS_def
             dest!: mg_block_length bytes_of_ints_length split: sum.split)
  show "case encode_microgrid_virtual kv of Inl _ \<Rightarrow> True | Inr b \<Rightarrow> length b = 48"
    by (auto simp: encode_microgrid_virtual_def MG_VIRTUAL_FIELDS_def
             dest!: mg_block_length split: sum.split)
  show "case encode_microgrid_iface law term ki of Inl _ \<Rightarrow> True | Inr b \<Rightarrow> length b = 38"
    by (auto simp: encode_microgrid_iface_def result_simps MG_IFACE_FIELDS_def
             dest!: mg_block_length bytes_of_ints_length split: sum.split)
  show "case encode_adv_tx ad of Inl _ \<Rightarrow> True | Inr b \<Rightarrow> length b \<le> 31"
    by (auto simp: encode_adv_tx_def MAX_AD_LEN_def split: sum.split)
  show "int 48 + OVERHEAD \<le> 64" by (simp add: OVERHEAD_def)
qed

text \<open>The documented payload length of the ALGORITHM frame is not the encoded one:
  \<^verbatim>\<open>PAYLOAD_LEN\<close> says 36 where every valid algorithm block encodes to 40 bytes.\<close>

theorem algorithm_length_divergence:
  "map_of PAYLOAD_LEN T_ALGORITHM = Some (Some 36) \<and>
   encode_algorithm \<lparr>al_dt_ms = 25, al_clock_ms = 25, al_state0 = 0, al_vstate0 = 0, al_vartheta0 = 0,
      al_counter0 = 0, al_gain_ij = 1, al_delta = 1, al_eta = 1, al_alpha = ALPHA_HALF\<rparr>
     = Inr (pack_raw ALGORITHM_FMT [25, 25, 0, 0, 0, 0, 1, 1, 1, ALPHA_HALF]) \<and>
   length (pack_raw ALGORITHM_FMT [25, 25, 0, 0, 0, 0, 1, 1, 1, ALPHA_HALF]) = 40"
proof -
  have "list_all2 fits ALGORITHM_FMT [25, 25, 0, 0, 0, 0, 1, 1, 1, ALPHA_HALF]"
    by (simp add: ALGORITHM_FMT_def numeral_eq_Suc ALPHA_HALF_def)
  then show ?thesis
    by (simp add: PAYLOAD_LEN_def frame_type_defs encode_algorithm_def ALPHA_HALF_def)
       (simp add: ALGORITHM_FMT_def)
qed

text \<open>The CONTROL payload carries trigger, seed and clock offset at the offsets the firmware
  reads them from, for every seed and offset the encoder admits; any other raises
  \<^verbatim>\<open>ProtoError\<close>.\<close>

theorem control_layout:
  "encode_control trig seed ep =
     (if 0 \<le> seed \<and> seed < 2 ^ 32 \<and> 0 \<le> ep \<and> ep < 2 ^ 48
      then Inr ([byte_of (if trig then 1 else 0)] @ le_bytes 4 seed @ le_bytes 6 ep)
      else Inl ProtoError) \<and>
   le_int (le_bytes 4 seed) = seed mod 2 ^ 32 \<and> le_int (le_bytes 6 ep) = ep mod 2 ^ 48"
  by (auto simp: encode_control_def bytes_of_ints_def pack_raw_Cons le_int_le_bytes)

subsection \<open>STATE reports\<close>

definition neighbour_ok :: "state_report \<Rightarrow> nat \<Rightarrow> bool" where
  "neighbour_ok r i \<longleftrightarrow>
     fits Fi (sr_nvstates r ! i) \<and> fits FH (sr_nseq r ! i) \<and> fits Fb (sr_nrssi r ! i)"

definition tail_ok :: "state_report \<Rightarrow> bool" where
  "tail_ok r \<longleftrightarrow>
     (case (sr_state_Q r, sr_vstate_Q r, sr_S1_hat r, sr_S2_hat r) of
        (None, None, None, None) \<Rightarrow> True
      | (Some a, Some b, None, None) \<Rightarrow> fits Fi a \<and> fits Fi b
      | (Some a, Some b, Some c, Some d) \<Rightarrow> fits Fi a \<and> fits Fi b \<and> fits Fi c \<and> fits Fi d
      | _ \<Rightarrow> False)"

definition report_ok :: "state_report \<Rightarrow> bool" where
  "report_ok r \<longleftrightarrow>
     fits FQ (sr_t_us r) \<and> fits Fi (sr_state r) \<and> fits Fi (sr_vstate r) \<and>
     fits Fi (sr_vartheta r) \<and> fits Fi (sr_counter r) \<and>
     length (sr_nvstates r) \<le> MAX_NEIGHBORS \<and>
     length (sr_nenabled r) = length (sr_nvstates r) \<and> length (sr_nfresh r) = length (sr_nvstates r) \<and>
     length (sr_nseq r) = length (sr_nvstates r) \<and> length (sr_nrssi r) = length (sr_nvstates r) \<and>
     list_all (neighbour_ok r) [0..<length (sr_nvstates r)] \<and> tail_ok r"

definition neighbour_raw :: "state_report \<Rightarrow> nat \<Rightarrow> bytes" where
  "neighbour_raw r i = pack_raw STATE_NEIGHBOUR
     [sr_nvstates r ! i, sr_nseq r ! i, sr_nrssi r ! i, state_flags (sr_nenabled r ! i) (sr_nfresh r ! i)]"

lemma state_flags_eq: "state_flags e f = flags_of e f"
  by (simp add: state_flags_def flags_of_def STATE_FLAG_ENABLED_def STATE_FLAG_FRESH_def)

lemma state_flags_bits:
  "state_flags e f AND STATE_FLAG_ENABLED \<noteq> 0 \<longleftrightarrow> e" "state_flags e f AND STATE_FLAG_FRESH \<noteq> 0 \<longleftrightarrow> f"
  unfolding state_flags_eq STATE_FLAG_ENABLED_def STATE_FLAG_FRESH_def by (rule flags_of_bits)+

lemma neighbour_fits:
  assumes "report_ok r" "i < length (sr_nvstates r)"
  shows "list_all2 fits STATE_NEIGHBOUR [sr_nvstates r ! i, sr_nseq r ! i, sr_nrssi r ! i,
           state_flags (sr_nenabled r ! i) (sr_nfresh r ! i)]"
  using assms flags_of_range [of "sr_nenabled r ! i" "sr_nfresh r ! i"]
  by (auto simp: report_ok_def list_all_iff neighbour_ok_def STATE_NEIGHBOUR_def state_flags_eq)

lemma encode_neighbour_ok:
  assumes "report_ok r" "i < length (sr_nvstates r)"
  shows "encode_neighbour r i = Inr (neighbour_raw r i)"
  using assms neighbour_fits [OF assms]
  by (simp add: encode_neighbour_def get_at_def report_ok_def neighbour_raw_def)

definition tail_raw :: "state_report \<Rightarrow> bytes" where
  "tail_raw r =
     (case (sr_state_Q r, sr_vstate_Q r, sr_S1_hat r, sr_S2_hat r) of
        (Some a, Some b, None, None) \<Rightarrow> pack_raw STATE_TAIL [a, b]
      | (Some a, Some b, Some c, Some d) \<Rightarrow> pack_raw STATE_TAIL_LC [a, b, c, d]
      | _ \<Rightarrow> [])"

lemma encode_tail_ok: "tail_ok r \<Longrightarrow> encode_tail r = Inr (tail_raw r)"
  by (auto simp: tail_ok_def encode_tail_def tail_raw_def or_zero_def STATE_TAIL_def STATE_TAIL_LC_def
           split: option.splits)

lemma tail_length: "tail_ok r \<Longrightarrow> length (tail_raw r) \<in> {0, 8, 16}"
  by (auto simp: tail_ok_def tail_raw_def STATE_TAIL_def STATE_TAIL_LC_def split: option.splits)

lemma decode_tail_raw:
  assumes "tail_ok r" "length p = want"
  shows "decode_tail (p @ tail_raw r) want = Inr (sr_state_Q r, sr_vstate_Q r, sr_S1_hat r, sr_S2_hat r)"
  using assms
  by (auto simp: tail_ok_def decode_tail_def tail_raw_def Let_def STATE_TAIL_def STATE_TAIL_LC_def
           split: option.splits)

lemma drop_blocks:
  assumes "\<And>i. length (g i) = k" "i < n"
  shows "drop (i * k) (concat (map g [0..<n]) @ tlr) = g i @ drop (Suc i * k) (concat (map g [0..<n]) @ tlr)"
proof -
  have len: "length (concat (map g [0..<m])) = m * k" for m
    by (induction m) (simp_all add: assms(1))
  have "[0..<n] = [0..<i] @ i # [Suc i..<n]"
    using assms(2) upt_add_eq_append [of 0 i "n - i"] by (simp add: upt_conv_Cons)
  then have c: "concat (map g [0..<n]) @ tlr = concat (map g [0..<i]) @ g i @ concat (map g [Suc i..<n]) @ tlr"
    by simp
  show ?thesis unfolding c by (simp add: len assms(1))
qed

lemma state_sizes:
  "calcsize STATE_HEADER = 25" "calcsize STATE_NEIGHBOUR = 8" "calcsize STATE_TAIL = 8"
  "calcsize STATE_TAIL_LC = 16"
  by (simp_all add: state_fmts)

lemma decode_state_parts:
  assumes "struct_unpack STATE_HEADER P = Inr [t, s, v, th, c, int n]"
    and "length P = 25 + n * 8 + k" and "k \<in> {0, 8, 16}" and "n \<le> 16"
    and "traverse (decode_neighbour P) [0..<n] = Inr nbs"
    and "decode_tail P (25 + n * 8) = Inr (sQ, vQ, s1, s2)"
  shows "decode_state P = Inr \<lparr>sr_t_us = t, sr_state = s, sr_vstate = v, sr_vartheta = th, sr_counter = c,
           sr_nvstates = map fst nbs, sr_nenabled = map (\<lambda>(v, s, r, e, f). e) nbs,
           sr_nfresh = map (\<lambda>(v, s, r, e, f). f) nbs, sr_nseq = map (\<lambda>(v, s, r, e, f). s) nbs,
           sr_nrssi = map (\<lambda>(v, s, r, e, f). r) nbs,
           sr_state_Q = sQ, sr_vstate_Q = vQ, sr_S1_hat = s1, sr_S2_hat = s2\<rparr>"
  using assms by (auto simp: decode_state_def state_sizes MAX_NEIGHBORS_def Let_def)

lemma state_report_back:
  assumes "report_ok r"
  shows "bindR (encode_state r) decode_state = Inr r"
proof -
  define n where "n = length (sr_nvstates r)"
  define hdr where "hdr = [sr_t_us r, sr_state r, sr_vstate r, sr_vartheta r, sr_counter r, int n]"
  define nb where "nb = map (neighbour_raw r) [0..<n]"
  have n16: "n \<le> 16" using assms by (simp add: report_ok_def n_def MAX_NEIGHBORS_def)
  have fit: "list_all2 fits STATE_HEADER hdr"
    using assms n16 by (simp add: report_ok_def STATE_HEADER_def hdr_def)
  have lhdr: "length (pack_raw STATE_HEADER hdr) = 25" by (simp add: hdr_def STATE_HEADER_def)
  have lnb: "length (neighbour_raw r i) = 8" for i
    by (simp add: neighbour_raw_def STATE_NEIGHBOUR_def)
  have lcb: "length (concat nb) = n * 8"
    unfolding nb_def by (induction n) (simp_all add: lnb)
  have tok: "tail_ok r" using assms by (simp add: report_ok_def)
  let ?p = "pack_raw STATE_HEADER hdr @ concat nb @ tail_raw r"
  have "traverse (encode_neighbour r) [0..<n] = Inr nb"
    unfolding nb_def by (rule traverse_all_Inr) (simp add: encode_neighbour_ok assms n_def)
  then have enc: "encode_state r = Inr ?p"
    using fit encode_tail_ok [OF tok] by (simp add: encode_state_def n_def [symmetric] hdr_def)
  note cs = state_sizes
  have nbd: "decode_neighbour ?p i = Inr (sr_nvstates r ! i, sr_nseq r ! i, sr_nrssi r ! i,
      sr_nenabled r ! i, sr_nfresh r ! i)" if i: "i < n" for i
  proof -
    have "drop (25 + i * 8) ?p = neighbour_raw r i @ drop (Suc i * 8) (concat nb @ tail_raw r)"
      using drop_blocks [of "neighbour_raw r" 8 i n "tail_raw r"] lnb i lhdr by (simp add: nb_def add.commute)
    then have "struct_unpack STATE_NEIGHBOUR (drop (25 + i * 8) ?p) =
        Inr [sr_nvstates r ! i, sr_nseq r ! i, sr_nrssi r ! i,
             state_flags (sr_nenabled r ! i) (sr_nfresh r ! i)]"
      using neighbour_fits [OF assms, of i] i by (simp only: neighbour_raw_def struct_unpack_pack n_def)
    then show ?thesis by (simp only: decode_neighbour_def cs bindR_Inr list.case state_flags_bits)
  qed
  have dn: "traverse (decode_neighbour ?p) [0..<n] = Inr (map (\<lambda>i. (sr_nvstates r ! i, sr_nseq r ! i,
      sr_nrssi r ! i, sr_nenabled r ! i, sr_nfresh r ! i)) [0..<n])"
    by (rule traverse_all_Inr) (simp add: nbd)
  have dt: "decode_tail ?p (25 + n * 8) = Inr (sr_state_Q r, sr_vstate_Q r, sr_S1_hat r, sr_S2_hat r)"
    using decode_tail_raw [OF tok, of "pack_raw STATE_HEADER hdr @ concat nb" "25 + n * 8"] lhdr lcb by simp
  have lens: "length (sr_nenabled r) = n" "length (sr_nfresh r) = n" "length (sr_nseq r) = n"
      "length (sr_nrssi r) = n" using assms by (simp_all add: report_ok_def n_def)
  have up: "struct_unpack STATE_HEADER ?p = Inr [sr_t_us r, sr_state r, sr_vstate r, sr_vartheta r,
      sr_counter r, int n]" using fit by (simp add: hdr_def)
  have nths: "map ((!) (sr_nvstates r)) [0..<n] = sr_nvstates r"
      "map ((!) (sr_nenabled r)) [0..<n] = sr_nenabled r" "map ((!) (sr_nfresh r)) [0..<n] = sr_nfresh r"
      "map ((!) (sr_nseq r)) [0..<n] = sr_nseq r" "map ((!) (sr_nrssi r)) [0..<n] = sr_nrssi r"
    using lens map_nth n_def by metis+
  have "length ?p = 25 + n * 8 + length (tail_raw r)" by (simp add: lhdr lcb)
  from decode_state_parts [OF up this tail_length [OF tok] n16 dn dt]
  have "decode_state ?p = Inr r"
    by (simp add: comp_def nths n_def [symmetric])
  then show ?thesis by (simp add: enc)
qed

text \<open>A STATE report survives the link: every well-formed report, with up to 16 neighbours
  and either tail, encodes and decodes to itself.\<close>

theorem state_report_roundtrip:
  assumes "report_ok r"
  shows "bindR (encode_state r) decode_state = Inr r"
  by (rule state_report_back [OF assms])

theorem state_report_roundtrip_witness:
  "bindR (encode_state \<lparr>sr_t_us = 1000, sr_state = - 5, sr_vstate = 6, sr_vartheta = 7, sr_counter = 1,
      sr_nvstates = [3, - 4], sr_nenabled = [True, False], sr_nfresh = [True, True], sr_nseq = [9, 10],
      sr_nrssi = [- 60, - 71], sr_state_Q = Some 1, sr_vstate_Q = Some 2, sr_S1_hat = None,
      sr_S2_hat = None\<rparr>) (\<lambda>b. bindR (decode_state b) (\<lambda>r. Inr (sr_nrssi r))) = Inr [- 60, - 71]"
proof -
  let ?r = "\<lparr>sr_t_us = 1000, sr_state = - 5, sr_vstate = 6, sr_vartheta = 7, sr_counter = 1,
      sr_nvstates = [3, - 4], sr_nenabled = [True, False], sr_nfresh = [True, True], sr_nseq = [9, 10],
      sr_nrssi = [- 60, - 71], sr_state_Q = Some 1, sr_vstate_Q = Some 2, sr_S1_hat = None,
      sr_S2_hat = None\<rparr>"
  have "report_ok ?r"
    by (simp add: report_ok_def MAX_NEIGHBORS_def neighbour_ok_def tail_ok_def numeral_2_eq_2)
  from state_report_roundtrip [OF this] show ?thesis by (auto simp: bindR_eq_Inr)
qed

subsection \<open>What a decoder can raise\<close>

lemma traverse_Inr_ex:
  "(\<And>x. x \<in> set xs \<Longrightarrow> \<exists>y. f x = Inr y \<and> Q y) \<Longrightarrow> \<exists>ys. traverse f xs = Inr ys \<and> list_all Q ys"
proof (induction xs)
  case Nil
  then show ?case by simp
next
  case (Cons x xs)
  obtain y where "f x = Inr y" "Q y" using Cons.prems [of x] by auto
  moreover obtain ys where "traverse f xs = Inr ys" "list_all Q ys" using Cons by auto
  ultimately show ?case by simp
qed

definition record_ok :: "int \<times> int \<times> int \<times> bool \<times> bool \<Rightarrow> bool" where
  "record_ok x = (case x of (v, s, r, e, f) \<Rightarrow> fits Fi v \<and> fits FH s \<and> fits Fb r)"

lemma decode_neighbour_long:
  assumes "25 + i * 8 + 8 \<le> length payload"
  shows "\<exists>x. decode_neighbour payload i = Inr x \<and> record_ok x"
proof -
  let ?d = "drop (25 + i * 8) payload"
  obtain fs where u: "struct_unpack STATE_NEIGHBOUR ?d = Inr fs"
  proof -
    have "8 \<le> length ?d" using assms unfolding length_drop by linarith
    then show thesis using unpack_long_enough [of STATE_NEIGHBOUR ?d] that by (auto simp: state_sizes)
  qed
  then have "list_all2 fits STATE_NEIGHBOUR fs" using struct_unpack_Inr by blast
  then obtain v s r fl where "fs = [v, s, r, fl]" "fits Fi v" "fits FH s" "fits Fb r"
    by (auto simp: STATE_NEIGHBOUR_def list_all2_Cons1)
  then show ?thesis using u by (simp add: decode_neighbour_def state_sizes record_ok_def)
qed

definition tails_ok :: "int option \<times> int option \<times> int option \<times> int option \<Rightarrow> bool" where
  "tails_ok x = (case x of
      (None, None, None, None) \<Rightarrow> True
    | (Some a, Some b, None, None) \<Rightarrow> fits Fi a \<and> fits Fi b
    | (Some a, Some b, Some c, Some d) \<Rightarrow> fits Fi a \<and> fits Fi b \<and> fits Fi c \<and> fits Fi d
    | _ \<Rightarrow> False)"

lemma decode_tail_total:
  assumes "length payload = want + k" and "k \<in> {0, 8, 16}"
  shows "\<exists>x. decode_tail payload want = Inr x \<and> tails_ok x"
proof -
  consider "k = 0" | "k = 8" | "k = 16" using assms(2) by auto
  then show ?thesis
  proof cases
    case 1
    then show ?thesis using assms(1) by (simp add: decode_tail_def state_sizes tails_ok_def)
  next
    case 2
    obtain fs where u: "struct_unpack STATE_TAIL (drop want payload) = Inr fs"
      using unpack_long_enough [of STATE_TAIL "drop want payload"] assms(1) 2 by (auto simp: state_sizes)
    then have "list_all2 fits STATE_TAIL fs" using struct_unpack_Inr by blast
    then obtain a b where "fs = [a, b]" "fits Fi a" "fits Fi b"
      by (auto simp: STATE_TAIL_def list_all2_Cons1)
    then show ?thesis using u assms(1) 2 by (simp add: decode_tail_def state_sizes tails_ok_def)
  next
    case 3
    obtain fs where u: "struct_unpack STATE_TAIL_LC (drop want payload) = Inr fs"
      using unpack_long_enough [of STATE_TAIL_LC "drop want payload"] assms(1) 3 by (auto simp: state_sizes)
    then have "list_all2 fits STATE_TAIL_LC fs" using struct_unpack_Inr by blast
    then obtain a b c d where "fs = [a, b, c, d]" "fits Fi a" "fits Fi b" "fits Fi c" "fits Fi d"
      by (auto simp: STATE_TAIL_LC_def list_all2_Cons1)
    then show ?thesis using u assms(1) 3 by (simp add: decode_tail_def state_sizes tails_ok_def)
  qed
qed

lemma decode_state_outcome:
  "(\<exists>r. decode_state payload = Inr r \<and> report_ok r) \<or> decode_state payload = Inl ProtoError"
proof (cases "length payload < 25")
  case True
  then show ?thesis by (simp add: decode_state_def state_sizes)
next
  case False
  obtain fs where u: "struct_unpack STATE_HEADER payload = Inr fs"
    using unpack_long_enough [of STATE_HEADER payload] False by (auto simp: state_sizes)
  then have fit: "list_all2 fits STATE_HEADER fs" using struct_unpack_Inr by blast
  then obtain t s v th c n0 where fs: "fs = [t, s, v, th, c, n0]" and n0: "0 \<le> n0"
    by (auto simp: STATE_HEADER_def list_all2_Cons1)
  define n where "n = nat n0"
  have fs: "fs = [t, s, v, th, c, int n]" using fs n0 by (simp add: n_def)
  show ?thesis
  proof (cases "n \<le> 16 \<and> (\<exists>k \<in> {0, 8, 16}. length payload = 25 + n * 8 + k)")
    case bad: False
    have "int (length payload) - int (25 + n * 8) \<notin> {0, 8, 16} \<or> int n > 16"
    proof (rule ccontr)
      assume "\<not> ?thesis"
      then have "n \<le> 16" and "int (length payload) - int (25 + n * 8) \<in> {0, 8, 16}" by auto
      then have "length payload \<in> {25 + n * 8 + 0, 25 + n * 8 + 8, 25 + n * 8 + 16}" by auto
      with bad \<open>n \<le> 16\<close> show False by auto
    qed
    then have "decode_state payload = Inl ProtoError"
      using u fs False by (auto simp: decode_state_def state_sizes MAX_NEIGHBORS_def Let_def)
    then show ?thesis by simp
  next
    case True
    then obtain k where k: "k \<in> {0, 8, 16}" "length payload = 25 + n * 8 + k" and n: "n \<le> 16" by auto
    obtain nbs where nbs: "traverse (decode_neighbour payload) [0..<n] = Inr nbs" "list_all record_ok nbs"
      using traverse_Inr_ex [of "[0..<n]" "decode_neighbour payload" record_ok] decode_neighbour_long k
      by fastforce
    obtain sQ vQ s1 s2 where dt: "decode_tail payload (25 + n * 8) = Inr (sQ, vQ, s1, s2)"
      and tk: "tails_ok (sQ, vQ, s1, s2)"
      using decode_tail_total [OF k(2,1)] by auto
    have len: "length nbs = n" using traverse_Inr_length [OF nbs(1)] by simp
    note d = decode_state_parts [OF u [unfolded fs] k(2,1) n nbs(1) dt]
    have "neighbour_ok \<lparr>sr_t_us = t, sr_state = s, sr_vstate = v, sr_vartheta = th, sr_counter = c,
           sr_nvstates = map fst nbs, sr_nenabled = map (\<lambda>(v, s, r, e, f). e) nbs,
           sr_nfresh = map (\<lambda>(v, s, r, e, f). f) nbs, sr_nseq = map (\<lambda>(v, s, r, e, f). s) nbs,
           sr_nrssi = map (\<lambda>(v, s, r, e, f). r) nbs,
           sr_state_Q = sQ, sr_vstate_Q = vQ, sr_S1_hat = s1, sr_S2_hat = s2\<rparr> i" if "i < n" for i
    proof -
      have "record_ok (nbs ! i)" using nbs(2) that len by (simp add: list_all_length)
      then show ?thesis using that len
        by (cases "nbs ! i") (simp add: neighbour_ok_def record_ok_def)
    qed
    moreover have "tail_ok \<lparr>sr_t_us = t, sr_state = s, sr_vstate = v, sr_vartheta = th, sr_counter = c,
           sr_nvstates = map fst nbs, sr_nenabled = map (\<lambda>(v, s, r, e, f). e) nbs,
           sr_nfresh = map (\<lambda>(v, s, r, e, f). f) nbs, sr_nseq = map (\<lambda>(v, s, r, e, f). s) nbs,
           sr_nrssi = map (\<lambda>(v, s, r, e, f). r) nbs,
           sr_state_Q = sQ, sr_vstate_Q = vQ, sr_S1_hat = s1, sr_S2_hat = s2\<rparr>"
      using tk by (simp add: tail_ok_def tails_ok_def)
    ultimately show ?thesis using fit fs n len
      by (auto simp: d report_ok_def STATE_HEADER_def MAX_NEIGHBORS_def list_all_iff)
  qed
qed

lemma decode_adv_report_outcome:
  "(\<exists>r. decode_adv_report payload = Inr r \<and> length (ar_addr r) = 6 \<and>
        length payload \<ge> 18 + length (ar_data r)) \<or>
   decode_adv_report payload = Inl ProtoError"
proof (cases "length payload < 18")
  case True
  then show ?thesis by (simp add: decode_adv_report_def)
next
  case False
  obtain fs where u: "struct_unpack [FQ, Fb, FB] payload = Inr fs"
    using unpack_long_enough [of "[FQ, Fb, FB]" payload] False by auto
  then have "list_all2 fits [FQ, Fb, FB] fs" using struct_unpack_Inr by blast
  then obtain a b c where "fs = [a, b, c]" by (auto simp: list_all2_Cons1)
  then show ?thesis using u False by (auto simp: decode_adv_report_def Let_def)
qed

lemma decode_small_outcome:
  "(\<exists>x. decode_txat b = Inr x) \<or> decode_txat b = Inl ProtoError"
  "(\<exists>y. decode_pong b = Inr y) \<or> decode_pong b = Inl ProtoError"
  "(\<exists>z. decode_ack b = Inr z) \<or> decode_ack b = Inl ProtoError"
  by (auto simp: decode_txat_def decode_pong_def decode_ack_def struct_unpack_def)

lemma decode_stats_outcome: "(\<exists>s. decode_stats b = Inr s) \<or> decode_stats b = Inl ProtoError"
  by (auto simp: decode_stats_def Let_def struct_unpack_def STATS_V1_LEN_def STATS_FIELDS_def
        STATS_V1_COUNTERS_def STATS_V1_RADIO_def)

text \<open>On any payload a decoder of the serial protocol returns a value or raises
  \<^verbatim>\<open>ProtoError\<close>, never an index, struct or key error; a decoded STATE report is well formed
  and a decoded advert carries exactly the bytes it declares.\<close>

theorem serial_decoders_total:
  "(case decode_state b of Inr r \<Rightarrow> report_ok r | Inl e \<Rightarrow> e = ProtoError) \<and>
   (case decode_adv_report b of
      Inr r \<Rightarrow> length (ar_addr r) = 6 \<and> 18 + length (ar_data r) \<le> length b
    | Inl e \<Rightarrow> e = ProtoError) \<and>
   (case decode_txat b of Inr _ \<Rightarrow> length b = 10 | Inl e \<Rightarrow> e = ProtoError) \<and>
   (case decode_pong b of Inr _ \<Rightarrow> length b = 8 | Inl e \<Rightarrow> e = ProtoError) \<and>
   (case decode_ack b of Inr _ \<Rightarrow> length b = 2 | Inl e \<Rightarrow> e = ProtoError) \<and>
   (case decode_stats b of Inr _ \<Rightarrow> length b \<in> {48, 87} | Inl e \<Rightarrow> e = ProtoError)"
proof (intro conjI)
  show "case decode_state b of Inr r \<Rightarrow> report_ok r | Inl e \<Rightarrow> e = ProtoError"
    using decode_state_outcome [of b] by auto
  show "case decode_adv_report b of
      Inr r \<Rightarrow> length (ar_addr r) = 6 \<and> 18 + length (ar_data r) \<le> length b | Inl e \<Rightarrow> e = ProtoError"
    using decode_adv_report_outcome [of b] by auto
  show "case decode_txat b of Inr _ \<Rightarrow> length b = 10 | Inl e \<Rightarrow> e = ProtoError"
    by (auto simp: decode_txat_def struct_unpack_def split: sum.split)
  show "case decode_pong b of Inr _ \<Rightarrow> length b = 8 | Inl e \<Rightarrow> e = ProtoError"
    by (auto simp: decode_pong_def struct_unpack_def split: sum.split)
  show "case decode_ack b of Inr _ \<Rightarrow> length b = 2 | Inl e \<Rightarrow> e = ProtoError"
    by (auto simp: decode_ack_def struct_unpack_def split: sum.split)
  show "case decode_stats b of Inr _ \<Rightarrow> length b \<in> {48, 87} | Inl e \<Rightarrow> e = ProtoError"
    using decode_stats_outcome [of b]
    by (auto simp: decode_stats_def Let_def STATS_V1_LEN_def STATS_FIELDS_def STATS_V1_COUNTERS_def
          STATS_V1_RADIO_def split: if_splits)
qed

end
