(* ===== verification/AdvData.thy ===== *)
theory AdvData
  imports Bytes
begin

section \<open>BLE advertising data (radio/ad.py)\<close>

text \<open>
  Advertising data is a sequence of length-prefixed elements. \<open>element\<close> and \<open>build_ad\<close>
  assemble it, \<open>parse_ad\<close> walks it: the generator is modelled by the elements it yields and
  the exception that ends it, if any; its index \<open>i\<close> is the part of the list already
  dropped. \<open>find_manufacturer\<close> is the filter both radios apply to every report.
\<close>

definition MAX_AD :: nat where "MAX_AD = 31"
definition AD_FLAGS :: int where "AD_FLAGS = 0x01"
definition AD_NAME_COMPLETE :: int where "AD_NAME_COMPLETE = 0x09"
definition AD_MANUFACTURER :: int where "AD_MANUFACTURER = 0xFF"

record ad_element =
  el_type :: int
  el_value :: bytes

definition element :: "int \<Rightarrow> bytes \<Rightarrow> bytes result" where
  "element ad_type val =
     (if \<not> (0 \<le> ad_type \<and> ad_type \<le> 0xFF) then Inl AdError
      else if length val > 254 then Inl AdError
      else bindR (bytes_of_ints [int (length val) + 1, ad_type]) (\<lambda>h. Inr (h @ val)))"

definition build_ad :: "bytes list \<Rightarrow> nat \<Rightarrow> bytes result" where
  "build_ad elements limit =
     (let ad = concat elements in if length ad > limit then Inl AdError else Inr ad)"

function parse_ad :: "bool \<Rightarrow> bytes \<Rightarrow> ad_element list \<times> exn option" where
  "parse_ad strict data =
     (case data of
        [] \<Rightarrow> ([], None)
      | b # rest \<Rightarrow>
          let n = nat (byte_val b) in
          if n = 0 then ([], None)
          else if n > length rest then ([], if strict then Some AdError else None)
          else
            let (els, e) = parse_ad strict (drop n rest)
            in (\<lparr>el_type = byte_val (rest ! 0), el_value = take (n - 1) (drop 1 rest)\<rparr> # els, e))"
  by pat_completeness auto
termination by (relation "measure (\<lambda>(_, data). length data)") auto

declare parse_ad.simps [simp del]

definition manufacturer_value :: "int \<Rightarrow> bytes \<Rightarrow> bytes result" where
  "manufacturer_value company payload =
     (if \<not> (0 \<le> company \<and> company \<le> 0xFFFF) then Inl AdError
      else bindR (to_bytes_le 2 company) (\<lambda>c. Inr (c @ payload)))"

fun first_manufacturer :: "ad_element list \<Rightarrow> int \<Rightarrow> bytes option" where
  "first_manufacturer [] company = None"
| "first_manufacturer (el # els) company =
     (if el_type el = AD_MANUFACTURER \<and> length (el_value el) \<ge> 2 \<and>
         le_int (take 2 (el_value el)) = company
      then Some (drop 2 (el_value el)) else first_manufacturer els company)"

definition find_manufacturer :: "bytes \<Rightarrow> int \<Rightarrow> bytes option" where
  "find_manufacturer data company = first_manufacturer (fst (parse_ad False data)) company"

subsection \<open>Facts\<close>

definition element_ok :: "ad_element \<Rightarrow> bool" where
  "element_ok el \<longleftrightarrow> 0 \<le> el_type el \<and> el_type el \<le> 255 \<and> length (el_value el) \<le> 254"

definition element_bytes :: "ad_element \<Rightarrow> bytes" where
  "element_bytes el = byte_of (int (length (el_value el)) + 1) # byte_of (el_type el) # el_value el"

lemma element_eq:
  "element_ok el \<Longrightarrow> element (el_type el) (el_value el) = Inr (element_bytes el)"
  by (simp add: element_ok_def element_def bytes_of_ints_def element_bytes_def)

lemma element_error: "\<not> element_ok el \<Longrightarrow> element (el_type el) (el_value el) = Inl AdError"
  by (auto simp: element_ok_def element_def)

lemma parse_ad_Nil [simp]: "parse_ad strict [] = ([], None)"
  by (subst parse_ad.simps) simp

lemma parse_ad_stop:
  "nat (byte_val b) = 0 \<or> length rest < nat (byte_val b) \<Longrightarrow>
   parse_ad strict (b # rest) =
     ([], if nat (byte_val b) \<noteq> 0 \<and> strict then Some AdError else None)"
  by (subst parse_ad.simps) (auto simp: Let_def)

lemma parse_ad_step:
  "0 < nat (byte_val b) \<Longrightarrow> nat (byte_val b) \<le> length rest \<Longrightarrow>
   parse_ad strict (b # rest) =
     (\<lparr>el_type = byte_val (rest ! 0), el_value = take (nat (byte_val b) - 1) (drop 1 rest)\<rparr>
        # fst (parse_ad strict (drop (nat (byte_val b)) rest)),
      snd (parse_ad strict (drop (nat (byte_val b)) rest)))"
  by (subst parse_ad.simps) (simp add: Let_def split_beta)

lemma parse_ad_element:
  assumes "element_ok el"
  shows "parse_ad strict (element_bytes el @ rest) =
           (let (els, e) = parse_ad strict rest in (el # els, e))"
proof -
  have n: "nat (byte_val (byte_of (int (length (el_value el)) + 1))) = Suc (length (el_value el))"
    using assms by (simp add: element_ok_def nat_add_distrib)
  have t: "byte_val (byte_of (el_type el)) = el_type el" using assms by (simp add: element_ok_def)
  show ?thesis
    by (subst parse_ad.simps) (simp add: element_bytes_def n t Let_def split_beta)
qed

lemma parse_ad_elements:
  "list_all element_ok els \<Longrightarrow> parse_ad strict (concat (map element_bytes els)) = (els, None)"
  by (induction els) (simp_all add: parse_ad_element)

lemma parse_ad_padding:
  "list_all element_ok els \<Longrightarrow>
   parse_ad strict (concat (map element_bytes els) @ byte_of 0 # junk) = (els, None)"
proof (induction els)
  case Nil
  show ?case by (subst list.map, subst parse_ad.simps) simp
qed (simp add: parse_ad_element)

lemma parse_ad_ok: "list_all element_ok (fst (parse_ad strict data))"
proof (induction strict data rule: parse_ad.induct)
  case (1 strict data)
  show ?case
  proof (cases data)
    case Nil
    then show ?thesis by simp
  next
    case (Cons b rest)
    let ?n = "nat (byte_val b)"
    show ?thesis
    proof (cases "?n = 0 \<or> ?n > length rest")
      case True
      then show ?thesis by (simp add: Cons parse_ad_stop)
    next
      case False
      then have "list_all element_ok (fst (parse_ad strict (drop ?n rest)))"
        using 1 Cons by auto
      moreover have "?n - 1 \<le> 254" using byte_val_bounds(3) [of b] by linarith
      then have "element_ok \<lparr>el_type = byte_val (rest ! 0), el_value = take (?n - 1) (drop 1 rest)\<rparr>"
        by (simp add: element_ok_def min_le_iff_disj)
      ultimately show ?thesis using False by (simp add: Cons parse_ad_step)
    qed
  qed
qed

lemma parse_ad_prefix:
  "\<exists>junk. data = concat (map element_bytes (fst (parse_ad strict data))) @ junk"
proof (induction strict data rule: parse_ad.induct)
  case (1 strict data)
  show ?case
  proof (cases data)
    case Nil
    then show ?thesis by simp
  next
    case (Cons b rest)
    let ?n = "nat (byte_val b)"
    show ?thesis
    proof (cases "?n = 0 \<or> ?n > length rest")
      case True
      then show ?thesis by (simp add: Cons parse_ad_stop)
    next
      case False
      then obtain junk where j: "drop ?n rest = concat (map element_bytes (fst (parse_ad strict (drop ?n rest)))) @ junk"
        using 1 Cons by auto
      let ?el = "\<lparr>el_type = byte_val (rest ! 0), el_value = take (?n - 1) (drop 1 rest)\<rparr>"
      have "rest \<noteq> []" using False by auto
      then obtain t r where r: "rest = t # r" by (cases rest) auto
      obtain m where m: "?n = Suc m" using False by (cases ?n) auto
      have "int m + 1 = byte_val b" using m by simp
      moreover have "length (take m r) = m" using False r m by simp
      ultimately have "b # rest = element_bytes ?el @ drop ?n rest"
        by (simp add: element_bytes_def r m)
      moreover have "fst (parse_ad strict (b # rest)) = ?el # fst (parse_ad strict (drop ?n rest))"
        using False by (simp add: parse_ad_step)
      ultimately have "data = concat (map element_bytes (fst (parse_ad strict data))) @ junk"
        using j by (simp only: Cons list.map concat.simps append_assoc)
      then show ?thesis by blast
    qed
  qed
qed

text \<open>Advertising data round-trips: every list of well-formed elements is assembled without
  an error, within the limit it is given, and parses back to exactly those elements, also when
  the controller pads it with zeros.\<close>

theorem ad_roundtrip:
  assumes "list_all element_ok els"
    and "length (concat (map element_bytes els)) \<le> limit"
  shows "bindR (traverse (\<lambda>el. element (el_type el) (el_value el)) els) (\<lambda>bs. build_ad bs limit)
           = Inr (concat (map element_bytes els)) \<and>
         parse_ad strict (concat (map element_bytes els)) = (els, None) \<and>
         parse_ad strict (concat (map element_bytes els) @ replicate k 0) = (els, None)"
proof -
  have "traverse (\<lambda>el. element (el_type el) (el_value el)) els = Inr (map element_bytes els)"
    using assms(1) by (intro traverse_all_Inr) (auto simp: list_all_iff element_eq)
  moreover have "parse_ad strict (concat (map element_bytes els) @ replicate k 0) = (els, None)"
    using parse_ad_padding [OF assms(1)] parse_ad_elements [OF assms(1)]
    by (cases k) (simp_all add: byte_of_def)
  ultimately show ?thesis using assms by (simp add: build_ad_def parse_ad_elements)
qed

theorem ad_roundtrip_witness:
  "parse_ad True (concat (map element_bytes [\<lparr>el_type = 1, el_value = [4]\<rparr>, \<lparr>el_type = 255, el_value = [89, 0, 7]\<rparr>])
      @ replicate 3 0) = ([\<lparr>el_type = 1, el_value = [4]\<rparr>, \<lparr>el_type = 255, el_value = [89, 0, 7]\<rparr>], None)"
  using ad_roundtrip [of "[\<lparr>el_type = 1, el_value = [4]\<rparr>, \<lparr>el_type = 255, el_value = [89, 0, 7]\<rparr>]" 31 True 3]
  by (simp add: element_ok_def element_bytes_def)

text \<open>The walk of advertising data is total and sound on arbitrary bytes: what it yields is a
  sequence of well-formed elements that is literally a prefix of the data, and only strict mode
  ever raises, always \<^verbatim>\<open>AdError\<close>.\<close>

theorem ad_parse_sound:
  "list_all element_ok (fst (parse_ad strict data)) \<and>
   (\<exists>junk. data = concat (map element_bytes (fst (parse_ad strict data))) @ junk) \<and>
   snd (parse_ad False data) = None \<and> snd (parse_ad True data) \<in> {None, Some AdError}"
proof -
  have "snd (parse_ad s data) = None \<or> s \<and> snd (parse_ad s data) = Some AdError" for s
  proof (induction s data rule: parse_ad.induct)
    case (1 s data)
    show ?case
    proof (cases data)
      case Nil
      then show ?thesis by simp
    next
      case (Cons b rest)
      then show ?thesis using 1 [OF Cons refl]
        by (cases "nat (byte_val b) = 0 \<or> length rest < nat (byte_val b)")
           (auto simp: parse_ad_stop parse_ad_step)
    qed
  qed
  note raises = this
  have "snd (parse_ad False data) = None" using raises [of False] by simp
  moreover have "snd (parse_ad True data) \<in> {None, Some AdError}" using raises [of True] by auto
  ultimately show ?thesis by (intro conjI parse_ad_ok parse_ad_prefix)
qed

lemma find_manufacturer_built:
  assumes "list_all element_ok els" and "0 \<le> c" "c \<le> 65535" and "length pl \<le> 252"
    and "list_all (\<lambda>el. el_type el \<noteq> AD_MANUFACTURER) els"
  shows "find_manufacturer (concat (map element_bytes els)
           @ element_bytes \<lparr>el_type = AD_MANUFACTURER, el_value = le_bytes 2 c @ pl\<rparr>) c = Some pl"
proof -
  let ?m = "\<lparr>el_type = AD_MANUFACTURER, el_value = le_bytes 2 c @ pl\<rparr>"
  have "list_all element_ok (els @ [?m])" using assms by (simp add: element_ok_def AD_MANUFACTURER_def)
  from parse_ad_elements [OF this, of False]
  have p: "fst (parse_ad False (concat (map element_bytes els) @ element_bytes ?m)) = els @ [?m]" by simp
  have "first_manufacturer (els @ [?m]) c = Some pl"
    using assms(2,3,5)
  proof (induction els)
    case Nil
    then show ?case by (simp add: le_int_le_bytes)
  qed simp
  then show ?thesis by (simp only: find_manufacturer_def p)
qed

end
