(* ===== verification/Hci.thy ===== *)
theory Hci
  imports Bytes
begin

unbundle bit_operations_syntax

section \<open>HCI packets and the command exchange (radio/hci.py)\<close>

text \<open>
  Everything of the module above the socket: the unit conversion, the command builders, the
  event parsers, and \<open>hci_command\<close>, the blocking loop of \<^verbatim>\<open>HciSocket.command\<close>, over the list
  of packets the controller will deliver before the timeout. The generator
  \<^verbatim>\<open>parse_adv_reports\<close> is the list of the reports it yields. Opening and binding the socket
  are not modelled.
\<close>

definition OGF_HOST_CTL :: int where "OGF_HOST_CTL = 3"
definition OGF_LE_CTL :: int where "OGF_LE_CTL = 8"

definition opcode :: "int \<Rightarrow> int \<Rightarrow> int" where
  "opcode ogf ocf = push_bit 10 ogf OR ocf"

definition OP_RESET :: int where "OP_RESET = opcode OGF_HOST_CTL 0x0003"
definition OP_LE_SET_ADV_PARAMETERS :: int where "OP_LE_SET_ADV_PARAMETERS = opcode OGF_LE_CTL 0x0006"
definition OP_LE_READ_ADV_TX_POWER :: int where "OP_LE_READ_ADV_TX_POWER = opcode OGF_LE_CTL 0x0007"
definition OP_LE_SET_ADV_DATA :: int where "OP_LE_SET_ADV_DATA = opcode OGF_LE_CTL 0x0008"
definition OP_LE_SET_ADV_ENABLE :: int where "OP_LE_SET_ADV_ENABLE = opcode OGF_LE_CTL 0x000A"
definition OP_LE_SET_SCAN_PARAMETERS :: int where "OP_LE_SET_SCAN_PARAMETERS = opcode OGF_LE_CTL 0x000B"
definition OP_LE_SET_SCAN_ENABLE :: int where "OP_LE_SET_SCAN_ENABLE = opcode OGF_LE_CTL 0x000C"

lemmas hci_ops = OP_RESET_def OP_LE_SET_ADV_PARAMETERS_def OP_LE_READ_ADV_TX_POWER_def
  OP_LE_SET_ADV_DATA_def OP_LE_SET_ADV_ENABLE_def OP_LE_SET_SCAN_PARAMETERS_def
  OP_LE_SET_SCAN_ENABLE_def OGF_HOST_CTL_def OGF_LE_CTL_def opcode_def

definition HCI_COMMAND_PKT :: int where "HCI_COMMAND_PKT = 1"
definition HCI_EVENT_PKT :: int where "HCI_EVENT_PKT = 4"
definition COMMAND_DISALLOWED :: int where "COMMAND_DISALLOWED = 0x0C"
definition ADV_NONCONN_IND :: int where "ADV_NONCONN_IND = 3"

definition ms_to_units :: "real \<Rightarrow> int result" where
  "ms_to_units ms =
     (let units = py_round (ms * 1000 / 625) in
      if \<not> (0x0004 \<le> units \<and> units \<le> 0x4000) then Inl HciError else Inr units)"

definition units_to_ms :: "int \<Rightarrow> real" where
  "units_to_ms units = of_int (units * 625) / 1000"

subsection \<open>Commands\<close>

definition hci_cmd :: "int \<Rightarrow> bytes \<Rightarrow> bytes result" where
  "hci_cmd op params =
     (if length params > 255 then Inl HciError
      else bindR (struct_pack [FH] [op]) (\<lambda>o2.
           bindR (bytes_of_ints [int (length params)]) (\<lambda>l.
           Inr ([byte_of HCI_COMMAND_PKT] @ o2 @ l @ params))))"

definition cmd_reset :: "bytes result" where
  "cmd_reset = hci_cmd OP_RESET []"

definition cmd_le_read_adv_tx_power :: "bytes result" where
  "cmd_le_read_adv_tx_power = hci_cmd OP_LE_READ_ADV_TX_POWER []"

definition cmd_le_set_adv_parameters :: "int \<Rightarrow> int \<Rightarrow> int \<Rightarrow> int \<Rightarrow> int \<Rightarrow> int \<Rightarrow> bytes result" where
  "cmd_le_set_adv_parameters imin imax adv_type own_addr channel_map filter_policy =
     (if imin > imax then Inl HciError
      else if \<not> (0x01 \<le> channel_map \<and> channel_map \<le> 0x07) then Inl HciError
      else bindR (struct_pack [FH, FH, FB, FB, FB] [imin, imax, adv_type, own_addr, 0]) (\<lambda>a.
           bindR (bytes_of_ints [channel_map, filter_policy]) (\<lambda>b.
           hci_cmd OP_LE_SET_ADV_PARAMETERS (a @ replicate 6 0 @ b))))"

definition cmd_le_set_adv_data :: "bytes \<Rightarrow> bytes result" where
  "cmd_le_set_adv_data ad =
     (if length ad > 31 then Inl HciError
      else bindR (bytes_of_ints [int (length ad)]) (\<lambda>l.
           hci_cmd OP_LE_SET_ADV_DATA (l @ ad @ replicate (31 - length ad) 0)))"

definition cmd_le_set_adv_enable :: "bool \<Rightarrow> bytes result" where
  "cmd_le_set_adv_enable en = hci_cmd OP_LE_SET_ADV_ENABLE [byte_of (if en then 1 else 0)]"

definition cmd_le_set_scan_parameters :: "int \<Rightarrow> int \<Rightarrow> int \<Rightarrow> int \<Rightarrow> int \<Rightarrow> bytes result" where
  "cmd_le_set_scan_parameters intvl window scan_type own_addr filter_policy =
     (if window > intvl then Inl HciError
      else bindR (struct_pack [FB, FH, FH, FB, FB] [scan_type, intvl, window, own_addr, filter_policy])
             (hci_cmd OP_LE_SET_SCAN_PARAMETERS))"

definition cmd_le_set_scan_enable :: "bool \<Rightarrow> bool \<Rightarrow> bytes result" where
  "cmd_le_set_scan_enable en dup =
     hci_cmd OP_LE_SET_SCAN_ENABLE [byte_of (if en then 1 else 0), byte_of (if dup then 1 else 0)]"

subsection \<open>Events\<close>

definition EVT_COMMAND_COMPLETE :: int where "EVT_COMMAND_COMPLETE = 0x0E"
definition EVT_COMMAND_STATUS :: int where "EVT_COMMAND_STATUS = 0x0F"
definition EVT_LE_META :: int where "EVT_LE_META = 0x3E"
definition SUBEVT_ADV_REPORT :: int where "SUBEVT_ADV_REPORT = 2"

record hci_event =
  ev_code :: int
  ev_params :: bytes

record command_complete =
  cc_opcode :: int
  cc_status :: int
  cc_params :: bytes

record command_status =
  cs_opcode :: int
  cs_status :: int

record hci_report =
  hr_event_type :: int
  hr_addr_type :: int
  hr_addr :: bytes
  hr_data :: bytes
  hr_rssi :: int

definition cc_ok :: "command_complete \<Rightarrow> bool" where "cc_ok c \<longleftrightarrow> cc_status c = 0"
definition cs_ok :: "command_status \<Rightarrow> bool" where "cs_ok c \<longleftrightarrow> cs_status c = 0"

definition parse_event :: "bytes \<Rightarrow> hci_event result" where
  "parse_event packet =
     (if length packet < 3 then Inl HciError
      else if byte_val (packet ! 0) \<noteq> HCI_EVENT_PKT then Inl HciError
      else let code = byte_val (packet ! 1); plen = nat (byte_val (packet ! 2));
               params = take plen (drop 3 packet)
           in if length params \<noteq> plen then Inl HciError
              else Inr \<lparr>ev_code = code, ev_params = params\<rparr>)"

definition parse_command_complete :: "bytes \<Rightarrow> command_complete result" where
  "parse_command_complete params =
     (if length params < 4 then Inl HciError
      else Inr \<lparr>cc_opcode = le_int (take 2 (drop 1 params)), cc_status = byte_val (params ! 3),
                cc_params = drop 4 params\<rparr>)"

definition parse_command_status :: "bytes \<Rightarrow> command_status result" where
  "parse_command_status params =
     (if length params < 4 then Inl HciError
      else Inr \<lparr>cs_opcode = le_int (take 2 (drop 2 params)), cs_status = byte_val (params ! 0)\<rparr>)"

primrec walk_reports :: "nat \<Rightarrow> bytes \<Rightarrow> nat \<Rightarrow> hci_report list" where
  "walk_reports 0 params off = []"
| "walk_reports (Suc num) params off =
     (if off + 9 > length params then []
      else let dlen = nat (byte_val (params ! (off + 8))) in
        if off + 9 + dlen + 1 > length params then []
        else \<lparr>hr_event_type = byte_val (params ! off),
              hr_addr_type = byte_val (params ! (off + 1)),
              hr_addr = take 6 (drop (off + 2) params),
              hr_data = take dlen (drop (off + 9) params),
              hr_rssi = signed_of 1 (byte_val (params ! (off + 9 + dlen)))\<rparr>
             # walk_reports num params (off + 9 + dlen + 1))"

definition parse_adv_reports :: "bytes \<Rightarrow> hci_report list" where
  "parse_adv_reports params =
     (case params of
        [] \<Rightarrow> []
      | b # _ \<Rightarrow>
          if byte_val b \<noteq> SUBEVT_ADV_REPORT then []
          else walk_reports (if length params > 1 then nat (byte_val (params ! 1)) else 0) params 2)"

subsection \<open>The blocking exchange\<close>

text \<open>One received packet: keep waiting (\<open>None\<close>), or the call returns or raises.\<close>

definition command_step :: "int \<Rightarrow> int list \<Rightarrow> bytes \<Rightarrow> command_complete result option" where
  "command_step want tolerate packet =
     (case parse_event packet of
        Inl e \<Rightarrow> Some (Inl e)
      | Inr evt \<Rightarrow>
          if ev_code evt = EVT_COMMAND_COMPLETE then
            (case parse_command_complete (ev_params evt) of
               Inl e \<Rightarrow> Some (Inl e)
             | Inr cc \<Rightarrow>
                 if cc_opcode cc \<noteq> want then None
                 else if \<not> cc_ok cc \<and> cc_status cc \<notin> set tolerate then Some (Inl HciError)
                 else Some (Inr cc))
          else if ev_code evt = EVT_COMMAND_STATUS then
            (case parse_command_status (ev_params evt) of
               Inl e \<Rightarrow> Some (Inl e)
             | Inr cs \<Rightarrow>
                 if cs_opcode cs = want \<and> \<not> cs_ok cs \<and> cs_status cs \<notin> set tolerate
                 then Some (Inl HciError) else None)
          else None)"

fun await_complete :: "int \<Rightarrow> int list \<Rightarrow> bytes list \<Rightarrow> command_complete result" where
  "await_complete want tolerate [] = Inl HciError"
| "await_complete want tolerate (p # ps) =
     (case command_step want tolerate p of Some r \<Rightarrow> r | None \<Rightarrow> await_complete want tolerate ps)"

definition hci_command :: "bytes \<Rightarrow> int list \<Rightarrow> bytes list \<Rightarrow> command_complete result" where
  "hci_command packet tolerate received =
     bindR (struct_unpack [FH] (drop 1 packet)) (\<lambda>fs. await_complete (fs ! 0) tolerate received)"

subsection \<open>Facts\<close>

lemma ms_to_units_ok:
  "ms_to_units ms = Inr u \<Longrightarrow> 4 \<le> u \<and> u \<le> 16384 \<and> \<bar>units_to_ms u - ms\<bar> \<le> 5/16"
proof -
  assume "ms_to_units ms = Inr u"
  then have u: "u = py_round (ms * 1000 / 625)" "4 \<le> u" "u \<le> 16384"
    by (auto simp: ms_to_units_def Let_def split: if_splits)
  have "\<bar>ms * 1000 / 625 - of_int u\<bar> \<le> 1/2" using py_round_close [of "ms * 1000 / 625"] u(1) by simp
  then show ?thesis using u by (auto simp: units_to_ms_def abs_if field_simps split: if_splits)
qed

lemma ms_units_roundtrip: "4 \<le> u \<Longrightarrow> u \<le> 16384 \<Longrightarrow> ms_to_units (units_to_ms u) = Inr u"
proof -
  assume u: "4 \<le> u" "u \<le> 16384"
  have "units_to_ms u * 1000 / 625 = of_int u" by (simp add: units_to_ms_def)
  then have "py_round (units_to_ms u * 1000 / 625) = u" by (simp only: py_round_of_int)
  with u show ?thesis by (simp add: ms_to_units_def)
qed

definition report_fits :: "hci_report \<Rightarrow> bool" where
  "report_fits r \<longleftrightarrow> 0 \<le> hr_event_type r \<and> hr_event_type r < 256 \<and> 0 \<le> hr_addr_type r \<and>
     hr_addr_type r < 256 \<and> length (hr_addr r) = 6 \<and> length (hr_data r) \<le> 255 \<and>
     - 128 \<le> hr_rssi r \<and> hr_rssi r < 128"

text \<open>A report as the controller lays it out.\<close>

definition report_bytes :: "hci_report \<Rightarrow> bytes" where
  "report_bytes r =
     [byte_of (hr_event_type r), byte_of (hr_addr_type r)] @ hr_addr r @
     [byte_of (int (length (hr_data r)))] @ hr_data r @ [byte_of (hr_rssi r)]"

lemma signed_byte: "- 128 \<le> v \<Longrightarrow> v < 128 \<Longrightarrow> signed_of 1 (byte_val (byte_of v)) = v"
  using signed_of_mod [of 1 v] by (simp add: byte_val_of)

lemma length_report_bytes: "report_fits r \<Longrightarrow> length (report_bytes r) = 10 + length (hr_data r)"
  by (simp add: report_bytes_def report_fits_def)

lemma nth_append_at: "length xs = n \<Longrightarrow> (xs @ ys) ! (n + i) = ys ! i"
  by (simp add: nth_append)

lemma walk_one:
  assumes "report_fits r" and "length pre = off"
  shows "walk_reports (Suc n) (pre @ report_bytes r @ rest) off =
           r # walk_reports n (pre @ report_bytes r @ rest) (off + length (report_bytes r))"
proof -
  let ?p = "pre @ report_bytes r @ rest"
  have a: "length (hr_addr r) = 6" using assms(1) by (simp add: report_fits_def)
  have at: "?p ! (off + i) = (report_bytes r @ rest) ! i" for i
    using assms(2) by (rule nth_append_at)
  have dr: "drop (off + i) ?p = drop i (report_bytes r @ rest)" for i
    using assms(2) by simp
  have b: "(report_bytes r @ rest) ! 0 = byte_of (hr_event_type r)"
      "(report_bytes r @ rest) ! 1 = byte_of (hr_addr_type r)"
      "(report_bytes r @ rest) ! 8 = byte_of (int (length (hr_data r)))"
      "(report_bytes r @ rest) ! (9 + length (hr_data r)) = byte_of (hr_rssi r)"
      "take 6 (drop 2 (report_bytes r @ rest)) = hr_addr r"
      "take (length (hr_data r)) (drop 9 (report_bytes r @ rest)) = hr_data r"
    using a by (simp_all add: report_bytes_def nth_append nth_Cons')
  have d: "nat (byte_val (byte_of (int (length (hr_data r))))) = length (hr_data r)"
    using assms(1) by (simp add: report_fits_def)
  have len: "length ?p = off + 10 + length (hr_data r) + length rest"
    using assms length_report_bytes [OF assms(1)] by simp
  have at0: "?p ! off = byte_of (hr_event_type r)" using at [of 0] b(1) by simp
  have at9: "?p ! (off + 9 + length (hr_data r)) = byte_of (hr_rssi r)"
    using at [of "9 + length (hr_data r)"] b(4) by (simp add: add.assoc)
  have v: "byte_val (byte_of (hr_event_type r)) = hr_event_type r"
      "byte_val (byte_of (hr_addr_type r)) = hr_addr_type r"
      "signed_of 1 (byte_val (byte_of (hr_rssi r))) = hr_rssi r"
    using assms(1) signed_byte [of "hr_rssi r"] by (simp_all add: report_fits_def)
  show ?thesis
    using len length_report_bytes [OF assms(1)]
    by (simp only: walk_reports.simps at dr at0 at9 b d v Let_def)
       (simp add: add.left_commute add.commute)
qed

lemma walk_all:
  assumes "list_all report_fits rs" and "length pre = off"
  shows "walk_reports (length rs) (pre @ concat (map report_bytes rs) @ rest) off = rs"
  using assms
proof (induction rs arbitrary: pre off)
  case Nil
  then show ?case by simp
next
  case (Cons r rs)
  have "walk_reports (length rs) ((pre @ report_bytes r) @ concat (map report_bytes rs) @ rest)
          (off + length (report_bytes r)) = rs"
    using Cons.prems by (intro Cons.IH) simp_all
  then show ?case using walk_one [of r pre off "length rs" "concat (map report_bytes rs) @ rest"] Cons.prems
    by simp
qed

lemma parse_adv_reports_all:
  assumes "list_all report_fits rs" and "length rs \<le> 255"
  shows "parse_adv_reports ([byte_of SUBEVT_ADV_REPORT, byte_of (int (length rs))] @ concat (map report_bytes rs))
           = rs"
proof -
  let ?h = "[byte_of SUBEVT_ADV_REPORT, byte_of (int (length rs))]"
  have "walk_reports (length rs) (?h @ concat (map report_bytes rs) @ []) 2 = rs"
    using assms(1) by (rule walk_all) simp
  moreover have "nat (byte_val (byte_of (int (length rs)))) = length rs" using assms(2) by simp
  ultimately show ?thesis
    by (simp add: parse_adv_reports_def) (simp add: SUBEVT_ADV_REPORT_def)
qed

text \<open>A batched LE Advertising Report event yields every report it carries, in order and with
  signed RSSI, whatever the number of reports in the batch and the lengths of their data.\<close>

theorem adv_reports_batch:
  assumes "list_all report_fits rs" and "length rs \<le> 255"
  shows "parse_adv_reports ([byte_of SUBEVT_ADV_REPORT, byte_of (int (length rs))] @ concat (map report_bytes rs))
           = rs"
  using assms by (rule parse_adv_reports_all)

theorem adv_reports_batch_witness:
  "parse_adv_reports ([byte_of SUBEVT_ADV_REPORT, byte_of 2] @
     concat (map report_bytes
       [\<lparr>hr_event_type = 3, hr_addr_type = 1, hr_addr = [1, 2, 3, 4, 5, 6], hr_data = [7, 8], hr_rssi = - 60\<rparr>,
        \<lparr>hr_event_type = 3, hr_addr_type = 0, hr_addr = [6, 5, 4, 3, 2, 1], hr_data = [], hr_rssi = 20\<rparr>])) =
       [\<lparr>hr_event_type = 3, hr_addr_type = 1, hr_addr = [1, 2, 3, 4, 5, 6], hr_data = [7, 8], hr_rssi = - 60\<rparr>,
        \<lparr>hr_event_type = 3, hr_addr_type = 0, hr_addr = [6, 5, 4, 3, 2, 1], hr_data = [], hr_rssi = 20\<rparr>]"
  using adv_reports_batch [of
       "[\<lparr>hr_event_type = 3, hr_addr_type = 1, hr_addr = [1, 2, 3, 4, 5, 6], hr_data = [7, 8], hr_rssi = - 60\<rparr>,
         \<lparr>hr_event_type = 3, hr_addr_type = 0, hr_addr = [6, 5, 4, 3, 2, 1], hr_data = [], hr_rssi = 20\<rparr>]"]
  by (simp add: report_fits_def)

lemma walk_reports_addr:
  "r \<in> set (walk_reports n params off) \<Longrightarrow> report_fits r"
proof (induction n arbitrary: off)
  case 0
  then show ?case by simp
next
  case (Suc n)
  let ?d = "nat (byte_val (params ! (off + 8)))"
  have s: "- 128 \<le> signed_of 1 (byte_val x) \<and> signed_of 1 (byte_val x) < 128" for x
    using signed_of_bounds [of "byte_val x" 1] by auto
  have d: "?d \<le> 255" by (simp add: nat_le_iff)
  show ?case using Suc d s
    by (auto simp: Let_def report_fits_def split: if_splits)
qed

lemma command_step_none_or:
  "command_step want tol p = Some (Inl e) \<Longrightarrow> e = HciError"
  by (auto simp: command_step_def parse_event_def parse_command_complete_def parse_command_status_def
                 Let_def split: if_splits sum.splits)

lemma command_step_Inr:
  "command_step want tol p = Some (Inr cc) \<Longrightarrow> cc_opcode cc = want \<and> (cc_ok cc \<or> cc_status cc \<in> set tol)"
  by (auto simp: command_step_def split: if_splits sum.splits)

text \<open>The blocking command exchange is exact: events before the answer are skipped, the call
  returns the completion of its own opcode when the status is success or tolerated, and it
  raises \<^verbatim>\<open>HciError\<close> otherwise, in particular when the packets run out.\<close>

theorem hci_command_exact:
  "(case await_complete want tol ps of
      Inr cc \<Rightarrow> cc_opcode cc = want \<and> (cc_ok cc \<or> cc_status cc \<in> set tol) \<and>
        (\<exists>pre p post. ps = pre @ p # post \<and> command_step want tol p = Some (Inr cc) \<and>
           map (command_step want tol) pre = replicate (length pre) None)
    | Inl e \<Rightarrow> e = HciError)"
proof (induction ps)
  case Nil
  then show ?case by simp
next
  case (Cons p ps)
  show ?case
  proof (cases "command_step want tol p")
    case None
    then have a: "await_complete want tol (p # ps) = await_complete want tol ps" by simp
    show ?thesis
    proof (cases "await_complete want tol ps")
      case (Inl e)
      then show ?thesis using Cons.IH a by simp
    next
      case (Inr cc)
      then obtain pre q post where "ps = pre @ q # post" "command_step want tol q = Some (Inr cc)"
          "map (command_step want tol) pre = replicate (length pre) None"
        using Cons.IH by auto
      then have "p # ps = (p # pre) @ q # post \<and> command_step want tol q = Some (Inr cc) \<and>
          map (command_step want tol) (p # pre) = replicate (length (p # pre)) None"
        using None by simp
      then show ?thesis using Cons.IH Inr unfolding a by (simp only: sum.case) blast
    qed
  next
    case (Some r)
    show ?thesis
    proof (cases r)
      case (Inl e)
      then show ?thesis using Some command_step_none_or by simp
    next
      case (Inr cc)
      then show ?thesis using Some command_step_Inr [of want tol p cc]
        by (simp, intro exI [of _ "[]"] exI [of _ p] exI [of _ ps]) simp
    qed
  qed
qed

lemma hci_cmd_ok:
  "0 \<le> op \<Longrightarrow> op < 65536 \<Longrightarrow> length params \<le> 255 \<Longrightarrow>
   hci_cmd op params =
     Inr (byte_of 1 # le_bytes 2 op @ byte_of (int (length params)) # params)"
  by (simp add: hci_cmd_def bytes_of_ints_def pack_raw_Cons HCI_COMMAND_PKT_def)

lemma adv_data_op: "0 \<le> OP_LE_SET_ADV_DATA" "OP_LE_SET_ADV_DATA < 65536"
  by (simp_all add: hci_ops)

text \<open>LE Set Advertising Data is always the fixed 36-byte command: the significant length, the
  data, and zero padding to 31 bytes; more than 31 bytes is refused with \<^verbatim>\<open>HciError\<close>.\<close>

theorem adv_data_command:
  "cmd_le_set_adv_data ad =
     (if length ad \<le> 31
      then Inr (byte_of 1 # le_bytes 2 OP_LE_SET_ADV_DATA @ byte_of 32 # byte_of (int (length ad)) #
                ad @ replicate (31 - length ad) 0)
      else Inl HciError) \<and>
   OP_LE_SET_ADV_DATA = 0x2008"
  using hci_cmd_ok [OF adv_data_op, of "byte_of (int (length ad)) # ad @ replicate (31 - length ad) 0"]
  by (auto simp: cmd_le_set_adv_data_def bytes_of_ints_def hci_ops)

end
