(* ===== verification/Clock.thy ===== *)
theory Clock
  imports Prelude
begin

section \<open>Time sources (clock.py)\<close>

text \<open>
  \<open>WallClock.now_us\<close> as a function of the two readings it combines, and \<^verbatim>\<open>VirtualClock\<close>,
  whose heap of sleepers is a list sorted by deadline and, for equal deadlines, by the order of
  the calls (the counter that \<^verbatim>\<open>heapq\<close> compares next). A sleeper's future is its number;
  \<open>vc_done\<close> are the futures already resolved or cancelled. The lemmas show that virtual time
  never runs backwards, that advancing wakes exactly the sleepers of the earliest deadline in
  call order, and that nobody is left behind.
\<close>

definition wall_now_us :: "real \<Rightarrow> real \<Rightarrow> int" where
  "wall_now_us epoch_unix_s time_s = py_round ((time_s - epoch_unix_s) * 10 ^ 6)"

type_synonym sleeper = "real \<times> nat"

record virtual_clock =
  vc_t :: real
  vc_waiters :: "sleeper list"
  vc_counter :: nat
  vc_done :: "nat set"

definition vc_new :: "real \<Rightarrow> virtual_clock" where
  "vc_new start_s = \<lparr>vc_t = start_s, vc_waiters = [], vc_counter = 0, vc_done = {}\<rparr>"

definition vc_now_us :: "virtual_clock \<Rightarrow> int" where
  "vc_now_us c = py_round (vc_t c * 10 ^ 6)"

definition before :: "sleeper \<Rightarrow> sleeper \<Rightarrow> bool" where
  "before a b \<longleftrightarrow> fst a < fst b \<or> fst a = fst b \<and> snd a \<le> snd b"

fun heap_push :: "sleeper \<Rightarrow> sleeper list \<Rightarrow> sleeper list" where
  "heap_push x [] = [x]"
| "heap_push x (y # ys) = (if before x y then x # y # ys else y # heap_push x ys)"

text \<open>\<^verbatim>\<open>sleep\<close> up to its \<^verbatim>\<open>await\<close>: the number the caller waits on, or \<open>None\<close> when it does not park.\<close>

definition vc_sleep :: "virtual_clock \<Rightarrow> real \<Rightarrow> virtual_clock \<times> nat option" where
  "vc_sleep c seconds =
     (if seconds \<le> 0 then (c, None)
      else (c\<lparr>vc_waiters := heap_push (vc_t c + seconds, vc_counter c) (vc_waiters c),
              vc_counter := vc_counter c + 1\<rparr>, Some (vc_counter c)))"

definition vc_pending :: "virtual_clock \<Rightarrow> nat" where
  "vc_pending c = length (vc_waiters c)"

definition next_deadline_s :: "virtual_clock \<Rightarrow> real option" where
  "next_deadline_s c = (case vc_waiters c of [] \<Rightarrow> None | (d, _) # _ \<Rightarrow> Some d)"

text \<open>Popping and resolving every sleeper due at \<open>deadline\<close>; the numbers woken, in order.\<close>

fun wake_due :: "real \<Rightarrow> sleeper list \<Rightarrow> nat set \<Rightarrow> sleeper list \<times> nat set \<times> nat list" where
  "wake_due deadline [] done = ([], done, [])"
| "wake_due deadline ((d, k) # ws) done =
     (if d \<le> deadline then
        (let (ws', done', woken) = wake_due deadline ws (insert k done)
         in (ws', done', if k \<in> done then woken else k # woken))
      else ((d, k) # ws, done, []))"

definition vc_advance :: "virtual_clock \<Rightarrow> virtual_clock \<times> real option \<times> nat list" where
  "vc_advance c =
     (case vc_waiters c of
        [] \<Rightarrow> (c, None, [])
      | (deadline, _) # _ \<Rightarrow>
          (let (ws, done', woken) = wake_due deadline (vc_waiters c) (vc_done c)
           in (c\<lparr>vc_t := deadline, vc_waiters := ws, vc_done := done'\<rparr>, Some deadline, woken)))"

fun wake_all :: "sleeper list \<Rightarrow> nat set \<Rightarrow> nat set \<times> nat list" where
  "wake_all [] done = (done, [])"
| "wake_all ((d, k) # ws) done =
     (let (done', woken) = wake_all ws (insert k done)
      in (done', if k \<in> done then woken else k # woken))"

definition vc_cancel_all :: "virtual_clock \<Rightarrow> virtual_clock \<times> nat list" where
  "vc_cancel_all c =
     (let (done', woken) = wake_all (vc_waiters c) (vc_done c)
      in (c\<lparr>vc_waiters := [], vc_done := done'\<rparr>, woken))"

text \<open>A task that is cancelled from outside has its future cancelled while it is still parked.\<close>

definition vc_cancel :: "virtual_clock \<Rightarrow> nat \<Rightarrow> virtual_clock" where
  "vc_cancel c k = c\<lparr>vc_done := insert k (vc_done c)\<rparr>"

subsection \<open>Invariant\<close>

definition vc_ok :: "virtual_clock \<Rightarrow> bool" where
  "vc_ok c \<longleftrightarrow>
     sorted_wrt before (vc_waiters c) \<and> list_all (\<lambda>w. vc_t c < fst w) (vc_waiters c) \<and>
     list_all (\<lambda>w. snd w < vc_counter c) (vc_waiters c) \<and> distinct (map snd (vc_waiters c))"

lemma set_heap_push [simp]: "set (heap_push x xs) = insert x (set xs)"
  by (induction xs) auto

lemma length_heap_push [simp]: "length (heap_push x xs) = Suc (length xs)"
  by (induction xs) auto

lemma before_trans: "before a b \<Longrightarrow> before b c \<Longrightarrow> before a c"
  by (auto simp: before_def)

lemma before_total: "before a b \<or> before b a"
  by (auto simp: before_def)

lemma sorted_heap_push: "sorted_wrt before xs \<Longrightarrow> sorted_wrt before (heap_push x xs)"
proof (induction xs)
  case Nil
  then show ?case by simp
next
  case (Cons y ys)
  then show ?case using before_trans [of x y] before_total [of x y] by auto
qed

lemma distinct_heap_push:
  "distinct (map snd xs) \<Longrightarrow> snd x \<notin> set (map snd xs) \<Longrightarrow> distinct (map snd (heap_push x xs))"
proof (induction xs)
  case Nil
  then show ?case by simp
next
  case (Cons y ys)
  then show ?case by (auto simp del: set_map) (auto simp: image_iff)
qed

lemma vc_new_ok [inv_intros]: "vc_ok (vc_new s)"
  by (simp add: vc_ok_def vc_new_def)

lemma vc_sleep_ok [inv_intros]: "vc_ok c \<Longrightarrow> vc_ok (fst (vc_sleep c s))"
  by (fastforce simp: vc_ok_def vc_sleep_def list_all_iff intro: sorted_heap_push distinct_heap_push)

lemma vc_cancel_ok [inv_intros]: "vc_ok c \<Longrightarrow> vc_ok (vc_cancel c k)"
  by (simp add: vc_ok_def vc_cancel_def)

lemma wake_due_eq:
  "sorted_wrt before ws \<Longrightarrow> distinct (map snd ws) \<Longrightarrow>
   wake_due d ws done =
     (filter (\<lambda>w. \<not> fst w \<le> d) ws, done \<union> snd ` set (filter (\<lambda>w. fst w \<le> d) ws),
      map snd (filter (\<lambda>w. fst w \<le> d \<and> snd w \<notin> done) ws))"
proof (induction d ws "done" rule: wake_due.induct)
  case (1 d d')
  then show ?case by simp
next
  case (2 d e k ws dn)
  show ?case
  proof (cases "e \<le> d")
    case True
    have "\<And>w. w \<in> set ws \<Longrightarrow> snd w \<noteq> k" using 2(3) by force
    then have "filter (\<lambda>w. fst w \<le> d \<and> snd w \<notin> insert k dn) ws
        = filter (\<lambda>w. fst w \<le> d \<and> snd w \<notin> dn) ws"
      by (intro filter_cong) auto
    then show ?thesis using 2 True by auto
  next
    case False
    then have "\<And>w. w \<in> set ws \<Longrightarrow> \<not> fst w \<le> d" using 2(2) by (force simp: before_def)
    then have "filter (\<lambda>w. fst w \<le> d) ws = []" "filter (\<lambda>w. \<not> fst w \<le> d) ws = ws"
        "filter (\<lambda>w. fst w \<le> d \<and> snd w \<notin> dn) ws = []"
      by (auto simp: filter_empty_conv filter_id_conv)
    then show ?thesis using False by simp
  qed
qed

lemma vc_advance_eq:
  assumes "vc_ok c" and "vc_waiters c = (d, k) # ws"
  shows "vc_advance c =
     (c\<lparr>vc_t := d, vc_waiters := filter (\<lambda>w. d < fst w) (vc_waiters c),
        vc_done := vc_done c \<union> snd ` set (filter (\<lambda>w. fst w \<le> d) (vc_waiters c))\<rparr>,
      Some d, map snd (filter (\<lambda>w. fst w = d \<and> snd w \<notin> vc_done c) (vc_waiters c)))"
proof -
  have ge: "\<And>w. w \<in> set (vc_waiters c) \<Longrightarrow> d \<le> fst w"
    using assms by (force simp: vc_ok_def before_def)
  then have "filter (\<lambda>w. fst w \<le> d \<and> snd w \<notin> vc_done c) (vc_waiters c)
      = filter (\<lambda>w. fst w = d \<and> snd w \<notin> vc_done c) (vc_waiters c)"
    by (intro filter_cong) (auto simp: order_antisym)
  then show ?thesis
    using assms wake_due_eq [of "vc_waiters c" d "vc_done c"]
    by (simp add: vc_advance_def vc_ok_def not_le)
qed

lemma vc_advance_ok [inv_intros]: "vc_ok c \<Longrightarrow> vc_ok (fst (vc_advance c))"
proof -
  assume ok: "vc_ok c"
  show ?thesis
  proof (cases "vc_waiters c")
    case Nil
    then show ?thesis using ok by (simp add: vc_advance_def)
  next
    case (Cons w ws)
    obtain d k where w: "vc_waiters c = (d, k) # ws" using Cons by (cases w) simp
    have "distinct (map snd (filter P (vc_waiters c)))" for P
      using ok by (simp add: vc_ok_def distinct_map_filter)
    then show ?thesis
      using ok vc_advance_eq [OF ok w] by (simp add: vc_ok_def list_all_iff sorted_wrt_filter)
  qed
qed

text \<open>What tasks and the simulation driver do to the clock.\<close>

datatype clock_op = Sleep real | Advance | Cancel nat

primrec clock_do :: "virtual_clock \<Rightarrow> clock_op \<Rightarrow> virtual_clock" where
  "clock_do c (Sleep s) = fst (vc_sleep c s)"
| "clock_do c Advance = fst (vc_advance c)"
| "clock_do c (Cancel k) = vc_cancel c k"

lemma clock_do_ok [inv_intros]: "vc_ok c \<Longrightarrow> vc_ok (clock_do c op)"
  by (cases op) (simp_all add: inv_intros)

lemma clock_run_ok [inv_intros]: "vc_ok c \<Longrightarrow> vc_ok (foldl clock_do c ops)"
  by (induction ops arbitrary: c) (simp_all add: inv_intros)

lemma advance_facts:
  assumes "vc_ok c" and "vc_waiters c \<noteq> []"
  shows "\<exists>d. next_deadline_s c = Some d \<and> vc_t c < d \<and>
     (let (c', r, woken) = vc_advance c in
       r = Some d \<and> vc_t c' = d \<and>
       woken = map snd (filter (\<lambda>w. fst w = d \<and> snd w \<notin> vc_done c) (vc_waiters c)) \<and>
       sorted_wrt (<) (map snd (filter (\<lambda>w. fst w = d) (vc_waiters c))) \<and>
       vc_waiters c' = filter (\<lambda>w. d < fst w) (vc_waiters c) \<and>
       vc_pending c' < vc_pending c)"
proof -
  obtain d k ws where w: "vc_waiters c = (d, k) # ws"
    using assms(2) by (cases "vc_waiters c") auto
  have "length (filter (\<lambda>w. d < fst w) ((d, k) # ws)) < length ((d, k) # ws)"
    by (simp add: le_imp_less_Suc)
  moreover have "sorted_wrt (<) (map snd (filter (\<lambda>w. fst w = d) (vc_waiters c)))"
  proof -
    have s: "sorted_wrt (\<lambda>a b. before a b \<and> snd a \<noteq> snd b) (vc_waiters c)"
      using assms(1) by (simp add: vc_ok_def sorted_wrt_iff_nth_less distinct_conv_nth)
    have "sorted_wrt (\<lambda>a b. before a b \<and> snd a \<noteq> snd b) (filter (\<lambda>w. fst w = d) (vc_waiters c))"
      by (rule sorted_wrt_filter [OF s])
    then show ?thesis unfolding sorted_wrt_map
      by (rule sorted_wrt_mono_rel [rotated]) (auto simp: before_def)
  qed
  ultimately show ?thesis using assms(1) w
    by (simp add: vc_advance_eq [OF assms(1) w] next_deadline_s_def vc_pending_def vc_ok_def)
qed

text \<open>Virtual time: from any clock reachable by sleeping, advancing and cancelling, an
  advance with a sleeper parked moves to the earliest deadline, which lies strictly in the
  future, wakes exactly the live sleepers of that deadline in the order they called
  \<^verbatim>\<open>sleep\<close>, keeps every later sleeper and parks strictly fewer.\<close>

theorem virtual_time:
  assumes "c = foldl clock_do (vc_new s) ops" and "vc_waiters c \<noteq> []"
  shows "\<exists>d. next_deadline_s c = Some d \<and> vc_t c < d \<and>
     (let (c', r, woken) = vc_advance c in
       r = Some d \<and> vc_t c' = d \<and>
       woken = map snd (filter (\<lambda>w. fst w = d \<and> snd w \<notin> vc_done c) (vc_waiters c)) \<and>
       sorted_wrt (<) (map snd (filter (\<lambda>w. fst w = d) (vc_waiters c))) \<and>
       vc_waiters c' = filter (\<lambda>w. d < fst w) (vc_waiters c) \<and>
       vc_pending c' < vc_pending c)"
  unfolding assms(1) by (rule advance_facts) (intro inv_intros, use assms in simp)

theorem virtual_time_witness:
  "snd (snd (vc_advance (foldl clock_do (vc_new 0) [Sleep 2, Sleep 1, Sleep 1, Cancel 1]))) = [2]"
proof -
  let ?c = "foldl clock_do (vc_new 0) [Sleep 2, Sleep 1, Sleep 1, Cancel 1]"
  have w: "vc_waiters ?c = [(1, 1), (1, 2), (2, 0)]" "vc_done ?c = {1}"
    by (simp_all add: vc_new_def vc_sleep_def before_def vc_cancel_def)
  obtain d where "next_deadline_s ?c = Some d"
      "snd (snd (vc_advance ?c)) = map snd (filter (\<lambda>w. fst w = d \<and> snd w \<notin> vc_done ?c) (vc_waiters ?c))"
    using virtual_time [of ?c 0 "[Sleep 2, Sleep 1, Sleep 1, Cancel 1]"] w
    by (auto simp: Let_def split_beta)
  then show ?thesis using w by (simp add: next_deadline_s_def)
qed

end
