(* ===== verification/Neighbors.thy ===== *)
theory Neighbors
  imports LinkMonitor
begin

section \<open>The neighbour table (agent/neighbors.py)\<close>

text \<open>
  The table bridges packets, which arrive when they arrive, and the control loop, which reads
  it synchronously. \<open>neighbor_table\<close> holds the fields of \<^verbatim>\<open>NeighborTable\<close>, \<open>nt_observe\<close>
  is its write side, the other operations its read side; \<open>arrivals\<close> clears what it reports.
  A received \<^verbatim>\<open>vstate\<close> is always a tuple of one or two integers (\<^verbatim>\<open>StatePacket\<close>
  normalises a bare int). The lemmas show that the table holds the last packet of every
  declared neighbour and nothing of any other node, that a snapshot is aligned to the
  declared order with \<open>dim\<close> integers per neighbour, and that arrival flags report exactly the
  packets since the previous read.
\<close>

record reception =
  rc_packet :: state_packet
  rc_rx :: int
  rc_rssi :: "int option"

record neighbor_record =
  nr_vstate :: "int list"
  nr_seq :: int
  nr_tx :: int
  nr_rx :: int
  nr_enabled :: bool
  nr_rssi :: "int option"
  nr_updates :: int

definition age_us :: "neighbor_record \<Rightarrow> int \<Rightarrow> int" where
  "age_us r now = now - nr_rx r"

record neighbor_table =
  nt_ids :: "int list"
  nt_max_age :: int
  nt_dim :: nat
  nt_hold :: bool
  nt_monitor :: link_monitor
  nt_records :: "int \<rightharpoonup> neighbor_record"
  nt_arrived :: "int set"
  nt_ignored :: int
  nt_first_seen :: "int \<rightharpoonup> int"

definition nt_init :: "int list \<Rightarrow> real \<Rightarrow> nat \<Rightarrow> bool \<Rightarrow> link_monitor \<Rightarrow> neighbor_table result" where
  "nt_init ids max_age_s dm hold m =
     (if max_age_s \<le> 0 then Inl ValueError
      else Inr \<lparr>nt_ids = ids, nt_max_age = py_round (max_age_s * 10 ^ 6), nt_dim = dm, nt_hold = hold,
                nt_monitor = m, nt_records = Map.empty, nt_arrived = {}, nt_ignored = 0,
                nt_first_seen = Map.empty\<rparr>)"

definition nt_observe :: "neighbor_table \<Rightarrow> reception \<Rightarrow> neighbor_table \<times> bool" where
  "nt_observe t r =
     (let pkt = rc_packet r; nid = pk_node pkt in
      if nid \<notin> set (nt_ids t) then (t\<lparr>nt_ignored := nt_ignored t + 1\<rparr>, False)
      else
        (t\<lparr>nt_arrived := insert nid (nt_arrived t),
           nt_first_seen := setdefault (nt_first_seen t) nid (rc_rx r),
           nt_monitor := lm_observe (nt_monitor t) pkt (Some (rc_rx r)),
           nt_records := (nt_records t)(nid \<mapsto>
             \<lparr>nr_vstate = pk_vstate pkt, nr_seq = pk_seq pkt, nr_tx = pk_tx pkt, nr_rx = rc_rx r,
              nr_enabled = pk_enabled pkt, nr_rssi = rc_rssi r,
              nr_updates = (case nt_records t nid of None \<Rightarrow> 1 | Some prev \<Rightarrow> nr_updates prev + 1)\<rparr>)\<rparr>,
         True))"

definition is_fresh :: "neighbor_table \<Rightarrow> int \<Rightarrow> neighbor_record \<Rightarrow> bool" where
  "is_fresh t now rec \<longleftrightarrow> age_us rec now \<le> nt_max_age t"

definition pad_to :: "nat \<Rightarrow> int list \<Rightarrow> int list" where
  "pad_to d v = take d v @ replicate (d - length v) 0"

definition snap_one :: "neighbor_table \<Rightarrow> int \<Rightarrow> int \<Rightarrow> int list \<times> bool" where
  "snap_one t now nid =
     (case nt_records t nid of
        None \<Rightarrow> (replicate (nt_dim t) 0, False)
      | Some rec \<Rightarrow>
          (pad_to (nt_dim t) (nr_vstate rec), nr_enabled rec \<and> (nt_hold t \<or> is_fresh t now rec)))"

definition snapshot :: "neighbor_table \<Rightarrow> int \<Rightarrow> int list \<times> bool list" where
  "snapshot t now =
     (concat (map (\<lambda>nid. fst (snap_one t now nid)) (nt_ids t)),
      map (\<lambda>nid. snd (snap_one t now nid)) (nt_ids t))"

definition freshness :: "neighbor_table \<Rightarrow> int \<Rightarrow> bool list" where
  "freshness t now =
     map (\<lambda>nid. case nt_records t nid of None \<Rightarrow> False | Some rec \<Rightarrow> is_fresh t now rec) (nt_ids t)"

definition last_seq :: "neighbor_table \<Rightarrow> int list" where
  "last_seq t = map (\<lambda>nid. case nt_records t nid of None \<Rightarrow> 0 | Some rec \<Rightarrow> nr_seq rec) (nt_ids t)"

definition last_rssi :: "neighbor_table \<Rightarrow> int list" where
  "last_rssi t =
     map (\<lambda>nid. case nt_records t nid of
            None \<Rightarrow> 0 | Some rec \<Rightarrow> (case nr_rssi rec of None \<Rightarrow> 0 | Some v \<Rightarrow> v)) (nt_ids t)"

definition arrivals :: "neighbor_table \<Rightarrow> bool list \<times> neighbor_table" where
  "arrivals t = (map (\<lambda>nid. nid \<in> nt_arrived t) (nt_ids t), t\<lparr>nt_arrived := {}\<rparr>)"

definition fresh_count :: "neighbor_table \<Rightarrow> int \<Rightarrow> nat" where
  "fresh_count t now = length (filter id (snd (snapshot t now)))"

definition heard :: "neighbor_table \<Rightarrow> int list" where
  "heard t = filter (\<lambda>nid. nt_records t nid \<noteq> None) (nt_ids t)"

definition missing :: "neighbor_table \<Rightarrow> int list" where
  "missing t = filter (\<lambda>nid. nt_records t nid = None) (nt_ids t)"

primrec nt_run :: "neighbor_table \<Rightarrow> reception list \<Rightarrow> neighbor_table" where
  "nt_run t [] = t"
| "nt_run t (r # rs) = nt_run (fst (nt_observe t r)) rs"

subsection \<open>Facts\<close>

lemma observe_fields [simp]:
  "nt_ids (fst (nt_observe t r)) = nt_ids t" "nt_max_age (fst (nt_observe t r)) = nt_max_age t"
  "nt_dim (fst (nt_observe t r)) = nt_dim t" "nt_hold (fst (nt_observe t r)) = nt_hold t"
  by (simp_all add: nt_observe_def Let_def)

lemma run_fields [simp]:
  "nt_ids (nt_run t rs) = nt_ids t" "nt_max_age (nt_run t rs) = nt_max_age t"
  "nt_dim (nt_run t rs) = nt_dim t" "nt_hold (nt_run t rs) = nt_hold t"
  by (induction rs arbitrary: t) simp_all

lemma length_pad_to [simp]: "length (pad_to d v) = d"
  by (simp add: pad_to_def)

lemma length_snap_one [simp]: "length (fst (snap_one t now nid)) = nt_dim t"
  by (simp add: snap_one_def split: option.split)

text \<open>The packets of one node in a run, oldest first.\<close>

definition from_node :: "int \<Rightarrow> reception list \<Rightarrow> reception list" where
  "from_node n rs = filter (\<lambda>r. pk_node (rc_packet r) = n) rs"

lemma from_node_Cons:
  "from_node n (r # rs) = (if pk_node (rc_packet r) = n then r # from_node n rs else from_node n rs)"
  by (simp add: from_node_def)

lemma observe_record_other:
  "pk_node (rc_packet r) \<noteq> n \<Longrightarrow> nt_records (fst (nt_observe t r)) n = nt_records t n"
  by (simp add: nt_observe_def Let_def)

lemma observe_record_undeclared:
  "n \<notin> set (nt_ids t) \<Longrightarrow> nt_records (fst (nt_observe t r)) n = nt_records t n"
  by (auto simp: nt_observe_def Let_def)

definition same_as :: "neighbor_record \<Rightarrow> reception \<Rightarrow> bool" where
  "same_as rec r \<longleftrightarrow>
     nr_vstate rec = pk_vstate (rc_packet r) \<and> nr_seq rec = pk_seq (rc_packet r) \<and>
     nr_tx rec = pk_tx (rc_packet r) \<and> nr_rx rec = rc_rx r \<and>
     nr_enabled rec = pk_enabled (rc_packet r) \<and> nr_rssi rec = rc_rssi r"

lemma observe_record_same:
  "pk_node (rc_packet r) = n \<Longrightarrow> n \<in> set (nt_ids t) \<Longrightarrow>
   \<exists>rec. nt_records (fst (nt_observe t r)) n = Some rec \<and> same_as rec r \<and>
         nr_updates rec = (case nt_records t n of None \<Rightarrow> 1 | Some p \<Rightarrow> nr_updates p + 1)"
  by (simp add: nt_observe_def Let_def same_as_def)

lemma run_record_undeclared: "n \<notin> set (nt_ids t) \<Longrightarrow> nt_records (nt_run t rs) n = nt_records t n"
  by (induction rs arbitrary: t) (simp_all add: observe_record_undeclared)

definition updates_of :: "neighbor_table \<Rightarrow> int \<Rightarrow> int" where
  "updates_of t n = (case nt_records t n of None \<Rightarrow> 0 | Some rec \<Rightarrow> nr_updates rec)"

lemma observe_updates:
  "n \<in> set (nt_ids t) \<Longrightarrow>
   updates_of (fst (nt_observe t r)) n = updates_of t n + (if pk_node (rc_packet r) = n then 1 else 0)"
  using observe_record_same [of r n t] observe_record_other [of r n t]
  by (auto simp: updates_of_def split: option.splits)

lemma run_updates:
  "n \<in> set (nt_ids t) \<Longrightarrow> updates_of (nt_run t rs) n = updates_of t n + int (length (from_node n rs))"
  by (induction rs arbitrary: t) (simp_all add: observe_updates from_node_Cons, simp add: from_node_def)

lemma run_record_last:
  assumes "n \<in> set (nt_ids t)"
  shows "if from_node n rs = [] then nt_records (nt_run t rs) n = nt_records t n
         else \<exists>rec. nt_records (nt_run t rs) n = Some rec \<and> same_as rec (last (from_node n rs))"
  using assms
proof (induction rs arbitrary: t)
  case Nil
  then show ?case by (simp add: from_node_def)
next
  case (Cons r rs)
  let ?t = "fst (nt_observe t r)"
  have IH: "if from_node n rs = [] then nt_records (nt_run ?t rs) n = nt_records ?t n
      else \<exists>rec. nt_records (nt_run ?t rs) n = Some rec \<and> same_as rec (last (from_node n rs))"
    using Cons.prems by (intro Cons.IH) simp
  show ?case
  proof (cases "pk_node (rc_packet r) = n")
    case True
    then obtain rec where "nt_records ?t n = Some rec" "same_as rec r"
      using observe_record_same [of r n t] Cons.prems by auto
    then show ?thesis using IH True by (auto simp: from_node_Cons)
  next
    case False
    then show ?thesis using IH observe_record_other [of r n t] by (simp add: from_node_Cons)
  qed
qed

lemma run_arrived:
  "nt_arrived (nt_run t rs) = nt_arrived t \<union> {n \<in> set (nt_ids t). from_node n rs \<noteq> []}"
proof (induction rs arbitrary: t)
  case Nil
  then show ?case by (simp add: from_node_def)
next
  case (Cons r rs)
  then show ?case by (auto simp: nt_observe_def Let_def from_node_Cons)
qed

lemma run_monitor:
  "nt_monitor (nt_run t rs) =
   lm_run (nt_monitor t)
     (map (\<lambda>r. (rc_packet r, Some (rc_rx r))) (filter (\<lambda>r. pk_node (rc_packet r) \<in> set (nt_ids t)) rs))"
  by (induction rs arbitrary: t) (simp_all add: nt_observe_def Let_def)

lemma run_ignored:
  "nt_ignored (nt_run t rs) =
   nt_ignored t + int (length (filter (\<lambda>r. pk_node (rc_packet r) \<notin> set (nt_ids t)) rs))"
  by (induction rs arbitrary: t) (simp_all add: nt_observe_def Let_def)

lemma concat_blocks_nth:
  assumes "\<And>x. length (g x) = d" and "i < length xs"
  shows "take d (drop (d * i) (concat (map g xs))) = g (xs ! i)"
  using assms(2)
proof (induction xs arbitrary: i)
  case Nil
  then show ?case by simp
next
  case (Cons x xs)
  show ?case
  proof (cases i)
    case 0
    then show ?thesis using assms(1) by simp
  next
    case (Suc j)
    then show ?thesis using Cons assms(1) [of x] by simp
  qed
qed

lemma length_concat_blocks: "(\<And>x. length (g x) = d) \<Longrightarrow> length (concat (map g xs)) = d * length xs"
  by (induction xs) simp_all

lemma table_init:
  "nt_init ids s d h m = Inr t \<Longrightarrow> nt_ids t = ids \<and> nt_dim t = d \<and> nt_hold t = h \<and>
     nt_records t = Map.empty \<and> nt_arrived t = {} \<and> nt_ignored t = 0"
  by (auto simp: nt_init_def split: if_splits)

subsection \<open>Properties\<close>

text \<open>C16: The table enforces the topology and keeps the latest state: after any sequence of
  receptions into a new table a declared neighbour that was heard has the record of its last
  packet, with as many updates as packets, every other node has none, and the packets of
  undeclared senders are counted and otherwise without effect.\<close>

theorem neighbor_table_latest:
  assumes "nt_init ids s d h m = Inr t"
  shows "nt_records (nt_run t rs) n =
           (if n \<in> set ids \<and> from_node n rs \<noteq> []
            then Some \<lparr>nr_vstate = pk_vstate (rc_packet (last (from_node n rs))),
                       nr_seq = pk_seq (rc_packet (last (from_node n rs))),
                       nr_tx = pk_tx (rc_packet (last (from_node n rs))),
                       nr_rx = rc_rx (last (from_node n rs)),
                       nr_enabled = pk_enabled (rc_packet (last (from_node n rs))),
                       nr_rssi = rc_rssi (last (from_node n rs)),
                       nr_updates = int (length (from_node n rs))\<rparr>
            else None) \<and>
         nt_ignored (nt_run t rs) = int (length (filter (\<lambda>r. pk_node (rc_packet r) \<notin> set ids) rs))"
proof (cases "n \<in> set ids \<and> from_node n rs \<noteq> []")
  case True
  note i = table_init [OF assms]
  obtain rec where r: "nt_records (nt_run t rs) n = Some rec" "same_as rec (last (from_node n rs))"
    using run_record_last [of n t rs] True i by auto
  have "nr_updates rec = int (length (from_node n rs))"
    using run_updates [of n t rs] True i r(1) by (simp add: updates_of_def)
  then show ?thesis using r True i by (cases rec) (simp add: same_as_def run_ignored)
next
  case False
  note i = table_init [OF assms]
  have "nt_records (nt_run t rs) n = None"
  proof (cases "n \<in> set ids")
    case True
    then show ?thesis using False run_record_last [of n t rs] i by simp
  next
    case False
    then show ?thesis using run_record_undeclared [of n t rs] i by simp
  qed
  then show ?thesis using False i by (simp only: if_False run_ignored) simp
qed

theorem neighbor_table_latest_witness:
  "\<exists>t. nt_init [2, 3] (1/2) 1 False (new_monitor 1024) = Inr t \<and>
     nt_records (nt_run t [\<lparr>rc_packet = seq_packet 2 7, rc_rx = 100, rc_rssi = None\<rparr>,
                           \<lparr>rc_packet = seq_packet 9 1, rc_rx = 101, rc_rssi = None\<rparr>]) 9 = None"
proof -
  obtain t where t: "nt_init [2, 3] (1/2) 1 False (new_monitor 1024) = Inr t" by (simp add: nt_init_def)
  show ?thesis using t neighbor_table_latest [OF t, where n = 9]
    by (simp del: nt_run.simps)
qed

text \<open>A snapshot is aligned to the declared neighbours: it holds exactly \<open>dim\<close> integers and
  one flag per neighbour; the block of a neighbour is its last received state cut or padded to
  \<open>dim\<close>, zeros when it was never heard, and its flag says that the sender was enabled and, unless
  stale values are held, that the packet is not older than the age limit.\<close>

theorem snapshot_aligned:
  "length (fst (snapshot t now)) = nt_dim t * length (nt_ids t) \<and>
   length (snd (snapshot t now)) = length (nt_ids t) \<and>
   (i < length (nt_ids t) \<longrightarrow>
      take (nt_dim t) (drop (nt_dim t * i) (fst (snapshot t now))) =
        (case nt_records t (nt_ids t ! i) of
           None \<Rightarrow> replicate (nt_dim t) 0 | Some rec \<Rightarrow> pad_to (nt_dim t) (nr_vstate rec)) \<and>
      (snd (snapshot t now) ! i \<longleftrightarrow>
        (case nt_records t (nt_ids t ! i) of
           None \<Rightarrow> False
         | Some rec \<Rightarrow> nr_enabled rec \<and> (nt_hold t \<or> now - nr_rx rec \<le> nt_max_age t))))"
  using concat_blocks_nth [of "\<lambda>nid. fst (snap_one t now nid)" "nt_dim t" i "nt_ids t"]
  by (auto simp: snapshot_def length_concat_blocks snap_one_def is_fresh_def age_us_def split: option.splits)

theorem snapshot_aligned_witness:
  "\<exists>t. nt_init [2, 3] (1/2) 2 True (new_monitor 1024) = Inr t \<and>
     take 2 (drop (2 * 1) (fst (snapshot (nt_run t [\<lparr>rc_packet = seq_packet 3 7, rc_rx = 100, rc_rssi = None\<rparr>]) 500)))
       = [0, 0]"
proof -
  obtain t where t: "nt_init [2, 3] (1/2) 2 True (new_monitor 1024) = Inr t" by (simp add: nt_init_def)
  let ?t = "nt_run t [\<lparr>rc_packet = seq_packet 3 7, rc_rx = 100, rc_rssi = None\<rparr>]"
  note i = table_init [OF t]
  have r: "nt_records ?t 3 = Some \<lparr>nr_vstate = [0], nr_seq = 7, nr_tx = 0, nr_rx = 100,
      nr_enabled = True, nr_rssi = None, nr_updates = 1\<rparr>"
    using i by (simp add: nt_observe_def seq_packet_def)
  show ?thesis using snapshot_aligned [of ?t 500 1] t i r by (simp add: pad_to_def)
qed

text \<open>Arrival flags are read-and-clear: after one read, the next read reports for every
  declared neighbour whether at least one of its packets was received in between, and nothing
  twice.\<close>

theorem arrivals_since_last_read:
  "fst (arrivals (nt_run (snd (arrivals t)) rs)) = map (\<lambda>n. from_node n rs \<noteq> []) (nt_ids t) \<and>
   fst (arrivals (snd (arrivals t))) = replicate (length (nt_ids t)) False"
proof -
  have "fst (arrivals (nt_run (snd (arrivals t)) rs)) = map (\<lambda>n. from_node n rs \<noteq> []) (nt_ids t)"
    by (simp add: arrivals_def run_arrived)
  moreover have "fst (arrivals (snd (arrivals t))) = replicate (length (nt_ids t)) False"
    by (simp add: arrivals_def map_replicate_const)
  ultimately show ?thesis by simp
qed

lemma heard_missing: "set (heard t) \<union> set (missing t) = set (nt_ids t) \<and> set (heard t) \<inter> set (missing t) = {}"
  by (auto simp: heard_def missing_def)

end
