(* ===== verification/Transports.thy ===== *)
theory Transports
  imports Neighbors AdvData Hci
begin

section \<open>Transports (transports/base.py, udp.py, ble.py, loopback.py)\<close>

text \<open>
  A transport publishes a packet to all neighbours and delivers what it hears to a callback.
  The callback is a function on the consumer's state \<open>'k\<close> that may also raise
  (\<open>'k \<times> exn option\<close>). \<open>udp_handle\<close> is the datagram callback, \<open>ble_consume\<close> and
  \<open>ble_pump\<close> the radio's reader, \<open>bus_broadcast\<close> the in-process bus; a transport's state is
  its counters, its callback (present or not) and, for the radio, the outstanding commands.
  Socket calls are not modelled: their outcome is an argument. The locale
  \<open>broadcast_medium\<close> states what the agents rely on, is interpreted on all three media, and
  gives each the same guarantees.
\<close>

type_synonym 'k callback = "'k \<Rightarrow> reception \<Rightarrow> 'k \<times> exn option"

subsection \<open>The contract\<close>

locale broadcast_medium =
  fixes send :: "state_packet \<Rightarrow> bytes result"
    and recv :: "int \<Rightarrow> bytes \<Rightarrow> state_packet option"
  assumes send_total: "packet_ok p \<Longrightarrow> \<exists>b. send p = Inr b"
    and recv_other: "packet_ok p \<Longrightarrow> send p = Inr b \<Longrightarrow> pk_node p \<noteq> n \<Longrightarrow> recv n b = Some p"
    and recv_own: "packet_ok p \<Longrightarrow> send p = Inr b \<Longrightarrow> pk_node p = n \<Longrightarrow> recv n b = None"
    and recv_sound: "recv n d = Some p \<Longrightarrow> packet_ok p \<and> pk_node p \<noteq> n"
begin

text \<open>Every listener but the sender hears the packet itself.\<close>

lemma broadcast_reaches:
  assumes "packet_ok p"
  shows "\<exists>b. send p = Inr b \<and> map (\<lambda>n. recv n b) ns = map (\<lambda>n. if n = pk_node p then None else Some p) ns"
proof -
  obtain b where b: "send p = Inr b" using send_total [OF assms] by blast
  have "recv n b = (if n = pk_node p then None else Some p)" for n
    using recv_other [OF assms b] recv_own [OF assms b] by auto
  with b show ?thesis by auto
qed

text \<open>A table fed by the medium only ever holds well-formed packets of other nodes.\<close>

lemma table_sound:
  assumes "list_all (\<lambda>r. \<exists>d. recv n d = Some (rc_packet r)) rs"
  shows "list_all (\<lambda>r. packet_ok (rc_packet r) \<and> pk_node (rc_packet r) \<noteq> n) rs"
  using assms recv_sound by (auto simp: list_all_iff)

text \<open>A declared neighbour's broadcast ends as its record in the table of any other agent.\<close>

lemma broadcast_into_table:
  assumes "packet_ok p" and "send p = Inr b" and "pk_node p \<noteq> n" and "pk_node p \<in> set (nt_ids t)"
  shows "\<exists>q. recv n b = Some q \<and>
           (\<exists>rec. nt_records (fst (nt_observe t \<lparr>rc_packet = q, rc_rx = now, rc_rssi = rssi\<rparr>)) (pk_node p)
              = Some rec \<and> nr_vstate rec = pk_vstate p \<and> nr_seq rec = pk_seq p \<and> nr_rx rec = now)"
  using recv_other [OF assms(1,2,3)] observe_record_same [of "\<lparr>rc_packet = p, rc_rx = now, rc_rssi = rssi\<rparr>"
      "pk_node p" t] assms(4)
  by (auto simp: same_as_def)

end

subsection \<open>UDP\<close>

record udp_stats =
  us_sent :: int
  us_send_errors :: int
  us_received :: int
  us_self_filtered :: int
  us_undecodable :: int
  us_delivered :: int
  us_last_error :: "exn option"

record udp_transport =
  ut_node :: int
  ut_open :: bool
  ut_listening :: bool
  ut_stats :: udp_stats

definition udp_new :: "int \<Rightarrow> udp_transport" where
  "udp_new node = \<lparr>ut_node = node, ut_open = False, ut_listening = False,
     ut_stats = \<lparr>us_sent = 0, us_send_errors = 0, us_received = 0, us_self_filtered = 0,
                 us_undecodable = 0, us_delivered = 0, us_last_error = None\<rparr>\<rparr>"

text \<open>\<open>bound\<close> is whether the socket could be configured and bound.\<close>

definition udp_start :: "udp_transport \<Rightarrow> bool \<Rightarrow> udp_transport result" where
  "udp_start u bound =
     (if ut_open u then Inr u
      else if \<not> bound then Inl OSError
      else Inr (u\<lparr>ut_listening := True, ut_open := True\<rparr>))"

definition udp_stop :: "udp_transport \<Rightarrow> udp_transport" where
  "udp_stop u = u\<lparr>ut_open := False, ut_listening := False\<rparr>"

text \<open>\<open>sendto\<close> is \<open>None\<close> or the exception the socket raises.\<close>

definition udp_publish :: "udp_transport \<Rightarrow> state_packet \<Rightarrow> exn option \<Rightarrow> (udp_transport \<times> bytes option) result" where
  "udp_publish u p sendto =
     (if \<not> ut_open u then Inl RuntimeError
      else bindR (encode_manufacturer_data p) (\<lambda>payload.
        case sendto of
          None \<Rightarrow> Inr (u\<lparr>ut_stats := (ut_stats u)\<lparr>us_sent := us_sent (ut_stats u) + 1\<rparr>\<rparr>, Some payload)
        | Some e \<Rightarrow>
            if e = OSError then
              Inr (u\<lparr>ut_stats := (ut_stats u)\<lparr>us_send_errors := us_send_errors (ut_stats u) + 1,
                                         us_last_error := Some e\<rparr>\<rparr>, None)
            else Inl e))"

definition udp_decode :: "bytes \<Rightarrow> state_packet result" where
  "udp_decode data =
     (if length data \<ge> 2 \<and> le_int (take 2 data) = COMPANY_ID
      then decode_manufacturer_data data COMPANY_ID else decode_any data)"

definition udp_handle :: "'k callback \<Rightarrow> udp_transport \<Rightarrow> 'k \<Rightarrow> bytes \<Rightarrow> int \<Rightarrow> udp_transport \<times> 'k" where
  "udp_handle cb u k data now =
     (let s = (ut_stats u)\<lparr>us_received := us_received (ut_stats u) + 1\<rparr> in
      case udp_decode data of
        Inl e \<Rightarrow>
          if e = DecodeError then (u\<lparr>ut_stats := s\<lparr>us_undecodable := us_undecodable s + 1\<rparr>\<rparr>, k)
          else (u\<lparr>ut_stats := s\<lparr>us_undecodable := us_undecodable s + 1, us_last_error := Some e\<rparr>\<rparr>, k)
      | Inr p \<Rightarrow>
          if pk_node p = ut_node u then
            (u\<lparr>ut_stats := s\<lparr>us_self_filtered := us_self_filtered s + 1\<rparr>\<rparr>, k)
          else if \<not> ut_listening u then (u\<lparr>ut_stats := s\<rparr>, k)
          else (case cb k \<lparr>rc_packet = p, rc_rx = now, rc_rssi = None\<rparr> of
                  (k', None) \<Rightarrow> (u\<lparr>ut_stats := s\<lparr>us_delivered := us_delivered s + 1\<rparr>\<rparr>, k')
                | (k', Some e) \<Rightarrow> (u\<lparr>ut_stats := s\<lparr>us_last_error := Some e\<rparr>\<rparr>, k')))"

definition udp_recv :: "int \<Rightarrow> bytes \<Rightarrow> state_packet option" where
  "udp_recv node data =
     (case udp_decode data of Inl _ \<Rightarrow> None | Inr p \<Rightarrow> if pk_node p = node then None else Some p)"

subsection \<open>BLE\<close>

record ble_stats =
  bs_sent :: int
  bs_send_errors :: int
  bs_send_timeouts :: int
  bs_events :: int
  bs_reports :: int
  bs_foreign :: int
  bs_self_filtered :: int
  bs_undecodable :: int
  bs_delivered :: int
  bs_other_events :: int
  bs_last_error :: "exn option"

datatype future = Pending | Settled "exn option"

record ble_transport =
  bt_node :: int
  bt_company :: int
  bt_listening :: bool
  bt_pumping :: bool
  bt_stats :: ble_stats
  bt_pending :: "int \<rightharpoonup> future"

definition ble_ad :: "ble_transport \<Rightarrow> state_packet \<Rightarrow> bytes result" where
  "ble_ad b p =
     bindR (to_bytes_le 2 (bt_company b)) (\<lambda>c. bindR (encode p) (\<lambda>e.
     bindR (element AD_MANUFACTURER (c @ e)) (\<lambda>el. build_ad [el] MAX_AD)))"

definition idle_packet :: "ble_transport \<Rightarrow> state_packet result" where
  "idle_packet b = post_init (bt_node b) [0] 0 0 False False"

text \<open>\<open>_command\<close> up to its await: the outstanding opcode is registered and the packet sent.\<close>

definition ble_begin :: "ble_transport \<Rightarrow> bytes \<Rightarrow> ble_transport result" where
  "ble_begin b packet =
     (let op = le_int (take 2 (drop 1 packet)) in
      if bt_pending b op = Some Pending then Inl HciError
      else Inr (b\<lparr>bt_pending := (bt_pending b)(op \<mapsto> Pending)\<rparr>))"

text \<open>\<open>publish\<close> before the wait, and after it: the future settled, or it timed out.\<close>

definition ble_publish_begin :: "ble_transport \<Rightarrow> state_packet \<Rightarrow> (ble_transport \<times> bytes) result" where
  "ble_publish_begin b p =
     (if \<not> bt_pumping b then Inl RuntimeError
      else bindR (bindR (ble_ad b p) cmd_le_set_adv_data) (\<lambda>cmd.
        case ble_begin b cmd of
          Inr b' \<Rightarrow> Inr (b', cmd)
        | Inl e \<Rightarrow> Inr (b\<lparr>bt_stats := (bt_stats b)\<lparr>bs_send_errors := bs_send_errors (bt_stats b) + 1,
                                               bs_last_error := Some e\<rparr>\<rparr>, cmd)))"

definition ble_publish_end :: "ble_transport \<Rightarrow> int \<Rightarrow> ble_transport" where
  "ble_publish_end b op =
     (let s = bt_stats b;
          s' = (case bt_pending b op of
                  Some (Settled None) \<Rightarrow> s\<lparr>bs_sent := bs_sent s + 1\<rparr>
                | Some (Settled (Some e)) \<Rightarrow>
                    s\<lparr>bs_send_errors := bs_send_errors s + 1, bs_last_error := Some e\<rparr>
                | _ \<Rightarrow> s\<lparr>bs_send_timeouts := bs_send_timeouts s + 1, bs_last_error := Some TimeoutError\<rparr>)
      in b\<lparr>bt_stats := s', bt_pending := (bt_pending b)(op := None)\<rparr>)"

definition ble_settle :: "ble_transport \<Rightarrow> int \<Rightarrow> exn option \<Rightarrow> ble_transport" where
  "ble_settle b op err =
     (case bt_pending b op of
        Some Pending \<Rightarrow> b\<lparr>bt_pending := (bt_pending b)(op \<mapsto> Settled err)\<rparr>
      | _ \<Rightarrow> b)"

definition ble_one :: "'k callback \<Rightarrow> int \<Rightarrow> ble_transport \<times> 'k \<Rightarrow> hci_report \<Rightarrow> ble_transport \<times> 'k" where
  "ble_one cb now bk report =
     (let (b, k) = bk; s = (bt_stats b)\<lparr>bs_reports := bs_reports (bt_stats b) + 1\<rparr> in
      case find_manufacturer (hr_data report) (bt_company b) of
        None \<Rightarrow> (b\<lparr>bt_stats := s\<lparr>bs_foreign := bs_foreign s + 1\<rparr>\<rparr>, k)
      | Some payload \<Rightarrow>
          (case decode_any payload of
             Inl e \<Rightarrow>
               if e = DecodeError then (b\<lparr>bt_stats := s\<lparr>bs_undecodable := bs_undecodable s + 1\<rparr>\<rparr>, k)
               else (b\<lparr>bt_stats := s\<lparr>bs_undecodable := bs_undecodable s + 1, bs_last_error := Some e\<rparr>\<rparr>, k)
           | Inr p \<Rightarrow>
               if pk_node p = bt_node b then
                 (b\<lparr>bt_stats := s\<lparr>bs_self_filtered := bs_self_filtered s + 1\<rparr>\<rparr>, k)
               else if \<not> bt_listening b then (b\<lparr>bt_stats := s\<rparr>, k)
               else (case cb k \<lparr>rc_packet = p, rc_rx = now, rc_rssi = Some (hr_rssi report)\<rparr> of
                       (k', None) \<Rightarrow> (b\<lparr>bt_stats := s\<lparr>bs_delivered := bs_delivered s + 1\<rparr>\<rparr>, k')
                     | (k', Some e) \<Rightarrow> (b\<lparr>bt_stats := s\<lparr>bs_last_error := Some e\<rparr>\<rparr>, k'))))"

definition ble_consume :: "'k callback \<Rightarrow> int \<Rightarrow> ble_transport \<Rightarrow> 'k \<Rightarrow> bytes \<Rightarrow> ble_transport \<times> 'k" where
  "ble_consume cb now b k params = foldl (ble_one cb now) (b, k) (parse_adv_reports params)"

text \<open>\<open>received\<close> is \<open>None\<close> when the read itself fails.\<close>

definition ble_pump :: "'k callback \<Rightarrow> int \<Rightarrow> ble_transport \<Rightarrow> 'k \<Rightarrow> bytes option \<Rightarrow> ble_transport \<times> 'k" where
  "ble_pump cb now b0 k received =
     (case received of
        None \<Rightarrow> (b0, k)
      | Some packet \<Rightarrow>
          (let b = b0\<lparr>bt_stats := (bt_stats b0)\<lparr>bs_events := bs_events (bt_stats b0) + 1\<rparr>\<rparr>;
               other = (b\<lparr>bt_stats := (bt_stats b)\<lparr>bs_other_events := bs_other_events (bt_stats b) + 1\<rparr>\<rparr>, k)
           in case parse_event packet of
                Inl _ \<Rightarrow> other
              | Inr ev \<Rightarrow>
                  if ev_code ev = EVT_LE_META then ble_consume cb now b k (ev_params ev)
                  else if ev_code ev = EVT_COMMAND_COMPLETE then
                    (case parse_command_complete (ev_params ev) of
                       Inl _ \<Rightarrow> (b, k)
                     | Inr cc \<Rightarrow> (ble_settle b (cc_opcode cc) (if cc_ok cc then None else Some HciError), k))
                  else if ev_code ev = EVT_COMMAND_STATUS then
                    (case parse_command_status (ev_params ev) of
                       Inl _ \<Rightarrow> (b, k)
                     | Inr cs \<Rightarrow>
                         (if \<not> cs_ok cs then ble_settle b (cs_opcode cs) (Some HciError) else b, k))
                  else other))"

definition ble_recv :: "int \<Rightarrow> int \<Rightarrow> bytes \<Rightarrow> state_packet option" where
  "ble_recv company node ad =
     (case find_manufacturer ad company of
        None \<Rightarrow> None
      | Some payload \<Rightarrow>
          (case decode_any payload of
             Inl _ \<Rightarrow> None | Inr p \<Rightarrow> if pk_node p = node then None else Some p))"

subsection \<open>The in-process bus\<close>

text \<open>
  Subscribers in the order of a Python dict, each with its callback; a delivery is dropped when
  the draw falls below the pair's loss. \<open>draw\<close> is the random generator on its state \<open>'g\<close>.
  Deferred deliveries are returned as scheduled, with their delay.
\<close>

record 'k bus =
  bus_subs :: "(int \<times> 'k callback) list"
  bus_sent :: int
  bus_delivered :: int
  bus_dropped :: int

definition bus_init :: "real \<Rightarrow> real \<Rightarrow> ('k bus) result" where
  "bus_init loss delay =
     (if \<not> (0 \<le> loss \<and> loss \<le> 1) then Inl ValueError
      else if delay < 0 then Inl ValueError
      else Inr \<lparr>bus_subs = [], bus_sent = 0, bus_delivered = 0, bus_dropped = 0\<rparr>)"

definition bus_subscribe :: "'k bus \<Rightarrow> int \<Rightarrow> 'k callback \<Rightarrow> 'k bus result" where
  "bus_subscribe bus n cb =
     (if n \<in> fst ` set (bus_subs bus) then Inl ValueError
      else Inr (bus\<lparr>bus_subs := bus_subs bus @ [(n, cb)]\<rparr>))"

definition bus_unsubscribe :: "'k bus \<Rightarrow> int \<Rightarrow> 'k bus" where
  "bus_unsubscribe bus n = bus\<lparr>bus_subs := filter (\<lambda>(m, _). m \<noteq> n) (bus_subs bus)\<rparr>"

type_synonym pair_key = "string option \<times> string option"

record bus_params =
  bp_loss :: real
  bp_delay :: real
  bp_types :: "(int \<rightharpoonup> string) option"
  bp_link_loss :: "pair_key \<rightharpoonup> real"
  bp_link_delay :: "pair_key \<rightharpoonup> real"

definition link_params :: "bus_params \<Rightarrow> int \<Rightarrow> int \<Rightarrow> real \<times> real" where
  "link_params bp sender receiver =
     (case bp_types bp of
        None \<Rightarrow> (bp_loss bp, bp_delay bp)
      | Some types \<Rightarrow>
          let key = (types sender, types receiver) in
          ((case bp_link_loss bp key of None \<Rightarrow> bp_loss bp | Some l \<Rightarrow> l),
           (case bp_link_delay bp key of None \<Rightarrow> bp_delay bp | Some d \<Rightarrow> d)))"

text \<open>
  \<open>broadcast\<close>: the loop over the subscribers, with the consumer state \<open>k\<close>, the generator state
  \<open>g\<close> and the deliveries put off for later; an exception from decoding or from a callback ends
  the loop.
\<close>

fun bus_loop ::
  "('g \<Rightarrow> real \<times> 'g) \<Rightarrow> bus_params \<Rightarrow> int \<Rightarrow> state_packet result \<Rightarrow> int \<Rightarrow> (int \<times> 'k callback) list \<Rightarrow>
   'k bus \<times> 'k \<times> 'g \<times> (int \<times> real) list \<Rightarrow> ('k bus \<times> 'k \<times> 'g \<times> (int \<times> real) list) \<times> exn option" where
  "bus_loop draw bp sender pay now [] st = (st, None)"
| "bus_loop draw bp sender pay now ((n, cb) # subs) (bus, k, g, later) =
     (if n = sender then bus_loop draw bp sender pay now subs (bus, k, g, later)
      else
        let (loss, delay) = link_params bp sender n;
            (dropped, g') = (if loss = 0 then (False, g) else let (x, g1) = draw g in (x < loss, g1))
        in if dropped then
             bus_loop draw bp sender pay now subs (bus\<lparr>bus_dropped := bus_dropped bus + 1\<rparr>, k, g', later)
           else if delay \<noteq> 0 then
             bus_loop draw bp sender pay now subs (bus, k, g', later @ [(n, delay)])
           else (case pay of
               Inl e \<Rightarrow> ((bus, k, g', later), Some e)
             | Inr q \<Rightarrow>
                 (case cb k \<lparr>rc_packet = q, rc_rx = now, rc_rssi = None\<rparr> of
                    (k', Some e) \<Rightarrow> ((bus, k', g', later), Some e)
                  | (k', None) \<Rightarrow>
                      bus_loop draw bp sender pay now subs
                        (bus\<lparr>bus_delivered := bus_delivered bus + 1\<rparr>, k', g', later))))"

definition bus_wire :: "bool \<Rightarrow> state_packet \<Rightarrow> (bytes option) result" where
  "bus_wire serialise p =
     (if serialise then bindR (encode_manufacturer_data p) (\<lambda>b. Inr (Some b)) else Inr None)"

definition bus_payload :: "bytes option \<Rightarrow> state_packet \<Rightarrow> state_packet result" where
  "bus_payload wire p = (case wire of Some w \<Rightarrow> decode_manufacturer_data w COMPANY_ID | None \<Rightarrow> Inr p)"

definition bus_broadcast ::
  "('g \<Rightarrow> real \<times> 'g) \<Rightarrow> bus_params \<Rightarrow> bool \<Rightarrow> int \<Rightarrow> 'k bus \<Rightarrow> 'k \<Rightarrow> 'g \<Rightarrow> int \<Rightarrow> state_packet \<Rightarrow>
   ('k bus \<times> 'k \<times> 'g \<times> (int \<times> real) list) \<times> exn option" where
  "bus_broadcast draw bp serialise now bus k g sender p =
     (let bus' = bus\<lparr>bus_sent := bus_sent bus + 1\<rparr> in
      case bus_wire serialise p of
        Inl e \<Rightarrow> ((bus', k, g, []), Some e)
      | Inr wire \<Rightarrow> bus_loop draw bp sender (bus_payload wire p) now (bus_subs bus') (bus', k, g, []))"

record loopback =
  lb_node :: int
  lb_started :: bool

definition lb_start :: "loopback \<Rightarrow> 'k bus \<Rightarrow> 'k callback \<Rightarrow> (loopback \<times> 'k bus) result" where
  "lb_start t bus cb =
     (if lb_started t then Inr (t, bus)
      else bindR (bus_subscribe bus (lb_node t) cb) (\<lambda>bus'. Inr (t\<lparr>lb_started := True\<rparr>, bus')))"

definition lb_stop :: "loopback \<Rightarrow> 'k bus \<Rightarrow> loopback \<times> 'k bus" where
  "lb_stop t bus = (t\<lparr>lb_started := False\<rparr>, bus_unsubscribe bus (lb_node t))"

definition loopback_recv :: "int \<Rightarrow> bytes \<Rightarrow> state_packet option" where
  "loopback_recv node data =
     (case decode_manufacturer_data data COMPANY_ID of
        Inl _ \<Rightarrow> None | Inr p \<Rightarrow> if pk_node p = node then None else Some p)"

subsection \<open>The media meet the contract\<close>

lemma manufacturer_bytes:
  "packet_ok p \<Longrightarrow> encode_manufacturer_data p = Inr (le_bytes 2 COMPANY_ID @ frame_of p)"
  by (simp add: encode_manufacturer_data_def to_bytes_le_def COMPANY_ID_def)

lemma le_company: "le_int (le_bytes 2 COMPANY_ID) = COMPANY_ID"
  by (simp add: le_int_le_bytes COMPANY_ID_def)

lemma manufacturer_back:
  "packet_ok p \<Longrightarrow> decode_manufacturer_data (le_bytes 2 COMPANY_ID @ frame_of p) COMPANY_ID = Inr p"
  by (simp add: decode_manufacturer_data_def le_company decode_frame)

lemma decode_any_frame: "packet_ok p \<Longrightarrow> decode_any (frame_of p) = Inr p"
proof -
  assume ok: "packet_ok p"
  obtain r where "frame_of p = byte_of (version p) # r" using frame_of_first [OF ok] by blast
  then have "decode_any (frame_of p) = decode (frame_of p)"
    using length_frame_of [OF ok]
    by (auto simp: decode_any_def version_def codec_consts split: list.split if_splits)
  then show ?thesis by (simp add: decode_frame [OF ok])
qed

lemma decode_sound: "decode d = Inr p \<Longrightarrow> packet_ok p"
  using decode_outcome [of d] by auto

lemma decode_any_sound: "decode_any d = Inr p \<Longrightarrow> packet_ok p"
  using decode_any_outcome [of d] by auto

lemma manufacturer_sound: "decode_manufacturer_data d c = Inr p \<Longrightarrow> packet_ok p"
  by (auto simp: decode_manufacturer_data_def split: if_splits dest: decode_sound)

lemma manufacturer_raises: "decode_manufacturer_data d c = Inl e \<Longrightarrow> e = DecodeError"
  using decode_outcome [of "drop 2 d"] by (auto simp: decode_manufacturer_data_def split: if_splits)

lemma udp_decode_own: "packet_ok p \<Longrightarrow> udp_decode (le_bytes 2 COMPANY_ID @ frame_of p) = Inr p"
  by (simp add: udp_decode_def le_company manufacturer_back)

text \<open>A bare payload, without the company prefix, is accepted too: its first byte is a version.\<close>

lemma udp_decode_bare:
  assumes "packet_ok p"
  shows "udp_decode (frame_of p) = Inr p"
proof -
  obtain r where r: "frame_of p = byte_of (version p) # r" using frame_of_first [OF assms] by blast
  have v: "version p = 1 \<or> version p = 2" by (simp add: version_def codec_consts)
  have "le_int (take 2 (frame_of p)) mod 256 = version p"
    using v by (auto simp: r numeral_2_eq_2 take_Suc_conv_app_nth)
  then have "le_int (take 2 (frame_of p)) \<noteq> COMPANY_ID" using v by (auto simp: COMPANY_ID_def)
  then show ?thesis by (simp add: udp_decode_def decode_any_frame assms)
qed

lemma udp_decode_sound: "udp_decode d = Inr p \<Longrightarrow> packet_ok p"
  by (auto simp: udp_decode_def split: if_splits dest: manufacturer_sound decode_any_sound)

lemma udp_decode_raises: "udp_decode d = Inl e \<Longrightarrow> e = DecodeError"
  using decode_any_outcome [of d] by (auto simp: udp_decode_def split: if_splits dest: manufacturer_raises)

interpretation udp: broadcast_medium encode_manufacturer_data udp_recv
  by unfold_locales
     (auto simp: manufacturer_bytes udp_recv_def udp_decode_own udp_decode_sound split: sum.splits if_splits)

interpretation loopback: broadcast_medium encode_manufacturer_data loopback_recv
  by unfold_locales
     (auto simp: manufacturer_bytes loopback_recv_def manufacturer_back manufacturer_sound
           split: sum.splits if_splits)

definition ble_send :: "int \<Rightarrow> state_packet \<Rightarrow> bytes result" where
  "ble_send company p =
     bindR (to_bytes_le 2 company) (\<lambda>c. bindR (encode p) (\<lambda>e.
     bindR (element AD_MANUFACTURER (c @ e)) (\<lambda>el. build_ad [el] MAX_AD)))"

lemma ble_ad_send: "ble_ad b p = ble_send (bt_company b) p"
  by (simp add: ble_ad_def ble_send_def)

definition ad_of :: "int \<Rightarrow> state_packet \<Rightarrow> bytes" where
  "ad_of company p =
     element_bytes \<lparr>el_type = AD_MANUFACTURER, el_value = le_bytes 2 company @ frame_of p\<rparr>"

lemma frame_len: "packet_ok p \<Longrightarrow> length (frame_of p) \<le> 19"
  by (simp add: length_frame_of codec_consts)

lemma ble_send_ok:
  assumes "packet_ok p" and "0 \<le> c" "c < 65536"
  shows "ble_send c p = Inr (ad_of c p)" and "length (ad_of c p) \<le> 23"
proof -
  let ?el = "\<lparr>el_type = AD_MANUFACTURER, el_value = le_bytes 2 c @ frame_of p\<rparr>"
  have "element_ok ?el" using frame_len [OF assms(1)] by (simp add: element_ok_def AD_MANUFACTURER_def)
  from element_eq [OF this] have "element AD_MANUFACTURER (le_bytes 2 c @ frame_of p) = Inr (ad_of c p)"
    by (simp add: ad_of_def)
  moreover show l: "length (ad_of c p) \<le> 23"
    using frame_len [OF assms(1)] by (simp add: ad_of_def element_bytes_def)
  ultimately show "ble_send c p = Inr (ad_of c p)"
    using assms by (simp add: ble_send_def to_bytes_le_def build_ad_def MAX_AD_def)
qed

lemma find_ad_of:
  assumes "packet_ok p" and "0 \<le> c" "c < 65536"
  shows "find_manufacturer (ad_of c p) c = Some (frame_of p)"
  using find_manufacturer_built [of "[]" c "frame_of p"] frame_len [OF assms(1)] assms(2,3)
  by (simp add: ad_of_def)

interpretation ble: broadcast_medium "ble_send COMPANY_ID" "ble_recv COMPANY_ID"
proof unfold_locales
  fix p b n d
  have c: "0 \<le> COMPANY_ID" "COMPANY_ID < 65536" by (simp_all add: COMPANY_ID_def)
  show "packet_ok p \<Longrightarrow> \<exists>b. ble_send COMPANY_ID p = Inr b" using ble_send_ok(1) [OF _ c] by auto
  show "packet_ok p \<Longrightarrow> ble_send COMPANY_ID p = Inr b \<Longrightarrow> pk_node p \<noteq> n \<Longrightarrow> ble_recv COMPANY_ID n b = Some p"
    using ble_send_ok(1) [OF _ c, of p] find_ad_of [OF _ c, of p] decode_any_frame [of p]
    by (auto simp: ble_recv_def)
  show "packet_ok p \<Longrightarrow> ble_send COMPANY_ID p = Inr b \<Longrightarrow> pk_node p = n \<Longrightarrow> ble_recv COMPANY_ID n b = None"
    using ble_send_ok(1) [OF _ c, of p] find_ad_of [OF _ c, of p] decode_any_frame [of p]
    by (auto simp: ble_recv_def)
  show "ble_recv COMPANY_ID n d = Some p \<Longrightarrow> packet_ok p \<and> pk_node p \<noteq> n"
    by (auto simp: ble_recv_def decode_any_sound split: option.splits sum.splits if_splits)
qed

subsection \<open>The handlers deliver what the contract says\<close>

lemma udp_handle_recv:
  assumes "ut_listening u"
  shows "snd (udp_handle cb u k d now) =
           (case udp_recv (ut_node u) d of
              None \<Rightarrow> k | Some p \<Rightarrow> fst (cb k \<lparr>rc_packet = p, rc_rx = now, rc_rssi = None\<rparr>))"
  using assms
  by (auto simp: udp_handle_def udp_recv_def Let_def split: sum.split prod.split option.split)

lemma ble_one_recv:
  assumes "bt_listening b"
  shows "snd (ble_one cb now (b, k) r) =
           (case ble_recv (bt_company b) (bt_node b) (hr_data r) of
              None \<Rightarrow> k | Some p \<Rightarrow> fst (cb k \<lparr>rc_packet = p, rc_rx = now, rc_rssi = Some (hr_rssi r)\<rparr>))"
  using assms
  by (auto simp: ble_one_def ble_recv_def Let_def split: sum.split prod.split option.split)

text \<open>Wireless delivery over each medium: a well-formed packet is encoded without an error on
  UDP and on BLE (within the 31-byte advertising budget); handed to any other listening agent's
  handler, the callback receives that very packet exactly once, and the sender's own handler
  filters it.\<close>

theorem media_deliver:
  assumes "packet_ok p" and "ut_listening u" and "bt_listening b" and "bt_company b = COMPANY_ID"
  shows "\<exists>d a. encode_manufacturer_data p = Inr d \<and> ble_ad b p = Inr a \<and> length a \<le> MAX_AD \<and>
           snd (udp_handle cb u k d now) =
             (if pk_node p = ut_node u then k
              else fst (cb k \<lparr>rc_packet = p, rc_rx = now, rc_rssi = None\<rparr>)) \<and>
           snd (ble_one cb now (b, k) (r\<lparr>hr_data := a\<rparr>)) =
             (if pk_node p = bt_node b then k
              else fst (cb k \<lparr>rc_packet = p, rc_rx = now, rc_rssi = Some (hr_rssi r)\<rparr>))"
proof -
  obtain d where d: "encode_manufacturer_data p = Inr d" using udp.send_total [OF assms(1)] by blast
  obtain a where a: "ble_send COMPANY_ID p = Inr a" using ble.send_total [OF assms(1)] by blast
  have "length a \<le> MAX_AD"
    using a ble_send_ok [OF assms(1), of COMPANY_ID] by (simp add: COMPANY_ID_def MAX_AD_def)
  then show ?thesis
    using d a udp.recv_other [OF assms(1) d] udp.recv_own [OF assms(1) d] ble.recv_other [OF assms(1) a]
      ble.recv_own [OF assms(1) a] assms(2-4)
    by (auto simp: udp_handle_recv ble_one_recv ble_ad_send)
qed

theorem media_deliver_witness:
  "\<exists>d. encode_manufacturer_data (seq_packet 4 9) = Inr d \<and>
     snd (udp_handle (\<lambda>k r. (k @ [pk_node (rc_packet r)], None))
            ((udp_new 5)\<lparr>ut_listening := True\<rparr>) [] d 0) = [4]"
proof -
  have "packet_ok (seq_packet 4 9)" by (simp add: packet_ok_def seq_packet_def int32_ok_def)
  from media_deliver [OF this, of "(udp_new 5)\<lparr>ut_listening := True\<rparr>"
      "\<lparr>bt_node = 6, bt_company = COMPANY_ID, bt_listening = True, bt_pumping = True,
        bt_stats = undefined, bt_pending = Map.empty\<rparr>" "\<lambda>k r. (k @ [pk_node (rc_packet r)], None)" "[]"]
  show ?thesis by (auto simp: udp_new_def)
qed

subsection \<open>Accounting\<close>

definition udp_accounted :: "udp_stats \<Rightarrow> int" where
  "udp_accounted s = us_delivered s + us_self_filtered s + us_undecodable s"

definition ble_accounted :: "ble_stats \<Rightarrow> int" where
  "ble_accounted s = bs_delivered s + bs_self_filtered s + bs_undecodable s + bs_foreign s"

lemma udp_handle_stats:
  assumes "\<And>k r. snd (cb k r) = None" and "ut_listening u"
  shows "us_received (ut_stats (fst (udp_handle cb u k d now))) = us_received (ut_stats u) + 1 \<and>
         udp_accounted (ut_stats (fst (udp_handle cb u k d now))) = udp_accounted (ut_stats u) + 1"
  using assms(2) assms(1) [of k]
  by (auto simp: udp_handle_def udp_accounted_def Let_def split: sum.split prod.split option.split)
     (metis option.distinct(1) snd_conv)+

lemma ble_one_keep:
  "bt_node (fst (ble_one cb now bk r)) = bt_node (fst bk)"
  "bt_company (fst (ble_one cb now bk r)) = bt_company (fst bk)"
  "bt_listening (fst (ble_one cb now bk r)) = bt_listening (fst bk)"
  "bt_pending (fst (ble_one cb now bk r)) = bt_pending (fst bk)"
  "bt_pumping (fst (ble_one cb now bk r)) = bt_pumping (fst bk)"
  by (cases bk; auto simp: ble_one_def Let_def split: sum.split prod.split option.split)+

lemma ble_one_stats:
  assumes "\<And>k r. snd (cb k r) = None" and "bt_listening b"
  shows "bs_reports (bt_stats (fst (ble_one cb now (b, k) r))) = bs_reports (bt_stats b) + 1 \<and>
         ble_accounted (bt_stats (fst (ble_one cb now (b, k) r))) = ble_accounted (bt_stats b) + 1"
  using assms(2) assms(1) [of k]
  by (auto simp: ble_one_def ble_accounted_def Let_def split: sum.split prod.split option.split)
     (metis option.distinct(1) snd_conv)+

subsection \<open>One reader\<close>

text \<open>What happens to the radio during a run: its reader pumps what the socket has, and
  publications begin and end around it.\<close>

datatype radio_event = Pump "bytes option" int | PublishBegin state_packet | PublishEnd int

fun radio_do :: "'k callback \<Rightarrow> ble_transport \<times> 'k \<Rightarrow> radio_event \<Rightarrow> ble_transport \<times> 'k" where
  "radio_do cb (b, k) (Pump received now) = ble_pump cb now b k received"
| "radio_do cb (b, k) (PublishBegin p) =
     ((case ble_publish_begin b p of Inl _ \<Rightarrow> b | Inr (b', _) \<Rightarrow> b'), k)"
| "radio_do cb (b, k) (PublishEnd op) = (ble_publish_end b op, k)"

definition is_pump :: "radio_event \<Rightarrow> bool" where
  "is_pump e = (case e of Pump _ _ \<Rightarrow> True | _ \<Rightarrow> False)"

definition agree :: "ble_transport \<Rightarrow> ble_transport \<Rightarrow> bool" where
  "agree b c \<longleftrightarrow> bt_node b = bt_node c \<and> bt_company b = bt_company c \<and> bt_listening b = bt_listening c"

lemma agree_refl: "agree b b"
  by (simp add: agree_def)

lemma ble_one_agree:
  "agree (fst x) (fst y) \<Longrightarrow> snd x = snd y \<Longrightarrow>
   agree (fst (ble_one cb now x r)) (fst (ble_one cb now y r)) \<and>
   snd (ble_one cb now x r) = snd (ble_one cb now y r)"
  by (cases x; cases y)
     (auto simp: agree_def ble_one_keep, auto simp: ble_one_def Let_def split: sum.split prod.split option.split)

lemma ble_foldl_agree:
  "agree (fst x) (fst y) \<Longrightarrow> snd x = snd y \<Longrightarrow>
   agree (fst (foldl (ble_one cb now) x rs)) (fst (foldl (ble_one cb now) y rs)) \<and>
   snd (foldl (ble_one cb now) x rs) = snd (foldl (ble_one cb now) y rs)"
proof (induction rs arbitrary: x y)
  case Nil
  then show ?case by simp
next
  case (Cons r rs)
  then show ?case using ble_one_agree [of x y cb now r] by simp
qed

lemma settle_agree: "agree b c \<Longrightarrow> agree (ble_settle b op e) (ble_settle c op' e')"
  by (auto simp: agree_def ble_settle_def split: option.split future.split)

lemma settle_agree1: "agree (ble_settle b op e) c \<longleftrightarrow> agree b c" "agree c (ble_settle b op e) \<longleftrightarrow> agree c b"
  by (auto simp: agree_def ble_settle_def split: option.split future.split)

lemma agree_stats [simp]:
  "agree (b\<lparr>bt_stats := s\<rparr>) c \<longleftrightarrow> agree b c" "agree c (b\<lparr>bt_stats := s\<rparr>) \<longleftrightarrow> agree c b"
  by (simp_all add: agree_def)

lemma ble_pump_agree:
  assumes "agree b c"
  shows "agree (fst (ble_pump cb now b k rx)) (fst (ble_pump cb now c k rx)) \<and>
         snd (ble_pump cb now b k rx) = snd (ble_pump cb now c k rx)"
proof (cases rx)
  case None
  then show ?thesis using assms by (simp add: ble_pump_def)
next
  case (Some packet)
  have f: "agree (fst (ble_consume cb now (b\<lparr>bt_stats := s\<rparr>) k ps)) (fst (ble_consume cb now (c\<lparr>bt_stats := s'\<rparr>) k ps)) \<and>
      snd (ble_consume cb now (b\<lparr>bt_stats := s\<rparr>) k ps) = snd (ble_consume cb now (c\<lparr>bt_stats := s'\<rparr>) k ps)"
    for s s' ps
    unfolding ble_consume_def by (rule ble_foldl_agree) (simp_all add: assms)
  show ?thesis
    using assms f
    by (auto simp: ble_pump_def Some Let_def settle_agree settle_agree1 split: sum.split)
qed

lemma publish_agree:
  "agree (case ble_publish_begin b p of Inl _ \<Rightarrow> b | Inr (b', _) \<Rightarrow> b') b"
  "agree (ble_publish_end b op) b"
proof -
  show "agree (case ble_publish_begin b p of Inl _ \<Rightarrow> b | Inr (b', _) \<Rightarrow> b') b"
    by (cases "bindR (ble_ad b p) cmd_le_set_adv_data")
       (auto simp: ble_publish_begin_def ble_begin_def agree_def Let_def)
  show "agree (ble_publish_end b op) b" by (simp add: ble_publish_end_def agree_def Let_def)
qed

lemma agree_trans: "agree a b \<Longrightarrow> agree b c \<Longrightarrow> agree a c"
  by (simp add: agree_def)

lemma radio_do_other:
  "\<not> is_pump e \<Longrightarrow> agree (fst (radio_do cb (b, k) e)) b \<and> snd (radio_do cb (b, k) e) = k"
  using publish_agree by (cases e) (simp_all add: is_pump_def)

lemma radio_run_agree:
  "agree b c \<Longrightarrow>
   snd (foldl (radio_do cb) (b, k) es) = snd (foldl (radio_do cb) (c, k) (filter is_pump es))"
proof (induction es arbitrary: b c k)
  case Nil
  then show ?case by simp
next
  case (Cons e es)
  show ?case
  proof (cases "is_pump e")
    case True
    then obtain rx now where e: "e = Pump rx now" by (cases e) (auto simp: is_pump_def)
    obtain b' k1 where b': "ble_pump cb now b k rx = (b', k1)" by (cases "ble_pump cb now b k rx")
    obtain c' k2 where c': "ble_pump cb now c k rx = (c', k2)" by (cases "ble_pump cb now c k rx")
    have "agree b' c'" "k1 = k2" using ble_pump_agree [OF Cons.prems, of cb now k rx] b' c' by auto
    then show ?thesis using Cons.IH [of b' c' k1] True b' c' by (simp add: e)
  next
    case False
    obtain b' k' where b': "radio_do cb (b, k) e = (b', k')" by (cases "radio_do cb (b, k) e")
    then have "agree b' b" "k' = k" using radio_do_other [OF False, of cb b k] by auto
    then show ?thesis using Cons.IH [of b' c k] Cons.prems False b' agree_trans [of b' b c] by simp
  qed
qed

text \<open>Publishing never eats a report: during a run, whatever publications begin and end
  between the reads of the socket, the consumer receives exactly what it would have received
  from those reads alone.\<close>

theorem publish_never_eats_reports:
  "snd (foldl (radio_do cb) (b, k) es) = snd (foldl (radio_do cb) (b, k) (filter is_pump es))"
  by (rule radio_run_agree) (rule agree_refl)

subsection \<open>The bus\<close>

lemma bus_loop_counts:
  assumes "list_all (\<lambda>(n, cb). \<forall>k r. snd (cb k r) = None) subs" and "pay = Inr q"
  shows "\<exists>bus' k' g' later'. bus_loop draw bp sender pay now subs (bus, k, g, later)
           = ((bus', k', g', later @ later'), None) \<and>
         bus_delivered bus' + bus_dropped bus' + int (length later') =
           bus_delivered bus + bus_dropped bus + int (length (filter (\<lambda>(n, _). n \<noteq> sender) subs)) \<and>
         bus_sent bus' = bus_sent bus \<and> bus_subs bus' = bus_subs bus"
  using assms(1)
proof (induction subs arbitrary: bus k g later)
  case Nil
  then show ?case by simp
next
  case (Cons x subs)
  obtain n cb where x: "x = (n, cb)" by (cases x)
  have cb: "\<And>k r. snd (cb k r) = None" and rest: "list_all (\<lambda>(n, cb). \<forall>k r. snd (cb k r) = None) subs"
    using Cons.prems by (auto simp: x)
  note IH = Cons.IH [OF rest]
  show ?case
  proof (cases "n = sender")
    case True
    then show ?thesis using IH by (simp add: x)
  next
    case False
    obtain loss delay where lp: "link_params bp sender n = (loss, delay)" by fastforce
    obtain d g' where dr: "(if loss = 0 then (False, g) else let (x, g1) = draw g in (x < loss, g1)) = (d, g')"
      by fastforce
    have step: "bus_loop draw bp sender pay now (x # subs) (bus, k, g, later) =
        (if d then bus_loop draw bp sender pay now subs (bus\<lparr>bus_dropped := bus_dropped bus + 1\<rparr>, k, g', later)
         else if delay \<noteq> 0 then bus_loop draw bp sender pay now subs (bus, k, g', later @ [(n, delay)])
         else bus_loop draw bp sender pay now subs (bus\<lparr>bus_delivered := bus_delivered bus + 1\<rparr>,
                fst (cb k \<lparr>rc_packet = q, rc_rx = now, rc_rssi = None\<rparr>), g', later))"
      using False cb [of k "\<lparr>rc_packet = q, rc_rx = now, rc_rssi = None\<rparr>"] assms(2)
      by (simp add: x lp dr) (auto split: prod.split option.split)
    show ?thesis
    proof (cases "d \<or> delay = 0")
      case True
      then show ?thesis
        using IH [of "bus\<lparr>bus_dropped := bus_dropped bus + 1\<rparr>" k g' later]
          IH [of "bus\<lparr>bus_delivered := bus_delivered bus + 1\<rparr>"
                 "fst (cb k \<lparr>rc_packet = q, rc_rx = now, rc_rssi = None\<rparr>)" g' later] False
        unfolding step by (cases d) (auto simp: x)
    next
      case late: False
      obtain bus' k' g2 later' where h:
        "bus_loop draw bp sender pay now subs (bus, k, g', later @ [(n, delay)])
           = ((bus', k', g2, (later @ [(n, delay)]) @ later'), None)"
        "bus_delivered bus' + bus_dropped bus' + int (length later') =
           bus_delivered bus + bus_dropped bus + int (length (filter (\<lambda>(n, _). n \<noteq> sender) subs))"
        "bus_sent bus' = bus_sent bus" "bus_subs bus' = bus_subs bus"
        using IH [of bus k g' "later @ [(n, delay)]"] by blast
      have "bus_loop draw bp sender pay now (x # subs) (bus, k, g, later)
          = ((bus', k', g2, later @ (n, delay) # later'), None)"
        using step h(1) late by simp
      then show ?thesis using False h(2-4)
        by (intro exI [of _ bus'] exI [of _ k'] exI [of _ g2] exI [of _ "(n, delay) # later'"] conjI)
           (simp_all add: x)
    qed
  qed
qed

text \<open>The bus accounts for every copy: a broadcast of a well-formed packet, with any loss and
  delay parameters and any random draws, ends without an exception, and each subscriber other
  than the sender is either delivered to, counted as dropped or scheduled for later.\<close>

theorem bus_accounts:
  assumes "packet_ok p" and "list_all (\<lambda>(n, cb). \<forall>k r. snd (cb k r) = None) (bus_subs bus)"
  shows "\<exists>bus' k' g' later. bus_broadcast draw bp ser now bus k g sender p = ((bus', k', g', later), None) \<and>
         bus_delivered bus' + bus_dropped bus' + int (length later) =
           bus_delivered bus + bus_dropped bus
           + int (length (filter (\<lambda>(n, _). n \<noteq> sender) (bus_subs bus))) \<and>
         bus_sent bus' = bus_sent bus + 1"
proof -
  obtain wire where w: "bus_wire ser p = Inr wire" "bus_payload wire p = Inr p"
    using assms(1) by (cases ser) (auto simp: bus_wire_def bus_payload_def manufacturer_bytes manufacturer_back)
  have "list_all (\<lambda>(n, cb). \<forall>k r. snd (cb k r) = None) (bus_subs (bus\<lparr>bus_sent := bus_sent bus + 1\<rparr>))"
    using assms(2) by simp
  from bus_loop_counts [OF this w(2), of draw bp sender now "bus\<lparr>bus_sent := bus_sent bus + 1\<rparr>" k g "[]"]
  show ?thesis by (auto simp: bus_broadcast_def w(1) Let_def)
qed

theorem bus_accounts_witness:
  "\<exists>bus' k' g' later. bus_broadcast (\<lambda>g. (1/2, g)) \<lparr>bp_loss = 1/4, bp_delay = 0, bp_types = None,
        bp_link_loss = Map.empty, bp_link_delay = Map.empty\<rparr> True 7
      \<lparr>bus_subs = [(1, \<lambda>k r. (k + 1, None)), (2, \<lambda>k r. (k + 10, None)), (3, \<lambda>k r. (k + 100, None))],
       bus_sent = 0, bus_delivered = 0, bus_dropped = 0\<rparr> (0 :: nat) () 2 (seq_packet 2 5)
      = ((bus', k', g', later), None) \<and> bus_delivered bus' + bus_dropped bus' + int (length later) = 2"
proof -
  have ok: "packet_ok (seq_packet 2 5)" by (simp add: packet_ok_def seq_packet_def int32_ok_def)
  let ?bus = "\<lparr>bus_subs = [(1, \<lambda>k r. (k + 1, None)), (2, \<lambda>k r. (k + 10, None)), (3, \<lambda>k r. (k + 100, None))],
       bus_sent = 0, bus_delivered = 0, bus_dropped = 0\<rparr> :: nat bus"
  have "list_all (\<lambda>(n, cb). \<forall>k r. snd (cb k r) = None) (bus_subs ?bus)" by simp
  from bus_accounts [OF ok this, of "\<lambda>g. (1/2, g)" "\<lparr>bp_loss = 1/4, bp_delay = 0, bp_types = None,
        bp_link_loss = Map.empty, bp_link_delay = Map.empty\<rparr>" True 7 0 "()" 2]
  show ?thesis by auto
qed

end
