(* ===== verification/SerialLink.thy ===== *)
theory SerialLink
  imports ProtoPayload
begin

section \<open>The serial link (serial/link.py)\<close>

text \<open>
  \<open>serial_link\<close> is the state of \<^verbatim>\<open>SerialLink\<close>: its counters, its parser, the reply slot with
  its event and the \<open>awaiting\<close> gate. \<open>link_pump\<close> and \<open>link_dispatch\<close> are the reader's side;
  a STATE callback is recorded in \<open>sl_delivered\<close> when it is called or queued on the event
  loop (the callback itself runs elsewhere). \<open>link_send\<close> returns the writes made to the port.
  \<open>request\<close> is split where it blocks: \<open>request_begin\<close>, the wait, \<open>request_end\<close>.
  Opening the port and the reader thread's \<^verbatim>\<open>select\<close> are not modelled. The second half is the
  interleaving of the reader with a requester at the granularity of single assignments, as an
  inductive step relation, with the invariant that a request never returns a frame stored
  before it began.
\<close>

record timed_frame =
  tf_frame :: frame
  tf_rx :: "int option"

record link_counters =
  lc_frames_in :: int
  lc_frames_out :: int
  lc_states :: int
  lc_unsolicited :: int
  lc_unknown :: int
  lc_read_errors :: int
  lc_resets :: int

datatype loop_state = NoLoop | LoopOpen | LoopClosed

record serial_link =
  sl_open :: bool
  sl_idle_timeout :: real
  sl_counters :: link_counters
  sl_parser :: frame_parser
  sl_loop :: loop_state
  sl_has_callback :: bool
  sl_delivered :: "timed_frame list"
  sl_reply :: "frame option"
  sl_ready :: bool
  sl_awaiting :: bool
  sl_last_rx :: real
  sl_write_chunk :: nat

definition link_new :: "real \<Rightarrow> serial_link" where
  "link_new idle = \<lparr>sl_open = False, sl_idle_timeout = idle,
     sl_counters = \<lparr>lc_frames_in = 0, lc_frames_out = 0, lc_states = 0, lc_unsolicited = 0,
                    lc_unknown = 0, lc_read_errors = 0, lc_resets = 0\<rparr>,
     sl_parser = new_parser, sl_loop = NoLoop, sl_has_callback = False, sl_delivered = [],
     sl_reply = None, sl_ready = False, sl_awaiting = False, sl_last_rx = 0, sl_write_chunk = 0\<rparr>"

definition REPLY_TYPES :: "int list" where
  "REPLY_TYPES = [T_ACK, T_ERR, T_PONG, T_STATS, T_TXAT]"

definition count_states :: "link_counters \<Rightarrow> link_counters" where
  "count_states c = c\<lparr>lc_states := lc_states c + 1\<rparr>"

definition count_in :: "link_counters \<Rightarrow> link_counters" where
  "count_in c = c\<lparr>lc_frames_in := lc_frames_in c + 1\<rparr>"

definition count_unsolicited :: "link_counters \<Rightarrow> link_counters" where
  "count_unsolicited c = c\<lparr>lc_unsolicited := lc_unsolicited c + 1\<rparr>"

definition count_unknown :: "link_counters \<Rightarrow> link_counters" where
  "count_unknown c = c\<lparr>lc_unknown := lc_unknown c + 1\<rparr>"

definition count_reset :: "link_counters \<Rightarrow> link_counters" where
  "count_reset c = c\<lparr>lc_resets := lc_resets c + 1\<rparr>"

definition link_dispatch :: "int option \<Rightarrow> serial_link \<Rightarrow> frame \<Rightarrow> serial_link" where
  "link_dispatch clock l f =
     (if fr_type f = T_STATE then
        (let l' = l\<lparr>sl_counters := count_states (sl_counters l)\<rparr> in
         if \<not> sl_has_callback l then l'
         else if sl_loop l = LoopClosed then l'
         else l'\<lparr>sl_delivered := sl_delivered l @ [\<lparr>tf_frame = f, tf_rx = clock\<rparr>]\<rparr>)
      else if fr_type f \<in> set REPLY_TYPES then
        (if \<not> sl_awaiting l \<or> sl_ready l then l\<lparr>sl_counters := count_unsolicited (sl_counters l)\<rparr>
         else l\<lparr>sl_reply := Some f, sl_ready := True\<rparr>)
      else l\<lparr>sl_counters := count_unknown (sl_counters l)\<rparr>)"

definition dispatch_one :: "int option \<Rightarrow> serial_link \<Rightarrow> frame \<Rightarrow> serial_link" where
  "dispatch_one clock l f = link_dispatch clock (l\<lparr>sl_counters := count_in (sl_counters l)\<rparr>) f"

text \<open>\<open>pump\<close>: \<open>now\<close> is the monotonic clock, \<open>clock\<close> the experiment clock if one was given.\<close>

definition link_pump :: "int option \<Rightarrow> real \<Rightarrow> serial_link \<Rightarrow> bytes \<Rightarrow> serial_link" where
  "link_pump clock now l data =
     (if data \<noteq> [] then
        (let (p, fs) = fp_feed (sl_parser l) data
         in (foldl (dispatch_one clock) (l\<lparr>sl_parser := p\<rparr>) fs)\<lparr>sl_last_rx := now\<rparr>)
      else if in_frame (sl_parser l) \<and> now - sl_last_rx l > sl_idle_timeout l then
        l\<lparr>sl_parser := fp_timeout (sl_parser l), sl_counters := count_reset (sl_counters l)\<rparr>
      else l)"

function chunks :: "nat \<Rightarrow> bytes \<Rightarrow> bytes list" where
  "chunks n [] = []"
| "chunks n (b # bs) = take (Suc n) (b # bs) # chunks n (drop (Suc n) (b # bs))"
  by pat_completeness auto
termination by (relation "measure (\<lambda>(n, bs). length bs)") auto

text \<open>The writes \<open>send\<close> makes: one per frame, or slices of \<open>write_chunk\<close> bytes.\<close>

definition link_send :: "serial_link \<Rightarrow> int \<Rightarrow> bytes \<Rightarrow> (serial_link \<times> bytes list) result" where
  "link_send l ftype payload =
     (if \<not> sl_open l then Inl LinkError
      else bindR (build_frame ftype payload) (\<lambda>fr.
        Inr (l\<lparr>sl_counters := (sl_counters l)\<lparr>lc_frames_out := lc_frames_out (sl_counters l) + 1\<rparr>\<rparr>,
             if sl_write_chunk l \<noteq> 0 \<and> length fr > sl_write_chunk l
             then chunks (sl_write_chunk l - 1) fr else [fr])))"

definition request_begin :: "serial_link \<Rightarrow> int \<Rightarrow> bytes \<Rightarrow> (serial_link \<times> bytes list) result" where
  "request_begin l ftype payload =
     link_send (l\<lparr>sl_reply := None, sl_ready := False, sl_awaiting := True\<rparr>) ftype payload"

text \<open>After the wait, which ended because the event was set or because of the timeout.\<close>

definition request_end :: "serial_link \<Rightarrow> serial_link \<times> frame result" where
  "request_end l =
     (l\<lparr>sl_awaiting := False\<rparr>,
      if \<not> sl_ready l then Inl LinkError
      else (case sl_reply l of
              None \<Rightarrow> Inl LinkError
            | Some reply \<Rightarrow>
                if fr_type reply = T_ERR then
                  (case decode_ack (fr_payload reply) of
                     Inl _ \<Rightarrow> Inl LinkError
                   | Inr (rejected, status) \<Rightarrow> Inl (LinkRejected rejected status))
                else Inr reply))"

text \<open>A whole request: what the reader pumps between the send and the end of the wait is given.\<close>

definition link_request ::
  "serial_link \<Rightarrow> int \<Rightarrow> bytes \<Rightarrow> (serial_link \<Rightarrow> serial_link) \<Rightarrow> serial_link \<times> frame result" where
  "link_request l ftype payload reader =
     (case request_begin l ftype payload of
        Inl e \<Rightarrow> (l\<lparr>sl_reply := None, sl_ready := False, sl_awaiting := False\<rparr>, Inl e)
      | Inr (l', _) \<Rightarrow> request_end (reader l'))"

definition link_ping :: "serial_link \<Rightarrow> (serial_link \<Rightarrow> serial_link) \<Rightarrow> serial_link \<times> int result" where
  "link_ping l reader =
     (let (l', r) = link_request l T_PING [] reader
      in (l', bindR r (\<lambda>reply. if length (fr_payload reply) \<noteq> 8 then Inl LinkError
                              else Inr (le_int (fr_payload reply)))))"

subsection \<open>Sending\<close>

lemma chunks_concat [simp]: "concat (chunks n bs) = bs"
  by (induction n bs rule: chunks.induct) simp_all

lemma chunks_size: "c \<in> set (chunks n bs) \<Longrightarrow> c \<noteq> [] \<and> length c \<le> Suc n"
  by (induction n bs rule: chunks.induct) auto

text \<open>Whatever the write granularity, the bytes written for one frame are exactly the frame
  that the peer's parser accepts, and with a chunk limit no single write exceeds it; an
  oversized payload is refused with \<^verbatim>\<open>ProtoError\<close> and a closed link with
  \<^verbatim>\<open>LinkError\<close>.\<close>

theorem send_writes_frame:
  assumes "frame_ok f"
  shows "link_send l (fr_type f) (fr_payload f) =
           (if sl_open l
            then Inr (l\<lparr>sl_counters := (sl_counters l)\<lparr>lc_frames_out := lc_frames_out (sl_counters l) + 1\<rparr>\<rparr>,
                      if sl_write_chunk l \<noteq> 0 \<and> length (wire_frame f) > sl_write_chunk l
                      then chunks (sl_write_chunk l - 1) (wire_frame f) else [wire_frame f])
            else Inl LinkError) \<and>
         snd (fp_feed new_parser (concat (chunks n (wire_frame f)))) = [f] \<and>
         (c \<in> set (chunks n (wire_frame f)) \<longrightarrow> length c \<le> n + 1)"
proof -
  have b: "build_frame (fr_type f) (fr_payload f) = Inr (wire_frame f)"
    using assms known_type_byte [of "fr_type f"]
    by (cases f) (simp add: build_frame_ok frame_ok_def)
  have "snd (fp_feed new_parser (wire_frame f)) = [f]"
    unfolding fp_feed_def by (rule py.idle_frame [OF new_parser_ok new_parser_part assms])
  then show ?thesis using chunks_size [of c n "wire_frame f"] b by (simp add: link_send_def)
qed

theorem send_writes_frame_witness:
  "snd (fp_feed new_parser (concat (chunks 2 (wire_frame \<lparr>fr_type = T_PING, fr_payload = []\<rparr>))))
     = [\<lparr>fr_type = T_PING, fr_payload = []\<rparr>]"
proof -
  have "frame_ok \<lparr>fr_type = T_PING, fr_payload = []\<rparr>"
    by (simp add: frame_ok_def known_type_def frame_types_def MAX_PAYLOAD_def)
  from send_writes_frame [OF this, of "link_new 0" 2 "[]"] show ?thesis by simp
qed

subsection \<open>Dispatching\<close>

definition states_in :: "frame list \<Rightarrow> frame list" where
  "states_in fs = filter (\<lambda>f. fr_type f = T_STATE) fs"

lemma dispatch_keeps [simp]:
  "sl_has_callback (dispatch_one c l f) = sl_has_callback l" "sl_loop (dispatch_one c l f) = sl_loop l"
  "sl_parser (dispatch_one c l f) = sl_parser l" "sl_awaiting (dispatch_one c l f) = sl_awaiting l"
  "sl_idle_timeout (dispatch_one c l f) = sl_idle_timeout l"
  by (simp_all add: dispatch_one_def link_dispatch_def Let_def)

lemma dispatch_delivered:
  "sl_has_callback l \<Longrightarrow> sl_loop l \<noteq> LoopClosed \<Longrightarrow>
   map tf_frame (sl_delivered (foldl (dispatch_one c) l fs)) = map tf_frame (sl_delivered l) @ states_in fs"
proof (induction fs arbitrary: l)
  case Nil
  then show ?case by (simp add: states_in_def)
next
  case (Cons f fs)
  have "map tf_frame (sl_delivered (dispatch_one c l f)) = map tf_frame (sl_delivered l) @ states_in [f]"
    using Cons.prems by (simp add: dispatch_one_def link_dispatch_def states_in_def Let_def)
  then show ?case using Cons.IH [of "dispatch_one c l f"] Cons.prems by (simp add: states_in_def)
qed

lemma foldl_dispatch_keeps [simp]:
  "sl_has_callback (foldl (dispatch_one c) l fs) = sl_has_callback l"
  "sl_loop (foldl (dispatch_one c) l fs) = sl_loop l"
  "sl_parser (foldl (dispatch_one c) l fs) = sl_parser l"
  by (induction fs arbitrary: l) simp_all

lemma pump_data:
  assumes "data \<noteq> []" and "sl_has_callback l" and "sl_loop l \<noteq> LoopClosed"
  shows "map tf_frame (sl_delivered (link_pump c now l data)) =
           map tf_frame (sl_delivered l) @ states_in (snd (fp_feed (sl_parser l) data)) \<and>
         sl_parser (link_pump c now l data) = fst (fp_feed (sl_parser l) data) \<and>
         sl_has_callback (link_pump c now l data) \<and> sl_loop (link_pump c now l data) = sl_loop l"
  using assms dispatch_delivered [of "l\<lparr>sl_parser := fst (fp_feed (sl_parser l) data)\<rparr>" c]
  by (simp add: link_pump_def Let_def split_beta)

fun pump_all :: "int option \<Rightarrow> serial_link \<Rightarrow> (real \<times> bytes) list \<Rightarrow> serial_link" where
  "pump_all c l [] = l"
| "pump_all c l ((now, data) # rs) = pump_all c (link_pump c now l data) rs"

lemma pump_all_delivered:
  assumes "list_all (\<lambda>(_, data). data \<noteq> []) reads" and "sl_has_callback l" and "sl_loop l \<noteq> LoopClosed"
  shows "map tf_frame (sl_delivered (pump_all c l reads)) =
           map tf_frame (sl_delivered l) @ states_in (snd (fp_feed (sl_parser l) (concat (map snd reads))))"
  using assms
proof (induction reads arbitrary: l)
  case Nil
  then show ?case by (simp add: fp_feed_def states_in_def)
next
  case (Cons x reads)
  obtain now data where x: "x = (now, data)" by (cases x)
  have p: "data \<noteq> []" using Cons.prems x by simp
  note d = pump_data [OF p Cons.prems(2,3), of c now]
  show ?case
    using Cons.IH [of "link_pump c now l data"] Cons.prems d
    by (simp add: x fp_feed_append Let_def split_beta states_in_def)
qed

lemma delivered_states:
  assumes "sl_parser l = new_parser" and "sl_has_callback l" and "sl_loop l \<noteq> LoopClosed"
    and "list_all (\<lambda>(noise, f). byte_of SOF \<notin> set noise \<and> frame_ok f) items"
    and "list_all (\<lambda>(_, data). data \<noteq> []) reads"
    and "concat (map snd reads) = stream_of wire_frame items"
  shows "map tf_frame (sl_delivered (pump_all c l reads)) =
           map tf_frame (sl_delivered l) @ states_in (map snd items)"
proof -
  have "list_all (\<lambda>(noise, f). list_all (\<lambda>b. b \<noteq> byte_of SOF) noise \<and> frame_ok f) items"
    using assms(4) by (auto simp: list_all_iff)
  then have "snd (fp_feed new_parser (stream_of wire_frame items)) = map snd items"
    unfolding fp_feed_def using py.run_stream [OF new_parser_ok new_parser_part] by blast
  then show ?thesis using pump_all_delivered [OF assms(5,2,3), of c] assms(1,6) by simp
qed

text \<open>State delivery: however the serial layer fragments the stream, and whatever replies and
  noise are mixed into it, the agent's callback is called with exactly the STATE frames the
  board sent, in order.\<close>

theorem state_frames_delivered:
  assumes "sl_parser l = new_parser" and "sl_has_callback l" and "sl_loop l \<noteq> LoopClosed"
    and "list_all (\<lambda>(noise, f). byte_of SOF \<notin> set noise \<and> frame_ok f) items"
    and "list_all (\<lambda>(_, data). data \<noteq> []) reads"
    and "concat (map snd reads) = stream_of wire_frame items"
  shows "map tf_frame (sl_delivered (pump_all c l reads)) =
           map tf_frame (sl_delivered l) @ states_in (map snd items)"
  by (rule delivered_states [OF assms])

theorem state_frames_delivered_witness:
  "map tf_frame (sl_delivered (pump_all None ((link_new 1)\<lparr>sl_has_callback := True\<rparr>)
      (map (\<lambda>b. (0, [b])) (wire_frame \<lparr>fr_type = T_STATE, fr_payload = [7]\<rparr>))))
     = [\<lparr>fr_type = T_STATE, fr_payload = [7]\<rparr>]"
proof -
  let ?f = "\<lparr>fr_type = T_STATE, fr_payload = [7]\<rparr>"
  let ?reads = "map (\<lambda>b. (0 :: real, [b])) (wire_frame ?f)"
  have ok: "list_all (\<lambda>(noise, f). byte_of SOF \<notin> set noise \<and> frame_ok f) [([], ?f)]"
    by (simp add: frame_ok_def known_type_def frame_types_def MAX_PAYLOAD_def)
  have ne: "list_all (\<lambda>(_, data). data \<noteq> []) ?reads" by (simp add: list_all_iff)
  have st: "concat (map snd ?reads) = stream_of wire_frame [([], ?f)]"
    by (simp add: stream_of_def comp_def)
  from state_frames_delivered [OF _ _ _ ok ne st, of "(link_new 1)\<lparr>sl_has_callback := True\<rparr>" None]
  show ?thesis by (simp add: link_new_def states_in_def)
qed

subsection \<open>Requests\<close>

lemma request_reply_type:
  "request_end l = (l', Inr f) \<Longrightarrow> sl_reply l = Some f \<and> sl_ready l \<and> fr_type f \<noteq> T_ERR \<and> \<not> sl_awaiting l'"
  by (auto simp: request_end_def split: if_splits option.splits sum.splits prod.splits)

text \<open>The limit of the gate: a request is answered by the first reply frame that arrives after
  it began, whatever it answers. A board that acknowledges the CONTROL frame of a request that
  already timed out makes the next request, for the ALGORITHM frame, return that old
  acknowledgement as its own.\<close>

theorem late_reply_taken:
  "let old_ack = \<lparr>fr_type = T_ACK, fr_payload = [byte_of T_CONTROL, 0]\<rparr>;
       l0 = (link_new 1)\<lparr>sl_open := True\<rparr>;
       timed_out = link_request l0 T_CONTROL [1] id;
       next_one = link_request (fst timed_out) T_ALGORITHM [] (\<lambda>l. link_pump None 0 l (wire_frame old_ack))
   in snd timed_out = Inl LinkError \<and> snd next_one = Inr old_ack \<and>
      decode_ack (fr_payload old_ack) = Inr (T_CONTROL, 0)"
proof -
  let ?a = "\<lparr>fr_type = T_ACK, fr_payload = [byte_of T_CONTROL, 0]\<rparr>"
  have ok: "frame_ok ?a" by (simp add: frame_ok_def known_type_def frame_types_def MAX_PAYLOAD_def)
  have one: "snd (fp_feed new_parser (wire_frame ?a)) = [?a]"
    unfolding fp_feed_def by (rule py.idle_frame [OF new_parser_ok new_parser_part ok])
  have ne: "wire_frame ?a \<noteq> []" by (simp add: wire_frame_def)
  have bf: "build_frame T_CONTROL [1] = Inr (wire_frame \<lparr>fr_type = T_CONTROL, fr_payload = [1]\<rparr>)"
    "build_frame T_ALGORITHM [] = Inr (wire_frame \<lparr>fr_type = T_ALGORITHM, fr_payload = []\<rparr>)"
    by (simp_all add: build_frame_ok T_CONTROL_def T_ALGORITHM_def MAX_PAYLOAD_def)
  have reply: "fr_type ?a \<in> set REPLY_TYPES" "fr_type ?a \<noteq> T_STATE" "fr_type ?a \<noteq> T_ERR"
    by (simp_all add: REPLY_TYPES_def frame_type_defs)
  have ack: "decode_ack [byte_of T_CONTROL, 0] = Inr (T_CONTROL, 0)"
  proof -
    have "byte_val 0 = 0" by (simp add: byte_val_def)
    then show ?thesis
      by (simp add: decode_ack_def struct_unpack_def unpack1_def T_CONTROL_def signed_of_def)
  qed
  show ?thesis
    using one reply ne
    by (simp add: link_request_def request_begin_def link_send_def bf request_end_def link_new_def
                  link_pump_def Let_def split_beta dispatch_one_def link_dispatch_def ack)
qed

subsection \<open>The reader and a requester, interleaved\<close>

text \<open>
  The requester's program counter: idle, slot emptied, event cleared, armed and waiting, woken
  by the event, reply read. The reader's: idle, gate passed with a frame, frame stored. \<open>since\<close>
  is history: the frames stored since the current request began.
\<close>

datatype rq_pc = RqIdle | RqEmptied | RqCleared | RqWaiting | RqWoken | RqRead "frame option"
datatype rd_pc = RdIdle | RdPassed frame | RdStored frame

record slot =
  so_reply :: "frame option"
  so_ready :: bool
  so_awaiting :: bool
  so_rq :: rq_pc
  so_rd :: rd_pc
  so_since :: "frame list"

definition slot_init :: slot where
  "slot_init = \<lparr>so_reply = None, so_ready = False, so_awaiting = False, so_rq = RqIdle, so_rd = RdIdle,
                so_since = []\<rparr>"

inductive slot_step :: "slot \<Rightarrow> slot \<Rightarrow> bool" where
  Begin: "so_rq s = RqIdle \<Longrightarrow>
    slot_step s (s\<lparr>so_reply := None, so_rq := RqEmptied, so_since := []\<rparr>)"
| Clear: "so_rq s = RqEmptied \<Longrightarrow> slot_step s (s\<lparr>so_ready := False, so_rq := RqCleared\<rparr>)"
| Arm: "so_rq s = RqCleared \<Longrightarrow> slot_step s (s\<lparr>so_awaiting := True, so_rq := RqWaiting\<rparr>)"
| Wake: "so_rq s = RqWaiting \<Longrightarrow> so_ready s \<Longrightarrow> slot_step s (s\<lparr>so_rq := RqWoken\<rparr>)"
| Read: "so_rq s = RqWoken \<Longrightarrow> slot_step s (s\<lparr>so_rq := RqRead (so_reply s)\<rparr>)"
| Finish: "so_rq s = RqRead r \<Longrightarrow> slot_step s (s\<lparr>so_awaiting := False, so_rq := RqIdle\<rparr>)"
| Timeout: "so_rq s = RqWaiting \<Longrightarrow> slot_step s (s\<lparr>so_awaiting := False, so_rq := RqIdle\<rparr>)"
| Pass: "so_rd s = RdIdle \<Longrightarrow> so_awaiting s \<Longrightarrow> \<not> so_ready s \<Longrightarrow>
    slot_step s (s\<lparr>so_rd := RdPassed f\<rparr>)"
| Store: "so_rd s = RdPassed f \<Longrightarrow>
    slot_step s (s\<lparr>so_reply := Some f, so_rd := RdStored f, so_since := so_since s @ [f]\<rparr>)"
| Set: "so_rd s = RdStored f \<Longrightarrow> slot_step s (s\<lparr>so_ready := True, so_rd := RdIdle\<rparr>)"

inductive slot_reach :: "slot \<Rightarrow> bool" where
  reach_init: "slot_reach slot_init"
| reach_step: "slot_reach s \<Longrightarrow> slot_step s t \<Longrightarrow> slot_reach t"

inductive_cases slot_stepE: "slot_step s t"

definition slot_ok :: "slot \<Rightarrow> bool" where
  "slot_ok s \<longleftrightarrow>
     (so_rq s \<noteq> RqIdle \<longrightarrow> (case so_reply s of None \<Rightarrow> True | Some f \<Rightarrow> f \<in> set (so_since s))) \<and>
     (case so_rq s of RqRead (Some f) \<Rightarrow> f \<in> set (so_since s) | _ \<Rightarrow> True)"

lemma slot_init_ok: "slot_ok slot_init"
  by (simp add: slot_ok_def slot_init_def)

lemma slot_step_ok: "slot_ok s \<Longrightarrow> slot_step s t \<Longrightarrow> slot_ok t"
  by (erule slot_stepE) (auto simp: slot_ok_def split: option.splits rq_pc.splits)

lemma slot_reach_ok: "slot_reach s \<Longrightarrow> slot_ok s"
  by (induction rule: slot_reach.induct) (auto intro: slot_init_ok slot_step_ok)

text \<open>No stale reply: under every interleaving of the reader thread with the requester, at the
  granularity of single assignments, a request reads from the slot either nothing or a frame
  that the reader stored after this very request began.\<close>

theorem no_stale_reply:
  assumes "slot_reach s" and "so_rq s = RqRead r"
  shows "r \<in> insert None (Some ` set (so_since s))"
  using slot_reach_ok [OF assms(1)] assms(2) by (cases r) (auto simp: slot_ok_def)

lemma reach_empty_read:
  "\<exists>s. slot_reach s \<and> so_rq s = RqRead None"
proof -
  let ?f = "\<lparr>fr_type = T_ACK, fr_payload = []\<rparr>"
  let ?s = "\<lambda>rep rdy aw rq rd since. \<lparr>so_reply = rep, so_ready = rdy, so_awaiting = aw, so_rq = rq,
                so_rd = rd, so_since = since\<rparr>"
  have 1: "slot_reach (?s None False False RqEmptied RdIdle [])"
    using reach_step [OF reach_init Begin] by (simp add: slot_init_def)
  have 2: "slot_reach (?s None False False RqCleared RdIdle [])"
    using reach_step [OF 1 Clear] by simp
  have 3: "slot_reach (?s None False True RqWaiting RdIdle [])"
    using reach_step [OF 2 Arm] by simp
  have 4: "slot_reach (?s None False True RqWaiting (RdPassed ?f) [])"
    using reach_step [OF 3 Pass [of _ ?f]] by simp
  have 5: "slot_reach (?s (Some ?f) False True RqWaiting (RdStored ?f) [?f])"
    using reach_step [OF 4 Store] by simp
  have 6: "slot_reach (?s (Some ?f) False False RqIdle (RdStored ?f) [?f])"
    using reach_step [OF 5 Timeout] by simp
  have 7: "slot_reach (?s None False False RqEmptied (RdStored ?f) [])"
    using reach_step [OF 6 Begin] by simp
  have 8: "slot_reach (?s None False False RqCleared (RdStored ?f) [])"
    using reach_step [OF 7 Clear] by simp
  have 9: "slot_reach (?s None True False RqCleared RdIdle [])"
    using reach_step [OF 8 Set] by simp
  have 10: "slot_reach (?s None True True RqWaiting RdIdle [])"
    using reach_step [OF 9 Arm] by simp
  have 11: "slot_reach (?s None True True RqWoken RdIdle [])"
    using reach_step [OF 10 Wake] by simp
  have 12: "slot_reach (?s None True True (RqRead None) RdIdle [])"
    using reach_step [OF 11 Read] by simp
  show ?thesis by (rule exI [of _ "?s None True True (RqRead None) RdIdle []"]) (simp add: 12)
qed

theorem no_stale_reply_witness:
  "\<exists>s r. slot_reach s \<and> so_rq s = RqRead r \<and> r \<in> insert None (Some ` set (so_since s))"
proof -
  obtain s where s: "slot_reach s" "so_rq s = RqRead None" using reach_empty_read by blast
  show ?thesis using no_stale_reply [OF s] s by blast
qed

end
