(* ===== verification/Agent.thy ===== *)
theory Agent
  imports Transports ControllerBase
begin

section \<open>The agent and its periodic loops (agent/agent.py)\<close>

text \<open>
  \<open>periodic_step\<close> is one pass of \<^verbatim>\<open>_run_periodic\<close> between two readings of the clock,
  \<open>loop_timing\<close> what it records. \<open>agent\<close> is the state of \<^verbatim>\<open>Agent\<close> with its controller of type
  \<open>'c\<close> inside, described by \<open>'c law\<close> (the methods and the class attributes the agent reads);
  \<open>agent_control_step\<close> and \<open>agent_publish_step\<close> are the two loop bodies. Times are reals in
  seconds, the processor time of a step is an argument.
\<close>

record agent_config =
  ac_node :: int
  ac_neighbors :: "int list"
  ac_dt :: real
  ac_publish_period :: real
  ac_enabled :: bool
  ac_max_age :: "real option"

definition resolved_max_age_s :: "agent_config \<Rightarrow> real" where
  "resolved_max_age_s c = (case ac_max_age c of Some a \<Rightarrow> a | None \<Rightarrow> 3 * ac_publish_period c)"

record loop_timing =
  lt_period :: real
  lt_iterations :: int
  lt_late :: int
  lt_max_error :: real
  lt_total_error :: real
  lt_overruns :: int

definition lt_new :: "real \<Rightarrow> loop_timing" where
  "lt_new period = \<lparr>lt_period = period, lt_iterations = 0, lt_late = 0, lt_max_error = 0, lt_total_error = 0,
                    lt_overruns = 0\<rparr>"

definition lt_record :: "loop_timing \<Rightarrow> real \<Rightarrow> real \<Rightarrow> loop_timing" where
  "lt_record t error threshold =
     t\<lparr>lt_iterations := lt_iterations t + 1, lt_total_error := lt_total_error t + error,
       lt_max_error := (if error > lt_max_error t then error else lt_max_error t),
       lt_late := (if error > threshold then lt_late t + 1 else lt_late t),
       lt_overruns := (if error > lt_period t then lt_overruns t + 1 else lt_overruns t)\<rparr>"

definition lt_mean :: "loop_timing \<Rightarrow> real" where
  "lt_mean t = (if lt_iterations t \<noteq> 0 then lt_total_error t / of_int (lt_iterations t) else 0)"

subsection \<open>The periodic loop\<close>

text \<open>How long the loop asks to sleep, and what it does once it reads \<open>now\<close> after the sleep.\<close>

definition sleep_amount :: "real \<Rightarrow> real \<Rightarrow> real \<Rightarrow> real" where
  "sleep_amount period next_deadline now = max (1 / 10 * period) (next_deadline - now)"

definition after_deadline :: "real \<Rightarrow> real \<Rightarrow> real \<Rightarrow> real" where
  "after_deadline period next_deadline now =
     (let d = next_deadline + period in
      if d < now then d + of_int (\<lfloor>(now - d) / period\<rfloor> + 1) * period else d)"

definition periodic_step :: "real \<Rightarrow> real \<times> loop_timing \<Rightarrow> real \<Rightarrow> real \<times> loop_timing" where
  "periodic_step period st now =
     (let (next_deadline, t) = st
      in (after_deadline period next_deadline now,
          lt_record t (max 0 (now - next_deadline)) (1 / 10 * period)))"

definition periodic_run :: "real \<Rightarrow> real \<Rightarrow> real list \<Rightarrow> real \<times> loop_timing" where
  "periodic_run period start nows = foldl (periodic_step period) (start + period, lt_new period) nows"

text \<open>The loop on a clock that wakes exactly: the times at which the body runs.\<close>

primrec exact_times :: "nat \<Rightarrow> real \<Rightarrow> real \<Rightarrow> real \<Rightarrow> real list" where
  "exact_times 0 period next_deadline now = []"
| "exact_times (Suc n) period next_deadline now =
     (let woken = now + sleep_amount period next_deadline now
      in woken # exact_times n period (after_deadline period next_deadline woken) woken)"

subsection \<open>The agent\<close>

record 'c law =
  lw_step :: "'c \<Rightarrow> int list \<Rightarrow> bool list \<Rightarrow> ('c \<times> controller_output) result"
  lw_vstate :: "'c \<Rightarrow> real list"
  lw_class :: controller_class
  lw_in_tick :: bool
  lw_logs_timing :: bool
  lw_hold :: bool

record state_sample =
  ss_t :: real
  ss_channels :: "real list"
  ss_vstates :: "int list"
  ss_enabled :: "bool list"

record log_row =
  lr_t :: real
  lr_out :: controller_output
  lr_vstates :: "int list"
  lr_arrivals :: "bool list"
  lr_seq :: "int list"
  lr_rssi :: "int list"

record 'c agent =
  ag_config :: agent_config
  ag_law :: 'c
  ag_publish_in_tick :: bool
  ag_publish_every :: int
  ag_ticks :: int
  ag_logs_timing :: bool
  ag_last_tick :: "real option"
  ag_last_timing :: "real list"
  ag_neighbors :: neighbor_table
  ag_history :: "state_sample list"
  ag_record_history :: bool
  ag_on_sample :: bool
  ag_seq :: int
  ag_published :: int
  ag_running :: bool
  ag_t0 :: "real option"

definition publish_every :: "agent_config \<Rightarrow> int result" where
  "publish_every c =
     (let ratio = ac_publish_period c / ac_dt c; n = py_round ratio
      in if \<bar>ratio - of_int n\<bar> > 1 / 10 ^ 9 \<or> n < 1 then Inl ValueError else Inr n)"

definition agent_new :: "'c law \<Rightarrow> agent_config \<Rightarrow> 'c \<Rightarrow> bool \<Rightarrow> ('c agent) result" where
  "agent_new w c controller record_history =
     bindR (if lw_in_tick w then publish_every c else Inr 0) (\<lambda>every.
     bindR (nt_init (ac_neighbors c) (resolved_max_age_s c) (cl_dim (lw_class w)) (lw_hold w) (new_monitor 1024)) (\<lambda>nb.
       Inr \<lparr>ag_config = c, ag_law = controller, ag_publish_in_tick = lw_in_tick w, ag_publish_every = every,
            ag_ticks = 0, ag_logs_timing = lw_logs_timing w, ag_last_tick = None, ag_last_timing = [],
            ag_neighbors = nb, ag_history = [], ag_record_history = record_history, ag_on_sample = False,
            ag_seq = 0, ag_published = 0, ag_running = False, ag_t0 = None\<rparr>))"

definition agent_start :: "'c agent \<Rightarrow> real \<Rightarrow> 'c agent" where
  "agent_start a now_s = a\<lparr>ag_t0 := Some now_s, ag_running := True\<rparr>"

definition agent_stop :: "'c agent \<Rightarrow> 'c agent" where
  "agent_stop a = a\<lparr>ag_running := False\<rparr>"

definition agent_elapsed :: "'c agent \<Rightarrow> real \<Rightarrow> real" where
  "agent_elapsed a now_s = (case ag_t0 a of None \<Rightarrow> 0 | Some t0 \<Rightarrow> now_s - t0)"

definition agent_on_receive :: "'c agent callback" where
  "agent_on_receive a r = (a\<lparr>ag_neighbors := fst (nt_observe (ag_neighbors a) r)\<rparr>, None)"

definition agent_publish_step :: "'c law \<Rightarrow> 'c agent \<Rightarrow> int \<Rightarrow> ('c agent \<times> state_packet) result" where
  "agent_publish_step w a now_us =
     (let a' = a\<lparr>ag_seq := (ag_seq a + 1) mod 0x10000\<rparr> in
      bindR (from_state (ac_node (ag_config a)) (lw_vstate w (ag_law a)) (ag_seq a') (max 0 now_us)
               (ac_enabled (ag_config a)) False) (\<lambda>packet.
        Inr (a', packet)))"

text \<open>\<open>_publish\<close>: what the transport answered.\<close>

definition agent_published :: "'c agent \<Rightarrow> exn option \<Rightarrow> 'c agent" where
  "agent_published a outcome = (case outcome of None \<Rightarrow> a\<lparr>ag_published := ag_published a + 1\<rparr> | Some _ \<Rightarrow> a)"

text \<open>
  A control step gives the new agent, the output, the packets it hands to the transport and the
  row it hands to \<^verbatim>\<open>on_sample\<close>. \<open>agent_commit\<close> is the part after the law's step,
  \<open>agent_emit\<close> the publication and the log call.
\<close>

definition agent_commit ::
  "'c agent \<Rightarrow> 'c \<Rightarrow> controller_output \<Rightarrow> int list \<Rightarrow> bool list \<Rightarrow> real \<Rightarrow> real \<Rightarrow> real \<Rightarrow> 'c agent" where
  "agent_commit a law' out vstates enabled t_s now_s cpu_us =
     (let realized = (case ag_last_tick a of None \<Rightarrow> ac_dt (ag_config a) | Some l \<Rightarrow> now_s - l)
      in a\<lparr>ag_law := law', ag_last_tick := Some now_s,
           ag_last_timing := (if ag_logs_timing a then [realized, cpu_us] else []),
           ag_history := (if ag_record_history a
              then ag_history a @ [\<lparr>ss_t = t_s, ss_channels = output_channels out, ss_vstates = vstates,
                                    ss_enabled = enabled\<rparr>] else ag_history a)\<rparr>)"

definition agent_emit ::
  "'c law \<Rightarrow> 'c agent \<Rightarrow> int \<Rightarrow> real \<Rightarrow> controller_output \<Rightarrow> int list \<Rightarrow>
   ('c agent \<times> controller_output \<times> state_packet list \<times> log_row list) result" where
  "agent_emit w a now_us t_s out vstates =
     bindR (if ag_publish_in_tick a \<and> (ag_ticks a + 1) mod ag_publish_every a = 0
            then bindR (agent_publish_step w a now_us) (\<lambda>(a2, p). Inr (a2, [p]))
            else Inr (a, []))
       (\<lambda>(a2, packets).
          let a3 = (if ag_publish_in_tick a then a2\<lparr>ag_ticks := ag_ticks a + 1\<rparr> else a2);
              (arr, nb) = arrivals (ag_neighbors a3)
          in if ag_on_sample a
             then Inr (a3\<lparr>ag_neighbors := nb\<rparr>, out, packets,
                       [\<lparr>lr_t = t_s, lr_out = out, lr_vstates = vstates, lr_arrivals = arr,
                         lr_seq = last_seq nb, lr_rssi = last_rssi nb\<rparr>])
             else Inr (a3, out, packets, []))"

definition agent_control_step ::
  "'c law \<Rightarrow> 'c agent \<Rightarrow> int \<Rightarrow> real \<Rightarrow> real \<Rightarrow>
   ('c agent \<times> controller_output \<times> state_packet list \<times> log_row list) result" where
  "agent_control_step w a now_us now_s cpu_us =
     (let (vstates, enabled) = snapshot (ag_neighbors a) now_us;
          z = lw_vstate w (ag_law a);
          t_s = now_s - (case ag_t0 a of None \<Rightarrow> 0 | Some t0 \<Rightarrow> t0)
      in bindR (if ac_enabled (ag_config a) then lw_step w (ag_law a) vstates enabled
                else Inr (ag_law a, \<lparr>co_state = z, co_vstate = z,
                                     co_extra = replicate (length (cl_channels (lw_class w))) 0\<rparr>))
           (\<lambda>(law', out). agent_emit w (agent_commit a law' out vstates enabled t_s now_s cpu_us) now_us t_s out vstates))"

subsection \<open>Deadlines\<close>

lemma after_deadline_grid:
  assumes "0 < period"
  obtains k :: nat where "after_deadline period nd now = nd + of_nat (Suc k) * period"
    and "now \<le> after_deadline period nd now" and "now \<le> nd + period \<Longrightarrow> k = 0"
    and "nd + period < now \<Longrightarrow> now < after_deadline period nd now \<and> after_deadline period nd now - period \<le> now"
proof (cases "nd + period < now")
  case False
  then show ?thesis using that [of 0] by (simp add: after_deadline_def Let_def)
next
  case True
  define q where "q = (now - (nd + period)) / period"
  have q: "0 < q" "now = nd + period + q * period" using True assms by (simp_all add: q_def)
  define f where "f = nat \<lfloor>q\<rfloor>"
  have f: "of_int \<lfloor>q\<rfloor> = (of_nat f :: real)" "of_nat f \<le> q" "q < of_nat f + 1"
    using q(1) by (simp_all add: f_def)
  have d: "after_deadline period nd now = nd + of_nat (Suc (Suc f)) * period"
    using True f(1) by (simp add: after_deadline_def Let_def q_def algebra_simps)
  have "of_nat f * period \<le> q * period" "q * period < (of_nat f + 1) * period"
    using f(2,3) assms by (simp_all add: mult_right_mono)
  then show ?thesis using that [of "Suc f"] d q(2) True by (simp add: algebra_simps)
qed

lemma periodic_run_append:
  "periodic_run period start (nows @ [now]) = periodic_step period (periodic_run period start nows) now"
  by (simp add: periodic_run_def)

lemma periodic_grid:
  assumes "0 < period"
  shows "\<exists>k :: nat. fst (periodic_run period start nows) = start + of_nat k * period \<and> length nows < k \<and>
           (nows \<noteq> [] \<longrightarrow> last nows \<le> fst (periodic_run period start nows))"
proof (induction nows rule: rev_induct)
  case Nil
  then show ?case by (intro exI [of _ 1]) (simp add: periodic_run_def)
next
  case (snoc now nows)
  then obtain k :: nat where k: "fst (periodic_run period start nows) = start + of_nat k * period" "length nows < k"
    by blast
  obtain j :: nat where j: "after_deadline period (start + of_nat k * period) now
      = start + of_nat k * period + of_nat (Suc j) * period"
      "now \<le> after_deadline period (start + of_nat k * period) now"
    by (rule after_deadline_grid [OF assms])
  have f: "fst (periodic_run period start (nows @ [now])) = after_deadline period (start + of_nat k * period) now"
    using k(1) by (simp add: periodic_run_append periodic_step_def split_beta)
  show ?case using j k(2) unfolding f
    by (intro exI [of _ "k + Suc j"]) (simp add: algebra_simps)
qed

definition timing_ok :: "loop_timing \<Rightarrow> bool" where
  "timing_ok t \<longleftrightarrow> 0 \<le> lt_overruns t \<and> lt_overruns t \<le> lt_late t \<and> lt_late t \<le> lt_iterations t \<and>
     0 \<le> lt_total_error t \<and> 0 \<le> lt_max_error t \<and> lt_total_error t \<le> of_int (lt_iterations t) * lt_max_error t"

lemma timing_new_ok [inv_intros]: "timing_ok (lt_new p)"
  by (simp add: timing_ok_def lt_new_def)

lemma timing_record_ok [inv_intros]:
  assumes "timing_ok t" and "0 \<le> e" and "th \<le> lt_period t"
  shows "timing_ok (lt_record t e th)"
proof -
  have n: "0 \<le> lt_iterations t" using assms(1) by (simp add: timing_ok_def)
  have "of_int (lt_iterations t) * lt_max_error t \<le> of_int (lt_iterations t) * max (lt_max_error t) e"
    using n by (intro mult_left_mono) simp_all
  then have "lt_total_error t + e \<le> of_int (lt_iterations t) * max (lt_max_error t) e + max (lt_max_error t) e"
    using assms(1) max.cobounded2 [of e "lt_max_error t"] unfolding timing_ok_def by linarith
  then have "lt_total_error t + e \<le> of_int (lt_iterations t + 1) * (if e > lt_max_error t then e else lt_max_error t)"
    by (simp add: distrib_right max_def split: if_splits)
  then show ?thesis using assms by (auto simp: timing_ok_def lt_record_def)
qed

lemma periodic_timing:
  assumes "0 < period"
  shows "timing_ok (snd (periodic_run period start nows)) \<and> lt_period (snd (periodic_run period start nows)) = period \<and>
         lt_iterations (snd (periodic_run period start nows)) = int (length nows)"
proof (induction nows rule: rev_induct)
  case Nil
  then show ?case by (simp add: periodic_run_def timing_new_ok) (simp add: lt_new_def)
next
  case (snoc now nows)
  then show ?case using assms
    by (simp add: periodic_run_append periodic_step_def split_beta timing_record_ok) (simp add: lt_record_def)
qed

lemma mean_le_max: "timing_ok t \<Longrightarrow> 0 \<le> lt_mean t \<and> lt_mean t \<le> lt_max_error t"
  by (auto simp: timing_ok_def lt_mean_def divide_le_eq mult.commute)

text \<open>C39: The loop keeps its grid: whatever the clock reads after each sleep, the next deadline is always
  the start plus a whole number of periods, one at least per iteration done, and it is never before
  the last reading, which is taken after the sleep and before the body runs (a body that overruns its
  period leaves it in the past until the next reading); the timing counters satisfy
  \<open>overruns \<le> late \<le> iterations\<close> and the mean error is at most the maximum.\<close>

theorem periodic_loop:
  assumes "0 < period"
  shows "\<exists>k :: nat. fst (periodic_run period start nows) = start + of_nat k * period \<and> length nows < k \<and>
           (nows \<noteq> [] \<longrightarrow> last nows \<le> fst (periodic_run period start nows)) \<and>
           lt_iterations (snd (periodic_run period start nows)) = int (length nows) \<and>
           lt_overruns (snd (periodic_run period start nows)) \<le> lt_late (snd (periodic_run period start nows)) \<and>
           lt_late (snd (periodic_run period start nows)) \<le> int (length nows) \<and>
           lt_mean (snd (periodic_run period start nows)) \<le> lt_max_error (snd (periodic_run period start nows))"
  using periodic_grid [OF assms, of start nows] periodic_timing [OF assms, of start nows]
    mean_le_max [of "snd (periodic_run period start nows)"]
  unfolding timing_ok_def by metis

theorem periodic_loop_witness:
  "fst (periodic_run (1 / 4) 0 [1 / 4, 9 / 8]) = 5 / 4 \<and>
   (\<exists>k :: nat. fst (periodic_run (1 / 4) 0 [1 / 4, 9 / 8]) = 0 + of_nat k * (1 / 4) \<and> 2 < k)"
proof -
  have "fst (periodic_run (1 / 4) 0 [1 / 4, 9 / 8]) = (5 / 4 :: real)"
    by (simp add: periodic_run_def periodic_step_def after_deadline_def Let_def)
  then show ?thesis using periodic_loop [of "1 / 4" 0 "[1 / 4, 9 / 8]"] by auto
qed

lemma exact_times_grid:
  "0 < period \<Longrightarrow> exact_times n period (now + period) now = map (\<lambda>i. now + of_nat (Suc i) * period) [0..<n]"
proof (induction n arbitrary: now)
  case 0
  then show ?case by simp
next
  case (Suc n)
  have s: "sleep_amount period (now + period) now = period" using Suc.prems by (simp add: sleep_amount_def)
  have a: "after_deadline period (now + period) (now + period) = now + period + period"
    using Suc.prems by (simp add: after_deadline_def Let_def)
  have "map (\<lambda>i. now + of_nat (Suc i) * period) [0..<Suc n]
      = (now + period) # map (\<lambda>i. now + period + of_nat (Suc i) * period) [0..<n]"
    unfolding upt_conv_Cons [OF zero_less_Suc] map_Suc_upt [symmetric] by (simp add: algebra_simps)
  then show ?case using Suc.IH [of "now + period"] Suc.prems by (simp only: exact_times.simps Let_def s a)
qed

lemma exact_run_errorless:
  assumes "0 < period"
  shows "periodic_run period start (map (\<lambda>i. start + of_nat (Suc i) * period) [0..<n])
    = (start + of_nat (Suc n) * period,
       (lt_new period)\<lparr>lt_iterations := int n\<rparr>)"
proof (induction n)
  case 0
  then show ?case by (simp add: periodic_run_def lt_new_def)
next
  case (Suc n)
  have "after_deadline period (start + of_nat (Suc n) * period) (start + of_nat (Suc n) * period)
      = start + of_nat (Suc (Suc n)) * period"
    using assms by (simp add: after_deadline_def Let_def algebra_simps)
  then show ?case using Suc assms
    by (simp add: periodic_run_append periodic_step_def lt_record_def lt_new_def algebra_simps)
qed

text \<open>On a clock that wakes sleepers exactly when asked, as the virtual clock does, the loop
  body runs at the multiples of the period, with no error, no late iteration and no overrun.\<close>

theorem periodic_exact:
  assumes "0 < period"
  shows "exact_times n period (start + period) start = map (\<lambda>i. start + of_nat (Suc i) * period) [0..<n] \<and>
         snd (periodic_run period start (exact_times n period (start + period) start))
           = (lt_new period)\<lparr>lt_iterations := int n\<rparr>"
  using exact_times_grid [OF assms, of n start] exact_run_errorless [OF assms, of start n] by simp

theorem periodic_exact_witness:
  "exact_times 3 (1 / 5) (10 + 1 / 5) 10 = [51 / 5, 52 / 5, 53 / 5 :: real]"
  using periodic_exact [of "1 / 5" 3 10] by (simp add: upt_rec)

end
