(* ===== verification/AgentNetwork.thy ===== *)
theory AgentNetwork
  imports Agent FiniteTime Microgrid
begin

section \<open>Agents in a network\<close>

text \<open>
  The control step of \<open>Agent\<close> put to work. \<open>scalar_law\<close> and \<open>grid_law\<close> are the two controller
  families as an agent sees them. \<open>agent_ticks\<close> is a run of one agent, with the packets heard
  between its ticks. \<open>net_step\<close> is a network of microgrid agents as a step relation: any agent may
  tick at any time, and any packet ever published may reach any agent's handler, through the
  bytes of UDP or of BLE, any number of times, in any order or never. The invariant of its
  reachable states is that everything stays in the band of the initial values.
\<close>

definition scalar_law :: "(ft_params \<times> ft_state \<times> pcg) law" where
  "scalar_law =
     \<lparr>lw_step = \<lambda>(p, sg) vs es. let (sg', out) = ft_step pcg_uniform p sg vs es in Inr ((p, sg'), out),
      lw_vstate = \<lambda>(p, s, g). [ft_vstate s], lw_class = ft_class,
      lw_in_tick = False, lw_logs_timing = False, lw_hold = False\<rparr>"

definition grid_law :: "mg_kind \<Rightarrow> microgrid law" where
  "grid_law k =
     \<lparr>lw_step = \<lambda>m vs es. mg_step m vs, lw_vstate = \<lambda>m. [vl_zP (mg_virtual m), vl_zQ (mg_virtual m)],
      lw_class = mg_class k, lw_in_tick = True, lw_logs_timing = True, lw_hold = True\<rparr>"

type_synonym tick_input = "reception list \<times> int \<times> real \<times> real"

definition agent_hear :: "'c agent \<Rightarrow> reception list \<Rightarrow> 'c agent" where
  "agent_hear a rs = foldl (\<lambda>a r. fst (agent_on_receive a r)) a rs"

primrec agent_ticks :: "'c law \<Rightarrow> 'c agent \<Rightarrow> tick_input list \<Rightarrow> ('c agent \<times> state_packet list) result" where
  "agent_ticks w a [] = Inr (a, [])"
| "agent_ticks w a (x # xs) =
     (let (rs, now_us, now_s, cpu) = x in
      bindR (agent_control_step w (agent_hear a rs) now_us now_s cpu) (\<lambda>(a', out, ps, rows).
      bindR (agent_ticks w a' xs) (\<lambda>(a'', qs). Inr (a'', ps @ qs))))"

subsection \<open>The publishing schedule\<close>

lemma agent_hear_fields [simp]:
  "ag_config (agent_hear a rs) = ag_config a" "ag_publish_in_tick (agent_hear a rs) = ag_publish_in_tick a"
  "ag_publish_every (agent_hear a rs) = ag_publish_every a" "ag_ticks (agent_hear a rs) = ag_ticks a"
  "ag_seq (agent_hear a rs) = ag_seq a" "ag_law (agent_hear a rs) = ag_law a"
  "ag_on_sample (agent_hear a rs) = ag_on_sample a"
  by (induction rs arbitrary: a) (simp_all add: agent_hear_def agent_on_receive_def)

lemma publish_step_Inr:
  "agent_publish_step w a now_us = Inr (a', p) \<longleftrightarrow>
     a' = a\<lparr>ag_seq := (ag_seq a + 1) mod 65536\<rparr> \<and> packet_ok p \<and>
     p = \<lparr>pk_node = ac_node (ag_config a), pk_vstate = map quantize (lw_vstate w (ag_law a)),
          pk_seq = (ag_seq a + 1) mod 65536, pk_tx = max 0 now_us, pk_enabled = ac_enabled (ag_config a),
          pk_dist = False\<rparr>"
  by (auto simp: agent_publish_step_def Let_def from_state_def result_simps post_init_Inr_iff)

lemma agent_commit_fields [simp]:
  "ag_config (agent_commit a l out vs es t now cpu) = ag_config a" "ag_law (agent_commit a l out vs es t now cpu) = l"
  "ag_publish_in_tick (agent_commit a l out vs es t now cpu) = ag_publish_in_tick a"
  "ag_publish_every (agent_commit a l out vs es t now cpu) = ag_publish_every a"
  "ag_ticks (agent_commit a l out vs es t now cpu) = ag_ticks a" "ag_seq (agent_commit a l out vs es t now cpu) = ag_seq a"
  "ag_on_sample (agent_commit a l out vs es t now cpu) = ag_on_sample a"
  "ag_neighbors (agent_commit a l out vs es t now cpu) = ag_neighbors a"
  by (simp_all add: agent_commit_def Let_def)

text \<open>What publication changed: sequence number, tick counter, arrival flags, nothing else.\<close>

definition emitted :: "'c law \<Rightarrow> 'c agent \<Rightarrow> 'c agent \<Rightarrow> state_packet list \<Rightarrow> bool" where
  "emitted w a a' ps \<longleftrightarrow>
     ag_law a' = ag_law a \<and> ag_config a' = ag_config a \<and> ag_publish_in_tick a' = ag_publish_in_tick a \<and>
     ag_publish_every a' = ag_publish_every a \<and>
     ag_ticks a' = (if ag_publish_in_tick a then ag_ticks a + 1 else ag_ticks a) \<and>
     nt_records (ag_neighbors a') = nt_records (ag_neighbors a) \<and> nt_ids (ag_neighbors a') = nt_ids (ag_neighbors a) \<and>
     nt_dim (ag_neighbors a') = nt_dim (ag_neighbors a) \<and>
     (if ag_publish_in_tick a \<and> (ag_ticks a + 1) mod ag_publish_every a = 0
      then ag_seq a' = (ag_seq a + 1) mod 65536 \<and>
           (\<exists>p. ps = [p] \<and> packet_ok p \<and> pk_node p = ac_node (ag_config a) \<and> pk_seq p = ag_seq a' \<and>
                pk_vstate p = map quantize (lw_vstate w (ag_law a)) \<and> pk_enabled p = ac_enabled (ag_config a))
      else ag_seq a' = ag_seq a \<and> ps = [])"

lemma emit_emitted:
  "agent_emit w a now_us t out vs = Inr (a', out', ps, rows) \<Longrightarrow> emitted w a a' ps \<and> out' = out"
  by (auto simp: agent_emit_def Let_def result_simps split_beta publish_step_Inr arrivals_def emitted_def split: if_splits)

lemma control_step_cases:
  assumes "agent_control_step w a now_us now_s cpu = Inr (a', out, ps, rows)"
  obtains vs es a1 where "snapshot (ag_neighbors a) now_us = (vs, es)"
    and "if ac_enabled (ag_config a) then lw_step w (ag_law a) vs es = Inr (ag_law a1, out) else ag_law a1 = ag_law a"
    and "ag_config a1 = ag_config a" "ag_publish_in_tick a1 = ag_publish_in_tick a"
      "ag_publish_every a1 = ag_publish_every a" "ag_ticks a1 = ag_ticks a" "ag_seq a1 = ag_seq a"
      "ag_neighbors a1 = ag_neighbors a"
    and "emitted w a1 a' ps"
proof -
  obtain vs es where sn: "snapshot (ag_neighbors a) now_us = (vs, es)" by fastforce
  define t_s where "t_s = now_s - (case ag_t0 a of None \<Rightarrow> 0 | Some t0 \<Rightarrow> t0)"
  define r where "r = (if ac_enabled (ag_config a) then lw_step w (ag_law a) vs es
      else Inr (ag_law a, \<lparr>co_state = lw_vstate w (ag_law a), co_vstate = lw_vstate w (ag_law a),
                          co_extra = replicate (length (cl_channels (lw_class w))) 0\<rparr>))"
  have "bindR r (\<lambda>(law', out). agent_emit w (agent_commit a law' out vs es t_s now_s cpu) now_us t_s out vs)
      = Inr (a', out, ps, rows)"
    using assms by (simp add: agent_control_step_def sn Let_def r_def t_s_def)
  then obtain law' out1 where r: "r = Inr (law', out1)"
    and e: "agent_emit w (agent_commit a law' out1 vs es t_s now_s cpu) now_us t_s out1 vs = Inr (a', out, ps, rows)"
    by (auto simp: bindR_eq_Inr)
  note em = emit_emitted [OF e]
  have l: "if ac_enabled (ag_config a) then lw_step w (ag_law a) vs es = Inr (law', out) else law' = ag_law a"
    using r em by (auto simp: r_def split: if_splits)
  show ?thesis
    by (rule that [OF sn, of "agent_commit a law' out1 vs es t_s now_s cpu"]) (use l em in simp_all)
qed

lemma div_Suc_step: "0 < m \<Longrightarrow> (t + 1) div m = t div m + (if (t + 1) mod m = 0 then 1 else 0)" for t m :: int
proof -
  assume m: "0 < m"
  have t: "t + 1 = m * (t div m) + (t mod m + 1)" "0 \<le> t mod m" "t mod m < m" using m by simp_all
  show ?thesis
  proof (cases "t mod m + 1 = m")
    case True
    then have "t + 1 = m * (t div m + 1)" using t(1) by (simp add: distrib_left)
    then show ?thesis using m by simp
  next
    case False
    then have r: "0 \<le> t mod m + 1" "t mod m + 1 < m" using t by linarith+
    have "(t + 1) div m = t div m" by (rule int_div_pos_eq [OF t(1) r])
    moreover have "(t + 1) mod m = t mod m + 1" by (rule int_mod_pos_eq [OF t(1) r])
    ultimately show ?thesis using t(2) by simp
  qed
qed

lemma ticks_schedule:
  assumes "agent_ticks w a xs = Inr (a', ps)" and "ag_publish_in_tick a" and "0 < ag_publish_every a"
      and "0 \<le> ag_seq a" "ag_seq a < 65536"
  shows "int (length ps) = (ag_ticks a + int (length xs)) div ag_publish_every a - ag_ticks a div ag_publish_every a \<and>
         map pk_seq ps = map (\<lambda>i. (ag_seq a + 1 + int i) mod 65536) [0..<length ps] \<and>
         list_all (\<lambda>p. packet_ok p \<and> pk_node p = ac_node (ag_config a)) ps"
  using assms
proof (induction xs arbitrary: a ps)
  case Nil
  then show ?case by simp
next
  case (Cons x xs)
  obtain rs now_us now_s cpu where x: "x = (rs, now_us, now_s, cpu)" by (cases x) auto
  obtain a1 out ps1 rows qs where
    s: "agent_control_step w (agent_hear a rs) now_us now_s cpu = Inr (a1, out, ps1, rows)"
    and t: "agent_ticks w a1 xs = Inr (a', qs)" and ps: "ps = ps1 @ qs"
    using Cons.prems(1) by (auto simp: x result_simps)
  have c: "ag_ticks a1 = (if ag_publish_in_tick a then ag_ticks a + 1 else ag_ticks a)"
      "ag_config a1 = ag_config a" "ag_publish_in_tick a1 = ag_publish_in_tick a"
      "ag_publish_every a1 = ag_publish_every a"
      "if ag_publish_in_tick a \<and> (ag_ticks a + 1) mod ag_publish_every a = 0
       then ag_seq a1 = (ag_seq a + 1) mod 65536 \<and>
            (\<exists>p. ps1 = [p] \<and> packet_ok p \<and> pk_node p = ac_node (ag_config a) \<and> pk_seq p = ag_seq a1)
       else ag_seq a1 = ag_seq a \<and> ps1 = []"
    by (rule control_step_cases [OF s]; auto simp: emitted_def)+
  have f: "ag_publish_in_tick a1" "ag_publish_every a1 = ag_publish_every a" "ag_ticks a1 = ag_ticks a + 1"
      "ag_config a1 = ag_config a" using c Cons.prems(2) by auto
  have seq: "0 \<le> ag_seq a1 \<and> ag_seq a1 < 65536" using c Cons.prems by (auto split: if_splits)
  have IH: "int (length qs) = (ag_ticks a + 1 + int (length xs)) div ag_publish_every a - (ag_ticks a + 1) div ag_publish_every a"
      "map pk_seq qs = map (\<lambda>i. (ag_seq a1 + 1 + int i) mod 65536) [0..<length qs]"
      "list_all (\<lambda>p. packet_ok p \<and> pk_node p = ac_node (ag_config a)) qs"
    using Cons.IH [OF t f(1)] f(2-4) Cons.prems(3) seq by auto
  note d = div_Suc_step [OF Cons.prems(3), of "ag_ticks a"]
  show ?case
  proof (cases "(ag_ticks a + 1) mod ag_publish_every a = 0")
    case True
    then obtain p where p: "ps1 = [p]" "packet_ok p" "pk_node p = ac_node (ag_config a)"
        "pk_seq p = (ag_seq a + 1) mod 65536" "ag_seq a1 = (ag_seq a + 1) mod 65536"
      using c Cons.prems(2) by auto
    have "map (\<lambda>i. (ag_seq a + 1 + int i) mod 65536) [0..<Suc (length qs)]
        = (ag_seq a + 1) mod 65536 # map (\<lambda>i. (ag_seq a + 1 + int (Suc i)) mod 65536) [0..<length qs]"
      unfolding upt_conv_Cons [OF zero_less_Suc] map_Suc_upt [symmetric] by simp
    also have "map (\<lambda>i. (ag_seq a + 1 + int (Suc i)) mod 65536) [0..<length qs] = map pk_seq qs"
    proof -
      have "((ag_seq a + 1) mod 65536 + 1 + int i) mod 65536 = (ag_seq a + 1 + int (Suc i)) mod 65536" for i
        using mod_add_left_eq [of "ag_seq a + 1" 65536 "1 + int i"] by (simp add: ac_simps)
      then show ?thesis unfolding IH(2) p(5) by simp
    qed
    finally have sq: "map pk_seq ps = map (\<lambda>i. (ag_seq a + 1 + int i) mod 65536) [0..<length ps]"
      using p(1,4) by (simp add: ps)
    have "int (length ps) = (ag_ticks a + int (length (x # xs))) div ag_publish_every a
        - ag_ticks a div ag_publish_every a"
      using IH(1) d True by (simp add: ps p(1) algebra_simps)
    moreover have "list_all (\<lambda>p. packet_ok p \<and> pk_node p = ac_node (ag_config a)) ps"
      using IH(3) p by (simp add: ps)
    ultimately show ?thesis using sq by blast
  next
    case False
    then show ?thesis using IH c d by (simp add: ps algebra_simps)
  qed
qed

text \<open>C17: The publishing schedule: an agent that publishes from inside its control step sends, over
  any completed run of \<open>n\<close> ticks from its start, exactly \<open>n div publish_every\<close> packets, all of
  them well formed and under its own id, with consecutive sequence numbers modulo \<open>2 ^ 16\<close>.\<close>

theorem agent_publish_schedule:
  assumes "agent_new w c law0 rec0 = Inr a" and "lw_in_tick w" and "agent_ticks w a xs = Inr (a', ps)"
  shows "\<exists>m. publish_every c = Inr m \<and> 0 < m \<and> int (length ps) = int (length xs) div m \<and>
         map pk_seq ps = map (\<lambda>i. (1 + int i) mod 65536) [0..<length ps] \<and>
         list_all (\<lambda>p. packet_ok p \<and> pk_node p = ac_node c) ps"
proof -
  obtain m where m: "publish_every c = Inr m" "ag_publish_every a = m" "ag_publish_in_tick a" "ag_ticks a = 0"
      "ag_seq a = 0" "ag_config a = c"
    using assms(1,2) by (auto simp: agent_new_def result_simps)
  have "0 < m" using m(1) by (auto simp: publish_every_def Let_def split: if_splits)
  then show ?thesis using ticks_schedule [OF assms(3) m(3)] m by simp
qed

subsection \<open>One microgrid agent in a band\<close>

text \<open>
  The band is given by wire integers: \<open>L \<le> 0 \<le> H\<close>, both 32-bit. \<open>table_in\<close> says that every
  record of a table is in it, \<open>agent_in\<close> that the agent is, and that its schedule is sound.
\<close>

definition int_band :: "int \<Rightarrow> int \<Rightarrow> bool" where
  "int_band L H \<longleftrightarrow> L \<le> 0 \<and> 0 \<le> H \<and> int32_ok L \<and> int32_ok H"

definition table_in :: "int \<Rightarrow> int \<Rightarrow> neighbor_table \<Rightarrow> bool" where
  "table_in L H t \<longleftrightarrow> (\<forall>n r. nt_records t n = Some r \<longrightarrow> list_all (\<lambda>v. L \<le> v \<and> v \<le> H) (nr_vstate r))"

definition law_in :: "int \<Rightarrow> int \<Rightarrow> microgrid \<Rightarrow> bool" where
  "law_in L H m \<longleftrightarrow> mg_ok m \<and> in_band (dequantize L) (dequantize H) (vl_packet (mg_virtual m)) \<and>
     ref_within (dequantize L) (dequantize H) (vl_p (mg_virtual m))"

definition agent_in :: "int \<Rightarrow> int \<Rightarrow> microgrid agent \<Rightarrow> bool" where
  "agent_in L H a \<longleftrightarrow> law_in L H (ag_law a) \<and> table_in L H (ag_neighbors a) \<and>
     1 \<le> ac_node (ag_config a) \<and> ac_node (ag_config a) \<le> 255"

definition packet_in :: "int \<Rightarrow> int \<Rightarrow> state_packet \<Rightarrow> bool" where
  "packet_in L H p \<longleftrightarrow> packet_ok p \<and> list_all (\<lambda>v. L \<le> v \<and> v \<le> H) (pk_vstate p)"

lemma dequantize_mul: "dequantize n = of_int n * (1 / 10 ^ 6)"
  by (simp add: dequantize_def SCALE_FACTOR_def)

lemma dequantize_mono: "m \<le> n \<Longrightarrow> dequantize m \<le> dequantize n"
  by (simp add: dequantize_def SCALE_FACTOR_def divide_right_mono)

lemma quantize_band: "dequantize L \<le> x \<Longrightarrow> x \<le> dequantize H \<Longrightarrow> L \<le> quantize x \<and> quantize x \<le> H"
  using quantize_mono [of "dequantize L" x] quantize_mono [of x "dequantize H"] by simp

lemma snapshot_in:
  assumes "table_in L H t" and "L \<le> 0" "0 \<le> H"
  shows "list_all (\<lambda>v. L \<le> v \<and> v \<le> H) (fst (snapshot t now))"
proof -
  have "list_all (\<lambda>v. L \<le> v \<and> v \<le> H) (fst (snap_one t now nid))" for nid
    using assms by (cases "nt_records t nid") (auto simp: snap_one_def table_in_def pad_to_def list_all_iff dest: in_set_takeD)
  then show ?thesis by (simp add: snapshot_def list_all_iff)
qed

lemma observe_in:
  assumes "table_in L H t" and "packet_in L H (rc_packet r)"
  shows "table_in L H (fst (nt_observe t r))"
  using assms by (auto simp: table_in_def packet_in_def nt_observe_def Let_def split: if_splits)

lemma hear_in:
  assumes "agent_in L H a" and "list_all (\<lambda>r. packet_in L H (rc_packet r)) rs"
  shows "agent_in L H (agent_hear a rs)"
  using assms
proof (induction rs arbitrary: a)
  case Nil
  then show ?case by (simp add: agent_hear_def)
next
  case (Cons r rs)
  have "agent_in L H (fst (agent_on_receive a r))"
    using Cons.prems observe_in [of L H "ag_neighbors a" r] by (simp add: agent_in_def agent_on_receive_def)
  then show ?case using Cons by (simp add: agent_hear_def)
qed

text \<open>The law's step keeps the band, from any snapshot of a table that is in it.\<close>

lemma law_step_in:
  assumes "law_in L H m" and "int_band L H" and "list_all (\<lambda>v. L \<le> v \<and> v \<le> H) vs"
  shows "\<exists>m' out. mg_step m vs = Inr (m', out) \<and> law_in L H m'"
proof -
  have ok: "mg_ok m" using assms(1) by (simp add: law_in_def)
  obtain m' out where s: "mg_step m vs = Inr (m', out)" using ok by (rule mg_step_total)
  have z: "dequantize L \<le> 0" "0 \<le> dequantize H"
    using assms(2) dequantize_mono [of L 0] dequantize_mono [of 0 H]
    by (auto simp: int_band_def dequantize_def)
  have "list_all (\<lambda>n. dequantize L \<le> of_int n * (1 / 10 ^ 6) \<and> of_int n * (1 / 10 ^ 6) \<le> dequantize H) vs"
    using assms(3) dequantize_mono unfolding list_all_iff dequantize_mul [symmetric] by blast
  then show ?thesis
    using mg_step_band [OF ok s z] mg_step_ok [OF ok s] assms(1) s by (auto simp: law_in_def)
qed

text \<open>What the band asks of a coordination law: on neighbour values in the band its step returns and
  keeps it good, and a good law's virtual state is one or two numbers in the band. Then the whole
  control step returns, and the agent and what it publishes stay in the band.\<close>

locale banded_law =
  fixes w :: "'c law" and good :: "'c \<Rightarrow> bool" and L H :: int
  assumes band: "good c \<Longrightarrow> int_band L H"
    and step: "good c \<Longrightarrow> list_all (\<lambda>v. L \<le> v \<and> v \<le> H) vs \<Longrightarrow> \<exists>c' out. lw_step w c vs es = Inr (c', out) \<and> good c'"
    and vstate: "good c \<Longrightarrow> length (lw_vstate w c) \<in> {1, 2} \<and>
      list_all (\<lambda>x. dequantize L \<le> x \<and> x \<le> dequantize H) (lw_vstate w c)"
begin

definition held :: "'c agent \<Rightarrow> bool" where
  "held a \<longleftrightarrow> good (ag_law a) \<and> table_in L H (ag_neighbors a) \<and> 1 \<le> ac_node (ag_config a) \<and> ac_node (ag_config a) \<le> 255"

lemma quantized: "good c \<Longrightarrow> list_all (\<lambda>v. L \<le> v \<and> v \<le> H) (map quantize (lw_vstate w c))"
  using vstate quantize_band by (fastforce simp: list_all_iff)

lemma publish_total:
  assumes "good (ag_law a)" and "0 \<le> now_us \<longrightarrow> now_us < 2 ^ 48" and "1 \<le> ac_node (ag_config a)" "ac_node (ag_config a) \<le> 255"
  shows "\<exists>a' p. agent_publish_step w a now_us = Inr (a', p)"
proof -
  have "list_all int32_ok (map quantize (lw_vstate w (ag_law a)))"
    using quantized [OF assms(1)] band [OF assms(1)] by (auto simp: list_all_iff int_band_def int32_ok_def)
  then show ?thesis using assms(2-4) vstate [OF assms(1)]
    by (auto simp: publish_step_Inr packet_ok_def list_all_iff)
qed

lemma emit_total:
  assumes "good (ag_law a)" and "0 \<le> now_us \<longrightarrow> now_us < 2 ^ 48" and "1 \<le> ac_node (ag_config a)" "ac_node (ag_config a) \<le> 255"
  shows "\<exists>x. agent_emit w a now_us t out vs = Inr x"
  using publish_total [OF assms] by (auto simp: agent_emit_def Let_def split_beta)

lemma control_step_held:
  assumes "held a" and "0 \<le> now_us \<longrightarrow> now_us < 2 ^ 48"
  shows "\<exists>a' out ps rows. agent_control_step w a now_us now_s cpu = Inr (a', out, ps, rows) \<and>
           held a' \<and> list_all (packet_in L H) ps"
proof -
  obtain vs es where sn: "snapshot (ag_neighbors a) now_us = (vs, es)" by fastforce
  have g: "good (ag_law a)" and b: "int_band L H" using assms(1) band by (auto simp: held_def)
  have vs: "list_all (\<lambda>v. L \<le> v \<and> v \<le> H) vs"
    using snapshot_in [of L H "ag_neighbors a" now_us] assms(1) b sn by (simp add: held_def int_band_def)
  obtain c' out where law: "(if ac_enabled (ag_config a) then lw_step w (ag_law a) vs es
      else Inr (ag_law a, \<lparr>co_state = lw_vstate w (ag_law a), co_vstate = lw_vstate w (ag_law a),
             co_extra = replicate (length (cl_channels (lw_class w))) 0\<rparr>)) = Inr (c', out)" "good c'"
    using step [OF g vs, of es] g that by (cases "ac_enabled (ag_config a)") auto
  obtain a' out' ps rows where e: "agent_control_step w a now_us now_s cpu = Inr (a', out', ps, rows)"
    using emit_total [of "agent_commit a c' out vs es (now_s - (case ag_t0 a of None \<Rightarrow> 0 | Some t0 \<Rightarrow> t0)) now_s cpu"
        now_us "now_s - (case ag_t0 a of None \<Rightarrow> 0 | Some t0 \<Rightarrow> t0)" out vs] law assms
    by (auto simp: agent_control_step_def sn Let_def held_def)
  obtain a1 where c: "good (ag_law a1)" "ag_config a1 = ag_config a" "ag_neighbors a1 = ag_neighbors a" "emitted w a1 a' ps"
  proof (rule control_step_cases [OF e])
    fix vs' es' a1
    assume h: "snapshot (ag_neighbors a) now_us = (vs', es')"
        "if ac_enabled (ag_config a) then lw_step w (ag_law a) vs' es' = Inr (ag_law a1, out') else ag_law a1 = ag_law a"
        "ag_config a1 = ag_config a" "ag_neighbors a1 = ag_neighbors a" "emitted w a1 a' ps"
    have "good (ag_law a1)" using step [OF g vs, of es] g sn h(1,2) by (auto split: if_splits)
    then show thesis using that h by blast
  qed
  have "held a'" "list_all (packet_in L H) ps"
    using c assms(1) quantized [OF c(1)] by (auto simp: emitted_def held_def table_in_def packet_in_def split: if_splits)
  then show ?thesis using e by blast
qed

lemma receive_held: "held a \<Longrightarrow> packet_in L H (rc_packet r) \<Longrightarrow> held (fst (agent_on_receive a r))"
  using observe_in [of L H "ag_neighbors a" r] by (simp add: held_def agent_on_receive_def)

end

lemma grid_vstate_in:
  "law_in L H m \<Longrightarrow> list_all (\<lambda>x. dequantize L \<le> x \<and> x \<le> dequantize H) [vl_zP (mg_virtual m), vl_zQ (mg_virtual m)]"
  by (simp add: law_in_def in_band_def vl_packet_def)

definition grid_good :: "int \<Rightarrow> int \<Rightarrow> microgrid \<Rightarrow> bool" where
  "grid_good L H m \<longleftrightarrow> int_band L H \<and> law_in L H m"

interpretation grid_band: banded_law "grid_law k" "grid_good L H" L H for k L H
proof
  show "int_band L H" if "grid_good L H c" for c using that by (simp add: grid_good_def)
  show "\<exists>c' out. lw_step (grid_law k) c vs es = Inr (c', out) \<and> grid_good L H c'"
    if "grid_good L H c" "list_all (\<lambda>v. L \<le> v \<and> v \<le> H) vs" for c vs es
    using that law_step_in [of L H c vs] by (auto simp: grid_good_def grid_law_def)
  show "length (lw_vstate (grid_law k) c) \<in> {1, 2} \<and>
      list_all (\<lambda>x. dequantize L \<le> x \<and> x \<le> dequantize H) (lw_vstate (grid_law k) c)" if "grid_good L H c" for c
    using that grid_vstate_in [of L H c] by (simp add: grid_good_def grid_law_def)
qed

lemma grid_held: "grid_band.held L H a \<longleftrightarrow> int_band L H \<and> agent_in L H a"
  by (auto simp: grid_band.held_def agent_in_def grid_good_def)

lemma control_step_in:
  assumes "agent_in L H a" and "int_band L H" and "0 \<le> now_us \<longrightarrow> now_us < 2 ^ 48"
  shows "\<exists>a' out ps rows. agent_control_step (grid_law k) a now_us now_s cpu = Inr (a', out, ps, rows) \<and>
           agent_in L H a' \<and> list_all (packet_in L H) ps"
  using grid_band.control_step_held [of L H a now_us k now_s cpu] assms unfolding grid_held by blast

subsection \<open>The network\<close>

record net =
  nt_nodes :: "int \<rightharpoonup> microgrid agent"
  nt_air :: "state_packet set"

inductive net_step :: "mg_kind \<Rightarrow> net \<Rightarrow> net \<Rightarrow> bool" for k :: mg_kind where
  Tick: "nt_nodes N i = Some a \<Longrightarrow> 0 \<le> now_us \<Longrightarrow> now_us < 2 ^ 48 \<Longrightarrow>
    agent_control_step (grid_law k) a now_us now_s cpu = Inr (a', out, ps, rows) \<Longrightarrow>
    net_step k N (N\<lparr>nt_nodes := (nt_nodes N)(i \<mapsto> a'), nt_air := nt_air N \<union> set ps\<rparr>)"
| Udp: "nt_nodes N i = Some a \<Longrightarrow> p \<in> nt_air N \<Longrightarrow> encode_manufacturer_data p = Inr d \<Longrightarrow>
    udp_recv (ac_node (ag_config a)) d = Some q \<Longrightarrow>
    net_step k N (N\<lparr>nt_nodes := (nt_nodes N)(i \<mapsto>
      fst (agent_on_receive a \<lparr>rc_packet = q, rc_rx = rx, rc_rssi = None\<rparr>))\<rparr>)"
| Ble: "nt_nodes N i = Some a \<Longrightarrow> p \<in> nt_air N \<Longrightarrow> ble_send COMPANY_ID p = Inr d \<Longrightarrow>
    ble_recv COMPANY_ID (ac_node (ag_config a)) d = Some q \<Longrightarrow>
    net_step k N (N\<lparr>nt_nodes := (nt_nodes N)(i \<mapsto>
      fst (agent_on_receive a \<lparr>rc_packet = q, rc_rx = rx, rc_rssi = Some rssi\<rparr>))\<rparr>)"

inductive net_reach :: "mg_kind \<Rightarrow> net \<Rightarrow> net \<Rightarrow> bool" for k :: mg_kind and N0 :: net where
  net_start: "net_reach k N0 N0"
| net_next: "net_reach k N0 N \<Longrightarrow> net_step k N M \<Longrightarrow> net_reach k N0 M"

inductive_cases net_stepE: "net_step k N M"

definition net_in :: "int \<Rightarrow> int \<Rightarrow> net \<Rightarrow> bool" where
  "net_in L H N \<longleftrightarrow> (\<forall>i a. nt_nodes N i = Some a \<longrightarrow> agent_in L H a) \<and> (\<forall>p \<in> nt_air N. packet_in L H p)"

lemma udp_delivers_same:
  assumes "packet_ok p" and "encode_manufacturer_data p = Inr d" and "udp_recv n d = Some q"
  shows "q = p"
  using assms udp.recv_other [OF assms(1,2), of n] udp.recv_own [OF assms(1,2), of n] by (cases "pk_node p = n") auto

lemma ble_delivers_same:
  assumes "packet_ok p" and "ble_send COMPANY_ID p = Inr d" and "ble_recv COMPANY_ID n d = Some q"
  shows "q = p"
  using assms ble.recv_other [OF assms(1,2), of n] ble.recv_own [OF assms(1,2), of n] by (cases "pk_node p = n") auto

lemma receive_in:
  "agent_in L H a \<Longrightarrow> packet_in L H (rc_packet r) \<Longrightarrow> agent_in L H (fst (agent_on_receive a r))"
  using observe_in [of L H "ag_neighbors a" r] by (simp add: agent_in_def agent_on_receive_def)

lemma net_step_in:
  assumes "int_band L H" and "net_in L H N" and "net_step k N M"
  shows "net_in L H M"
  using assms(3)
proof (cases rule: net_step.cases)
  case (Tick i a now_us now_s cpu a' out ps rows)
  have "agent_in L H a" using assms(2) Tick(2) by (auto simp: net_in_def)
  then have "agent_in L H a' \<and> list_all (packet_in L H) ps"
    using control_step_in [of L H a now_us k now_s cpu] assms(1) Tick by auto
  then show ?thesis using assms(2) Tick(1) by (auto simp: net_in_def list_all_iff)
next
  case (Udp i a p d q rx)
  have "packet_in L H p" "agent_in L H a" using assms(2) Udp by (auto simp: net_in_def)
  moreover then have "q = p" using udp_delivers_same Udp by (auto simp: packet_in_def)
  ultimately show ?thesis using assms(2) Udp(1) receive_in by (auto simp: net_in_def)
next
  case (Ble i a p d q rx rssi)
  have "packet_in L H p" "agent_in L H a" using assms(2) Ble by (auto simp: net_in_def)
  moreover then have "q = p" using ble_delivers_same Ble by (auto simp: packet_in_def)
  ultimately show ?thesis using assms(2) Ble(1) receive_in by (auto simp: net_in_def)
qed

lemma net_reach_in: "net_reach k N0 N \<Longrightarrow> int_band L H \<Longrightarrow> net_in L H N0 \<Longrightarrow> net_in L H N"
  by (induction rule: net_reach.induct) (auto intro: net_step_in)

text \<open>C2: The whole network stays in its band and never stops: from any start in which all virtual
  states, references, tables and packets in flight lie between two 32-bit wire values around zero,
  under every schedule of ticks and of lost, duplicated and reordered deliveries over UDP and BLE,
  every agent's virtual state stays between them, every packet on the air is well formed, and
  every agent's next control step returns without an exception.\<close>

theorem network_band:
  assumes "int_band L H" and "net_in L H N0" and "net_reach k N0 N"
      and "nt_nodes N i = Some a" and "0 \<le> now_us" "now_us < 2 ^ 48"
  shows "in_band (dequantize L) (dequantize H) (vl_packet (mg_virtual (ag_law a))) \<and>
         (\<forall>p \<in> nt_air N. packet_ok p) \<and>
         (\<exists>x. agent_control_step (grid_law k) a now_us now_s cpu = Inr x)"
proof -
  have n: "net_in L H N" by (rule net_reach_in [OF assms(3,1,2)])
  then have a: "agent_in L H a" using assms(4) by (auto simp: net_in_def)
  show ?thesis using n a control_step_in [OF a assms(1), of now_us k now_s cpu] assms(5,6)
    by (auto simp: net_in_def agent_in_def law_in_def packet_in_def)
qed

subsection \<open>A concrete network\<close>

definition demo_config :: agent_config where
  "demo_config = \<lparr>ac_node = 1, ac_neighbors = [2], ac_dt = 1 / 40, ac_publish_period = 1 / 20, ac_enabled = True,
                  ac_max_age = None\<rparr>"

definition demo_agent :: "microgrid agent" where
  "demo_agent = projr (agent_new (grid_law MicrogridAdaptive) demo_config demo False)"

lemma py_round_2: "py_round 2 = 2"
  using py_round_of_int [of 2] by simp

lemma demo_agent: "agent_new (grid_law MicrogridAdaptive) demo_config demo False = Inr demo_agent"
  by (simp add: demo_agent_def agent_new_def grid_law_def publish_every_def demo_config_def py_round_2 nt_init_def
      resolved_max_age_s_def)

lemma agent_new_fields:
  "agent_new w c l r = Inr a \<Longrightarrow> ag_law a = l \<and> ag_config a = c \<and> nt_records (ag_neighbors a) = Map.empty"
  by (auto simp: agent_new_def nt_init_def result_simps split: if_splits)

lemma demo_agent_in: "agent_in 0 3000000 demo_agent"
proof -
  have f: "ag_law demo_agent = demo" "ag_config demo_agent = demo_config" "nt_records (ag_neighbors demo_agent) = Map.empty"
    using agent_new_fields [OF demo_agent] by simp_all
  have "law_in 0 3000000 demo"
    using demo_facts by (simp add: law_in_def in_band_def ref_within_def dequantize_def SCALE_FACTOR_def)
  then show ?thesis by (simp add: agent_in_def f table_in_def demo_config_def)
qed

lemma demo_band: "int_band 0 3000000"
  by (simp add: int_band_def int32_ok_def)

lemma demo_ticks: "agent_in L H a \<Longrightarrow> int_band L H \<Longrightarrow>
    \<exists>a' ps. agent_ticks (grid_law k) a (replicate n ([], 0, 0, 0)) = Inr (a', ps)"
proof (induction n arbitrary: a)
  case 0
  then show ?case by simp
next
  case (Suc n)
  obtain a' out ps rows where s: "agent_control_step (grid_law k) a 0 0 0 = Inr (a', out, ps, rows)" "agent_in L H a'"
    using control_step_in [OF Suc.prems, of 0 k 0 0] by auto
  show ?case using Suc.IH [OF s(2) Suc.prems(2)] s(1) by (auto simp: agent_hear_def)
qed

theorem agent_publish_schedule_witness:
  "\<exists>a' ps. agent_ticks (grid_law MicrogridAdaptive) demo_agent (replicate 5 ([], 0, 0, 0)) = Inr (a', ps) \<and>
     length ps = 2 \<and> map pk_seq ps = [1, 2]"
proof -
  obtain a' ps where t: "agent_ticks (grid_law MicrogridAdaptive) demo_agent (replicate 5 ([], 0, 0, 0)) = Inr (a', ps)"
    using demo_ticks [OF demo_agent_in demo_band] by blast
  have m: "publish_every demo_config = Inr 2" by (simp add: publish_every_def demo_config_def py_round_2)
  have "lw_in_tick (grid_law MicrogridAdaptive)" by (simp add: grid_law_def)
  from agent_publish_schedule [OF demo_agent this t] m
  have p: "int (length ps) = 5 div 2" "map pk_seq ps = map (\<lambda>i. (1 + int i) mod 65536) [0..<length ps]" by auto
  then have "length ps = 2" by simp
  with p(2) show ?thesis using t by (auto simp: upt_rec)
qed

theorem network_band_witness:
  "\<exists>x. agent_control_step (grid_law MicrogridAdaptive) demo_agent 5 0 0 = Inr x"
proof -
  let ?N = "\<lparr>nt_nodes = [1 \<mapsto> demo_agent], nt_air = {}\<rparr>"
  have "net_in 0 3000000 ?N" by (simp add: net_in_def demo_agent_in)
  from network_band [OF demo_band this net_start, of 1 demo_agent 5 MicrogridAdaptive 0 0] show ?thesis by simp
qed

end
