(* ===== verification/Relay.thy ===== *)
theory Relay
  imports Assignment SerialLink
begin

section \<open>The relay to a board (agent/relay.py)\<close>

text \<open>
  \<open>assignment_to_frames\<close>, \<open>microgrid_frames\<close> and \<open>radio_frame\<close> translate an assignment into
  serial frames; a float conversion \<^verbatim>\<open>int(round(x * 1000))\<close> is \<open>ms_of\<close>. \<open>relay\<close> is the state of
  \<^verbatim>\<open>BleRelay\<close>. The link is a parameter: a function \<open>request\<close> on its own state \<open>'l\<close>, which the
  relay only calls. The reports handed to \<^verbatim>\<open>on_report\<close> are collected in \<open>rl_reported\<close>.
\<close>

definition ms_of :: "real \<Rightarrow> int" where
  "ms_of x = py_round (x * 1000)"

definition adapt_band_of :: "iface_params \<Rightarrow> int" where
  "adapt_band_of i =
     (case i of LcP l \<Rightarrow> (case lp_adapt_band l of Some b \<Rightarrow> quantize b | None \<Rightarrow> - 1) | AdaptiveP _ \<Rightarrow> - 1)"

definition iface_kwargs :: "iface_params \<Rightarrow> kwargs" where
  "iface_kwargs i =
     (case i of
        AdaptiveP a \<Rightarrow>
          [(''mu_max'', quantize (ap_mu_max a)), (''gamma'', quantize (ap_gamma a)), (''eps'', quantize (ap_eps a)),
           (''vartheta_0'', quantize (ap_vartheta0 a)), (''T_c'', 0), (''beta_c'', 0), (''Phi'', 0), (''delta_c'', 0),
           (''adapt_band'', adapt_band_of i)]
      | LcP l \<Rightarrow>
          [(''mu_max'', quantize (lp_mu_max l)), (''gamma'', 0), (''eps'', 0), (''vartheta_0'', 0),
           (''T_c'', ms_of (lp_T_c l)), (''beta_c'', quantize (lp_beta_c l)), (''Phi'', quantize (lp_Phi l)),
           (''delta_c'', ms_of (case lp_delta_c l of Some d \<Rightarrow> d | None \<Rightarrow> 0)),
           (''adapt_band'', adapt_band_of i)])"

definition iface_law :: "iface_params \<Rightarrow> int" where
  "iface_law i = (case i of LcP _ \<Rightarrow> LAW_MICROGRID_LC | AdaptiveP _ \<Rightarrow> LAW_MICROGRID_ADAPTIVE)"

definition iface_terminal :: "iface_params \<Rightarrow> bool" where
  "iface_terminal i = (case i of LcP l \<Rightarrow> lp_terminal l | AdaptiveP _ \<Rightarrow> False)"

definition microgrid_frames :: "grid_block \<Rightarrow> (int \<times> bytes) list result" where
  "microgrid_frames m =
     (let pl = gb_plant m; v = gb_virtual m; i = gb_interface m in
      bindR (encode_microgrid_plant (if pl_profile pl = ''rep'' then 0 else 1)
        [(''kappa'', quantize (pl_kappa pl)), (''S1'', quantize (pl_S1 pl)), (''S2'', quantize (pl_S2 pl)),
         (''p_max'', quantize (pl_p_max pl)), (''q_max'', quantize (pl_q_max pl)),
         (''X0_P'', quantize (gb_state0_P m)), (''X0_Q'', quantize (gb_state0_Q m))]) (\<lambda>f1.
      bindR (encode_microgrid_virtual
        [(''T_o'', ms_of (vp_T_o v)), (''alpha_0'', quantize (vp_alpha_0 v)), (''delta_o'', ms_of (vp_delta_o v)),
         (''kappa_o'', quantize (vp_kappa_o v)), (''xi'', quantize (vp_xi v)), (''c_0'', quantize (vp_c_0 v)),
         (''b'', quantize (vp_b v)), (''rP'', quantize (vp_rP v)), (''rQ'', quantize (vp_rQ v)),
         (''degree'', gb_degree m), (''z0_P'', quantize (gb_vstate0_P m)), (''z0_Q'', quantize (gb_vstate0_Q m))]) (\<lambda>f2.
      bindR (encode_microgrid_iface (iface_law i) (iface_terminal i) (iface_kwargs i)) (\<lambda>f3.
        Inr [(T_MG_PLANT, f1), (T_MG_VIRTUAL, f2), (T_MG_IFACE, f3)]))))"

definition assignment_algorithm :: "assignment \<Rightarrow> algorithm_params" where
  "assignment_algorithm a =
     \<lparr>al_dt_ms = ms_of (as_dt a), al_clock_ms = ms_of (as_publish_period a), al_state0 = quantize (as_state a),
      al_vstate0 = quantize (as_vstate a), al_vartheta0 = quantize (as_vartheta a), al_counter0 = 0,
      al_gain_ij = quantize (as_gain_ij a), al_delta = quantize (as_delta a), al_eta = quantize (as_eta a),
      al_alpha = quantize (as_alpha a)\<rparr>"

definition control_frame :: "assignment \<Rightarrow> bool \<Rightarrow> int \<Rightarrow> (int \<times> bytes) result" where
  "control_frame a trigger epoch_us =
     bindR (encode_control trigger (as_seed a AND 0xFFFFFFFF) epoch_us) (\<lambda>p. Inr (T_CONTROL, p))"

definition assignment_to_frames :: "assignment \<Rightarrow> bool option \<Rightarrow> int \<Rightarrow> (int \<times> bytes) list result" where
  "assignment_to_frames a trigger epoch_us =
     (let d = disturbance_of (as_disturbance a) in
      bindR (encode_network (as_enabled a) (as_node a) (as_neighbors a)) (\<lambda>n.
      bindR (encode_algorithm (assignment_algorithm a)) (\<lambda>al.
      bindR (encode_disturbance (dp_enabled d) (quantize (dp_sine_amplitude d)) (quantize (dp_sine_frequency_hz d))
               (quantize (dp_sine_phase_s d)) (quantize (dp_noise_amplitude d)) (quantize (dp_noise_offset d))
               (quantize (dp_beta d)) (dp_period_samples d)) (\<lambda>di.
      bindR (case as_microgrid a of Some m \<Rightarrow> microgrid_frames m | None \<Rightarrow> Inr []) (\<lambda>mg.
      bindR (case trigger of Some t \<Rightarrow> bindR (control_frame a t epoch_us) (\<lambda>c. Inr [c]) | None \<Rightarrow> Inr []) (\<lambda>co.
        Inr ([(T_NETWORK, n), (T_ALGORITHM, al), (T_DISTURBANCE, di)] @ mg @ co)))))))"

definition radio_units :: "real \<Rightarrow> int result" where
  "radio_units ms =
     (let u = py_round (ms * 1000 / 625) in if \<not> (4 \<le> u \<and> u \<le> 0x4000) then Inl RelayError else Inr u)"

definition radio_frame :: "real \<Rightarrow> real option \<Rightarrow> real \<Rightarrow> real \<Rightarrow> bool \<Rightarrow> bool \<Rightarrow> (int \<times> bytes) result" where
  "radio_frame adv adv_max scan_interval scan_window advertising active =
     (if scan_window > scan_interval then Inl RelayError
      else bindR (radio_units adv) (\<lambda>a.
           bindR (radio_units (case adv_max of Some m \<Rightarrow> m | None \<Rightarrow> adv)) (\<lambda>b.
           bindR (radio_units scan_interval) (\<lambda>i.
           bindR (radio_units scan_window) (\<lambda>w.
           bindR (encode_radio a b i w active advertising) (\<lambda>p. Inr (T_RADIO, p)))))))"

subsection \<open>The relay\<close>

record relay_counters =
  rc_reports :: int
  rc_malformed :: int
  rc_rejected :: int
  rc_frames_sent :: int
  rc_untimed :: int
  rc_stats_unavailable :: int

record relay =
  rl_counters :: relay_counters
  rl_assignment :: "assignment option"
  rl_last :: "state_report option"
  rl_last_rx :: "int option"
  rl_board_stats :: "peer_stats option"
  rl_t0 :: "real option"
  rl_reported :: "(state_report \<times> int option) list"

definition relay_new :: relay where
  "relay_new = \<lparr>rl_counters = \<lparr>rc_reports = 0, rc_malformed = 0, rc_rejected = 0, rc_frames_sent = 0,
       rc_untimed = 0, rc_stats_unavailable = 0\<rparr>,
     rl_assignment = None, rl_last = None, rl_last_rx = None, rl_board_stats = None, rl_t0 = None,
     rl_reported = []\<rparr>"

type_synonym 'l request_fn = "'l \<Rightarrow> int \<Rightarrow> bytes \<Rightarrow> 'l \<times> frame result"

definition relay_send :: "'l request_fn \<Rightarrow> relay \<times> 'l \<Rightarrow> int \<times> bytes \<Rightarrow> (relay \<times> 'l) \<times> exn option" where
  "relay_send request st fr =
     (let (r, l) = st; c = rl_counters r in
      case request l (fst fr) (snd fr) of
        (l', Inl _) \<Rightarrow> ((r\<lparr>rl_counters := c\<lparr>rc_rejected := rc_rejected c + 1\<rparr>\<rparr>, l'), Some RelayError)
      | (l', Inr _) \<Rightarrow> ((r\<lparr>rl_counters := c\<lparr>rc_frames_sent := rc_frames_sent c + 1\<rparr>\<rparr>, l'), None))"

fun relay_send_all :: "'l request_fn \<Rightarrow> relay \<times> 'l \<Rightarrow> (int \<times> bytes) list \<Rightarrow> (relay \<times> 'l) \<times> exn option" where
  "relay_send_all request st [] = (st, None)"
| "relay_send_all request st (fr # frs) =
     (case relay_send request st fr of
        (st', Some e) \<Rightarrow> (st', Some e)
      | (st', None) \<Rightarrow> relay_send_all request st' frs)"

definition relay_read_stats :: "'l request_fn \<Rightarrow> relay \<times> 'l \<Rightarrow> (relay \<times> 'l) \<times> peer_stats option" where
  "relay_read_stats request st =
     (let (r, l) = st; c = rl_counters r; (l', a) = request l T_STATS_REQ [] in
      case bindR a (\<lambda>f. decode_stats (fr_payload f)) of
        Inl _ \<Rightarrow> ((r\<lparr>rl_counters := c\<lparr>rc_stats_unavailable := rc_stats_unavailable c + 1\<rparr>\<rparr>, l'), None)
      | Inr s \<Rightarrow> ((r, l'), Some s))"

definition relay_configure ::
  "'l request_fn \<Rightarrow> relay \<times> 'l \<Rightarrow> assignment \<Rightarrow> (int \<times> bytes) option \<Rightarrow> (relay \<times> 'l) \<times> exn option" where
  "relay_configure request st a radio =
     (case assignment_to_frames a None 0 of
        Inl e \<Rightarrow> (st, Some e)
      | Inr frs \<Rightarrow>
          (case relay_send_all request st (frs @ (case radio of Some f \<Rightarrow> [f] | None \<Rightarrow> [])) of
             (st', Some e) \<Rightarrow> (st', Some e)
           | (st', None) \<Rightarrow>
               (let (r, l) = st';
                    ((r', l'), s) = relay_read_stats request (r\<lparr>rl_assignment := Some a\<rparr>, l)
                in ((r'\<lparr>rl_board_stats := s\<rparr>, l'), None))))"

text \<open>\<open>now\<close> is the monotonic clock, \<open>clock\<close> the experiment clock if there is one.\<close>

definition relay_start :: "'l request_fn \<Rightarrow> relay \<times> 'l \<Rightarrow> real \<Rightarrow> int option \<Rightarrow> (relay \<times> 'l) \<times> exn option" where
  "relay_start request st now clock =
     (let (r, l) = st in
      case rl_assignment r of
        None \<Rightarrow> (st, Some RelayError)
      | Some a \<Rightarrow>
          (let r' = r\<lparr>rl_t0 := Some now\<rparr>;
               epoch_us = (case clock of Some c \<Rightarrow> max 0 c | None \<Rightarrow> 0)
           in case control_frame a True epoch_us of
                Inl e \<Rightarrow> ((r', l), Some e)
              | Inr fr \<Rightarrow> relay_send request (r', l) fr))"

definition relay_stop :: "'l request_fn \<Rightarrow> relay \<times> 'l \<Rightarrow> (relay \<times> 'l) \<times> exn option" where
  "relay_stop request st =
     (case encode_control False 0 0 of
        Inl e \<Rightarrow> (st, Some e) | Inr p \<Rightarrow> relay_send request st (T_CONTROL, p))"

definition relay_handle :: "relay \<Rightarrow> timed_frame \<Rightarrow> relay \<times> state_report option" where
  "relay_handle r inbound =
     (let f = tf_frame inbound; c = rl_counters r in
      if fr_type f \<noteq> T_STATE then (r, None)
      else case decode_state (fr_payload f) of
        Inl _ \<Rightarrow> (r\<lparr>rl_counters := c\<lparr>rc_malformed := rc_malformed c + 1\<rparr>\<rparr>, None)
      | Inr report \<Rightarrow>
          (let c' = c\<lparr>rc_reports := rc_reports c + 1\<rparr>;
               c'' = (if tf_rx inbound = None then c'\<lparr>rc_untimed := rc_untimed c' + 1\<rparr> else c')
           in (r\<lparr>rl_counters := c'', rl_last := Some report, rl_last_rx := tf_rx inbound,
                 rl_reported := rl_reported r @ [(report, tf_rx inbound)]\<rparr>, Some report)))"

subsection \<open>Configuring and starting a board\<close>

text \<open>A link that writes down every frame it is asked to send.\<close>

definition recording :: "'l request_fn \<Rightarrow> ('l \<times> (int \<times> bytes) list) request_fn" where
  "recording request lt t p = (let (l', a) = request (fst lt) t p in ((l', snd lt @ [(t, p)]), a))"

lemma recording_eq:
  "recording request (l, tr) t p = ((fst (request l t p), tr @ [(t, p)]), snd (request l t p))"
  by (simp add: recording_def Let_def split_beta)

text \<open>How many of the frames the link accepts in a row before its first refusal, asked one after the other,
  and the link after all of them.\<close>

primrec accepted :: "'l request_fn \<Rightarrow> 'l \<Rightarrow> (int \<times> bytes) list \<Rightarrow> nat" where
  "accepted request l [] = 0"
| "accepted request l (fr # frs) =
     (case request l (fst fr) (snd fr) of (l', Inl _) \<Rightarrow> 0 | (l', Inr _) \<Rightarrow> Suc (accepted request l' frs))"

primrec link_after :: "'l request_fn \<Rightarrow> 'l \<Rightarrow> (int \<times> bytes) list \<Rightarrow> 'l" where
  "link_after request l [] = l"
| "link_after request l (fr # frs) = link_after request (fst (request l (fst fr) (snd fr))) frs"

lemma accepted_le: "accepted request l frs \<le> length frs"
  by (induction frs arbitrary: l) (auto split: prod.split sum.split)

lemma send_recording:
  "\<exists>r' l'. relay_send (recording request) (r, (l, tr)) fr =
     ((r', (l', tr @ [fr])), if snd (request l (fst fr) (snd fr)) \<in> range Inl then Some RelayError else None) \<and>
     rl_assignment r' = rl_assignment r \<and> rl_t0 r' = rl_t0 r"
  by (cases "snd (request l (fst fr) (snd fr))") (auto simp: relay_send_def recording_eq Let_def)

text \<open>The counters after \<open>n\<close> accepted frames and \<open>k\<close> refusals.\<close>

definition counted :: "relay \<Rightarrow> nat \<Rightarrow> nat \<Rightarrow> relay" where
  "counted r n k = r\<lparr>rl_counters := (rl_counters r)\<lparr>rc_frames_sent := rc_frames_sent (rl_counters r) + int n,
                                                rc_rejected := rc_rejected (rl_counters r) + int k\<rparr>\<rparr>"

lemma counted_simps [simp]:
  "rl_assignment (counted r n k) = rl_assignment r" "rl_t0 (counted r n k) = rl_t0 r"
  "rl_board_stats (counted r n k) = rl_board_stats r" "counted r 0 0 = r" "counted (counted r n k) n' k' = counted r (n + n') (k + k')"
  by (simp_all add: counted_def)

lemma send_all_recording:
  "\<exists>l'. relay_send_all (recording request) (r, (l, tr)) frs =
     (if accepted request l frs = length frs then ((counted r (length frs) 0, (link_after request l frs, tr @ frs)), None)
      else ((counted r (accepted request l frs) 1, (l', tr @ take (Suc (accepted request l frs)) frs)), Some RelayError))"
proof (induction frs arbitrary: r l tr)
  case Nil
  show ?case by simp
next
  case (Cons fr frs)
  obtain l1 a where q: "request l (fst fr) (snd fr) = (l1, a)" by fastforce
  show ?case
  proof (cases a)
    case (Inl e)
    then show ?thesis by (simp add: relay_send_def recording_eq q counted_def Let_def)
  next
    case (Inr f)
    have "relay_send (recording request) (r, (l, tr)) fr = ((counted r 1 0, (l1, tr @ [fr])), None)"
      by (simp add: relay_send_def recording_eq q Inr counted_def Let_def)
    then show ?thesis
      using Cons.IH [of "counted r 1 0" l1 "tr @ [fr]"]
      by (cases "accepted request l1 frs = length frs") (simp_all add: q Inr)
  qed
qed

lemma frames_types:
  "assignment_to_frames a None e = Inr frs \<Longrightarrow>
   map fst frs = [T_NETWORK, T_ALGORITHM, T_DISTURBANCE] @
     (case as_microgrid a of None \<Rightarrow> [] | Some _ \<Rightarrow> [T_MG_PLANT, T_MG_VIRTUAL, T_MG_IFACE])"
  by (auto simp: assignment_to_frames_def microgrid_frames_def Let_def result_simps split: option.splits)

definition control_free :: "(int \<times> bytes) list \<Rightarrow> bool" where
  "control_free frs \<longleftrightarrow> list_all (\<lambda>fr. fst fr \<noteq> T_CONTROL) frs"

lemma frames_control_free: "assignment_to_frames a None e = Inr frs \<Longrightarrow> control_free frs"
  using frames_types [of a e frs]
  by (cases "as_microgrid a") (auto simp: control_free_def frame_type_defs map_eq_Cons_conv)

lemma control_free_take: "control_free frs \<Longrightarrow> control_free (take n frs)"
  by (auto simp: control_free_def list_all_iff dest: in_set_takeD)

text \<open>C20: Configuring a board over any link, with or without a radio frame: \<^verbatim>\<open>configure\<close> sends network,
  algorithm and disturbance, then the microgrid blocks with the law selector last, then the radio
  frame if there is one, up to and including the first frame the link refuses; it never sends the trigger. It
  returns exactly when every frame was accepted, and then it has taken the assignment and asked the board
  for its statistics; after a refusal it raises RelayError and keeps the previous assignment and statistics.
  The counters are one per frame accepted, and one for the refusal. (The assignment's frames are those that
  encode; a radio frame is not a CONTROL frame.)\<close>

theorem relay_configure_trace:
  assumes "assignment_to_frames a None 0 = Inr frs" and "\<And>f. radio = Some f \<Longrightarrow> fst f \<noteq> T_CONTROL"
    and "frames = frs @ (case radio of Some f \<Rightarrow> [f] | None \<Rightarrow> [])"
  shows "\<exists>r' l' trace e. relay_configure (recording request) (r, (l, [])) a radio = ((r', (l', trace)), e) \<and>
     map fst frs = [T_NETWORK, T_ALGORITHM, T_DISTURBANCE] @
       (case as_microgrid a of None \<Rightarrow> [] | Some _ \<Rightarrow> [T_MG_PLANT, T_MG_VIRTUAL, T_MG_IFACE]) \<and>
     control_free trace \<and> rl_t0 r' = rl_t0 r \<and>
     rc_frames_sent (rl_counters r') = rc_frames_sent (rl_counters r) + int (accepted request l frames) \<and>
     (if accepted request l frames = length frames
      then e = None \<and> trace = frames @ [(T_STATS_REQ, [])] \<and> rl_assignment r' = Some a \<and>
           rc_rejected (rl_counters r') = rc_rejected (rl_counters r) \<and>
           rl_board_stats r' = (case snd (request (link_after request l frames) T_STATS_REQ []) of
             Inl _ \<Rightarrow> None | Inr f \<Rightarrow> (case decode_stats (fr_payload f) of Inl _ \<Rightarrow> None | Inr s \<Rightarrow> Some s))
      else e = Some RelayError \<and> trace = take (Suc (accepted request l frames)) frames \<and>
           rc_rejected (rl_counters r') = rc_rejected (rl_counters r) + 1 \<and>
           rl_assignment r' = rl_assignment r \<and> rl_board_stats r' = rl_board_stats r)"
proof -
  let ?k = "accepted request l frames"
  have cf: "control_free frames"
    using frames_control_free [OF assms(1)] assms(2) by (auto simp: control_free_def assms(3) split: option.split)
  obtain l1 where s: "relay_send_all (recording request) (r, (l, [])) frames =
     (if ?k = length frames then ((counted r (length frames) 0, (link_after request l frames, frames)), None)
      else ((counted r ?k 1, (l1, take (Suc ?k) frames)), Some RelayError))"
    using send_all_recording [of request r l "[]" frames, unfolded append_Nil] by (elim exE) (rule that)
  show ?thesis
  proof (cases "?k = length frames")
    case True
    let ?l = "link_after request l frames"
    define st where "st = bindR (snd (request ?l T_STATS_REQ [])) (\<lambda>f. decode_stats (fr_payload f))"
    have "relay_configure (recording request) (r, (l, [])) a radio =
        (let ((r', l'), x) = relay_read_stats (recording request) ((counted r (length frames) 0)\<lparr>rl_assignment := Some a\<rparr>, (?l, frames))
         in ((r'\<lparr>rl_board_stats := x\<rparr>, l'), None))"
      using s True by (simp add: relay_configure_def assms(1,3) Let_def)
    also have "\<dots> = (case st of
        Inl _ \<Rightarrow> ((((counted r (length frames) 0)\<lparr>rl_assignment := Some a\<rparr>)\<lparr>rl_counters :=
                   (rl_counters (counted r (length frames) 0))\<lparr>rc_stats_unavailable := rc_stats_unavailable (rl_counters r) + 1\<rparr>,
                   rl_board_stats := None\<rparr>, (fst (request ?l T_STATS_REQ []), frames @ [(T_STATS_REQ, [])])), None)
      | Inr x \<Rightarrow> ((((counted r (length frames) 0)\<lparr>rl_assignment := Some a\<rparr>)\<lparr>rl_board_stats := Some x\<rparr>,
                   (fst (request ?l T_STATS_REQ []), frames @ [(T_STATS_REQ, [])])), None))"
      by (simp add: relay_read_stats_def recording_eq Let_def st_def counted_def split: sum.split)
    finally have run: "relay_configure (recording request) (r, (l, [])) a radio = \<dots>" .
    have "(case snd (request ?l T_STATS_REQ []) of Inl _ \<Rightarrow> None
        | Inr f \<Rightarrow> (case decode_stats (fr_payload f) of Inl _ \<Rightarrow> None | Inr s \<Rightarrow> Some s)) = (case st of Inl _ \<Rightarrow> None | Inr s \<Rightarrow> Some s)"
      by (auto simp: st_def split: sum.split)
    then show ?thesis
      using run cf frames_types [OF assms(1)] True
      by (cases st) (simp_all add: control_free_def frame_type_defs counted_def)
  next
    case False
    then have "relay_configure (recording request) (r, (l, [])) a radio = ((counted r ?k 1, (l1, take (Suc ?k) frames)), Some RelayError)"
      using s by (simp add: relay_configure_def assms(1,3))
    then show ?thesis
      using False control_free_take [OF cf] frames_types [OF assms(1)] by (simp add: counted_def)
  qed
qed

lemma start_unconfigured: "rl_assignment r = None \<Longrightarrow> relay_start request (r, l) now clock = ((r, l), Some RelayError)"
  by (simp add: relay_start_def)

text \<open>Starting a board: without an assignment \<^verbatim>\<open>start\<close> sends nothing and raises; with one it
  sends exactly one frame, the trigger, with the low 32 bits of the assignment's seed and the
  host's clock reading (zero when it has no clock or a negative reading).\<close>

theorem relay_start_trigger:
  "(rl_assignment r = None \<longrightarrow> relay_start (recording request) (r, (l, [])) now clock = ((r, (l, [])), Some RelayError)) \<and>
   (rl_assignment r = Some a \<longrightarrow> (case clock of None \<Rightarrow> True | Some c \<Rightarrow> c < 2 ^ 48) \<longrightarrow>
      (\<exists>r' l' e p. relay_start (recording request) (r, (l, [])) now clock = ((r', (l', [(T_CONTROL, p)])), e) \<and>
         encode_control True (as_seed a mod 2 ^ 32) (case clock of None \<Rightarrow> 0 | Some c \<Rightarrow> max 0 c) = Inr p \<and>
         (e = None \<or> e = Some RelayError) \<and> rl_t0 r' = Some now))"
proof (intro conjI impI)
  assume "rl_assignment r = None"
  then show "relay_start (recording request) (r, (l, [])) now clock = ((r, (l, [])), Some RelayError)"
    by (rule start_unconfigured)
next
  assume a: "rl_assignment r = Some a" and c: "case clock of None \<Rightarrow> True | Some c \<Rightarrow> c < 2 ^ 48"
  define ep where "ep = (case clock of None \<Rightarrow> 0 | Some c \<Rightarrow> max 0 c)"
  have ep: "0 \<le> ep \<and> ep \<le> 2 ^ 48 - 1" using c by (auto simp: ep_def split: option.splits)
  have m: "as_seed a AND 0xFFFFFFFF = as_seed a mod 2 ^ 32"
    using take_bit_eq_mask [of 32 "as_seed a"] by (simp add: take_bit_eq_mod mask_eq_exp_minus_1)
  have "\<exists>p. encode_control True (as_seed a mod 2 ^ 32) ep = Inr p"
  proof -
    have "fits FI (as_seed a mod 2 ^ 32)" by simp
    then show ?thesis using ep by (simp add: encode_control_def bytes_of_ints_def to_bytes_le_def struct_pack_ok)
  qed
  then obtain p where p: "encode_control True (as_seed a mod 2 ^ 32) ep = Inr p" by blast
  have st: "relay_start (recording request) (r, (l, [])) now clock =
      relay_send (recording request) (r\<lparr>rl_t0 := Some now\<rparr>, (l, [])) (T_CONTROL, p)"
    using a p by (simp add: relay_start_def control_frame_def Let_def m flip: ep_def)
  obtain r' l' where "relay_send (recording request) (r\<lparr>rl_t0 := Some now\<rparr>, (l, [])) (T_CONTROL, p) =
     ((r', (l', [] @ [(T_CONTROL, p)])), if snd (request l T_CONTROL p) \<in> range Inl then Some RelayError else None)"
     "rl_t0 r' = Some now"
    using send_recording [of request "r\<lparr>rl_t0 := Some now\<rparr>" l "[]" "(T_CONTROL, p)"] by auto
  then show "\<exists>r' l' e p. relay_start (recording request) (r, (l, [])) now clock = ((r', (l', [(T_CONTROL, p)])), e) \<and>
         encode_control True (as_seed a mod 2 ^ 32) (case clock of None \<Rightarrow> 0 | Some c \<Rightarrow> max 0 c) = Inr p \<and>
         (e = None \<or> e = Some RelayError) \<and> rl_t0 r' = Some now"
    using st p by (auto simp flip: ep_def)
qed

subsection \<open>Reports\<close>

definition relay_handle_all :: "relay \<Rightarrow> timed_frame list \<Rightarrow> relay" where
  "relay_handle_all r fs = foldl (\<lambda>r f. fst (relay_handle r f)) r fs"

definition decoded_states :: "frame list \<Rightarrow> state_report list" where
  "decoded_states fs = concat (map (\<lambda>f. case decode_state (fr_payload f) of Inl _ \<Rightarrow> [] | Inr r \<Rightarrow> [r]) (states_in fs))"

lemma decoded_states_append [simp]: "decoded_states (xs @ ys) = decoded_states xs @ decoded_states ys"
  by (simp add: decoded_states_def states_in_def)

lemma handle_all_reports:
  "map fst (rl_reported (relay_handle_all r fs)) = map fst (rl_reported r) @ decoded_states (map tf_frame fs) \<and>
   rc_reports (rl_counters (relay_handle_all r fs)) + rc_malformed (rl_counters (relay_handle_all r fs)) =
     rc_reports (rl_counters r) + rc_malformed (rl_counters r) + int (length (states_in (map tf_frame fs)))"
proof (induction fs arbitrary: r)
  case Nil
  then show ?case by (simp add: relay_handle_all_def decoded_states_def states_in_def)
next
  case (Cons f fs)
  have one: "map fst (rl_reported (fst (relay_handle r f))) = map fst (rl_reported r) @ decoded_states [tf_frame f] \<and>
      rc_reports (rl_counters (fst (relay_handle r f))) + rc_malformed (rl_counters (fst (relay_handle r f))) =
      rc_reports (rl_counters r) + rc_malformed (rl_counters r) + int (length (states_in [tf_frame f]))"
    by (cases "decode_state (fr_payload (tf_frame f))")
       (auto simp: relay_handle_def decoded_states_def states_in_def Let_def)
  have parts: "decoded_states (map tf_frame (f # fs)) = decoded_states [tf_frame f] @ decoded_states (map tf_frame fs)"
    "states_in (map tf_frame (f # fs)) = states_in [tf_frame f] @ states_in (map tf_frame fs)"
    by (simp_all add: decoded_states_def states_in_def)
  have "relay_handle_all r (f # fs) = relay_handle_all (fst (relay_handle r f)) fs" by (simp add: relay_handle_all_def)
  then show ?case using Cons.IH [of "fst (relay_handle r f)"] one by (simp add: parts del: list.map)
qed

lemma states_in_idem [simp]: "states_in (states_in fs) = states_in fs"
  by (simp add: states_in_def)

lemma decoded_states_in [simp]: "decoded_states (states_in fs) = decoded_states fs"
  by (simp add: decoded_states_def)

text \<open>C4: From the board's report to the log: if the board encodes well-formed reports into STATE
  frames and sends them with any other frames in between, and with noise in which the start byte 0x7E does not
  occur, then however the serial layer cuts the stream into reads, the relay hands on exactly those reports,
  each once, in order, and counts no malformed one.\<close>

theorem board_reports_logged:
  assumes "sl_parser l = new_parser" and "sl_has_callback l" and "sl_loop l \<noteq> LoopClosed" and "sl_delivered l = []"
    and "list_all (\<lambda>(noise, f). byte_of SOF \<notin> set noise \<and> frame_ok f) items"
    and "list_all (\<lambda>(_, data). data \<noteq> []) reads"
    and "concat (map snd reads) = stream_of wire_frame items"
    and "list_all2 (\<lambda>f r. report_ok r \<and> encode_state r = Inr (fr_payload f)) (states_in (map snd items)) reports"
  shows "let r = relay_handle_all relay_new (sl_delivered (pump_all c l reads))
         in map fst (rl_reported r) = reports \<and> rc_reports (rl_counters r) + rc_malformed (rl_counters r) = int (length reports)"
proof -
  have d: "map tf_frame (sl_delivered (pump_all c l reads)) = states_in (map snd items)"
    using delivered_states [OF assms(1,2,3,5,6,7), of c] assms(4) by simp
  have "concat (map (\<lambda>f. case decode_state (fr_payload f) of Inl _ \<Rightarrow> [] | Inr r \<Rightarrow> [r]) fs) = rs"
    if "list_all2 (\<lambda>f r. report_ok r \<and> encode_state r = Inr (fr_payload f)) fs rs" for fs rs
    using that
  proof (induction rule: list_all2_induct)
    case Nil
    then show ?case by simp
  next
    case (Cons f fs r rs)
    then have "decode_state (fr_payload f) = Inr r" using state_report_back [of r] by simp
    then show ?case using Cons by simp
  qed
  then have "decoded_states (states_in (map snd items)) = reports"
    using assms(8) by (simp add: decoded_states_def del: decoded_states_in)
  then show ?thesis
    using handle_all_reports [of relay_new "sl_delivered (pump_all c l reads)"] d list_all2_lengthD [OF assms(8)]
    by (simp add: relay_new_def)
qed

subsection \<open>A concrete board\<close>

lemma py_round_numeral [simp]: "py_round (numeral n) = numeral n"
  using py_round_of_int [of "numeral n"] by simp

lemma quantize_zero [simp]: "quantize 0 = 0"
  using quantize_dequantize [of 0] by (simp add: dequantize_def)

definition demo_assignment :: assignment where
  "demo_assignment = \<lparr>as_node = 1, as_type = BLE, as_enabled = True, as_neighbors = [2, 3], as_dt = 1 / 40,
     as_publish_period = 1 / 20, as_max_age = None, as_controller = ''finite_time_adaptive'',
     as_state = dequantize 1500000, as_vstate = dequantize 2500000, as_vartheta = 0, as_eta = dequantize 50,
     as_gain_ij = dequantize 100000, as_alpha = dequantize 500000, as_delta = dequantize 10000,
     as_disturbance = [(''noise_offset'', DFloat (dequantize 500000))], as_seed = 77, as_microgrid = None\<rparr>"

lemma demo_frames: "\<exists>frs. assignment_to_frames demo_assignment None 0 = Inr frs"
  by (simp add: demo_assignment_def assignment_to_frames_def encode_network_def bytes_of_ints_def MAX_NEIGHBORS_def
      encode_algorithm_def assignment_algorithm_def ms_of_def ALGORITHM_FMT_def disturbance_of_def dget_def
      encode_disturbance_def numeral_eq_Suc)

definition accepting :: "unit request_fn" where
  "accepting l t p = (l, Inr \<lparr>fr_type = T_ACK, fr_payload = [byte_of t, 0]\<rparr>)"

text \<open>A board that takes the network block and refuses everything after it.\<close>

definition refusing :: "unit request_fn" where
  "refusing l t p = (l, if t = T_NETWORK then Inr \<lparr>fr_type = T_ACK, fr_payload = [byte_of t, 0]\<rparr> else Inl RelayError)"

theorem relay_configure_trace_witness:
  "\<exists>frs r' l' r'' l'' s. assignment_to_frames demo_assignment None 0 = Inr frs \<and>
     relay_configure (recording accepting) (relay_new, ((), [])) demo_assignment None =
       ((r', (l', frs @ [(T_STATS_REQ, [])])), None) \<and> rl_assignment r' = Some demo_assignment \<and>
     rc_frames_sent (rl_counters r') = 3 \<and>
     relay_configure (recording refusing) (relay_new, ((), [])) demo_assignment (Some (T_RADIO, [])) =
       ((r'', (l'', take 2 frs)), s) \<and> s = Some RelayError \<and> rl_assignment r'' = None \<and> rc_frames_sent (rl_counters r'') = 1"
proof -
  obtain frs where frs: "assignment_to_frames demo_assignment None 0 = Inr frs" using demo_frames by blast
  have t: "map fst frs = [T_NETWORK, T_ALGORITHM, T_DISTURBANCE]"
    using frames_types [OF frs] by (simp add: demo_assignment_def)
  then obtain x y z where xyz: "frs = [x, y, z]" "fst x = T_NETWORK" "fst y = T_ALGORITHM" "fst z = T_DISTURBANCE"
    by (auto simp: map_eq_Cons_conv)
  have len: "length frs = 3" by (simp add: xyz(1))
  have a: "accepted accepting () frs = 3" by (simp add: xyz(1) accepting_def numeral_eq_Suc)
  have b: "accepted refusing () (frs @ [(T_RADIO, [])]) = 1"
    by (simp add: xyz refusing_def frame_type_defs numeral_eq_Suc)
  have "\<exists>r' l'. relay_configure (recording accepting) (relay_new, ((), [])) demo_assignment None =
       ((r', (l', frs @ [(T_STATS_REQ, [])])), None) \<and> rl_assignment r' = Some demo_assignment \<and> rc_frames_sent (rl_counters r') = 3"
    using relay_configure_trace [OF frs _ refl, of None accepting relay_new "()"] a len by (auto simp: relay_new_def)
  moreover have "\<exists>r' l'. relay_configure (recording refusing) (relay_new, ((), [])) demo_assignment (Some (T_RADIO, [])) =
       ((r', (l', take 2 frs)), Some RelayError) \<and> rl_assignment r' = None \<and> rc_frames_sent (rl_counters r') = 1"
    using relay_configure_trace [OF frs _ refl, of "Some (T_RADIO, [])" refusing relay_new "()"] b len
    by (auto simp: len relay_new_def frame_type_defs)
  ultimately show ?thesis using frs by blast
qed

theorem relay_start_trigger_witness:
  "\<exists>r' l' e p. relay_start (recording accepting) (relay_new\<lparr>rl_assignment := Some demo_assignment\<rparr>, ((), [])) 0 (Some 5)
     = ((r', (l', [(T_CONTROL, p)])), e) \<and> encode_control True 77 5 = Inr p"
proof -
  have a: "rl_assignment (relay_new\<lparr>rl_assignment := Some demo_assignment\<rparr>) = Some demo_assignment" by simp
  have s: "as_seed demo_assignment mod 2 ^ 32 = 77" by (simp add: demo_assignment_def)
  show ?thesis
    using relay_start_trigger [of "relay_new\<lparr>rl_assignment := Some demo_assignment\<rparr>" accepting "()" 0 "Some 5" demo_assignment] a s
    by auto
qed

definition demo_report :: state_report where
  "demo_report = \<lparr>sr_t_us = 1000, sr_state = - 5, sr_vstate = 6, sr_vartheta = 7, sr_counter = 1, sr_nvstates = [],
     sr_nenabled = [], sr_nfresh = [], sr_nseq = [], sr_nrssi = [], sr_state_Q = None, sr_vstate_Q = None,
     sr_S1_hat = None, sr_S2_hat = None\<rparr>"

lemma demo_report_encodes: "report_ok demo_report" "\<exists>b. encode_state demo_report = Inr b \<and> length b = 25"
proof -
  show "report_ok demo_report"
    by (simp add: report_ok_def demo_report_def MAX_NEIGHBORS_def neighbour_ok_def tail_ok_def)
  show "\<exists>b. encode_state demo_report = Inr b \<and> length b = 25"
    by (simp add: encode_state_def demo_report_def encode_tail_def STATE_HEADER_def)
qed

theorem board_reports_logged_witness:
  "\<exists>b. encode_state demo_report = Inr b \<and>
     map fst (rl_reported (relay_handle_all relay_new (sl_delivered (pump_all None ((link_new 1)\<lparr>sl_has_callback := True\<rparr>)
       (map (\<lambda>b. (0, [b])) (wire_frame \<lparr>fr_type = T_STATE, fr_payload = b\<rparr>)))))) = [demo_report]"
proof -
  obtain b where b: "encode_state demo_report = Inr b" "length b = 25" using demo_report_encodes(2) by blast
  let ?f = "\<lparr>fr_type = T_STATE, fr_payload = b\<rparr>"
  let ?reads = "map (\<lambda>b. (0 :: real, [b])) (wire_frame ?f)"
  have ok: "list_all (\<lambda>(noise, f). byte_of SOF \<notin> set noise \<and> frame_ok f) [([], ?f)]"
    by (simp add: frame_ok_def known_type_def frame_types_def MAX_PAYLOAD_def b(2))
  have ne: "list_all (\<lambda>(_, data). data \<noteq> []) ?reads" by (simp add: list_all_iff)
  have st: "concat (map snd ?reads) = stream_of wire_frame [([], ?f)]"
    by (simp add: stream_of_def comp_def)
  have rs: "list_all2 (\<lambda>f r. report_ok r \<and> encode_state r = Inr (fr_payload f)) (states_in (map snd [([] :: bytes, ?f)])) [demo_report]"
    using b demo_report_encodes(1) by (simp add: states_in_def)
  from board_reports_logged [OF _ _ _ _ ok ne st rs, of "(link_new 1)\<lparr>sl_has_callback := True\<rparr>" None] b
  show ?thesis by (auto simp: link_new_def Let_def)
qed

end
