(* ===== verification/MultiTransport.thy ===== *)
theory MultiTransport
  imports Transports
begin

section \<open>Several media behind one transport (transports/multi.py)\<close>

text \<open>
  \<open>multi\<close> is the state of \<^verbatim>\<open>MultiTransport\<close>; a member is known by its name, which the
  constructor makes unique, and what the members' own calls answer is an argument
  (\<open>None\<close>, or the exception). The calls made on the members come back as a list of events.
\<close>

record multi_stats =
  ms_published :: int
  ms_partial :: int
  ms_failed :: int
  ms_errors :: "string \<rightharpoonup> int"
  ms_last_error :: "(string \<times> exn) option"

record multi =
  mu_members :: "string list"
  mu_stats :: multi_stats
  mu_started :: "string list"

datatype medium_event = Started string | Stopped string | Sent string

definition multi_new :: "string list \<Rightarrow> multi result" where
  "multi_new names =
     (if length names < 2 then Inl ValueError
      else if \<not> distinct names then Inl ValueError
      else Inr \<lparr>mu_members = names,
                mu_stats = \<lparr>ms_published = 0, ms_partial = 0, ms_failed = 0, ms_errors = Map.empty, ms_last_error = None\<rparr>,
                mu_started = []\<rparr>)"

text \<open>The members in order; a failure stops those started, last first, and empties the list.\<close>

fun multi_start_loop :: "(string \<Rightarrow> exn option) \<Rightarrow> string list \<Rightarrow> string list \<Rightarrow> string list \<times> medium_event list \<times> exn option" where
  "multi_start_loop answer [] started = (started, [], None)"
| "multi_start_loop answer (m # ms) started =
     (case answer m of
        Some e \<Rightarrow> ([], map Stopped (rev started), Some e)
      | None \<Rightarrow> (let (started', ev, r) = multi_start_loop answer ms (started @ [m]) in (started', Started m # ev, r)))"

definition multi_start :: "(string \<Rightarrow> exn option) \<Rightarrow> multi \<Rightarrow> (multi \<times> medium_event list) \<times> exn option" where
  "multi_start answer m =
     (let (started, ev, r) = multi_start_loop answer (mu_members m) (mu_started m)
      in ((m\<lparr>mu_started := started\<rparr>, ev), r))"

definition first_error :: "(string \<Rightarrow> exn option) \<Rightarrow> string list \<Rightarrow> (string \<times> exn) option" where
  "first_error answer ms =
     (case filter (\<lambda>m. answer m \<noteq> None) ms of [] \<Rightarrow> None | m # _ \<Rightarrow> Some (m, the (answer m)))"

definition multi_stop :: "(string \<Rightarrow> exn option) \<Rightarrow> multi \<Rightarrow> multi \<times> medium_event list" where
  "multi_stop answer m =
     (let st = mu_stats m;
          st' = (case first_error answer (rev (mu_started m)) of
                   None \<Rightarrow> st | Some e \<Rightarrow> st\<lparr>ms_last_error := Some e\<rparr>)
      in (m\<lparr>mu_started := [], mu_stats := st'\<rparr>, map Stopped (rev (mu_started m))))"

definition count_error :: "(string \<rightharpoonup> int) \<Rightarrow> string \<Rightarrow> (string \<rightharpoonup> int)" where
  "count_error errs m = errs(m \<mapsto> (case errs m of None \<Rightarrow> 0 | Some n \<Rightarrow> n) + 1)"

text \<open>The walk over the members' answers to one publication, with the failures counted so far.\<close>

fun multi_answers :: "(string \<Rightarrow> exn option) \<Rightarrow> string list \<Rightarrow> multi_stats \<times> nat \<Rightarrow> multi_stats \<times> nat" where
  "multi_answers answer [] st = st"
| "multi_answers answer (m # ms) (s, failures) =
     (case answer m of
        None \<Rightarrow> multi_answers answer ms (s, failures)
      | Some e \<Rightarrow> multi_answers answer ms
          (s\<lparr>ms_errors := count_error (ms_errors s) m, ms_last_error := Some (m, e)\<rparr>, failures + 1))"

definition multi_publish :: "(string \<Rightarrow> exn option) \<Rightarrow> multi \<Rightarrow> (multi \<times> medium_event list) result" where
  "multi_publish answer m =
     (if mu_started m = [] then Inl RuntimeError
      else
        let (s, failures) = multi_answers answer (mu_started m) (mu_stats m, 0);
            s' = (if failures = 0 then s\<lparr>ms_published := ms_published s + 1\<rparr>
                  else if failures < length (mu_started m) then s\<lparr>ms_partial := ms_partial s + 1\<rparr>
                  else s\<lparr>ms_failed := ms_failed s + 1\<rparr>)
        in Inr (m\<lparr>mu_stats := s'\<rparr>, map Sent (mu_started m)))"

subsection \<open>Facts\<close>

lemma start_loop_spec:
  "multi_start_loop answer ms started =
     (if \<forall>m \<in> set ms. answer m = None then (started @ ms, map Started ms, None)
      else let ok = takeWhile (\<lambda>m. answer m = None) ms
           in ([], map Started ok @ map Stopped (rev (started @ ok)), answer (ms ! length ok)))"
  by (induction ms arbitrary: started) (auto simp: Let_def split: option.split)

text \<open>C24: Starting a stopped bridge. Either every medium starts, in order, and all of them are listed as
  started; or the exception of the first medium that fails is raised, no medium after it is tried, every
  medium before it is told to stop, in reverse order, and the list of started media is empty, so that
  the bridge refuses to publish. The medium that failed is not told to stop, whatever it had set up
  before it failed, and an exception of a stop is swallowed: the theorem is about what the media are told.\<close>

theorem multi_start_unwinds:
  assumes "multi_new names = Inr m" and "multi_start answer m = ((m', ev), r)"
  shows "(case r of
            None \<Rightarrow> mu_started m' = names \<and> ev = map Started names
          | Some e \<Rightarrow> mu_started m' = [] \<and> multi_publish reply m' = Inl RuntimeError \<and>
              (\<exists>pre n post. names = pre @ n # post \<and> answer n = Some e \<and> (\<forall>k \<in> set pre. answer k = None) \<and>
                 ev = map Started pre @ map Stopped (rev pre) \<and> Stopped n \<notin> set ev))"
proof -
  have m: "mu_members m = names" "mu_started m = []" "distinct names"
    using assms(1) by (auto simp: multi_new_def split: if_splits)
  show ?thesis
  proof (cases "\<forall>k \<in> set names. answer k = None")
    case True
    then show ?thesis
      using assms(2) by (auto simp: multi_start_def start_loop_spec m)
  next
    case False
    define ok where "ok = takeWhile (\<lambda>k. answer k = None) names"
    have len: "length ok < length names" 
  proof -
    have "ok \<noteq> names" using False unfolding ok_def by (metis set_takeWhileD)
    then show ?thesis using length_takeWhile_le [of "\<lambda>k. answer k = None" names] takeWhile_eq_take [of "\<lambda>k. answer k = None" names]
      unfolding ok_def by (metis le_neq_implies_less take_all_iff order_refl)
  qed
    have n: "answer (names ! length ok) \<noteq> None" using nth_length_takeWhile [of "\<lambda>k. answer k = None" names] len
      by (simp add: ok_def)
    then obtain e where e: "answer (names ! length ok) = Some e" by blast
    have sp: "names = ok @ names ! length ok # drop (Suc (length ok)) names"
      using id_take_nth_drop [OF len] takeWhile_eq_take [of "\<lambda>k. answer k = None" names] by (simp add: ok_def)
    have pre: "\<forall>k \<in> set ok. answer k = None" by (auto simp: ok_def dest: set_takeWhileD)
    have "r = Some e" "mu_started m' = []" "ev = map Started ok @ map Stopped (rev ok)"
      using assms(2) False e by (auto simp: multi_start_def start_loop_spec m Let_def simp flip: ok_def)
    moreover have "names ! length ok \<notin> set ok"
      using m(3) sp by (metis disjoint_iff distinct_append list.set_intros(1))
    ultimately show ?thesis using e sp pre by (auto simp: multi_publish_def)
  qed
qed

theorem multi_start_unwinds_witness:
  "\<exists>m m' ev. multi_new [''udp'', ''ble''] = Inr m \<and>
     multi_start (\<lambda>n. if n = ''ble'' then Some OSError else None) m = ((m', ev), Some OSError) \<and>
     ev = [Started ''udp'', Stopped ''udp'']"
proof -
  obtain m where m: "multi_new [''udp'', ''ble''] = Inr m" by (simp add: multi_new_def)
  obtain m' ev r where s: "multi_start (\<lambda>n. if n = ''ble'' then Some OSError else None) m = ((m', ev), r)"
    by (metis surj_pair)
  have "r = Some OSError" using s m by (auto simp: multi_start_def multi_new_def)
  moreover obtain pre n post where "[''udp'', ''ble''] = pre @ n # post" "(if n = ''ble'' then Some OSError else None) = Some OSError"
      "ev = map Started pre @ map Stopped (rev pre)"
    using multi_start_unwinds [OF m s, of "\<lambda>_. None"] \<open>r = Some OSError\<close> by auto
  then have "ev = [Started ''udp'', Stopped ''udp'']" by (auto simp: Cons_eq_append_conv split: if_splits)
  ultimately show ?thesis using m s by blast
qed

lemma answers_counts:
  "snd (multi_answers answer ms (s, k)) = k + length (filter (\<lambda>m. answer m \<noteq> None) ms) \<and>
   ms_published (fst (multi_answers answer ms (s, k))) = ms_published s \<and>
   ms_partial (fst (multi_answers answer ms (s, k))) = ms_partial s \<and>
   ms_failed (fst (multi_answers answer ms (s, k))) = ms_failed s"
proof (induction ms arbitrary: s k)
  case Nil
  then show ?case by simp
next
  case (Cons m ms)
  then show ?case by (cases "answer m") simp_all
qed

lemma filter_all_length: "length (filter P xs) = length xs \<longleftrightarrow> (\<forall>x \<in> set xs. P x)"
proof (induction xs)
  case Nil
  then show ?case by simp
next
  case (Cons x xs)
  then show ?case using length_filter_le [of P xs] by (auto simp del: length_filter_le)
qed

definition multi_total :: "multi \<Rightarrow> int" where
  "multi_total m = ms_published (mu_stats m) + ms_partial (mu_stats m) + ms_failed (mu_stats m)"

text \<open>One publication on a running bridge goes to every started medium once, never raises, and is
  counted once: as published when every medium took it, as failed when all refused, as partial
  otherwise.\<close>

theorem multi_publish_counts:
  assumes "mu_started m \<noteq> []"
  shows "\<exists>m'. multi_publish answer m = Inr (m', map Sent (mu_started m)) \<and> mu_started m' = mu_started m \<and>
     multi_total m' = multi_total m + 1 \<and>
     (ms_published (mu_stats m') = ms_published (mu_stats m) + 1 \<longleftrightarrow> (\<forall>n \<in> set (mu_started m). answer n = None)) \<and>
     (ms_failed (mu_stats m') = ms_failed (mu_stats m) + 1 \<longleftrightarrow> (\<forall>n \<in> set (mu_started m). answer n \<noteq> None))"
proof -
  obtain s f where a: "multi_answers answer (mu_started m) (mu_stats m, 0) = (s, f)" by fastforce
  note c = answers_counts [of answer "mu_started m" "mu_stats m" 0, unfolded a, simplified]
  have all: "f = 0 \<longleftrightarrow> (\<forall>n \<in> set (mu_started m). answer n = None)" using c by (simp add: filter_empty_conv)
  have none: "f = length (mu_started m) \<longleftrightarrow> (\<forall>n \<in> set (mu_started m). answer n \<noteq> None)"
    using c filter_all_length [of "\<lambda>n. answer n \<noteq> None" "mu_started m"] by simp
  have le: "f \<le> length (mu_started m)" using c by simp
  have pos: "0 < length (mu_started m)" using assms by simp
  show ?thesis
    using assms c all none le pos
    by (cases "f = 0"; cases "f < length (mu_started m)")
       (simp_all add: multi_publish_def a multi_total_def)
qed

theorem multi_publish_counts_witness:
  "\<exists>m'. multi_publish (\<lambda>n. if n = ''ble'' then Some OSError else None)
      \<lparr>mu_members = [''udp'', ''ble''], mu_stats = \<lparr>ms_published = 0, ms_partial = 0, ms_failed = 0,
         ms_errors = Map.empty, ms_last_error = None\<rparr>, mu_started = [''udp'', ''ble'']\<rparr>
      = Inr (m', [Sent ''udp'', Sent ''ble'']) \<and> ms_published (mu_stats m') \<noteq> 1 \<and> multi_total m' = 1"
proof -
  let ?m = "\<lparr>mu_members = [''udp'', ''ble''], mu_stats = \<lparr>ms_published = 0, ms_partial = 0, ms_failed = 0,
         ms_errors = Map.empty, ms_last_error = None\<rparr>, mu_started = [''udp'', ''ble'']\<rparr>"
  have "mu_started ?m \<noteq> []" by simp
  from multi_publish_counts [OF this, of "\<lambda>n. if n = ''ble'' then Some OSError else None"]
  show ?thesis by (auto simp: multi_total_def)
qed

text \<open>Starting a second time is not idempotent: the members' own \<^verbatim>\<open>start\<close> is, but the list of
  started media grows, so every later packet is handed to each medium twice.\<close>

lemma multi_double_start:
  assumes "multi_new names = Inr m"
  shows "let m1 = fst (fst (multi_start (\<lambda>_. None) m)); m2 = fst (fst (multi_start (\<lambda>_. None) m1))
         in \<exists>m3. multi_publish (\<lambda>_. None) m2 = Inr (m3, map Sent names @ map Sent names)"
proof -
  have "mu_members m = names" "mu_started m = []" "names \<noteq> []"
    using assms by (auto simp: multi_new_def split: if_splits)
  then show ?thesis
    by (simp add: multi_start_def start_loop_spec Let_def multi_publish_def split_beta)
qed

end
