(* ===== verification/Validate.thy ===== *)
theory Validate
  imports Manifest
begin

section \<open>Graph preconditions of a run (topology/validate.py)\<close>

text \<open>
  \<open>check\<close> builds the declared graph of a manifest and the graph of its enabled agents, and
  reports errors, which block a run, and warnings; a message is a constructor with the data it
  reports. networkx and numpy's eigenvalues are the parameter \<open>graph_lib\<close>: \<open>gl_ok\<close> states what
  networkx documents of the four functions used, \<open>search_lib\<close> is an implementation that meets it.
  The lemmas show what a report without errors guarantees of the run.
\<close>

record graph =
  g_nodes :: "int list"
  g_edges :: "(int \<times> int) list"

record graph_lib =
  gl_descendants :: "graph \<Rightarrow> int \<Rightarrow> int set"
  gl_weak :: "graph \<Rightarrow> bool"
  gl_strong :: "graph \<Rightarrow> bool"
  gl_weak_components :: "graph \<Rightarrow> int set list"
  gl_lambda2 :: "graph \<Rightarrow> real option"

subsection \<open>The graph and the report\<close>

definition build_graph :: "manifest \<Rightarrow> bool \<Rightarrow> graph" where
  "build_graph mf enabled_only =
     (let kept = filter (\<lambda>n. ns_enabled n \<or> \<not> enabled_only) (em_nodes mf); keep = map ns_id kept in
      \<lparr>g_nodes = remdups keep,
       g_edges = remdups (concat (map (\<lambda>n. map (\<lambda>j. (j, ns_id n)) (filter (\<lambda>j. j \<in> set keep) (ns_neighbors n)))
                   (filter (\<lambda>n. ns_id n \<in> set keep) (em_nodes mf))))\<rparr>)"

datatype graph_error =
    UnknownPins "int list" | NoPin | DisabledPins "int list" | UnreachableFromPin "int list"
  | IsolatedNodes "int list" | Disconnected "int list list" | NotStronglyConnected
  | NoCommonMedium "(int \<times> int) list" | TooManyNeighbours "(int \<times> nat) list"

datatype graph_warning =
    SeveralPins nat | NotStronglyConnectedW | NotBalanced "(int \<times> nat \<times> nat) list" | EtaNotSmall
  | SameHost "(int \<times> int) list" | DisabledStillRead int | FragmentedByDisabling "int list list"
  | HeterogeneousPeriods "real list" | PublishFasterThanControl int | DeliveryCapped int real

record graph_report =
  gr_n_nodes :: nat
  gr_n_edges :: nat
  gr_weak :: bool
  gr_strong :: bool
  gr_balanced :: bool
  gr_symmetric :: bool
  gr_lambda2 :: "real option"
  gr_isolated :: "int list"
  gr_sources :: "int list"
  gr_sinks :: "int list"
  gr_disabled :: "int list"
  gr_eff_strong :: bool
  gr_eff_lambda2 :: "real option"
  gr_eff_components :: "int list list"
  gr_by_type :: "(agent_type \<times> nat) list"
  gr_pinned :: "int list"
  gr_unreachable :: "int list"
  gr_errors :: "graph_error list"
  gr_warnings :: "graph_warning list"

definition report_ok :: "graph_report \<Rightarrow> bool" where
  "report_ok r \<longleftrightarrow> gr_errors r = []"

definition fragmented_by_disabling :: "graph_report \<Rightarrow> bool" where
  "fragmented_by_disabling r \<longleftrightarrow> length (gr_eff_components r) > 1"

definition in_degree :: "graph \<Rightarrow> int \<Rightarrow> nat" where
  "in_degree g n = length (filter (\<lambda>(u, v). v = n) (g_edges g))"

definition out_degree :: "graph \<Rightarrow> int \<Rightarrow> nat" where
  "out_degree g n = length (filter (\<lambda>(u, v). u = n) (g_edges g))"

definition sorted_ids :: "int list \<Rightarrow> int list" where
  "sorted_ids xs = sort (remdups xs)"

definition algebraic_connectivity :: "graph_lib \<Rightarrow> graph \<Rightarrow> real option" where
  "algebraic_connectivity nx g =
     (if length (g_nodes g) < 2 \<or> \<not> gl_strong nx g then None else gl_lambda2 nx g)"

text \<open>\<^verbatim>\<open>_check_reference\<close>: the pins, the agents no pin reaches, errors and warnings.\<close>

definition check_reference ::
  "graph_lib \<Rightarrow> manifest \<Rightarrow> graph \<Rightarrow> int list \<times> int list \<times> graph_error list \<times> graph_warning list" where
  "check_reference nx mf g =
     (case em_coordination mf of
        None \<Rightarrow> ([], [], [], [])
      | Some c \<Rightarrow>
          let pinned = sorted_ids (map fst (crd_pinned c));
              unknown = filter (\<lambda>p. p \<notin> set (em_ids mf)) pinned;
              e1 = (if unknown \<noteq> [] then [UnknownPins unknown] else []);
              pins = filter (\<lambda>p. p \<in> set (em_ids mf)) pinned
          in if pins = [] then (pinned, [], e1 @ [NoPin], [])
             else
               let disabled = filter (\<lambda>p. case em_by_id mf p of Some n \<Rightarrow> \<not> ns_enabled n | None \<Rightarrow> False) pins;
                   e2 = (if disabled \<noteq> [] then [DisabledPins disabled] else []);
                   live = filter (\<lambda>p. p \<notin> set disabled) pins;
                   reach = set live \<union> (\<Union>p \<in> set live. gl_descendants nx g p);
                   unreachable = (if live \<noteq> [] then sorted_ids (filter (\<lambda>n. n \<notin> reach) (g_nodes g)) else []);
                   e3 = (if unreachable \<noteq> [] then [UnreachableFromPin unreachable] else [])
               in (pinned, unreachable, e1 @ e2 @ e3, if length pins > 1 then [SeveralPins (length pins)] else []))"

definition AGENT_MEDIA :: "agent_type \<Rightarrow> string set" where
  "AGENT_MEDIA t = (case t of BLE \<Rightarrow> {''ble''} | WIFI \<Rightarrow> {''udp''} | BRIDGE \<Rightarrow> {''ble'', ''udp''})"

definition N_MAX_NEIGHBORS_FIRMWARE :: nat where
  "N_MAX_NEIGHBORS_FIRMWARE = 4"

definition no_medium_links :: "manifest \<Rightarrow> (int \<times> int) list" where
  "no_medium_links mf =
     concat (map (\<lambda>n. concat (map (\<lambda>j.
       case em_by_id mf j of
         None \<Rightarrow> []
       | Some other \<Rightarrow> if AGENT_MEDIA (ns_type n) \<inter> AGENT_MEDIA (ns_type other) = {} then [(ns_id n, j)] else [])
       (ns_neighbors n))) (em_nodes mf))"

definition same_host_links :: "manifest \<Rightarrow> (int \<times> int) list" where
  "same_host_links mf =
     concat (map (\<lambda>n. concat (map (\<lambda>j.
       case em_by_id mf j of None \<Rightarrow> [] | Some other \<Rightarrow> if ns_ip other = ns_ip n then [(ns_id n, j)] else [])
       (ns_neighbors n))) (em_nodes mf))"

definition over_firmware :: "manifest \<Rightarrow> (int \<times> nat) list" where
  "over_firmware mf =
     map (\<lambda>n. (ns_id n, length (ns_neighbors n)))
       (filter (\<lambda>n. ns_type n = BLE \<and> length (ns_neighbors n) > N_MAX_NEIGHBORS_FIRMWARE) (em_nodes mf))"

definition type_counts :: "manifest \<Rightarrow> (agent_type \<times> nat) list" where
  "type_counts mf =
     filter (\<lambda>(t, c). c > 0)
       (map (\<lambda>t. (t, length (filter (\<lambda>n. ns_type n = t) (em_nodes mf)))) [BLE, WIFI, BRIDGE])"

definition only_if :: "bool \<Rightarrow> 'a \<Rightarrow> 'a list" where
  "only_if b x = (if b then [x] else [])"

definition timing_warnings :: "manifest \<Rightarrow> graph_warning list" where
  "timing_warnings mf =
     (let periods = remdups (map ns_publish_period_s (em_nodes mf)); adv_s = rs_adv_interval_ms (em_radio mf) / 1000 in
      only_if (length periods > 1) (HeterogeneousPeriods (sort periods)) @
      concat (map (\<lambda>n. only_if (ns_publish_period_s n < cs_dt_s (em_controller mf)) (PublishFasterThanControl (ns_id n)))
        (em_nodes mf)) @
      concat (map (\<lambda>n. if ns_type n = WIFI then []
                       else only_if (ns_publish_period_s n < adv_s) (DeliveryCapped (ns_id n) (ns_publish_period_s n / adv_s)))
        (em_nodes mf)))"

definition check :: "graph_lib \<Rightarrow> manifest \<Rightarrow> bool option \<Rightarrow> graph_report" where
  "check nx mf require_strong =
     (let g = build_graph mf False;
          strict = (case require_strong of None \<Rightarrow> False | Some b \<Rightarrow> b);
          isolated = sorted_ids (filter (\<lambda>n. in_degree g n = 0 \<and> out_degree g n = 0) (g_nodes g));
          sources = sorted_ids (filter (\<lambda>n. in_degree g n = 0 \<and> out_degree g n > 0) (g_nodes g));
          sinks = sorted_ids (filter (\<lambda>n. out_degree g n = 0 \<and> in_degree g n > 0) (g_nodes g));
          balanced = list_all (\<lambda>n. in_degree g n = out_degree g n) (g_nodes g);
          symmetric = list_all (\<lambda>(u, v). (v, u) \<in> set (g_edges g)) (g_edges g);
          weak = (g_nodes g \<noteq> [] \<and> gl_weak nx g);
          strong = (g_nodes g \<noteq> [] \<and> gl_strong nx g);
          eff = build_graph mf True;
          comps = map (\<lambda>c. sorted_list_of_set c) (gl_weak_components nx eff);
          disabled = sort (map ns_id (filter (\<lambda>n. \<not> ns_enabled n) (em_nodes mf)));
          (pinned, unreachable, ref_errors, ref_warnings) = check_reference nx mf g
      in \<lparr>gr_n_nodes = length (g_nodes g), gr_n_edges = length (g_edges g), gr_weak = weak, gr_strong = strong,
          gr_balanced = balanced, gr_symmetric = symmetric, gr_lambda2 = algebraic_connectivity nx g,
          gr_isolated = isolated, gr_sources = sources, gr_sinks = sinks, gr_disabled = disabled,
          gr_eff_strong = (g_nodes eff \<noteq> [] \<and> gl_strong nx eff), gr_eff_lambda2 = algebraic_connectivity nx eff,
          gr_eff_components = comps, gr_by_type = type_counts mf, gr_pinned = pinned, gr_unreachable = unreachable,
          gr_errors = ref_errors @ only_if (isolated \<noteq> []) (IsolatedNodes isolated) @
            only_if (\<not> weak) (Disconnected (map (\<lambda>c. sorted_list_of_set c) (gl_weak_components nx g))) @
            only_if (\<not> strong \<and> strict) NotStronglyConnected @
            only_if (no_medium_links mf \<noteq> []) (NoCommonMedium (no_medium_links mf)) @
            only_if (over_firmware mf \<noteq> []) (TooManyNeighbours (over_firmware mf)),
          gr_warnings = ref_warnings @ only_if (\<not> strong \<and> \<not> strict) NotStronglyConnectedW @
            only_if (\<not> balanced) (NotBalanced (map (\<lambda>n. (n, in_degree g n, out_degree g n))
              (filter (\<lambda>n. in_degree g n \<noteq> out_degree g n) (g_nodes g)))) @
            only_if (\<not> eta_well_below_gain (em_controller mf)) EtaNotSmall @
            only_if (same_host_links mf \<noteq> []) (SameHost (same_host_links mf)) @
            concat (map (\<lambda>n. only_if (\<not> ns_enabled n \<and> ns_neighbors n \<noteq> []) (DisabledStillRead (ns_id n))) (em_nodes mf)) @
            only_if (length comps > 1) (FragmentedByDisabling comps) @ timing_warnings mf\<rparr>)"

subsection \<open>The library's contract, and an implementation\<close>

definition undirected :: "graph \<Rightarrow> (int \<times> int) set" where
  "undirected g = set (g_edges g) \<union> (set (g_edges g))\<inverse>"

definition gl_ok :: "graph_lib \<Rightarrow> bool" where
  "gl_ok nx \<longleftrightarrow> (\<forall>g. set (g_edges g) \<subseteq> set (g_nodes g) \<times> set (g_nodes g) \<longrightarrow>
     (\<forall>p \<in> set (g_nodes g). gl_descendants nx g p = {v. (p, v) \<in> (set (g_edges g))\<^sup>+ \<and> v \<noteq> p}) \<and>
     (g_nodes g \<noteq> [] \<longrightarrow>
        (gl_strong nx g \<longleftrightarrow> (\<forall>u \<in> set (g_nodes g). \<forall>v \<in> set (g_nodes g). (u, v) \<in> (set (g_edges g))\<^sup>*)) \<and>
        (gl_weak nx g \<longleftrightarrow> (\<forall>u \<in> set (g_nodes g). \<forall>v \<in> set (g_nodes g). (u, v) \<in> (undirected g)\<^sup>*))) \<and>
     set (gl_weak_components nx g) =
        (\<lambda>u. {v \<in> set (g_nodes g). (u, v) \<in> (undirected g)\<^sup>*}) ` set (g_nodes g) \<and>
     distinct (gl_weak_components nx g))"

lemma gl_ok_descendants:
  assumes "gl_ok nx" and "set (g_edges g) \<subseteq> set (g_nodes g) \<times> set (g_nodes g)" and "p \<in> set (g_nodes g)"
  shows "gl_descendants nx g p = {v. (p, v) \<in> (set (g_edges g))\<^sup>+ \<and> v \<noteq> p}"
  using assms(1) [unfolded gl_ok_def, rule_format, OF assms(2)] assms(3) by simp

lemma gl_ok_connected:
  assumes "gl_ok nx" and "set (g_edges g) \<subseteq> set (g_nodes g) \<times> set (g_nodes g)" and "g_nodes g \<noteq> []"
  shows "gl_strong nx g \<longleftrightarrow> (\<forall>u \<in> set (g_nodes g). \<forall>v \<in> set (g_nodes g). (u, v) \<in> (set (g_edges g))\<^sup>*)"
    and "gl_weak nx g \<longleftrightarrow> (\<forall>u \<in> set (g_nodes g). \<forall>v \<in> set (g_nodes g). (u, v) \<in> (undirected g)\<^sup>*)"
  using assms(1) [unfolded gl_ok_def, rule_format, OF assms(2)] assms(3) by simp_all

text \<open>An implementation by saturation: \<open>n\<close> rounds of adding successors reach everything, \<open>n\<close> the
  number of nodes.\<close>

fun saturate :: "nat \<Rightarrow> (int \<times> int) list \<Rightarrow> int list \<Rightarrow> int list" where
  "saturate 0 es xs = xs"
| "saturate (Suc n) es xs =
     (let new = remdups (filter (\<lambda>v. v \<notin> set xs) (map snd (filter (\<lambda>(u, v). u \<in> set xs) es))) in
      if new = [] then xs else saturate n es (xs @ new))"

definition reach_from :: "graph \<Rightarrow> (int \<times> int) list \<Rightarrow> int \<Rightarrow> int list" where
  "reach_from g es u = saturate (length (g_nodes g)) es [u]"

definition search_lib :: graph_lib where
  "search_lib =
     \<lparr>gl_descendants = \<lambda>g p. set (reach_from g (g_edges g) p) - {p},
      gl_weak = \<lambda>g. list_all (\<lambda>u. set (g_nodes g) \<subseteq> set (reach_from g (g_edges g @ map prod.swap (g_edges g)) u)) (g_nodes g),
      gl_strong = \<lambda>g. list_all (\<lambda>u. set (g_nodes g) \<subseteq> set (reach_from g (g_edges g) u)) (g_nodes g),
      gl_weak_components = \<lambda>g. remdups (map (\<lambda>u. set (g_nodes g) \<inter> set (reach_from g (g_edges g @ map prod.swap (g_edges g)) u)) (g_nodes g)),
      gl_lambda2 = \<lambda>g. None\<rparr>"

lemma saturate_facts:
  assumes "set xs \<subseteq> N" "\<And>u v. (u, v) \<in> set es \<Longrightarrow> v \<in> N" "finite N" "card N \<le> n + card (set xs)"
  shows "set (saturate n es xs) = (set es)\<^sup>* `` set xs"
  using assms
proof (induction n arbitrary: xs)
  case 0
  then have "set xs = N" by (simp add: card_seteq)
  with 0(2) have "set es `` set xs \<subseteq> set xs" by auto
  then show ?case by (simp add: Image_closed_trancl)
next
  case (Suc n)
  define new where "new = remdups (filter (\<lambda>v. v \<notin> set xs) (map snd (filter (\<lambda>(u, v). u \<in> set xs) es)))"
  have setnew: "set new = set es `` set xs - set xs" by (auto simp: new_def image_iff)
  show ?case
  proof (cases "new = []")
    case True
    then have "set es `` set xs \<subseteq> set xs" using setnew by auto
    then show ?thesis using True by (simp add: new_def [symmetric] Image_closed_trancl)
  next
    case False
    have disj: "set xs \<inter> set new = {}" using setnew by auto
    obtain y where "y \<in> set new" using False by (cases new) auto
    with disj have "y \<in> set xs \<union> set new" "y \<notin> set xs" by auto
    then have "set xs \<subset> set xs \<union> set new" by (intro psubsetI) auto
    then have "card (set xs) < card (set (xs @ new))" by (simp add: psubset_card_mono)
    moreover have "set (xs @ new) \<subseteq> N" using Suc.prems(1,2) setnew by auto
    ultimately have "set (saturate n es (xs @ new)) = (set es)\<^sup>* `` set (xs @ new)"
      using Suc.prems by (intro Suc.IH) auto
    also have "\<dots> = (set es)\<^sup>* `` set xs"
    proof
      show "(set es)\<^sup>* `` set (xs @ new) \<subseteq> (set es)\<^sup>* `` set xs"
        using setnew by (auto intro: converse_rtrancl_into_rtrancl)
    qed auto
    finally show ?thesis using False by (simp add: new_def [symmetric])
  qed
qed

lemma reach_from_eq:
  assumes "u \<in> set (g_nodes g)" "set es \<subseteq> set (g_nodes g) \<times> set (g_nodes g)"
  shows "set (reach_from g es u) = {v. (u, v) \<in> (set es)\<^sup>*}"
proof -
  have "card (set (g_nodes g)) \<le> length (g_nodes g) + card (set [u])" using card_length [of "g_nodes g"] by simp
  with assms have "set (saturate (length (g_nodes g)) es [u]) = (set es)\<^sup>* `` set [u]"
    by (intro saturate_facts [of _ "set (g_nodes g)"]) auto
  then show ?thesis by (auto simp: reach_from_def)
qed

lemma set_swap_edges: "set (es @ map prod.swap es) = set es \<union> (set es)\<inverse>"
  by force

lemma search_lib_meets:
  assumes "set (g_edges g) \<subseteq> set (g_nodes g) \<times> set (g_nodes g)"
  shows "p \<in> set (g_nodes g) \<Longrightarrow> gl_descendants search_lib g p = {v. (p, v) \<in> (set (g_edges g))\<^sup>+ \<and> v \<noteq> p}"
    and "gl_strong search_lib g \<longleftrightarrow> (\<forall>u \<in> set (g_nodes g). \<forall>v \<in> set (g_nodes g). (u, v) \<in> (set (g_edges g))\<^sup>*)"
    and "gl_weak search_lib g \<longleftrightarrow> (\<forall>u \<in> set (g_nodes g). \<forall>v \<in> set (g_nodes g). (u, v) \<in> (undirected g)\<^sup>*)"
    and "set (gl_weak_components search_lib g) =
        (\<lambda>u. {v \<in> set (g_nodes g). (u, v) \<in> (undirected g)\<^sup>*}) ` set (g_nodes g)"
    and "distinct (gl_weak_components search_lib g)"
proof -
  have both: "set (g_edges g @ map prod.swap (g_edges g)) \<subseteq> set (g_nodes g) \<times> set (g_nodes g)"
    using assms by (auto simp: image_iff)
  note r = reach_from_eq [OF _ assms] and w = reach_from_eq [OF _ both, unfolded set_swap_edges, folded undirected_def]
  show "gl_descendants search_lib g p = {v. (p, v) \<in> (set (g_edges g))\<^sup>+ \<and> v \<noteq> p}" if "p \<in> set (g_nodes g)"
    using r [OF that] by (auto simp: search_lib_def rtrancl_eq_or_trancl)
  show "gl_strong search_lib g \<longleftrightarrow> (\<forall>u \<in> set (g_nodes g). \<forall>v \<in> set (g_nodes g). (u, v) \<in> (set (g_edges g))\<^sup>*)"
    by (auto simp: search_lib_def list_all_iff subset_iff r)
  show "gl_weak search_lib g \<longleftrightarrow> (\<forall>u \<in> set (g_nodes g). \<forall>v \<in> set (g_nodes g). (u, v) \<in> (undirected g)\<^sup>*)"
    by (auto simp: search_lib_def list_all_iff subset_iff w)
  show "set (gl_weak_components search_lib g) =
        (\<lambda>u. {v \<in> set (g_nodes g). (u, v) \<in> (undirected g)\<^sup>*}) ` set (g_nodes g)"
    by (auto simp: search_lib_def w intro!: image_cong)
  show "distinct (gl_weak_components search_lib g)" by (simp add: search_lib_def)
qed

lemma search_lib_ok: "gl_ok search_lib"
  unfolding gl_ok_def by (intro allI impI conjI ballI) (simp_all only: search_lib_meets)

subsection \<open>What a report without errors guarantees\<close>

lemma build_graph_nodes [simp]: "set (g_nodes (build_graph mf b)) = {ns_id n |n. n \<in> set (em_nodes mf) \<and> (ns_enabled n \<or> \<not> b)}"
  by (auto simp: build_graph_def Let_def)

lemma declared_nodes: "set (g_nodes (build_graph mf False)) = set (em_ids mf)"
  by (auto simp: em_ids_def)

lemma declared_edges:
  "(j, i) \<in> set (g_edges (build_graph mf False)) \<longleftrightarrow>
     (\<exists>n \<in> set (em_nodes mf). ns_id n = i \<and> j \<in> set (ns_neighbors n)) \<and> j \<in> set (em_ids mf)"
  by (auto simp: build_graph_def Let_def em_ids_def)

lemma build_graph_closed: "set (g_edges (build_graph mf b)) \<subseteq> set (g_nodes (build_graph mf b)) \<times> set (g_nodes (build_graph mf b))"
  by (auto simp: build_graph_def Let_def)

lemma sorted_ids_Nil [simp]: "sorted_ids xs = [] \<longleftrightarrow> xs = []"
  by (metis set_empty set_remdups set_sort sorted_ids_def)

lemma only_if_Nil: "only_if b x = [] \<longleftrightarrow> \<not> b"
  by (simp add: only_if_def)

lemma check_ok_parts:
  assumes "report_ok (check nx mf rs)"
  shows "fst (snd (snd (check_reference nx mf (build_graph mf False)))) = []"
    and "no_medium_links mf = []" and "over_firmware mf = []"
    and "gl_weak nx (build_graph mf False)" and "g_nodes (build_graph mf False) \<noteq> []"
    and "rs = Some True \<Longrightarrow> gl_strong nx (build_graph mf False)"
    and "filter (\<lambda>n. in_degree (build_graph mf False) n = 0 \<and> out_degree (build_graph mf False) n = 0)
           (g_nodes (build_graph mf False)) = []"
  using assms
  by (auto simp: report_ok_def check_def Let_def case_prod_unfold only_if_Nil filter_empty_conv)

text \<open>C21: For a manifest that declares a coordination block: when a report has no errors, some agents are
  pinned, all of them declared and enabled, and every declared agent has a chain of declared links from a
  pinned one. The links are those of the declared graph, disabled agents included: a chain through a
  disabled agent counts, although nothing passes it while it is disabled (\<open>reference_through_disabled\<close>).\<close>

theorem reference_reaches_all:
  assumes "gl_ok nx" and "report_ok (check nx mf rs)" and "em_coordination mf = Some c"
  shows "fst ` set (crd_pinned c) \<noteq> {} \<and>
    (\<forall>p \<in> fst ` set (crd_pinned c). \<exists>n. em_by_id mf p = Some n \<and> ns_enabled n) \<and>
    (\<forall>i \<in> set (em_ids mf). \<exists>p \<in> fst ` set (crd_pinned c). (p, i) \<in> (set (g_edges (build_graph mf False)))\<^sup>*)"
proof -
  let ?g = "build_graph mf False"
  define pinned where "pinned = sorted_ids (map fst (crd_pinned c))"
  have set_pinned: "set pinned = fst ` set (crd_pinned c)" by (simp add: pinned_def sorted_ids_def)
  define dis where "dis = filter (\<lambda>p. case em_by_id mf p of Some n \<Rightarrow> \<not> ns_enabled n | None \<Rightarrow> False) pinned"
  note ref = check_ok_parts(1) [OF assms(2), unfolded check_reference_def assms(3) option.case Let_def, folded pinned_def]
  from ref have known: "set pinned \<subseteq> set (em_ids mf)"
    by (auto split: if_splits simp: filter_empty_conv)
  then have f: "filter (\<lambda>p. p \<in> set (em_ids mf)) pinned = pinned" "filter (\<lambda>p. p \<notin> set (em_ids mf)) pinned = []"
    by (auto simp: filter_empty_conv intro: filter_True)
  from ref have ne: "pinned \<noteq> []" by (auto simp: f)
  from ref ne have d: "dis = []" by (auto simp: f dis_def [symmetric] split: if_splits)
  from ref ne have r: "sorted_ids (filter (\<lambda>n. n \<notin> set pinned \<union> (\<Union>p \<in> set pinned. gl_descendants nx ?g p)) (g_nodes ?g)) = []"
    by (simp add: f dis_def [symmetric] d split: if_splits)
  have "\<exists>n. em_by_id mf p = Some n \<and> ns_enabled n" if "p \<in> set pinned" for p
  proof -
    have "em_by_id mf p \<noteq> None" using known that
      by (auto simp: em_by_id_def map_of_eq_None_iff em_ids_def image_iff)
    then show ?thesis using d that by (auto simp: dis_def filter_empty_conv split: option.splits)
  qed
  moreover have "\<exists>p \<in> set pinned. (p, i) \<in> (set (g_edges ?g))\<^sup>*" if "i \<in> set (em_ids mf)" for i
  proof -
    have "i \<in> set (g_nodes ?g)" using that by (simp only: declared_nodes)
    then obtain p where "p \<in> set pinned" "i = p \<or> i \<in> gl_descendants nx ?g p"
      using r unfolding sorted_ids_Nil filter_empty_conv by blast
    moreover from this have "p \<in> set (g_nodes ?g)" using known unfolding declared_nodes by blast
    then have "gl_descendants nx ?g p = {v. (p, v) \<in> (set (g_edges ?g))\<^sup>+ \<and> v \<noteq> p}"
      using gl_ok_descendants [OF assms(1) build_graph_closed] by blast
    ultimately show ?thesis by (auto intro: trancl_into_rtrancl)
  qed
  ultimately show ?thesis using ne by (simp add: set_pinned [symmetric])
qed

lemma no_medium_linksD:
  assumes "no_medium_links mf = []" "n \<in> set (em_nodes mf)" "j \<in> set (ns_neighbors n)" "em_by_id mf j = Some m"
  shows "AGENT_MEDIA (ns_type n) \<inter> AGENT_MEDIA (ns_type m) \<noteq> {}"
proof
  assume none: "AGENT_MEDIA (ns_type n) \<inter> AGENT_MEDIA (ns_type m) = {}"
  have "\<forall>x \<in> set (ns_neighbors n). (case em_by_id mf x of
         None \<Rightarrow> []
       | Some other \<Rightarrow> if AGENT_MEDIA (ns_type n) \<inter> AGENT_MEDIA (ns_type other) = {} then [(ns_id n, x)] else []) = []"
    using assms(1,2) by (simp add: no_medium_links_def)
  from bspec [OF this assms(3)] show False by (simp add: assms(4) none)
qed

text \<open>When a report on a valid manifest has no errors, every declared link joins two agents that share
  a medium, no board has more neighbours than its firmware holds, and the agents form one
  connected group; if strong connectivity was required, information reaches everybody from anywhere.\<close>

theorem runnable_graph:
  assumes "gl_ok nx" and "manifest_check mf = Inr mf" and "report_ok (check nx mf rs)"
  shows "(\<forall>n \<in> set (em_nodes mf). \<forall>j \<in> set (ns_neighbors n). \<exists>other. em_by_id mf j = Some other \<and>
            AGENT_MEDIA (ns_type n) \<inter> AGENT_MEDIA (ns_type other) \<noteq> {}) \<and>
         (\<forall>n \<in> set (em_nodes mf). ns_type n = BLE \<longrightarrow> length (ns_neighbors n) \<le> 4) \<and>
         (\<forall>u \<in> set (em_ids mf). \<forall>v \<in> set (em_ids mf). (u, v) \<in> (undirected (build_graph mf False))\<^sup>*) \<and>
         (rs = Some True \<longrightarrow> (\<forall>u \<in> set (em_ids mf). \<forall>v \<in> set (em_ids mf).
            (u, v) \<in> (set (g_edges (build_graph mf False)))\<^sup>*))"
proof -
  note ok = check_ok_parts [OF assms(3)]
  note con = gl_ok_connected [OF assms(1) build_graph_closed ok(5), unfolded declared_nodes]
  have coh: "coherent mf" using assms(2) by (simp add: result_simps)
  have "\<exists>other. em_by_id mf j = Some other \<and> AGENT_MEDIA (ns_type n) \<inter> AGENT_MEDIA (ns_type other) \<noteq> {}"
    if n: "n \<in> set (em_nodes mf)" "j \<in> set (ns_neighbors n)" for n j
  proof -
    have "j \<in> set (em_ids mf)" using coh n by (auto simp: coherent_def)
    then obtain m where "m \<in> set (em_nodes mf)" "ns_id m = j" by (auto simp: em_ids_def)
    then have "em_by_id mf j = Some m" using em_by_id_node coh by (auto simp: coherent_def)
    with no_medium_linksD [OF ok(2) n] show ?thesis by blast
  qed
  moreover have "length (ns_neighbors n) \<le> 4" if "n \<in> set (em_nodes mf)" "ns_type n = BLE" for n
    using ok(3) that by (auto simp: over_firmware_def filter_empty_conv N_MAX_NEIGHBORS_FIRMWARE_def)
  ultimately show ?thesis using con ok(4,6) by blast
qed

lemma with_graph_edges:
  assumes "graph_ok g" and "fst ` set g \<subseteq> set (em_ids m)"
  shows "set (g_edges (build_graph (with_graph m g) False)) = reads g"
proof -
  have "(j, i) \<in> set (g_edges (build_graph (with_graph m g) False)) \<longleftrightarrow> (j, i) \<in> reads g" for i j
  proof -
    have "i \<in> set (em_ids m) \<and> j \<in> set (em_ids m)" if "(j, i) \<in> reads g"
      using that assms unfolding reads_def graph_ok_def by fastforce
    moreover have "(\<exists>n \<in> set (em_nodes (with_graph m g)). ns_id n = i \<and> j \<in> set (ns_neighbors n)) \<longleftrightarrow>
        i \<in> set (em_ids m) \<and> (j, i) \<in> reads g"
      using dict_get_ok(3) [OF assms(1)] by (auto simp: with_graph_def em_ids_def)
    ultimately show ?thesis unfolding declared_edges em_ids_with_graph by blast
  qed
  then show ?thesis by auto
qed

lemma in_degree_pos: "(j, i) \<in> set (g_edges g) \<Longrightarrow> in_degree g i \<noteq> 0"
  by (auto simp: in_degree_def filter_empty_conv)

lemma ring_nonempty:
  assumes "ring n k directed ids = Inr g" and "(i, ns) \<in> set g"
  shows "ns \<noteq> []" and "directed \<Longrightarrow> length ns = 1" and "\<not> directed \<Longrightarrow> length ns = nat (2 * k)"
  using assms by (auto elim!: ring_cases simp: length_ring_offsets ring_offsets_def split: if_splits)

text \<open>A ring never fails validation: a valid manifest without a reference whose agents can all hear
  each other and whose boards get at most four neighbours passes, as a ring over exactly its
  agents, even when strong connectivity is required.\<close>

theorem ring_manifest_passes:
  assumes "gl_ok nx" and "manifest_check m = Inr m" and "ring n k directed ids = Inr g"
    and dom: "fst ` set g = set (em_ids m)" and "em_coordination m = None"
    and media: "\<forall>a \<in> set (em_nodes m). \<forall>b \<in> set (em_nodes m). AGENT_MEDIA (ns_type a) \<inter> AGENT_MEDIA (ns_type b) \<noteq> {}"
    and few: "directed \<or> k \<le> 2 \<or> (\<forall>a \<in> set (em_nodes m). ns_type a \<noteq> BLE)"
  shows "report_ok (check nx (with_graph m g) (Some True))"
proof -
  let ?m = "with_graph m g"
  let ?g = "build_graph ?m False"
  have ok: "graph_ok g" by (rule ring_ok [OF assms(3)])
  have edges: "set (g_edges ?g) = reads g" using with_graph_edges [OF ok] dom by auto
  have nodes: "set (g_nodes ?g) = fst ` set g" by (simp only: declared_nodes em_ids_with_graph dom)
  have reach: "\<forall>u \<in> set (g_nodes ?g). \<forall>v \<in> set (g_nodes ?g). (u, v) \<in> (set (g_edges ?g))\<^sup>*"
    unfolding nodes edges by (rule strongly_connected_ring [OF assms(3)])
  then have "\<forall>u \<in> set (g_nodes ?g). \<forall>v \<in> set (g_nodes ?g). (u, v) \<in> (undirected ?g)\<^sup>*"
    unfolding undirected_def by (meson Un_upper1 in_rtrancl_UnI)
  moreover have ne: "g_nodes ?g \<noteq> []"
  proof -
    have "set (em_ids m) \<noteq> {}" using assms(2) by (simp add: result_simps coherent_def)
    then show ?thesis using declared_nodes [of ?m] by (metis em_ids_with_graph empty_set)
  qed
  ultimately have conn: "gl_weak nx ?g" "gl_strong nx ?g"
    using gl_ok_connected [OF assms(1) build_graph_closed ne] reach by blast+
  have deg: "in_degree ?g i \<noteq> 0" if "i \<in> set (g_nodes ?g)" for i
  proof -
    have "i \<in> fst ` set g" using that by (simp only: nodes)
    then obtain ns where ns: "(i, ns) \<in> set g" by force
    then obtain j where "j \<in> set ns" using ring_nonempty(1) [OF assms(3)] by (cases ns) auto
    then have "(j, i) \<in> set (g_edges ?g)" unfolding edges reads_def using ns by blast
    then show ?thesis by (rule in_degree_pos)
  qed
  have links: "no_medium_links ?m = []"
  proof -
    have "AGENT_MEDIA (ns_type a) \<inter> AGENT_MEDIA (ns_type b) \<noteq> {}"
      if "a \<in> set (em_nodes ?m)" "em_by_id ?m j = Some b" for a b j
      using that(1) em_by_id_SomeD [OF that(2)] media by (auto simp: with_graph_def)
    then show ?thesis by (auto simp: no_medium_links_def split: option.splits)
  qed
  have over: "over_firmware ?m = []"
  proof -
    have "ns_type a = BLE \<longrightarrow> length (ns_neighbors a) \<le> 4" if a: "a \<in> set (em_nodes ?m)" for a
    proof -
      obtain b where b: "b \<in> set (em_nodes m)" "ns_type a = ns_type b" "ns_neighbors a = dict_get g (ns_id b) []"
        using a by (auto simp: with_graph_def)
      have "ns_id b \<in> fst ` set g" using dom b(1) by (simp add: em_ids_def)
      then obtain ns where ns: "(ns_id b, ns) \<in> set g" by force
      then have "(ns_id b, dict_get g (ns_id b) []) \<in> set g" using dict_get_graph [OF ok ns] by simp
      from ring_nonempty(2,3) [OF assms(3) this] few b show ?thesis by (cases directed) auto
    qed
    then show ?thesis by (auto simp: over_firmware_def filter_empty_conv N_MAX_NEIGHBORS_FIRMWARE_def not_less)
  qed
  have "em_coordination ?m = None" using assms(5) by (simp add: with_graph_def)
  then show ?thesis
    using ne conn deg links over
    by (simp add: report_ok_def check_def Let_def check_reference_def only_if_Nil filter_empty_conv del: build_graph_nodes)
qed

subsection \<open>Concrete graphs\<close>

definition chain_manifest :: "bool \<Rightarrow> bool \<Rightarrow> manifest" where
  "chain_manifest e1 e2 = demo_manifest\<lparr>em_structure := None,
     em_nodes := [(demo_node 1 ''10.0.0.1'' WIFI)\<lparr>ns_enabled := e1\<rparr>,
                  (demo_node 2 ''10.0.0.2'' WIFI)\<lparr>ns_enabled := e2, ns_neighbors := [1]\<rparr>,
                  (demo_node 3 ''10.0.0.3'' BRIDGE)\<lparr>ns_neighbors := [2]\<rparr>]\<rparr>"

lemma chain_manifest_ok: "manifest_check (chain_manifest e1 e2) = Inr (chain_manifest e1 e2)"
  by (simp add: result_simps chain_manifest_def demo_manifest_def demo_node_def demo_grid_spec_def node_spec_check_def demo_ips
      no_self_loop_or_dupes_def node_plant_check_def controller_spec_check_def disturbance_spec_check_def
      microgrid_spec_check_def radio_spec_check_def in_range_def coordination_check_def coherent_def em_ids_def
      MAX_NODE_ID_def)

lemma chain_graph:
  "build_graph (chain_manifest e1 e2) False = \<lparr>g_nodes = [1, 2, 3], g_edges = [(1, 2), (2, 3)]\<rparr>"
  "build_graph (chain_manifest True False) True = \<lparr>g_nodes = [1, 3], g_edges = []\<rparr>"
  by (simp_all add: build_graph_def chain_manifest_def demo_node_def demo_manifest_def Let_def)

lemma chain_search: "set (reach_from \<lparr>g_nodes = [1, 2, 3], g_edges = [(1, 2), (2, 3)]\<rparr> [(1, 2), (2, 3)] 1) = {1, 2, 3}"
  by code_simp

lemma chain_weak: "gl_weak search_lib \<lparr>g_nodes = [1, 2, 3], g_edges = [(1, 2), (2, 3)]\<rparr>"
  by code_simp

lemma chain_report:
  "report_ok (check search_lib (chain_manifest True True) None)"
  "report_ok (check search_lib (chain_manifest True False) None)"
  by code_simp+

theorem reference_reaches_all_witness:
  "\<exists>p \<in> {1}. (p, 3) \<in> (set (g_edges (build_graph (chain_manifest True True) False)))\<^sup>*"
proof -
  have c: "em_coordination (chain_manifest True True) = Some \<lparr>crd_reference = (3, 2), crd_pinned = [(1, 1)]\<rparr>"
    by (simp add: chain_manifest_def demo_manifest_def)
  have "3 \<in> set (em_ids (chain_manifest True True))"
    by (simp add: chain_manifest_def demo_manifest_def demo_node_def em_ids_def)
  with reference_reaches_all [OF search_lib_ok chain_report(1) c] show ?thesis by auto
qed

theorem runnable_graph_witness:
  "(3, 1) \<in> (undirected (build_graph (chain_manifest True True) False))\<^sup>*"
  using runnable_graph [OF search_lib_ok chain_manifest_ok chain_report(1)]
  by (auto simp: chain_manifest_def demo_manifest_def demo_node_def em_ids_def)

theorem ring_manifest_passes_witness:
  "report_ok (check search_lib (with_graph (demo_manifest\<lparr>em_coordination := None\<rparr>) [(1, [3, 2]), (2, [1, 3]), (3, [2, 1])])
     (Some True))"
proof (rule ring_manifest_passes [OF search_lib_ok])
  show "manifest_check (demo_manifest\<lparr>em_coordination := None\<rparr>) = Inr (demo_manifest\<lparr>em_coordination := None\<rparr>)"
    using demo_manifest_ok by (auto simp: result_simps demo_fields(4) coherent_def em_ids_def)
  show "ring (Some 3) 1 False None = Inr [(1, [3, 2]), (2, [1, 3]), (3, [2, 1])]" by code_simp
  show "fst ` set [(1, [3, 2]), (2, [1, 3]), (3, [2, 1])] = set (em_ids (demo_manifest\<lparr>em_coordination := None\<rparr>))"
    using demo_ids by (auto simp: em_ids_def)
qed (auto simp: demo_manifest_def demo_node_def AGENT_MEDIA_def)

text \<open>The warning about disabled agents looks the wrong way: it names exactly the disabled agents that
  read somebody, whether or not anybody reads them. A disabled agent that its neighbours still
  read, but that reads nobody, is not reported.\<close>

theorem disabled_warning_direction:
  "(DisabledStillRead i \<in> set (gr_warnings (check nx mf rs)) \<longleftrightarrow>
     (\<exists>n \<in> set (em_nodes mf). ns_id n = i \<and> \<not> ns_enabled n \<and> ns_neighbors n \<noteq> [])) \<and>
   DisabledStillRead 1 \<notin> set (gr_warnings (check nx (chain_manifest False True) rs)) \<and>
   (\<exists>n \<in> set (em_nodes (chain_manifest False True)). 1 \<in> set (ns_neighbors n))"
proof -
  have iff: "DisabledStillRead i \<in> set (gr_warnings (check nx mf rs)) \<longleftrightarrow>
     (\<exists>n \<in> set (em_nodes mf). ns_id n = i \<and> \<not> ns_enabled n \<and> ns_neighbors n \<noteq> [])" for i mf
    by (auto simp: check_def Let_def case_prod_unfold only_if_def check_reference_def timing_warnings_def
        split: option.splits if_splits)
  show ?thesis unfolding iff by (auto simp: chain_manifest_def demo_manifest_def demo_node_def)
qed

text \<open>The reachability check walks through disabled agents: a manifest can pass although the only
  chain of links from the pinned agent to another leads through a disabled agent, so that the graph
  that actually runs has no path between them.\<close>

theorem reference_through_disabled:
  "\<exists>mf. manifest_check mf = Inr mf \<and> report_ok (check search_lib mf None) \<and>
     (1, 3) \<in> (set (g_edges (build_graph mf False)))\<^sup>* \<and>
     3 \<in> set (g_nodes (build_graph mf True)) \<and> (1, 3) \<notin> (set (g_edges (build_graph mf True)))\<^sup>*"
proof (intro exI conjI)
  have "(1, 2) \<in> set (g_edges (build_graph (chain_manifest True False) False))"
    "(2, 3) \<in> set (g_edges (build_graph (chain_manifest True False) False))" by (simp_all add: chain_graph)
  then show "(1, 3) \<in> (set (g_edges (build_graph (chain_manifest True False) False)))\<^sup>*"
    by (meson r_into_rtrancl rtrancl_trans)
qed (simp_all add: chain_manifest_ok chain_report chain_graph del: build_graph_nodes)

end
