(* ===== verification/RunLog.thy ===== *)
theory RunLog
  imports Bytes
begin

section \<open>The run log (agent/runlog.py)\<close>

text \<open>
  \<open>run_log\<close> is the state of \<^verbatim>\<open>RunLog\<close> in the binary format, with the rows file it appends to,
  the metadata file and the columnar file as byte string and records. A float is its IEEE bit
  pattern (\<open>f64\<close>), which is what \<^verbatim>\<open>struct\<close> packs; \<open>trunc_f64\<close> is \<^verbatim>\<open>int\<close> of a finite one. A row
  waits in \<open>lg_buf\<close> until \<open>flush_every\<close> rows have come together. The locale \<open>append_log\<close> states
  what the agent relies on, whatever the format: the log refines the list of rows appended to
  it. The text formats, the wall-clock strings and the git and host queries are not modelled.
\<close>

subsection \<open>Floats and records\<close>

type_synonym f64 = "64 word"

definition F_ONE :: f64 where
  "F_ONE = 0x3FF0000000000000"

definition pack_d :: "f64 \<Rightarrow> bytes" where
  "pack_d x = le_bytes 8 (uint x)"

definition unpack_d :: "bytes \<Rightarrow> f64" where
  "unpack_d bs = word_of_int (le_int bs)"

definition trunc_f64 :: "f64 \<Rightarrow> int" where
  "trunc_f64 w =
     (let e = uint (take_bit 11 (drop_bit 52 w)); m = uint (take_bit 52 w) + 2 ^ 52;
          a = (if e < 1023 then 0 else if e \<ge> 1075 then m * 2 ^ nat (e - 1075) else m div 2 ^ nat (1075 - e))
      in if bit w 63 then - a else a)"

definition pack_row :: "f64 list \<Rightarrow> bytes" where
  "pack_row row = concat (map pack_d row)"

fun unpack_row :: "nat \<Rightarrow> bytes \<Rightarrow> f64 list" where
  "unpack_row 0 bs = []"
| "unpack_row (Suc n) bs = unpack_d (take 8 bs) # unpack_row n (drop 8 bs)"

lemma length_pack_d [simp]: "length (pack_d x) = 8"
  by (simp add: pack_d_def)

lemma unpack_pack_d [simp]: "unpack_d (pack_d x) = x"
proof -
  have "uint x mod 256 ^ 8 = uint x" using uint_lt2p [of x] by (simp add: mod_pos_pos_trivial)
  then show ?thesis by (simp add: unpack_d_def pack_d_def le_int_le_bytes)
qed

lemma length_pack_row [simp]: "length (pack_row row) = 8 * length row"
  by (induction row) (simp_all add: pack_row_def)

lemma unpack_row_pack: "unpack_row (length row) (pack_row row @ bs) = row"
  by (induction row) (simp_all add: pack_row_def)

subsection \<open>Layout\<close>

definition record_width :: "nat \<Rightarrow> nat \<Rightarrow> nat \<Rightarrow> nat \<Rightarrow> nat" where
  "record_width n_neighbors n_state n_timing d = 2 + n_timing + n_state + (3 + d) * n_neighbors"

fun show_nat :: "nat \<Rightarrow> string" where
  "show_nat n = (if n < 10 then [char_of (48 + n)] else show_nat (n div 10) @ [char_of (48 + n mod 10)])"

declare show_nat.simps [simp del]

definition str_int :: "int \<Rightarrow> string" where
  "str_int i = (if i < 0 then CHR ''-'' # show_nat (nat (- i)) else show_nat (nat i))"

definition COORD_SUFFIX :: "string list" where
  "COORD_SUFFIX = [''P'', ''Q'']"

record run_meta =
  rm_run_name :: string
  rm_node_id :: int
  rm_neighbors :: "int list"
  rm_dim :: nat
  rm_state_columns :: "string list"
  rm_timing_columns :: "string list"
  rm_units :: string
  rm_samples :: nat
  rm_columns :: "string list"
  rm_record_bytes :: nat

definition log_column_names :: "run_meta \<Rightarrow> string list" where
  "log_column_names m =
     [''timestamp'', ''device_timestamp''] @ rm_timing_columns m @ rm_state_columns m @
     concat (map (\<lambda>nid.
       (if rm_dim m = 1 then [str_int nid]
        else map (\<lambda>c. str_int nid @ ''_'' @ c) (take (rm_dim m) COORD_SUFFIX)) @
       [''rx_'' @ str_int nid, ''seq_'' @ str_int nid, ''rssi_'' @ str_int nid]) (rm_neighbors m))"

subsection \<open>The log\<close>

datatype cell = CFloat f64 | CInt int | CNone

record run_log =
  lg_meta :: run_meta
  lg_flush_every :: nat
  lg_ncols :: nat
  lg_open :: bool
  lg_buf :: bytes
  lg_since_flush :: nat
  lg_count :: nat
  lg_file :: bytes
  lg_meta_file :: "run_meta option"
  lg_final_file :: "(run_meta \<times> (string \<times> cell list) list) option"

definition log_new :: "run_meta \<Rightarrow> nat \<Rightarrow> run_log result" where
  "log_new m flush_every =
     (if flush_every < 1 then Inl ValueError
      else
        let ncols = record_width (length (rm_neighbors m)) (length (rm_state_columns m))
                      (length (rm_timing_columns m)) (rm_dim m);
            m' = m\<lparr>rm_record_bytes := ncols * 8, rm_columns := log_column_names m\<rparr>
        in Inr \<lparr>lg_meta = m', lg_flush_every = flush_every, lg_ncols = ncols, lg_open = False, lg_buf = [],
                lg_since_flush = 0, lg_count = 0, lg_file = [], lg_meta_file = None, lg_final_file = None\<rparr>)"

definition log_write_meta :: "run_log \<Rightarrow> run_log" where
  "log_write_meta L =
     (let m = (lg_meta L)\<lparr>rm_samples := lg_count L\<rparr> in L\<lparr>lg_meta := m, lg_meta_file := Some m\<rparr>)"

definition log_start :: "run_log \<Rightarrow> run_log" where
  "log_start L = (log_write_meta L)\<lparr>lg_open := True, lg_file := [], lg_count := 0, lg_since_flush := 0\<rparr>"

definition log_flush :: "run_log \<Rightarrow> run_log" where
  "log_flush L =
     (if \<not> lg_open L \<or> lg_buf L = [] then L\<lparr>lg_since_flush := 0\<rparr>
      else L\<lparr>lg_file := lg_file L @ lg_buf L, lg_buf := [], lg_since_flush := 0\<rparr>)"

text \<open>The arguments of \<^verbatim>\<open>append\<close>; the defaults are \<open>None\<close> and the empty sequences.\<close>

record log_sample =
  sm_t :: f64
  sm_channels :: "f64 list"
  sm_vstates :: "f64 list"
  sm_fresh :: "bool list"
  sm_device_t :: "f64 option"
  sm_seq :: "f64 list"
  sm_rssi :: "f64 list"
  sm_timing :: "f64 list"

definition nth_or_zero :: "f64 list \<Rightarrow> nat \<Rightarrow> f64" where
  "nth_or_zero xs i = (if i < length xs then xs ! i else 0)"

definition sample_row :: "run_meta \<Rightarrow> log_sample \<Rightarrow> f64 list" where
  "sample_row m s =
     [sm_t s, case sm_device_t s of None \<Rightarrow> sm_t s | Some t \<Rightarrow> t] @ sm_timing s @ sm_channels s @
     concat (map (\<lambda>i.
       map (\<lambda>c. nth_or_zero (sm_vstates s) (i * rm_dim m + c)) [0..<rm_dim m] @
       [if i < length (sm_fresh s) \<and> sm_fresh s ! i then F_ONE else 0,
        nth_or_zero (sm_seq s) i, nth_or_zero (sm_rssi s) i]) [0..<length (rm_neighbors m)])"

definition log_append :: "run_log \<Rightarrow> log_sample \<Rightarrow> run_log result" where
  "log_append L s =
     (let m = lg_meta L in
      if \<not> lg_open L then Inl RuntimeError
      else if length (sm_timing s) \<noteq> length (rm_timing_columns m) then Inl ValueError
      else if length (sm_channels s) \<noteq> length (rm_state_columns m) then Inl ValueError
      else
        let row = sample_row m s in
        if length row \<noteq> lg_ncols L then Inl StructError
        else
          let L' = L\<lparr>lg_buf := lg_buf L @ pack_row row, lg_count := lg_count L + 1,
                     lg_since_flush := lg_since_flush L + 1\<rparr>
          in Inr (if lg_since_flush L' \<ge> lg_flush_every L' then log_flush L' else L'))"

definition log_close :: "run_log \<Rightarrow> run_log" where
  "log_close L = log_write_meta (if lg_open L then (log_flush L)\<lparr>lg_open := False\<rparr> else L)"

definition recover_rows :: "run_meta \<Rightarrow> bytes \<Rightarrow> f64 list list result" where
  "recover_rows m blob =
     (if rm_record_bytes m = 0 then Inl ValueError
      else
        let usable = length blob - length blob mod rm_record_bytes m; ncols = rm_record_bytes m div 8
        in Inr (map (\<lambda>k. unpack_row ncols (drop (k * rm_record_bytes m) blob))
                 [0..<usable div rm_record_bytes m]))"

definition is_rx :: "string \<Rightarrow> bool" where
  "is_rx name \<longleftrightarrow> take 3 name = ''rx_''"

text \<open>\<^verbatim>\<open>_transpose\<close>: columns are keyed by name, so equal names share one column.\<close>

definition transpose_cell :: "string \<Rightarrow> f64 list \<Rightarrow> nat \<Rightarrow> cell" where
  "transpose_cell name row i =
     (if i < length row then (if is_rx name then CInt (trunc_f64 (row ! i)) else CFloat (row ! i))
      else if is_rx name then CInt 0 else CNone)"

definition log_transpose :: "run_meta \<Rightarrow> f64 list list \<Rightarrow> (string \<times> cell list) list" where
  "log_transpose m rows =
     (let names = log_column_names m; kept = filter (\<lambda>r. \<not> length r < 5) rows in
      map (\<lambda>name. (name, concat (map (\<lambda>row.
         map (\<lambda>i. transpose_cell name row i) (filter (\<lambda>i. names ! i = name) [0..<length names])) kept)))
        (remdups names))"

definition log_finalize :: "run_log \<Rightarrow> run_log result" where
  "log_finalize L =
     (let L1 = log_close L in
      bindR (recover_rows (lg_meta L1) (lg_file L1)) (\<lambda>rows.
        Inr (L1\<lparr>lg_final_file := Some (lg_meta L1, log_transpose (lg_meta L1) rows)\<rparr>)))"

subsection \<open>Reading back\<close>

lemma unpack_row_take: "8 * n \<le> m \<Longrightarrow> unpack_row n (take m bs) = unpack_row n bs"
  by (induction n arbitrary: m bs) (simp_all add: drop_take min_def)

lemma length_unpack_row [simp]: "length (unpack_row n bs) = n"
  by (induction n arbitrary: bs) simp_all

definition rows_in :: "nat \<Rightarrow> bytes \<Rightarrow> f64 list list" where
  "rows_in n bs = map (\<lambda>k. unpack_row n (drop (k * (8 * n)) bs)) [0..<length bs div (8 * n)]"

lemma recover_rows_eq:
  assumes "rm_record_bytes m = 8 * n" and "0 < n"
  shows "recover_rows m blob = Inr (rows_in n blob)"
proof -
  have "(length blob - length blob mod (8 * n)) div (8 * n) = length blob div (8 * n)"
    using assms(2) by (simp add: minus_mod_eq_mult_div)
  then show ?thesis using assms by (simp add: recover_rows_def rows_in_def Let_def)
qed

lemma rows_in_take:
  assumes "0 < n"
  shows "rows_in n (take k bs) = take (k div (8 * n)) (rows_in n bs)"
proof (rule nth_equalityI)
  have "min (length bs) k div (8 * n) = min (k div (8 * n)) (length bs div (8 * n))"
    by (simp add: min_def div_le_mono) (metis div_le_mono le_antisym linear)
  then show len: "length (rows_in n (take k bs)) = length (take (k div (8 * n)) (rows_in n bs))"
    by (simp add: rows_in_def min.commute)
  fix i assume i: "i < length (rows_in n (take k bs))"
  then have "Suc i \<le> k div (8 * n)" "i < length bs div (8 * n)"
    using len by (simp_all add: rows_in_def)
  then have "Suc i * (8 * n) \<le> k" using assms by (simp add: less_eq_div_iff_mult_less_eq)
  then have "8 * n \<le> k - i * (8 * n)" by simp
  then have "unpack_row n (drop (i * (8 * n)) (take k bs)) = unpack_row n (drop (i * (8 * n)) bs)"
    by (simp only: drop_take unpack_row_take)
  with i \<open>i < length bs div (8 * n)\<close> len
  show "rows_in n (take k bs) ! i = take (k div (8 * n)) (rows_in n bs) ! i"
    by (simp add: rows_in_def)
qed

lemma rows_in_append:
  assumes "0 < n" and "length bs = k * (8 * n)" and "length row = n"
  shows "rows_in n (bs @ pack_row row) = rows_in n bs @ [row]"
proof -
  have len: "length (bs @ pack_row row) div (8 * n) = Suc k" using assms by simp
  have "rows_in n (bs @ pack_row row) =
      map (\<lambda>j. unpack_row n (drop (j * (8 * n)) (bs @ pack_row row))) [0..<k] @
      [unpack_row n (drop (k * (8 * n)) (bs @ pack_row row))]"
    unfolding rows_in_def len by simp
  moreover have "rows_in n bs = rows_in n (take (k * (8 * n)) (bs @ pack_row row))" using assms(2) by simp
  then have "rows_in n bs = take k (rows_in n (bs @ pack_row row))"
    using assms(1) by (simp only: rows_in_take) simp
  then have "rows_in n bs = map (\<lambda>j. unpack_row n (drop (j * (8 * n)) (bs @ pack_row row))) [0..<k]"
    unfolding rows_in_def [of n "bs @ pack_row row"] len by (simp add: take_map)
  moreover have "unpack_row n (drop (k * (8 * n)) (bs @ pack_row row)) = row"
    using unpack_row_pack [of row "[]"] assms(2,3) by simp
  ultimately show ?thesis by simp
qed

subsection \<open>The contract of an append-only log\<close>

text \<open>A sample is either refused, and nothing changes, or recorded at the end, as a row that does not
  depend on what has been recorded before.\<close>

locale append_log =
  fixes ok :: "'s \<Rightarrow> bool"
    and append :: "'s \<Rightarrow> 'r \<Rightarrow> 's result"
    and accepts :: "'s \<Rightarrow> 'r \<Rightarrow> bool"
    and row :: "'s \<Rightarrow> 'r \<Rightarrow> 'd"
    and content :: "'s \<Rightarrow> 'd list"
  assumes accept: "ok s \<Longrightarrow> accepts s r \<Longrightarrow> \<exists>s'. append s r = Inr s' \<and> ok s' \<and> content s' = content s @ [row s r] \<and>
            accepts s' = accepts s \<and> row s' = row s"
    and refuse: "ok s \<Longrightarrow> \<not> accepts s r \<Longrightarrow> \<exists>e. append s r = Inl e"
begin

text \<open>A caller that drops refused samples, as the relay's callback does.\<close>

definition append_or_drop :: "'s \<Rightarrow> 'r \<Rightarrow> 's" where
  "append_or_drop s r = (case append s r of Inl e \<Rightarrow> s | Inr s' \<Rightarrow> s')"

definition append_many :: "'s \<Rightarrow> 'r list \<Rightarrow> 's" where
  "append_many s rs = foldl append_or_drop s rs"

lemma append_or_drop_facts:
  assumes "ok s"
  shows "ok (append_or_drop s r)"
    and "content (append_or_drop s r) = content s @ (if accepts s r then [row s r] else [])"
    and "accepts (append_or_drop s r) = accepts s" and "row (append_or_drop s r) = row s"
  using accept [OF assms, of r] refuse [OF assms, of r] assms
  by (cases "accepts s r"; auto simp: append_or_drop_def)+

lemma append_many_refines:
  assumes "ok s"
  shows "ok (append_many s rs)"
    and "content (append_many s rs) = content s @ map (row s) (filter (accepts s) rs)"
proof -
  have "ok (append_many s rs) \<and> content (append_many s rs) = content s @ map (row s) (filter (accepts s) rs)"
    using assms
  proof (induction rs arbitrary: s)
    case (Cons r rs)
    from Cons.IH [OF append_or_drop_facts(1) [OF Cons.prems, of r]]
    show ?case by (simp add: append_many_def append_or_drop_facts [OF Cons.prems])
  qed (simp add: append_many_def)
  then show "ok (append_many s rs)"
    and "content (append_many s rs) = content s @ map (row s) (filter (accepts s) rs)" by blast+
qed

end

subsection \<open>The binary log meets it\<close>

definition log_ok :: "run_log \<Rightarrow> bool" where
  "log_ok L \<longleftrightarrow> lg_open L \<and> 0 < lg_ncols L \<and> rm_record_bytes (lg_meta L) = 8 * lg_ncols L \<and>
     lg_ncols L = record_width (length (rm_neighbors (lg_meta L))) (length (rm_state_columns (lg_meta L)))
                    (length (rm_timing_columns (lg_meta L))) (rm_dim (lg_meta L)) \<and>
     1 \<le> lg_flush_every L \<and> lg_since_flush L < lg_flush_every L \<and>
     length (lg_buf L) = lg_since_flush L * (8 * lg_ncols L) \<and>
     length (lg_file L) + length (lg_buf L) = lg_count L * (8 * lg_ncols L)"

definition log_accepts :: "run_log \<Rightarrow> log_sample \<Rightarrow> bool" where
  "log_accepts L s \<longleftrightarrow> length (sm_timing s) = length (rm_timing_columns (lg_meta L)) \<and>
     length (sm_channels s) = length (rm_state_columns (lg_meta L))"

definition log_content :: "run_log \<Rightarrow> f64 list list" where
  "log_content L = rows_in (lg_ncols L) (lg_file L @ lg_buf L)"

lemma sum_list_const: "(\<And>x. x \<in> set xs \<Longrightarrow> f x = c) \<Longrightarrow> sum_list (map f xs) = c * length xs" for c :: nat
  by (induction xs) auto

lemma length_sample_row:
  assumes "length (sm_timing s) = length (rm_timing_columns m)" "length (sm_channels s) = length (rm_state_columns m)"
  shows "length (sample_row m s) =
    record_width (length (rm_neighbors m)) (length (rm_state_columns m)) (length (rm_timing_columns m)) (rm_dim m)"
  using assms by (simp add: sample_row_def record_width_def length_concat comp_def sum_list_const algebra_simps)

lemma log_append_accept:
  assumes ok: "log_ok L" and acc: "log_accepts L s"
  shows "\<exists>L'. log_append L s = Inr L' \<and> log_ok L' \<and> log_content L' = log_content L @ [sample_row (lg_meta L) s] \<and>
    lg_meta L' = lg_meta L \<and> lg_count L' = lg_count L + 1"
proof -
  have len: "length (sample_row (lg_meta L) s) = lg_ncols L"
    using ok acc by (simp add: length_sample_row log_ok_def log_accepts_def)
  define L1 where "L1 = L\<lparr>lg_buf := lg_buf L @ pack_row (sample_row (lg_meta L) s), lg_count := lg_count L + 1,
      lg_since_flush := lg_since_flush L + 1\<rparr>"
  have app: "log_append L s = Inr (if lg_since_flush L1 \<ge> lg_flush_every L1 then log_flush L1 else L1)"
    using ok acc len by (simp add: log_append_def log_ok_def log_accepts_def Let_def L1_def)
  have "rows_in (lg_ncols L) ((lg_file L @ lg_buf L) @ pack_row (sample_row (lg_meta L) s)) =
      log_content L @ [sample_row (lg_meta L) s]"
    unfolding log_content_def using ok len
    by (intro rows_in_append [of _ _ "lg_count L"]) (auto simp: log_ok_def)
  then have c: "log_content L1 = log_content L @ [sample_row (lg_meta L) s]"
    by (simp add: log_content_def L1_def)
  have buf: "lg_open L1" "lg_buf L1 \<noteq> []" using ok len by (auto simp: L1_def log_ok_def dest: arg_cong [of _ _ length])
  show ?thesis
  proof (cases "lg_since_flush L1 \<ge> lg_flush_every L1")
    case True
    then show ?thesis using app c ok len buf
      by (auto simp: log_flush_def log_ok_def log_content_def L1_def algebra_simps)
  next
    case False
    then show ?thesis using app c ok len by (auto simp: log_ok_def L1_def algebra_simps)
  qed
qed

interpretation blog: append_log log_ok log_append log_accepts "\<lambda>L. sample_row (lg_meta L)" log_content
proof unfold_locales
  fix L r assume "log_ok L" "log_accepts L r"
  from log_append_accept [OF this]
  show "\<exists>s'. log_append L r = Inr s' \<and> log_ok s' \<and> log_content s' = log_content L @ [sample_row (lg_meta L) r] \<and>
         log_accepts s' = log_accepts L \<and> sample_row (lg_meta s') = sample_row (lg_meta L)"
    by (auto simp: log_accepts_def fun_eq_iff)
next
  fix L r assume "log_ok L" "\<not> log_accepts L r"
  then show "\<exists>e. log_append L r = Inl e" by (auto simp: log_append_def log_ok_def log_accepts_def Let_def)
qed

subsection \<open>What a run leaves behind\<close>

lemma log_start_ok:
  assumes "log_new m k = Inr L"
  shows "log_ok (log_start L)" and "log_content (log_start L) = []" and "lg_count (log_start L) = 0"
    and "lg_flush_every (log_start L) = k"
  using assms by (auto simp: log_new_def log_start_def log_write_meta_def Let_def log_ok_def record_width_def
      log_content_def rows_in_def split: if_splits)

lemma log_append_frame:
  assumes "log_append L s = Inr L'"
  shows "lg_ncols L' = lg_ncols L" and "lg_flush_every L' = lg_flush_every L" and "rm_record_bytes (lg_meta L') = rm_record_bytes (lg_meta L)"
    and "lg_count L' = lg_count L + 1"
  using assms by (auto simp: log_append_def Let_def log_flush_def split: if_splits)

lemma append_many_frame:
  "lg_ncols (blog.append_many L ss) = lg_ncols L"
  "lg_flush_every (blog.append_many L ss) = lg_flush_every L"
  "rm_record_bytes (lg_meta (blog.append_many L ss)) = rm_record_bytes (lg_meta L)"
proof -
  have "lg_ncols (blog.append_many L ss) = lg_ncols L \<and> lg_flush_every (blog.append_many L ss) = lg_flush_every L \<and>
      rm_record_bytes (lg_meta (blog.append_many L ss)) = rm_record_bytes (lg_meta L)"
  proof (induction ss arbitrary: L)
    case (Cons s ss)
    then show ?case
      by (cases "log_append L s") (auto simp: blog.append_many_def blog.append_or_drop_def log_append_frame)
  qed (simp add: blog.append_many_def)
  then show "lg_ncols (blog.append_many L ss) = lg_ncols L"
    and "lg_flush_every (blog.append_many L ss) = lg_flush_every L"
    and "rm_record_bytes (lg_meta (blog.append_many L ss)) = rm_record_bytes (lg_meta L)" by blast+
qed

lemma length_rows_in: "length (rows_in n bs) = length bs div (8 * n)"
  by (simp add: rows_in_def)

lemma log_ok_sizes:
  assumes "log_ok L"
  shows "length (lg_buf L) = lg_since_flush L * (8 * lg_ncols L)"
    and "length (lg_file L) + length (lg_buf L) = lg_count L * (8 * lg_ncols L)"
    and "lg_since_flush L < lg_flush_every L" and "0 < lg_ncols L"
  using assms unfolding log_ok_def by blast+

lemma log_count_content:
  assumes "log_ok L"
  shows "lg_count L = length (log_content L)"
proof -
  have "length (lg_file L @ lg_buf L) = lg_count L * (8 * lg_ncols L)" "0 < lg_ncols L"
    using assms by (auto simp: log_ok_def)
  then show ?thesis by (simp only: log_content_def length_rows_in) simp
qed

definition log_after :: "run_log \<Rightarrow> log_sample list \<Rightarrow> run_log" where
  "log_after L0 samples = blog.append_many (log_start L0) samples"

definition accepted_rows :: "run_log \<Rightarrow> log_sample list \<Rightarrow> f64 list list" where
  "accepted_rows L0 samples =
     map (sample_row (lg_meta (log_start L0))) (filter (log_accepts (log_start L0)) samples)"

text \<open>C13: The rows file of a run that is cut off anywhere, at any byte, reads back as the rows of the
  accepted samples in order, up to some point: nothing is invented, reordered or garbled by a torn
  tail. If the file was not cut, at most \<open>flush_every - 1\<close> of the newest rows are missing.\<close>

theorem log_crash_prefix:
  assumes "log_new m k = Inr L0"
  shows "\<exists>j. recover_rows (lg_meta (log_after L0 samples)) (take torn (lg_file (log_after L0 samples))) =
               Inr (take j (accepted_rows L0 samples)) \<and>
             (length (lg_file (log_after L0 samples)) \<le> torn \<longrightarrow> length (accepted_rows L0 samples) < j + k)"
proof -
  define L where "L = log_after L0 samples"
  define rows where "rows = accepted_rows L0 samples"
  note st = log_start_ok [OF assms(1)]
  have ok: "log_ok L" and c: "log_content L = rows"
    unfolding L_def rows_def log_after_def accepted_rows_def
    using blog.append_many_refines [OF st(1)] st(2) by simp_all
  let ?n = "lg_ncols L"
  have n: "0 < ?n" "rm_record_bytes (lg_meta L) = 8 * ?n" using ok by (auto simp: log_ok_def)
  have "take torn (lg_file L) = take (min torn (length (lg_file L))) (lg_file L @ lg_buf L)" by (simp add: min_def)
  then have "rows_in ?n (take torn (lg_file L)) = take (min torn (length (lg_file L)) div (8 * ?n)) rows"
    by (simp only: rows_in_take [OF n(1)] c [unfolded log_content_def])
  then have r: "recover_rows (lg_meta L) (take torn (lg_file L)) = Inr (take (min torn (length (lg_file L)) div (8 * ?n)) rows)"
    by (simp add: recover_rows_eq [OF n(2,1)])
  moreover have "length rows < min torn (length (lg_file L)) div (8 * ?n) + k" if "length (lg_file L) \<le> torn"
  proof -
    have k: "lg_flush_every L = k" using append_many_frame(2) st(4) by (simp add: L_def log_after_def)
    have "length (lg_file L) + lg_since_flush L * (8 * ?n) = length rows * (8 * ?n)"
      using log_ok_sizes [OF ok] log_count_content [OF ok] c by simp
    moreover have "lg_since_flush L < k" using log_ok_sizes(3) [OF ok] k by simp
    moreover from calculation(1) have "length (lg_file L) = (length rows - lg_since_flush L) * (8 * ?n)"
      by (simp add: diff_mult_distrib)
    ultimately show ?thesis using that n(1) by (simp add: min_absorb2)
  qed
  ultimately show ?thesis unfolding L_def rows_def by blast
qed

lemma log_column_names_samples: "log_column_names (m\<lparr>rm_samples := k\<rparr>) = log_column_names m"
  by (simp add: log_column_names_def cong: if_cong)

lemma log_finalize_ok:
  assumes "log_ok L"
  obtains L' where "log_finalize L = Inr L'" "\<not> lg_open L'" "lg_meta L' = (lg_meta L)\<lparr>rm_samples := lg_count L\<rparr>"
    "lg_count L' = lg_count L" "lg_meta_file L' = Some (lg_meta L')"
    "lg_final_file L' = Some (lg_meta L', log_transpose (lg_meta L) (log_content L))"
    "recover_rows (lg_meta L') (lg_file L') = Inr (log_content L)"
proof -
  have op: "lg_open L" and n: "0 < lg_ncols L" "rm_record_bytes (lg_meta L) = 8 * lg_ncols L"
    using assms by (auto simp: log_ok_def)
  define L1 where "L1 = log_close L"
  have L1: "lg_file L1 = lg_file L @ lg_buf L" "lg_meta L1 = (lg_meta L)\<lparr>rm_samples := lg_count L\<rparr>" "\<not> lg_open L1"
      "lg_count L1 = lg_count L" "lg_meta_file L1 = Some (lg_meta L1)"
    using op by (auto simp: L1_def log_close_def log_flush_def log_write_meta_def Let_def)
  have r: "recover_rows (lg_meta L1) (lg_file L1) = Inr (log_content L)"
    using n by (simp add: L1 recover_rows_eq log_content_def)
  have t: "log_transpose (lg_meta L1) (log_content L) = log_transpose (lg_meta L) (log_content L)"
    unfolding L1(2) by (simp only: log_transpose_def log_column_names_samples)
  define L2 where "L2 = L1\<lparr>lg_final_file := Some (lg_meta L1, log_transpose (lg_meta L) (log_content L))\<rparr>"
  show ?thesis
  proof (rule that [of L2])
    show "log_finalize L = Inr L2"
      using r t by (simp add: log_finalize_def Let_def L1_def [symmetric] L2_def)
  qed (use L1 r in \<open>simp_all add: L2_def\<close>)
qed

text \<open>A run that is finalized loses nothing: the columnar file is the transposition of exactly the
  rows of the accepted samples, in order, and the metadata in it counts them.\<close>

theorem finalize_complete:
  assumes "log_new m k = Inr L0"
  shows "\<exists>L md. log_finalize (log_after L0 samples) = Inr L \<and> \<not> lg_open L \<and>
           lg_final_file L = Some (md, log_transpose (lg_meta (log_after L0 samples)) (accepted_rows L0 samples)) \<and>
           rm_samples md = length (accepted_rows L0 samples) \<and>
           recover_rows md (lg_file L) = Inr (accepted_rows L0 samples)"
proof -
  note st = log_start_ok [OF assms]
  have ok: "log_ok (log_after L0 samples)" and c: "log_content (log_after L0 samples) = accepted_rows L0 samples"
    unfolding log_after_def accepted_rows_def using blog.append_many_refines [OF st(1)] st(2) by simp_all
  obtain L' where "log_finalize (log_after L0 samples) = Inr L'" "\<not> lg_open L'"
      "lg_meta L' = (lg_meta (log_after L0 samples))\<lparr>rm_samples := lg_count (log_after L0 samples)\<rparr>"
      "lg_final_file L' = Some (lg_meta L', log_transpose (lg_meta (log_after L0 samples)) (accepted_rows L0 samples))"
      "recover_rows (lg_meta L') (lg_file L') = Inr (accepted_rows L0 samples)"
    by (rule log_finalize_ok [OF ok]) (simp add: c)
  then show ?thesis using log_count_content [OF ok] c by auto
qed

text \<open>With two coordinates per neighbour the row expects two values each. Given one value per
  neighbour, as a board's report carries, the row puts the second neighbour's value in the column of
  the first neighbour's second coordinate, and zeros in the second neighbour's columns.\<close>

theorem two_coordinates_misplace:
  assumes "rm_dim m = 2" and "rm_neighbors m = [a, b]" and "sm_vstates s = [x, y]"
    and "length (sm_channels s) = length (rm_state_columns m)" and "length (sm_timing s) = length (rm_timing_columns m)"
  shows "let base = 2 + length (rm_timing_columns m) + length (rm_state_columns m) in
           map (\<lambda>i. (log_column_names m ! (base + i), sample_row m s ! (base + i))) [0, 1, 5, 6] =
           [(str_int a @ ''_P'', x), (str_int a @ ''_Q'', y), (str_int b @ ''_P'', 0), (str_int b @ ''_Q'', 0)]"
  using assms by (simp add: log_column_names_def sample_row_def COORD_SUFFIX_def nth_or_zero_def upt_rec nth_append)

definition demo_meta :: run_meta where
  "demo_meta = \<lparr>rm_run_name = ''r'', rm_node_id = 1, rm_neighbors = [2, 3], rm_dim = 2, rm_state_columns = [''state''],
     rm_timing_columns = [], rm_units = ''engineering'', rm_samples = 0, rm_columns = [], rm_record_bytes = 0\<rparr>"

definition demo_sample :: "f64 list \<Rightarrow> log_sample" where
  "demo_sample chans = \<lparr>sm_t = F_ONE, sm_channels = chans, sm_vstates = [7, 9], sm_fresh = [True, False], sm_device_t = None,
     sm_seq = [], sm_rssi = [], sm_timing = []\<rparr>"

lemma demo_log:
  "\<exists>L0. log_new demo_meta 2 = Inr L0 \<and> length (accepted_rows L0 [demo_sample [1], demo_sample [], demo_sample [5]]) = 2"
  by (simp add: log_new_def Let_def accepted_rows_def log_accepts_def demo_sample_def log_start_def log_write_meta_def demo_meta_def)

theorem log_crash_prefix_witness:
  "\<exists>L0. log_new demo_meta 2 = Inr L0 \<and>
     (\<exists>j. recover_rows (lg_meta (log_after L0 [demo_sample [1], demo_sample [], demo_sample [5]]))
        (take 100 (lg_file (log_after L0 [demo_sample [1], demo_sample [], demo_sample [5]]))) =
        Inr (take j (accepted_rows L0 [demo_sample [1], demo_sample [], demo_sample [5]])))"
  using log_crash_prefix demo_log by blast

theorem finalize_complete_witness:
  "\<exists>L0 L md. log_new demo_meta 2 = Inr L0 \<and>
     log_finalize (log_after L0 [demo_sample [1], demo_sample [], demo_sample [5]]) = Inr L \<and> \<not> lg_open L \<and>
     recover_rows md (lg_file L) = Inr (accepted_rows L0 [demo_sample [1], demo_sample [], demo_sample [5]]) \<and> rm_samples md = 2"
proof -
  obtain L0 where L0: "log_new demo_meta 2 = Inr L0" "length (accepted_rows L0 [demo_sample [1], demo_sample [], demo_sample [5]]) = 2"
    using demo_log by blast
  from finalize_complete [OF L0(1), of "[demo_sample [1], demo_sample [], demo_sample [5]]"] L0 show ?thesis by auto
qed

theorem two_coordinates_misplace_witness:
  "(log_column_names demo_meta ! 4, sample_row demo_meta (demo_sample [1]) ! 4) = (''2_Q'', 9) \<and>
   (log_column_names demo_meta ! 8, sample_row demo_meta (demo_sample [1]) ! 8) = (''3_P'', 0)"
proof -
  have "str_int 2 = ''2''" "str_int 3 = ''3''" by code_simp+
  then show ?thesis
    using two_coordinates_misplace [of demo_meta 2 3 "demo_sample [1]" 7 9]
    by (simp add: demo_meta_def demo_sample_def)
qed

end
