(* ===== verification/Control.thy ===== *)
theory Control
  imports Bytes
begin

section \<open>The control channel between hub and agent (control/)\<close>

text \<open>
  A message is one JSON object on one line; a blob response is followed by its raw bytes.
  \<open>reader\<close> is an asyncio stream: what is buffered, and what will still arrive, in whatever
  pieces the network chooses (\<open>None\<close> is a silence longer than the timeout in force, the end of
  the list the end of the stream). \<open>read_until\<close> and \<open>read_some\<close> are \<^verbatim>\<open>readuntil(b"\n")\<close> with
  the buffer limit of \<^verbatim>\<open>start_server\<close> and \<^verbatim>\<open>open_connection\<close>, and \<^verbatim>\<open>read(n)\<close>. The JSON codec
  is the parameter \<open>json_lib\<close>. \<open>serve\<close> is the server's loop for one connection over handlers
  that act on the agent's state \<open>'s\<close>, \<open>client_call\<close> the client's side. Of pydantic's coercions
  only those between JSON numbers and booleans are modelled. Sockets are not.
\<close>

subsection \<open>Messages (control/protocol.py)\<close>

datatype json = JNull | JBool bool | JInt int | JFloat real | JStr string | JArr "json list" | JObj "(string \<times> json) list"

type_synonym jdict = "(string \<times> json) list"

record json_lib =
  jl_dumps :: "json \<Rightarrow> bytes"
  jl_loads :: "bytes \<Rightarrow> json option"

definition NEWLINE :: byte where
  "NEWLINE = 10"

text \<open>What is relied on of the codec for one value: it is written without a newline and reads back
  as itself (as Python's does for dictionaries with string keys and finite floats).\<close>

definition json_ok :: "json_lib \<Rightarrow> json \<Rightarrow> bool" where
  "json_ok jl v \<longleftrightarrow> jl_loads jl (jl_dumps jl v) = Some v \<and> NEWLINE \<notin> set (jl_dumps jl v)"

definition PROTOCOL_VERSION :: int where
  "PROTOCOL_VERSION = 1"

definition MAX_LINE :: nat where
  "MAX_LINE = 1048576"

definition COMMANDS :: "string list" where
  "COMMANDS = [''status'', ''configure'', ''start'', ''stop'', ''list_runs'', ''fetch'']"

record request =
  rq_command :: string
  rq_args :: jdict
  rq_version :: int

record response =
  rp_ok :: bool
  rp_kind :: string
  rp_data :: jdict
  rp_error :: "string option"
  rp_n_bytes :: int
  rp_name :: string
  rp_version :: int

definition ok_response :: "jdict \<Rightarrow> response" where
  "ok_response d = \<lparr>rp_ok = True, rp_kind = ''json'', rp_data = d, rp_error = None, rp_n_bytes = 0, rp_name = [],
                    rp_version = PROTOCOL_VERSION\<rparr>"

definition fail_response :: "string \<Rightarrow> response" where
  "fail_response e = \<lparr>rp_ok = False, rp_kind = ''json'', rp_data = [], rp_error = Some e, rp_n_bytes = 0, rp_name = [],
                      rp_version = PROTOCOL_VERSION\<rparr>"

definition request_json :: "request \<Rightarrow> json" where
  "request_json r =
     JObj [(''command'', JStr (rq_command r)), (''args'', JObj (rq_args r)), (''version'', JInt (rq_version r))]"

definition response_json :: "response \<Rightarrow> json" where
  "response_json r =
     JObj [(''ok'', JBool (rp_ok r)), (''kind'', JStr (rp_kind r)), (''data'', JObj (rp_data r)),
       (''error'', case rp_error r of None \<Rightarrow> JNull | Some e \<Rightarrow> JStr e), (''n_bytes'', JInt (rp_n_bytes r)),
       (''name'', JStr (rp_name r)), (''version'', JInt (rp_version r))]"

definition encode_request :: "json_lib \<Rightarrow> request \<Rightarrow> bytes" where
  "encode_request jl r = jl_dumps jl (request_json r) @ [NEWLINE]"

definition encode_response :: "json_lib \<Rightarrow> response \<Rightarrow> bytes" where
  "encode_response jl r = jl_dumps jl (response_json r) @ [NEWLINE]"

definition parse_line :: "json_lib \<Rightarrow> bytes \<Rightarrow> jdict result" where
  "parse_line jl line =
     (if length line > MAX_LINE then Inl ProtocolError
      else case jl_loads jl line of Some (JObj o') \<Rightarrow> Inr o' | _ \<Rightarrow> Inl ProtocolError)"

fun as_int :: "json \<Rightarrow> int option" where
  "as_int (JInt n) = Some n"
| "as_int (JBool b) = Some (if b then 1 else 0)"
| "as_int (JFloat x) = (if x = of_int \<lfloor>x\<rfloor> then Some \<lfloor>x\<rfloor> else None)"
| "as_int _ = None"

fun as_bool :: "json \<Rightarrow> bool option" where
  "as_bool (JBool b) = Some b"
| "as_bool (JInt n) = (if n = 0 then Some False else if n = 1 then Some True else None)"
| "as_bool (JFloat x) = (if x = 0 then Some False else if x = 1 then Some True else None)"
| "as_bool _ = None"

fun as_str :: "json \<Rightarrow> string option" where
  "as_str (JStr s) = Some s"
| "as_str _ = None"

fun as_opt_str :: "json \<Rightarrow> string option option" where
  "as_opt_str JNull = Some None"
| "as_opt_str v = map_option Some (as_str v)"

fun as_dict :: "json \<Rightarrow> jdict option" where
  "as_dict (JObj d) = Some d"
| "as_dict _ = None"

text \<open>A field with its default; the version must equal ours, as Python compares numbers.\<close>

definition field_or :: "(json \<Rightarrow> 'a option) \<Rightarrow> jdict \<Rightarrow> string \<Rightarrow> 'a \<Rightarrow> 'a result" where
  "field_or conv d k dflt =
     (case map_of d k of None \<Rightarrow> Inr dflt
      | Some v \<Rightarrow> (case conv v of None \<Rightarrow> Inl ProtocolError | Some x \<Rightarrow> Inr x))"

definition required :: "(json \<Rightarrow> 'a option) \<Rightarrow> jdict \<Rightarrow> string \<Rightarrow> 'a result" where
  "required conv d k =
     (case map_of d k of None \<Rightarrow> Inl ProtocolError
      | Some v \<Rightarrow> (case conv v of None \<Rightarrow> Inl ProtocolError | Some x \<Rightarrow> Inr x))"

definition check_version :: "jdict \<Rightarrow> unit result" where
  "check_version d =
     (case map_of d ''version'' of
        None \<Rightarrow> Inr ()
      | Some v \<Rightarrow> if as_int v = Some PROTOCOL_VERSION then Inr () else Inl ProtocolError)"

definition decode_request :: "json_lib \<Rightarrow> bytes \<Rightarrow> request result" where
  "decode_request jl line =
     bindR (parse_line jl line) (\<lambda>d.
     bindR (check_version d) (\<lambda>_.
     bindR (raise_if (\<not> fst ` set d \<subseteq> {''command'', ''args'', ''version''}) ProtocolError) (\<lambda>_.
     bindR (required as_str d ''command'') (\<lambda>c.
     bindR (raise_if (c \<notin> set COMMANDS) ProtocolError) (\<lambda>_.
     bindR (field_or as_dict d ''args'' []) (\<lambda>args.
     bindR (field_or as_int d ''version'' PROTOCOL_VERSION) (\<lambda>v.
       Inr \<lparr>rq_command = c, rq_args = args, rq_version = v\<rparr>)))))))"

definition decode_response :: "json_lib \<Rightarrow> bytes \<Rightarrow> response result" where
  "decode_response jl line =
     bindR (parse_line jl line) (\<lambda>d.
     bindR (check_version d) (\<lambda>_.
     bindR (raise_if (\<not> fst ` set d \<subseteq> {''ok'', ''kind'', ''data'', ''error'', ''n_bytes'', ''name'', ''version''}) ProtocolError) (\<lambda>_.
     bindR (required as_bool d ''ok'') (\<lambda>ok.
     bindR (field_or as_str d ''kind'' ''json'') (\<lambda>kind.
     bindR (raise_if (kind \<notin> {''json'', ''blob''}) ProtocolError) (\<lambda>_.
     bindR (field_or as_dict d ''data'' []) (\<lambda>data.
     bindR (field_or as_opt_str d ''error'' None) (\<lambda>err.
     bindR (field_or as_int d ''n_bytes'' 0) (\<lambda>n.
     bindR (field_or as_str d ''name'' []) (\<lambda>name.
     bindR (field_or as_int d ''version'' PROTOCOL_VERSION) (\<lambda>v.
       Inr \<lparr>rp_ok = ok, rp_kind = kind, rp_data = data, rp_error = err, rp_n_bytes = n, rp_name = name,
            rp_version = v\<rparr>)))))))))))"

subsection \<open>Streams (control/transport.py)\<close>

type_synonym reader = "bytes \<times> bytes option list"

datatype line_read = Line bytes | Incomplete bytes | Overrun | LineTimeout

definition STREAM_LIMIT :: nat where
  "STREAM_LIMIT = 65536"

fun read_until :: "bool \<Rightarrow> bytes \<Rightarrow> bytes option list \<Rightarrow> reader \<times> line_read" where
  "read_until timed buf feed =
     (if NEWLINE \<in> set buf then
        let k = length (takeWhile (\<lambda>b. b \<noteq> NEWLINE) buf) in
        if k > STREAM_LIMIT then ((buf, feed), Overrun) else ((drop (k + 1) buf, feed), Line (take (k + 1) buf))
      else if length buf > STREAM_LIMIT then ((buf, feed), Overrun)
      else case feed of
        [] \<Rightarrow> (([], []), Incomplete buf)
      | None # feed' \<Rightarrow> if timed then ((buf, feed'), LineTimeout) else read_until timed buf feed'
      | Some d # feed' \<Rightarrow> read_until timed (buf @ d) feed')"

definition rstrip_newlines :: "bytes \<Rightarrow> bytes" where
  "rstrip_newlines line = rev (dropWhile (\<lambda>b. b = NEWLINE) (rev line))"

definition read_line :: "bool \<Rightarrow> reader \<Rightarrow> reader \<times> bytes option result" where
  "read_line timed r =
     (case read_until timed (fst r) (snd r) of
        (r', Line l) \<Rightarrow> (r', Inr (Some (rstrip_newlines l)))
      | (r', Incomplete partial) \<Rightarrow> (r', if partial = [] then Inr None else Inl ProtocolError)
      | (r', Overrun) \<Rightarrow> (r', Inl ProtocolError)
      | (r', LineTimeout) \<Rightarrow> (r', Inl TimeoutError))"

definition read_request :: "json_lib \<Rightarrow> reader \<Rightarrow> reader \<times> request option result" where
  "read_request jl r =
     (let (r', l) = read_line False r in
      (r', bindR l (\<lambda>line. case line of None \<Rightarrow> Inr None
             | Some b \<Rightarrow> bindR (decode_request jl b) (\<lambda>q. Inr (Some q)))))"

definition read_response :: "json_lib \<Rightarrow> reader \<Rightarrow> reader \<times> response option result" where
  "read_response jl r =
     (let (r', l) = read_line True r in
      (r', bindR l (\<lambda>line. case line of None \<Rightarrow> Inr None
             | Some b \<Rightarrow> bindR (decode_response jl b) (\<lambda>q. Inr (Some q)))))"

definition write_response :: "json_lib \<Rightarrow> response \<Rightarrow> bytes option \<Rightarrow> bytes result" where
  "write_response jl resp blob =
     bindR (if rp_kind resp = ''blob'' then
              (case blob of None \<Rightarrow> Inl ValueError
               | Some b \<Rightarrow> if rp_n_bytes resp \<noteq> int (length b) then Inl ValueError else Inr ())
            else Inr ())
       (\<lambda>_. Inr (encode_response jl resp @
              (if rp_kind resp = ''blob'' then (case blob of None \<Rightarrow> [] | Some b \<Rightarrow> b) else [])))"

definition BLOB_CHUNK :: nat where
  "BLOB_CHUNK = 65536"

fun read_some :: "nat \<Rightarrow> bool \<Rightarrow> bytes \<Rightarrow> bytes option list \<Rightarrow> reader \<times> bytes option" where
  "read_some n timed buf feed =
     (if buf \<noteq> [] then ((drop n buf, feed), Some (take n buf))
      else case feed of
        [] \<Rightarrow> (([], []), Some [])
      | None # feed' \<Rightarrow> if timed then (([], feed'), None) else read_some n timed [] feed'
      | Some d # feed' \<Rightarrow> read_some n timed d feed')"

declare read_until.simps [simp del] read_some.simps [simp del]

function read_blob_loop :: "bool \<Rightarrow> int \<Rightarrow> reader \<Rightarrow> bytes \<Rightarrow> reader \<times> bytes result" where
  "read_blob_loop timed n r acc =
     (if \<not> int (length acc) < n then (r, Inr acc)
      else case read_some (min BLOB_CHUNK (nat n - length acc)) timed (fst r) (snd r) of
        (r', None) \<Rightarrow> (r', Inl ProtocolError)
      | (r', Some chunk) \<Rightarrow>
          if chunk = [] then (r', Inl ProtocolError) else read_blob_loop timed n r' (acc @ chunk))"
  by pat_completeness auto
termination
  by (relation "measure (\<lambda>(timed, n, r, acc). nat n - length acc)") (auto intro!: diff_less_mono2)

declare read_blob_loop.simps [simp del]

definition read_blob :: "bool \<Rightarrow> reader \<Rightarrow> int \<Rightarrow> reader \<times> bytes result" where
  "read_blob timed r n = (if n = 0 then (r, Inr []) else read_blob_loop timed n r [])"

subsection \<open>Whatever the pieces\<close>

definition stream_bytes :: "reader \<Rightarrow> bytes" where
  "stream_bytes r = fst r @ concat (map (\<lambda>x. case x of None \<Rightarrow> [] | Some d \<Rightarrow> d) (snd r))"

definition silent_free :: "reader \<Rightarrow> bool" where
  "silent_free r \<longleftrightarrow> None \<notin> set (snd r)"

lemma takeWhile_line: "NEWLINE \<notin> set l \<Longrightarrow> takeWhile (\<lambda>b. b \<noteq> NEWLINE) (l @ NEWLINE # rest) = l"
  by (induction l) auto

lemma read_until_line:
  assumes "stream_bytes (buf, feed) = l @ NEWLINE # rest" and "NEWLINE \<notin> set l" and "length l \<le> STREAM_LIMIT"
    and "\<not> timed \<or> None \<notin> set feed"
  shows "\<exists>buf' feed'. read_until timed buf feed = ((buf', feed'), Line (l @ [NEWLINE])) \<and>
           stream_bytes (buf', feed') = rest \<and> set feed' \<subseteq> set feed"
  using assms
proof (induction timed buf feed rule: read_until.induct)
  case (1 timed buf feed)
  show ?case
  proof (cases "NEWLINE \<in> set buf")
    case True
    then obtain a b where ab: "buf = a @ NEWLINE # b" "NEWLINE \<notin> set a" by (meson split_list_first)
    have "a = l" "b @ concat (map (\<lambda>x. case x of None \<Rightarrow> [] | Some d \<Rightarrow> d) feed) = rest"
    proof -
      have "takeWhile (\<lambda>x. x \<noteq> NEWLINE) (stream_bytes (buf, feed)) = a"
        by (simp add: stream_bytes_def ab(1) takeWhile_line [OF ab(2)])
      then show a: "a = l" using 1(3,4) takeWhile_line by metis
      show "b @ concat (map (\<lambda>x. case x of None \<Rightarrow> [] | Some d \<Rightarrow> d) feed) = rest"
        using 1(3) by (simp add: stream_bytes_def ab(1) a)
    qed
    then show ?thesis using 1(5) ab takeWhile_line [OF ab(2)]
      by (subst read_until.simps) (simp add: Let_def stream_bytes_def)
  next
    case False
    have "length buf \<le> length l"
    proof (rule ccontr)
      assume "\<not> length buf \<le> length l"
      then have "NEWLINE \<in> set buf" using 1(3)
        by (metis (no_types, lifting) append_eq_append_conv_if fst_conv in_set_conv_nth length_append nth_append_length
            nth_append not_le stream_bytes_def)
      then show False using False by simp
    qed
    then have short: "\<not> length buf > STREAM_LIMIT" using 1(5) by simp
    show ?thesis
    proof (cases feed)
      case Nil
      then show ?thesis using 1(3) False by (simp add: stream_bytes_def)
    next
      case (Cons x feed')
      show ?thesis
      proof (cases x)
        case None
        with 1(6) Cons have nt: "\<not> timed" by auto
        have "\<exists>buf' f'. read_until timed buf feed' = ((buf', f'), Line (l @ [NEWLINE])) \<and>
           stream_bytes (buf', f') = rest \<and> set f' \<subseteq> set feed'"
          using 1(3-5) False short Cons None nt by (intro 1(1)) (auto simp: stream_bytes_def)
        then show ?thesis using False short Cons None nt by (subst read_until.simps) auto
      next
        case (Some d)
        have "\<exists>buf' f'. read_until timed (buf @ d) feed' = ((buf', f'), Line (l @ [NEWLINE])) \<and>
           stream_bytes (buf', f') = rest \<and> set f' \<subseteq> set feed'"
          using 1(3-6) False short Cons Some by (intro 1(2)) (auto simp: stream_bytes_def)
        then show ?thesis using False short Cons Some by (subst read_until.simps) auto
      qed
    qed
  qed
qed

lemma read_until_long:
  assumes "stream_bytes (buf, feed) = l @ NEWLINE # rest" and "NEWLINE \<notin> set l" and "STREAM_LIMIT < length l"
    and "\<not> timed \<or> None \<notin> set feed"
  shows "snd (read_until timed buf feed) = Overrun"
  using assms
proof (induction timed buf feed rule: read_until.induct)
  case (1 timed buf feed)
  show ?case
  proof (cases "NEWLINE \<in> set buf")
    case True
    then obtain a b where ab: "buf = a @ NEWLINE # b" "NEWLINE \<notin> set a" by (meson split_list_first)
    have "takeWhile (\<lambda>x. x \<noteq> NEWLINE) (stream_bytes (buf, feed)) = a"
      by (simp add: stream_bytes_def ab(1) takeWhile_line [OF ab(2)])
    then have "a = l" using 1(3,4) takeWhile_line by metis
    then show ?thesis using 1(5) ab takeWhile_line [OF ab(2)] by (subst read_until.simps) (simp add: Let_def)
  next
    case False
    show ?thesis
    proof (cases "length buf > STREAM_LIMIT")
      case True
      then show ?thesis using False by (subst read_until.simps) simp
    next
      case short: False
      show ?thesis
      proof (cases feed)
        case Nil
        then show ?thesis using 1(3) False by (simp add: stream_bytes_def)
      next
        case (Cons x feed')
        show ?thesis
        proof (cases x)
          case None
          with 1(6) Cons have nt: "\<not> timed" by auto
          have "snd (read_until timed buf feed') = Overrun"
            using 1(3-5) False short Cons None nt by (intro 1(1)) (auto simp: stream_bytes_def)
          then show ?thesis using False short Cons None nt by (subst read_until.simps) auto
        next
          case (Some d)
          have "snd (read_until timed (buf @ d) feed') = Overrun"
            using 1(3-6) False short Cons Some by (intro 1(2)) (auto simp: stream_bytes_def)
          then show ?thesis using False short Cons Some by (subst read_until.simps) auto
        qed
      qed
    qed
  qed
qed

lemma rstrip_line: "NEWLINE \<notin> set l \<Longrightarrow> rstrip_newlines (l @ [NEWLINE]) = l"
  by (induction l rule: rev_induct) (auto simp: rstrip_newlines_def)

lemma read_line_ok:
  assumes "stream_bytes r = l @ NEWLINE # rest" and "NEWLINE \<notin> set l" and "length l \<le> STREAM_LIMIT"
    and "\<not> timed \<or> silent_free r"
  obtains r' where "read_line timed r = (r', Inr (Some l))" "stream_bytes r' = rest" "set (snd r') \<subseteq> set (snd r)"
proof -
  obtain buf feed where r: "r = (buf, feed)" by (cases r)
  have "\<exists>buf' feed'. read_until timed buf feed = ((buf', feed'), Line (l @ [NEWLINE])) \<and>
           stream_bytes (buf', feed') = rest \<and> set feed' \<subseteq> set feed"
    using assms by (intro read_until_line) (auto simp: r silent_free_def)
  then show ?thesis using that by (auto simp: r read_line_def rstrip_line [OF assms(2)])
qed

lemma read_until_end:
  assumes "stream_bytes (buf, feed) = []" and "\<not> timed"
  shows "read_until timed buf feed = (([], []), Incomplete [])"
  using assms
proof (induction timed buf feed rule: read_until.induct)
  case (1 timed buf feed)
  then have buf: "buf = []" by (simp add: stream_bytes_def)
  show ?case
  proof (cases feed)
    case (Cons x feed')
    have "read_until timed (case x of None \<Rightarrow> buf | Some d \<Rightarrow> buf @ d) feed' = (([], []), Incomplete [])"
    proof (cases x)
      case None
      then show ?thesis using 1(3,4) Cons buf 1(1) [OF _ _ Cons None] by (simp add: stream_bytes_def)
    next
      case (Some d)
      then show ?thesis using 1(3,4) Cons buf 1(2) [OF _ _ Cons Some] by (simp add: stream_bytes_def)
    qed
    then show ?thesis using Cons 1(4) buf by (subst read_until.simps) (auto split: option.splits)
  qed (subst read_until.simps, simp add: buf)
qed

lemma read_line_end: "stream_bytes r = [] \<Longrightarrow> read_line False r = (([], []), Inr None)"
  using read_until_end [of "fst r" "snd r" False] by (simp add: read_line_def)

subsection \<open>Blobs\<close>

lemma read_some_facts:
  assumes "0 < n" and "\<not> timed \<or> None \<notin> set feed"
  shows "\<exists>r' c. read_some n timed buf feed = (r', Some c) \<and> c @ stream_bytes r' = stream_bytes (buf, feed) \<and>
           length c \<le> n \<and> (c = [] \<longleftrightarrow> stream_bytes (buf, feed) = []) \<and> set (snd r') \<subseteq> set feed"
  using assms
proof (induction n timed buf feed rule: read_some.induct)
  case (1 n timed buf feed)
  show ?case
  proof (cases "buf = []")
    case False
    then show ?thesis using 1(3) by (subst read_some.simps) (auto simp: stream_bytes_def)
  next
    case True
    show ?thesis
    proof (cases feed)
      case Nil
      then show ?thesis using True by (subst read_some.simps) (auto simp: stream_bytes_def)
    next
      case (Cons x feed')
      show ?thesis
      proof (cases x)
        case None
        with 1(4) Cons have nt: "\<not> timed" by auto
        from 1(1) [OF _ Cons None nt] 1(3) nt True None Cons show ?thesis
          by (subst read_some.simps) (auto simp: stream_bytes_def)
      next
        case (Some d)
        from 1(2) [OF _ Cons Some] 1(3,4) True Some Cons show ?thesis
          by (subst read_some.simps) (auto simp: stream_bytes_def)
      qed
    qed
  qed
qed

lemma read_blob_loop_spec:
  assumes "\<not> timed \<or> silent_free r" and "int (length acc) \<le> n"
  defines "k \<equiv> nat n - length acc"
  shows "if k \<le> length (stream_bytes r)
         then \<exists>r'. read_blob_loop timed n r acc = (r', Inr (acc @ take k (stream_bytes r))) \<and>
                stream_bytes r' = drop k (stream_bytes r) \<and> set (snd r') \<subseteq> set (snd r)
         else \<exists>r'. read_blob_loop timed n r acc = (r', Inl ProtocolError)"
  using assms(1,2) unfolding k_def
proof (induction timed n r acc rule: read_blob_loop.induct)
  case (1 timed n r acc)
  show ?case
  proof (cases "int (length acc) < n")
    case False
    then show ?thesis using 1(3) by (subst (1 2) read_blob_loop.simps) auto
  next
    case True
    let ?m = "min BLOB_CHUNK (nat n - length acc)"
    have pos: "0 < ?m" using True by (simp add: BLOB_CHUNK_def)
    obtain r' c where rc: "read_some ?m timed (fst r) (snd r) = (r', Some c)"
      "c @ stream_bytes r' = stream_bytes r" "length c \<le> ?m" "c = [] \<longleftrightarrow> stream_bytes r = []" "set (snd r') \<subseteq> set (snd r)"
      using read_some_facts [OF pos, of timed "snd r" "fst r"] 1(2) by (auto simp: silent_free_def)
    show ?thesis
    proof (cases "c = []")
      case True
      then have "read_blob_loop timed n r acc = (r', Inl ProtocolError)" "stream_bytes r = []"
        using rc \<open>int (length acc) < n\<close> by (subst read_blob_loop.simps, simp_all)
      then show ?thesis using \<open>int (length acc) < n\<close> by simp
    next
      case False
      have step: "read_blob_loop timed n r acc = read_blob_loop timed n r' (acc @ c)"
        using rc(1) False True by (subst read_blob_loop.simps) simp
      have "\<not> timed \<or> silent_free r'" using 1(2) rc(5) by (auto simp: silent_free_def)
      moreover have "int (length (acc @ c)) \<le> n" using rc(3) True by (simp, arith)
      ultimately have IH: "if nat n - length (acc @ c) \<le> length (stream_bytes r')
         then \<exists>s. read_blob_loop timed n r' (acc @ c) = (s, Inr ((acc @ c) @ take (nat n - length (acc @ c)) (stream_bytes r'))) \<and>
                stream_bytes s = drop (nat n - length (acc @ c)) (stream_bytes r') \<and> set (snd s) \<subseteq> set (snd r')
         else \<exists>s. read_blob_loop timed n r' (acc @ c) = (s, Inl ProtocolError)"
        by (intro 1(1) [OF _ rc(1) [symmetric] refl False]) (use True in simp_all)
      have k: "nat n - length acc = length c + (nat n - length (acc @ c))" using rc(3) by (simp, arith)
      have len: "length (stream_bytes r) = length c + length (stream_bytes r')" using rc(2) by (metis length_append)
      show ?thesis
      proof (cases "nat n - length (acc @ c) \<le> length (stream_bytes r')")
        case True
        with IH obtain s where s: "read_blob_loop timed n r' (acc @ c) = (s, Inr ((acc @ c) @ take (nat n - length (acc @ c)) (stream_bytes r')))"
          "stream_bytes s = drop (nat n - length (acc @ c)) (stream_bytes r')" "set (snd s) \<subseteq> set (snd r')" by auto
        have "take (nat n - length acc) (stream_bytes r) = c @ take (nat n - length (acc @ c)) (stream_bytes r')"
          "drop (nat n - length acc) (stream_bytes r) = drop (nat n - length (acc @ c)) (stream_bytes r')"
          unfolding k rc(2) [symmetric] by simp_all
        moreover have "nat n - length acc \<le> length (stream_bytes r)" using True k len by simp
        ultimately show ?thesis using s step rc(5) by auto
      next
        case f: False
        then have "\<not> nat n - length acc \<le> length (stream_bytes r)" using k len by simp
        then show ?thesis using IH f step by simp
      qed
    qed
  qed
qed

lemma blob_spec:
  assumes "\<not> timed \<or> silent_free r" and "0 \<le> n"
  shows "if n \<le> int (length (stream_bytes r))
         then \<exists>r'. read_blob timed r n = (r', Inr (take (nat n) (stream_bytes r))) \<and>
                stream_bytes r' = drop (nat n) (stream_bytes r)
         else \<exists>r'. read_blob timed r n = (r', Inl ProtocolError)"
proof -
  have "int (length ([] :: bytes)) \<le> n" using assms(2) by simp
  from read_blob_loop_spec [OF assms(1) this] assms(2) show ?thesis
    by (cases "n = 0") (auto simp: read_blob_def nat_le_iff split: if_splits)
qed



text \<open>A header line longer than the stream's 64 KiB buffer limit is refused with
  \<^verbatim>\<open>ProtocolError\<close>, although the protocol's own limit \<^verbatim>\<open>MAX_LINE\<close> is 1 MiB: the check against it
  in \<^verbatim>\<open>_parse\<close> can never act on a line that came through a stream.\<close>

theorem header_limit:
  assumes "stream_bytes r = l @ NEWLINE # rest" and "NEWLINE \<notin> set l" and "\<not> timed \<or> silent_free r"
  shows "(65536 < length l \<longrightarrow> snd (read_line timed r) = Inl ProtocolError) \<and>
         (\<forall>b. snd (read_line timed r) = Inr (Some b) \<longrightarrow> length b \<le> 65536 \<and> \<not> length b > MAX_LINE)"
proof (cases "STREAM_LIMIT < length l")
  case True
  obtain buf feed where r: "r = (buf, feed)" by (cases r)
  have "snd (read_until timed buf feed) = Overrun"
    using assms True by (intro read_until_long [of _ _ l rest]) (auto simp: r silent_free_def)
  then have "snd (read_line timed r) = Inl ProtocolError"
    by (cases "read_until timed buf feed") (simp add: r read_line_def)
  then show ?thesis by simp
next
  case False
  then obtain r' where "read_line timed r = (r', Inr (Some l))"
    using read_line_ok [OF assms(1,2) _ assms(3)] by (metis not_le)
  then show ?thesis using False by (simp add: STREAM_LIMIT_def MAX_LINE_def)
qed

theorem header_limit_witness:
  "snd (read_line False (replicate 70000 65 @ [NEWLINE], [])) = Inl ProtocolError"
  using header_limit [of "(replicate 70000 65 @ [NEWLINE], [])" "replicate 70000 65" "[]" False]
  by (simp add: stream_bytes_def NEWLINE_def)

subsection \<open>The server (control/server.py)\<close>

lemma read_until_consumes:
  "read_until timed buf feed = (r', Line x) \<Longrightarrow> x @ stream_bytes r' = stream_bytes (buf, feed) \<and> x \<noteq> []"
proof (induction timed buf feed rule: read_until.induct)
  case (1 timed buf feed)
  show ?case
  proof (cases "NEWLINE \<in> set buf")
    case True
    then obtain a b where ab: "buf = a @ NEWLINE # b" "NEWLINE \<notin> set a" by (meson split_list_first)
    then show ?thesis using 1(3) takeWhile_line [OF ab(2)]
      by (subst (asm) read_until.simps) (auto simp: Let_def stream_bytes_def split: if_splits)
  next
    case False
    then have short: "\<not> length buf > STREAM_LIMIT" using 1(3) by (subst (asm) read_until.simps) (auto split: if_splits)
    show ?thesis
    proof (cases feed)
      case Nil
      then show ?thesis using 1(3) False short by (subst (asm) read_until.simps) auto
    next
      case (Cons y feed')
      show ?thesis
      proof (cases y)
        case None
        with 1(3) False short Cons have "\<not> timed" "read_until timed buf feed' = (r', Line x)"
          by (subst (asm) read_until.simps, auto split: if_splits)+
        then show ?thesis using 1(1) [OF False short Cons None] Cons None by (simp add: stream_bytes_def)
      next
        case (Some d)
        with 1(3) False short Cons have "read_until timed (buf @ d) feed' = (r', Line x)"
          by (subst (asm) read_until.simps) auto
        then show ?thesis using 1(2) [OF False short Cons Some] Cons Some by (simp add: stream_bytes_def)
      qed
    qed
  qed
qed

lemma read_request_shorter:
  assumes "read_request jl r = (r', Inr (Some q))"
  shows "length (stream_bytes r') < length (stream_bytes r)"
proof -
  obtain l where "read_line False r = (r', Inr (Some l))"
    using assms by (cases "read_line False r") (auto simp: read_request_def bindR_eq_Inr split: option.splits)
  then obtain x where "read_until False (fst r) (snd r) = (r', Line x)"
    by (auto simp: read_line_def split: prod.splits line_read.splits if_splits)
  from read_until_consumes [OF this] have "length x + length (stream_bytes r') = length (stream_bytes r)" "x \<noteq> []"
    by (metis length_append prod.collapse)+
  then show ?thesis by (cases x) auto
qed

type_synonym 's handler = "'s \<Rightarrow> jdict \<Rightarrow> 's \<times> (response \<times> bytes option) result"

record server_counters =
  kt_served :: nat
  kt_errors :: nat

definition count_error :: "server_counters \<Rightarrow> server_counters" where
  "count_error c = c\<lparr>kt_errors := kt_errors c + 1\<rparr>"

definition count_served :: "server_counters \<Rightarrow> server_counters" where
  "count_served c = c\<lparr>kt_served := kt_served c + 1\<rparr>"

text \<open>One connection, until the peer closes it: the agent's state, the counters, the bytes written
  and the exception that ended it, if any. \<open>txt\<close> is the text of an exception.\<close>

function serve ::
  "json_lib \<Rightarrow> (exn \<Rightarrow> string) \<Rightarrow> (string \<times> 's handler) list \<Rightarrow> reader \<Rightarrow> 's \<Rightarrow> server_counters \<Rightarrow>
   's \<times> server_counters \<times> bytes \<times> exn option" where
  "serve jl txt hs r s c =
     (case read_request jl r of
        (r', Inl e) \<Rightarrow> (s, count_error c, encode_response jl (fail_response (''protocol error: '' @ txt e)), None)
      | (r', Inr None) \<Rightarrow> (s, c, [], None)
      | (r', Inr (Some q)) \<Rightarrow>
          (case map_of hs (rq_command q) of
             None \<Rightarrow>
               (let (s2, c2, out, e) = serve jl txt hs r' s (count_error c)
                in (s2, c2, encode_response jl (fail_response ''unsupported command'') @ out, e))
           | Some h \<Rightarrow>
               (let (s1, res) = h s (rq_args q);
                    (resp, blob, c1) = (case res of
                       Inl e \<Rightarrow> (fail_response (txt e), None, count_error c) | Inr (resp, blob) \<Rightarrow> (resp, blob, c))
                in case write_response jl resp blob of
                     Inl e \<Rightarrow> (s1, c1, [], Some e)
                   | Inr out \<Rightarrow>
                       (let (s2, c2, out2, e) = serve jl txt hs r' s1 (count_served c1) in (s2, c2, out @ out2, e)))))"
  by pat_completeness auto
termination
  by (relation "measure (\<lambda>(jl, txt, hs, r, s, c). length (stream_bytes r))")
    (auto dest!: sym [of _ "read_request _ _"] read_request_shorter)

declare serve.simps [simp del]

subsection \<open>The client (control/client.py)\<close>

text \<open>One call on a connected stream: the bytes written, the stream, the reply or the error, and
  whether the connection was closed.\<close>

definition client_call ::
  "json_lib \<Rightarrow> string \<Rightarrow> jdict \<Rightarrow> reader \<Rightarrow> bytes \<times> reader \<times> (response \<times> bytes) result \<times> bool" where
  "client_call jl command args r =
     (if command \<notin> set COMMANDS then ([], r, Inl ControlError, False)
      else
        let out = encode_request jl \<lparr>rq_command = command, rq_args = args, rq_version = PROTOCOL_VERSION\<rparr>
        in case read_response jl r of
             (r', Inl e) \<Rightarrow> (out, r', Inl ControlError, True)
           | (r', Inr None) \<Rightarrow> (out, r', Inl ControlError, True)
           | (r', Inr (Some resp)) \<Rightarrow>
               if \<not> rp_ok resp then (out, r', Inl ControlError, False)
               else if rp_kind resp = ''blob'' then
                 (case read_blob True r' (rp_n_bytes resp) of
                    (r'', Inl e) \<Rightarrow> (out, r'', Inl ControlError, True)
                  | (r'', Inr b) \<Rightarrow> (out, r'', Inr (resp, b), False))
               else (out, r', Inr (resp, []), False))"

subsection \<open>One call, end to end\<close>

lemma decode_encode_request:
  assumes "json_ok jl (request_json q)" and "rq_command q \<in> set COMMANDS" and "rq_version q = 1"
    and "encode_request jl q = l @ [NEWLINE]" and "length l \<le> MAX_LINE"
  shows "decode_request jl l = Inr q" and "NEWLINE \<notin> set l"
proof -
  have l: "l = jl_dumps jl (request_json q)" using assms(4) by (simp add: encode_request_def)
  show "NEWLINE \<notin> set l" using assms(1) by (simp add: l json_ok_def)
  have "parse_line jl l = Inr [(''command'', JStr (rq_command q)), (''args'', JObj (rq_args q)), (''version'', JInt (rq_version q))]"
    using assms(1,5) by (simp add: l json_ok_def parse_line_def request_json_def)
  then show "decode_request jl l = Inr q"
    using assms(2,3) by (simp add: decode_request_def check_version_def required_def field_or_def PROTOCOL_VERSION_def)
qed

lemma decode_encode_response:
  assumes "json_ok jl (response_json q)" and "rp_kind q \<in> {''json'', ''blob''}" and "rp_version q = 1"
    and "encode_response jl q = l @ [NEWLINE]" and "length l \<le> MAX_LINE"
  shows "decode_response jl l = Inr q" and "NEWLINE \<notin> set l"
proof -
  have l: "l = jl_dumps jl (response_json q)" using assms(4) by (simp add: encode_response_def)
  show "NEWLINE \<notin> set l" using assms(1) by (simp add: l json_ok_def)
  have "parse_line jl l = Inr [(''ok'', JBool (rp_ok q)), (''kind'', JStr (rp_kind q)), (''data'', JObj (rp_data q)),
       (''error'', case rp_error q of None \<Rightarrow> JNull | Some e \<Rightarrow> JStr e), (''n_bytes'', JInt (rp_n_bytes q)),
       (''name'', JStr (rp_name q)), (''version'', JInt (rp_version q))]"
    using assms(1,5) by (simp add: l json_ok_def parse_line_def response_json_def)
  then show "decode_response jl l = Inr q"
    using assms(2,3) by (cases "rp_error q")
      (auto simp: decode_response_def check_version_def required_def field_or_def PROTOCOL_VERSION_def)
qed

lemma encode_request_line: obtains l where "encode_request jl q = l @ [NEWLINE]" "length l = length (encode_request jl q) - 1"
  by (simp add: encode_request_def)

lemma encode_response_line: obtains l where "encode_response jl q = l @ [NEWLINE]" "length l = length (encode_response jl q) - 1"
  by (simp add: encode_response_def)

lemma serve_one:
  assumes json: "json_ok jl (request_json q)" and q: "rq_command q \<in> set COMMANDS" "rq_version q = 1"
    and h: "map_of hs (rq_command q) = Some h" "h s (rq_args q) = (s', res)"
    and res: "res = Inr (resp, blob) \<or> (\<exists>e. res = Inl e \<and> resp = fail_response (txt e) \<and> blob = None)"
    and out: "write_response jl resp blob = Inr out"
    and r: "stream_bytes r = encode_request jl q" "length (encode_request jl q) \<le> STREAM_LIMIT + 1"
  shows "serve jl txt hs r s c =
    (s', count_served (if \<exists>e. res = Inl e then count_error c else c), out, None)"
proof -
  obtain l where l: "encode_request jl q = l @ [NEWLINE]" "length l = length (encode_request jl q) - 1"
    by (rule encode_request_line)
  have len: "length l \<le> STREAM_LIMIT" "length l \<le> MAX_LINE" using l(2) r(2) by (auto simp: STREAM_LIMIT_def MAX_LINE_def)
  note dec = decode_encode_request [OF json q l(1) len(2)]
  obtain r' where r': "read_line False r = (r', Inr (Some l))" "stream_bytes r' = []"
    by (rule read_line_ok [of r l "[]" False]) (simp_all add: r(1) l(1) dec(2) len(1))
  have first: "read_request jl r = (r', Inr (Some q))" by (simp add: read_request_def r'(1) dec(1))
  have "read_request jl r' = (([], []), Inr None)" by (simp add: read_request_def read_line_end [OF r'(2)])
  then have rest: "serve jl txt hs r' s1 c1 = (s1, c1, [], None)" for s1 c1
    by (subst serve.simps) simp
  show ?thesis using res h out
    by (subst serve.simps) (auto simp: first rest Let_def)
qed

text \<open>C15: One call over the network is the handler's answer: whatever the pieces the request and the reply
  arrive in, the server runs the handler once, on the arguments sent, and the client gets exactly
  the response and the blob the handler returned; if the handler raised, the client gets a
  \<^verbatim>\<open>ControlError\<close>, and either way the connection stays open.\<close>

theorem remote_call:
  assumes "json_ok jl (request_json \<lparr>rq_command = command, rq_args = args, rq_version = 1\<rparr>)"
    and "command \<in> set COMMANDS" and "map_of hs command = Some h" and "h s args = (s', res)"
    and "case res of Inr (resp, blob) \<Rightarrow> json_ok jl (response_json resp) \<and> rp_ok resp \<and> rp_version resp = 1 \<and>
           (if rp_kind resp = ''blob'' then \<exists>b. blob = Some b \<and> rp_n_bytes resp = int (length b)
            else rp_kind resp = ''json'') \<and> length (encode_response jl resp) \<le> STREAM_LIMIT + 1
         | Inl e \<Rightarrow> json_ok jl (response_json (fail_response (txt e))) \<and>
             length (encode_response jl (fail_response (txt e))) \<le> STREAM_LIMIT + 1"
    and "length (encode_request jl \<lparr>rq_command = command, rq_args = args, rq_version = 1\<rparr>) \<le> STREAM_LIMIT + 1"
    and "stream_bytes r = encode_request jl \<lparr>rq_command = command, rq_args = args, rq_version = 1\<rparr>"
  shows "\<exists>out c'. serve jl txt hs r s c = (s', c', out, None) \<and> kt_served c' = kt_served c + 1 \<and>
    (\<forall>cr. stream_bytes cr = out \<and> silent_free cr \<longrightarrow>
      (\<exists>cr'. client_call jl command args cr =
         (stream_bytes r, cr',
          (case res of Inl e \<Rightarrow> Inl ControlError
           | Inr (resp, blob) \<Rightarrow> Inr (resp, if rp_kind resp = ''blob'' then the blob else [])), False)))"
proof -
  let ?q = "\<lparr>rq_command = command, rq_args = args, rq_version = 1\<rparr>"
  define resp where "resp = (case res of Inl e \<Rightarrow> fail_response (txt e) | Inr (x, y) \<Rightarrow> x)"
  define blob where "blob = (case res of Inl e \<Rightarrow> None | Inr (x, y) \<Rightarrow> y)"
  define tail where "tail = (if rp_kind resp = ''blob'' then the blob else [])"
  have resp: "rp_version resp = 1" "rp_kind resp \<in> {''json'', ''blob''}" "length (encode_response jl resp) \<le> STREAM_LIMIT + 1"
    "json_ok jl (response_json resp)" "rp_ok resp \<longleftrightarrow> \<not> isl res" "rp_kind resp = ''blob'' \<Longrightarrow> rp_n_bytes resp = int (length tail) \<and> blob = Some tail"
    using assms(5)
    by (auto simp: resp_def blob_def tail_def fail_response_def PROTOCOL_VERSION_def split: sum.splits if_splits)
  have out: "write_response jl resp blob = Inr (encode_response jl resp @ tail)"
    using resp(2,6) by (cases blob) (auto simp: write_response_def tail_def)
  obtain c' where c': "serve jl txt hs r s c = (s', c', encode_response jl resp @ tail, None)" "kt_served c' = kt_served c + 1"
  proof -
    have "res = Inr (resp, blob) \<or> (\<exists>e. res = Inl e \<and> resp = fail_response (txt e) \<and> blob = None)"
      by (cases res) (auto simp: resp_def blob_def)
    from serve_one [OF assms(1) _ _ _ _ this out, of hs h s s' r c] assms(2-4,6,7) that
    show ?thesis by (auto simp: count_served_def count_error_def)
  qed
  have "\<exists>cr'. client_call jl command args cr = (stream_bytes r, cr',
          (case res of Inl e \<Rightarrow> Inl ControlError
           | Inr (resp, blob) \<Rightarrow> Inr (resp, if rp_kind resp = ''blob'' then the blob else [])), False)"
    if cr: "stream_bytes cr = encode_response jl resp @ tail" "silent_free cr" for cr
  proof -
    obtain l where l: "encode_response jl resp = l @ [NEWLINE]" "length l = length (encode_response jl resp) - 1"
      by (rule encode_response_line)
    have len: "length l \<le> STREAM_LIMIT" "length l \<le> MAX_LINE" using l(2) resp(3) by (auto simp: STREAM_LIMIT_def MAX_LINE_def)
    note dec = decode_encode_response [OF resp(4,2,1) l(1) len(2)]
    obtain r' where r': "read_line True cr = (r', Inr (Some l))" "stream_bytes r' = tail" "set (snd r') \<subseteq> set (snd cr)"
      by (rule read_line_ok [of cr l tail True]) (simp_all add: cr l(1) dec(2) len(1))
    have rd: "read_response jl cr = (r', Inr (Some resp))" by (simp add: read_response_def r'(1) dec(1))
    have "silent_free r'" using cr(2) r'(3) by (auto simp: silent_free_def)
    then have "\<exists>r''. read_blob True r' (int (length tail)) = (r'', Inr tail)"
      using blob_spec [of True r' "int (length tail)"] r'(2) by auto
    then show ?thesis using resp assms(2,7)
      by (cases res) (auto simp: client_call_def rd Let_def PROTOCOL_VERSION_def resp_def blob_def tail_def split: prod.splits)
  qed
  with c' show ?thesis by blast
qed

definition demo_request :: request where
  "demo_request = \<lparr>rq_command = ''status'', rq_args = [], rq_version = 1\<rparr>"

definition demo_response :: response where
  "demo_response = ok_response [(''state'', JStr ''idle'')]"

definition demo_codec :: json_lib where
  "demo_codec = \<lparr>jl_dumps = (\<lambda>v. if v = request_json demo_request then [123, 125] else [123, 49, 125]),
     jl_loads = (\<lambda>b. if b = [123, 125] then Some (request_json demo_request)
                     else if b = [123, 49, 125] then Some (response_json demo_response) else None)\<rparr>"

definition demo_handler :: "nat handler" where
  "demo_handler s args = (s + 1, Inr (demo_response, None))"

lemma demo_json: "request_json demo_request \<noteq> response_json demo_response"
  by (simp add: request_json_def response_json_def)

lemma demo_encode [simp]:
  "encode_request demo_codec demo_request = [123, 125, 10]"
  "encode_response demo_codec demo_response = [123, 49, 125, 10]"
  using demo_json by (auto simp: encode_request_def encode_response_def demo_codec_def NEWLINE_def)

lemma demo_codec_ok: "json_ok demo_codec (request_json demo_request)" "json_ok demo_codec (response_json demo_response)"
  using demo_json by (auto simp: json_ok_def demo_codec_def NEWLINE_def)

lemma demo_response_sel:
  "rp_ok demo_response" "rp_version demo_response = 1" "rp_kind demo_response = ''json''"
  by (simp_all add: demo_response_def ok_response_def PROTOCOL_VERSION_def)

theorem remote_call_witness:
  "\<exists>out c'. serve demo_codec (\<lambda>e. ''error'') [(''status'', demo_handler)]
      ([123], [Some [125, 10]]) 41 \<lparr>kt_served = 6, kt_errors = 0\<rparr> = (42, c', out, None) \<and> kt_served c' = 7 \<and>
    (\<forall>cr. stream_bytes cr = out \<and> silent_free cr \<longrightarrow>
      (\<exists>cr'. client_call demo_codec ''status'' [] cr = ([123, 125, 10], cr', Inr (demo_response, []), False)))"
proof -
  have r: "stream_bytes ([123 :: byte], [Some [125, 10]]) = [123, 125, 10]" by (simp add: stream_bytes_def)
  show ?thesis
    using remote_call [of demo_codec "''status''" "[]" "[(''status'', demo_handler)]" demo_handler 41 42
        "Inr (demo_response, None)" "\<lambda>e. ''error''" "([123], [Some [125, 10]])" "\<lparr>kt_served = 6, kt_errors = 0\<rparr>",
        folded demo_request_def]
    by (simp add: r demo_codec_ok demo_response_sel STREAM_LIMIT_def demo_handler_def COMMANDS_def)
qed

end
