(* ===== verification/Controllers.thy ===== *)
theory Controllers
  imports AgentNetwork Manifest
begin

section \<open>The registered controllers\<close>

text \<open>
  The controllers by name: \<open>ctrl\<close> is an instance of one of the three registered classes, with
  the disturbance stream of numpy's generator as the parameter \<open>rng\<close> (a draw and a constructor
  from a seed). \<open>ctrl_create\<close> is \<^verbatim>\<open>create\<close> of \<^verbatim>\<open>controllers/base.py\<close> with the constructor it
  calls, \<open>law_for\<close> what an agent reads off the instance, \<open>controller_columns\<close> and the functions
  around it are the module functions of \<^verbatim>\<open>agent/service.py\<close> that size a log from a controller's
  name. The interpretation \<open>controller\<close> shows that every instance meets the agent's contract.
\<close>

record 'g rng =
  rg_draw :: "'g \<Rightarrow> real \<times> 'g"
  rg_new :: "int \<Rightarrow> 'g"

datatype 'g ctrl = ScalarC int "ft_params \<times> ft_state \<times> 'g" | GridC microgrid

definition REGISTRY :: registry where
  "REGISTRY = map (\<lambda>c. (cl_name c, c)) [ft_class, mg_class MicrogridAdaptive, mg_class MicrogridLC]"

text \<open>\<^verbatim>\<open>ControllerParams\<close> is one class: the fields the other family reads keep their defaults.\<close>

definition scalar_fields :: "controller_params \<Rightarrow> ft_params" where
  "scalar_fields p = (case p of ScalarParams q \<Rightarrow> q | GridParams q \<Rightarrow> scalar_defaults (mp_dt q))"

definition grid_fields :: "controller_params \<Rightarrow> mg_params" where
  "grid_fields p =
     (case p of
        GridParams q \<Rightarrow> q
      | ScalarParams q \<Rightarrow>
          \<lparr>mp_dt = fp_dt q, mp_plant = None, mp_virtual = None, mp_interface = None, mp_degree = 0,
           mp_state0_P = 0, mp_state0_Q = 0, mp_vstate0_P = 0, mp_vstate0_Q = 0\<rparr>)"

definition ctrl_create :: "'g rng \<Rightarrow> string \<Rightarrow> controller_params \<Rightarrow> int \<Rightarrow> 'g ctrl result" where
  "ctrl_create rg name p seed =
     bindR (create REGISTRY name) (\<lambda>cls.
       if cls = ft_class then
         Inr (ScalarC seed (scalar_fields p, ft_reset (scalar_fields p), rg_new rg seed))
       else
         bindR (mg_init (if cls = mg_class MicrogridAdaptive then MicrogridAdaptive else MicrogridLC) (grid_fields p))
           (\<lambda>m. Inr (GridC m)))"

definition ctrl_set_params :: "'g rng \<Rightarrow> 'g ctrl \<Rightarrow> controller_params \<Rightarrow> 'g ctrl result" where
  "ctrl_set_params rg c p =
     (case c of
        ScalarC seed old \<Rightarrow> Inr (ScalarC seed (ft_set_params (rg_new rg) (Some seed) (scalar_fields p) old))
      | GridC m \<Rightarrow> bindR (mg_set_params m (grid_fields p)) (\<lambda>m'. Inr (GridC m')))"

definition ctrl_step :: "'g rng \<Rightarrow> 'g ctrl \<Rightarrow> int list \<Rightarrow> bool list \<Rightarrow> ('g ctrl \<times> controller_output) result" where
  "ctrl_step rg c vs es =
     (case c of
        ScalarC seed (p, sg) \<Rightarrow> (let (sg', out) = ft_step (rg_draw rg) p sg vs es in Inr (ScalarC seed (p, sg'), out))
      | GridC m \<Rightarrow> bindR (mg_step m vs) (\<lambda>(m', out). Inr (GridC m', out)))"

fun ctrl_vstate :: "'g ctrl \<Rightarrow> real list" where
  "ctrl_vstate (ScalarC seed (p, s, g)) = [ft_vstate s]"
| "ctrl_vstate (GridC m) = [vl_zP (mg_virtual m), vl_zQ (mg_virtual m)]"

fun ctrl_class :: "'g ctrl \<Rightarrow> controller_class" where
  "ctrl_class (ScalarC seed x) = ft_class"
| "ctrl_class (GridC m) = mg_class (mg_kind m)"

fun is_grid :: "'g ctrl \<Rightarrow> bool" where
  "is_grid (ScalarC seed x) = False"
| "is_grid (GridC m) = True"

definition law_for :: "'g rng \<Rightarrow> 'g ctrl \<Rightarrow> 'g ctrl law" where
  "law_for rg c =
     \<lparr>lw_step = ctrl_step rg, lw_vstate = ctrl_vstate, lw_class = ctrl_class c, lw_in_tick = is_grid c,
      lw_logs_timing = is_grid c, lw_hold = is_grid c\<rparr>"

fun watchdog_cause :: "'g ctrl \<Rightarrow> string" where
  "watchdog_cause (ScalarC seed x) = ''''"
| "watchdog_cause (GridC m) = mg_cause m"

subsection \<open>What a log of a controller's run looks like\<close>

definition RELAY_COLUMNS :: "string list" where
  "RELAY_COLUMNS = [''state'', ''vstate'', ''vartheta'']"

definition relay_columns :: "controller_class \<Rightarrow> string list result" where
  "relay_columns cls =
     (if cls = mg_class MicrogridAdaptive then Inr (mg_relay_columns MicrogridAdaptive)
      else if cls = mg_class MicrogridLC then Inr (mg_relay_columns MicrogridLC)
      else column_names cls)"

definition controller_dim :: "string \<Rightarrow> nat" where
  "controller_dim name = (case map_of REGISTRY name of Some cls \<Rightarrow> cl_dim cls | None \<Rightarrow> 1)"

definition controller_columns :: "string \<Rightarrow> bool \<Rightarrow> string list result" where
  "controller_columns name relay =
     (case map_of REGISTRY name of
        None \<Rightarrow> Inr RELAY_COLUMNS
      | Some cls \<Rightarrow> if relay then relay_columns cls else column_names cls)"

definition logs_timing :: "controller_class \<Rightarrow> bool" where
  "logs_timing cls \<longleftrightarrow> cls \<noteq> ft_class"

definition timing_columns :: "string \<Rightarrow> bool \<Rightarrow> string list" where
  "timing_columns name relay =
     (if relay then []
      else case map_of REGISTRY name of
        Some cls \<Rightarrow> if logs_timing cls then [''realized_h'', ''cpu_us''] else []
      | None \<Rightarrow> [])"

subsection \<open>Facts\<close>

lemma class_names [simp]:
  "cl_name ft_class = ''finite_time_adaptive''" "cl_name (mg_class MicrogridAdaptive) = ''microgrid_adaptive''"
  "cl_name (mg_class MicrogridLC) = ''microgrid_lc''"
  by (simp_all add: ft_class_def mg_class_def)

lemma class_distinct [simp]:
  "ft_class \<noteq> mg_class k" "mg_class k \<noteq> ft_class" "mg_class MicrogridLC \<noteq> mg_class MicrogridAdaptive"
  "mg_class MicrogridAdaptive \<noteq> mg_class MicrogridLC"
proof -
  have "cl_name ft_class \<noteq> cl_name (mg_class k)" by (cases k) simp_all
  then show "ft_class \<noteq> mg_class k" "mg_class k \<noteq> ft_class" by metis+
  have "cl_name (mg_class MicrogridLC) \<noteq> cl_name (mg_class MicrogridAdaptive)" by simp
  then show "mg_class MicrogridLC \<noteq> mg_class MicrogridAdaptive" "mg_class MicrogridAdaptive \<noteq> mg_class MicrogridLC"
    by metis+
qed

lemma registry_lookup:
  "map_of REGISTRY name = (if name = ''finite_time_adaptive'' then Some ft_class
     else if name = ''microgrid_adaptive'' then Some (mg_class MicrogridAdaptive)
     else if name = ''microgrid_lc'' then Some (mg_class MicrogridLC) else None)"
  by (simp add: REGISTRY_def)

lemma registry_class [simp]: "map_of REGISTRY (cl_name (ctrl_class c)) = Some (ctrl_class c)"
proof (cases c)
  case (GridC m)
  then show ?thesis by (cases "mg_kind m") (simp_all add: registry_lookup)
qed (simp add: registry_lookup)

lemma ctrl_create_class: "ctrl_create rg name p seed = Inr c \<Longrightarrow> cl_name (ctrl_class c) = name"
  by (auto simp: ctrl_create_def create_def registry_lookup result_simps mg_init_def mg_build_def split: if_splits)

definition ctrl_good :: "'g ctrl \<Rightarrow> bool" where
  "ctrl_good c \<longleftrightarrow> (case c of ScalarC _ _ \<Rightarrow> True | GridC m \<Rightarrow> mg_ok m \<and> kind_matches (mg_kind m) (mg_interface m))"

interpretation controller: coordination_law "ctrl_step rg" ctrl_vstate ctrl_class ctrl_good for rg
proof unfold_locales
  fix c c' :: "'a ctrl" and vs es out
  assume g: "ctrl_good c"
  show "\<exists>c' out. ctrl_step rg c vs es = Inr (c', out)"
  proof (cases c)
    case (ScalarC seed x)
    then show ?thesis by (cases x) (simp add: ctrl_step_def split_beta)
  next
    case (GridC m)
    then obtain m' o1 where "mg_step m vs = Inr (m', o1)" using grid.total [of m vs] g by (auto simp: ctrl_good_def)
    then show ?thesis using GridC by (simp add: ctrl_step_def)
  qed
  show "length (ctrl_vstate c) = cl_dim (ctrl_class c)"
  proof (cases c)
    case (ScalarC seed x)
    then show ?thesis by (cases x) (simp add: ft_class_def)
  next
    case (GridC m)
    then show ?thesis using grid.coordinates [of m] g by (simp add: ctrl_good_def)
  qed
  assume s: "ctrl_step rg c vs es = Inr (c', out)"
  have "ctrl_good c' \<and> ctrl_class c' = ctrl_class c \<and> co_vstate out = ctrl_vstate c' \<and>
      (\<exists>ns. column_names (ctrl_class c) = Inr ns \<and> length (output_channels out) = length ns)"
  proof (cases c)
    case (ScalarC seed x)
    then show ?thesis using s
      by (cases x) (auto simp: ctrl_step_def ctrl_good_def ft_step_def ft_output_def Let_def split_beta
          output_channels_def column_names_def ft_class_def)
  next
    case (GridC m)
    then obtain m' where m: "mg_step m vs = Inr (m', out)" "c' = GridC m'"
      using s by (auto simp: ctrl_step_def result_simps)
    have ok: "mg_ok m \<and> kind_matches (mg_kind m) (mg_interface m)" using g GridC by (simp add: ctrl_good_def)
    show ?thesis
      using grid.good_kept [OF ok m(1)] grid.class_kept [OF ok m(1)] grid.shows_vstate [OF ok m(1)] grid.width [OF ok m(1)]
      by (auto simp: GridC m(2) ctrl_good_def)
  qed
  then show "ctrl_good c'" and "ctrl_class c' = ctrl_class c" and "co_vstate out = ctrl_vstate c'"
    and "\<exists>ns. column_names (ctrl_class c) = Inr ns \<and> length (output_channels out) = length ns" by blast+
qed

subsection \<open>Width of the output\<close>

text \<open>Whether the interface an instance holds is its class's own; all that the width of its output needs.\<close>

definition ctrl_typed :: "'g ctrl \<Rightarrow> bool" where
  "ctrl_typed c \<longleftrightarrow> (case c of ScalarC _ _ \<Rightarrow> True | GridC m \<Rightarrow> kind_matches (mg_kind m) (mg_interface m))"

lemma mg_step_width:
  assumes "kind_matches (mg_kind m) (mg_interface m)" and "mg_step m vs = Inr (m', out)"
  shows "kind_matches (mg_kind m') (mg_interface m')" and "mg_kind m' = mg_kind m"
    and "\<exists>ns. column_names (mg_class (mg_kind m)) = Inr ns \<and> length (output_channels out) = length ns"
proof -
  obtain i' c t xP xQ zP zQ gP gQ where i: "iface_step (mg_interface m) t xP xQ zP zQ gP gQ = Inr (i', c)"
      and o: "mg_interface m' = i'" "mg_kind m' = mg_kind m" "length (output_channels out) = 17 + length (family_channels i')"
    using assms(2) by (auto simp: mg_step_def Let_def bindR_eq_Inr output_channels_def split_beta)
  have k: "kind_matches (mg_kind m) i'" using iface_step_kind [OF i] assms(1) by simp
  show "kind_matches (mg_kind m') (mg_interface m')" "mg_kind m' = mg_kind m" using k o by simp_all
  show "\<exists>ns. column_names (mg_class (mg_kind m)) = Inr ns \<and> length (output_channels out) = length ns"
    using width_of_class [OF k] o(3) by auto
qed

lemma ctrl_step_width:
  assumes "ctrl_typed c" and "ctrl_step rg c vs es = Inr (c', out)"
  shows "ctrl_typed c'" and "ctrl_class c' = ctrl_class c" and "is_grid c' = is_grid c"
    and "\<exists>ns. column_names (ctrl_class c) = Inr ns \<and> length (output_channels out) = length ns"
proof -
  have "ctrl_typed c' \<and> ctrl_class c' = ctrl_class c \<and> is_grid c' = is_grid c \<and>
      (\<exists>ns. column_names (ctrl_class c) = Inr ns \<and> length (output_channels out) = length ns)"
  proof (cases c)
    case (ScalarC seed x)
    then show ?thesis using assms
      by (cases x) (auto simp: ctrl_step_def ctrl_typed_def ft_step_def ft_output_def Let_def split_beta
          output_channels_def column_names_def ft_class_def)
  next
    case (GridC m)
    then obtain m' where m: "mg_step m vs = Inr (m', out)" "c' = GridC m'"
      using assms(2) by (auto simp: ctrl_step_def result_simps)
    have k: "kind_matches (mg_kind m) (mg_interface m)" using assms(1) GridC by (simp add: ctrl_typed_def)
    show ?thesis using mg_step_width [OF k m(1)] by (simp add: GridC m(2) ctrl_typed_def)
  qed
  then show "ctrl_typed c'" and "ctrl_class c' = ctrl_class c" and "is_grid c' = is_grid c"
    and "\<exists>ns. column_names (ctrl_class c) = Inr ns \<and> length (output_channels out) = length ns" by blast+
qed

lemma ctrl_create_typed: "ctrl_create rg name p seed = Inr c \<Longrightarrow> ctrl_typed c"
  by (auto simp: ctrl_create_def create_def registry_lookup result_simps mg_init_def mg_build_def ctrl_typed_def
      mg_make_interface_def kind_matches_def split: if_splits mg_kind.splits iface_params.splits option.splits)

lemma ctrl_create_timing: "ctrl_create rg name p seed = Inr c \<Longrightarrow>
    length (timing_columns name False) = (if is_grid c then 2 else 0)"
  by (auto simp: ctrl_create_def create_def registry_lookup result_simps timing_columns_def logs_timing_def split: if_splits)

lemma disabled_width: "ctrl_typed c \<Longrightarrow> \<exists>ns. column_names (ctrl_class c) = Inr ns \<and>
    length (ctrl_vstate c) + (length (ctrl_vstate c) + length (cl_channels (ctrl_class c))) = length ns"
proof (cases c)
  case (ScalarC seed x)
  then show ?thesis by (cases x) (simp add: column_names_def ft_class_def)
next
  case (GridC m)
  then show ?thesis by (cases "mg_kind m") (simp_all add: column_names_def mg_class_def)
qed

end
