(* ===== verification/Service.thy ===== *)
theory Service
  imports Controllers Relay RunLog Control Clock "HOL-Library.AList" "HOL-Library.List_Lexorder" "HOL-Library.Char_ord"
begin

section \<open>The agent service (agent/service.py)\<close>

text \<open>
  \<open>service\<close> is the state of \<^verbatim>\<open>AgentService\<close>, one handler per control command, in the type the
  server of \<open>Control\<close> dispatches to: a handler returns the state it leaves even when it raises.
  \<open>svc_tick\<close> is one pass of the control loop with the log call inside it, \<open>svc_frame\<close> a frame from
  the board with the report callback. Of the host, \<open>host\<close> has: numpy's generator, the transport
  factory (an argument of the service's constructor), the serial link's \<open>request\<close>, pydantic's parsing
  of an assignment, the text of an exception, and the standard library's conversions of floats and strings. The data
  directory is an association list from a run's name and a file name to what was written there;
  the log format is the binary one. Not modelled: the environment block of the metadata, transport
  and link statistics in \<^verbatim>\<open>status\<close>, and opening the HCI socket and the UDP transport.
\<close>

subsection \<open>The host and the state\<close>

record 't transport_ops =
  to_make :: "int \<Rightarrow> 't result"
  to_start :: "'t \<Rightarrow> 't \<times> exn option"
  to_stop :: "'t \<Rightarrow> 't \<times> exn option"

datatype artefact = RowsFile bytes | MetaFile run_meta | FinalFile "run_meta \<times> (string \<times> cell list) list"

record ('g, 't, 'l) host =
  ho_rng :: "'g rng"
  ho_transport :: "'t transport_ops"
  ho_request :: "'l request_fn"
  ho_validate :: "jdict \<Rightarrow> hub_assignment result"
  ho_float :: "real \<Rightarrow> f64"
  ho_parse_float :: "string \<Rightarrow> real result"
  ho_repr :: "json \<Rightarrow> string"
  ho_render :: "artefact \<Rightarrow> bytes"
  ho_message :: "exn \<Rightarrow> string"

type_synonym disk = "((string \<times> string) \<times> artefact) list"

record ('g, 't, 'l) service =
  sw_type :: agent_type
  sw_radio :: "rdict option"
  sw_link :: "'l option"
  sw_epoch :: real
  sw_assignment :: "hub_assignment option"
  sw_agent :: "('g ctrl agent \<times> 't) option"
  sw_relay :: "relay option"
  sw_runlog :: "run_log option"
  sw_record_errors :: nat
  sw_record_error :: "exn option"
  sw_run_name :: "string option"
  sw_tasks :: bool
  sw_started_at :: real
  sw_disk :: disk

definition svc_new :: "agent_type \<Rightarrow> rdict option \<Rightarrow> 'l option \<Rightarrow> real \<Rightarrow> disk \<Rightarrow> ('g, 't, 'l) service" where
  "svc_new t radio link epoch d =
     \<lparr>sw_type = t, sw_radio = radio, sw_link = link, sw_epoch = epoch, sw_assignment = None, sw_agent = None,
      sw_relay = None, sw_runlog = None, sw_record_errors = 0, sw_record_error = None, sw_run_name = None,
      sw_tasks = False, sw_started_at = 0, sw_disk = d\<rparr>"

definition is_relay :: "('g, 't, 'l) service \<Rightarrow> bool" where
  "is_relay s \<longleftrightarrow> sw_type s = BLE"

definition running :: "('g, 't, 'l) service \<Rightarrow> bool" where
  "running s \<longleftrightarrow> sw_tasks s \<or> (is_relay s \<and> sw_run_name s \<noteq> None)"

text \<open>\<^verbatim>\<open>str(args.get(k) or d)\<close>, and the \<^verbatim>\<open>float\<close> of an argument.\<close>

fun json_truthy :: "json \<Rightarrow> bool" where
  "json_truthy JNull = False"
| "json_truthy (JBool b) = b"
| "json_truthy (JInt n) = (n \<noteq> 0)"
| "json_truthy (JFloat x) = (x \<noteq> 0)"
| "json_truthy (JStr s) = (s \<noteq> [])"
| "json_truthy (JArr xs) = (xs \<noteq> [])"
| "json_truthy (JObj d) = (d \<noteq> [])"

definition str_arg :: "('g, 't, 'l) host \<Rightarrow> jdict \<Rightarrow> string \<Rightarrow> string \<Rightarrow> string" where
  "str_arg ho args k dflt =
     (case map_of args k of
        None \<Rightarrow> dflt
      | Some v \<Rightarrow> if json_truthy v then (case v of JStr s \<Rightarrow> s | JInt n \<Rightarrow> str_int n | _ \<Rightarrow> ho_repr ho v) else dflt)"

fun json_float :: "(string \<Rightarrow> real result) \<Rightarrow> json \<Rightarrow> real result" where
  "json_float parse (JInt n) = Inr (of_int n)"
| "json_float parse (JFloat x) = Inr x"
| "json_float parse (JBool b) = Inr (if b then 1 else 0)"
| "json_float parse (JStr s) = parse s"
| "json_float parse _ = Inl TypeError"

subsection \<open>Building the agent or the relay\<close>

definition base_of :: "hub_assignment \<Rightarrow> assignment" where
  "base_of a = assignment.truncate a"

fun rval_float :: "rval \<Rightarrow> real result" where
  "rval_float (RFloat x) = Inr x"
| "rval_float (RInt n) = Inr (of_int n)"
| "rval_float (RBool b) = Inr (if b then 1 else 0)"
| "rval_float RNone = Inl TypeError"

fun rval_truthy :: "rval \<Rightarrow> bool" where
  "rval_truthy RNone = False"
| "rval_truthy (RFloat x) = (x \<noteq> 0)"
| "rval_truthy (RInt n) = (n \<noteq> 0)"
| "rval_truthy (RBool b) = b"

definition radio_settings :: "('g, 't, 'l) service \<Rightarrow> hub_assignment \<Rightarrow> rdict" where
  "radio_settings s a = (case sw_radio s of Some r \<Rightarrow> r | None \<Rightarrow> ha_radio a)"

definition rget :: "rdict \<Rightarrow> string \<Rightarrow> rval \<Rightarrow> rval" where
  "rget r k dflt = (case map_of r k of Some v \<Rightarrow> v | None \<Rightarrow> dflt)"

definition svc_radio_frame :: "('g, 't, 'l) service \<Rightarrow> hub_assignment \<Rightarrow> (int \<times> bytes) option result" where
  "svc_radio_frame s a =
     (let r = radio_settings s a in
      if r = [] then Inr None
      else bindR (rval_float (rget r ''adv_interval_ms'' (RFloat 100))) (\<lambda>adv.
           bindR (if rval_truthy (rget r ''adv_interval_max_ms'' RNone)
                  then bindR (rval_float (rget r ''adv_interval_max_ms'' RNone)) (\<lambda>x. Inr (Some x)) else Inr None) (\<lambda>mx.
           bindR (rval_float (rget r ''scan_interval_ms'' (RFloat 100))) (\<lambda>si.
           bindR (rval_float (rget r ''scan_window_ms'' (RFloat 100))) (\<lambda>sw.
           bindR (radio_frame adv mx si sw True (\<not> rval_truthy (rget r ''passive_scan'' (RBool True)))) (\<lambda>f.
             Inr (Some f)))))))"

definition config_of :: "hub_assignment \<Rightarrow> agent_config" where
  "config_of a =
     \<lparr>ac_node = as_node a, ac_neighbors = as_neighbors a, ac_dt = as_dt a, ac_publish_period = as_publish_period a,
      ac_enabled = as_enabled a, ac_max_age = as_max_age a\<rparr>"

definition build_agent :: "('g, 't, 'l) host \<Rightarrow> hub_assignment \<Rightarrow> ('g ctrl agent \<times> 't) result" where
  "build_agent ho a =
     bindR (to_controller_params (base_of a)) (\<lambda>p.
     bindR (ctrl_create (ho_rng ho) (as_controller a) p (as_seed a)) (\<lambda>c.
     bindR (to_make (ho_transport ho) (as_node a)) (\<lambda>t.
     bindR (agent_new (law_for (ho_rng ho) c) (config_of a) c False) (\<lambda>ag.
       Inr (ag, t)))))"

text \<open>\<^verbatim>\<open>_build_relay\<close>: the link it leaves and the relay, if it was built.\<close>

definition build_relay ::
  "('g, 't, 'l) host \<Rightarrow> ('g, 't, 'l) service \<Rightarrow> hub_assignment \<Rightarrow> 'l option \<times> relay result" where
  "build_relay ho s a =
     (case sw_link s of
        None \<Rightarrow> (None, Inl RuntimeError)
      | Some l \<Rightarrow>
          (case svc_radio_frame s a of
             Inl e \<Rightarrow> (Some l, Inl e)
           | Inr rf \<Rightarrow>
               (case relay_configure (ho_request ho) (relay_new, l) (base_of a) rf of
                  ((r, l'), Some e) \<Rightarrow> (Some l', Inl e)
                | ((r, l'), None) \<Rightarrow> (Some l', Inr r))))"

subsection \<open>configure\<close>

definition checked :: "hub_assignment \<Rightarrow> hub_assignment result" where
  "checked a = bindR (assignment_check (base_of a)) (\<lambda>_. Inr a)"

definition configured :: "int \<Rightarrow> bool \<Rightarrow> bool \<Rightarrow> response \<times> bytes option" where
  "configured nid live relay =
     (ok_response ([(''node_id'', JInt nid), (''live_update'', JBool live)] @
        (if relay then [(''mode'', JStr ''relay'')] else [])), None)"

definition configure_relay :: "('g, 't, 'l) host \<Rightarrow> ('g, 't, 'l) service \<Rightarrow> hub_assignment \<Rightarrow>
  ('g, 't, 'l) service \<times> (response \<times> bytes option) result" where
  "configure_relay ho s a =
     (case (running s, sw_relay s, sw_link s) of
        (True, Some r, Some l) \<Rightarrow>
          (case svc_radio_frame s a of
             Inl e \<Rightarrow> (s, Inl e)
           | Inr rf \<Rightarrow>
               (case relay_configure (ho_request ho) (r, l) (base_of a) rf of
                  ((r', l'), Some e) \<Rightarrow> (s\<lparr>sw_relay := Some r', sw_link := Some l'\<rparr>, Inl e)
                | ((r', l'), None) \<Rightarrow>
                    (s\<lparr>sw_relay := Some r', sw_link := Some l', sw_assignment := Some a\<rparr>,
                     Inr (configured (as_node a) True True))))
      | _ \<Rightarrow>
          (let s1 = s\<lparr>sw_assignment := Some a\<rparr> in
           case build_relay ho s1 a of
             (l', Inl e) \<Rightarrow> (s1\<lparr>sw_link := l'\<rparr>, Inl e)
           | (l', Inr r) \<Rightarrow> (s1\<lparr>sw_link := l', sw_relay := Some r\<rparr>, Inr (configured (as_node a) False True))))"

definition configure_local :: "('g, 't, 'l) host \<Rightarrow> ('g, 't, 'l) service \<Rightarrow> hub_assignment \<Rightarrow>
  ('g, 't, 'l) service \<times> (response \<times> bytes option) result" where
  "configure_local ho s a =
     (case (running s, sw_agent s) of
        (True, Some (ag, t)) \<Rightarrow>
          (case bindR (to_controller_params (base_of a)) (ctrl_set_params (ho_rng ho) (ag_law ag)) of
             Inl e \<Rightarrow> (s, Inl e)
           | Inr c \<Rightarrow>
               (s\<lparr>sw_agent := Some (ag\<lparr>ag_law := c, ag_config := config_of a\<rparr>, t), sw_assignment := Some a\<rparr>,
                Inr (configured (as_node a) True False)))
      | _ \<Rightarrow>
          (let s1 = s\<lparr>sw_assignment := Some a\<rparr> in
           case build_agent ho a of
             Inl e \<Rightarrow> (s1, Inl e)
           | Inr ag \<Rightarrow> (s1\<lparr>sw_agent := Some ag\<rparr>, Inr (configured (as_node a) False False))))"

definition svc_configure :: "('g, 't, 'l) host \<Rightarrow> ('g, 't, 'l) service handler" where
  "svc_configure ho s args =
     (case bindR (ho_validate ho args) checked of
        Inl e \<Rightarrow> (s, Inl e)
      | Inr a \<Rightarrow>
          if as_type a \<noteq> sw_type s then (s, Inl ValueError)
          else if is_relay s then configure_relay ho s a
          else configure_local ho s a)"

subsection \<open>start\<close>

definition run_meta_of :: "('g, 't, 'l) service \<Rightarrow> hub_assignment \<Rightarrow> string \<Rightarrow> run_meta result" where
  "run_meta_of s a run_name =
     bindR (controller_columns (as_controller a) (is_relay s)) (\<lambda>cols.
       Inr \<lparr>rm_run_name = run_name, rm_node_id = as_node a, rm_neighbors = as_neighbors a,
            rm_dim = controller_dim (as_controller a), rm_state_columns = cols,
            rm_timing_columns = timing_columns (as_controller a) (is_relay s),
            rm_units = (if is_relay s then ''scaled_int'' else ''engineering''),
            rm_samples = 0, rm_columns = [], rm_record_bytes = 0\<rparr>)"

definition open_log :: "('g, 't, 'l) service \<Rightarrow> hub_assignment \<Rightarrow> string \<Rightarrow> run_log result" where
  "open_log s a run_name =
     bindR (run_meta_of s a run_name) (\<lambda>m. bindR (log_new m 25) (\<lambda>L. Inr (log_start L)))"

text \<open>What the log has written, put where it writes it.\<close>

definition store_log :: "run_log \<Rightarrow> disk \<Rightarrow> disk" where
  "store_log L d =
     (let run = rm_run_name (lg_meta L); node = str_int (rm_node_id (lg_meta L));
          put = (\<lambda>suffix x. AList.update (run, node @ suffix) x);
          d1 = (case lg_meta_file L of Some m \<Rightarrow> put ''.meta.json'' (MetaFile m) d | None \<Rightarrow> d);
          d2 = put ''.bin'' (RowsFile (lg_file L)) d1
      in case lg_final_file L of Some f \<Rightarrow> put ''.json'' (FinalFile f) d2 | None \<Rightarrow> d2)"

definition set_log :: "run_log \<Rightarrow> ('g, 't, 'l) service \<Rightarrow> ('g, 't, 'l) service" where
  "set_log L s = s\<lparr>sw_runlog := Some L, sw_disk := store_log L (sw_disk s)\<rparr>"

definition epoch_arg :: "('g, 't, 'l) host \<Rightarrow> ('g, 't, 'l) service \<Rightarrow> jdict \<Rightarrow> real result" where
  "epoch_arg ho s args =
     (case map_of args ''epoch_unix_s'' of
        None \<Rightarrow> Inr (sw_epoch s) | Some JNull \<Rightarrow> Inr (sw_epoch s) | Some v \<Rightarrow> json_float (ho_parse_float ho) v)"

definition started :: "string \<Rightarrow> int \<Rightarrow> string \<Rightarrow> response \<times> bytes option" where
  "started run_name nid mode =
     (ok_response [(''run_name'', JStr run_name), (''node_id'', JInt nid), (''mode'', JStr mode)], None)"

definition start_relay :: "('g, 't, 'l) host \<Rightarrow> real \<Rightarrow> real \<Rightarrow> ('g, 't, 'l) service \<Rightarrow> hub_assignment \<Rightarrow> string \<Rightarrow>
  ('g, 't, 'l) service \<times> (response \<times> bytes option) result" where
  "start_relay ho now mt s a run_name =
     (case (sw_relay s, sw_link s) of
        (Some r, Some l) \<Rightarrow>
          (case relay_start (ho_request ho) (r, l) mt (Some (wall_now_us (sw_epoch s) now)) of
             ((r', l'), Some e) \<Rightarrow> (s\<lparr>sw_relay := Some r', sw_link := Some l'\<rparr>, Inl e)
           | ((r', l'), None) \<Rightarrow>
               (s\<lparr>sw_relay := Some r', sw_link := Some l', sw_run_name := Some run_name, sw_started_at := now,
                  sw_tasks := False\<rparr>, Inr (started run_name (as_node a) ''relay'')))
      | _ \<Rightarrow> (s, Inl AssertionError))"

definition start_local :: "('g, 't, 'l) host \<Rightarrow> real \<Rightarrow> real \<Rightarrow> ('g, 't, 'l) service \<Rightarrow> hub_assignment \<Rightarrow> string \<Rightarrow>
  ('g, 't, 'l) service \<times> (response \<times> bytes option) result" where
  "start_local ho now mt s a run_name =
     (case sw_agent s of
        None \<Rightarrow> (s, Inl AssertionError)
      | Some (ag, t) \<Rightarrow>
          (let ag1 = ag\<lparr>ag_on_sample := True\<rparr> in
           case to_start (ho_transport ho) t of
             (t', Some e) \<Rightarrow> (s\<lparr>sw_agent := Some (ag1, t')\<rparr>, Inl e)
           | (t', None) \<Rightarrow>
               (s\<lparr>sw_agent := Some (agent_start ag1 mt, t'), sw_run_name := Some run_name, sw_started_at := now,
                  sw_tasks := True\<rparr>, Inr (started run_name (as_node a) ''local''))))"

definition svc_start :: "('g, 't, 'l) host \<Rightarrow> real \<Rightarrow> real \<Rightarrow> ('g, 't, 'l) service handler" where
  "svc_start ho now mt s args =
     (case sw_assignment s of
        None \<Rightarrow> (s, Inl RuntimeError)
      | Some a \<Rightarrow>
          if sw_agent s = None \<and> sw_relay s = None then (s, Inl RuntimeError)
          else if running s then (s, Inl RuntimeError)
          else
            let run_name = str_arg ho args ''run_name'' ''run'' in
            (case epoch_arg ho s args of
               Inl e \<Rightarrow> (s, Inl e)
             | Inr epoch \<Rightarrow>
                 let s1 = s\<lparr>sw_epoch := epoch\<rparr> in
                 (case open_log s1 a run_name of
                    Inl e \<Rightarrow> (s1, Inl e)
                  | Inr L \<Rightarrow>
                      if is_relay s then start_relay ho now mt (set_log L s1) a run_name
                      else start_local ho now mt (set_log L s1) a run_name)))"

subsection \<open>stop\<close>

definition stopped :: "string option \<Rightarrow> nat \<Rightarrow> bool \<Rightarrow> jdict \<Rightarrow> response \<times> bytes option" where
  "stopped run_name samples was extra =
     (ok_response ([(''run_name'', case run_name of None \<Rightarrow> JNull | Some n \<Rightarrow> JStr n),
        (''samples'', JInt (int samples)), (''was_running'', JBool was)] @ extra), None)"

definition duration_s :: "real \<Rightarrow> ('g, 't, 'l) service \<Rightarrow> jdict" where
  "duration_s now s = [(''duration_s'', JFloat (of_int (py_round ((now - sw_started_at s) * 1000)) / 1000))]"

text \<open>The end of both kinds of run: the log is finalized, the run's name given up.\<close>

definition finish_run :: "real \<Rightarrow> ('g, 't, 'l) service \<Rightarrow> ('g, 't, 'l) service \<times> (response \<times> bytes option) result" where
  "finish_run now s =
     (case sw_runlog s of
        None \<Rightarrow> (s\<lparr>sw_run_name := None\<rparr>, Inr (stopped (sw_run_name s) 0 True (duration_s now s)))
      | Some L \<Rightarrow>
          (case log_finalize L of
             Inl e \<Rightarrow> (set_log (log_close L) s, Inl e)
           | Inr L' \<Rightarrow> ((set_log L' s)\<lparr>sw_run_name := None\<rparr>,
               Inr (stopped (sw_run_name s) (lg_count L') True (duration_s now s)))))"

definition svc_halt :: "('g, 't, 'l) host \<Rightarrow> ('g, 't, 'l) service \<Rightarrow> ('g, 't, 'l) service \<times> exn option" where
  "svc_halt ho s =
     (let s1 = s\<lparr>sw_tasks := False\<rparr> in
      case sw_agent s of
        None \<Rightarrow> (s1, None)
      | Some (ag, t) \<Rightarrow>
          (case to_stop (ho_transport ho) t of (t', e) \<Rightarrow> (s1\<lparr>sw_agent := Some (agent_stop ag, t')\<rparr>, e)))"

definition svc_stop :: "('g, 't, 'l) host \<Rightarrow> real \<Rightarrow> ('g, 't, 'l) service handler" where
  "svc_stop ho now s args =
     (if is_relay s then
        if sw_run_name s = None then (s, Inr (stopped None 0 False []))
        else
          let s1 = (case (sw_relay s, sw_link s) of
                      (Some r, Some l) \<Rightarrow>
                        (case relay_stop (ho_request ho) (r, l) of
                           ((r', l'), e) \<Rightarrow> s\<lparr>sw_relay := Some r', sw_link := Some l'\<rparr>)
                    | _ \<Rightarrow> s)
          in finish_run now s1
      else if \<not> running s then
        (s, Inr (stopped (sw_run_name s) (case sw_runlog s of None \<Rightarrow> 0 | Some L \<Rightarrow> lg_count L) False []))
      else (case svc_halt ho s of (s1, Some e) \<Rightarrow> (s1, Inl e) | (s1, None) \<Rightarrow> finish_run now s1))"

subsection \<open>status, list_runs, fetch\<close>

definition relay_status :: "relay \<Rightarrow> real \<Rightarrow> jdict" where
  "relay_status r mt =
     (let elapsed = (case rl_t0 r of None \<Rightarrow> 0 | Some t0 \<Rightarrow> mt - t0) in
      [(''mode'', JStr ''relay''),
       (''node_id'', case rl_assignment r of Some a \<Rightarrow> JInt (as_node a) | None \<Rightarrow> JNull),
       (''configured'', JBool (rl_assignment r \<noteq> None)),
       (''running'', JBool (rl_t0 r \<noteq> None)),
       (''reports'', JInt (rc_reports (rl_counters r))), (''malformed'', JInt (rc_malformed (rl_counters r))),
       (''elapsed_s'', JFloat (of_int (py_round (elapsed * 1000)) / 1000)),
       (''last'', case rl_last r of
          None \<Rightarrow> JNull
        | Some q \<Rightarrow> JObj [(''t_us'', JInt (sr_t_us q)), (''state'', JInt (sr_state q)), (''vstate'', JInt (sr_vstate q)),
            (''vartheta'', JInt (sr_vartheta q)), (''counter'', JInt (sr_counter q)),
            (''neighbor_vstates'', JArr (map JInt (sr_nvstates q))), (''neighbor_fresh'', JArr (map JBool (sr_nfresh q)))])])"

definition type_name :: "agent_type \<Rightarrow> string" where
  "type_name t = (case t of BLE \<Rightarrow> ''ble'' | WIFI \<Rightarrow> ''wifi'' | BRIDGE \<Rightarrow> ''bridge'')"

text \<open>\<^verbatim>\<open>d.update(e)\<close>: a key of both keeps its place and takes the new value.\<close>

definition dict_update :: "jdict \<Rightarrow> jdict \<Rightarrow> jdict" where
  "dict_update d e = foldl (\<lambda>d (k, v). AList.update k v d) d e"

definition svc_status :: "('g, 't, 'l) host \<Rightarrow> int \<Rightarrow> real \<Rightarrow> ('g, 't, 'l) service handler" where
  "svc_status ho control_port mt s args =
     (let data =
        [(''node_type'', JStr (type_name (sw_type s))),
         (''watchdog'', JStr (case sw_agent s of Some (ag, t) \<Rightarrow> watchdog_cause (ag_law ag) | None \<Rightarrow> '''')),
         (''node_id'', case sw_assignment s of Some a \<Rightarrow> JInt (as_node a) | None \<Rightarrow> JNull),
         (''configured'', JBool (sw_assignment s \<noteq> None)), (''running'', JBool (running s)),
         (''run_name'', case sw_run_name s of Some n \<Rightarrow> JStr n | None \<Rightarrow> JNull),
         (''samples'', JInt (case sw_runlog s of Some L \<Rightarrow> int (lg_count L) | None \<Rightarrow> 0)),
         (''control_port'', JInt control_port)] @
        (if sw_record_errors s \<noteq> 0
         then [(''record_errors'', JInt (int (sw_record_errors s))),
               (''record_error'', case sw_record_error s of Some e \<Rightarrow> JStr (ho_message ho e) | None \<Rightarrow> JNull)]
         else [])
      in case (is_relay s, sw_relay s) of
        (True, Some r) \<Rightarrow>
          (s, Inr (ok_response (AList.update ''node_type'' (JStr (type_name (sw_type s)))
                     (dict_update data (relay_status r mt))), None))
      | _ \<Rightarrow>
          (s, Inr (ok_response (data @ (case sw_agent s of
             None \<Rightarrow> []
           | Some (ag, t) \<Rightarrow> [(''neighbors_heard'', JArr (map JInt (heard (ag_neighbors ag)))),
                             (''neighbors_missing'', JArr (map JInt (missing (ag_neighbors ag)))),
                             (''published'', JInt (ag_published ag))])), None)))"

definition run_dirs :: "disk \<Rightarrow> string list" where
  "run_dirs d = sort (remdups (map (\<lambda>((run, name), x). run) d))"

definition svc_list_runs :: "('g, 't, 'l) service handler" where
  "svc_list_runs s args = (s, Inr (ok_response [(''runs'', JArr (map JStr (run_dirs (sw_disk s))))], None))"

definition artefact_suffix :: "string \<Rightarrow> string" where
  "artefact_suffix x = (if x = ''meta'' then ''.meta.json'' else if x = ''rows'' then ''.bin'' else ''.json'')"

definition svc_fetch :: "('g, 't, 'l) host \<Rightarrow> ('g, 't, 'l) service handler" where
  "svc_fetch ho s args =
     (let run_name = str_arg ho args ''run_name'' ''''; artifact = str_arg ho args ''artifact'' ''json'' in
      if artifact \<notin> {''meta'', ''rows'', ''json''} then (s, Inl ValueError)
      else case sw_assignment s of
        None \<Rightarrow> (s, Inl RuntimeError)
      | Some a \<Rightarrow>
          let name = str_int (as_node a) @ artefact_suffix artifact in
          (case map_of (sw_disk s) (run_name, name) of
             None \<Rightarrow> (s, Inl FileNotFoundError)
           | Some x \<Rightarrow>
               let blob = (case x of RowsFile b \<Rightarrow> b | _ \<Rightarrow> ho_render ho x) in
               (s, Inr (\<lparr>rp_ok = True, rp_kind = ''blob'', rp_data = [], rp_error = None, rp_n_bytes = int (length blob),
                         rp_name = name, rp_version = PROTOCOL_VERSION\<rparr>, Some blob))))"

definition svc_handlers :: "('g, 't, 'l) host \<Rightarrow> int \<Rightarrow> real \<Rightarrow> real \<Rightarrow> (string \<times> ('g, 't, 'l) service handler) list" where
  "svc_handlers ho control_port now mt =
     [(''status'', svc_status ho control_port mt), (''configure'', svc_configure ho), (''start'', svc_start ho now mt),
      (''stop'', svc_stop ho now), (''list_runs'', svc_list_runs), (''fetch'', svc_fetch ho)]"

subsection \<open>What a run records\<close>

definition row_sample :: "('g, 't, 'l) host \<Rightarrow> 'g ctrl agent \<Rightarrow> log_row \<Rightarrow> log_sample" where
  "row_sample ho ag row =
     \<lparr>sm_t = ho_float ho (lr_t row), sm_channels = map (ho_float ho) (output_channels (lr_out row)),
      sm_vstates = map (\<lambda>v. ho_float ho (of_int v)) (lr_vstates row), sm_fresh = lr_arrivals row, sm_device_t = None,
      sm_seq = map (\<lambda>v. ho_float ho (of_int v)) (lr_seq row), sm_rssi = map (\<lambda>v. ho_float ho (of_int v)) (lr_rssi row),
      sm_timing = map (ho_float ho) (ag_last_timing ag)\<rparr>"

definition record_row :: "('g, 't, 'l) host \<Rightarrow> 'g ctrl agent \<Rightarrow> log_row \<Rightarrow> ('g, 't, 'l) service \<Rightarrow> ('g, 't, 'l) service result" where
  "record_row ho ag row s =
     (case sw_runlog s of
        None \<Rightarrow> Inr s
      | Some L \<Rightarrow> bindR (log_append L (row_sample ho ag row)) (\<lambda>L'. Inr (set_log L' s)))"

text \<open>A pass of the control loop after receiving \<open>rs\<close>: the packets it publishes; an exception ends
  the loop's task.\<close>

definition svc_tick :: "('g, 't, 'l) host \<Rightarrow> ('g, 't, 'l) service \<Rightarrow> tick_input \<Rightarrow>
  (('g, 't, 'l) service \<times> state_packet list) result" where
  "svc_tick ho s x =
     (let (rs, now_us, now_s, cpu) = x in
      case (sw_tasks s, sw_agent s) of
        (True, Some (ag, t)) \<Rightarrow>
          bindR (agent_control_step (law_for (ho_rng ho) (ag_law ag)) (agent_hear ag rs) now_us now_s cpu)
            (\<lambda>(ag', out, ps, rows).
              bindR (case rows of [] \<Rightarrow> Inr s | row # _ \<Rightarrow> record_row ho ag' row s) (\<lambda>s'.
                Inr (s'\<lparr>sw_agent := Some (ag', t)\<rparr>, ps)))
      | _ \<Rightarrow> Inr (s, []))"

primrec svc_ticks :: "('g, 't, 'l) host \<Rightarrow> ('g, 't, 'l) service \<Rightarrow> tick_input list \<Rightarrow>
  (('g, 't, 'l) service \<times> state_packet list) result" where
  "svc_ticks ho s [] = Inr (s, [])"
| "svc_ticks ho s (x # xs) =
     bindR (svc_tick ho s x) (\<lambda>(s1, ps). bindR (svc_ticks ho s1 xs) (\<lambda>(s2, qs). Inr (s2, ps @ qs)))"

definition report_channels :: "state_report \<Rightarrow> int list" where
  "report_channels q =
     (case (sr_state_Q q, sr_vstate_Q q, sr_S1_hat q, sr_S2_hat q) of
        (Some xq, Some zq, Some s1, Some s2) \<Rightarrow> [sr_state q, xq, sr_vstate q, zq, s1, s2]
      | (Some xq, Some zq, _, _) \<Rightarrow> [sr_state q, xq, sr_vstate q, zq, sr_vartheta q]
      | _ \<Rightarrow> [sr_state q, sr_vstate q, sr_vartheta q])"

definition report_sample :: "('g, 't, 'l) host \<Rightarrow> state_report \<Rightarrow> int option \<Rightarrow> log_sample" where
  "report_sample ho q rx =
     (let fl = (\<lambda>n :: int. ho_float ho (of_int n)); device_t = ho_float ho (of_int (sr_t_us q) / 10 ^ 6) in
      \<lparr>sm_t = (case rx of None \<Rightarrow> device_t | Some t \<Rightarrow> ho_float ho (of_int t / 10 ^ 6)),
       sm_channels = map fl (report_channels q), sm_vstates = map fl (sr_nvstates q), sm_fresh = sr_nfresh q,
       sm_device_t = Some device_t, sm_seq = map fl (sr_nseq q), sm_rssi = map fl (sr_nrssi q), sm_timing = []\<rparr>)"

definition record_report :: "('g, 't, 'l) host \<Rightarrow> ('g, 't, 'l) service \<Rightarrow> state_report \<Rightarrow> int option \<Rightarrow> ('g, 't, 'l) service" where
  "record_report ho s q rx =
     (case sw_runlog s of
        None \<Rightarrow> s
      | Some L \<Rightarrow>
          (case log_append L (report_sample ho q rx) of
             Inr L' \<Rightarrow> set_log L' s
           | Inl e \<Rightarrow> s\<lparr>sw_record_errors := sw_record_errors s + 1,
                        sw_record_error := (if sw_record_errors s = 0 then Some e else sw_record_error s)\<rparr>))"

definition svc_frame :: "('g, 't, 'l) host \<Rightarrow> ('g, 't, 'l) service \<Rightarrow> timed_frame \<Rightarrow> ('g, 't, 'l) service" where
  "svc_frame ho s inbound =
     (case sw_relay s of
        None \<Rightarrow> s
      | Some r \<Rightarrow>
          (case relay_handle r inbound of
             (r', None) \<Rightarrow> s\<lparr>sw_relay := Some r'\<rparr>
           | (r', Some q) \<Rightarrow> record_report ho (s\<lparr>sw_relay := Some r'\<rparr>) q (tf_rx inbound)))"

end
