(* ===== verification/ServiceRuns.thy ===== *)
theory ServiceRuns
  imports Service
begin

section \<open>Runs of the agent service\<close>

text \<open>
  What \<open>Service\<close> does over a run. A local run is recorded completely (\<open>run_recorded\<close>) and its log never
  refuses a row (\<open>no_sample_refused\<close>); what a live update keeps, and what a failed configure leaves
  behind; what a board's agent says after its run. \<open>svc_reach\<close> is everything that can happen to a
  service, \<open>svc_ok\<close> its invariant.
\<close>

subsection \<open>Facts about the parts\<close>

lemma set_log_fields [simp]:
  "sw_runlog (set_log L s) = Some L" "sw_type (set_log L s) = sw_type s" "sw_link (set_log L s) = sw_link s"
  "sw_epoch (set_log L s) = sw_epoch s" "sw_assignment (set_log L s) = sw_assignment s" "sw_agent (set_log L s) = sw_agent s"
  "sw_relay (set_log L s) = sw_relay s" "sw_record_errors (set_log L s) = sw_record_errors s"
  "sw_run_name (set_log L s) = sw_run_name s" "sw_tasks (set_log L s) = sw_tasks s" "sw_radio (set_log L s) = sw_radio s"
  "is_relay (set_log L s) = is_relay s" "running (set_log L s) = running s" "sw_disk (set_log L s) = store_log L (sw_disk s)"
  "sw_record_error (set_log L s) = sw_record_error s"
  by (simp_all add: set_log_def is_relay_def running_def)

definition log_key :: "run_log \<Rightarrow> string \<times> string" where
  "log_key L = (rm_run_name (lg_meta L), str_int (rm_node_id (lg_meta L)) @ ''.bin'')"

lemma store_log_rows [simp]: "map_of (store_log L d) (log_key L) = Some (RowsFile (lg_file L))"
  by (simp add: store_log_def log_key_def Let_def update_conv' split: option.split)

lemma store_log_meta:
  "lg_meta_file L = Some m \<Longrightarrow>
     map_of (store_log L d) (rm_run_name (lg_meta L), str_int (rm_node_id (lg_meta L)) @ ''.meta.json'') = Some (MetaFile m)"
  by (simp add: store_log_def Let_def update_conv' split: option.split)

lemma start_log_facts:
  assumes "open_log s a run_name = Inr L"
  shows "log_ok L" and "log_content L = []" and "lg_count L = 0" and "rm_run_name (lg_meta L) = run_name"
    and "rm_node_id (lg_meta L) = as_node a" and "log_key L = (run_name, str_int (as_node a) @ ''.bin'')"
    and "rm_dim (lg_meta L) = controller_dim (as_controller a)"
    and "controller_columns (as_controller a) (is_relay s) = Inr (rm_state_columns (lg_meta L))"
    and "rm_timing_columns (lg_meta L) = timing_columns (as_controller a) (is_relay s)"
    and "rm_neighbors (lg_meta L) = as_neighbors a"
    and "rm_units (lg_meta L) = (if is_relay s then ''scaled_int'' else ''engineering'')"
proof -
  obtain m L0 where m: "run_meta_of s a run_name = Inr m" "log_new m 25 = Inr L0" "L = log_start L0"
    using assms by (auto simp: open_log_def result_simps)
  note st = log_start_ok [OF m(2)]
  show "log_ok L" "log_content L = []" "lg_count L = 0" using st by (simp_all add: m(3))
  have "lg_meta L = m\<lparr>rm_record_bytes := rm_record_bytes (lg_meta L), rm_columns := rm_columns (lg_meta L), rm_samples := 0\<rparr>"
    using m by (auto simp: log_new_def log_start_def log_write_meta_def Let_def split: if_splits)
  then show "rm_run_name (lg_meta L) = run_name" "rm_node_id (lg_meta L) = as_node a"
    "log_key L = (run_name, str_int (as_node a) @ ''.bin'')"
    "rm_dim (lg_meta L) = controller_dim (as_controller a)"
    "controller_columns (as_controller a) (is_relay s) = Inr (rm_state_columns (lg_meta L))"
    "rm_timing_columns (lg_meta L) = timing_columns (as_controller a) (is_relay s)"
    "rm_neighbors (lg_meta L) = as_neighbors a"
    "rm_units (lg_meta L) = (if is_relay s then ''scaled_int'' else ''engineering'')"
    using m(1) by (cases "lg_meta L"; auto simp: run_meta_of_def result_simps log_key_def)+
qed

lemma append_meta: "log_append L sm = Inr L' \<Longrightarrow> lg_meta L' = lg_meta L"
  by (auto simp: log_append_def Let_def log_flush_def split: if_splits)

lemma append_accepted: "log_ok L \<Longrightarrow> log_append L sm = Inr L' \<Longrightarrow> log_accepts L sm"
  using blog.refuse [of L sm] by fastforce

lemma append_facts:
  assumes "log_ok L" and "log_append L sm = Inr L'"
  shows "log_ok L'" and "log_content L' = log_content L @ [sample_row (lg_meta L) sm]" and "lg_count L' = lg_count L + 1"
    and "log_key L' = log_key L"
  using log_append_accept [OF assms(1) append_accepted [OF assms]] assms(2) append_meta [OF assms(2)]
  by (auto simp: log_key_def)

subsection \<open>Recording a local run\<close>

text \<open>The samples the agent alone produces on a sequence of ticks.\<close>

primrec run_samples :: "('g, 't, 'l) host \<Rightarrow> 'g ctrl agent \<Rightarrow> tick_input list \<Rightarrow> log_sample list result" where
  "run_samples ho ag [] = Inr []"
| "run_samples ho ag (x # xs) =
     (let (rs, now_us, now_s, cpu) = x in
      bindR (agent_control_step (law_for (ho_rng ho) (ag_law ag)) (agent_hear ag rs) now_us now_s cpu)
        (\<lambda>(ag', out, ps, rows). bindR (run_samples ho ag' xs) (\<lambda>ss. Inr (map (row_sample ho ag') rows @ ss))))"

lemma emit_row:
  assumes "agent_emit w a now_us t_s out vs = Inr (a', out', ps, rows)" and "ag_on_sample a"
  shows "(\<exists>row. rows = [row] \<and> lr_out row = out) \<and> ag_on_sample a' \<and> ag_law a' = ag_law a \<and>
    ag_logs_timing a' = ag_logs_timing a \<and> ag_last_timing a' = ag_last_timing a"
proof -
  obtain a2 qs where q: "(if ag_publish_in_tick a \<and> (ag_ticks a + 1) mod ag_publish_every a = 0
        then bindR (agent_publish_step w a now_us) (\<lambda>(a2, p). Inr (a2, [p])) else Inr (a, [])) = Inr (a2, qs)"
    using assms(1) unfolding agent_emit_def by (auto simp: bindR_eq_Inr split: if_splits)
  have "ag_on_sample a2 \<and> ag_law a2 = ag_law a \<and> ag_logs_timing a2 = ag_logs_timing a \<and> ag_last_timing a2 = ag_last_timing a"
    using q assms(2) by (auto simp: result_simps publish_step_Inr split: if_splits)
  then show ?thesis
    using assms unfolding agent_emit_def q
    by (cases "ag_publish_in_tick a") (auto simp: Let_def split_beta simp del: split_paired_Ex)
qed

lemma control_step_rows:
  assumes "agent_control_step w a now_us now_s cpu = Inr (a', out, ps, rows)" and "ag_on_sample a"
  shows "\<exists>row. rows = [row]" and "ag_on_sample a'"
proof -
  obtain law' out' vs es t_s where "agent_emit w (agent_commit a law' out' vs es t_s now_s cpu) now_us t_s out' vs =
      Inr (a', out, ps, rows)"
    using assms(1) by (auto simp: agent_control_step_def Let_def bindR_eq_Inr split: prod.splits if_splits)
  from emit_row [OF this] assms(2) show "\<exists>row. rows = [row]" "ag_on_sample a'" by auto
qed

lemma svc_tick_records:
  assumes "svc_tick ho s x = Inr (s', ps)" and "sw_tasks s" and "sw_agent s = Some (ag, t)" and "sw_runlog s = Some L"
    and "ag_on_sample ag"
  obtains ag' sm L' where "run_samples ho ag (x # xs) = bindR (run_samples ho ag' xs) (\<lambda>ss. Inr (sm # ss))"
    and "log_append L sm = Inr L'" and "s' = (set_log L' s)\<lparr>sw_agent := Some (ag', t)\<rparr>" and "ag_on_sample ag'"
proof -
  obtain rs now_us now_s cpu where x: "x = (rs, now_us, now_s, cpu)" by (metis prod.collapse)
  obtain ag' out qs rows where st: "agent_control_step (law_for (ho_rng ho) (ag_law ag)) (agent_hear ag rs) now_us now_s cpu
      = Inr (ag', out, qs, rows)"
    and rest: "bindR (case rows of [] \<Rightarrow> Inr s | row # _ \<Rightarrow> record_row ho ag' row s)
        (\<lambda>s'. Inr (s'\<lparr>sw_agent := Some (ag', t)\<rparr>, qs)) = Inr (s', ps)"
    using assms(1-3) by (auto simp: svc_tick_def x result_simps split: prod.splits)
  have on: "ag_on_sample (agent_hear ag rs)" using assms(5) by simp
  obtain row where row: "rows = [row]" using control_step_rows(1) [OF st on] by blast
  show ?thesis
  proof (rule that)
    show "ag_on_sample ag'" by (rule control_step_rows(2) [OF st on])
    show "run_samples ho ag (x # xs) = bindR (run_samples ho ag' xs) (\<lambda>ss. Inr (row_sample ho ag' row # ss))"
      using st by (simp add: x row)
    show "log_append L (row_sample ho ag' row) = Inr (projr (log_append L (row_sample ho ag' row)))"
      and "s' = (set_log (projr (log_append L (row_sample ho ag' row))) s)\<lparr>sw_agent := Some (ag', t)\<rparr>"
      using rest assms(4) by (auto simp: row record_row_def result_simps)
  qed
qed

lemma svc_ticks_record:
  assumes "svc_ticks ho s xs = Inr (s', ps)" and "sw_tasks s" and "sw_agent s = Some (ag, t)" and "sw_runlog s = Some L"
    and "log_ok L" and "ag_on_sample ag"
  shows "\<exists>ss ag' L'. run_samples ho ag xs = Inr ss \<and> length ss = length xs \<and> sw_runlog s' = Some L' \<and> log_ok L' \<and>
    log_content L' = log_content L @ map (sample_row (lg_meta L)) ss \<and> lg_count L' = lg_count L + length xs \<and>
    lg_meta L' = lg_meta L \<and> sw_agent s' = Some (ag', t) \<and> sw_tasks s' \<and> sw_assignment s' = sw_assignment s \<and>
    sw_run_name s' = sw_run_name s \<and> sw_type s' = sw_type s"
  using assms
proof (induction xs arbitrary: s ps ag L)
  case Nil
  then show ?case by simp
next
  case (Cons x xs)
  obtain s1 ps1 ps2 where t1: "svc_tick ho s x = Inr (s1, ps1)" "svc_ticks ho s1 xs = Inr (s', ps2)"
    using Cons.prems(1) by (auto simp: result_simps)
  obtain ag1 sm L1 where r: "run_samples ho ag (x # xs) = bindR (run_samples ho ag1 xs) (\<lambda>ss. Inr (sm # ss))"
      "log_append L sm = Inr L1" "s1 = (set_log L1 s)\<lparr>sw_agent := Some (ag1, t)\<rparr>" "ag_on_sample ag1"
    by (rule svc_tick_records [OF t1(1) Cons.prems(2,3,4,6)])
  note a = append_facts [OF Cons.prems(5) r(2)]
  have "\<exists>ss ag' L'. run_samples ho ag1 xs = Inr ss \<and> length ss = length xs \<and> sw_runlog s' = Some L' \<and> log_ok L' \<and>
    log_content L' = log_content L1 @ map (sample_row (lg_meta L1)) ss \<and> lg_count L' = lg_count L1 + length xs \<and>
    lg_meta L' = lg_meta L1 \<and> sw_agent s' = Some (ag', t) \<and> sw_tasks s' \<and> sw_assignment s' = sw_assignment s1 \<and>
    sw_run_name s' = sw_run_name s1 \<and> sw_type s' = sw_type s1"
    by (rule Cons.IH [OF t1(2)]) (use Cons.prems(2) a(1) r(4) in \<open>simp_all add: r(3)\<close>)
  then show ?case using a append_meta [OF r(2)] unfolding r(1) by (auto simp: r(3))
qed

lemma svc_start_local:
  assumes "svc_start ho now mt s args = (s1, Inr r)" and "\<not> is_relay s"
  obtains a ag t t' L epoch where "sw_assignment s = Some a" and "sw_agent s = Some (ag, t)" and "\<not> running s"
    and "open_log (s\<lparr>sw_epoch := epoch\<rparr>) a (str_arg ho args ''run_name'' ''run'') = Inr L"
    and "to_start (ho_transport ho) t = (t', None)"
    and "sw_agent s1 = Some (agent_start (ag\<lparr>ag_on_sample := True\<rparr>) mt, t')" and "sw_runlog s1 = Some L" and "sw_tasks s1"
    and "sw_assignment s1 = Some a" and "sw_run_name s1 = Some (str_arg ho args ''run_name'' ''run'')"
    and "sw_type s1 = sw_type s" and "sw_disk s1 = store_log L (sw_disk s)" and "sw_relay s1 = sw_relay s" and "sw_link s1 = sw_link s"
    and "sw_epoch s1 = epoch" and "sw_record_errors s1 = sw_record_errors s"
proof -
  obtain a where a: "sw_assignment s = Some a" using assms(1) by (cases "sw_assignment s") (auto simp: svc_start_def)
  have nr: "\<not> running s" and ex: "\<not> (sw_agent s = None \<and> sw_relay s = None)"
    using assms(1) a by (auto simp: svc_start_def split: if_splits)
  obtain epoch where e: "epoch_arg ho s args = Inr epoch"
    using assms(1) a nr ex by (auto simp: svc_start_def Let_def split: sum.splits)
  obtain L where L: "open_log (s\<lparr>sw_epoch := epoch\<rparr>) a (str_arg ho args ''run_name'' ''run'') = Inr L"
    using assms(1) a nr ex e by (auto simp: svc_start_def Let_def split: sum.splits)
  have st: "start_local ho now mt (set_log L (s\<lparr>sw_epoch := epoch\<rparr>)) a (str_arg ho args ''run_name'' ''run'') = (s1, Inr r)"
    using assms a nr ex e L by (simp add: svc_start_def Let_def)
  then obtain ag t where ag: "sw_agent s = Some (ag, t)" by (auto simp: start_local_def split: option.splits)
  obtain t' where t': "to_start (ho_transport ho) t = (t', None)"
    using st ag by (auto simp: start_local_def Let_def split: prod.splits option.splits)
  show ?thesis
    by (rule that [OF a ag nr L t']) (use st ag t' a in \<open>auto simp: start_local_def Let_def\<close>)
qed

lemma finish_run_log:
  assumes "sw_runlog s = Some L" and "log_ok L"
  obtains L' where "finish_run now s = ((set_log L' s)\<lparr>sw_run_name := None\<rparr>,
      Inr (stopped (sw_run_name s) (lg_count L) True (duration_s now s)))"
    and "log_key L' = log_key L" and "\<not> lg_open L'" and "recover_rows (lg_meta L') (lg_file L') = Inr (log_content L)"
    and "lg_meta L' = (lg_meta L)\<lparr>rm_samples := lg_count L\<rparr>" and "lg_meta_file L' = Some (lg_meta L')"
proof -
  obtain L' where L': "log_finalize L = Inr L'" "\<not> lg_open L'" "lg_meta L' = (lg_meta L)\<lparr>rm_samples := lg_count L\<rparr>"
      "lg_count L' = lg_count L" "lg_meta_file L' = Some (lg_meta L')" "recover_rows (lg_meta L') (lg_file L') = Inr (log_content L)"
    by (rule log_finalize_ok [OF assms(2)])
  show ?thesis
    by (rule that [of L']) (use L' assms(1) in \<open>simp_all add: finish_run_def log_key_def\<close>)
qed

lemma recover_rows_samples [simp]: "recover_rows (m\<lparr>rm_samples := k\<rparr>) = recover_rows m"
  by (simp add: recover_rows_def fun_eq_iff)

lemma sample_row_samples [simp]: "sample_row (m\<lparr>rm_samples := k\<rparr>) = sample_row m"
  by (simp add: sample_row_def fun_eq_iff)

text \<open>The metadata of a finished local run: what \<open>_open_log\<close> took from the assignment, and the row count.\<close>

definition describes :: "run_meta \<Rightarrow> hub_assignment \<Rightarrow> string \<Rightarrow> nat \<Rightarrow> bool" where
  "describes m a run_name n \<longleftrightarrow>
     rm_run_name m = run_name \<and> rm_node_id m = as_node a \<and> rm_neighbors m = as_neighbors a \<and>
     rm_dim m = controller_dim (as_controller a) \<and> controller_columns (as_controller a) False = Inr (rm_state_columns m) \<and>
     rm_timing_columns m = timing_columns (as_controller a) False \<and> rm_units m = ''engineering'' \<and> rm_samples m = n"

lemma local_run_records:
  assumes "svc_start ho now mt s args = (s1, Inr r1)" and "\<not> is_relay s"
    and "svc_ticks ho s1 xs = Inr (s2, ps)" and "svc_stop ho now' s2 args' = (s3, Inr r2)"
    and "map_of fetch_args ''run_name'' = Some (JStr (str_arg ho args ''run_name'' ''run''))"
    and "map_of fetch_args ''artifact'' = Some (JStr ''rows'')"
    and "map_of meta_args ''run_name'' = Some (JStr (str_arg ho args ''run_name'' ''run''))"
    and "map_of meta_args ''artifact'' = Some (JStr ''meta'')"
  shows "\<exists>a ag t m ss blob resp resp'.
     sw_assignment s1 = Some a \<and> describes m a (str_arg ho args ''run_name'' ''run'') (length xs) \<and>
     sw_agent s1 = Some (ag, t) \<and> run_samples ho ag xs = Inr ss \<and> length ss = length xs \<and>
     map_of (rp_data (fst r2)) ''samples'' = Some (JInt (int (length xs))) \<and> \<not> running s3 \<and>
     svc_fetch ho s3 fetch_args = (s3, Inr (resp, Some blob)) \<and> recover_rows m blob = Inr (map (sample_row m) ss) \<and>
     svc_fetch ho s3 meta_args = (s3, Inr (resp', Some (ho_render ho (MetaFile m)))) \<and>
     rp_name resp = str_int (as_node a) @ ''.bin'' \<and> rp_name resp' = str_int (as_node a) @ ''.meta.json''"
proof -
  obtain a ag t t' L epoch where st: "sw_assignment s = Some a"
      "open_log (s\<lparr>sw_epoch := epoch\<rparr>) a (str_arg ho args ''run_name'' ''run'') = Inr L"
      "sw_agent s1 = Some (agent_start (ag\<lparr>ag_on_sample := True\<rparr>) mt, t')" "sw_runlog s1 = Some L" "sw_tasks s1"
      "sw_assignment s1 = Some a" "sw_type s1 = sw_type s"
    by (rule svc_start_local [OF assms(1,2)]) metis
  note lf = start_log_facts [OF st(2)]
  let ?ag = "agent_start (ag\<lparr>ag_on_sample := True\<rparr>) mt"
  have on: "ag_on_sample ?ag" by (simp add: agent_start_def)
  obtain ss ag' L2 where ss: "run_samples ho ?ag xs = Inr ss" "length ss = length xs" "sw_runlog s2 = Some L2" "log_ok L2"
      "log_content L2 = log_content L @ map (sample_row (lg_meta L)) ss" "lg_count L2 = lg_count L + length xs"
      "lg_meta L2 = lg_meta L" "sw_agent s2 = Some (ag', t')" "sw_tasks s2" "sw_assignment s2 = sw_assignment s1"
      "sw_type s2 = sw_type s1"
    using svc_ticks_record [OF assms(3) st(5,3,4) lf(1) on] by blast
  have nr: "\<not> is_relay s2" using assms(2) st(7) ss(11) by (simp add: is_relay_def)
  have run2: "running s2" using ss(9) by (simp add: running_def)
  obtain t2 where t2: "to_stop (ho_transport ho) t' = (t2, None)"
    using assms(4) ss(8) nr run2
    by (cases "to_stop (ho_transport ho) t'"; cases "snd (to_stop (ho_transport ho) t')") (auto simp: svc_stop_def svc_halt_def)
  define sh where "sh = s2\<lparr>sw_tasks := False, sw_agent := Some (agent_stop ag', t2)\<rparr>"
  have "svc_halt ho s2 = (sh, None)" using ss(8) t2 by (simp add: svc_halt_def sh_def)
  then have fin: "finish_run now' sh = (s3, Inr r2)" using assms(4) nr run2 by (simp add: svc_stop_def)
  have shL: "sw_runlog sh = Some L2" by (simp add: sh_def ss(3))
  obtain L3 where L3: "finish_run now' sh = ((set_log L3 sh)\<lparr>sw_run_name := None\<rparr>,
        Inr (stopped (sw_run_name sh) (lg_count L2) True (duration_s now' sh)))"
      "log_key L3 = log_key L2" "recover_rows (lg_meta L3) (lg_file L3) = Inr (log_content L2)"
      "lg_meta L3 = (lg_meta L2)\<lparr>rm_samples := lg_count L2\<rparr>" "lg_meta_file L3 = Some (lg_meta L3)"
    by (rule finish_run_log [OF shL ss(4), of now']) blast
  have s3: "s3 = (set_log L3 sh)\<lparr>sw_run_name := None\<rparr>"
    and r2: "r2 = stopped (sw_run_name sh) (lg_count L2) True (duration_s now' sh)" using fin L3(1) by auto
  have key: "log_key L3 = (str_arg ho args ''run_name'' ''run'', str_int (as_node a) @ ''.bin'')"
    using L3(2) ss(7) lf(6) by (simp add: log_key_def)
  have "map_of (sw_disk s3) (log_key L3) = Some (RowsFile (lg_file L3))" by (simp add: s3)
  moreover have "str_arg ho fetch_args ''run_name'' '''' = str_arg ho args ''run_name'' ''run''"
    "str_arg ho fetch_args ''artifact'' ''json'' = ''rows''"
    using assms(5,6) by (auto simp: str_arg_def [where args = fetch_args])
  ultimately have fetch: "\<exists>resp. svc_fetch ho s3 fetch_args = (s3, Inr (resp, Some (lg_file L3))) \<and>
      rp_name resp = str_int (as_node a) @ ''.bin''"
    using st(6) ss(10) key by (simp add: svc_fetch_def Let_def s3 sh_def artefact_suffix_def)
  have "map_of (sw_disk s3) (rm_run_name (lg_meta L3), str_int (rm_node_id (lg_meta L3)) @ ''.meta.json'') = Some (MetaFile (lg_meta L3))"
    using store_log_meta [OF L3(5)] by (simp add: s3)
  moreover have "rm_run_name (lg_meta L3) = str_arg ho args ''run_name'' ''run''" "rm_node_id (lg_meta L3) = as_node a"
    using L3(4) ss(7) lf(4,5) by simp_all
  moreover have "str_arg ho meta_args ''run_name'' '''' = str_arg ho args ''run_name'' ''run''"
    "str_arg ho meta_args ''artifact'' ''json'' = ''meta''"
    using assms(7,8) by (auto simp: str_arg_def [where args = meta_args])
  ultimately have fetch_meta: "\<exists>resp. svc_fetch ho s3 meta_args = (s3, Inr (resp, Some (ho_render ho (MetaFile (lg_meta L3))))) \<and>
      rp_name resp = str_int (as_node a) @ ''.meta.json''"
    using st(6) ss(10) by (simp add: svc_fetch_def Let_def s3 sh_def artefact_suffix_def)
  have rows: "recover_rows (lg_meta L3) (lg_file L3) = Inr (map (sample_row (lg_meta L3)) ss)"
    using L3(3,4) ss(5,7) lf(2) by simp
  have "describes (lg_meta L3) a (str_arg ho args ''run_name'' ''run'') (length xs)"
    using L3(4) ss(6,7) lf(3-5,7-11) assms(2) by (simp add: describes_def is_relay_def)
  moreover have "sw_assignment s1 = Some a" by (rule st(6))
  moreover have "map_of (rp_data (fst r2)) ''samples'' = Some (JInt (int (length xs)))"
    using ss(6) lf(3) by (simp add: r2 stopped_def ok_response_def)
  moreover have "\<not> running s3" using nr by (simp add: s3 sh_def running_def is_relay_def)
  ultimately show ?thesis using fetch fetch_meta rows st(3) ss(1,2) by blast
qed

text \<open>C5: A local run is recorded completely: after a start and any number of ticks that returned, a stop
  whose transport stops reports one sample per tick, and fetching the rows gives a file that reads
  back as exactly the rows the agent produced, one per tick, in order.\<close>

theorem run_recorded:
  assumes "svc_start ho now mt s args = (s1, Inr r1)" and "\<not> is_relay s"
    and "svc_ticks ho s1 xs = Inr (s2, ps)" and "svc_stop ho now' s2 args' = (s3, Inr r2)"
    and "map_of fetch_args ''run_name'' = Some (JStr (str_arg ho args ''run_name'' ''run''))"
    and "map_of fetch_args ''artifact'' = Some (JStr ''rows'')"
  shows "\<exists>ag t m ss blob resp.
     sw_agent s1 = Some (ag, t) \<and> run_samples ho ag xs = Inr ss \<and> length ss = length xs \<and>
     map_of (rp_data (fst r2)) ''samples'' = Some (JInt (int (length xs))) \<and> \<not> running s3 \<and>
     svc_fetch ho s3 fetch_args = (s3, Inr (resp, Some blob)) \<and> recover_rows m blob = Inr (map (sample_row m) ss)"
  using local_run_records [OF assms,
      of "[(''run_name'', JStr (str_arg ho args ''run_name'' ''run'')), (''artifact'', JStr ''meta'')]"] by auto

subsection \<open>The log's schema fits the law\<close>

definition fits :: "'g ctrl agent \<Rightarrow> run_log \<Rightarrow> bool" where
  "fits ag L \<longleftrightarrow> ctrl_typed (ag_law ag) \<and> ag_logs_timing ag = is_grid (ag_law ag) \<and>
     column_names (ctrl_class (ag_law ag)) = Inr (rm_state_columns (lg_meta L)) \<and>
     length (rm_timing_columns (lg_meta L)) = (if is_grid (ag_law ag) then 2 else 0)"

lemma control_step_fits:
  assumes "agent_control_step (law_for rg (ag_law ag)) ag now_us now_s cpu = Inr (ag', out, ps, rows)"
    and "fits ag L" and "ag_on_sample ag"
  shows "fits ag' L" and "\<exists>row. rows = [row] \<and> log_accepts L (row_sample ho ag' row)"
proof -
  let ?w = "law_for rg (ag_law ag)"
  obtain law' out' vs es t_s where law: "(if ac_enabled (ag_config ag) then lw_step ?w (ag_law ag) vs es
        else Inr (ag_law ag, \<lparr>co_state = lw_vstate ?w (ag_law ag), co_vstate = lw_vstate ?w (ag_law ag),
               co_extra = replicate (length (cl_channels (lw_class ?w))) 0\<rparr>)) = Inr (law', out')"
    and em: "agent_emit ?w (agent_commit ag law' out' vs es t_s now_s cpu) now_us t_s out' vs = Inr (ag', out, ps, rows)"
    using assms(1) by (auto simp: agent_control_step_def Let_def bindR_eq_Inr split: prod.splits if_splits)
  have ty: "ctrl_typed (ag_law ag)" "column_names (ctrl_class (ag_law ag)) = Inr (rm_state_columns (lg_meta L))"
    "ag_logs_timing ag = is_grid (ag_law ag)" "length (rm_timing_columns (lg_meta L)) = (if is_grid (ag_law ag) then 2 else 0)"
    using assms(2) by (auto simp: fits_def)
  have st: "ctrl_typed law' \<and> ctrl_class law' = ctrl_class (ag_law ag) \<and> is_grid law' = is_grid (ag_law ag) \<and>
      length (output_channels out') = length (rm_state_columns (lg_meta L))"
  proof (cases "ac_enabled (ag_config ag)")
    case True
    then have "ctrl_step rg (ag_law ag) vs es = Inr (law', out')" using law by (simp add: law_for_def)
    from ctrl_step_width [OF ty(1) this] ty(2) show ?thesis by auto
  next
    case False
    then show ?thesis using law ty disabled_width [OF ty(1)] by (auto simp: law_for_def output_channels_def)
  qed
  from emit_row [OF em] assms(3) obtain row where row: "rows = [row]" "lr_out row = out'" "ag_law ag' = law'"
      "ag_logs_timing ag' = ag_logs_timing ag" "length (ag_last_timing ag') = (if ag_logs_timing ag then 2 else 0)"
    by (auto simp: agent_commit_def Let_def)
  show "fits ag' L" using st ty by (simp add: fits_def row)
  show "\<exists>row. rows = [row] \<and> log_accepts L (row_sample ho ag' row)"
    using st ty by (simp add: row log_accepts_def row_sample_def)
qed

lemma fits_hear [simp]: "fits (agent_hear ag rs) L = fits ag L"
proof -
  have "ag_logs_timing (agent_hear ag rs) = ag_logs_timing ag"
    by (induction rs arbitrary: ag) (simp_all add: agent_hear_def agent_on_receive_def)
  then show ?thesis by (simp add: fits_def)
qed

lemma svc_ticks_return:
  assumes "run_samples ho ag xs = Inr ss" and "sw_tasks s" and "sw_agent s = Some (ag, t)" and "sw_runlog s = Some L"
    and "log_ok L" and "ag_on_sample ag" and "fits ag L"
  shows "\<exists>s' ps. svc_ticks ho s xs = Inr (s', ps)"
  using assms
proof (induction xs arbitrary: s ag ss L)
  case (Cons x xs)
  obtain rs now_us now_s cpu where x: "x = (rs, now_us, now_s, cpu)" by (metis prod.collapse)
  obtain ag' out ps rows ss' where st: "agent_control_step (law_for (ho_rng ho) (ag_law ag)) (agent_hear ag rs) now_us now_s cpu
      = Inr (ag', out, ps, rows)" and ss': "run_samples ho ag' xs = Inr ss'"
    using Cons.prems(1) by (auto simp: x bindR_eq_Inr)
  have st': "agent_control_step (law_for (ho_rng ho) (ag_law (agent_hear ag rs))) (agent_hear ag rs) now_us now_s cpu
      = Inr (ag', out, ps, rows)" using st by simp
  have f: "fits (agent_hear ag rs) L" "ag_on_sample (agent_hear ag rs)" using Cons.prems(6,7) by simp_all
  obtain row where row: "rows = [row]" "log_accepts L (row_sample ho ag' row)"
    using control_step_fits(2) [OF st' f] by blast
  obtain L' where L': "log_append L (row_sample ho ag' row) = Inr L'"
    using blog.accept [OF Cons.prems(5) row(2)] by blast
  note a = append_facts [OF Cons.prems(5) L']
  let ?s1 = "(set_log L' s)\<lparr>sw_agent := Some (ag', t)\<rparr>"
  have t1: "svc_tick ho s x = Inr (?s1, ps)"
    using st Cons.prems(2-4) row(1) L' by (simp add: svc_tick_def x record_row_def)
  have fits': "fits ag' L'" using control_step_fits(1) [OF st' f] append_meta [OF L'] by (simp add: fits_def)
  have "\<exists>s' qs. svc_ticks ho ?s1 xs = Inr (s', qs)"
    by (rule Cons.IH [OF ss']) (use Cons.prems(2) a(1) fits' control_step_rows(2) [OF st f(2)] in simp_all)
  then show ?case using t1 by auto
qed simp

lemma build_agent_fits:
  assumes "build_agent ho a = Inr (ag, t)" and "open_log s a run_name = Inr L" and "\<not> is_relay s"
  shows "fits ag L" and "ag_publish_in_tick ag = is_grid (ag_law ag)"
proof -
  obtain p c where c: "ctrl_create (ho_rng ho) (as_controller a) p (as_seed a) = Inr c"
      "agent_new (law_for (ho_rng ho) c) (config_of a) c False = Inr ag"
    using assms(1) by (auto simp: build_agent_def bindR_eq_Inr)
  have ag: "ag_law ag = c" "ag_logs_timing ag = is_grid c" "ag_publish_in_tick ag = is_grid c"
    using c(2) by (auto simp: agent_new_def bindR_eq_Inr law_for_def)
  note lf = start_log_facts [OF assms(2)]
  have n: "as_controller a = cl_name (ctrl_class c)" using ctrl_create_class [OF c(1)] by simp
  have "column_names (ctrl_class c) = Inr (rm_state_columns (lg_meta L))"
    using lf(8) assms(3) by (simp add: n controller_columns_def)
  then show "fits ag L"
    using ctrl_create_typed [OF c(1)] ctrl_create_timing [OF c(1)] lf(9) assms(3) by (simp add: fits_def ag)
  show "ag_publish_in_tick ag = is_grid (ag_law ag)" by (simp add: ag)
qed

lemma svc_configure_local:
  assumes "svc_configure ho s args = (s', Inr r)" and "\<not> is_relay s" and "\<not> running s"
  obtains a ag t where "ho_validate ho args = Inr a" and "as_type a = sw_type s" and "build_agent ho a = Inr (ag, t)"
    and "s' = s\<lparr>sw_assignment := Some a, sw_agent := Some (ag, t)\<rparr>"
proof -
  obtain a where a: "ho_validate ho args = Inr a" "as_type a = sw_type s" "configure_local ho s a = (s', Inr r)"
    using assms(1,2) by (auto simp: svc_configure_def checked_def bindR_eq_Inr split: sum.splits if_splits)
  obtain x where x: "build_agent ho a = Inr x" "s' = s\<lparr>sw_assignment := Some a, sw_agent := Some x\<rparr>"
    using a(3) assms(3) by (auto simp: configure_local_def Let_def split: sum.splits)
  obtain ag t where "x = (ag, t)" by (cases x)
  show ?thesis by (rule that [OF a(1,2)]) (use x \<open>x = (ag, t)\<close> in simp_all)
qed

lemma scalar_run_total:
  assumes "\<not> is_grid (ag_law ag)" and "\<not> ag_publish_in_tick ag"
  shows "\<exists>ss. run_samples ho ag xs = Inr ss"
  using assms
proof (induction xs arbitrary: ag)
  case (Cons x xs)
  obtain rs now_us now_s cpu where x: "x = (rs, now_us, now_s, cpu)" by (metis prod.collapse)
  obtain seed p s g where c: "ag_law ag = ScalarC seed (p, s, g)" using Cons.prems(1) by (cases "ag_law ag") auto
  let ?w = "law_for (ho_rng ho) (ag_law ag)"
  have "\<exists>ag' y. agent_control_step ?w (agent_hear ag rs) now_us now_s cpu = Inr (ag', y) \<and>
      \<not> is_grid (ag_law ag') \<and> \<not> ag_publish_in_tick ag'"
  proof -
    have st: "\<exists>l o1. (if ac_enabled (ag_config ag) then lw_step ?w (ag_law ag) vs es
        else Inr (ag_law ag, \<lparr>co_state = lw_vstate ?w (ag_law ag), co_vstate = lw_vstate ?w (ag_law ag),
               co_extra = replicate (length (cl_channels (lw_class ?w))) 0\<rparr>)) = Inr (l, o1) \<and> \<not> is_grid l" for vs es
      using c by (auto simp: law_for_def ctrl_step_def split_beta)
    have em: "\<exists>ag' y. agent_emit ?w b now_us t_s o1 vs = Inr (ag', y) \<and> ag_law ag' = ag_law b \<and> \<not> ag_publish_in_tick ag'"
      if "\<not> ag_publish_in_tick b" for b :: "'a ctrl agent" and t_s o1 vs
      using that by (simp add: agent_emit_def split_beta)
    obtain vs es where sn: "snapshot (ag_neighbors (agent_hear ag rs)) now_us = (vs, es)" by fastforce
    obtain l o1 where l: "(if ac_enabled (ag_config ag) then lw_step ?w (ag_law ag) vs es
        else Inr (ag_law ag, \<lparr>co_state = lw_vstate ?w (ag_law ag), co_vstate = lw_vstate ?w (ag_law ag),
               co_extra = replicate (length (cl_channels (lw_class ?w))) 0\<rparr>)) = Inr (l, o1)" "\<not> is_grid l"
      using st by blast
    let ?t = "now_s - (case ag_t0 (agent_hear ag rs) of None \<Rightarrow> 0 | Some t0 \<Rightarrow> t0)"
    let ?b = "agent_commit (agent_hear ag rs) l o1 vs es ?t now_s cpu"
    obtain ag' y where y: "agent_emit ?w ?b now_us ?t o1 vs = Inr (ag', y)" "ag_law ag' = ag_law ?b" "\<not> ag_publish_in_tick ag'"
      using em [of ?b ?t o1 vs] Cons.prems(2) by auto
    have "agent_control_step ?w (agent_hear ag rs) now_us now_s cpu = Inr (ag', y)"
      using l(1) y(1) by (cases "ac_enabled (ag_config ag)") (auto simp: agent_control_step_def sn Let_def)
    then show ?thesis using y(2,3) l(2) by (auto simp del: split_paired_Ex)
  qed
  then obtain ag' out ps rows where "agent_control_step ?w (agent_hear ag rs) now_us now_s cpu = Inr (ag', out, ps, rows)"
      "\<not> is_grid (ag_law ag')" "\<not> ag_publish_in_tick ag'" by (metis prod.collapse)
  moreover from Cons.IH [OF calculation(2,3)] obtain ss where "run_samples ho ag' xs = Inr ss" by blast
  ultimately show ?case by (simp add: x)
qed simp

text \<open>C35: No sample of a local run is refused: once a configure and a start have succeeded, the log's columns
  are those of the running law, so a tick fails only if the law or the codec raises; under the scalar
  law no tick ever fails, whatever was received and whenever it runs.\<close>

theorem no_sample_refused:
  assumes "\<not> is_relay s" and "\<not> running s"
    and "svc_configure ho s cargs = (s0, Inr r0)" and "svc_start ho now mt s0 args = (s1, Inr r1)"
  shows "\<exists>ag t. sw_agent s1 = Some (ag, t) \<and>
    (\<forall>xs ss. run_samples ho ag xs = Inr ss \<longrightarrow> (\<exists>s2 ps. svc_ticks ho s1 xs = Inr (s2, ps))) \<and>
    (\<not> ag_publish_in_tick ag \<longrightarrow> (\<forall>xs. \<exists>s2 ps. svc_ticks ho s1 xs = Inr (s2, ps)))"
proof -
  obtain a ag t where c: "build_agent ho a = Inr (ag, t)" "s0 = s\<lparr>sw_assignment := Some a, sw_agent := Some (ag, t)\<rparr>"
    by (rule svc_configure_local [OF assms(3,1,2)])
  have nr: "\<not> is_relay s0" using assms(1) by (simp add: c(2) is_relay_def)
  obtain a' ag' t' t1 L epoch where st: "sw_assignment s0 = Some a'" "sw_agent s0 = Some (ag', t')"
      "open_log (s0\<lparr>sw_epoch := epoch\<rparr>) a' (str_arg ho args ''run_name'' ''run'') = Inr L"
      "sw_agent s1 = Some (agent_start (ag'\<lparr>ag_on_sample := True\<rparr>) mt, t1)" "sw_runlog s1 = Some L" "sw_tasks s1"
    by (rule svc_start_local [OF assms(4) nr]) metis
  have eq: "a' = a" "ag' = ag" using st(1,2) by (simp_all add: c(2))
  let ?ag = "agent_start (ag\<lparr>ag_on_sample := True\<rparr>) mt"
  have nr': "\<not> is_relay (s0\<lparr>sw_epoch := epoch\<rparr>)" using nr by (simp add: is_relay_def)
  note bf = build_agent_fits [OF c(1) st(3) [unfolded eq] nr']
  have f: "fits ?ag L" and on: "ag_on_sample ?ag" using bf(1) by (simp_all add: fits_def agent_start_def)
  note ret = svc_ticks_return [OF _ st(6) st(4) [unfolded eq] st(5) start_log_facts(1) [OF st(3)] on f]
  moreover have "\<exists>ss. run_samples ho ?ag xs = Inr ss" if "\<not> ag_publish_in_tick ?ag" for xs
    using that bf(2) by (intro scalar_run_total) (simp_all add: agent_start_def)
  ultimately show ?thesis using st(4) unfolding eq by blast
qed

subsection \<open>Live updates and failed configurations\<close>

text \<open>A configure of a running local agent keeps its run going: the integrators, the sequence number,
  the log and the neighbour table are those of before, and only the parameters and the
  configuration are the new ones. So new neighbours are acknowledged as a live update but not read:
  the table still belongs to the neighbours of the start.\<close>

theorem live_update_keeps_run:
  assumes "\<not> is_relay s" and "running s" and "sw_agent s = Some (ag, t)" and "svc_configure ho s args = (s', Inr (resp, b))"
  shows "\<exists>a ag'. ho_validate ho args = Inr a \<and> sw_assignment s' = Some a \<and> sw_agent s' = Some (ag', t) \<and>
    ag_config ag' = config_of a \<and> ag_neighbors ag' = ag_neighbors ag \<and> ag_seq ag' = ag_seq ag \<and>
    ag_publish_every ag' = ag_publish_every ag \<and> sw_runlog s' = sw_runlog s \<and> sw_disk s' = sw_disk s \<and> running s' \<and>
    map_of (rp_data resp) ''live_update'' = Some (JBool True) \<and>
    (case ag_law ag of
       ScalarC seed (p, st, g) \<Rightarrow> \<exists>p'. ag_law ag' = ScalarC seed (p', st, rg_new (ho_rng ho) seed)
     | GridC m \<Rightarrow> \<exists>m'. ag_law ag' = GridC m' \<and> mg_plant m' = mg_plant m \<and> mg_virtual m' = mg_virtual m \<and>
                      mg_interface m' = mg_interface m \<and> mg_count m' = mg_count m)"
proof -
  obtain a where a: "ho_validate ho args = Inr a" "configure_local ho s a = (s', Inr (resp, b))"
    using assms(1,4) by (auto simp: svc_configure_def checked_def bindR_eq_Inr split: sum.splits if_splits)
  obtain c where c: "bindR (to_controller_params (base_of a)) (ctrl_set_params (ho_rng ho) (ag_law ag)) = Inr c"
      "s' = s\<lparr>sw_agent := Some (ag\<lparr>ag_law := c, ag_config := config_of a\<rparr>, t), sw_assignment := Some a\<rparr>"
      "(resp, b) = configured (as_node a) True False"
    using a(2) assms(2,3) by (auto simp: configure_local_def split: sum.splits)
  obtain p where p: "ctrl_set_params (ho_rng ho) (ag_law ag) p = Inr c" using c(1) by (auto simp: bindR_eq_Inr)
  have law: "case ag_law ag of
       ScalarC seed (p, st, g) \<Rightarrow> \<exists>p'. c = ScalarC seed (p', st, rg_new (ho_rng ho) seed)
     | GridC m \<Rightarrow> \<exists>m'. c = GridC m' \<and> mg_plant m' = mg_plant m \<and> mg_virtual m' = mg_virtual m \<and>
                      mg_interface m' = mg_interface m \<and> mg_count m' = mg_count m"
    using p by (auto simp: ctrl_set_params_def ft_set_params_def mg_set_params_def bindR_eq_Inr split: ctrl.splits prod.splits)
  have run: "running s'" using assms(2) by (simp add: c(2) running_def is_relay_def)
  show ?thesis
    by (intro exI [of _ a] exI [of _ "ag\<lparr>ag_law := c, ag_config := config_of a\<rparr>"])
      (use a(1) c(2,3) law run in \<open>cases "ag_law ag"; auto simp: configured_def ok_response_def\<close>)
qed

text \<open>A configure that fails while the agent is built has already taken the new assignment. The agent
  of the previous configuration is still there, and the next start runs it, under a log that
  describes the new assignment.\<close>

theorem failed_configure_mixes:
  assumes "\<not> is_relay s" and "\<not> running s" and "sw_agent s = Some (ag, t)"
    and "bindR (ho_validate ho cargs) checked = Inr a" and "as_type a = sw_type s" and "build_agent ho a = Inl e"
    and "to_start (ho_transport ho) t = (t', None)" and "map_of args ''epoch_unix_s'' = None"
    and "controller_columns (as_controller a) False = Inr cols"
  shows "\<exists>s0 s1 r L. svc_configure ho s cargs = (s0, Inl e) \<and> svc_start ho now mt s0 args = (s1, Inr r) \<and> running s1 \<and>
    sw_agent s1 = Some (agent_start (ag\<lparr>ag_on_sample := True\<rparr>) mt, t') \<and> sw_runlog s1 = Some L \<and>
    rm_node_id (lg_meta L) = as_node a \<and> rm_state_columns (lg_meta L) = cols"
proof -
  define s0 where "s0 = s\<lparr>sw_assignment := Some a\<rparr>"
  have c: "svc_configure ho s cargs = (s0, Inl e)"
    using assms(1-6) by (simp add: svc_configure_def configure_local_def s0_def Let_def split: prod.split)
  obtain L where L: "open_log s0 a (str_arg ho args ''run_name'' ''run'') = Inr L"
    using assms(1,9) by (simp add: open_log_def run_meta_of_def log_new_def s0_def is_relay_def Let_def)
  have s0: "sw_assignment s0 = Some a" "sw_agent s0 = Some (ag, t)" "\<not> is_relay s0" "\<not> running s0" "s0\<lparr>sw_epoch := sw_epoch s0\<rparr> = s0"
    using assms(1-3) by (simp_all add: s0_def is_relay_def running_def)
  have nr0: "\<not> is_relay s0" by (rule s0(3))
  have "svc_start ho now mt s0 args =
      start_local ho now mt (set_log L s0) a (str_arg ho args ''run_name'' ''run'')"
    using s0 assms(8) L by (simp add: svc_start_def epoch_arg_def Let_def)
  also have "\<dots> = ((set_log L s0)\<lparr>sw_agent := Some (agent_start (ag\<lparr>ag_on_sample := True\<rparr>) mt, t'),
      sw_run_name := Some (str_arg ho args ''run_name'' ''run''), sw_started_at := now, sw_tasks := True\<rparr>,
      Inr (started (str_arg ho args ''run_name'' ''run'') (as_node a) ''local''))"
    using s0(2) assms(7) by (simp add: start_local_def Let_def)
  finally show ?thesis using c start_log_facts(5,8) [OF L] assms(9) nr0
    by (auto simp: running_def)
qed

subsection \<open>A relayed run, and after it\<close>

lemma svc_start_relay:
  assumes "svc_start ho now mt s args = (s1, Inr r)" and "is_relay s"
  obtains a rl l rl' l' L epoch where "sw_assignment s = Some a" and "\<not> running s" and "sw_relay s = Some rl" and "sw_link s = Some l"
    and "open_log (s\<lparr>sw_epoch := epoch\<rparr>) a (str_arg ho args ''run_name'' ''run'') = Inr L"
    and "relay_start (ho_request ho) (rl, l) mt (Some (wall_now_us epoch now)) = ((rl', l'), None)"
    and "s1 = (set_log L (s\<lparr>sw_epoch := epoch\<rparr>))\<lparr>sw_relay := Some rl', sw_link := Some l',
           sw_run_name := Some (str_arg ho args ''run_name'' ''run''), sw_started_at := now, sw_tasks := False\<rparr>"
proof -
  obtain a where a: "sw_assignment s = Some a" using assms(1) by (cases "sw_assignment s") (auto simp: svc_start_def)
  have nr: "\<not> running s" and ex: "\<not> (sw_agent s = None \<and> sw_relay s = None)"
    using assms(1) a by (auto simp: svc_start_def split: if_splits)
  obtain epoch where e: "epoch_arg ho s args = Inr epoch"
    using assms(1) a nr ex by (auto simp: svc_start_def Let_def split: sum.splits)
  obtain L where L: "open_log (s\<lparr>sw_epoch := epoch\<rparr>) a (str_arg ho args ''run_name'' ''run'') = Inr L"
    using assms(1) a nr ex e by (auto simp: svc_start_def Let_def split: sum.splits)
  have st: "start_relay ho now mt (set_log L (s\<lparr>sw_epoch := epoch\<rparr>)) a (str_arg ho args ''run_name'' ''run'') = (s1, Inr r)"
    using assms a nr ex e L by (simp add: svc_start_def Let_def)
  then obtain rl l where rl: "sw_relay s = Some rl" "sw_link s = Some l" by (auto simp: start_relay_def split: option.splits)
  obtain rl' l' where t': "relay_start (ho_request ho) (rl, l) mt (Some (wall_now_us epoch now)) = ((rl', l'), None)"
    using st rl by (auto simp: start_relay_def Let_def split: prod.splits option.splits)
  show ?thesis
    by (rule that [OF a nr rl L t']) (use st rl t' in \<open>auto simp: start_relay_def Let_def\<close>)
qed

lemma relay_send_t0:
  "relay_send request (r, l) fr = ((r', l'), e) \<Longrightarrow> rl_t0 r' = rl_t0 r"
  by (auto simp: relay_send_def Let_def split: prod.splits sum.splits)

lemma relay_start_t0: "relay_start request (r, l) now clock = ((r', l'), None) \<Longrightarrow> rl_t0 r' = Some now"
  by (auto simp: relay_start_def Let_def split: option.splits sum.splits dest: relay_send_t0)

lemma relay_stop_t0: "relay_stop request (r, l) = ((r', l'), e) \<Longrightarrow> rl_t0 r' = rl_t0 r"
  by (auto simp: relay_stop_def split: sum.splits dest: relay_send_t0)

text \<open>After a relayed run has been stopped, \<^verbatim>\<open>status\<close> still says that it is running: the service's own
  answer is overwritten by the relay's, which only knows when it was triggered.\<close>

theorem stopped_relay_says_running:
  assumes "is_relay s" and "svc_start ho now mt s args = (s1, Inr r1)" and "svc_stop ho now' s1 args' = (s2, Inr r2)"
  shows "\<not> running s2 \<and> (\<exists>resp. svc_status ho port mt' s2 [] = (s2, Inr (resp, None)) \<and>
           map_of (rp_data resp) ''running'' = Some (JBool True) \<and> map_of (rp_data resp) ''run_name'' = Some JNull)"
proof -
  obtain rl' l' L epoch where st: "s1 = (set_log L (s\<lparr>sw_epoch := epoch\<rparr>))\<lparr>sw_relay := Some rl', sw_link := Some l',
           sw_run_name := Some (str_arg ho args ''run_name'' ''run''), sw_started_at := now, sw_tasks := False\<rparr>"
      "rl_t0 rl' = Some mt"
    by (rule svc_start_relay [OF assms(2,1)]) (auto dest: relay_start_t0)
  obtain rl2 l2 e where sp: "relay_stop (ho_request ho) (rl', l') = ((rl2, l2), e)" by (metis prod.collapse)
  have t0: "rl_t0 rl2 = Some mt" using relay_stop_t0 [OF sp] st(2) by simp
  have r1: "is_relay s1" using assms(1) by (simp add: st(1) is_relay_def)
  have "finish_run now' (s1\<lparr>sw_relay := Some rl2, sw_link := Some l2\<rparr>) = (s2, Inr r2)"
    using assms(3) r1 sp by (simp add: svc_stop_def st(1))
  then have s2: "sw_run_name s2 = None" "sw_relay s2 = Some rl2" "sw_type s2 = sw_type s" "\<not> sw_tasks s2"
    by (auto simp: finish_run_def st(1) split: option.splits sum.splits)
  have rs: "is_relay s2" using assms(1) s2(3) by (simp add: is_relay_def)
  then show ?thesis
    using s2 t0 by (simp add: running_def svc_status_def Let_def ok_response_def dict_update_def relay_status_def update_conv')
qed

text \<open>A report that arrives once the run has been stopped counts as a refused sample, although the run
  lost nothing; and the count is not reset by the next start.\<close>

theorem late_report_counted:
  assumes "is_relay s" and "svc_start ho now mt s args = (s1, Inr r1)" and "svc_stop ho now' s1 args' = (s2, Inr r2)"
    and "sw_relay s2 = Some rl" and "relay_handle rl f = (rl', Some q)"
  shows "sw_record_errors (svc_frame ho s2 f) = sw_record_errors s2 + 1 \<and>
    (svc_start ho now'' mt'' (svc_frame ho s2 f) args'' = (s3, Inr r3) \<longrightarrow> sw_record_errors s3 = sw_record_errors s2 + 1)"
proof -
  obtain a rl0 l0 rl' l' L epoch where st: "s1 = (set_log L (s\<lparr>sw_epoch := epoch\<rparr>))\<lparr>sw_relay := Some rl', sw_link := Some l',
           sw_run_name := Some (str_arg ho args ''run_name'' ''run''), sw_started_at := now, sw_tasks := False\<rparr>"
      "open_log (s\<lparr>sw_epoch := epoch\<rparr>) a (str_arg ho args ''run_name'' ''run'') = Inr L"
    by (rule svc_start_relay [OF assms(2,1)])
  obtain rl2 l2 e where sp: "relay_stop (ho_request ho) (rl', l') = ((rl2, l2), e)" by (metis prod.collapse)
  have r1: "is_relay s1" using assms(1) by (simp add: st(1) is_relay_def)
  define sh where "sh = s1\<lparr>sw_relay := Some rl2, sw_link := Some l2\<rparr>"
  have fin: "finish_run now' sh = (s2, Inr r2)"
    using assms(3) r1 sp by (simp add: svc_stop_def st(1) sh_def)
  obtain L' where L': "finish_run now' sh = ((set_log L' sh)\<lparr>sw_run_name := None\<rparr>,
      Inr (stopped (sw_run_name sh) (lg_count L) True (duration_s now' sh)))" "\<not> lg_open L'"
    by (rule finish_run_log [of sh L now']) (auto simp: sh_def st(1) start_log_facts(1) [OF st(2)])
  have "sw_runlog s2 = Some L'" "is_relay s2" using fin L'(1) assms(1) by (auto simp: sh_def st(1) is_relay_def)
  then have "sw_record_errors (svc_frame ho s2 f) = sw_record_errors s2 + 1" "is_relay (svc_frame ho s2 f)"
    using assms(4,5) L'(2) by (simp_all add: svc_frame_def record_report_def log_append_def Let_def is_relay_def)
  then show ?thesis by (auto elim!: svc_start_relay)
qed

subsection \<open>The service's invariant\<close>

definition recording_run :: "('g, 't, 'l) service \<Rightarrow> bool" where
  "recording_run s \<longleftrightarrow> (\<exists>L. sw_runlog s = Some L \<and> log_ok L \<and> sw_run_name s = Some (rm_run_name (lg_meta L)) \<and>
     map_of (sw_disk s) (log_key L) = Some (RowsFile (lg_file L)))"

definition svc_ok :: "('g, 't, 'l) service \<Rightarrow> bool" where
  "svc_ok s \<longleftrightarrow>
     (if is_relay s then sw_agent s = None \<and> \<not> sw_tasks s \<and> (sw_relay s \<noteq> None \<longrightarrow> sw_link s \<noteq> None) else sw_relay s = None) \<and>
     (running s \<longrightarrow> recording_run s \<and> sw_assignment s \<noteq> None \<and> (if is_relay s then sw_relay s \<noteq> None else sw_agent s \<noteq> None))"

lemma set_log_recording:
  assumes "log_ok L" and "sw_run_name s = Some (rm_run_name (lg_meta L))"
  shows "recording_run (set_log L s)"
  using assms by (auto simp: recording_run_def)

lemma configure_ok [inv_intros]:
  assumes "svc_ok s"
  shows "svc_ok (fst (svc_configure ho s args))"
proof -
  have r: "svc_ok (fst (configure_relay ho s a))" if "is_relay s" for a
    using assms that
    by (auto simp: configure_relay_def build_relay_def svc_ok_def running_def is_relay_def recording_run_def Let_def
        split: bool.split option.splits sum.splits prod.splits)
  have l: "svc_ok (fst (configure_local ho s a))" if "\<not> is_relay s" for a
    using assms that
    by (auto simp: configure_local_def svc_ok_def running_def is_relay_def recording_run_def Let_def
        split: bool.split option.splits sum.splits prod.splits)
  show ?thesis using assms r l by (auto simp: svc_configure_def split: sum.splits)
qed

lemma start_ok [inv_intros]:
  assumes "svc_ok s"
  shows "svc_ok (fst (svc_start ho now mt s args))"
proof (cases "\<exists>a epoch L. sw_assignment s = Some a \<and> \<not> (sw_agent s = None \<and> sw_relay s = None) \<and> \<not> running s \<and>
    epoch_arg ho s args = Inr epoch \<and> open_log (s\<lparr>sw_epoch := epoch\<rparr>) a (str_arg ho args ''run_name'' ''run'') = Inr L")
  case True
  then obtain a epoch L where h: "sw_assignment s = Some a" "\<not> (sw_agent s = None \<and> sw_relay s = None)" "\<not> running s"
      "epoch_arg ho s args = Inr epoch" "open_log (s\<lparr>sw_epoch := epoch\<rparr>) a (str_arg ho args ''run_name'' ''run'') = Inr L"
    by blast
  note lf = start_log_facts(1,4) [OF h(5)]
  let ?s = "set_log L (s\<lparr>sw_epoch := epoch\<rparr>)"
  have eq: "svc_start ho now mt s args = (if is_relay s then start_relay ho now mt ?s a (str_arg ho args ''run_name'' ''run'')
      else start_local ho now mt ?s a (str_arg ho args ''run_name'' ''run''))"
    using h by (auto simp: svc_start_def Let_def)
  have key: "map_of (sw_disk ?s) (log_key L) = Some (RowsFile (lg_file L))" by simp
  show ?thesis
  proof (cases "is_relay s")
    case True
    then show ?thesis using assms h(1,3) lf key unfolding eq
      by (auto simp: start_relay_def svc_ok_def running_def is_relay_def recording_run_def split: option.splits prod.splits)
  next
    case False
    then show ?thesis using assms h(1,3) lf key unfolding eq
      by (auto simp: start_local_def svc_ok_def running_def is_relay_def recording_run_def Let_def split: option.splits prod.splits)
  qed
next
  case False
  then have "\<exists>e. fst (svc_start ho now mt s args) = s \<or> (\<not> running s \<and> fst (svc_start ho now mt s args) = s\<lparr>sw_epoch := e\<rparr>)"
    by (auto simp: svc_start_def Let_def split: option.splits sum.splits if_splits)
  then show ?thesis using assms by (auto simp: svc_ok_def running_def is_relay_def recording_run_def)
qed

lemma finish_run_not_running:
  assumes "\<not> sw_tasks s" and "\<And>L. sw_runlog s = Some L \<Longrightarrow> log_ok L"
  shows "sw_run_name (fst (finish_run now s)) = None" and "\<not> sw_tasks (fst (finish_run now s))"
    and "sw_agent (fst (finish_run now s)) = sw_agent s" and "sw_relay (fst (finish_run now s)) = sw_relay s"
    and "sw_link (fst (finish_run now s)) = sw_link s" and "sw_type (fst (finish_run now s)) = sw_type s"
proof -
  have "sw_run_name (fst (finish_run now s)) = None \<and> \<not> sw_tasks (fst (finish_run now s)) \<and>
      sw_agent (fst (finish_run now s)) = sw_agent s \<and> sw_relay (fst (finish_run now s)) = sw_relay s \<and>
      sw_link (fst (finish_run now s)) = sw_link s \<and> sw_type (fst (finish_run now s)) = sw_type s"
  proof (cases "sw_runlog s")
    case None
    then show ?thesis using assms(1) by (simp add: finish_run_def)
  next
    case (Some L)
    obtain L' where "finish_run now s = ((set_log L' s)\<lparr>sw_run_name := None\<rparr>,
        Inr (stopped (sw_run_name s) (lg_count L) True (duration_s now s)))"
      by (rule finish_run_log [OF Some assms(2) [OF Some], of now])
    then show ?thesis using assms(1) by simp
  qed
  then show "sw_run_name (fst (finish_run now s)) = None" and "\<not> sw_tasks (fst (finish_run now s))"
    and "sw_agent (fst (finish_run now s)) = sw_agent s" and "sw_relay (fst (finish_run now s)) = sw_relay s"
    and "sw_link (fst (finish_run now s)) = sw_link s" and "sw_type (fst (finish_run now s)) = sw_type s" by blast+
qed

lemma stop_ok [inv_intros]:
  assumes "svc_ok s"
  shows "svc_ok (fst (svc_stop ho now s args))"
proof (cases "is_relay s")
  case True
  show ?thesis
  proof (cases "sw_run_name s")
    case None
    then show ?thesis using True assms by (simp add: svc_stop_def)
  next
    case (Some n)
    then have rec: "recording_run s" "sw_agent s = None" "\<not> sw_tasks s" "sw_relay s \<noteq> None" "sw_link s \<noteq> None"
      using assms True by (auto simp: svc_ok_def running_def)
    then obtain r l r' l' e where rl: "sw_relay s = Some r" "sw_link s = Some l"
        "relay_stop (ho_request ho) (r, l) = ((r', l'), e)" by (metis not_Some_eq prod.collapse)
    let ?s = "s\<lparr>sw_relay := Some r', sw_link := Some l'\<rparr>"
    have "\<And>L. sw_runlog ?s = Some L \<Longrightarrow> log_ok L" using rec(1) by (auto simp: recording_run_def)
    note f = finish_run_not_running [of ?s, OF _ this]
    have "fst (svc_stop ho now s args) = fst (finish_run now ?s)" using True Some rl by (simp add: svc_stop_def)
    then show ?thesis using f [of now] True rec(2,3) by (simp add: svc_ok_def running_def is_relay_def)
  qed
next
  case False
  show ?thesis
  proof (cases "running s")
    case nr: False
    then show ?thesis using False assms by (simp add: svc_stop_def)
  next
    case True
    then have rec: "recording_run s" "sw_relay s = None" and "sw_agent s \<noteq> None" using assms False by (auto simp: svc_ok_def)
    then obtain ag t t' e where ag: "sw_agent s = Some (ag, t)" "to_stop (ho_transport ho) t = (t', e)"
      by (metis not_Some_eq prod.collapse)
    let ?s = "s\<lparr>sw_tasks := False, sw_agent := Some (agent_stop ag, t')\<rparr>"
    have "\<And>L. sw_runlog ?s = Some L \<Longrightarrow> log_ok L" using rec(1) by (auto simp: recording_run_def)
    note f = finish_run_not_running [of ?s, OF _ this]
    have "fst (svc_stop ho now s args) = (case e of None \<Rightarrow> fst (finish_run now ?s) | Some _ \<Rightarrow> ?s)"
      using False True ag by (auto simp: svc_stop_def svc_halt_def split: option.split)
    then show ?thesis using f [of now] False rec(2) by (cases e) (simp_all add: svc_ok_def running_def is_relay_def)
  qed
qed

lemma tick_ok [inv_intros]:
  assumes "svc_ok s" and "svc_tick ho s x = Inr (s', ps)"
  shows "svc_ok s'"
proof (cases "sw_tasks s \<and> sw_agent s \<noteq> None")
  case False
  then have "s' = s" using assms(2) by (auto simp: svc_tick_def split: prod.splits bool.splits option.splits)
  then show ?thesis using assms(1) by simp
next
  case True
  then obtain ag t where ag: "sw_tasks s" "sw_agent s = Some (ag, t)" by auto
  have nr: "\<not> is_relay s" and rec: "recording_run s" "sw_assignment s \<noteq> None" "sw_relay s = None"
    using assms(1) ag by (auto simp: svc_ok_def running_def split: if_splits)
  then obtain L where L: "sw_runlog s = Some L" "log_ok L" "sw_run_name s = Some (rm_run_name (lg_meta L))"
    by (auto simp: recording_run_def)
  obtain rs now_us now_s cpu where x: "x = (rs, now_us, now_s, cpu)" by (metis prod.collapse)
  obtain ag' out qs rows s1 where st: "(case rows of [] \<Rightarrow> Inr s | row # _ \<Rightarrow> record_row ho ag' row s) = Inr s1"
      "s' = s1\<lparr>sw_agent := Some (ag', t)\<rparr>"
    using assms(2) ag by (auto simp: svc_tick_def x bindR_eq_Inr split: prod.splits)
  have "s1 = s \<or> (\<exists>L' sm. log_append L sm = Inr L' \<and> s1 = set_log L' s)"
    using st(1) L(1) by (auto simp: record_row_def bindR_eq_Inr split: list.splits)
  then show ?thesis
  proof
    assume "s1 = s"
    then show ?thesis using rec nr ag by (auto simp: st(2) svc_ok_def is_relay_def running_def recording_run_def)
  next
    assume "\<exists>L' sm. log_append L sm = Inr L' \<and> s1 = set_log L' s"
    then obtain L' sm where L': "log_append L sm = Inr L'" "s1 = set_log L' s" by blast
    note a = append_facts(1) [OF L(2) L'(1)] append_meta [OF L'(1)]
    have "recording_run s1" using set_log_recording [OF a(1), of s] a(2) L(3) by (simp add: L'(2))
    then show ?thesis using rec nr ag by (auto simp: st(2) L'(2) svc_ok_def is_relay_def running_def recording_run_def)
  qed
qed

lemma frame_ok [inv_intros]:
  assumes "svc_ok s"
  shows "svc_ok (svc_frame ho s f)"
proof (cases "sw_relay s")
  case None
  then show ?thesis using assms by (simp add: svc_frame_def)
next
  case (Some r)
  then have rl: "is_relay s" "sw_agent s = None" "\<not> sw_tasks s" "sw_link s \<noteq> None"
    using assms by (auto simp: svc_ok_def split: if_splits)
  obtain r' q where h: "relay_handle r f = (r', q)" by fastforce
  let ?s = "s\<lparr>sw_relay := Some r'\<rparr>"
  have s1: "svc_ok ?s" using assms Some rl(1) by (auto simp: svc_ok_def is_relay_def running_def recording_run_def)
  have "svc_ok (record_report ho ?s q' rx)" for q' rx
  proof (cases "sw_runlog s")
    case None
    then show ?thesis using s1 by (simp add: record_report_def)
  next
    case (Some L)
    show ?thesis
    proof (cases "log_append L (report_sample ho q' rx)")
      case (Inl e)
      then show ?thesis using s1 Some rl by (auto simp: record_report_def svc_ok_def is_relay_def running_def recording_run_def)
    next
      case (Inr L')
      then have eq: "record_report ho ?s q' rx = set_log L' ?s" using Some by (simp add: record_report_def)
      have "recording_run (set_log L' ?s)" if "running s"
      proof -
        have "log_ok L" "sw_run_name s = Some (rm_run_name (lg_meta L))"
          using assms that Some by (auto simp: svc_ok_def recording_run_def)
        then show ?thesis using append_facts(1) [OF _ Inr] append_meta [OF Inr] by (intro set_log_recording) simp_all
      qed
      moreover have "running ?s = running s" by (simp add: running_def is_relay_def)
      moreover have "is_relay ?s" using rl(1) by (simp add: is_relay_def)
      ultimately show ?thesis using s1 rl by (auto simp: eq svc_ok_def)
    qed
  qed
  then show ?thesis using s1 Some h by (cases q) (simp_all add: svc_frame_def)
qed

text \<open>Everything that can happen to a service: a command with any arguments, a pass of the control loop,
  a frame from the board.\<close>

inductive svc_reach :: "('g, 't, 'l) host \<Rightarrow> ('g, 't, 'l) service \<Rightarrow> ('g, 't, 'l) service \<Rightarrow> bool" for ho s0 where
  init: "svc_reach ho s0 s0"
| command: "svc_reach ho s0 s \<Longrightarrow> (c, h) \<in> set (svc_handlers ho port now mt) \<Longrightarrow> svc_reach ho s0 (fst (h s args))"
| tick: "svc_reach ho s0 s \<Longrightarrow> svc_tick ho s x = Inr (s', ps) \<Longrightarrow> svc_reach ho s0 s'"
| board: "svc_reach ho s0 s \<Longrightarrow> svc_reach ho s0 (svc_frame ho s f)"

lemma handlers_ok:
  assumes "svc_ok s" and "(c, h) \<in> set (svc_handlers ho port now mt)"
  shows "svc_ok (fst (h s args))"
proof -
  have "fst (svc_status ho port mt s args) = s" "fst (svc_list_runs s args) = s" "fst (svc_fetch ho s args) = s"
    by (auto simp: svc_status_def svc_list_runs_def svc_fetch_def Let_def split: bool.split option.split)
  then show ?thesis using assms configure_ok start_ok stop_ok by (auto simp: svc_handlers_def)
qed

lemma svc_reach_ok: "svc_reach ho s0 s \<Longrightarrow> svc_ok s0 \<Longrightarrow> svc_ok s"
  by (induction rule: svc_reach.induct) (auto intro: handlers_ok tick_ok frame_ok)

text \<open>C14: The life of a service, whatever commands with whatever arguments, ticks and frames reach it, and
  whatever its link, its transport and the validation answer: while it runs, there is an
  assignment, an agent or a relay as its type demands, and an open, consistent log of the run it
  names, stored under that run; a second start is refused and changes nothing; and when it does not
  run, a stop of a local agent changes nothing either.\<close>

theorem service_invariant:
  assumes "svc_reach ho (svc_new ty radio link epoch d) s"
  shows "(running s \<longrightarrow>
      recording_run s \<and> sw_assignment s \<noteq> None \<and> (if is_relay s then sw_relay s \<noteq> None else sw_agent s \<noteq> None) \<and>
      svc_start ho now mt s args = (s, Inl RuntimeError)) \<and>
    (\<not> running s \<longrightarrow> fst (svc_stop ho now s args) = s) \<and>
    (is_relay s \<longrightarrow> sw_agent s = None \<and> \<not> sw_tasks s) \<and> (\<not> is_relay s \<longrightarrow> sw_relay s = None)"
proof -
  have "svc_ok (svc_new ty radio link epoch d)" by (simp add: svc_ok_def svc_new_def running_def is_relay_def)
  from svc_reach_ok [OF assms this] have ok: "svc_ok s" .
  have "svc_start ho now mt s args = (s, Inl RuntimeError)" if "running s"
    using that ok by (auto simp: svc_start_def svc_ok_def split: option.split)
  moreover have "fst (svc_stop ho now s args) = s" if "\<not> running s"
    using that by (auto simp: svc_stop_def running_def)
  ultimately show ?thesis using ok by (auto simp: svc_ok_def split: if_splits)
qed

subsection \<open>A concrete service\<close>

definition demo_local :: hub_assignment where
  "demo_local = assignment.extend (demo_assignment\<lparr>as_type := WIFI\<rparr>)
     \<lparr>ha_radio = [], ha_manifest_name = ''demo'', ha_run_seed = 1, ha_run_index = 0\<rparr>"

definition demo_board :: hub_assignment where
  "demo_board = assignment.extend demo_assignment
     \<lparr>ha_radio = [], ha_manifest_name = ''demo'', ha_run_seed = 1, ha_run_index = 0\<rparr>"

definition demo_transport :: "unit transport_ops" where
  "demo_transport = \<lparr>to_make = \<lambda>n. Inr (), to_start = \<lambda>t. (t, None), to_stop = \<lambda>t. (t, None)\<rparr>"

definition demo_host :: "(unit, unit, unit) host" where
  "demo_host = \<lparr>ho_rng = \<lparr>rg_draw = \<lambda>g. (1 / 2, g), rg_new = \<lambda>n. ()\<rparr>, ho_transport = demo_transport,
     ho_request = accepting,
     ho_validate = \<lambda>d. Inr (if d = [] then demo_local else demo_local\<lparr>as_controller := ''unknown''\<rparr>),
     ho_float = \<lambda>x. word_of_int \<lfloor>x\<rfloor>, ho_parse_float = \<lambda>s. Inl ValueError, ho_repr = \<lambda>v. ''?'', ho_render = \<lambda>x. [],
     ho_message = \<lambda>e. ''error''\<rparr>"

definition demo_idle :: "(unit, unit, unit) service" where
  "demo_idle = svc_new WIFI None None 0 []"

lemma demo_local_fields [simp]:
  "as_node demo_local = 1" "as_type demo_local = WIFI" "as_controller demo_local = ''finite_time_adaptive''"
  "as_neighbors demo_local = [2, 3]" "as_seed demo_local = 77" "as_dt demo_local = 1 / 40"
  "as_publish_period demo_local = 1 / 20" "as_max_age demo_local = None" "as_enabled demo_local"
  "as_microgrid (base_of demo_local) = None" "as_dt (base_of demo_local) = 1 / 40"
  "base_of demo_local = demo_assignment\<lparr>as_type := WIFI\<rparr>"
  by (simp_all add: demo_local_def base_of_def assignment.defs demo_assignment_def)

lemma demo_validate: "bindR (ho_validate demo_host []) checked = Inr demo_local"
  by (simp add: demo_host_def checked_def assignment_check_def demo_assignment_def)

lemma demo_build: "\<exists>ag seed x. build_agent demo_host demo_local = Inr (ag, ()) \<and> ag_law ag = ScalarC seed x \<and> \<not> ag_publish_in_tick ag"
proof -
  have "\<exists>p. to_controller_params (base_of demo_local) = Inr (ScalarParams p)"
    by (simp add: to_controller_params_def demo_assignment_def)
  then obtain p where p: "to_controller_params (base_of demo_local) = Inr (ScalarParams p)" by blast
  show ?thesis
    by (simp add: build_agent_def p [unfolded demo_local_fields] ctrl_create_def create_def registry_lookup demo_host_def
        demo_transport_def agent_new_def law_for_def config_of_def nt_init_def resolved_max_age_s_def ft_class_def)
qed

lemma demo_configured:
  "\<exists>s0 r0. svc_configure demo_host demo_idle [] = (s0, Inr r0)"
proof -
  obtain ag where "build_agent demo_host demo_local = Inr (ag, ())" using demo_build by blast
  then show ?thesis
    using demo_validate by (simp add: svc_configure_def demo_idle_def svc_new_def is_relay_def configure_local_def running_def Let_def)
qed

lemma local_start_ok:
  assumes "\<not> is_relay s" and "\<not> running s" and "sw_assignment s = Some a" and "sw_agent s = Some (ag, t)"
    and "as_controller a = ''finite_time_adaptive''" and "snd (to_start (ho_transport ho) t) = None"
    and "epoch_arg ho s args = Inr epoch"
  shows "\<exists>s1 r. svc_start ho now mt s args = (s1, Inr r)"
proof -
  obtain L where L: "open_log (s\<lparr>sw_epoch := epoch\<rparr>) a (str_arg ho args ''run_name'' ''run'') = Inr L"
    using assms(1,5) by (simp add: open_log_def is_relay_def run_meta_of_def controller_columns_def registry_lookup column_names_def
        ft_class_def log_new_def Let_def)
  obtain t' where t': "to_start (ho_transport ho) t = (t', None)" using assms(6) by (metis prod.collapse)
  have "svc_start ho now mt s args =
      start_local ho now mt (set_log L (s\<lparr>sw_epoch := epoch\<rparr>)) a (str_arg ho args ''run_name'' ''run'')"
    using assms(1-4,7) L by (simp add: svc_start_def Let_def)
  then show ?thesis using assms(4) t' by (simp add: start_local_def Let_def)
qed

lemma demo_run_args:
  assumes "\<And>s :: (unit, unit, unit) service. \<exists>e. epoch_arg demo_host s args = Inr e"
  obtains s0 r0 s1 r1 where "svc_configure demo_host demo_idle [] = (s0, Inr r0)"
    and "svc_start demo_host now mt s0 args = (s1, Inr r1)" and "\<not> is_relay s0" and "\<not> running s0"
    and "\<And>xs now'. \<exists>s2 ps s3 r2. svc_ticks demo_host s1 xs = Inr (s2, ps) \<and> svc_stop demo_host now' s2 [] = (s3, Inr r2)"
    and "\<exists>ag t. sw_agent s1 = Some (ag, t) \<and> \<not> ag_publish_in_tick ag"
proof -
  have idle: "\<not> is_relay demo_idle" "\<not> running demo_idle" by (simp_all add: demo_idle_def svc_new_def is_relay_def running_def)
  obtain s0 r0 where c: "svc_configure demo_host demo_idle [] = (s0, Inr r0)" using demo_configured by blast
  obtain a ag where b: "ho_validate demo_host [] = Inr a" "build_agent demo_host a = Inr (ag, ())"
      "s0 = demo_idle\<lparr>sw_assignment := Some a, sw_agent := Some (ag, ())\<rparr>"
    by (rule svc_configure_local [OF c idle]) simp
  have a: "a = demo_local" using b(1) by (simp add: demo_host_def)
  have s0: "\<not> is_relay s0" "\<not> running s0" "sw_assignment s0 = Some demo_local" "sw_agent s0 = Some (ag, ())"
    using idle by (simp_all add: b(3) a is_relay_def running_def)
  obtain s1 r1 where st: "svc_start demo_host now mt s0 args = (s1, Inr r1)"
  proof -
    obtain e where e: "epoch_arg demo_host s0 args = Inr e" using assms by blast
    have "snd (to_start (ho_transport demo_host) ()) = None" by (simp add: demo_host_def demo_transport_def)
    from local_start_ok [OF s0 demo_local_fields(3) this e, of now mt] show thesis using that by blast
  qed
  obtain a' ag' t' t1 L epoch where s1: "sw_assignment s0 = Some a'" "sw_agent s0 = Some (ag', t')"
      "open_log (s0\<lparr>sw_epoch := epoch\<rparr>) a' (str_arg demo_host args ''run_name'' ''run'') = Inr L"
      "sw_agent s1 = Some (agent_start (ag'\<lparr>ag_on_sample := True\<rparr>) mt, t1)" "sw_runlog s1 = Some L" "sw_tasks s1"
      "sw_type s1 = sw_type s0"
    by (rule svc_start_local [OF st s0(1)]) metis
  have eq: "a' = demo_local" "ag' = ag" using s1(1,2) s0 by simp_all
  let ?ag = "agent_start (ag\<lparr>ag_on_sample := True\<rparr>) mt"
  have on: "ag_on_sample ?ag" by (simp add: agent_start_def)
  have bd: "build_agent demo_host demo_local = Inr (ag, ())" using b(2) a by simp
  have "\<not> ag_publish_in_tick ag" using demo_build bd by auto
  moreover have nr': "\<not> is_relay (s0\<lparr>sw_epoch := epoch\<rparr>)" using s0(1) by (simp add: is_relay_def)
  note bf = build_agent_fits [OF bd s1(3) [unfolded eq] nr']
  ultimately have f: "fits ?ag L" and sc: "\<not> is_grid (ag_law ?ag)" "\<not> ag_publish_in_tick ?ag"
    by (simp_all add: fits_def agent_start_def)
  have run: "\<exists>s2 ps s3 r2. svc_ticks demo_host s1 xs = Inr (s2, ps) \<and> svc_stop demo_host now' s2 [] = (s3, Inr r2)" for xs now'
  proof -
    obtain ss where ss: "run_samples demo_host ?ag xs = Inr ss" using scalar_run_total [OF sc] by blast
    obtain s2 ps where s2: "svc_ticks demo_host s1 xs = Inr (s2, ps)"
      using svc_ticks_return [OF ss s1(6) s1(4) [unfolded eq] s1(5) start_log_facts(1) [OF s1(3)] on f] by blast
    obtain L2 ag2 where r2: "sw_runlog s2 = Some L2" "log_ok L2" "sw_agent s2 = Some (ag2, t1)" "sw_tasks s2" "sw_type s2 = sw_type s1"
      using svc_ticks_record [OF s2 s1(6) s1(4) [unfolded eq] s1(5) start_log_facts(1) [OF s1(3)] on] by blast
    let ?h = "s2\<lparr>sw_tasks := False, sw_agent := Some (agent_stop ag2, t1)\<rparr>"
    have nr: "\<not> is_relay s2" "running s2" using r2(4,5) s1(7) s0(1) by (simp_all add: is_relay_def running_def)
    have "svc_stop demo_host now' s2 [] = finish_run now' ?h"
      using nr r2(3) by (simp add: svc_stop_def svc_halt_def demo_host_def demo_transport_def)
    moreover have hL: "sw_runlog ?h = Some L2" using r2(1) by simp
    obtain L' where "finish_run now' ?h = ((set_log L' ?h)\<lparr>sw_run_name := None\<rparr>,
        Inr (stopped (sw_run_name ?h) (lg_count L2) True (duration_s now' ?h)))"
      by (rule finish_run_log [OF hL r2(2), of now']) blast
    ultimately show ?thesis using s2 by (auto simp del: split_paired_Ex)
  qed
  have "\<exists>ag t. sw_agent s1 = Some (ag, t) \<and> \<not> ag_publish_in_tick ag" using s1(4) sc(2) by (simp add: eq)
  then show ?thesis by (rule that [OF c st s0(1,2) run])
qed

lemma demo_run:
  obtains s0 r0 s1 r1 where "svc_configure demo_host demo_idle [] = (s0, Inr r0)"
    and "svc_start demo_host 100 5 s0 [] = (s1, Inr r1)" and "\<not> is_relay s0" and "\<not> running s0"
    and "\<And>xs. \<exists>s2 ps s3 r2. svc_ticks demo_host s1 xs = Inr (s2, ps) \<and> svc_stop demo_host 107 s2 [] = (s3, Inr r2)"
    and "\<exists>ag t. sw_agent s1 = Some (ag, t) \<and> \<not> ag_publish_in_tick ag"
  by (rule demo_run_args [of "[]" 100 5]) (simp add: epoch_arg_def, blast)

definition demo_ticks :: "tick_input list" where
  "demo_ticks = [([], 1000, 5, 0), ([], 26000, 6, 0)]"

theorem run_recorded_witness:
  "\<exists>s0 s1 s2 s3 r0 r1 r2 ps resp m rows blob.
     svc_configure demo_host demo_idle [] = (s0, Inr r0) \<and> svc_start demo_host 100 5 s0 [] = (s1, Inr r1) \<and>
     svc_ticks demo_host s1 demo_ticks = Inr (s2, ps) \<and> svc_stop demo_host 107 s2 [] = (s3, Inr r2) \<and>
     svc_fetch demo_host s3 [(''run_name'', JStr ''run''), (''artifact'', JStr ''rows'')] = (s3, Inr (resp, Some blob)) \<and>
     recover_rows m blob = Inr rows \<and> length rows = 2"
proof -
  obtain s0 r0 s1 r1 where c: "svc_configure demo_host demo_idle [] = (s0, Inr r0)" "svc_start demo_host 100 5 s0 [] = (s1, Inr r1)"
      "\<not> is_relay s0" and run: "\<And>xs. \<exists>s2 ps s3 r2. svc_ticks demo_host s1 xs = Inr (s2, ps) \<and> svc_stop demo_host 107 s2 [] = (s3, Inr r2)"
    by (rule demo_run) blast
  obtain s2 ps s3 r2 where t: "svc_ticks demo_host s1 demo_ticks = Inr (s2, ps)" "svc_stop demo_host 107 s2 [] = (s3, Inr r2)"
    using run by blast
  have n: "str_arg demo_host [] ''run_name'' ''run'' = ''run''" by (simp add: str_arg_def)
  from run_recorded [OF c(2,3) t, of "[(''run_name'', JStr ''run''), (''artifact'', JStr ''rows'')]"]
  obtain m ss blob resp where "length ss = length demo_ticks"
      "svc_fetch demo_host s3 [(''run_name'', JStr ''run''), (''artifact'', JStr ''rows'')] = (s3, Inr (resp, Some blob))"
      "recover_rows m blob = Inr (map (sample_row m) ss)"
    by (auto simp: n)
  moreover from calculation(1) have "length (map (sample_row m) ss) = 2" by (simp add: demo_ticks_def)
  ultimately show ?thesis using c t by blast
qed

theorem no_sample_refused_witness:
  "\<exists>s0 s1 r0 r1 s2 ps. svc_configure demo_host demo_idle [] = (s0, Inr r0) \<and> svc_start demo_host 100 5 s0 [] = (s1, Inr r1) \<and>
     svc_ticks demo_host s1 demo_ticks = Inr (s2, ps)"
proof -
  have idle: "\<not> is_relay demo_idle" "\<not> running demo_idle" by (simp_all add: demo_idle_def svc_new_def is_relay_def running_def)
  obtain s0 r0 s1 r1 where c: "svc_configure demo_host demo_idle [] = (s0, Inr r0)" "svc_start demo_host 100 5 s0 [] = (s1, Inr r1)"
      and p: "\<exists>ag t. sw_agent s1 = Some (ag, t) \<and> \<not> ag_publish_in_tick ag"
    by (rule demo_run) blast
  have "\<exists>s2 ps. svc_ticks demo_host s1 demo_ticks = Inr (s2, ps)"
    using no_sample_refused [OF idle c] p by force
  then show ?thesis using c by blast
qed

definition demo_holding :: "unit ctrl agent \<Rightarrow> bool \<Rightarrow> (unit, unit, unit) service" where
  "demo_holding ag on = demo_idle\<lparr>sw_assignment := Some demo_local, sw_agent := Some (ag, ()), sw_tasks := on,
     sw_run_name := (if on then Some ''run'' else None)\<rparr>"

lemma demo_holding_facts [simp]:
  "\<not> is_relay (demo_holding ag on)" "running (demo_holding ag on) = on" "sw_agent (demo_holding ag on) = Some (ag, ())"
  "sw_type (demo_holding ag on) = WIFI"
  by (simp_all add: demo_holding_def demo_idle_def svc_new_def is_relay_def running_def)

theorem live_update_keeps_run_witness:
  "\<exists>ag ag' s' resp. build_agent demo_host demo_local = Inr (ag, ()) \<and>
     svc_configure demo_host (demo_holding ag True) [] = (s', Inr (resp, None)) \<and>
     sw_agent s' = Some (ag', ()) \<and> ag_neighbors ag' = ag_neighbors ag \<and> ag_config ag' = config_of demo_local"
proof -
  obtain ag seed x where b: "build_agent demo_host demo_local = Inr (ag, ())" "ag_law ag = ScalarC seed x"
    using demo_build by blast
  obtain s' resp where c: "svc_configure demo_host (demo_holding ag True) [] = (s', Inr (resp, None))"
    using b(2) demo_validate by (simp add: svc_configure_def configure_local_def configured_def to_controller_params_def
        ctrl_set_params_def demo_assignment_def)
  have v: "ho_validate demo_host [] = Inr demo_local" by (simp add: demo_host_def)
  from live_update_keeps_run [OF _ _ _ c, of ag "()"] v b(1) c show ?thesis by auto
qed

theorem failed_configure_mixes_witness:
  "\<exists>ag s0 s1 r L. build_agent demo_host demo_local = Inr (ag, ()) \<and>
     svc_configure demo_host (demo_holding ag False) [(''x'', JNull)] = (s0, Inl ValueError) \<and>
     svc_start demo_host 100 5 s0 [] = (s1, Inr r) \<and> sw_agent s1 = Some (agent_start (ag\<lparr>ag_on_sample := True\<rparr>) 5, ()) \<and>
     sw_runlog s1 = Some L \<and> rm_state_columns (lg_meta L) = RELAY_COLUMNS"
proof -
  obtain ag where b: "build_agent demo_host demo_local = Inr (ag, ())" using demo_build by blast
  let ?a = "demo_local\<lparr>as_controller := ''unknown''\<rparr>"
  have a: "base_of ?a = demo_assignment\<lparr>as_type := WIFI, as_controller := ''unknown''\<rparr>"
    by (simp add: demo_local_def base_of_def assignment.defs demo_assignment_def)
  have v: "bindR (ho_validate demo_host [(''x'', JNull)]) checked = Inr ?a"
    by (simp add: demo_host_def checked_def a assignment_check_def demo_assignment_def)
  have f: "build_agent demo_host ?a = Inl ValueError"
    by (simp add: build_agent_def a to_controller_params_def demo_assignment_def ctrl_create_def create_def registry_lookup)
  have "controller_columns (as_controller ?a) False = Inr RELAY_COLUMNS" by (simp add: controller_columns_def registry_lookup)
  from failed_configure_mixes [OF _ _ _ v _ f _ _ this, of "demo_holding ag False" ag "()" "()" "[]" 100 5] b
  show ?thesis by (auto simp: demo_host_def demo_transport_def)
qed

text \<open>A board's agent, configured and idle.\<close>

definition demo_relayed :: "(unit, unit, unit) service" where
  "demo_relayed = (svc_new BLE None (Some ()) 0 [])\<lparr>sw_assignment := Some demo_board,
     sw_relay := Some (relay_new\<lparr>rl_assignment := Some demo_assignment\<rparr>)\<rparr>"

lemma demo_relay_run:
  obtains s1 r1 s2 r2 rl where "svc_start demo_host 100 5 demo_relayed [] = (s1, Inr r1)"
    and "svc_stop demo_host 107 s1 [] = (s2, Inr r2)" and "sw_relay s2 = Some rl" and "is_relay demo_relayed"
proof -
  have rel: "is_relay demo_relayed" "\<not> running demo_relayed" "sw_assignment demo_relayed = Some demo_board"
    "sw_relay demo_relayed = Some (relay_new\<lparr>rl_assignment := Some demo_assignment\<rparr>)" "sw_link demo_relayed = Some ()"
    "sw_epoch demo_relayed = 0"
    by (simp_all add: demo_relayed_def svc_new_def is_relay_def running_def)
  have c: "as_controller demo_board = ''finite_time_adaptive''"
    by (simp add: demo_board_def assignment.defs demo_assignment_def)
  obtain L where L: "open_log demo_relayed demo_board (str_arg demo_host [] ''run_name'' ''run'') = Inr L"
    using rel(1) by (simp add: open_log_def run_meta_of_def controller_columns_def registry_lookup column_names_def
        ft_class_def log_new_def Let_def relay_columns_def c mg_class_def)
  have "\<exists>p. control_frame demo_assignment True 100000000 = Inr (T_CONTROL, p)"
    by (simp add: control_frame_def demo_assignment_def encode_control_def bytes_of_ints_def to_bytes_le_def numeral_eq_Suc)
  then obtain p where p: "control_frame demo_assignment True 100000000 = Inr (T_CONTROL, p)" by blast
  have w: "wall_now_us 0 100 = 100000000" by (simp add: wall_now_us_def)
  obtain r' where st: "relay_start (ho_request demo_host) (relay_new\<lparr>rl_assignment := Some demo_assignment\<rparr>, ()) 5
      (Some (wall_now_us 0 100)) = ((r', ()), None)"
    by (simp add: relay_start_def Let_def w p relay_send_def demo_host_def accepting_def)
  have e0: "demo_relayed\<lparr>sw_epoch := 0\<rparr> = demo_relayed" using rel(6) by simp
  have "\<exists>s1 r1. svc_start demo_host 100 5 demo_relayed [] = (s1, Inr r1)"
    using rel L st by (simp add: svc_start_def epoch_arg_def Let_def start_relay_def e0)
  then obtain s1 r1 where s1: "svc_start demo_host 100 5 demo_relayed [] = (s1, Inr r1)" by blast
  obtain rl' l' L epoch where e: "open_log (demo_relayed\<lparr>sw_epoch := epoch\<rparr>) demo_board (str_arg demo_host [] ''run_name'' ''run'') = Inr L"
      "s1 = (set_log L (demo_relayed\<lparr>sw_epoch := epoch\<rparr>))\<lparr>sw_relay := Some rl', sw_link := Some l',
         sw_run_name := Some (str_arg demo_host [] ''run_name'' ''run''), sw_started_at := 100, sw_tasks := False\<rparr>"
    by (rule svc_start_relay [OF s1 rel(1)]) (simp add: rel(3))
  obtain r2' l2' e2 where sp: "relay_stop (ho_request demo_host) (rl', l') = ((r2', l2'), e2)" by (metis prod.collapse)
  let ?s = "s1\<lparr>sw_relay := Some r2', sw_link := Some l2'\<rparr>"
  have sL: "sw_runlog ?s = Some L" by (simp add: e(2))
  obtain L' where fin: "finish_run 107 ?s = ((set_log L' ?s)\<lparr>sw_run_name := None\<rparr>,
        Inr (stopped (sw_run_name ?s) (lg_count L) True (duration_s 107 ?s)))"
    by (rule finish_run_log [OF sL start_log_facts(1) [OF e(1)], of 107]) blast
  have "svc_stop demo_host 107 s1 [] = finish_run 107 ?s"
    using rel(1) sp by (simp add: svc_stop_def e(2) is_relay_def)
  then show ?thesis using that [OF s1] fin rel(1) by simp
qed

theorem stopped_relay_says_running_witness:
  "\<exists>s1 r1 s2 r2 resp. svc_start demo_host 100 5 demo_relayed [] = (s1, Inr r1) \<and> svc_stop demo_host 107 s1 [] = (s2, Inr r2) \<and>
     \<not> running s2 \<and> svc_status demo_host 3001 9 s2 [] = (s2, Inr (resp, None)) \<and> map_of (rp_data resp) ''running'' = Some (JBool True)"
proof -
  obtain s1 r1 s2 r2 rl where d: "svc_start demo_host 100 5 demo_relayed [] = (s1, Inr r1)"
      "svc_stop demo_host 107 s1 [] = (s2, Inr r2)" "is_relay demo_relayed"
    by (rule demo_relay_run) blast
  from stopped_relay_says_running [OF d(3,1,2), of 3001 9] d show ?thesis by blast
qed

theorem late_report_counted_witness:
  "\<exists>s1 r1 s2 r2 f. svc_start demo_host 100 5 demo_relayed [] = (s1, Inr r1) \<and> svc_stop demo_host 107 s1 [] = (s2, Inr r2) \<and>
     sw_record_errors (svc_frame demo_host s2 f) = sw_record_errors s2 + 1"
proof -
  obtain s1 r1 s2 r2 rl where d: "svc_start demo_host 100 5 demo_relayed [] = (s1, Inr r1)"
      "svc_stop demo_host 107 s1 [] = (s2, Inr r2)" "sw_relay s2 = Some rl" "is_relay demo_relayed"
    by (rule demo_relay_run)
  obtain b where b: "encode_state demo_report = Inr b" using demo_report_encodes(2) by blast
  let ?f = "\<lparr>tf_frame = \<lparr>fr_type = T_STATE, fr_payload = b\<rparr>, tf_rx = Some 7\<rparr>"
  have "decode_state b = Inr demo_report" using state_report_back [OF demo_report_encodes(1)] b by simp
  then obtain rl' where "relay_handle rl ?f = (rl', Some demo_report)" by (simp add: relay_handle_def Let_def)
  from late_report_counted [OF d(4,1,2,3) this] d show ?thesis by blast
qed

theorem service_invariant_witness:
  "\<exists>s1 r1. svc_start demo_host 100 5 demo_relayed [] = (s1, Inr r1) \<and>
     svc_stop demo_host 7 (svc_new WIFI None None 0 [] :: (unit, unit, unit) service) [] =
       (svc_new WIFI None None 0 [], Inr (stopped None 0 False []))"
proof -
  have n: "\<not> running (svc_new WIFI None None 0 [] :: (unit, unit, unit) service)"
    by (simp add: svc_new_def running_def is_relay_def)
  have "fst (svc_stop demo_host 7 (svc_new WIFI None None 0 []) []) = svc_new WIFI None None 0 []"
    using service_invariant [OF svc_reach.init [of demo_host "svc_new WIFI None None 0 []"]] n by blast
  moreover have "snd (svc_stop demo_host 7 (svc_new WIFI None None 0 []) []) = Inr (stopped None 0 False [])"
    by (simp add: svc_stop_def svc_new_def running_def is_relay_def)
  moreover obtain s1 r1 where "svc_start demo_host 100 5 demo_relayed [] = (s1, Inr r1)" by (rule demo_relay_run) blast
  ultimately show ?thesis by (metis prod.collapse)
qed

end
