(* ===== verification/Runner.thy ===== *)
theory Runner
  imports Service
begin

section \<open>The hub's runner (hub/runner.py)\<close>

text \<open>
  \<open>run_fleet\<close> is \<^verbatim>\<open>ExperimentRunner.run\<close>: clear, configure, barrier, trigger, events, stop,
  collect. What an agent is, is a parameter: a state \<open>'n\<close> and \<open>rpc\<close>, one call of the control
  client, whose failure (\<open>None\<close>) is the client's \<^verbatim>\<open>ControlError\<close>. \<open>live\<close> is what an agent does by
  itself while the hub sleeps, \<open>stamps\<close> the hub's clock when the reply to a start came, \<open>upd\<close>
  pydantic's \<^verbatim>\<open>model_copy\<close>. A \<^verbatim>\<open>gather\<close> over nodes is \<open>fan_out\<close>, one node after the other;
  \<open>fan_out_order\<close> shows that the order does not matter. \<open>arm_manifest\<close> and \<open>run_trial\<close> are the paired
  comparison, \<open>run_repeated\<close> the repetition of one configuration. Printing, the summary and
  \<^verbatim>\<open>run.json\<close> are not modelled.
\<close>

subsection \<open>Commands and outcomes\<close>

datatype command = Status | Configure hub_assignment | Start string real | Stop | Fetch string string

datatype reply = Data jdict | Blob string bytes

type_synonym 'n rpc = "'n \<Rightarrow> command \<Rightarrow> 'n \<times> reply option"

datatype phase = InConfigure | NotStarted "int list" | InStart | InStop | InFetch string

record node_outcome =
  no_node :: int
  no_type :: agent_type
  no_configured :: bool
  no_started :: bool
  no_stopped :: bool
  no_samples :: int
  no_started_at :: "real option"
  no_files :: "(string \<times> string) list"
  no_blobs :: "(string \<times> bytes) list"
  no_errors :: "phase list"

definition outcome_new :: "int \<Rightarrow> agent_type \<Rightarrow> node_outcome" where
  "outcome_new nid t =
     \<lparr>no_node = nid, no_type = t, no_configured = False, no_started = False, no_stopped = False, no_samples = 0,
      no_started_at = None, no_files = [], no_blobs = [], no_errors = []\<rparr>"

definition outcome_ok :: "node_outcome \<Rightarrow> bool" where
  "outcome_ok x \<longleftrightarrow> no_configured x \<and> no_started x \<and> no_errors x = []"

definition add_error :: "phase \<Rightarrow> node_outcome \<Rightarrow> node_outcome" where
  "add_error p x = x\<lparr>no_errors := no_errors x @ [p]\<rparr>"

subsection \<open>One node, phase by phase\<close>

type_synonym 'n slot = "'n \<times> node_outcome"

definition clear_stale :: "'n rpc \<Rightarrow> 'n slot \<Rightarrow> 'n slot" where
  "clear_stale rpc st = (fst (rpc (fst st) Stop), snd st)"

definition configure_one :: "'n rpc \<Rightarrow> hub_assignment \<Rightarrow> 'n slot \<Rightarrow> 'n slot" where
  "configure_one rpc a st =
     (case rpc (fst st) (Configure a) of
        (n, Some _) \<Rightarrow> (n, (snd st)\<lparr>no_configured := True\<rparr>)
      | (n, None) \<Rightarrow> (n, add_error InConfigure (snd st)))"

definition start_one :: "'n rpc \<Rightarrow> string \<Rightarrow> real \<Rightarrow> real \<Rightarrow> 'n slot \<Rightarrow> 'n slot" where
  "start_one rpc run_name epoch stamp st =
     (case rpc (fst st) (Start run_name epoch) of
        (n, Some _) \<Rightarrow> (n, (snd st)\<lparr>no_started := True, no_started_at := Some stamp\<rparr>)
      | (n, None) \<Rightarrow> (n, add_error InStart (snd st)))"

text \<open>\<^verbatim>\<open>int(data.get("samples", 0) or 0)\<close>: the service answers an int.\<close>

definition samples_of :: "reply \<Rightarrow> int" where
  "samples_of r = (case r of Data d \<Rightarrow> (case map_of d ''samples'' of Some (JInt n) \<Rightarrow> n | _ \<Rightarrow> 0) | Blob _ _ \<Rightarrow> 0)"

definition stop_one :: "'n rpc \<Rightarrow> 'n slot \<Rightarrow> 'n slot" where
  "stop_one rpc st =
     (case rpc (fst st) Stop of
        (n, Some r) \<Rightarrow> (n, (snd st)\<lparr>no_stopped := True, no_samples := samples_of r\<rparr>)
      | (n, None) \<Rightarrow> (n, add_error InStop (snd st)))"

definition ARTIFACTS :: "string list" where
  "ARTIFACTS = [''meta'', ''rows'']"

definition fetch_one :: "'n rpc \<Rightarrow> string \<Rightarrow> int \<Rightarrow> 'n slot \<Rightarrow> string \<Rightarrow> 'n slot" where
  "fetch_one rpc run_name nid st artifact =
     (case rpc (fst st) (Fetch run_name artifact) of
        (n, Some (Blob name b)) \<Rightarrow>
          (let path = (if name \<noteq> [] then name else str_int nid @ ''.'' @ artifact) in
           (n, (snd st)\<lparr>no_files := AList.update artifact path (no_files (snd st)),
                        no_blobs := AList.update path b (no_blobs (snd st))\<rparr>))
      | (n, Some (Data d)) \<Rightarrow>
          (let path = str_int nid @ ''.'' @ artifact in
           (n, (snd st)\<lparr>no_files := AList.update artifact path (no_files (snd st)),
                        no_blobs := AList.update path [] (no_blobs (snd st))\<rparr>))
      | (n, None) \<Rightarrow> (n, add_error (InFetch artifact) (snd st)))"

definition collect_one :: "'n rpc \<Rightarrow> string \<Rightarrow> int \<Rightarrow> 'n slot \<Rightarrow> 'n slot" where
  "collect_one rpc run_name nid st = foldl (fetch_one rpc run_name nid) st ARTIFACTS"

subsection \<open>The fleet\<close>

type_synonym 'n fleet = "int \<Rightarrow> 'n slot"

definition fan_out :: "(int \<Rightarrow> 'n slot \<Rightarrow> 'n slot) \<Rightarrow> int list \<Rightarrow> 'n fleet \<Rightarrow> 'n fleet" where
  "fan_out f ids fl = foldl (\<lambda>fl i. fl(i := f i (fl i))) fl ids"

type_synonym assignments = "(int \<times> hub_assignment) list"

datatype event_note = Skipped scheduled_event | Applied scheduled_event "int list" "int list" | Failed scheduled_event int

text \<open>A scheduled event: each target in turn; an update that the agent refuses is taken back.\<close>

fun apply_event ::
  "'n rpc \<Rightarrow> (hub_assignment \<Rightarrow> (string \<times> dval) list \<Rightarrow> hub_assignment) \<Rightarrow> scheduled_event \<Rightarrow> int list \<Rightarrow>
   'n fleet \<times> assignments \<Rightarrow> ('n fleet \<times> assignments) \<times> int list \<times> event_note list" where
  "apply_event rpc upd ev [] st = (st, [], [])"
| "apply_event rpc upd ev (nid # targets) st =
     (let (fl, A) = st in
      case map_of A nid of
        None \<Rightarrow> apply_event rpc upd ev targets st
      | Some a \<Rightarrow>
          (let a' = upd a (sv_set ev); (n, r) = rpc (fst (fl nid)) (Configure a'); fl' = fl(nid := (n, snd (fl nid))) in
           case r of
             Some _ \<Rightarrow>
               (let (st', dn, fs) = apply_event rpc upd ev targets (fl', AList.update nid a' A) in (st', nid # dn, fs))
           | None \<Rightarrow>
               (let (st', dn, fs) = apply_event rpc upd ev targets (fl', A) in (st', dn, Failed ev nid # fs))))"

fun run_events ::
  "'n rpc \<Rightarrow> (hub_assignment \<Rightarrow> (string \<times> dval) list \<Rightarrow> hub_assignment) \<Rightarrow> (nat \<Rightarrow> int \<Rightarrow> 'n \<Rightarrow> 'n) \<Rightarrow> int list \<Rightarrow> real \<Rightarrow>
   nat \<Rightarrow> scheduled_event list \<Rightarrow> 'n fleet \<times> assignments \<Rightarrow> ('n fleet \<times> assignments) \<times> event_note list" where
  "run_events rpc upd live ids duration k [] st =
     ((fan_out (\<lambda>i (n, x). (live k i n, x)) ids (fst st), snd st), [])"
| "run_events rpc upd live ids duration k (ev # evs) st =
     (if sv_at_s ev \<ge> duration then
        (let (st', ns) = run_events rpc upd live ids duration k evs st in (st', Skipped ev # ns))
      else
        (let fl = fan_out (\<lambda>i (n, x). (live k i n, x)) ids (fst st);
             wanted = filter (\<lambda>i. i \<in> set ids) (sv_nodes ev);
             (st1, applied, failures) = apply_event rpc upd ev wanted (fl, snd st);
             (st2, ns) = run_events rpc upd live ids duration (k + 1) evs st1
         in (st2, Applied ev applied wanted # failures @ ns)))"

record run_report =
  rr_run_name :: string
  rr_manifest :: string
  rr_epoch :: real
  rr_duration :: real
  rr_ids :: "int list"
  rr_nodes :: "int \<Rightarrow> node_outcome"
  rr_spread :: real
  rr_notes :: "event_note list"
  rr_collected :: bool

definition report_all_ok :: "run_report \<Rightarrow> bool" where
  "report_all_ok r \<longleftrightarrow> rr_ids r \<noteq> [] \<and> list_all (\<lambda>i. outcome_ok (rr_nodes r i)) (rr_ids r)"

definition trigger_spread :: "real list \<Rightarrow> real" where
  "trigger_spread stamps = (if length stamps > 1 then Max (set stamps) - Min (set stamps) else 0)"

record 'n hub_env =
  hu_rpc :: "'n rpc"
  hu_update :: "hub_assignment \<Rightarrow> (string \<times> dval) list \<Rightarrow> hub_assignment"
  hu_live :: "nat \<Rightarrow> int \<Rightarrow> 'n \<Rightarrow> 'n"
  hu_stamp :: "int \<Rightarrow> real"

definition node_type_of :: "manifest \<Rightarrow> int \<Rightarrow> agent_type" where
  "node_type_of mf i = (case em_by_id mf i of Some n \<Rightarrow> ns_type n | None \<Rightarrow> WIFI)"

text \<open>The phases up to the barrier, and those after it.\<close>

definition configure_fleet :: "'n hub_env \<Rightarrow> manifest \<Rightarrow> assignments \<Rightarrow> int list \<Rightarrow> (int \<Rightarrow> 'n) \<Rightarrow> 'n fleet" where
  "configure_fleet hu mf A ids agents =
     (let fl0 = (\<lambda>i. (agents i, outcome_new i (node_type_of mf i)));
          fl1 = fan_out (\<lambda>i. clear_stale (hu_rpc hu)) ids fl0
      in fan_out (\<lambda>i. configure_one (hu_rpc hu) (the (map_of A i))) ids fl1)"

definition conduct_fleet ::
  "'n hub_env \<Rightarrow> manifest \<Rightarrow> assignments \<Rightarrow> int list \<Rightarrow> string \<Rightarrow> real \<Rightarrow> real \<Rightarrow> 'n fleet \<Rightarrow>
   'n fleet \<times> assignments \<times> real \<times> event_note list" where
  "conduct_fleet hu mf A ids run_name duration epoch fl =
     (let fl1 = fan_out (\<lambda>i. start_one (hu_rpc hu) run_name epoch (hu_stamp hu i)) ids fl;
          stamps = List.map_filter (\<lambda>i. case no_started_at (snd (fl1 i)) of Some t \<Rightarrow> if t \<noteq> 0 then Some t else None | None \<Rightarrow> None)
                     (remdups ids);
          ((fl2, A'), notes) = run_events (hu_rpc hu) (hu_update hu) (hu_live hu) ids duration 0
                                 (sort_key sv_at_s (em_events mf)) (fl1, A);
          fl3 = fan_out (\<lambda>i. stop_one (hu_rpc hu)) ids fl2;
          fl4 = fan_out (\<lambda>i. collect_one (hu_rpc hu) run_name i) ids fl3
      in (fl4, A', trigger_spread stamps, notes))"

definition run_fleet ::
  "'n hub_env \<Rightarrow> manifest \<Rightarrow> assignments \<Rightarrow> (int \<Rightarrow> 'n) \<Rightarrow> string \<Rightarrow> real \<Rightarrow> real \<Rightarrow> int list option \<Rightarrow>
   ((int \<Rightarrow> 'n) \<times> assignments \<times> run_report) result" where
  "run_fleet hu mf A agents run_name duration epoch only =
     (let ids = sort (case only of Some xs \<Rightarrow> xs | None \<Rightarrow> map fst A);
          report = \<lparr>rr_run_name = run_name, rr_manifest = em_name mf, rr_epoch = epoch, rr_duration = duration, rr_ids = ids,
                    rr_nodes = (\<lambda>i. outcome_new i (node_type_of mf i)), rr_spread = 0, rr_notes = [], rr_collected = False\<rparr>
      in if list_ex (\<lambda>i. map_of A i = None) ids then Inl ValueError
      else
        let fl = configure_fleet hu mf A ids agents; bad = filter (\<lambda>i. \<not> no_configured (snd (fl i))) ids in
        if bad \<noteq> [] then
          let fl' = fan_out (\<lambda>i (n, x). (n, if no_configured x then add_error (NotStarted bad) x else x)) ids fl
          in Inr (\<lambda>i. fst (fl' i), A, report\<lparr>rr_nodes := \<lambda>i. snd (fl' i)\<rparr>)
        else
          let (fl', A', spread, notes) = conduct_fleet hu mf A ids run_name duration epoch fl
          in Inr (\<lambda>i. fst (fl' i), A', report\<lparr>rr_nodes := \<lambda>i. snd (fl' i), rr_spread := spread, rr_notes := notes,
                                               rr_collected := True\<rparr>))"

subsection \<open>Repetitions and arms\<close>

text \<open>\<^verbatim>\<open>run_repeated\<close> from repetition \<open>rep\<close>: the assignments of the runner are carried from run to run.\<close>

fun run_repeated ::
  "'n hub_env \<Rightarrow> manifest \<Rightarrow> string \<Rightarrow> real \<Rightarrow> (nat \<Rightarrow> real) \<Rightarrow> int list option \<Rightarrow> nat \<Rightarrow> nat \<Rightarrow>
   (int \<Rightarrow> 'n) \<times> assignments \<Rightarrow> ((int \<Rightarrow> 'n) \<times> assignments \<times> run_report list) result" where
  "run_repeated hu mf base_name duration epochs only rep 0 st = Inr (fst st, snd st, [])"
| "run_repeated hu mf base_name duration epochs only rep (Suc k) st =
     bindR (run_fleet hu mf (snd st) (fst st) (base_name @ ''-r'' @ show_nat rep) duration (epochs rep) only) (\<lambda>(ag, A, r).
     bindR (run_repeated hu mf base_name duration epochs only (Suc rep) k (ag, A)) (\<lambda>(ag', A', rs).
       Inr (ag', A', r # rs)))"

definition ARMS :: "string list" where
  "ARMS = [''LC0'', ''LC+'', ''AA'', ''DZ'']"

definition arm_manifest :: "manifest \<Rightarrow> string \<Rightarrow> manifest result" where
  "arm_manifest mf arm =
     (if arm \<notin> set ARMS then Inl ValueError
      else case cs_microgrid (em_controller mf) of
        None \<Rightarrow> Inl ValueError
      | Some mg \<Rightarrow>
          let mg' = (if arm = ''AA'' \<or> arm = ''DZ''
                     then mg\<lparr>ms_interface := ''adaptive'', ms_eps := (if arm = ''AA'' then EpsAll 0 else ms_eps mg)\<rparr>
                     else mg\<lparr>ms_interface := ''lc'', ms_terminal := (arm = ''LC0'')\<rparr>);
              name = (if arm = ''AA'' \<or> arm = ''DZ'' then ''microgrid_adaptive'' else ''microgrid_lc'')
          in manifest_check (mf\<lparr>em_controller := (em_controller mf)\<lparr>cs_name := name, cs_microgrid := Some mg'\<rparr>\<rparr>))"

definition set_arm :: "numpy \<Rightarrow> manifest \<Rightarrow> int \<Rightarrow> string \<Rightarrow> assignments result" where
  "set_arm np mf run_index arm = bindR (arm_manifest mf arm) (\<lambda>m. assignments_for np m run_index)"

definition arm_label :: "string \<Rightarrow> string" where
  "arm_label arm = concat (map (\<lambda>c. if c = CHR ''+'' then ''plus'' else [c]) arm)"

text \<open>One trial: the arms in their shuffled order, each with assignments built anew.\<close>

fun run_trial ::
  "'n hub_env \<Rightarrow> numpy \<Rightarrow> manifest \<Rightarrow> int \<Rightarrow> string \<Rightarrow> real \<Rightarrow> (string \<Rightarrow> real) \<Rightarrow> int list option \<Rightarrow> nat \<Rightarrow> string list \<Rightarrow>
   (int \<Rightarrow> 'n) \<Rightarrow> ((int \<Rightarrow> 'n) \<times> (string \<times> run_report) list) result" where
  "run_trial hu np mf run_index base_name duration epochs only trial [] agents = Inr (agents, [])"
| "run_trial hu np mf run_index base_name duration epochs only trial (arm # arms) agents =
     bindR (set_arm np mf run_index arm) (\<lambda>A.
     bindR (run_fleet hu mf A agents (base_name @ ''-t'' @ show_nat trial @ ''-'' @ arm_label arm) duration (epochs arm) only)
       (\<lambda>(ag, A', r).
     bindR (run_trial hu np mf run_index base_name duration epochs only trial arms ag) (\<lambda>(ag', rs).
       Inr (ag', (arm, r) # rs))))"

subsection \<open>What every node is told, and in which order\<close>

text \<open>The same agents, each with the list of the commands it was sent.\<close>

definition logged :: "'n hub_env \<Rightarrow> ('n \<times> command list) hub_env" where
  "logged hu =
     \<lparr>hu_rpc = (\<lambda>(n, cs) c. case hu_rpc hu n c of (n', r) \<Rightarrow> ((n', cs @ [c]), r)), hu_update = hu_update hu,
      hu_live = (\<lambda>k i (n, cs). (hu_live hu k i n, cs)), hu_stamp = hu_stamp hu\<rparr>"

definition is_configure :: "command \<Rightarrow> bool" where
  "is_configure c \<longleftrightarrow> (case c of Configure _ \<Rightarrow> True | _ \<Rightarrow> False)"

lemma is_configure_simps [simp]:
  "is_configure (Configure a)" "\<not> is_configure Status" "\<not> is_configure (Start name epoch)" "\<not> is_configure Stop"
  "\<not> is_configure (Fetch name artifact)"
  by (simp_all add: is_configure_def)

abbreviation told :: "('n \<times> command list) slot \<Rightarrow> command list" where
  "told st \<equiv> snd (fst st)"

lemma fan_out_at: "distinct ids \<Longrightarrow> fan_out f ids fl i = (if i \<in> set ids then f i (fl i) else fl i)"
  unfolding fan_out_def by (induction ids arbitrary: fl) auto

text \<open>The order in which a phase reaches the nodes does not matter.\<close>

lemma fan_out_order:
  assumes "set ids = set ids'" and "distinct ids" and "distinct ids'"
  shows "fan_out f ids fl = fan_out f ids' fl"
  using assms by (auto simp: fan_out_at)

lemma fan_out_inv: "(\<And>i st. g (f i st) = g st) \<Longrightarrow> g (fan_out f ids fl j) = g (fl j)"
  unfolding fan_out_def by (induction ids arbitrary: fl) auto

lemma told_steps [simp]:
  "told (clear_stale (hu_rpc (logged hu)) st) = told st @ [Stop]"
  "told (configure_one (hu_rpc (logged hu)) a st) = told st @ [Configure a]"
  "told (start_one (hu_rpc (logged hu)) name epoch stamp st) = told st @ [Start name epoch]"
  "told (stop_one (hu_rpc (logged hu)) st) = told st @ [Stop]"
  "told (fetch_one (hu_rpc (logged hu)) name i st artifact) = told st @ [Fetch name artifact]"
  by (auto simp: clear_stale_def configure_one_def start_one_def stop_one_def fetch_one_def logged_def Let_def
      split: prod.splits option.splits reply.splits)

lemma told_collect [simp]:
  "told (collect_one (hu_rpc (logged hu)) name i st) = told st @ [Fetch name ''meta'', Fetch name ''rows'']"
  by (simp add: collect_one_def ARTIFACTS_def)

lemma told_live [simp]: "told (fan_out (\<lambda>i (n, x). (hu_live (logged hu) k i n, x)) ids fl j) = told (fl j)"
  by (rule fan_out_inv) (auto simp: logged_def split: prod.splits)

lemma apply_event_told:
  assumes "apply_event (hu_rpc (logged hu)) upd ev targets (fl, A) = ((fl', A'), dn, fs)"
  shows "\<exists>cs. told (fl' j) = told (fl j) @ cs \<and> list_all is_configure cs"
  using assms
proof (induction targets arbitrary: fl A fl' A' dn fs)
  case (Cons nid targets)
  show ?case
  proof (cases "map_of A nid")
    case None
    then show ?thesis using Cons by auto
  next
    case (Some a)
    obtain n' r where r: "hu_rpc (logged hu) (fst (fl nid)) (Configure (upd a (sv_set ev))) = (n', r)" by fastforce
    let ?fl = "fl(nid := (n', snd (fl nid)))"
    have n': "snd n' = told (fl nid) @ [Configure (upd a (sv_set ev))]"
      using r by (auto simp: logged_def split: prod.splits)
    obtain B dn' fs' where "apply_event (hu_rpc (logged hu)) upd ev targets (?fl, B) = ((fl', A'), dn', fs')"
      using Cons.prems by (cases r) (auto simp: Some r Let_def split: prod.splits)
    from Cons.IH [OF this] obtain cs where "told (fl' j) = told (?fl j) @ cs" "list_all is_configure cs" by blast
    then show ?thesis by (cases "j = nid") (auto simp: n')
  qed
qed auto

lemma run_events_told:
  assumes "run_events (hu_rpc (logged hu)) upd (hu_live (logged hu)) ids duration k evs st = ((fl', A'), ns)"
  shows "\<exists>cs. told (fl' j) = told (fst st j) @ cs \<and> list_all is_configure cs"
  using assms
proof (induction evs arbitrary: k st fl' A' ns)
  case (Cons ev evs)
  show ?case
  proof (cases "sv_at_s ev \<ge> duration")
    case True
    then show ?thesis using Cons by (auto simp: Let_def split: prod.splits)
  next
    case False
    let ?fl = "fan_out (\<lambda>i (n, x). (hu_live (logged hu) k i n, x)) ids (fst st)"
    obtain fl1 A1 dn fs where e: "apply_event (hu_rpc (logged hu)) upd ev (filter (\<lambda>i. i \<in> set ids) (sv_nodes ev)) (?fl, snd st)
        = ((fl1, A1), dn, fs)" by (metis prod.exhaust)
    obtain ns' where "run_events (hu_rpc (logged hu)) upd (hu_live (logged hu)) ids duration (k + 1) evs (fl1, A1) = ((fl', A'), ns')"
      using Cons.prems False by (auto simp: e Let_def split: prod.splits)
    from Cons.IH [OF this] obtain cs where "told (fl' j) = told (fl1 j) @ cs" "list_all is_configure cs" by auto
    moreover obtain cs' where "told (fl1 j) = told (?fl j) @ cs'" "list_all is_configure cs'" using apply_event_told [OF e] by blast
    ultimately show ?thesis by auto
  qed
qed auto

lemma run_fleet_cases:
  assumes "run_fleet hu mf A agents run_name duration epoch only = Inr (ag, A', r)" and "distinct (rr_ids r)"
  defines "fl \<equiv> configure_fleet hu mf A (rr_ids r) agents"
  shows "set (rr_ids r) \<subseteq> fst ` set A" and "rr_ids r = sort (case only of Some xs \<Rightarrow> xs | None \<Rightarrow> map fst A)"
    and "rr_collected r \<longleftrightarrow> (\<forall>i \<in> set (rr_ids r). no_configured (snd (fl i)))"
    and "\<not> rr_collected r \<Longrightarrow> A' = A \<and> ag = (\<lambda>i. fst (fl i)) \<and>
           (\<forall>i \<in> set (rr_ids r). rr_nodes r i = (if no_configured (snd (fl i))
              then add_error (NotStarted (filter (\<lambda>i. \<not> no_configured (snd (fl i))) (rr_ids r))) (snd (fl i)) else snd (fl i)))"
    and "rr_collected r \<Longrightarrow> \<exists>fl' spread notes.
           conduct_fleet hu mf A (rr_ids r) run_name duration epoch fl = (fl', A', spread, notes) \<and>
           ag = (\<lambda>i. fst (fl' i)) \<and> rr_nodes r = (\<lambda>i. snd (fl' i)) \<and> rr_spread r = spread \<and> rr_notes r = notes"
proof -
  define ids where "ids = sort (case only of Some xs \<Rightarrow> xs | None \<Rightarrow> map fst A)"
  have dom: "\<not> list_ex (\<lambda>i. map_of A i = None) ids"
    using assms(1) by (auto simp: run_fleet_def ids_def [symmetric] Let_def)
  define fl0 where "fl0 = configure_fleet hu mf A ids agents"
  define bad where "bad = filter (\<lambda>i. \<not> no_configured (snd (fl0 i))) ids"
  have ids: "rr_ids r = ids"
    using assms(1) dom by (auto simp: run_fleet_def ids_def [symmetric] Let_def split: if_splits prod.splits)
  have fl: "fl = fl0" by (simp add: fl_def fl0_def ids)
  have col: "rr_collected r \<longleftrightarrow> bad = []"
    using assms(1) dom
    by (auto simp: run_fleet_def ids_def [symmetric] Let_def fl0_def [symmetric] bad_def [symmetric] split: if_splits prod.splits)
  show "rr_ids r = sort (case only of Some xs \<Rightarrow> xs | None \<Rightarrow> map fst A)" by (simp add: ids ids_def)
  show "set (rr_ids r) \<subseteq> fst ` set A" using dom by (force simp: ids list_ex_iff map_of_eq_None_iff)
  show "rr_collected r \<longleftrightarrow> (\<forall>i \<in> set (rr_ids r). no_configured (snd (fl i)))"
    by (simp add: col bad_def ids fl filter_empty_conv)
  show "\<exists>fl' spread notes. conduct_fleet hu mf A (rr_ids r) run_name duration epoch fl = (fl', A', spread, notes) \<and>
      ag = (\<lambda>i. fst (fl' i)) \<and> rr_nodes r = (\<lambda>i. snd (fl' i)) \<and> rr_spread r = spread \<and> rr_notes r = notes"
    if "rr_collected r"
    using assms(1) dom that col unfolding fl ids
    by (auto simp: run_fleet_def ids_def [symmetric] Let_def fl0_def [symmetric] bad_def [symmetric] split: prod.splits)
  assume "\<not> rr_collected r"
  then have bad: "bad \<noteq> []" by (simp add: col)
  let ?fl = "fan_out (\<lambda>i (n, x). (n, if no_configured x then add_error (NotStarted bad) x else x)) ids fl0"
  have res: "ag = (\<lambda>i. fst (?fl i))" "A' = A" "rr_nodes r = (\<lambda>i. snd (?fl i))"
    using assms(1) dom bad unfolding bad_def
    by (auto simp: run_fleet_def ids_def [symmetric] Let_def fl0_def [symmetric])
  have "fst (?fl i) = fst (fl0 i)" for i by (rule fan_out_inv) (auto split: prod.splits)
  then show "A' = A \<and> ag = (\<lambda>i. fst (fl i)) \<and> (\<forall>i \<in> set (rr_ids r). rr_nodes r i = (if no_configured (snd (fl i))
      then add_error (NotStarted (filter (\<lambda>i. \<not> no_configured (snd (fl i))) (rr_ids r))) (snd (fl i)) else snd (fl i)))"
    using assms(2) by (auto simp: res fl ids fan_out_at bad_def split: prod.splits)
qed

lemma configure_fleet_at:
  assumes "distinct ids" and "i \<in> set ids"
  shows "configure_fleet hu mf A ids agents i =
    configure_one (hu_rpc hu) (the (map_of A i)) (clear_stale (hu_rpc hu) (agents i, outcome_new i (node_type_of mf i)))"
  using assms by (simp add: configure_fleet_def Let_def fan_out_at)

text \<open>The phases after the barrier: a node's slot goes through start, the live phase, stop and fetch.\<close>

lemma conduct_fleet_phases:
  assumes "conduct_fleet hu mf A ids run_name duration epoch fl = (fl', A', spread, notes)" and "distinct ids"
  obtains fl1 fl2 evs where
    "run_events (hu_rpc hu) (hu_update hu) (hu_live hu) ids duration 0 (sort_key sv_at_s (em_events mf)) (fl1, A) = ((fl2, A'), notes)"
    "\<And>i. i \<in> set ids \<Longrightarrow> fl1 i = start_one (hu_rpc hu) run_name epoch (hu_stamp hu i) (fl i)"
    "\<And>i. i \<in> set ids \<Longrightarrow> fl' i = collect_one (hu_rpc hu) run_name i (stop_one (hu_rpc hu) (fl2 i))"
    "spread = trigger_spread (List.map_filter
       (\<lambda>i. case no_started_at (snd (fl1 i)) of Some t \<Rightarrow> if t \<noteq> 0 then Some t else None | None \<Rightarrow> None) ids)"
proof -
  let ?fl1 = "fan_out (\<lambda>i. start_one (hu_rpc hu) run_name epoch (hu_stamp hu i)) ids fl"
  obtain fl2 A2 n2 where e: "run_events (hu_rpc hu) (hu_update hu) (hu_live hu) ids duration 0 (sort_key sv_at_s (em_events mf)) (?fl1, A)
      = ((fl2, A2), n2)" by (metis prod.exhaust)
  show ?thesis
    by (rule that [of ?fl1 fl2])
      (use assms e in \<open>auto simp: conduct_fleet_def Let_def fan_out_at distinct_remdups_id\<close>)
qed

text \<open>Events touch the agents and the assignments, not the outcomes.\<close>

lemma apply_event_outcome:
  "apply_event rpc upd ev targets (fl, A) = ((fl', A'), dn, fs) \<Longrightarrow> snd (fl' j) = snd (fl j)"
proof (induction targets arbitrary: fl A fl' A' dn fs)
  case (Cons nid targets)
  show ?case
  proof (cases "map_of A nid")
    case None
    then show ?thesis using Cons by auto
  next
    case (Some a)
    obtain n' r where r: "rpc (fst (fl nid)) (Configure (upd a (sv_set ev))) = (n', r)" by fastforce
    let ?fl = "fl(nid := (n', snd (fl nid)))"
    obtain B dn' fs' where "apply_event rpc upd ev targets (?fl, B) = ((fl', A'), dn', fs')"
      using Cons.prems by (cases r) (auto simp: Some r Let_def split: prod.splits)
    from Cons.IH [OF this] show ?thesis by auto
  qed
qed auto

lemma run_events_outcome:
  "run_events rpc upd live ids duration k evs st = ((fl', A'), ns) \<Longrightarrow> snd (fl' j) = snd (fst st j)"
proof (induction evs arbitrary: k st fl' A' ns)
  case Nil
  have "snd (fan_out (\<lambda>i (n, x). (live k i n, x)) ids (fst st) j) = snd (fst st j)"
    by (rule fan_out_inv) (auto split: prod.splits)
  then show ?case using Nil by auto
next
  case (Cons ev evs)
  show ?case
  proof (cases "sv_at_s ev \<ge> duration")
    case True
    then show ?thesis using Cons by (auto simp: Let_def split: prod.splits)
  next
    case False
    let ?fl = "fan_out (\<lambda>i (n, x). (live k i n, x)) ids (fst st)"
    obtain fl1 A1 dn fs where e: "apply_event rpc upd ev (filter (\<lambda>i. i \<in> set ids) (sv_nodes ev)) (?fl, snd st)
        = ((fl1, A1), dn, fs)" by (metis prod.exhaust)
    obtain ns' where "run_events rpc upd live ids duration (k + 1) evs (fl1, A1) = ((fl', A'), ns')"
      using Cons.prems False by (auto simp: e Let_def split: prod.splits)
    from Cons.IH [OF this] have "snd (fl' j) = snd (fl1 j)" by simp
    also have "\<dots> = snd (?fl j)" by (rule apply_event_outcome [OF e])
    also have "\<dots> = snd (fst st j)" by (rule fan_out_inv) (auto split: prod.splits)
    finally show ?thesis .
  qed
qed

lemma add_error_simps [simp]:
  "no_configured (add_error p x) = no_configured x" "no_started (add_error p x) = no_started x"
  "no_stopped (add_error p x) = no_stopped x" "no_files (add_error p x) = no_files x"
  "no_started_at (add_error p x) = no_started_at x"
  "no_errors (add_error p x) = no_errors x @ [p]"
  by (simp_all add: add_error_def)

text \<open>What a step leaves of the outcome: errors are only ever added, and a step without one did its work.\<close>

lemma step_outcomes:
  "no_configured (snd (start_one rpc name epoch stamp st)) = no_configured (snd st)"
  "no_configured (snd (stop_one rpc st)) = no_configured (snd st)"
  "no_configured (snd (fetch_one rpc name i st artifact)) = no_configured (snd st)"
  "no_started (snd (stop_one rpc st)) = no_started (snd st)"
  "no_started (snd (fetch_one rpc name i st artifact)) = no_started (snd st)"
  "no_started_at (snd (stop_one rpc st)) = no_started_at (snd st)"
  "no_started_at (snd (fetch_one rpc name i st artifact)) = no_started_at (snd st)"
  "no_stopped (snd (fetch_one rpc name i st artifact)) = no_stopped (snd st)"
  by (auto simp: start_one_def stop_one_def fetch_one_def Let_def split: prod.splits option.splits reply.splits)

lemma configure_one_outcome:
  "no_configured (snd (configure_one rpc a st)) \<longleftrightarrow> snd (rpc (fst st) (Configure a)) \<noteq> None \<or> no_configured (snd st)"
  "no_errors (snd (configure_one rpc a st)) =
     no_errors (snd st) @ (if snd (rpc (fst st) (Configure a)) = None then [InConfigure] else [])"
  by (auto simp: configure_one_def split: prod.splits option.splits)

lemma collect_one_outcome:
  "no_configured (snd (collect_one rpc name i st)) = no_configured (snd st)"
  "no_started (snd (collect_one rpc name i st)) = no_started (snd st)"
  "no_started_at (snd (collect_one rpc name i st)) = no_started_at (snd st)"
  "no_stopped (snd (collect_one rpc name i st)) = no_stopped (snd st)"
  by (simp_all add: collect_one_def ARTIFACTS_def step_outcomes)

lemma fleet_told:
  assumes "run_fleet (logged hu) mf A agents run_name duration epoch only = Inr (ag, A', r)"
    and "distinct (rr_ids r)" and "i \<in> set (rr_ids r)"
  shows "\<exists>a mid. map_of A i = Some a \<and> list_all is_configure mid \<and>
     (rr_collected r \<longleftrightarrow> (\<forall>j \<in> set (rr_ids r). no_configured (rr_nodes r j))) \<and>
     snd (ag i) = snd (agents i) @ [Stop, Configure a] @
       (if rr_collected r then [Start run_name epoch] @ mid @ [Stop, Fetch run_name ''meta'', Fetch run_name ''rows''] else [])"
proof -
  note cs = run_fleet_cases [OF assms(1,2)]
  let ?fl = "configure_fleet (logged hu) mf A (rr_ids r) agents"
  obtain a where a: "map_of A i = Some a" using cs(1) assms(3) by (metis map_of_eq_None_iff not_Some_eq subsetD)
  have told: "told (?fl i) = snd (agents i) @ [Stop, Configure a]"
    by (simp add: configure_fleet_at [OF assms(2,3)] a)
  show ?thesis
  proof (cases "rr_collected r")
    case False
    have "no_configured (rr_nodes r j) = no_configured (snd (?fl j))" if "j \<in> set (rr_ids r)" for j
      using cs(4) [OF False] that by auto
    then show ?thesis using a told False cs(3) cs(4) [OF False] by (intro exI [of _ a] exI [of _ "[]"]) auto
  next
    case True
    obtain fl' spread ns where c: "conduct_fleet (logged hu) mf A (rr_ids r) run_name duration epoch ?fl = (fl', A', spread, ns)"
        "ag = (\<lambda>i. fst (fl' i))" "rr_nodes r = (\<lambda>i. snd (fl' i))"
      using cs(5) [OF True] by blast
    obtain fl1 fl2 where p:
        "run_events (hu_rpc (logged hu)) (hu_update (logged hu)) (hu_live (logged hu)) (rr_ids r) duration 0
           (sort_key sv_at_s (em_events mf)) (fl1, A) = ((fl2, A'), ns)"
        "\<And>i. i \<in> set (rr_ids r) \<Longrightarrow> fl1 i = start_one (hu_rpc (logged hu)) run_name epoch (hu_stamp (logged hu) i) (?fl i)"
        "\<And>i. i \<in> set (rr_ids r) \<Longrightarrow> fl' i = collect_one (hu_rpc (logged hu)) run_name i (stop_one (hu_rpc (logged hu)) (fl2 i))"
      by (rule conduct_fleet_phases [OF c(1) assms(2)]) blast
    obtain mid where mid: "told (fl2 i) = told (fl1 i) @ mid" "list_all is_configure mid"
      using run_events_told [OF p(1)] by auto
    have "no_configured (rr_nodes r j)" if "j \<in> set (rr_ids r)" for j
      using that True cs(3) run_events_outcome [OF p(1), of j] by (simp add: c(3) p(2,3) collect_one_outcome step_outcomes)
    moreover have "snd (ag i) = told (?fl i) @ [Start run_name epoch] @ mid @ [Stop, Fetch run_name ''meta'', Fetch run_name ''rows'']"
      using mid by (simp add: c(2) p(2,3) assms(3))
    ultimately show ?thesis using a told mid(2) True by auto
  qed
qed

subsection \<open>What a run that reports success has done\<close>

lemma start_one_clean:
  assumes "no_errors (snd (start_one rpc name epoch stamp st)) = []"
  shows "no_errors (snd st) = []" and "no_started (snd (start_one rpc name epoch stamp st))"
    and "no_started_at (snd (start_one rpc name epoch stamp st)) = Some stamp"
    and "no_files (snd (start_one rpc name epoch stamp st)) = no_files (snd st)"
  using assms by (auto simp: start_one_def split: prod.splits option.splits)

lemma stop_one_clean:
  assumes "no_errors (snd (stop_one rpc st)) = []"
  shows "no_errors (snd st) = []" and "no_stopped (snd (stop_one rpc st))"
    and "no_files (snd (stop_one rpc st)) = no_files (snd st)"
  using assms by (auto simp: stop_one_def split: prod.splits option.splits)

lemma fetch_one_clean:
  assumes "no_errors (snd (fetch_one rpc name i st artifact)) = []"
  shows "no_errors (snd st) = []" and "map_of (no_files (snd (fetch_one rpc name i st artifact))) artifact \<noteq> None"
    and "artifact' \<noteq> artifact \<Longrightarrow>
      map_of (no_files (snd (fetch_one rpc name i st artifact))) artifact' = map_of (no_files (snd st)) artifact'"
  using assms by (auto simp: fetch_one_def Let_def update_conv split: prod.splits option.splits reply.splits)

lemma collect_one_clean:
  assumes "no_errors (snd (collect_one rpc name i st)) = []" and "artifact \<in> set ARTIFACTS"
  shows "no_errors (snd st) = []" and "map_of (no_files (snd (collect_one rpc name i st))) artifact \<noteq> None"
proof -
  let ?m = "fetch_one rpc name i st ''meta''"
  have c: "collect_one rpc name i st = fetch_one rpc name i ?m ''rows''" by (simp add: collect_one_def ARTIFACTS_def)
  note rows = fetch_one_clean [OF assms(1)[unfolded c]]
  note meta = fetch_one_clean [OF rows(1)]
  show "no_errors (snd st) = []" by (rule meta(1))
  show "map_of (no_files (snd (collect_one rpc name i st))) artifact \<noteq> None"
    using assms(2) rows(2) rows(3) [of "''meta''"] meta(2) unfolding c by (auto simp: ARTIFACTS_def)
qed

text \<open>C23: A report that says ok means a complete run: every node was configured, started and stopped, both
  artefacts of every node were collected, and the spread is that of all the start stamps.\<close>

theorem report_ok_complete:
  assumes "run_fleet hu mf A agents run_name duration epoch only = Inr (ag, A', r)"
    and "distinct (rr_ids r)" and "report_all_ok r"
  shows "rr_collected r \<and> (\<forall>i \<in> set (rr_ids r). no_configured (rr_nodes r i) \<and> no_started (rr_nodes r i) \<and>
      no_started_at (rr_nodes r i) = Some (hu_stamp hu i) \<and> no_stopped (rr_nodes r i) \<and>
      (\<forall>x \<in> set ARTIFACTS. map_of (no_files (rr_nodes r i)) x \<noteq> None)) \<and>
    ((\<forall>i \<in> set (rr_ids r). hu_stamp hu i \<noteq> 0) \<longrightarrow> rr_spread r = trigger_spread (map (hu_stamp hu) (rr_ids r)))"
proof -
  note cs = run_fleet_cases [OF assms(1,2)]
  have ok: "no_configured (rr_nodes r i)" "no_errors (rr_nodes r i) = []" "no_started (rr_nodes r i)" if "i \<in> set (rr_ids r)" for i
    using assms(3) that by (auto simp: report_all_ok_def outcome_ok_def list_all_iff)
  let ?fl = "configure_fleet hu mf A (rr_ids r) agents"
  have col: "rr_collected r"
  proof (rule ccontr)
    assume n: "\<not> rr_collected r"
    obtain i where i: "i \<in> set (rr_ids r)" using assms(3) by (cases "rr_ids r") (auto simp: report_all_ok_def)
    show False using cs(4) [OF n] i ok(1,2) [OF i] by (auto split: if_splits)
  qed
  obtain fl' spread ns where c: "conduct_fleet hu mf A (rr_ids r) run_name duration epoch ?fl = (fl', A', spread, ns)"
      "rr_nodes r = (\<lambda>i. snd (fl' i))" "rr_spread r = spread"
    using cs(5) [OF col] by blast
  obtain fl1 fl2 where p:
      "run_events (hu_rpc hu) (hu_update hu) (hu_live hu) (rr_ids r) duration 0 (sort_key sv_at_s (em_events mf)) (fl1, A) = ((fl2, A'), ns)"
      "\<And>i. i \<in> set (rr_ids r) \<Longrightarrow> fl1 i = start_one (hu_rpc hu) run_name epoch (hu_stamp hu i) (?fl i)"
      "\<And>i. i \<in> set (rr_ids r) \<Longrightarrow> fl' i = collect_one (hu_rpc hu) run_name i (stop_one (hu_rpc hu) (fl2 i))"
      "spread = trigger_spread (List.map_filter
         (\<lambda>i. case no_started_at (snd (fl1 i)) of Some t \<Rightarrow> if t \<noteq> 0 then Some t else None | None \<Rightarrow> None) (rr_ids r))"
    by (rule conduct_fleet_phases [OF c(1) assms(2)]) blast
  have node: "no_started_at (rr_nodes r i) = Some (hu_stamp hu i) \<and> no_started_at (snd (fl1 i)) = Some (hu_stamp hu i) \<and>
      no_stopped (rr_nodes r i) \<and> (\<forall>x \<in> set ARTIFACTS. map_of (no_files (rr_nodes r i)) x \<noteq> None)"
    if i: "i \<in> set (rr_ids r)" for i
  proof -
    have r: "rr_nodes r i = snd (collect_one (hu_rpc hu) run_name i (stop_one (hu_rpc hu) (fl2 i)))" by (simp add: c(2) p(3) i)
    have e: "no_errors (snd (collect_one (hu_rpc hu) run_name i (stop_one (hu_rpc hu) (fl2 i)))) = []" using ok(2) [OF i] r by simp
    have "''meta'' \<in> set ARTIFACTS" by (simp add: ARTIFACTS_def)
    note st = stop_one_clean [OF collect_one_clean(1) [OF e this]]
    have o: "snd (fl2 i) = snd (start_one (hu_rpc hu) run_name epoch (hu_stamp hu i) (?fl i))"
      using run_events_outcome [OF p(1), of i] by (simp add: p(2) i)
    note s = start_one_clean [OF st(1)[unfolded o]]
    show ?thesis using s(3) st(2) collect_one_clean(2) [OF e] by (simp add: r collect_one_outcome step_outcomes o p(2) i)
  qed
  have "spread = trigger_spread (map (hu_stamp hu) (rr_ids r))" if "\<forall>i \<in> set (rr_ids r). hu_stamp hu i \<noteq> 0"
  proof -
    have "List.map_filter (\<lambda>i. case no_started_at (snd (fl1 i)) of Some t \<Rightarrow> if t \<noteq> 0 then Some t else None | None \<Rightarrow> None) ids =
        map (hu_stamp hu) ids" if "set ids \<subseteq> set (rr_ids r)" for ids
      using that node \<open>\<forall>i \<in> set (rr_ids r). hu_stamp hu i \<noteq> 0\<close> by (induction ids) (auto simp: map_filter_simps)
    then show ?thesis by (simp add: p(4))
  qed
  then show ?thesis using col ok(1,3) node c(3) by blast
qed

subsection \<open>Events and repetitions\<close>

definition accepts :: "'n rpc \<Rightarrow> bool" where
  "accepts rpc \<longleftrightarrow> (\<forall>n c. snd (rpc n c) \<noteq> None)"

text \<open>The events of a run that reach a node, in the order of their times.\<close>

definition events_of :: "manifest \<Rightarrow> real \<Rightarrow> int \<Rightarrow> scheduled_event list" where
  "events_of mf duration i = filter (\<lambda>ev. sv_at_s ev < duration \<and> i \<in> set (sv_nodes ev)) (sort_key sv_at_s (em_events mf))"

lemma apply_event_assignment:
  assumes "apply_event rpc upd ev targets (fl, A) = ((fl', A'), dn, fs)" and "accepts rpc" and "distinct targets"
  shows "map_of A' i = (if i \<in> set targets then map_option (\<lambda>a. upd a (sv_set ev)) (map_of A i) else map_of A i)"
  using assms(1,3)
proof (induction targets arbitrary: fl A fl' A' dn fs)
  case (Cons nid targets)
  show ?case
  proof (cases "map_of A nid")
    case None
    then show ?thesis using Cons by auto
  next
    case (Some a)
    obtain n' r where r: "rpc (fst (fl nid)) (Configure (upd a (sv_set ev))) = (n', Some r)"
      using assms(2) by (metis accepts_def not_Some_eq prod.exhaust_sel)
    let ?A = "AList.update nid (upd a (sv_set ev)) A"
    obtain dn' fs' where "apply_event rpc upd ev targets (fl(nid := (n', snd (fl nid))), ?A) = ((fl', A'), dn', fs')"
      using Cons.prems r by (auto simp: Some Let_def split: prod.splits)
    from Cons.IH [OF this] Cons.prems(2) show ?thesis by (auto simp: update_conv Some)
  qed
qed auto

lemma run_events_assignment:
  assumes "run_events rpc upd live ids duration k evs st = ((fl', A'), ns)" and "accepts rpc"
    and "\<forall>ev \<in> set evs. distinct (sv_nodes ev)" and "i \<in> set ids"
  shows "map_of A' i = map_option (\<lambda>a. foldl (\<lambda>a ev. upd a (sv_set ev)) a
           (filter (\<lambda>ev. sv_at_s ev < duration \<and> i \<in> set (sv_nodes ev)) evs)) (map_of (snd st) i)"
  using assms(1,3)
proof (induction evs arbitrary: k st fl' A' ns)
  case Nil
  then show ?case by (auto simp: option.map_ident)
next
  case (Cons ev evs)
  show ?case
  proof (cases "sv_at_s ev \<ge> duration")
    case True
    then show ?thesis using Cons by (auto simp: Let_def split: prod.splits)
  next
    case False
    obtain fl1 A1 dn fs where e: "apply_event rpc upd ev (filter (\<lambda>i. i \<in> set ids) (sv_nodes ev))
        (fan_out (\<lambda>i (n, x). (live k i n, x)) ids (fst st), snd st) = ((fl1, A1), dn, fs)" by (metis prod.exhaust)
    obtain ns' where "run_events rpc upd live ids duration (k + 1) evs (fl1, A1) = ((fl', A'), ns')"
      using Cons.prems False by (auto simp: e Let_def split: prod.splits)
    from Cons.IH [OF this] apply_event_assignment [OF e assms(2)] Cons.prems(2) False assms(4) show ?thesis
      by (auto simp: option.map_comp comp_def)
  qed
qed

lemma accepts_configured:
  assumes "run_fleet hu mf A agents run_name duration epoch only = Inr (ag, A', r)" and "distinct (rr_ids r)"
    and "accepts (hu_rpc hu)"
  shows "rr_collected r"
  using run_fleet_cases(3) [OF assms(1,2)] assms(3)
  by (auto simp: configure_fleet_at [OF assms(2)] configure_one_outcome accepts_def)

lemma accepts_logged: "accepts (hu_rpc hu) \<Longrightarrow> accepts (hu_rpc (logged hu))"
  by (auto simp: accepts_def logged_def split: prod.splits) (metis not_Some_eq snd_conv)

text \<open>After a run the hub's assignment of a node carries every event the run applied to it.\<close>

lemma events_persist:
  assumes "run_fleet hu mf A agents run_name duration epoch only = Inr (ag, A', r)" and "distinct (rr_ids r)"
    and "accepts (hu_rpc hu)" and "\<forall>ev \<in> set (em_events mf). distinct (sv_nodes ev)" and "i \<in> set (rr_ids r)"
  shows "map_of A' i = map_option (\<lambda>a. foldl (\<lambda>a ev. hu_update hu a (sv_set ev)) a (events_of mf duration i)) (map_of A i)"
proof -
  obtain fl' spread ns where "conduct_fleet hu mf A (rr_ids r) run_name duration epoch
      (configure_fleet hu mf A (rr_ids r) agents) = (fl', A', spread, ns)"
    using run_fleet_cases(5) [OF assms(1,2) accepts_configured [OF assms(1-3)]] by blast
  then obtain fl1 fl2 where "run_events (hu_rpc hu) (hu_update hu) (hu_live hu) (rr_ids r) duration 0
      (sort_key sv_at_s (em_events mf)) (fl1, A) = ((fl2, A'), ns)"
    by (rule conduct_fleet_phases [OF _ assms(2)]) blast
  from run_events_assignment [OF this assms(3) _ assms(5)] assms(4) show ?thesis by (simp add: events_of_def)
qed

text \<open>What one run says to a node.\<close>

definition run_script :: "string \<Rightarrow> real \<Rightarrow> hub_assignment \<Rightarrow> command list \<Rightarrow> command list" where
  "run_script run_name epoch a mid =
     [Stop, Configure a, Start run_name epoch] @ mid @ [Stop, Fetch run_name ''meta'', Fetch run_name ''rows'']"

definition after_events :: "'n hub_env \<Rightarrow> manifest \<Rightarrow> real \<Rightarrow> int \<Rightarrow> hub_assignment \<Rightarrow> hub_assignment" where
  "after_events hu mf duration i a = foldl (\<lambda>a ev. hu_update hu a (sv_set ev)) a (events_of mf duration i)"

lemma fleet_script:
  assumes "run_fleet (logged hu) mf A agents run_name duration epoch (Some ids) = Inr (ag, A', r)"
    and "distinct ids" and "i \<in> set ids" and "accepts (hu_rpc hu)"
    and "\<forall>ev \<in> set (em_events mf). distinct (sv_nodes ev)" and "map_of A i = Some a"
  shows "map_of A' i = Some (after_events hu mf duration i a) \<and>
    (\<exists>mid. list_all is_configure mid \<and> snd (ag i) = snd (agents i) @ run_script run_name epoch a mid)"
proof -
  have acc: "accepts (hu_rpc (logged hu))" by (rule accepts_logged [OF assms(4)])
  have ids: "rr_ids r = sort ids" using assms(1) by (auto simp: run_fleet_def Let_def split: if_splits prod.splits)
  then have d: "distinct (rr_ids r)" "i \<in> set (rr_ids r)" using assms(2,3) by auto
  have "rr_collected r" by (rule accepts_configured [OF assms(1) d(1) acc])
  moreover have "after_events (logged hu) mf duration i = after_events hu mf duration i"
    by (simp add: fun_eq_iff after_events_def logged_def)
  ultimately show ?thesis
    using fleet_told [OF assms(1) d] events_persist [OF assms(1) d(1) acc assms(5) d(2)] assms(6)
    by (auto simp: run_script_def after_events_def [symmetric])
qed

text \<open>A repetition is configured with what the events of the repetitions before it set: repetition
  \<open>j\<close> begins with the assignment of the first one, changed \<open>j\<close> times by the manifest's events.\<close>

theorem repeats_inherit_events:
  assumes "run_repeated (logged hu) mf base_name duration epochs (Some ids) rep k (agents, A) = Inr (ag, A', rs)"
    and "distinct ids" and "i \<in> set ids" and "accepts (hu_rpc hu)"
    and "\<forall>ev \<in> set (em_events mf). distinct (sv_nodes ev)" and "map_of A i = Some a"
  shows "\<exists>mids. (\<forall>j. list_all is_configure (mids j)) \<and>
    snd (ag i) = snd (agents i) @ concat (map (\<lambda>j. run_script (base_name @ ''-r'' @ show_nat (rep + j)) (epochs (rep + j))
      ((after_events hu mf duration i ^^ j) a) (mids j)) [0..<k])"
  using assms(1,6)
proof (induction k arbitrary: rep agents A a rs)
  case 0
  then show ?case by (auto intro: exI [of _ "\<lambda>_. []"])
next
  case (Suc k)
  let ?n = "base_name @ ''-r'' @ show_nat rep"
  obtain ag1 A1 r rs' where one: "run_fleet (logged hu) mf A agents ?n duration (epochs rep) (Some ids) = Inr (ag1, A1, r)"
    and rest: "run_repeated (logged hu) mf base_name duration epochs (Some ids) (Suc rep) k (ag1, A1) = Inr (ag, A', rs')"
    using Suc.prems(1) by (auto simp: bindR_eq_Inr)
  from fleet_script [OF one assms(2-5) Suc.prems(2)] obtain mid where
    A1: "map_of A1 i = Some (after_events hu mf duration i a)" and
    mid: "list_all is_configure mid" "snd (ag1 i) = snd (agents i) @ run_script ?n (epochs rep) a mid" by blast
  from Suc.IH [OF rest A1] obtain mids where mids: "\<forall>j. list_all is_configure (mids j)"
    "snd (ag i) = snd (ag1 i) @ concat (map (\<lambda>j. run_script (base_name @ ''-r'' @ show_nat (Suc rep + j)) (epochs (Suc rep + j))
      ((after_events hu mf duration i ^^ j) (after_events hu mf duration i a)) (mids j)) [0..<k])" by blast
  have up: "[0..<Suc k] = 0 # map Suc [0..<k]" by (simp add: upt_conv_Cons map_Suc_upt del: upt_Suc)
  show ?case
    by (rule exI [of _ "case_nat mid mids"])
      (use mid mids in \<open>auto simp: up comp_def funpow_swap1 simp del: upt_Suc split: nat.split\<close>)
qed

subsection \<open>The arms of a trial are paired\<close>

text \<open>Two assignments that agree in everything but the law and its interface.\<close>

definition paired :: "hub_assignment \<Rightarrow> hub_assignment \<Rightarrow> bool" where
  "paired a b \<longleftrightarrow> b = a\<lparr>as_controller := as_controller b, as_microgrid := as_microgrid b\<rparr> \<and>
     (\<exists>g h. as_microgrid a = Some g \<and> as_microgrid b = Some h \<and> h = g\<lparr>gb_interface := gb_interface h\<rparr>)"

text \<open>Two interfaces of the same kind that agree in everything but the field their arms set.\<close>

definition one_field_apart :: "iface_params \<Rightarrow> iface_params \<Rightarrow> bool" where
  "one_field_apart i j \<longleftrightarrow>
     (case (i, j) of
        (LcP k, LcP l) \<Rightarrow> l = k\<lparr>lp_terminal := lp_terminal l\<rparr>
      | (AdaptiveP p, AdaptiveP q) \<Rightarrow> q = p\<lparr>ap_eps := ap_eps q\<rparr>
      | _ \<Rightarrow> True)"

text \<open>What an arm says of the interface it runs.\<close>

definition arm_is :: "string \<Rightarrow> hub_assignment \<Rightarrow> bool" where
  "arm_is arm a \<longleftrightarrow>
     (case as_microgrid a of
        None \<Rightarrow> False
      | Some g \<Rightarrow>
          (case gb_interface g of
             LcP l \<Rightarrow> arm \<in> {''LC0'', ''LC+''} \<and> as_controller a = ''microgrid_lc'' \<and> lp_terminal l = (arm = ''LC0'')
           | AdaptiveP p \<Rightarrow> arm \<in> {''AA'', ''DZ''} \<and> as_controller a = ''microgrid_adaptive'' \<and>
               (if arm = ''AA'' then ap_eps p = 0 else True)))"

lemma check_same:
  "plant_check p = Inr p' \<Longrightarrow> p' = p" "virtual_check v = Inr v' \<Longrightarrow> v' = v"
  "adaptive_check a = Inr a' \<Longrightarrow> a' = a" "lc_check l = Inr l' \<Longrightarrow> l' = l"
  by (simp_all add: plant_check_def virtual_check_def adaptive_check_def lc_check_def split: if_splits)

lemma microgrid_blocks_adaptive:
  assumes "microgrid_blocks mf m node = Inr g" and "ms_interface m = ''adaptive''"
  shows "gb_interface g = AdaptiveP \<lparr>ap_gamma = ms_gamma m, ap_eps = eps_for m (ns_id node), ap_vartheta0 = ms_vartheta0 m,
    ap_mu_max = ms_mu_max m, ap_trigger = ''sigma''\<rparr>"
  using assms by (cases "ns_plant node") (auto simp: microgrid_blocks_def Let_def bindR_eq_Inr dest!: check_same)

lemma microgrid_blocks_lc:
  assumes "microgrid_blocks mf m node = Inr g" and "ms_interface m \<noteq> ''adaptive''"
  shows "gb_interface g = LcP \<lparr>lp_kappa = np_kappa (the (ns_plant node)), lp_profile = ms_profile m, lp_T_c = ms_T_c m,
    lp_beta_c = ms_beta_c m, lp_Phi = ms_Phi m, lp_terminal = ms_terminal m, lp_mu_max = ms_mu_max m, lp_p_max = ms_p_max m,
    lp_q_max = ms_q_max m, lp_delta_c = None, lp_adapt_band = ms_adapt_band m, lp_adapt_after = None\<rparr>"
  using assms by (cases "ns_plant node") (auto simp: microgrid_blocks_def Let_def bindR_eq_Inr dest!: check_same)

lemma microgrid_blocks_variant:
  assumes "microgrid_blocks mf m node = Inr g" and "microgrid_blocks mf' m' node = Inr g'"
    and "em_coordination mf' = em_coordination mf" and "m' = m\<lparr>ms_interface := i, ms_eps := e, ms_terminal := t\<rparr>"
  shows "g' = g\<lparr>gb_interface := gb_interface g'\<rparr> \<and> one_field_apart (gb_interface g) (gb_interface g')"
proof
  show "g' = g\<lparr>gb_interface := gb_interface g'\<rparr>"
    using assms by (cases "ns_plant node") (auto simp: microgrid_blocks_def Let_def bindR_eq_Inr dest!: check_same(1,2))
  show "one_field_apart (gb_interface g) (gb_interface g')"
    using microgrid_blocks_adaptive [OF assms(1)] microgrid_blocks_lc [OF assms(1)]
      microgrid_blocks_adaptive [OF assms(2)] microgrid_blocks_lc [OF assms(2)]
    by (cases "ms_interface m = ''adaptive''"; cases "ms_interface m' = ''adaptive''")
      (simp_all add: one_field_apart_def assms(4))
qed

lemma microgrid_blocks_kind:
  assumes "microgrid_blocks mf m node = Inr g"
  shows "case gb_interface g of
      LcP l \<Rightarrow> ms_interface m \<noteq> ''adaptive'' \<and> lp_terminal l = ms_terminal m
    | AdaptiveP p \<Rightarrow> ms_interface m = ''adaptive'' \<and> ap_eps p = eps_for m (ns_id node)"
  using microgrid_blocks_adaptive [OF assms] microgrid_blocks_lc [OF assms]
  by (cases "ms_interface m = ''adaptive''") simp_all

lemma arm_manifest_parts:
  assumes "arm_manifest mf arm = Inr m"
  obtains mg i e t where "cs_microgrid (em_controller mf) = Some mg" "arm \<in> set ARMS"
    "m = mf\<lparr>em_controller := (em_controller mf)\<lparr>cs_name := (if arm = ''AA'' \<or> arm = ''DZ'' then ''microgrid_adaptive'' else ''microgrid_lc''),
        cs_microgrid := Some (mg\<lparr>ms_interface := i, ms_eps := e, ms_terminal := t\<rparr>)\<rparr>\<rparr>"
    "i = (if arm = ''AA'' \<or> arm = ''DZ'' then ''adaptive'' else ''lc'')" "arm = ''AA'' \<longrightarrow> e = EpsAll 0"
    "i = ''lc'' \<longrightarrow> t = (arm = ''LC0'')"
proof -
  obtain mg where mg: "cs_microgrid (em_controller mf) = Some mg" "arm \<in> set ARMS"
    using assms by (auto simp: arm_manifest_def split: if_splits option.splits)
  let ?ad = "arm = ''AA'' \<or> arm = ''DZ''"
  show ?thesis
  proof (rule that [OF mg, where i = "if ?ad then ''adaptive'' else ''lc''" and e = "if arm = ''AA'' then EpsAll 0 else ms_eps mg"
      and t = "if ?ad then ms_terminal mg else arm = ''LC0''"])
    show "m = mf\<lparr>em_controller := (em_controller mf)\<lparr>cs_name := if ?ad then ''microgrid_adaptive'' else ''microgrid_lc'',
        cs_microgrid := Some (mg\<lparr>ms_interface := if ?ad then ''adaptive'' else ''lc'',
          ms_eps := if arm = ''AA'' then EpsAll 0 else ms_eps mg, ms_terminal := if ?ad then ms_terminal mg else arm = ''LC0''\<rparr>)\<rparr>\<rparr>"
      using assms mg by (auto simp: arm_manifest_def manifest_check_eq Let_def)
  qed auto
qed

lemma assignment_for_grid:
  assumes "assignment_for np m j run = Inr a" and "cs_microgrid (em_controller m) = Some mg"
  obtains node g where "em_by_id m j = Some node" "microgrid_blocks m mg node = Inr g" "as_microgrid a = Some g"
    "a = assignment.extend \<lparr>as_node = ns_id node, as_type = ns_type node, as_enabled = ns_enabled node,
              as_neighbors = ns_neighbors node, as_dt = cs_dt_s (em_controller m), as_publish_period = ns_publish_period_s node,
              as_max_age = None, as_controller = cs_name (em_controller m),
              as_state = 0, as_vstate = 0, as_vartheta = 0, as_eta = 5 / 10 ^ 5, as_gain_ij = 1 / 10, as_alpha = 1 / 2,
              as_delta = 1 / 100, as_disturbance = disturbance_dict (fp_dist (scalar_defaults 0)),
              as_seed = node_seed np (em_seed m) run (ns_id node) ''disturbance'', as_microgrid = Some g\<rparr>
       \<lparr>ha_radio = radio_dump (em_radio m), ha_manifest_name = em_name m, ha_run_seed = em_seed m, ha_run_index = run\<rparr>"
proof -
  obtain node where n: "em_by_id m j = Some node"
    using assms(1) by (cases "em_by_id m j") (auto simp: assignment_for_def)
  obtain g where g: "microgrid_blocks m mg node = Inr g"
    using assms by (auto simp: assignment_for_def n bindR_eq_Inr controller_params_for_def Let_def)
  show ?thesis
    by (rule that [OF n g])
      (use assms in \<open>auto simp: assignment_for_def n bindR_eq_Inr controller_params_for_def Let_def g assignment_check_def
         assignment.defs scalar_defaults_def split: if_splits\<close>)
qed

lemma arm_isI:
  assumes "as_microgrid a = Some g" and "arm \<in> set ARMS"
    and "as_controller a = (if arm = ''AA'' \<or> arm = ''DZ'' then ''microgrid_adaptive'' else ''microgrid_lc'')"
    and "i = (if arm = ''AA'' \<or> arm = ''DZ'' then ''adaptive'' else ''lc'')" and "arm = ''AA'' \<longrightarrow> e = EpsAll 0"
    and "i = ''lc'' \<longrightarrow> t = (arm = ''LC0'')"
    and "microgrid_blocks mf (mg\<lparr>ms_interface := i, ms_eps := e, ms_terminal := t\<rparr>) node = Inr g"
  shows "arm_is arm a"
proof (cases "arm = ''AA'' \<or> arm = ''DZ''")
  case True
  then show ?thesis
    using microgrid_blocks_adaptive [OF assms(7)] assms(1,3,4,5) by (auto simp: arm_is_def eps_for_def)
next
  case False
  moreover from this have "arm \<in> {''LC0'', ''LC+''}" using assms(2) by (auto simp: ARMS_def)
  ultimately show ?thesis
    using microgrid_blocks_lc [OF assms(7)] assms(1,3,4,6) by (simp add: arm_is_def)
qed

lemma arms_paired_one:
  assumes "arm_manifest mf x = Inr m1" and "arm_manifest mf y = Inr m2"
    and "assignment_for np m1 j run = Inr a" and "assignment_for np m2 j run = Inr b"
  shows "paired a b \<and> arm_is x a \<and> arm_is y b \<and>
    one_field_apart (gb_interface (the (as_microgrid a))) (gb_interface (the (as_microgrid b)))"
proof (rule arm_manifest_parts [OF assms(1)], rule arm_manifest_parts [OF assms(2)])
  fix mg mg' :: microgrid_spec and i i' :: string and e e' :: eps_spec and t t' :: bool
  let ?m = "mg\<lparr>ms_interface := i, ms_eps := e, ms_terminal := t\<rparr>" and ?m' = "mg'\<lparr>ms_interface := i', ms_eps := e', ms_terminal := t'\<rparr>"
  assume x: "cs_microgrid (em_controller mf) = Some mg" "x \<in> set ARMS"
    "m1 = mf\<lparr>em_controller := (em_controller mf)\<lparr>cs_name := (if x = ''AA'' \<or> x = ''DZ'' then ''microgrid_adaptive'' else ''microgrid_lc''),
        cs_microgrid := Some ?m\<rparr>\<rparr>"
    "i = (if x = ''AA'' \<or> x = ''DZ'' then ''adaptive'' else ''lc'')" "x = ''AA'' \<longrightarrow> e = EpsAll 0" "i = ''lc'' \<longrightarrow> t = (x = ''LC0'')"
  assume y: "cs_microgrid (em_controller mf) = Some mg'" "y \<in> set ARMS"
    "m2 = mf\<lparr>em_controller := (em_controller mf)\<lparr>cs_name := (if y = ''AA'' \<or> y = ''DZ'' then ''microgrid_adaptive'' else ''microgrid_lc''),
        cs_microgrid := Some ?m'\<rparr>\<rparr>"
    "i' = (if y = ''AA'' \<or> y = ''DZ'' then ''adaptive'' else ''lc'')" "y = ''AA'' \<longrightarrow> e' = EpsAll 0" "i' = ''lc'' \<longrightarrow> t' = (y = ''LC0'')"
  have mg: "mg' = mg" using x(1) y(1) by simp
  have gm: "cs_microgrid (em_controller m1) = Some ?m" "cs_microgrid (em_controller m2) = Some ?m'" by (simp_all add: x(3) y(3))
  have ids: "em_by_id m1 = em_by_id mf" "em_by_id m2 = em_by_id mf" by (simp_all add: x(3) y(3) em_by_id_def fun_eq_iff)
  show ?thesis
  proof (rule assignment_for_grid [OF assms(3) gm(1)], rule assignment_for_grid [OF assms(4) gm(2)], goal_cases)
    case (1 node g node' h)
    have node: "node' = node" using 1(1,5) by (simp add: ids)
    have v: "?m' = ?m\<lparr>ms_interface := i', ms_eps := e', ms_terminal := t'\<rparr>" by (simp add: mg)
    have co: "em_coordination m2 = em_coordination m1" by (simp add: x(3) y(3))
    note gh = microgrid_blocks_variant [OF 1(2) 1(6)[unfolded node] co v]
    have cs: "as_controller a = cs_name (em_controller m1)" "as_controller b = cs_name (em_controller m2)"
      by (simp_all add: 1(4,8) assignment.defs)
    have "b = a\<lparr>as_controller := as_controller b, as_microgrid := as_microgrid b\<rparr>"
      unfolding cs 1(7) by (simp add: 1(4,8) node x(3) y(3) assignment.defs)
    moreover have "arm_is x a"
      by (rule arm_isI [OF 1(3) x(2) _ x(4-6) 1(2)]) (simp_all add: cs(1) x(3))
    moreover have "arm_is y b"
      by (rule arm_isI [OF 1(7) y(2) _ y(4-6) 1(6)]) (simp_all add: cs(2) y(3))
    ultimately show ?thesis using gh by (simp add: paired_def 1(3,7))
  qed
qed

text \<open>C22: The assignments of two arms of a trial agree, node by node, in everything but the law's name and
  its interface (same seeds, initial conditions, plant, virtual layer and neighbours); each runs the
  interface its arm names, and two arms of one interface differ in one field of it.\<close>

theorem arms_paired:
  assumes "set_arm np mf run x = Inr A" and "set_arm np mf run y = Inr B"
  shows "list_all2 (\<lambda>(i, a) (j, b). i = j \<and> paired a b \<and> arm_is x a \<and> arm_is y b \<and>
      one_field_apart (gb_interface (the (as_microgrid a))) (gb_interface (the (as_microgrid b)))) A B"
proof -
  obtain m1 m2 where m: "arm_manifest mf x = Inr m1" "arm_manifest mf y = Inr m2"
      "assignments_for np m1 run = Inr A" "assignments_for np m2 run = Inr B"
    using assms by (auto simp: set_arm_def bindR_eq_Inr)
  have nodes: "em_nodes m1 = em_nodes mf" "em_nodes m2 = em_nodes mf"
    by (rule arm_manifest_parts [OF m(1)], simp, rule arm_manifest_parts [OF m(2)], simp)
  have "list_all2 (\<lambda>(i, a) (j, b). i = j \<and> paired a b \<and> arm_is x a \<and> arm_is y b \<and>
      one_field_apart (gb_interface (the (as_microgrid a))) (gb_interface (the (as_microgrid b)))) A B"
    if "traverse (\<lambda>n. bindR (assignment_for np m1 (ns_id n) run) (\<lambda>a. Inr (ns_id n, a))) ns = Inr A"
       "traverse (\<lambda>n. bindR (assignment_for np m2 (ns_id n) run) (\<lambda>a. Inr (ns_id n, a))) ns = Inr B" for ns
    using that arms_paired_one [OF m(1,2)] by (induction ns arbitrary: A B) (auto simp: bindR_eq_Inr)
  then show ?thesis using m(3,4) by (simp add: assignments_for_def nodes)
qed

subsection \<open>Properties and witnesses\<close>

text \<open>C10: What a node is told in one run of the hub: a stop and its configuration, and if every node of the
  run was configured, the start with the epoch of the run, configurations only, a stop and the two
  fetches, in this order. If one node was not configured, no node is started.\<close>

theorem fleet_phase_order:
  assumes "run_fleet (logged hu) mf A agents run_name duration epoch only = Inr (ag, A', r)"
    and "distinct (rr_ids r)" and "i \<in> set (rr_ids r)"
  shows "\<exists>a mid. map_of A i = Some a \<and> list_all is_configure mid \<and>
     (rr_collected r \<longleftrightarrow> (\<forall>j \<in> set (rr_ids r). no_configured (rr_nodes r j))) \<and>
     snd (ag i) = snd (agents i) @ [Stop, Configure a] @
       (if rr_collected r then [Start run_name epoch] @ mid @ [Stop, Fetch run_name ''meta'', Fetch run_name ''rows''] else [])"
  by (rule fleet_told [OF assms])

text \<open>A hub over agents that are a flag: one whose flag is off refuses to be configured.\<close>

definition demo_hub :: "bool hub_env" where
  "demo_hub =
     \<lparr>hu_rpc = (\<lambda>n c. (n, case c of
          Configure a \<Rightarrow> if n then Some (Data []) else None
        | Fetch _ x \<Rightarrow> Some (Blob x [7])
        | _ \<Rightarrow> Some (Data [(''samples'', JInt 3)]))),
      hu_update = (\<lambda>a upd. a\<lparr>as_dt := as_dt a + 1\<rparr>), hu_live = (\<lambda>k i n. n), hu_stamp = (\<lambda>i. 5 + of_int i)\<rparr>"

definition willing_hub :: "bool hub_env" where
  "willing_hub = demo_hub\<lparr>hu_rpc := (\<lambda>n c. hu_rpc demo_hub True c)\<rparr>"

definition demo_event :: scheduled_event where
  "demo_event = \<lparr>sv_at_s = 4, sv_nodes = [1], sv_set = [(''dt_s'', DFloat 1)]\<rparr>"

definition demo_assigned :: hub_assignment where
  "demo_assigned =
     \<lparr>as_node = 1, as_type = WIFI, as_enabled = True, as_neighbors = [], as_dt = 1, as_publish_period = 1, as_max_age = None,
      as_controller = ''finite_time'', as_state = 0, as_vstate = 0, as_vartheta = 0, as_eta = 0, as_gain_ij = 0, as_alpha = 1,
      as_delta = 0, as_disturbance = [], as_seed = 0, as_microgrid = None, ha_radio = [], ha_manifest_name = ''demo'',
      ha_run_seed = 0, ha_run_index = 0\<rparr>"

lemma demo_event_facts [simp]: "sv_at_s demo_event = 4" "sv_nodes demo_event = [1]" "sv_set demo_event \<noteq> []"
  by (simp_all add: demo_event_def)

lemmas demo_run_simps =
  run_fleet_def configure_fleet_def conduct_fleet_def fan_out_def clear_stale_def configure_one_def start_one_def
  stop_one_def collect_one_def fetch_one_def ARTIFACTS_def demo_hub_def willing_hub_def logged_def outcome_new_def
  add_error_def samples_of_def Let_def

text \<open>Node 2 refuses: node 1, which was configured, is not started.\<close>

theorem fleet_phase_order_witness:
  "\<exists>ag r. run_fleet (logged demo_hub) demo_manifest [(1, demo_assigned), (2, demo_assigned)] (\<lambda>i. (i = 1, [])) ''run'' 10 100 None
      = Inr (ag, [(1, demo_assigned), (2, demo_assigned)], r) \<and> snd (ag 1) = [Stop, Configure demo_assigned]"
proof -
  obtain ag r where r: "run_fleet (logged demo_hub) demo_manifest [(1, demo_assigned), (2, demo_assigned)] (\<lambda>i. (i = 1, [])) ''run'' 10 100 None
      = Inr (ag, [(1, demo_assigned), (2, demo_assigned)], r)" "rr_ids r = [1, 2]" "\<not> rr_collected r"
    by (simp add: demo_run_simps)
  have "distinct (rr_ids r)" "1 \<in> set (rr_ids r)" by (simp_all add: r(2))
  from fleet_phase_order [OF r(1) this] r(1,3) show ?thesis by auto
qed

theorem report_ok_complete_witness:
  "\<exists>ag A r. run_fleet willing_hub demo_manifest [(1, demo_assigned), (2, demo_assigned)] (\<lambda>i. True) ''run'' 10 100 None = Inr (ag, A, r) \<and>
     rr_collected r \<and> no_stopped (rr_nodes r 1) \<and> rr_spread r = trigger_spread [6, 7]"
proof -
  obtain ag A r where r: "run_fleet willing_hub demo_manifest [(1, demo_assigned), (2, demo_assigned)] (\<lambda>i. True) ''run'' 10 100 None
      = Inr (ag, A, r)" "rr_ids r = [1, 2]" "report_all_ok r"
    by (simp add: demo_run_simps demo_manifest_def report_all_ok_def outcome_ok_def)
  have "distinct (rr_ids r)" by (simp add: r(2))
  from report_ok_complete [OF r(1) this r(3)] r(1,2) show ?thesis by (simp add: willing_hub_def demo_hub_def)
qed

text \<open>With the event, the second repetition is configured with what the event set in the first.\<close>

theorem repeats_inherit_events_witness:
  "\<exists>ag A rs mids. run_repeated (logged willing_hub) (demo_manifest\<lparr>em_events := [demo_event]\<rparr>) ''run'' 10 (\<lambda>n. 100) (Some [1]) 0 2
      (\<lambda>i. (True, []), [(1, demo_assigned)]) = Inr (ag, A, rs) \<and>
    snd (ag 1) = run_script ''run-r0'' 100 demo_assigned (mids 0) @ run_script ''run-r1'' 100 (demo_assigned\<lparr>as_dt := 2\<rparr>) (mids (1 :: nat))"
proof -
  let ?mf = "demo_manifest\<lparr>em_events := [demo_event]\<rparr>"
  obtain ag A rs where r: "run_repeated (logged willing_hub) ?mf ''run'' 10 (\<lambda>n. 100) (Some [1]) 0 2
      (\<lambda>i. (True, []), [(1, demo_assigned)]) = Inr (ag, A, rs)"
    by (simp add: demo_run_simps numeral_2_eq_2 bindR_eq_Inr)
  have nat01: "show_nat 0 = ''0''" "show_nat (Suc 0) = ''1''" by code_simp+
  have acc: "accepts (hu_rpc willing_hub)" by (auto simp: accepts_def willing_hub_def demo_hub_def split: command.splits)
  have ev: "after_events willing_hub ?mf 10 1 demo_assigned = demo_assigned\<lparr>as_dt := 2\<rparr>"
    by (simp add: after_events_def events_of_def willing_hub_def demo_hub_def demo_assigned_def)
  from repeats_inherit_events [OF r _ _ acc, of 1 demo_assigned] obtain mids where
    "snd (ag 1) = concat (map (\<lambda>j. run_script (''run-r'' @ show_nat (0 + j)) 100
      ((after_events willing_hub ?mf 10 1 ^^ j) demo_assigned) (mids j)) [0..<2])"
    by auto
  then have "snd (ag 1) = run_script ''run-r0'' 100 demo_assigned (mids 0) @ run_script ''run-r1'' 100 (demo_assigned\<lparr>as_dt := 2\<rparr>) (mids 1)"
    by (simp add: numeral_2_eq_2 ev nat01)
  then show ?thesis using r by blast
qed

lemmas demo_arm_simps =
  result_simps demo_manifest_def demo_node_def demo_grid_spec_def node_spec_check_def demo_ips no_self_loop_or_dupes_def
  node_plant_check_def controller_spec_check_def disturbance_spec_check_def microgrid_spec_check_def radio_spec_check_def
  in_range_def coordination_check_def coherent_def em_ids_def MAX_NODE_ID_def assignments_for_def assignment_for_def
  em_by_id_def controller_params_for_def microgrid_blocks_def plant_check_def virtual_check_def adaptive_check_def lc_check_def
  PROFILES_def TRIGGERS_def dict_get_def eps_for_def Let_def assignment_check_def scalar_defaults_def assignment.defs

lemma demo_arms:
  "\<exists>a b c. set_arm demo_numpy demo_manifest 0 ''AA'' = Inr [(1, a), (2, b), (3, c)]"
  "\<exists>a b c. set_arm demo_numpy demo_manifest 0 ''LC0'' = Inr [(1, a), (2, b), (3, c)]"
proof -
  have "arm_manifest demo_manifest ''AA'' = Inr (demo_manifest\<lparr>em_controller := (em_controller demo_manifest)
      \<lparr>cs_name := ''microgrid_adaptive'', cs_microgrid := Some (demo_grid_spec\<lparr>ms_interface := ''adaptive'', ms_eps := EpsAll 0\<rparr>)\<rparr>\<rparr>)"
    by (simp add: arm_manifest_def ARMS_def demo_arm_simps)
  then show "\<exists>a b c. set_arm demo_numpy demo_manifest 0 ''AA'' = Inr [(1, a), (2, b), (3, c)]"
    by (simp add: set_arm_def demo_arm_simps)
  have "arm_manifest demo_manifest ''LC0'' = Inr (demo_manifest\<lparr>em_controller := (em_controller demo_manifest)
      \<lparr>cs_name := ''microgrid_lc'', cs_microgrid := Some (demo_grid_spec\<lparr>ms_interface := ''lc'', ms_terminal := True\<rparr>)\<rparr>\<rparr>)"
    by (simp add: arm_manifest_def ARMS_def demo_arm_simps)
  then show "\<exists>a b c. set_arm demo_numpy demo_manifest 0 ''LC0'' = Inr [(1, a), (2, b), (3, c)]"
    by (simp add: set_arm_def demo_arm_simps)
qed

theorem arms_paired_witness:
  "\<exists>a b c a' b' c'. set_arm demo_numpy demo_manifest 0 ''AA'' = Inr [(1, a), (2, b), (3, c)] \<and>
     set_arm demo_numpy demo_manifest 0 ''LC0'' = Inr [(1, a'), (2, b'), (3, c')] \<and>
     as_seed a = as_seed a' \<and> as_controller a = ''microgrid_adaptive'' \<and> as_controller a' = ''microgrid_lc''"
proof -
  obtain a b c a' b' c' where AB: "set_arm demo_numpy demo_manifest 0 ''AA'' = Inr [(1, a), (2, b), (3, c)]"
      "set_arm demo_numpy demo_manifest 0 ''LC0'' = Inr [(1, a'), (2, b'), (3, c')]"
    using demo_arms by blast
  from arms_paired [OF AB] have p: "paired a a'" "arm_is ''AA'' a" "arm_is ''LC0'' a'" by auto
  have "as_seed a' = as_seed (a\<lparr>as_controller := as_controller a', as_microgrid := as_microgrid a'\<rparr>)"
    using p(1) unfolding paired_def by metis
  moreover have "as_controller a = ''microgrid_adaptive''" "as_controller a' = ''microgrid_lc''"
    using p(2,3) by (auto simp: arm_is_def split: option.splits iface_params.splits)
  ultimately show ?thesis using AB by auto
qed

end
