(* ===== verification/Fleet.thy ===== *)
theory Fleet
  imports Runner ServiceRuns
begin

section \<open>The hub over agent services\<close>

text \<open>
  The hub's runner of \<open>Runner\<close> with an agent service of \<open>Service\<close> behind every node. \<open>host_node\<close> is
  a service with the host's two clocks (wall and monotonic). \<open>node_rpc\<close> is a call of the control
  client that reaches the service (by \<open>remote_call\<close> of \<open>Control\<close> the client returns the handler's
  answer); \<open>node_live\<close> is the control loop between two visits of the hub, its inputs a parameter.
\<close>

record ('g, 't, 'l) host_node =
  hn_svc :: "('g, 't, 'l) service"
  hn_now :: real
  hn_mt :: real

definition command_args :: "(hub_assignment \<Rightarrow> jdict) \<Rightarrow> command \<Rightarrow> string \<times> jdict" where
  "command_args dump c =
     (case c of
        Status \<Rightarrow> (''status'', [])
      | Configure a \<Rightarrow> (''configure'', dump a)
      | Start run_name epoch \<Rightarrow> (''start'', [(''run_name'', JStr run_name), (''epoch_unix_s'', JFloat epoch)])
      | Stop \<Rightarrow> (''stop'', [])
      | Fetch run_name x \<Rightarrow> (''fetch'', [(''run_name'', JStr run_name), (''artifact'', JStr x)]))"

definition answer_of :: "(response \<times> bytes option) result \<Rightarrow> reply option" where
  "answer_of r =
     (case r of
        Inl e \<Rightarrow> None
      | Inr (resp, None) \<Rightarrow> Some (Data (rp_data resp))
      | Inr (resp, Some b) \<Rightarrow> Some (Blob (rp_name resp) b))"

definition node_rpc ::
  "('g, 't, 'l) host \<Rightarrow> int \<Rightarrow> (hub_assignment \<Rightarrow> jdict) \<Rightarrow> ('g, 't, 'l) host_node rpc" where
  "node_rpc ho port dump n c =
     (let (name, args) = command_args dump c in
      case map_of (svc_handlers ho port (hn_now n) (hn_mt n)) name of
        None \<Rightarrow> (n, None)
      | Some h \<Rightarrow> (case h (hn_svc n) args of (s', r) \<Rightarrow> (n\<lparr>hn_svc := s'\<rparr>, answer_of r)))"

text \<open>The inputs of the ticks and the clocks after them; a tick that raises ends the loop, and what it
  leaves is the fallback.\<close>

definition node_live ::
  "('g, 't, 'l) host \<Rightarrow> (nat \<Rightarrow> int \<Rightarrow> tick_input list \<times> real \<times> real) \<Rightarrow>
   (('g, 't, 'l) service \<Rightarrow> ('g, 't, 'l) service) \<Rightarrow> nat \<Rightarrow> int \<Rightarrow> ('g, 't, 'l) host_node \<Rightarrow> ('g, 't, 'l) host_node" where
  "node_live ho inputs raised k i n =
     (let (xs, now, mt) = inputs k i in
      \<lparr>hn_svc = (case svc_ticks ho (hn_svc n) xs of Inr (s', ps) \<Rightarrow> s' | Inl e \<Rightarrow> raised (hn_svc n)), hn_now = now, hn_mt = mt\<rparr>)"

definition service_hub ::
  "('g, 't, 'l) host \<Rightarrow> int \<Rightarrow> (hub_assignment \<Rightarrow> jdict) \<Rightarrow> (hub_assignment \<Rightarrow> (string \<times> dval) list \<Rightarrow> hub_assignment) \<Rightarrow>
   (nat \<Rightarrow> int \<Rightarrow> tick_input list \<times> real \<times> real) \<Rightarrow> (('g, 't, 'l) service \<Rightarrow> ('g, 't, 'l) service) \<Rightarrow> (int \<Rightarrow> real) \<Rightarrow>
   ('g, 't, 'l) host_node hub_env" where
  "service_hub ho port dump upd inputs raised stamp =
     \<lparr>hu_rpc = node_rpc ho port dump, hu_update = upd, hu_live = node_live ho inputs raised, hu_stamp = stamp\<rparr>"

lemma node_rpc_simps [simp]:
  "node_rpc ho port dump n Stop = (case svc_stop ho (hn_now n) (hn_svc n) [] of (s', r) \<Rightarrow> (n\<lparr>hn_svc := s'\<rparr>, answer_of r))"
  "node_rpc ho port dump n (Start run_name epoch) =
     (case svc_start ho (hn_now n) (hn_mt n) (hn_svc n) [(''run_name'', JStr run_name), (''epoch_unix_s'', JFloat epoch)] of
        (s', r) \<Rightarrow> (n\<lparr>hn_svc := s'\<rparr>, answer_of r))"
  "node_rpc ho port dump n (Fetch run_name x) =
     (case svc_fetch ho (hn_svc n) [(''run_name'', JStr run_name), (''artifact'', JStr x)] of
        (s', r) \<Rightarrow> (n\<lparr>hn_svc := s'\<rparr>, answer_of r))"
  "node_rpc ho port dump n (Configure a) =
     (case svc_configure ho (hn_svc n) (dump a) of (s', r) \<Rightarrow> (n\<lparr>hn_svc := s'\<rparr>, answer_of r))"
  by (simp_all add: node_rpc_def command_args_def svc_handlers_def)

lemma answer_of_eq [simp]:
  "answer_of r = None \<longleftrightarrow> (\<exists>e. r = Inl e)"
  "answer_of r = Some (Data d) \<longleftrightarrow> (\<exists>resp. r = Inr (resp, None) \<and> d = rp_data resp)"
  "answer_of r = Some (Blob name b) \<longleftrightarrow> (\<exists>resp. r = Inr (resp, Some b) \<and> name = rp_name resp)"
  by (auto simp: answer_of_def split: sum.splits prod.splits option.splits)

lemma answer_of_Inr [simp]:
  "answer_of (Inl e) = None"
  "answer_of (Inr (resp, None)) = Some (Data (rp_data resp))" "answer_of (Inr (resp, Some b)) = Some (Blob (rp_name resp) b)"
  by (simp_all add: answer_of_def)

subsection \<open>What a call leaves alone\<close>

lemma fetch_keeps: "fst (svc_fetch ho s args) = s"
  by (simp add: svc_fetch_def Let_def split: option.splits)

lemma artefact_suffix_nonempty [simp]: "artefact_suffix x \<noteq> []"
  by (simp add: artefact_suffix_def)

lemma fetch_named:
  "svc_fetch ho s args = (s', Inr (resp, bo)) \<Longrightarrow> rp_name resp \<noteq> []"
  by (auto simp: svc_fetch_def Let_def split: option.splits if_splits)

lemma stop_answers_data: "svc_stop ho now s args = (s', Inr (resp, bo)) \<Longrightarrow> bo = None"
  by (auto simp: svc_stop_def finish_run_def stopped_def Let_def split: if_splits option.splits prod.splits sum.splits)

lemma start_one_node:
  assumes "no_errors (snd (start_one (node_rpc ho port dump) run_name epoch stamp st)) = []"
  obtains s1 r1 where "svc_start ho (hn_now (fst st)) (hn_mt (fst st)) (hn_svc (fst st))
      [(''run_name'', JStr run_name), (''epoch_unix_s'', JFloat epoch)] = (s1, Inr r1)"
    "hn_svc (fst (start_one (node_rpc ho port dump) run_name epoch stamp st)) = s1"
    "no_files (snd (start_one (node_rpc ho port dump) run_name epoch stamp st)) = no_files (snd st)"
    "no_blobs (snd (start_one (node_rpc ho port dump) run_name epoch stamp st)) = no_blobs (snd st)"
proof -
  obtain s1 r where s1: "svc_start ho (hn_now (fst st)) (hn_mt (fst st)) (hn_svc (fst st))
      [(''run_name'', JStr run_name), (''epoch_unix_s'', JFloat epoch)] = (s1, r)" by fastforce
  then show ?thesis using assms that by (cases r) (auto simp: start_one_def split: option.splits)
qed

lemma stop_one_node:
  assumes "no_errors (snd (stop_one (node_rpc ho port dump) st)) = []"
  obtains s1 resp bo where "svc_stop ho (hn_now (fst st)) (hn_svc (fst st)) [] = (s1, Inr (resp, bo))"
    "hn_svc (fst (stop_one (node_rpc ho port dump) st)) = s1"
    "no_samples (snd (stop_one (node_rpc ho port dump) st)) = samples_of (the (answer_of (Inr (resp, bo))))"
    "no_files (snd (stop_one (node_rpc ho port dump) st)) = no_files (snd st)"
    "no_blobs (snd (stop_one (node_rpc ho port dump) st)) = no_blobs (snd st)"
proof -
  obtain s1 r where s1: "svc_stop ho (hn_now (fst st)) (hn_svc (fst st)) [] = (s1, r)" by fastforce
  then show ?thesis using assms that by (cases r) (auto simp: stop_one_def split: option.splits)
qed

lemma fetch_one_node:
  assumes "svc_fetch ho (hn_svc (fst st)) [(''run_name'', JStr run_name), (''artifact'', JStr x)] = (s1, Inr (resp, Some b))"
    and "rp_name resp \<noteq> []"
  shows "hn_svc (fst (fetch_one (node_rpc ho port dump) run_name i st x)) = hn_svc (fst st)"
    "no_samples (snd (fetch_one (node_rpc ho port dump) run_name i st x)) = no_samples (snd st)"
    "no_files (snd (fetch_one (node_rpc ho port dump) run_name i st x)) = AList.update x (rp_name resp) (no_files (snd st))"
    "no_blobs (snd (fetch_one (node_rpc ho port dump) run_name i st x)) = AList.update (rp_name resp) b (no_blobs (snd st))"
  using assms fetch_keeps [of ho "hn_svc (fst st)" "[(''run_name'', JStr run_name), (''artifact'', JStr x)]"]
  by (auto simp: fetch_one_def Let_def)

subsection \<open>A run of the fleet is recorded\<close>

lemma add_error_samples [simp]: "no_samples (add_error p x) = no_samples x" "no_blobs (add_error p x) = no_blobs x"
  by (simp_all add: add_error_def)

text \<open>One node after the barrier, phase by phase: start, the control loop, stop, fetch of both artefacts.\<close>

lemma node_run_collected:
  assumes start: "st1 = start_one (node_rpc ho port dump) run_name epoch stamp st0"
    and live: "fst st2 = node_live ho inputs raised 0 i (fst st1)" "snd st2 = snd st1"
    and coll: "st4 = collect_one (node_rpc ho port dump) run_name i (stop_one (node_rpc ho port dump) st2)"
    and ok: "no_errors (snd st4) = []" and name: "run_name \<noteq> []" and loc: "\<not> is_relay (hn_svc (fst st0))"
    and ticks: "inputs 0 i = (xs, now, mt)" "svc_ticks ho (hn_svc (fst st1)) xs = Inr (s2, ps)"
  shows "\<exists>a ag t m ss blob path mpath. sw_assignment (hn_svc (fst st1)) = Some a \<and> sw_agent (hn_svc (fst st1)) = Some (ag, t) \<and>
     run_samples ho ag xs = Inr ss \<and> length ss = length xs \<and> no_samples (snd st4) = int (length xs) \<and>
     map_of (no_files (snd st4)) ''meta'' = Some mpath \<and> map_of (no_blobs (snd st4)) mpath = Some (ho_render ho (MetaFile m)) \<and>
     describes m a run_name (length xs) \<and> map_of (no_files (snd st4)) ''rows'' = Some path \<and>
     map_of (no_blobs (snd st4)) path = Some blob \<and> recover_rows m blob = Inr (map (sample_row m) ss)"
proof -
  let ?args = "[(''run_name'', JStr run_name), (''epoch_unix_s'', JFloat epoch)]"
  let ?f = "\<lambda>x. [(''run_name'', JStr run_name), (''artifact'', JStr x)]"
  let ?st3 = "stop_one (node_rpc ho port dump) st2"
  have mem: "''meta'' \<in> set ARTIFACTS" "''rows'' \<in> set ARTIFACTS" by (simp_all add: ARTIFACTS_def)
  note clean3 = collect_one_clean(1) [OF ok[unfolded coll] mem(1)]
  note clean2 = stop_one_clean [OF clean3]
  note clean1 = clean2(1)[unfolded live(2) start]
  obtain s1 r1 where s1: "svc_start ho (hn_now (fst st0)) (hn_mt (fst st0)) (hn_svc (fst st0)) ?args = (s1, Inr r1)"
      "hn_svc (fst st1) = s1"
    using start_one_node [OF clean1] start by metis
  have n2: "hn_svc (fst st2) = s2" "hn_now (fst st2) = now" using ticks by (simp_all add: live(1) node_live_def)
  obtain s3 resp bo where s3: "svc_stop ho now s2 [] = (s3, Inr (resp, bo))" "hn_svc (fst ?st3) = s3"
      "no_samples (snd ?st3) = samples_of (the (answer_of (Inr (resp, bo))))"
    using stop_one_node [OF clean3] n2 by metis
  have arg: "str_arg ho ?args ''run_name'' ''run'' = run_name" using name by (simp add: str_arg_def)
  have f: "map_of (?f ''rows'') ''run_name'' = Some (JStr (str_arg ho ?args ''run_name'' ''run''))"
    "map_of (?f ''rows'') ''artifact'' = Some (JStr ''rows'')" by (simp_all add: arg)
  have g: "map_of (?f ''meta'') ''run_name'' = Some (JStr (str_arg ho ?args ''run_name'' ''run''))"
    "map_of (?f ''meta'') ''artifact'' = Some (JStr ''meta'')" by (simp_all add: arg)
  note rec = local_run_records [OF s1(1) loc ticks(2)[unfolded s1(2)] s3(1) f g, unfolded fst_conv]
  obtain a ag t m ss blob rows meta where rows: "sw_agent s1 = Some (ag, t)" "run_samples ho ag xs = Inr ss" "length ss = length xs"
      "map_of (rp_data resp) ''samples'' = Some (JInt (int (length xs)))"
      "svc_fetch ho s3 (?f ''rows'') = (s3, Inr (rows, Some blob))" "recover_rows m blob = Inr (map (sample_row m) ss)"
    and meta: "sw_assignment s1 = Some a" "describes m a run_name (length xs)"
      "svc_fetch ho s3 (?f ''meta'') = (s3, Inr (meta, Some (ho_render ho (MetaFile m))))"
    and names: "rp_name rows = str_int (as_node a) @ ''.bin''" "rp_name meta = str_int (as_node a) @ ''.meta.json''"
    using rec unfolding arg by (elim exE conjE) (rule that)
  have nr: "rp_name rows \<noteq> []" "rp_name meta \<noteq> []" "rp_name rows \<noteq> rp_name meta" by (simp_all add: names)
  let ?m = "fetch_one (node_rpc ho port dump) run_name i ?st3 ''meta''"
  have st4: "st4 = fetch_one (node_rpc ho port dump) run_name i ?m ''rows''" by (simp add: coll collect_one_def ARTIFACTS_def)
  note fm = fetch_one_node [where st = "?st3" and port = port and dump = dump and i = i, OF meta(3)[folded s3(2)] nr(2)]
  have m: "hn_svc (fst ?m) = s3" by (simp add: fm(1) s3(2))
  have bo: "bo = None" using s3(1) by (rule stop_answers_data)
  note fo = fetch_one_node [where st = "?m" and port = port and dump = dump and i = i, OF rows(5)[folded m] nr(1)]
  have "no_samples (snd st4) = int (length xs)" by (simp add: st4 fo(2) fm(2) s3(3) bo samples_of_def rows(4))
  moreover have "map_of (no_files (snd st4)) ''rows'' = Some (rp_name rows)" by (simp add: st4 fo(3) update_conv)
  moreover have "map_of (no_blobs (snd st4)) (rp_name rows) = Some blob" by (simp add: st4 fo(4) update_conv)
  moreover have "map_of (no_files (snd st4)) ''meta'' = Some (rp_name meta)" by (simp add: st4 fo(3) fm(3) update_conv)
  moreover have "map_of (no_blobs (snd st4)) (rp_name meta) = Some (ho_render ho (MetaFile m))"
    using nr(3) by (simp add: st4 fo(4) fm(4) update_conv)
  ultimately show ?thesis using rows(1-3,6) meta(1,2) s1(2) by blast
qed

lemma stop_keeps_type: "sw_type (fst (svc_stop ho now s args)) = sw_type s"
  by (auto simp: svc_stop_def svc_halt_def finish_run_def Let_def split: option.splits prod.splits sum.splits)

lemma configure_keeps_type: "sw_type (fst (svc_configure ho s args)) = sw_type s"
  by (auto simp: svc_configure_def configure_relay_def configure_local_def Let_def
      split: option.splits prod.splits sum.splits bool.splits)

text \<open>The service when its control loop begins: the hub's stop, configure and start.\<close>

definition node_before_loop ::
  "('g, 't, 'l) host \<Rightarrow> (hub_assignment \<Rightarrow> jdict) \<Rightarrow> string \<Rightarrow> real \<Rightarrow> hub_assignment \<Rightarrow> ('g, 't, 'l) host_node \<Rightarrow> ('g, 't, 'l) service" where
  "node_before_loop ho dump run_name epoch a n =
     (let s1 = fst (svc_stop ho (hn_now n) (hn_svc n) []); s2 = fst (svc_configure ho s1 (dump a)) in
      fst (svc_start ho (hn_now n) (hn_mt n) s2 [(''run_name'', JStr run_name), (''epoch_unix_s'', JFloat epoch)]))"

text \<open>C1: A report that says ok, of a run without events and with a non-empty name, has collected the rows and the
  metadata of every local node whose ticks all returned. The metadata collected are those of the assignment the
  node held (its id, neighbours, coordinates, columns and units) with the number of ticks; with them the
  rows collected read back as exactly the samples of the ticks of its control loop, which began in the
  state the hub's stop, configure and start left; and the count in the report is their number.\<close>

theorem fleet_collects_rows:
  assumes "run_fleet (service_hub ho port dump upd inputs raised stamp) mf A agents run_name duration epoch only = Inr (ag, A', r)"
    and "distinct (rr_ids r)" and "report_all_ok r" and "em_events mf = []" and "run_name \<noteq> []"
    and "i \<in> set (rr_ids r)" and "sw_type (hn_svc (agents i)) \<noteq> BLE"
    and "map_of A i = Some a" and "inputs 0 i = (xs, now, mt)"
    and "svc_ticks ho (node_before_loop ho dump run_name epoch a (agents i)) xs = Inr (s2, ps)"
  shows "\<exists>a' ag t m ss blob path mpath. sw_assignment (node_before_loop ho dump run_name epoch a (agents i)) = Some a' \<and>
     sw_agent (node_before_loop ho dump run_name epoch a (agents i)) = Some (ag, t) \<and>
     run_samples ho ag xs = Inr ss \<and> length ss = length xs \<and> no_samples (rr_nodes r i) = int (length xs) \<and>
     map_of (no_files (rr_nodes r i)) ''meta'' = Some mpath \<and> map_of (no_blobs (rr_nodes r i)) mpath = Some (ho_render ho (MetaFile m)) \<and>
     describes m a' run_name (length xs) \<and> map_of (no_files (rr_nodes r i)) ''rows'' = Some path \<and> map_of (no_blobs (rr_nodes r i)) path = Some blob \<and>
     recover_rows m blob = Inr (map (sample_row m) ss)"
proof -
  let ?hu = "service_hub ho port dump upd inputs raised stamp"
  note cs = run_fleet_cases [OF assms(1,2)]
  let ?fl = "configure_fleet ?hu mf A (rr_ids r) agents"
  have hu: "hu_rpc ?hu = node_rpc ho port dump" "hu_live ?hu = node_live ho inputs raised" by (simp_all add: service_hub_def)
  have ok: "no_errors (rr_nodes r j) = []" "no_configured (rr_nodes r j)" if "j \<in> set (rr_ids r)" for j
    using assms(3) that by (auto simp: report_all_ok_def outcome_ok_def list_all_iff)
  have col: "rr_collected r"
    using cs(4) ok [OF assms(6)] assms(6) by (cases "rr_collected r") (auto split: if_splits)
  obtain fl' spread ns where c: "conduct_fleet ?hu mf A (rr_ids r) run_name duration epoch ?fl = (fl', A', spread, ns)"
      "rr_nodes r = (\<lambda>i. snd (fl' i))"
    using cs(5) [OF col] by blast
  obtain fl1 fl2 where p:
      "run_events (hu_rpc ?hu) (hu_update ?hu) (hu_live ?hu) (rr_ids r) duration 0 (sort_key sv_at_s (em_events mf)) (fl1, A) = ((fl2, A'), ns)"
      "\<And>i. i \<in> set (rr_ids r) \<Longrightarrow> fl1 i = start_one (hu_rpc ?hu) run_name epoch (hu_stamp ?hu i) (?fl i)"
      "\<And>i. i \<in> set (rr_ids r) \<Longrightarrow> fl' i = collect_one (hu_rpc ?hu) run_name i (stop_one (hu_rpc ?hu) (fl2 i))"
    by (rule conduct_fleet_phases [OF c(1) assms(2)]) blast
  have live: "fl2 i = (node_live ho inputs raised 0 i (fst (fl1 i)), snd (fl1 i))"
    using p(1) assms(4) by (auto simp: hu fan_out_at [OF assms(2)] assms(6) split: prod.splits)
  have fl: "hn_svc (fst (?fl i)) = fst (svc_configure ho (fst (svc_stop ho (hn_now (agents i)) (hn_svc (agents i)) [])) (dump a))"
    "hn_now (fst (?fl i)) = hn_now (agents i)" "hn_mt (fst (?fl i)) = hn_mt (agents i)"
    by (auto simp: configure_fleet_at [OF assms(2,6)] assms(8) hu configure_one_def clear_stale_def split: prod.splits option.splits)
  have s1: "hn_svc (fst (fl1 i)) = node_before_loop ho dump run_name epoch a (agents i)"
    by (auto simp: p(2) [OF assms(6)] hu start_one_def node_before_loop_def Let_def fl split: prod.splits option.splits)
  have loc: "\<not> is_relay (hn_svc (fst (?fl i)))"
    using assms(7) by (simp add: is_relay_def fl configure_keeps_type stop_keeps_type)
  have "svc_ticks ho (hn_svc (fst (fl1 i))) xs = Inr (s2, ps)" using assms(10) by (simp add: s1)
  moreover have "fst (fl2 i) = node_live ho inputs raised 0 i (fst (fl1 i))" "snd (fl2 i) = snd (fl1 i)" by (simp_all add: live)
  moreover have "no_errors (snd (fl' i)) = []" using ok(1) [OF assms(6)] by (simp add: c(2))
  ultimately show ?thesis
    using node_run_collected [where ?st1.0 = "fl1 i" and ?st0.0 = "?fl i" and ?st2.0 = "fl2 i" and ?st4.0 = "fl' i"
          and inputs = inputs and i = i and xs = xs and now = now and mt = mt,
        OF p(2) [OF assms(6), unfolded hu] _ _ p(3) [OF assms(6), unfolded hu] _ assms(5) loc assms(9)]
    by (simp add: c(2) s1)
qed

text \<open>One node, a service that is idle, over two ticks.\<close>

definition demo_fleet :: "(unit, unit, unit) host_node hub_env" where
  "demo_fleet = service_hub demo_host 5501 (\<lambda>a. []) (\<lambda>a u. a) (\<lambda>k i. (demo_ticks, 107, 12)) (\<lambda>s. s) (\<lambda>i. 7)"

definition demo_node_host :: "(unit, unit, unit) host_node" where
  "demo_node_host = \<lparr>hn_svc = demo_idle, hn_now = 100, hn_mt = 5\<rparr>"

lemma answer_some: "\<exists>x. answer_of (Inr r) = Some x"
  by (cases r; cases "snd r") auto

lemma demo_fleet_run:
  obtains ag A r s2 ps where "run_fleet demo_fleet demo_manifest [(1, demo_assigned)] (\<lambda>i. demo_node_host) ''run'' 1 100 None = Inr (ag, A, r)"
    and "rr_ids r = [1]" and "report_all_ok r"
    and "svc_ticks demo_host (node_before_loop demo_host (\<lambda>a. []) ''run'' 100 demo_assigned demo_node_host) demo_ticks = Inr (s2, ps)"
proof -
  let ?args = "[(''run_name'', JStr ''run''), (''epoch_unix_s'', JFloat 100)]"
  let ?f = "\<lambda>x. [(''run_name'', JStr ''run''), (''artifact'', JStr x)]"
  have e: "\<exists>e. epoch_arg demo_host s ?args = Inr e" for s :: "(unit, unit, unit) service" by (simp add: epoch_arg_def)
  obtain s0 s1 r0 r1 where c: "svc_configure demo_host demo_idle [] = (s0, Inr r0)" "svc_start demo_host 100 5 s0 ?args = (s1, Inr r1)"
      "\<not> is_relay s0"
    and run: "\<And>xs now'. \<exists>s2 ps s3 r2. svc_ticks demo_host s1 xs = Inr (s2, ps) \<and> svc_stop demo_host now' s2 [] = (s3, Inr r2)"
    by (rule demo_run_args [OF e, of 100 5]) blast
  obtain s2 ps s3 r2 where t: "svc_ticks demo_host s1 demo_ticks = Inr (s2, ps)" "svc_stop demo_host 107 s2 [] = (s3, Inr r2)"
    using run by blast
  have n: "str_arg demo_host ?args ''run_name'' ''run'' = ''run''" by (simp add: str_arg_def)
  obtain x y b b' where f: "svc_fetch demo_host s3 (?f ''rows'') = (s3, Inr (x, Some b))"
      "svc_fetch demo_host s3 (?f ''meta'') = (s3, Inr (y, Some b'))"
    using local_run_records [OF c(2,3) t, of "?f ''rows''" "?f ''meta''"] by (auto simp: n)
  have idle: "svc_stop demo_host 100 demo_idle [] = (demo_idle, Inr (stopped None 0 False []))"
    by (simp add: svc_stop_def demo_idle_def svc_new_def is_relay_def running_def)
  have nb: "node_before_loop demo_host (\<lambda>a. []) ''run'' 100 demo_assigned demo_node_host = s1"
    by (simp add: node_before_loop_def demo_node_host_def idle c)
  obtain x0 x1 x2 where ans: "answer_of (Inr r0) = Some x0" "answer_of (Inr r1) = Some x1" "answer_of (Inr r2) = Some x2"
    using answer_some by metis
  have ev: "em_events demo_manifest = []" by (simp add: demo_manifest_def)
  have "\<exists>ag A r. run_fleet demo_fleet demo_manifest [(1, demo_assigned)] (\<lambda>i. demo_node_host) ''run'' 1 100 None = Inr (ag, A, r) \<and>
      rr_ids r = [1] \<and> report_all_ok r"
    by (simp add: run_fleet_def configure_fleet_def conduct_fleet_def fan_out_def clear_stale_def configure_one_def start_one_def
        stop_one_def collect_one_def fetch_one_def ARTIFACTS_def outcome_new_def Let_def demo_fleet_def service_hub_def
        demo_node_host_def idle c ans node_live_def t f ev report_all_ok_def outcome_ok_def)
  then show ?thesis using that t(1) nb by metis
qed

theorem fleet_collects_rows_witness:
  "\<exists>ag A r m a blob path mpath rows. run_fleet demo_fleet demo_manifest [(1, demo_assigned)] (\<lambda>i. demo_node_host) ''run'' 1 100 None = Inr (ag, A, r) \<and>
     no_samples (rr_nodes r 1) = 2 \<and> map_of (no_files (rr_nodes r 1)) ''meta'' = Some mpath \<and>
     map_of (no_blobs (rr_nodes r 1)) mpath = Some (ho_render demo_host (MetaFile m)) \<and> describes m a ''run'' 2 \<and>
     map_of (no_files (rr_nodes r 1)) ''rows'' = Some path \<and>
     map_of (no_blobs (rr_nodes r 1)) path = Some blob \<and> recover_rows m blob = Inr rows \<and> length rows = 2"
proof (rule demo_fleet_run)
  fix ag A r s2 ps
  assume r: "run_fleet demo_fleet demo_manifest [(1, demo_assigned)] (\<lambda>i. demo_node_host) ''run'' 1 100 None = Inr (ag, A, r)"
    "rr_ids r = [1]" "report_all_ok r"
    "svc_ticks demo_host (node_before_loop demo_host (\<lambda>a. []) ''run'' 100 demo_assigned demo_node_host) demo_ticks = Inr (s2, ps)"
  have h: "distinct (rr_ids r)" "em_events demo_manifest = []" "''run'' \<noteq> []" "1 \<in> set (rr_ids r)"
    "sw_type (hn_svc demo_node_host) \<noteq> BLE" "map_of [(1, demo_assigned)] 1 = Some demo_assigned"
    by (simp_all add: r(2) demo_manifest_def demo_node_host_def demo_idle_def svc_new_def)
  from fleet_collects_rows [OF r(1)[unfolded demo_fleet_def] h(1) r(3) h(2,3,4,5,6) refl r(4)]
  obtain m a ss blob path mpath where "length ss = length demo_ticks" "no_samples (rr_nodes r 1) = int (length demo_ticks)"
      "map_of (no_files (rr_nodes r 1)) ''meta'' = Some mpath"
      "map_of (no_blobs (rr_nodes r 1)) mpath = Some (ho_render demo_host (MetaFile m))" "describes m a ''run'' (length demo_ticks)"
      "map_of (no_files (rr_nodes r 1)) ''rows'' = Some path" "map_of (no_blobs (rr_nodes r 1)) path = Some blob"
      "recover_rows m blob = Inr (map (sample_row m) ss)" by (elim exE conjE)
  moreover have "length demo_ticks = 2" by (simp add: demo_ticks_def)
  ultimately show ?thesis using r(1) by (metis length_map of_nat_numeral)
qed

end
