(* ===== verification/Effort.thy ===== *)
theory Effort
  imports Microgrid
begin

section \<open>The applied command rebuilt from a log (analysis/effort.py)\<close>

text \<open>
  A node whose law runs on a board logs its states and the adaptive quantity, not the command.
  \<open>applied_command\<close> is \<^verbatim>\<open>_from_data\<close>: the command as logged, or rebuilt from the logged columns,
  one entry per row but the first. Columns are lists of reals of one length, an association list by
  name; numpy's NaN, which marks the rows of the terminal policy, is \<open>None\<close>. \<open>verify_node\<close> is what
  \<^verbatim>\<open>verify\<close> computes for one node. \<open>applied_command_recovered\<close> is about a log the Python law writes itself, one
  row per tick with the values as it computed them: there the command rebuilt from the few columns the
  reconstruction reads is exactly the one applied. A board's log holds its float32 law's values as the scaled
  integers of a STATE frame, and may lack rows; of that difference \<open>rebuilt_from_rounded\<close> treats the
  rounding to the fixed point, for the adaptive family, and nothing here treats the float32 law.
\<close>

type_synonym columns = "(string \<times> real list) list"

definition MU_COLS :: "string list" where
  "MU_COLS = [''muapp_P'', ''muapp_Q'']"

definition col :: "columns \<Rightarrow> string \<Rightarrow> real list result" where
  "col d k = (case map_of d k of Some xs \<Rightarrow> Inr xs | None \<Rightarrow> Inl KeyError)"

definition pairs_of :: "columns \<Rightarrow> string \<Rightarrow> string \<Rightarrow> (real \<times> real) list result" where
  "pairs_of d a b = bindR (col d a) (\<lambda>xs. bindR (col d b) (\<lambda>ys. Inr (zip xs ys)))"

text \<open>\<^verbatim>\<open>np.diff(z, axis=0) / h\<close>.\<close>

fun diffs :: "real \<Rightarrow> (real \<times> real) list \<Rightarrow> (real \<times> real) list" where
  "diffs h (a # b # zs) = ((fst b - fst a) / h, (snd b - snd a) / h) # diffs h (b # zs)"
| "diffs h zs = []"

definition minus2 :: "real \<times> real \<Rightarrow> real \<times> real \<Rightarrow> real \<times> real" where
  "minus2 a b = (fst a - fst b, snd a - snd b)"

definition omega_adaptive :: "real \<Rightarrow> real \<times> real \<Rightarrow> real \<Rightarrow> (real \<times> real) option" where
  "omega_adaptive h sigma vth =
     Some (sgn (fst sigma) * min vth (\<bar>fst sigma\<bar> / h), sgn (snd sigma) * min vth (\<bar>snd sigma\<bar> / h))"

definition omega_lc ::
  "lc_iface \<Rightarrow> real \<times> real \<Rightarrow> real \<times> real \<Rightarrow> real \<times> real \<Rightarrow> real \<Rightarrow> (real \<times> real) option result" where
  "omega_lc iface sigma x S t =
     (if lp_terminal (li_p iface) \<and> t \<ge> lp_T_c (li_p iface) then Inr None
      else bindR (lc_regressor iface t (fst x) (snd x)) (\<lambda>(A, ps, qs).
        Inr (Some (lc_lam iface t * fst sigma + A * (ps * fst S + qs * snd S),
                   lc_lam iface t * snd sigma + A * (qs * fst S - ps * snd S)))))"

definition clip_pair :: "real \<Rightarrow> real \<times> real \<Rightarrow> real \<times> real" where
  "clip_pair m mu = (clip_to m (fst mu), clip_to m (snd mu))"

definition rebuilt :: "real \<Rightarrow> real \<times> real \<Rightarrow> (real \<times> real) option \<Rightarrow> real \<times> real" where
  "rebuilt m g omega = clip_pair m (case omega of Some w \<Rightarrow> minus2 g w | None \<Rightarrow> (0, 0))"

definition iface_mu_max :: "iface_params \<Rightarrow> real" where
  "iface_mu_max i = (case i of AdaptiveP p \<Rightarrow> ap_mu_max p | LcP p \<Rightarrow> lp_mu_max p)"

definition control_times :: "real \<Rightarrow> nat \<Rightarrow> real list" where
  "control_times h n = map (\<lambda>k. (of_nat k + 1) * h) [0..<n]"

definition omegas ::
  "columns \<Rightarrow> iface_params \<Rightarrow> real \<Rightarrow> (real \<times> real) list \<Rightarrow> (real \<times> real) list \<Rightarrow> ((real \<times> real) option list) result" where
  "omegas d ifp h sigma xs =
     (case map_of d ''vartheta'' of
        Some v \<Rightarrow> Inr (map (\<lambda>(s, vth). omega_adaptive h s vth) (zip sigma (butlast v)))
      | None \<Rightarrow>
          (case (map_of d ''S1'', map_of d ''S2'', ifp) of
             (Some s1, Some s2, LcP p) \<Rightarrow>
               traverse (\<lambda>(s, x, S, t). omega_lc (lc_new p h) s x S t)
                 (zip sigma (zip (butlast xs) (zip (butlast (zip s1 s2)) (control_times h (length sigma)))))
           | (Some s1, Some s2, AdaptiveP p) \<Rightarrow> Inl TypeError
           | _ \<Rightarrow> Inl KeyError))"

definition applied_command :: "columns \<Rightarrow> iface_params \<Rightarrow> real \<Rightarrow> bool \<Rightarrow> (real \<times> real) list result" where
  "applied_command d ifp h rebuild =
     (if \<not> rebuild \<and> list_all (\<lambda>c. map_of d c \<noteq> None) MU_COLS
      then bindR (pairs_of d ''muapp_P'' ''muapp_Q'') (\<lambda>ps. Inr (tl ps))
      else
        bindR (pairs_of d ''state_P'' ''state_Q'') (\<lambda>xs.
        bindR (pairs_of d ''vstate_P'' ''vstate_Q'') (\<lambda>zs.
        let sigma = map (\<lambda>(x, z). minus2 x z) (zip (butlast xs) (butlast zs)) in
        bindR (omegas d ifp h sigma xs) (\<lambda>ws.
          Inr (map (\<lambda>(g, w). rebuilt (iface_mu_max ifp) g w) (zip (diffs h zs) ws))))))"

definition verify_node :: "columns \<Rightarrow> iface_params \<Rightarrow> real \<Rightarrow> real option result" where
  "verify_node d ifp h =
     (if list_all (\<lambda>c. map_of d c \<noteq> None) MU_COLS then
        bindR (pairs_of d ''muapp_P'' ''muapp_Q'') (\<lambda>ps.
        bindR (applied_command d ifp h True) (\<lambda>rs.
        let errors = concat (map (\<lambda>(r, l). [\<bar>fst r - fst l\<bar>, \<bar>snd r - snd l\<bar>]) (zip rs (tl ps))) in
          if errors = [] then Inl ValueError else Inr (Some (Max (set errors)))))
      else Inr None)"

subsection \<open>A run of the controller and its log\<close>

fun mg_log :: "microgrid \<Rightarrow> int list list \<Rightarrow> controller_output list result" where
  "mg_log m [] = Inr []"
| "mg_log m (vs # vss) = bindR (mg_step m vs) (\<lambda>(m', out). bindR (mg_log m' vss) (\<lambda>outs. Inr (out # outs)))"

definition ch :: "controller_output \<Rightarrow> nat \<Rightarrow> real" where
  "ch out j = output_channels out ! j"

definition columns_of :: "string list \<Rightarrow> controller_output list \<Rightarrow> columns" where
  "columns_of names outs = map (\<lambda>j. (names ! j, map (\<lambda>out. ch out j) outs)) [0..<length names]"

text \<open>The columns of a log that carry the names of a board's columns: the states and the adaptive quantity,
  with their values untouched.\<close>

definition reduced_columns :: "mg_kind \<Rightarrow> columns \<Rightarrow> columns" where
  "reduced_columns k d = filter (\<lambda>(name, xs). name \<in> set (mg_relay_columns k)) d"

abbreviation row_x :: "controller_output \<Rightarrow> real \<times> real" where "row_x out \<equiv> (ch out 0, ch out 1)"
abbreviation row_z :: "controller_output \<Rightarrow> real \<times> real" where "row_z out \<equiv> (ch out 2, ch out 3)"
abbreviation row_app :: "controller_output \<Rightarrow> real \<times> real" where "row_app out \<equiv> (ch out 8, ch out 9)"

text \<open>A row that was logged in state \<open>m\<close>, after its step.\<close>

definition row_of :: "controller_output \<Rightarrow> microgrid \<Rightarrow> bool" where
  "row_of out m \<longleftrightarrow> row_x out = (pt_xP (mg_plant m), pt_xQ (mg_plant m)) \<and>
     row_z out = (vl_zP (mg_virtual m), vl_zQ (mg_virtual m)) \<and>
     drop 17 (output_channels out) = family_channels (mg_interface m)"

lemma logged_step:
  assumes "mg_step m vs = Inr (m', out)"
  obtains gP gQ c where
    "iface_step (mg_interface m) (mg_t m) (pt_xP (mg_plant m)) (pt_xQ (mg_plant m))
       (vl_zP (mg_virtual m)) (vl_zQ (mg_virtual m)) gP gQ = Inr (mg_interface m', c)"
    "vl_zP (mg_virtual m') = vl_zP (mg_virtual m) + mg_dt m * gP"
    "vl_zQ (mg_virtual m') = vl_zQ (mg_virtual m) + mg_dt m * gQ"
    "row_app out = (io_appP c, io_appQ c)" "row_of out m'" "mg_dt m' = mg_dt m" "mg_count m' = mg_count m + 1"
proof -
  obtain v where v: "vl_hold (mg_virtual m) (mg_snapshot (mg_degree m) vs) = Inr v"
    using assms by (auto simp: mg_step_def Let_def bindR_eq_Inr)
  have vf: "vl_zP v = vl_zP (mg_virtual m)" "vl_zQ v = vl_zQ (mg_virtual m)"
    using v by (auto simp: vl_hold_def split: if_splits)
  let ?k = "vl_candidate v (mg_t m) (mg_dt m)"
  obtain i' c where i: "iface_step (mg_interface m) (mg_t m) (pt_xP (mg_plant m)) (pt_xQ (mg_plant m))
      (vl_zP (mg_virtual m)) (vl_zQ (mg_virtual m)) (vc_gP ?k) (vc_gQ ?k) = Inr (i', c)"
    using assms v vf by (auto simp: mg_step_def Let_def bindR_eq_Inr)
  obtain pl where pl: "plant_step (mg_plant m) (io_appP c) (io_appQ c) (mg_t m) (mg_dt m) = Inr pl"
    using assms v vf i by (auto simp: mg_step_def Let_def bindR_eq_Inr)
  have z: "vc_zP ?k = vl_zP v + mg_dt m * vc_gP ?k" "vc_zQ ?k = vl_zQ v + mg_dt m * vc_gQ ?k"
    by (simp_all add: vl_candidate_def Let_def split: prod.split)
  obtain cause run where cr: "(if mg_cause m = '''' then mg_watchdog (mg_sat_run m) pl i' (io_saturated c) (mg_t m \<ge> mg_T_c m)
      else (mg_cause m, mg_sat_run m)) = (cause, run)" by fastforce
  note res = assms [unfolded mg_step_def Let_def v bindR_Inr vf i prod.case pl cr sum.inject prod.inject]
  show ?thesis
    by (rule that [of "vc_gP ?k" "vc_gQ ?k" c])
      (use res i z vf in \<open>auto simp: row_of_def ch_def output_channels_def vl_commit_def\<close>)
qed

text \<open>The row's own columns, by their place.\<close>

lemma row_of_family:
  assumes "row_of out m"
  shows "mg_interface m = Adaptive a \<Longrightarrow> ch out 17 = ai_vartheta a"
    and "mg_interface m = LC l \<Longrightarrow> (ch out 17, ch out 18) = (li_S1 l, li_S2 l)"
proof -
  have nth: "ch out (17 + j) = family_channels (mg_interface m) ! j" if "j < length (family_channels (mg_interface m))" for j
  proof -
    have "length (drop 17 (output_channels out)) = length (family_channels (mg_interface m))"
      using assms by (simp add: row_of_def)
    then have "17 \<le> length (output_channels out)" using that by simp
    then show ?thesis using assms by (simp add: row_of_def ch_def flip: nth_drop)
  qed
  show "mg_interface m = Adaptive a \<Longrightarrow> ch out 17 = ai_vartheta a"
    using nth [of 0] by (simp add: family_channels_def)
  show "mg_interface m = LC l \<Longrightarrow> (ch out 17, ch out 18) = (li_S1 l, li_S2 l)"
    using nth [of 0] nth [of 1] by (simp add: family_channels_def)
qed

subsection \<open>The rebuilt command is the applied one\<close>

lemma butlast_cons_map: "butlast (map f (x # y # xs)) = f x # butlast (map f (y # xs))"
  by simp

lemma adaptive_row:
  assumes "iface_step (Adaptive a) t xP xQ zP zQ gP gQ = Inr (i', c)" and "ai_h a = h"
  shows "rebuilt (ap_mu_max (ai_p a)) (gP, gQ) (omega_adaptive h (minus2 (xP, xQ) (zP, zQ)) (ai_vartheta a)) = (io_appP c, io_appQ c)"
    and "\<exists>a'. i' = Adaptive a' \<and> ai_h a' = h \<and> ai_p a' = ai_p a"
proof -
  obtain a' where a': "i' = Adaptive a'" "adaptive_step a t xP xQ zP zQ gP gQ = (a', c)"
    using assms(1) by (auto simp: iface_step_Adaptive)
  have "io_appP (snd (adaptive_step a t xP xQ zP zQ gP gQ)) =
        clip_to (ap_mu_max (ai_p a)) (gP - sgn (xP - zP) * min (ai_vartheta a) (\<bar>xP - zP\<bar> / ai_h a))"
    "io_appQ (snd (adaptive_step a t xP xQ zP zQ gP gQ)) =
        clip_to (ap_mu_max (ai_p a)) (gQ - sgn (xQ - zQ) * min (ai_vartheta a) (\<bar>xQ - zQ\<bar> / ai_h a))"
    by (simp_all add: adaptive_step_def Let_def clip_to_def)
  then show "rebuilt (ap_mu_max (ai_p a)) (gP, gQ) (omega_adaptive h (minus2 (xP, xQ) (zP, zQ)) (ai_vartheta a)) =
      (io_appP c, io_appQ c)"
    by (simp add: a'(2) rebuilt_def clip_pair_def minus2_def omega_adaptive_def assms(2))
  show "\<exists>a'. i' = Adaptive a' \<and> ai_h a' = h \<and> ai_p a' = ai_p a"
    using adaptive_gain(3,4) [of a t xP xQ zP zQ gP gQ] a' assms(2) by simp
qed

lemma rebuild_adaptive:
  assumes "mg_log m vss = Inr outs" and "row_of o0 m" and "mg_interface m = Adaptive a" and "ai_h a = h"
    and "mg_dt m = h" and "h \<noteq> 0" and "ap_mu_max (ai_p a) = M"
  shows "map (\<lambda>(g, w). rebuilt M g w) (zip (diffs h (map row_z (o0 # outs)))
      (map (\<lambda>(s, vth). omega_adaptive h s vth)
        (zip (map (\<lambda>(x, z). minus2 x z) (zip (butlast (map row_x (o0 # outs))) (butlast (map row_z (o0 # outs)))))
          (butlast (map (\<lambda>out. ch out 17) (o0 # outs)))))) = map row_app outs"
  using assms(1-5,7)
proof (induction vss arbitrary: m outs o0 a)
  case Nil
  then show ?case by simp
next
  case (Cons vs vss)
  obtain m' o1 outs' where st: "mg_step m vs = Inr (m', o1)" "mg_log m' vss = Inr outs'" "outs = o1 # outs'"
    using Cons.prems(1) by (auto simp: bindR_eq_Inr)
  obtain gP gQ c where l: "iface_step (mg_interface m) (mg_t m) (pt_xP (mg_plant m)) (pt_xQ (mg_plant m))
       (vl_zP (mg_virtual m)) (vl_zQ (mg_virtual m)) gP gQ = Inr (mg_interface m', c)"
      "vl_zP (mg_virtual m') = vl_zP (mg_virtual m) + mg_dt m * gP"
      "vl_zQ (mg_virtual m') = vl_zQ (mg_virtual m) + mg_dt m * gQ"
      "row_app o1 = (io_appP c, io_appQ c)" "row_of o1 m'" "mg_dt m' = mg_dt m"
    by (rule logged_step [OF st(1)])
  note ad = adaptive_row [OF l(1)[unfolded Cons.prems(3)] Cons.prems(4)]
  obtain a' where a': "mg_interface m' = Adaptive a'" "ai_h a' = h" "ai_p a' = ai_p a" using ad(2) by blast
  have x0: "row_x o0 = (pt_xP (mg_plant m), pt_xQ (mg_plant m))" "row_z o0 = (vl_zP (mg_virtual m), vl_zQ (mg_virtual m))"
    using Cons.prems(2) by (simp_all add: row_of_def)
  have z1: "row_z o1 = (vl_zP (mg_virtual m'), vl_zQ (mg_virtual m'))" using l(5) by (simp add: row_of_def)
  have g: "((fst (row_z o1) - fst (row_z o0)) / h, (snd (row_z o1) - snd (row_z o0)) / h) = (gP, gQ)"
    unfolding x0(2) z1 l(2,3) Cons.prems(5) using assms(6) by simp
  have v: "ch o0 17 = ai_vartheta a" by (rule row_of_family(1) [OF Cons.prems(2,3)])
  have one: "rebuilt M (gP, gQ) (omega_adaptive h (minus2 (row_x o0) (row_z o0)) (ch o0 17)) = row_app o1"
    using ad(1) Cons.prems(6) by (simp only: x0 v l(4))
  have dt: "mg_dt m' = h" using l(6) Cons.prems(5) by simp
  have M': "ap_mu_max (ai_p a') = M" using a'(3) Cons.prems(6) by simp
  from Cons.IH [OF st(2) l(5) a'(1,2) dt M'] one g show ?case
    unfolding st(3) by (simp del: fst_conv snd_conv add: butlast_cons_map)
qed

lemma lc_row:
  assumes "iface_step (LC l) t xP xQ zP zQ gP gQ = Inr (i', c)" and "li_p l = p" and "li_delta_c l = li_delta_c (lc_new p h)"
  shows "\<exists>w. omega_lc (lc_new p h) (minus2 (xP, xQ) (zP, zQ)) (xP, xQ) (li_S1 l, li_S2 l) t = Inr w \<and>
      rebuilt (lp_mu_max p) (gP, gQ) w = (io_appP c, io_appQ c)"
    and "\<exists>l'. i' = LC l' \<and> li_p l' = p \<and> li_delta_c l' = li_delta_c (lc_new p h)"
proof -
  obtain l' where l': "i' = LC l'" "lc_step l t xP xQ zP zQ gP gQ = Inr (l', c)"
    using assms(1) by (auto simp: iface_step_LC)
  obtain A ps qs where r: "lc_regressor l t xP xQ = Inr (A, ps, qs)" by (rule lc_step_cases [OF l'(2)])
  have same: "lc_regressor (lc_new p h) t xP xQ = Inr (A, ps, qs)" "lc_lam (lc_new p h) t = lc_lam l t" "li_p (lc_new p h) = p"
    using r assms(2,3) by (simp_all add: lc_regressor_def lc_lam_def lc_new_def)
  let ?ends = "lp_terminal p \<and> t \<ge> lp_T_c p"
  note step = l'(2) [unfolded lc_step_def Let_def r bindR_Inr prod.case assms(2) sum.inject prod.inject]
  show "\<exists>w. omega_lc (lc_new p h) (minus2 (xP, xQ) (zP, zQ)) (xP, xQ) (li_S1 l, li_S2 l) t = Inr w \<and>
      rebuilt (lp_mu_max p) (gP, gQ) w = (io_appP c, io_appQ c)"
  proof (cases ?ends)
    case True
    then show ?thesis
      using step by (auto simp: omega_lc_def same rebuilt_def clip_pair_def clip_to_def)
  next
    case False
    let ?wP = "lc_lam l t * (xP - zP) + A * (ps * li_S1 l + qs * li_S2 l)"
    let ?wQ = "lc_lam l t * (xQ - zQ) + A * (qs * li_S1 l - ps * li_S2 l)"
    have app: "io_appP c = clip_to (lp_mu_max p) (gP - ?wP)" "io_appQ c = clip_to (lp_mu_max p) (gQ - ?wQ)"
      using step False unfolding clip_to_def by (auto simp only: iface_out.simps if_False)
    have "omega_lc (lc_new p h) (minus2 (xP, xQ) (zP, zQ)) (xP, xQ) (li_S1 l, li_S2 l) t = Inr (Some (?wP, ?wQ))"
      using False by (simp add: omega_lc_def same minus2_def)
    then show ?thesis by (simp add: rebuilt_def clip_pair_def minus2_def app)
  qed
  have "li_p l' = li_p l" "li_delta_c l' = li_delta_c l"
    using step by (auto simp: assms(2))
  then show "\<exists>l'. i' = LC l' \<and> li_p l' = p \<and> li_delta_c l' = li_delta_c (lc_new p h)"
    using l'(1) assms(2,3) by simp
qed

lemma control_times_Suc: "map (\<lambda>k. (x + of_nat k + 1) * h) [0..<Suc n] = (x + 1) * h # map (\<lambda>k. (x + 1 + of_nat k + 1) * h) [0..<n]"
  for x h :: real
  by (simp add: upt_conv_Cons map_Suc_upt [symmetric] comp_def add.assoc del: upt_Suc)

lemma rebuild_lc:
  assumes "mg_log m vss = Inr outs" and "row_of o0 m" and "mg_interface m = LC l" and "li_p l = p"
    and "li_delta_c l = li_delta_c (lc_new p h)" and "mg_dt m = h" and "h \<noteq> 0" and "of_int (mg_count m) = n0 + 1"
  shows "\<exists>ws. traverse (\<lambda>(s, x, S, t). omega_lc (lc_new p h) s x S t)
        (zip (map (\<lambda>(x, z). minus2 x z) (zip (butlast (map row_x (o0 # outs))) (butlast (map row_z (o0 # outs)))))
          (zip (butlast (map row_x (o0 # outs))) (zip (butlast (map (\<lambda>out. (ch out 17, ch out 18)) (o0 # outs)))
            (map (\<lambda>k. (n0 + of_nat k + 1) * h) [0..<length outs])))) = Inr ws \<and>
      map (\<lambda>(g, w). rebuilt (lp_mu_max p) g w) (zip (diffs h (map row_z (o0 # outs))) ws) = map row_app outs"
  using assms(1-6,8)
proof (induction vss arbitrary: m outs o0 l n0)
  case Nil
  then show ?case by simp
next
  case (Cons vs vss)
  obtain m' o1 outs' where st: "mg_step m vs = Inr (m', o1)" "mg_log m' vss = Inr outs'" "outs = o1 # outs'"
    using Cons.prems(1) by (auto simp: bindR_eq_Inr)
  obtain gP gQ c where l: "iface_step (mg_interface m) (mg_t m) (pt_xP (mg_plant m)) (pt_xQ (mg_plant m))
       (vl_zP (mg_virtual m)) (vl_zQ (mg_virtual m)) gP gQ = Inr (mg_interface m', c)"
      "vl_zP (mg_virtual m') = vl_zP (mg_virtual m) + mg_dt m * gP"
      "vl_zQ (mg_virtual m') = vl_zQ (mg_virtual m) + mg_dt m * gQ"
      "row_app o1 = (io_appP c, io_appQ c)" "row_of o1 m'" "mg_dt m' = mg_dt m" "mg_count m' = mg_count m + 1"
    by (rule logged_step [OF st(1)])
  note lc = lc_row [OF l(1)[unfolded Cons.prems(3)] Cons.prems(4,5)]
  obtain l' where l': "mg_interface m' = LC l'" "li_p l' = p" "li_delta_c l' = li_delta_c (lc_new p h)" using lc(2) by blast
  have x0: "row_x o0 = (pt_xP (mg_plant m), pt_xQ (mg_plant m))" "row_z o0 = (vl_zP (mg_virtual m), vl_zQ (mg_virtual m))"
    using Cons.prems(2) by (simp_all add: row_of_def)
  have z1: "row_z o1 = (vl_zP (mg_virtual m'), vl_zQ (mg_virtual m'))" using l(5) by (simp add: row_of_def)
  have g: "((fst (row_z o1) - fst (row_z o0)) / h, (snd (row_z o1) - snd (row_z o0)) / h) = (gP, gQ)"
    unfolding x0(2) z1 l(2,3) Cons.prems(6) using assms(7) by simp
  have v: "(ch o0 17, ch o0 18) = (li_S1 l, li_S2 l)" by (rule row_of_family(2) [OF Cons.prems(2,3)])
  have t: "mg_t m = (n0 + 1) * h" using Cons.prems(6,7) by (simp add: mg_t_def)
  obtain w where w: "omega_lc (lc_new p h) (minus2 (row_x o0) (row_z o0)) (row_x o0) (ch o0 17, ch o0 18) ((n0 + 1) * h) = Inr w"
      "rebuilt (lp_mu_max p) (gP, gQ) w = row_app o1"
    using lc(1) unfolding x0 v l(4) t by blast
  have dt: "mg_dt m' = h" using l(6) Cons.prems(6) by simp
  have cnt: "of_int (mg_count m') = n0 + 1 + 1" using l(7) Cons.prems(7) by simp
  from Cons.IH [OF st(2) l(5) l' dt cnt] obtain ws where ws:
    "traverse (\<lambda>(s, x, S, t). omega_lc (lc_new p h) s x S t)
        (zip (map (\<lambda>(x, z). minus2 x z) (zip (butlast (map row_x (o1 # outs'))) (butlast (map row_z (o1 # outs')))))
          (zip (butlast (map row_x (o1 # outs'))) (zip (butlast (map (\<lambda>out. (ch out 17, ch out 18)) (o1 # outs')))
            (map (\<lambda>k. (n0 + 1 + of_nat k + 1) * h) [0..<length outs'])))) = Inr ws"
    "map (\<lambda>(g, w). rebuilt (lp_mu_max p) g w) (zip (diffs h (map row_z (o1 # outs'))) ws) = map row_app outs'" by blast
  have "length outs = Suc (length outs')" by (simp add: st(3))
  then show ?case
    unfolding st(3) length_Cons control_times_Suc butlast_cons_map
    by (intro exI [of _ "w # ws"]) (use w ws g in \<open>simp del: fst_conv snd_conv upt_Suc\<close>)
qed

lemma mg_names:
  "column_names (mg_class MicrogridAdaptive) = Inr [''state_P'', ''state_Q'', ''vstate_P'', ''vstate_Q'', ''g_P'', ''g_Q'',
     ''mu_P'', ''mu_Q'', ''muapp_P'', ''muapp_Q'', ''sigma_P'', ''sigma_Q'', ''c'', ''theta'', ''saturated'', ''trig'',
     ''watchdog'', ''vartheta'', ''updates'']"
  "column_names (mg_class MicrogridLC) = Inr [''state_P'', ''state_Q'', ''vstate_P'', ''vstate_Q'', ''g_P'', ''g_Q'',
     ''mu_P'', ''mu_Q'', ''muapp_P'', ''muapp_Q'', ''sigma_P'', ''sigma_Q'', ''c'', ''theta'', ''saturated'', ''trig'',
     ''watchdog'', ''S1'', ''S2'', ''updates'']"
  by (simp_all add: column_names_def mg_class_def COMMON_CHANNELS_def)

definition mg_columns :: "mg_kind \<Rightarrow> controller_output list \<Rightarrow> columns" where
  "mg_columns k outs = columns_of (projr (column_names (mg_class k))) outs"

lemma col_columns:
  assumes "map_of d name = Some xs"
  shows "col d name = Inr xs"
  using assms by (simp add: col_def)

lemma columns_of_index:
  "map_of (columns_of names outs) name = map_option (\<lambda>j. map (\<lambda>out. ch out j) outs) (map_of (zip names [0..<length names]) name)"
proof -
  have "columns_of names outs = map (\<lambda>(n, j). (n, map (\<lambda>out. ch out j) outs)) (zip names [0..<length names])"
    by (rule nth_equalityI) (simp_all add: columns_of_def)
  then show ?thesis by (simp add: map_of_map)
qed

definition column_index :: "mg_kind \<Rightarrow> string \<Rightarrow> nat option" where
  "column_index k name =
     (let names = projr (column_names (mg_class k)) in map_of (zip names [0..<length names]) name)"

lemma column_index_table:
  "column_index MicrogridAdaptive = map_of
     [(''state_P'', 0), (''state_Q'', 1), (''vstate_P'', 2), (''vstate_Q'', 3), (''g_P'', 4), (''g_Q'', 5), (''mu_P'', 6), (''mu_Q'', 7), (''muapp_P'', 8), (''muapp_Q'', 9), 
      (''sigma_P'', 10), (''sigma_Q'', 11), (''c'', 12), (''theta'', 13), (''saturated'', 14), (''trig'', 15), (''watchdog'', 16), (''vartheta'', 17), (''updates'', 18)]"
  "column_index MicrogridLC = map_of
     [(''state_P'', 0), (''state_Q'', 1), (''vstate_P'', 2), (''vstate_Q'', 3), (''g_P'', 4), (''g_Q'', 5), (''mu_P'', 6), (''mu_Q'', 7), (''muapp_P'', 8), (''muapp_Q'', 9), 
      (''sigma_P'', 10), (''sigma_Q'', 11), (''c'', 12), (''theta'', 13), (''saturated'', 14), (''trig'', 15), (''watchdog'', 16), (''S1'', 17), (''S2'', 18), (''updates'', 19)]"
  by (simp_all add: column_index_def mg_names Let_def upt_conv_Cons fun_eq_iff)

lemma column_index_at:
  "column_index k ''state_P'' = Some 0" "column_index k ''state_Q'' = Some 1"
  "column_index k ''vstate_P'' = Some 2" "column_index k ''vstate_Q'' = Some 3"
  "column_index k ''muapp_P'' = Some 8" "column_index k ''muapp_Q'' = Some 9"
  "column_index MicrogridAdaptive ''vartheta'' = Some 17" "column_index MicrogridLC ''vartheta'' = None"
  "column_index MicrogridLC ''S1'' = Some 17" "column_index MicrogridLC ''S2'' = Some 18"
  by (cases k; simp add: column_index_table)+

lemma mg_columns_index: "map_of (mg_columns k outs) name = map_option (\<lambda>j. map (\<lambda>out. ch out j) outs) (column_index k name)"
  by (simp add: mg_columns_def columns_of_index column_index_def Let_def)

lemmas mg_columns_at = mg_columns_index column_index_at

lemma map_of_filter_name: "map_of (filter (\<lambda>(n, xs). P n) d) k = (if P k then map_of d k else None)"
  by (induction d) auto

lemma reduced_at:
  "map_of (reduced_columns k d) name = (if name \<in> set (mg_relay_columns k) then map_of d name else None)"
  unfolding reduced_columns_def by (rule map_of_filter_name)

text \<open>A log that has the state columns and the family's own rebuilds to the applied command.\<close>

definition has_columns :: "mg_kind \<Rightarrow> columns \<Rightarrow> controller_output list \<Rightarrow> bool" where
  "has_columns k d outs \<longleftrightarrow> (\<forall>name \<in> set (mg_relay_columns k). map_of d name = map_of (mg_columns k outs) name) \<and>
     (k = MicrogridLC \<longrightarrow> map_of d ''vartheta'' = None)"

lemma rebuilt_command:
  assumes "mg_init k p = Inr m" and "mg_log m vss = Inr outs" and "mp_interface p = Some ifp" and "mp_dt p \<noteq> 0"
    and "has_columns k d outs" and "rebuild \<or> \<not> list_all (\<lambda>c. map_of d c \<noteq> None) MU_COLS"
  shows "applied_command d ifp (mp_dt p) rebuild = Inr (tl (map row_app outs))"
proof -
  let ?h = "mp_dt p"
  obtain i where i: "mg_make_interface k p ?h = Inr i" "mg_interface m = i" "mg_dt m = ?h" "mg_count m = 0"
    using assms(1) by (auto simp: mg_init_def mg_build_def bindR_eq_Inr)
  have st: "pairs_of d ''state_P'' ''state_Q'' = Inr (map row_x outs)" "pairs_of d ''vstate_P'' ''vstate_Q'' = Inr (map row_z outs)"
    using assms(5)
    by (auto simp: has_columns_def pairs_of_def col_def mg_relay_columns_def mg_columns_at zip_map_map zip_same_conv_map split_beta)
  have ac: "applied_command d ifp ?h rebuild =
      bindR (omegas d ifp ?h (map (\<lambda>(x, z). minus2 x z) (zip (butlast (map row_x outs)) (butlast (map row_z outs)))) (map row_x outs))
        (\<lambda>ws. Inr (map (\<lambda>(g, w). rebuilt (iface_mu_max ifp) g w) (zip (diffs ?h (map row_z outs)) ws)))"
    using assms(6) unfolding applied_command_def st bindR_Inr Let_def by auto
  have fam: "k = MicrogridAdaptive \<Longrightarrow> map_of d ''vartheta'' = Some (map (\<lambda>out. ch out 17) outs)"
    "k = MicrogridLC \<Longrightarrow> map_of d ''vartheta'' = None \<and> map_of d ''S1'' = Some (map (\<lambda>out. ch out 17) outs) \<and>
       map_of d ''S2'' = Some (map (\<lambda>out. ch out 18) outs)"
    using assms(5) by (simp_all add: has_columns_def mg_relay_columns_def mg_columns_at)
  show ?thesis
  proof (cases outs)
    case Nil
    show ?thesis
      unfolding ac
      by (cases k; cases ifp) (use i(1) assms(3) fam in \<open>auto simp: omegas_def Nil mg_make_interface_def\<close>)
  next
    case (Cons o0 outs')
    obtain vs0 vss' m1 where s1: "mg_step m vs0 = Inr (m1, o0)" "mg_log m1 vss' = Inr outs'"
      using assms(2) Cons by (cases vss) (auto simp: bindR_eq_Inr)
    obtain gP gQ c where l: "iface_step (mg_interface m) (mg_t m) (pt_xP (mg_plant m)) (pt_xQ (mg_plant m))
         (vl_zP (mg_virtual m)) (vl_zQ (mg_virtual m)) gP gQ = Inr (mg_interface m1, c)"
        "row_of o0 m1" "mg_dt m1 = mg_dt m" "mg_count m1 = mg_count m + 1"
      by (rule logged_step [OF s1(1)])
    have dt: "mg_dt m1 = ?h" and cnt: "of_int (mg_count m1) = (0 :: real) + 1" using l(3,4) i(3,4) by simp_all
    show ?thesis
    proof (cases k)
      case MicrogridAdaptive
      then obtain a where a: "ifp = AdaptiveP a" "i = Adaptive (adaptive_new a ?h)"
        using i(1) assms(3) by (auto simp: mg_make_interface_def split: iface_params.splits)
      obtain a1 where a1: "mg_interface m1 = Adaptive a1" "ai_h a1 = ?h" "ai_p a1 = a"
        using adaptive_row(2) [OF l(1)[unfolded i(2) a(2)], of ?h] by (auto simp: adaptive_new_def)
      have M: "ap_mu_max (ai_p a1) = ap_mu_max a" by (simp add: a1(3))
      have om: "omegas d ifp ?h sg xs = Inr (map (\<lambda>(s, vth). omega_adaptive ?h s vth) (zip sg (butlast (map (\<lambda>out. ch out 17) outs))))" for sg xs
        by (simp add: omegas_def fam(1) [OF MicrogridAdaptive])
      from rebuild_adaptive [OF s1(2) l(2) a1(1,2) dt assms(4) M] show ?thesis
        unfolding ac om bindR_Inr unfolding a(1) Cons iface_mu_max_def iface_params.case list.map list.sel by (rule arg_cong)
    next
      case MicrogridLC
      then obtain q where q: "ifp = LcP q" "i = LC (lc_new q ?h)"
        using i(1) assms(3) by (auto simp: mg_make_interface_def split: iface_params.splits)
      have q0: "li_p (lc_new q ?h) = q" by (simp add: lc_new_def)
      obtain l1 where l1: "mg_interface m1 = LC l1" "li_p l1 = q" "li_delta_c l1 = li_delta_c (lc_new q ?h)"
        using lc_row(2) [OF l(1)[unfolded i(2) q(2)] q0 refl] by blast
      have S: "zip (map (\<lambda>out. ch out 17) outs) (map (\<lambda>out. ch out 18) outs) = map (\<lambda>out. (ch out 17, ch out 18)) outs"
        by (simp add: zip_map_map zip_same_conv_map split_beta)
      have om: "omegas d ifp ?h sg xs = traverse (\<lambda>(s, x, S, t). omega_lc (lc_new q ?h) s x S t)
          (zip sg (zip (butlast xs) (zip (butlast (map (\<lambda>out. (ch out 17, ch out 18)) outs)) (control_times ?h (length sg)))))" for sg xs
        by (simp add: omegas_def fam(2) [OF MicrogridLC] q(1) S)
      obtain ws where ws: "traverse (\<lambda>(s, x, S, t). omega_lc (lc_new q ?h) s x S t)
          (zip (map (\<lambda>(x, z). minus2 x z) (zip (butlast (map row_x (o0 # outs'))) (butlast (map row_z (o0 # outs')))))
            (zip (butlast (map row_x (o0 # outs'))) (zip (butlast (map (\<lambda>out. (ch out 17, ch out 18)) (o0 # outs')))
              (map (\<lambda>k. (0 + of_nat k + 1) * ?h) [0..<length outs'])))) = Inr ws"
        "map (\<lambda>(g, w). rebuilt (lp_mu_max q) g w) (zip (diffs ?h (map row_z (o0 # outs'))) ws) = map row_app outs'"
        using rebuild_lc [OF s1(2) l(2) l1 dt assms(4) cnt] by blast
      have ct: "control_times ?h (length (map (\<lambda>(x, z). minus2 x z) (zip (butlast (map row_x (o0 # outs'))) (butlast (map row_z (o0 # outs')))))) =
          map (\<lambda>k. (0 + of_nat k + 1) * ?h) [0..<length outs']" by (simp add: control_times_def)
      show ?thesis
        unfolding ac om unfolding q(1) Cons iface_mu_max_def iface_params.case ct ws bindR_Inr by simp
    qed
  qed
qed

text \<open>C6: On the log a microgrid controller writes itself, one row per tick with the values as it computed them,
  the command the analysis returns is the command the controller applied, from the second row on: read off the
  log, or rebuilt when only the state columns and the adaptive quantity are given, under both interfaces; and
  verify, which rebuilds it on a node that logs it, finds no difference. (The law is the Python one, over exact
  reals, and the columns are not rounded.)\<close>

theorem applied_command_recovered:
  assumes "mg_init k p = Inr m" and "mg_log m vss = Inr outs" and "mp_interface p = Some ifp" and "mp_dt p \<noteq> 0"
  shows "applied_command (mg_columns k outs) ifp (mp_dt p) False = Inr (tl (map row_app outs)) \<and>
    applied_command (reduced_columns k (mg_columns k outs)) ifp (mp_dt p) False = Inr (tl (map row_app outs)) \<and>
    verify_node (mg_columns k outs) ifp (mp_dt p) = (if length outs < 2 then Inl ValueError else Inr (Some 0))"
proof -
  let ?d = "mg_columns k outs" and ?r = "reduced_columns k (mg_columns k outs)"
  have mu: "list_all (\<lambda>c. map_of ?d c \<noteq> None) MU_COLS" by (simp add: MU_COLS_def mg_columns_at)
  have app: "pairs_of ?d ''muapp_P'' ''muapp_Q'' = Inr (map row_app outs)"
    by (simp add: pairs_of_def col_def mg_columns_at zip_map_map zip_same_conv_map split_beta)
  have hd: "has_columns k ?d outs" by (cases k) (simp_all add: has_columns_def mg_columns_at)
  have hr: "has_columns k ?r outs"
    using hd by (cases k) (simp_all add: has_columns_def reduced_at mg_relay_columns_def)
  have nm: "\<not> list_all (\<lambda>c. map_of ?r c \<noteq> None) MU_COLS"
    by (cases k) (simp_all add: MU_COLS_def reduced_at mg_relay_columns_def)
  have "applied_command ?d ifp (mp_dt p) False = Inr (tl (map row_app outs))"
    using mu by (simp add: applied_command_def app)
  moreover have "applied_command ?r ifp (mp_dt p) False = Inr (tl (map row_app outs))"
    using rebuilt_command [OF assms hr] nm by blast
  moreover have "verify_node ?d ifp (mp_dt p) = (if length outs < 2 then Inl ValueError else Inr (Some 0))"
  proof -
    have same: "concat (map (\<lambda>(r, l). [\<bar>fst r - fst l\<bar>, \<bar>snd r - snd l\<bar>]) (zip xs xs)) = replicate (2 * length xs) 0"
      for xs :: "(real \<times> real) list" by (induction xs) (auto simp: numeral_2_eq_2)
    have "verify_node ?d ifp (mp_dt p) =
        (let errors = replicate (2 * length (tl (map row_app outs))) 0 in
          if errors = [] then Inl ValueError else Inr (Some (Max (set errors :: real set))))"
      using mu rebuilt_command [OF assms hd, of True]
      by (simp only: verify_node_def if_True app bindR_Inr same simp_thms Let_def)
    moreover have "Max (set (replicate n 0)) = (0 :: real)" if "n \<noteq> 0" for n using that by simp
    moreover have "length (tl (map row_app outs)) = 0 \<longleftrightarrow> length outs < 2" by simp arith
    ultimately show ?thesis by (simp only: Let_def) simp
  qed
  ultimately show ?thesis by blast
qed

subsection \<open>Rounded columns\<close>
















theorem applied_command_recovered_witness:
  "\<exists>outs w1 w2 app. mg_log demo [[1500000, 2500000], [], [1400000, 2400000]] = Inr outs \<and> length outs = 3 \<and>
     tl (map row_app outs) = [w1, w2] \<and>
     applied_command (reduced_columns MicrogridAdaptive (mg_columns MicrogridAdaptive outs)) app (1 / 40) False = Inr [w1, w2]"
proof -
  obtain m1 o1 where s1: "mg_step demo [1500000, 2500000] = Inr (m1, o1)" using mg_step_total [OF demo_facts(1)] .
  obtain m2 o2 where s2: "mg_step m1 [] = Inr (m2, o2)" using mg_step_total [OF mg_step_ok [OF demo_facts(1) s1]] .
  obtain m3 o3 where s3: "mg_step m2 [1400000, 2400000] = Inr (m3, o3)"
    using mg_step_total [OF mg_step_ok [OF mg_step_ok [OF demo_facts(1) s1] s2]] .
  have log: "mg_log demo [[1500000, 2500000], [], [1400000, 2400000]] = Inr [o1, o2, o3]" by (simp add: s1 s2 s3)
  obtain app where app: "mp_interface demo_params = Some app" by (simp add: demo_params_def)
  have dt: "mp_dt demo_params = 1 / 40" by (simp add: demo_params_def)
  have "applied_command (reduced_columns MicrogridAdaptive (mg_columns MicrogridAdaptive [o1, o2, o3])) app (1 / 40) False =
      Inr [row_app o2, row_app o3]"
    using applied_command_recovered [OF demo_init log app] unfolding dt by simp
  then show ?thesis using log by (intro exI [of _ "[o1, o2, o3]"] exI conjI) (assumption | simp)+
qed


end
