(* ===== verification/Units.thy ===== *)
theory Units
  imports Controllers RunLog
begin

section \<open>Unit systems of logged state (analysis/units.py)\<close>

text \<open>
  A run payload is its metadata's unit fields and its columns by name; a value of a column is a
  number or \<open>None\<close>. \<open>convert_value\<close>, \<open>detect_units\<close>, \<open>normalize_run\<close> and
  \<open>assert_consistent_units\<close> are the functions of the module. \<open>STATE_COLUMNS\<close> is computed from the
  registry as the module does when it is imported. \<open>relay_run_units\<close> settles which relayed logs
  can be normalised at all.
\<close>

definition ENGINEERING :: string where "ENGINEERING = ''engineering''"
definition SCALED_INT :: string where "SCALED_INT = ''scaled_int''"
definition UNIT_SYSTEMS :: "string list" where "UNIT_SYSTEMS = [ENGINEERING, SCALED_INT]"
definition LEGACY_UNITS :: string where "LEGACY_UNITS = SCALED_INT"

type_synonym column = "real option list"

record payload =
  py_units :: "string option"
  py_converted_from :: "string option"
  py_data :: "(string \<times> column) list"

text \<open>A name is added the first time it is met.\<close>

definition in_order :: "'a list \<Rightarrow> 'a list" where
  "in_order xs = foldl (\<lambda>out c. if c \<in> set out then out else out @ [c]) [] xs"

definition scaled_columns :: "registry \<Rightarrow> string list result" where
  "scaled_columns reg = bindR (traverse (\<lambda>(name, cls). relay_columns cls) reg) (\<lambda>cs. Inr (in_order (concat cs)))"

definition STATE_COLUMNS :: "string list" where
  "STATE_COLUMNS = projr (scaled_columns REGISTRY)"

definition PASSTHROUGH_COLUMNS :: "string list" where
  "PASSTHROUGH_COLUMNS = [''timestamp'', ''device_timestamp'']"

definition PASSTHROUGH_PREFIXES :: "string list" where
  "PASSTHROUGH_PREFIXES = [''rx_'', ''seq_'', ''rssi_'']"

definition detect_units :: "payload \<Rightarrow> string" where
  "detect_units p =
     (case py_units p of Some u \<Rightarrow> if u \<in> set UNIT_SYSTEMS then u else LEGACY_UNITS | None \<Rightarrow> LEGACY_UNITS)"

definition convert_value :: "real option \<Rightarrow> string \<Rightarrow> string \<Rightarrow> real option result" where
  "convert_value value frm to =
     (if value = None \<or> frm = to then Inr value
      else if frm = SCALED_INT \<and> to = ENGINEERING then Inr (Some (the value / of_int SCALE_FACTOR))
      else if frm = ENGINEERING \<and> to = SCALED_INT then
        (let scaled = quantize (the value) in
         if \<not> (- (2 ^ 31) \<le> scaled \<and> scaled \<le> 2 ^ 31 - 1) then Inl ValueError
         else Inr (Some (of_int scaled)))
      else Inl ValueError)"

definition is_passthrough :: "string \<Rightarrow> bool" where
  "is_passthrough name \<longleftrightarrow>
     name \<in> set PASSTHROUGH_COLUMNS \<or> list_ex (\<lambda>pre. take (length pre) name = pre) PASSTHROUGH_PREFIXES"

text \<open>\<^verbatim>\<open>str.isdigit\<close> on an ASCII name.\<close>

definition isdigit :: "string \<Rightarrow> bool" where
  "isdigit name \<longleftrightarrow> name \<noteq> [] \<and> list_all (\<lambda>c. 48 \<le> (of_char c :: nat) \<and> (of_char c :: nat) \<le> 57) name"

text \<open>One column: the new entry, and whether its name is unknown.\<close>

definition convert_column :: "string \<Rightarrow> string \<Rightarrow> string \<times> column \<Rightarrow> ((string \<times> column) \<times> bool) result" where
  "convert_column frm to nc =
     (case nc of (name, column) \<Rightarrow>
        if is_passthrough name then Inr ((name, column), False)
        else if name \<in> set STATE_COLUMNS \<or> isdigit name then
          bindR (traverse (\<lambda>v. convert_value v frm to) column) (\<lambda>vs. Inr ((name, vs), False))
        else Inr ((name, column), True))"

definition normalize_run :: "payload \<Rightarrow> string \<Rightarrow> payload result" where
  "normalize_run p to =
     (if to \<notin> set UNIT_SYSTEMS then Inl ValueError
      else
        let frm = detect_units p; out = p\<lparr>py_units := Some to, py_converted_from := Some frm\<rparr> in
        if frm = to then Inr out
        else bindR (traverse (convert_column frm to) (py_data p)) (\<lambda>cs.
          if list_ex snd cs then Inl UnknownColumn else Inr (out\<lparr>py_data := map fst cs\<rparr>)))"

definition assert_consistent_units :: "payload list \<Rightarrow> string result" where
  "assert_consistent_units ps =
     (case in_order (map detect_units ps) of
        [] \<Rightarrow> Inr ENGINEERING
      | [u] \<Rightarrow> Inr u
      | _ \<Rightarrow> Inl UnitMismatch)"

subsection \<open>The scaled columns\<close>

lemma unit_systems [simp]:
  "ENGINEERING \<in> set UNIT_SYSTEMS" "SCALED_INT \<in> set UNIT_SYSTEMS" "ENGINEERING \<noteq> SCALED_INT" "SCALED_INT \<noteq> ENGINEERING"
  by (simp_all add: UNIT_SYSTEMS_def ENGINEERING_def SCALED_INT_def)

lemma relay_columns_of [simp]:
  "relay_columns ft_class = Inr [''state'', ''vstate'', ''vartheta'']"
  "relay_columns (mg_class k) = Inr (mg_relay_columns k)"
proof -
  show "relay_columns ft_class = Inr [''state'', ''vstate'', ''vartheta'']"
    unfolding relay_columns_def by simp (simp add: ft_class_def column_names_def)
  show "relay_columns (mg_class k) = Inr (mg_relay_columns k)" by (cases k) (simp_all add: relay_columns_def)
qed

lemma STATE_COLUMNS_eq:
  "STATE_COLUMNS = [''state'', ''vstate'', ''vartheta'', ''state_P'', ''state_Q'', ''vstate_P'', ''vstate_Q'', ''S1'', ''S2'']"
  by (simp add: STATE_COLUMNS_def scaled_columns_def REGISTRY_def in_order_def mg_relay_columns_def)

subsection \<open>Names of a relayed node's columns\<close>

lemma show_nat_digits: "show_nat n \<noteq> [] \<and> list_all (\<lambda>c. 48 \<le> (of_char c :: nat) \<and> (of_char c :: nat) \<le> 57) (show_nat n)"
proof (induction n rule: show_nat.induct)
  case (1 n)
  have "48 \<le> (of_char (char_of (48 + d :: nat) :: char) :: nat) \<and> (of_char (char_of (48 + d) :: char) :: nat) \<le> 57"
    if "d < 10" for d :: nat using that by (simp add: of_char_of take_bit_eq_mod)
  moreover have "n mod 10 < 10" by simp
  ultimately show ?case using 1 by (subst (1 2) show_nat.simps) (simp del: of_char_of)
qed

lemma isdigit_str_int: "0 \<le> n \<Longrightarrow> isdigit (str_int n)"
  using show_nat_digits [of "nat n"] by (simp add: isdigit_def str_int_def)

lemma digit_name:
  assumes "isdigit d"
  shows "\<not> is_passthrough (d @ r)" and "d @ r \<notin> set STATE_COLUMNS" and "\<not> isdigit (d @ CHR ''_'' # r)"
proof -
  obtain c cs where d: "d = c # cs" "48 \<le> (of_char c :: nat)" "(of_char c :: nat) \<le> 57"
    using assms by (cases d) (auto simp: isdigit_def)
  have "c \<noteq> CHR ''r''" "c \<noteq> CHR ''s''" "c \<noteq> CHR ''t''" "c \<noteq> CHR ''d''" "c \<noteq> CHR ''v''" "c \<noteq> CHR ''S''"
    using d(2,3) by auto
  then show "\<not> is_passthrough (d @ r)" and "d @ r \<notin> set STATE_COLUMNS"
    by (simp_all add: d(1) is_passthrough_def PASSTHROUGH_COLUMNS_def PASSTHROUGH_PREFIXES_def STATE_COLUMNS_eq)
  show "\<not> isdigit (d @ CHR ''_'' # r)" by (simp add: isdigit_def)
qed

text \<open>What a name is to the converter.\<close>

definition known_column :: "string \<Rightarrow> bool" where
  "known_column name \<longleftrightarrow> is_passthrough name \<or> name \<in> set STATE_COLUMNS \<or> isdigit name"

definition relay_meta :: "controller_class \<Rightarrow> run_meta \<Rightarrow> bool" where
  "relay_meta cls m \<longleftrightarrow> relay_columns cls = Inr (rm_state_columns m) \<and> rm_timing_columns m = [] \<and>
     rm_dim m = cl_dim cls \<and> list_all (\<lambda>n. 0 \<le> n) (rm_neighbors m)"

lemma relay_names_known:
  assumes "map_of REGISTRY name = Some cls" and "relay_meta cls m"
  shows "list_all known_column (log_column_names m) \<longleftrightarrow> cl_dim cls = 1 \<or> rm_neighbors m = []"
proof -
  have cls: "cls \<in> {ft_class, mg_class MicrogridAdaptive, mg_class MicrogridLC}"
    using assms(1) by (auto simp: registry_lookup split: if_splits)
  then have d: "cl_dim cls = 1 \<or> cl_dim cls = 2" by (auto simp: ft_class_def mg_class_def)
  have "rm_state_columns m = projr (relay_columns cls)" using assms(2) by (simp add: relay_meta_def)
  then have "list_all known_column ([''timestamp'', ''device_timestamp''] @ rm_state_columns m)"
    using cls
    by (auto simp: known_column_def is_passthrough_def PASSTHROUGH_COLUMNS_def STATE_COLUMNS_eq mg_relay_columns_def)
  moreover have "known_column (''rx_'' @ s) \<and> known_column (''seq_'' @ s) \<and> known_column (''rssi_'' @ s)" for s
    by (simp add: known_column_def is_passthrough_def PASSTHROUGH_PREFIXES_def)
  moreover have "known_column (str_int n) \<and> \<not> known_column (str_int n @ ''_P'')" if "0 \<le> n" for n
    using digit_name [OF isdigit_str_int [OF that]] isdigit_str_int [OF that] by (simp add: known_column_def)
  ultimately show ?thesis
    using assms(2) d by (cases "rm_neighbors m") (auto simp: relay_meta_def log_column_names_def COORD_SUFFIX_def list_all_iff)
qed

subsection \<open>Converting a run\<close>

text \<open>What \<^verbatim>\<open>dequantize\<close> makes of a column.\<close>

definition engineering_column :: "string \<times> column \<Rightarrow> string \<times> column" where
  "engineering_column nc =
     (if is_passthrough (fst nc) \<or> \<not> known_column (fst nc) then nc
      else (fst nc, map (map_option (\<lambda>v. v / 1000000)) (snd nc)))"

lemma convert_scaled [simp]: "convert_value v SCALED_INT ENGINEERING = Inr (map_option (\<lambda>v. v / 1000000) v)"
  by (cases v) (simp_all add: convert_value_def SCALE_FACTOR_def)

lemma convert_column_scaled:
  "convert_column SCALED_INT ENGINEERING nc = Inr (engineering_column nc, \<not> known_column (fst nc))"
  by (cases nc) (auto simp: convert_column_def engineering_column_def known_column_def traverse_all_Inr)

lemma normalize_scaled:
  assumes "detect_units p = SCALED_INT"
  shows "normalize_run p ENGINEERING =
    (if list_all known_column (map fst (py_data p))
     then Inr (p\<lparr>py_units := Some ENGINEERING, py_converted_from := Some SCALED_INT,
                 py_data := map engineering_column (py_data p)\<rparr>)
     else Inl UnknownColumn)"
proof -
  have "traverse (convert_column SCALED_INT ENGINEERING) (py_data p) =
      Inr (map (\<lambda>nc. (engineering_column nc, \<not> known_column (fst nc))) (py_data p))"
    by (rule traverse_all_Inr) (rule convert_column_scaled)
  then show ?thesis
    using assms by (auto simp: normalize_run_def Let_def comp_def list_all_iff list_ex_iff)
qed

text \<open>A board's log can be brought to engineering units exactly when its law is scalar or it has no
  neighbour: the two coordinates of a neighbour are logged under names the converter refuses.\<close>

theorem relay_run_units:
  assumes "map_of REGISTRY name = Some cls" and "relay_meta cls m"
    and "py_units p = Some ''scaled_int''" and "set (map fst (py_data p)) = set (log_column_names m)"
  shows "normalize_run p ENGINEERING =
    (if cl_dim cls = 1 \<or> rm_neighbors m = []
     then Inr (p\<lparr>py_units := Some ENGINEERING, py_converted_from := Some SCALED_INT,
                 py_data := map engineering_column (py_data p)\<rparr>)
     else Inl UnknownColumn)"
proof -
  have "detect_units p = SCALED_INT" using assms(3) by (simp add: detect_units_def UNIT_SYSTEMS_def SCALED_INT_def)
  moreover have "list_all known_column (map fst (py_data p)) \<longleftrightarrow> cl_dim cls = 1 \<or> rm_neighbors m = []"
    using relay_names_known [OF assms(1,2)] assms(4) by (simp only: list_all_iff)
  ultimately show ?thesis by (simp only: normalize_scaled)
qed

text \<open>A quantity converted to scaled integers and back is off by at most half a unit in the sixth
  place, a scaled integer survives the way back and forth, and what does not fit 32 bits is refused.\<close>

theorem convert_value_round_trip:
  "convert_value (Some x) ENGINEERING SCALED_INT = Inr (Some y) \<Longrightarrow>
     \<exists>z. convert_value (Some y) SCALED_INT ENGINEERING = Inr (Some z) \<and> \<bar>z - x\<bar> \<le> 1 / 2000000"
proof -
  assume "convert_value (Some x) ENGINEERING SCALED_INT = Inr (Some y)"
  then have "y = of_int (quantize x)" by (simp add: convert_value_def Let_def split: if_splits)
  then show ?thesis using quantize_error [of x] unfolding dequantize_def SCALE_FACTOR_def
    by (intro exI [of _ "of_int (quantize x) / 1000000"] conjI) simp_all
qed

lemma convert_back:
  assumes "- (2 ^ 31) \<le> n" and "n < 2 ^ 31"
  shows "convert_value (Some (of_int n / 1000000)) ENGINEERING SCALED_INT = Inr (Some (of_int n))"
  using assms quantize_dequantize [of n] by (simp add: convert_value_def Let_def dequantize_def SCALE_FACTOR_def)

lemma in_order_set: "set (in_order xs) = set xs" "distinct (in_order xs)"
proof -
  have "set (foldl (\<lambda>out c. if c \<in> set out then out else out @ [c]) acc xs) = set acc \<union> set xs \<and>
      (distinct acc \<longrightarrow> distinct (foldl (\<lambda>out c. if c \<in> set out then out else out @ [c]) acc xs))" for acc
    by (induction xs arbitrary: acc) auto
  from this [of "[]"] show "set (in_order xs) = set xs" "distinct (in_order xs)" by (auto simp: in_order_def)
qed

lemma in_order_distinct: "distinct xs \<Longrightarrow> in_order xs = xs"
proof -
  have "distinct (acc @ xs) \<Longrightarrow> foldl (\<lambda>out c. if c \<in> set out then out else out @ [c]) acc xs = acc @ xs" for acc
    by (induction xs arbitrary: acc) auto
  from this [of "[]"] show "distinct xs \<Longrightarrow> in_order xs = xs" by (simp add: in_order_def)
qed

lemma consistent_iff: "assert_consistent_units ps = Inr u \<longleftrightarrow> (ps = [] \<and> u = ENGINEERING) \<or> set (map detect_units ps) = {u}"
proof -
  define us where "us = in_order (map detect_units ps)"
  have us: "set us = detect_units ` set ps" "distinct us" using in_order_set [of "map detect_units ps"] by (simp_all add: us_def)
  show ?thesis
  proof (cases us)
    case Nil
    then show ?thesis using us unfolding assert_consistent_units_def us_def [symmetric] by auto
  next
    case (Cons a vs)
    show ?thesis
    proof (cases vs)
      case Nil
      then show ?thesis using us Cons unfolding assert_consistent_units_def us_def [symmetric] by auto
    next
      fix b ws assume "vs = b # ws"
      moreover from this have ab: "a \<noteq> b" "{a, b} \<subseteq> set (map detect_units ps)" using us Cons by auto
      moreover have "set (map detect_units ps) \<noteq> {u}"
      proof
        assume e: "set (map detect_units ps) = {u}"
        show False using ab unfolding e by simp
      qed
      moreover have "ps \<noteq> []" using ab by auto
      ultimately show ?thesis using Cons unfolding assert_consistent_units_def us_def [symmetric] by simp
    qed
  qed
qed

lemma normalize_units:
  assumes "normalize_run p to = Inr q"
  shows "detect_units q = to" "py_converted_from q = Some (detect_units p)" "map fst (py_data q) = map fst (py_data p)"
proof -
  have names: "traverse (convert_column frm to) d = Inr cs \<Longrightarrow> map (fst \<circ> fst) cs = map fst d" for frm d cs
  proof (induction d arbitrary: cs)
    case (Cons nc d)
    then obtain c cs' where c: "convert_column frm to nc = Inr c" "traverse (convert_column frm to) d = Inr cs'" "cs = c # cs'"
      by (auto simp: bindR_eq_Inr)
    have "fst (fst c) = fst nc"
      using c(1) by (cases nc) (auto simp: convert_column_def bindR_eq_Inr split: if_splits)
    then show ?case using Cons.IH [OF c(2)] c(3) by simp
  qed simp
  show "detect_units q = to" "py_converted_from q = Some (detect_units p)" "map fst (py_data q) = map fst (py_data p)"
    using assms names
    by (auto simp: normalize_run_def Let_def bindR_eq_Inr detect_units_def [of q] detect_units_def [of "_\<lparr>py_data := _\<rparr>"]
        split: if_splits)
qed

text \<open>Runs brought to one unit system can be combined.\<close>

theorem normalized_runs_combine:
  assumes "traverse (\<lambda>p. normalize_run p to) (p # ps) = Inr qs"
  shows "assert_consistent_units qs = Inr to \<and>
    assert_consistent_units (qs @ [q]) = (if detect_units q = to then Inr to else Inl UnitMismatch)"
proof -
  have "traverse (\<lambda>p. normalize_run p to) xs = Inr ys \<Longrightarrow> \<forall>y \<in> set ys. detect_units y = to" for xs ys
    by (induction xs arbitrary: ys) (auto simp: bindR_eq_Inr normalize_units(1))
  from this [OF assms] have all: "set (map detect_units qs) = {to}"
    using assms by (cases qs) (auto simp: bindR_eq_Inr)
  then have "assert_consistent_units qs = Inr to" by (simp add: consistent_iff)
  moreover have "assert_consistent_units (qs @ [q]) = (if detect_units q = to then Inr to else Inl UnitMismatch)"
  proof (cases "detect_units q = to")
    case False
    obtain a b us where "in_order (map detect_units (qs @ [q])) = a # b # us"
    proof -
      define vs where "vs = in_order (map detect_units (qs @ [q]))"
      have "set vs = {to, detect_units q}" using all in_order_set(1) [of "map detect_units (qs @ [q])"] by (auto simp: vs_def)
      then show ?thesis using that False unfolding vs_def [symmetric] by (cases vs; cases "tl vs") auto
    qed
    then show ?thesis using False by (simp only: assert_consistent_units_def) simp
  qed (use all in \<open>simp add: consistent_iff\<close>)
  ultimately show ?thesis by blast
qed

end
