(* ===== verification/RunLoad.thy ===== *)
theory RunLoad
  imports Units
begin

section \<open>Reading a collected run (analysis/load.py)\<close>

text \<open>
  \<open>load_node\<close> takes a node's metadata file and rows file (binary format), \<open>node_run\<close> is
  \<^verbatim>\<open>NodeRun\<close>: the metadata and the columns by name, in engineering units. \<open>f64_real\<close> is the
  value of a finite float. The figures computed from the columns are \<open>sigma\<close>, \<open>freshness\<close>,
  \<open>link_delivery\<close>, \<open>vstate_at\<close>, \<open>spread\<close> and \<open>links\<close>; arithmetic on a \<open>None\<close> is a
  \<^verbatim>\<open>TypeError\<close>. \<open>loaded_rows\<close> closes the loop from the rows the agent appended to the columns an
  analysis reads. The node type, the environment metadata and \<^verbatim>\<open>run.json\<close> are not modelled.
\<close>

definition f64_real :: "f64 \<Rightarrow> real" where
  "f64_real w =
     (let e = uint (take_bit 11 (drop_bit 52 w)); m = uint (take_bit 52 w);
          a = (if e = 0 then of_int m * 2 powi (- 1074) else of_int (m + 2 ^ 52) * 2 powi (e - 1075))
      in if bit w 63 then - a else a)"

record node_run =
  nr_node :: int
  nr_meta :: run_meta
  nr_data :: "(string \<times> column) list"

text \<open>The rows by column: a row that ends early leaves the later columns as they are.\<close>

definition columns_of :: "string list \<Rightarrow> f64 list list \<Rightarrow> (string \<times> column) list" where
  "columns_of names rows =
     map (\<lambda>n. (n, concat (map (\<lambda>row.
        map (\<lambda>i. Some (f64_real (row ! i))) (filter (\<lambda>i. names ! i = n \<and> i < length row) [0..<length names])) rows)))
       (in_order names)"

definition load_node :: "run_meta option \<Rightarrow> bytes option \<Rightarrow> int \<Rightarrow> node_run result" where
  "load_node meta_file rows_file node_id =
     (case meta_file of None \<Rightarrow> Inl FileNotFoundError
      | Some m \<Rightarrow>
          (case rows_file of None \<Rightarrow> Inl FileNotFoundError
           | Some blob \<Rightarrow>
               bindR (recover_rows m blob) (\<lambda>rows.
               bindR (normalize_run \<lparr>py_units = Some (rm_units m), py_converted_from = None,
                                     py_data = columns_of (rm_columns m) rows\<rparr> ENGINEERING) (\<lambda>p.
                 Inr \<lparr>nr_node = node_id, nr_meta = m\<lparr>rm_units := the (py_units p)\<rparr>, nr_data = py_data p\<rparr>))))"

subsection \<open>Figures of one node\<close>

definition column :: "node_run \<Rightarrow> string \<Rightarrow> column result" where
  "column n name = (case map_of (nr_data n) name of None \<Rightarrow> Inl KeyError | Some c \<Rightarrow> Inr c)"

definition column_or :: "node_run \<Rightarrow> string \<Rightarrow> column result \<Rightarrow> column result" where
  "column_or n name alt = (case map_of (nr_data n) name of None \<Rightarrow> alt | Some c \<Rightarrow> Inr c)"

text \<open>A column whose values are used as numbers.\<close>

definition numbers :: "column \<Rightarrow> real list result" where
  "numbers c = traverse (\<lambda>v. case v of None \<Rightarrow> Inl TypeError | Some x \<Rightarrow> Inr x) c"

definition device_t :: "node_run \<Rightarrow> column result" where
  "device_t n = bindR (column n ''timestamp'') (\<lambda>t. column_or n ''device_timestamp'' (Inr t))"

definition differences :: "column \<Rightarrow> column \<Rightarrow> real list result" where
  "differences xs ys =
     traverse (\<lambda>(x, y). case (x, y) of (Some a, Some b) \<Rightarrow> Inr (a - b) | _ \<Rightarrow> Inl TypeError) (zip xs ys)"

definition node_sigma :: "node_run \<Rightarrow> real list result" where
  "node_sigma n = bindR (column n ''state'') (\<lambda>xs. bindR (column n ''vstate'') (\<lambda>zs. differences xs zs))"

definition clock_offset_s :: "node_run \<Rightarrow> real list result" where
  "clock_offset_s n = bindR (device_t n) (\<lambda>ds. bindR (column n ''timestamp'') (\<lambda>hs. differences ds hs))"

definition int_name :: "string \<Rightarrow> int" where
  "int_name name = foldl (\<lambda>a c. 10 * a + (int (of_char c) - 48)) 0 name"

definition neighbours :: "node_run \<Rightarrow> int list" where
  "neighbours n = map int_name (filter isdigit (map fst (nr_data n)))"

definition freshness :: "node_run \<Rightarrow> int \<Rightarrow> real result" where
  "freshness n nid =
     bindR (column n (''rx_'' @ str_int nid)) (\<lambda>f. bindR (numbers f) (\<lambda>xs.
       Inr (if xs = [] then 0 else sum_list xs / of_nat (length xs))))"

definition rate_hz :: "node_run \<Rightarrow> real result" where
  "rate_hz n =
     bindR (column n ''timestamp'') (\<lambda>t.
       if length t \<le> 1 then Inr 0
       else case (last t, hd t) of
         (Some b, Some a) \<Rightarrow> Inr (if b - a = 0 then 0 else (of_nat (length t) - 1) / (b - a))
       | _ \<Rightarrow> Inl TypeError)"

subsection \<open>Delivery from sequence numbers\<close>

definition int_of_real :: "real \<Rightarrow> int" where
  "int_of_real x = (if x < 0 then - \<lfloor>- x\<rfloor> else \<lfloor>x\<rfloor>)"

datatype link_report =
    Nothing
  | Inconsistent int nat nat
  | Delivery int nat int real nat bool nat

text \<open>\<^verbatim>\<open>seqs.index(min(seqs))\<close>, and the rest of the series from there.\<close>

definition first_min :: "int list \<Rightarrow> nat" where
  "first_min seqs = length (takeWhile (\<lambda>s. s \<noteq> Min (set seqs)) seqs)"

definition seq_jumps :: "int list \<Rightarrow> nat" where
  "seq_jumps seqs = length (filter (\<lambda>(a, b). 1 < (b - a) mod 65536 \<and> (b - a) mod 65536 < 1000) (zip seqs (tl seqs)))"

text \<open>The report on a window, given the length of the prefix dropped before it.\<close>

definition window_report :: "nat \<Rightarrow> int list \<Rightarrow> link_report" where
  "window_report stale win =
     (if length win < 2 then Nothing
      else
        let span = (last win - hd win) mod 65536 + 1; received = card (set win) in
        if span < int received then Inconsistent span received stale
        else Delivery span received (max 0 (span - int received))
               (if span = 0 then 0 else of_int (py_round (of_nat received / of_int span * 10000)) / 10000)
               stale (seq_jumps win > 0) (seq_jumps win))"

definition delivery_of :: "int list \<Rightarrow> link_report" where
  "delivery_of raw =
     (let seqs = filter (\<lambda>s. s \<noteq> 0) raw in
      if length seqs < 2 then Nothing else window_report (first_min seqs) (drop (first_min seqs) seqs))"

definition link_delivery :: "node_run \<Rightarrow> int \<Rightarrow> link_report result" where
  "link_delivery n nid =
     bindR (column_or n (''seq_'' @ str_int nid) (Inr [])) (\<lambda>c. bindR (numbers c) (\<lambda>xs.
       Inr (delivery_of (map int_of_real xs))))"

subsection \<open>Figures of the fleet\<close>

text \<open>\<^verbatim>\<open>min(range(len(t)), key=...)\<close>: the first index with the least distance.\<close>

definition nearest :: "real list \<Rightarrow> real \<Rightarrow> nat" where
  "nearest t at_s = length (takeWhile (\<lambda>x. \<bar>x - at_s\<bar> \<noteq> Min ((\<lambda>x. \<bar>x - at_s\<bar>) ` set t)) t)"

definition vstate_at :: "node_run \<Rightarrow> real \<Rightarrow> real option result" where
  "vstate_at n at_s =
     bindR (column n ''timestamp'') (\<lambda>c.
       if c = [] then Inr None
       else bindR (numbers c) (\<lambda>t. bindR (column n ''vstate'') (\<lambda>zs.
         if nearest t at_s < length zs then Inr (zs ! nearest t at_s) else Inl IndexError)))"

definition spread :: "node_run list \<Rightarrow> real \<Rightarrow> real result" where
  "spread nodes at_s =
     bindR (traverse (\<lambda>n. vstate_at n at_s) nodes) (\<lambda>vs.
       let vals = map the (filter (\<lambda>v. v \<noteq> None) vs) in
       Inr (if vals = [] then 0 else Max (set vals) - Min (set vals)))"

text \<open>\<open>nodes\<close> is the list of nodes by ascending id.\<close>

definition links :: "node_run list \<Rightarrow> (int \<times> int \<times> real) list result" where
  "links nodes =
     bindR (traverse (\<lambda>n. traverse (\<lambda>src. bindR (freshness n src) (\<lambda>f. Inr (src, nr_node n, f))) (neighbours n)) nodes)
       (\<lambda>ls. Inr (concat ls))"

subsection \<open>From the appended rows to the loaded columns\<close>

lemma log_close_ok:
  assumes "log_ok L"
  shows "lg_meta_file (log_close L) = Some ((lg_meta L)\<lparr>rm_samples := lg_count L\<rparr>)"
    and "recover_rows ((lg_meta L)\<lparr>rm_samples := k\<rparr>) (lg_file (log_close L)) = Inr (log_content L)"
proof -
  have op: "lg_open L" and n: "0 < lg_ncols L" "rm_record_bytes (lg_meta L) = 8 * lg_ncols L"
    using assms by (auto simp: log_ok_def)
  have f: "lg_file (log_close L) = lg_file L @ lg_buf L"
    "lg_meta_file (log_close L) = Some ((lg_meta L)\<lparr>rm_samples := lg_count L\<rparr>)"
    using op by (auto simp: log_close_def log_flush_def log_write_meta_def Let_def)
  then show "lg_meta_file (log_close L) = Some ((lg_meta L)\<lparr>rm_samples := lg_count L\<rparr>)" by simp
  show "recover_rows ((lg_meta L)\<lparr>rm_samples := k\<rparr>) (lg_file (log_close L)) = Inr (log_content L)"
    using n f(1) by (simp add: recover_rows_eq log_content_def)
qed

lemma only_index:
  assumes "distinct names" and "i < length names" and "length names \<le> k"
  shows "filter (\<lambda>j. names ! j = names ! i \<and> j < k) [0..<length names] = [i]"
proof -
  have "filter (\<lambda>j. names ! j = names ! i \<and> j < k) [0..<length names] = filter (\<lambda>j. j = i) [0..<length names]"
    using assms by (intro filter_cong) (auto simp: nth_eq_iff_index_eq)
  also have "i < n \<Longrightarrow> filter (\<lambda>j. j = i) [0..<n] = [i]" for n
    by (induction n) (auto simp: filter_empty_conv less_Suc_eq)
  note this [OF assms(2)]
  finally show ?thesis .
qed

lemma columns_of_at:
  assumes "distinct names" and "i < length names" and "list_all (\<lambda>row. length row = length names) rows"
  shows "map_of (columns_of names rows) (names ! i) = Some (map (\<lambda>row. Some (f64_real (row ! i))) rows)"
proof -
  have "concat (map (\<lambda>row. map (\<lambda>j. Some (f64_real (row ! j))) (filter (\<lambda>j. names ! j = names ! i \<and> j < length row) [0..<length names])) rows) =
      map (\<lambda>row. Some (f64_real (row ! i))) rows"
    using assms(3) by (induction rows) (simp_all add: only_index [OF assms(1,2)])
  then show ?thesis using assms(1,2) by (simp add: columns_of_def in_order_distinct map_of_map_restrict)
qed

lemma columns_of_names [simp]: "set (map fst (columns_of names rows)) = set names"
  by (simp add: columns_of_def in_order_set comp_def)

lemma length_log_column_names:
  assumes "rm_dim m = 1 \<or> rm_dim m = 2"
  shows "length (log_column_names m) =
    record_width (length (rm_neighbors m)) (length (rm_state_columns m)) (length (rm_timing_columns m)) (rm_dim m)"
  using assms by (auto simp: log_column_names_def record_width_def length_concat comp_def COORD_SUFFIX_def sum_list_triv)

lemma append_many_meta: "lg_meta (blog.append_many L ss) = lg_meta L"
proof (induction ss arbitrary: L)
  case (Cons s ss)
  have "lg_meta (blog.append_or_drop L s) = lg_meta L"
    by (auto simp: blog.append_or_drop_def log_append_def Let_def log_flush_def split: sum.splits if_splits)
  then show ?case using Cons by (simp add: blog.append_many_def)
qed (simp add: blog.append_many_def)

lemma log_after_facts:
  assumes "log_new m k = Inr L0"
  shows "log_ok (log_after L0 ss)" and "log_content (log_after L0 ss) = accepted_rows L0 ss"
    and "lg_meta (log_after L0 ss) = m\<lparr>rm_samples := 0, rm_record_bytes := lg_ncols L0 * 8, rm_columns := log_column_names m\<rparr>"
    and "list_all (\<lambda>row. length row = lg_ncols L0) (accepted_rows L0 ss)"
proof -
  note st = log_start_ok [OF assms]
  show ok: "log_ok (log_after L0 ss)" and c: "log_content (log_after L0 ss) = accepted_rows L0 ss"
    unfolding log_after_def accepted_rows_def using blog.append_many_refines [OF st(1)] st(2) by simp_all
  show "lg_meta (log_after L0 ss) = m\<lparr>rm_samples := 0, rm_record_bytes := lg_ncols L0 * 8, rm_columns := log_column_names m\<rparr>"
    using assms
    by (auto simp: log_after_def append_many_meta log_new_def log_start_def log_write_meta_def Let_def split: if_splits)
  have "lg_ncols (log_after L0 ss) = lg_ncols L0"
    by (simp add: log_after_def append_many_frame log_start_def log_write_meta_def Let_def)
  then show "list_all (\<lambda>row. length row = lg_ncols L0) (accepted_rows L0 ss)"
    unfolding c [symmetric] by (auto simp: log_content_def rows_in_def list_all_iff)
qed

lemma log_new_ncols:
  "log_new m k = Inr L0 \<Longrightarrow>
    lg_ncols L0 = record_width (length (rm_neighbors m)) (length (rm_state_columns m)) (length (rm_timing_columns m)) (rm_dim m)"
  by (auto simp: log_new_def Let_def split: if_splits)

text \<open>What a closed log reads back as, whatever its units.\<close>

lemma load_closed:
  assumes "log_new m k = Inr L0"
  shows "\<exists>md. lg_meta_file (log_close (log_after L0 ss)) = Some md \<and> rm_units md = rm_units m \<and>
    load_node (Some md) (Some (lg_file (log_close (log_after L0 ss)))) nid =
      bindR (normalize_run \<lparr>py_units = Some (rm_units m), py_converted_from = None,
               py_data = columns_of (log_column_names m) (accepted_rows L0 ss)\<rparr> ENGINEERING)
        (\<lambda>p. Inr \<lparr>nr_node = nid, nr_meta = md\<lparr>rm_units := the (py_units p)\<rparr>, nr_data = py_data p\<rparr>)"
proof -
  define L where "L = log_after L0 ss"
  note f = log_after_facts [OF assms, of ss, folded L_def]
  have md: "rm_units ((lg_meta L)\<lparr>rm_samples := lg_count L\<rparr>) = rm_units m"
    "rm_columns ((lg_meta L)\<lparr>rm_samples := lg_count L\<rparr>) = log_column_names m" by (simp_all add: f(3))
  show ?thesis
    using log_close_ok [OF f(1)] md unfolding L_def [symmetric]
    by (intro exI [of _ "(lg_meta L)\<lparr>rm_samples := lg_count L\<rparr>"]) (simp add: load_node_def f(2))
qed

text \<open>C37: The columns an analysis reads of a node that logs engineering units are the rows its agent
  appended, sample by sample.\<close>

theorem loaded_rows:
  assumes "log_new m k = Inr L0" and "rm_dim m = 1 \<or> rm_dim m = 2" and "distinct (log_column_names m)"
    and "rm_units m = ''engineering''" and "i < length (log_column_names m)"
  shows "\<exists>n. load_node (lg_meta_file (log_close (log_after L0 samples)))
               (Some (lg_file (log_close (log_after L0 samples)))) nid = Inr n \<and>
             column n (log_column_names m ! i) = Inr (map (\<lambda>row. Some (f64_real (row ! i))) (accepted_rows L0 samples))"
proof -
  note f = log_after_facts [OF assms(1), of samples]
  have "list_all (\<lambda>row. length row = length (log_column_names m)) (accepted_rows L0 samples)"
    using f(4) log_new_ncols [OF assms(1)] length_log_column_names [OF assms(2)] by simp
  then have "map_of (columns_of (log_column_names m) (accepted_rows L0 samples)) (log_column_names m ! i) =
      Some (map (\<lambda>row. Some (f64_real (row ! i))) (accepted_rows L0 samples))"
    by (rule columns_of_at [OF assms(3,5)])
  moreover have "normalize_run \<lparr>py_units = Some ''engineering'', py_converted_from = None, py_data = d\<rparr> ENGINEERING =
      Inr \<lparr>py_units = Some ENGINEERING, py_converted_from = Some ENGINEERING, py_data = d\<rparr>" for d
    by (simp add: normalize_run_def detect_units_def UNIT_SYSTEMS_def ENGINEERING_def Let_def)
  moreover obtain md where "lg_meta_file (log_close (log_after L0 samples)) = Some md"
    "load_node (Some md) (Some (lg_file (log_close (log_after L0 samples)))) nid =
      bindR (normalize_run \<lparr>py_units = Some (rm_units m), py_converted_from = None,
               py_data = columns_of (log_column_names m) (accepted_rows L0 samples)\<rparr> ENGINEERING)
        (\<lambda>p. Inr \<lparr>nr_node = nid, nr_meta = md\<lparr>rm_units := the (py_units p)\<rparr>, nr_data = py_data p\<rparr>)"
    using load_closed [OF assms(1), of samples nid] by blast
  ultimately show ?thesis by (simp add: assms(4) column_def)
qed

text \<open>C7: A board's log can be loaded exactly when its law is scalar or it has no neighbour, and then its
  state columns are brought to engineering units.\<close>

theorem relayed_run_loads:
  assumes "log_new m k = Inr L0" and "map_of REGISTRY name = Some cls" and "relay_meta cls m" and "rm_units m = ''scaled_int''"
  shows "if cl_dim cls = 1 \<or> rm_neighbors m = []
    then \<exists>n. load_node (lg_meta_file (log_close (log_after L0 samples)))
               (Some (lg_file (log_close (log_after L0 samples)))) nid = Inr n \<and>
             nr_data n = map engineering_column (columns_of (log_column_names m) (accepted_rows L0 samples))
    else load_node (lg_meta_file (log_close (log_after L0 samples)))
               (Some (lg_file (log_close (log_after L0 samples)))) nid = Inl UnknownColumn"
proof -
  define d where "d = columns_of (log_column_names m) (accepted_rows L0 samples)"
  obtain md where "lg_meta_file (log_close (log_after L0 samples)) = Some md"
    "load_node (Some md) (Some (lg_file (log_close (log_after L0 samples)))) nid =
      bindR (normalize_run \<lparr>py_units = Some (rm_units m), py_converted_from = None, py_data = d\<rparr> ENGINEERING)
        (\<lambda>p. Inr \<lparr>nr_node = nid, nr_meta = md\<lparr>rm_units := the (py_units p)\<rparr>, nr_data = py_data p\<rparr>)"
    using load_closed [OF assms(1), of samples nid] unfolding d_def by blast
  moreover have "list_all known_column (map fst d) \<longleftrightarrow> cl_dim cls = 1 \<or> rm_neighbors m = []"
    using relay_names_known [OF assms(2,3)] by (simp add: d_def list_all_iff del: set_map list.set_map)
  moreover have "detect_units \<lparr>py_units = Some (rm_units m), py_converted_from = None, py_data = d\<rparr> = SCALED_INT"
    by (simp add: assms(4) detect_units_def UNIT_SYSTEMS_def SCALED_INT_def)
  ultimately show ?thesis unfolding d_def [symmetric] by (simp add: normalize_scaled)
qed

subsection \<open>Delivery\<close>

lemma py_round_le: "x \<le> of_int n \<Longrightarrow> py_round x \<le> n"
proof -
  assume "x \<le> of_int n"
  then have "py_round x < n + 1" using py_round_close [of x] by linarith
  then show ?thesis by simp
qed

lemma py_round_ge: "of_int n \<le> x \<Longrightarrow> n \<le> py_round x"
proof -
  assume "of_int n \<le> x"
  then have "n - 1 < py_round x" using py_round_close [of x] by linarith
  then show ?thesis by simp
qed

theorem link_delivery_bounds:
  assumes "delivery_of raw = Delivery expected received lost ratio stale bunched jumps"
  shows "1 \<le> received \<and> int received + lost = expected \<and> 0 \<le> lost \<and> expected \<le> 65536 \<and> 0 \<le> ratio \<and> ratio \<le> 1"
proof -
  obtain k win where "delivery_of raw = window_report k win"
    using assms unfolding delivery_of_def Let_def by (metis link_report.distinct(3))
  then have rep: "window_report k win = Delivery expected received lost ratio stale bunched jumps" using assms by simp
  define e c where "e = (last win - hd win) mod 65536 + 1" and "c = card (set win)"
  have rep': "window_report k win =
      (if length win < 2 then Nothing else if e < int c then Inconsistent e c k
       else Delivery e c (max 0 (e - int c)) (if e = 0 then 0 else of_int (py_round (of_nat c / of_int e * 10000)) / 10000)
              k (seq_jumps win > 0) (seq_jumps win))"
    unfolding window_report_def Let_def e_def c_def ..
  have w: "\<not> length win < 2" "expected = e" "received = c" "int c \<le> e" "lost = max 0 (e - int c)"
      "ratio = (if e = 0 then 0 else of_int (py_round (of_nat c / of_int e * 10000)) / 10000)"
    using rep unfolding rep' by (auto split: if_split_asm)
  have "win \<noteq> []" using w(1) by auto
  then have r: "1 \<le> c" by (simp add: c_def Suc_le_eq card_gt_0_iff)
  have s: "0 < e" using r w(4) by linarith
  define x :: real where "x = of_nat c / of_int e * 10000"
  have "of_int (int c) \<le> (of_int e :: real)" using w(4) by (simp only: of_int_le_iff)
  then have "x \<le> of_int 10000" "of_int 0 \<le> x" using s by (simp_all add: x_def divide_le_eq)
  then have "py_round x \<le> 10000" "0 \<le> py_round x" using py_round_le py_round_ge by blast+
  moreover have "ratio = of_int (py_round x) / 10000" unfolding w(6) x_def [symmetric] using s by simp
  ultimately have "0 \<le> ratio \<and> ratio \<le> 1" by simp
  moreover have "(last win - hd win) mod 65536 < 65536" by simp
  then have "e \<le> 65536" unfolding e_def by (rule zless_imp_add1_zle)
  moreover have "int c + lost = e" "0 \<le> lost" using w(4) unfolding w(5) by simp_all
  ultimately show ?thesis using r w(2,3) by simp
qed

lemma sorted_hd_Min: "sorted xs \<Longrightarrow> xs \<noteq> [] \<Longrightarrow> Min (set xs) = hd xs"
  by (cases xs) (auto intro: Min_eqI)

lemma first_min_sorted: "sorted xs \<Longrightarrow> xs \<noteq> [] \<Longrightarrow> first_min xs = 0"
  using sorted_hd_Min [of xs] by (cases xs) (simp_all add: first_min_def)

lemma sorted_last_ge: "sorted xs \<Longrightarrow> x \<in> set xs \<Longrightarrow> x \<le> last xs"
  by (induction xs rule: rev_induct) (auto simp: sorted_append)

lemma sorted_hd_le: "sorted xs \<Longrightarrow> x \<in> set xs \<Longrightarrow> hd xs \<le> x"
  by (cases xs) auto

text \<open>The rows sample the newest sequence number, so packets that arrive between two rows are not
  seen: on a stream that does not wrap, the window is exact and the count is a lower bound of what
  arrived in it.\<close>

theorem delivery_is_lower_bound:
  assumes "sorted (filter (\<lambda>s. s \<noteq> 0) raw)" and "set raw \<subseteq> insert 0 arrived" and "arrived \<subseteq> {1..65535}"
    and "2 \<le> length (filter (\<lambda>s. s \<noteq> 0) raw)"
  shows "\<exists>a b ratio bunched jumps. a \<in> arrived \<and> b \<in> arrived \<and>
    delivery_of raw = Delivery (b - a + 1) (card (set raw - {0})) (b - a + 1 - int (card (set raw - {0}))) ratio 0 bunched jumps \<and>
    card (set raw - {0}) \<le> card (arrived \<inter> {a..b})"
proof -
  define seqs where "seqs = filter (\<lambda>s. s \<noteq> 0) raw"
  have seqs: "sorted seqs" "set seqs \<subseteq> arrived" "\<not> length seqs < 2" "seqs \<noteq> []" "set seqs = set raw - {0}"
    using assms by (auto simp: seqs_def)
  define a b where "a = hd seqs" and "b = last seqs"
  have ab: "a \<in> arrived" "b \<in> arrived" using seqs(2,4) by (auto simp: a_def b_def)
  have sub: "set seqs \<subseteq> arrived \<inter> {a..b}"
    using seqs(2) sorted_last_ge [OF seqs(1)] sorted_hd_le [OF seqs(1)] by (auto simp: a_def b_def)
  have fin: "finite (arrived \<inter> {a..b})" by simp
  have card: "card (set seqs) \<le> card (arrived \<inter> {a..b})" by (rule card_mono [OF fin sub])
  have "a \<le> b" using sub seqs(4) by (cases seqs) auto
  moreover have "1 \<le> a" "b \<le> 65535" using ab assms(3) by auto
  ultimately have wnd: "(b - a) mod 65536 = b - a" by (simp add: mod_pos_pos_trivial)
  have "card (set seqs) \<le> card {a..b}" using sub by (intro card_mono) auto
  then have fits: "int (card (set seqs)) \<le> b - a + 1" using \<open>a \<le> b\<close> by simp
  have "delivery_of raw = Delivery (b - a + 1) (card (set seqs)) (b - a + 1 - int (card (set seqs)))
      (of_int (py_round (of_nat (card (set seqs)) / of_int (b - a + 1) * 10000)) / 10000) 0 (seq_jumps seqs > 0) (seq_jumps seqs)"
    unfolding delivery_of_def seqs_def [symmetric] Let_def first_min_sorted [OF seqs(1,4)] window_report_def drop_0
    using seqs(3) wnd fits \<open>a \<le> b\<close> by (simp add: a_def [symmetric] b_def [symmetric] not_less)
  then show ?thesis using ab card unfolding seqs(5) by blast
qed

fun add_stale :: "nat \<Rightarrow> link_report \<Rightarrow> link_report" where
  "add_stale k Nothing = Nothing"
| "add_stale k (Inconsistent e r s) = Inconsistent e r (k + s)"
| "add_stale k (Delivery e r l q s b j) = Delivery e r l q (k + s) b j"

text \<open>A prefix of sequence numbers above what follows, left over from the run before, is discarded. A
  counter that wraps within one run looks the same: what was sampled before the wrap is discarded
  too.\<close>

theorem stale_prefix_discarded:
  assumes "\<forall>x\<in>set old. hd raw < x" and "sorted raw" and "raw \<noteq> []" and "0 < hd raw"
  shows "delivery_of (old @ raw) = add_stale (length old) (delivery_of raw)"
proof -
  have nz: "filter (\<lambda>s. s \<noteq> 0) old = old" "filter (\<lambda>s. s \<noteq> 0) raw = raw"
    using assms sorted_hd_le [OF assms(2)] by (fastforce simp: filter_id_conv)+
  have mn: "Min (set (old @ raw)) = hd raw"
    using assms sorted_hd_le [OF assms(2)] by (intro Min_eqI) (fastforce simp: less_imp_le)+
  have fm: "first_min (old @ raw) = length old"
  proof -
    have "\<forall>x\<in>set old. x \<noteq> hd raw" using assms(1) by auto
    then have "takeWhile (\<lambda>s. s \<noteq> hd raw) (old @ raw) = old" using assms(3) by (cases raw) (simp_all add: takeWhile_append2)
    then show ?thesis by (simp only: first_min_def mn)
  qed
  have "delivery_of (old @ raw) = (if length (old @ raw) < 2 then Nothing else add_stale (length old) (delivery_of raw))"
    unfolding delivery_of_def Let_def filter_append nz fm first_min_sorted [OF assms(2,3)] window_report_def
    by (simp add: py_round_of_int [of 0, simplified])
  then show ?thesis by (simp add: delivery_of_def nz)
qed

subsection \<open>Spread\<close>

lemma nearest_facts:
  assumes "t \<noteq> []"
  shows "nearest t a < length t" and "k < length t \<Longrightarrow> \<bar>t ! nearest t a - a\<bar> \<le> \<bar>t ! k - a\<bar>"
    and "k < nearest t a \<Longrightarrow> \<bar>t ! nearest t a - a\<bar> < \<bar>t ! k - a\<bar>"
proof -
  define D where "D = (\<lambda>x. \<bar>x - a\<bar>) ` set t"
  have D: "finite D" "D \<noteq> {}" using assms by (simp_all add: D_def)
  then have "Min D \<in> D" by (rule Min_in)
  then obtain x where x: "x \<in> set t" "\<bar>x - a\<bar> = Min D" unfolding D_def by fastforce
  have n: "nearest t a = length (takeWhile (\<lambda>x. \<bar>x - a\<bar> \<noteq> Min D) t)" by (simp add: nearest_def D_def)
  show lt: "nearest t a < length t"
  proof -
    have "y \<in> set ys \<Longrightarrow> \<not> P y \<Longrightarrow> length (takeWhile P ys) < length ys" for P ys and y :: real by (induction ys) auto
    from this [OF x(1)] show ?thesis using x(2) by (simp add: n)
  qed
  have at: "\<bar>t ! nearest t a - a\<bar> = Min D" using nth_length_takeWhile [of "\<lambda>x. \<bar>x - a\<bar> \<noteq> Min D" t] lt unfolding n by simp
  have le: "Min D \<le> \<bar>t ! k - a\<bar>" if "k < length t" using D(1) that by (simp add: D_def)
  then show "k < length t \<Longrightarrow> \<bar>t ! nearest t a - a\<bar> \<le> \<bar>t ! k - a\<bar>" by (simp add: at)
  assume k: "k < nearest t a"
  then have "\<bar>t ! k - a\<bar> \<noteq> Min D"
    using nth_mem [of k "takeWhile (\<lambda>x. \<bar>x - a\<bar> \<noteq> Min D) t"] set_takeWhileD [of "t ! k" "\<lambda>x. \<bar>x - a\<bar> \<noteq> Min D" t]
    unfolding n by (simp add: takeWhile_nth)
  then show "\<bar>t ! nearest t a - a\<bar> < \<bar>t ! k - a\<bar>" using le k lt at by simp
qed

text \<open>A node with rows \<open>(t, z)\<close>.\<close>

definition has_rows :: "node_run \<Rightarrow> (real \<times> real) list \<Rightarrow> bool" where
  "has_rows n rows \<longleftrightarrow> map_of (nr_data n) ''timestamp'' = Some (map (Some \<circ> fst) rows) \<and>
     map_of (nr_data n) ''vstate'' = Some (map (Some \<circ> snd) rows)"

lemma vstate_at_rows:
  assumes "has_rows n rows"
  shows "vstate_at n a = Inr (if rows = [] then None else Some (snd (rows ! nearest (map fst rows) a)))"
proof -
  have "numbers (map (Some \<circ> fst) rows) = Inr (map fst rows)"
    by (induction rows) (simp_all add: numbers_def)
  moreover have "rows \<noteq> [] \<Longrightarrow> nearest (map fst rows) a < length rows" using nearest_facts(1) [of "map fst rows" a] by simp
  ultimately show ?thesis using assms by (simp add: vstate_at_def column_def has_rows_def)
qed

text \<open>The spread of virtual states of a loaded fleet is computed on every fleet whose nodes have rows,
  from samples nearest in time, and is bounded by the band the virtual states stay in.\<close>

theorem spread_in_band:
  assumes "list_all2 has_rows nodes rowss" and "\<forall>rows \<in> set rowss. \<forall>(t, z) \<in> set rows. lo \<le> z \<and> z \<le> hi" and "lo \<le> hi"
  shows "\<exists>s. spread nodes a = Inr s \<and> 0 \<le> s \<and> s \<le> hi - lo"
proof -
  define f where "f rows = (if rows = [] then None else Some (snd (rows ! nearest (map fst rows) a)))"
    for rows :: "(real \<times> real) list"
  have "traverse (\<lambda>n. vstate_at n a) nodes = Inr (map f rowss)"
    using assms(1) by (induction rule: list_all2_induct) (simp_all add: vstate_at_rows f_def)
  moreover define vals where "vals = map the (filter (\<lambda>v. v \<noteq> None) (map f rowss))"
  moreover have band: "lo \<le> v \<and> v \<le> hi" if "v \<in> set vals" for v
  proof -
    obtain rows where r: "rows \<in> set rowss" "rows \<noteq> []" "v = snd (rows ! nearest (map fst rows) a)"
      using \<open>v \<in> set vals\<close> by (auto simp: vals_def f_def split: if_splits)
    then have "rows ! nearest (map fst rows) a \<in> set rows" using nearest_facts(1) [of "map fst rows" a] by simp
    then show ?thesis using assms(2) r(1,3) by fastforce
  qed
  moreover have "vals \<noteq> [] \<Longrightarrow> Min (set vals) \<le> Max (set vals) \<and> Max (set vals) \<le> hi \<and> lo \<le> Min (set vals)"
    using band by (auto intro: order.trans [OF Min_le Max_ge])
  ultimately show ?thesis using assms(3) by (auto simp: spread_def Let_def)
qed

subsection \<open>Witnesses\<close>

text \<open>A board running the adaptive microgrid law, with and without a neighbour.\<close>

definition board_meta :: "int list \<Rightarrow> run_meta" where
  "board_meta ns = \<lparr>rm_run_name = ''r'', rm_node_id = 1, rm_neighbors = ns, rm_dim = 2,
     rm_state_columns = mg_relay_columns MicrogridAdaptive, rm_timing_columns = [], rm_units = ''scaled_int'',
     rm_samples = 0, rm_columns = [], rm_record_bytes = 0\<rparr>"

lemma board_meta_ok:
  "map_of REGISTRY ''microgrid_adaptive'' = Some (mg_class MicrogridAdaptive)"
  "list_all (\<lambda>n. 0 \<le> n) ns \<Longrightarrow> relay_meta (mg_class MicrogridAdaptive) (board_meta ns)"
  "\<exists>L. log_new (board_meta ns) 1 = Inr L" "cl_dim (mg_class MicrogridAdaptive) = 2"
  by (simp_all add: registry_lookup relay_meta_def board_meta_def log_new_def Let_def) (simp_all add: mg_class_def)

theorem relay_run_units_witness:
  "normalize_run \<lparr>py_units = Some ''scaled_int'', py_converted_from = None,
     py_data = map (\<lambda>n. (n, [Some 5])) (log_column_names (board_meta [2]))\<rparr> ENGINEERING = Inl UnknownColumn \<and>
   (\<exists>q. normalize_run \<lparr>py_units = Some ''scaled_int'', py_converted_from = None,
     py_data = map (\<lambda>n. (n, [Some 5])) (log_column_names (board_meta []))\<rparr> ENGINEERING = Inr q \<and>
     map_of (py_data q) ''vartheta'' = Some [Some (5 / 1000000)])"
proof -
  have d: "relay_meta (mg_class MicrogridAdaptive) (board_meta [2])" "relay_meta (mg_class MicrogridAdaptive) (board_meta [])"
    by (simp_all add: board_meta_ok)
  have n: "rm_neighbors (board_meta ns) = ns" for ns by (simp add: board_meta_def)
  note R = relay_run_units [OF board_meta_ok(1) d(1), of "\<lparr>py_units = Some ''scaled_int'', py_converted_from = None,
     py_data = map (\<lambda>n. (n, [Some 5])) (log_column_names (board_meta [2]))\<rparr>"]
   relay_run_units [OF board_meta_ok(1) d(2), of "\<lparr>py_units = Some ''scaled_int'', py_converted_from = None,
     py_data = map (\<lambda>n. (n, [Some 5])) (log_column_names (board_meta []))\<rparr>"]
  have "normalize_run \<lparr>py_units = Some ''scaled_int'', py_converted_from = None,
     py_data = map (\<lambda>n. (n, [Some 5])) (log_column_names (board_meta [2]))\<rparr> ENGINEERING = Inl UnknownColumn"
    using R(1) by (simp add: board_meta_ok(4) n comp_def)
  moreover have "log_column_names (board_meta []) =
      [''timestamp'', ''device_timestamp'', ''state_P'', ''state_Q'', ''vstate_P'', ''vstate_Q'', ''vartheta'']"
    by (simp add: log_column_names_def board_meta_def mg_relay_columns_def)
  moreover from this have "map_of (map engineering_column (map (\<lambda>n. (n, [Some 5])) (log_column_names (board_meta [])))) ''vartheta'' =
      Some [Some (5 / 1000000)]"
    by (simp add: engineering_column_def known_column_def is_passthrough_def PASSTHROUGH_COLUMNS_def PASSTHROUGH_PREFIXES_def
        STATE_COLUMNS_eq)
  ultimately show ?thesis using R(2) by (simp add: n comp_def)
qed

theorem relayed_run_loads_witness:
  "\<exists>L. log_new (board_meta [2]) 1 = Inr L \<and>
     load_node (lg_meta_file (log_close (log_after L []))) (Some (lg_file (log_close (log_after L [])))) 1 = Inl UnknownColumn"
proof -
  obtain L where L: "log_new (board_meta [2]) 1 = Inr L" using board_meta_ok(3) by blast
  have m: "relay_meta (mg_class MicrogridAdaptive) (board_meta [2])" "rm_units (board_meta [2]) = ''scaled_int''"
    "rm_neighbors (board_meta [2]) \<noteq> []" by (simp_all add: board_meta_ok) (simp_all add: board_meta_def)
  from relayed_run_loads [OF L board_meta_ok(1) m(1,2), of "[]" 1] L m(3) show ?thesis by (simp add: board_meta_ok(4))
qed

theorem loaded_rows_witness:
  "\<exists>L n v. log_new demo_meta 2 = Inr L \<and>
     load_node (lg_meta_file (log_close (log_after L [demo_sample [F_ONE]])))
       (Some (lg_file (log_close (log_after L [demo_sample [F_ONE]])))) 1 = Inr n \<and>
     column n ''state'' = Inr [Some v] \<and> v = f64_real F_ONE"
proof -
  have "str_int 2 = ''2''" "str_int 3 = ''3''" by code_simp+
  then have names: "log_column_names demo_meta = [''timestamp'', ''device_timestamp'', ''state'', ''2_P'', ''2_Q'', ''rx_2'', ''seq_2'',
      ''rssi_2'', ''3_P'', ''3_Q'', ''rx_3'', ''seq_3'', ''rssi_3'']"
    by (simp add: log_column_names_def demo_meta_def COORD_SUFFIX_def)
  obtain L where L: "log_new demo_meta 2 = Inr L" using demo_log by blast
  have "accepted_rows L [demo_sample [F_ONE]] = [sample_row (lg_meta (log_start L)) (demo_sample [F_ONE])]"
    using L by (auto simp: accepted_rows_def log_accepts_def log_new_def Let_def log_start_def log_write_meta_def demo_sample_def demo_meta_def)
  moreover have "sample_row (lg_meta (log_start L)) (demo_sample [F_ONE]) ! 2 = F_ONE"
    using L by (auto simp: sample_row_def log_new_def Let_def log_start_def log_write_meta_def demo_sample_def demo_meta_def)
  ultimately show ?thesis
    using loaded_rows [OF L, of 2 "[demo_sample [F_ONE]]" 1] L unfolding names by (auto simp: demo_meta_def)
qed

theorem link_delivery_bounds_witness:
  "\<exists>e r l q s b j. delivery_of [0, 3, 3, 4, 7] = Delivery e r l q s b j \<and> q \<le> 1 \<and> e = 5 \<and> r = 3 \<and> l = 2"
proof -
  have "first_min [3, 3, 4, 7] = 0" by (simp add: first_min_sorted)
  then have "delivery_of [0, 3, 3, 4, 7] = window_report 0 [3, 3, 4, 7]" by (simp add: delivery_of_def)
  then have "\<exists>q b j. delivery_of [0, 3, 3, 4, 7] = Delivery 5 3 2 q 0 b j" by (simp add: window_report_def numeral_3_eq_3 del: link_report.inject) blast
  then obtain q b j where "delivery_of [0, 3, 3, 4, 7] = Delivery 5 3 2 q 0 b j" by blast
  with link_delivery_bounds [OF this] show ?thesis by blast
qed

theorem delivery_is_lower_bound_witness:
  "\<exists>a b ratio bunched jumps. delivery_of [0, 3, 3, 4, 7] =
     Delivery (b - a + 1) (card (set [0, 3, 3, 4, 7] - {0 :: int})) (b - a + 1 - int (card (set [0, 3, 3, 4, 7] - {0 :: int}))) ratio 0 bunched jumps"
proof -
  have "sorted (filter (\<lambda>s. s \<noteq> 0) [0, 3, 3, 4, 7 :: int])" "set [0, 3, 3, 4, 7 :: int] \<subseteq> insert 0 {3, 4, 6, 7}"
    "{3, 4, 6, 7 :: int} \<subseteq> {1..65535}" "2 \<le> length (filter (\<lambda>s. s \<noteq> 0) [0, 3, 3, 4, 7 :: int])" by simp_all
  from delivery_is_lower_bound [OF this] show ?thesis by blast
qed

theorem stale_prefix_discarded_witness:
  "delivery_of ([65533, 65534, 65535] @ [1, 2, 4]) = add_stale 3 (delivery_of [1, 2, 4])"
  using stale_prefix_discarded [of "[65533, 65534, 65535]" "[1, 2, 4]"] by (simp add: numeral_3_eq_3)

theorem spread_in_band_witness:
  "\<exists>s. spread [\<lparr>nr_node = 1, nr_meta = demo_meta, nr_data = [(''timestamp'', [Some 0]), (''vstate'', [Some 5])]\<rparr>,
      \<lparr>nr_node = 2, nr_meta = demo_meta, nr_data = [(''timestamp'', [Some 1]), (''vstate'', [Some 7])]\<rparr>] 1 = Inr s \<and> s \<le> 3"
  using spread_in_band [of "[\<lparr>nr_node = 1, nr_meta = demo_meta, nr_data = [(''timestamp'', [Some 0]), (''vstate'', [Some 5])]\<rparr>,
      \<lparr>nr_node = 2, nr_meta = demo_meta, nr_data = [(''timestamp'', [Some 1]), (''vstate'', [Some 7])]\<rparr>]" "[[(0, 5)], [(1, 7)]]" 5 8 1]
  by (auto simp: has_rows_def)

end
