(* ===== verification/EventLoop.thy ===== *)
theory EventLoop
  imports Clock "HOL-Library.Multiset"
begin

section \<open>Driving virtual time (sim/runner.py)\<close>

text \<open>
  The tasks of an event loop under a virtual clock. A task is a coroutine state \<open>'t\<close>;
  \<open>program\<close> says what running it does to the shared state until it suspends, ends or raises,
  and which tasks it creates. \<open>turn\<close> is one turn of the loop, what \<^verbatim>\<open>asyncio.sleep(0)\<close> lets
  happen: every task in the ready queue runs once, in queue order. A task waiting for anything but
  the clock stays \<open>Blocked\<close>. \<open>park_all\<close>, \<open>drive_loop\<close> and \<open>drive\<close> are \<^verbatim>\<open>_park_all\<close>, the loop of
  \<^verbatim>\<open>drive_virtual_clock\<close> and the function; a cancelled task unwinds without raising. The locale
  \<open>sim_program\<close> carries an invariant of the shared state through a whole run.
\<close>

datatype 't task = Runnable 't | Parked nat 't | Blocked 't | Done "exn option"

datatype 't effect = Sleeps real 't | Waits 't | Returns | Raises exn

type_synonym ('t, 's) program = "'t \<Rightarrow> real \<Rightarrow> 's \<Rightarrow> 't effect \<times> 's \<times> 't list"

record ('t, 's) world =
  wd_shared :: 's
  wd_clock :: virtual_clock
  wd_tasks :: "'t task list"
  wd_ready :: "nat list"

primrec task_done :: "'t task \<Rightarrow> bool" where
  "task_done (Runnable t) = False"
| "task_done (Parked k t) = False"
| "task_done (Blocked t) = False"
| "task_done (Done e) = True"

primrec parked_on :: "'t task \<Rightarrow> nat option" where
  "parked_on (Runnable t) = None"
| "parked_on (Parked k t) = Some k"
| "parked_on (Blocked t) = None"
| "parked_on (Done e) = None"

text \<open>How task \<open>i\<close> goes on after it ran.\<close>

definition settle :: "nat \<Rightarrow> 't effect \<Rightarrow> ('t, 's) world \<Rightarrow> ('t, 's) world" where
  "settle i eff w =
     (case eff of
        Sleeps d t \<Rightarrow>
          (case vc_sleep (wd_clock w) d of
             (c, None) \<Rightarrow> w\<lparr>wd_tasks := (wd_tasks w)[i := Runnable t], wd_ready := wd_ready w @ [i]\<rparr>
           | (c, Some k) \<Rightarrow> w\<lparr>wd_clock := c, wd_tasks := (wd_tasks w)[i := Parked k t]\<rparr>)
      | Waits t \<Rightarrow> w\<lparr>wd_tasks := (wd_tasks w)[i := Blocked t]\<rparr>
      | Returns \<Rightarrow> w\<lparr>wd_tasks := (wd_tasks w)[i := Done None]\<rparr>
      | Raises e \<Rightarrow> w\<lparr>wd_tasks := (wd_tasks w)[i := Done (Some e)]\<rparr>)"

definition spawn :: "'t list \<Rightarrow> ('t, 's) world \<Rightarrow> ('t, 's) world" where
  "spawn ts w =
     w\<lparr>wd_tasks := wd_tasks w @ map Runnable ts,
       wd_ready := wd_ready w @ [length (wd_tasks w)..<length (wd_tasks w) + length ts]\<rparr>"

definition run_task :: "('t, 's) program \<Rightarrow> nat \<Rightarrow> ('t, 's) world \<Rightarrow> ('t, 's) world" where
  "run_task prog i w =
     (if i < length (wd_tasks w) then
        (case wd_tasks w ! i of
           Runnable t \<Rightarrow>
             (let (eff, s, new) = prog t (vc_t (wd_clock w)) (wd_shared w)
              in settle i eff (spawn new (w\<lparr>wd_shared := s\<rparr>)))
         | _ \<Rightarrow> w)
      else w)"

definition turn :: "('t, 's) program \<Rightarrow> ('t, 's) world \<Rightarrow> ('t, 's) world" where
  "turn prog w = foldl (\<lambda>v i. run_task prog i v) (w\<lparr>wd_ready := []\<rparr>) (wd_ready w)"

text \<open>\<^verbatim>\<open>clock.advance()\<close>: the tasks whose futures are resolved become ready, in the order woken.\<close>

definition unpark :: "nat list \<Rightarrow> 't task \<Rightarrow> 't task" where
  "unpark woken t = (case t of Parked k u \<Rightarrow> if k \<in> set woken then Runnable u else t | _ \<Rightarrow> t)"

definition advance :: "('t, 's) world \<Rightarrow> ('t, 's) world" where
  "advance w =
     (let (c, r, woken) = vc_advance (wd_clock w) in
      w\<lparr>wd_clock := c, wd_tasks := map (unpark woken) (wd_tasks w),
        wd_ready := wd_ready w @
          concat (map (\<lambda>k. filter (\<lambda>i. parked_on (wd_tasks w ! i) = Some k) [0..<length (wd_tasks w)]) woken)\<rparr>)"

subsection \<open>The driver\<close>

text \<open>The tasks the driver started are the first \<open>n\<close>.\<close>

definition alive :: "nat \<Rightarrow> ('t, 's) world \<Rightarrow> nat list" where
  "alive n w = filter (\<lambda>i. \<not> task_done (wd_tasks w ! i)) [0..<n]"

definition live_tasks :: "('t, 's) world \<Rightarrow> nat" where
  "live_tasks w = length (filter (\<lambda>t. \<not> task_done t) (wd_tasks w))"

fun park_all :: "('t, 's) program \<Rightarrow> nat \<Rightarrow> nat \<Rightarrow> ('t, 's) world \<Rightarrow> ('t, 's) world \<times> nat list \<times> bool" where
  "park_all prog n 0 w = (w, alive n w, False)"
| "park_all prog n (Suc spins) w =
     (if alive n w = [] then (w, alive n w, True)
      else if vc_pending (wd_clock w) \<ge> live_tasks w then (w, alive n w, True)
      else park_all prog n spins (turn prog w))"

record sim_result =
  sr_end_time_s :: real
  sr_steps :: nat
  sr_completed :: bool
  sr_stalled :: bool
  sr_errors :: "exn list"

definition sr_ok :: "sim_result \<Rightarrow> bool" where
  "sr_ok r \<longleftrightarrow> sr_errors r = [] \<and> \<not> sr_stalled r"

fun drive_loop ::
  "('t, 's) program \<Rightarrow> nat \<Rightarrow> real \<Rightarrow> nat \<Rightarrow> nat \<Rightarrow> ('t, 's) world \<times> sim_result \<Rightarrow> ('t, 's) world \<times> sim_result" where
  "drive_loop prog n until_s spin_limit 0 (w, r) = (w, r\<lparr>sr_stalled := True\<rparr>)"
| "drive_loop prog n until_s spin_limit (Suc fuel) (w, r) =
     (case park_all prog n spin_limit w of (w1, still, parked) \<Rightarrow>
        if still = [] then (w1, r\<lparr>sr_completed := True\<rparr>)
        else if \<not> parked then (w1, r\<lparr>sr_stalled := True\<rparr>)
        else (case next_deadline_s (wd_clock w1) of
            None \<Rightarrow> (w1, r\<lparr>sr_stalled := True\<rparr>)
          | Some nxt \<Rightarrow>
              if nxt > until_s then (w1, r)
              else drive_loop prog n until_s spin_limit fuel (advance w1, r\<lparr>sr_steps := sr_steps r + 1\<rparr>)))"

definition task_error :: "'t task \<Rightarrow> exn option" where
  "task_error t = (case t of Done (Some e) \<Rightarrow> Some e | _ \<Rightarrow> None)"

definition start_world :: "virtual_clock \<Rightarrow> 't list \<Rightarrow> 's \<Rightarrow> ('t, 's) world" where
  "start_world c factories s =
     \<lparr>wd_shared = s, wd_clock = c, wd_tasks = map Runnable factories, wd_ready = [0..<length factories]\<rparr>"

definition drive ::
  "('t, 's) program \<Rightarrow> virtual_clock \<Rightarrow> 't list \<Rightarrow> 's \<Rightarrow> real \<Rightarrow> nat \<Rightarrow> nat \<Rightarrow> ('t, 's) world \<times> sim_result" where
  "drive prog c factories s until_s max_steps spin_limit =
     (let n = length factories;
          (w, r) = drive_loop prog n until_s spin_limit max_steps
            (start_world c factories s,
             \<lparr>sr_end_time_s = vc_t c, sr_steps = 0, sr_completed = False, sr_stalled = False, sr_errors = []\<rparr>)
      in (w, r\<lparr>sr_errors := List.map_filter task_error (take n (wd_tasks w)), sr_end_time_s := vc_t (wd_clock w)\<rparr>))"

subsection \<open>Sleepers and parked tasks\<close>

definition futures :: "'t task list \<Rightarrow> nat multiset" where
  "futures ts = mset (List.map_filter parked_on ts)"

definition world_ok :: "('t, 's) world \<Rightarrow> bool" where
  "world_ok w \<longleftrightarrow> vc_ok (wd_clock w) \<and> (\<forall>k \<in> snd ` set (vc_waiters (wd_clock w)). k \<notin> vc_done (wd_clock w)) \<and>
     mset (map snd (vc_waiters (wd_clock w))) = futures (wd_tasks w) \<and>
     (\<forall>k \<in> vc_done (wd_clock w). k < vc_counter (wd_clock w))"

lemma futures_simps [simp]:
  "futures [] = {#}" "futures (t # ts) = (case parked_on t of None \<Rightarrow> futures ts | Some k \<Rightarrow> add_mset k (futures ts))"
  "futures (ts @ us) = futures ts + futures us" "futures (map Runnable xs) = {#}"
  by (auto simp: futures_def map_filter_simps List.map_filter_def comp_def split: option.splits)

lemma futures_update:
  assumes "i < length ts" and "parked_on (ts ! i) = None"
  shows "futures (ts[i := t]) = (case parked_on t of None \<Rightarrow> futures ts | Some k \<Rightarrow> add_mset k (futures ts))"
proof -
  have e: "ts = take i ts @ ts ! i # drop (Suc i) ts" using assms(1) by (rule id_take_nth_drop)
  have "futures ts = futures (take i ts) + futures (drop (Suc i) ts)" by (subst e) (simp only: futures_simps assms(2) option.case)
  then show ?thesis unfolding upd_conv_take_nth_drop [OF assms(1)] by (simp split: option.splits)
qed

lemma mset_heap_push: "mset (map snd (heap_push x xs)) = add_mset (snd x) (mset (map snd xs))"
  by (induction xs) auto

lemma settle_ok:
  assumes "world_ok w" and "i < length (wd_tasks w)" and "parked_on (wd_tasks w ! i) = None"
  shows "world_ok (settle i eff w)"
proof (cases eff)
  case (Sleeps d t)
  show ?thesis
  proof (cases "d \<le> 0")
    case True
    then show ?thesis using assms by (simp add: Sleeps settle_def vc_sleep_def world_ok_def futures_update)
  next
    case False
    then have "vc_ok (fst (vc_sleep (wd_clock w) d))" using assms(1) by (intro vc_sleep_ok) (simp add: world_ok_def)
    moreover have "\<forall>k \<in> vc_done (wd_clock w). k < vc_counter (wd_clock w)" using assms(1) by (simp add: world_ok_def)
    then have "\<forall>k \<in> vc_done (wd_clock w). k < Suc (vc_counter (wd_clock w)) \<and> k \<noteq> vc_counter (wd_clock w)"
      by (metis less_SucI less_irrefl)
    ultimately show ?thesis
      using assms False
      by (simp add: Sleeps settle_def vc_sleep_def world_ok_def futures_update mset_heap_push del: mset_map) blast
  qed
qed (use assms in \<open>simp_all add: settle_def world_ok_def futures_update\<close>)

lemma spawn_ok: "world_ok w \<Longrightarrow> world_ok (spawn ts w)"
  by (simp add: world_ok_def spawn_def)

lemma run_task_ok: "world_ok w \<Longrightarrow> world_ok (run_task prog i w)"
proof -
  assume ok: "world_ok w"
  show ?thesis
  proof (cases "i < length (wd_tasks w)")
    case True
    show ?thesis
    proof (cases "wd_tasks w ! i")
      case (Runnable t)
      obtain eff s new where p: "prog t (vc_t (wd_clock w)) (wd_shared w) = (eff, s, new)" by (cases "prog t (vc_t (wd_clock w)) (wd_shared w)")
      have "world_ok (settle i eff (spawn new (w\<lparr>wd_shared := s\<rparr>)))"
        using ok True Runnable by (intro settle_ok spawn_ok) (simp_all add: world_ok_def spawn_def nth_append)
      then show ?thesis using True Runnable p by (simp add: run_task_def)
    qed (use ok True in \<open>simp_all add: run_task_def\<close>)
  qed (use ok in \<open>simp add: run_task_def\<close>)
qed

lemma run_task_time [simp]: "vc_t (wd_clock (run_task prog i w)) = vc_t (wd_clock w)"
  by (auto simp: run_task_def settle_def spawn_def vc_sleep_def Let_def split: task.splits effect.splits prod.splits)

lemma turn_ok: "world_ok w \<Longrightarrow> world_ok (turn prog w)"
proof -
  assume "world_ok w"
  then have "world_ok (w\<lparr>wd_ready := []\<rparr>)" by (simp add: world_ok_def)
  then have "world_ok (foldl (\<lambda>v i. run_task prog i v) (w\<lparr>wd_ready := []\<rparr>) is)" for "is"
    by (induction "is" arbitrary: w rule: rev_induct) (simp_all add: run_task_ok)
  then show ?thesis by (simp add: turn_def)
qed

lemma turn_time [simp]: "vc_t (wd_clock (turn prog w)) = vc_t (wd_clock w)"
proof -
  have "vc_t (wd_clock (foldl (\<lambda>v i. run_task prog i v) v is)) = vc_t (wd_clock v)" for "is" v
    by (induction "is" arbitrary: v) simp_all
  then show ?thesis by (simp add: turn_def)
qed

lemma futures_unpark: "futures (map (unpark woken) ts) = filter_mset (\<lambda>k. k \<notin> set woken) (futures ts)"
proof (induction ts)
  case (Cons t ts)
  then show ?case by (cases t) (simp_all add: unpark_def)
qed simp

lemma advance_ok:
  assumes "world_ok w"
  shows "world_ok (advance w)"
proof (cases "vc_waiters (wd_clock w)")
  case Nil
  then show ?thesis using assms by (simp add: advance_def vc_advance_def world_ok_def futures_unpark)
next
  case (Cons x ws)
  then obtain d k where w: "vc_waiters (wd_clock w) = (d, k) # ws" by (cases x) simp
  have ok: "vc_ok (wd_clock w)" and fresh: "\<forall>k \<in> snd ` set (vc_waiters (wd_clock w)). k \<notin> vc_done (wd_clock w)"
    and fut: "mset (map snd (vc_waiters (wd_clock w))) = futures (wd_tasks w)"
    and lt: "\<forall>k \<in> vc_done (wd_clock w). k < vc_counter (wd_clock w)"
    using assms by (auto simp: world_ok_def)
  let ?W = "vc_waiters (wd_clock w)" and ?D = "vc_done (wd_clock w)"
  have dist: "distinct (map snd ?W)" and cnt: "\<forall>x \<in> set ?W. snd x < vc_counter (wd_clock w)" and ge: "\<forall>x \<in> set ?W. d \<le> fst x"
    using ok w by (auto simp: vc_ok_def list_all_iff before_def)
  define woken where "woken = map snd (filter (\<lambda>x. fst x = d \<and> snd x \<notin> ?D) ?W)"
  have adv: "vc_advance (wd_clock w) = ((wd_clock w)\<lparr>vc_t := d, vc_waiters := filter (\<lambda>x. d < fst x) ?W,
        vc_done := ?D \<union> snd ` set (filter (\<lambda>x. fst x \<le> d) ?W)\<rparr>, Some d, woken)"
    unfolding woken_def by (rule vc_advance_eq [OF ok w])
  have inj: "x = y" if "x \<in> set ?W" "y \<in> set ?W" "snd x = snd y" for x y
    using dist that by (simp add: distinct_map inj_on_def)
  have woken: "snd x \<in> set woken \<longleftrightarrow> \<not> d < fst x" if x: "x \<in> set ?W" for x
  proof
    assume "snd x \<in> set woken"
    then obtain y where "y \<in> set ?W" "fst y = d" "snd x = snd y" by (auto simp: woken_def)
    then show "\<not> d < fst x" using inj [OF x] by auto
  next
    assume "\<not> d < fst x"
    moreover have "d \<le> fst x" "snd x \<notin> ?D" using x ge fresh by blast+
    ultimately have "fst x = d" "snd x \<notin> ?D" by simp_all
    then show "snd x \<in> set woken" using x unfolding woken_def set_map set_filter by blast
  qed
  have "mset (map snd (filter (\<lambda>x. d < fst x) ?W)) = filter_mset (\<lambda>k. k \<notin> set woken) (mset (map snd ?W))"
  proof -
    have "filter (\<lambda>x. d < fst x) ?W = filter (\<lambda>x. snd x \<notin> set woken) ?W" using woken by (intro filter_cong) auto
    moreover have "map snd (filter (\<lambda>x. snd x \<notin> set woken) ?W) = filter (\<lambda>k. k \<notin> set woken) (map snd ?W)"
      by (simp add: filter_map comp_def)
    ultimately show ?thesis by (simp only: mset_filter)
  qed
  moreover have "vc_ok (fst (vc_advance (wd_clock w)))" by (rule vc_advance_ok [OF ok])
  moreover have "\<forall>k \<in> snd ` set (filter (\<lambda>x. d < fst x) ?W). k \<notin> ?D \<union> snd ` set (filter (\<lambda>x. fst x \<le> d) ?W)"
  proof (rule ballI, rule notI)
    fix k assume "k \<in> snd ` set (filter (\<lambda>x. d < fst x) ?W)" and k: "k \<in> ?D \<union> snd ` set (filter (\<lambda>x. fst x \<le> d) ?W)"
    then obtain x where x: "x \<in> set ?W" "d < fst x" "k = snd x" by auto
    then have "k \<notin> ?D" using fresh by blast
    then obtain y where "y \<in> set ?W" "fst y \<le> d" "k = snd y" using k by auto
    then show False using inj [OF x(1)] x(2,3) by auto
  qed
  moreover have "\<forall>k \<in> ?D \<union> snd ` set (filter (\<lambda>x. fst x \<le> d) ?W). k < vc_counter (wd_clock w)"
    using lt cnt by auto
  ultimately show ?thesis
    using fut by (simp add: advance_def adv world_ok_def futures_unpark del: mset_map mset_filter)
qed

subsection \<open>What the driver guarantees\<close>

lemma run_task_length [simp]: "length (wd_tasks w) \<le> length (wd_tasks (run_task prog i w))"
  by (auto simp: run_task_def settle_def spawn_def Let_def split: task.splits effect.splits prod.splits option.splits)

lemma turn_length: "length (wd_tasks w) \<le> length (wd_tasks (turn prog w))"
proof -
  have "length (wd_tasks v) \<le> length (wd_tasks (foldl (\<lambda>v i. run_task prog i v) v is))" for "is" v
    by (induction "is" arbitrary: v) (auto intro: order_trans [OF run_task_length])
  from this [of "w\<lparr>wd_ready := []\<rparr>"] show ?thesis by (simp add: turn_def)
qed

lemma park_all_facts:
  assumes "world_ok w" and "park_all prog n spins w = (w1, still, parked)"
  shows "world_ok w1" and "vc_t (wd_clock w1) = vc_t (wd_clock w)" and "still = alive n w1"
    and "length (wd_tasks w) \<le> length (wd_tasks w1)"
    and "parked \<Longrightarrow> still \<noteq> [] \<Longrightarrow> live_tasks w1 \<le> vc_pending (wd_clock w1)"
proof -
  have "world_ok w1 \<and> vc_t (wd_clock w1) = vc_t (wd_clock w) \<and> still = alive n w1 \<and> length (wd_tasks w) \<le> length (wd_tasks w1) \<and>
      (parked \<longrightarrow> still \<noteq> [] \<longrightarrow> live_tasks w1 \<le> vc_pending (wd_clock w1))"
    using assms
  proof (induction spins arbitrary: w)
    case (Suc spins)
    show ?case
    proof (cases "alive n w = [] \<or> vc_pending (wd_clock w) \<ge> live_tasks w")
      case True
      then have "(w1, still, parked) = (w, alive n w, True)" using Suc.prems(2) by (auto split: if_split_asm)
      then show ?thesis using Suc.prems(1) True by auto
    next
      case False
      then have "park_all prog n spins (turn prog w) = (w1, still, parked)" using Suc.prems(2) by simp
      from Suc.IH [OF turn_ok [OF Suc.prems(1)] this] show ?thesis using turn_length [of w prog] by auto
    qed
  qed auto
  then show "world_ok w1" and "vc_t (wd_clock w1) = vc_t (wd_clock w)" and "still = alive n w1"
    and "length (wd_tasks w) \<le> length (wd_tasks w1)"
    and "parked \<Longrightarrow> still \<noteq> [] \<Longrightarrow> live_tasks w1 \<le> vc_pending (wd_clock w1)" by blast+
qed

definition all_parked :: "('t, 's) world \<Rightarrow> bool" where
  "all_parked w \<longleftrightarrow> list_all (\<lambda>t. task_done t \<or> parked_on t \<noteq> None) (wd_tasks w)"

lemma size_futures: "size (futures ts) = length (filter (\<lambda>t. parked_on t \<noteq> None) ts)"
  by (induction ts) (auto split: option.splits)

lemma length_filter_imp: "\<forall>t \<in> set ts. P t \<longrightarrow> Q t \<Longrightarrow> length (filter P ts) \<le> length (filter Q ts)"
  by (induction ts) auto

text \<open>As many sleepers as live tasks means that every live task is a sleeper.\<close>

lemma pending_all_parked:
  assumes "world_ok w" and "live_tasks w \<le> vc_pending (wd_clock w)"
  shows "all_parked w"
proof -
  have "vc_pending (wd_clock w) = size (mset (map snd (vc_waiters (wd_clock w))))" by (simp add: vc_pending_def)
  then have "vc_pending (wd_clock w) = length (filter (\<lambda>t. parked_on t \<noteq> None) (wd_tasks w))"
    using assms(1) by (simp only: world_ok_def size_futures)
  moreover have "length (filter (\<lambda>t. \<not> task_done t) ts) \<le> length (filter (\<lambda>t. parked_on t \<noteq> None) ts) \<Longrightarrow>
      list_all (\<lambda>t. task_done t \<or> parked_on t \<noteq> None) ts" for ts :: "'a task list"
  proof (induction ts)
    case (Cons t ts)
    have "length (filter (\<lambda>t. parked_on t \<noteq> None) ts) \<le> length (filter (\<lambda>t. \<not> task_done t) ts)"
    proof (induction ts)
      case (Cons u us)
      then show ?case by (cases u) auto
    qed simp
    then show ?case using Cons by (cases t) auto
  qed simp
  ultimately show ?thesis using assms(2) by (simp add: all_parked_def live_tasks_def)
qed

lemma alive_parked_deadline:
  assumes "world_ok w" and "all_parked w" and "alive n w \<noteq> []" and "n \<le> length (wd_tasks w)"
  obtains d where "next_deadline_s (wd_clock w) = Some d" "vc_t (wd_clock w) < d" "vc_t (wd_clock (advance w)) = d"
proof -
  obtain i where i: "i < n" "\<not> task_done (wd_tasks w ! i)" using assms(3) by (auto simp: alive_def filter_empty_conv)
  then have mem: "wd_tasks w ! i \<in> set (wd_tasks w)" using assms(4) by simp
  then obtain k where "parked_on (wd_tasks w ! i) = Some k" using i(2) assms(2) by (auto simp: all_parked_def list_all_iff)
  moreover have "k \<in># futures ts" if "t \<in> set ts" "parked_on t = Some k" for t :: "'a task" and ts k
    using that by (induction ts) (auto split: option.splits)
  ultimately have "futures (wd_tasks w) \<noteq> {#}" using mem by force
  then have ne: "vc_waiters (wd_clock w) \<noteq> []" using assms(1) by (auto simp: world_ok_def)
  obtain d where "next_deadline_s (wd_clock w) = Some d" "vc_t (wd_clock w) < d" "vc_t (fst (vc_advance (wd_clock w))) = d"
    using advance_facts [OF _ ne] assms(1) by (auto simp: world_ok_def Let_def split_beta)
  then show thesis using that by (simp add: advance_def Let_def split_beta)
qed

lemma parked_first:
  assumes "world_ok w" and "n \<le> length (wd_tasks w)" and "park_all prog n spins w = (w1, still, True)" and "still \<noteq> []"
  shows "all_parked w1 \<and> vc_t (wd_clock w1) = vc_t (wd_clock w) \<and>
    (\<exists>d. next_deadline_s (wd_clock w1) = Some d \<and> vc_t (wd_clock w1) < d \<and> vc_t (wd_clock (advance w1)) = d) \<and>
    world_ok (advance w1)"
proof -
  note f = park_all_facts [OF assms(1,3)]
  have p: "all_parked w1" using pending_all_parked [OF f(1) f(5)] assms(4) by blast
  then have "\<exists>d. next_deadline_s (wd_clock w1) = Some d \<and> vc_t (wd_clock w1) < d \<and> vc_t (wd_clock (advance w1)) = d"
    using alive_parked_deadline [OF f(1) p] f(3,4) assms(2,4) by (metis order_trans)
  then show ?thesis using p f(1,2) advance_ok by blast
qed

text \<open>C8: Time never advances while a task can run: when the driver gets past parking with a task of its
  own still alive, every live task on the loop is asleep on the clock, there is a next deadline, it is
  in the future, and the instant had not moved while the tasks ran.\<close>

theorem parked_before_advance:
  assumes "world_ok w" and "n \<le> length (wd_tasks w)" and "park_all prog n spins w = (w1, still, True)" and "still \<noteq> []"
  shows "all_parked w1 \<and> vc_t (wd_clock w1) = vc_t (wd_clock w) \<and>
    (\<exists>d. next_deadline_s (wd_clock w1) = Some d \<and> vc_t (wd_clock w1) < d \<and> vc_t (wd_clock (advance w1)) = d) \<and>
    world_ok (advance w1)"
  by (rule parked_first [OF assms])

lemma advance_length [simp]: "length (wd_tasks (advance w)) = length (wd_tasks w)"
  by (simp add: advance_def Let_def split_beta)

definition loop_result :: "nat \<Rightarrow> real \<Rightarrow> ('t, 's) world \<Rightarrow> sim_result \<Rightarrow> bool" where
  "loop_result n until_s w r \<longleftrightarrow>
     (sr_completed r \<longrightarrow> \<not> sr_stalled r \<and> alive n w = []) \<and>
     (\<not> sr_completed r \<and> \<not> sr_stalled r \<longrightarrow> alive n w \<noteq> [] \<and> all_parked w \<and>
        (\<exists>d. next_deadline_s (wd_clock w) = Some d \<and> until_s < d))"

lemma drive_loop_facts:
  assumes "world_ok w" and "n \<le> length (wd_tasks w)" and "\<not> sr_completed r" and "\<not> sr_stalled r"
    and "drive_loop prog n until_s spin_limit fuel (w, r) = (w', r')"
  shows "loop_result n until_s w' r' \<and> world_ok w' \<and> sr_steps r \<le> sr_steps r' \<and> sr_steps r' \<le> sr_steps r + fuel \<and>
    (if sr_steps r' = sr_steps r then vc_t (wd_clock w') = vc_t (wd_clock w)
     else vc_t (wd_clock w) < vc_t (wd_clock w') \<and> vc_t (wd_clock w') \<le> until_s)"
  using assms
proof (induction fuel arbitrary: w r)
  case 0
  then show ?case by (auto simp: loop_result_def)
next
  case (Suc fuel)
  obtain w1 still parked where p: "park_all prog n spin_limit w = (w1, still, parked)" by (cases "park_all prog n spin_limit w")
  note f = park_all_facts [OF Suc.prems(1) p]
  show ?case
  proof (cases "still = [] \<or> \<not> parked")
    case True
    then have "w' = w1 \<and> (still = [] \<and> r' = r\<lparr>sr_completed := True\<rparr> \<or> r' = r\<lparr>sr_stalled := True\<rparr>)"
      using Suc.prems(5) p by (cases "still = []") auto
    then show ?thesis using Suc.prems(3,4) f(1-3) by (auto simp: loop_result_def)
  next
    case False
    then have p1: "park_all prog n spin_limit w = (w1, still, True)" and ne: "still \<noteq> []" using p by auto
    from parked_first [OF Suc.prems(1,2) p1 ne] obtain d
      where d: "all_parked w1" "next_deadline_s (wd_clock w1) = Some d" "vc_t (wd_clock w1) < d" "vc_t (wd_clock (advance w1)) = d"
        "world_ok (advance w1)" by blast
    show ?thesis
    proof (cases "d > until_s")
      case True
      then have "w' = w1" "r' = r" using Suc.prems(5) p1 ne d(2) by auto
      then show ?thesis using True Suc.prems(3,4) d(1,2) ne f(1-3) by (auto simp: loop_result_def)
    next
      case False
      then have "drive_loop prog n until_s spin_limit fuel (advance w1, r\<lparr>sr_steps := sr_steps r + 1\<rparr>) = (w', r')"
        using Suc.prems(5) p1 ne d(2) by simp
      from Suc.IH [OF d(5) _ _ _ this] Suc.prems(2-4) f(2,4) d(3,4) False show ?thesis by (auto split: if_splits)
    qed
  qed
qed

lemma start_world_ok: "world_ok (start_world (vc_new t0) factories s)"
  by (simp add: world_ok_def start_world_def vc_new_ok) (simp add: vc_new_def)

text \<open>C9: A simulation always ends, with exactly one outcome. Completed: every task of the driver has
  finished. Stopped at the horizon: every live task is asleep until after it. Otherwise stalled. Time
  starts where the clock stood, moves forward at every step and not beyond the horizon, and the number
  of steps is bounded.\<close>

theorem drive_outcome:
  "case drive prog (vc_new t0) factories s until_s max_steps spin_limit of (w, r) \<Rightarrow>
    loop_result (length factories) until_s w r \<and> sr_steps r \<le> max_steps \<and> sr_end_time_s r = vc_t (wd_clock w) \<and>
    (if sr_steps r = 0 then sr_end_time_s r = t0 else t0 < sr_end_time_s r \<and> sr_end_time_s r \<le> until_s) \<and>
    sr_errors r = List.map_filter task_error (take (length factories) (wd_tasks w))"
proof -
  define r0 where "r0 = \<lparr>sr_end_time_s = t0, sr_steps = 0, sr_completed = False, sr_stalled = False, sr_errors = []\<rparr>"
  obtain w r where l: "drive_loop prog (length factories) until_s spin_limit max_steps (start_world (vc_new t0) factories s, r0) = (w, r)"
    by (cases "drive_loop prog (length factories) until_s spin_limit max_steps (start_world (vc_new t0) factories s, r0)")
  have "drive prog (vc_new t0) factories s until_s max_steps spin_limit =
      (w, r\<lparr>sr_errors := List.map_filter task_error (take (length factories) (wd_tasks w)), sr_end_time_s := vc_t (wd_clock w)\<rparr>)"
    using l by (simp add: drive_def r0_def vc_new_def)
  moreover from drive_loop_facts [OF start_world_ok _ _ _ l]
  have "loop_result (length factories) until_s w r \<and> sr_steps r \<le> max_steps \<and>
      (if sr_steps r = 0 then vc_t (wd_clock w) = t0 else t0 < vc_t (wd_clock w) \<and> vc_t (wd_clock w) \<le> until_s)"
    by (simp add: r0_def start_world_def vc_new_def split: if_split_asm)
  ultimately show ?thesis by (simp add: loop_result_def)
qed

subsection \<open>Invariants of a simulated program\<close>

text \<open>What the driver asks of a program to carry an invariant \<open>I\<close> of the shared state and \<open>J\<close> of the
  tasks through a run up to \<open>horizon\<close>, with no task raising: one run of one task keeps them.\<close>

primrec task_all :: "('t \<Rightarrow> bool) \<Rightarrow> 't task \<Rightarrow> bool" where
  "task_all J (Runnable t) = J t"
| "task_all J (Parked k t) = J t"
| "task_all J (Blocked t) = J t"
| "task_all J (Done e) = (e = None)"

primrec effect_all :: "('t \<Rightarrow> bool) \<Rightarrow> 't effect \<Rightarrow> bool" where
  "effect_all J (Sleeps d t) = J t"
| "effect_all J (Waits t) = J t"
| "effect_all J Returns = True"
| "effect_all J (Raises e) = False"

locale sim_program =
  fixes prog :: "('t, 's) program" and I :: "'s \<Rightarrow> bool" and J :: "'t \<Rightarrow> bool" and horizon :: real
  assumes keeps: "I s \<Longrightarrow> J t \<Longrightarrow> now \<le> horizon \<Longrightarrow> prog t now s = (eff, s', new) \<Longrightarrow> I s' \<and> effect_all J eff \<and> list_all J new"
begin

definition inv :: "('t, 's) world \<Rightarrow> bool" where
  "inv w \<longleftrightarrow> I (wd_shared w) \<and> list_all (task_all J) (wd_tasks w) \<and> vc_t (wd_clock w) \<le> horizon"

lemma list_all_update: "list_all P xs \<Longrightarrow> P x \<Longrightarrow> list_all P (xs[i := x])"
  by (auto simp: list_all_iff dest: set_update_subset_insert [THEN subsetD])

lemma inv_run_task: "inv w \<Longrightarrow> inv (run_task prog i w)"
proof -
  assume w: "inv w"
  show ?thesis
  proof (cases "i < length (wd_tasks w)")
    case True
    show ?thesis
    proof (cases "wd_tasks w ! i")
      case (Runnable t)
      obtain eff s new where p: "prog t (vc_t (wd_clock w)) (wd_shared w) = (eff, s, new)" by (cases "prog t (vc_t (wd_clock w)) (wd_shared w)")
      have "J t" using w True Runnable by (auto simp: inv_def list_all_length)
      then have k: "I s" "effect_all J eff" "list_all J new" using keeps [OF _ _ _ p] w by (auto simp: inv_def)
      define v where "v = spawn new (w\<lparr>wd_shared := s\<rparr>)"
      have "inv v" using w k by (auto simp: v_def inv_def spawn_def list_all_iff)
      moreover have "vc_t (fst (vc_sleep c d)) = vc_t c" for c d by (simp add: vc_sleep_def)
      ultimately have "inv (settle i eff v)"
        using k(2) by (cases eff) (auto simp: settle_def inv_def list_all_update vc_sleep_def)
      then show ?thesis using True Runnable p by (simp add: run_task_def v_def)
    qed (use w True in \<open>simp_all add: run_task_def\<close>)
  qed (use w in \<open>simp add: run_task_def\<close>)
qed

lemma inv_turn: "inv w \<Longrightarrow> inv (turn prog w)"
proof -
  assume "inv w"
  then have "inv (w\<lparr>wd_ready := []\<rparr>)" by (simp add: inv_def)
  then have "inv (foldl (\<lambda>v i. run_task prog i v) (w\<lparr>wd_ready := []\<rparr>) is)" for "is"
    by (induction "is" rule: rev_induct) (simp_all add: inv_run_task)
  then show ?thesis by (simp add: turn_def)
qed

lemma inv_park_all: "inv w \<Longrightarrow> park_all prog n spins w = (w1, still, parked) \<Longrightarrow> inv w1"
proof (induction spins arbitrary: w)
  case (Suc spins)
  show ?case using Suc.prems Suc.IH [OF inv_turn [OF Suc.prems(1)]] by (auto split: if_split_asm)
qed simp

lemma inv_advance:
  assumes "inv w" and "vc_t (wd_clock (advance w)) \<le> horizon"
  shows "inv (advance w)"
proof -
  have "task_all J t \<Longrightarrow> task_all J (unpark ks t)" for t ks by (cases t) (simp_all add: unpark_def)
  then have "list_all (task_all J) (map (unpark ks) (wd_tasks w))" for ks using assms(1) by (auto simp: inv_def list_all_iff)
  then show ?thesis using assms by (simp add: inv_def advance_def Let_def split_beta)
qed

lemma inv_drive_loop:
  assumes "inv w" and "world_ok w" and "n \<le> length (wd_tasks w)" and "until_s \<le> horizon"
  shows "inv (fst (drive_loop prog n until_s spin_limit fuel (w, r)))"
  using assms
proof (induction fuel arbitrary: w r)
  case (Suc fuel)
  obtain w1 still parked where p: "park_all prog n spin_limit w = (w1, still, parked)" by (cases "park_all prog n spin_limit w")
  have w1: "inv w1" by (rule inv_park_all [OF Suc.prems(1) p])
  show ?case
  proof (cases "still \<noteq> [] \<and> parked \<and> (\<exists>d. next_deadline_s (wd_clock w1) = Some d \<and> d \<le> until_s)")
    case True
    then have p1: "park_all prog n spin_limit w = (w1, still, True)" and ne: "still \<noteq> []" using p by auto
    obtain d where d: "next_deadline_s (wd_clock w1) = Some d" "d \<le> until_s" using True by blast
    from parked_first [OF Suc.prems(2,3) p1 ne] d
    have a: "vc_t (wd_clock (advance w1)) \<le> horizon" "world_ok (advance w1)" using Suc.prems(4) by auto
    have "n \<le> length (wd_tasks (advance w1))" using park_all_facts(4) [OF Suc.prems(2) p] Suc.prems(3) by simp
    from Suc.IH [OF inv_advance [OF w1 a(1)] a(2) this Suc.prems(4)] show ?thesis using p1 ne d by simp
  next
    case False
    then show ?thesis using p w1 by (cases "still = []"; cases parked; cases "next_deadline_s (wd_clock w1)") auto
  qed
qed simp

lemma start_inv: "I s \<Longrightarrow> list_all J factories \<Longrightarrow> t0 \<le> horizon \<Longrightarrow> inv (start_world (vc_new t0) factories s)"
  by (auto simp: inv_def start_world_def list_all_iff vc_new_def)

lemma inv_no_errors: "inv w \<Longrightarrow> List.map_filter task_error (take n (wd_tasks w)) = []"
proof -
  assume "inv w"
  then have "\<forall>t \<in> set (take n (wd_tasks w)). task_error t = None"
    by (auto simp: inv_def list_all_iff task_error_def split: task.splits option.splits dest!: in_set_takeD)
  then show ?thesis by (simp add: List.map_filter_def filter_empty_conv)
qed

lemma inv_drive:
  assumes "I s" and "list_all J factories" and "t0 \<le> horizon" and "until_s \<le> horizon"
    and "drive prog (vc_new t0) factories s until_s max_steps spin_limit = (w, r)"
  shows "I (wd_shared w)" and "sr_errors r = []"
proof -
  define r0 where "r0 = \<lparr>sr_end_time_s = t0, sr_steps = 0, sr_completed = False, sr_stalled = False, sr_errors = []\<rparr>"
  have "inv (fst (drive_loop prog (length factories) until_s spin_limit max_steps (start_world (vc_new t0) factories s, r0)))"
    by (rule inv_drive_loop [OF start_inv [OF assms(1-3)] start_world_ok _ assms(4)]) (simp add: start_world_def)
  moreover have "w = fst (drive_loop prog (length factories) until_s spin_limit max_steps (start_world (vc_new t0) factories s, r0))"
    "sr_errors r = List.map_filter task_error (take (length factories) (wd_tasks w))"
    using assms(5) by (auto simp: drive_def r0_def Let_def vc_new_def split: prod.splits)
  ultimately show "I (wd_shared w)" and "sr_errors r = []" using inv_no_errors by (auto simp: inv_def)
qed

end

text \<open>A program whose tasks only ever sleep for a positive time or return, and create tasks of smaller
  rank, comes to rest on the clock within as many turns as there are ranks: it cannot stall the
  driver.\<close>

locale sim_ranked = sim_program +
  fixes rank :: "'a \<Rightarrow> nat" and ranks :: nat
  assumes rests: "I s \<Longrightarrow> J t \<Longrightarrow> now \<le> horizon \<Longrightarrow> prog t now s = (eff, s', new) \<Longrightarrow>
      ((\<exists>d u. eff = Sleeps d u \<and> 0 < d) \<or> eff = Returns) \<and> list_all (\<lambda>u. rank u < rank t) new"
    and rank_bound: "rank t < ranks"
begin

definition not_blocked :: "('a, 'b) world \<Rightarrow> bool" where
  "not_blocked w \<longleftrightarrow> list_all (\<lambda>t. \<forall>u. t \<noteq> Blocked u) (wd_tasks w)"

text \<open>In the middle of a turn: the tasks still to run, and those that became ready.\<close>

definition resting :: "nat \<Rightarrow> nat list \<Rightarrow> ('a, 'b) world \<Rightarrow> bool" where
  "resting k queue w \<longleftrightarrow> (\<forall>i t. i < length (wd_tasks w) \<and> wd_tasks w ! i = Runnable t \<longrightarrow>
     (i \<in> set queue \<and> rank t \<le> k) \<or> (i \<in> set (wd_ready w) \<and> rank t < k))"

lemma resting_run:
  assumes "inv w" and "not_blocked w" and "resting k (i # queue) w"
  shows "not_blocked (run_task prog i w) \<and> resting k queue (run_task prog i w)"
proof (cases "\<exists>t. i < length (wd_tasks w) \<and> wd_tasks w ! i = Runnable t")
  case False
  then have "run_task prog i w = w" by (auto simp: run_task_def split: task.splits)
  then show ?thesis using assms False by (auto simp: resting_def)
next
  case True
  then obtain t where i: "i < length (wd_tasks w)" "wd_tasks w ! i = Runnable t" by blast
  obtain eff s new where p: "prog t (vc_t (wd_clock w)) (wd_shared w) = (eff, s, new)" by (cases "prog t (vc_t (wd_clock w)) (wd_shared w)")
  have J: "I (wd_shared w)" "J t" "vc_t (wd_clock w) \<le> horizon" using assms(1) i by (auto simp: inv_def list_all_length)
  note r = rests [OF J p]
  have rt: "rank t \<le> k" using assms(3) i unfolding resting_def by fastforce
  define v where "v = spawn new (w\<lparr>wd_shared := s\<rparr>)"
  have run: "run_task prog i w = settle i eff v" using i p by (simp add: run_task_def v_def)
  have v: "wd_tasks v = wd_tasks w @ map Runnable new" "set (wd_ready v) = set (wd_ready w) \<union> {length (wd_tasks w)..<length (wd_tasks w) + length new}"
    by (auto simp: v_def spawn_def)
  obtain x where x: "wd_tasks (settle i eff v) = (wd_tasks v)[i := x]" "wd_ready (settle i eff v) = wd_ready v"
      "\<forall>u. x \<noteq> Runnable u" "\<forall>u. x \<noteq> Blocked u"
    using r by (fastforce simp: settle_def vc_sleep_def)
  have "not_blocked (settle i eff v)"
    using assms(2) x(1,4) v(1) by (auto simp: not_blocked_def list_all_iff dest!: set_update_subset_insert [THEN subsetD])
  moreover have "resting k queue (settle i eff v)"
    unfolding resting_def
  proof (intro allI impI)
    fix j u assume "j < length (wd_tasks (settle i eff v)) \<and> wd_tasks (settle i eff v) ! j = Runnable u"
    then have j: "j < length (wd_tasks w) + length new" "(wd_tasks v)[i := x] ! j = Runnable u" using x(1) v(1) by auto
    then have ji: "j \<noteq> i" using x(3) i(1) v(1) by (auto simp: nth_list_update)
    then have vj: "wd_tasks v ! j = Runnable u" using j(2) by simp
    show "j \<in> set queue \<and> rank u \<le> k \<or> j \<in> set (wd_ready (settle i eff v)) \<and> rank u < k"
    proof (cases "j < length (wd_tasks w)")
      case True
      then have "wd_tasks w ! j = Runnable u" using vj v(1) by (simp add: nth_append)
      then show ?thesis using assms(3) True ji x(2) v(2) by (auto simp: resting_def)
    next
      case False
      then have "u \<in> set new" using vj v(1) j(1) by (auto simp: nth_append)
      then have "rank u < k" using r rt by (auto simp: list_all_iff)
      then show ?thesis using False j(1) x(2) v(2) by auto
    qed
  qed
  ultimately show ?thesis by (simp add: run)
qed

lemma resting_turn:
  assumes "inv w" and "not_blocked w" and "resting (Suc k) [] w"
  shows "inv (turn prog w) \<and> not_blocked (turn prog w) \<and> resting k [] (turn prog w)"
proof -
  have "inv v \<Longrightarrow> not_blocked v \<Longrightarrow> resting k queue v \<Longrightarrow>
      not_blocked (foldl (\<lambda>v i. run_task prog i v) v queue) \<and> resting k [] (foldl (\<lambda>v i. run_task prog i v) v queue)" for v queue
    by (induction queue arbitrary: v) (simp_all add: resting_run inv_run_task)
  moreover have "inv (w\<lparr>wd_ready := []\<rparr>)" "not_blocked (w\<lparr>wd_ready := []\<rparr>)" "resting k (wd_ready w) (w\<lparr>wd_ready := []\<rparr>)"
    using assms by (auto simp: inv_def not_blocked_def resting_def less_Suc_eq_le)
  ultimately show ?thesis using inv_turn [OF assms(1)] by (simp add: turn_def)
qed

lemma rested_pending:
  assumes "world_ok w" and "not_blocked w" and "resting 0 [] w"
  shows "live_tasks w \<le> vc_pending (wd_clock w)"
proof -
  have "\<forall>t \<in> set (wd_tasks w). \<not> task_done t \<longrightarrow> parked_on t \<noteq> None"
  proof
    fix t assume "t \<in> set (wd_tasks w)"
    then obtain i where "i < length (wd_tasks w)" "wd_tasks w ! i = t" by (metis in_set_conv_nth)
    then show "\<not> task_done t \<longrightarrow> parked_on t \<noteq> None" using assms(2,3) by (cases t) (auto simp: resting_def not_blocked_def list_all_length)
  qed
  then have "live_tasks w \<le> length (filter (\<lambda>t. parked_on t \<noteq> None) (wd_tasks w))"
    unfolding live_tasks_def by (rule length_filter_imp)
  also have "\<dots> = size (mset (map snd (vc_waiters (wd_clock w))))" using assms(1) by (simp only: world_ok_def size_futures)
  finally show ?thesis by (simp add: vc_pending_def)
qed

lemma park_all_rests:
  assumes "inv w" and "world_ok w" and "not_blocked w" and "resting k [] w" and "k < spins"
    and "park_all prog n spins w = (w1, still, parked)"
  shows "parked" and "not_blocked w1"
proof -
  have "parked \<and> not_blocked w1"
    using assms
  proof (induction k arbitrary: w spins)
    case 0
    then obtain m where m: "spins = Suc m" by (cases spins) auto
    have "live_tasks w \<le> vc_pending (wd_clock w)" by (rule rested_pending [OF 0(2-4)])
    then show ?case using 0(3,6) m by (auto split: if_split_asm)
  next
    case (Suc k)
    then obtain m where m: "spins = Suc m" by (cases spins) auto
    show ?case
    proof (cases "alive n w = [] \<or> live_tasks w \<le> vc_pending (wd_clock w)")
      case True
      then show ?thesis using Suc.prems(3,6) m by (auto split: if_split_asm)
    next
      case False
      note t = resting_turn [OF Suc.prems(1,3,4)]
      show ?thesis
        by (rule Suc.IH [of "turn prog w" m])
          (use t turn_ok [OF Suc.prems(2)] Suc.prems(5,6) m False in \<open>auto split: if_split_asm\<close>)
    qed
  qed
  then show "parked" and "not_blocked w1" by blast+
qed

lemma resting_advance:
  assumes "not_blocked w" and "all_parked w"
  shows "not_blocked (advance w) \<and> resting ranks [] (advance w)"
proof -
  obtain c r woken where a: "vc_advance (wd_clock w) = (c, r, woken)" by (cases "vc_advance (wd_clock w)")
  have "resting ranks [] (advance w)"
    unfolding resting_def
  proof (intro allI impI)
    fix i t assume i: "i < length (wd_tasks (advance w)) \<and> wd_tasks (advance w) ! i = Runnable t"
    then have i': "i < length (wd_tasks w)" "unpark woken (wd_tasks w ! i) = Runnable t" by (auto simp: advance_def a)
    then have "wd_tasks w ! i \<noteq> Runnable t" using assms(2) by (auto simp: all_parked_def list_all_length)
    then obtain k where "wd_tasks w ! i = Parked k t" "k \<in> set woken"
      using i'(2) by (auto simp: unpark_def split: task.splits if_split_asm)
    then show "i \<in> set [] \<and> rank t \<le> ranks \<or> i \<in> set (wd_ready (advance w)) \<and> rank t < ranks"
      using i'(1) rank_bound by (auto simp: advance_def a)
  qed
  moreover have "unpark woken t \<noteq> Blocked u" if "\<forall>u. t \<noteq> Blocked u" for t :: "'a task" and u
    using that by (auto simp: unpark_def split: task.splits)
  then have "not_blocked (advance w)" using assms(1) by (auto simp: not_blocked_def advance_def a list_all_iff)
  ultimately show ?thesis by blast
qed

lemma drive_loop_rests:
  assumes "inv w" and "world_ok w" and "n \<le> length (wd_tasks w)" and "not_blocked w" and "resting ranks [] w"
    and "ranks < spin_limit" and "until_s \<le> horizon" and "\<not> sr_stalled r"
    and "drive_loop prog n until_s spin_limit fuel (w, r) = (w', r')" and "sr_stalled r'"
  shows "sr_steps r' = sr_steps r + fuel"
  using assms
proof (induction fuel arbitrary: w r)
  case (Suc fuel)
  obtain w1 still parked where p: "park_all prog n spin_limit w = (w1, still, parked)" by (cases "park_all prog n spin_limit w")
  note rest = park_all_rests [OF Suc.prems(1,2,4,5,6) p]
  note f = park_all_facts [OF Suc.prems(2) p]
  have p1: "park_all prog n spin_limit w = (w1, still, True)" using p rest(1) by simp
  have w1: "inv w1" by (rule inv_park_all [OF Suc.prems(1) p])
  have ne: "still \<noteq> []"
  proof
    assume "still = []"
    then show False using Suc.prems(8-10) p1 by auto
  qed
  from parked_first [OF Suc.prems(2,3) p1 ne] obtain d
    where d: "all_parked w1" "next_deadline_s (wd_clock w1) = Some d" "vc_t (wd_clock (advance w1)) = d" "world_ok (advance w1)"
    by blast
  show ?case
  proof (cases "d > until_s")
    case True
    then show ?thesis using Suc.prems(8-10) p1 ne d(2) by auto
  next
    case False
    then have l: "drive_loop prog n until_s spin_limit fuel (advance w1, r\<lparr>sr_steps := sr_steps r + 1\<rparr>) = (w', r')"
      using Suc.prems(9) p1 ne d(2) by simp
    have "inv (advance w1)" using w1 d(3) False Suc.prems(7) by (intro inv_advance) auto
    moreover have "n \<le> length (wd_tasks (advance w1))" using f(4) Suc.prems(3) by simp
    moreover note ra = resting_advance [OF rest(2) d(1)]
    ultimately have "sr_steps r' = sr_steps (r\<lparr>sr_steps := sr_steps r + 1\<rparr>) + fuel"
      using Suc.IH [OF _ d(4) _ _ _ Suc.prems(6,7) _ l Suc.prems(10)] Suc.prems(8) by simp
    then show ?thesis by simp
  qed
qed auto

lemma never_stalls:
  assumes "I s" and "list_all J factories" and "t0 \<le> horizon" and "until_s \<le> horizon" and "ranks < spin_limit"
    and "drive prog (vc_new t0) factories s until_s max_steps spin_limit = (w, r)" and "sr_stalled r"
  shows "sr_steps r = max_steps"
proof -
  define r0 where "r0 = \<lparr>sr_end_time_s = t0, sr_steps = 0, sr_completed = False, sr_stalled = False, sr_errors = []\<rparr>"
  obtain r1 where l: "drive_loop prog (length factories) until_s spin_limit max_steps (start_world (vc_new t0) factories s, r0) = (w, r1)"
      "sr_stalled r1 = sr_stalled r" "sr_steps r1 = sr_steps r"
    using assms(6) by (auto simp: drive_def r0_def Let_def vc_new_def split: prod.splits)
  have "not_blocked (start_world (vc_new t0) factories s)" "resting ranks [] (start_world (vc_new t0) factories s)"
    using rank_bound by (auto simp: not_blocked_def resting_def start_world_def list_all_iff)
  then have "sr_steps r1 = sr_steps r0 + max_steps"
    using drive_loop_rests [OF start_inv [OF assms(1-3)] start_world_ok _ _ _ assms(5,4) _ l(1)] l(2) assms(7)
    by (simp add: r0_def start_world_def)
  then show ?thesis using l(3) by (simp add: r0_def)
qed

end

subsection \<open>Witness\<close>

definition sleeper_prog :: "(unit, unit) program" where
  "sleeper_prog t now s = (Sleeps 1 t, s, [])"

theorem parked_before_advance_witness:
  "\<exists>w1. park_all sleeper_prog 1 5 (start_world (vc_new 0) [()] ()) = (w1, [0], True) \<and> all_parked w1 \<and>
     vc_t (wd_clock (advance w1)) = 1"
proof -
  let ?w = "start_world (vc_new 0) [()] () :: (unit, unit) world"
  have "\<exists>w1. park_all sleeper_prog 1 5 ?w = (w1, [0], True) \<and> next_deadline_s (wd_clock w1) = Some 1"
    by (simp add: numeral_eq_Suc start_world_def vc_new_def alive_def live_tasks_def vc_pending_def turn_def run_task_def
        sleeper_prog_def spawn_def settle_def vc_sleep_def next_deadline_s_def)
  then obtain w1 where w1: "park_all sleeper_prog 1 5 ?w = (w1, [0], True)" "next_deadline_s (wd_clock w1) = Some 1" by blast
  from parked_before_advance [OF start_world_ok _ w1(1)] w1 show ?thesis by (auto simp: start_world_def)
qed

end
