(* ===== verification/Simulation.thy ===== *)
theory Simulation
  imports EventLoop Controllers Validate
begin

section \<open>A whole manifest in virtual time (sim/experiment.py)\<close>

text \<open>
  \<open>sim_prog\<close> gives the coroutines of a simulated experiment: the two loops of every agent, the
  publication an agent starts and forgets, and the delivery a delaying bus schedules, over the
  shared state \<open>sim_net\<close> of agents, loopback bus and random generator. \<open>resolve_run\<close> and
  \<open>sim_build\<close> make it from a manifest, \<open>sim_run\<close> is \<^verbatim>\<open>SimulatedExperiment.run\<close>, the driver of
  \<open>EventLoop\<close> over it, and the figures of \<^verbatim>\<open>ExperimentOutcome\<close> follow. What the law of a
  controller instance is comes from \<open>law_for\<close>, numpy's draws and the processor time of a tick are
  parameters. A task that raises leaves the agent as it was before its turn.
\<close>

subsection \<open>The tasks\<close>

record ('c, 'g) sim_env =
  se_law :: "'c \<Rightarrow> 'c law"
  se_bus :: bus_params
  se_draw :: "'g \<Rightarrow> real \<times> 'g"
  se_cpu :: "int \<Rightarrow> real \<Rightarrow> real"

type_synonym 'c fleet = "(int \<times> 'c agent) list"

record ('c, 'g) sim_net =
  sn_agents :: "'c fleet"
  sn_bus :: "'c fleet bus"
  sn_links :: "(int \<times> loopback) list"
  sn_rng :: 'g

datatype sim_task =
    ControlStart int
  | ControlWoke int real loop_timing
  | PublishStart int
  | PublishWoke int real loop_timing
  | Publish int state_packet
  | Deliver int "bytes option" state_packet real
  | DeliverNow int "bytes option" state_packet

definition on_agent :: "int \<Rightarrow> ('c agent \<Rightarrow> 'c agent) \<Rightarrow> 'c fleet \<Rightarrow> 'c fleet" where
  "on_agent i f fleet = map (\<lambda>(j, a). if j = i then (j, f a) else (j, a)) fleet"

definition sim_callback :: "int \<Rightarrow> 'c fleet callback" where
  "sim_callback i fleet r = (on_agent i (\<lambda>a. fst (agent_on_receive a r)) fleet, None)"

definition sim_now_us :: "real \<Rightarrow> int" where
  "sim_now_us now = py_round (now * 10 ^ 6)"

type_synonym ('c, 'g) sim_step = "sim_task effect \<times> ('c, 'g) sim_net \<times> sim_task list"

text \<open>\<^verbatim>\<open>_run_periodic\<close>: before the first sleep, and from a sleep to the next, around the body.\<close>

definition loop_start :: "real \<Rightarrow> (real \<Rightarrow> loop_timing \<Rightarrow> sim_task) \<Rightarrow> real \<Rightarrow> sim_task effect" where
  "loop_start period woke now = Sleeps (sleep_amount period (now + period) now) (woke (now + period) (lt_new period))"

definition loop_again :: "real \<Rightarrow> (real \<Rightarrow> loop_timing \<Rightarrow> sim_task) \<Rightarrow> real \<times> loop_timing \<Rightarrow> real \<Rightarrow> sim_task effect" where
  "loop_again period woke st now =
     (let (next_deadline, t) = periodic_step period st now
      in Sleeps (sleep_amount period next_deadline now) (woke next_deadline t))"

definition control_woke :: "('c, 'g) sim_env \<Rightarrow> int \<Rightarrow> 'c agent \<Rightarrow> real \<times> loop_timing \<Rightarrow> real \<Rightarrow> ('c, 'g) sim_net \<Rightarrow> ('c, 'g) sim_step" where
  "control_woke env i a st now s =
     (case agent_control_step (se_law env (ag_law a)) a (sim_now_us now) now (se_cpu env i now) of
        Inl e \<Rightarrow> (Raises e, s, [])
      | Inr (a', out, packets, rows) \<Rightarrow>
          (loop_again (ac_dt (ag_config a)) (ControlWoke i) st now,
           s\<lparr>sn_agents := on_agent i (\<lambda>_. a') (sn_agents s)\<rparr>, map (Publish i) packets))"

definition publish_woke :: "('c, 'g) sim_env \<Rightarrow> int \<Rightarrow> 'c agent \<Rightarrow> real \<times> loop_timing \<Rightarrow> real \<Rightarrow> ('c, 'g) sim_net \<Rightarrow> ('c, 'g) sim_step" where
  "publish_woke env i a st now s =
     (case agent_publish_step (se_law env (ag_law a)) a (sim_now_us now) of
        Inl e \<Rightarrow> (Raises e, s, [])
      | Inr (a', p) \<Rightarrow>
          (loop_again (ac_publish_period (ag_config a)) (PublishWoke i) st now,
           s\<lparr>sn_agents := on_agent i (\<lambda>_. a') (sn_agents s)\<rparr>, [Publish i p]))"

text \<open>\<^verbatim>\<open>_publish\<close> over the loopback transport: exceptions are swallowed.\<close>

definition publish_task :: "('c, 'g) sim_env \<Rightarrow> int \<Rightarrow> state_packet \<Rightarrow> real \<Rightarrow> ('c, 'g) sim_net \<Rightarrow> ('c, 'g) sim_step" where
  "publish_task env i p now s =
     (case map_of (sn_links s) i of
        None \<Rightarrow> (Returns, s, [])
      | Some lb \<Rightarrow>
          if \<not> lb_started lb then (Returns, s, [])
          else
            let ((bus, fleet, g, later), e) =
                  bus_broadcast (se_draw env) (se_bus env) True (sim_now_us now) (sn_bus s) (sn_agents s) (sn_rng s) i p;
                wire = (case bus_wire True p of Inl _ \<Rightarrow> None | Inr w \<Rightarrow> w)
            in (Returns, s\<lparr>sn_agents := on_agent i (\<lambda>a. agent_published a e) fleet, sn_bus := bus, sn_rng := g\<rparr>,
                map (\<lambda>(n, delay). Deliver n wire p delay) later))"

definition deliver_now :: "int \<Rightarrow> bytes option \<Rightarrow> state_packet \<Rightarrow> real \<Rightarrow> ('c, 'g) sim_net \<Rightarrow> ('c, 'g) sim_step" where
  "deliver_now n wire p now s =
     (case bus_payload wire p of
        Inl e \<Rightarrow> (Raises e, s, [])
      | Inr q \<Rightarrow>
          (Returns, s\<lparr>sn_agents := fst (sim_callback n (sn_agents s) \<lparr>rc_packet = q, rc_rx = sim_now_us now, rc_rssi = None\<rparr>),
                      sn_bus := (sn_bus s)\<lparr>bus_delivered := bus_delivered (sn_bus s) + 1\<rparr>\<rparr>, []))"

definition with_agent :: "('c, 'g) sim_net \<Rightarrow> int \<Rightarrow> ('c agent \<Rightarrow> ('c, 'g) sim_step) \<Rightarrow> ('c, 'g) sim_step" where
  "with_agent s i f = (case map_of (sn_agents s) i of Some a \<Rightarrow> f a | None \<Rightarrow> (Raises KeyError, s, []))"

definition sim_prog :: "('c, 'g) sim_env \<Rightarrow> (sim_task, ('c, 'g) sim_net) program" where
  "sim_prog env t now s =
     (case t of
        ControlStart i \<Rightarrow> with_agent s i (\<lambda>a. (loop_start (ac_dt (ag_config a)) (ControlWoke i) now, s, []))
      | ControlWoke i d lt \<Rightarrow> with_agent s i (\<lambda>a. control_woke env i a (d, lt) now s)
      | PublishStart i \<Rightarrow> with_agent s i (\<lambda>a.
          if ag_publish_in_tick a then (Returns, s, [])
          else (loop_start (ac_publish_period (ag_config a)) (PublishWoke i) now, s, []))
      | PublishWoke i d lt \<Rightarrow> with_agent s i (\<lambda>a. publish_woke env i a (d, lt) now s)
      | Publish i p \<Rightarrow> publish_task env i p now s
      | Deliver n wire p delay \<Rightarrow> (Sleeps delay (DeliverNow n wire p), s, [])
      | DeliverNow n wire p \<Rightarrow> deliver_now n wire p now s)"

subsection \<open>Building the experiment from a manifest\<close>

record node_runtime =
  nrt_spec :: node_spec
  nrt_params :: controller_params
  nrt_disturbance_seed :: int
  nrt_ics :: node_ics
  nrt_run_index :: int

text \<open>\<^verbatim>\<open>ControllerParams\<close> of the merged settings: the scalar fields, or the three blocks.\<close>

definition merged_params :: "ft_params \<times> grid_block option \<Rightarrow> controller_params" where
  "merged_params pg =
     (case pg of
        (p, None) \<Rightarrow> ScalarParams p
      | (p, Some b) \<Rightarrow>
          GridParams \<lparr>mp_dt = fp_dt p, mp_plant = Some (gb_plant b), mp_virtual = Some (gb_virtual b),
            mp_interface = Some (gb_interface b), mp_degree = gb_degree b, mp_state0_P = gb_state0_P b,
            mp_state0_Q = gb_state0_Q b, mp_vstate0_P = gb_vstate0_P b, mp_vstate0_Q = gb_vstate0_Q b\<rparr>)"

definition resolve_run :: "numpy \<Rightarrow> manifest \<Rightarrow> int \<Rightarrow> (int \<times> node_runtime) list result" where
  "resolve_run np mf run_index =
     traverse (\<lambda>n. bindR (controller_params_for np mf n run_index) (\<lambda>pg.
       Inr (ns_id n, \<lparr>nrt_spec = n, nrt_params = merged_params pg,
                      nrt_disturbance_seed = node_seed np (em_seed mf) run_index (ns_id n) ''disturbance'',
                      nrt_ics = initial_conditions np n (em_seed mf) run_index, nrt_run_index = run_index\<rparr>))) (em_nodes mf)"

definition sim_config :: "manifest \<Rightarrow> node_spec \<Rightarrow> agent_config" where
  "sim_config mf n =
     \<lparr>ac_node = ns_id n, ac_neighbors = ns_neighbors n, ac_dt = cs_dt_s (em_controller mf),
      ac_publish_period = ns_publish_period_s n, ac_enabled = ns_enabled n, ac_max_age = None\<rparr>"

definition sim_agent :: "'g rng \<Rightarrow> manifest \<Rightarrow> bool \<Rightarrow> int \<times> node_runtime \<Rightarrow> (int \<times> 'g ctrl agent) result" where
  "sim_agent rg mf record_history rt =
     bindR (ctrl_create rg (cs_name (em_controller mf)) (nrt_params (snd rt)) (nrt_disturbance_seed (snd rt))) (\<lambda>c.
     bindR (agent_new (law_for rg c) (sim_config mf (nrt_spec (snd rt))) c record_history) (\<lambda>a. Inr (fst rt, a)))"

definition sim_build ::
  "'g rng \<Rightarrow> numpy \<Rightarrow> manifest \<Rightarrow> int \<Rightarrow> real \<Rightarrow> real \<Rightarrow> 'h \<Rightarrow> bool \<Rightarrow> ('g ctrl, 'h) sim_net result" where
  "sim_build rg np mf run_index loss delay g record_history =
     bindR (bus_init loss delay) (\<lambda>bus.
     bindR (resolve_run np mf run_index) (\<lambda>rts.
     bindR (traverse (sim_agent rg mf record_history) rts) (\<lambda>agents.
       Inr \<lparr>sn_agents = agents, sn_bus = bus,
            sn_links = map (\<lambda>(i, a). (i, \<lparr>lb_node = i, lb_started = False\<rparr>)) agents, sn_rng = g\<rparr>)))"

definition simulated_bus :: "real \<Rightarrow> real \<Rightarrow> bus_params" where
  "simulated_bus loss delay =
     \<lparr>bp_loss = loss, bp_delay = delay, bp_types = None, bp_link_loss = Map.empty, bp_link_delay = Map.empty\<rparr>"

subsection \<open>The run\<close>

definition start_agent :: "real \<Rightarrow> int \<Rightarrow> ('c, 'g) sim_net \<Rightarrow> ('c, 'g) sim_net result" where
  "start_agent now i s =
     (case map_of (sn_links s) i of
        None \<Rightarrow> Inl KeyError
      | Some lb \<Rightarrow>
          bindR (lb_start lb (sn_bus s) (sim_callback i)) (\<lambda>(lb', bus').
            Inr (s\<lparr>sn_links := map (\<lambda>(j, l). if j = i then (j, lb') else (j, l)) (sn_links s), sn_bus := bus',
                   sn_agents := on_agent i (\<lambda>a. agent_start a now) (sn_agents s)\<rparr>)))"

fun start_agents :: "real \<Rightarrow> int list \<Rightarrow> ('c, 'g) sim_net \<Rightarrow> ('c, 'g) sim_net result" where
  "start_agents now [] s = Inr s"
| "start_agents now (i # is) s = bindR (start_agent now i s) (start_agents now is)"

definition stop_agent :: "int \<Rightarrow> ('c, 'g) sim_net \<Rightarrow> ('c, 'g) sim_net" where
  "stop_agent i s =
     (case map_of (sn_links s) i of
        None \<Rightarrow> s
      | Some lb \<Rightarrow>
          (let (lb', bus') = lb_stop lb (sn_bus s) in
           s\<lparr>sn_links := map (\<lambda>(j, l). if j = i then (j, lb') else (j, l)) (sn_links s), sn_bus := bus',
             sn_agents := on_agent i agent_stop (sn_agents s)\<rparr>))"

record 'c sim_outcome =
  so_run :: sim_result
  so_agents :: "'c fleet"
  so_counters :: "int \<times> int \<times> int"
  so_components :: "int list list"

definition factories :: "int list \<Rightarrow> sim_task list" where
  "factories ids = concat (map (\<lambda>i. [ControlStart i, PublishStart i]) ids)"

definition MAX_STEPS :: nat where "MAX_STEPS = 2000000"
definition SPIN_LIMIT :: nat where "SPIN_LIMIT = 1000"

definition sim_run ::
  "('c, 'g) sim_env \<Rightarrow> graph_lib \<Rightarrow> manifest \<Rightarrow> ('c, 'g) sim_net \<Rightarrow> real \<Rightarrow> 'c sim_outcome result" where
  "sim_run env nx mf s duration_s =
     (let ids = map fst (sn_agents s) in
      bindR (start_agents 0 ids s) (\<lambda>s1.
        let (w, r) = drive (sim_prog env) (vc_new 0) (factories ids) s1 duration_s MAX_STEPS SPIN_LIMIT;
            s2 = foldl (\<lambda>t i. stop_agent i t) (wd_shared w) ids
        in Inr \<lparr>so_run = r, so_agents = sn_agents s2,
                so_counters = (bus_sent (sn_bus s2), bus_delivered (sn_bus s2), bus_dropped (sn_bus s2)),
                so_components = gr_eff_components (check nx mf None)\<rparr>))"

subsection \<open>Figures of the outcome\<close>

definition virtual_states :: "('c \<Rightarrow> 'c law) \<Rightarrow> 'c fleet \<Rightarrow> (int \<times> real list) list" where
  "virtual_states w fleet = map (\<lambda>(i, a). (i, lw_vstate (w (ag_law a)) (ag_law a))) fleet"

definition initial_virtual_states :: "('c \<Rightarrow> 'c law) \<Rightarrow> 'c fleet \<Rightarrow> (int \<times> real list) list" where
  "initial_virtual_states w fleet =
     concat (map (\<lambda>(i, a). case ag_history a of
         [] \<Rightarrow> []
       | h # _ \<Rightarrow> let d = cl_dim (lw_class (w (ag_law a))) in [(i, take d (drop d (ss_channels h)))]) fleet)"

text \<open>\<^verbatim>\<open>_spread\<close>: the widest disagreement over any one coordinate.\<close>

definition widest :: "real list list \<Rightarrow> real" where
  "widest vals =
     (if vals = [] then 0
      else Max ((\<lambda>c. Max ((\<lambda>v. v ! c) ` set vals) - Min ((\<lambda>v. v ! c) ` set vals)) ` {0..<length (hd vals)}))"

definition contraction :: "real \<Rightarrow> real \<Rightarrow> real" where
  "contraction start final = (if start \<noteq> 0 then 1 - final / start else 1)"

definition outcome_contraction :: "('c \<Rightarrow> 'c law) \<Rightarrow> 'c fleet \<Rightarrow> real" where
  "outcome_contraction w fleet =
     contraction (widest (map snd (initial_virtual_states w fleet))) (widest (map snd (virtual_states w fleet)))"

definition of_component :: "(int \<times> real list) list \<Rightarrow> int list \<Rightarrow> real list list" where
  "of_component z ids = List.map_filter (map_of z) ids"

definition components_or_all :: "int list list \<Rightarrow> (int \<times> real list) list \<Rightarrow> int list list" where
  "components_or_all comps z = (if comps = [] then [sort (map fst z)] else comps)"

definition component_spreads :: "('c \<Rightarrow> 'c law) \<Rightarrow> 'c sim_outcome \<Rightarrow> (int list \<times> real) list" where
  "component_spreads w out =
     (let z = virtual_states w (so_agents out) in
      map (\<lambda>comp. (comp, widest (of_component z comp))) (components_or_all (so_components out) z))"

definition component_contractions :: "('c \<Rightarrow> 'c law) \<Rightarrow> 'c sim_outcome \<Rightarrow> (int list \<times> real) list" where
  "component_contractions w out =
     (let firsts = initial_virtual_states w (so_agents out); finals = virtual_states w (so_agents out) in
      concat (map (\<lambda>comp.
        let f0 = of_component firsts comp; f1 = of_component finals comp in
        if f0 = [] \<or> f1 = [] then [] else [(comp, contraction (widest f0) (widest f1))])
        (components_or_all (so_components out) finals)))"

definition missing_links :: "'c fleet \<Rightarrow> (int \<times> int list) list" where
  "missing_links fleet =
     concat (map (\<lambda>(i, a). if missing (ag_neighbors a) = [] then [] else [(i, missing (ag_neighbors a))]) fleet)"

subsection \<open>One turn of one task\<close>

definition ctrl_grid_law :: "'g rng \<Rightarrow> mg_kind \<Rightarrow> 'g ctrl law" where
  "ctrl_grid_law rg k =
     \<lparr>lw_step = ctrl_step rg, lw_vstate = ctrl_vstate, lw_class = mg_class k, lw_in_tick = True,
      lw_logs_timing = True, lw_hold = True\<rparr>"

lemma law_for_grid: "law_for rg (GridC m) = ctrl_grid_law rg (mg_kind m)"
  by (simp add: law_for_def ctrl_grid_law_def)

definition ctrl_in :: "int \<Rightarrow> int \<Rightarrow> mg_kind \<Rightarrow> 'g ctrl \<Rightarrow> bool" where
  "ctrl_in L H k c \<longleftrightarrow> (\<exists>m. c = GridC m \<and> mg_kind m = k \<and> grid_good L H m)"

lemma mg_step_kind: "mg_step m vs = Inr (m', out) \<Longrightarrow> mg_kind m' = mg_kind m"
  by (auto simp: mg_step_def Let_def bindR_eq_Inr split_beta)

interpretation ctrl_band: banded_law "ctrl_grid_law rg k" "ctrl_in L H k" L H for rg k L H
proof
  fix c :: "'a ctrl" assume "ctrl_in L H k c"
  then obtain m where m: "c = GridC m" "mg_kind m = k" "grid_good L H m" by (auto simp: ctrl_in_def)
  show "int_band L H" using m(3) by (simp add: grid_good_def)
  show "length (lw_vstate (ctrl_grid_law rg k) c) \<in> {1, 2} \<and>
      list_all (\<lambda>x. dequantize L \<le> x \<and> x \<le> dequantize H) (lw_vstate (ctrl_grid_law rg k) c)"
    using m grid_vstate_in [of L H m] by (simp add: ctrl_grid_law_def grid_good_def)
  show "\<exists>c' out. lw_step (ctrl_grid_law rg k) c vs es = Inr (c', out) \<and> ctrl_in L H k c'"
    if "list_all (\<lambda>v. L \<le> v \<and> v \<le> H) vs" for vs es
  proof -
    obtain m' out where "mg_step m vs = Inr (m', out)" "law_in L H m'"
      using law_step_in [of L H m vs] m(3) \<open>list_all (\<lambda>v. L \<le> v \<and> v \<le> H) vs\<close> by (auto simp: grid_good_def)
    then show ?thesis using m mg_step_kind by (fastforce simp: ctrl_grid_law_def ctrl_step_def ctrl_in_def grid_good_def)
  qed
qed

lemma map_fst_on_agent [simp]: "map fst (on_agent i f fleet) = map fst fleet"
  by (auto simp: on_agent_def)

lemma list_all_on_agent:
  "list_all P fleet \<Longrightarrow> (\<And>a. P (i, a) \<Longrightarrow> P (i, f a)) \<Longrightarrow> list_all P (on_agent i f fleet)"
  by (auto simp: on_agent_def list_all_iff split: if_splits)

text \<open>An agent of a microgrid manifest, in the band.\<close>

definition member_in :: "int \<Rightarrow> int \<Rightarrow> mg_kind \<Rightarrow> int \<times> 'g ctrl agent \<Rightarrow> bool" where
  "member_in L H k ia \<longleftrightarrow> ctrl_band.held L H k (snd ia) \<and> 0 < ac_dt (ag_config (snd ia)) \<and>
     0 < ac_publish_period (ag_config (snd ia))"

definition fleet_in :: "int \<Rightarrow> int \<Rightarrow> mg_kind \<Rightarrow> int list \<Rightarrow> 'g ctrl fleet \<Rightarrow> bool" where
  "fleet_in L H k ids fleet \<longleftrightarrow> map fst fleet = ids \<and> list_all (member_in L H k) fleet"

definition bus_in :: "'c fleet bus \<Rightarrow> bool" where
  "bus_in bus \<longleftrightarrow> list_all (\<lambda>(n, cb). cb = sim_callback n) (bus_subs bus)"

definition net_state_in :: "int \<Rightarrow> int \<Rightarrow> mg_kind \<Rightarrow> int list \<Rightarrow> ('g ctrl, 'h) sim_net \<Rightarrow> bool" where
  "net_state_in L H k ids s \<longleftrightarrow> fleet_in L H k ids (sn_agents s) \<and> bus_in (sn_bus s)"

definition task_in :: "int \<Rightarrow> int \<Rightarrow> int list \<Rightarrow> sim_task \<Rightarrow> bool" where
  "task_in L H ids t \<longleftrightarrow>
     (case t of
        ControlStart i \<Rightarrow> i \<in> set ids | ControlWoke i d lt \<Rightarrow> i \<in> set ids
      | PublishStart i \<Rightarrow> i \<in> set ids | PublishWoke i d lt \<Rightarrow> i \<in> set ids
      | Publish i p \<Rightarrow> packet_in L H p
      | Deliver n wire p d \<Rightarrow> packet_in L H p \<and> bus_payload wire p = Inr p \<and> 0 < d
      | DeliverNow n wire p \<Rightarrow> packet_in L H p \<and> bus_payload wire p = Inr p)"

primrec task_rank :: "sim_task \<Rightarrow> nat" where
  "task_rank (ControlStart i) = 0"
| "task_rank (ControlWoke i d lt) = 2"
| "task_rank (PublishStart i) = 0"
| "task_rank (PublishWoke i d lt) = 2"
| "task_rank (Publish i p) = 1"
| "task_rank (Deliver n wire p d) = 0"
| "task_rank (DeliverNow n wire p) = 0"

lemma held_fields:
  "ag_law a' = ag_law a \<Longrightarrow> ag_neighbors a' = ag_neighbors a \<Longrightarrow> ag_config a' = ag_config a \<Longrightarrow>
    member_in L H k (i, a') = member_in L H k (j, a)"
  by (simp add: member_in_def ctrl_band.held_def)

lemma receive_member: "member_in L H k (i, a) \<Longrightarrow> packet_in L H (rc_packet r) \<Longrightarrow> member_in L H k (i, fst (agent_on_receive a r))"
  using ctrl_band.receive_held [of L H k a r] by (simp add: member_in_def agent_on_receive_def)

lemma callback_in:
  "fleet_in L H k ids fleet \<Longrightarrow> packet_in L H (rc_packet r) \<Longrightarrow> fleet_in L H k ids (fst (sim_callback n fleet r))"
  by (simp add: sim_callback_def fleet_in_def list_all_on_agent receive_member)

text \<open>A broadcast of a packet of the band: nothing raises, and what is put off is put off for a
  positive time.\<close>

lemma bus_loop_in:
  assumes "list_all (\<lambda>(n, cb). cb = sim_callback n) subs" and "fleet_in L H k ids fleet" and "packet_in L H q"
    and "bus_in bus" and "list_all (\<lambda>(n, d). 0 < d) later" and "0 \<le> delay"
  shows "\<exists>bus' fleet' g' later'. bus_loop draw (simulated_bus loss delay) sender (Inr q) now subs (bus, fleet, g, later) =
      ((bus', fleet', g', later'), None) \<and> fleet_in L H k ids fleet' \<and> bus_in bus' \<and> list_all (\<lambda>(n, d). 0 < d) later'"
  using assms(1,2,4,5)
proof (induction subs arbitrary: bus fleet g later)
  case (Cons x subs)
  obtain n where x: "x = (n, sim_callback n)" using Cons.prems(1) by (cases x) auto
  have subs: "list_all (\<lambda>(n, cb). cb = sim_callback n) subs" using Cons.prems(1) by simp
  have b: "bus_in (bus\<lparr>bus_dropped := i\<rparr>)" "bus_in (bus\<lparr>bus_delivered := i\<rparr>)" for i
    using Cons.prems(3) by (simp_all add: bus_in_def)
  have lp: "link_params (simulated_bus loss delay) sender n = (loss, delay)"
    by (simp add: link_params_def simulated_bus_def)
  obtain dropped g' where g: "(if loss = 0 then (False, g) else case draw g of (x, g1) \<Rightarrow> (x < loss, g1)) = (dropped, g')"
    by (metis surj_pair)
  have later: "delay \<noteq> 0 \<Longrightarrow> list_all (\<lambda>(n, d). 0 < d) (later @ [(n, delay)])" using Cons.prems(4) assms(6) by simp
  have cb: "fleet_in L H k ids (fst (sim_callback n fleet \<lparr>rc_packet = q, rc_rx = now, rc_rssi = None\<rparr>))"
    by (rule callback_in [OF Cons.prems(2)]) (simp add: assms(3))
  let ?fleet = "fst (sim_callback n fleet \<lparr>rc_packet = q, rc_rx = now, rc_rssi = None\<rparr>)"
  have run: "bus_loop draw (simulated_bus loss delay) sender (Inr q) now (x # subs) (bus, fleet, g, later) =
      bus_loop draw (simulated_bus loss delay) sender (Inr q) now subs
        (if n = sender then (bus, fleet, g, later)
         else if dropped then (bus\<lparr>bus_dropped := bus_dropped bus + 1\<rparr>, fleet, g', later)
         else if delay \<noteq> 0 then (bus, fleet, g', later @ [(n, delay)])
         else (bus\<lparr>bus_delivered := bus_delivered bus + 1\<rparr>, ?fleet, g', later))"
    unfolding x bus_loop.simps Let_def lp prod.case g by (simp add: sim_callback_def)
  show ?case
    unfolding run
    using Cons.IH [OF subs Cons.prems(2,3,4), of g] Cons.IH [OF subs Cons.prems(2) b(1) Cons.prems(4), of _ g']
      Cons.IH [OF subs Cons.prems(2,3) later, of g'] Cons.IH [OF subs cb b(2) Cons.prems(4), of _ g']
    by (cases "n = sender"; cases dropped; cases "delay = 0"; simp del: split_paired_Ex)
qed simp

definition simulated :: "'g rng \<Rightarrow> real \<Rightarrow> real \<Rightarrow> ('h \<Rightarrow> real \<times> 'h) \<Rightarrow> (int \<Rightarrow> real \<Rightarrow> real) \<Rightarrow> ('g ctrl, 'h) sim_env" where
  "simulated rg loss delay draw cpu =
     \<lparr>se_law = law_for rg, se_bus = simulated_bus loss delay, se_draw = draw, se_cpu = cpu\<rparr>"

text \<open>What a run of a task of such a program may do.\<close>

definition step_in :: "int \<Rightarrow> int \<Rightarrow> mg_kind \<Rightarrow> int list \<Rightarrow> sim_task \<Rightarrow> ('g ctrl, 'h) sim_step \<Rightarrow> bool" where
  "step_in L H k ids t r \<longleftrightarrow>
     (case r of (eff, s', new) \<Rightarrow>
        net_state_in L H k ids s' \<and> effect_all (task_in L H ids) eff \<and> list_all (task_in L H ids) new \<and>
        ((\<exists>d u. eff = Sleeps d u \<and> 0 < d) \<or> eff = Returns) \<and> list_all (\<lambda>u. task_rank u < task_rank t) new)"

lemma sim_now_bound: "now \<le> 10 ^ 8 \<Longrightarrow> sim_now_us now < 2 ^ 48"
proof -
  define x where "x = now * 10 ^ 6"
  assume "now \<le> 10 ^ 8"
  then have "x \<le> 100000000000000" by (simp add: x_def)
  then have "of_int (py_round x) < (100000000000001 :: real)" using py_round_close [of x] by linarith
  then have "py_round x < 100000000000001" by linarith
  then show ?thesis by (simp add: sim_now_us_def x_def)
qed

lemma sleep_amount_pos: "0 < period \<Longrightarrow> 0 < sleep_amount period d now"
  by (simp add: sleep_amount_def less_max_iff_disj)

lemma member_law: "member_in L H k (i, a) \<Longrightarrow> law_for rg (ag_law a) = ctrl_grid_law rg k"
  by (auto simp: member_in_def ctrl_band.held_def ctrl_in_def law_for_grid)

lemma replaced_member:
  assumes "fleet_in L H k ids fleet" and "member_in L H k (i, a)"
  shows "fleet_in L H k ids (on_agent i (\<lambda>_. a) fleet)"
  using assms by (simp add: fleet_in_def list_all_on_agent)

lemma with_agent_in:
  assumes "net_state_in L H k ids s" and "i \<in> set ids" and "\<And>a. member_in L H k (i, a) \<Longrightarrow> step_in L H k ids t (f a)"
  shows "step_in L H k ids t (with_agent s i f)"
proof -
  have "i \<in> fst ` set (sn_agents s)" using assms(1,2) by (auto simp: net_state_in_def fleet_in_def)
  then obtain a where a: "map_of (sn_agents s) i = Some a" by (metis domD domIff map_of_eq_None_iff)
  then have "(i, a) \<in> set (sn_agents s)" by (rule map_of_SomeD)
  then have "member_in L H k (i, a)" using assms(1) by (auto simp: net_state_in_def fleet_in_def list_all_iff)
  then show ?thesis using assms(3) a by (simp add: with_agent_def)
qed

lemma control_woke_in:
  assumes "net_state_in L H k ids s" and "i \<in> set ids" and "member_in L H k (i, a)" and "now \<le> 10 ^ 8"
  shows "step_in L H k ids (ControlWoke i d lt) (control_woke (simulated rg loss delay draw cpu) i a st now s)"
proof -
  have h: "ctrl_band.held L H k a" "0 < ac_dt (ag_config a)" "0 < ac_publish_period (ag_config a)"
    using assms(3) by (simp_all add: member_in_def)
  obtain a' out ps rows where c: "agent_control_step (ctrl_grid_law rg k) a (sim_now_us now) now (cpu i now) = Inr (a', out, ps, rows)"
      "ctrl_band.held L H k a'" "list_all (packet_in L H) ps"
    using ctrl_band.control_step_held [OF h(1), of "sim_now_us now" rg now "cpu i now"] sim_now_bound [OF assms(4)] by blast
  have "ag_config a' = ag_config a" by (rule control_step_cases [OF c(1)]) (auto simp: emitted_def)
  then have "member_in L H k (i, a')" using c(2) h by (simp add: member_in_def)
  then have "net_state_in L H k ids (s\<lparr>sn_agents := on_agent i (\<lambda>_. a') (sn_agents s)\<rparr>)"
    using assms(1) replaced_member [of L H k ids "sn_agents s" i a'] by (simp add: net_state_in_def)
  then show ?thesis
    using c(1,3) assms(2) h(2) sleep_amount_pos
    by (auto simp: control_woke_def simulated_def member_law [OF assms(3)] step_in_def loop_again_def task_in_def list_all_iff split_beta)
qed

lemma publish_woke_in:
  assumes "net_state_in L H k ids s" and "i \<in> set ids" and "member_in L H k (i, a)" and "now \<le> 10 ^ 8"
  shows "step_in L H k ids (PublishWoke i d lt) (publish_woke (simulated rg loss delay draw cpu) i a st now s)"
proof -
  have h: "ctrl_in L H k (ag_law a)" "1 \<le> ac_node (ag_config a)" "ac_node (ag_config a) \<le> 255" "0 < ac_publish_period (ag_config a)"
    using assms(3) by (simp_all add: member_in_def ctrl_band.held_def)
  obtain a' p where c: "agent_publish_step (ctrl_grid_law rg k) a (sim_now_us now) = Inr (a', p)"
    using ctrl_band.publish_total [OF h(1) _ h(2,3)] sim_now_bound [OF assms(4)] by blast
  then have p: "packet_in L H p" "member_in L H k (i, a')"
    using ctrl_band.quantized [OF h(1)] assms(3) by (auto simp: publish_step_Inr packet_in_def member_in_def ctrl_band.held_def)
  then have "net_state_in L H k ids (s\<lparr>sn_agents := on_agent i (\<lambda>_. a') (sn_agents s)\<rparr>)"
    using assms(1) replaced_member [of L H k ids "sn_agents s" i a'] by (simp add: net_state_in_def)
  then show ?thesis
    using c p(1) assms(2) h(4) sleep_amount_pos
    by (auto simp: publish_woke_def simulated_def member_law [OF assms(3)] step_in_def loop_again_def task_in_def split_beta)
qed

lemma wire_back:
  assumes "packet_ok p"
  shows "\<exists>wire. bus_wire True p = Inr (Some wire) \<and> bus_payload (Some wire) p = Inr p"
  using assms by (auto simp: bus_wire_def bus_payload_def manufacturer_bytes manufacturer_back)

lemma publish_task_in:
  assumes "net_state_in L H k ids s" and "packet_in L H p" and "0 \<le> delay"
  shows "step_in L H k ids (Publish i p) (publish_task (simulated rg loss delay draw cpu) i p now s)"
proof (cases "\<exists>lb. map_of (sn_links s) i = Some lb \<and> lb_started lb")
  case False
  then show ?thesis using assms(1) by (auto simp: publish_task_def step_in_def split: option.splits)
next
  case True
  obtain wire where w: "bus_wire True p = Inr (Some wire)" "bus_payload (Some wire) p = Inr p"
    using wire_back assms(2) by (auto simp: packet_in_def)
  define bus0 where "bus0 = (sn_bus s)\<lparr>bus_sent := bus_sent (sn_bus s) + 1\<rparr>"
  have f: "fleet_in L H k ids (sn_agents s)" "bus_in bus0" "list_all (\<lambda>(n, cb). cb = sim_callback n) (bus_subs bus0)"
    using assms(1) by (simp_all add: net_state_in_def bus_in_def bus0_def)
  obtain bus' fleet' g' later' where l: "bus_loop draw (simulated_bus loss delay) i (Inr p) (sim_now_us now) (bus_subs bus0)
        (bus0, sn_agents s, sn_rng s, []) = ((bus', fleet', g', later'), None)"
      "fleet_in L H k ids fleet'" "bus_in bus'" "list_all (\<lambda>(n, d). 0 < d) later'"
    using bus_loop_in [OF f(3,1) assms(2) f(2) _ assms(3), of "[]" draw loss i "sim_now_us now" "sn_rng s"] by auto
  have b: "bus_broadcast draw (simulated_bus loss delay) True (sim_now_us now) (sn_bus s) (sn_agents s) (sn_rng s) i p =
      ((bus', fleet', g', later'), None)"
    using l(1) by (simp add: bus_broadcast_def Let_def w bus0_def)
  have later: "0 < d" if "(n, d) \<in> set later'" for n d using l(4) that by (auto simp: list_all_iff)
  have "member_in L H k (i, agent_published a None) = member_in L H k (i, a)" for a :: "'a ctrl agent"
    by (rule held_fields) (simp_all add: agent_published_def)
  then have "net_state_in L H k ids (s\<lparr>sn_agents := on_agent i (\<lambda>a. agent_published a None) fleet', sn_bus := bus', sn_rng := g'\<rparr>)"
    using l(2,3) by (simp add: net_state_in_def fleet_in_def list_all_on_agent)
  then show ?thesis
    using True later assms(2) w
    by (auto simp: publish_task_def simulated_def b step_in_def task_in_def list_all_iff)
qed

lemma deliver_now_in:
  assumes "net_state_in L H k ids s" and "packet_in L H p" and "bus_payload wire p = Inr p"
  shows "step_in L H k ids (DeliverNow n wire p) (deliver_now n wire p now s)"
proof -
  have "fleet_in L H k ids (fst (sim_callback n (sn_agents s) \<lparr>rc_packet = p, rc_rx = sim_now_us now, rc_rssi = None\<rparr>))"
    using assms(1,2) by (intro callback_in) (simp_all add: net_state_in_def)
  then show ?thesis using assms(1,3) by (simp add: deliver_now_def step_in_def net_state_in_def bus_in_def)
qed

lemma sim_prog_in:
  assumes "net_state_in L H k ids s" and "task_in L H ids t" and "now \<le> 10 ^ 8" and "0 \<le> delay"
  shows "step_in L H k ids t (sim_prog (simulated rg loss delay draw cpu) t now s)"
proof -
  have start: "step_in L H k ids u (loop_start period woke now, s, [])"
    if "0 < period" "\<And>d lt. task_in L H ids (woke d lt)" for u period woke
    using that assms(1) sleep_amount_pos by (simp add: step_in_def loop_start_def)
  show ?thesis
  proof (cases t)
    case (ControlStart i)
    then show ?thesis using assms start
      by (auto simp: sim_prog_def member_in_def task_in_def intro!: with_agent_in)
  next
    case (ControlWoke i d lt)
    then show ?thesis using assms control_woke_in by (auto simp: sim_prog_def task_in_def intro!: with_agent_in)
  next
    case (PublishStart i)
    then have i: "i \<in> set ids" using assms(2) by (simp add: task_in_def)
    have "step_in L H k ids t (with_agent s i (\<lambda>a. if ag_publish_in_tick a then (Returns, s, [])
        else (loop_start (ac_publish_period (ag_config a)) (PublishWoke i) now, s, [])))"
    proof (rule with_agent_in [OF assms(1) i])
      fix a assume "member_in L H k (i, a)"
      then have "step_in L H k ids t (loop_start (ac_publish_period (ag_config a)) (PublishWoke i) now, s, [])"
        using i by (intro start) (simp_all add: member_in_def task_in_def)
      moreover have "step_in L H k ids t (Returns, s, [])" using assms(1) by (simp add: step_in_def)
      ultimately show "step_in L H k ids t (if ag_publish_in_tick a then (Returns, s, [])
          else (loop_start (ac_publish_period (ag_config a)) (PublishWoke i) now, s, []))" by simp
    qed
    then show ?thesis by (simp add: sim_prog_def PublishStart)
  next
    case (PublishWoke i d lt)
    then show ?thesis using assms publish_woke_in by (auto simp: sim_prog_def task_in_def intro!: with_agent_in)
  next
    case (Publish i p)
    then show ?thesis using assms publish_task_in by (auto simp: sim_prog_def task_in_def)
  next
    case (Deliver n wire p d)
    then show ?thesis using assms by (auto simp: sim_prog_def task_in_def step_in_def)
  next
    case (DeliverNow n wire p)
    then show ?thesis using assms deliver_now_in by (auto simp: sim_prog_def task_in_def)
  qed
qed

interpretation simulated: sim_ranked "sim_prog (simulated rg loss delay draw cpu)"
  "\<lambda>s. 0 \<le> delay \<and> net_state_in L H k ids s" "task_in L H ids" "10 ^ 8" task_rank 3
  for rg loss delay draw cpu L H k ids
proof
  fix s :: "('a ctrl, 'b) sim_net" and t now eff s' new
  assume "0 \<le> delay \<and> net_state_in L H k ids s" "task_in L H ids t" "now \<le> 10 ^ 8"
    "sim_prog (simulated rg loss delay draw cpu) t now s = (eff, s', new)"
  then have r: "step_in L H k ids t (eff, s', new)" "0 \<le> delay" using sim_prog_in by metis+
  then show "(0 \<le> delay \<and> net_state_in L H k ids s') \<and> effect_all (task_in L H ids) eff \<and> list_all (task_in L H ids) new"
    and "((\<exists>d u. eff = Sleeps d u \<and> 0 < d) \<or> eff = Returns) \<and> list_all (\<lambda>u. task_rank u < task_rank t) new"
    by (simp_all add: step_in_def)
next
  show "task_rank t < 3" for t by (cases t) simp_all
qed

subsection \<open>From a manifest to a fleet in the band\<close>

definition block_params :: "real \<Rightarrow> grid_block \<Rightarrow> mg_params" where
  "block_params dt b =
     \<lparr>mp_dt = dt, mp_plant = Some (gb_plant b), mp_virtual = Some (gb_virtual b), mp_interface = Some (gb_interface b),
      mp_degree = gb_degree b, mp_state0_P = gb_state0_P b, mp_state0_Q = gb_state0_Q b,
      mp_vstate0_P = gb_vstate0_P b, mp_vstate0_Q = gb_vstate0_Q b\<rparr>"

lemma block_params_ok:
  assumes "microgrid_blocks mf m n = Inr b" and "microgrid_spec_check m" and "0 \<le> ms_kappa_o m" "0 \<le> ms_xi m" "0 \<le> ms_c_0 m"
    and "0 \<le> dt"
  shows "mg_params_ok (block_params dt b)"
proof -
  obtain p where p: "ns_plant n = Some p" using assms(1) by (cases "ns_plant n") (auto simp: microgrid_blocks_def)
  have checks: "plant_check q = Inr q' \<longleftrightarrow> q' = q \<and> 0 < pl_kappa q \<and> pl_profile q \<in> set PROFILES"
    "virtual_check v = Inr v' \<longleftrightarrow> v' = v \<and> \<not> (vp_T_o v \<le> 0 \<or> vp_delta_o v \<le> 0 \<or> vp_b v < 0 \<or> vp_b v = 0 \<and> (vp_rP v \<noteq> 0 \<or> vp_rQ v \<noteq> 0))"
    "adaptive_check a = Inr a' \<longleftrightarrow> a' = a \<and> 0 \<le> ap_gamma a \<and> 0 \<le> ap_eps a \<and> ap_trigger a \<in> set TRIGGERS"
    "lc_check l = Inr l' \<longleftrightarrow> l' = l \<and> 0 < lp_kappa l \<and> 0 < lp_beta_c l" for q q' v v' a a' l l'
    by (auto simp: plant_check_def virtual_check_def adaptive_check_def lc_check_def)
  have pl: "plant_check (gb_plant b) = Inr (gb_plant b)" "pl_p_max (gb_plant b) = ms_p_max m" "pl_q_max (gb_plant b) = ms_q_max m"
    and vi: "virtual_check (gb_virtual b) = Inr (gb_virtual b)" "vp_alpha_0 (gb_virtual b) = ms_alpha_0 m"
      "vp_kappa_o (gb_virtual b) = ms_kappa_o m" "vp_xi (gb_virtual b) = ms_xi m" "vp_c_0 (gb_virtual b) = ms_c_0 m"
    and deg: "0 \<le> gb_degree b"
    and ifc: "case gb_interface b of AdaptiveP a \<Rightarrow> adaptive_check a = Inr a \<and> ap_mu_max a = ms_mu_max m
      | LcP l \<Rightarrow> lc_check l = Inr l \<and> lp_profile l = ms_profile m \<and> lp_mu_max l = ms_mu_max m"
    using assms(1) unfolding microgrid_blocks_def p Let_def option.case bindR_eq_Inr checks by (auto simp: checks bindR_eq_Inr split: if_split_asm)
  have "plant_ok (gb_plant b)" "0 \<le> vp_alpha_0 (gb_virtual b)" "0 \<le> vp_kappa_o (gb_virtual b)" "0 \<le> vp_xi (gb_virtual b)"
      "0 \<le> vp_c_0 (gb_virtual b)"
    using pl vi assms(2-5) by (simp_all add: plant_ok_def microgrid_spec_check_def)
  moreover have "iface_params_ok (gb_interface b)"
    using ifc assms(2) by (cases "gb_interface b") (auto simp: iface_params_ok_def microgrid_spec_check_def PROFILES_def)
  ultimately show ?thesis using assms(6) vi(1) deg by (simp add: mg_params_ok_def block_params_def)
qed

text \<open>A manifest of the microgrid family whose initial estimates and reference lie in the band.\<close>

definition manifest_in :: "int \<Rightarrow> int \<Rightarrow> mg_kind \<Rightarrow> manifest \<Rightarrow> bool" where
  "manifest_in L H k mf \<longleftrightarrow> int_band L H \<and> cs_name (em_controller mf) = cl_name (mg_class k) \<and>
     (case cs_microgrid (em_controller mf) of None \<Rightarrow> False
      | Some m \<Rightarrow> 0 \<le> ms_kappa_o m \<and> 0 \<le> ms_xi m \<and> 0 \<le> ms_c_0 m) \<and>
     list_all (\<lambda>n. case ns_plant n of None \<Rightarrow> True | Some p \<Rightarrow> in_band (dequantize L) (dequantize H) (np_z0 p)) (em_nodes mf) \<and>
     (case em_coordination mf of None \<Rightarrow> True | Some c \<Rightarrow> in_band (dequantize L) (dequantize H) (crd_reference c))"

lemma built_member:
  assumes "manifest_check mf = Inr mf" and "manifest_in L H k mf" and "n \<in> set (em_nodes mf)"
    and "controller_params_for np mf n run_index = Inr pg"
    and "sim_agent rg mf record_history (i, rt) = Inr (j, a)" and "nrt_spec rt = n" and "nrt_params rt = merged_params pg"
  shows "j = i \<and> member_in L H k (i, a)"
proof -
  obtain m where m: "cs_microgrid (em_controller mf) = Some m" "0 \<le> ms_kappa_o m" "0 \<le> ms_xi m" "0 \<le> ms_c_0 m"
    using assms(2) by (auto simp: manifest_in_def split: option.splits)
  have chk: "node_spec_check n" "0 < cs_dt_s (em_controller mf)" "microgrid_spec_check m" "int_band L H"
    using assms(1-3) m(1) by (auto simp: manifest_check_eq list_all_iff controller_spec_check_def manifest_in_def)
  let ?dt = "cs_dt_s (em_controller mf)"
  obtain b where b: "microgrid_blocks mf m n = Inr b" "pg = (scalar_defaults ?dt, Some b)"
    using assms(4) m(1) by (auto simp: controller_params_for_def Let_def bindR_eq_Inr)
  obtain p where p: "ns_plant n = Some p" using b(1) by (cases "ns_plant n") (auto simp: microgrid_blocks_def)
  have z0: "(gb_vstate0_P b, gb_vstate0_Q b) = np_z0 p"
    using b(1) by (auto simp: microgrid_blocks_def p Let_def bindR_eq_Inr)
  have par: "merged_params pg = GridParams (block_params ?dt b)"
    by (simp add: b(2) merged_params_def block_params_def scalar_defaults_def)
  obtain c where c: "ctrl_create rg (cs_name (em_controller mf)) (GridParams (block_params ?dt b)) (nrt_disturbance_seed rt) = Inr c"
      "agent_new (law_for rg c) (sim_config mf n) c record_history = Inr a" "j = i"
    using assms(5-7) par by (auto simp: sim_agent_def bindR_eq_Inr)
  have name: "cs_name (em_controller mf) = cl_name (mg_class k)" using assms(2) by (simp add: manifest_in_def)
  obtain g where g: "mg_init k (block_params ?dt b) = Inr g" "c = GridC g"
    using c(1) unfolding name ctrl_create_def create_def registry_lookup
    by (cases k) (auto simp: bindR_eq_Inr grid_fields_def)
  have ok: "mg_ok g" by (rule mg_init_ok(1) [OF block_params_ok [OF b(1) chk(3) m(2-4)] g(1)]) (use chk(2) in simp)
  have gf: "mg_kind g = k" "vl_packet (mg_virtual g) = np_z0 p" "vl_p (mg_virtual g) = gb_virtual b"
    using g(1) z0 by (auto simp: mg_init_def mg_blocks_def mg_build_def bindR_eq_Inr vl_new_def vl_packet_def block_params_def
        split: if_splits)
  have "in_band (dequantize L) (dequantize H) (np_z0 p)"
    using assms(2,3) p by (auto simp: manifest_in_def list_all_iff)
  moreover have "ref_within (dequantize L) (dequantize H) (gb_virtual b)"
  proof (cases "em_coordination mf")
    case None
    then show ?thesis using microgrid_blocks_virtual(1) [OF b(1)] by (simp add: ref_within_def)
  next
    case (Some cd)
    then have "vp_b (gb_virtual b) = 0 \<or> (vp_rP (gb_virtual b), vp_rQ (gb_virtual b)) = crd_reference cd"
      using microgrid_blocks_virtual [OF b(1)] b(1)
      by (auto simp: microgrid_blocks_def p Let_def bindR_eq_Inr virtual_check_def split: if_splits)
    then show ?thesis using assms(2) Some by (auto simp: ref_within_def manifest_in_def)
  qed
  ultimately have "ctrl_in L H k c" using g(2) gf ok chk(4) by (auto simp: ctrl_in_def grid_good_def law_in_def)
  moreover have "ag_law a = c" "ag_config a = sim_config mf n" "nt_records (ag_neighbors a) = Map.empty"
    using agent_new_fields [OF c(2)] by simp_all
  ultimately show ?thesis
    using chk(1,2) c(3) by (simp add: member_in_def ctrl_band.held_def table_in_def sim_config_def node_spec_check_def MAX_NODE_ID_def)
qed

lemma traverse_list_all:
  assumes "traverse f xs = Inr ys" and "\<And>x y. x \<in> set xs \<Longrightarrow> f x = Inr y \<Longrightarrow> P x y"
  shows "list_all2 P xs ys"
  using assms by (induction xs arbitrary: ys) (auto simp: bindR_eq_Inr)

lemma sim_build_in:
  assumes "manifest_check mf = Inr mf" and "manifest_in L H k mf"
    and "sim_build rg np mf run_index loss delay g record_history = Inr s"
  shows "fleet_in L H k (em_ids mf) (sn_agents s) \<and> bus_subs (sn_bus s) = [] \<and> 0 \<le> delay \<and>
    sn_links s = map (\<lambda>i. (i, \<lparr>lb_node = i, lb_started = False\<rparr>)) (em_ids mf)"
proof -
  obtain bus rts agents where b: "bus_init loss delay = Inr bus" "resolve_run np mf run_index = Inr rts"
      "traverse (sim_agent rg mf record_history) rts = Inr agents"
      "s = \<lparr>sn_agents = agents, sn_bus = bus, sn_links = map (\<lambda>(i, a). (i, \<lparr>lb_node = i, lb_started = False\<rparr>)) agents, sn_rng = g\<rparr>"
    using assms(3) by (auto simp: sim_build_def bindR_eq_Inr)
  have "list_all2 (\<lambda>n rt. n \<in> set (em_nodes mf) \<and> fst rt = ns_id n \<and> nrt_spec (snd rt) = n \<and>
      (\<exists>pg. controller_params_for np mf n run_index = Inr pg \<and> nrt_params (snd rt) = merged_params pg)) (em_nodes mf) rts"
    by (rule traverse_list_all [OF b(2)[unfolded resolve_run_def]]) (auto simp: bindR_eq_Inr)
  moreover have "list_all2 (\<lambda>rt ia. sim_agent rg mf record_history rt = Inr ia) rts agents"
    by (rule traverse_list_all [OF b(3)]) simp
  ultimately have "list_all2 (\<lambda>n ia. fst ia = ns_id n \<and> member_in L H k ia) (em_nodes mf) agents"
    by (rule list_all2_trans [rotated]) (use built_member [OF assms(1,2)] in \<open>fastforce\<close>)
  then have "map fst agents = em_ids mf \<and> list_all (member_in L H k) agents"
    unfolding em_ids_def by (induction rule: list_all2_induct) simp_all
  moreover have "bus_subs bus = []" "0 \<le> delay" using b(1) by (auto simp: bus_init_def split: if_splits)
  moreover from calculation(1) have "map (\<lambda>(i, a). (i, \<lparr>lb_node = i, lb_started = False\<rparr>)) agents =
      map (\<lambda>i. (i, \<lparr>lb_node = i, lb_started = False\<rparr>)) (em_ids mf)"
  proof -
    have "map (\<lambda>(i, a). (i, \<lparr>lb_node = i, lb_started = False\<rparr>)) xs =
        map (\<lambda>i. (i, \<lparr>lb_node = i, lb_started = False\<rparr>)) (map fst xs)" for xs :: "(int \<times> 'a ctrl agent) list"
      by (induction xs) auto
    from this [of agents] show ?thesis
      using \<open>map fst agents = em_ids mf \<and> list_all (member_in L H k) agents\<close> by (simp only:)
  qed
  ultimately show ?thesis using b(4) by (simp add: fleet_in_def)
qed

lemma start_member: "member_in L H k (i, agent_start a now) = member_in L H k (i, a)"
  "member_in L H k (i, agent_stop a) = member_in L H k (i, a)"
  by (rule held_fields; simp add: agent_start_def agent_stop_def)+

lemma start_agents_in:
  assumes "net_state_in L H k ids s" and "distinct is" and "fst ` set (bus_subs (sn_bus s)) \<inter> set is = {}"
    and "\<forall>i \<in> set is. map_of (sn_links s) i = Some \<lparr>lb_node = i, lb_started = False\<rparr>"
  shows "\<exists>s1. start_agents now is s = Inr s1 \<and> net_state_in L H k ids s1"
  using assms
proof (induction "is" arbitrary: s)
  case (Cons i "is")
  have i: "map_of (sn_links s) i = Some \<lparr>lb_node = i, lb_started = False\<rparr>" "i \<notin> fst ` set (bus_subs (sn_bus s))"
    using Cons.prems(3,4) by auto
  define s1 where "s1 = s\<lparr>sn_links := map (\<lambda>(j, l). if j = i then (j, \<lparr>lb_node = i, lb_started = True\<rparr>) else (j, l)) (sn_links s),
      sn_bus := (sn_bus s)\<lparr>bus_subs := bus_subs (sn_bus s) @ [(i, sim_callback i)]\<rparr>,
      sn_agents := on_agent i (\<lambda>a. agent_start a now) (sn_agents s)\<rparr>"
  have st: "start_agent now i s = Inr s1"
    using i by (simp add: start_agent_def lb_start_def bus_subscribe_def s1_def)
  have mo: "map_of (map (\<lambda>(j, l). if j = i then (j, l') else (j, l)) xs) j = map_of xs j" if "j \<noteq> i" for xs j and l' :: loopback
    using that by (induction xs) auto
  have "net_state_in L H k ids s1"
    using Cons.prems(1) by (auto simp: s1_def net_state_in_def fleet_in_def bus_in_def list_all_on_agent start_member)
  moreover have "\<forall>j \<in> set is. map_of (sn_links s1) j = Some \<lparr>lb_node = j, lb_started = False\<rparr>"
  proof
    fix j assume "j \<in> set is"
    then show "map_of (sn_links s1) j = Some \<lparr>lb_node = j, lb_started = False\<rparr>"
      using Cons.prems(2,4) mo [of j "\<lparr>lb_node = i, lb_started = True\<rparr>" "sn_links s"] by (auto simp: s1_def)
  qed
  moreover have "fst ` set (bus_subs (sn_bus s1)) \<inter> set is = {}" using Cons.prems(2,3) by (auto simp: s1_def)
  ultimately show ?case using Cons.IH [of s1] Cons.prems(2) st by simp
qed simp

lemma stop_agents_in:
  "fleet_in L H k ids (sn_agents s) \<Longrightarrow> fleet_in L H k ids (sn_agents (foldl (\<lambda>t i. stop_agent i t) s is))"
proof (induction "is" arbitrary: s)
  case (Cons i "is")
  have "fleet_in L H k ids (sn_agents (stop_agent i s))"
    using Cons.prems by (auto simp: stop_agent_def fleet_in_def list_all_on_agent start_member Let_def split_beta split: option.splits)
  then show ?case using Cons.IH by simp
qed simp

lemma widest_band:
  assumes "\<forall>v \<in> set vals. length v = d \<and> (\<forall>x \<in> set v. lo \<le> x \<and> x \<le> hi)" and "0 < d" and "lo \<le> hi"
  shows "0 \<le> widest vals \<and> widest vals \<le> hi - lo"
proof (cases "vals = []")
  case False
  define f where "f c = Max ((\<lambda>v. v ! c) ` set vals) - Min ((\<lambda>v. v ! c) ` set vals)" for c
  have f: "0 \<le> f c \<and> f c \<le> hi - lo" if "c < d" for c
  proof -
    define S where "S = (\<lambda>v. v ! c) ` set vals"
    have S: "finite S" "S \<noteq> {}" "\<forall>x \<in> S. lo \<le> x \<and> x \<le> hi" using assms(1) that False by (auto simp: S_def)
    have "Min S \<le> Max S" using Min_le [OF S(1) Max_in [OF S(1,2)]] by simp
    moreover have "lo \<le> Min S" "Max S \<le> hi" using S by simp_all
    ultimately show ?thesis unfolding f_def S_def [symmetric] by simp
  qed
  have "length (hd vals) = d" using assms(1) False by simp
  then have w: "widest vals = Max (f ` {0..<d})" using False by (simp add: widest_def f_def)
  have fin: "finite (f ` {0..<d})" "f ` {0..<d} \<noteq> {}" using assms(2) by auto
  have "Max (f ` {0..<d}) \<in> f ` {0..<d}" by (rule Max_in [OF fin])
  then show ?thesis using f w by auto
qed (use assms(3) in \<open>simp add: widest_def\<close>)

lemma fleet_states:
  assumes "fleet_in L H k ids fleet"
  shows "\<forall>z \<in> set (map snd (virtual_states (law_for rg) fleet)). length z = 2 \<and> (\<forall>x \<in> set z. dequantize L \<le> x \<and> x \<le> dequantize H)"
proof
  fix z assume "z \<in> set (map snd (virtual_states (law_for rg) fleet))"
  then obtain i a where a: "(i, a) \<in> set fleet" "z = lw_vstate (law_for rg (ag_law a)) (ag_law a)"
    by (auto simp: virtual_states_def)
  then have "member_in L H k (i, a)" using assms by (auto simp: fleet_in_def list_all_iff)
  then obtain m where "ag_law a = GridC m" "grid_good L H m" by (auto simp: member_in_def ctrl_band.held_def ctrl_in_def)
  then show "length z = 2 \<and> (\<forall>x \<in> set z. dequantize L \<le> x \<and> x \<le> dequantize H)"
    using grid_vstate_in [of L H m] by (simp add: a(2) law_for_def grid_good_def)
qed

text \<open>C3: From the manifest to the outcome. Take a valid microgrid manifest whose gains \<open>kappa_o\<close>, \<open>xi\<close> and \<open>c_0\<close>
  are not negative (its validation does not demand that), a band that contains zero, the initial estimates
  and the reference, and a duration of at most 10^8 s; and let the experiment be one that builds. Then its simulation,
  whatever the imposed loss and delay, the draws and the processor times, starts, ends without a task
  raising, does not stall unless the step bound is hit, leaves every agent's virtual state in the band,
  and so bounds the spread it reports.\<close>

theorem simulated_band:
  assumes "manifest_check mf = Inr mf" and "manifest_in L H k mf"
    and "sim_build rg np mf run_index loss delay g record_history = Inr s" and "duration_s \<le> 10 ^ 8"
  shows "\<exists>out. sim_run (simulated rg loss delay draw cpu) nx mf s duration_s = Inr out \<and>
    map fst (so_agents out) = em_ids mf \<and> sr_errors (so_run out) = [] \<and>
    (sr_stalled (so_run out) \<longrightarrow> sr_steps (so_run out) = MAX_STEPS) \<and>
    (\<forall>z \<in> set (map snd (virtual_states (law_for rg) (so_agents out))).
       length z = 2 \<and> (\<forall>x \<in> set z. dequantize L \<le> x \<and> x \<le> dequantize H)) \<and>
    widest (map snd (virtual_states (law_for rg) (so_agents out))) \<le> dequantize H - dequantize L"
proof -
  note b = sim_build_in [OF assms(1-3)]
  let ?ids = "em_ids mf"
  have ids: "map fst (sn_agents s) = ?ids" "distinct ?ids"
    using b assms(1) by (auto simp: fleet_in_def manifest_check_eq coherent_def)
  have s: "net_state_in L H k ?ids s" using b by (simp add: net_state_in_def bus_in_def)
  have links: "map_of (map (\<lambda>i. (i, F i)) xs) i = Some (F i)" if "i \<in> set xs" for i :: int and F :: "int \<Rightarrow> loopback" and xs
    using that by (induction xs) auto
  obtain s1 where s1: "start_agents 0 ?ids s = Inr s1" "net_state_in L H k ?ids s1"
    using start_agents_in [OF s ids(2), of 0] b links by auto
  define wr where "wr = drive (sim_prog (simulated rg loss delay draw cpu)) (vc_new 0) (factories ?ids) s1 duration_s MAX_STEPS SPIN_LIMIT"
  obtain w r where wr: "drive (sim_prog (simulated rg loss delay draw cpu)) (vc_new 0) (factories ?ids) s1 duration_s MAX_STEPS SPIN_LIMIT = (w, r)"
    by (cases wr) (simp add: wr_def)
  have fac: "list_all (task_in L H ?ids) (factories ?ids)" by (auto simp: factories_def list_all_iff task_in_def)
  have start: "0 \<le> delay \<and> net_state_in L H k ?ids s1" "(0 :: real) \<le> 10 ^ 8" using b s1(2) by simp_all
  note d = simulated.inv_drive [OF start(1) fac start(2) assms(4) wr]
  have spin: "3 < SPIN_LIMIT" by (simp add: SPIN_LIMIT_def)
  have stall: "sr_stalled r \<longrightarrow> sr_steps r = MAX_STEPS"
    using simulated.never_stalls [OF start(1) fac start(2) assms(4) spin wr] by blast
  define s2 where "s2 = foldl (\<lambda>t i. stop_agent i t) (wd_shared w) ?ids"
  have s2: "fleet_in L H k ?ids (sn_agents s2)" using d(1) unfolding s2_def by (intro stop_agents_in) (simp add: net_state_in_def)
  note z = fleet_states [OF s2, of rg]
  have "dequantize L \<le> dequantize H" using assms(2) by (intro dequantize_mono) (auto simp: manifest_in_def int_band_def)
  then have "widest (map snd (virtual_states (law_for rg) (sn_agents s2))) \<le> dequantize H - dequantize L"
    using widest_band [of "map snd (virtual_states (law_for rg) (sn_agents s2))" 2 "dequantize L" "dequantize H"] z by simp
  moreover have "sim_run (simulated rg loss delay draw cpu) nx mf s duration_s = Inr \<lparr>so_run = r, so_agents = sn_agents s2,
      so_counters = (bus_sent (sn_bus s2), bus_delivered (sn_bus s2), bus_dropped (sn_bus s2)),
      so_components = gr_eff_components (check nx mf None)\<rparr>"
    by (simp add: sim_run_def ids(1) s1(1) wr s2_def Let_def)
  ultimately show ?thesis using d(2) stall z s2 by (simp add: fleet_in_def)
qed

subsection \<open>A concrete experiment\<close>

definition sim_manifest :: manifest where
  "sim_manifest = demo_manifest\<lparr>em_nodes :=
     [(demo_node 1 ''10.0.0.1'' WIFI)\<lparr>ns_neighbors := [2, 3]\<rparr>, (demo_node 2 ''10.0.0.2'' WIFI)\<lparr>ns_neighbors := [1]\<rparr>,
      (demo_node 3 ''10.0.0.3'' BRIDGE)\<lparr>ns_neighbors := [1]\<rparr>]\<rparr>"

lemma sim_manifest_ok: "manifest_check sim_manifest = Inr sim_manifest"
  by (simp add: result_simps sim_manifest_def demo_manifest_def demo_node_def demo_grid_spec_def node_spec_check_def demo_ips
      no_self_loop_or_dupes_def node_plant_check_def controller_spec_check_def disturbance_spec_check_def
      microgrid_spec_check_def radio_spec_check_def in_range_def coordination_check_def coherent_def em_ids_def
      MAX_NODE_ID_def)

lemma sim_manifest_in: "manifest_in 0 3000000 MicrogridAdaptive sim_manifest"
  by (simp add: manifest_in_def demo_band sim_manifest_def demo_manifest_def demo_node_def demo_grid_spec_def in_band_def
      dequantize_def SCALE_FACTOR_def)

lemma py_round_5: "py_round 5 = 5"
  using py_round_of_int [of 5] by simp

lemma sim_manifest_builds: "\<exists>s. sim_build rg np sim_manifest 0 0 (1 / 20) g True = Inr s"
proof -
  have c: "\<exists>b. controller_params_for np sim_manifest n 0 = Inr (scalar_defaults (1 / 5), Some b) \<and>
      0 < of_int (gb_degree b) + vp_b (gb_virtual b) \<and> (\<exists>a. gb_interface b = AdaptiveP a)"
    if "n \<in> set (em_nodes sim_manifest)" for n
    using that
    by (auto simp: sim_manifest_def demo_manifest_def demo_node_def controller_params_for_def microgrid_blocks_def
        plant_check_def virtual_check_def adaptive_check_def demo_grid_spec_def PROFILES_def TRIGGERS_def dict_get_def
        eps_for_def Let_def)
  have a: "\<exists>ia. sim_agent rg sim_manifest True (i, rt) = Inr ia"
    if "nrt_spec rt \<in> set (em_nodes sim_manifest)"
      "\<exists>b. nrt_params rt = merged_params (scalar_defaults (1 / 5), Some b) \<and>
        0 < of_int (gb_degree b) + vp_b (gb_virtual b) \<and> (\<exists>a. gb_interface b = AdaptiveP a)" for i rt
  proof -
    note rt = that
    have name: "cs_name (em_controller sim_manifest) = ''microgrid_adaptive''" and dt: "cs_dt_s (em_controller sim_manifest) = 1 / 5"
      by (simp_all add: sim_manifest_def demo_manifest_def)
    have per: "ns_publish_period_s (nrt_spec rt) = 1" using that(1) by (auto simp: sim_manifest_def demo_node_def)
    obtain c where c: "ctrl_create rg ''microgrid_adaptive'' (nrt_params rt) (nrt_disturbance_seed rt) = Inr (GridC c)"
      using rt(2) by (auto simp: ctrl_create_def create_def registry_lookup merged_params_def grid_fields_def mg_init_def
          mg_blocks_def mg_build_def vl_new_def mg_make_interface_def not_le)
    then show ?thesis
      by (simp add: sim_agent_def name agent_new_def law_for_def publish_every_def sim_config_def dt per py_round_5 nt_init_def
          resolved_max_age_s_def)
  qed
  have t: "(\<And>x. x \<in> set xs \<Longrightarrow> \<exists>y. f x = Inr y \<and> P y) \<Longrightarrow> \<exists>ys. traverse f xs = Inr ys \<and> (\<forall>y \<in> set ys. P y)" for f xs P
    by (induction xs) fastforce+
  have "\<exists>rts. resolve_run np sim_manifest 0 = Inr rts \<and> (\<forall>rt \<in> set rts. nrt_spec (snd rt) \<in> set (em_nodes sim_manifest) \<and>
        (\<exists>b. nrt_params (snd rt) = merged_params (scalar_defaults (1 / 5), Some b) \<and>
        0 < of_int (gb_degree b) + vp_b (gb_virtual b) \<and> (\<exists>a. gb_interface b = AdaptiveP a)))"
    unfolding resolve_run_def
  proof (rule t)
    fix n assume n: "n \<in> set (em_nodes sim_manifest)"
    from c [OF n] obtain b where "controller_params_for np sim_manifest n 0 = Inr (scalar_defaults (1 / 5), Some b)"
      "0 < of_int (gb_degree b) + vp_b (gb_virtual b)" "\<exists>a. gb_interface b = AdaptiveP a" by blast
    then show "\<exists>y. bindR (controller_params_for np sim_manifest n 0) (\<lambda>pg.
        Inr (ns_id n, \<lparr>nrt_spec = n, nrt_params = merged_params pg,
                       nrt_disturbance_seed = node_seed np (em_seed sim_manifest) 0 (ns_id n) ''disturbance'',
                       nrt_ics = initial_conditions np n (em_seed sim_manifest) 0, nrt_run_index = 0\<rparr>)) = Inr y \<and>
      nrt_spec (snd y) \<in> set (em_nodes sim_manifest) \<and>
        (\<exists>b. nrt_params (snd y) = merged_params (scalar_defaults (1 / 5), Some b) \<and>
        0 < of_int (gb_degree b) + vp_b (gb_virtual b) \<and> (\<exists>a. gb_interface b = AdaptiveP a))"
      using n by auto
  qed
  then obtain rts where r: "resolve_run np sim_manifest 0 = Inr rts"
      "\<forall>rt \<in> set rts. nrt_spec (snd rt) \<in> set (em_nodes sim_manifest) \<and>
        (\<exists>b. nrt_params (snd rt) = merged_params (scalar_defaults (1 / 5), Some b) \<and>
        0 < of_int (gb_degree b) + vp_b (gb_virtual b) \<and> (\<exists>a. gb_interface b = AdaptiveP a))" by blast
  obtain agents where "traverse (sim_agent rg sim_manifest True) rts = Inr agents"
    using t [of rts "sim_agent rg sim_manifest True" "\<lambda>_. True"] a r(2) by fastforce
  then show ?thesis by (simp add: sim_build_def bus_init_def r(1))
qed

definition sim_rng :: "nat rng" where
  "sim_rng = \<lparr>rg_draw = \<lambda>g. (0, g), rg_new = \<lambda>s. nat s\<rparr>"

theorem simulated_band_witness:
  "\<exists>s out. sim_build (sim_rng) demo_numpy sim_manifest 0 0 (1 / 20) (0 :: nat) True = Inr s \<and>
     sim_run (simulated sim_rng 0 (1 / 20) (\<lambda>g. (0, g)) (\<lambda>i t. 100)) search_lib sim_manifest s 10 = Inr out \<and>
     sr_errors (so_run out) = [] \<and> map fst (so_agents out) = [1, 2, 3] \<and>
     widest (map snd (virtual_states (law_for sim_rng) (so_agents out))) \<le> 3"
proof -
  obtain s where s: "sim_build sim_rng demo_numpy sim_manifest 0 0 (1 / 20) (0 :: nat) True = Inr s"
    using sim_manifest_builds [of sim_rng demo_numpy "0 :: nat"] by blast
  have ids: "em_ids sim_manifest = [1, 2, 3]" by (simp add: em_ids_def sim_manifest_def demo_node_def)
  have d: "dequantize 3000000 - dequantize 0 = 3" by (simp add: dequantize_def SCALE_FACTOR_def)
  from simulated_band [OF sim_manifest_ok sim_manifest_in s, of 10 "\<lambda>g. (0, g)" "\<lambda>i t. 100" search_lib] s
  show ?thesis unfolding ids d by (intro exI [of _ s]) auto
qed

end
