(* ===== verification/BleRadio.thy ===== *)
theory BleRadio
  imports Transports "HOL-Library.Sublist"
begin

section \<open>The life of a BLE transport (transports/ble.py, radio/hci.py)\<close>

text \<open>
  \<open>ble_radio\<close> is a \<^verbatim>\<open>BleTransport\<close> with its settings, its HCI socket and the controller behind it.
  The controller is a parameter: \<open>hw d packet\<close> is its next state and the packets it puts on the
  socket in response, or \<open>None\<close> when the send fails. \<open>hci_sock\<close> is \<^verbatim>\<open>HciSocket\<close>: whether it is
  open, and the packets waiting to be read. \<open>ble_start\<close>, \<open>ble_stop\<close>, \<open>radio_publish\<close> and
  \<open>radio_pump\<close> are the transport's operations around those of \<open>Transports\<close>. \<open>br_log\<close> records every
  blocking command with the statuses it tolerated, whether the reader was in place when it went out, and its
  outcome; nothing reads it.
\<close>

record hci_sock =
  hs_open :: bool
  hs_queue :: "bytes list"

record ble_settings =
  bl_adv_interval_ms :: real
  bl_adv_interval_max_ms :: "real option"
  bl_scan_interval_ms :: real
  bl_scan_window_ms :: real
  bl_channel_map :: int
  bl_passive_scan :: bool
  bl_filter_duplicates :: bool

type_synonym exchange = "(bytes \<times> int list) \<times> bool \<times> command_complete result"

record 'd ble_radio =
  br_t :: ble_transport
  br_set :: ble_settings
  br_tx_power :: "int option"
  br_sock :: "hci_sock option"
  br_owns :: bool
  br_advertising :: bool
  br_scanning :: bool
  br_hw :: 'd
  br_log :: "exchange list"

type_synonym 'd controller = "'d \<Rightarrow> bytes \<Rightarrow> 'd \<times> bytes list option"

type_synonym ('s, 'a) call = "'s \<times> 'a result"

definition bindS :: "('s, 'a) call \<Rightarrow> ('a \<Rightarrow> 's \<Rightarrow> ('s, 'b) call) \<Rightarrow> ('s, 'b) call" where
  "bindS m f = (case m of (s, Inl e) \<Rightarrow> (s, Inl e) | (s, Inr a) \<Rightarrow> f a s)"

definition lift :: "'a result \<Rightarrow> 's \<Rightarrow> ('s, 'a) call" where
  "lift x s = (s, x)"

subsection \<open>The socket\<close>

definition no_traffic :: "ble_stats" where
  "no_traffic = \<lparr>bs_sent = 0, bs_send_errors = 0, bs_send_timeouts = 0, bs_events = 0, bs_reports = 0, bs_foreign = 0,
     bs_self_filtered = 0, bs_undecodable = 0, bs_delivered = 0, bs_other_events = 0, bs_last_error = None\<rparr>"

definition radio_new :: "int \<Rightarrow> int \<Rightarrow> ble_settings \<Rightarrow> hci_sock option \<Rightarrow> 'd \<Rightarrow> 'd ble_radio" where
  "radio_new node company bl sock d =
     \<lparr>br_t = \<lparr>bt_node = node, bt_company = company, bt_listening = False, bt_pumping = False, bt_stats = no_traffic,
              bt_pending = Map.empty\<rparr>,
      br_set = bl, br_tx_power = None, br_sock = sock, br_owns = False, br_advertising = False, br_scanning = False,
      br_hw = d, br_log = []\<rparr>"

text \<open>\<open>bind_error\<close> is what binding the user channel raised, if it did.\<close>

definition hci_open :: "exn option \<Rightarrow> hci_sock result" where
  "hci_open bind_error =
     (case bind_error of Some e \<Rightarrow> Inl HciError | None \<Rightarrow> Inr \<lparr>hs_open = True, hs_queue = []\<rparr>)"

definition hci_close :: "hci_sock \<Rightarrow> hci_sock" where
  "hci_close s = s\<lparr>hs_open := False, hs_queue := []\<rparr>"

text \<open>The packets read until the command's own answer, and those still waiting.\<close>

fun await_rest :: "int \<Rightarrow> int list \<Rightarrow> bytes list \<Rightarrow> command_complete result \<times> bytes list" where
  "await_rest want tolerate [] = (Inl HciError, [])"
| "await_rest want tolerate (p # ps) =
     (case command_step want tolerate p of Some r \<Rightarrow> (r, ps) | None \<Rightarrow> await_rest want tolerate ps)"

definition radio_command ::
  "'d controller \<Rightarrow> int list \<Rightarrow> bytes \<Rightarrow> 'd ble_radio \<Rightarrow> ('d ble_radio, command_complete) call" where
  "radio_command hw tolerate packet r =
     (case br_sock r of
        None \<Rightarrow> (r, Inl HciError)
      | Some s \<Rightarrow>
          if \<not> hs_open s then (r, Inl HciError)
          else
            (case struct_unpack [FH] (drop 1 packet) of
               Inl e \<Rightarrow> (r, Inl e)
             | Inr fs \<Rightarrow>
                 (case hw (br_hw r) packet of
                    (d, None) \<Rightarrow> (r\<lparr>br_hw := d, br_log := br_log r @ [((packet, tolerate), bt_pumping (br_t r), Inl OSError)]\<rparr>, Inl OSError)
                  | (d, Some replies) \<Rightarrow>
                      (let (a, rest) = await_rest (fs ! 0) tolerate (hs_queue s @ replies)
                       in (r\<lparr>br_hw := d, br_sock := Some (s\<lparr>hs_queue := rest\<rparr>),
                              br_log := br_log r @ [((packet, tolerate), bt_pumping (br_t r), a)]\<rparr>, a)))))"

subsection \<open>Start\<close>

definition ble_acquire :: "'d controller \<Rightarrow> exn option \<Rightarrow> 'd ble_radio \<Rightarrow> ('d ble_radio, unit) call" where
  "ble_acquire hw bind_error r =
     (case br_sock r of
        Some s \<Rightarrow> (r, Inr ())
      | None \<Rightarrow>
          bindS (lift (hci_open bind_error) r) (\<lambda>s r.
          bindS (lift cmd_reset (r\<lparr>br_sock := Some s, br_owns := True\<rparr>)) (\<lambda>c r.
          bindS (radio_command hw [] c r) (\<lambda>_ r. (r, Inr ())))))"

text \<open>Whatever goes wrong while reading the transmit power is swallowed.\<close>

definition read_tx_power :: "'d controller \<Rightarrow> 'd ble_radio \<Rightarrow> ('d ble_radio, unit) call" where
  "read_tx_power hw r =
     (case bindS (lift cmd_le_read_adv_tx_power r) (\<lambda>c r. radio_command hw [] c r) of
        (r', Inl e) \<Rightarrow> (r'\<lparr>br_tx_power := None\<rparr>, Inr ())
      | (r', Inr cc) \<Rightarrow>
          (case cc_params cc of
             [] \<Rightarrow> (r', Inr ())
           | b # _ \<Rightarrow> (let v = byte_val b in (r'\<lparr>br_tx_power := Some (if v > 127 then v - 256 else v)\<rparr>, Inr ()))))"

definition ble_advertise :: "'d controller \<Rightarrow> 'd ble_radio \<Rightarrow> ('d ble_radio, unit) call" where
  "ble_advertise hw r =
     (let bl = br_set r in
      bindS (lift (ms_to_units (bl_adv_interval_ms bl)) r) (\<lambda>lo r.
      bindS (lift (cmd_le_set_adv_enable False) r) (\<lambda>c r. bindS (radio_command hw [COMMAND_DISALLOWED] c r) (\<lambda>_ r.
      bindS (lift (ms_to_units (case bl_adv_interval_max_ms bl of Some x \<Rightarrow> x | None \<Rightarrow> bl_adv_interval_ms bl)) r) (\<lambda>hi r.
      bindS (lift (cmd_le_set_adv_parameters lo hi ADV_NONCONN_IND 0 (bl_channel_map bl) 0) r) (\<lambda>c r. bindS (radio_command hw [] c r) (\<lambda>_ r.
      bindS (lift (bindR (bindR (idle_packet (br_t r)) (ble_ad (br_t r))) cmd_le_set_adv_data) r) (\<lambda>c r. bindS (radio_command hw [] c r) (\<lambda>_ r.
      bindS (lift (cmd_le_set_adv_enable True) r) (\<lambda>c r. bindS (radio_command hw [] c r) (\<lambda>_ r.
        (r\<lparr>br_advertising := True\<rparr>, Inr ()))))))))))))"

definition pumping :: "bool \<Rightarrow> 'd ble_radio \<Rightarrow> 'd ble_radio" where
  "pumping b r = r\<lparr>br_t := (br_t r)\<lparr>bt_pumping := b\<rparr>\<rparr>"

definition ble_scan :: "'d controller \<Rightarrow> 'd ble_radio \<Rightarrow> ('d ble_radio, unit) call" where
  "ble_scan hw r =
     (let bl = br_set r in
      bindS (lift (cmd_le_set_scan_enable False False) r) (\<lambda>c r. bindS (radio_command hw [COMMAND_DISALLOWED] c r) (\<lambda>_ r.
      bindS (lift (ms_to_units (bl_scan_interval_ms bl)) r) (\<lambda>iv r.
      bindS (lift (ms_to_units (bl_scan_window_ms bl)) r) (\<lambda>wi r.
      bindS (lift (cmd_le_set_scan_parameters iv wi (if bl_passive_scan bl then 0 else 1) 0 0) r) (\<lambda>c r. bindS (radio_command hw [] c r) (\<lambda>_ r.
      bindS (lift (cmd_le_set_scan_enable True (bl_filter_duplicates bl)) (pumping True r)) (\<lambda>c r. bindS (radio_command hw [] c r) (\<lambda>_ r.
        (r\<lparr>br_scanning := True\<rparr>, Inr ()))))))))))"

definition ble_start :: "'d controller \<Rightarrow> exn option \<Rightarrow> 'd ble_radio \<Rightarrow> ('d ble_radio, unit) call" where
  "ble_start hw bind_error r =
     (if bt_pumping (br_t r) then (r, Inr ())
      else if bl_scan_window_ms (br_set r) > bl_scan_interval_ms (br_set r) then (r, Inl HciError)
      else
        bindS (ble_acquire hw bind_error (r\<lparr>br_t := (br_t r)\<lparr>bt_listening := True\<rparr>\<rparr>)) (\<lambda>_ r.
        bindS (read_tx_power hw r) (\<lambda>_ r.
        bindS (ble_advertise hw r) (\<lambda>_ r. ble_scan hw r))))"

subsection \<open>Stop, publish and the reader\<close>

definition turn_off :: "'d controller \<Rightarrow> bool \<Rightarrow> bytes result \<Rightarrow> 'd ble_radio \<Rightarrow> 'd ble_radio" where
  "turn_off hw en off r =
     (if \<not> en then r else case off of Inl _ \<Rightarrow> r | Inr c \<Rightarrow> fst (radio_command hw [COMMAND_DISALLOWED] c r))"

definition ble_stop :: "'d controller \<Rightarrow> 'd ble_radio \<Rightarrow> 'd ble_radio" where
  "ble_stop hw r0 =
     (let r1 = (if bt_pumping (br_t r0) \<and> br_sock r0 \<noteq> None then pumping False r0 else r0);
          r2 = r1\<lparr>br_t := (br_t r1)\<lparr>bt_pending := Map.empty\<rparr>\<rparr>;
          r3 = (if br_sock r2 = None then r2
                else
                  let a = turn_off hw (br_scanning r2) (cmd_le_set_scan_enable False False) r2;
                      b = turn_off hw (br_advertising r2) (cmd_le_set_adv_enable False) a;
                      c = b\<lparr>br_scanning := False, br_advertising := False\<rparr>
                  in if br_owns c then c\<lparr>br_sock := None, br_owns := False\<rparr> else c)
      in r3\<lparr>br_t := (br_t r3)\<lparr>bt_listening := False\<rparr>\<rparr>)"

text \<open>A publication up to its wait: the command on the socket with its opcode outstanding, or, when
  it cannot be sent, the error counted.\<close>

definition radio_publish :: "'d controller \<Rightarrow> state_packet \<Rightarrow> 'd ble_radio \<Rightarrow> ('d ble_radio, unit) call" where
  "radio_publish hw p r =
     (case br_sock r of
        None \<Rightarrow> (r, Inl RuntimeError)
      | Some s \<Rightarrow>
          (case ble_publish_begin (br_t r) p of
             Inl e \<Rightarrow> (r, Inl e)
           | Inr (t, cmd) \<Rightarrow>
               let op = le_int (take 2 (drop 1 cmd));
                   failed = (\<lambda>e. t\<lparr>bt_pending := (bt_pending t)(op := None),
                               bt_stats := (bt_stats t)\<lparr>bs_send_errors := bs_send_errors (bt_stats t) + 1, bs_last_error := Some e\<rparr>\<rparr>)
               in if bt_pending (br_t r) op = Some Pending then (r\<lparr>br_t := t\<rparr>, Inr ())
                  else if \<not> hs_open s then (r\<lparr>br_t := failed HciError\<rparr>, Inr ())
                  else (case hw (br_hw r) cmd of
                          (d, None) \<Rightarrow> (r\<lparr>br_hw := d, br_t := failed OSError\<rparr>, Inr ())
                        | (d, Some replies) \<Rightarrow>
                            (r\<lparr>br_hw := d, br_t := t, br_sock := Some (s\<lparr>hs_queue := hs_queue s @ replies\<rparr>)\<rparr>, Inr ()))))"

definition radio_pump :: "'k callback \<Rightarrow> int \<Rightarrow> 'd ble_radio \<times> 'k \<Rightarrow> 'd ble_radio \<times> 'k" where
  "radio_pump cb now rk =
     (let (r, k) = rk in
      case br_sock r of
        None \<Rightarrow> (r, k)
      | Some s \<Rightarrow>
          (case hs_queue s of
             [] \<Rightarrow> (let (t, k') = ble_pump cb now (br_t r) k None in (r\<lparr>br_t := t\<rparr>, k'))
           | p # ps \<Rightarrow>
               (let (t, k') = ble_pump cb now (br_t r) k (if hs_open s then Some p else None)
                in (r\<lparr>br_t := t, br_sock := Some (if hs_open s then s\<lparr>hs_queue := ps\<rparr> else s)\<rparr>, k'))))"

subsection \<open>What one exchange does\<close>

definition accepted :: "exchange \<Rightarrow> bool" where
  "accepted x \<longleftrightarrow> (case x of ((packet, tolerate), reader, a) \<Rightarrow>
     (case a of Inr cc \<Rightarrow> cc_ok cc \<or> cc_status cc \<in> set tolerate | Inl _ \<Rightarrow> False))"

text \<open>What was said, and whether the reader was in place.\<close>

definition said :: "exchange \<Rightarrow> (bytes \<times> int list) \<times> bool" where
  "said x = (fst x, fst (snd x))"

definition live :: "'d ble_radio \<Rightarrow> bool" where
  "live r \<longleftrightarrow> (\<exists>s. br_sock r = Some s \<and> hs_open s)"

definition packet_opcode :: "bytes \<Rightarrow> bool" where
  "packet_opcode p \<longleftrightarrow> (\<exists>fs. struct_unpack [FH] (drop 1 p) = Inr fs)"

lemma await_rest_complete: "fst (await_rest want tol ps) = await_complete want tol ps"
  by (induction ps) (auto split: option.split)

lemma await_rest_accepted: "fst (await_rest want tol ps) = Inr cc \<Longrightarrow> cc_ok cc \<or> cc_status cc \<in> set tol"
  using hci_command_exact [of want tol ps] by (simp add: await_rest_complete)

text \<open>A call that keeps everything but the controller, the socket's queue and the log, and says the commands
  of \<open>plan\<close>: all of them, accepted, when it returns, some first ones of them when it raises.\<close>

definition quiet :: "'d ble_radio \<Rightarrow> 'd ble_radio \<Rightarrow> bool" where
  "quiet r r' \<longleftrightarrow> br_t r' = br_t r \<and> br_set r' = br_set r \<and> (br_sock r' = None \<longleftrightarrow> br_sock r = None) \<and>
     live r' = live r \<and> br_owns r' = br_owns r \<and> br_advertising r' = br_advertising r \<and> br_scanning r' = br_scanning r"

definition says :: "((bytes \<times> int list) \<times> bool) list \<Rightarrow> exchange list \<Rightarrow> exchange list \<Rightarrow> 'a result \<Rightarrow> bool" where
  "says plan old new x \<longleftrightarrow> (\<exists>log. new = old @ log \<and>
     (case x of Inr _ \<Rightarrow> map said log = plan \<and> list_all accepted log | Inl _ \<Rightarrow> prefix (map said log) plan))"

lemma quiet_refl [simp]: "quiet r r"
  by (simp add: quiet_def)

lemma quiet_trans [trans]: "quiet r s \<Longrightarrow> quiet s t \<Longrightarrow> quiet r t"
  by (auto simp: quiet_def)

lemma quiet_live: "quiet r r' \<Longrightarrow> live r' = live r"
  by (simp add: quiet_def)

lemma live_simps [simp]:
  "live (br_advertising_update f r) = live r" "live (br_scanning_update g r) = live r" "live (br_t_update h r) = live r"
  "live (pumping b r) = live r" "live (br_tx_power_update k r) = live r" "live (br_log_update l r) = live r"
  by (simp_all add: live_def pumping_def)

lemma says_nothing [simp]: "says [] l l x"
  by (cases x) (auto simp: says_def)

lemma says_raise: "says plan l l (Inl e)"
  by (simp add: says_def)

lemma says_more:
  assumes "says ps l m (Inr a)" and "says qs m n x"
  shows "says (ps @ qs) l n x"
proof -
  obtain u v where u: "m = l @ u" "map said u = ps" "list_all accepted u" and v: "n = m @ v"
    "case x of Inr _ \<Rightarrow> map said v = qs \<and> list_all accepted v | Inl _ \<Rightarrow> prefix (map said v) qs"
    using assms by (auto simp: says_def)
  then show ?thesis by (intro says_def [THEN iffD2] exI [of _ "u @ v"]) (cases x, auto)
qed

lemma says_stop: "says ps l m (Inl e) \<Longrightarrow> says (ps @ qs) l m (Inl e' :: 'b result)"
  by (auto simp: says_def)

text \<open>On an open socket a command with an opcode always goes out; without one nothing does.\<close>

lemma command_live:
  assumes "live r" and "packet_opcode p"
  shows "\<exists>d q. radio_command hw tol p r =
    (r\<lparr>br_hw := d, br_sock := q, br_log := br_log r @ [((p, tol), bt_pumping (br_t r), snd (radio_command hw tol p r))]\<rparr>,
     snd (radio_command hw tol p r)) \<and> (\<exists>s. q = Some s \<and> hs_open s) \<and>
    (\<forall>cc. snd (radio_command hw tol p r) = Inr cc \<longrightarrow> cc_ok cc \<or> cc_status cc \<in> set tol)"
proof -
  obtain s fs where s: "br_sock r = Some s" "hs_open s" "struct_unpack [FH] (drop 1 p) = Inr fs"
    using assms by (auto simp: live_def packet_opcode_def)
  obtain d x where d: "hw (br_hw r) p = (d, x)" by fastforce
  show ?thesis
  proof (cases x)
    case None
    have "radio_command hw tol p r = (r\<lparr>br_hw := d, br_sock := Some s,
        br_log := br_log r @ [((p, tol), bt_pumping (br_t r), Inl OSError)]\<rparr>, Inl OSError)"
      using s d None by (simp add: radio_command_def)
    then show ?thesis using s(2) by auto
  next
    case (Some replies)
    obtain a rest where a: "await_rest (fs ! 0) tol (hs_queue s @ replies) = (a, rest)" by fastforce
    have "radio_command hw tol p r = (r\<lparr>br_hw := d, br_sock := Some (s\<lparr>hs_queue := rest\<rparr>),
        br_log := br_log r @ [((p, tol), bt_pumping (br_t r), a)]\<rparr>, a)"
      using s d Some a by (simp add: radio_command_def)
    moreover have "cc_ok cc \<or> cc_status cc \<in> set tol" if "a = Inr cc" for cc
      using await_rest_accepted [of "fs ! 0" tol "hs_queue s @ replies"] a that by simp
    ultimately show ?thesis
      using s(2) by (intro exI [of _ d] exI [of _ "Some (s\<lparr>hs_queue := rest\<rparr>)"]) auto
  qed
qed

lemma command_dead: "\<not> live r \<or> \<not> packet_opcode p \<Longrightarrow> \<exists>e. radio_command hw tol p r = (r, Inl e)"
  by (auto simp: radio_command_def live_def packet_opcode_def split: option.split sum.split)

lemma command_says:
  "quiet r (fst (radio_command hw tol p r)) \<and>
   says [((p, tol), bt_pumping (br_t r))] (br_log r) (br_log (fst (radio_command hw tol p r))) (snd (radio_command hw tol p r))"
proof (cases "live r \<and> packet_opcode p")
  case True
  obtain d q a where c: "radio_command hw tol p r =
      (r\<lparr>br_hw := d, br_sock := q, br_log := br_log r @ [((p, tol), bt_pumping (br_t r), a)]\<rparr>, a)"
    "\<exists>s. q = Some s \<and> hs_open s" "\<forall>cc. a = Inr cc \<longrightarrow> cc_ok cc \<or> cc_status cc \<in> set tol"
    using command_live [of r p hw tol] True by blast
  show ?thesis
    using c(2,3) True unfolding c(1) by (cases a) (auto simp: quiet_def live_def says_def said_def accepted_def)
next
  case False
  then show ?thesis using command_dead [of r p hw tol] by (auto simp: says_raise)
qed

text \<open>One command of a chain: the rest runs after it, on a state that differs only in controller,
  socket and log.\<close>

lemma chain_command:
  assumes "\<And>r' cc. quiet r r' \<Longrightarrow>
      says [((p, tol), bt_pumping (br_t r))] (br_log r) (br_log r') (Inr cc :: command_complete result) \<Longrightarrow> Q (f cc r')"
    and "\<And>r' e. quiet r r' \<Longrightarrow>
      says [((p, tol), bt_pumping (br_t r))] (br_log r) (br_log r') (Inl e :: command_complete result) \<Longrightarrow> Q (r', Inl e)"
  shows "Q (bindS (radio_command hw tol p r) f)"
proof -
  obtain r' x where m: "radio_command hw tol p r = (r', x)" by fastforce
  show ?thesis using command_says [of r hw tol p] assms unfolding m by (cases x) (simp_all add: bindS_def)
qed

lemma bindS_lift [simp]: "bindS (lift (Inl e) r) f = (r, Inl e)" "bindS (lift (Inr a) r) f = f a r"
  by (simp_all add: bindS_def lift_def)

text \<open>Every command has an opcode.\<close>

lemma hci_cmd_opcode: "hci_cmd op params = Inr c \<Longrightarrow> packet_opcode c"
  by (auto simp: packet_opcode_def hci_cmd_def struct_unpack_def bytes_of_ints_def struct_pack_Inr_iff bindR_eq_Inr pack_raw_Cons
      split: if_splits)

subsection \<open>The commands of a start\<close>

definition adv_plan :: "'d ble_radio \<Rightarrow> (bytes \<times> int list) list result" where
  "adv_plan r =
     (let bl = br_set r in
      bindR (ms_to_units (bl_adv_interval_ms bl)) (\<lambda>lo.
      bindR (cmd_le_set_adv_enable False) (\<lambda>off.
      bindR (ms_to_units (case bl_adv_interval_max_ms bl of Some x \<Rightarrow> x | None \<Rightarrow> bl_adv_interval_ms bl)) (\<lambda>hi.
      bindR (cmd_le_set_adv_parameters lo hi ADV_NONCONN_IND 0 (bl_channel_map bl) 0) (\<lambda>params.
      bindR (bindR (bindR (idle_packet (br_t r)) (ble_ad (br_t r))) cmd_le_set_adv_data) (\<lambda>dat.
      bindR (cmd_le_set_adv_enable True) (\<lambda>on.
        Inr [(off, [COMMAND_DISALLOWED]), (params, []), (dat, []), (on, [])])))))))"

definition scan_plan :: "'d ble_radio \<Rightarrow> (bytes \<times> int list) list result" where
  "scan_plan r =
     (let bl = br_set r in
      bindR (cmd_le_set_scan_enable False False) (\<lambda>off.
      bindR (ms_to_units (bl_scan_interval_ms bl)) (\<lambda>iv.
      bindR (ms_to_units (bl_scan_window_ms bl)) (\<lambda>wi.
      bindR (cmd_le_set_scan_parameters iv wi (if bl_passive_scan bl then 0 else 1) 0 0) (\<lambda>params.
      bindR (cmd_le_set_scan_enable True (bl_filter_duplicates bl)) (\<lambda>on.
        Inr [(off, [COMMAND_DISALLOWED]), (params, []), (on, [])]))))))"

text \<open>The commands of a plan, said before the reader is in place, or while it is.\<close>

definition while_reading :: "bool \<Rightarrow> (bytes \<times> int list) list \<Rightarrow> ((bytes \<times> int list) \<times> bool) list" where
  "while_reading b plan = map (\<lambda>c. (c, b)) plan"

lemma while_reading_simps [simp]:
  "while_reading b [] = []" "while_reading b (c # cs) = (c, b) # while_reading b cs"
  "while_reading b (cs @ ds) = while_reading b cs @ while_reading b ds"
  by (simp_all add: while_reading_def)

text \<open>How a chain ends: having said \<open>plan\<close>, in the state \<open>ok r\<close>; or with an exception, either before its
  last command, in the state it began in, or at the last one, in the state \<open>late r\<close>.\<close>

definition outcome ::
  "('d ble_radio \<Rightarrow> 'd ble_radio) \<Rightarrow> ('d ble_radio \<Rightarrow> 'd ble_radio) \<Rightarrow> ((bytes \<times> int list) \<times> bool) list \<Rightarrow> 'd ble_radio \<Rightarrow> ('d ble_radio, unit) call \<Rightarrow> bool" where
  "outcome ok late plan r m \<longleftrightarrow> (\<exists>log. br_log (fst m) = br_log r @ log \<and>
     (case snd m of
        Inr _ \<Rightarrow> quiet (ok r) (fst m) \<and> map said log = plan \<and> list_all accepted log
      | Inl _ \<Rightarrow> (quiet r (fst m) \<and> prefix (map said log) (butlast plan)) \<or> (quiet (late r) (fst m) \<and> map said log = plan)))"

definition stable :: "('d ble_radio \<Rightarrow> 'd ble_radio) \<Rightarrow> bool" where
  "stable ok \<longleftrightarrow> (\<forall>r r'. quiet r r' \<longrightarrow> quiet (ok r) (ok r'))"

lemma stable_updates [simp]:
  "stable (\<lambda>r. r)" "stable (br_advertising_update (\<lambda>_. b))" "stable (br_scanning_update (\<lambda>_. b))" "stable (pumping b)"
  by (simp_all add: stable_def quiet_def) (simp_all add: pumping_def)

lemma stable_comp [simp]: "stable f \<Longrightarrow> stable g \<Longrightarrow> stable (\<lambda>r. f (g r))"
  by (simp add: stable_def)

lemma outcome_command:
  assumes "\<And>r1 cc. quiet r r1 \<Longrightarrow> outcome ok late (q # qs) r1 (f cc r1)" and "stable ok" and "stable late"
    and "bt_pumping (br_t r) = b"
  shows "outcome ok late (((p, tol), b) # q # qs) r (bindS (radio_command hw tol p r) f)"
proof (rule chain_command)
  fix r1 cc assume 1: "quiet r r1" "says [((p, tol), bt_pumping (br_t r))] (br_log r) (br_log r1) (Inr cc :: command_complete result)"
  obtain s x where m: "f cc r1 = (s, x)" by fastforce
  obtain e where e: "br_log r1 = br_log r @ [e]" "said e = ((p, tol), b)" "accepted e"
    using 1(2) assms(4) by (auto simp: says_def map_eq_Cons_conv)
  obtain log where log: "br_log s = br_log r1 @ log"
    "case x of Inr _ \<Rightarrow> quiet (ok r1) s \<and> map said log = q # qs \<and> list_all accepted log
      | Inl _ \<Rightarrow> (quiet r1 s \<and> prefix (map said log) (butlast (q # qs))) \<or> (quiet (late r1) s \<and> map said log = q # qs)"
    using assms(1) [OF 1(1), of cc] unfolding m outcome_def fst_conv snd_conv by blast
  have t: "quiet (ok r) (ok r1)" "quiet (late r) (late r1)" using 1(1) assms(2,3) by (simp_all add: stable_def)
  have "case x of Inr _ \<Rightarrow> quiet (ok r) s \<and> map said (e # log) = ((p, tol), b) # q # qs \<and> list_all accepted (e # log)
      | Inl _ \<Rightarrow> (quiet r s \<and> prefix (map said (e # log)) (butlast (((p, tol), b) # q # qs))) \<or>
          (quiet (late r) s \<and> map said (e # log) = ((p, tol), b) # q # qs)"
    using log(2) e(2,3) quiet_trans [OF 1(1)] quiet_trans [OF t(1)] quiet_trans [OF t(2)]
    by (cases x) (auto split: if_splits)
  then show "outcome ok late (((p, tol), b) # q # qs) r (f cc r1)"
    using log(1) e(1) unfolding m outcome_def fst_conv snd_conv by (intro exI [of _ "e # log"]) simp
next
  fix r1 e assume "quiet r r1" "says [((p, tol), bt_pumping (br_t r))] (br_log r) (br_log r1) (Inl e :: command_complete result)"
  then show "outcome ok late (((p, tol), b) # q # qs) r (r1, Inl e)"
    using assms(4) by (auto simp: outcome_def says_def prefix_Cons)
qed

lemma outcome_last:
  assumes "stable ok" and "br_log (late r) = br_log r" and "\<And>s. br_log (ok s) = br_log s" and "live (late r)" and "packet_opcode p"
    and "bt_pumping (br_t (late r)) = b"
  shows "outcome (\<lambda>r. ok (late r)) late [((p, tol), b)] r (bindS (radio_command hw tol p (late r)) (\<lambda>_ r. (ok r, Inr ())))"
proof -
  obtain r1 x where c: "radio_command hw tol p (late r) = (r1, x)" by fastforce
  have q: "quiet (late r) r1" using command_says [of "late r" hw tol p] by (simp add: c)
  then have t: "quiet (ok (late r)) (ok r1)" using assms(1) by (simp add: stable_def)
  obtain e where e: "br_log r1 = br_log r @ [e]" "said e = ((p, tol), b)" "(\<exists>cc. x = Inr cc) \<longrightarrow> accepted e"
  proof -
    have "br_log r1 = br_log r @ [((p, tol), b, x)]" "\<forall>cc. x = Inr cc \<longrightarrow> cc_ok cc \<or> cc_status cc \<in> set tol"
      using command_live [OF assms(4,5), of hw tol] assms(2,6) by (auto simp: c)
    then show ?thesis by (intro that [of "((p, tol), b, x)"]) (auto simp: said_def accepted_def)
  qed
  then show ?thesis
    using q t assms(3) by (cases x) (auto simp: c bindS_def outcome_def)
qed

lemma enable_opcodes:
  "cmd_le_set_adv_enable b = Inr c \<Longrightarrow> packet_opcode c" "cmd_le_set_scan_enable b d = Inr c \<Longrightarrow> packet_opcode c"
  by (simp_all add: cmd_le_set_adv_enable_def cmd_le_set_scan_enable_def hci_cmd_opcode)

lemma advertise_outcome:
  assumes "adv_plan r = Inr plan" and "live r" and "bt_pumping (br_t r) = b"
  shows "outcome (br_advertising_update (\<lambda>_. True)) (\<lambda>r. r) (while_reading b plan) r (ble_advertise hw r)"
proof -
  obtain lo off hi params dat on where p: "ms_to_units (bl_adv_interval_ms (br_set r)) = Inr lo" "cmd_le_set_adv_enable False = Inr off"
      "ms_to_units (case bl_adv_interval_max_ms (br_set r) of Some x \<Rightarrow> x | None \<Rightarrow> bl_adv_interval_ms (br_set r)) = Inr hi"
      "cmd_le_set_adv_parameters lo hi ADV_NONCONN_IND 0 (bl_channel_map (br_set r)) 0 = Inr params"
      "bindR (bindR (idle_packet (br_t r)) (ble_ad (br_t r))) cmd_le_set_adv_data = Inr dat" "cmd_le_set_adv_enable True = Inr on"
    and plan: "plan = [(off, [COMMAND_DISALLOWED]), (params, []), (dat, []), (on, [])]"
    using assms(1) by (auto simp: adv_plan_def Let_def bindR_eq_Inr)
  let ?ok = "br_advertising_update (\<lambda>_. True)" and ?id = "\<lambda>r. r"
  have tail: "outcome ?ok ?id [((dat, []), b), ((on, []), b)] r2
      (bindS (radio_command hw [] dat r2) (\<lambda>_ r. bindS (radio_command hw [] on r) (\<lambda>_ r. (?ok r, Inr ()))))"
    if r2: "live r2" "bt_pumping (br_t r2) = b" for r2
  proof (rule outcome_command)
    fix r3 :: "'a ble_radio" assume "quiet r2 r3"
    then show "outcome ?ok ?id [((on, []), b)] r3 (bindS (radio_command hw [] on r3) (\<lambda>_ r. (?ok r, Inr ())))"
      using outcome_last [where ok = ?ok and late = ?id, of r3 on b "[]" hw] r2 enable_opcodes(1) [OF p(6)] by (simp add: quiet_def)
  qed (use r2 in simp_all)
  have t: "br_t r2 = br_t r \<and> live r2 = live r" if "quiet r r1" "quiet r1 r2" for r1 r2
    using that by (simp add: quiet_def)
  show ?thesis
    unfolding ble_advertise_def Let_def p bindS_lift plan while_reading_simps
  proof (rule outcome_command, rule outcome_command)
    fix r1 r2 :: "'a ble_radio" assume q: "quiet r r1" "quiet r1 r2"
    show "outcome ?ok ?id [((dat, []), b), ((on, []), b)] r2
        (bindS (lift (bindR (bindR (idle_packet (br_t r2)) (ble_ad (br_t r2))) cmd_le_set_adv_data) r2)
          (\<lambda>c r. bindS (radio_command hw [] c r) (\<lambda>_ r. bindS (radio_command hw [] on r) (\<lambda>_ r. (?ok r, Inr ())))))"
      unfolding conjunct1 [OF t [OF q]] p bindS_lift using t [OF q] assms(2,3) by (intro tail) simp_all
  qed (use assms(3) in \<open>simp_all add: quiet_def\<close>)
qed

lemma scan_outcome:
  assumes "scan_plan r = Inr plan" and "live r" and "bt_pumping (br_t r) = b"
  shows "outcome (\<lambda>r. br_scanning_update (\<lambda>_. True) (pumping True r)) (pumping True)
    (while_reading b (butlast plan) @ [(last plan, True)]) r (ble_scan hw r)"
proof -
  obtain off iv wi params on where p: "cmd_le_set_scan_enable False False = Inr off" "ms_to_units (bl_scan_interval_ms (br_set r)) = Inr iv"
      "ms_to_units (bl_scan_window_ms (br_set r)) = Inr wi"
      "cmd_le_set_scan_parameters iv wi (if bl_passive_scan (br_set r) then 0 else 1) 0 0 = Inr params"
      "cmd_le_set_scan_enable True (bl_filter_duplicates (br_set r)) = Inr on"
    and plan: "plan = [(off, [COMMAND_DISALLOWED]), (params, []), (on, [])]"
    using assms(1) by (auto simp: scan_plan_def Let_def bindR_eq_Inr)
  let ?ok = "br_scanning_update (\<lambda>_. True)"
  have tail: "outcome (\<lambda>r. ?ok (pumping True r)) (pumping True) [((on, []), True)] r2
      (bindS (radio_command hw [] on (pumping True r2)) (\<lambda>_ r. (?ok r, Inr ())))" if "live r2" for r2 :: "'a ble_radio"
    by (rule outcome_last) (use that enable_opcodes(2) [OF p(5)] in simp_all, simp_all add: pumping_def)
  have e: "while_reading b (butlast plan) @ [(last plan, True)] =
      [((off, [COMMAND_DISALLOWED]), b), ((params, []), b), ((on, []), True)]" by (simp add: plan)
  show ?thesis
    unfolding ble_scan_def Let_def p bindS_lift e
    by (rule outcome_command, rule outcome_command, rule tail) (use assms(2,3) in \<open>simp_all add: quiet_def\<close>)
qed

text \<open>Taking the socket and reading the power leave the transport's flags and settings alone.\<close>

definition same_flags :: "'d ble_radio \<Rightarrow> 'd ble_radio \<Rightarrow> bool" where
  "same_flags r r' \<longleftrightarrow> br_t r' = br_t r \<and> br_set r' = br_set r \<and> br_advertising r' = br_advertising r \<and> br_scanning r' = br_scanning r"

lemma quiet_same: "quiet r r' \<Longrightarrow> same_flags r r'"
  by (simp add: quiet_def same_flags_def)

definition reset_plan :: "'d ble_radio \<Rightarrow> (bytes \<times> int list) list" where
  "reset_plan r = (if br_sock r = None then [(projr cmd_reset, [])] else [])"

lemma cmd_reset_ok: "\<exists>c. cmd_reset = Inr c"
  by (simp add: cmd_reset_def hci_cmd_def struct_pack_Inr_iff bindR_eq_Inr hci_ops bytes_of_ints_def)

definition power_plan :: "(bytes \<times> int list) list" where
  "power_plan = [(projr cmd_le_read_adv_tx_power, [])]"

lemma power_command: "\<exists>c. cmd_le_read_adv_tx_power = Inr c \<and> power_plan = [(c, [])] \<and> packet_opcode c"
proof -
  obtain c where c: "cmd_le_read_adv_tx_power = Inr c"
    by (auto simp: cmd_le_read_adv_tx_power_def hci_cmd_def struct_pack_Inr_iff bindR_eq_Inr hci_ops bytes_of_ints_def)
  then show ?thesis using hci_cmd_opcode [of OP_LE_READ_ADV_TX_POWER "[]" c] by (simp add: power_plan_def cmd_le_read_adv_tx_power_def)
qed

lemma acquire_facts:
  assumes "bt_pumping (br_t r) = b"
  shows "same_flags r (fst (ble_acquire hw be r)) \<and>
    says (while_reading b (reset_plan r)) (br_log r) (br_log (fst (ble_acquire hw be r))) (snd (ble_acquire hw be r)) \<and>
    ((\<exists>u. snd (ble_acquire hw be r) = Inr u) \<longrightarrow> br_sock (fst (ble_acquire hw be r)) \<noteq> None) \<and>
    (br_sock r = None \<longrightarrow> (\<exists>u. snd (ble_acquire hw be r) = Inr u) \<longrightarrow> live (fst (ble_acquire hw be r)))"
proof (cases "br_sock r")
  case (Some s)
  then show ?thesis by (simp add: ble_acquire_def reset_plan_def same_flags_def)
next
  case None
  obtain c where c: "cmd_reset = Inr c" using cmd_reset_ok by blast
  show ?thesis
  proof (cases be)
    case (Some e)
    then show ?thesis using None by (simp add: ble_acquire_def hci_open_def same_flags_def says_raise)
  next
    case N: None
    define r1 where "r1 = r\<lparr>br_sock := Some \<lparr>hs_open = True, hs_queue = []\<rparr>, br_owns := True\<rparr>"
    have e: "ble_acquire hw be r = bindS (radio_command hw [] c r1) (\<lambda>_ r. (r, Inr ()))"
      using None N by (simp add: ble_acquire_def hci_open_def c r1_def)
    have f: "same_flags r r1" "br_log r1 = br_log r" "br_sock r1 \<noteq> None" "reset_plan r = [(c, [])]" "bt_pumping (br_t r1) = b" "live r1"
      using None assms by (simp_all add: r1_def same_flags_def reset_plan_def c live_def)
    show ?thesis
      unfolding e f(4)
      by (rule chain_command) (use f in \<open>auto simp: quiet_def same_flags_def says_def\<close>)
  qed
qed

lemma power_facts:
  obtains r' pw where "read_tx_power hw r = (r', Inr ())" "same_flags r r'" "br_log r' = br_log r @ pw"
    "br_sock r' = None \<longleftrightarrow> br_sock r = None" "live r' = live r"
    "map said pw = (if live r then while_reading (bt_pumping (br_t r)) power_plan else [])"
proof -
  note l = that
  obtain c where c: "cmd_le_read_adv_tx_power = Inr c" "power_plan = [(c, [])]" "packet_opcode c" using power_command by blast
  obtain r1 x where m: "radio_command hw [] c r = (r1, x)" by fastforce
  have q: "quiet r r1" using command_says [of r hw "[]" c] by (simp add: m)
  obtain pw where p: "br_log r1 = br_log r @ pw" "map said pw = (if live r then while_reading (bt_pumping (br_t r)) power_plan else [])"
  proof (cases "live r")
    case True
    then have "br_log r1 = br_log r @ [((c, []), bt_pumping (br_t r), x)]" using command_live [OF True c(3), of hw "[]"] by (auto simp: m)
    then show ?thesis using that True by (simp add: said_def c(2))
  next
    case False
    then have "r1 = r" using command_dead [of r c hw "[]"] by (auto simp: m)
    then show ?thesis using that [of "[]"] False by simp
  qed
  have "\<exists>tp. read_tx_power hw r = (r1\<lparr>br_tx_power := tp\<rparr>, Inr ())"
  proof (cases x)
    case (Inl e)
    then show ?thesis using m by (auto simp: read_tx_power_def c)
  next
    case (Inr cc)
    show ?thesis
    proof (cases "cc_params cc")
      case Nil
      then have "read_tx_power hw r = (r1\<lparr>br_tx_power := br_tx_power r1\<rparr>, Inr ())" using m Inr by (simp add: read_tx_power_def c)
      then show ?thesis ..
    next
      case (Cons b bs)
      then show ?thesis using m Inr by (auto simp: read_tx_power_def c Let_def)
    qed
  qed
  then obtain tp where "read_tx_power hw r = (r1\<lparr>br_tx_power := tp\<rparr>, Inr ())" ..
  then show ?thesis
    by (rule l) (use p q in \<open>simp_all add: same_flags_def quiet_def\<close>)
qed

lemma plans_cong:
  assumes "br_set r' = br_set r" and "bt_node (br_t r') = bt_node (br_t r)" and "bt_company (br_t r') = bt_company (br_t r)"
  shows "adv_plan r' = adv_plan r" "scan_plan r' = scan_plan r"
proof -
  have ad: "ble_ad (br_t r') = ble_ad (br_t r)" using assms(3) by (simp add: ble_ad_def fun_eq_iff)
  show "adv_plan r' = adv_plan r" using assms(1,2) by (simp add: adv_plan_def idle_packet_def ad)
  show "scan_plan r' = scan_plan r" using assms(1) by (simp add: scan_plan_def)
qed

text \<open>The commands of a start, and whether the reader is in place when each goes out: the reset of a socket it
  opened, the reading of the power, and the set-up, whose last command is the only one said with the reader.\<close>

definition start_plan :: "'d ble_radio \<Rightarrow> (bytes \<times> int list) list \<Rightarrow> ((bytes \<times> int list) \<times> bool) list" where
  "start_plan r plan = while_reading False (reset_plan r @ power_plan @ butlast plan) @ [(last plan, True)]"

text \<open>How a start of \<open>r\<close> ended: what it said, and the flags it left.\<close>

definition start_log ::
  "'d ble_radio \<Rightarrow> (bytes \<times> int list) list \<Rightarrow> 'd ble_radio \<Rightarrow> unit result \<Rightarrow> exchange list \<Rightarrow> bool" where
  "start_log r plan r' x lg \<longleftrightarrow>
     br_log r' = br_log r @ lg \<and>
     (case x of
        Inr _ \<Rightarrow> map said lg = start_plan r plan \<and> list_all (\<lambda>e. accepted e \<or> fst e \<in> set power_plan) lg \<and>
          br_advertising r' \<and> bt_pumping (br_t r') \<and> br_scanning r' \<and> bt_listening (br_t r')
      | Inl _ \<Rightarrow> prefix (map said lg) (start_plan r plan) \<and> br_scanning r' = br_scanning r \<and>
          (bt_pumping (br_t r') \<longleftrightarrow> map said lg = start_plan r plan) \<and> (bt_pumping (br_t r') \<longrightarrow> br_advertising r'))"

text \<open>What is in place before advertising is configured.\<close>

definition prepared :: "'d ble_radio \<Rightarrow> 'd ble_radio \<Rightarrow> exchange list \<Rightarrow> bool" where
  "prepared r r2 lg \<longleftrightarrow> same_flags r r2 \<and> br_log r2 = br_log r @ lg \<and>
     list_all (\<lambda>e. accepted e \<or> fst e \<in> set power_plan) lg \<and>
     (if live r2 then map said lg = while_reading False (reset_plan r @ power_plan) else lg = [])"

lemma advertise_dead:
  assumes "adv_plan r = Inr plan" and "\<not> live r"
  shows "\<exists>e. ble_advertise hw r = (r, Inl e)"
proof -
  obtain lo off where "ms_to_units (bl_adv_interval_ms (br_set r)) = Inr lo" "cmd_le_set_adv_enable False = Inr off"
    using assms(1) by (auto simp: adv_plan_def Let_def bindR_eq_Inr)
  moreover obtain e where "radio_command hw [COMMAND_DISALLOWED] off r = (r, Inl e)" using command_dead assms(2) by blast
  ultimately show ?thesis by (simp add: ble_advertise_def Let_def bindS_def [of "(r, Inl e)"])
qed

lemma accepted_or: "list_all accepted es \<Longrightarrow> list_all (\<lambda>e. accepted e \<or> P e) es"
  by (auto simp: list_all_iff)

lemma configured_log:
  assumes "adv_plan r2 = Inr ap" and "scan_plan r2 = Inr sp" and "prepared r0 r2 log0"
    and "\<not> bt_pumping (br_t r0)" and "bt_listening (br_t r0)"
  shows "\<exists>log. case bindS (ble_advertise hw r2) (\<lambda>_ r. ble_scan hw r) of (r', x) \<Rightarrow> start_log r0 (ap @ sp) r' x log"
proof (cases "live r2")
  case False
  then show ?thesis
    using advertise_dead [OF assms(1) False, of hw] assms(3,4)
    by (auto simp: bindS_def prepared_def start_log_def same_flags_def start_plan_def)
next
  case True
  note p = assms(3) [unfolded prepared_def same_flags_def if_P [OF True]]
  have np: "bt_pumping (br_t r2) = False" using p assms(4) by simp
  have ne: "ap \<noteq> []" "sp \<noteq> []" using assms(1,2) by (auto simp: adv_plan_def scan_plan_def Let_def bindR_eq_Inr)
  have plan: "start_plan r0 (ap @ sp) = map said log0 @ while_reading False ap @ while_reading False (butlast sp) @ [(last sp, True)]"
    using p ne by (simp add: start_plan_def butlast_append)
  obtain r3 x3 where b: "ble_advertise hw r2 = (r3, x3)" by fastforce
  obtain conf where conf: "br_log r3 = br_log r2 @ conf" and B:
      "case x3 of Inr _ \<Rightarrow> quiet (br_advertising_update (\<lambda>_. True) r2) r3 \<and> map said conf = while_reading False ap \<and> list_all accepted conf
       | Inl _ \<Rightarrow> quiet r2 r3 \<and> prefix (map said conf) (while_reading False ap)"
    using advertise_outcome [OF assms(1) True np, of hw] unfolding b outcome_def fst_conv snd_conv
    by (cases x3) (auto dest: prefix_order.trans [OF _ prefixeq_butlast])
  show ?thesis
  proof (cases x3)
    case (Inl e)
    then have "start_log r0 (ap @ sp) r3 (Inl e) (log0 @ conf)"
      using B p np conf by (auto simp: start_log_def quiet_def plan dest: prefix_length_le)
    then show ?thesis by (auto simp: b Inl bindS_def)
  next
    case (Inr v)
    have q: "quiet (br_advertising_update (\<lambda>_. True) r2) r3" "map said conf = while_reading False ap" "list_all accepted conf"
      using B Inr by simp_all
    have r3: "scan_plan r3 = Inr sp" "live r3" "bt_pumping (br_t r3) = False"
      using q(1) assms(2) True np plans_cong(2) [of r3 r2] by (simp_all add: quiet_def)
    obtain r4 x4 where c: "ble_scan hw r3 = (r4, x4)" by fastforce
    obtain sc where sc: "br_log r4 = br_log r3 @ sc" and S:
        "case x4 of Inr _ \<Rightarrow> quiet (br_scanning_update (\<lambda>_. True) (pumping True r3)) r4 \<and>
             map said sc = while_reading False (butlast sp) @ [(last sp, True)] \<and> list_all accepted sc
         | Inl _ \<Rightarrow> quiet r3 r4 \<and> prefix (map said sc) (while_reading False (butlast sp)) \<or>
             quiet (pumping True r3) r4 \<and> map said sc = while_reading False (butlast sp) @ [(last sp, True)]"
      using scan_outcome [OF r3, of hw] unfolding c outcome_def fst_conv snd_conv butlast_snoc by blast
    have "start_log r0 (ap @ sp) r4 x4 (log0 @ conf @ sc)"
    proof (cases x4)
      case (Inr w)
      then show ?thesis
        using S p q conf sc assms(5) accepted_or [OF q(3)] accepted_or [of sc]
        by (simp add: start_log_def quiet_def plan) (simp add: pumping_def)
    next
      case (Inl e)
      then consider "quiet r3 r4" "prefix (map said sc) (while_reading False (butlast sp))"
        | "quiet (pumping True r3) r4" "map said sc = while_reading False (butlast sp) @ [(last sp, True)]" using S by auto
      then show ?thesis
      proof cases
        case 1
        then have "map said sc \<noteq> while_reading False (butlast sp) @ [(last sp, True)]" by (auto dest: prefix_length_le)
        then show ?thesis using 1 q p r3 conf sc Inl by (auto simp: start_log_def quiet_def plan)
      next
        case 2
        then show ?thesis using q p conf sc Inl by (simp add: start_log_def quiet_def plan) (simp add: pumping_def)
      qed
    qed
    then show ?thesis by (auto simp: b Inr bindS_def c)
  qed
qed

text \<open>C30: Starting, with settings that can be encoded, a transport whose reader is not in place, says exactly
  the commands of the plan in order: the reset of a socket it opened itself, the reading of the transmit power, advertising
  configured and then enabled, scanning configured and last enabled; and the reader is in place
  when scanning is enabled and at no command before. It returns only when every command but the reading of the power was
  accepted; an exception at any point leaves scanning as it was, after some first commands of the plan, and
  leaves the reader in place exactly when even the last command was said.\<close>

theorem ble_start_sequence:
  assumes "adv_plan r = Inr ap" and "scan_plan r = Inr sp" and "\<not> bt_pumping (br_t r)"
    and "bl_scan_window_ms (br_set r) \<le> bl_scan_interval_ms (br_set r)"
  shows "\<exists>log. case ble_start hw be r of (r', x) \<Rightarrow> start_log r (ap @ sp) r' x log"
proof -
  define r0 where "r0 = r\<lparr>br_t := (br_t r)\<lparr>bt_listening := True\<rparr>\<rparr>"
  have r0: "\<not> bt_pumping (br_t r0)" "bt_listening (br_t r0)" using assms(3) by (simp_all add: r0_def)
  have log0: "start_log r0 plan r' x log = start_log r plan r' x log" for plan r' x log
    by (cases x) (simp_all add: r0_def start_log_def start_plan_def reset_plan_def)
  obtain r1 x1 where a: "ble_acquire hw be r0 = (r1, x1)" by fastforce
  have np: "bt_pumping (br_t r0) = False" using r0(1) by simp
  note A = acquire_facts [OF np, of hw be, unfolded a fst_conv snd_conv]
  have start: "ble_start hw be r = bindS (r1, x1) (\<lambda>_ r. bindS (read_tx_power hw r) (\<lambda>_ r. bindS (ble_advertise hw r) (\<lambda>_ r. ble_scan hw r)))"
    using assms(3,4) by (simp add: ble_start_def r0_def [symmetric] a)
  show ?thesis
  proof (cases x1)
    case (Inl e)
    then obtain reset where reset: "br_log r1 = br_log r0 @ reset" "prefix (map said reset) (while_reading False (reset_plan r0))"
      using A by (auto simp: says_def)
    then have "map said reset \<noteq> start_plan r0 (ap @ sp)" "prefix (map said reset) (start_plan r0 (ap @ sp))"
      by (auto simp: start_plan_def dest: prefix_length_le)
    then have "start_log r0 (ap @ sp) r1 (Inl e) reset" using A r0 reset(1) by (simp add: start_log_def same_flags_def)
    then show ?thesis unfolding start Inl log0 by (auto simp: bindS_def)
  next
    case (Inr u)
    then obtain reset where reset: "br_log r1 = br_log r0 @ reset" "map said reset = while_reading False (reset_plan r0)" "list_all accepted reset"
      using A by (auto simp: says_def)
    obtain r2 pw where P: "read_tx_power hw r1 = (r2, Inr ())" "same_flags r1 r2" "br_log r2 = br_log r1 @ pw" "live r2 = live r1"
        "map said pw = (if live r1 then while_reading (bt_pumping (br_t r1)) power_plan else [])"
      by (rule power_facts [of hw r1])
    have np1: "\<not> bt_pumping (br_t r1)" using A np by (simp add: same_flags_def)
    have "reset = []" if "\<not> live r1"
    proof -
      have "br_sock r0 \<noteq> None" using A Inr that by auto
      then show ?thesis using reset(2) by (auto simp: reset_plan_def)
    qed
    moreover have "list_all (\<lambda>e. accepted e \<or> fst e \<in> set power_plan) pw"
      using P(5) by (auto simp: said_def power_plan_def list_all_iff split: if_splits)
    ultimately have pr: "prepared r0 r2 (reset @ pw)"
      using A P reset np1 accepted_or [OF reset(3)] by (auto simp: prepared_def same_flags_def)
    have "adv_plan r2 = Inr ap" "scan_plan r2 = Inr sp"
      using pr assms(1,2) plans_cong [of r2 r] by (simp_all add: prepared_def same_flags_def r0_def)
    note cl = configured_log [OF this pr r0, of hw, unfolded log0]
    moreover have "ble_start hw be r = bindS (ble_advertise hw r2) (\<lambda>_ r. ble_scan hw r)"
      unfolding start Inr by (simp add: bindS_def P(1))
    ultimately show ?thesis by simp
  qed
qed

subsection \<open>Stop and restart\<close>

text \<open>What a transport's flags promise: scanning only behind the reader, the reader only when
  advertising, and each only with a socket.\<close>

definition radio_ok :: "'d ble_radio \<Rightarrow> bool" where
  "radio_ok r \<longleftrightarrow> (br_scanning r \<longrightarrow> bt_pumping (br_t r)) \<and> (bt_pumping (br_t r) \<longrightarrow> br_advertising r) \<and>
     (br_advertising r \<longrightarrow> br_sock r \<noteq> None) \<and> (br_owns r \<longrightarrow> br_sock r \<noteq> None)"

lemma turn_off_quiet: "quiet r (turn_off hw en off r)"
  using command_says [of r hw "[COMMAND_DISALLOWED]"] by (simp add: turn_off_def split: sum.split)

definition off_plan :: "'d ble_radio \<Rightarrow> bytes list" where
  "off_plan r =
     (if br_scanning r then [projr (cmd_le_set_scan_enable False False)] else []) @
     (if br_advertising r then [projr (cmd_le_set_adv_enable False)] else [])"

lemma radio_new_ok: "radio_ok (radio_new node company bl sock d)"
  by (simp add: radio_ok_def radio_new_def)

text \<open>The flags at the end of a chain, whatever its commands are and whatever builds them.\<close>

definition ends_in ::
  "('d ble_radio \<Rightarrow> 'd ble_radio) \<Rightarrow> ('d ble_radio \<Rightarrow> 'd ble_radio) \<Rightarrow> 'd ble_radio \<Rightarrow> ('d ble_radio, 'a) call \<Rightarrow> bool" where
  "ends_in ok late r m \<longleftrightarrow>
     (case snd m of Inr _ \<Rightarrow> quiet (ok r) (fst m) | Inl _ \<Rightarrow> quiet r (fst m) \<or> quiet (late r) (fst m))"

lemma ends_lift: "(\<And>a. ends_in ok late r (f a r)) \<Longrightarrow> ends_in ok late r (bindS (lift x r) f)"
  by (cases x) (simp_all add: ends_in_def)

lemma ends_command:
  assumes "\<And>r1 cc. quiet r r1 \<Longrightarrow> ends_in ok late r1 (f cc r1)" and "stable ok" and "stable late"
  shows "ends_in ok late r (bindS (radio_command hw tol p r) f)"
proof (rule chain_command)
  fix r1 cc assume q: "quiet r r1"
  obtain s x where m: "f cc r1 = (s, x)" by fastforce
  have t: "quiet (ok r) (ok r1)" "quiet (late r) (late r1)" using q assms(2,3) by (simp_all add: stable_def)
  show "ends_in ok late r (f cc r1)"
    using assms(1) [OF q, of cc] quiet_trans [OF q] quiet_trans [OF t(1)] quiet_trans [OF t(2)]
    unfolding m ends_in_def by (cases x) auto
next
  fix r1 e assume "quiet r r1"
  then show "ends_in ok late r (r1, Inl e)" by (simp add: ends_in_def)
qed

lemma ends_last:
  "ends_in (\<lambda>r. br_scanning_update (\<lambda>_. True) (pumping True r)) (pumping True) r
     (bindS (lift x (pumping True r)) (\<lambda>c r. bindS (radio_command hw tol c r) (\<lambda>_ r. (r\<lparr>br_scanning := True\<rparr>, Inr ()))))"
proof (cases x)
  case (Inl e)
  then show ?thesis by (simp add: ends_in_def)
next
  case (Inr c)
  obtain s y where m: "radio_command hw tol c (pumping True r) = (s, y)" by fastforce
  have "quiet (pumping True r) s" using command_says [of "pumping True r" hw tol c] by (simp add: m)
  then show ?thesis unfolding Inr bindS_lift by (cases y) (simp_all add: bindS_def m ends_in_def quiet_def)
qed

lemma advertise_ends: "ends_in (br_advertising_update (\<lambda>_. True)) (\<lambda>r. r) r (ble_advertise hw r)"
  unfolding ble_advertise_def Let_def
  apply (rule ends_lift, rule ends_lift, rule ends_command)
  apply (rule ends_lift, rule ends_lift, rule ends_command)
  apply (rule ends_lift, rule ends_command)
  apply (rule ends_lift, rule ends_command)
  by (simp_all add: ends_in_def)

lemma scan_ends: "ends_in (\<lambda>r. br_scanning_update (\<lambda>_. True) (pumping True r)) (pumping True) r (ble_scan hw r)"
  unfolding ble_scan_def Let_def
  apply (rule ends_lift, rule ends_command, rule ends_lift, rule ends_lift, rule ends_lift, rule ends_command, rule ends_last)
  by simp_all

text \<open>A start raises before it has configured anything, or gets to the radio with a socket.\<close>

definition start_ready :: "'d controller \<Rightarrow> 'd ble_radio \<Rightarrow> 'd ble_radio \<Rightarrow> ('d ble_radio, unit) call \<Rightarrow> bool" where
  "start_ready hw r r2 m \<longleftrightarrow> m = bindS (ble_advertise hw r2) (\<lambda>_ r. ble_scan hw r) \<and>
     \<not> bt_pumping (br_t r2) \<and> br_scanning r2 = br_scanning r \<and> br_sock r2 \<noteq> None"

lemma start_cases:
  assumes "radio_ok r" and "\<not> bt_pumping (br_t r)"
  shows "(\<exists>r1 e. ble_start hw be r = (r1, Inl e) \<and> radio_ok r1 \<and> \<not> bt_pumping (br_t r1) \<and> br_scanning r1 = br_scanning r) \<or>
    (\<exists>r2. start_ready hw r r2 (ble_start hw be r))"
proof (cases "bl_scan_window_ms (br_set r) > bl_scan_interval_ms (br_set r)")
  case True
  then show ?thesis using assms by (simp add: ble_start_def)
next
  case False
  define r0 where "r0 = r\<lparr>br_t := (br_t r)\<lparr>bt_listening := True\<rparr>\<rparr>"
  have r0: "radio_ok r0" "\<not> bt_pumping (br_t r0)" "br_scanning r0 = br_scanning r" using assms by (simp_all add: r0_def radio_ok_def)
  obtain r1 x1 where a: "ble_acquire hw be r0 = (r1, x1)" by fastforce
  have r1: "radio_ok r1 \<and> \<not> bt_pumping (br_t r1) \<and> br_scanning r1 = br_scanning r0 \<and> ((\<exists>u. x1 = Inr u) \<longrightarrow> br_sock r1 \<noteq> None)"
  proof (cases "br_sock r0")
    case None
    define r' where "r' = r0\<lparr>br_sock := Some \<lparr>hs_open = True, hs_queue = []\<rparr>, br_owns := True\<rparr>"
    obtain c where c: "cmd_reset = Inr c" using cmd_reset_ok by blast
    obtain s y where m: "radio_command hw [] c r' = (s, y)" by fastforce
    have "quiet r' s" using command_says [of r' hw "[]" c] by (simp add: m)
    then show ?thesis
      using a None r0 m by (cases be; cases y) (auto simp: ble_acquire_def hci_open_def bindS_def lift_def c r'_def quiet_def radio_ok_def)
  qed (use a r0 in \<open>auto simp: ble_acquire_def\<close>)
  have start: "ble_start hw be r = bindS (r1, x1) (\<lambda>_ r. bindS (read_tx_power hw r) (\<lambda>_ r. bindS (ble_advertise hw r) (\<lambda>_ r. ble_scan hw r)))"
    using False assms(2) by (simp add: ble_start_def r0_def [symmetric] a)
  show ?thesis
  proof (cases x1)
    case (Inl e)
    then show ?thesis using r1 r0(3) by (simp add: start bindS_def)
  next
    case (Inr u)
    obtain r2 pw where P: "read_tx_power hw r1 = (r2, Inr ())" "same_flags r1 r2" "br_sock r2 = None \<longleftrightarrow> br_sock r1 = None"
      by (rule power_facts [of hw r1])
    have "start_ready hw r r2 (ble_start hw be r)"
      using r1 r0(3) P Inr by (auto simp: start_ready_def same_flags_def start bindS_def)
    then show ?thesis by blast
  qed
qed

lemma ready_flags:
  assumes "radio_ok r" and "\<not> bt_pumping (br_t r)" and "start_ready hw r r2 (r', x)"
  shows "radio_ok r' \<and> ((\<exists>e. x = Inl e) \<longrightarrow> br_scanning r' = br_scanning r)"
proof -
  have r2: "\<not> bt_pumping (br_t r2)" "br_scanning r2 = br_scanning r" "\<not> br_scanning r" "br_sock r2 \<noteq> None"
    using assms by (auto simp: start_ready_def radio_ok_def)
  obtain r3 x3 where b: "ble_advertise hw r2 = (r3, x3)" by fastforce
  have e: "(r', x) = bindS (r3, x3) (\<lambda>_ r. ble_scan hw r)" using assms(3) by (simp add: start_ready_def b)
  show ?thesis
  proof (cases x3)
    case (Inl e')
    then have "quiet r2 r3" using advertise_ends [of r2 hw] b by (simp add: ends_in_def)
    then show ?thesis using r2 e Inl by (simp add: bindS_def quiet_def radio_ok_def)
  next
    case (Inr v)
    then have q: "quiet (br_advertising_update (\<lambda>_. True) r2) r3" using advertise_ends [of r2 hw] b by (simp add: ends_in_def)
    have c: "ble_scan hw r3 = (r', x)" using e Inr by (simp add: bindS_def)
    show ?thesis
      using scan_ends [of r3 hw] q r2 by (cases x) (auto simp: c ends_in_def quiet_def pumping_def radio_ok_def)
  qed
qed

lemma start_keeps_ok:
  assumes "radio_ok r"
  shows "radio_ok (fst (ble_start hw be r))"
proof (cases "bt_pumping (br_t r)")
  case True
  then show ?thesis using assms by (simp add: ble_start_def)
next
  case False
  then show ?thesis using start_cases [OF assms False, of hw be] ready_flags [OF assms False]
    by (cases "ble_start hw be r") auto
qed

text \<open>What is left of a transport after a stop.\<close>

definition radio_down :: "'d ble_radio \<Rightarrow> bool" where
  "radio_down r \<longleftrightarrow> \<not> bt_pumping (br_t r) \<and> \<not> br_scanning r \<and> \<not> br_advertising r \<and> \<not> bt_listening (br_t r) \<and>
     bt_pending (br_t r) = Map.empty \<and> \<not> br_owns r"

lemma turn_off_log:
  assumes "off = Inr c" and "br_sock r = Some s" and "hs_open s" and "\<exists>fs. struct_unpack [FH] (drop 1 c) = Inr fs"
  shows "\<exists>log s'. br_log (turn_off hw en off r) = br_log r @ log \<and> map (fst \<circ> fst) log = (if en then [c] else []) \<and>
     br_sock (turn_off hw en off r) = Some s' \<and> hs_open s'"
proof (cases en)
  case True
  obtain d x where d: "hw (br_hw r) c = (d, x)" by fastforce
  obtain fs where fs: "struct_unpack [FH] (drop 1 c) = Inr fs" using assms(4) by blast
  show ?thesis
  proof (cases x)
    case None
    then show ?thesis using True assms fs d by (simp add: turn_off_def radio_command_def)
  next
    case (Some replies)
    obtain a rest where "await_rest (fs ! 0) [COMMAND_DISALLOWED] (hs_queue s @ replies) = (a, rest)" by fastforce
    then show ?thesis using True assms fs d Some by (simp add: turn_off_def radio_command_def)
  qed
qed (use assms in \<open>simp add: turn_off_def\<close>)

lemma ble_stop_quiet:
  assumes "radio_ok r"
  shows "radio_down (ble_stop hw r)" "radio_ok (ble_stop hw r)"
    "br_sock (ble_stop hw r) = None \<longleftrightarrow> br_sock r = None \<or> br_owns r"
proof -
  note q = turn_off_quiet [unfolded quiet_def]
  show "radio_down (ble_stop hw r)" using assms by (auto simp: ble_stop_def Let_def radio_down_def radio_ok_def pumping_def q)
  show "radio_ok (ble_stop hw r)" using assms by (auto simp: ble_stop_def Let_def radio_ok_def pumping_def q)
  show "br_sock (ble_stop hw r) = None \<longleftrightarrow> br_sock r = None \<or> br_owns r"
    using assms by (auto simp: ble_stop_def Let_def radio_ok_def pumping_def q)
qed

lemma ble_stop_down: "radio_down r \<Longrightarrow> ble_stop hw r = r"
  by (cases r; cases "br_t r") (auto simp: ble_stop_def Let_def radio_down_def pumping_def turn_off_def)

lemma off_commands:
  "\<exists>c. cmd_le_set_scan_enable False False = Inr c \<and> (\<exists>fs. struct_unpack [FH] (drop 1 c) = Inr fs)"
  "\<exists>c. cmd_le_set_adv_enable False = Inr c \<and> (\<exists>fs. struct_unpack [FH] (drop 1 c) = Inr fs)"
proof -
  have u: "\<exists>c. hci_cmd op params = Inr c \<and> (\<exists>fs. struct_unpack [FH] (drop 1 c) = Inr fs)"
    if "0 \<le> op" "op < 65536" "length params \<le> 255" for op params
    using hci_cmd_ok [OF that] by (simp add: struct_unpack_def)
  show "\<exists>c. cmd_le_set_scan_enable False False = Inr c \<and> (\<exists>fs. struct_unpack [FH] (drop 1 c) = Inr fs)"
    unfolding cmd_le_set_scan_enable_def by (rule u) (simp_all add: hci_ops)
  show "\<exists>c. cmd_le_set_adv_enable False = Inr c \<and> (\<exists>fs. struct_unpack [FH] (drop 1 c) = Inr fs)"
    unfolding cmd_le_set_adv_enable_def by (rule u) (simp_all add: hci_ops)
qed

lemma stop_log:
  assumes "br_sock r = Some s" and "hs_open s"
  shows "\<exists>log. br_log (ble_stop hw r) = br_log r @ log \<and> map (fst \<circ> fst) log = off_plan r"
proof -
  obtain c d where c: "cmd_le_set_scan_enable False False = Inr c" "\<exists>fs. struct_unpack [FH] (drop 1 c) = Inr fs"
    and d: "cmd_le_set_adv_enable False = Inr d" "\<exists>fs. struct_unpack [FH] (drop 1 d) = Inr fs"
    using off_commands by blast
  define r2 where "r2 = (pumping False r)\<lparr>br_t := (br_t (pumping False r))\<lparr>bt_pending := Map.empty\<rparr>\<rparr>"
  have r2: "br_sock r2 = Some s" "br_scanning r2 = br_scanning r" "br_advertising r2 = br_advertising r" "br_log r2 = br_log r"
    by (simp_all add: r2_def pumping_def assms)
  have same: "(if bt_pumping (br_t r) \<and> br_sock r \<noteq> None then pumping False r else r) = pumping False r"
    using assms by (cases r; cases "br_t r") (auto simp: pumping_def)
  obtain l1 s1 where l1: "br_log (turn_off hw (br_scanning r) (Inr c) r2) = br_log r @ l1"
    "map (fst \<circ> fst) l1 = (if br_scanning r then [c] else [])" "br_sock (turn_off hw (br_scanning r) (Inr c) r2) = Some s1" "hs_open s1"
    using turn_off_log [OF refl r2(1) assms(2) c(2), of hw "br_scanning r"] r2(4) by auto
  obtain l2 where l2: "br_log (turn_off hw (br_advertising r) (Inr d) (turn_off hw (br_scanning r) (Inr c) r2)) = br_log r @ l1 @ l2"
    "map (fst \<circ> fst) l2 = (if br_advertising r then [d] else [])"
    using turn_off_log [OF refl l1(3,4) d(2), of hw "br_advertising r"] l1(1) by auto
  have "br_log (ble_stop hw r) = br_log (turn_off hw (br_advertising r) (Inr d) (turn_off hw (br_scanning r) (Inr c) r2))"
    unfolding ble_stop_def Let_def same r2_def [symmetric] by (simp add: r2 c d)
  then show ?thesis using l1(2) l2 by (intro exI [of _ "l1 @ l2"]) (simp add: off_plan_def c d)
qed

text \<open>C31: Stopping takes down whatever is up, and says only that. It cannot fail, whatever the controller
  answers; a second stop does nothing; a socket the transport did not open stays open.\<close>

theorem ble_stop_complete:
  assumes "radio_ok r"
  shows "radio_down (ble_stop hw r) \<and> radio_ok (ble_stop hw r) \<and> ble_stop hw (ble_stop hw r) = ble_stop hw r \<and>
    (br_sock (ble_stop hw r) = None \<longleftrightarrow> br_sock r = None \<or> br_owns r) \<and>
    (\<forall>s. br_sock r = Some s \<and> hs_open s \<longrightarrow>
      (\<exists>log. br_log (ble_stop hw r) = br_log r @ log \<and> map (fst \<circ> fst) log = off_plan r))"
  using ble_stop_quiet [OF assms, of hw] ble_stop_down [of "ble_stop hw r" hw] stop_log [of r _ hw] by blast

text \<open>When the last command of a start is refused the start raises, but the transport takes itself for
  started: the next start returns at once, says nothing, and the agent never hears anyone.\<close>

theorem restart_is_deaf:
  assumes "radio_ok r" and "ble_start hw be r = (r1, Inl e)" and "bt_pumping (br_t r1)"
  shows "ble_start hw' be' r1 = (r1, Inr ()) \<and> br_advertising r1 \<and> \<not> br_scanning r1"
proof -
  have p: "\<not> bt_pumping (br_t r)" using assms(2) by (auto simp: ble_start_def)
  have "br_scanning r1 = br_scanning r"
    using start_cases [OF assms(1) p, of hw be] ready_flags [OF assms(1) p] assms(2) by auto
  moreover have "radio_ok r1" using start_keeps_ok [OF assms(1), of hw be] assms(2) by simp
  ultimately show ?thesis using assms p by (auto simp: ble_start_def radio_ok_def)
qed

subsection \<open>A radio and two controllers\<close>

definition demo_settings :: ble_settings where
  "demo_settings = \<lparr>bl_adv_interval_ms = 100, bl_adv_interval_max_ms = None, bl_scan_interval_ms = 100, bl_scan_window_ms = 100,
     bl_channel_map = 7, bl_passive_scan = True, bl_filter_duplicates = False\<rparr>"

definition demo_radio :: "unit ble_radio" where
  "demo_radio = radio_new 1 COMPANY_ID demo_settings (Some \<lparr>hs_open = True, hs_queue = []\<rparr>) ()"

text \<open>A controller that completes every command at once, with an error status where \<open>refuse\<close> holds.\<close>

definition prompt_hw :: "(bytes \<Rightarrow> bool) \<Rightarrow> unit controller" where
  "prompt_hw refuse d packet =
     ((), Some [[byte_of HCI_EVENT_PKT, byte_of EVT_COMMAND_COMPLETE, byte_of 4, byte_of 1] @ take 2 (drop 1 packet) @
                [byte_of (if refuse packet then 1 else 0)]])"

definition hci_shaped :: "bytes \<Rightarrow> bool" where
  "hci_shaped c \<longleftrightarrow> (\<exists>op params. 0 \<le> op \<and> op < 65536 \<and> length params \<le> 255 \<and> hci_cmd op params = Inr c)"

lemma prompt_command:
  assumes "hci_shaped c" and "br_sock r = Some \<lparr>hs_open = True, hs_queue = []\<rparr>"
  shows "\<exists>log cc. radio_command (prompt_hw refuse) tol c r =
    (r\<lparr>br_hw := (), br_sock := Some \<lparr>hs_open = True, hs_queue = []\<rparr>, br_log := log\<rparr>,
     if refuse c \<and> 1 \<notin> set tol then Inl HciError else Inr \<lparr>cc_opcode = cc, cc_status = (if refuse c then 1 else 0), cc_params = []\<rparr>)"
proof -
  obtain op params where op: "0 \<le> op" "op < 65536" "length params \<le> 255" "hci_cmd op params = Inr c" using assms(1) by (auto simp: hci_shaped_def)
  have c: "c = byte_of 1 # le_bytes 2 op @ byte_of (int (length params)) # params" using hci_cmd_ok [OF op(1-3)] op(4) by simp
  have t: "take 2 (drop (Suc 0) c) = le_bytes 2 op" by (simp add: c)
  have u: "struct_unpack [FH] (drop (Suc 0) c) = Inr [op]"
    using op(1,2) by (simp add: c struct_unpack_def unpack1_def le_int_le_bytes)
  have s: "command_step op tol ([byte_of HCI_EVENT_PKT, byte_of EVT_COMMAND_COMPLETE, byte_of 4, byte_of 1] @ le_bytes 2 op @
        [byte_of (if refuse c then 1 else 0)]) =
      Some (if refuse c \<and> 1 \<notin> set tol then Inl HciError
            else Inr \<lparr>cc_opcode = op, cc_status = (if refuse c then 1 else 0), cc_params = []\<rparr>)"
  proof -
    obtain a b where ab: "le_bytes 2 op = [a, b]" using length_le_bytes [of 2 op] unfolding list_of_length_2 by blast
    have "le_int [a, b] = op" using op(1,2) le_int_le_bytes [of 2 op] by (simp add: ab)
    then show ?thesis
      by (simp add: ab command_step_def parse_event_def parse_command_complete_def HCI_EVENT_PKT_def EVT_COMMAND_COMPLETE_def cc_ok_def
          byte_val_of Let_def)
  qed
  show ?thesis
    using s by (intro exI [of _ "br_log r @ [((c, tol), bt_pumping (br_t r), if refuse c \<and> 1 \<notin> set tol then Inl HciError
            else Inr \<lparr>cc_opcode = op, cc_status = (if refuse c then 1 else 0), cc_params = []\<rparr>)]"] exI [of _ op])
      (simp add: radio_command_def assms(2) u prompt_hw_def t)
qed

lemma shaped_cmd:
  assumes "0 \<le> op" and "op < 65536" and "length params \<le> 255"
  shows "\<exists>c. hci_cmd op params = Inr c \<and> hci_shaped c \<and> length c = 4 + length params \<and> drop 4 c = params"
  using assms hci_cmd_ok [OF assms] by (auto simp: hci_shaped_def numeral_eq_Suc)

lemma units_100: "ms_to_units 100 = Inr 160"
  using py_round_of_int [of 160] by (simp add: ms_to_units_def)

lemma struct_pack_length: "struct_pack fs vs = Inr bs \<Longrightarrow> length bs = calcsize fs"
  by (auto simp: struct_pack_Inr_iff length_pack_raw dest: list_all2_lengthD)

lemma hci_op_bounds:
  "0 \<le> OP_LE_SET_SCAN_ENABLE" "OP_LE_SET_SCAN_ENABLE < 65536" "0 \<le> OP_LE_SET_ADV_ENABLE" "OP_LE_SET_ADV_ENABLE < 65536"
  "0 \<le> OP_LE_SET_ADV_PARAMETERS" "OP_LE_SET_ADV_PARAMETERS < 65536" "0 \<le> OP_LE_SET_SCAN_PARAMETERS" "OP_LE_SET_SCAN_PARAMETERS < 65536"
  "0 \<le> OP_LE_SET_ADV_DATA" "OP_LE_SET_ADV_DATA < 65536"
  by (simp_all add: hci_ops)

definition scan_on :: bytes where
  "scan_on = projr (cmd_le_set_scan_enable True False)"

lemma scan_commands:
  "\<exists>c. cmd_le_set_scan_enable False False = Inr c \<and> hci_shaped c \<and> c \<noteq> scan_on"
  "cmd_le_set_scan_enable True False = Inr scan_on" "hci_shaped scan_on" "length scan_on = 6"
proof -
  obtain off where off: "cmd_le_set_scan_enable False False = Inr off" "hci_shaped off" "drop 4 off = [byte_of 0, byte_of 0]"
    unfolding cmd_le_set_scan_enable_def using shaped_cmd [OF hci_op_bounds(1,2), of "[byte_of 0, byte_of 0]"] by auto
  obtain on where on: "cmd_le_set_scan_enable True False = Inr on" "hci_shaped on" "length on = 6" "drop 4 on = [byte_of 1, byte_of 0]"
    unfolding cmd_le_set_scan_enable_def using shaped_cmd [OF hci_op_bounds(1,2), of "[byte_of 1, byte_of 0]"] by auto
  have e: "scan_on = on" by (simp add: scan_on_def on(1))
  show "cmd_le_set_scan_enable True False = Inr scan_on" "hci_shaped scan_on" "length scan_on = 6" using on e by simp_all
  have "off \<noteq> on"
  proof
    assume "off = on"
    then have "byte_of 0 = byte_of 1" using off(3) on(4) by simp
    then show False by (simp add: byte_of_eq_iff)
  qed
  then show "\<exists>c. cmd_le_set_scan_enable False False = Inr c \<and> hci_shaped c \<and> c \<noteq> scan_on" using off e by blast
qed

definition harmless :: "bytes \<times> int list \<Rightarrow> bool" where
  "harmless x \<longleftrightarrow> hci_shaped (fst x) \<and> fst x \<noteq> scan_on"

lemma harmless_cmd:
  assumes "0 \<le> op" and "op < 65536" and "length params \<le> 255" and "length params \<noteq> 2"
  shows "\<exists>c. hci_cmd op params = Inr c \<and> (\<forall>tol. harmless (c, tol))"
proof -
  obtain c where c: "hci_cmd op params = Inr c" "hci_shaped c" "length c = 4 + length params" using shaped_cmd [OF assms(1-3)] by blast
  have "c \<noteq> scan_on" using c(3) assms(4) scan_commands(4) by auto
  then show ?thesis using c(1,2) by (simp add: harmless_def)
qed

lemma demo_plans:
  "\<exists>ap sp. adv_plan demo_radio = Inr ap \<and> scan_plan demo_radio = Inr (sp @ [(scan_on, [])]) \<and> list_all harmless ap \<and> list_all harmless sp"
proof -
  have set0: "br_set demo_radio = demo_settings" "bt_node (br_t demo_radio) = 1" "bt_company (br_t demo_radio) = COMPANY_ID"
    by (simp_all add: demo_radio_def radio_new_def)
  obtain off where off: "cmd_le_set_adv_enable False = Inr off" "\<forall>tol. harmless (off, tol)"
    unfolding cmd_le_set_adv_enable_def using harmless_cmd [OF hci_op_bounds(3,4), of "[byte_of 0]"] by auto
  obtain on where on: "cmd_le_set_adv_enable True = Inr on" "\<forall>tol. harmless (on, tol)"
    unfolding cmd_le_set_adv_enable_def using harmless_cmd [OF hci_op_bounds(3,4), of "[byte_of 1]"] by auto
  obtain a where a: "struct_pack [FH, FH, FB, FB, FB] [160, 160, ADV_NONCONN_IND, 0, 0] = Inr a" "length a = 7"
    using struct_pack_length [of "[FH, FH, FB, FB, FB]" "[160, 160, ADV_NONCONN_IND, 0, 0]"]
    by (auto simp: pack1_def fits_def ADV_NONCONN_IND_def calcsize_def)
  obtain params where params: "cmd_le_set_adv_parameters 160 160 ADV_NONCONN_IND 0 7 0 = Inr params" "\<forall>tol. harmless (params, tol)"
    using harmless_cmd [OF hci_op_bounds(5,6), of "a @ replicate 6 0 @ [byte_of 7, byte_of 0]"] a
    by (auto simp: cmd_le_set_adv_parameters_def bytes_of_ints_def)
  obtain b where b: "struct_pack [FB, FH, FH, FB, FB] [0, 160, 160, 0, 0] = Inr b" "length b = 7"
    using struct_pack_length [of "[FB, FH, FH, FB, FB]" "[0, 160, 160, 0, 0]"] by (auto simp: pack1_def fits_def calcsize_def)
  obtain sparams where sparams: "cmd_le_set_scan_parameters 160 160 0 0 0 = Inr sparams" "\<forall>tol. harmless (sparams, tol)"
    using harmless_cmd [OF hci_op_bounds(7,8), of b] b by (auto simp: cmd_le_set_scan_parameters_def)
  define p where "p = \<lparr>pk_node = 1, pk_vstate = [0], pk_seq = 0, pk_tx = 0, pk_enabled = False, pk_dist = False\<rparr>"
  have p: "packet_ok p" by (simp add: p_def packet_ok_def int32_ok_def)
  have c: "0 \<le> COMPANY_ID" "COMPANY_ID < 65536" by (simp_all add: COMPANY_ID_def)
  obtain dat where dat: "bindR (bindR (idle_packet (br_t demo_radio)) (ble_ad (br_t demo_radio))) cmd_le_set_adv_data = Inr dat"
    "\<forall>tol. harmless (dat, tol)"
  proof -
    note t = that
    have i: "idle_packet (br_t demo_radio) = Inr p" using p post_init_ok [of 1 "[0]" 0 0 False False] by (simp add: idle_packet_def set0 p_def)
    have s: "ble_ad (br_t demo_radio) p = Inr (ad_of COMPANY_ID p)" "length (ad_of COMPANY_ID p) \<le> 23"
      using ble_send_ok [OF p c] by (simp_all add: ble_ad_send set0)
    then have "length (byte_of (int (length (ad_of COMPANY_ID p))) # ad_of COMPANY_ID p @ replicate (31 - length (ad_of COMPANY_ID p)) 0) = 32" by simp
    then show ?thesis
      using t s i harmless_cmd [OF hci_op_bounds(9,10), of "byte_of (int (length (ad_of COMPANY_ID p))) # ad_of COMPANY_ID p @ replicate (31 - length (ad_of COMPANY_ID p)) 0"]
      by (auto simp: cmd_le_set_adv_data_def bytes_of_ints_def)
  qed
  obtain soff where soff: "cmd_le_set_scan_enable False False = Inr soff" "\<forall>tol. harmless (soff, tol)"
    using scan_commands(1) by (auto simp: harmless_def)
  have "adv_plan demo_radio = Inr [(off, [COMMAND_DISALLOWED]), (params, []), (dat, []), (on, [])]"
    unfolding adv_plan_def Let_def set0 using off(1) on(1) params(1) dat(1) by (simp add: demo_settings_def units_100)
  moreover have "scan_plan demo_radio = Inr [(soff, [COMMAND_DISALLOWED]), (sparams, []), (scan_on, [])]"
    unfolding scan_plan_def Let_def set0 using soff(1) sparams(1) scan_commands(2) by (simp add: demo_settings_def units_100)
  ultimately show ?thesis
    using off(2) on(2) params(2) dat(2) soff(2) sparams(2)
    by (intro exI [of _ "[(off, [COMMAND_DISALLOWED]), (params, []), (dat, []), (on, [])]"] exI [of _ "[(soff, [COMMAND_DISALLOWED]), (sparams, [])]"]) simp
qed

definition idle :: "'d ble_radio \<Rightarrow> bool" where
  "idle r \<longleftrightarrow> br_sock r = Some \<lparr>hs_open = True, hs_queue = []\<rparr>"

definition refuse_scan :: "unit controller" where
  "refuse_scan = prompt_hw (\<lambda>c. c = scan_on)"

lemma prompt_step:
  assumes "harmless (c, tol)" and "idle r" and "\<And>r1 cc. idle r1 \<Longrightarrow> quiet r r1 \<Longrightarrow> Q (f cc r1)"
  shows "Q (bindS (radio_command refuse_scan tol c r) f)"
proof -
  have c: "hci_shaped c" "c \<noteq> scan_on" using assms(1) by (simp_all add: harmless_def)
  obtain log cc where m: "radio_command refuse_scan tol c r =
      (r\<lparr>br_hw := (), br_sock := Some \<lparr>hs_open = True, hs_queue = []\<rparr>, br_log := log\<rparr>,
       Inr \<lparr>cc_opcode = cc, cc_status = 0, cc_params = []\<rparr>)"
    using prompt_command [OF c(1), of r "\<lambda>c. c = scan_on" tol] c(2) assms(2) unfolding refuse_scan_def idle_def by auto
  have "idle (r\<lparr>br_hw := (), br_sock := Some \<lparr>hs_open = True, hs_queue = []\<rparr>, br_log := log\<rparr>)"
    "quiet r (r\<lparr>br_hw := (), br_sock := Some \<lparr>hs_open = True, hs_queue = []\<rparr>, br_log := log\<rparr>)"
    using assms(2) by (simp_all add: idle_def quiet_def live_def)
  then show ?thesis using assms(3) by (simp add: m bindS_def)
qed

lemma refuse_last:
  assumes "idle r"
  shows "\<exists>r4. radio_command refuse_scan [] scan_on r = (r4, Inl HciError) \<and> quiet r r4"
  using prompt_command [OF scan_commands(3), of r "\<lambda>c. c = scan_on" "[]"] assms unfolding refuse_scan_def idle_def
  by (auto simp: quiet_def live_def)

lemma demo_ok: "radio_ok demo_radio" "idle demo_radio" "\<not> bt_pumping (br_t demo_radio)" "\<not> br_scanning demo_radio"
  "bl_scan_window_ms (br_set demo_radio) \<le> bl_scan_interval_ms (br_set demo_radio)"
  by (simp_all add: demo_radio_def radio_new_ok) (simp_all add: radio_new_def idle_def demo_settings_def)

lemma demo_advertises:
  assumes "adv_plan r = Inr ap" and "list_all harmless ap" and "idle r"
  shows "\<exists>r3. ble_advertise refuse_scan r = (r3, Inr ()) \<and> idle r3 \<and> quiet (r\<lparr>br_advertising := True\<rparr>) r3"
proof -
  obtain lo off hi params dat on where p: "ms_to_units (bl_adv_interval_ms (br_set r)) = Inr lo" "cmd_le_set_adv_enable False = Inr off"
      "ms_to_units (case bl_adv_interval_max_ms (br_set r) of Some x \<Rightarrow> x | None \<Rightarrow> bl_adv_interval_ms (br_set r)) = Inr hi"
      "cmd_le_set_adv_parameters lo hi ADV_NONCONN_IND 0 (bl_channel_map (br_set r)) 0 = Inr params"
      "bindR (bindR (idle_packet (br_t r)) (ble_ad (br_t r))) cmd_le_set_adv_data = Inr dat" "cmd_le_set_adv_enable True = Inr on"
    and plan: "ap = [(off, [COMMAND_DISALLOWED]), (params, []), (dat, []), (on, [])]"
    using assms(1) by (auto simp: adv_plan_def Let_def bindR_eq_Inr)
  define Q :: "(unit ble_radio, unit) call \<Rightarrow> bool" where "Q = (\<lambda>m. \<exists>r3. m = (r3, Inr ()) \<and> idle r3 \<and> quiet (r\<lparr>br_advertising := True\<rparr>) r3)"
  have h: "harmless (off, [COMMAND_DISALLOWED])" "harmless (params, [])" "harmless (dat, [])" "harmless (on, [])"
    using assms(2) by (simp_all add: plan)
  have "Q (ble_advertise refuse_scan r)"
    unfolding ble_advertise_def Let_def p bindS_lift
  proof (rule prompt_step [OF h(1) assms(3)], rule prompt_step [OF h(2)], assumption)
    fix r1 r2 assume q: "quiet r r1" "idle r2" "quiet r1 r2"
    have t: "br_t r2 = br_t r" "quiet r r2" using q quiet_trans [OF q(1,3)] by (simp_all add: quiet_def)
    show "Q (bindS (lift (bindR (bindR (idle_packet (br_t r2)) (ble_ad (br_t r2))) cmd_le_set_adv_data) r2) (\<lambda>c r. bindS (radio_command refuse_scan [] c r) (\<lambda>_ r.
        bindS (radio_command refuse_scan [] on r) (\<lambda>_ r. (r\<lparr>br_advertising := True\<rparr>, Inr ())))))"
      unfolding t p bindS_lift
    proof (rule prompt_step [OF h(3) q(2)], rule prompt_step [OF h(4)], assumption)
      fix r3 r4 assume "quiet r2 r3" "idle r4" "quiet r3 r4"
      then show "Q (r4\<lparr>br_advertising := True\<rparr>, Inr ())"
        using t(2) unfolding Q_def by (auto simp: quiet_def idle_def)
    qed
  qed
  then show ?thesis by (simp add: Q_def)
qed

lemma demo_scan_refused:
  assumes "scan_plan r = Inr (sp @ [(scan_on, [])])" and "list_all harmless sp" and "idle r"
  shows "\<exists>r4. ble_scan refuse_scan r = (r4, Inl HciError) \<and> bt_pumping (br_t r4)"
proof -
  obtain off iv wi params where p: "cmd_le_set_scan_enable False False = Inr off" "ms_to_units (bl_scan_interval_ms (br_set r)) = Inr iv"
      "ms_to_units (bl_scan_window_ms (br_set r)) = Inr wi"
      "cmd_le_set_scan_parameters iv wi (if bl_passive_scan (br_set r) then 0 else 1) 0 0 = Inr params"
      "cmd_le_set_scan_enable True (bl_filter_duplicates (br_set r)) = Inr scan_on"
    and plan: "sp = [(off, [COMMAND_DISALLOWED]), (params, [])]"
    using assms(1) by (auto simp: scan_plan_def Let_def bindR_eq_Inr append_eq_Cons_conv)
  define Q :: "(unit ble_radio, unit) call \<Rightarrow> bool" where "Q = (\<lambda>m. \<exists>r4. m = (r4, Inl HciError) \<and> bt_pumping (br_t r4))"
  have h: "harmless (off, [COMMAND_DISALLOWED])" "harmless (params, [])" using assms(2) by (simp_all add: plan)
  have "Q (ble_scan refuse_scan r)"
    unfolding ble_scan_def Let_def p bindS_lift
  proof (rule prompt_step [OF h(1) assms(3)], rule prompt_step [OF h(2)], assumption)
    fix r2 :: "unit ble_radio" assume "idle r2"
    then have "idle (pumping True r2)" by (simp add: idle_def pumping_def)
    then obtain r4 where "radio_command refuse_scan [] scan_on (pumping True r2) = (r4, Inl HciError)" "quiet (pumping True r2) r4"
      using refuse_last by blast
    then show "Q (bindS (radio_command refuse_scan [] scan_on (pumping True r2)) (\<lambda>_ r. (r\<lparr>br_scanning := True\<rparr>, Inr ())))"
      by (simp add: bindS_def Q_def quiet_def pumping_def)
  qed
  then show ?thesis by (simp add: Q_def)
qed

lemma demo_power: "idle r \<Longrightarrow> \<exists>r2. read_tx_power refuse_scan r = (r2, Inr ()) \<and> idle r2 \<and> same_flags r r2"
proof -
  assume r: "idle r"
  have "0 \<le> OP_LE_READ_ADV_TX_POWER" "OP_LE_READ_ADV_TX_POWER < 65536" by (simp_all add: hci_ops)
  from harmless_cmd [OF this, of "[]"] obtain c where c: "cmd_le_read_adv_tx_power = Inr c" "harmless (c, [])"
    by (auto simp: cmd_le_read_adv_tx_power_def)
  obtain log cc where "radio_command refuse_scan [] c r =
      (r\<lparr>br_hw := (), br_sock := Some \<lparr>hs_open = True, hs_queue = []\<rparr>, br_log := log\<rparr>,
       Inr \<lparr>cc_opcode = cc, cc_status = 0, cc_params = []\<rparr>)"
    using prompt_command [of c r "\<lambda>c. c = scan_on" "[]"] c(2) r unfolding refuse_scan_def idle_def harmless_def by auto
  then show ?thesis by (simp add: read_tx_power_def c idle_def same_flags_def)
qed

lemma demo_refused: "\<exists>r1. ble_start refuse_scan None demo_radio = (r1, Inl HciError) \<and> bt_pumping (br_t r1)"
proof -
  obtain ap sp where pl: "adv_plan demo_radio = Inr ap" "scan_plan demo_radio = Inr (sp @ [(scan_on, [])])" "list_all harmless ap" "list_all harmless sp"
    using demo_plans by blast
  define r0 where "r0 = demo_radio\<lparr>br_t := (br_t demo_radio)\<lparr>bt_listening := True\<rparr>\<rparr>"
  have r0: "idle r0" "same_flags r0 r0" using demo_ok(2) by (simp_all add: r0_def idle_def same_flags_def)
  obtain r2 where r2: "read_tx_power refuse_scan r0 = (r2, Inr ())" "idle r2" "same_flags r0 r2" using demo_power [OF r0(1)] by blast
  have k: "br_set r2 = br_set demo_radio" "bt_node (br_t r2) = bt_node (br_t demo_radio)" "bt_company (br_t r2) = bt_company (br_t demo_radio)"
    using r2(3) by (simp_all add: same_flags_def r0_def)
  obtain r3 where r3: "ble_advertise refuse_scan r2 = (r3, Inr ())" "idle r3" "quiet (r2\<lparr>br_advertising := True\<rparr>) r3"
    using demo_advertises [of r2 ap] pl(1,3) r2(2) plans_cong(1) [OF k] by auto
  have "scan_plan r3 = scan_plan r2" by (rule plans_cong) (use r3(3) in \<open>simp_all add: quiet_def\<close>)
  then obtain r4 where r4: "ble_scan refuse_scan r3 = (r4, Inl HciError)" "bt_pumping (br_t r4)"
    using demo_scan_refused [of r3 sp] pl(2,4) r3(2) plans_cong(2) [OF k] by auto
  have "ble_start refuse_scan None demo_radio = (r4, Inl HciError)"
    using demo_ok(3,5) r0(1) unfolding ble_start_def r0_def [symmetric]
    by (simp add: ble_acquire_def idle_def bindS_def r2(1) r3(1) r4(1))
  then show ?thesis using r4(2) by blast
qed

theorem restart_is_deaf_witness:
  "\<exists>r1. ble_start refuse_scan None demo_radio = (r1, Inl HciError) \<and>
     ble_start refuse_scan None r1 = (r1, Inr ()) \<and> br_advertising r1 \<and> \<not> br_scanning r1"
proof -
  obtain r1 where r1: "ble_start refuse_scan None demo_radio = (r1, Inl HciError)" "bt_pumping (br_t r1)" using demo_refused by blast
  show ?thesis using restart_is_deaf [OF demo_ok(1) r1, of refuse_scan None] r1(1) by blast
qed

theorem ble_start_sequence_witness:
  "\<exists>ap sp log r1. adv_plan demo_radio = Inr ap \<and> scan_plan demo_radio = Inr sp \<and>
     ble_start refuse_scan None demo_radio = (r1, Inl HciError) \<and> br_log r1 = br_log demo_radio @ log \<and>
     map said log = start_plan demo_radio (ap @ sp)"
proof -
  obtain ap sp where pl: "adv_plan demo_radio = Inr ap" "scan_plan demo_radio = Inr sp" using demo_plans by blast
  obtain r1 where r1: "ble_start refuse_scan None demo_radio = (r1, Inl HciError)" "bt_pumping (br_t r1)" using demo_refused by blast
  obtain log where "start_log demo_radio (ap @ sp) r1 (Inl HciError) log"
    using ble_start_sequence [OF pl demo_ok(3,5), of refuse_scan None] r1(1) by auto
  then show ?thesis using r1 pl by (auto simp: start_log_def)
qed

theorem ble_stop_complete_witness:
  "\<exists>r1. radio_ok r1 \<and> br_advertising r1 \<and> radio_down (ble_stop refuse_scan r1) \<and>
     ble_stop refuse_scan (ble_stop refuse_scan r1) = ble_stop refuse_scan r1"
proof -
  obtain r1 where r1: "ble_start refuse_scan None demo_radio = (r1, Inl HciError)" "bt_pumping (br_t r1)" using demo_refused by blast
  then have ok: "radio_ok r1" using start_keeps_ok [OF demo_ok(1), of refuse_scan None] by simp
  then show ?thesis using ble_stop_complete [OF ok, of refuse_scan] r1(2) by (auto simp: radio_ok_def)
qed

end
