(* ===== verification/Campaign.thy ===== *)
theory Campaign
  imports Validate "HOL-Library.AList" "HOL-Library.List_Lexorder"
begin

section \<open>The campaign's manifests (tools/make_manifests.py)\<close>

text \<open>
  The tool that writes the experiment manifests, as a function of the list of host addresses
  (\<^verbatim>\<open>HOSTS\<close>, which \<^verbatim>\<open>--hosts\<close> replaces). A document is a \<open>manifest\<close> with the defaults of the
  models filled in; descriptions are not modelled. Every manifest is one definition, in the order of
  \<^verbatim>\<open>manifests\<close>; \<open>built\<close> is the dict it returns, later documents of a name replacing earlier ones.
  A manifest's graph is checked by the executable \<open>layout_ok\<close>, over node ids alone; the theorems carry
  it to the loaded manifest, whatever the addresses are.
\<close>

subsection \<open>Hosts, bands and control laws\<close>

definition HOSTS :: "string list" where
  "HOSTS = [''10.6.5.1'', ''10.6.5.2'', ''10.6.5.4'', ''10.6.5.5'', ''10.6.5.7'', ''10.6.5.8'', ''10.6.5.9'',
     ''10.6.5.10'', ''10.6.5.12'', ''10.6.5.13'']"

definition BANDS :: "(agent_type \<times> int) list" where
  "BANDS = [(BLE, 1), (WIFI, 11), (BRIDGE, 21)]"

definition NU_0 :: real where
  "NU_0 = 5 / 100"

definition SINE_FRACTION :: real where
  "SINE_FRACTION = 70 / 100"

text \<open>\<^verbatim>\<open>round(x, d)\<close>.\<close>

definition round_to :: "nat \<Rightarrow> real \<Rightarrow> real" where
  "round_to d x = of_int (py_round (x * 10 ^ d)) / 10 ^ d"

definition disturbance_for :: "real \<Rightarrow> real \<Rightarrow> disturbance_spec" where
  "disturbance_for dt_s run_s =
     \<lparr>dx_enabled = True, dx_noise_amplitude = round_to 8 (2 * (20 / 100) * NU_0), dx_noise_offset = 5 / 10,
      dx_beta = round_to 8 (10 / 100 * NU_0), dx_sine_amplitude = round_to 8 (SINE_FRACTION * NU_0),
      dx_sine_frequency_hz = 2, dx_sine_phase_s = None, dx_period_samples = py_round (run_s / dt_s)\<rparr>"

definition law_block :: "real \<Rightarrow> real \<Rightarrow> real \<Rightarrow> controller_spec" where
  "law_block dt eta gain =
     \<lparr>cs_name = ''finite_time_adaptive'', cs_dt_s = dt, cs_eta = eta, cs_gain_ij = gain, cs_alpha = 5 / 10, cs_delta = 1 / 100,
      cs_disturbance = disturbance_for dt 300, cs_microgrid = None\<rparr>"

definition CONTROLLER :: controller_spec where
  "CONTROLLER = law_block (2 / 10) (5 / 10 ^ 5) (1 / 10)"

definition CONTROLLER_FAST :: controller_spec where
  "CONTROLLER_FAST = law_block (4 / 100) (125 / 10 ^ 5) (5 / 10)"

definition CONTROLLER_40HZ :: controller_spec where
  "CONTROLLER_40HZ = law_block (25 / 1000) (25 / 10 ^ 4) (5 / 10)"

definition CONTROLLER_25HZ :: controller_spec where
  "CONTROLLER_25HZ = law_block (4 / 100) (25 / 10 ^ 4) (5 / 10)"

definition CONTROLLER_50HZ :: controller_spec where
  "CONTROLLER_50HZ = law_block (2 / 100) (25 / 10 ^ 4) (5 / 10)"

subsection \<open>Radio blocks\<close>

definition ADV_FLOOR_MS :: real where
  "ADV_FLOOR_MS = 100"

definition ADV_DITHER_MS :: real where
  "ADV_DITHER_MS = 50"

definition K_MIN :: real where
  "K_MIN = 11 / 10"

definition WIFI_TX_POWER_DBM :: real where
  "WIFI_TX_POWER_DBM = 12"

text \<open>The block's fields, the rest of \<^verbatim>\<open>RadioSpec\<close> at its defaults.\<close>

definition radio_block :: "real \<Rightarrow> real option \<Rightarrow> real \<Rightarrow> real \<Rightarrow> real option \<Rightarrow> radio_spec" where
  "radio_block adv adv_max si sw tx =
     \<lparr>rs_adv_interval_ms = adv, rs_adv_interval_max_ms = adv_max, rs_scan_interval_ms = si, rs_scan_window_ms = sw,
      rs_channel_map = 7, rs_filter_duplicates = False, rs_passive_scan = True, rs_tx_power_dbm = tx\<rparr>"

definition DEFAULT_RADIO :: radio_spec where
  "DEFAULT_RADIO = radio_block 100 None 100 100 None"

definition or_else :: "'a \<Rightarrow> 'a option \<Rightarrow> 'a" where
  "or_else d x = (case x of None \<Rightarrow> d | Some v \<Rightarrow> v)"

definition radio_for :: "real \<Rightarrow> real option \<Rightarrow> real option \<Rightarrow> real option \<Rightarrow> real option \<Rightarrow> real \<Rightarrow> radio_spec result" where
  "radio_for publish_period_s adv adv_max scan_interval scan_window scan_ratio =
     (let adv_ms = or_else ADV_FLOOR_MS adv in
      if adv_ms < ADV_FLOOR_MS then Inl ValueError
      else if adv_ms > 10240 then Inl ValueError
      else
        let si = or_else adv_ms scan_interval; sw = or_else (round_to 4 (si * scan_ratio)) scan_window in
        if sw > si then Inl ValueError
        else
          (case adv_max of
             None \<Rightarrow> Inr (radio_block adv_ms None si sw (Some WIFI_TX_POWER_DBM))
           | Some amax \<Rightarrow>
               if amax < adv_ms then Inl ValueError else Inr (radio_block adv_ms (Some amax) si sw (Some WIFI_TX_POWER_DBM))))"

definition ceiling_for :: "real \<Rightarrow> real" where
  "ceiling_for publish_period_s = min 1 (publish_period_s * 1000 / max ADV_FLOOR_MS (publish_period_s * 1000))"

definition radio_dithered :: "real \<Rightarrow> real \<Rightarrow> radio_spec result" where
  "radio_dithered publish_period_s scan_duty =
     (let pub_ms = publish_period_s * 1000;
          widest = max 0 (pub_ms / K_MIN - ADV_FLOOR_MS);
          width = min ADV_DITHER_MS widest
      in if \<not> (0 < scan_duty \<and> scan_duty \<le> 1) then Inl ValueError
         else radio_for publish_period_s None (Some (ADV_FLOOR_MS + round_to 1 width)) (Some 20) (Some (round_to 4 (20 * scan_duty))) 1)"

subsection \<open>Nodes on hosts\<close>

definition hosts_for :: "nat \<Rightarrow> real \<Rightarrow> string list \<Rightarrow> node_spec list result" where
  "hosts_for n_per_band publish_period_s pool =
     (if n_per_band > length pool then Inl ValueError
      else Inr (sort_key ns_id (concat (map (\<lambda>(kind, b). map (\<lambda>k.
             \<lparr>ns_id = b + int k, ns_ip = pool ! k, ns_type = kind, ns_enabled = True, ns_publish_period_s = publish_period_s,
              ns_neighbors = [], ns_plant = None\<rparr>) [0..<n_per_band]) BANDS))))"

definition CLUSTER_EDGES :: digraph where
  "CLUSTER_EDGES =
     [(1, [2, 3, 21]), (2, [1, 4]), (3, [1, 5]), (4, [2, 5, 6]), (5, [3, 4, 7]), (6, [4, 7, 8]), (7, [5, 6, 9]), (8, [6, 10]),
      (9, [7, 10]), (10, [8, 9, 30]),
      (11, [12, 13, 21]), (12, [11, 14]), (13, [11, 15]), (14, [12, 15, 16]), (15, [13, 14, 17]), (16, [14, 17, 18]),
      (17, [15, 16, 19]), (18, [16, 20]), (19, [17, 20]), (20, [18, 19, 30]),
      (21, [1, 11, 22, 23]), (22, [21, 24]), (23, [21, 25]), (24, [22, 25, 26]), (25, [23, 24, 27]), (26, [24, 27, 28]),
      (27, [25, 26, 29]), (28, [26, 30]), (29, [27, 30]), (30, [10, 20, 28, 29])]"

definition CLUSTER_DISABLED :: "int list" where
  "CLUSTER_DISABLED = [21, 30]"

definition BAND_ORDER :: "int list" where
  "BAND_ORDER = [1..10] @ [21..25] @ [11..20] @ [26..30]"

definition first_run :: "string list \<Rightarrow> string list" where
  "first_run pool = take 3 pool"

definition n6_pair :: "string list \<Rightarrow> string list" where
  "n6_pair pool = (if length pool \<ge> 3 then take 2 (drop 1 pool) else take 2 pool)"

text \<open>\<^verbatim>\<open>node["neighbors"] = edges[node["id"]]\<close> for every node.\<close>

definition give_edges :: "digraph \<Rightarrow> node_spec list \<Rightarrow> node_spec list result" where
  "give_edges edges = traverse (\<lambda>n. case map_of edges (ns_id n) of None \<Rightarrow> Inl KeyError | Some v \<Rightarrow> Inr (n\<lparr>ns_neighbors := v\<rparr>))"

definition ring_nodes :: "nat \<Rightarrow> string list \<Rightarrow> int list \<Rightarrow> real option \<Rightarrow> node_spec list result" where
  "ring_nodes n pool order pub =
     bindR (hosts_for n 1 pool) (\<lambda>nodes.
     bindR (ring None 1 False (Some order)) (\<lambda>edges.
     bindR (give_edges edges nodes) (\<lambda>nodes.
       Inr (map (\<lambda>n. case pub of None \<Rightarrow> n | Some p \<Rightarrow> n\<lparr>ns_publish_period_s := p\<rparr>) nodes))))"

definition clustered :: "real \<Rightarrow> string list \<Rightarrow> node_spec list result" where
  "clustered pub pool =
     bindR (hosts_for 10 pub pool) (\<lambda>nodes.
     bindR (give_edges CLUSTER_EDGES nodes) (\<lambda>nodes.
       Inr (map (\<lambda>n. if ns_id n \<in> set CLUSTER_DISABLED then n\<lparr>ns_enabled := False\<rparr> else n) nodes)))"

definition CLUSTER_MERGE_AT_S :: real where
  "CLUSTER_MERGE_AT_S = 60"

definition merge_event :: scheduled_event where
  "merge_event = \<lparr>sv_at_s = CLUSTER_MERGE_AT_S, sv_nodes = sort CLUSTER_DISABLED, sv_set = [(''enabled'', DBool True)]\<rparr>"

definition doc :: "string \<Rightarrow> int \<Rightarrow> controller_spec \<Rightarrow> radio_spec \<Rightarrow> node_spec list \<Rightarrow> manifest" where
  "doc name seed controller radio nodes =
     \<lparr>em_name = name, em_nodes = nodes, em_controller = controller, em_radio = radio, em_structure = None,
      em_coordination = None, em_events = [], em_seed = seed, em_ic_scheme = ''pcg64-v1''\<rparr>"

subsection \<open>The microgrid benchmark\<close>

definition DG5_KAPPA :: "int \<Rightarrow> real" where
  "DG5_KAPPA i = of_int i / 15"

definition DG5_S :: "int \<Rightarrow> real \<times> real" where
  "DG5_S i = (of_int i, of_int i)"

definition DG5_X0 :: "(int \<times> (real \<times> real)) list" where
  "DG5_X0 = [(1, (5, 1)), (2, (2, 5)), (3, (6, 3)), (4, (1, 7)), (5, (4, 2))]"

definition DG5_Z0 :: "int \<Rightarrow> real \<times> real" where
  "DG5_Z0 i = (of_int i, 6 - of_int i)"

definition DG5_TOPOLOGIES :: "(string \<times> (int \<times> agent_type) list) list" where
  "DG5_TOPOLOGIES =
     [(''mixed'', [(1, BRIDGE), (2, WIFI), (3, BRIDGE), (4, BLE), (5, BLE)]),
      (''bridge5'', map (\<lambda>i. (i, BRIDGE)) [1..5])]"

definition DG5_MIXED_HOSTS :: "(int \<times> string) list" where
  "DG5_MIXED_HOSTS = [(4, ''10.6.5.2''), (5, ''10.6.5.4''), (1, ''10.6.5.5''), (3, ''10.6.5.7''), (2, ''10.6.5.13'')]"

definition DG5_EPS :: "(string \<times> (int \<times> real) list) list" where
  "DG5_EPS =
     [(''per'', [(1, 9376 / 10 ^ 5), (2, 9600 / 10 ^ 5), (3, 9101 / 10 ^ 5), (4, 9250 / 10 ^ 5), (5, 9781 / 10 ^ 5)]),
      (''rep'', [(1, 9220 / 10 ^ 5), (2, 9295 / 10 ^ 5), (3, 8657 / 10 ^ 5), (4, 8683 / 10 ^ 5), (5, 9105 / 10 ^ 5)])]"

text \<open>\<^verbatim>\<open>d[k]\<close>.\<close>

definition dict_at :: "('k \<times> 'v) list \<Rightarrow> 'k \<Rightarrow> 'v result" where
  "dict_at d k = (case map_of d k of None \<Rightarrow> Inl KeyError | Some v \<Rightarrow> Inr v)"

definition dg_plant :: "int \<Rightarrow> node_plant_spec result" where
  "dg_plant i = bindR (dict_at DG5_X0 i) (\<lambda>x. Inr \<lparr>np_kappa = DG5_KAPPA i, np_S = DG5_S i, np_X0 = x, np_z0 = DG5_Z0 i\<rparr>)"

definition dg_law :: "string \<Rightarrow> real \<Rightarrow> real \<Rightarrow> (int \<times> real) list \<Rightarrow> controller_spec" where
  "dg_law profile h h_v eps =
     \<lparr>cs_name = ''microgrid_adaptive'', cs_dt_s = h, cs_eta = 5 / 10 ^ 5, cs_gain_ij = 1 / 10, cs_alpha = 5 / 10, cs_delta = 1 / 100,
      cs_disturbance = \<lparr>dx_enabled = False, dx_noise_amplitude = 0, dx_noise_offset = 5 / 10, dx_beta = 0, dx_sine_amplitude = 0,
        dx_sine_frequency_hz = 0, dx_sine_phase_s = None, dx_period_samples = 1000\<rparr>,
      cs_microgrid = Some \<lparr>ms_interface = ''adaptive'', ms_profile = profile, ms_p_max = 10, ms_q_max = 12, ms_T_o = 30,
        ms_alpha_0 = 1, ms_delta_o = h_v, ms_kappa_o = 1 / 10 ^ 3, ms_xi = 25 / 1000, ms_c_0 = 1 / 10, ms_mu_max = 10,
        ms_gamma = 25 / 10 ^ 4, ms_eps = EpsPer eps, ms_vartheta0 = 0, ms_T_c = 40, ms_beta_c = 2, ms_Phi = 3, ms_terminal = True,
        ms_adapt_band = None\<rparr>\<rparr>"

definition dg_reference :: coordination_spec where
  "dg_reference = \<lparr>crd_reference = (20, 25), crd_pinned = [(1, 1)]\<rparr>"

definition profile_tag :: "string \<Rightarrow> string" where
  "profile_tag profile = (if profile = ''per'' then [] else ''-'' @ profile)"

definition DG2_NODES :: "(int \<times> agent_type \<times> string) list" where
  "DG2_NODES = [(1, BRIDGE, ''10.6.5.5''), (2, BLE, ''10.6.5.2'')]"

definition dg2_node :: "bool \<Rightarrow> real \<Rightarrow> int \<times> agent_type \<times> string \<Rightarrow> node_spec result" where
  "dg2_node wire h_v x =
     (let (i, kind, ip) = x in bindR (dg_plant i) (\<lambda>p. Inr
        \<lparr>ns_id = i, ns_ip = ip, ns_type = (if wire then BRIDGE else kind), ns_enabled = True, ns_publish_period_s = h_v,
         ns_neighbors = [if i = 1 then 2 else 1], ns_plant = Some p\<rparr>))"

definition dg2_eps :: "string \<Rightarrow> (int \<times> real) list result" where
  "dg2_eps profile = traverse (\<lambda>(i, _). bindR (bindR (dict_at DG5_EPS profile) (\<lambda>e. dict_at e i)) (\<lambda>x. Inr (i, x))) DG2_NODES"

definition dg2 :: "bool \<Rightarrow> string \<Rightarrow> real \<Rightarrow> real \<Rightarrow> manifest result" where
  "dg2 wire profile h h_v =
     bindR (traverse (dg2_node wire h_v) DG2_NODES) (\<lambda>nodes.
     bindR (radio_dithered h_v 1) (\<lambda>radio.
     bindR (dg2_eps profile) (\<lambda>eps.
       Inr ((doc ((if wire then ''dg2-wire'' else ''dg2-air'') @ profile_tag profile) 20260930 (dg_law profile h h_v eps) radio nodes)
              \<lparr>em_coordination := Some dg_reference\<rparr>))))"

definition dg5_host :: "int \<Rightarrow> string result" where
  "dg5_host node_id = dict_at DG5_MIXED_HOSTS node_id"

text \<open>\<open>hosts\<close> is \<^verbatim>\<open>None\<close> or a list, indexed as Python indexes it.\<close>

definition dg5_node :: "(int \<times> agent_type) list \<Rightarrow> string list option \<Rightarrow> real \<Rightarrow> int \<Rightarrow> node_spec result" where
  "dg5_node types hosts h_v i =
     bindR (case hosts of None \<Rightarrow> dg5_host i | Some hs \<Rightarrow> if nat (i - 1) < length hs then Inr (hs ! nat (i - 1)) else Inl IndexError) (\<lambda>ip.
     bindR (dict_at types i) (\<lambda>kind.
     bindR (dg_plant i) (\<lambda>p. Inr
       \<lparr>ns_id = i, ns_ip = ip, ns_type = kind, ns_enabled = True, ns_publish_period_s = h_v, ns_neighbors = [], ns_plant = Some p\<rparr>)))"

definition dg5 :: "string \<Rightarrow> string \<Rightarrow> real \<Rightarrow> real \<Rightarrow> string list option \<Rightarrow> manifest result" where
  "dg5 topology profile h h_v hosts =
     bindR (dict_at DG5_TOPOLOGIES topology) (\<lambda>types.
     bindR (raise_if (profile \<notin> fst ` set DG5_EPS) ValueError) (\<lambda>_.
     bindR (traverse (dg5_node types hosts h_v) [1..5]) (\<lambda>nodes.
     bindR (radio_dithered h_v 1) (\<lambda>radio.
     bindR (dict_at DG5_EPS profile) (\<lambda>eps.
       Inr ((doc (''dg5-'' @ topology @ profile_tag profile) 20260929 (dg_law profile h h_v eps) radio nodes)
              \<lparr>em_structure := Some \<lparr>ss_generator = ''ring'', ss_params = RingParams None 1 False (Some [1..5])\<rparr>,
               em_coordination := Some dg_reference\<rparr>))))))"

subsection \<open>The manifests\<close>

definition SEED :: int where
  "SEED = 20260818"

definition N6_ORDER :: "int list" where
  "N6_ORDER = [1, 2, 21, 12, 11, 22]"

definition N9_ORDER :: "int list" where
  "N9_ORDER = [21, 2, 1, 3, 22, 13, 11, 12, 23]"

definition N18_ORDER :: "int list" where
  "N18_ORDER = [1, 2, 3, 4, 5, 6, 21, 12, 13, 14, 15, 16, 11, 22, 23, 24, 25, 26]"

definition N4_ORDER :: "int list" where
  "N4_ORDER = [11, 12, 21, 22]"

text \<open>The name, the seed, a control law, a radio block and the nodes of a document.\<close>

definition scalar_doc :: "string \<Rightarrow> controller_spec \<Rightarrow> radio_spec result \<Rightarrow> node_spec list result \<Rightarrow> manifest result" where
  "scalar_doc name controller radio nodes = bindR nodes (\<lambda>nodes. bindR radio (\<lambda>radio. Inr (doc name SEED controller radio nodes)))"

definition n4_noble :: "string list \<Rightarrow> manifest result" where
  "n4_noble pool = scalar_doc ''n4-noble'' CONTROLLER (radio_dithered 1 1)
     (bindR (hosts_for 2 1 (n6_pair pool)) (\<lambda>nodes.
      bindR (ring None 1 False (Some N4_ORDER)) (\<lambda>edges. give_edges edges (filter (\<lambda>n. ns_type n \<noteq> BLE) nodes))))"

definition n6_fast :: "string list \<Rightarrow> manifest result" where
  "n6_fast pool = scalar_doc ''n6-fast'' CONTROLLER_FAST (Inr DEFAULT_RADIO) (ring_nodes 2 (n6_pair pool) N6_ORDER (Some (2 / 10)))"

definition n6_50hz :: "string list \<Rightarrow> manifest result" where
  "n6_50hz pool = scalar_doc ''n6-50hz'' CONTROLLER_50HZ (radio_dithered (1 / 10) 1) (ring_nodes 2 (n6_pair pool) N6_ORDER (Some (1 / 10)))"

definition n6_ring :: "string list \<Rightarrow> manifest result" where
  "n6_ring pool = scalar_doc ''n6-ring'' CONTROLLER (Inr DEFAULT_RADIO) (ring_nodes 2 (n6_pair pool) N6_ORDER None)"

definition n9_ring :: "string list \<Rightarrow> manifest result" where
  "n9_ring pool = scalar_doc ''n9-ring'' CONTROLLER (Inr DEFAULT_RADIO) (ring_nodes 3 (first_run pool) N9_ORDER None)"

definition n9_50hz :: "string list \<Rightarrow> manifest result" where
  "n9_50hz pool = scalar_doc ''n9-50hz'' CONTROLLER_50HZ (radio_dithered (1 / 10) 1) (ring_nodes 3 (first_run pool) N9_ORDER (Some (1 / 10)))"

definition n9_jitter :: "string list \<Rightarrow> manifest result" where
  "n9_jitter pool = scalar_doc ''n9-jitter'' CONTROLLER_50HZ
     (bindR (radio_for (1 / 10) None None None None 1) (\<lambda>r. Inr (r\<lparr>rs_adv_interval_max_ms := Some 120\<rparr>)))
     (ring_nodes 3 (first_run pool) N9_ORDER (Some (1 / 10)))"

definition n9_k2 :: "string \<Rightarrow> bool \<Rightarrow> string list \<Rightarrow> manifest result" where
  "n9_k2 tag dup pool = scalar_doc tag CONTROLLER_50HZ
     (bindR (radio_for (1 / 10) None None None None 1) (\<lambda>r. Inr (r\<lparr>rs_filter_duplicates := dup\<rparr>)))
     (ring_nodes 3 (first_run pool) N9_ORDER (Some (2 / 10)))"

definition sweep :: "string \<Rightarrow> real \<Rightarrow> string list \<Rightarrow> manifest result" where
  "sweep tag pub pool = scalar_doc (''sweep-'' @ tag) CONTROLLER_FAST
     (radio_for pub (Some (max ADV_FLOOR_MS (pub * 1000))) None (Some 20) (Some 20) 1)
     (ring_nodes 2 (n6_pair pool) N6_ORDER (Some pub))"

definition n18_50hz :: "string list \<Rightarrow> manifest result" where
  "n18_50hz pool = scalar_doc ''n18-50hz'' CONTROLLER_50HZ (radio_dithered (1 / 10) 1) (ring_nodes 6 (take 6 pool) N18_ORDER (Some (1 / 10)))"

definition n18_scan100 :: "string list \<Rightarrow> manifest result" where
  "n18_scan100 pool = scalar_doc ''n18-50hz-scan100'' CONTROLLER_50HZ (radio_dithered (1 / 10) 1)
     (ring_nodes 6 (take 6 pool) N18_ORDER (Some (1 / 10)))"

definition generated :: "string \<Rightarrow> controller_spec \<Rightarrow> radio_spec result \<Rightarrow> string \<Rightarrow> gen_params \<Rightarrow> real \<Rightarrow> string list \<Rightarrow> manifest result" where
  "generated name controller radio gen params pub pool =
     bindR (scalar_doc name controller radio (hosts_for 10 pub pool)) (\<lambda>m.
       Inr (m\<lparr>em_structure := Some \<lparr>ss_generator = gen, ss_params = params\<rparr>\<rparr>))"

definition merging :: "string \<Rightarrow> controller_spec \<Rightarrow> radio_spec result \<Rightarrow> real \<Rightarrow> string list \<Rightarrow> manifest result" where
  "merging name controller radio pub pool =
     bindR (scalar_doc name controller radio (clustered pub pool)) (\<lambda>m. Inr (m\<lparr>em_events := [merge_event]\<rparr>))"

definition DRING :: gen_params where
  "DRING = RingParams None 1 True (Some BAND_ORDER)"

definition RING4 :: gen_params where
  "RING4 = RingParams None 2 False (Some BAND_ORDER)"

definition n30_static :: "string list \<Rightarrow> manifest result list" where
  "n30_static pool =
     [merging ''n30-clusters'' CONTROLLER (Inr DEFAULT_RADIO) 1 pool,
      generated ''n30-ring-directed'' CONTROLLER (Inr DEFAULT_RADIO) ''ring'' DRING 1 pool,
      generated ''n30-ring4'' CONTROLLER (Inr DEFAULT_RADIO) ''ring'' RING4 1 pool,
      generated ''n30-line-directed'' CONTROLLER (Inr DEFAULT_RADIO) ''line'' (LineParams None True (Some BAND_ORDER)) 1 pool]"

definition n30_50hz :: "string list \<Rightarrow> manifest result list" where
  "n30_50hz pool =
     [generated ''n30-dring-50hz'' CONTROLLER_50HZ (radio_dithered (1 / 10) 1) ''ring'' DRING (1 / 10) pool,
      generated ''n30-ring4-50hz'' CONTROLLER_50HZ (radio_dithered (1 / 10) 1) ''ring'' RING4 (1 / 10) pool]"

definition three_graphs :: "string \<Rightarrow> controller_spec \<Rightarrow> real \<Rightarrow> real \<Rightarrow> string list \<Rightarrow> manifest result list" where
  "three_graphs rate_tag controller duty pub pool =
     [generated (''n30-dring-'' @ rate_tag) controller (radio_dithered pub duty) ''ring'' DRING pub pool,
      generated (''n30-ring4-'' @ rate_tag) controller (radio_dithered pub duty) ''ring'' RING4 pub pool,
      merging (''n30-clusters-'' @ rate_tag) controller (radio_dithered pub duty) pub pool]"

text \<open>The first three documents at 40 Hz, which the campaign set then replaces.\<close>

definition n30_40hz :: "string list \<Rightarrow> manifest result list" where
  "n30_40hz pool = three_graphs ''40hz'' CONTROLLER_40HZ (90 / 100) (125 / 1000) pool"

definition campaign_documents :: "string list \<Rightarrow> manifest result list" where
  "campaign_documents pool =
     three_graphs ''40hz'' CONTROLLER_40HZ (95 / 100) (125 / 1000) pool @
     three_graphs ''25hz'' CONTROLLER_25HZ (95 / 100) (2 / 10) pool"

definition clusters_50hz :: "string list \<Rightarrow> manifest result" where
  "clusters_50hz pool = merging ''n30-clusters-50hz'' CONTROLLER_50HZ (radio_dithered (1 / 10) 1) (1 / 10) pool"

definition documents :: "string list \<Rightarrow> manifest result list" where
  "documents pool =
     (let profiles = map fst DG5_EPS in
      concat (map (\<lambda>wire. map (\<lambda>prof. dg2 wire prof (25 / 1000) (125 / 1000)) profiles) [False, True]) @
      (if length pool \<ge> 5
       then concat (map (\<lambda>topo. map (\<lambda>prof. dg5 topo prof (25 / 1000) (125 / 1000) None) profiles) (map fst DG5_TOPOLOGIES))
       else []) @
      (if length pool < 2 then []
       else [n4_noble pool, n6_fast pool, n6_50hz pool, n6_ring pool] @
         (if length (first_run pool) \<ge> 3
          then [n9_ring pool, n9_50hz pool, n9_jitter pool, n9_k2 ''n9-k2'' False pool, n9_k2 ''n9-k2-dupfilter'' True pool]
          else []) @
         map (\<lambda>(tag, pub). sweep tag pub pool) [(''p400'', 400 / 1000), (''p200'', 200 / 1000), (''p080'', 80 / 1000), (''p040'', 40 / 1000)] @
         (if length pool \<ge> 6 then [n18_50hz pool, n18_scan100 pool] else []) @
         (if length pool < 10 then []
          else n30_static pool @ n30_50hz pool @ n30_40hz pool @ campaign_documents pool @ [clusters_50hz pool])))"

text \<open>\<^verbatim>\<open>out[name] = ...\<close>, one document after the other.\<close>

definition put_document :: "(string \<times> manifest) list \<Rightarrow> manifest \<Rightarrow> (string \<times> manifest) list" where
  "put_document d m = AList.update (em_name m) m d"

definition manifests :: "string list \<Rightarrow> (string \<times> manifest) list result" where
  "manifests pool = bindR (traverse (\<lambda>m. m) (documents pool)) (\<lambda>ms. Inr (foldl put_document [] ms))"

subsection \<open>The tool\<close>

definition TEST_SET :: "string list" where
  "TEST_SET = [''n4-noble'', ''n9-50hz'', ''sweep-p040'', ''sweep-p080'', ''sweep-p200'', ''sweep-p400'']"

definition CAMPAIGN_SET :: "string list" where
  "CAMPAIGN_SET = [''n30-dring-40hz'', ''n30-ring4-40hz'', ''n30-clusters-40hz'',
     ''n30-dring-25hz'', ''n30-ring4-25hz'', ''n30-clusters-25hz'']"

datatype out_dir = OUT | OUT_TEST

definition is_blank :: "char \<Rightarrow> bool" where
  "is_blank c \<longleftrightarrow> (of_char c :: nat) \<in> {9, 10, 11, 12, 13, 28, 29, 30, 31, 32, 133, 160}"

definition py_strip :: "string \<Rightarrow> string" where
  "py_strip s = rev (dropWhile is_blank (rev (dropWhile is_blank s)))"

definition comma_list :: "string \<Rightarrow> string list" where
  "comma_list s = filter (\<lambda>x. x \<noteq> []) (map py_strip (str_split CHR '','' s))"

definition dir_of :: "string \<Rightarrow> out_dir" where
  "dir_of name = (if name \<in> set TEST_SET then OUT_TEST else OUT)"

text \<open>\<^verbatim>\<open>wanted\<close>, from \<^verbatim>\<open>--campaign\<close>, \<^verbatim>\<open>--all\<close>, \<^verbatim>\<open>--only\<close> and the names built; \<open>None\<close> when \<^verbatim>\<open>--only\<close> names an
  unknown manifest.\<close>

definition wanted :: "bool \<Rightarrow> bool \<Rightarrow> string \<Rightarrow> string list \<Rightarrow> (string \<times> out_dir) list option" where
  "wanted campaign everything only built =
     (if only \<noteq> [] then
        (if set (comma_list only) \<subseteq> set built then Some (foldl (\<lambda>w n. AList.update n (dir_of n) w) [] (comma_list only)) else None)
      else if everything then Some (map (\<lambda>n. (n, dir_of n)) built)
      else
        let w = map (\<lambda>n. (n, OUT_TEST)) (filter (\<lambda>n. n \<in> set built) TEST_SET) in
        Some (if campaign then foldl (\<lambda>w n. AList.update n OUT w) w (filter (\<lambda>n. n \<in> set built) CAMPAIGN_SET) else w))"

definition missing_names :: "(string \<times> out_dir) list \<Rightarrow> string list \<Rightarrow> string list" where
  "missing_names w built = filter (\<lambda>n. n \<notin> set built) (map fst w)"

text \<open>One manifest written: whether it was reported INVALID, and the file.\<close>

definition write_one :: "graph_lib \<Rightarrow> (string \<times> manifest) list \<Rightarrow> string \<times> out_dir \<Rightarrow> (bool \<times> out_dir \<times> string \<times> manifest) result" where
  "write_one nx built nd =
     bindR (dict_at built (fst nd)) (\<lambda>d. bindR (load_manifest d) (\<lambda>m.
       Inr (\<not> report_ok (check nx m None), snd nd, fst nd, d)))"

text \<open>The exit status and the files written, in the order of their names. \<open>hosts\<close> is \<^verbatim>\<open>--hosts\<close>, or
  \<^verbatim>\<open>VERTEX_HOSTS\<close>, or empty.\<close>

definition make_manifests :: "graph_lib \<Rightarrow> string \<Rightarrow> bool \<Rightarrow> bool \<Rightarrow> string \<Rightarrow> (nat \<times> (out_dir \<times> string \<times> manifest) list) result" where
  "make_manifests nx hosts campaign everything only =
     (if hosts \<noteq> [] \<and> comma_list hosts = [] then Inr (2, [])
      else
        bindR (manifests (if hosts = [] then HOSTS else comma_list hosts)) (\<lambda>built.
          case wanted campaign everything only (map fst built) of
            None \<Rightarrow> Inr (2, [])
          | Some w \<Rightarrow>
              bindR (traverse (write_one nx built) (sort_key (\<lambda>(n, _). map (of_char :: char \<Rightarrow> nat) n) w)) (\<lambda>fs.
                Inr (length (filter fst fs), map snd fs))))"

subsection \<open>Graphs that can run\<close>

text \<open>Over node ids: each node after the first reads an earlier one, and the table is a well-formed graph.\<close>

fun grows :: "digraph \<Rightarrow> int list \<Rightarrow> int list \<Rightarrow> bool" where
  "grows g seen [] = True"
| "grows g seen (x # xs) = (list_ex (\<lambda>y. y \<in> set seen) (dict_get g x []) \<and> grows g (x # seen) xs)"

definition layout_ok :: "int list \<Rightarrow> digraph \<Rightarrow> bool" where
  "layout_ok order g \<longleftrightarrow>
     (case order of r # x # rest \<Rightarrow> grows g [r] (x # rest) | _ \<Rightarrow> False) \<and> distinct (map fst g) \<and>
     list_all (\<lambda>i. i \<in> set order) (map fst g) \<and> list_all (\<lambda>i. i \<in> set (map fst g)) order \<and>
     list_all (\<lambda>(i, ns). distinct ns \<and> i \<notin> set ns \<and> list_all (\<lambda>j. j \<in> set order) ns) g"

fun share_medium :: "agent_type \<Rightarrow> agent_type \<Rightarrow> bool" where
  "share_medium BLE WIFI = False"
| "share_medium WIFI BLE = False"
| "share_medium a b = True"

definition links_audible :: "(int \<Rightarrow> agent_type) \<Rightarrow> digraph \<Rightarrow> bool" where
  "links_audible kind g \<longleftrightarrow>
     list_all (\<lambda>(i, ns). (kind i = BLE \<longrightarrow> length ns \<le> 4) \<and> list_all (\<lambda>j. share_medium (kind i) (kind j)) ns) g"

definition hosts_differ :: "(int \<Rightarrow> 'h) \<Rightarrow> digraph \<Rightarrow> bool" where
  "hosts_differ host g \<longleftrightarrow> list_all (\<lambda>(i, ns). list_all (\<lambda>j. host i \<noteq> host j) ns) g"

lemma share_medium_iff: "share_medium a b \<longleftrightarrow> AGENT_MEDIA a \<inter> AGENT_MEDIA b \<noteq> {}"
  by (cases a; cases b) (simp_all add: AGENT_MEDIA_def)

lemma layout_graph:
  assumes "layout_ok order g"
  shows "graph_ok g" and "fst ` set g = set order"
proof -
  show d: "fst ` set g = set order" using assms by (auto simp: layout_ok_def list_all_iff)
  show "graph_ok g" using assms unfolding graph_ok_def d by (auto simp: layout_ok_def list_all_iff)
qed

lemma grows_reach:
  assumes "graph_ok g" and "grows g seen xs" and "\<forall>s \<in> set seen. (r, s) \<in> (reads g)\<^sup>*"
  shows "\<forall>x \<in> set xs. (r, x) \<in> (reads g)\<^sup>*"
  using assms(2,3)
proof (induction xs arbitrary: seen)
  case (Cons x xs)
  then obtain y where "y \<in> set (dict_get g x [])" "y \<in> set seen" by (auto simp: list_ex_iff)
  then have "(r, x) \<in> (reads g)\<^sup>*" using Cons.prems(2) dict_get_ok(3) [OF assms(1)] by (meson rtrancl.rtrancl_into_rtrancl)
  then show ?case using Cons.IH [of "x # seen"] Cons.prems by simp
qed simp

lemma grows_in: "graph_ok g \<Longrightarrow> grows g seen xs \<Longrightarrow> x \<in> set xs \<Longrightarrow> \<exists>y. (y, x) \<in> reads g"
  using dict_get_ok(3) by (induction xs arbitrary: seen) (auto simp: list_ex_iff)

lemma layout_reach:
  assumes "layout_ok order g"
  shows "\<forall>x \<in> set order. (hd order, x) \<in> (reads g)\<^sup>*" and "\<forall>x \<in> set order. \<exists>y. (y, x) \<in> reads g \<or> (x, y) \<in> reads g"
proof -
  obtain r x rest where o: "order = r # x # rest" "grows g [r] (x # rest)"
    using assms by (auto simp: layout_ok_def split: list.splits)
  note ok = layout_graph(1) [OF assms]
  have "\<forall>y \<in> set (x # rest). (r, y) \<in> (reads g)\<^sup>*" using grows_reach [OF ok o(2)] by simp
  then show "\<forall>x \<in> set order. (hd order, x) \<in> (reads g)\<^sup>*" by (simp add: o(1))
  have "(r, x) \<in> reads g" using o(2) dict_get_ok(3) [OF ok] by (auto simp: list_ex_iff)
  then show "\<forall>x \<in> set order. \<exists>y. (y, x) \<in> reads g \<or> (x, y) \<in> reads g" using grows_in [OF ok o(2)] by (auto simp: o(1))
qed

lemma dict_get_in: "graph_ok g \<Longrightarrow> i \<in> fst ` set g \<Longrightarrow> (i, dict_get g i []) \<in> set g"
  using dict_get_graph by fastforce

text \<open>A manifest over such a graph: what its nodes are, and that the validator finds no fault in it.\<close>

definition laid_out :: "(int \<Rightarrow> agent_type) \<Rightarrow> (int \<Rightarrow> 'h) \<Rightarrow> ('h \<Rightarrow> string) \<Rightarrow> int list \<Rightarrow> manifest \<Rightarrow> bool" where
  "laid_out kind host addr order m \<longleftrightarrow> manifest_check m = Inr m \<and> set (em_ids m) = set order \<and>
     (\<forall>n \<in> set (em_nodes m). ns_neighbors n = [] \<and> ns_type n = kind (ns_id n) \<and> ns_ip n = addr (host (ns_id n)))"

definition pins_ok :: "int list \<Rightarrow> manifest \<Rightarrow> bool" where
  "pins_ok order m \<longleftrightarrow> (case em_coordination m of None \<Rightarrow> True
     | Some c \<Rightarrow> map fst (crd_pinned c) = [hd order] \<and> (\<forall>n \<in> set (em_nodes m). ns_enabled n))"

lemma hd_in: "layout_ok order g \<Longrightarrow> hd order \<in> set order"
  by (auto simp: layout_ok_def split: list.splits)

lemma laid_out_links:
  assumes "laid_out kind host addr order m" and "layout_ok order g" and "n \<in> set (em_nodes (with_graph m g))" and "j \<in> set (ns_neighbors n)"
  obtains ns where "(ns_id n, ns) \<in> set g" "ns_neighbors n = ns" "j \<in> set order" "ns_type n = kind (ns_id n)" "ns_ip n = addr (host (ns_id n))"
    "\<And>b. em_by_id (with_graph m g) j = Some b \<Longrightarrow> ns_type b = kind j \<and> ns_ip b = addr (host j)"
proof -
  note ok = layout_graph [OF assms(2)]
  obtain a where a: "a \<in> set (em_nodes m)" "n = a\<lparr>ns_neighbors := dict_get g (ns_id a) []\<rparr>" using assms(3) by (auto simp: with_graph_def)
  have "ns_id a \<in> fst ` set g" using a(1) assms(1) ok(2) by (auto simp: laid_out_def em_ids_def)
  then have g: "(ns_id n, ns_neighbors n) \<in> set g" using dict_get_in [OF ok(1)] a(2) by simp
  have "j \<in> set order" using g assms(4) ok by (force simp: graph_ok_def)
  moreover have "ns_type b = kind j \<and> ns_ip b = addr (host j)" if "em_by_id (with_graph m g) j = Some b" for b
    using em_by_id_SomeD [OF that] assms(1) by (auto simp: with_graph_def laid_out_def)
  ultimately show ?thesis using that [OF g refl] a assms(1) by (auto simp: laid_out_def)
qed

lemma over_firmware_Nil:
  assumes "laid_out kind host addr order m" and "layout_ok order g" and "links_audible kind g"
  shows "over_firmware (with_graph m g) = []"
proof -
  have "ns_type n = BLE \<longrightarrow> length (ns_neighbors n) \<le> 4" if n: "n \<in> set (em_nodes (with_graph m g))" for n
  proof (cases "ns_neighbors n")
    case (Cons j js)
    then have "j \<in> set (ns_neighbors n)" by simp
    from laid_out_links [OF assms(1,2) n this] obtain ns where "(ns_id n, ns) \<in> set g" "ns_neighbors n = ns" "ns_type n = kind (ns_id n)"
      by metis
    then show ?thesis using assms(3) by (auto simp: links_audible_def list_all_iff)
  qed simp
  then show ?thesis by (auto simp: over_firmware_def filter_empty_conv N_MAX_NEIGHBORS_FIRMWARE_def not_less)
qed

lemma no_medium_links_Nil:
  assumes "laid_out kind host addr order m" and "layout_ok order g" and "links_audible kind g"
  shows "no_medium_links (with_graph m g) = []"
proof -
  have "AGENT_MEDIA (ns_type n) \<inter> AGENT_MEDIA (ns_type b) \<noteq> {}"
    if n: "n \<in> set (em_nodes (with_graph m g))" "j \<in> set (ns_neighbors n)" "em_by_id (with_graph m g) j = Some b" for n j b
  proof -
    obtain ns where "(ns_id n, ns) \<in> set g" "j \<in> set ns" "ns_type n = kind (ns_id n)" "ns_type b = kind j"
      using laid_out_links [OF assms(1,2) n(1,2)] n(2,3) by metis
    then show ?thesis using assms(3) by (auto simp: links_audible_def list_all_iff share_medium_iff)
  qed
  then show ?thesis by (auto simp: no_medium_links_def split: option.splits)
qed

lemma same_host_links_Nil:
  assumes "laid_out kind host addr order m" and "layout_ok order g" and "hosts_differ host g" and "inj_on addr (host ` set order)"
  shows "same_host_links (with_graph m g) = []"
proof -
  have "ns_ip b \<noteq> ns_ip n"
    if n: "n \<in> set (em_nodes (with_graph m g))" "j \<in> set (ns_neighbors n)" "em_by_id (with_graph m g) j = Some b" for n j b
  proof -
    obtain ns where l: "(ns_id n, ns) \<in> set g" "j \<in> set ns" "j \<in> set order" "ns_ip n = addr (host (ns_id n))" "ns_ip b = addr (host j)"
      using laid_out_links [OF assms(1,2) n(1,2)] n(2,3) by metis
    have "ns_id n \<in> set order" using l(1) layout_graph(2) [OF assms(2)] by force
    moreover have "host (ns_id n) \<noteq> host j" using assms(3) l(1,2) by (auto simp: hosts_differ_def list_all_iff)
    ultimately show ?thesis using assms(4) l by (auto dest: inj_onD)
  qed
  then show ?thesis by (auto simp: same_host_links_def split: option.splits)
qed

lemma degree_pos:
  "(y, x) \<in> set (g_edges g) \<or> (x, y) \<in> set (g_edges g) \<Longrightarrow> in_degree g x \<noteq> 0 \<or> out_degree g x \<noteq> 0"
  by (auto simp: in_degree_def out_degree_def filter_empty_conv)

lemma check_reference_pinned:
  assumes "gl_ok nx" and "em_coordination mf = Some c" and "map fst (crd_pinned c) = [p]" and "p \<in> set (em_ids mf)"
    and "\<forall>n \<in> set (em_nodes mf). ns_enabled n"
    and "\<forall>i \<in> set (em_ids mf). (p, i) \<in> (set (g_edges (build_graph mf False)))\<^sup>*"
  shows "fst (snd (snd (check_reference nx mf (build_graph mf False)))) = []"
proof -
  have e: "(case em_by_id mf p of Some n \<Rightarrow> \<not> ns_enabled n | None \<Rightarrow> False) = False"
    using assms(5) em_by_id_SomeD by (auto split: option.splits)
  have d: "gl_descendants nx (build_graph mf False) p = {v. (p, v) \<in> (set (g_edges (build_graph mf False)))\<^sup>+ \<and> v \<noteq> p}"
    using gl_ok_descendants [OF assms(1) build_graph_closed] assms(4) declared_nodes by blast
  have r: "filter (\<lambda>n. n \<notin> {p} \<union> gl_descendants nx (build_graph mf False) p) (g_nodes (build_graph mf False)) = []"
    unfolding filter_empty_conv d declared_nodes using assms(6) by (auto simp: rtrancl_eq_or_trancl)
  have s: "sorted_ids [p] = [p]" by (simp add: sorted_ids_def)
  show ?thesis using r assms(4) by (simp add: check_reference_def assms(2,3) s e)
qed

lemma laid_out_passes:
  assumes "gl_ok nx" and "laid_out kind host addr order m" and "layout_ok order g" and "links_audible kind g" and "pins_ok order m"
  shows "report_ok (check nx (with_graph m g) None)"
proof -
  let ?m = "with_graph m g"
  let ?g = "build_graph ?m False"
  note ok = layout_graph [OF assms(3)] and reach = layout_reach [OF assms(3)]
  have ids: "set (em_ids m) = set order" using assms(2) by (simp add: laid_out_def)
  have edges: "set (g_edges ?g) = reads g" using with_graph_edges [OF ok(1)] ok(2) ids by simp
  have nodes: "set (g_nodes ?g) = set order" by (simp only: declared_nodes em_ids_with_graph ids)
  have "(u, v) \<in> (undirected ?g)\<^sup>*" if "u \<in> set order" "v \<in> set order" for u v
  proof -
    have "(hd order, w) \<in> (undirected ?g)\<^sup>*" if "w \<in> set order" for w
      using reach(1) that unfolding undirected_def edges by (meson Un_upper1 in_rtrancl_UnI)
    moreover have "sym ((undirected ?g)\<^sup>*)" unfolding undirected_def by (intro sym_rtrancl symI) auto
    ultimately show ?thesis using that by (meson rtrancl_trans symD)
  qed
  moreover have ne: "g_nodes ?g \<noteq> []" using nodes hd_in [OF assms(3)] by (metis empty_iff empty_set)
  ultimately have weak: "gl_weak nx ?g" using gl_ok_connected(2) [OF assms(1) build_graph_closed ne] nodes by blast
  have iso: "filter (\<lambda>n. in_degree ?g n = 0 \<and> out_degree ?g n = 0) (g_nodes ?g) = []"
  proof -
    have "in_degree ?g x \<noteq> 0 \<or> out_degree ?g x \<noteq> 0" if "x \<in> set order" for x
      using bspec [OF reach(2) that] degree_pos unfolding edges [symmetric] by (elim exE) (rule degree_pos)
    then show ?thesis unfolding filter_empty_conv nodes by blast
  qed
  have refs: "fst (snd (snd (check_reference nx ?m ?g))) = []"
  proof (cases "em_coordination m")
    case None
    then show ?thesis by (simp add: check_reference_def with_graph_def)
  next
    case (Some c)
    have h: "hd order \<in> set (em_ids ?m)" unfolding em_ids_with_graph ids by (rule hd_in [OF assms(3)])
    show ?thesis
    proof (rule check_reference_pinned [OF assms(1), where c = c and p = "hd order"])
      show "\<forall>i \<in> set (em_ids ?m). (hd order, i) \<in> (set (g_edges ?g))\<^sup>*" unfolding edges using reach(1) ids by simp
      show "hd order \<in> set (em_ids ?m)" by (rule h)
    qed (use Some assms(5) in \<open>auto simp: pins_ok_def with_graph_def\<close>)
  qed
  show ?thesis
    using refs weak ne iso over_firmware_Nil [OF assms(2-4)] no_medium_links_Nil [OF assms(2-4)]
    by (simp add: report_ok_def check_def Let_def case_prod_unfold only_if_def)
qed

subsection \<open>Control laws and radio blocks are valid\<close>

lemma py_round_upto: "x \<le> of_int n \<Longrightarrow> py_round x \<le> n"
  using py_round_close [of x] by linarith

lemma py_round_from: "of_int n \<le> x \<Longrightarrow> n \<le> py_round x"
  using py_round_close [of x] by linarith

lemma round_to_close: "\<bar>round_to d x - x\<bar> \<le> 1 / (2 * 10 ^ d)"
proof -
  have "round_to d x - x = (of_int (py_round (x * 10 ^ d)) - x * 10 ^ d) / 10 ^ d" by (simp add: round_to_def field_simps)
  then have "\<bar>round_to d x - x\<bar> = \<bar>of_int (py_round (x * 10 ^ d)) - x * 10 ^ d\<bar> / 10 ^ d" by simp
  also have "\<dots> \<le> (1 / 2) / 10 ^ d" using py_round_close [of "x * 10 ^ d"] by (intro divide_right_mono) (auto simp: abs_minus_commute)
  finally show ?thesis by simp
qed

lemma round_to_bounds:
  assumes "of_int a \<le> x" and "x \<le> of_int b"
  shows "of_int a \<le> round_to d x" and "round_to d x \<le> of_int b"
proof -
  have "of_int (a * 10 ^ d) \<le> x * 10 ^ d" "x * 10 ^ d \<le> of_int (b * 10 ^ d)" using assms by (simp_all add: mult_right_mono)
  then have "a * 10 ^ d \<le> py_round (x * 10 ^ d)" "py_round (x * 10 ^ d) \<le> b * 10 ^ d"
    using py_round_from py_round_upto by blast+
  then have "real_of_int (a * 10 ^ d) \<le> of_int (py_round (x * 10 ^ d))" "of_int (py_round (x * 10 ^ d)) \<le> real_of_int (b * 10 ^ d)"
    by (simp_all only: of_int_le_iff)
  then show "of_int a \<le> round_to d x" "round_to d x \<le> of_int b" by (simp_all add: round_to_def field_simps)
qed

lemma round_to_whole: "round_to d (of_int n / 10 ^ d) = of_int n / 10 ^ d"
  by (simp add: round_to_def)

lemma disturbance_valid:
  assumes "300 / dt = of_int n" and "0 < n"
  shows "disturbance_spec_check (disturbance_for dt 300)"
proof -
  have "py_round (300 / dt) = n" using py_round_of_int [of n] assms(1) by simp
  then show ?thesis
    using assms(2) round_to_bounds(1) [of 0 "2 * (20 / 100) * NU_0" 1 8] round_to_bounds(1) [of 0 "SINE_FRACTION * NU_0" 1 8]
    by (simp add: disturbance_spec_check_def disturbance_for_def NU_0_def SINE_FRACTION_def)
qed

lemma laws_valid:
  "controller_spec_check CONTROLLER" "controller_spec_check CONTROLLER_FAST" "controller_spec_check CONTROLLER_40HZ"
  "controller_spec_check CONTROLLER_25HZ" "controller_spec_check CONTROLLER_50HZ"
  using disturbance_valid [of "2 / 10" 1500] disturbance_valid [of "4 / 100" 7500] disturbance_valid [of "25 / 1000" 12000]
    disturbance_valid [of "2 / 100" 15000]
  by (simp_all add: controller_spec_check_def CONTROLLER_def CONTROLLER_FAST_def CONTROLLER_40HZ_def CONTROLLER_25HZ_def
      CONTROLLER_50HZ_def law_block_def)

lemma default_radio_valid: "radio_spec_check DEFAULT_RADIO"
  by (simp add: DEFAULT_RADIO_def radio_block_def radio_spec_check_def in_range_def)

definition dither_width :: "real \<Rightarrow> real" where
  "dither_width pub = min ADV_DITHER_MS (max 0 (pub * 1000 / K_MIN - ADV_FLOOR_MS))"

lemma dithered_eq:
  assumes "0 < duty" and "duty \<le> 1"
  shows "radio_dithered pub duty =
    Inr (radio_block 100 (Some (100 + round_to 1 (dither_width pub))) 20 (round_to 4 (20 * duty)) (Some 12))"
proof -
  have "round_to 4 (20 * duty) \<le> 20" using round_to_bounds(2) [of 0 "20 * duty" 20 4] assms by simp
  moreover have "0 \<le> round_to 1 (dither_width pub)"
    using round_to_bounds(1) [of 0 "dither_width pub" 50 1] by (simp add: dither_width_def ADV_DITHER_MS_def)
  ultimately show ?thesis
    using assms by (simp add: radio_dithered_def radio_for_def or_else_def ADV_FLOOR_MS_def WIFI_TX_POWER_DBM_def dither_width_def Let_def)
qed

text \<open>The longest advertising interval against the publication period.\<close>

lemma dither_top:
  fixes pub :: real
  defines "hi \<equiv> ADV_FLOOR_MS + round_to 1 (dither_width pub)"
  shows "hi \<in> {ADV_FLOOR_MS .. ADV_FLOOR_MS + ADV_DITHER_MS}" and "pub * 1000 / K_MIN \<le> ADV_FLOOR_MS \<Longrightarrow> hi = ADV_FLOOR_MS"
    and "ADV_FLOOR_MS \<le> pub * 1000 / K_MIN \<Longrightarrow> hi \<le> pub * 1000 / K_MIN + 1 / 20"
    and "min (ADV_FLOOR_MS + ADV_DITHER_MS) (pub * 1000 / K_MIN) - 1 / 20 \<le> hi"
    and "ADV_FLOOR_MS + ADV_DITHER_MS \<le> pub * 1000 / K_MIN \<Longrightarrow> hi = ADV_FLOOR_MS + ADV_DITHER_MS"
proof -
  let ?w = "dither_width pub"
  have close: "round_to 1 ?w \<le> ?w + 1 / 20" "?w - 1 / 20 \<le> round_to 1 ?w"
    using round_to_close [of 1 ?w, unfolded power_one_right] by linarith+
  show "hi \<in> {ADV_FLOOR_MS .. ADV_FLOOR_MS + ADV_DITHER_MS}"
    using round_to_bounds [of 0 ?w 50 1] by (simp add: hi_def dither_width_def ADV_DITHER_MS_def)
  show "hi = ADV_FLOOR_MS" if "pub * 1000 / K_MIN \<le> ADV_FLOOR_MS"
    using that round_to_whole [of 1 0] by (simp add: hi_def dither_width_def ADV_DITHER_MS_def)
  show "hi \<le> pub * 1000 / K_MIN + 1 / 20" if "ADV_FLOOR_MS \<le> pub * 1000 / K_MIN"
    using that close(1) unfolding hi_def by (simp add: dither_width_def)
  show "min (ADV_FLOOR_MS + ADV_DITHER_MS) (pub * 1000 / K_MIN) - 1 / 20 \<le> hi"
    using close(2) unfolding hi_def by (auto simp: dither_width_def)
  show "hi = ADV_FLOOR_MS + ADV_DITHER_MS" if "ADV_FLOOR_MS + ADV_DITHER_MS \<le> pub * 1000 / K_MIN"
    using that round_to_whole [of 1 500] by (simp add: hi_def dither_width_def ADV_DITHER_MS_def)
qed

lemma dithered_duty: "\<bar>round_to 4 (20 * duty) / 20 - duty\<bar> \<le> 1 / 400000"
  using round_to_close [of 4 "20 * duty"] by (simp add: abs_le_iff field_simps)

lemma dithered_valid:
  assumes "duty \<le> 1" and "1 / 8 \<le> duty"
  shows "\<exists>r. radio_dithered pub duty = Inr r \<and> radio_spec_check r"
proof -
  have "25000 \<le> py_round (20 * duty * 10 ^ 4)" using assms(2) by (intro py_round_from) simp
  then have "real_of_int 25000 \<le> of_int (py_round (20 * duty * 10 ^ 4))" by (simp only: of_int_le_iff)
  then have "5 / 2 \<le> round_to 4 (20 * duty)" by (simp add: round_to_def field_simps)
  moreover have "round_to 4 (20 * duty) \<le> 20" using round_to_bounds(2) [of 0 "20 * duty" 20 4] assms by simp
  ultimately show ?thesis
    using dither_top(1) [of pub] assms dithered_eq [of duty pub]
    by (simp add: radio_spec_check_def radio_block_def in_range_def ADV_FLOOR_MS_def ADV_DITHER_MS_def)
qed

text \<open>C29: The dithered radio block is refused exactly for a duty outside (0, 1]. Otherwise it advertises from
  the 100 ms floor, and its longest interval is the widest that leaves the publication period the margin
  \<open>K_MIN\<close>, capped at 150 ms: it is within a twentieth of a millisecond of that value, never
  longer than it by more, and is the full 150 ms when the period affords it. A publication too fast for the
  margin (at 100 ms, say) gets the floor itself, and there the margin is not kept. The block scans the asked share
  of every 20 ms to 1 in 400000, and a duty of an eighth or more makes a block the manifest accepts.\<close>

theorem radio_dithered_margin:
  "if 0 < duty \<and> duty \<le> 1 then
     (\<exists>r hi. radio_dithered pub duty = Inr r \<and> rs_adv_interval_ms r = ADV_FLOOR_MS \<and> rs_adv_interval_max_ms r = Some hi \<and>
        hi \<in> {ADV_FLOOR_MS .. ADV_FLOOR_MS + ADV_DITHER_MS} \<and>
        (if pub * 1000 / K_MIN \<le> ADV_FLOOR_MS then hi = ADV_FLOOR_MS
         else if pub * 1000 / K_MIN < ADV_FLOOR_MS + ADV_DITHER_MS then \<bar>hi - pub * 1000 / K_MIN\<bar> \<le> 1 / 20
         else hi = ADV_FLOOR_MS + ADV_DITHER_MS) \<and>
        \<bar>scan_duty_cycle r - duty\<bar> \<le> 1 / 400000 \<and> (1 / 8 \<le> duty \<longrightarrow> radio_spec_check r))
   else radio_dithered pub duty = Inl ValueError"
proof (cases "0 < duty \<and> duty \<le> 1")
  case True
  then have eq: "radio_dithered pub duty =
      Inr (radio_block 100 (Some (100 + round_to 1 (dither_width pub))) 20 (round_to 4 (20 * duty)) (Some 12))"
    by (intro dithered_eq) simp_all
  have "radio_spec_check (radio_block 100 (Some (100 + round_to 1 (dither_width pub))) 20 (round_to 4 (20 * duty)) (Some 12))"
    if "1 / 8 \<le> duty" using dithered_valid [of duty pub] that True eq by auto
  moreover have "\<bar>100 + round_to 1 (dither_width pub) - pub * 1000 / K_MIN\<bar> \<le> 1 / 20"
    if "100 < pub * 1000 / K_MIN" "pub * 1000 / K_MIN < 150"
    using dither_top(3,4) [of pub, unfolded ADV_FLOOR_MS_def ADV_DITHER_MS_def] that by linarith
  ultimately show ?thesis
    using True eq dither_top(1,2,5) [of pub] dithered_duty [of duty]
    by (simp add: radio_block_def scan_duty_cycle_def ADV_FLOOR_MS_def ADV_DITHER_MS_def)
next
  case False
  then show ?thesis unfolding if_not_P [OF False] by (simp add: radio_dithered_def)
qed

subsection \<open>Agents on the lab's hosts\<close>

definition band_of :: "int \<Rightarrow> agent_type" where
  "band_of i = (if i \<le> 10 then BLE else if i \<le> 20 then WIFI else BRIDGE)"

definition host_of :: "int \<Rightarrow> nat" where
  "host_of i = nat ((i - 1) mod 10)"

definition lab_ids :: "nat \<Rightarrow> int list" where
  "lab_ids n = map (\<lambda>k. 1 + int k) [0..<n] @ map (\<lambda>k. 11 + int k) [0..<n] @ map (\<lambda>k. 21 + int k) [0..<n]"

definition lab_node :: "string list \<Rightarrow> real \<Rightarrow> int \<Rightarrow> node_spec" where
  "lab_node pool pub i = \<lparr>ns_id = i, ns_ip = pool ! host_of i, ns_type = band_of i, ns_enabled = True, ns_publish_period_s = pub,
     ns_neighbors = [], ns_plant = None\<rparr>"

definition hosts_ok :: "string list \<Rightarrow> bool" where
  "hosts_ok pool \<longleftrightarrow> distinct pool \<and> list_all valid_ipv4 pool"

lemma host_decade:
  assumes "i \<in> {1..30}"
  shows "i = 10 * (if i \<le> 10 then 0 else if i \<le> 20 then 1 else 2) + int (host_of i) + 1"
proof -
  have "(i - 1) div 10 = (if i \<le> 10 then 0 else if i \<le> 20 then 1 else 2)" using assms by auto
  then show ?thesis using mult_div_mod_eq [of 10 "i - 1"] by (simp add: host_of_def)
qed

lemma hosts_for_eq:
  assumes "n \<le> 10" and "n \<le> length pool"
  shows "hosts_for n pub pool = Inr (map (lab_node pool pub) (lab_ids n))"
proof -
  have h: "host_of (1 + int k) = k \<and> host_of (11 + int k) = k \<and> host_of (21 + int k) = k" if "k < n" for k
    using that assms(1) host_decade [of "1 + int k"] host_decade [of "11 + int k"] host_decade [of "21 + int k"] by simp
  define L where "L = map (lab_node pool pub) (lab_ids n)"
  have "concat (map (\<lambda>(kind, b). map (\<lambda>k.
             \<lparr>ns_id = b + int k, ns_ip = pool ! k, ns_type = kind, ns_enabled = True, ns_publish_period_s = pub,
              ns_neighbors = [], ns_plant = None\<rparr>) [0..<n]) BANDS) = L"
    using h assms(1) by (simp add: BANDS_def lab_ids_def lab_node_def band_of_def L_def)
  moreover have "sorted (map ns_id L)"
  proof -
    have "map ns_id L = lab_ids n" by (simp add: L_def lab_node_def comp_def)
    moreover have "sorted (map (\<lambda>k. b + int k) [0..<n])" for b by (auto simp: sorted_iff_nth_mono)
    ultimately show ?thesis using assms(1) by (auto simp: lab_ids_def sorted_append)
  qed
  then have "sort_key ns_id L = L" by (simp add: sort_key_id_if_sorted)
  ultimately show ?thesis using assms(2) by (simp add: hosts_for_def L_def)
qed

lemma host_below: "i \<in> set (lab_ids n) \<Longrightarrow> n \<le> 10 \<Longrightarrow> host_of i < n"
  using host_decade [of i] by (auto simp: lab_ids_def)

lemma host_band_inj:
  assumes "i \<in> {1..30}" and "j \<in> {1..30}" and "host_of i = host_of j" and "band_of i = band_of j"
  shows "i = j"
  using host_decade [OF assms(1)] host_decade [OF assms(2)] assms(3,4) by (simp add: band_of_def split: if_splits)

lemma lab_ids_range: "n \<le> 10 \<Longrightarrow> i \<in> set (lab_ids n) \<Longrightarrow> i \<in> {1..30}"
  by (auto simp: lab_ids_def)

lemma distinct_lab_ids: "n \<le> 10 \<Longrightarrow> distinct (lab_ids n)"
  by (auto simp: lab_ids_def distinct_map inj_on_def)

text \<open>Documents whose nodes are those of \<open>ids\<close> on the hosts of \<open>pool\<close>, without edges; \<open>en\<close> says which are enabled.\<close>

definition lab_doc :: "string list \<Rightarrow> real \<Rightarrow> (int \<Rightarrow> bool) \<Rightarrow> int list \<Rightarrow> string \<Rightarrow> controller_spec \<Rightarrow> radio_spec \<Rightarrow> manifest" where
  "lab_doc pool pub en ids name c r = doc name SEED c r (map (\<lambda>i. (lab_node pool pub i)\<lparr>ns_enabled := en i\<rparr>) ids)"

definition on_hosts :: "string list \<Rightarrow> int list \<Rightarrow> bool" where
  "on_hosts pool ids \<longleftrightarrow> hosts_ok pool \<and> distinct ids \<and> ids \<noteq> [] \<and> set ids \<subseteq> {1..30} \<and> (\<forall>i \<in> set ids. host_of i < length pool)"

lemma lab_doc_laid_out:
  assumes "on_hosts pool ids" and "set order = set ids" and "0 < pub" and "controller_spec_check c" and "radio_spec_check r"
    and "list_all event_check evs"
  shows "laid_out band_of host_of ((!) pool) order ((lab_doc pool pub en ids name c r)\<lparr>em_events := evs, em_structure := st\<rparr>)"
proof -
  let ?n = "\<lambda>i. (lab_node pool pub i)\<lparr>ns_enabled := en i\<rparr>"
  have ids: "distinct ids" "set ids \<subseteq> {1..30}" "\<forall>i \<in> set ids. host_of i < length pool" "distinct pool" "list_all valid_ipv4 pool" "ids \<noteq> []"
    using assms(1) by (simp_all add: on_hosts_def hosts_ok_def)
  have "node_spec_check (?n i)" if i: "i \<in> set ids" for i
  proof -
    have "valid_ipv4 (pool ! host_of i)" using ids(3,5) i by (simp add: list_all_length)
    moreover have "1 \<le> i" "i \<le> 255" using ids(2) i by auto
    ultimately show ?thesis using assms(3) by (simp add: node_spec_check_def lab_node_def no_self_loop_or_dupes_def MAX_NODE_ID_def)
  qed
  moreover have "inj_on (\<lambda>i. (pool ! host_of i, band_of i)) (set ids)"
  proof (rule inj_onI)
    fix i j assume a: "i \<in> set ids" "j \<in> set ids" "(pool ! host_of i, band_of i) = (pool ! host_of j, band_of j)"
    then have "host_of i = host_of j" using nth_eq_iff_index_eq [OF ids(4)] ids(3) by simp
    moreover have "i \<in> {1..30}" "j \<in> {1..30}" using a(1,2) ids(2) by auto
    ultimately show "i = j" using a(3) host_band_inj by simp
  qed
  then have "distinct (map (\<lambda>i. (pool ! host_of i, band_of i)) ids)" using ids(1) by (simp add: distinct_map)
  ultimately show ?thesis
    using ids assms(2,4-6)
    by (auto simp: laid_out_def lab_doc_def doc_def result_simps list_all_iff coherent_def em_ids_def comp_def lab_node_def)
qed

subsection \<open>The graphs of the campaign\<close>

text \<open>Everything a document's graph has to satisfy, by evaluation.\<close>

definition graph_runs :: "int list \<Rightarrow> digraph result \<Rightarrow> bool" where
  "graph_runs order r = (case r of Inl _ \<Rightarrow> False | Inr g \<Rightarrow> layout_ok order g \<and> links_audible band_of g \<and> hosts_differ host_of g)"

lemma graph_runsE:
  assumes "graph_runs order r"
  obtains g where "r = Inr g" "layout_ok order g" "links_audible band_of g" "hosts_differ host_of g"
  using assms by (auto simp: graph_runs_def split: sum.splits)

lemma campaign_graphs:
  "graph_runs N4_ORDER (ring None 1 False (Some N4_ORDER))"
  "graph_runs N6_ORDER (ring None 1 False (Some N6_ORDER))"
  "graph_runs N9_ORDER (ring None 1 False (Some N9_ORDER))"
  "graph_runs N18_ORDER (ring None 1 False (Some N18_ORDER))"
  by code_simp+

lemma dring_graph: "graph_runs BAND_ORDER (generate ''ring'' DRING)"
  by code_simp

lemma ring4_graph: "graph_runs BAND_ORDER (generate ''ring'' RING4)"
  by code_simp

lemma line_graph: "graph_runs BAND_ORDER (generate ''line'' (LineParams None True (Some BAND_ORDER)))"
  by code_simp

text \<open>The order in which the clustered graph is joined.\<close>

definition CLUSTER_ORDER :: "int list" where
  "CLUSTER_ORDER = [1..10] @ [21..30] @ [11..20]"

lemma cluster_graph: "layout_ok CLUSTER_ORDER CLUSTER_EDGES" "links_audible band_of CLUSTER_EDGES"
  by code_simp+

subsection \<open>Every document loads and passes\<close>

text \<open>A document of the name given that the loader accepts and the validator finds no error in; unless it
  changes during the run, none of its links joins two agents of one host.\<close>

definition sound :: "graph_lib \<Rightarrow> string \<Rightarrow> manifest result \<Rightarrow> bool" where
  "sound nx name r \<longleftrightarrow> (\<exists>m m'. r = Inr m \<and> em_name m = name \<and> load_manifest m = Inr m' \<and> report_ok (check nx m' None) \<and>
     (em_events m = [] \<longrightarrow> same_host_links m' = []))"

lemma with_graph_fields [simp]:
  "em_name (with_graph m g) = em_name m" "em_events (with_graph m g) = em_events m" "em_structure (with_graph m g) = em_structure m"
  by (simp_all add: with_graph_def)

lemma laid_out_check:
  assumes "laid_out kind host addr order m" and "layout_ok order g"
  shows "manifest_check (with_graph m g) = Inr (with_graph m g)"
  by (rule with_graph_checks) (use assms layout_graph [OF assms(2)] in \<open>auto simp: laid_out_def\<close>)

lemma declared_sound:
  assumes "gl_ok nx" and "laid_out kind host addr order m" and "em_structure m = None" and "layout_ok order g" and "links_audible kind g"
    and "pins_ok order m" and "em_events m = [] \<Longrightarrow> hosts_differ host g \<and> inj_on addr (host ` set order)"
  shows "sound nx (em_name m) (Inr (with_graph m g))"
  using laid_out_check [OF assms(2,4)] laid_out_passes [OF assms(1,2,4-6)] same_host_links_Nil [OF assms(2,4)] assms(3,7)
  by (simp add: sound_def load_manifest_def)

lemma structured_sound:
  assumes "gl_ok nx" and "laid_out kind host addr order m" and "em_structure m = Some s" and "generate (ss_generator s) (ss_params s) = Inr g"
    and "layout_ok order g" and "links_audible kind g" and "pins_ok order m"
    and "em_events m = [] \<Longrightarrow> hosts_differ host g \<and> inj_on addr (host ` set order)"
  shows "sound nx (em_name m) (Inr m)"
proof -
  have "load_manifest m = Inr (with_graph m g)"
    using assms(2-4) laid_out_check [OF assms(2,5)] layout_graph(2) [OF assms(5)]
    by (auto simp: load_manifest_def laid_out_def list_ex_iff with_graph_def)
  then show ?thesis using laid_out_passes [OF assms(1,2,5-7)] same_host_links_Nil [OF assms(2,5)] assms(8) by (simp add: sound_def)
qed

lemma give_edges_eq:
  assumes "\<forall>n \<in> set ns. ns_id n \<in> fst ` set e"
  shows "give_edges e ns = Inr (map (\<lambda>n. n\<lparr>ns_neighbors := dict_get e (ns_id n) []\<rparr>) ns)"
  unfolding give_edges_def
proof (rule traverse_all_Inr)
  fix n assume "n \<in> set ns"
  then have "map_of e (ns_id n) \<noteq> None" using assms by (simp add: map_of_eq_None_iff)
  then show "(case map_of e (ns_id n) of None \<Rightarrow> Inl KeyError | Some v \<Rightarrow> Inr (n\<lparr>ns_neighbors := v\<rparr>)) =
      Inr (n\<lparr>ns_neighbors := dict_get e (ns_id n) []\<rparr>)"
    by (auto simp: dict_get_def)
qed

lemma addr_inj: "on_hosts pool ids \<Longrightarrow> set order = set ids \<Longrightarrow> inj_on ((!) pool) (host_of ` set order)"
  by (auto simp: on_hosts_def hosts_ok_def inj_on_def nth_eq_iff_index_eq)

lemma lab_on_hosts:
  assumes "hosts_ok pool" and "n \<le> 10" and "0 < n" and "n \<le> length pool"
  shows "on_hosts pool (lab_ids n)"
proof -
  have "host_of i < length pool" if "i \<in> set (lab_ids n)" for i
    using host_below [OF that assms(2)] assms(4) by simp
  moreover have "lab_ids n \<noteq> []" using assms(3) by (simp add: lab_ids_def)
  ultimately show ?thesis using assms(1) distinct_lab_ids [OF assms(2)] lab_ids_range [OF assms(2)] unfolding on_hosts_def by blast
qed

lemma lab_doc_fields:
  "em_structure (lab_doc pool pub en ids name c r) = None" "em_events (lab_doc pool pub en ids name c r) = []"
  "em_name (lab_doc pool pub en ids name c r) = name" "em_coordination (lab_doc pool pub en ids name c r) = None"
  by (simp_all add: lab_doc_def doc_def)

lemma lab_doc_declared:
  assumes "gl_ok nx" and "on_hosts pool ids" and "graph_runs order gr" and "gr = Inr g" and "set order = set ids"
    and "0 < pub" and "controller_spec_check c" and "radio_spec_check r"
  shows "sound nx name (Inr (with_graph (lab_doc pool pub (\<lambda>_. True) ids name c r) g))"
proof -
  let ?m = "lab_doc pool pub (\<lambda>_. True) ids name c r"
  have l: "laid_out band_of host_of ((!) pool) order ?m"
    using lab_doc_laid_out [OF assms(2,5-8), where evs = "[]" and en = "\<lambda>_. True" and name = name and st = None]
    by (simp add: lab_doc_def doc_def)
  have "sound nx (em_name ?m) (Inr (with_graph ?m g))"
    by (rule declared_sound [OF assms(1) l])
      (use assms(3,4) addr_inj [OF assms(2,5)] in \<open>auto simp: graph_runs_def pins_ok_def lab_doc_fields\<close>)
  then show ?thesis by (simp add: lab_doc_fields)
qed

lemma ring_doc:
  assumes "n \<le> 10" and "n \<le> length pool" and "ring None 1 False (Some order) = Inr g" and "set (lab_ids n) \<subseteq> fst ` set g"
  shows "scalar_doc name c (Inr r) (ring_nodes n pool order pub) =
    Inr (with_graph (lab_doc pool (or_else 1 pub) (\<lambda>_. True) (lab_ids n) name c r) g)"
proof -
  have "ns_id (lab_node pool 1 i) \<in> fst ` set g" if "i \<in> set (lab_ids n)" for i using that assms(4) by (auto simp: lab_node_def)
  then have "give_edges g (map (lab_node pool 1) (lab_ids n)) =
      Inr (map (\<lambda>n. n\<lparr>ns_neighbors := dict_get g (ns_id n) []\<rparr>) (map (lab_node pool 1) (lab_ids n)))"
    by (intro give_edges_eq) auto
  then show ?thesis
    by (cases pub) (simp_all add: scalar_doc_def ring_nodes_def hosts_for_eq assms(1-3) with_graph_def lab_doc_def doc_def lab_node_def or_else_def)
qed

lemma ring_doc_sound:
  assumes "gl_ok nx" and "hosts_ok pool" and "n \<le> 10" and "0 < n" and "n \<le> length pool"
    and "graph_runs order (ring None 1 False (Some order))" and "set order = set (lab_ids n)"
    and "0 < or_else 1 pub" and "controller_spec_check c" and "radio_spec_check r"
  shows "sound nx name (scalar_doc name c (Inr r) (ring_nodes n pool order pub))"
proof -
  obtain g where g: "ring None 1 False (Some order) = Inr g" "layout_ok order g" using graph_runsE [OF assms(6)] .
  have "set (lab_ids n) \<subseteq> fst ` set g" using layout_graph(2) [OF g(2)] assms(7) by simp
  note eq = ring_doc [OF assms(3,5) g(1) this]
  show ?thesis unfolding eq by (rule lab_doc_declared [OF assms(1) lab_on_hosts [OF assms(2-5)] assms(6) g(1) assms(7-10)])
qed

lemma pool_parts:
  assumes "hosts_ok pool"
  shows "hosts_ok (take n pool)" "hosts_ok (first_run pool)" "hosts_ok (n6_pair pool)"
  using assms by (auto simp: hosts_ok_def first_run_def n6_pair_def list_all_iff dest: in_set_takeD in_set_dropD)

lemma pair_length: "2 \<le> length pool \<Longrightarrow> length (n6_pair pool) = 2"
  by (simp add: n6_pair_def)

lemma lab_orders:
  "set N6_ORDER = set (lab_ids 2)" "set N9_ORDER = set (lab_ids 3)" "set N18_ORDER = set (lab_ids 6)" "set BAND_ORDER = set (lab_ids 10)"
  "set CLUSTER_ORDER = set (lab_ids 10)"
  unfolding N6_ORDER_def N9_ORDER_def N18_ORDER_def lab_ids_def set_eq_subset by code_simp+

lemma fixed_radio:
  assumes "100 \<le> a" and "a \<le> 10240"
  shows "\<exists>r. radio_for p (Some a) None (Some 20) (Some 20) 1 = Inr r \<and> radio_spec_check r"
  using assms by (simp add: radio_for_def or_else_def ADV_FLOOR_MS_def radio_block_def radio_spec_check_def in_range_def WIFI_TX_POWER_DBM_def)

lemma floor_radio: "radio_for p None None None None 1 = Inr (radio_block 100 None 100 100 (Some 12))"
  using round_to_whole [of 4 1000000] by (simp add: radio_for_def or_else_def ADV_FLOOR_MS_def WIFI_TX_POWER_DBM_def)

lemma n4_sound:
  assumes "gl_ok nx" and "hosts_ok pool" and "2 \<le> length pool"
  shows "sound nx ''n4-noble'' (n4_noble pool)"
proof -
  let ?p = "n6_pair pool"
  have p: "hosts_ok ?p" "length ?p = 2" using pool_parts(3) [OF assms(2)] pair_length [OF assms(3)] by simp_all
  obtain r where r: "radio_dithered 1 1 = Inr r" "radio_spec_check r" using dithered_valid [of 1 1] by auto
  obtain g where g: "ring None 1 False (Some N4_ORDER) = Inr g" "layout_ok N4_ORDER g" using graph_runsE [OF campaign_graphs(1)] .
  have f: "filter (\<lambda>n. ns_type n \<noteq> BLE) (map (lab_node ?p 1) (lab_ids 2)) = map (lab_node ?p 1) N4_ORDER"
    by (simp add: lab_ids_def lab_node_def band_of_def N4_ORDER_def upt_rec)
  have "give_edges g (map (lab_node ?p 1) N4_ORDER) =
      Inr (map (\<lambda>n. n\<lparr>ns_neighbors := dict_get g (ns_id n) []\<rparr>) (map (lab_node ?p 1) N4_ORDER))"
    by (rule give_edges_eq) (use layout_graph(2) [OF g(2)] in \<open>simp add: lab_node_def\<close>)
  then have eq: "n4_noble pool = Inr (with_graph (lab_doc ?p 1 (\<lambda>_. True) N4_ORDER ''n4-noble'' CONTROLLER r) g)"
    using p by (simp add: n4_noble_def scalar_doc_def hosts_for_eq f g(1) r(1) with_graph_def lab_doc_def doc_def lab_node_def comp_def)
  have o: "on_hosts ?p N4_ORDER" using p by (simp add: on_hosts_def N4_ORDER_def host_of_def)
  show ?thesis unfolding eq by (rule lab_doc_declared [OF assms(1) o campaign_graphs(1) g(1) refl _ laws_valid(1) r(2)]) simp
qed

lemma generated_sound:
  assumes "gl_ok nx" and "hosts_ok pool" and "10 \<le> length pool" and "graph_runs BAND_ORDER (generate gen params)"
    and "0 < pub" and "controller_spec_check c" and "radio = Inr r" and "radio_spec_check r"
  shows "sound nx name (generated name c radio gen params pub pool)"
proof -
  let ?m = "(lab_doc pool pub (\<lambda>_. True) (lab_ids 10) name c r)\<lparr>em_events := [], em_structure := Some \<lparr>ss_generator = gen, ss_params = params\<rparr>\<rparr>"
  have o: "on_hosts pool (lab_ids 10)" by (rule lab_on_hosts [OF assms(2)]) (use assms(3) in simp_all)
  obtain g where g: "generate gen params = Inr g" "layout_ok BAND_ORDER g" "links_audible band_of g" "hosts_differ host_of g"
    using graph_runsE [OF assms(4)] .
  have l: "laid_out band_of host_of ((!) pool) BAND_ORDER ?m"
    by (rule lab_doc_laid_out [OF o lab_orders(4) assms(5,6,8)]) simp
  have e: "(lab_node pool pub i)\<lparr>ns_enabled := True\<rparr> = lab_node pool pub i" for i by (simp add: lab_node_def)
  have eq: "generated name c radio gen params pub pool = Inr ?m"
    using assms(3) by (simp add: generated_def scalar_doc_def hosts_for_eq assms(7) lab_doc_def doc_def e)
  have "sound nx (em_name ?m) (Inr ?m)"
    by (rule structured_sound [OF assms(1) l, where s = "\<lparr>ss_generator = gen, ss_params = params\<rparr>"])
      (use g addr_inj [OF o lab_orders(4)] in \<open>simp_all add: pins_ok_def lab_doc_fields del: generate.simps\<close>)
  then show ?thesis by (simp add: eq lab_doc_fields)
qed

lemma merge_event_valid: "event_check merge_event"
  by (simp add: event_check_def merge_event_def CLUSTER_MERGE_AT_S_def CLUSTER_DISABLED_def FROZEN_def)

lemma merging_doc:
  assumes "10 \<le> length pool" and "radio = Inr r"
  shows "merging name c radio pub pool =
    Inr (with_graph ((lab_doc pool pub (\<lambda>i. i \<notin> set CLUSTER_DISABLED) (lab_ids 10) name c r)\<lparr>em_events := [merge_event], em_structure := None\<rparr>) CLUSTER_EDGES)"
proof -
  have d: "fst ` set CLUSTER_EDGES = set (lab_ids 10)" using layout_graph(2) [OF cluster_graph(1)] lab_orders(5) by simp
  have "give_edges CLUSTER_EDGES (map (lab_node pool pub) (lab_ids 10)) =
      Inr (map (\<lambda>n. n\<lparr>ns_neighbors := dict_get CLUSTER_EDGES (ns_id n) []\<rparr>) (map (lab_node pool pub) (lab_ids 10)))"
    by (rule give_edges_eq) (auto simp: d lab_node_def)
  then show ?thesis
    using assms by (auto simp: merging_def scalar_doc_def clustered_def hosts_for_eq with_graph_def lab_doc_def doc_def lab_node_def)
qed

lemma merging_laid_out:
  assumes "hosts_ok pool" and "10 \<le> length pool" and "0 < pub" and "controller_spec_check c" and "radio_spec_check r"
  shows "laid_out band_of host_of ((!) pool) CLUSTER_ORDER
    ((lab_doc pool pub (\<lambda>i. i \<notin> set CLUSTER_DISABLED) (lab_ids 10) name c r)\<lparr>em_events := [merge_event], em_structure := None\<rparr>)"
proof -
  have "on_hosts pool (lab_ids 10)" by (rule lab_on_hosts [OF assms(1)]) (use assms(2) in simp_all)
  then show ?thesis by (rule lab_doc_laid_out [OF _ lab_orders(5) assms(3-5)]) (simp add: merge_event_valid)
qed

lemma merging_sound:
  assumes "gl_ok nx" and "hosts_ok pool" and "10 \<le> length pool" and "0 < pub" and "controller_spec_check c" and "radio = Inr r"
    and "radio_spec_check r"
  shows "sound nx name (merging name c radio pub pool)"
proof -
  let ?m = "(lab_doc pool pub (\<lambda>i. i \<notin> set CLUSTER_DISABLED) (lab_ids 10) name c r)\<lparr>em_events := [merge_event], em_structure := None\<rparr>"
  have "sound nx (em_name ?m) (Inr (with_graph ?m CLUSTER_EDGES))"
    by (rule declared_sound [OF assms(1) merging_laid_out [OF assms(2-5,7)]])
      (use cluster_graph in \<open>simp_all add: pins_ok_def lab_doc_fields\<close>)
  then show ?thesis by (simp add: merging_doc [OF assms(3,6)] lab_doc_fields)
qed

lemma small_sound:
  assumes "gl_ok nx" and "hosts_ok pool" and "2 \<le> length pool"
  shows "sound nx ''n6-fast'' (n6_fast pool)" "sound nx ''n6-50hz'' (n6_50hz pool)" "sound nx ''n6-ring'' (n6_ring pool)"
    "0 < p \<Longrightarrow> p * 1000 \<le> 10240 \<Longrightarrow> sound nx (''sweep-'' @ tag) (sweep tag p pool)"
proof -
  note ring6 = ring_doc_sound [OF assms(1) pool_parts(3) [OF assms(2)], of 2 N6_ORDER, OF _ _ _ campaign_graphs(2) lab_orders(1)]
  have len: "2 \<le> length (n6_pair pool)" using pair_length [OF assms(3)] by simp
  obtain r where r: "radio_dithered (1 / 10) 1 = Inr r" "radio_spec_check r" using dithered_valid [of 1 "1 / 10"] by auto
  show "sound nx ''n6-fast'' (n6_fast pool)" unfolding n6_fast_def
    by (rule ring6) (use len laws_valid default_radio_valid in \<open>simp_all add: or_else_def\<close>)
  show "sound nx ''n6-50hz'' (n6_50hz pool)" unfolding n6_50hz_def r(1)
    by (rule ring6) (use len laws_valid r(2) in \<open>simp_all add: or_else_def\<close>)
  show "sound nx ''n6-ring'' (n6_ring pool)" unfolding n6_ring_def
    by (rule ring6) (use len laws_valid default_radio_valid in \<open>simp_all add: or_else_def\<close>)
  show "sound nx (''sweep-'' @ tag) (sweep tag p pool)" if p: "0 < p" "p * 1000 \<le> 10240"
  proof -
    obtain r where r: "radio_for p (Some (max ADV_FLOOR_MS (p * 1000))) None (Some 20) (Some 20) 1 = Inr r" "radio_spec_check r"
      using fixed_radio [of "max ADV_FLOOR_MS (p * 1000)" p] p(2) by (auto simp: ADV_FLOOR_MS_def)
    show ?thesis unfolding sweep_def r(1)
      by (rule ring6) (use len laws_valid r(2) p(1) in \<open>simp_all add: or_else_def\<close>)
  qed
qed

lemma nine_sound:
  assumes "gl_ok nx" and "hosts_ok pool" and "3 \<le> length pool"
  shows "sound nx ''n9-ring'' (n9_ring pool)" "sound nx ''n9-50hz'' (n9_50hz pool)" "sound nx ''n9-jitter'' (n9_jitter pool)"
    "sound nx tag (n9_k2 tag dup pool)"
proof -
  note ring9 = ring_doc_sound [OF assms(1) pool_parts(2) [OF assms(2)], of 3 N9_ORDER, OF _ _ _ campaign_graphs(3) lab_orders(2)]
  have len: "3 \<le> length (first_run pool)" using assms(3) by (simp add: first_run_def)
  obtain r where r: "radio_dithered (1 / 10) 1 = Inr r" "radio_spec_check r" using dithered_valid [of 1 "1 / 10"] by auto
  show "sound nx ''n9-ring'' (n9_ring pool)" unfolding n9_ring_def
    by (rule ring9) (use len laws_valid default_radio_valid in \<open>simp_all add: or_else_def\<close>)
  show "sound nx ''n9-50hz'' (n9_50hz pool)" unfolding n9_50hz_def r(1)
    by (rule ring9) (use len laws_valid r(2) in \<open>simp_all add: or_else_def\<close>)
  show "sound nx ''n9-jitter'' (n9_jitter pool)" unfolding n9_jitter_def floor_radio bindR_Inr
    by (rule ring9) (use len laws_valid in \<open>simp_all add: or_else_def radio_block_def radio_spec_check_def in_range_def\<close>)
  show "sound nx tag (n9_k2 tag dup pool)" unfolding n9_k2_def floor_radio bindR_Inr
    by (rule ring9) (use len laws_valid in \<open>simp_all add: or_else_def radio_block_def radio_spec_check_def in_range_def\<close>)
qed

lemma eighteen_sound:
  assumes "gl_ok nx" and "hosts_ok pool" and "6 \<le> length pool"
  shows "sound nx ''n18-50hz'' (n18_50hz pool)" "sound nx ''n18-50hz-scan100'' (n18_scan100 pool)"
proof -
  note ring18 = ring_doc_sound [OF assms(1) pool_parts(1) [OF assms(2)], of 6 6 N18_ORDER, OF _ _ _ campaign_graphs(4) lab_orders(3)]
  obtain r where r: "radio_dithered (1 / 10) 1 = Inr r" "radio_spec_check r" using dithered_valid [of 1 "1 / 10"] by auto
  show "sound nx ''n18-50hz'' (n18_50hz pool)" unfolding n18_50hz_def r(1)
    by (rule ring18) (use assms(3) laws_valid r(2) in \<open>simp_all add: or_else_def\<close>)
  show "sound nx ''n18-50hz-scan100'' (n18_scan100 pool)" unfolding n18_scan100_def r(1)
    by (rule ring18) (use assms(3) laws_valid r(2) in \<open>simp_all add: or_else_def\<close>)
qed

subsection \<open>The benchmark's documents\<close>

lemma five: "[1..5 :: int] = [1, 2, 3, 4, 5]"
  by code_simp

lemma hd_five: "hd [1..5 :: int] = 1"
  by (simp add: five)

lemma dg_hosts_valid:
  "valid_ipv4 ''10.6.5.2''" "valid_ipv4 ''10.6.5.4''" "valid_ipv4 ''10.6.5.5''" "valid_ipv4 ''10.6.5.7''" "valid_ipv4 ''10.6.5.13''"
  by code_simp+

definition dg_host :: "int \<Rightarrow> string" where
  "dg_host i = dict_get DG5_MIXED_HOSTS i []"

definition dg2_host :: "int \<Rightarrow> string" where
  "dg2_host i = (if i = 1 then ''10.6.5.5'' else ''10.6.5.2'')"

definition dg_node :: "(int \<Rightarrow> string) \<Rightarrow> (int \<Rightarrow> agent_type) \<Rightarrow> int list \<Rightarrow> real \<Rightarrow> int \<Rightarrow> node_spec" where
  "dg_node host kind nb h_v i =
     \<lparr>ns_id = i, ns_ip = host i, ns_type = kind i, ns_enabled = True, ns_publish_period_s = h_v, ns_neighbors = nb,
      ns_plant = Some \<lparr>np_kappa = DG5_KAPPA i, np_S = DG5_S i, np_X0 = dict_get DG5_X0 i (0, 0), np_z0 = DG5_Z0 i\<rparr>\<rparr>"

definition dg_doc :: "string \<Rightarrow> int \<Rightarrow> string \<Rightarrow> (int \<times> real) list \<Rightarrow> radio_spec \<Rightarrow> node_spec list \<Rightarrow> structure_spec option \<Rightarrow> manifest" where
  "dg_doc name seed profile eps r nodes st =
     (doc name seed (dg_law profile (25 / 1000) (125 / 1000) eps) r nodes)\<lparr>em_coordination := Some dg_reference, em_structure := st\<rparr>"

lemma dg_laid_out:
  assumes "set ids \<subseteq> {1..5}" and "distinct ids" and "1 \<in> set ids" and "set order = set ids" and "radio_spec_check r"
    and "profile \<in> {''per'', ''rep''}" and "inj_on host (set ids)" and "\<forall>i \<in> set ids. valid_ipv4 (host i)" and "\<forall>(k, x) \<in> set eps. 0 \<le> x"
  shows "laid_out kind host (\<lambda>a. a) order (dg_doc name seed profile eps r (map (dg_node host kind [] (125 / 1000)) ids) st)"
proof -
  have r: "i \<in> {1, 2, 3, 4, 5}" if "i \<in> set ids" for i using assms(1) that by auto
  have "node_spec_check (dg_node host kind [] (125 / 1000) i)" if "i \<in> set ids" for i
    using r [OF that] assms(8) that
    by (auto simp: node_spec_check_def dg_node_def no_self_loop_or_dupes_def MAX_NODE_ID_def node_plant_check_def DG5_KAPPA_def)
  moreover have "inj_on (\<lambda>i. (host i, kind i)) (set ids)" using assms(7) by (auto simp: inj_on_def)
  then have "distinct (map (\<lambda>i. (host i, kind i)) ids)" using assms(2) by (simp add: distinct_map)
  moreover have "controller_spec_check (dg_law profile (25 / 1000) (125 / 1000) eps)"
    using assms(6,9) by (auto simp: controller_spec_check_def dg_law_def disturbance_spec_check_def microgrid_spec_check_def)
  moreover have "coordination_check dg_reference" by (simp add: coordination_check_def dg_reference_def)
  moreover have "ids \<noteq> []" using assms(3) by auto
  ultimately show ?thesis
    using assms(2,4,5)
    by (auto simp: laid_out_def dg_doc_def doc_def result_simps list_all_iff coherent_def em_ids_def comp_def dg_node_def)
qed

lemma dg_hosts:
  "inj_on dg_host (set [1..5])" "\<forall>i \<in> set [1..5]. valid_ipv4 (dg_host i)" "inj_on dg2_host (set [1, 2])" "\<forall>i \<in> set [1, 2]. valid_ipv4 (dg2_host i)"
  using dg_hosts_valid by (auto simp: five inj_on_def dg_host_def dg2_host_def DG5_MIXED_HOSTS_def dict_get_def)

lemma dg_doc_fields:
  "em_structure (dg_doc name seed profile eps r nodes st) = st" "em_events (dg_doc name seed profile eps r nodes st) = []"
  "em_name (dg_doc name seed profile eps r nodes st) = name" "em_coordination (dg_doc name seed profile eps r nodes st) = Some dg_reference"
  "em_nodes (dg_doc name seed profile eps r nodes st) = nodes"
  by (simp_all add: dg_doc_def doc_def)

lemma eps_valid:
  "\<exists>eps. dict_at DG5_EPS ''per'' = Inr eps \<and> (\<forall>(k, x) \<in> set eps. 0 \<le> x)"
  "\<exists>eps. dict_at DG5_EPS ''rep'' = Inr eps \<and> (\<forall>(k, x) \<in> set eps. 0 \<le> x)"
  by (simp_all add: dict_at_def DG5_EPS_def)

definition DG5_RING :: digraph where
  "DG5_RING = projr (ring None 1 False (Some [1..5]))"

definition topo_kind :: "string \<Rightarrow> int \<Rightarrow> agent_type" where
  "topo_kind topology i = dict_get (dict_get DG5_TOPOLOGIES topology []) i BRIDGE"

lemma dg5_ring:
  "ring None 1 False (Some [1..5]) = Inr DG5_RING" "layout_ok [1..5] DG5_RING" "hosts_differ dg_host DG5_RING"
  "links_audible (topo_kind ''mixed'') DG5_RING" "links_audible (topo_kind ''bridge5'') DG5_RING"
  by code_simp+

lemma dg_plant_eq:
  "i \<in> {1, 2, 3, 4, 5} \<Longrightarrow> dg_plant i = Inr \<lparr>np_kappa = DG5_KAPPA i, np_S = DG5_S i, np_X0 = dict_get DG5_X0 i (0, 0), np_z0 = DG5_Z0 i\<rparr>"
  by (auto simp: dg_plant_def dict_at_def DG5_X0_def dict_get_def)

lemma dg5_nodes:
  assumes "dict_at DG5_TOPOLOGIES topology = Inr types"
  shows "traverse (dg5_node types None h_v) [1..5] = Inr (map (dg_node dg_host (topo_kind topology) [] h_v) [1..5])"
proof (rule traverse_all_Inr)
  fix i :: int assume "i \<in> set [1..5]"
  then have i: "i \<in> {1, 2, 3, 4, 5}" by (simp add: five)
  have "dict_at types i = Inr (topo_kind topology i)" "dg5_host i = Inr (dg_host i)"
    using assms i by (auto simp: dict_at_def DG5_TOPOLOGIES_def topo_kind_def dict_get_def dg5_host_def dg_host_def DG5_MIXED_HOSTS_def five split: if_splits)
  then show "dg5_node types None h_v i = Inr (dg_node dg_host (topo_kind topology) [] h_v i)"
    by (simp add: dg5_node_def dg_plant_eq [OF i] dg_node_def)
qed

lemma dg5_sound:
  assumes "gl_ok nx" and "topology \<in> {''mixed'', ''bridge5''}" and "profile \<in> {''per'', ''rep''}"
  shows "sound nx (''dg5-'' @ topology @ profile_tag profile) (dg5 topology profile (25 / 1000) (125 / 1000) None)"
proof -
  obtain r where r: "radio_dithered (125 / 1000) 1 = Inr r" "radio_spec_check r" using dithered_valid [of 1 "125 / 1000"] by auto
  obtain eps where eps: "dict_at DG5_EPS profile = Inr eps" "\<forall>(k, x) \<in> set eps. 0 \<le> x" using eps_valid assms(3) by auto
  obtain types where types: "dict_at DG5_TOPOLOGIES topology = Inr types" using assms(2) by (auto simp: dict_at_def DG5_TOPOLOGIES_def)
  define st where "st = \<lparr>ss_generator = ''ring'', ss_params = RingParams None 1 False (Some [1..5])\<rparr>"
  let ?m = "dg_doc (''dg5-'' @ topology @ profile_tag profile) 20260929 profile eps r (map (dg_node dg_host (topo_kind topology) [] (125 / 1000)) [1..5]) (Some st)"
  have known: "raise_if (profile \<notin> fst ` set DG5_EPS) ValueError = Inr ()" using assms(3) by (auto simp: DG5_EPS_def)
  have eq: "dg5 topology profile (25 / 1000) (125 / 1000) None = Inr ?m"
    unfolding dg5_def dg_doc_def doc_def st_def types known bindR_Inr dg5_nodes [OF types] r(1) eps(1) by simp
  have l: "laid_out (topo_kind topology) dg_host (\<lambda>a. a) [1..5] ?m"
    by (rule dg_laid_out) (use r(2) assms(3) eps(2) dg_hosts in \<open>auto simp: five\<close>)
  have "generate ''ring'' (RingParams None 1 False (Some [1..5])) = Inr DG5_RING" by (simp add: dg5_ring(1) GENERATORS_def)
  then have "sound nx (em_name ?m) (Inr ?m)"
    by (intro structured_sound [OF assms(1) l, where s = st and g = DG5_RING])
      (use assms(2) dg5_ring in \<open>auto simp: dg_doc_fields st_def pins_ok_def dg_reference_def dg_node_def hd_five simp del: generate.simps\<close>)
  then show ?thesis unfolding eq dg_doc_fields .
qed

definition DG2_EDGE :: digraph where
  "DG2_EDGE = [(1, [2]), (2, [1])]"

lemma dg2_edge: "layout_ok [1, 2] DG2_EDGE" "hosts_differ dg2_host DG2_EDGE"
  by code_simp+

lemma dg2_nodes:
  "traverse (dg2_node wire h_v) DG2_NODES =
     Inr (map (\<lambda>i. (dg_node dg2_host (\<lambda>i. if wire \<or> i = 1 then BRIDGE else BLE) [] h_v i)\<lparr>ns_neighbors := dict_get DG2_EDGE i []\<rparr>) [1, 2])"
  by (simp add: dg2_node_def DG2_NODES_def dg_plant_eq dg_node_def dg2_host_def dict_get_def DG2_EDGE_def)

lemma dg2_eps_valid:
  assumes "profile \<in> {''per'', ''rep''}"
  shows "\<exists>eps. dg2_eps profile = Inr eps \<and> (\<forall>(k, x) \<in> set eps. 0 \<le> x)"
  using assms by (auto simp: dg2_eps_def DG2_NODES_def dict_at_def DG5_EPS_def)

lemma dg2_sound:
  assumes "gl_ok nx" and "profile \<in> {''per'', ''rep''}"
  shows "sound nx ((if wire then ''dg2-wire'' else ''dg2-air'') @ profile_tag profile) (dg2 wire profile (25 / 1000) (125 / 1000))"
proof -
  obtain r where r: "radio_dithered (125 / 1000) 1 = Inr r" "radio_spec_check r" using dithered_valid [of 1 "125 / 1000"] by auto
  obtain eps where eps: "dg2_eps profile = Inr eps" "\<forall>(k, x) \<in> set eps. 0 \<le> x" using dg2_eps_valid [OF assms(2)] by blast
  define kind where "kind = (\<lambda>i :: int. if wire \<or> i = 1 then BRIDGE else BLE)"
  define name where "name = (if wire then ''dg2-wire'' else ''dg2-air'') @ profile_tag profile"
  let ?m = "dg_doc name 20260930 profile eps r (map (dg_node dg2_host kind [] (125 / 1000)) [1, 2]) None"
  have eq: "dg2 wire profile (25 / 1000) (125 / 1000) = Inr (with_graph ?m DG2_EDGE)"
    unfolding dg2_def dg_doc_def doc_def r(1) eps(1) dg2_nodes name_def [symmetric] kind_def [symmetric]
    by (simp add: with_graph_def dg_node_def)
  have l: "laid_out kind dg2_host (\<lambda>a. a) [1, 2] ?m"
    by (rule dg_laid_out) (use r(2) assms(2) eps(2) dg_hosts in auto)
  have "links_audible kind DG2_EDGE" by (cases wire) (simp_all add: kind_def links_audible_def DG2_EDGE_def)
  then have "sound nx (em_name ?m) (Inr (with_graph ?m DG2_EDGE))"
    by (intro declared_sound [OF assms(1) l])
      (use dg2_edge in \<open>auto simp: dg_doc_fields pins_ok_def dg_reference_def dg_node_def\<close>)
  then show ?thesis unfolding eq dg_doc_fields name_def .
qed

subsection \<open>The whole set\<close>

lemma sound_name: "sound nx name r \<Longrightarrow> \<exists>m. r = Inr m \<and> em_name m = name \<and> sound nx (em_name m) (Inr m)"
  by (auto simp: sound_def)

lemma dithered_doc: "0 < duty \<Longrightarrow> duty \<le> 1 \<Longrightarrow> 1 / 8 \<le> duty \<Longrightarrow>
    (\<And>r. radio_dithered pub duty = Inr r \<Longrightarrow> radio_spec_check r \<Longrightarrow> P) \<Longrightarrow> P"
  using dithered_valid by blast

lemma three_graphs_sound:
  assumes "gl_ok nx" and "hosts_ok pool" and "10 \<le> length pool" and "0 < pub" and "controller_spec_check c" and "0 < duty" and "duty \<le> 1" and "1 / 8 \<le> duty"
  shows "list_all2 (sound nx) [''n30-dring-'' @ tag, ''n30-ring4-'' @ tag, ''n30-clusters-'' @ tag] (three_graphs tag c duty pub pool)"
proof (rule dithered_doc [OF assms(6-8), of pub])
  fix r assume r: "radio_dithered pub duty = Inr r" "radio_spec_check r"
  show ?thesis
    using generated_sound [OF assms(1-3) dring_graph assms(4,5) r] generated_sound [OF assms(1-3) ring4_graph assms(4,5) r]
      merging_sound [OF assms(1-5) r]
    by (simp add: three_graphs_def)
qed

lemma thirty_sound:
  assumes "gl_ok nx" and "hosts_ok pool" and "10 \<le> length pool"
  shows "list_all2 (sound nx) [''n30-clusters'', ''n30-ring-directed'', ''n30-ring4'', ''n30-line-directed''] (n30_static pool)"
    and "list_all2 (sound nx) [''n30-dring-50hz'', ''n30-ring4-50hz''] (n30_50hz pool)"
    and "sound nx ''n30-clusters-50hz'' (clusters_50hz pool)"
proof -
  show "list_all2 (sound nx) [''n30-clusters'', ''n30-ring-directed'', ''n30-ring4'', ''n30-line-directed''] (n30_static pool)"
    using merging_sound [OF assms _ laws_valid(1) refl default_radio_valid, of 1] generated_sound [OF assms _ _ laws_valid(1) refl default_radio_valid, of _ _ 1]
      dring_graph ring4_graph line_graph
    by (simp add: n30_static_def del: generate.simps)
  obtain r where r: "radio_dithered (1 / 10) 1 = Inr r" "radio_spec_check r" using dithered_valid [of 1 "1 / 10"] by auto
  show "list_all2 (sound nx) [''n30-dring-50hz'', ''n30-ring4-50hz''] (n30_50hz pool)"
    using generated_sound [OF assms _ _ laws_valid(5) r, of _ _ "1 / 10"] dring_graph ring4_graph
    by (simp add: n30_50hz_def r(1) del: generate.simps)
  show "sound nx ''n30-clusters-50hz'' (clusters_50hz pool)"
    unfolding clusters_50hz_def by (rule merging_sound [OF assms _ laws_valid(5) r]) simp
qed

text \<open>The names of the documents, in the order in which they are made.\<close>

definition document_names :: "string list \<Rightarrow> string list" where
  "document_names pool =
     [''dg2-air'', ''dg2-air-rep'', ''dg2-wire'', ''dg2-wire-rep''] @
     (if length pool \<ge> 5 then [''dg5-mixed'', ''dg5-mixed-rep'', ''dg5-bridge5'', ''dg5-bridge5-rep''] else []) @
     (if length pool < 2 then []
      else [''n4-noble'', ''n6-fast'', ''n6-50hz'', ''n6-ring''] @
        (if length pool \<ge> 3 then [''n9-ring'', ''n9-50hz'', ''n9-jitter'', ''n9-k2'', ''n9-k2-dupfilter''] else []) @
        [''sweep-p400'', ''sweep-p200'', ''sweep-p080'', ''sweep-p040''] @
        (if length pool \<ge> 6 then [''n18-50hz'', ''n18-50hz-scan100''] else []) @
        (if length pool < 10 then []
         else [''n30-clusters'', ''n30-ring-directed'', ''n30-ring4'', ''n30-line-directed'', ''n30-dring-50hz'', ''n30-ring4-50hz'',
               ''n30-dring-40hz'', ''n30-ring4-40hz'', ''n30-clusters-40hz'', ''n30-dring-40hz'', ''n30-ring4-40hz'', ''n30-clusters-40hz'',
               ''n30-dring-25hz'', ''n30-ring4-25hz'', ''n30-clusters-25hz'', ''n30-clusters-50hz'']))"

lemma dg_documents_sound:
  assumes "gl_ok nx"
  shows "list_all2 (sound nx) [''dg2-air'', ''dg2-air-rep'', ''dg2-wire'', ''dg2-wire-rep'']
      (concat (map (\<lambda>wire. map (\<lambda>prof. dg2 wire prof (25 / 1000) (125 / 1000)) (map fst DG5_EPS)) [False, True]))"
    and "list_all2 (sound nx) [''dg5-mixed'', ''dg5-mixed-rep'', ''dg5-bridge5'', ''dg5-bridge5-rep'']
      (concat (map (\<lambda>topo. map (\<lambda>prof. dg5 topo prof (25 / 1000) (125 / 1000) None) (map fst DG5_EPS)) (map fst DG5_TOPOLOGIES)))"
proof -
  have e: "map fst DG5_EPS = [''per'', ''rep'']" "map fst DG5_TOPOLOGIES = [''mixed'', ''bridge5'']"
    by (simp_all add: DG5_EPS_def DG5_TOPOLOGIES_def)
  show "list_all2 (sound nx) [''dg2-air'', ''dg2-air-rep'', ''dg2-wire'', ''dg2-wire-rep'']
      (concat (map (\<lambda>wire. map (\<lambda>prof. dg2 wire prof (25 / 1000) (125 / 1000)) (map fst DG5_EPS)) [False, True]))"
    using dg2_sound [OF assms, of "''per''" False] dg2_sound [OF assms, of "''rep''" False]
      dg2_sound [OF assms, of "''per''" True] dg2_sound [OF assms, of "''rep''" True]
    by (simp add: e profile_tag_def)
  show "list_all2 (sound nx) [''dg5-mixed'', ''dg5-mixed-rep'', ''dg5-bridge5'', ''dg5-bridge5-rep'']
      (concat (map (\<lambda>topo. map (\<lambda>prof. dg5 topo prof (25 / 1000) (125 / 1000) None) (map fst DG5_EPS)) (map fst DG5_TOPOLOGIES)))"
    using dg5_sound [OF assms, of "''mixed''" "''per''"] dg5_sound [OF assms, of "''mixed''" "''rep''"]
      dg5_sound [OF assms, of "''bridge5''" "''per''"] dg5_sound [OF assms, of "''bridge5''" "''rep''"]
    by (simp add: e profile_tag_def)
qed

lemma pair_documents_sound:
  assumes "gl_ok nx" and "hosts_ok pool" and "2 \<le> length pool"
  shows "list_all2 (sound nx) [''n4-noble'', ''n6-fast'', ''n6-50hz'', ''n6-ring''] [n4_noble pool, n6_fast pool, n6_50hz pool, n6_ring pool]"
    and "list_all2 (sound nx) [''sweep-p400'', ''sweep-p200'', ''sweep-p080'', ''sweep-p040'']
      (map (\<lambda>(tag, pub). sweep tag pub pool) [(''p400'', 400 / 1000), (''p200'', 200 / 1000), (''p080'', 80 / 1000), (''p040'', 40 / 1000)])"
  using n4_sound [OF assms] small_sound [OF assms] small_sound(4) [OF assms, of "400 / 1000" "''p400''"]
    small_sound(4) [OF assms, of "200 / 1000" "''p200''"] small_sound(4) [OF assms, of "80 / 1000" "''p080''"]
    small_sound(4) [OF assms, of "40 / 1000" "''p040''"]
  by simp_all

lemma documents_sound:
  assumes "gl_ok nx" and "hosts_ok pool"
  shows "list_all2 (sound nx) (document_names pool) (documents pool)"
proof -
  have nine: "list_all2 (sound nx) [''n9-ring'', ''n9-50hz'', ''n9-jitter'', ''n9-k2'', ''n9-k2-dupfilter'']
      [n9_ring pool, n9_50hz pool, n9_jitter pool, n9_k2 ''n9-k2'' False pool, n9_k2 ''n9-k2-dupfilter'' True pool]" if "3 \<le> length pool"
    using nine_sound [OF assms that] by simp
  have eighteen: "list_all2 (sound nx) [''n18-50hz'', ''n18-50hz-scan100''] [n18_50hz pool, n18_scan100 pool]" if "6 \<le> length pool"
    using eighteen_sound [OF assms that] by simp
  have thirty: "list_all2 (sound nx)
      ([''n30-clusters'', ''n30-ring-directed'', ''n30-ring4'', ''n30-line-directed''] @ [''n30-dring-50hz'', ''n30-ring4-50hz''] @
       [''n30-dring-40hz'', ''n30-ring4-40hz'', ''n30-clusters-40hz''] @
       ([''n30-dring-40hz'', ''n30-ring4-40hz'', ''n30-clusters-40hz''] @ [''n30-dring-25hz'', ''n30-ring4-25hz'', ''n30-clusters-25hz'']) @
       [''n30-clusters-50hz''])
      (n30_static pool @ n30_50hz pool @ n30_40hz pool @ campaign_documents pool @ [clusters_50hz pool])" if "10 \<le> length pool"
    unfolding n30_40hz_def campaign_documents_def
    using thirty_sound [OF assms that] three_graphs_sound [OF assms that _ laws_valid(3), of "125 / 1000" "90 / 100" "''40hz''"]
      three_graphs_sound [OF assms that _ laws_valid(3), of "125 / 1000" "95 / 100" "''40hz''"]
      three_graphs_sound [OF assms that _ laws_valid(4), of "2 / 10" "95 / 100" "''25hz''"]
    by (intro list_all2_appendI) simp_all
  show ?thesis
    unfolding documents_def document_names_def Let_def
    using dg_documents_sound [OF assms(1)] pair_documents_sound [OF assms] nine eighteen thirty
    by (intro list_all2_appendI) (auto simp: first_run_def intro!: list_all2_appendI)
qed

text \<open>A dict of sound documents, each under its own name.\<close>

definition dict_sound :: "graph_lib \<Rightarrow> (string \<times> manifest) list \<Rightarrow> bool" where
  "dict_sound nx d \<longleftrightarrow> distinct (map fst d) \<and> (\<forall>(n, m) \<in> set d. em_name m = n \<and> sound nx n (Inr m))"

lemma set_update_sub: "set (AList.update k v d) \<subseteq> insert (k, v) (set d)"
  by (induction d) auto

lemma put_document_sound:
  assumes "dict_sound nx d" and "sound nx (em_name m) (Inr m)"
  shows "dict_sound nx (put_document d m)" and "fst ` set (put_document d m) = insert (em_name m) (fst ` set d)"
proof -
  have "em_name x = n \<and> sound nx n (Inr x)" if "(n, x) \<in> set (put_document d m)" for n x
  proof -
    have "(n, x) = (em_name m, m) \<or> (n, x) \<in> set d" using that set_update_sub [of "em_name m" m d] by (auto simp: put_document_def)
    then show ?thesis using assms unfolding dict_sound_def by fastforce
  qed
  moreover have "distinct (map fst (put_document d m))" using assms(1) by (simp add: dict_sound_def put_document_def distinct_update)
  ultimately show "dict_sound nx (put_document d m)" unfolding dict_sound_def by auto
  show "fst ` set (put_document d m) = insert (em_name m) (fst ` set d)" by (simp add: put_document_def dom_update)
qed

lemma put_documents_sound:
  assumes "list_all (\<lambda>m. sound nx (em_name m) (Inr m)) ms" and "dict_sound nx d"
  shows "dict_sound nx (foldl put_document d ms) \<and> fst ` set (foldl put_document d ms) = fst ` set d \<union> em_name ` set ms"
  using assms by (induction ms arbitrary: d) (auto simp: put_document_sound)

lemma traverse_sound:
  "list_all2 (sound nx) ns rs \<Longrightarrow> \<exists>ms. traverse (\<lambda>m. m) rs = Inr ms \<and> map em_name ms = ns \<and> list_all (\<lambda>m. sound nx (em_name m) (Inr m)) ms"
proof (induction ns rs rule: list_all2_induct)
  case (Cons n ns r rs)
  then show ?case using sound_name [of nx n r] by auto
qed simp

lemma manifests_sound:
  assumes "gl_ok nx" and "hosts_ok pool"
  shows "\<exists>built. manifests pool = Inr built \<and> dict_sound nx built \<and> fst ` set built = set (document_names pool)"
proof -
  obtain ms where ms: "traverse (\<lambda>m. m) (documents pool) = Inr ms" "map em_name ms = document_names pool"
    "list_all (\<lambda>m. sound nx (em_name m) (Inr m)) ms"
    using traverse_sound [OF documents_sound [OF assms]] by blast
  have "dict_sound nx []" by (simp add: dict_sound_def)
  from put_documents_sound [OF ms(3) this] ms(1) ms(2) [symmetric] show ?thesis by (auto simp: manifests_def)
qed

subsection \<open>What the tool writes\<close>

lemma foldl_update_facts:
  "distinct (map fst w) \<Longrightarrow> distinct (map fst (foldl (\<lambda>w n. AList.update n (f n) w) w ns))"
  "fst ` set (foldl (\<lambda>w n. AList.update n (f n) w) w ns) = fst ` set w \<union> set ns"
  "(n, x) \<in> set (foldl (\<lambda>w n. AList.update n (f n) w) w ns) \<Longrightarrow> (n, x) \<in> set w \<or> n \<in> set ns \<and> x = f n"
proof -
  show "distinct (map fst w) \<Longrightarrow> distinct (map fst (foldl (\<lambda>w n. AList.update n (f n) w) w ns))"
    by (induction ns arbitrary: w) (simp_all add: distinct_update)
  show "fst ` set (foldl (\<lambda>w n. AList.update n (f n) w) w ns) = fst ` set w \<union> set ns"
    by (induction ns arbitrary: w) (auto simp: dom_update)
  show "(n, x) \<in> set (foldl (\<lambda>w n. AList.update n (f n) w) w ns) \<Longrightarrow> (n, x) \<in> set w \<or> n \<in> set ns \<and> x = f n"
  proof (induction ns arbitrary: w)
    case (Cons k ns)
    then have "(n, x) \<in> set (AList.update k (f k) w) \<or> n \<in> set ns \<and> x = f n" by simp
    then show ?case using set_update_sub [of k "f k" w] by auto
  qed simp
qed

text \<open>What is asked for: names that were built, each once, the test set in its own directory.\<close>

lemma wanted_facts:
  assumes "wanted campaign everything only built = Some w" and "distinct built"
  shows "distinct (map fst w)" and "fst ` set w \<subseteq> set built"
    and "\<not> everything \<Longrightarrow> only = [] \<Longrightarrow>
      fst ` set w = (set TEST_SET \<union> (if campaign then set CAMPAIGN_SET else {})) \<inter> set built \<and>
      (\<forall>n. (n, OUT) \<in> set w \<longrightarrow> campaign \<and> n \<in> set CAMPAIGN_SET)"
proof -
  define W where "W = map (\<lambda>n. (n, OUT_TEST)) (filter (\<lambda>n. n \<in> set built) TEST_SET)"
  define C where "C = filter (\<lambda>n. n \<in> set built) CAMPAIGN_SET"
  have "distinct TEST_SET" by (simp add: TEST_SET_def)
  then have W: "distinct (map fst W)" "fst ` set W = set TEST_SET \<inter> set built" "(n, OUT) \<notin> set W" for n
    by (auto simp: W_def comp_def image_image)
  have C: "set C = set CAMPAIGN_SET \<inter> set built" by (auto simp: C_def)
  note f = foldl_update_facts(1) [OF W(1), of "\<lambda>_. OUT" C] foldl_update_facts(2) [of "\<lambda>_. OUT" W C] foldl_update_facts(3) [of _ _ "\<lambda>_. OUT" W C]
  note g = foldl_update_facts(1) [of "[]" dir_of "comma_list only", simplified] foldl_update_facts(2) [of dir_of "[]" "comma_list only"]
  have out: "n \<in> set CAMPAIGN_SET" if "(n, OUT) \<in> set (foldl (\<lambda>w n. AList.update n OUT w) W C)" for n
    using f(3) [OF that] W(3) C by blast
  consider "only \<noteq> []" "set (comma_list only) \<subseteq> set built" "w = foldl (\<lambda>w n. AList.update n (dir_of n) w) [] (comma_list only)"
    | "only = []" "everything" "w = map (\<lambda>n. (n, dir_of n)) built"
    | "only = []" "\<not> everything" "w = (if campaign then foldl (\<lambda>w n. AList.update n OUT w) W C else W)"
    using assms(1) by (auto simp: wanted_def W_def [symmetric] C_def [symmetric] Let_def split: if_splits)
  note cases3 = this
  show "distinct (map fst w)" by (cases rule: cases3) (use f(1) g(1) W(1) assms(2) in \<open>simp_all add: comp_def\<close>)
  show "fst ` set w \<subseteq> set built" by (cases rule: cases3) (use f(2) g(2) W(2) C in \<open>auto simp: image_image\<close>)
  show "\<not> everything \<Longrightarrow> only = [] \<Longrightarrow>
      fst ` set w = (set TEST_SET \<union> (if campaign then set CAMPAIGN_SET else {})) \<inter> set built \<and>
      (\<forall>n. (n, OUT) \<in> set w \<longrightarrow> campaign \<and> n \<in> set CAMPAIGN_SET)"
    by (cases rule: cases3) (use f(2) W(2,3) C out in \<open>auto split: if_splits\<close>)
qed

text \<open>The warning about manifests that were not built with the hosts at hand can never be printed: what is
  not built is never asked for.\<close>

theorem missing_never:
  "wanted campaign everything only built = Some w \<Longrightarrow> distinct built \<Longrightarrow> missing_names w built = []"
  using wanted_facts(2) by (fastforce simp: missing_names_def filter_empty_conv)

lemma write_sound:
  assumes "dict_sound nx built" and "n \<in> fst ` set built"
  shows "\<exists>m. write_one nx built (n, d) = Inr (False, d, n, m) \<and> (n, m) \<in> set built"
proof -
  obtain m where m1: "(n, m) \<in> set built" using assms(2) by auto
  have m: "(n, m) \<in> set built" "map_of built n = Some m" using assms(1) m1 by (simp_all add: dict_sound_def)
  then have "sound nx n (Inr m)" using assms(1) by (auto simp: dict_sound_def)
  then show ?thesis using m by (auto simp: write_one_def dict_at_def sound_def)
qed

lemma traverse_write:
  assumes "dict_sound nx built" and "fst ` set w \<subseteq> fst ` set built"
  shows "\<exists>fs. traverse (write_one nx built) w = Inr fs \<and> map (\<lambda>f. (fst (snd (snd f)), fst (snd f))) fs = w \<and>
    (\<forall>f \<in> set fs. \<not> fst f \<and> (fst (snd (snd f)), snd (snd (snd f))) \<in> set built)"
  using assms(2)
proof (induction w)
  case (Cons x w)
  obtain n d where x: "x = (n, d)" by fastforce
  obtain fs where "traverse (write_one nx built) w = Inr fs" "map (\<lambda>f. (fst (snd (snd f)), fst (snd f))) fs = w"
    "\<forall>f \<in> set fs. \<not> fst f \<and> (fst (snd (snd f)), snd (snd (snd f))) \<in> set built" using Cons by auto
  moreover obtain m where "write_one nx built (n, d) = Inr (False, d, n, m)" "(n, m) \<in> set built"
    using write_sound [OF assms(1), of n d] Cons.prems by (auto simp: x)
  ultimately show ?case by (simp add: x)
qed simp

text \<open>C25: Whatever it is asked for, on any list of distinct valid addresses, the tool writes only manifests
  that the loader accepts and the validator finds no error in, and says so by its exit status; it fails
  only on an empty list of hosts or an unknown name. Every file is written once, under the name of its
  manifest. A run without options or with \<^verbatim>\<open>--campaign\<close> writes the test set, the latter the campaign set
  too, as far as the hosts allow, and only \<^verbatim>\<open>--campaign\<close> can put anything among the experiments.\<close>

theorem campaign_generated:
  assumes "gl_ok nx" and "hosts_ok (comma_list hosts)"
  defines "pool \<equiv> if hosts = [] then HOSTS else comma_list hosts"
  shows "\<exists>code files. make_manifests nx hosts campaign everything only = Inr (code, files) \<and>
    (code = 2 \<and> files = [] \<and> (pool = [] \<or> only \<noteq> [] \<and> \<not> set (comma_list only) \<subseteq> set (document_names pool)) \<or>
     code = 0 \<and> distinct (map (\<lambda>(d, n, m). n) files) \<and>
       (\<forall>(d, n, m) \<in> set files. em_name m = n \<and> n \<in> set (document_names pool) \<and> sound nx n (Inr m)) \<and>
       (\<not> everything \<and> only = [] \<longrightarrow>
         (\<lambda>(d, n, m). n) ` set files = (set TEST_SET \<union> (if campaign then set CAMPAIGN_SET else {})) \<inter> set (document_names pool) \<and>
         (\<forall>(d, n, m) \<in> set files. d = OUT \<longrightarrow> campaign \<and> n \<in> set CAMPAIGN_SET)))"
proof (cases "pool = []")
  case True
  then have "hosts \<noteq> []" "comma_list hosts = []" by (auto simp: pool_def HOSTS_def split: if_splits)
  then show ?thesis using True by (simp add: make_manifests_def)
next
  case False
  have ok: "hosts_ok pool"
  proof -
    have "hosts_ok HOSTS" by code_simp
    then show ?thesis using assms(2) by (simp add: pool_def)
  qed
  obtain built where built: "manifests pool = Inr built" "dict_sound nx built" "fst ` set built = set (document_names pool)"
    using manifests_sound [OF assms(1) ok] by blast
  have e: "make_manifests nx hosts campaign everything only =
     (case wanted campaign everything only (map fst built) of
        None \<Rightarrow> Inr (2, [])
      | Some w \<Rightarrow>
          bindR (traverse (write_one nx built) (sort_key (\<lambda>(n, _). map (of_char :: char \<Rightarrow> nat) n) w)) (\<lambda>fs.
            Inr (length (filter fst fs), map snd fs)))"
    using False built(1) by (auto simp: make_manifests_def pool_def)
  show ?thesis
  proof (cases "wanted campaign everything only (map fst built)")
    case None
    then have "only \<noteq> [] \<and> \<not> set (comma_list only) \<subseteq> set (document_names pool)"
      using built(3) by (auto simp: wanted_def Let_def split: if_splits)
    then show ?thesis by (simp add: e None)
  next
    case (Some w)
    define v where "v = sort_key (\<lambda>(n, _). map (of_char :: char \<Rightarrow> nat) n) w"
    note W = wanted_facts [OF Some, unfolded set_map built(3)]
    have d: "distinct (map fst built)" using built(2) by (simp add: dict_sound_def)
    have v: "set v = set w" "distinct (map fst v)" using W(1) [OF d] by (simp_all add: v_def distinct_map)
    obtain fs where fs: "traverse (write_one nx built) v = Inr fs" "map (\<lambda>f. (fst (snd (snd f)), fst (snd f))) fs = v"
      "\<forall>f \<in> set fs. \<not> fst f \<and> (fst (snd (snd f)), snd (snd (snd f))) \<in> set built"
      using traverse_write [OF built(2), of v] W(2) [OF d] v(1) built(3) by auto
    have code: "filter fst fs = []" using fs(3) by (simp add: filter_empty_conv)
    have names: "map (\<lambda>(d, n, m). n) (map snd fs) = map fst v" using fs(2) by (auto simp: comp_def case_prod_unfold)
    have dirs: "(n, d) \<in> set w" if mem: "(d, n, m) \<in> set (map snd fs)" for d n m
    proof -
      obtain f where "f \<in> set fs" "snd f = (d, n, m)" using mem by auto
      then have "(n, d) \<in> set (map (\<lambda>f. (fst (snd (snd f)), fst (snd f))) fs)" unfolding set_map by (intro image_eqI [of _ _ f]) simp_all
      then show ?thesis by (simp only: fs(2) v(1))
    qed
    have each: "em_name m = n \<and> n \<in> set (document_names pool) \<and> sound nx n (Inr m)" if mem: "(d, n, m) \<in> set (map snd fs)" for d n m
    proof -
      obtain f where "f \<in> set fs" "snd f = (d, n, m)" using mem by auto
      then have b: "(n, m) \<in> set built" using bspec [OF fs(3), of f] by simp
      then have "n \<in> fst ` set built" by (rule image_eqI [rotated]) simp
      then show ?thesis using b built(2,3) unfolding dict_sound_def by auto
    qed
    have only': "(\<lambda>(d, n, m). n) ` set (map snd fs) = fst ` set w" using names v(1) by (metis set_map)
    have made: "make_manifests nx hosts campaign everything only = Inr (0, map snd fs)"
      unfolding e Some option.case v_def [symmetric] fs(1) by (simp add: code)
    have once: "distinct (map (\<lambda>(d, n, m). n) (map snd fs))" unfolding names by (rule v(2))
    have good: "\<forall>(d, n, m) \<in> set (map snd fs). em_name m = n \<and> n \<in> set (document_names pool) \<and> sound nx n (Inr m)"
      using each by blast
    have plain: "(\<lambda>(d, n, m). n) ` set (map snd fs) = (set TEST_SET \<union> (if campaign then set CAMPAIGN_SET else {})) \<inter> set (document_names pool) \<and>
        (\<forall>(d, n, m) \<in> set (map snd fs). d = OUT \<longrightarrow> campaign \<and> n \<in> set CAMPAIGN_SET)" if a: "\<not> everything \<and> only = []"
    proof -
      note w = W(3) [OF d conjunct1 [OF a] conjunct2 [OF a]]
      have "campaign \<and> n \<in> set CAMPAIGN_SET" if "(OUT, n, m) \<in> set (map snd fs)" for n m
        using conjunct2 [OF w] dirs [OF that] by blast
      then show ?thesis using conjunct1 [OF w] only' by blast
    qed
    show ?thesis
      by (rule exI [of _ 0], rule exI [of _ "map snd fs"], rule conjI [OF made], rule disjI2, rule conjI [OF refl],
          rule conjI [OF once], rule conjI [OF good], rule impI, rule plain)
  qed
qed

subsection \<open>Paired documents\<close>

text \<open>Documents that are to be compared differ in what is compared: the duplicate-filter pair in that one
  field, the 30-agent rings of one rate in the generated graph.\<close>

theorem paired_documents:
  "n9_k2 ''n9-k2-dupfilter'' True pool =
     bindR (n9_k2 ''n9-k2'' False pool) (\<lambda>m. Inr (m\<lparr>em_name := ''n9-k2-dupfilter'', em_radio := (em_radio m)\<lparr>rs_filter_duplicates := True\<rparr>\<rparr>))"
  "generated name2 c radio ''ring'' RING4 pub pool =
     bindR (generated name1 c radio ''ring'' DRING pub pool) (\<lambda>m.
       Inr (m\<lparr>em_name := name2, em_structure := Some \<lparr>ss_generator = ''ring'', ss_params = RING4\<rparr>\<rparr>))"
  by (simp_all add: n9_k2_def generated_def scalar_doc_def doc_def bindR_def split: sum.splits)

text \<open>The two 18-agent documents, meant to differ in the scan duty, are the same but for the name; the
  jitter document, meant to differ from \<^verbatim>\<open>n9-50hz\<close> in the advertising range alone, differs in the scan
  interval and window too.\<close>

theorem confounded_pairs:
  "n18_scan100 pool = bindR (n18_50hz pool) (\<lambda>m. Inr (m\<lparr>em_name := ''n18-50hz-scan100''\<rparr>)) \<and>
   n9_jitter pool = bindR (n9_50hz pool) (\<lambda>m. Inr (m\<lparr>em_name := ''n9-jitter'', em_radio := (em_radio m)
     \<lparr>rs_adv_interval_max_ms := Some 120, rs_scan_interval_ms := 100, rs_scan_window_ms := 100\<rparr>\<rparr>))"
proof -
  obtain r where r: "radio_dithered (1 / 10) 1 = Inr r" "r = radio_block 100 (rs_adv_interval_max_ms r) 20 (rs_scan_window_ms r) (Some 12)"
    using dithered_eq [of 1 "1 / 10"] by (simp add: radio_block_def)
  have j: "(radio_block 100 None 100 100 (Some 12))\<lparr>rs_adv_interval_max_ms := Some 120\<rparr> =
      r\<lparr>rs_adv_interval_max_ms := Some 120, rs_scan_interval_ms := 100, rs_scan_window_ms := 100\<rparr>"
    by (subst r(2)) (simp add: radio_block_def)
  have "n18_scan100 pool = bindR (n18_50hz pool) (\<lambda>m. Inr (m\<lparr>em_name := ''n18-50hz-scan100''\<rparr>))"
    by (simp add: n18_scan100_def n18_50hz_def scalar_doc_def doc_def bindR_def split: sum.splits)
  moreover have "n9_jitter pool = bindR (n9_50hz pool) (\<lambda>m. Inr (m\<lparr>em_name := ''n9-jitter'', em_radio := (em_radio m)
     \<lparr>rs_adv_interval_max_ms := Some 120, rs_scan_interval_ms := 100, rs_scan_window_ms := 100\<rparr>\<rparr>))"
    unfolding n9_jitter_def n9_50hz_def scalar_doc_def floor_radio r(1) bindR_Inr j
    by (cases "ring_nodes 3 (first_run pool) N9_ORDER (Some (1 / 10))") (simp_all add: doc_def)
  ultimately show ?thesis ..
qed

text \<open>Every clustered document has links between agents of one host: those of the two cut-points, through
  which the clusters merge.\<close>

lemma same_host_mem:
  "(i, j) \<in> set (same_host_links mf) \<longleftrightarrow>
     (\<exists>n \<in> set (em_nodes mf). ns_id n = i \<and> j \<in> set (ns_neighbors n) \<and> (\<exists>b. em_by_id mf j = Some b \<and> ns_ip b = ns_ip n))"
proof -
  have one: "(i, j) \<in> set (case em_by_id mf k of None \<Rightarrow> [] | Some other \<Rightarrow> if ns_ip other = ns_ip n then [(ns_id n, k)] else []) \<longleftrightarrow>
      ns_id n = i \<and> k = j \<and> (\<exists>b. em_by_id mf j = Some b \<and> ns_ip b = ns_ip n)" for n k
    by (cases "em_by_id mf k") auto
  have "(i, j) \<in> set (same_host_links mf) \<longleftrightarrow> (\<exists>n \<in> set (em_nodes mf). \<exists>k \<in> set (ns_neighbors n).
      (i, j) \<in> set (case em_by_id mf k of None \<Rightarrow> [] | Some other \<Rightarrow> if ns_ip other = ns_ip n then [(ns_id n, k)] else []))"
    by (simp add: same_host_links_def)
  then show ?thesis unfolding one by auto
qed

lemma same_host_links_set:
  assumes "laid_out kind host addr order m" and "layout_ok order g" and "inj_on addr (host ` set order)"
  shows "set (same_host_links (with_graph m g)) = {(i, j). \<exists>ns. (i, ns) \<in> set g \<and> j \<in> set ns \<and> host i = host j}"
proof -
  note ok = layout_graph [OF assms(2)]
  have ids: "set (em_ids m) = set order" using assms(1) by (simp add: laid_out_def)
  have known: "\<exists>b. em_by_id (with_graph m g) j = Some b" if "j \<in> set order" for j
  proof -
    have "j \<in> set (em_ids (with_graph m g))" using that ids by simp
    then have "em_by_id (with_graph m g) j \<noteq> None" by (auto simp: em_by_id_def map_of_eq_None_iff em_ids_def image_iff)
    then show ?thesis by blast
  qed
  have same: "ns_ip b = ns_ip n \<longleftrightarrow> host (ns_id n) = host j"
    if n: "n \<in> set (em_nodes (with_graph m g))" "j \<in> set (ns_neighbors n)" "em_by_id (with_graph m g) j = Some b" for n j b
  proof -
    obtain ns where l: "(ns_id n, ns) \<in> set g" "j \<in> set order" "ns_ip n = addr (host (ns_id n))" "ns_ip b = addr (host j)"
      using laid_out_links [OF assms(1,2) n(1,2)] n(3) by metis
    have "ns_id n \<in> set order" using l(1) ok(2) by force
    then show ?thesis using assms(3) l by (auto dest: inj_onD)
  qed
  have "(i, j) \<in> set (same_host_links (with_graph m g)) \<longleftrightarrow> (\<exists>ns. (i, ns) \<in> set g \<and> j \<in> set ns \<and> host i = host j)" for i j
  proof
    assume "(i, j) \<in> set (same_host_links (with_graph m g))"
    then obtain n b where n: "n \<in> set (em_nodes (with_graph m g))" "ns_id n = i" "j \<in> set (ns_neighbors n)"
        "em_by_id (with_graph m g) j = Some b" "ns_ip b = ns_ip n"
      unfolding same_host_mem by blast
    moreover obtain ns where "(ns_id n, ns) \<in> set g" "ns_neighbors n = ns" using laid_out_links [OF assms(1,2) n(1,3)] by metis
    ultimately show "\<exists>ns. (i, ns) \<in> set g \<and> j \<in> set ns \<and> host i = host j" using same [OF n(1,3,4)] by auto
  next
    assume "\<exists>ns. (i, ns) \<in> set g \<and> j \<in> set ns \<and> host i = host j"
    then obtain ns where ns: "(i, ns) \<in> set g" "j \<in> set ns" "host i = host j" by blast
    have io: "i \<in> set order" "j \<in> set order" using ns(1,2) ok by (force simp: graph_ok_def)+
    have g: "dict_get g i [] = ns" by (rule dict_get_graph [OF ok(1) ns(1)])
    obtain n where n: "n \<in> set (em_nodes (with_graph m g))" "ns_id n = i" "ns_neighbors n = ns"
    proof -
      obtain a where "a \<in> set (em_nodes m)" "ns_id a = i" using io(1) ids unfolding em_ids_def set_map by (metis imageE)
      then show ?thesis using that [of "a\<lparr>ns_neighbors := ns\<rparr>"] g by (auto simp: with_graph_def)
    qed
    obtain b where b: "em_by_id (with_graph m g) j = Some b" using known [OF io(2)] by blast
    then have "ns_ip b = ns_ip n" using same [OF n(1) _ b] n ns by simp
    then show "(i, j) \<in> set (same_host_links (with_graph m g))" unfolding same_host_mem using b n ns(2) by blast
  qed
  then show ?thesis by auto
qed

theorem clusters_share_hosts:
  assumes "hosts_ok pool" and "10 \<le> length pool" and "0 < pub" and "controller_spec_check c" and "radio = Inr r" and "radio_spec_check r"
  shows "\<exists>m m'. merging name c radio pub pool = Inr m \<and> load_manifest m = Inr m' \<and>
    set (same_host_links m') = {(1, 21), (21, 1), (11, 21), (21, 11), (10, 30), (30, 10), (20, 30), (30, 20)}"
proof -
  let ?m = "(lab_doc pool pub (\<lambda>i. i \<notin> set CLUSTER_DISABLED) (lab_ids 10) name c r)\<lparr>em_events := [merge_event], em_structure := None\<rparr>"
  note l = merging_laid_out [OF assms(1-4,6), of name]
  have o: "on_hosts pool (lab_ids 10)" by (rule lab_on_hosts [OF assms(1)]) (use assms(2) in simp_all)
  have "set (concat (map (\<lambda>(i, ns). map (Pair i) (filter (\<lambda>j. host_of i = host_of j) ns)) CLUSTER_EDGES)) =
      set [(1, 21), (21, 1), (11, 21), (21, 11), (10, 30), (30, 10), (20, 30), (30, 20)]"
    unfolding set_eq_subset by code_simp
  moreover have "set (concat (map (\<lambda>(i, ns). map (Pair i) (filter (\<lambda>j. host_of i = host_of j) ns)) CLUSTER_EDGES)) =
      {(i, j). \<exists>ns. (i, ns) \<in> set CLUSTER_EDGES \<and> j \<in> set ns \<and> host_of i = host_of j}" by force
  ultimately have "set (same_host_links (with_graph ?m CLUSTER_EDGES)) =
      {(1, 21), (21, 1), (11, 21), (21, 11), (10, 30), (30, 10), (20, 30), (30, 20)}"
    using same_host_links_set [OF l cluster_graph(1) addr_inj [OF o lab_orders(5)]] by simp
  moreover have "load_manifest (with_graph ?m CLUSTER_EDGES) = Inr (with_graph ?m CLUSTER_EDGES)"
    using laid_out_check [OF l cluster_graph(1)] by (simp add: load_manifest_def)
  ultimately show ?thesis using merging_doc [OF assms(2,5)] by blast
qed

subsection \<open>Witnesses\<close>

lemma lab_sets: "set TEST_SET \<subseteq> set (document_names HOSTS)" "set CAMPAIGN_SET \<subseteq> set (document_names HOSTS)"
  by code_simp+

theorem campaign_generated_witness:
  "\<exists>files. make_manifests search_lib [] True False [] = Inr (0, files) \<and> (\<lambda>(d, n, m). n) ` set files = set TEST_SET \<union> set CAMPAIGN_SET"
proof -
  have "hosts_ok (comma_list [])" by code_simp
  from campaign_generated [OF search_lib_ok this, of True False "[]"] show ?thesis
    using lab_sets by (auto simp: HOSTS_def Int_absorb2)
qed

theorem radio_dithered_margin_witness:
  "\<exists>r hi. radio_dithered (125 / 1000) (90 / 100) = Inr r \<and> rs_adv_interval_max_ms r = Some hi \<and>
     1135 / 10 \<le> hi \<and> hi \<le> 1137 / 10 \<and> radio_spec_check r"
proof -
  have b: "ADV_FLOOR_MS < 125 / 1000 * 1000 / K_MIN" "125 / 1000 * 1000 / K_MIN < ADV_FLOOR_MS + ADV_DITHER_MS"
    "1136 / 10 \<le> 125 / 1000 * 1000 / K_MIN" "125 / 1000 * 1000 / K_MIN + 1 / 20 \<le> 1137 / 10"
    by (simp_all add: K_MIN_def ADV_FLOOR_MS_def ADV_DITHER_MS_def)
  obtain r hi where "radio_dithered (125 / 1000) (90 / 100) = Inr r" "rs_adv_interval_max_ms r = Some hi"
    "\<bar>hi - 125 / 1000 * 1000 / K_MIN\<bar> \<le> 1 / 20" "radio_spec_check r"
    using radio_dithered_margin [of "90 / 100" "125 / 1000"] b(1,2) by auto
  moreover from this(3) have "1135 / 10 \<le> hi \<and> hi \<le> 1137 / 10" using b(3,4) by linarith
  ultimately show ?thesis by blast
qed

theorem missing_never_witness: "\<exists>w. wanted False False [] [''n4-noble''] = Some w \<and> missing_names w [''n4-noble''] = []"
  using missing_never [of False False "[]" "[''n4-noble'']"] by (simp add: wanted_def)

theorem clusters_share_hosts_witness:
  "\<exists>m m'. merging ''n30-clusters'' CONTROLLER (Inr DEFAULT_RADIO) 1 HOSTS = Inr m \<and> load_manifest m = Inr m' \<and> (1, 21) \<in> set (same_host_links m')"
proof -
  have "hosts_ok HOSTS" "10 \<le> length HOSTS" by code_simp+
  from clusters_share_hosts [OF this _ laws_valid(1) refl default_radio_valid, of 1 "''n30-clusters''"] show ?thesis by auto
qed

end
