(* ===== verification/Metrics.thy ===== *)
theory Metrics
  imports RunLoad Effort
begin

section \<open>The benchmark's figures (tools/dg5_metrics.py)\<close>

text \<open>
  \<open>one_run\<close> computes the figures of one run from the columns of its nodes, in ascending order of id;
  \<open>bench_node\<close> is what it reads of a node: columns, the pin of the virtual layer with its reference, the
  neighbours of \<^verbatim>\<open>NodeRun\<close> and the applied command of \<open>Effort\<close>. A figure that can be NaN or infinite is a
  \<open>pyfloat\<close>. \<open>paired_interval\<close>, \<open>centre\<close>, \<open>summary_cell\<close> and the tables follow the reporting, up to the
  text of a cell. Columns of one node have one length.
\<close>

definition DELTA_X :: real where
  "DELTA_X = 45 / 100"

record bench_node =
  bn_columns :: columns
  bn_pin :: real
  bn_ref :: "real \<times> real"
  bn_neighbours :: "int list"
  bn_mu :: "(real \<times> real) list"

subsection \<open>numpy on lists\<close>

definition np_mean :: "real list \<Rightarrow> pyfloat" where
  "np_mean xs = (if xs = [] then NaN else Fin (sum_list xs / of_nat (length xs)))"

definition np_median :: "real list \<Rightarrow> pyfloat" where
  "np_median xs =
     (let s = sort xs; n = length xs in
      if n = 0 then NaN else if odd n then Fin (s ! (n div 2)) else Fin ((s ! (n div 2 - 1) + s ! (n div 2)) / 2))"

definition np_percentile :: "real \<Rightarrow> real list \<Rightarrow> real" where
  "np_percentile p xs =
     (let s = sort xs; v = p / 100 * of_nat (length xs - 1); k = nat \<lfloor>v\<rfloor>; hi = min (k + 1) (length xs - 1)
      in s ! k + (v - of_nat k) * (s ! hi - s ! k))"

text \<open>\<^verbatim>\<open>np.max(rows, 0)\<close> of rows of one length.\<close>

definition np_max_rows :: "real list list \<Rightarrow> real list result" where
  "np_max_rows rows = (case rows of [] \<Rightarrow> Inl ValueError | r # rs \<Rightarrow> Inr (foldl (\<lambda>a b. map2 max a b) r rs))"

definition np_max :: "real list \<Rightarrow> real result" where
  "np_max xs = (if xs = [] then Inl ValueError else Inr (Max (set xs)))"

definition np_diff :: "real list \<Rightarrow> real list" where
  "np_diff xs = map2 (\<lambda>a b. b - a) xs (tl xs)"

definition np_last :: "real list \<Rightarrow> real result" where
  "np_last xs = (if xs = [] then Inl IndexError else Inr (last xs))"

definition n1 :: "real \<times> real \<Rightarrow> real" where
  "n1 a = \<bar>fst a\<bar> + \<bar>snd a\<bar>"

definition sq2 :: "real \<times> real \<Rightarrow> real" where
  "sq2 a = fst a ^ 2 + snd a ^ 2"

text \<open>Python's \<^verbatim>\<open>max\<close> of two times, infinite or not.\<close>

fun later :: "pyfloat \<Rightarrow> pyfloat \<Rightarrow> pyfloat" where
  "later (Fin a) (Fin b) = Fin (max a b)"
| "later PInf b = PInf"
| "later a PInf = PInf"
| "later a b = a"

subsection \<open>One run\<close>

definition entrance :: "real list \<Rightarrow> real list \<Rightarrow> real \<Rightarrow> pyfloat result" where
  "entrance E t band =
     (let bad = filter (\<lambda>k. E ! k > band) [0..<length E] in
      if bad = [] then (if t = [] then Inl IndexError else Inr (Fin (hd t)))
      else Inr (if last bad + 1 \<ge> length t then PInf else Fin (t ! (last bad + 1))))"

definition bench_ref :: "(int \<times> bench_node) list \<Rightarrow> (real \<times> real) result" where
  "bench_ref nodes =
     (case rev (filter (\<lambda>(_, n). bn_pin n \<noteq> 0) nodes) of [] \<Rightarrow> Inl SystemExit | (_, n) # _ \<Rightarrow> Inr (bn_ref n))"

definition bench_length :: "(int \<times> bench_node) list \<Rightarrow> nat result" where
  "bench_length nodes =
     bindR (traverse (\<lambda>(_, n). col (bn_columns n) ''timestamp'') nodes) (\<lambda>ts.
       if ts = [] then Inl ValueError else Inr (Min (set (map length ts))))"

definition first_L :: "nat \<Rightarrow> bench_node \<Rightarrow> string \<Rightarrow> real list result" where
  "first_L L n k = bindR (col (bn_columns n) k) (\<lambda>xs. Inr (take L xs))"

definition stacked :: "nat \<Rightarrow> bench_node \<Rightarrow> string \<Rightarrow> string \<Rightarrow> (real \<times> real) list result" where
  "stacked L n a b =
     bindR (first_L L n a) (\<lambda>xs. bindR (first_L L n b) (\<lambda>ys.
       if length xs \<noteq> length ys then Inl ValueError else Inr (zip xs ys)))"

text \<open>Every node has the column.\<close>

definition has_column :: "(int \<times> bench_node) list \<Rightarrow> string \<Rightarrow> bool" where
  "has_column nodes k = list_all (\<lambda>(_, n). map_of (bn_columns n) k \<noteq> None) nodes"

definition pairwise :: "(real \<times> real) list list \<Rightarrow> real list list" where
  "pairwise xs =
     concat (map (\<lambda>i. map (\<lambda>j. map2 (\<lambda>a b. n1 (minus2 a b)) (xs ! i) (xs ! j)) [i + 1..<length xs]) [0..<length xs])"

record tracking =
  tr_Ez :: "real list"
  tr_Es :: "real list"
  tr_Ex :: "real list"
  tr_Ec :: "real list"

definition errors_of :: "real \<times> real \<Rightarrow> (real \<times> real) list list \<Rightarrow> (real \<times> real) list list \<Rightarrow> tracking result" where
  "errors_of ref xs zs =
     bindR (np_max_rows (map (map (\<lambda>z. n1 (minus2 z ref))) zs)) (\<lambda>Ez.
     bindR (np_max_rows (map2 (map2 (\<lambda>x z. n1 (minus2 x z))) xs zs)) (\<lambda>Es.
     bindR (np_max_rows (map (map (\<lambda>x. n1 (minus2 x ref))) xs)) (\<lambda>Ex.
     bindR (np_max_rows (pairwise xs)) (\<lambda>Ec.
       Inr \<lparr>tr_Ez = Ez, tr_Es = Es, tr_Ex = Ex, tr_Ec = Ec\<rparr>))))"

record effort_figures =
  ef_J :: real
  ef_pk :: real
  ef_TV :: real
  ef_J_tr :: real
  ef_J_ss :: real
  ef_frac :: pyfloat

definition split_node :: "real \<Rightarrow> real \<Rightarrow> bench_node \<Rightarrow> (real \<times> real) result" where
  "split_node h T_c n =
     bindR (col (bn_columns n) ''timestamp'') (\<lambda>t.
       let ti = take (length (bn_mu n)) t in
       if length ti \<noteq> length (bn_mu n) then Inl IndexError
       else Inr (h * sum_list (map (\<lambda>(s, m). sq2 m) (filter (\<lambda>(s, m). s < T_c) (zip ti (bn_mu n)))),
                 h * sum_list (map (\<lambda>(s, m). sq2 m) (filter (\<lambda>(s, m). \<not> s < T_c) (zip ti (bn_mu n))))))"

definition effort_of :: "real \<Rightarrow> real \<Rightarrow> (int \<times> bench_node) list \<Rightarrow> effort_figures result" where
  "effort_of h T_c nodes =
     bindR (traverse (\<lambda>(_, n). np_max (concat (map (\<lambda>m. [\<bar>fst m\<bar>, \<bar>snd m\<bar>]) (bn_mu n)))) nodes) (\<lambda>pks.
     bindR (np_max pks) (\<lambda>pk.
     bindR (traverse (\<lambda>(_, n). split_node h T_c n) nodes) (\<lambda>parts.
       let J = h * sum_list (map (\<lambda>(_, n). sum_list (map sq2 (bn_mu n))) nodes);
           J_ss = sum_list (map snd parts)
       in Inr \<lparr>ef_J = J, ef_pk = pk,
            ef_TV = sum_list (map (\<lambda>(_, n). sum_list (map2 (\<lambda>a b. n1 (minus2 b a)) (bn_mu n) (tl (bn_mu n)))) nodes),
            ef_J_tr = sum_list (map fst parts), ef_J_ss = J_ss, ef_frac = (if J = 0 then NaN else Fin (J_ss / J))\<rparr>)))"

record gain_figures =
  gf_key :: string
  gf_end :: pyfloat
  gf_max :: pyfloat
  gf_slope :: pyfloat

text \<open>The least-squares slope of one gain over the window; \<^verbatim>\<open>0 / 0\<close> is NaN.\<close>

definition slope_of :: "real list \<Rightarrow> real list \<Rightarrow> pyfloat" where
  "slope_of ts gs =
     (let mt = sum_list ts / of_nat (length ts); mg = sum_list gs / of_nat (length gs); tt = map (\<lambda>x. x - mt) ts in
      if sum_list (map (\<lambda>x. x ^ 2) tt) = 0 then NaN
      else Fin (sum_list (map2 (\<lambda>x g. x * (g - mg)) tt gs) / sum_list (map (\<lambda>x. x ^ 2) tt)))"

definition gains_of :: "nat \<Rightarrow> real list \<Rightarrow> real \<Rightarrow> (int \<times> bench_node) list \<Rightarrow> gain_figures result" where
  "gains_of L t T_c nodes =
     (let gk = (if has_column nodes ''vartheta'' then ''vartheta'' else ''S1'') in
      if \<not> has_column nodes gk then Inr \<lparr>gf_key = ''--'', gf_end = NaN, gf_max = NaN, gf_slope = NaN\<rparr>
      else
        bindR (traverse (\<lambda>(_, n). first_L L n gk) nodes) (\<lambda>gs.
        bindR (traverse np_last gs) (\<lambda>ends.
        bindR (traverse np_max gs) (\<lambda>tops.
        bindR (np_max tops) (\<lambda>top.
          let window = (\<lambda>g. map snd (filter (\<lambda>(s, _). s \<ge> T_c + 10) (zip t g)));
              slopes = map (\<lambda>g. slope_of (filter (\<lambda>s. s \<ge> T_c + 10) t) (window g)) gs
          in Inr \<lparr>gf_key = gk, gf_end = np_mean ends, gf_max = Fin top,
                  gf_slope = (if NaN \<in> set slopes then NaN else np_mean (map (\<lambda>s. case s of Fin x \<Rightarrow> x | _ \<Rightarrow> 0) slopes))\<rparr>)))))"

text \<open>A figure averaged over the nodes when every node has the column.\<close>

definition fleet_mean :: "(int \<times> bench_node) list \<Rightarrow> nat \<Rightarrow> string \<Rightarrow> (real list \<Rightarrow> real) \<Rightarrow> pyfloat result" where
  "fleet_mean nodes L src f =
     (if has_column nodes src then bindR (traverse (\<lambda>(_, n). first_L L n src) nodes) (\<lambda>cs. Inr (np_mean (map f cs))) else Inr NaN)"

definition span_of :: "nat \<Rightarrow> real \<Rightarrow> nat result" where
  "span_of L h =
     (if L < 2 then Inl ValueError else if h = 0 then Inl ZeroDivisionError else Inr (nat (max 1 (py_round (125 / 1000 / h)))))"

definition windows :: "nat \<Rightarrow> nat \<Rightarrow> bool list \<Rightarrow> bool list" where
  "windows L sp fr = map (\<lambda>w. list_ex (\<lambda>b. b) (take sp (drop (w * sp) fr))) [0..<L div sp]"

definition as_real :: "bool \<Rightarrow> real" where
  "as_real b = (if b then 1 else 0)"

text \<open>The index of the last fresh row up to each row, and the age of the information there.\<close>

fun ages :: "nat option \<Rightarrow> nat \<Rightarrow> bool list \<Rightarrow> nat list" where
  "ages seen k [] = []"
| "ages seen k (b # bs) =
     (let s = (if b then Some k else seen) in (case s of None \<Rightarrow> [] | Some m \<Rightarrow> [k - m]) @ ages s (k + 1) bs)"

definition link_rows :: "nat \<Rightarrow> (int \<times> bench_node) list \<Rightarrow> real list list result" where
  "link_rows L nodes =
     bindR (traverse (\<lambda>(_, n). traverse (\<lambda>j. first_L L n (''rx_'' @ str_int j)) (bn_neighbours n)) nodes) (\<lambda>ls. Inr (concat ls))"

text \<open>The mean of means: NaN as soon as one of them is.\<close>

definition mean_of_means :: "pyfloat list \<Rightarrow> pyfloat" where
  "mean_of_means ms = (if NaN \<in> set ms then NaN else np_mean (map (\<lambda>m. case m of Fin x \<Rightarrow> x | _ \<Rightarrow> 0) ms))"

definition link_aoi :: "real \<Rightarrow> real list \<Rightarrow> pyfloat" where
  "link_aoi h c = np_mean (map (\<lambda>a. of_nat a * h) (ages None 0 (map (\<lambda>x. x > 0) c)))"

definition link_rho :: "nat \<Rightarrow> nat \<Rightarrow> real list \<Rightarrow> pyfloat" where
  "link_rho L sp c = np_mean (map as_real (windows L sp (map (\<lambda>x. x > 0) c)))"

fun scale_float :: "real \<Rightarrow> pyfloat \<Rightarrow> pyfloat" where
  "scale_float k (Fin x) = Fin (k * x)"
| "scale_float k v = v"

text \<open>The share of windows in which every neighbour of a node delivered.\<close>

definition complete_share :: "nat \<Rightarrow> nat \<Rightarrow> bench_node \<Rightarrow> pyfloat result" where
  "complete_share L sp n =
     bindR (traverse (\<lambda>j. first_L L n (''rx_'' @ str_int j)) (bn_neighbours n)) (\<lambda>cs.
       Inr (np_mean (map (\<lambda>w. as_real (list_all (\<lambda>ws. ws ! w) (map (\<lambda>c. windows L sp (map (\<lambda>x. x \<noteq> 0) c)) cs))) [0..<L div sp])))"

fun least :: "pyfloat list \<Rightarrow> pyfloat" where
  "least [] = NaN"
| "least [v] = v"
| "least (Fin a # Fin b # vs) = least (Fin (min a b) # vs)"
| "least (v # w # vs) = least (v # vs)"

definition p_complete :: "nat \<Rightarrow> nat \<Rightarrow> (int \<times> bench_node) list \<Rightarrow> pyfloat result" where
  "p_complete L sp nodes =
     bindR (traverse (\<lambda>(_, n). complete_share L sp n) (filter (\<lambda>(_, n). bn_neighbours n \<noteq> []) nodes)) (\<lambda>cs. Inr (least cs))"

record steady_figures =
  sf_tband :: pyfloat
  sf_tconv :: pyfloat
  sf_t0 :: pyfloat
  sf_mse :: pyfloat
  sf_mse_med :: pyfloat
  sf_mse_avg :: pyfloat

definition agent_mse :: "real \<times> real \<Rightarrow> real list \<Rightarrow> real \<Rightarrow> (real \<times> real) list \<Rightarrow> real" where
  "agent_mse ref t t0 x =
     (let w = map snd (filter (\<lambda>(s, _). s \<ge> t0) (zip t x)) in sum_list (map (\<lambda>p. sq2 (minus2 p ref)) w) / of_nat (length w))"

definition no_window :: "pyfloat \<Rightarrow> pyfloat \<Rightarrow> pyfloat \<Rightarrow> steady_figures" where
  "no_window tband tconv t0 = \<lparr>sf_tband = tband, sf_tconv = tconv, sf_t0 = t0, sf_mse = NaN, sf_mse_med = NaN, sf_mse_avg = NaN\<rparr>"

text \<open>The mean squared errors over the window that opens at the later of the two times.\<close>

definition window_figures :: "real \<times> real \<Rightarrow> real list \<Rightarrow> (real \<times> real) list list \<Rightarrow> pyfloat \<Rightarrow> pyfloat \<Rightarrow> steady_figures" where
  "window_figures ref t xs tband tconv =
     (case later tband tconv of
        Fin s \<Rightarrow>
          if s \<ge> last t then no_window tband tconv (Fin s)
          else
            let per = map (agent_mse ref t s) xs in
            \<lparr>sf_tband = tband, sf_tconv = tconv, sf_t0 = Fin s, sf_mse = Fin (Max (set per)), sf_mse_med = np_median per,
             sf_mse_avg = np_mean per\<rparr>
      | t0 \<Rightarrow> no_window tband tconv t0)"

definition steady_of :: "real \<times> real \<Rightarrow> real list \<Rightarrow> (real \<times> real) list list \<Rightarrow> (real \<times> real) list list \<Rightarrow> steady_figures result" where
  "steady_of ref t xs zs =
     bindR (np_max_rows (pairwise zs)) (\<lambda>gap.
     bindR (entrance gap t DELTA_X) (\<lambda>tband.
     bindR (traverse (\<lambda>(x, z). entrance (map2 (\<lambda>a b. n1 (minus2 a b)) x z) t DELTA_X) (zip xs zs)) (\<lambda>tcs.
       case tcs of [] \<Rightarrow> Inl ValueError | tc # rest \<Rightarrow> Inr (window_figures ref t xs tband (foldl later tc rest)))))"

definition deadline_of :: "real option \<Rightarrow> real" where
  "deadline_of tc = (case tc of None \<Rightarrow> 40 | Some x \<Rightarrow> if x = 0 then 40 else x)"

definition step_of :: "real list \<Rightarrow> real" where
  "step_of t = (case np_median (np_diff t) of Fin h \<Rightarrow> h | _ \<Rightarrow> 0)"

text \<open>The states and the virtual states of every node over the first \<open>L\<close> rows.\<close>

definition series_of :: "nat \<Rightarrow> (int \<times> bench_node) list \<Rightarrow> ((real \<times> real) list list \<times> (real \<times> real) list list) result" where
  "series_of L nodes =
     bindR (traverse (\<lambda>(_, n). stacked L n ''state_P'' ''state_Q'') nodes) (\<lambda>xs.
     bindR (traverse (\<lambda>(_, n). stacked L n ''vstate_P'' ''vstate_Q'') nodes) (\<lambda>zs. Inr (xs, zs)))"

definition update_count :: "nat \<Rightarrow> (int \<times> bench_node) list \<Rightarrow> pyfloat result" where
  "update_count L nodes =
     (if has_column nodes ''updates'' then
        bindR (traverse (\<lambda>(_, n). bindR (first_L L n ''updates'') np_last) nodes) (\<lambda>us. Inr (Fin (sum_list us)))
      else Inr NaN)"

definition one_run :: "(int \<times> bench_node) list \<Rightarrow> real option \<Rightarrow> (string \<times> pyfloat) list result" where
  "one_run nodes tc =
     (case nodes of [] \<Rightarrow> Inl IndexError
      | (_, node1) # _ \<Rightarrow>
          bindR (bench_ref nodes) (\<lambda>ref. bindR (bench_length nodes) (\<lambda>L. bindR (first_L L node1 ''timestamp'') (\<lambda>t.
          bindR (series_of L nodes) (\<lambda>(xs, zs). bindR (errors_of ref xs zs) (\<lambda>tr.
          bindR (raise_if (L = 0) IndexError) (\<lambda>_. bindR (entrance (tr_Ex tr) t DELTA_X) (\<lambda>T.
          bindR (effort_of (step_of t) (deadline_of tc) nodes) (\<lambda>ef. bindR (gains_of L t (deadline_of tc) nodes) (\<lambda>gf.
          bindR (update_count L nodes) (\<lambda>ups.
          bindR (fleet_mean nodes L ''saturated'' (\<lambda>a. 100 * (sum_list a / of_nat (length a)))) (\<lambda>sat.
          bindR (fleet_mean nodes L ''cpu_us'' (\<lambda>a. case np_median a of Fin x \<Rightarrow> x | _ \<Rightarrow> 0)) (\<lambda>cpu.
          bindR (fleet_mean nodes L ''realized_h'' (\<lambda>a. 1000 * np_percentile 99 a)) (\<lambda>rh.
          bindR (span_of L (step_of t)) (\<lambda>sp. bindR (link_rows L nodes) (\<lambda>ls.
          bindR (steady_of ref t xs zs) (\<lambda>sf. bindR (p_complete L sp nodes) (\<lambda>pc.
            Inr [(''Ez_f'', Fin (last (tr_Ez tr))), (''Ez_m'', Fin (Max (set (tr_Ez tr)))),
                 (''Es_f'', Fin (last (tr_Es tr))), (''Es_m'', Fin (Max (set (tr_Es tr)))),
                 (''Ex_f'', Fin (last (tr_Ex tr))), (''Ex_m'', Fin (Max (set (tr_Ex tr)))), (''Ec_f'', Fin (last (tr_Ec tr))),
                 (''T'', T), (''T_c'', Fin (deadline_of tc)), (''J'', Fin (ef_J ef)), (''pk'', Fin (ef_pk ef)), (''TV'', Fin (ef_TV ef)),
                 (''J_tr'', Fin (ef_J_tr ef)), (''J_ss'', Fin (ef_J_ss ef)), (''J_ss_frac'', ef_frac ef),
                 (''g_end'', gf_end gf), (''g_max'', gf_max gf), (''slope'', gf_slope gf),
                 (''g_max_vth'', if gf_key gf = ''vartheta'' then gf_max gf else NaN), (''ups'', ups),
                 (''sat'', sat), (''cpu'', cpu), (''rh_p99'', rh),
                 (''aoi'', scale_float 1000 (mean_of_means (map (link_aoi (step_of t)) ls))),
                 (''rho'', mean_of_means (map (link_rho L sp) ls)),
                 (''tband'', sf_tband sf), (''tconv'', sf_tconv sf), (''t0'', sf_t0 sf),
                 (''mse'', sf_mse sf), (''mse_med'', sf_mse_med sf), (''mse_avg'', sf_mse_avg sf), (''pcomp'', pc)]))))))))))))))))))"

subsection \<open>Over the trials\<close>

fun finite_value :: "pyfloat \<Rightarrow> real option" where
  "finite_value (Fin x) = Some x"
| "finite_value NegZero = Some 0"
| "finite_value v = None"

definition finite_values :: "pyfloat list \<Rightarrow> real list" where
  "finite_values vs = map the (filter (\<lambda>v. v \<noteq> None) (map finite_value vs))"

text \<open>The table of the 97.5th percentile of Student's t.\<close>

definition t_quantile :: "nat \<Rightarrow> real" where
  "t_quantile n = dict_get [(2, 12706 / 1000), (3, 4303 / 1000), (4, 3182 / 1000), (5, 2776 / 1000), (6, 2571 / 1000), (7, 2447 / 1000),
     (8, 2365 / 1000), (9, 2306 / 1000), (10, 2262 / 1000)] n (196 / 100)"

definition std_error :: "real list \<Rightarrow> real \<Rightarrow> real" where
  "std_error d m = sqrt (sum_list (map (\<lambda>x. (x - m) ^ 2) d) / (of_nat (length d) - 1)) / sqrt (of_nat (length d))"

definition paired_interval :: "pyfloat list \<Rightarrow> real \<Rightarrow> pyfloat \<times> pyfloat \<times> pyfloat \<times> nat" where
  "paired_interval ds conf =
     (let d = finite_values ds; n = length d in
      if n < 2 then (np_mean d, NaN, NaN, n)
      else
        let m = sum_list d / of_nat n; e = t_quantile n * std_error d m in (Fin m, Fin (m - e), Fin (m + e), n))"

text \<open>\<^verbatim>\<open>np.mean\<close> of floats that may be infinite.\<close>

definition float_mean :: "pyfloat list \<Rightarrow> pyfloat" where
  "float_mean vs =
     (if NaN \<in> set vs \<or> PInf \<in> set vs \<and> MInf \<in> set vs then NaN
      else if PInf \<in> set vs then PInf else if MInf \<in> set vs then MInf else np_mean (finite_values vs))"

text \<open>\<^verbatim>\<open>np.median\<close> of floats without NaN that may be infinite.\<close>

definition float_sort :: "pyfloat list \<Rightarrow> pyfloat list" where
  "float_sort vs = filter (\<lambda>v. v = MInf) vs @ map Fin (sort (finite_values vs)) @ filter (\<lambda>v. v = PInf) vs"

definition float_median :: "pyfloat list \<Rightarrow> pyfloat" where
  "float_median vs =
     (let s = float_sort vs; n = length s in
      if n = 0 then NaN else if odd n then s ! (n div 2) else float_mean [s ! (n div 2 - 1), s ! (n div 2)])"

definition centre :: "bool \<Rightarrow> bool \<Rightarrow> pyfloat list \<Rightarrow> pyfloat \<times> (real \<times> real) option" where
  "centre mean_only no_iqr vs =
     (if mean_only then (float_mean vs, None)
      else let fin = finite_values vs in
        (float_median vs, if no_iqr \<or> fin = [] then None else Some (np_percentile 25 fin, np_percentile 75 fin)))"

datatype table_cell = Dash | Infinite | Shown real "(real \<times> real) option"

fun cell_of :: "pyfloat \<Rightarrow> (real \<times> real) option \<Rightarrow> table_cell" where
  "cell_of PInf iqr = Infinite"
| "cell_of (Fin x) iqr = Shown x iqr"
| "cell_of NegZero iqr = Shown 0 iqr"
| "cell_of v iqr = Dash"

type_synonym campaign_data = "(string \<times> (int \<times> (string \<times> pyfloat) list) list) list"

definition trial_values :: "(int \<times> (string \<times> pyfloat) list) list \<Rightarrow> int list \<Rightarrow> string \<Rightarrow> pyfloat list" where
  "trial_values runs trials key =
     map (\<lambda>t. dict_get (the (map_of runs t)) key NaN) (filter (\<lambda>t. map_of runs t \<noteq> None) trials)"

definition summary_cell :: "bool \<Rightarrow> bool \<Rightarrow> campaign_data \<Rightarrow> string \<Rightarrow> int list \<Rightarrow> string \<Rightarrow> table_cell" where
  "summary_cell mean_only no_iqr d arm trials key =
     (case map_of d arm of None \<Rightarrow> Dash
      | Some runs \<Rightarrow>
          (case filter (\<lambda>v. v \<noteq> NaN) (trial_values runs trials key) of
             [] \<Rightarrow> Dash
           | [v] \<Rightarrow> cell_of v None
           | vs \<Rightarrow> (let (mid, iqr) = centre mean_only no_iqr vs in cell_of mid iqr)))"

definition SUMMARY :: "string list" where
  "SUMMARY = [''T'', ''Ex_f'', ''mse'', ''mse_avg'', ''J'', ''J_tr'', ''J_ss'', ''TV'', ''pk'']"

text \<open>The rows of a summary: a row no arm could supply is left out.\<close>

definition summary_rows :: "bool \<Rightarrow> bool \<Rightarrow> campaign_data \<Rightarrow> string list \<Rightarrow> int list \<Rightarrow> string list \<Rightarrow> (string \<times> table_cell list) list" where
  "summary_rows mean_only no_iqr d arms trials keys =
     filter (\<lambda>(key, cells). list_ex (\<lambda>c. c \<noteq> Dash) cells)
       (map (\<lambda>key. (key, map (\<lambda>arm. summary_cell mean_only no_iqr d arm trials key) arms)) keys)"

fun float_minus :: "pyfloat \<Rightarrow> pyfloat \<Rightarrow> pyfloat" where
  "float_minus NaN w = NaN"
| "float_minus v NaN = NaN"
| "float_minus PInf PInf = NaN"
| "float_minus MInf MInf = NaN"
| "float_minus PInf w = PInf"
| "float_minus MInf w = MInf"
| "float_minus v PInf = MInf"
| "float_minus v MInf = PInf"
| "float_minus v w = Fin (the (finite_value v) - the (finite_value w))"

definition trial_differences :: "campaign_data \<Rightarrow> string \<Rightarrow> string \<Rightarrow> int list \<Rightarrow> string \<Rightarrow> pyfloat list" where
  "trial_differences d arm baseline trials key =
     (let a = dict_get d arm []; b = dict_get d baseline [] in
      map (\<lambda>t. float_minus (dict_get (the (map_of a t)) key NaN) (dict_get (the (map_of b t)) key NaN))
        (filter (\<lambda>t. map_of a t \<noteq> None \<and> map_of b t \<noteq> None) trials))"

text \<open>A row of the paired table: the mean difference, the interval, and whether it excludes zero.\<close>

definition paired_row :: "campaign_data \<Rightarrow> string \<Rightarrow> string \<Rightarrow> int list \<Rightarrow> string \<Rightarrow> (real \<times> (real \<times> real) option \<times> bool) option" where
  "paired_row d arm baseline trials key =
     (case paired_interval (trial_differences d arm baseline trials key) (95 / 100) of
        (Fin m, Fin lo, Fin hi, n) \<Rightarrow> Some (m, Some (lo, hi), \<not> (lo \<le> 0 \<and> 0 \<le> hi))
      | (Fin m, _) \<Rightarrow> Some (m, None, False)
      | _ \<Rightarrow> None)"

subsection \<open>The settling time is a persistent entrance\<close>

definition stays_within :: "real list \<Rightarrow> real list \<Rightarrow> real \<Rightarrow> real \<Rightarrow> bool" where
  "stays_within E t band s = list_all (\<lambda>(v, e). s \<le> v \<longrightarrow> e \<le> band) (zip t E)"

lemma stays_within_iff:
  "length E = length t \<Longrightarrow> stays_within E t band s \<longleftrightarrow> (\<forall>k<length t. s \<le> t ! k \<longrightarrow> E ! k \<le> band)"
  by (auto simp: stays_within_def list_all_iff in_set_zip)

lemma last_bad:
  assumes "bad = filter (\<lambda>k. E ! k > band) [0..<length E]" "bad \<noteq> []"
  shows "last bad < length E" "E ! last bad > band" "\<And>k. k < length E \<Longrightarrow> E ! k > band \<Longrightarrow> k \<le> last bad"
proof -
  have last: "last bad \<in> set bad" using assms(2) by simp
  then show "last bad < length E" "E ! last bad > band" using assms(1) by auto
  have sorted: "sorted bad" using assms(1) by (simp add: sorted_wrt_filter)
  fix k assume "k < length E" "E ! k > band"
  then have "k \<in> set bad" using assms(1) by simp
  then obtain j where "j < length bad" "bad ! j = k" by (auto simp: in_set_conv_nth)
  then show "k \<le> last bad" using sorted assms(2) by (auto simp: last_conv_nth intro!: sorted_nth_mono)
qed

lemma entrance_cases:
  assumes "length E = length t" "t \<noteq> []" "entrance E t band = Inr r"
  obtains (always) "\<And>k. k < length t \<Longrightarrow> E ! k \<le> band" "r = Fin (hd t)"
    | (never) "band < last E" "r = PInf"
    | (enters) K where "K + 1 < length t" "E ! K > band" "\<And>k. k < length t \<Longrightarrow> K < k \<Longrightarrow> E ! k \<le> band" "r = Fin (t ! (K + 1))"
proof -
  define bad where "bad = filter (\<lambda>k. E ! k > band) [0..<length E]"
  have r: "r = (if bad = [] then Fin (hd t) else if last bad + 1 \<ge> length t then PInf else Fin (t ! (last bad + 1)))"
    using assms(2,3) by (auto simp: entrance_def Let_def bad_def split: if_splits)
  show thesis
  proof (cases "bad = []")
    case True
    then have "\<And>k. k < length t \<Longrightarrow> E ! k \<le> band" using assms(1) by (auto simp: bad_def filter_empty_conv not_less)
    then show thesis using always r True by simp
  next
    case False
    note b = last_bad [OF bad_def False]
    show thesis
    proof (cases "last bad + 1 \<ge> length t")
      case True
      then have "last bad = length E - 1" using b(1) assms(1) by simp
      moreover have "E \<noteq> []" using b(1) by auto
      ultimately have "band < last E" using b(2) by (simp add: last_conv_nth)
      then show thesis using never r True False by simp
    next
      case inside: False
      have "\<And>k. k < length t \<Longrightarrow> last bad < k \<Longrightarrow> E ! k \<le> band" using b(3) assms(1) by (metis not_less)
      moreover have "last bad + 1 < length t" using inside by simp
      moreover have "r = Fin (t ! (last bad + 1))" using r False inside by simp
      ultimately show thesis using enters b(2) by blast
    qed
  qed
qed

lemma least_stay:
  assumes "length E = length t" "sorted_wrt (<) t" "K + 1 < length t" "E ! K > band"
    and "\<And>k. k < length t \<Longrightarrow> K < k \<Longrightarrow> E ! k \<le> band"
  shows "stays_within E t band (t ! (K + 1))" "s \<in> set t \<Longrightarrow> stays_within E t band s \<Longrightarrow> t ! (K + 1) \<le> s"
proof -
  have less: "i < j \<Longrightarrow> j < length t \<Longrightarrow> t ! i < t ! j" for i j using assms(2) by (simp add: sorted_wrt_nth_less)
  have "E ! k \<le> band" if "k < length t" "t ! (K + 1) \<le> t ! k" for k
  proof (rule assms(5) [OF that(1)], rule ccontr)
    assume "\<not> K < k"
    then show False using less [of k "K + 1"] that(2) assms(3) by simp
  qed
  then show "stays_within E t band (t ! (K + 1))" using assms(1) by (simp add: stays_within_iff)
  assume "s \<in> set t" and st: "stays_within E t band s"
  then obtain j where j: "j < length t" "s = t ! j" by (auto simp: in_set_conv_nth)
  have "t ! j \<le> t ! K \<longrightarrow> E ! K \<le> band"
    using st [unfolded stays_within_iff [OF assms(1)], rule_format, of K] assms(3) j(2) by simp
  then have "\<not> t ! j \<le> t ! K" using assms(4) by simp
  then have "K < j" using less [of j K] assms(3) by (metis add_lessD1 linorder_neqE_nat less_imp_le order_refl)
  then show "t ! (K + 1) \<le> s" using less [of "K + 1" j] j by (cases "K + 1 = j") auto
qed

text \<open>C28: A settling time is the least time of the run from which the error never leaves the band again, and it is
  infinite exactly when the run ends outside the band.\<close>

theorem entrance_persistent:
  assumes "sorted_wrt (<) t" "length E = length t" "t \<noteq> []" "entrance E t band = Inr r"
  shows "(r = PInf \<longleftrightarrow> band < last E) \<and>
         (\<forall>s. r = Fin s \<longrightarrow> s \<in> set t \<and> stays_within E t band s \<and> (\<forall>s'\<in>set t. stays_within E t band s' \<longrightarrow> s \<le> s'))"
  using assms(2-4)
proof (cases rule: entrance_cases)
  case always
  have "E \<noteq> []" using assms(2,3) by auto
  then have "\<not> band < last E" using always(1) [of "length E - 1"] assms(2,3) by (simp add: last_conv_nth not_less)
  moreover have "hd t \<le> s" if "s \<in> set t" for s using assms(1) that by (cases t) (auto intro: less_imp_le)
  ultimately show ?thesis using always assms(2,3) by (simp add: stays_within_iff)
next
  case never
  then show ?thesis by simp
next
  case (enters K)
  have "E \<noteq> []" using assms(2,3) by auto
  then have "\<not> band < last E" using enters(3) [of "length E - 1"] enters(1) assms(2) by (simp add: last_conv_nth not_less)
  then show ?thesis using least_stay [OF assms(2,1) enters(1-3)] enters(1,4) by simp
qed

lemma entrance_persistent_witness:
  "entrance [3, 1, 2, 1 / 2] [10, 11, 12, 13] 1 = Inr (Fin 13) \<and> stays_within [3, 1, 2, 1 / 2] [10, 11, 12, 13] 1 13 \<and>
   entrance [3, 1 / 2, 1 / 2, 2] [10, 11, 12, 13] 1 = Inr PInf"
proof -
  have e: "entrance [3, 1, 2, 1 / 2] [10, 11, 12, 13] 1 = Inr (Fin 13)"
    "entrance [3, 1 / 2, 1 / 2, 2] [10, 11, 12, 13] 1 = Inr PInf" by (simp_all add: entrance_def upt_rec)
  then show ?thesis using entrance_persistent [of "[10, 11, 12, 13]" "[3, 1, 2, 1 / 2]" 1 "Fin 13"] by simp
qed

subsection \<open>The effort before and after the deadline\<close>

lemma sum_list_split: "sum_list (map f (filter P xs)) + sum_list (map f (filter (\<lambda>x. \<not> P x) xs)) = sum_list (map f xs)"
  for f :: "'a \<Rightarrow> real"
  by (induction xs) (auto simp: algebra_simps)

lemma traverse_sum:
  assumes "traverse f xs = Inr ys" "\<And>x y. x \<in> set xs \<Longrightarrow> f x = Inr y \<Longrightarrow> g y = h x"
  shows "sum_list (map g ys) = sum_list (map h xs)"
  using assms
proof (induction xs arbitrary: ys)
  case (Cons x xs)
  obtain y zs where y: "ys = y # zs" "f x = Inr y" "traverse f xs = Inr zs" using Cons.prems(1) by (auto simp: bindR_eq_Inr)
  show ?case using Cons.IH [OF y(3) Cons.prems(2)] Cons.prems(2) [of x y] y by simp
qed simp

lemma traverse_all:
  assumes "traverse f xs = Inr ys" "\<And>x y. x \<in> set xs \<Longrightarrow> f x = Inr y \<Longrightarrow> P y"
  shows "\<forall>y\<in>set ys. P y"
  using assms
proof (induction xs arbitrary: ys)
  case (Cons x xs)
  obtain y zs where y: "ys = y # zs" "f x = Inr y" "traverse f xs = Inr zs" using Cons.prems(1) by (auto simp: bindR_eq_Inr)
  have "P w" if "z \<in> set xs" "f z = Inr w" for z w by (rule Cons.prems(2) [of z]) (use that in simp_all)
  from Cons.IH [OF y(3) this] show ?case using Cons.prems(2) [of x y] y by simp
qed simp

lemma traverse_each:
  assumes "traverse f xs = Inr ys" "x \<in> set xs"
  shows "\<exists>y\<in>set ys. f x = Inr y"
  using assms by (induction xs arbitrary: ys) (auto simp: bindR_eq_Inr)

lemma split_node_sum:
  assumes "split_node h T_c n = Inr p"
  shows "fst p + snd p = h * sum_list (map sq2 (bn_mu n))"
proof -
  obtain t where t: "length (take (length (bn_mu n)) t) = length (bn_mu n)"
    and p: "p = (h * sum_list (map (\<lambda>(s, m). sq2 m) (filter (\<lambda>(s, m). s < T_c) (zip (take (length (bn_mu n)) t) (bn_mu n)))),
      h * sum_list (map (\<lambda>(s, m). sq2 m) (filter (\<lambda>(s, m). \<not> s < T_c) (zip (take (length (bn_mu n)) t) (bn_mu n)))))"
    using assms unfolding split_node_def Let_def bindR_eq_Inr by (auto split: if_splits)
  let ?z = "zip (take (length (bn_mu n)) t) (bn_mu n)"
  have "map (\<lambda>(s, m). sq2 m) ?z = map sq2 (map snd ?z)" by (simp add: case_prod_beta)
  also have "\<dots> = map sq2 (bn_mu n)" using t by (simp only: map_snd_zip)
  finally show ?thesis
    using sum_list_split [of "\<lambda>(s, m). sq2 m" "\<lambda>(s, m). s < T_c" ?z] by (simp add: p case_prod_beta' flip: distrib_left)
qed

lemma split_node_nonneg: "split_node h T_c n = Inr p \<Longrightarrow> 0 \<le> h \<Longrightarrow> 0 \<le> fst p \<and> 0 \<le> snd p"
  unfolding split_node_def Let_def bindR_eq_Inr
  by (auto simp: sq2_def split: if_splits intro!: mult_nonneg_nonneg sum_list_nonneg)

lemma np_max_upper: "np_max xs = Inr m \<Longrightarrow> x \<in> set xs \<Longrightarrow> x \<le> m"
  by (auto simp: np_max_def split: if_splits)

lemma effort_of_cases:
  assumes "effort_of h T_c nodes = Inr ef"
  obtains pks parts where
    "traverse (\<lambda>(_, n). np_max (concat (map (\<lambda>m. [\<bar>fst m\<bar>, \<bar>snd m\<bar>]) (bn_mu n)))) nodes = Inr pks" "np_max pks = Inr (ef_pk ef)"
    "traverse (\<lambda>(_, n). split_node h T_c n) nodes = Inr parts"
    "ef_J ef = h * sum_list (map (\<lambda>(_, n). sum_list (map sq2 (bn_mu n))) nodes)"
    "ef_J_tr ef = sum_list (map fst parts)" "ef_J_ss ef = sum_list (map snd parts)"
    "ef_frac ef = (if ef_J ef = 0 then NaN else Fin (ef_J_ss ef / ef_J ef))"
  using assms by (auto simp: effort_of_def bindR_eq_Inr Let_def)

lemma peak_bounds:
  assumes "effort_of h T_c nodes = Inr ef" "(i, n) \<in> set nodes" "m \<in> set (bn_mu n)"
  shows "\<bar>fst m\<bar> \<le> ef_pk ef" "\<bar>snd m\<bar> \<le> ef_pk ef"
proof -
  obtain pks where p: "traverse (\<lambda>(_, n). np_max (concat (map (\<lambda>m. [\<bar>fst m\<bar>, \<bar>snd m\<bar>]) (bn_mu n)))) nodes = Inr pks"
    "np_max pks = Inr (ef_pk ef)" by (rule effort_of_cases [OF assms(1)]) (rule that)
  obtain y where y: "y \<in> set pks" "np_max (concat (map (\<lambda>m. [\<bar>fst m\<bar>, \<bar>snd m\<bar>]) (bn_mu n))) = Inr y"
    using traverse_each [OF p(1) assms(2)] by auto
  have "\<bar>fst m\<bar> \<le> y" "\<bar>snd m\<bar> \<le> y" using assms(3) by (auto intro!: np_max_upper [OF y(2)])
  then show "\<bar>fst m\<bar> \<le> ef_pk ef" "\<bar>snd m\<bar> \<le> ef_pk ef" using np_max_upper [OF p(2) y(1)] by simp_all
qed

text \<open>The two halves partition the effort exactly, neither is negative, the reported fraction is a fraction, and
  no command of the run exceeds the peak.\<close>

theorem effort_partition:
  assumes "0 \<le> h" "effort_of h T_c nodes = Inr ef"
  shows "ef_J_tr ef + ef_J_ss ef = ef_J ef \<and> 0 \<le> ef_J_tr ef \<and> 0 \<le> ef_J_ss ef \<and>
         (\<forall>f. ef_frac ef = Fin f \<longrightarrow> 0 \<le> f \<and> f \<le> 1) \<and>
         (\<forall>(i, n)\<in>set nodes. \<forall>m\<in>set (bn_mu n). \<bar>fst m\<bar> \<le> ef_pk ef \<and> \<bar>snd m\<bar> \<le> ef_pk ef)"
proof -
  obtain parts where p: "traverse (\<lambda>(_, n). split_node h T_c n) nodes = Inr parts"
    "ef_J ef = h * sum_list (map (\<lambda>(_, n). sum_list (map sq2 (bn_mu n))) nodes)"
    "ef_J_tr ef = sum_list (map fst parts)" "ef_J_ss ef = sum_list (map snd parts)"
    "ef_frac ef = (if ef_J ef = 0 then NaN else Fin (ef_J_ss ef / ef_J ef))"
    by (rule effort_of_cases [OF assms(2)]) (rule that)
  have "sum_list (map (\<lambda>p. fst p + snd p) parts) = sum_list (map (\<lambda>(_, n). h * sum_list (map sq2 (bn_mu n))) nodes)"
    by (rule traverse_sum [OF p(1)]) (auto dest: split_node_sum)
  then have total: "ef_J_tr ef + ef_J_ss ef = ef_J ef"
    by (simp add: p(2-4) sum_list_addf sum_list_const_mult case_prod_beta')
  have "\<forall>q\<in>set parts. 0 \<le> fst q \<and> 0 \<le> snd q"
    by (rule traverse_all [OF p(1)]) (use split_node_nonneg assms(1) in auto)
  then have nonneg: "0 \<le> ef_J_tr ef" "0 \<le> ef_J_ss ef" by (auto simp: p(3,4) intro!: sum_list_nonneg)
  have "0 \<le> f \<and> f \<le> 1" if "ef_frac ef = Fin f" for f
    using that p(5) total nonneg by (auto simp: divide_le_eq_1 split: if_splits)
  then show ?thesis using total nonneg peak_bounds [OF assms(2)] by auto
qed

definition demo_bench :: "(int \<times> bench_node) list" where
  "demo_bench =
     [(1, \<lparr>bn_columns = [(''timestamp'', [0, 1, 2])], bn_pin = 1, bn_ref = (1, 0), bn_neighbours = [], bn_mu = [(2, 0), (0, 1)]\<rparr>),
      (2, \<lparr>bn_columns = [(''timestamp'', [0, 1, 2])], bn_pin = 0, bn_ref = (0, 0), bn_neighbours = [], bn_mu = [(- 3, 0), (1, 1)]\<rparr>)]"

lemma effort_partition_witness:
  "\<exists>ef. effort_of 1 1 demo_bench = Inr ef \<and> ef_J_tr ef = 13 \<and> ef_J_ss ef = 3 \<and> ef_pk ef = 3 \<and> ef_J_tr ef + ef_J_ss ef = ef_J ef"
proof -
  have e: "effort_of 1 1 demo_bench =
    Inr \<lparr>ef_J = 16, ef_pk = 3, ef_TV = 8, ef_J_tr = 13, ef_J_ss = 3, ef_frac = Fin (3 / 16)\<rparr>"
    by (simp add: effort_of_def demo_bench_def split_node_def col_def sq2_def n1_def minus2_def) (simp add: np_max_def)
  then show ?thesis using effort_partition [OF _ e] by simp
qed

subsection \<open>The steady window\<close>

definition rows_of :: "nat \<Rightarrow> 'a list list \<Rightarrow> bool" where
  "rows_of L xss = list_all (\<lambda>xs. length xs = L) xss"

lemma foldl_max_length:
  fixes r :: "real list"
  shows "length r = L \<Longrightarrow> \<forall>s\<in>set rs. length s = L \<Longrightarrow> length (foldl (map2 max) r rs) = L"
  by (induction rs arbitrary: r) simp_all

lemma foldl_max_rows:
  fixes r :: "real list"
  assumes "length r = L" "\<forall>s\<in>set rs. length s = L" "k < L"
  shows "\<forall>s\<in>set (r # rs). s ! k \<le> foldl (map2 max) r rs ! k"
  using assms
proof (induction rs arbitrary: r)
  case (Cons s rs)
  have "\<forall>q\<in>set (map2 max r s # rs). q ! k \<le> foldl (map2 max) (map2 max r s) rs ! k"
    by (rule Cons.IH) (use Cons.prems in simp_all)
  moreover have "map2 max r s ! k = max (r ! k) (s ! k)" using Cons.prems by simp
  ultimately show ?case by auto
qed simp

lemma np_max_rows_bound:
  assumes "np_max_rows rows = Inr m" "rows_of L rows"
  shows "length m = L" "row \<in> set rows \<Longrightarrow> k < L \<Longrightarrow> row ! k \<le> m ! k"
proof -
  obtain r rs where r: "rows = r # rs" "m = foldl (map2 max) r rs" using assms(1) by (auto simp: np_max_rows_def split: list.splits)
  have l: "length r = L" "\<forall>s\<in>set rs. length s = L" using assms(2) r(1) by (simp_all add: rows_of_def list_all_iff)
  show "length m = L" unfolding r(2) by (rule foldl_max_length [OF l])
  show "row \<in> set rows \<Longrightarrow> k < L \<Longrightarrow> row ! k \<le> m ! k" using foldl_max_rows [OF l, of k] r by auto
qed

lemma pairwise_rows: "rows_of L xs \<Longrightarrow> rows_of L (pairwise xs)"
  by (auto simp: pairwise_def rows_of_def list_all_iff)

lemma pairwise_mem:
  assumes "i < j" "j < length xs"
  shows "map2 (\<lambda>a b. n1 (minus2 a b)) (xs ! i) (xs ! j) \<in> set (pairwise xs)"
  using assms unfolding pairwise_def by (auto intro!: bexI [of _ i])

lemma n1_commute: "n1 (minus2 a b) = n1 (minus2 b a)"
  by (simp add: n1_def minus2_def abs_minus_commute)

lemma n1_triangle: "n1 (minus2 a c) \<le> n1 (minus2 a b) + n1 (minus2 b c)"
  by (simp add: n1_def minus2_def)

definition a_time :: "pyfloat \<Rightarrow> bool" where
  "a_time v \<longleftrightarrow> v = PInf \<or> (\<exists>x. v = Fin x)"

lemma later_time: "a_time a \<Longrightarrow> a_time b \<Longrightarrow> a_time (later a b)"
  by (auto simp: a_time_def)

lemma later_le:
  assumes "a_time a" "a_time b" "later a b = Fin s"
  shows "\<exists>x y. a = Fin x \<and> b = Fin y \<and> x \<le> s \<and> y \<le> s"
  using assms by (auto simp: a_time_def)

lemma foldl_later:
  assumes "a_time v" "\<forall>w\<in>set ws. a_time w" "foldl later v ws = Fin s"
  shows "\<forall>w\<in>set (v # ws). \<exists>x. w = Fin x \<and> x \<le> s"
  using assms
proof (induction ws arbitrary: v)
  case (Cons w ws)
  have "\<forall>u\<in>set (later v w # ws). \<exists>x. u = Fin x \<and> x \<le> s"
    by (rule Cons.IH) (use Cons.prems in \<open>auto intro: later_time\<close>)
  then obtain x where "later v w = Fin x" "x \<le> s" and rest: "\<forall>u\<in>set ws. \<exists>x. u = Fin x \<and> x \<le> s" by auto
  moreover obtain a b where "v = Fin a" "w = Fin b" "a \<le> x" "b \<le> x"
    using later_le [of v w x] Cons.prems(1,2) \<open>later v w = Fin x\<close> by auto
  ultimately show ?case by (auto intro: order_trans)
qed auto

lemma entrance_time: "entrance E t band = Inr r \<Longrightarrow> a_time r"
  by (auto simp: entrance_def a_time_def Let_def split: if_splits)

lemma entrance_after:
  assumes "sorted_wrt (<) t" "length E = length t" "entrance E t band = Inr (Fin x)" "x \<le> s" "k < length t" "s \<le> t ! k"
  shows "E ! k \<le> band"
proof -
  have "t \<noteq> []" using assms(5) by auto
  from assms(2) this assms(3) show ?thesis
  proof (cases rule: entrance_cases)
    case (enters K)
    then have "stays_within E t band x" using least_stay(1) [OF assms(2,1) enters(1-3)] by simp
    then show ?thesis using assms(2,4-6) by (simp add: stays_within_iff)
  qed (use assms(5) in simp_all)
qed

lemma window_start [simp]: "sf_t0 (window_figures ref t xs tband tconv) = later tband tconv"
  by (simp add: window_figures_def no_window_def Let_def split: pyfloat.splits)

lemma steady_of_cases:
  assumes "steady_of ref t xs zs = Inr sf" "sf_t0 sf = Fin s"
  obtains gap tband tcs where
    "np_max_rows (pairwise zs) = Inr gap" "entrance gap t DELTA_X = Inr tband"
    "traverse (\<lambda>(x, z). entrance (map2 (\<lambda>a b. n1 (minus2 a b)) x z) t DELTA_X) (zip xs zs) = Inr tcs"
    "\<exists>x. tband = Fin x \<and> x \<le> s" "\<forall>v\<in>set tcs. \<exists>x. v = Fin x \<and> x \<le> s"
proof -
  obtain gap tband tcs where g: "np_max_rows (pairwise zs) = Inr gap" "entrance gap t DELTA_X = Inr tband"
    "traverse (\<lambda>(x, z). entrance (map2 (\<lambda>a b. n1 (minus2 a b)) x z) t DELTA_X) (zip xs zs) = Inr tcs"
    and r: "(case tcs of [] \<Rightarrow> Inl ValueError | tc # rest \<Rightarrow> Inr (window_figures ref t xs tband (foldl later tc rest))) = Inr sf"
    using assms(1) unfolding steady_of_def bindR_eq_Inr by blast
  obtain tc rest where tc: "tcs = tc # rest" "later tband (foldl later tc rest) = Fin s" using r assms(2) by (cases tcs) auto
  have times: "\<forall>v\<in>set tcs. a_time v" by (rule traverse_all [OF g(3)]) (auto intro: entrance_time)
  have fold: "a_time (foldl later v ws)" if "a_time v" "\<forall>w\<in>set ws. a_time w" for v ws
    using that by (induction ws arbitrary: v) (auto intro: later_time)
  have "a_time (foldl later tc rest)" using times tc(1) by (intro fold) simp_all
  then obtain x y where xy: "tband = Fin x" "foldl later tc rest = Fin y" "x \<le> s" "y \<le> s"
    using later_le [OF entrance_time [OF g(2)] _ tc(2)] by auto
  have "\<forall>v\<in>set tcs. \<exists>x. v = Fin x \<and> x \<le> y" unfolding tc(1) using times tc(1) xy(2) by (intro foldl_later) simp_all
  then have "\<forall>v\<in>set tcs. \<exists>x. v = Fin x \<and> x \<le> s" using xy(4) by (meson order_trans)
  then show thesis using that g xy(1,3) by blast
qed

text \<open>In the steady window, from the reported start on, the virtual states of any two nodes are within the band and
  every physical state is within the band of its virtual state, hence any two physical states within three bands.\<close>

theorem steady_window:
  assumes "sorted_wrt (<) t" "rows_of (length t) xs" "rows_of (length t) zs" "length xs = length zs"
    and "steady_of ref t xs zs = Inr sf" "sf_t0 sf = Fin s" "k < length t" "s \<le> t ! k"
  shows "\<forall>i<length xs. \<forall>j<length xs. n1 (minus2 (xs ! i ! k) (zs ! i ! k)) \<le> DELTA_X \<and>
           n1 (minus2 (zs ! i ! k) (zs ! j ! k)) \<le> DELTA_X \<and> n1 (minus2 (xs ! i ! k) (xs ! j ! k)) \<le> 3 * DELTA_X"
proof -
  obtain gap tband tcs where g: "np_max_rows (pairwise zs) = Inr gap" "entrance gap t DELTA_X = Inr tband"
    "traverse (\<lambda>(x, z). entrance (map2 (\<lambda>a b. n1 (minus2 a b)) x z) t DELTA_X) (zip xs zs) = Inr tcs"
    "\<exists>x. tband = Fin x \<and> x \<le> s" "\<forall>v\<in>set tcs. \<exists>x. v = Fin x \<and> x \<le> s"
    by (rule steady_of_cases [OF assms(5,6)])
  have rows: "length (xs ! i) = length t" "length (zs ! i) = length t" if "i < length xs" for i
    using assms(2-4) that by (simp_all add: rows_of_def list_all_length)
  note bound = np_max_rows_bound [OF g(1) pairwise_rows [OF assms(3)]]
  have gap: "gap ! k \<le> DELTA_X" using entrance_after [OF assms(1) bound(1)] g(2,4) assms(7,8) by blast
  have less: "n1 (minus2 (zs ! i ! k) (zs ! j ! k)) \<le> DELTA_X" if "i < j" "j < length xs" for i j
    using bound(2) [OF pairwise_mem [OF that(1)] assms(7)] that assms(4,7) gap rows [of i] rows [of j] by simp
  have self: "n1 (minus2 a a) = 0" for a by (simp add: n1_def minus2_def)
  have zz: "n1 (minus2 (zs ! i ! k) (zs ! j ! k)) \<le> DELTA_X" if "i < length xs" "j < length xs" for i j
    using less [of i j] less [of j i] that self n1_commute [of "zs ! i ! k"] by (cases i j rule: linorder_cases) (auto simp: DELTA_X_def)
  have xz: "n1 (minus2 (xs ! i ! k) (zs ! i ! k)) \<le> DELTA_X" if "i < length xs" for i
  proof -
    let ?E = "map2 (\<lambda>a b. n1 (minus2 a b)) (xs ! i) (zs ! i)"
    have "(xs ! i, zs ! i) \<in> set (zip xs zs)" using that assms(4) by (auto simp: in_set_zip)
    from traverse_each [OF g(3) this] obtain x where "entrance ?E t DELTA_X = Inr (Fin x)" "x \<le> s" using g(5) by auto
    then have "?E ! k \<le> DELTA_X" using entrance_after [OF assms(1) _ _ _ assms(7,8)] rows [OF that] by simp
    then show ?thesis using rows [OF that] assms(7) by simp
  qed
  have "n1 (minus2 (xs ! i ! k) (xs ! j ! k)) \<le> 3 * DELTA_X" if "i < length xs" "j < length xs" for i j
    using n1_triangle [of "xs ! i ! k" "xs ! j ! k" "zs ! i ! k"] n1_triangle [of "zs ! i ! k" "xs ! j ! k" "zs ! j ! k"]
      xz [OF that(1)] xz [OF that(2)] zz [OF that] n1_commute [of "zs ! j ! k" "xs ! j ! k"] by linarith
  then show ?thesis using xz zz by blast
qed

lemma steady_window_witness:
  "\<exists>sf. steady_of (1, 0) [0, 1, 2] [[(5, 0), (1, 0), (1, 0)], [(1, 1), (1, 0), (1, 0)]]
      [[(4, 0), (1, 0), (1, 0)], [(1, 0), (1, 0), (1, 0)]] = Inr sf \<and> sf_t0 sf = Fin 1 \<and>
    n1 (minus2 ([[(5, 0), (1, 0), (1, 0)], [(1, 1), (1, 0), (1, 0 :: real)]] ! 0 ! 2)
      ([[(5, 0), (1, 0), (1, 0)], [(1, 1), (1, 0), (1, 0 :: real)]] ! 1 ! 2)) \<le> 3 * DELTA_X"
proof -
  let ?t = "[0, 1, 2] :: real list" and ?xs = "[[(5, 0), (1, 0), (1, 0)], [(1, 1), (1, 0), (1, 0)]] :: (real \<times> real) list list"
    and ?zs = "[[(4, 0), (1, 0), (1, 0)], [(1, 0), (1, 0), (1, 0)]] :: (real \<times> real) list list"
  have e: "steady_of (1, 0) ?t ?xs ?zs =
    Inr \<lparr>sf_tband = Fin 1, sf_tconv = Fin 1, sf_t0 = Fin 1, sf_mse = Fin 0, sf_mse_med = Fin 0, sf_mse_avg = Fin 0\<rparr>"
  proof -
    have p: "pairwise ?zs = [[3, 0, 0]]" by (simp add: pairwise_def n1_def minus2_def upt_rec)
    have en: "entrance [3, 0, 0] ?t DELTA_X = Inr (Fin 1)" "entrance [1, 0, 0] ?t DELTA_X = Inr (Fin 1)"
      by (simp_all add: entrance_def DELTA_X_def upt_rec)
    have mse: "agent_mse (1, 0) ?t 1 [(5, 0), (1, 0), (1, 0)] = 0" "agent_mse (1, 0) ?t 1 [(1, 1), (1, 0), (1, 0)] = 0"
      by (simp_all add: agent_mse_def sq2_def minus2_def)
    have "map2 (\<lambda>a b. n1 (minus2 a b)) [(5, 0), (1, 0), (1, 0)] [(4, 0), (1, 0), (1, 0)] = [1, 0, 0]"
      "map2 (\<lambda>a b. n1 (minus2 a b)) [(1, 1), (1, 0), (1, 0)] [(1, 0), (1, 0), (1, 0)] = [1, 0, 0]"
      by (simp_all add: n1_def minus2_def)
    then show ?thesis
      unfolding steady_of_def p by (simp add: np_max_rows_def en window_figures_def mse np_median_def np_mean_def)
  qed
  have "\<forall>i<length ?xs. \<forall>j<length ?xs. n1 (minus2 (?xs ! i ! 2) (?zs ! i ! 2)) \<le> DELTA_X \<and>
      n1 (minus2 (?zs ! i ! 2) (?zs ! j ! 2)) \<le> DELTA_X \<and> n1 (minus2 (?xs ! i ! 2) (?xs ! j ! 2)) \<le> 3 * DELTA_X"
    by (rule steady_window [where s = 1 and k = 2 and t = ?t, OF _ _ _ _ e]) (simp_all add: rows_of_def)
  from this [rule_format, of 0 1] show ?thesis using e by simp
qed

subsection \<open>The paired interval and the cells\<close>

definition negated :: "pyfloat \<Rightarrow> pyfloat" where
  "negated v = (case v of Fin x \<Rightarrow> Fin (- x) | PInf \<Rightarrow> MInf | MInf \<Rightarrow> PInf | NegZero \<Rightarrow> Fin 0 | NaN \<Rightarrow> NaN)"

lemma finite_values_map: "finite_values (map Fin xs) = xs"
  by (induction xs) (simp_all add: finite_values_def)

lemma finite_values_negated: "finite_values (map negated vs) = map uminus (finite_values vs)"
proof (induction vs)
  case (Cons v vs)
  then show ?case by (cases v) (simp_all add: finite_values_def negated_def)
qed (simp add: finite_values_def)

lemma sum_uminus: "sum_list (map uminus xs) = - sum_list xs" for xs :: "real list"
  by (induction xs) simp_all

lemma t_quantile_pos: "0 < t_quantile n"
  by (simp add: t_quantile_def dict_get_def)

lemma std_error_uminus: "std_error (map uminus d) (- m) = std_error d m"
proof -
  have "(\<lambda>x. (- x - - m) ^ 2) = (\<lambda>x. (x - m) ^ 2)" by (rule ext) (simp add: power2_commute)
  then show ?thesis by (simp add: std_error_def comp_def)
qed

lemma std_error_nonneg: "2 \<le> length d \<Longrightarrow> 0 \<le> std_error d m"
  by (auto simp: std_error_def intro!: divide_nonneg_nonneg sum_list_nonneg)

text \<open>Swapping the two arms mirrors the interval: the mean and both ends change sign, the ends their order, and the
  count stays. The interval contains its mean, and every level gives the same interval.\<close>

theorem interval_mirrored:
  assumes "paired_interval ds conf = (Fin m, Fin lo, Fin hi, n)"
  shows "paired_interval (map negated ds) conf' = (Fin (- m), Fin (- hi), Fin (- lo), n) \<and> lo \<le> m \<and> m \<le> hi \<and> 2 \<le> n \<and>
         n = length (finite_values ds)"
proof -
  have n: "\<not> length (finite_values ds) < 2" "n = length (finite_values ds)" "m = sum_list (finite_values ds) / of_nat n"
    "lo = m - t_quantile n * std_error (finite_values ds) m" "hi = m + t_quantile n * std_error (finite_values ds) m"
    using assms by (auto simp: paired_interval_def Let_def np_mean_def split: if_splits)
  have "0 \<le> t_quantile n * std_error (finite_values ds) m"
    using n(1) std_error_nonneg less_imp_le [OF t_quantile_pos] by (intro mult_nonneg_nonneg) simp_all
  moreover have "sum_list (map uminus (finite_values ds)) / of_nat n = - m" by (simp add: n(3) sum_uminus)
  ultimately show ?thesis
    using n(1,2,4,5) by (simp add: paired_interval_def finite_values_negated std_error_uminus Let_def)
qed

lemma interval_mirrored_witness:
  "paired_interval (map negated [Fin 2, NaN, Fin 2]) (99 / 100) = (Fin (- 2), Fin (- 2), Fin (- 2), 2)"
proof -
  have "paired_interval [Fin 2, NaN, Fin 2] (95 / 100) = (Fin 2, Fin 2, Fin 2, 2)"
    by (simp add: paired_interval_def finite_values_def std_error_def)
  from interval_mirrored [OF this, of "99 / 100"] show ?thesis by simp
qed

text \<open>A median that counts the trials that never settle is printed with the quartiles of those that do: with two of
  five trials infinite the bracket does not contain the median.\<close>

theorem bracket_misses_median:
  "summary_cell False False [(''AA'', map (\<lambda>(t, v). (t, [(''T'', v)])) [(1, Fin 1), (2, Fin 2), (3, Fin 3), (4, PInf), (5, PInf)])]
     ''AA'' [1, 2, 3, 4, 5] ''T'' = Shown 3 (Some (3 / 2, 5 / 2))"
proof -
  have f: "finite_values [Fin 1, Fin 2, Fin 3, PInf, PInf] = [1, 2, 3]" by (simp add: finite_values_def)
  have s: "sort [1, 2, 3 :: real] = [1, 2, 3]" by simp
  have p: "np_percentile 25 [1, 2, 3] = 3 / 2" "np_percentile 75 [1, 2, 3] = 5 / 2" by (simp_all add: np_percentile_def s Let_def)
  have m: "float_median [Fin 1, Fin 2, Fin 3, PInf, PInf] = Fin 3" by (simp add: float_median_def float_sort_def f s)
  have "trial_values (map (\<lambda>(t, v). (t, [(''T'', v)])) [(1, Fin 1), (2, Fin 2), (3, Fin 3), (4, PInf), (5, PInf)]) [1, 2, 3, 4, 5] ''T'' =
    [Fin 1, Fin 2, Fin 3, PInf, PInf]" by (simp add: trial_values_def dict_get_def)
  then show ?thesis by (simp add: summary_cell_def centre_def f m p)
qed

subsection \<open>What is reported without neighbours\<close>

lemma isdigit_no_suffix: "isdigit name \<Longrightarrow> CHR ''_'' \<notin> set name"
  by (auto simp: isdigit_def list_all_iff)

text \<open>In a log of two coordinates no column is named by a bare id, so \<^verbatim>\<open>NodeRun.neighbours\<close> is empty whatever the
  neighbours are.\<close>

lemma coordinate_log_neighbours:
  assumes "rm_dim m = 2" "list_all (\<lambda>c. \<not> isdigit c) (rm_timing_columns m @ rm_state_columns m)"
  shows "filter isdigit (log_column_names m) = []"
proof -
  have "\<not> isdigit (a @ CHR ''_'' # b)" for a b using isdigit_no_suffix by fastforce
  moreover have "\<not> isdigit (CHR ''r'' # b)" "\<not> isdigit (CHR ''s'' # b)" "\<not> isdigit ''timestamp''" "\<not> isdigit ''device_timestamp''" for b
    by (simp_all add: isdigit_def)
  ultimately show ?thesis
    using assms by (auto simp: log_column_names_def filter_empty_conv list_all_iff COORD_SUFFIX_def)
qed

lemma no_link_rows:
  assumes "list_all (\<lambda>(_, n). bn_neighbours n = []) nodes"
  shows "link_rows L nodes = Inr []" "p_complete L sp nodes = Inr NaN"
proof -
  have "traverse (\<lambda>(_, n). traverse (\<lambda>j. first_L L n (''rx_'' @ str_int j)) (bn_neighbours n)) nodes = Inr (map (\<lambda>_. []) nodes)"
    by (rule traverse_all_Inr) (use assms in \<open>auto simp: list_all_iff\<close>)
  then show "link_rows L nodes = Inr []" by (simp add: link_rows_def)
  have "filter (\<lambda>(_, n). bn_neighbours n \<noteq> []) nodes = []" using assms by (auto simp: list_all_iff filter_empty_conv)
  then show "p_complete L sp nodes = Inr NaN" by (simp add: p_complete_def)
qed

lemma one_run_link_figures:
  assumes "one_run nodes tc = Inr out"
  obtains L sp h ls pc where "link_rows L nodes = Inr ls" "p_complete L sp nodes = Inr pc" "map_of out ''pcomp'' = Some pc"
    "map_of out ''aoi'' = Some (scale_float 1000 (mean_of_means (map (link_aoi h) ls)))"
    "map_of out ''rho'' = Some (mean_of_means (map (link_rho L sp) ls))"
  using assms unfolding one_run_def
  by (clarsimp simp: bindR_eq_Inr split: list.splits prod.splits)

text \<open>A run whose nodes have no neighbours reports no age of information, no delivery and no completeness.\<close>

theorem no_neighbours_no_link_figures:
  assumes "one_run nodes tc = Inr out" "list_all (\<lambda>(_, n). bn_neighbours n = []) nodes"
  shows "\<forall>key\<in>{''aoi'', ''rho'', ''pcomp''}. map_of out key = Some NaN"
proof -
  obtain L sp h ls pc where r: "link_rows L nodes = Inr ls" "p_complete L sp nodes = Inr pc" "map_of out ''pcomp'' = Some pc"
    "map_of out ''aoi'' = Some (scale_float 1000 (mean_of_means (map (link_aoi h) ls)))"
    "map_of out ''rho'' = Some (mean_of_means (map (link_rho L sp) ls))" by (rule one_run_link_figures [OF assms(1)])
  then show ?thesis using no_link_rows [OF assms(2)] by (simp add: mean_of_means_def np_mean_def)
qed


definition quiet_node :: "real \<Rightarrow> bench_node" where
  "quiet_node b =
     \<lparr>bn_columns = [(''timestamp'', [0, 1]), (''state_P'', [1, 1]), (''state_Q'', [0, 0]), (''vstate_P'', [1, 1]), (''vstate_Q'', [0, 0])],
      bn_pin = b, bn_ref = (1, 0), bn_neighbours = [], bn_mu = [(0, 0)]\<rparr>"

lemma quiet_parts:
  defines "ns \<equiv> [(1, quiet_node 1), (2, quiet_node 0)]"
  shows "bench_ref ns = Inr (1, 0)" "bench_length ns = Inr 2" "first_L 2 (quiet_node 1) ''timestamp'' = Inr [0, 1]"
    "series_of 2 ns = Inr ([[(1, 0), (1, 0)], [(1, 0), (1, 0)]], [[(1, 0), (1, 0)], [(1, 0), (1, 0)]])"
    "step_of [0, 1] = 1" "\<exists>ef. effort_of 1 40 ns = Inr ef" "\<exists>gf. gains_of 2 [0, 1] 40 ns = Inr gf" "update_count 2 ns = Inr NaN"
    "fleet_mean ns 2 ''saturated'' f = Inr NaN" "fleet_mean ns 2 ''cpu_us'' f = Inr NaN" "fleet_mean ns 2 ''realized_h'' f = Inr NaN"
    "list_all (\<lambda>(_, n). bn_neighbours n = []) ns"
  unfolding ns_def
  by (simp_all add: bench_ref_def bench_length_def first_L_def series_of_def stacked_def col_def quiet_node_def step_of_def np_median_def
    np_diff_def effort_of_def split_node_def np_max_def sq2_def gains_of_def has_column_def update_count_def fleet_mean_def)

lemma quiet_errors:
  defines "x \<equiv> [[(1, 0), (1, 0)], [(1, 0), (1, 0)]] :: (real \<times> real) list list"
  shows "errors_of (1, 0) x x = Inr \<lparr>tr_Ez = [0, 0], tr_Es = [0, 0], tr_Ex = [0, 0], tr_Ec = [0, 0]\<rparr>"
    "steady_of (1, 0) [0, 1] x x = Inr (window_figures (1, 0) [0, 1] x (Fin 0) (Fin 0))" "entrance [0, 0] [0, 1] DELTA_X = Inr (Fin 0)"
proof -
  have p: "pairwise x = [[0, 0]]" by (simp add: x_def pairwise_def n1_def minus2_def upt_rec)
  show "errors_of (1, 0) x x = Inr \<lparr>tr_Ez = [0, 0], tr_Es = [0, 0], tr_Ex = [0, 0], tr_Ec = [0, 0]\<rparr>"
    unfolding errors_of_def p by (simp add: x_def np_max_rows_def n1_def minus2_def)
  show en: "entrance [0, 0] [0, 1] DELTA_X = Inr (Fin 0)" by (simp add: entrance_def DELTA_X_def upt_rec)
  have "map2 (\<lambda>a b. n1 (minus2 a b)) [(1, 0), (1, 0)] [(1, 0), (1, 0)] = [0, 0]" by (simp add: n1_def minus2_def)
  then show "steady_of (1, 0) [0, 1] x x = Inr (window_figures (1, 0) [0, 1] x (Fin 0) (Fin 0))"
    unfolding steady_of_def p by (simp add: x_def np_max_rows_def en)
qed

lemma no_neighbours_no_link_figures_witness:
  "\<exists>out. one_run [(1, quiet_node 1), (2, quiet_node 0)] None = Inr out \<and> map_of out ''rho'' = Some NaN"
proof -
  obtain ef gf where e: "effort_of 1 40 [(1, quiet_node 1), (2, quiet_node 0)] = Inr ef"
    "gains_of 2 [0, 1] 40 [(1, quiet_node 1), (2, quiet_node 0)] = Inr gf" using quiet_parts(6,7) by auto
  have "span_of 2 1 = Inr 1" by (simp add: span_of_def py_round_def)
  then have "\<exists>out. one_run [(1, quiet_node 1), (2, quiet_node 0)] None = Inr out"
    using quiet_parts no_link_rows [OF quiet_parts(12)]
    by (simp add: one_run_def deadline_of_def quiet_errors e raise_if_def)
  then show ?thesis using no_neighbours_no_link_figures [OF _ quiet_parts(12)] by blast
qed

end
