(* ===== verification/Report.thy ===== *)
theory Report
  imports Metrics Runner "HOL-Library.AList"
begin

section \<open>The benchmark's tables (tools/dg5_metrics.py)\<close>

text \<open>
  From the names of the run directories to the tables: \<open>search_run\<close> and \<open>collect_runs\<close> read trial and arm off a
  name, \<open>load_campaign\<close> computes the figures of every run, \<open>screen_table\<close>, \<open>summary_rows\<close> and \<open>paired_table\<close> are
  the terminal's and the paper's tables up to number formats, \<open>metrics_main\<close> and \<open>grouped_main\<close> the tool with its
  exit code 2 as \<open>None\<close>. \<open>run\<close> stands for \<open>one_run\<close> on a directory. \<open>trial_dirs_read\<close> joins the hub's naming of
  a paired trial to the tool's reading of it.
\<close>

subsection \<open>Run directories\<close>

abbreviation digit :: "char \<Rightarrow> bool" where "digit c \<equiv> isdigit [c]"

text \<open>\<^verbatim>\<open>-t(\\d+)-(.+)$\<close> at the head of a name, then anywhere in it, leftmost first.\<close>

definition match_run :: "string \<Rightarrow> (string \<times> string) option" where
  "match_run s =
     (if take 2 s \<noteq> ''-t'' then None
      else let ds = takeWhile digit (drop 2 s); q = dropWhile digit (drop 2 s) in
        if ds \<noteq> [] \<and> length q \<ge> 2 \<and> hd q = CHR ''-'' then Some (ds, tl q) else None)"

fun search_run :: "string \<Rightarrow> (string \<times> string) option" where
  "search_run [] = None"
| "search_run (c # cs) = (case match_run (c # cs) of Some r \<Rightarrow> Some r | None \<Rightarrow> search_run cs)"

text \<open>\<^verbatim>\<open>replace("plus", "+")\<close>.\<close>

function plus_back :: "string \<Rightarrow> string" where
  "plus_back [] = []"
| "plus_back (c # cs) = (if take 4 (c # cs) = ''plus'' then CHR ''+'' # plus_back (drop 3 cs) else c # plus_back cs)"
  by pat_completeness auto
termination by (relation "measure length") auto

definition run_key :: "string \<Rightarrow> (int \<times> string) option" where
  "run_key name = map_option (\<lambda>(ds, arm). (int_name ds, plus_back arm)) (search_run name)"

type_synonym arm_dirs = "(string \<times> (int \<times> string) list) list"

definition put_run :: "arm_dirs \<Rightarrow> string \<Rightarrow> arm_dirs" where
  "put_run runs name =
     (case run_key name of None \<Rightarrow> runs
      | Some (t, arm) \<Rightarrow> AList.update arm (AList.update t name (dict_get runs arm [])) runs)"

definition collect_runs :: "string list \<Rightarrow> arm_dirs" where
  "collect_runs names = foldl put_run [] names"

definition load_data :: "(string \<Rightarrow> (string \<times> pyfloat) list result) \<Rightarrow> arm_dirs \<Rightarrow> campaign_data result" where
  "load_data run runs =
     traverse (\<lambda>(arm, ts). bindR (traverse (\<lambda>(t, d). bindR (run d) (\<lambda>v. Inr (t, v))) (sort_key fst ts)) (\<lambda>vs. Inr (arm, vs))) runs"

definition trials_of :: "campaign_data \<Rightarrow> int list" where
  "trials_of d = sort (remdups (concat (map (\<lambda>(arm, vs). map fst vs) d)))"

definition load_campaign ::
  "(string \<Rightarrow> (string \<times> pyfloat) list result) \<Rightarrow> string list \<Rightarrow> string list option \<Rightarrow> (campaign_data \<times> int list) result" where
  "load_campaign run names want =
     (let runs = collect_runs names;
          kept = (case want of Some (w # ws) \<Rightarrow> filter (\<lambda>(arm, ts). arm \<in> set (w # ws)) runs | _ \<Rightarrow> runs)
      in bindR (load_data run kept) (\<lambda>d. Inr (d, trials_of d)))"

subsection \<open>The tables\<close>

definition METRICS :: "string list" where
  "METRICS =
     [''Ez_f'', ''Ez_m'', ''Es_f'', ''Es_m'', ''Ex_f'', ''Ex_m'', ''Ec_f'', ''T'', ''J'', ''pk'', ''TV'', ''J_tr'', ''J_ss'',
      ''J_ss_frac'', ''g_end'', ''g_max'', ''slope'', ''ups'', ''sat'', ''cpu'', ''rh_p99'', ''aoi'', ''rho'', ''t0'', ''tband'',
      ''tconv'', ''mse'', ''mse_med'', ''mse_avg'', ''pcomp'']"

definition TEX :: "string list" where
  "TEX =
     [''T'', ''Ex_f'', ''J'', ''J_tr'', ''J_ss'', ''J_ss_frac'', ''TV'', ''g_max'', ''g_max_vth'', ''g_end'', ''ups'', ''sat'', ''cpu'',
      ''Ez_f'', ''Es_f'', ''Ec_f'', ''slope'', ''pk'', ''rho'', ''aoi'', ''mse'', ''mse_med'', ''mse_avg'', ''t0'', ''tband'', ''tconv'',
      ''pcomp'']"

definition ARM_ORDER :: "string list" where
  "ARM_ORDER = [''LC0'', ''LC+'', ''AA'', ''DZ'']"

text \<open>A cell of the terminal's table, where a time that is infinite counts as missing.\<close>

definition screen_cell :: "campaign_data \<Rightarrow> string \<Rightarrow> int list \<Rightarrow> string \<Rightarrow> table_cell" where
  "screen_cell d arm trials key =
     (case finite_values (trial_values (dict_get d arm []) trials key) of
        [] \<Rightarrow> Dash
      | [v] \<Rightarrow> Shown v None
      | vs \<Rightarrow> (case np_median vs of Fin m \<Rightarrow> Shown m (Some (np_percentile 25 vs, np_percentile 75 vs)) | _ \<Rightarrow> Dash))"

definition screen_table :: "campaign_data \<Rightarrow> int list \<Rightarrow> (string \<times> table_cell list) list" where
  "screen_table d trials = map (\<lambda>key. (key, map (\<lambda>(arm, _). screen_cell d arm trials key) d)) METRICS"

definition paired_table ::
  "campaign_data \<Rightarrow> string \<Rightarrow> int list \<Rightarrow> string list \<Rightarrow> (string \<times> string \<times> real \<times> (real \<times> real) option \<times> bool) list" where
  "paired_table d baseline trials keys =
     concat (map (\<lambda>key. concat (map (\<lambda>(arm, _).
        if arm = baseline then [] else
        case paired_row d arm baseline trials key of None \<Rightarrow> [] | Some row \<Rightarrow> [(key, arm, row)]) d)) keys)"

record metrics_tables =
  mt_screen :: "(string \<times> table_cell list) list"
  mt_differences :: "(string \<times> string \<times> real \<times> (real \<times> real) option \<times> bool) list option"
  mt_summary :: "(string \<times> table_cell list) list option"
  mt_paired :: "(string \<times> string \<times> real \<times> (real \<times> real) option \<times> bool) list option"

record metrics_args =
  ma_arms :: "string list option"
  ma_baseline :: string
  ma_metrics :: "string list option"
  ma_mean :: bool
  ma_no_iqr :: bool
  ma_latex :: bool

definition summary_keys :: "metrics_args \<Rightarrow> string list option" where
  "summary_keys a =
     (case ma_metrics a of None \<Rightarrow> Some SUMMARY | Some ks \<Rightarrow> if set ks \<subseteq> set TEX then Some ks else None)"

text \<open>\<^verbatim>\<open>write_latex\<close>: the summary, and the paired differences when there is a pair of trials.\<close>

definition write_latex :: "metrics_args \<Rightarrow> string list \<Rightarrow> campaign_data \<Rightarrow> int list \<Rightarrow> metrics_tables \<Rightarrow> metrics_tables" where
  "write_latex a keys d trials m =
     (if \<not> ma_latex a then m
      else m\<lparr>mt_summary := Some (summary_rows (ma_mean a) (ma_no_iqr a) d (map fst d) trials keys),
             mt_paired := (if length trials < 2 \<or> map_of d (ma_baseline a) = None then None
                           else Some (paired_table d (ma_baseline a) trials keys))\<rparr>)"

definition choose_arms :: "string list option \<Rightarrow> arm_dirs \<Rightarrow> arm_dirs option" where
  "choose_arms want runs =
     (case want of None \<Rightarrow> Some runs
      | Some w \<Rightarrow> if list_all (\<lambda>arm. map_of runs arm \<noteq> None) w
                  then Some (map (\<lambda>arm. (arm, dict_get runs arm [])) (rev (remdups (rev w)))) else None)"

definition metrics_main ::
  "(string \<Rightarrow> (string \<times> pyfloat) list result) \<Rightarrow> metrics_args \<Rightarrow> string list \<Rightarrow> metrics_tables option result" where
  "metrics_main run a names =
     (case summary_keys a of None \<Rightarrow> Inr None
      | Some keys \<Rightarrow>
          if collect_runs names = [] then Inr None
          else case choose_arms (ma_arms a) (collect_runs names) of None \<Rightarrow> Inr None
          | Some runs \<Rightarrow>
              bindR (load_data run runs) (\<lambda>d.
                let trials = trials_of d in
                Inr (Some (write_latex a keys d trials
                  \<lparr>mt_screen = screen_table d trials,
                   mt_differences = (if length trials < 2 \<or> map_of d (ma_baseline a) = None then None
                                     else Some (paired_table d (ma_baseline a) trials METRICS)),
                   mt_summary = None, mt_paired = None\<rparr>))))"

subsection \<open>Several campaigns in one table\<close>

definition group_arms :: "(string \<times> campaign_data \<times> int list) list \<Rightarrow> string list" where
  "group_arms groups = filter (\<lambda>arm. list_ex (\<lambda>(label, d, trials). map_of d arm \<noteq> None) groups) ARM_ORDER"

definition write_grouped ::
  "bool \<Rightarrow> bool \<Rightarrow> string list \<Rightarrow> (string \<times> campaign_data \<times> int list) list \<Rightarrow> (string \<times> (string \<times> table_cell list) list) list" where
  "write_grouped mean_only no_iqr keys groups =
     map (\<lambda>(label, d, trials). (label, summary_rows mean_only no_iqr d (group_arms groups) trials keys)) groups"

text \<open>A group is its label, when the argument has one, and the directories its pattern matches.\<close>

fun load_groups ::
  "(string \<Rightarrow> (string \<times> pyfloat) list result) \<Rightarrow> string list option \<Rightarrow> (string option \<times> string list) list \<Rightarrow>
   (string \<times> campaign_data \<times> int list) list option result" where
  "load_groups run want [] = Inr (Some [])"
| "load_groups run want ((None, names) # gs) = Inr None"
| "load_groups run want ((Some label, names) # gs) =
     bindR (load_campaign run names want) (\<lambda>(d, trials).
       if d = [] then Inr None
       else bindR (load_groups run want gs) (\<lambda>rest. Inr (map_option (\<lambda>r. (label, d, trials) # r) rest)))"

definition grouped_main ::
  "(string \<Rightarrow> (string \<times> pyfloat) list result) \<Rightarrow> metrics_args \<Rightarrow> (string option \<times> string list) list \<Rightarrow>
   (string \<times> (string \<times> table_cell list) list) list option result" where
  "grouped_main run a gs =
     (case summary_keys a of None \<Rightarrow> Inr None
      | Some keys \<Rightarrow>
          if \<not> ma_latex a then Inr None
          else bindR (load_groups run (ma_arms a) gs) (\<lambda>groups.
            Inr (map_option (write_grouped (ma_mean a) (ma_no_iqr a) keys) groups)))"

subsection \<open>The hub's names are read back\<close>

text \<open>No suffix of the base name looks like the tag of a trial.\<close>

definition tag_head :: "string \<Rightarrow> bool" where
  "tag_head s \<longleftrightarrow> take 2 s = ''-t'' \<and> takeWhile digit (drop 2 s) \<noteq> [] \<and>
     (dropWhile digit (drop 2 s) = [] \<or> hd (dropWhile digit (drop 2 s)) = CHR ''-'')"

fun tag_free :: "string \<Rightarrow> bool" where
  "tag_free [] = True"
| "tag_free (c # cs) = (\<not> tag_head (c # cs) \<and> tag_free cs)"

lemma digit_dash [simp]: "\<not> isdigit ''-''"
  by (simp add: isdigit_def)

lemma digits_run:
  assumes "list_all digit ds" "q = [] \<or> \<not> digit (hd q)"
  shows "takeWhile digit (ds @ q) = ds" "dropWhile digit (ds @ q) = q"
  using assms by (induction ds; cases q; simp)+

lemma match_tag:
  assumes "list_all digit ds" "ds \<noteq> []" "arm \<noteq> []"
  shows "match_run (''-t'' @ ds @ ''-'' @ arm) = Some (ds, arm)"
  using assms digits_run [OF assms(1), of "CHR ''-'' # arm"] by (cases arm) (simp_all add: match_run_def)

lemma match_in_base:
  assumes "\<not> tag_head (c # cs)"
  shows "match_run ((c # cs) @ CHR ''-'' # q) = None"
proof (rule ccontr)
  let ?s = "(c # cs) @ CHR ''-'' # q"
  assume "match_run ?s \<noteq> None"
  then have m: "take 2 ?s = ''-t''" "takeWhile digit (drop 2 ?s) \<noteq> []" "hd (dropWhile digit (drop 2 ?s)) = CHR ''-''"
    by (auto simp: match_run_def Let_def split: if_splits)
  then obtain r where r: "cs = CHR ''t'' # r" "c = CHR ''-''" by (cases cs) (simp_all add: numeral_2_eq_2)
  have t: "takeWhile digit (r @ CHR ''-'' # q) = takeWhile digit r" by (induction r) auto
  have d: "dropWhile digit (r @ CHR ''-'' # q) = dropWhile digit r @ CHR ''-'' # q" by (induction r) auto
  show False using m assms unfolding r tag_head_def by (simp add: numeral_2_eq_2 t d hd_append split: if_splits)
qed

lemma search_base:
  assumes "tag_free base" "list_all digit ds" "ds \<noteq> []" "arm \<noteq> []"
  shows "search_run (base @ ''-t'' @ ds @ ''-'' @ arm) = Some (ds, arm)"
  using assms(1)
proof (induction base)
  case Nil
  show ?case using match_tag [OF assms(2-4)] by simp
next
  case (Cons c cs)
  have "match_run ((c # cs) @ ''-t'' @ ds @ ''-'' @ arm) = None" using match_in_base Cons.prems by simp
  then show ?case using Cons by simp
qed

lemma show_nat_digit_list: "list_all digit (show_nat n)" "show_nat n \<noteq> []"
  using show_nat_digits [of n] by (auto simp: isdigit_def list_all_iff)

lemma int_name_show: "int_name (show_nat n) = int n"
proof (induction n rule: show_nat.induct)
  case (1 n)
  have d: "int (of_char (char_of (48 + d :: nat) :: char)) = 48 + int d" if "d < 10" for d
    using that by (simp add: of_char_of take_bit_eq_mod)
  have "int (10 * (n div 10) + n mod 10) = int n" by simp
  then have "10 * int (n div 10) + int (n mod 10) = int n" by (simp only: of_nat_add of_nat_mult of_nat_numeral)
  moreover have "n mod 10 < 10" by simp
  ultimately show ?case using 1 d [of n] d [of "n mod 10"]
    by (subst show_nat.simps) (auto simp: int_name_def simp del: of_char_of)
qed

lemma arm_label_back: "arm \<in> set ARMS \<Longrightarrow> plus_back (arm_label arm) = arm \<and> arm_label arm \<noteq> []"
proof -
  have "list_all (\<lambda>arm. plus_back (arm_label arm) = arm \<and> arm_label arm \<noteq> []) ARMS" by code_simp
  then show "arm \<in> set ARMS \<Longrightarrow> plus_back (arm_label arm) = arm \<and> arm_label arm \<noteq> []" unfolding list_all_iff by blast
qed

abbreviation trial_name :: "string \<Rightarrow> nat \<Rightarrow> string \<Rightarrow> string" where
  "trial_name base k arm \<equiv> base @ ''-t'' @ show_nat k @ ''-'' @ arm_label arm"

lemma run_key_trial: "tag_free base \<Longrightarrow> arm \<in> set ARMS \<Longrightarrow> run_key (trial_name base k arm) = Some (int k, arm)"
  using search_base [OF _ show_nat_digit_list, of base "arm_label arm" k] arm_label_back
  by (simp add: run_key_def int_name_show)

lemma run_fleet_name: "run_fleet hu mf A agents name duration epoch only = Inr (ag, A', r) \<Longrightarrow> rr_run_name r = name"
  by (auto simp: run_fleet_def Let_def split: if_splits prod.splits)

lemma run_trial_names:
  assumes "run_trial hu np mf run_index base duration epochs only k arms agents = Inr (ag, rs)"
  shows "map fst rs = arms \<and> (\<forall>(arm, r)\<in>set rs. arm \<in> set ARMS \<and> rr_run_name r = trial_name base k arm)"
  using assms
proof (induction arms arbitrary: agents rs)
  case (Cons arm arms)
  obtain A where A: "set_arm np mf run_index arm = Inr A" using Cons.prems by (auto simp: bindR_eq_Inr)
  then have "arm \<in> set ARMS" by (auto simp: set_arm_def arm_manifest_def bindR_eq_Inr split: if_splits)
  then show ?case using Cons.prems A Cons.IH by (fastforce simp: bindR_eq_Inr dest: run_fleet_name)
qed simp

definition run_at :: "arm_dirs \<Rightarrow> string \<Rightarrow> int \<Rightarrow> string option" where
  "run_at runs arm t = (case map_of runs arm of None \<Rightarrow> None | Some ts \<Rightarrow> map_of ts t)"

lemma run_at_put:
  "run_key name = Some (t, arm) \<Longrightarrow> run_at (put_run runs name) a s = (if a = arm \<and> s = t then Some name else run_at runs a s)"
  by (auto simp: put_run_def run_at_def AList.update_conv' dict_get_def split: option.splits)

lemma run_at_collect:
  assumes "\<forall>d\<in>set names. run_key d \<noteq> None" "inj_on run_key (set names)"
  shows "run_at (collect_runs names) arm t = Some d \<longleftrightarrow> d \<in> set names \<and> run_key d = Some (t, arm)"
  using assms
proof (induction names rule: rev_induct)
  case (snoc name names)
  obtain s a where k: "run_key name = Some (s, a)" using snoc.prems(1) by auto
  have "run_at (collect_runs (names @ [name])) arm t = (if arm = a \<and> t = s then Some name else run_at (collect_runs names) arm t)"
    using run_at_put [OF k] by (simp add: collect_runs_def)
  moreover have "run_at (collect_runs names) arm t = Some d \<longleftrightarrow> d \<in> set names \<and> run_key d = Some (t, arm)"
    using snoc by (auto intro: inj_on_subset)
  ultimately show ?case using k snoc.prems(2) by (auto simp: inj_on_def)
qed (simp add: collect_runs_def run_at_def)

text \<open>A base name that contains the tag of a trial itself is not read back: the leftmost tag wins.\<close>

lemma tagged_base_misread: "\<not> tag_free ''x-t2''" "run_key (trial_name ''x-t2'' 0 ''DZ'') = Some (2, ''t0-DZ'')"
  by code_simp+

text \<open>C26: For a base name in which no \<open>-t\<close>, digits and then a dash or the end occur, whatever the order in which the
  arms of the trials were run and the directories are listed, the tool files each run directory of a paired campaign
  under its arm and its trial, and nothing else. (Base names with such a tag are misread, \<open>tagged_base_misread\<close>.)\<close>

theorem trial_dirs_read:
  assumes "tag_free base"
    and "\<forall>k<n. \<exists>agents ag. run_trial hu np mf run_index base duration epochs only k (order k) agents = Inr (ag, rs k)"
    and "set names = (\<Union>k<n. (\<lambda>(arm, r). rr_run_name r) ` set (rs k))"
  shows "run_at (collect_runs names) arm t = Some d \<longleftrightarrow> (\<exists>k<n. t = int k \<and> arm \<in> set (order k) \<and> d = trial_name base k arm)"
proof -
  have tr: "map fst (rs k) = order k" "\<And>a r. (a, r) \<in> set (rs k) \<Longrightarrow> a \<in> set ARMS \<and> rr_run_name r = trial_name base k a" if "k < n" for k
    using assms(2) that run_trial_names by (blast, blast)
  have rs: "set (order k) = fst ` set (rs k)" if "k < n" for k using tr(1) [OF that] by (metis list.set_map)
  have mem: "name \<in> set names \<longleftrightarrow> (\<exists>k<n. \<exists>a\<in>set (order k). name = trial_name base k a)" for name
  proof
    assume "name \<in> set names"
    then obtain k a r where k: "k < n" "(a, r) \<in> set (rs k)" "name = rr_run_name r" unfolding assms(3) by auto
    then have "a \<in> set (order k)" using rs [OF k(1)] by (simp add: rev_image_eqI)
    then show "\<exists>k<n. \<exists>a\<in>set (order k). name = trial_name base k a" using tr(2) [OF k(1,2)] k(1,3) by blast
  next
    assume "\<exists>k<n. \<exists>a\<in>set (order k). name = trial_name base k a"
    then obtain k a where k: "k < n" "a \<in> set (order k)" "name = trial_name base k a" by blast
    then obtain r where r: "(a, r) \<in> set (rs k)" using rs [OF k(1)] by auto
    have "name = (\<lambda>(arm, r). rr_run_name r) (a, r)" using tr(2) [OF k(1) r] k(3) by simp
    then show "name \<in> set names" unfolding assms(3) using k(1) r by blast
  qed
  have arms: "a \<in> set ARMS" if "k < n" "a \<in> set (order k)" for k a
    using rs [OF that(1)] that(2) tr(2) [OF that(1)] by auto
  have key: "run_key (trial_name base k a) = Some (int k, a)" if "k < n" "a \<in> set (order k)" for k a
    by (rule run_key_trial [OF assms(1) arms [OF that]])
  have "inj_on run_key (set names)"
  proof (rule inj_onI)
    fix x y assume "x \<in> set names" "y \<in> set names" and eq: "run_key x = run_key y"
    then obtain k a l b where "x = trial_name base k a" "k < n" "a \<in> set (order k)" "y = trial_name base l b" "l < n" "b \<in> set (order l)"
      unfolding mem by blast
    then show "x = y" using eq key [of k a] key [of l b] by simp
  qed
  moreover have "\<forall>d\<in>set names. run_key d \<noteq> None" using mem key by (metis option.distinct(1))
  ultimately have "run_at (collect_runs names) arm t = Some d \<longleftrightarrow> d \<in> set names \<and> run_key d = Some (t, arm)"
    by (intro run_at_collect)
  also have "\<dots> \<longleftrightarrow> (\<exists>k<n. t = int k \<and> arm \<in> set (order k) \<and> d = trial_name base k arm)"
  proof
    assume "d \<in> set names \<and> run_key d = Some (t, arm)"
    then obtain k a where k: "k < n" "a \<in> set (order k)" "d = trial_name base k a" "run_key d = Some (t, arm)" unfolding mem by blast
    then have "t = int k" "arm = a" using key [OF k(1,2)] by simp_all
    then show "\<exists>k<n. t = int k \<and> arm \<in> set (order k) \<and> d = trial_name base k arm" using k(1-3) by blast
  next
    assume "\<exists>k<n. t = int k \<and> arm \<in> set (order k) \<and> d = trial_name base k arm"
    then show "d \<in> set names \<and> run_key d = Some (t, arm)" unfolding mem using key by blast
  qed
  finally show ?thesis .
qed

lemma run_fleet_total: "\<exists>ag A' r. run_fleet hu mf A agents name duration epoch None = Inr (ag, A', r)"
proof -
  have "\<not> list_ex (\<lambda>i. map_of A i = None) (sort (map fst A))" by (auto simp: list_ex_iff map_of_eq_None_iff)
  then show ?thesis unfolding run_fleet_def Let_def by (auto split: prod.splits)
qed

lemma run_trial_total:
  assumes "\<forall>arm\<in>set arms. \<exists>A. set_arm np mf run_index arm = Inr A"
  shows "\<exists>ag rs. run_trial hu np mf run_index base duration epochs None k arms agents = Inr (ag, rs)"
  using assms
proof (induction arms arbitrary: agents)
  case (Cons arm arms)
  obtain A where A: "set_arm np mf run_index arm = Inr A" using Cons.prems by auto
  obtain ag A' r where "run_fleet hu mf A agents (trial_name base k arm) duration (epochs arm) None = Inr (ag, A', r)"
    using run_fleet_total by blast
  moreover obtain ag' rs where "run_trial hu np mf run_index base duration epochs None k arms ag = Inr (ag', rs)"
    using Cons.IH [of ag] Cons.prems by auto
  ultimately show ?case using A by simp
qed simp

theorem trial_dirs_read_witness:
  "\<exists>rs. (\<forall>k<2. \<exists>agents ag. run_trial willing_hub demo_numpy demo_manifest 0 ''b-2'' 10 (\<lambda>arm. 100) None k [''LC0'', ''AA''] agents = Inr (ag, rs k)) \<and>
     (\<forall>names. set names = (\<Union>k<2. (\<lambda>(arm, r). rr_run_name r) ` set (rs k)) \<longrightarrow>
        run_at (collect_runs names) ''AA'' 1 = Some ''b-2-t1-AA'' \<and> run_at (collect_runs names) ''AA'' 2 = None)"
proof -
  have "\<forall>k. \<exists>rs. \<exists>agents ag. run_trial willing_hub demo_numpy demo_manifest 0 ''b-2'' 10 (\<lambda>arm. 100) None k [''LC0'', ''AA''] agents = Inr (ag, rs)"
  proof
    fix k
    have "\<forall>arm\<in>set [''LC0'', ''AA'']. \<exists>A. set_arm demo_numpy demo_manifest 0 arm = Inr A" using demo_arms by auto
    from run_trial_total [OF this, of willing_hub "''b-2''" 10 "\<lambda>arm. 100" k "\<lambda>i. True"]
    show "\<exists>rs. \<exists>agents ag. run_trial willing_hub demo_numpy demo_manifest 0 ''b-2'' 10 (\<lambda>arm. 100) None k [''LC0'', ''AA''] agents = Inr (ag, rs)"
      by blast
  qed
  then obtain rs where rs: "\<forall>k<2. \<exists>agents ag. run_trial willing_hub demo_numpy demo_manifest 0 ''b-2'' 10 (\<lambda>arm. 100) None k [''LC0'', ''AA''] agents
      = Inr (ag, rs k)" by metis
  have free: "tag_free ''b-2''" by (simp add: tag_head_def)
  have nm: "trial_name ''b-2'' 1 ''AA'' = ''b-2-t1-AA''" by code_simp
  have "run_at (collect_runs names) ''AA'' 1 = Some ''b-2-t1-AA'' \<and> run_at (collect_runs names) ''AA'' 2 = None"
    if names: "set names = (\<Union>k<2. (\<lambda>(arm, r). rr_run_name r) ` set (rs k))" for names
  proof -
    note c = trial_dirs_read [OF free rs names]
    have "run_at (collect_runs names) ''AA'' 1 = Some ''b-2-t1-AA''"
      unfolding c using nm by (intro exI [of _ "1 :: nat"]) simp
    moreover have "run_at (collect_runs names) ''AA'' 2 \<noteq> Some d" for d unfolding c by auto
    ultimately show ?thesis by (cases "run_at (collect_runs names) ''AA'' 2") auto
  qed
  then show ?thesis using rs by blast
qed

subsection \<open>Swapping the arms of a difference\<close>

lemma negated_minus: "negated (float_minus v w) = float_minus w v"
  by (cases v; cases w) (simp_all add: negated_def)

lemma differences_swapped: "trial_differences d b a trials key = map negated (trial_differences d a b trials key)"
  by (simp add: trial_differences_def Let_def negated_minus comp_def conj_commute)

lemma row_interval:
  assumes "paired_row d a b trials key = Some (m, Some (lo, hi), mark)"
  obtains n where "paired_interval (trial_differences d a b trials key) (95 / 100) = (Fin m, Fin lo, Fin hi, n)"
    "mark = (\<not> (lo \<le> 0 \<and> 0 \<le> hi))"
  using assms by (auto simp: paired_row_def split: prod.splits pyfloat.splits)

text \<open>Exchanging the arm and the baseline changes the sign of a row and leaves its verdict: an interval that excludes
  zero does so both ways. The mean of a row lies in its interval, and a starred row has a mean of one sign with both ends.\<close>

theorem paired_row_swapped:
  assumes "paired_row d a b trials key = Some (m, Some (lo, hi), mark)"
  shows "paired_row d b a trials key = Some (- m, Some (- hi, - lo), mark) \<and> lo \<le> m \<and> m \<le> hi \<and> (mark \<longleftrightarrow> 0 < lo \<or> hi < 0)"
proof -
  obtain n where i: "paired_interval (trial_differences d a b trials key) (95 / 100) = (Fin m, Fin lo, Fin hi, n)"
    "mark = (\<not> (lo \<le> 0 \<and> 0 \<le> hi))" by (rule row_interval [OF assms])
  have "paired_interval (trial_differences d b a trials key) (95 / 100) = (Fin (- m), Fin (- hi), Fin (- lo), n)" "lo \<le> m" "m \<le> hi"
    using interval_mirrored [OF i(1), of "95 / 100"] by (simp_all add: differences_swapped [of d b a])
  then show ?thesis using i(2) by (auto simp: paired_row_def)
qed

theorem paired_row_swapped_witness:
  "paired_row [(''AA'', [(0, [(''T'', Fin 3)]), (1, [(''T'', Fin 3)])]), (''DZ'', [(0, [(''T'', Fin 1)]), (1, [(''T'', Fin 1)])])] ''DZ'' ''AA'' [0, 1] ''T''
     = Some (- 2, Some (- 2, - 2), True)"
proof -
  have "paired_row [(''AA'', [(0, [(''T'', Fin 3)]), (1, [(''T'', Fin 3)])]), (''DZ'', [(0, [(''T'', Fin 1)]), (1, [(''T'', Fin 1)])])] ''AA'' ''DZ'' [0, 1] ''T''
     = Some (2, Some (2, 2), True)"
    by (simp add: paired_row_def trial_differences_def dict_get_def paired_interval_def finite_values_def std_error_def)
  from paired_row_swapped [OF this] show ?thesis by simp
qed

subsection \<open>When the tool refuses\<close>

lemma metrics_main_refuses:
  "metrics_main run a names = Inr None \<longleftrightarrow>
     summary_keys a = None \<or> collect_runs names = [] \<or> choose_arms (ma_arms a) (collect_runs names) = None"
  by (auto simp: metrics_main_def Let_def bindR_eq_Inr split: option.splits)

end
