(* ===== verification/HostNet.thy ===== *)
theory HostNet
  imports Control Manifest Campaign RunLog Units
begin

section \<open>Ports, addressing and the host's interfaces (net.py)\<close>

text \<open>
  What the kernel and the tool \<^verbatim>\<open>iw\<close> answer are the fields of \<open>net_ops\<close>; a command may change the machine, an
  argument of type \<open>'m\<close>. \<open>list_interfaces\<close>, \<open>interface_broadcast\<close> and \<open>interface_prefixlen\<close> read the kernel's
  256-byte reply, \<open>wlan_state\<close> and \<open>set_wlan_txpower\<close> drive \<^verbatim>\<open>iw\<close> and parse what it prints, the patterns of the
  code being functions on strings of ASCII. An IPv4 address is a 32-bit word with its text in \<open>show_ipv4\<close> and
  \<open>parse_ipv4\<close>. The theorems relate the broadcast address of an assumed prefix to the true one and say what a
  matched transmit power means.
\<close>

subsection \<open>IPv4 addresses\<close>

type_synonym ipv4 = "32 word"

definition octets :: "ipv4 \<Rightarrow> nat list" where
  "octets a = map (\<lambda>k. unat (drop_bit k a) mod 256) [24, 16, 8, 0]"

fun join_dots :: "string list \<Rightarrow> string" where
  "join_dots [] = []"
| "join_dots [s] = s"
| "join_dots (s # t # ss) = s @ ''.'' @ join_dots (t # ss)"

definition show_ipv4 :: "ipv4 \<Rightarrow> string" where
  "show_ipv4 a = join_dots (map show_nat (octets a))"

definition of_octets :: "nat list \<Rightarrow> ipv4" where
  "of_octets os = of_nat (foldl (\<lambda>n k. 256 * n + k) 0 os)"

definition parse_ipv4 :: "string \<Rightarrow> ipv4 result" where
  "parse_ipv4 s = (if valid_ipv4 s then Inr (of_octets (map decimal (str_split CHR ''.'' s))) else Inl ValueError)"

definition host_mask :: "nat \<Rightarrow> ipv4" where
  "host_mask p = mask (32 - p)"

definition net_mask :: "nat \<Rightarrow> ipv4" where
  "net_mask p = NOT (host_mask p)"

text \<open>\<^verbatim>\<open>str(IPv4Network(f"{ip}/{prefixlen}", strict=False).broadcast_address)\<close>.\<close>

definition broadcast_of :: "ipv4 \<Rightarrow> nat \<Rightarrow> ipv4" where
  "broadcast_of a p = a OR host_mask p"

definition broadcast_address :: "string \<Rightarrow> nat \<Rightarrow> string result" where
  "broadcast_address ip prefixlen =
     bindR (parse_ipv4 ip) (\<lambda>a. if prefixlen > 32 then Inl ValueError else Inr (show_ipv4 (broadcast_of a prefixlen)))"

text \<open>\<^verbatim>\<open>IPv4Network(f"0.0.0.0/{mask}").prefixlen\<close>: a netmask, or else a host mask.\<close>

definition mask_prefixlen :: "ipv4 \<Rightarrow> nat option" where
  "mask_prefixlen m =
     (case filter (\<lambda>p. net_mask p = m) [0..<33] of p # _ \<Rightarrow> Some p
      | [] \<Rightarrow> (case filter (\<lambda>p. host_mask p = m) [0..<33] of p # _ \<Rightarrow> Some p | [] \<Rightarrow> None))"

subsection \<open>Ports\<close>

definition HUB_PORT :: int where "HUB_PORT = 3000"

definition STATE_PORT :: int where "STATE_PORT = 3010"

definition CONTROL_PORTS :: "agent_type \<Rightarrow> int" where
  "CONTROL_PORTS t = (case t of BLE \<Rightarrow> 3001 | WIFI \<Rightarrow> 3002 | BRIDGE \<Rightarrow> 3003)"

definition control_endpoint :: "string \<Rightarrow> agent_type \<Rightarrow> string" where
  "control_endpoint ip t = ''http://'' @ ip @ '':'' @ str_int (CONTROL_PORTS t)"

definition state_endpoint :: "string \<Rightarrow> string \<times> int" where
  "state_endpoint ip = (ip, STATE_PORT)"

subsection \<open>The kernel\<close>

datatype ran = Ran int string string | Unrun string

record 'm net_ops =
  no_names :: "string list"
  no_ioctl :: "int \<Rightarrow> string \<Rightarrow> bytes option"
  no_which :: "string \<Rightarrow> string option"
  no_exists :: "string \<Rightarrow> bool"
  no_root :: bool
  no_run :: "'m \<Rightarrow> string list \<Rightarrow> 'm \<times> ran"

definition SIOCGIFADDR :: int where "SIOCGIFADDR = 35093"

definition SIOCGIFBRDADDR :: int where "SIOCGIFBRDADDR = 35097"

definition SIOCGIFNETMASK :: int where "SIOCGIFNETMASK = 35099"

definition DEFAULT_INTERFACE :: string where "DEFAULT_INTERFACE = ''wlan0''"

text \<open>\<^verbatim>\<open>inet_ntoa(packed[20:24])\<close>; a slice of another length is an error.\<close>

definition reply_address :: "bytes \<Rightarrow> ipv4 option" where
  "reply_address p = (let s = take 4 (drop 20 p) in if length s = 4 then Some (of_octets (map unat s)) else None)"

definition query_address :: "'m net_ops \<Rightarrow> int \<Rightarrow> string \<Rightarrow> ipv4 option" where
  "query_address no request name = (case no_ioctl no request (take 15 name) of None \<Rightarrow> None | Some p \<Rightarrow> reply_address p)"

definition list_interfaces :: "'m net_ops \<Rightarrow> (string \<times> string) list" where
  "list_interfaces no =
     foldl (\<lambda>found name. case query_address no SIOCGIFADDR name of None \<Rightarrow> found | Some a \<Rightarrow> AList.update name (show_ipv4 a) found)
       [] (no_names no)"

definition resolve_local_ip :: "'m net_ops \<Rightarrow> string \<Rightarrow> (string \<times> string) list option \<Rightarrow> string result" where
  "resolve_local_ip no interface interfaces =
     (let table = (case interfaces of None \<Rightarrow> list_interfaces no | Some t \<Rightarrow> t) in
      case map_of table interface of Some ip \<Rightarrow> Inr ip | None \<Rightarrow> Inl InterfaceError)"

definition interface_broadcast :: "'m net_ops \<Rightarrow> string \<Rightarrow> string result" where
  "interface_broadcast no interface =
     (case query_address no SIOCGIFBRDADDR interface of None \<Rightarrow> Inl InterfaceError | Some a \<Rightarrow> Inr (show_ipv4 a))"

definition interface_for_ip :: "'m net_ops \<Rightarrow> string \<Rightarrow> string option" where
  "interface_for_ip no ip =
     (case filter (\<lambda>(name, addr). addr = ip) (list_interfaces no) of [] \<Rightarrow> None | (name, _) # _ \<Rightarrow> Some name)"

definition interface_prefixlen :: "'m net_ops \<Rightarrow> string \<Rightarrow> nat option" where
  "interface_prefixlen no interface = Option.bind (query_address no SIOCGIFNETMASK interface) mask_prefixlen"

subsection \<open>What iw prints\<close>

definition word_char :: "char \<Rightarrow> bool" where
  "word_char c \<longleftrightarrow> (let n = of_char c :: nat in 48 \<le> n \<and> n \<le> 57 \<or> 65 \<le> n \<and> n \<le> 90 \<or> 97 \<le> n \<and> n \<le> 122 \<or> n = 95)"

definition space_char :: "char \<Rightarrow> bool" where
  "space_char c \<longleftrightarrow> (let n = of_char c :: nat in 9 \<le> n \<and> n \<le> 13 \<or> 28 \<le> n \<and> n \<le> 32)"

definition lower :: "string \<Rightarrow> string" where
  "lower s = map (\<lambda>c. let n = of_char c :: nat in if 65 \<le> n \<and> n \<le> 90 then char_of (n + 32) else c) s"

text \<open>A pattern is a function from a text to what it captures and the rest.\<close>

type_synonym 'a pattern = "string \<Rightarrow> ('a \<times> string) option"

definition lit :: "string \<Rightarrow> unit pattern" where
  "lit p s = (if take (length p) s = p then Some ((), drop (length p) s) else None)"

definition many :: "(char \<Rightarrow> bool) \<Rightarrow> string pattern" where
  "many P s = Some (takeWhile P s, dropWhile P s)"

definition some_of :: "(char \<Rightarrow> bool) \<Rightarrow> string pattern" where
  "some_of P s = (if takeWhile P s = [] then None else many P s)"

definition followed :: "'a pattern \<Rightarrow> ('a \<Rightarrow> 'b pattern) \<Rightarrow> 'b pattern" where
  "followed p q s = (case p s of None \<Rightarrow> None | Some (x, r) \<Rightarrow> q x r)"

definition yielding :: "'a \<Rightarrow> 'a pattern" where
  "yielding x s = Some (x, s)"

fun search_for :: "'a pattern \<Rightarrow> string \<Rightarrow> 'a option" where
  "search_for p [] = map_option fst (p [])"
| "search_for p (c # cs) = (case p (c # cs) of Some (x, r) \<Rightarrow> Some x | None \<Rightarrow> search_for p cs)"

definition power_save_pattern :: "string pattern" where
  "power_save_pattern = followed (lit ''Power save:'') (\<lambda>_. followed (many space_char) (\<lambda>_. some_of word_char))"

definition channel_pattern :: "(string \<times> string) pattern" where
  "channel_pattern =
     followed (lit ''channel'') (\<lambda>_. followed (some_of space_char) (\<lambda>_. followed (some_of is_digit) (\<lambda>ch.
     followed (some_of space_char) (\<lambda>_. followed (lit ''('') (\<lambda>_. followed (some_of is_digit) (\<lambda>fr.
     followed (many space_char) (\<lambda>_. followed (lit ''MHz)'') (\<lambda>_. yielding (ch, fr)))))))))"

definition txpower_pattern :: "string pattern" where
  "txpower_pattern =
     followed (lit ''txpower'') (\<lambda>_. followed (some_of space_char) (\<lambda>_.
     followed (some_of (\<lambda>c. is_digit c \<or> c = CHR ''-'' \<or> c = CHR ''.'')) (\<lambda>p.
     followed (many space_char) (\<lambda>_. followed (lit ''dBm'') (\<lambda>_. yielding p)))))"

definition type_pattern :: "string pattern" where
  "type_pattern = followed (lit ''type'') (\<lambda>_. followed (some_of space_char) (\<lambda>_. some_of word_char))"

text \<open>Python's \<^verbatim>\<open>float\<close> on a text of digits, points and signs.\<close>

definition dec_float :: "string \<Rightarrow> real result" where
  "dec_float s =
     (let neg = (s \<noteq> [] \<and> hd s = CHR ''-''); u = (if neg then tl s else s); i = takeWhile is_digit u; r = dropWhile is_digit u;
          f = (if r \<noteq> [] \<and> hd r = CHR ''.'' then tl r else r)
      in if i @ f = [] \<or> \<not> list_all is_digit f \<or> (r \<noteq> [] \<and> hd r \<noteq> CHR ''.'') then Inl ValueError
         else let v = of_nat (decimal (i @ f)) / 10 ^ length f in Inr (if neg then - v else v))"

subsection \<open>The radio of the host\<close>

definition iw_binary :: "'m net_ops \<Rightarrow> string option" where
  "iw_binary no =
     (case no_which no ''iw'' of Some p \<Rightarrow> Some p
      | None \<Rightarrow> (case filter (no_exists no) [''/usr/sbin/iw'', ''/sbin/iw'', ''/usr/local/sbin/iw''] of [] \<Rightarrow> None | p # _ \<Rightarrow> Some p))"

definition run_text :: "'m net_ops \<Rightarrow> 'm \<Rightarrow> string list \<Rightarrow> 'm \<times> string" where
  "run_text no m args = (case no_run no m args of (m', Ran rc out err) \<Rightarrow> (m', out) | (m', Unrun e) \<Rightarrow> (m', []))"

definition power_fields :: "string \<Rightarrow> jdict result" where
  "power_fields info =
     (case search_for txpower_pattern info of None \<Rightarrow> Inr []
      | Some s \<Rightarrow> bindR (dec_float s) (\<lambda>tp.
          Inr ([(''wlan_txpower_dbm'', JFloat tp), (''wlan_txpower_trusted'', JBool (tp < 30))] @
               (if tp \<ge> 30 then [(''wlan_txpower_note'', JStr ''driver placeholder, not a measurement -- treat as unknown'')] else []))))"

definition wlan_state :: "'m net_ops \<Rightarrow> 'm \<Rightarrow> string \<Rightarrow> 'm \<times> jdict result" where
  "wlan_state no m interface =
     (case iw_binary no of None \<Rightarrow> (m, Inr [])
      | Some iw \<Rightarrow>
          (let (m1, ps) = run_text no m [iw, ''dev'', interface, ''get'', ''power_save''];
               (m2, info) = run_text no m1 [iw, ''dev'', interface, ''info''];
               save = (case search_for power_save_pattern ps of None \<Rightarrow> [] | Some w \<Rightarrow> [(''power_save'', JStr (lower w))]);
               ch = (case search_for channel_pattern info of None \<Rightarrow> []
                     | Some (c, f) \<Rightarrow> [(''wlan_channel'', JInt (int (decimal c))), (''wlan_freq_mhz'', JInt (int (decimal f)))]);
               ty = (case search_for type_pattern info of None \<Rightarrow> [] | Some w \<Rightarrow> [(''wlan_type'', JStr w)])
           in (m2, bindR (power_fields info) (\<lambda>tp. Inr (save @ ch @ tp @ ty)))))"

text \<open>The fields of a command that was carried out or not.\<close>

definition command_fields :: "ran \<Rightarrow> jdict" where
  "command_fields r =
     (case r of
        Ran rc out err \<Rightarrow>
          (''wlan_txpower_set'', JBool (rc = 0)) #
          (if rc = 0 then [] else [(''wlan_txpower_error'', JStr (take 200 (py_strip (if err = [] then out else err))))])
      | Unrun e \<Rightarrow> [(''wlan_txpower_set'', JBool False), (''wlan_txpower_error'', JStr e)])"

definition readback_fields :: "real \<Rightarrow> jdict \<Rightarrow> jdict" where
  "readback_fields dbm st =
     (case map_of st ''wlan_txpower_dbm'' of
        Some (JFloat b) \<Rightarrow> [(''wlan_txpower_readback_dbm'', JFloat b), (''wlan_txpower_matched'', JBool (\<bar>b - dbm\<bar> < 1 / 2))]
      | _ \<Rightarrow> [(''wlan_txpower_readback_dbm'', JNull), (''wlan_txpower_matched'', JBool False)])"

definition set_wlan_txpower :: "'m net_ops \<Rightarrow> 'm \<Rightarrow> string \<Rightarrow> real \<Rightarrow> 'm \<times> jdict result" where
  "set_wlan_txpower no m iface dbm =
     (let out = [(''wlan_txpower_requested_dbm'', JFloat dbm)];
          refused = (\<lambda>why. out @ [(''wlan_txpower_set'', JBool False), (''wlan_txpower_error'', JStr why)])
      in case iw_binary no of None \<Rightarrow> (m, Inr (refused ''iw not found''))
      | Some iw \<Rightarrow>
          (let cmd = [iw, ''dev'', iface, ''set'', ''txpower'', ''fixed'', str_int (py_round (dbm * 100))] in
           if \<not> no_root no \<and> no_which no ''sudo'' = None then (m, Inr (refused ''not root, no sudo''))
           else
             let (m1, r) = no_run no m (if no_root no then cmd else [''sudo'', ''-n''] @ cmd);
                 (m2, st) = wlan_state no m1 iface
             in (m2, bindR st (\<lambda>d. Inr (out @ command_fields r @ readback_fields dbm d)))))"

subsection \<open>The text of an address\<close>

lemma str_split_append:
  assumes "CHR ''.'' \<notin> set s"
  shows "str_split CHR ''.'' (s @ CHR ''.'' # r) = s # str_split CHR ''.'' r"
  using assms by (induction s) auto

lemma str_split_one: "c \<notin> set s \<Longrightarrow> str_split c s = [s]"
  by (induction s) auto

lemma split_join:
  assumes "ss \<noteq> []" "\<forall>s\<in>set ss. CHR ''.'' \<notin> set s"
  shows "str_split CHR ''.'' (join_dots ss) = ss"
  using assms by (induction ss rule: join_dots.induct) (auto simp: str_split_append str_split_one)

lemma show_nat_chars: "c \<in> set (show_nat n) \<Longrightarrow> is_digit c"
  using show_nat_digits [of n] by (auto simp: is_digit_def list_all_iff)

lemma decimal_show: "decimal (show_nat n) = n"
proof (induction n rule: show_nat.induct)
  case (1 n)
  have d: "of_char (char_of (48 + d :: nat) :: char) = 48 + d" if "d < 10" for d
    using that by (simp add: of_char_of take_bit_eq_mod)
  have "n mod 10 < 10" by simp
  then show ?case using 1 d [of n] d [of "n mod 10"]
    by (subst show_nat.simps) (auto simp: decimal_def simp del: of_char_of)
qed

lemma digit_chars:
  "char_of (48 :: nat) = CHR ''0''" "char_of (49 :: nat) = CHR ''1''" "char_of (50 :: nat) = CHR ''2''" "char_of (51 :: nat) = CHR ''3''"
  "char_of (52 :: nat) = CHR ''4''" "char_of (53 :: nat) = CHR ''5''" "char_of (54 :: nat) = CHR ''6''" "char_of (55 :: nat) = CHR ''7''"
  "char_of (56 :: nat) = CHR ''8''" "char_of (57 :: nat) = CHR ''9''"
  by code_simp+

lemma show_nat_length: "n < 1000 \<Longrightarrow> length (show_nat n) \<le> 3"
proof -
  have one: "length (show_nat m) = 1" if "m < 10" for m using that by (subst show_nat.simps) simp
  have two: "length (show_nat m) \<le> 2" if "m < 100" for m
    using that one [of "m div 10"] one [of m] by (subst show_nat.simps) auto
  show "n < 1000 \<Longrightarrow> length (show_nat n) \<le> 3" using two [of "n div 10"] by (subst show_nat.simps) auto
qed

lemma show_nat_head: "0 < n \<Longrightarrow> show_nat n ! 0 \<noteq> CHR ''0''"
proof (induction n rule: show_nat.induct)
  case (1 n)
  have ne: "show_nat m \<noteq> []" for m using show_nat_digits by blast
  show ?case
  proof (cases "n < 10")
    case True
    then have "of_char (char_of (48 + n) :: char) = 48 + n" by (simp add: of_char_of take_bit_eq_mod)
    moreover have "of_char CHR ''0'' = (48 :: nat)" by simp
    ultimately have "char_of (48 + n) \<noteq> CHR ''0''" using 1(2) by (metis add_cancel_right_right less_numeral_extra(3))
    then show ?thesis using True by (subst show_nat.simps) simp
  next
    case False
    then have "show_nat (n div 10) ! 0 \<noteq> CHR ''0''" using 1 by simp
    then show ?thesis using False ne by (subst show_nat.simps) (simp add: nth_append)
  qed
qed

lemma octet_show:
  assumes "n < 256"
  shows "octet_ok (show_nat n)"
proof -
  have "show_nat n \<noteq> []" "list_all is_digit (show_nat n)" "length (show_nat n) \<le> 3"
    using show_nat_digits [of n] show_nat_length [of n] assms by (simp_all add: is_digit_def list_all_iff)
  moreover have "show_nat n = ''0'' \<or> show_nat n ! 0 \<noteq> CHR ''0''"
  proof (cases "n = 0")
    case True
    then show ?thesis by (subst show_nat.simps) (simp add: digit_chars)
  qed (simp add: show_nat_head)
  ultimately show ?thesis using assms by (simp add: octet_ok_def decimal_show)
qed

lemma octets_bound: "k \<in> set (octets a) \<Longrightarrow> k < 256"
  by (auto simp: octets_def)

lemma octets_div: "octets a = [unat a div 2 ^ 24 mod 256, unat a div 2 ^ 16 mod 256, unat a div 2 ^ 8 mod 256, unat a mod 256]"
  by (simp add: octets_def drop_bit_eq_div unat_div_distrib)

lemma octets_value: "of_octets (octets a) = a"
proof -
  define n where "n = unat a"
  have n: "n < 2 ^ 32" unfolding n_def by (rule order_less_le_trans [OF unsigned_less]) simp
  have "octets a = [n div 2 ^ 24 mod 256, n div 2 ^ 16 mod 256, n div 2 ^ 8 mod 256, n mod 256]"
    unfolding n_def by (rule octets_div)
  moreover have "256 * (256 * (256 * (n div 2 ^ 24 mod 256) + n div 2 ^ 16 mod 256) + n div 2 ^ 8 mod 256) + n mod 256 = n"
  proof -
    have d: "n div 2 ^ 16 = n div 256 div 256" "n div 2 ^ 24 = n div 256 div 256 div 256" by (simp_all add: div_mult2_eq [symmetric])
    have "n div 256 div 256 div 256 < 256" using n by (simp add: div_mult2_eq [symmetric] less_mult_imp_div_less)
    then have top: "n div 256 div 256 div 256 mod 256 = n div 256 div 256 div 256" by simp
    show ?thesis unfolding d top by (simp only: mult_div_mod_eq power_one_right) simp
  qed
  moreover have "foldl (\<lambda>n k. 256 * n + k) 0 [w, x, y, z] = 256 * (256 * (256 * w + x) + y) + z" for w x y z :: nat by simp
  ultimately have "foldl (\<lambda>n k. 256 * n + k) 0 (octets a) = n" by (simp only:)
  then show ?thesis by (simp add: of_octets_def n_def)
qed

lemma split_show: "str_split CHR ''.'' (show_ipv4 a) = map show_nat (octets a)"
  unfolding show_ipv4_def
proof (rule split_join)
  show "map show_nat (octets a) \<noteq> []" by (simp add: octets_def)
  have "\<not> is_digit CHR ''.''" by (simp add: is_digit_def)
  then show "\<forall>s\<in>set (map show_nat (octets a)). CHR ''.'' \<notin> set s" using show_nat_chars by fastforce
qed

lemma join_chars: "c \<in> set (join_dots ss) \<Longrightarrow> c = CHR ''.'' \<or> (\<exists>s\<in>set ss. c \<in> set s)"
  by (induction ss rule: join_dots.induct) auto

text \<open>An address survives its text.\<close>

theorem ipv4_text: "valid_ipv4 (show_ipv4 a) \<and> parse_ipv4 (show_ipv4 a) = Inr a"
proof -
  have "\<not> is_digit CHR ''/''" by (simp add: is_digit_def)
  then have "CHR ''/'' \<notin> set (show_ipv4 a)"
    unfolding show_ipv4_def using show_nat_chars by (auto dest!: join_chars)
  moreover have "list_all octet_ok (map show_nat (octets a))" using octets_bound octet_show by (auto simp: list_all_iff)
  moreover have "length (octets a) = 4" by (simp add: octets_def)
  ultimately have "valid_ipv4 (show_ipv4 a)" by (simp add: valid_ipv4_def split_show)
  moreover have "map decimal (map show_nat (octets a)) = octets a" by (simp add: decimal_show comp_def)
  ultimately show ?thesis using octets_value by (simp add: parse_ipv4_def split_show)
qed

subsection \<open>Assumed and true prefix\<close>

lemma bit_broadcast: "bit (broadcast_of a p) k \<longleftrightarrow> k < 32 \<and> (k < 32 - p \<or> bit a k)"
  by (auto simp: broadcast_of_def host_mask_def bit_simps dest: bit_imp_le_length)

definition same_net :: "nat \<Rightarrow> ipv4 \<Rightarrow> ipv4 \<Rightarrow> bool" where
  "same_net p a b \<longleftrightarrow> a AND net_mask p = b AND net_mask p"

lemma same_net_bits: "same_net p a b \<longleftrightarrow> (\<forall>k. 32 - p \<le> k \<and> k < 32 \<longrightarrow> bit a k = bit b k)"
  unfolding same_net_def by (auto simp: bit_eq_iff net_mask_def host_mask_def bit_simps not_less)

text \<open>Two hosts broadcast to one address exactly when they are in one subnet, and the address belongs to it.\<close>

lemma broadcast_same_net: "broadcast_of a p = broadcast_of b p \<longleftrightarrow> same_net p a b"
  unfolding same_net_bits bit_eq_iff bit_broadcast by (simp; meson not_less)

lemma broadcast_in_net: "same_net p (broadcast_of a p) a"
  by (auto simp: same_net_bits bit_broadcast)

text \<open>The prefix assumed when the interface is unknown names the true broadcast address of a wider network only for
  the hosts of its last part; for every other host the datagrams go to an ordinary address of that network.\<close>

theorem assumed_prefix:
  assumes "p \<le> q" "q \<le> 32"
  shows "(broadcast_of a q = broadcast_of a p \<longleftrightarrow> same_net q a (broadcast_of a p)) \<and> same_net p (broadcast_of a q) a"
proof -
  have "broadcast_of (broadcast_of a p) q = broadcast_of a p" using assms by (auto simp: bit_eq_iff bit_broadcast)
  then have "broadcast_of a q = broadcast_of a p \<longleftrightarrow> same_net q a (broadcast_of a p)"
    using broadcast_same_net [of a q "broadcast_of a p"] by simp
  moreover have "same_net p (broadcast_of a q) a" using assms by (auto simp: same_net_bits bit_broadcast)
  ultimately show ?thesis by simp
qed

text \<open>The address of a laboratory host: the /24 guess is an ordinary host address of its /22.\<close>

theorem assumed_prefix_witness:
  "broadcast_address ''10.6.5.13'' 24 = Inr ''10.6.5.255'' \<and> broadcast_address ''10.6.5.13'' 22 = Inr ''10.6.7.255'' \<and>
   same_net 22 (broadcast_of (of_octets [10, 6, 5, 13]) 24) (of_octets [10, 6, 5, 13])"
proof -
  have net: "same_net 22 (broadcast_of (of_octets [10, 6, 5, 13]) 24) (of_octets [10, 6, 5, 13])"
    using assumed_prefix [of 22 24 "of_octets [10, 6, 5, 13]"] by simp
  have "parse_ipv4 ''10.6.5.13'' = Inr 168166669"
    using dg_hosts_valid(5) by (simp add: parse_ipv4_def decimal_def of_octets_def)
  moreover have "broadcast_of 168166669 24 = 168166911" "broadcast_of 168166669 22 = 168167423"
    by (simp_all add: broadcast_of_def host_mask_def mask_eq_exp_minus_1)
  moreover have "show_ipv4 168166911 = ''10.6.5.255''" "show_ipv4 168167423 = ''10.6.7.255''"
    by (simp_all add: show_ipv4_def octets_div show_nat.simps digit_chars)
  ultimately have "broadcast_address ''10.6.5.13'' 24 = Inr ''10.6.5.255''" "broadcast_address ''10.6.5.13'' 22 = Inr ''10.6.7.255''"
    by (simp_all add: broadcast_address_def)
  then show ?thesis using net by simp
qed

subsection \<open>Interfaces by address\<close>

lemma list_interfaces_distinct: "distinct (map fst (list_interfaces no))"
proof -
  have "distinct (map fst (foldl (\<lambda>found name. case query_address no SIOCGIFADDR name of None \<Rightarrow> found
      | Some a \<Rightarrow> AList.update name (show_ipv4 a) found) t names))" if "distinct (map fst t)" for t names
    using that by (induction names arbitrary: t) (auto simp: distinct_update split: option.splits)
  then show ?thesis by (simp add: list_interfaces_def)
qed

lemma no_address: "filter (\<lambda>(name, addr). addr = ip) xs = [] \<longleftrightarrow> ip \<notin> snd ` set xs"
  by (induction xs) auto

text \<open>The interface found for an address resolves to that address, and none is found only when no interface has it.\<close>

theorem interface_for_ip_resolves:
  "(interface_for_ip no ip = Some name \<longrightarrow> resolve_local_ip no name None = Inr ip) \<and>
   (interface_for_ip no ip = None \<longleftrightarrow> ip \<notin> snd ` set (list_interfaces no))"
proof
  show "interface_for_ip no ip = Some name \<longrightarrow> resolve_local_ip no name None = Inr ip"
  proof
    assume "interface_for_ip no ip = Some name"
    then obtain rest where "filter (\<lambda>(name, addr). addr = ip) (list_interfaces no) = (name, ip) # rest"
      by (auto simp: interface_for_ip_def split: list.splits dest: filter_eq_ConsD)
    then have "(name, ip) \<in> set (filter (\<lambda>(name, addr). addr = ip) (list_interfaces no))" by simp
    then have "map_of (list_interfaces no) name = Some ip" using map_of_eq_Some_iff [OF list_interfaces_distinct [of no]] by simp
    then show "resolve_local_ip no name None = Inr ip" by (simp add: resolve_local_ip_def)
  qed
  show "interface_for_ip no ip = None \<longleftrightarrow> ip \<notin> snd ` set (list_interfaces no)"
  proof -
    have "interface_for_ip no ip = None \<longleftrightarrow> filter (\<lambda>(name, addr). addr = ip) (list_interfaces no) = []"
      by (cases "filter (\<lambda>(name, addr). addr = ip) (list_interfaces no)") (simp_all add: interface_for_ip_def case_prod_beta)
    then show ?thesis by (simp add: no_address)
  qed
qed

definition one_interface :: "unit net_ops" where
  "one_interface = \<lparr>no_names = [''lo'', ''wlan0''],
     no_ioctl = (\<lambda>r name. if name = ''wlan0'' then Some (replicate 20 0 @ [10, 6, 5, 13] @ replicate 232 0) else None),
     no_which = (\<lambda>p. Some (''/sbin/'' @ p)), no_exists = (\<lambda>p. False), no_root = True,
     no_run = (\<lambda>m args. (m, Ran 0 (if last args = ''info'' then ''type managed txpower 31.00 dBm'' else []) []))\<rparr>"

theorem interface_for_ip_resolves_witness: "resolve_local_ip one_interface ''wlan0'' None = Inr ''10.6.5.13''"
proof -
  have "show_ipv4 168166669 = ''10.6.5.13''" by (simp add: show_ipv4_def octets_div show_nat.simps digit_chars)
  then have "list_interfaces one_interface = [(''wlan0'', ''10.6.5.13'')]"
    by (simp add: list_interfaces_def one_interface_def query_address_def reply_address_def of_octets_def)
  then have "interface_for_ip one_interface ''10.6.5.13'' = Some ''wlan0''" by (simp add: interface_for_ip_def)
  then show ?thesis using interface_for_ip_resolves [of one_interface "''10.6.5.13''" "''wlan0''"] by simp
qed

subsection \<open>A transmit power that matched\<close>

lemma command_fields_keys: "key \<in> fst ` set (command_fields r) \<Longrightarrow> key \<in> {''wlan_txpower_set'', ''wlan_txpower_error''}"
  by (auto simp: command_fields_def split: ran.splits if_splits)

lemma readback_lookup:
  "map_of (readback_fields dbm st) ''wlan_txpower_matched'' = Some (JBool True) \<longleftrightarrow>
     (\<exists>b. map_of st ''wlan_txpower_dbm'' = Some (JFloat b) \<and> \<bar>b - dbm\<bar> < 1 / 2)"
  by (auto simp: readback_fields_def split: option.splits json.splits)

lemma map_of_skip: "k \<notin> fst ` set xs \<Longrightarrow> map_of (xs @ ys) k = map_of ys k"
  by (simp add: map_add_dom_app_simps(3) dom_map_of_conv_image_fst)

text \<open>A power is reported as matched exactly when the tool was found and may be run, and what the interface reports
  after the command is within half a decibel of the request, whatever the command itself answered.\<close>

theorem txpower_matched:
  assumes "set_wlan_txpower no m iface dbm = (m', Inr d)"
  shows "map_of d ''wlan_txpower_matched'' = Some (JBool True) \<longleftrightarrow>
     (iw_binary no \<noteq> None \<and> (no_root no \<or> no_which no ''sudo'' \<noteq> None) \<and>
      (\<exists>m1 st b. wlan_state no m1 iface = (m', Inr st) \<and> map_of st ''wlan_txpower_dbm'' = Some (JFloat b) \<and> \<bar>b - dbm\<bar> < 1 / 2 \<and>
        map_of d ''wlan_txpower_readback_dbm'' = Some (JFloat b)))"
proof (cases "iw_binary no \<noteq> None \<and> (no_root no \<or> no_which no ''sudo'' \<noteq> None)")
  case True
  then obtain iw where iw: "iw_binary no = Some iw" by blast
  obtain m1 r where r: "no_run no m (if no_root no then [iw, ''dev'', iface, ''set'', ''txpower'', ''fixed'', str_int (py_round (dbm * 100))]
      else [''sudo'', ''-n''] @ [iw, ''dev'', iface, ''set'', ''txpower'', ''fixed'', str_int (py_round (dbm * 100))]) = (m1, r)"
    by (rule prod.exhaust)
  obtain m2 st where w: "wlan_state no m1 iface = (m2, st)" by (rule prod.exhaust)
  have res: "set_wlan_txpower no m iface dbm =
    (m2, bindR st (\<lambda>d. Inr ([(''wlan_txpower_requested_dbm'', JFloat dbm)] @ command_fields r @ readback_fields dbm d)))"
  proof -
    have "\<not> (\<not> no_root no \<and> no_which no ''sudo'' = None)" using True by blast
    then show ?thesis unfolding set_wlan_txpower_def iw by (simp only: Let_def option.case if_False r w prod.case)
  qed
  then obtain s where s: "st = Inr s" "m' = m2" "d = [(''wlan_txpower_requested_dbm'', JFloat dbm)] @ command_fields r @ readback_fields dbm s"
    using assms by (cases st) auto
  have look: "map_of d key = map_of (readback_fields dbm s) key"
    if "key \<in> {''wlan_txpower_matched'', ''wlan_txpower_readback_dbm''}" for key
  proof -
    have "key \<notin> fst ` set ([(''wlan_txpower_requested_dbm'', JFloat dbm)] @ command_fields r)"
      using that command_fields_keys [of key r] by auto
    then show ?thesis using map_of_skip [of key "[(''wlan_txpower_requested_dbm'', JFloat dbm)] @ command_fields r"] s(3) by simp
  qed
  have match: "map_of d ''wlan_txpower_matched'' = Some (JBool True) \<longleftrightarrow>
      (\<exists>b. map_of s ''wlan_txpower_dbm'' = Some (JFloat b) \<and> \<bar>b - dbm\<bar> < 1 / 2)" using look readback_lookup by simp
  have val: "map_of d ''wlan_txpower_readback_dbm'' = Some (JFloat b)" if "map_of s ''wlan_txpower_dbm'' = Some (JFloat b)" for b
    using look that by (simp add: readback_fields_def)
  have rev: "\<exists>b. map_of s ''wlan_txpower_dbm'' = Some (JFloat b) \<and> \<bar>b - dbm\<bar> < 1 / 2"
    if "map_of d ''wlan_txpower_readback_dbm'' = Some (JFloat b)" "\<bar>b - dbm\<bar> < 1 / 2" for b
    using look that by (auto simp: readback_fields_def split: option.splits json.splits)
  show ?thesis using True match val rev w s(1,2) by blast
next
  case False
  then have "d = [(''wlan_txpower_requested_dbm'', JFloat dbm), (''wlan_txpower_set'', JBool False), (''wlan_txpower_error'', JStr ''iw not found'')] \<or>
    d = [(''wlan_txpower_requested_dbm'', JFloat dbm), (''wlan_txpower_set'', JBool False), (''wlan_txpower_error'', JStr ''not root, no sudo'')]"
    using assms by (cases "iw_binary no") (auto simp: set_wlan_txpower_def Let_def)
  then show ?thesis using False by auto
qed

text \<open>The placeholder the driver prints without a measurement matches a request for that number, although the same
  report marks it as not to be trusted.\<close>

theorem txpower_matched_witness:
  "\<exists>d st. set_wlan_txpower one_interface () ''wlan0'' 31 = ((), Inr d) \<and> map_of d ''wlan_txpower_matched'' = Some (JBool True) \<and>
     wlan_state one_interface () ''wlan0'' = ((), Inr st) \<and> map_of st ''wlan_txpower_trusted'' = Some (JBool False)"
proof -
  have iw: "iw_binary one_interface = Some ''/sbin/iw''" by (simp add: iw_binary_def one_interface_def)
  have run: "no_run one_interface = (\<lambda>m args. (m, Ran 0 (if last args = ''info'' then ''type managed txpower 31.00 dBm'' else []) []))"
    "no_root one_interface" by (simp_all add: one_interface_def)
  have pats: "search_for txpower_pattern ''type managed txpower 31.00 dBm'' = Some ''31.00''"
    "search_for power_save_pattern [] = None" "search_for channel_pattern ''type managed txpower 31.00 dBm'' = None"
    "search_for type_pattern ''type managed txpower 31.00 dBm'' = Some ''managed''" by code_simp+
  have f: "dec_float ''31.00'' = Inr 31" by (simp add: dec_float_def is_digit_def decimal_def)
  have st: "wlan_state one_interface () ''wlan0'' = ((), Inr [(''wlan_txpower_dbm'', JFloat 31), (''wlan_txpower_trusted'', JBool False),
     (''wlan_txpower_note'', JStr ''driver placeholder, not a measurement -- treat as unknown''), (''wlan_type'', JStr ''managed'')])"
    by (simp add: wlan_state_def iw run_text_def run pats power_fields_def f del: search_for.simps)
  have e: "\<exists>d. set_wlan_txpower one_interface () ''wlan0'' 31 = ((), Inr d) \<and> map_of d ''wlan_txpower_readback_dbm'' = Some (JFloat 31)"
    using st by (simp add: set_wlan_txpower_def iw run readback_fields_def command_fields_def)
  then obtain d where d: "set_wlan_txpower one_interface () ''wlan0'' 31 = ((), Inr d)" "map_of d ''wlan_txpower_readback_dbm'' = Some (JFloat 31)"
    by blast
  have "map_of d ''wlan_txpower_matched'' = Some (JBool True)"
    using txpower_matched [OF d(1)] st d(2) iw run(2) by force
  then show ?thesis using d(1) st by force
qed

text \<open>Documented as never raising, the report of the radio raises when the tool prints a power that is no number.\<close>

lemma wlan_state_raises:
  "wlan_state (one_interface\<lparr>no_run := \<lambda>m args. (m, Ran 0 ''txpower - dBm'' [])\<rparr>) () ''wlan0'' = ((), Inl ValueError)"
proof -
  have "search_for txpower_pattern ''txpower - dBm'' = Some ''-''" by code_simp
  then show ?thesis by (simp add: wlan_state_def iw_binary_def run_text_def one_interface_def power_fields_def dec_float_def del: search_for.simps)
qed

end
