(* ===== verification/Spec2Isabelle.thy ===== *)
theory Spec2Isabelle
  imports Prelude Generators Manifest Bytes Numeric Pcg32 Codec LinkMonitor Crc16 StreamParser FrameParser ProtoPayload
    AdvData Hci Clock Neighbors Transports SerialLink ControllerBase FiniteTime
    Plant VirtualLayer Interfaces Microgrid Agent AgentNetwork Assignment Relay MultiTransport
    Validate RunLog Control Controllers Service ServiceRuns Runner Fleet
    Effort Units RunLoad EventLoop Simulation BleRadio Campaign Metrics Report HostNet
begin

text \<open>
  This library models the \<^verbatim>\<open>vertex\<close> testbed: a fleet of agents on small computers and radio boards
  that run a distributed control law over BLE and UDP. A hub hands every agent an assignment; an
  agent ticks its controller at a fixed period, publishes its virtual state to its neighbours and
  keeps a table of what it hears; an agent of type \<^verbatim>\<open>ble\<close> instead relays its assignment to a
  board over a serial line and collects the board's reports.

  \<^bold>\<open>Conventions.\<close> \<open>Prelude\<close>: a Python exception is a value of \<open>exn\<close> and a call that can raise
  returns \<open>exn + 'a\<close>; messages are not modelled. \<open>Bytes\<close>: \<^verbatim>\<open>bytes\<close> and \<^verbatim>\<open>struct\<close>. Python ints are
  \<open>int\<close>; where the code converts a float of engineering units to an integer, \<open>Numeric\<close> has NaN,
  infinities and negative zero as values; everywhere else a float is a real, so rounding is not
  modelled. Operations keep the names of the source; where a method mutates, the definition
  returns the updated record.

  \<^bold>\<open>Numbers and wire formats.\<close> \<open>Numeric\<close> (\<^verbatim>\<open>numeric.py\<close>), \<open>Pcg32\<close> (\<^verbatim>\<open>pcg32.py\<close> and the
  firmware's \<^verbatim>\<open>prng.c\<close>, proved equal), \<open>Codec\<close> and \<open>LinkMonitor\<close> (\<^verbatim>\<open>wire/codec.py\<close>: packets in
  three versions, per-link loss and delay), \<open>AdvData\<close> and \<open>Hci\<close> (\<^verbatim>\<open>radio/\<close>: advertising data,
  the blocking command loop of the controller socket). The lemmas are round trips, strictness of
  the decoders and bounds.

  \<^bold>\<open>Serial line.\<close> \<open>Crc16\<close>, \<open>StreamParser\<close>, \<open>FrameParser\<close>, \<open>ProtoPayload\<close> (\<^verbatim>\<open>serial/proto.py\<close>,
  \<^verbatim>\<open>proto.c\<close>) and \<open>SerialLink\<close> (\<^verbatim>\<open>serial/link.py\<close>). The locale \<open>frame_stream\<close> of \<open>StreamParser\<close> is
  the contract between the byte loop and the frame machine; \<open>FrameParser\<close> discharges it. Frames come out
  whole and in order over any fragmentation and any noise without the start byte, and what the parser
  yields on any bytes was on the wire.

  \<^bold>\<open>Manifests.\<close> \<open>Generators\<close>, \<open>Manifest\<close> and \<open>Validate\<close> (\<^verbatim>\<open>topology/\<close>): generated graphs, the
  models of a manifest with their checks, the assignments made from it, and the graph checks over
  networkx's reachability, a parameter. Every assignment of a valid manifest is accepted by the agent.

  \<^bold>\<open>Agent.\<close> \<open>Clock\<close> (\<^verbatim>\<open>clock.py\<close>), \<open>Neighbors\<close> (\<^verbatim>\<open>agent/neighbors.py\<close>), \<open>Transports\<close> and
  \<open>MultiTransport\<close> (\<^verbatim>\<open>transports/\<close>, with the contract \<open>broadcast_medium\<close> that UDP, the in-process
  bus and BLE meet), \<open>BleRadio\<close> (the life of a BLE transport, \<^verbatim>\<open>transports/ble.py\<close> over the socket of
  \<^verbatim>\<open>radio/hci.py\<close>: the command sequences of start and stop against any controller), \<open>ControllerBase\<close>, \<open>FiniteTime\<close>, \<open>Plant\<close>, \<open>VirtualLayer\<close>, \<open>Interfaces\<close>,
  \<open>Microgrid\<close> (\<^verbatim>\<open>controllers/\<close>, contracts \<open>coordination_law\<close> and \<open>physical_interface\<close>),
  \<open>Controllers\<close> (the registry: three laws behind one interface, with the log columns each declares),
  \<open>Agent\<close> (\<^verbatim>\<open>agent/agent.py\<close>), \<open>AgentNetwork\<close> (agents exchanging packets as a step relation; the
  contract \<open>banded_law\<close> carries a band of virtual states through it), \<open>Assignment\<close> and \<open>Relay\<close>
  (\<^verbatim>\<open>agent/assignment.py\<close>, \<^verbatim>\<open>agent/relay.py\<close>).

  \<^bold>\<open>Service and hub.\<close> \<open>RunLog\<close> (\<^verbatim>\<open>agent/runlog.py\<close>: the binary log and its recovery), \<open>Control\<close>
  (\<^verbatim>\<open>control/\<close>: requests, responses and blobs over a chunked stream), \<open>Service\<close> and \<open>ServiceRuns\<close>
  (\<^verbatim>\<open>agent/service.py\<close>: the command handlers, the control loop with its log, whole runs), \<open>Runner\<close>
  and \<open>Fleet\<close> (\<^verbatim>\<open>hub/runner.py\<close>: the phases of a run over any nodes, then over agent services). The
  refinement lemmas of \<open>Fleet\<close> and \<open>ServiceRuns\<close> end in the files: what is collected is what the
  control loops produced, with the metadata of the assignment they ran under.

  \<^bold>\<open>Simulator and analysis.\<close> \<open>EventLoop\<close> (\<^verbatim>\<open>sim/runner.py\<close>: tasks, the turns of the event loop and
  the driver of the virtual clock; contracts \<open>sim_program\<close> and \<open>sim_ranked\<close>) and \<open>Simulation\<close>
  (\<^verbatim>\<open>sim/experiment.py\<close>: the agents of a manifest under it). \<open>Units\<close>, \<open>RunLoad\<close> and \<open>Effort\<close>
  (\<^verbatim>\<open>analysis/\<close>: unit systems, loading a node's log with its figures, rebuilding a command from states: exact on
  unrounded values, with a bound for values rounded to the fixed point of a frame).

  \<^bold>\<open>Campaign.\<close> \<open>Campaign\<close> (\<^verbatim>\<open>tools/make_manifests.py\<close>): every experiment document as a function of the
  host addresses, and the tool that writes them. An executable check of each graph over node ids is
  carried by general lemmas to the loaded manifest, so all documents load and pass validation.

  \<^bold>\<open>Benchmark.\<close> \<open>Metrics\<close> and \<open>Report\<close> (\<^verbatim>\<open>tools/dg5_metrics.py\<close>): the figures of a run from the columns of
  its nodes, the paired interval, the tables, and the tool that reads the run directories. A settling
  time is a persistent entrance, the effort splits at the deadline, the directories the hub names are
  filed under their arm and trial unless the base name has a tag of its own.

  \<^bold>\<open>Host.\<close> \<open>HostNet\<close> (\<^verbatim>\<open>net.py\<close>): addresses and their text, the broadcast address asked of the kernel and
  the one of an assumed prefix, the report of the radio parsed from \<^verbatim>\<open>iw\<close> and a transmit power that matched.

  \<^bold>\<open>Bounds and fuel.\<close> The driver of a simulation takes its two bounds from the code, 2000000 steps
  and 1000 turns per step; three turns are enough for the agents' tasks, because a task that runs
  creates only tasks of lower rank. The reachability of \<open>Validate\<close> iterates as often as there are
  nodes. A line of the control channel ends at the 64 KiB limit of an asyncio stream. Every other
  recursion is over data.

  \<^bold>\<open>Not modelled.\<close> The kernel's sockets, HCI devices and serial ports, and the threads that read them;
  the text formats of the log, the environment metadata of a run and the parts of a status made of
  it; YAML and the coercions of pydantic; the rounding of floats; the shuffle of the arms,
  \<^verbatim>\<open>run.json\<close>, descriptions and printed summaries; the firmware but for its
  generator and checksum, so the float32 law of a board too; the plotting and capture tools, scripts and tests.
\<close>

end
